(* ===== verification/Prelude.thy ===== *)
theory Prelude
  imports Complex_Main "HOL-Library.AList" "HOL-Library.Multiset" "HOL-Library.Char_ord"
    "HOL-Library.List_Lexorder" "HOL-Library.Product_Lexorder"
begin

text \<open>
  Shared vocabulary of the development: Go's strings, times, maps, fixed-width integers and
  errors, and the generic lemmas the components' proofs rest on.

  \<^item> A Go string is a \<open>string\<close> (a list of bytes); the empty string is Go's zero value, and
    \<open><\<close> on strings is the bytewise lexicographic order (\<open>List_Lexorder\<close> over \<open>Char_ord\<close>).
  \<^item> A \<open>time.Time\<close> is a number of nanoseconds after Go's zero time, so \<open>IsZero\<close> is \<open>= 0\<close>,
    \<open>Before\<close> is \<open><\<close> and \<open>Sub\<close> is subtraction. Operations that read the clock or make an ID
    take the value read as an argument.
  \<^item> A Go map that the code iterates is an association list with distinct keys, read with
    \<open>map_of\<close> and written with \<open>AList.update\<close> and \<open>AList.delete\<close>. Go leaves the
    iteration order open, so facts about what an iteration collects are stated up to order.
    A map that is only looked up is a partial function.
  \<^item> \<open>int64\<close> (and \<open>int\<close> on the 64-bit targets) is \<open>int\<close>, with \<open>wrap64\<close> written at the
    additions and subtractions whose overflow matters.
  \<^item> An error is a \<open>goerr\<close>: a sentinel, or a text with the errors it wraps (\<open>%w\<close>);
    \<open>errors_is\<close> is \<open>errors.Is\<close>. The operands formatted into a text are left out of it.
\<close>

named_theorems go_simps \<comment> \<open>lookups in updated maps and lists\<close>

section \<open>Go values\<close>

type_synonym time = int
type_synonym duration = int

type_synonym ('k, 'v) gomap = "('k \<times> 'v) list"

abbreviation mput :: "'k \<Rightarrow> 'v \<Rightarrow> ('k, 'v) gomap \<Rightarrow> ('k, 'v) gomap" where
  "mput \<equiv> AList.update"

abbreviation mdel :: "'k \<Rightarrow> ('k, 'v) gomap \<Rightarrow> ('k, 'v) gomap" where
  "mdel \<equiv> AList.delete"

abbreviation mvals :: "('k, 'v) gomap \<Rightarrow> 'v list" where
  "mvals m \<equiv> map snd m"

definition wf_map :: "('k, 'v) gomap \<Rightarrow> bool" where
  "wf_map m \<longleftrightarrow> distinct (map fst m)"

text \<open>\<open>delete(m, k)\<close> for every entry that satisfies a condition, inside \<open>range m\<close>.\<close>

definition mdel_where :: "('k \<Rightarrow> 'v \<Rightarrow> bool) \<Rightarrow> ('k, 'v) gomap \<Rightarrow> ('k, 'v) gomap" where
  "mdel_where P m = filter (\<lambda>(k, v). \<not> P k v) m"

text \<open>\<open>m[k] = f(m[k])\<close> for every entry, inside \<open>range m\<close>.\<close>

definition mmap :: "('v \<Rightarrow> 'w) \<Rightarrow> ('k, 'v) gomap \<Rightarrow> ('k, 'w) gomap" where
  "mmap f m = map (\<lambda>(k, v). (k, f v)) m"

section \<open>Fixed-width integers\<close>

definition wrap64 :: "int \<Rightarrow> int" where
  "wrap64 n = (n + 2 ^ 63) mod 2 ^ 64 - 2 ^ 63"

definition in64 :: "int \<Rightarrow> bool" where
  "in64 n \<longleftrightarrow> - (2 ^ 63) \<le> n \<and> n < 2 ^ 63"

definition add64 :: "int \<Rightarrow> int \<Rightarrow> int" where
  "add64 a b = wrap64 (a + b)"

definition sub64 :: "int \<Rightarrow> int \<Rightarrow> int" where
  "sub64 a b = wrap64 (a - b)"

lemma wrap64_id [simp]: "in64 n \<Longrightarrow> wrap64 n = n"
  by (simp add: wrap64_def in64_def)

lemma in64_wrap64 [simp]: "in64 (wrap64 n)"
  by (simp add: wrap64_def in64_def)

lemma add64_exact: "in64 (a + b) \<Longrightarrow> add64 a b = a + b"
  by (simp add: add64_def)

lemma sub64_exact: "in64 (a - b) \<Longrightarrow> sub64 a b = a - b"
  by (simp add: sub64_def)

lemma in64_add64 [simp]: "in64 (add64 a b)" and in64_sub64 [simp]: "in64 (sub64 a b)"
  by (simp_all add: add64_def sub64_def)

lemma add64_0 [simp]: "in64 a \<Longrightarrow> add64 a 0 = a" "in64 b \<Longrightarrow> add64 0 b = b"
  by (simp_all add: add64_def)

text \<open>Wrapping twice around is the identity: subtracting what was added restores the value.\<close>

lemma sub64_add64: "in64 a \<Longrightarrow> sub64 (add64 a b) b = a"
proof -
  assume a: "in64 a"
  have "wrap64 (wrap64 (a + b) - b) = wrap64 a"
    by (simp add: wrap64_def algebra_simps mod_simps)
  then show ?thesis using a by (simp add: add64_def sub64_def)
qed

section \<open>Errors\<close>

datatype sentinel =
    ErrBudgetExceeded | ErrPolicyDenied | ErrOverloaded | ErrNotFound | ErrConflict
  | CtxCanceled | CtxDeadlineExceeded
  | ErrUnsupported | ErrNoFixture | ErrNoScript | ErrTransient | ErrNoSecret
  | ErrModelCall | ErrLoopDetected | ErrPaused | ErrShutdown | ErrLeaseLost
  | ErrInvalidAgent | ErrNotRecorded | ErrInvalidMemory | ErrMemoryTooLarge

datatype goerr = Sentinel sentinel | Errorf string "goerr list"

fun errors_is :: "goerr \<Rightarrow> sentinel \<Rightarrow> bool" where
  "errors_is (Sentinel s) t \<longleftrightarrow> s = t"
| "errors_is (Errorf m es) t \<longleftrightarrow> list_ex (\<lambda>e. errors_is e t) es"

abbreviation new_error :: "string \<Rightarrow> goerr" where
  "new_error m \<equiv> Errorf m []"

section \<open>Generic lemmas\<close>

lemma map_of_mdel_where [go_simps]:
  "wf_map m \<Longrightarrow> map_of (mdel_where P m) k =
     (case map_of m k of None \<Rightarrow> None | Some v \<Rightarrow> if P k v then None else Some v)"
proof (induction m)
  case Nil
  then show ?case by (simp add: mdel_where_def)
next
  case (Cons a m)
  obtain k' v' where [simp]: "a = (k', v')" by (cases a)
  from Cons.prems have fresh: "k' \<notin> fst ` set m" and wf: "wf_map m"
    by (auto simp: wf_map_def)
  have "map_of m k = None" if "k = k'"
    using fresh that by (simp add: map_of_eq_None_iff)
  with Cons.IH [OF wf] show ?case
    by (auto simp: mdel_where_def split: option.splits)
qed

lemma map_of_mmap [go_simps]: "map_of (mmap f m) k = map_option f (map_of m k)"
  by (induction m) (auto simp: mmap_def)

lemma wf_map_Nil [simp]: "wf_map []"
  by (simp add: wf_map_def)

lemma wf_map_single [simp]: "wf_map [(k, v)]"
  by (simp add: wf_map_def)

lemma wf_map_mput [simp]: "wf_map m \<Longrightarrow> wf_map (mput k v m)"
  by (simp add: wf_map_def distinct_update)

lemma wf_map_mdel [simp]: "wf_map m \<Longrightarrow> wf_map (mdel k m)"
  by (simp add: wf_map_def distinct_delete)

lemma wf_map_mdel_where [simp]: "wf_map m \<Longrightarrow> wf_map (mdel_where P m)"
  unfolding wf_map_def mdel_where_def by (rule distinct_map_filter)

lemma map_fst_mmap [simp]: "map fst (mmap f m) = map fst m"
  by (induction m) (auto simp: mmap_def)

lemma wf_map_mmap [simp]: "wf_map (mmap f m) = wf_map m"
  by (simp add: wf_map_def)

lemma map_of_mput [go_simps]: "map_of (mput k v m) k' = (if k' = k then Some v else map_of m k')"
  by (simp add: update_conv)

lemma map_of_mdel [go_simps]: "map_of (mdel k m) k' = (if k' = k then None else map_of m k')"
  by (simp add: delete_conv)

text \<open>What a loop over a map's values sees is exactly what lookups can return.\<close>

lemma update_new: "map_of m k = None \<Longrightarrow> mput k v m = m @ [(k, v)]"
  by (induction m) auto

lemma in_mvals_iff: "wf_map m \<Longrightarrow> v \<in> set (mvals m) \<longleftrightarrow> (\<exists>k. map_of m k = Some v)"
  by (auto simp: wf_map_def image_iff map_of_eq_Some_iff) (metis snd_conv)

lemma list_ex_member_eq: "list_ex (\<lambda>y. y = x) xs \<longleftrightarrow> x \<in> set xs"
  by (auto simp: list_ex_iff)

text \<open>The last \<open>n\<close> elements; sliding the window one element at a time keeps the last ones of all.\<close>

definition lastn :: "nat \<Rightarrow> 'a list \<Rightarrow> 'a list" where
  "lastn n xs = drop (length xs - n) xs"

lemma lastn_Nil [simp]: "lastn n [] = []"
  by (simp add: lastn_def)

lemma length_lastn [simp]: "length (lastn n xs) = min n (length xs)"
  by (simp add: lastn_def min_def)

lemma lastn_all: "length xs \<le> n \<Longrightarrow> lastn n xs = xs"
  by (simp add: lastn_def)

lemma lastn_slide: "lastn n (lastn n xs @ [x]) = lastn n (xs @ [x])"
proof (cases "length xs \<le> n")
  case False
  then have "Suc (length xs - n) = Suc (length xs) - n" by simp
  with False show ?thesis by (cases n) (simp_all add: lastn_def)
qed (simp add: lastn_all)

lemma drop_int_lastn: "0 \<le> m \<Longrightarrow> drop (nat (int (length xs) - m)) xs = lastn (nat m) xs"
  by (simp add: lastn_def nat_diff_distrib')

end
