(* ===== verification/CoreTypes.thy ===== *)
theory CoreTypes
  imports Prelude
begin

text \<open>
  The shared domain types of package \<open>core\<close> (\<open>core/types.go\<close>, \<open>core/tool.go\<close>): IDs,
  run and task statuses, visibilities, events, limits, usage and tool definitions. Limits and
  usage come with their operations and the facts about a run's effective limits, which
  \<open>prepareRun\<close> computes as \<open>in.Limits.Fill(defaults).Defaults().Cap(max)\<close>.
  A status that Go keeps as a string has a constructor for the empty string.
\<close>

section \<open>Identifiers and enumerations\<close>

type_synonym TenantID = string
type_synonym PrincipalID = string
type_synonym SessionID = string
type_synonym RunID = string
type_synonym TaskID = string
type_synonym StepID = string
type_synonym EventID = string
type_synonym ApprovalID = string
type_synonym ToolID = string

definition DefaultTenant :: TenantID where
  "DefaultTenant = ''00000000-0000-0000-0000-000000000001''"

definition DefaultPrincipal :: PrincipalID where
  "DefaultPrincipal = ''00000000-0000-0000-0000-000000000002''"

definition SystemPrincipal :: PrincipalID where
  "SystemPrincipal = ''00000000-0000-0000-0000-000000000003''"

datatype RunStatus =
    RunUnset \<comment> \<open>the empty string\<close>
  | RunQueued | RunRunning | RunAwaitingApproval | RunPaused | RunCanceling
  | RunCanceled | RunSucceeded | RunFailed | RunTimedOut

fun Terminal :: "RunStatus \<Rightarrow> bool" where
  "Terminal s = (case s of
      RunCanceled \<Rightarrow> True | RunSucceeded \<Rightarrow> True | RunFailed \<Rightarrow> True | RunTimedOut \<Rightarrow> True
    | _ \<Rightarrow> False)"

datatype TaskStatus =
    TaskUnset \<comment> \<open>the empty string\<close>
  | TaskPending | TaskRunning | TaskCompleted | TaskFailed | TaskCanceled

text \<open>Visibilities and side-effect levels come from configuration, so any string may occur.\<close>

type_synonym Visibility = string

abbreviation VisibilityPublic :: Visibility where "VisibilityPublic \<equiv> ''public''"
abbreviation VisibilityParticipant :: Visibility where "VisibilityParticipant \<equiv> ''participant''"
abbreviation VisibilityInternal :: Visibility where "VisibilityInternal \<equiv> ''internal''"
abbreviation VisibilityHiddenReasoning :: Visibility where
  "VisibilityHiddenReasoning \<equiv> ''hidden_reasoning''"
abbreviation VisibilityAudit :: Visibility where "VisibilityAudit \<equiv> ''audit''"

type_synonym SideEffectLevel = string

abbreviation SideNone :: SideEffectLevel where "SideNone \<equiv> ''none''"
abbreviation SideReadExternal :: SideEffectLevel where "SideReadExternal \<equiv> ''read_external''"
abbreviation SideWriteInternal :: SideEffectLevel where "SideWriteInternal \<equiv> ''write_internal''"
abbreviation SideWriteExternal :: SideEffectLevel where "SideWriteExternal \<equiv> ''write_external''"
abbreviation SideDangerous :: SideEffectLevel where "SideDangerous \<equiv> ''dangerous''"

type_synonym IdempotencyHint = string

abbreviation IdemUnknown :: IdempotencyHint where "IdemUnknown \<equiv> ''unknown''"
abbreviation IdemIdempotent :: IdempotencyHint where "IdemIdempotent \<equiv> ''idempotent''"
abbreviation IdemConditionalIdempotent :: IdempotencyHint where
  "IdemConditionalIdempotent \<equiv> ''conditionally_idempotent''"
abbreviation IdemNonIdempotent :: IdempotencyHint where "IdemNonIdempotent \<equiv> ''non_idempotent''"

type_synonym ConcurrencyClass = string

abbreviation ConcurrencySerial :: ConcurrencyClass where "ConcurrencySerial \<equiv> ''serial''"
abbreviation ConcurrencyParallelRead :: ConcurrencyClass where
  "ConcurrencyParallelRead \<equiv> ''parallel_read''"
abbreviation ConcurrencyParallelIsolatedWrite :: ConcurrencyClass where
  "ConcurrencyParallelIsolatedWrite \<equiv> ''parallel_isolated_write''"
abbreviation ConcurrencyExclusive :: ConcurrencyClass where "ConcurrencyExclusive \<equiv> ''exclusive''"
abbreviation ConcurrencyExternalSideEffect :: ConcurrencyClass where
  "ConcurrencyExternalSideEffect \<equiv> ''external_side_effect''"

text \<open>Event type names.\<close>

abbreviation EvHumanMessage :: string where "EvHumanMessage \<equiv> ''human_message_created''"
abbreviation EvAgentMessage :: string where "EvAgentMessage \<equiv> ''agent_message_created''"
abbreviation EvAgentTrace :: string where "EvAgentTrace \<equiv> ''agent_trace_recorded''"
abbreviation EvSystem :: string where "EvSystem \<equiv> ''system_event_recorded''"
abbreviation EvModelStarted :: string where "EvModelStarted \<equiv> ''model_call_started''"
abbreviation EvModelCompleted :: string where "EvModelCompleted \<equiv> ''model_call_completed''"
abbreviation EvToolScheduled :: string where "EvToolScheduled \<equiv> ''tool_call_scheduled''"
abbreviation EvToolStarted :: string where "EvToolStarted \<equiv> ''tool_call_started''"
abbreviation EvToolCompleted :: string where "EvToolCompleted \<equiv> ''tool_call_completed''"
abbreviation EvApprovalReq :: string where "EvApprovalReq \<equiv> ''approval_requested''"
abbreviation EvApprovalRes :: string where "EvApprovalRes \<equiv> ''approval_resolved''"
abbreviation EvSnapshot :: string where "EvSnapshot \<equiv> ''snapshot_created''"
abbreviation EvArtifact :: string where "EvArtifact \<equiv> ''artifact_created''"
abbreviation EvTaskSpawned :: string where "EvTaskSpawned \<equiv> ''task_spawned''"
abbreviation EvTaskCompleted :: string where "EvTaskCompleted \<equiv> ''task_completed''"
abbreviation EvRunStateChanged :: string where "EvRunStateChanged \<equiv> ''run_state_changed''"
abbreviation EvError :: string where "EvError \<equiv> ''error_recorded''"

section \<open>JSON documents\<close>

text \<open>
  A \<open>json.RawMessage\<close> is \<open>None\<close> when empty and the document it holds otherwise;
  \<open>JInvalid\<close> stands for bytes that are not a JSON document.
\<close>

datatype json =
    JNull | JBool bool | JNum int | JStr string | JArr "json list"
  | JObj "(string \<times> json) list" | JInvalid string

type_synonym raw = "json option"

fun jfield :: "json \<Rightarrow> string \<Rightarrow> json option" where
  "jfield (JObj fs) k = map_of fs k"
| "jfield _ k = None"

section \<open>Events\<close>

record Event =
  ev_ID :: EventID
  ev_TenantID :: TenantID
  ev_SessionID :: SessionID
  ev_RunID :: RunID
  ev_Sequence :: int
  ev_SessionSequence :: int
  ev_Type :: string
  ev_Visibility :: Visibility
  ev_ActorID :: PrincipalID
  ev_TaskID :: TaskID
  ev_StepID :: StepID
  ev_ParentEventID :: EventID
  ev_CorrelationID :: string
  ev_CausationID :: string
  ev_Payload :: raw
  ev_HiddenPayload :: raw
  ev_OccurredAt :: time
  ev_RecordedAt :: time

text \<open>Go's zero value of \<open>core.Event\<close>, from which composite literals set fields.\<close>

definition Event0 :: Event where
  "Event0 = \<lparr>ev_ID = [], ev_TenantID = [], ev_SessionID = [], ev_RunID = [],
     ev_Sequence = 0, ev_SessionSequence = 0, ev_Type = [], ev_Visibility = [],
     ev_ActorID = [], ev_TaskID = [], ev_StepID = [], ev_ParentEventID = [],
     ev_CorrelationID = [], ev_CausationID = [], ev_Payload = None, ev_HiddenPayload = None,
     ev_OccurredAt = 0, ev_RecordedAt = 0\<rparr>"

section \<open>Tool definitions\<close>

record ToolDefinition =
  td_ID :: ToolID
  td_Name :: string
  td_Version :: string
  td_Description :: string
  td_InputSchema :: raw
  td_OutputSchema :: raw
  td_Idempotency :: IdempotencyHint
  td_SideEffect :: SideEffectLevel
  td_Concurrency :: ConcurrencyClass
  td_RequiresApproval :: bool
  td_Timeout :: duration

end
