(* ===== verification/RunLimits.thy ===== *)
theory RunLimits
  imports CoreTypes
begin

text \<open>
  Run limits and usage (\<open>core/types.go\<close>, lines 141 to 242): \<open>Fill\<close>, \<open>Defaults\<close> and
  \<open>Cap\<close>, which \<open>prepareRun\<close> chains into a run's effective limits, \<open>Negative\<close>, which
  config validation uses, and \<open>Usage.Add\<close> on 64-bit counters.
\<close>

record Limits =
  MaxDepth :: int
  MaxSubAgents :: int
  MaxConcurrent :: int
  MaxToolCalls :: int
  MaxModelCalls :: int
  MaxRuntime :: duration
  MaxPromptTokens :: int
  MaxCompletionTokens :: int
  MaxCostUnits :: int

definition Limits0 :: Limits where
  "Limits0 = \<lparr>MaxDepth = 0, MaxSubAgents = 0, MaxConcurrent = 0, MaxToolCalls = 0,
     MaxModelCalls = 0, MaxRuntime = 0, MaxPromptTokens = 0, MaxCompletionTokens = 0,
     MaxCostUnits = 0\<rparr>"

definition fillFrom :: "int \<Rightarrow> int \<Rightarrow> int" where
  "fillFrom v d = (if v \<le> 0 then d else v)"

definition defaultTo :: "int \<Rightarrow> int \<Rightarrow> int" where
  "defaultTo v d = (if v \<le> 0 then d else v)"

definition capAt :: "int \<Rightarrow> int \<Rightarrow> int" where
  "capAt v bound = (if bound > 0 \<and> (v \<le> 0 \<or> v > bound) then bound else v)"

definition Defaults :: "Limits \<Rightarrow> Limits" where
  "Defaults l = \<lparr>
     MaxDepth = defaultTo (MaxDepth l) 4,
     MaxSubAgents = defaultTo (MaxSubAgents l) 16,
     MaxConcurrent = defaultTo (MaxConcurrent l) 4,
     MaxToolCalls = defaultTo (MaxToolCalls l) 64,
     MaxModelCalls = defaultTo (MaxModelCalls l) 64,
     MaxRuntime = defaultTo (MaxRuntime l) (5 * 60 * 1000000000),
     MaxPromptTokens = max (MaxPromptTokens l) 0,
     MaxCompletionTokens = max (MaxCompletionTokens l) 0,
     MaxCostUnits = max (MaxCostUnits l) 0\<rparr>"

definition Fill :: "Limits \<Rightarrow> Limits \<Rightarrow> Limits" where
  "Fill l d = \<lparr>
     MaxDepth = fillFrom (MaxDepth l) (MaxDepth d),
     MaxSubAgents = fillFrom (MaxSubAgents l) (MaxSubAgents d),
     MaxConcurrent = fillFrom (MaxConcurrent l) (MaxConcurrent d),
     MaxToolCalls = fillFrom (MaxToolCalls l) (MaxToolCalls d),
     MaxModelCalls = fillFrom (MaxModelCalls l) (MaxModelCalls d),
     MaxRuntime = fillFrom (MaxRuntime l) (MaxRuntime d),
     MaxPromptTokens = fillFrom (MaxPromptTokens l) (MaxPromptTokens d),
     MaxCompletionTokens = fillFrom (MaxCompletionTokens l) (MaxCompletionTokens d),
     MaxCostUnits = fillFrom (MaxCostUnits l) (MaxCostUnits d)\<rparr>"

definition Negative :: "Limits \<Rightarrow> bool" where
  "Negative l \<longleftrightarrow> Min (set [MaxDepth l, MaxSubAgents l, MaxConcurrent l, MaxToolCalls l,
     MaxModelCalls l, MaxRuntime l, MaxPromptTokens l, MaxCompletionTokens l, MaxCostUnits l]) < 0"

definition Cap :: "Limits \<Rightarrow> Limits \<Rightarrow> Limits" where
  "Cap l bound = \<lparr>
     MaxDepth = capAt (MaxDepth l) (MaxDepth bound),
     MaxSubAgents = capAt (MaxSubAgents l) (MaxSubAgents bound),
     MaxConcurrent = capAt (MaxConcurrent l) (MaxConcurrent bound),
     MaxToolCalls = capAt (MaxToolCalls l) (MaxToolCalls bound),
     MaxModelCalls = capAt (MaxModelCalls l) (MaxModelCalls bound),
     MaxRuntime = capAt (MaxRuntime l) (MaxRuntime bound),
     MaxPromptTokens = capAt (MaxPromptTokens l) (MaxPromptTokens bound),
     MaxCompletionTokens = capAt (MaxCompletionTokens l) (MaxCompletionTokens bound),
     MaxCostUnits = capAt (MaxCostUnits l) (MaxCostUnits bound)\<rparr>"

text \<open>A run's effective limits, as \<open>prepareRun\<close> computes them.\<close>

definition effectiveLimits :: "Limits \<Rightarrow> Limits \<Rightarrow> Limits \<Rightarrow> Limits" where
  "effectiveLimits requested defaults bound = Cap (Defaults (Fill requested defaults)) bound"

section \<open>Usage\<close>

record Usage =
  PromptTokens :: int
  CompletionTokens :: int
  CachedTokens :: int
  TotalTokens :: int
  CostUnits :: int
  ModelCalls :: int
  ToolCalls :: int
  SubAgents :: int
  Runtime :: duration

definition Usage0 :: Usage where
  "Usage0 = \<lparr>PromptTokens = 0, CompletionTokens = 0, CachedTokens = 0, TotalTokens = 0,
     CostUnits = 0, ModelCalls = 0, ToolCalls = 0, SubAgents = 0, Runtime = 0\<rparr>"

definition Usage_Add :: "Usage \<Rightarrow> Usage \<Rightarrow> Usage" where
  "Usage_Add u p = \<lparr>
     PromptTokens = add64 (PromptTokens u) (PromptTokens p),
     CompletionTokens = add64 (CompletionTokens u) (CompletionTokens p),
     CachedTokens = add64 (CachedTokens u) (CachedTokens p),
     TotalTokens = add64 (TotalTokens u) (TotalTokens p),
     CostUnits = add64 (CostUnits u) (CostUnits p),
     ModelCalls = add64 (ModelCalls u) (ModelCalls p),
     ToolCalls = add64 (ToolCalls u) (ToolCalls p),
     SubAgents = add64 (SubAgents u) (SubAgents p),
     Runtime = add64 (Runtime u) (Runtime p)\<rparr>"

section \<open>Field by field\<close>

lemmas limit_field_defs = fillFrom_def defaultTo_def capAt_def
lemmas limits_defs = effectiveLimits_def Cap_def Defaults_def Fill_def

lemma capAt_le: "0 < c \<Longrightarrow> capAt v c \<le> c"
  by (simp add: capAt_def)

lemma capAt_pos: "0 < v \<Longrightarrow> 0 < capAt v c"
  by (simp add: capAt_def)

lemma capAt_nonneg: "0 \<le> v \<Longrightarrow> 0 \<le> capAt v c"
  by (simp add: capAt_def)

lemma capAt_mono_bound: "0 < v \<Longrightarrow> capAt v c \<le> v"
  by (simp add: capAt_def)

lemma capAt_id: "c \<le> 0 \<or> 0 < v \<and> v \<le> c \<Longrightarrow> capAt v c = v"
  by (auto simp: capAt_def)

lemma capAt_within: "c \<le> 0 \<or> 0 < capAt v c \<and> capAt v c \<le> c"
  by (auto simp: capAt_def)

lemma capAt_idem: "capAt (capAt v c) c = capAt v c"
  by (rule capAt_id [OF capAt_within])

lemma defaultTo_pos: "0 < d \<Longrightarrow> 0 < defaultTo v d"
  by (simp add: defaultTo_def)

text \<open>The limits that \<open>Defaults\<close> makes positive are those the runtime divides or loops by.\<close>

definition runnable_limits :: "Limits \<Rightarrow> bool" where
  "runnable_limits l \<longleftrightarrow>
     0 < MaxDepth l \<and> 0 < MaxSubAgents l \<and> 0 < MaxConcurrent l \<and> 0 < MaxToolCalls l \<and>
     0 < MaxModelCalls l \<and> 0 < MaxRuntime l \<and>
     0 \<le> MaxPromptTokens l \<and> 0 \<le> MaxCompletionTokens l \<and> 0 \<le> MaxCostUnits l"

definition under_ceiling :: "Limits \<Rightarrow> Limits \<Rightarrow> bool" where
  "under_ceiling l c \<longleftrightarrow> list_all (\<lambda>(v, m). m \<le> 0 \<or> (0 < v \<and> v \<le> m))
     [(MaxDepth l, MaxDepth c), (MaxSubAgents l, MaxSubAgents c),
      (MaxConcurrent l, MaxConcurrent c), (MaxToolCalls l, MaxToolCalls c),
      (MaxModelCalls l, MaxModelCalls c), (MaxRuntime l, MaxRuntime c),
      (MaxPromptTokens l, MaxPromptTokens c), (MaxCompletionTokens l, MaxCompletionTokens c),
      (MaxCostUnits l, MaxCostUnits c)]"

lemma Cap_idem: "Cap (Cap l c) c = Cap l c"
  by (simp add: Cap_def capAt_idem)

lemma runnable_Defaults: "runnable_limits (Defaults l)"
  by (simp add: runnable_limits_def Defaults_def defaultTo_def)

lemma runnable_Cap: "runnable_limits l \<Longrightarrow> runnable_limits (Cap l c)"
  by (simp add: runnable_limits_def Cap_def capAt_pos capAt_nonneg)

lemma under_ceiling_Cap: "under_ceiling (Cap l c) c"
  by (simp add: under_ceiling_def Cap_def capAt_within)

lemma Defaults_id: "runnable_limits l \<Longrightarrow> Defaults l = l"
  by (cases l) (simp add: runnable_limits_def Defaults_def defaultTo_def)

lemma Cap_id: "under_ceiling l c \<Longrightarrow> Cap l c = l"
  by (simp add: under_ceiling_def Cap_def capAt_id)

text \<open>Usage that stays in range adds exactly.\<close>

lemma Usage_Add_0: "Usage_Add Usage0 Usage0 = Usage0"
  by (simp add: Usage_Add_def Usage0_def in64_def)

section \<open>The effective limits of a run\<close>

text \<open>
  Whatever a caller asks for and however the deployment is configured, a run starts with positive
  depth, sub-agent, concurrency, call and runtime limits and with every limit at or below the
  deployment's ceiling where one is set; limits that already are in range are kept as asked, and
  preparing them again (as a resume does with the stored limits) changes nothing.
\<close>

lemma capAt_defaultTo_again: "0 < d \<Longrightarrow>
    capAt (defaultTo (fillFrom (capAt (defaultTo v d) c) f) d) c = capAt (defaultTo v d) c"
  by (auto simp: limit_field_defs)

lemma capAt_max_again:
  "capAt (max (fillFrom (capAt (max (fillFrom v f) 0) c) f) 0) c = capAt (max (fillFrom v f) 0) c"
  by (auto simp: limit_field_defs)

lemma effectiveLimits_again: "effectiveLimits (effectiveLimits l d c) d c = effectiveLimits l d c"
  unfolding limits_defs by (simp only: Limits.simps) (simp add: capAt_defaultTo_again capAt_max_again)

text \<open>A run's effective limits, whatever it asks for and however the deployment is
  configured, have positive depth, concurrency, call and runtime limits and stay at or below the
  ceiling in every field that has one; preparing them again changes nothing.\<close>

theorem effective_limits_sound:
  "runnable_limits (effectiveLimits l d c) \<and> under_ceiling (effectiveLimits l d c) c \<and>
   effectiveLimits (effectiveLimits l d c) d c = effectiveLimits l d c"
  by (simp add: effectiveLimits_again)
    (simp add: effectiveLimits_def runnable_Defaults runnable_Cap under_ceiling_Cap)

lemma Negative_iff: "Negative l \<longleftrightarrow>
    MaxDepth l < 0 \<or> MaxSubAgents l < 0 \<or> MaxConcurrent l < 0 \<or> MaxToolCalls l < 0 \<or>
    MaxModelCalls l < 0 \<or> MaxRuntime l < 0 \<or> MaxPromptTokens l < 0 \<or>
    MaxCompletionTokens l < 0 \<or> MaxCostUnits l < 0"
  unfolding Negative_def by (subst Min_less_iff) auto

end
