(* ===== verification/ToolPolicies.thy ===== *)
theory ToolPolicies
  imports RunLimits
begin

text \<open>
  Tool policies (\<open>policy/policy.go\<close>, lines 15 to 109): validation, the verdict of one policy on
  a tool definition (\<open>Authorize\<close>) and of several together (\<open>AuthorizeAll\<close>). The lemmas say
  what a verdict is in terms of the policy's lists, and that several policies are combined by
  conjunction of what they allow and disjunction of what they ask approval for.
\<close>

record ToolBudget =
  MaxCalls :: int
  MaxTime :: duration
  tb_MaxCostUnits :: int

record ToolPolicy =
  Allowlist :: "string list"
  Denylist :: "string list"
  ApprovalRequired :: "string list"
  DenySideEffects :: "SideEffectLevel list"
  ApproveSideEffects :: "SideEffectLevel list"
  Budgets :: "(string, ToolBudget) gomap"
  Timeouts :: "(string, duration) gomap"

definition ToolPolicy0 :: ToolPolicy where
  "ToolPolicy0 = \<lparr>Allowlist = [], Denylist = [], ApprovalRequired = [], DenySideEffects = [],
     ApproveSideEffects = [], Budgets = [], Timeouts = []\<rparr>"

section \<open>Validation\<close>

fun validateBudgets :: "(string, ToolBudget) gomap \<Rightarrow> goerr option" where
  "validateBudgets [] = None"
| "validateBudgets ((name, b) # bs) =
     (if MaxCalls b < 0 \<or> MaxTime b < 0 \<or> tb_MaxCostUnits b < 0
      then Some (new_error (''tool policy: budget of '' @ name @ '' must not be negative''))
      else validateBudgets bs)"

fun validateTimeouts :: "(string, duration) gomap \<Rightarrow> goerr option" where
  "validateTimeouts [] = None"
| "validateTimeouts ((name, d) # ds) =
     (if d \<le> 0
      then Some (new_error (''tool policy: timeout of '' @ name @ '' must be positive''))
      else validateTimeouts ds)"

fun validateLevels :: "SideEffectLevel list \<Rightarrow> goerr option" where
  "validateLevels [] = None"
| "validateLevels (level # ls) =
     (if level \<in> set [SideNone, SideReadExternal, SideWriteInternal, SideWriteExternal, SideDangerous]
      then validateLevels ls
      else Some (new_error (''tool policy: unknown side effect '' @ level)))"

definition ToolPolicy_Validate :: "ToolPolicy \<Rightarrow> goerr option" where
  "ToolPolicy_Validate p =
     (case validateBudgets (Budgets p) of
        Some e \<Rightarrow> Some e
      | None \<Rightarrow> (case validateTimeouts (Timeouts p) of
          Some e \<Rightarrow> Some e
        | None \<Rightarrow> validateLevels (DenySideEffects p @ ApproveSideEffects p)))"

definition known_side_effect :: "SideEffectLevel \<Rightarrow> bool" where
  "known_side_effect l \<longleftrightarrow>
     l \<in> {SideNone, SideReadExternal, SideWriteInternal, SideWriteExternal, SideDangerous}"

lemma validateBudgets_None: "validateBudgets bs = None \<longleftrightarrow>
    list_all (\<lambda>(_, b). 0 \<le> MaxCalls b \<and> 0 \<le> MaxTime b \<and> 0 \<le> tb_MaxCostUnits b) bs"
  by (induction bs rule: validateBudgets.induct) auto

lemma validateTimeouts_None: "validateTimeouts ds = None \<longleftrightarrow> list_all (\<lambda>(_, d). 0 < d) ds"
  by (induction ds rule: validateTimeouts.induct) auto

lemma validateLevels_None: "validateLevels ls = None \<longleftrightarrow> list_all known_side_effect ls"
  by (induction ls rule: validateLevels.induct) (auto simp: known_side_effect_def)

lemma ToolPolicy_Validate_iff:
  "ToolPolicy_Validate p = None \<longleftrightarrow>
     list_all (\<lambda>(_, b). 0 \<le> MaxCalls b \<and> 0 \<le> MaxTime b \<and> 0 \<le> tb_MaxCostUnits b) (Budgets p) \<and>
     list_all (\<lambda>(_, d). 0 < d) (Timeouts p) \<and>
     list_all known_side_effect (DenySideEffects p) \<and>
     list_all known_side_effect (ApproveSideEffects p)"
  by (auto simp: ToolPolicy_Validate_def validateBudgets_None [symmetric]
      validateTimeouts_None [symmetric] validateLevels_None list_all_append split: option.splits)

section \<open>Verdicts\<close>

type_synonym verdict = "bool \<times> bool \<times> string" \<comment> \<open>allowed, requiresApproval, reason\<close>

definition Authorize :: "ToolPolicy \<Rightarrow> ToolDefinition \<Rightarrow> verdict" where
  "Authorize p t =
    (if list_ex (\<lambda>d. d = td_Name t) (Denylist p) then (False, False, ''tool in denylist'')
     else if td_SideEffect t \<in> set (DenySideEffects p)
     then (False, False, ''tool side effect '' @ td_SideEffect t @ '' denied by policy'')
     else if length (Allowlist p) > 0 \<and> \<not> list_ex (\<lambda>a. a = td_Name t) (Allowlist p)
     then (False, False, ''tool not in allowlist'')
     else if td_RequiresApproval t then (True, True, ''tool definition requires approval'')
     else if list_ex (\<lambda>n. n = td_Name t) (ApprovalRequired p)
     then (True, True, ''tool requires approval per policy'')
     else if td_SideEffect t \<in> set (ApproveSideEffects p)
     then (True, True, ''tool side effect '' @ td_SideEffect t @ '' requires approval per policy'')
     else (True, False, []))"

fun authorizeLoop :: "ToolDefinition \<Rightarrow> ToolPolicy list \<Rightarrow> bool \<Rightarrow> string \<Rightarrow> verdict" where
  "authorizeLoop t [] requiresApproval reason = (True, requiresApproval, reason)"
| "authorizeLoop t (p # ps) requiresApproval reason =
     (case Authorize p t of (ok, approve, why) \<Rightarrow>
        if \<not> ok then (False, False, why)
        else if approve \<and> \<not> requiresApproval then authorizeLoop t ps True why
        else authorizeLoop t ps requiresApproval reason)"

definition AuthorizeAll :: "ToolDefinition \<Rightarrow> ToolPolicy list \<Rightarrow> verdict" where
  "AuthorizeAll t policies = authorizeLoop t policies False []"

text \<open>What one policy allows, and what it asks approval for, read off its lists.\<close>

definition permits :: "ToolPolicy \<Rightarrow> ToolDefinition \<Rightarrow> bool" where
  "permits p t \<longleftrightarrow> td_Name t \<notin> set (Denylist p) \<and> td_SideEffect t \<notin> set (DenySideEffects p) \<and>
     (Allowlist p = [] \<or> td_Name t \<in> set (Allowlist p))"

definition asks_approval :: "ToolPolicy \<Rightarrow> ToolDefinition \<Rightarrow> bool" where
  "asks_approval p t \<longleftrightarrow> td_RequiresApproval t \<or> td_Name t \<in> set (ApprovalRequired p) \<or>
     td_SideEffect t \<in> set (ApproveSideEffects p)"

lemma Authorize_allowed [simp]: "fst (Authorize p t) = permits p t"
  by (simp add: Authorize_def permits_def list_ex_member_eq)

lemma Authorize_approval [simp]: "fst (snd (Authorize p t)) = (permits p t \<and> asks_approval p t)"
  by (simp add: Authorize_def permits_def asks_approval_def list_ex_member_eq)

lemma Authorize_verdict:
  obtains why where "Authorize p t = (permits p t, permits p t \<and> asks_approval p t, why)"
proof (rule that)
  show "Authorize p t = (permits p t, permits p t \<and> asks_approval p t, snd (snd (Authorize p t)))"
    by (intro prod_eqI) simp_all
qed

lemma authorizeLoop_allowed: "fst (authorizeLoop t ps req why) = list_all (\<lambda>p. permits p t) ps"
proof (induction ps arbitrary: req why)
  case (Cons p ps)
  show ?case
    by (rule Authorize_verdict [of p t]) (simp add: Cons.IH)
qed simp

lemma authorizeLoop_approval: "fst (snd (authorizeLoop t ps req why)) =
    (list_all (\<lambda>p. permits p t) ps \<and> (req \<or> list_ex (\<lambda>p. asks_approval p t) ps))"
proof (induction ps arbitrary: req why)
  case (Cons p ps)
  show ?case
    by (rule Authorize_verdict [of p t]) (auto simp: Cons.IH)
qed simp

lemma AuthorizeAll_allowed [simp]: "fst (AuthorizeAll t ps) = list_all (\<lambda>p. permits p t) ps"
  by (simp add: AuthorizeAll_def authorizeLoop_allowed)

lemma AuthorizeAll_approval [simp]: "fst (snd (AuthorizeAll t ps)) =
    (list_all (\<lambda>p. permits p t) ps \<and> list_ex (\<lambda>p. asks_approval p t) ps)"
  by (simp add: AuthorizeAll_def authorizeLoop_approval)

text \<open>Every denial and every approval request gives a reason; a free call gives none.\<close>

lemma Authorize_reason: "snd (snd (Authorize p t)) = [] \<longleftrightarrow> permits p t \<and> \<not> asks_approval p t"
  by (simp add: Authorize_def permits_def asks_approval_def list_ex_member_eq)

lemma authorizeLoop_reason: "(req \<longleftrightarrow> why \<noteq> []) \<Longrightarrow>
    snd (snd (authorizeLoop t ps req why)) = [] \<longleftrightarrow>
    list_all (\<lambda>p. permits p t) ps \<and> \<not> req \<and> \<not> list_ex (\<lambda>p. asks_approval p t) ps"
proof (induction ps arbitrary: req why)
  case (Cons p ps)
  obtain reason where a: "Authorize p t = (permits p t, permits p t \<and> asks_approval p t, reason)"
    by (rule Authorize_verdict)
  with Authorize_reason [of p t] have r: "reason = [] \<longleftrightarrow> permits p t \<and> \<not> asks_approval p t"
    by simp
  show ?case
  proof (cases "permits p t \<and> asks_approval p t \<and> \<not> req")
    case True
    with Cons.IH [of True reason] r a show ?thesis by simp
  next
    case False
    with Cons.IH [OF Cons.prems] r a show ?thesis by (cases "permits p t") auto
  qed
qed simp

text \<open>Under several policies a tool is allowed exactly when every policy permits it (not
  denied by name or side effect, and on each allow list that is not empty), and a call needs
  approval exactly when some policy or the tool itself asks for it; every denial and every
  request for approval comes with a reason.\<close>

theorem AuthorizeAll_decides:
  "fst (AuthorizeAll t ps) = list_all (\<lambda>p. permits p t) ps \<and>
   fst (snd (AuthorizeAll t ps)) =
     (list_all (\<lambda>p. permits p t) ps \<and> list_ex (\<lambda>p. asks_approval p t) ps) \<and>
   (snd (snd (AuthorizeAll t ps)) = []) =
     (fst (AuthorizeAll t ps) \<and> \<not> fst (snd (AuthorizeAll t ps)))"
proof (intro conjI)
  show "(snd (snd (AuthorizeAll t ps)) = []) =
     (fst (AuthorizeAll t ps) \<and> \<not> fst (snd (AuthorizeAll t ps)))"
    unfolding AuthorizeAll_allowed AuthorizeAll_approval
    by (simp add: AuthorizeAll_def authorizeLoop_reason) blast
qed simp_all

text \<open>\<open>Validate\<close> accepts a policy exactly when no budget is negative, every timeout is
  positive and every side-effect level it lists is a known one.\<close>

theorem Validate_accepts:
  "ToolPolicy_Validate p = None \<longleftrightarrow>
     list_all (\<lambda>(_, b). 0 \<le> MaxCalls b \<and> 0 \<le> MaxTime b \<and> 0 \<le> tb_MaxCostUnits b) (Budgets p) \<and>
     list_all (\<lambda>(_, d). 0 < d) (Timeouts p) \<and>
     list_all known_side_effect (DenySideEffects p @ ApproveSideEffects p)"
  by (simp add: ToolPolicy_Validate_iff)

end
