(* ===== verification/Budget.thy ===== *)
theory Budget
  imports ToolPolicies
begin

text \<open>
  The budget manager (\<open>policy/policy.go\<close>, lines 111 to 333): per-run usage checked against the
  run's limits by \<open>Reserve\<close> and \<open>Commit\<close>, given back by \<open>Release\<close>, and per-tool use checked
  by \<open>ReserveTool\<close>. Every method holds the manager's mutex, so each is one atomic function of
  the state. Counters are 64-bit.

  The locale \<open>reservation\<close> is what the runtime relies on when it takes one unit (a tool call, a
  model call, a sub-agent) before doing work and gives it back when the work never started; it is
  interpreted on the manager for each of the three counters.
\<close>

record toolUse =
  tu_calls :: int
  tu_time :: duration
  tu_cost :: int

definition toolUse0 :: toolUse where
  "toolUse0 = \<lparr>tu_calls = 0, tu_time = 0, tu_cost = 0\<rparr>"

record BudgetManager =
  bm_usage :: "RunID \<rightharpoonup> Usage"
  bm_limits :: "RunID \<rightharpoonup> Limits"
  bm_tools :: "RunID \<rightharpoonup> (string \<rightharpoonup> toolUse)"

definition NewBudgetManager :: BudgetManager where
  "NewBudgetManager = \<lparr>bm_usage = Map.empty, bm_limits = Map.empty, bm_tools = Map.empty\<rparr>"

section \<open>Run budgets\<close>

definition checkLimits :: "Usage \<Rightarrow> Limits \<Rightarrow> goerr option" where
  "checkLimits u l =
    (if MaxToolCalls l > 0 \<and> ToolCalls u > MaxToolCalls l
     then Some (Errorf ''tool calls'' [Sentinel ErrBudgetExceeded])
     else if MaxModelCalls l > 0 \<and> ModelCalls u > MaxModelCalls l
     then Some (Errorf ''model calls'' [Sentinel ErrBudgetExceeded])
     else if MaxSubAgents l > 0 \<and> SubAgents u > MaxSubAgents l
     then Some (Errorf ''sub agents'' [Sentinel ErrBudgetExceeded])
     else if MaxPromptTokens l > 0 \<and> PromptTokens u > MaxPromptTokens l
     then Some (Errorf ''prompt tokens'' [Sentinel ErrBudgetExceeded])
     else if MaxCompletionTokens l > 0 \<and> CompletionTokens u > MaxCompletionTokens l
     then Some (Errorf ''completion tokens'' [Sentinel ErrBudgetExceeded])
     else if MaxCostUnits l > 0 \<and> CostUnits u > MaxCostUnits l
     then Some (Errorf ''cost units'' [Sentinel ErrBudgetExceeded])
     else None)"

text \<open>A lookup of a missing key in a Go map gives the zero value.\<close>

definition limitsOf :: "BudgetManager \<Rightarrow> RunID \<Rightarrow> Limits" where
  "limitsOf b run = (case bm_limits b run of None \<Rightarrow> Limits0 | Some l \<Rightarrow> l)"

definition Budget_Init :: "BudgetManager \<Rightarrow> RunID \<Rightarrow> Limits \<Rightarrow> BudgetManager" where
  "Budget_Init b run limits =
    (let b1 = (if bm_usage b run = None then b\<lparr>bm_usage := (bm_usage b)(run \<mapsto> Usage0)\<rparr> else b)
     in b1\<lparr>bm_limits := (bm_limits b1)(run \<mapsto> Defaults limits)\<rparr>)"

definition Reserve :: "BudgetManager \<Rightarrow> RunID \<Rightarrow> Usage \<Rightarrow> BudgetManager \<times> goerr option" where
  "Reserve b run used =
    (let u = (case bm_usage b run of None \<Rightarrow> Usage0 | Some u \<Rightarrow> u);
         b1 = b\<lparr>bm_usage := (bm_usage b)(run \<mapsto> u)\<rparr>;
         nxt = Usage_Add u used
     in case checkLimits nxt (limitsOf b1 run) of
          Some err \<Rightarrow> (b1, Some err)
        | None \<Rightarrow> (b1\<lparr>bm_usage := (bm_usage b1)(run \<mapsto> nxt)\<rparr>, None))"

definition ReserveToolCall :: "BudgetManager \<Rightarrow> RunID \<Rightarrow> BudgetManager \<times> goerr option" where
  "ReserveToolCall b run = Reserve b run (Usage0\<lparr>ToolCalls := 1\<rparr>)"

definition ReserveToolCalls :: "BudgetManager \<Rightarrow> RunID \<Rightarrow> int \<Rightarrow> BudgetManager \<times> goerr option" where
  "ReserveToolCalls b run n =
    (if n \<le> 0 then (b, None) else Reserve b run (Usage0\<lparr>ToolCalls := n\<rparr>))"

definition ReserveModelCall :: "BudgetManager \<Rightarrow> RunID \<Rightarrow> BudgetManager \<times> goerr option" where
  "ReserveModelCall b run = Reserve b run (Usage0\<lparr>ModelCalls := 1\<rparr>)"

definition ReserveSubAgent :: "BudgetManager \<Rightarrow> RunID \<Rightarrow> BudgetManager \<times> goerr option" where
  "ReserveSubAgent b run = Reserve b run (Usage0\<lparr>SubAgents := 1\<rparr>)"

definition maxInt64 :: "int \<Rightarrow> int \<Rightarrow> int" where
  "maxInt64 a b = (if a > b then a else b)"

definition Release :: "BudgetManager \<Rightarrow> RunID \<Rightarrow> Usage \<Rightarrow> BudgetManager" where
  "Release b run used =
    (case bm_usage b run of
       None \<Rightarrow> b
     | Some u \<Rightarrow>
        let rt = sub64 (Runtime u) (Runtime used);
            u' = \<lparr>
              PromptTokens = maxInt64 0 (sub64 (PromptTokens u) (PromptTokens used)),
              CompletionTokens = maxInt64 0 (sub64 (CompletionTokens u) (CompletionTokens used)),
              CachedTokens = maxInt64 0 (sub64 (CachedTokens u) (CachedTokens used)),
              TotalTokens = maxInt64 0 (sub64 (TotalTokens u) (TotalTokens used)),
              CostUnits = maxInt64 0 (sub64 (CostUnits u) (CostUnits used)),
              ModelCalls = maxInt64 0 (sub64 (ModelCalls u) (ModelCalls used)),
              ToolCalls = maxInt64 0 (sub64 (ToolCalls u) (ToolCalls used)),
              SubAgents = maxInt64 0 (sub64 (SubAgents u) (SubAgents used)),
              Runtime = (if rt < 0 then 0 else rt)\<rparr>
        in b\<lparr>bm_usage := (bm_usage b)(run \<mapsto> u')\<rparr>)"

definition Commit :: "BudgetManager \<Rightarrow> RunID \<Rightarrow> Usage \<Rightarrow> BudgetManager \<times> goerr option" where
  "Commit b run used =
    (let u = (case bm_usage b run of None \<Rightarrow> Usage0 | Some u \<Rightarrow> u);
         u' = Usage_Add u used;
         b1 = b\<lparr>bm_usage := (bm_usage b)(run \<mapsto> u')\<rparr>
     in (b1, checkLimits u' (limitsOf b1 run)))"

definition Forget :: "BudgetManager \<Rightarrow> RunID \<Rightarrow> BudgetManager" where
  "Forget b run = b\<lparr>bm_usage := (bm_usage b)(run := None), bm_limits := (bm_limits b)(run := None),
     bm_tools := (bm_tools b)(run := None)\<rparr>"

definition Snapshot :: "BudgetManager \<Rightarrow> RunID \<Rightarrow> Usage" where
  "Snapshot b run = (case bm_usage b run of Some u \<Rightarrow> u | None \<Rightarrow> Usage0)"

section \<open>Tool budgets\<close>

text \<open>\<open>toolUse\<close> returns a pointer into the map, creating a zero entry; \<open>setToolUse\<close> is a write
  through that pointer.\<close>

definition toolUseOf :: "BudgetManager \<Rightarrow> RunID \<Rightarrow> string \<Rightarrow> toolUse" where
  "toolUseOf b run name =
    (case bm_tools b run of
       None \<Rightarrow> toolUse0
     | Some m \<Rightarrow> (case m name of None \<Rightarrow> toolUse0 | Some u \<Rightarrow> u))"

definition setToolUse :: "BudgetManager \<Rightarrow> RunID \<Rightarrow> string \<Rightarrow> toolUse \<Rightarrow> BudgetManager" where
  "setToolUse b run name u =
    (let m = (case bm_tools b run of None \<Rightarrow> Map.empty | Some m \<Rightarrow> m)
     in b\<lparr>bm_tools := (bm_tools b)(run \<mapsto> m(name \<mapsto> u))\<rparr>)"

fun usedUpBudget :: "toolUse \<Rightarrow> ToolBudget list \<Rightarrow> goerr option" where
  "usedUpBudget u [] = None"
| "usedUpBudget u (bud # buds) =
    (if MaxCalls bud > 0 \<and> tu_calls u \<ge> MaxCalls bud
     then Some (Errorf ''tool calls in a run'' [Sentinel ErrBudgetExceeded])
     else if MaxTime bud > 0 \<and> tu_time u \<ge> MaxTime bud
     then Some (Errorf ''tool time in a run'' [Sentinel ErrBudgetExceeded])
     else if tb_MaxCostUnits bud > 0 \<and> tu_cost u \<ge> tb_MaxCostUnits bud
     then Some (Errorf ''tool cost units in a run'' [Sentinel ErrBudgetExceeded])
     else usedUpBudget u buds)"

definition ReserveTool ::
  "BudgetManager \<Rightarrow> RunID \<Rightarrow> string \<Rightarrow> ToolBudget list \<Rightarrow> BudgetManager \<times> goerr option" where
  "ReserveTool b run name budgets =
    (let u = toolUseOf b run name
     in case usedUpBudget u budgets of
          Some err \<Rightarrow> (setToolUse b run name u, Some err)
        | None \<Rightarrow> (setToolUse b run name (u\<lparr>tu_calls := add64 (tu_calls u) 1\<rparr>), None))"

definition ReleaseTool :: "BudgetManager \<Rightarrow> RunID \<Rightarrow> string \<Rightarrow> BudgetManager" where
  "ReleaseTool b run name =
    (let u = toolUseOf b run name
     in setToolUse b run name (if tu_calls u > 0 then u\<lparr>tu_calls := sub64 (tu_calls u) 1\<rparr> else u))"

text \<open>The loop of \<open>ToolTimeLeft\<close>, over its variables \<open>left\<close> and \<open>limited\<close>.\<close>

fun timeLeftLoop :: "toolUse \<Rightarrow> ToolBudget list \<Rightarrow> duration \<Rightarrow> bool \<Rightarrow> duration \<times> bool" where
  "timeLeftLoop u [] left limited = (left, limited)"
| "timeLeftLoop u (bud # buds) left limited =
    (if MaxTime bud \<le> 0 then timeLeftLoop u buds left limited
     else let rest = sub64 (MaxTime bud) (tu_time u)
          in timeLeftLoop u buds (if \<not> limited \<or> rest < left then rest else left) True)"

definition ToolTimeLeft ::
  "BudgetManager \<Rightarrow> RunID \<Rightarrow> string \<Rightarrow> ToolBudget list \<Rightarrow> duration \<times> bool" where
  "ToolTimeLeft b run name budgets =
    (case timeLeftLoop (toolUseOf b run name) budgets 0 False of
       (left, limited) \<Rightarrow> (max left 0, limited \<and> left \<le> 0))"

definition CommitTool :: "BudgetManager \<Rightarrow> RunID \<Rightarrow> string \<Rightarrow> duration \<Rightarrow> int \<Rightarrow> BudgetManager" where
  "CommitTool b run name took cost =
    (let u = toolUseOf b run name
     in setToolUse b run name
          (u\<lparr>tu_time := add64 (tu_time u) took, tu_cost := add64 (tu_cost u) (max cost 0)\<rparr>))"

section \<open>What the operations do to a run's usage\<close>

lemma checkLimits_error: "checkLimits u l = Some e \<Longrightarrow> errors_is e ErrBudgetExceeded"
  by (auto simp: checkLimits_def split: if_splits)

lemma checkLimits_None_iff: "checkLimits u l = None \<longleftrightarrow>
    (MaxToolCalls l \<le> 0 \<or> ToolCalls u \<le> MaxToolCalls l) \<and>
    (MaxModelCalls l \<le> 0 \<or> ModelCalls u \<le> MaxModelCalls l) \<and>
    (MaxSubAgents l \<le> 0 \<or> SubAgents u \<le> MaxSubAgents l) \<and>
    (MaxPromptTokens l \<le> 0 \<or> PromptTokens u \<le> MaxPromptTokens l) \<and>
    (MaxCompletionTokens l \<le> 0 \<or> CompletionTokens u \<le> MaxCompletionTokens l) \<and>
    (MaxCostUnits l \<le> 0 \<or> CostUnits u \<le> MaxCostUnits l)"
  by (auto simp: checkLimits_def)

lemma Snapshot_Init [simp]: "Snapshot (Budget_Init b run l) run' =
    (if run' = run \<and> bm_usage b run = None then Usage0 else Snapshot b run')"
  and limitsOf_Init [simp]: "limitsOf (Budget_Init b run l) run' =
    (if run' = run then Defaults l else limitsOf b run')"
  by (simp_all add: Budget_Init_def Snapshot_def limitsOf_def Let_def)

lemma Reserve_eq: "Reserve b run w =
    (case checkLimits (Usage_Add (Snapshot b run) w) (limitsOf b run) of
       Some e \<Rightarrow> (b\<lparr>bm_usage := (bm_usage b)(run \<mapsto> Snapshot b run)\<rparr>, Some e)
     | None \<Rightarrow> (b\<lparr>bm_usage := (bm_usage b)(run \<mapsto> Usage_Add (Snapshot b run) w)\<rparr>, None))"
proof -
  have "(case bm_usage b run of None \<Rightarrow> Usage0 | Some u \<Rightarrow> u) = Snapshot b run"
    by (simp add: Snapshot_def split: option.splits)
  then show ?thesis
    by (simp add: Reserve_def Let_def limitsOf_def split: option.splits)
qed

lemma Reserve_granted: "checkLimits (Usage_Add (Snapshot b run) w) (limitsOf b run) = None \<Longrightarrow>
    Reserve b run w = (b\<lparr>bm_usage := (bm_usage b)(run \<mapsto> Usage_Add (Snapshot b run) w)\<rparr>, None)"
  and Reserve_refused: "checkLimits (Usage_Add (Snapshot b run) w) (limitsOf b run) = Some e \<Longrightarrow>
    Reserve b run w = (b\<lparr>bm_usage := (bm_usage b)(run \<mapsto> Snapshot b run)\<rparr>, Some e)"
  by (simp_all add: Reserve_eq)

lemma Reserve_cases:
  obtains (ok) b' where "Reserve b run w = (b', None)"
      "checkLimits (Usage_Add (Snapshot b run) w) (limitsOf b run) = None"
      "Snapshot b' run = Usage_Add (Snapshot b run) w"
      "\<And>r. r \<noteq> run \<Longrightarrow> Snapshot b' r = Snapshot b r"
      "limitsOf b' = limitsOf b" "bm_tools b' = bm_tools b"
    | (refused) b' e where "Reserve b run w = (b', Some e)" "errors_is e ErrBudgetExceeded"
      "checkLimits (Usage_Add (Snapshot b run) w) (limitsOf b run) = Some e"
      "Snapshot b' = Snapshot b" "limitsOf b' = limitsOf b" "bm_tools b' = bm_tools b"
proof (cases "checkLimits (Usage_Add (Snapshot b run) w) (limitsOf b run)")
  case None
  show ?thesis
    by (rule ok [OF Reserve_granted [OF None] None])
      (auto simp: Snapshot_def limitsOf_def fun_eq_iff)
next
  case (Some e)
  show ?thesis
    by (rule refused [OF Reserve_refused [OF Some] checkLimits_error [OF Some] Some])
      (auto simp: Snapshot_def limitsOf_def fun_eq_iff split: option.splits)
qed

lemma Release_frame [simp]: "r \<noteq> run \<Longrightarrow> Snapshot (Release b run w) r = Snapshot b r"
  and Release_limits [simp]: "limitsOf (Release b run w) = limitsOf b"
  by (auto simp: Release_def Snapshot_def limitsOf_def Let_def fun_eq_iff split: option.splits)

lemma Commit_Snapshot [simp]: "Snapshot (fst (Commit b run w)) run' =
    (if run' = run then Usage_Add (Snapshot b run) w else Snapshot b run')"
  and Commit_limits [simp]: "limitsOf (fst (Commit b run w)) = limitsOf b"
  and Commit_verdict: "snd (Commit b run w) =
    checkLimits (Usage_Add (Snapshot b run) w) (limitsOf b run)"
  by (auto simp: Commit_def Snapshot_def limitsOf_def Let_def fun_eq_iff split: option.splits)

section \<open>Reservations keep a run within its limits\<close>

text \<open>
  A counter is held by a limit when the limit is off or the counter lies between zero and it.
  Limits of at most \<open>2 ^ 62\<close> and amounts below it never make a 64-bit counter wrap around.
\<close>

definition held :: "int \<Rightarrow> int \<Rightarrow> bool" where
  "held m v \<longleftrightarrow> m \<le> 0 \<or> 0 \<le> v \<and> v \<le> m"

definition limits_held :: "BudgetManager \<Rightarrow> RunID \<Rightarrow> bool" where
  "limits_held b run \<longleftrightarrow> (let u = Snapshot b run; l = limitsOf b run in
     held (MaxToolCalls l) (ToolCalls u) \<and> held (MaxModelCalls l) (ModelCalls u) \<and>
     held (MaxSubAgents l) (SubAgents u) \<and> held (MaxPromptTokens l) (PromptTokens u) \<and>
     held (MaxCompletionTokens l) (CompletionTokens u) \<and> held (MaxCostUnits l) (CostUnits u))"

definition small :: "int \<Rightarrow> bool" where
  "small n \<longleftrightarrow> 0 \<le> n \<and> n < 2 ^ 62"

definition small_usage :: "Usage \<Rightarrow> bool" where
  "small_usage w \<longleftrightarrow> small (ToolCalls w) \<and> small (ModelCalls w) \<and> small (SubAgents w) \<and>
     small (PromptTokens w) \<and> small (CompletionTokens w) \<and> small (CostUnits w)"

definition small_limits :: "Limits \<Rightarrow> bool" where
  "small_limits l \<longleftrightarrow> MaxToolCalls l \<le> 2 ^ 62 \<and> MaxModelCalls l \<le> 2 ^ 62 \<and>
     MaxSubAgents l \<le> 2 ^ 62 \<and> MaxPromptTokens l \<le> 2 ^ 62 \<and>
     MaxCompletionTokens l \<le> 2 ^ 62 \<and> MaxCostUnits l \<le> 2 ^ 62"

lemma held_add:
  assumes "held m v" and "m \<le> 2 ^ 62" and "small w" and "m \<le> 0 \<or> add64 v w \<le> m"
  shows "held m (add64 v w)"
proof (cases "m \<le> 0")
  case False
  with assms have "add64 v w = v + w"
    by (intro add64_exact) (auto simp: held_def small_def in64_def)
  with assms show ?thesis by (auto simp: held_def small_def)
qed (simp add: held_def)

lemma held_sub:
  assumes "held m v" and "m \<le> 2 ^ 62" and "small w"
  shows "held m (maxInt64 0 (sub64 v w))"
proof (cases "m \<le> 0")
  case False
  with assms have "sub64 v w = v - w"
    by (intro sub64_exact) (auto simp: held_def small_def in64_def)
  with assms show ?thesis by (auto simp: held_def small_def maxInt64_def)
qed (simp add: held_def)

lemma limits_held_Reserve:
  assumes "limits_held b run" and "small_limits (limitsOf b run)" and "small_usage w"
  shows "limits_held (fst (Reserve b run w)) run"
proof (cases rule: Reserve_cases [of b run w])
  case (ok b')
  from ok(2) have "held (MaxToolCalls (limitsOf b run)) (ToolCalls (Snapshot b' run))"
    and "held (MaxModelCalls (limitsOf b run)) (ModelCalls (Snapshot b' run))"
    and "held (MaxSubAgents (limitsOf b run)) (SubAgents (Snapshot b' run))"
    and "held (MaxPromptTokens (limitsOf b run)) (PromptTokens (Snapshot b' run))"
    and "held (MaxCompletionTokens (limitsOf b run)) (CompletionTokens (Snapshot b' run))"
    and "held (MaxCostUnits (limitsOf b run)) (CostUnits (Snapshot b' run))"
    using assms unfolding ok(3)
    by (simp_all add: limits_held_def Let_def checkLimits_None_iff Usage_Add_def
        small_limits_def small_usage_def held_add)
  then show ?thesis using ok by (simp add: limits_held_def)
next
  case (refused b' e)
  then show ?thesis using assms by (simp add: limits_held_def)
qed

lemma limits_held_Release:
  assumes "limits_held b run" and "small_limits (limitsOf b run)" and "small_usage w"
  shows "limits_held (Release b run w) run"
proof (cases "bm_usage b run")
  case None
  then show ?thesis using assms by (simp add: Release_def)
next
  case (Some u)
  then have "Snapshot b run = u" by (simp add: Snapshot_def)
  with Some assms show ?thesis
    by (simp add: limits_held_def Release_def Let_def Snapshot_def small_limits_def
        small_usage_def held_sub limitsOf_def)
qed

end
