(* ===== verification/BudgetSafety.thy ===== *)
theory BudgetSafety
  imports Budget
begin

text \<open>
  What the budget manager guarantees: the interface \<open>reservation\<close> of one-unit reservations with
  its interpretations, the run budgets under any interleaving of operations of any runs, and the
  per-tool budgets.
\<close>

section \<open>The interface: taking and giving back one unit\<close>

text \<open>
  \<open>reserve\<close> takes one unit or refuses with \<open>ErrBudgetExceeded\<close>; \<open>release\<close> gives one back.
  \<open>used\<close> counts the units taken, \<open>units\<close> is how many there are, and \<open>ok\<close> is the provider's
  invariant.
\<close>

locale reservation =
  fixes reserve :: "'s \<Rightarrow> 's \<times> goerr option"
    and release :: "'s \<Rightarrow> 's"
    and used :: "'s \<Rightarrow> int"
    and units :: "'s \<Rightarrow> int"
    and ok :: "'s \<Rightarrow> bool"
  assumes reserve_granted: "ok s \<Longrightarrow> reserve s = (s', None) \<Longrightarrow>
      ok s' \<and> used s' = used s + 1 \<and> units s' = units s"
    and reserve_refused: "ok s \<Longrightarrow> reserve s = (s', Some e) \<Longrightarrow>
      ok s' \<and> used s' = used s \<and> units s' = units s \<and> errors_is e ErrBudgetExceeded"
    and release_one: "ok s \<Longrightarrow> 0 < used s \<Longrightarrow>
      ok (release s) \<and> used (release s) = used s - 1 \<and> units (release s) = units s"
    and used_within: "ok s \<Longrightarrow> 0 \<le> used s \<and> used s \<le> units s"

text \<open>Reserving up to \<open>n\<close> times, stopping at the first refusal, and how many were granted.\<close>

fun reserveTimes :: "('s \<Rightarrow> 's \<times> goerr option) \<Rightarrow> nat \<Rightarrow> 's \<Rightarrow> 's \<times> nat" where
  "reserveTimes r 0 s = (s, 0)"
| "reserveTimes r (Suc n) s =
    (case r s of
       (s', Some e) \<Rightarrow> (s', 0)
     | (s', None) \<Rightarrow> (case reserveTimes r n s' of (t, k) \<Rightarrow> (t, Suc k)))"

context reservation begin

lemma reserveTimes_counts:
  "ok s \<Longrightarrow> reserveTimes reserve n s = (t, k) \<Longrightarrow> ok t \<and> used t = used s + int k \<and> units t = units s"
proof (induction n arbitrary: s t k)
  case (Suc n)
  obtain s' err where r: "reserve s = (s', err)" by (cases "reserve s")
  show ?case
  proof (cases err)
    case None
    obtain t' k' where rest: "reserveTimes reserve n s' = (t', k')" by (cases "reserveTimes reserve n s'")
    have g: "ok s'" "used s' = used s + 1" "units s' = units s"
      using reserve_granted [OF Suc.prems(1)] r None by simp_all
    from Suc.IH [OF g(1) rest] g Suc.prems(2) r None rest show ?thesis by auto
  next
    case (Some e)
    with reserve_refused [OF Suc.prems(1)] r Suc.prems(2) show ?thesis by auto
  qed
qed simp

text \<open>However often it is tried, no more is granted than is left.\<close>

lemma reserveTimes_bounded:
  assumes "ok s" and "reserveTimes reserve n s = (t, k)"
  shows "int k \<le> units s - used s"
proof -
  from reserveTimes_counts [OF assms] used_within [of t] show ?thesis by auto
qed

lemma reserve_release:
  assumes "ok s" and "reserve s = (s', None)"
  shows "used (release s') = used s"
proof -
  from reserve_granted [OF assms] have "ok s'" "used s' = used s + 1" by auto
  moreover have "0 < used s'" using used_within [OF assms(1)] \<open>used s' = used s + 1\<close> by simp
  ultimately show ?thesis using release_one [of s'] by simp
qed

end

text \<open>
  The manager provides it for tool calls, model calls and sub-agents of one run, as long as the
  run's usage is within its limits, as \<open>reservations_within_limits\<close> below says it stays.
\<close>

definition counter_ok :: "(Limits \<Rightarrow> int) \<Rightarrow> (Usage \<Rightarrow> int) \<Rightarrow> RunID \<Rightarrow> BudgetManager \<Rightarrow> bool" where
  "counter_ok limit counter run b \<longleftrightarrow> limits_held b run \<and> small_limits (limitsOf b run) \<and>
     0 < limit (limitsOf b run)"

lemma small_unit [simp]: "small 0" "small 1"
  by (simp_all add: small_def)

lemma small_units [simp]:
  "small_usage (Usage0\<lparr>ToolCalls := 1\<rparr>)" "small_usage (Usage0\<lparr>ModelCalls := 1\<rparr>)"
  "small_usage (Usage0\<lparr>SubAgents := 1\<rparr>)"
  by (simp_all add: small_usage_def Usage0_def)

lemma held_pos_unit:
  assumes "held m v" and "m \<le> 2 ^ 62" and "0 < m"
  shows "add64 v 1 = v + 1" "0 < v \<Longrightarrow> maxInt64 0 (sub64 v 1) = v - 1"
  using assms by (auto simp: held_def add64_exact sub64_exact in64_def maxInt64_def)

text \<open>Reserving one unit of a counter, for each counter and its unit of usage.\<close>

lemma unit_reservation:
  assumes field: "\<And>u. counter (Usage_Add u w) = add64 (counter u) 1"
    and drop: "\<And>b u. bm_usage b run = Some u \<Longrightarrow>
      counter (Snapshot (Release b run w) run) = maxInt64 0 (sub64 (counter u) 1)"
    and w: "small_usage w" and zero: "counter Usage0 = 0"
    and bound: "\<And>b. limits_held b run \<Longrightarrow> small_limits (limitsOf b run) \<Longrightarrow>
      held (limit (limitsOf b run)) (counter (Snapshot b run)) \<and> limit (limitsOf b run) \<le> 2 ^ 62"
  shows "reservation (\<lambda>b. Reserve b run w) (\<lambda>b. Release b run w)
    (\<lambda>b. counter (Snapshot b run)) (\<lambda>b. limit (limitsOf b run)) (counter_ok limit counter run)"
proof
  fix s s' assume ok: "counter_ok limit counter run s" and r: "Reserve s run w = (s', None)"
  have hl: "limits_held s' run"
    using limits_held_Reserve [of s run w] ok w r by (simp add: counter_ok_def)
  have g: "Snapshot s' run = Usage_Add (Snapshot s run) w \<and> limitsOf s' = limitsOf s"
    by (cases rule: Reserve_cases [of s run w]) (use r in auto)
  note g
  moreover have "held (limit (limitsOf s run)) (counter (Snapshot s run))"
      "limit (limitsOf s run) \<le> 2 ^ 62" "0 < limit (limitsOf s run)"
    using ok bound [of s] by (auto simp: counter_ok_def)
  note add = held_pos_unit(1) [OF this]
  ultimately have "counter (Snapshot s' run) = counter (Snapshot s run) + 1"
    by (simp add: field add)
  with g ok hl show "counter_ok limit counter run s' \<and>
      counter (Snapshot s' run) = counter (Snapshot s run) + 1 \<and>
      limit (limitsOf s' run) = limit (limitsOf s run)"
    by (simp add: counter_ok_def)
next
  fix s s' e assume ok: "counter_ok limit counter run s" and r: "Reserve s run w = (s', Some e)"
  have "Snapshot s' = Snapshot s \<and> limitsOf s' = limitsOf s \<and> errors_is e ErrBudgetExceeded"
    by (cases rule: Reserve_cases [of s run w]) (use r in auto)
  with ok show "counter_ok limit counter run s' \<and>
      counter (Snapshot s' run) = counter (Snapshot s run) \<and>
      limit (limitsOf s' run) = limit (limitsOf s run) \<and> errors_is e ErrBudgetExceeded"
    by (simp add: counter_ok_def limits_held_def)
next
  fix s assume ok: "counter_ok limit counter run s" and pos: "0 < counter (Snapshot s run)"
  then obtain u where u: "bm_usage s run = Some u"
    by (cases "bm_usage s run") (simp_all add: Snapshot_def zero)
  then have "Snapshot s run = u" by (simp add: Snapshot_def)
  moreover have "held (limit (limitsOf s run)) (counter (Snapshot s run))"
      "limit (limitsOf s run) \<le> 2 ^ 62" "0 < limit (limitsOf s run)"
    using ok bound [of s] by (auto simp: counter_ok_def)
  note sub = held_pos_unit(2) [OF this pos]
  ultimately have "counter (Snapshot (Release s run w) run) = counter (Snapshot s run) - 1"
    using drop [OF u] sub by simp
  moreover have "limits_held (Release s run w) run"
    using limits_held_Release ok w by (simp add: counter_ok_def)
  ultimately show "counter_ok limit counter run (Release s run w) \<and>
      counter (Snapshot (Release s run w) run) = counter (Snapshot s run) - 1 \<and>
      limit (limitsOf (Release s run w) run) = limit (limitsOf s run)"
    using ok by (simp add: counter_ok_def)
next
  fix s assume "counter_ok limit counter run s"
  with bound [of s] show "0 \<le> counter (Snapshot s run) \<and>
      counter (Snapshot s run) \<le> limit (limitsOf s run)"
    by (auto simp: counter_ok_def held_def)
qed

interpretation tool_calls: reservation "\<lambda>b. ReserveToolCall b run"
    "\<lambda>b. Release b run (Usage0\<lparr>ToolCalls := 1\<rparr>)" "\<lambda>b. ToolCalls (Snapshot b run)"
    "\<lambda>b. MaxToolCalls (limitsOf b run)" "counter_ok MaxToolCalls ToolCalls run" for run
  unfolding ReserveToolCall_def
  by (rule unit_reservation) (auto simp: Usage_Add_def Usage0_def Release_def Snapshot_def Let_def
      limits_held_def small_limits_def small_usage_def)

interpretation model_calls: reservation "\<lambda>b. ReserveModelCall b run"
    "\<lambda>b. Release b run (Usage0\<lparr>ModelCalls := 1\<rparr>)" "\<lambda>b. ModelCalls (Snapshot b run)"
    "\<lambda>b. MaxModelCalls (limitsOf b run)" "counter_ok MaxModelCalls ModelCalls run" for run
  unfolding ReserveModelCall_def
  by (rule unit_reservation) (auto simp: Usage_Add_def Usage0_def Release_def Snapshot_def Let_def
      limits_held_def small_limits_def small_usage_def)

interpretation sub_agents: reservation "\<lambda>b. ReserveSubAgent b run"
    "\<lambda>b. Release b run (Usage0\<lparr>SubAgents := 1\<rparr>)" "\<lambda>b. SubAgents (Snapshot b run)"
    "\<lambda>b. MaxSubAgents (limitsOf b run)" "counter_ok MaxSubAgents SubAgents run" for run
  unfolding ReserveSubAgent_def
  by (rule unit_reservation) (auto simp: Usage_Add_def Usage0_def Release_def Snapshot_def Let_def
      limits_held_def small_limits_def small_usage_def)

section \<open>Runs interleaved on one manager\<close>

text \<open>The manager's mutex makes a concurrent history a sequence of whole operations.\<close>

datatype budget_op =
    OpInit RunID Limits | OpReserve RunID Usage | OpRelease RunID Usage | OpCommit RunID Usage
  | OpForget RunID | OpReserveTool RunID string "ToolBudget list" | OpReleaseTool RunID string
  | OpCommitTool RunID string duration int

fun budget_step :: "budget_op \<Rightarrow> BudgetManager \<Rightarrow> BudgetManager" where
  "budget_step (OpInit r l) b = Budget_Init b r l"
| "budget_step (OpReserve r w) b = fst (Reserve b r w)"
| "budget_step (OpRelease r w) b = Release b r w"
| "budget_step (OpCommit r w) b = fst (Commit b r w)"
| "budget_step (OpForget r) b = Forget b r"
| "budget_step (OpReserveTool r n bs) b = fst (ReserveTool b r n bs)"
| "budget_step (OpReleaseTool r n) b = ReleaseTool b r n"
| "budget_step (OpCommitTool r n t c) b = CommitTool b r n t c"

definition budget_history :: "budget_op list \<Rightarrow> BudgetManager \<Rightarrow> BudgetManager" where
  "budget_history ops b = fold budget_step ops b"

text \<open>
  What the runtime does with a run it executes: it initialises it with the run's limits,
  reserves and releases amounts that are not negative, and commits what a model call used, which
  counts no calls. Other runs may do anything.
\<close>

definition no_calls :: "Usage \<Rightarrow> bool" where
  "no_calls w \<longleftrightarrow> ToolCalls w = 0 \<and> ModelCalls w = 0 \<and> SubAgents w = 0"

fun executes_run :: "RunID \<Rightarrow> Limits \<Rightarrow> budget_op \<Rightarrow> bool" where
  "executes_run run l (OpInit r l') \<longleftrightarrow> (r = run \<longrightarrow> l' = l)"
| "executes_run run l (OpReserve r w) \<longleftrightarrow> (r = run \<longrightarrow> small_usage w)"
| "executes_run run l (OpRelease r w) \<longleftrightarrow> (r = run \<longrightarrow> small_usage w)"
| "executes_run run l (OpCommit r w) \<longleftrightarrow> (r = run \<longrightarrow> no_calls w)"
| "executes_run run l (OpForget r) \<longleftrightarrow> r \<noteq> run"
| "executes_run run l _ \<longleftrightarrow> True"

definition calls_held :: "Limits \<Rightarrow> Usage \<Rightarrow> bool" where
  "calls_held l u \<longleftrightarrow> held (MaxToolCalls l) (ToolCalls u) \<and> held (MaxModelCalls l) (ModelCalls u) \<and>
     held (MaxSubAgents l) (SubAgents u)"

lemma setToolUse_frame [simp]:
  "Snapshot (setToolUse b r n u) = Snapshot b" "limitsOf (setToolUse b r n u) = limitsOf b"
  by (simp_all add: setToolUse_def Let_def Snapshot_def limitsOf_def fun_eq_iff)

lemma tool_ops_frame [simp]:
  "Snapshot (fst (ReserveTool b r n bs)) = Snapshot b"
  "limitsOf (fst (ReserveTool b r n bs)) = limitsOf b"
  "Snapshot (ReleaseTool b r n) = Snapshot b" "limitsOf (ReleaseTool b r n) = limitsOf b"
  "Snapshot (CommitTool b r n t c) = Snapshot b" "limitsOf (CommitTool b r n t c) = limitsOf b"
  by (simp_all add: ReserveTool_def ReleaseTool_def CommitTool_def Let_def split: option.splits)

lemma Forget_frame [simp]: "r \<noteq> run \<Longrightarrow> Snapshot (Forget b r) run = Snapshot b run"
  "r \<noteq> run \<Longrightarrow> limitsOf (Forget b r) run = limitsOf b run"
  by (simp_all add: Forget_def Snapshot_def limitsOf_def)

lemma Reserve_frame [simp]: "r \<noteq> run \<Longrightarrow> Snapshot (fst (Reserve b r w)) run = Snapshot b run"
  "limitsOf (fst (Reserve b r w)) = limitsOf b"
  by (cases rule: Reserve_cases [of b r w]; simp)+

lemma held_0 [simp]: "held m 0"
  by (simp add: held_def linear)

lemma held_commit: "held m v \<Longrightarrow> m \<le> 2 ^ 62 \<Longrightarrow> held m (add64 v 0)"
  by (auto simp: held_def in64_def add64_exact)

lemma calls_held_Reserve:
  assumes "calls_held (limitsOf b run) (Snapshot b run)" and "small_limits (limitsOf b run)"
    and "small_usage w"
  shows "calls_held (limitsOf b run) (Snapshot (fst (Reserve b run w)) run)"
proof (cases rule: Reserve_cases [of b run w])
  case (ok b')
  with assms show ?thesis
    by (simp add: calls_held_def checkLimits_None_iff Usage_Add_def small_limits_def
        small_usage_def held_add)
qed (use assms in simp)

lemma calls_held_Release:
  assumes "calls_held (limitsOf b run) (Snapshot b run)" and "small_limits (limitsOf b run)"
    and "small_usage w"
  shows "calls_held (limitsOf b run) (Snapshot (Release b run w) run)"
proof (cases "bm_usage b run")
  case (Some u)
  then have "Snapshot b run = u" by (simp add: Snapshot_def)
  with Some assms show ?thesis
    by (simp add: calls_held_def Release_def Let_def Snapshot_def small_limits_def
        small_usage_def held_sub)
qed (use assms in \<open>simp add: Release_def\<close>)

lemma calls_held_step:
  assumes "executes_run run l p" and "small_limits (Defaults l)"
    and "limitsOf b run = Defaults l" and "calls_held (Defaults l) (Snapshot b run)"
  shows "limitsOf (budget_step p b) run = Defaults l \<and>
    calls_held (Defaults l) (Snapshot (budget_step p b) run)"
proof (cases p)
  case (OpInit r l')
  with assms show ?thesis by (auto simp: calls_held_def Usage0_def)
next
  case (OpReserve r w)
  with assms calls_held_Reserve [of b run w] show ?thesis by (cases "r = run") auto
next
  case (OpRelease r w)
  with assms calls_held_Release [of b run w] show ?thesis by (cases "r = run") auto
next
  case (OpCommit r w)
  with assms show ?thesis
    by (auto simp: calls_held_def no_calls_def Usage_Add_def small_limits_def held_commit)
qed (use assms in auto)

text \<open>C1: Several runs share one budget manager, their operations interleaved in any order.
  A run that starts fresh and reserves before it acts never counts more tool calls, model calls
  or sub-agents than its limits allow, nor fewer than zero, whatever the other runs do.\<close>

theorem calls_within_limits:
  assumes "bm_usage b run = None" and "small_limits (Defaults l)"
    and "list_all (executes_run run l) ops"
  shows "calls_held (Defaults l) (Snapshot (budget_history ops (Budget_Init b run l)) run)"
proof -
  have step: "limitsOf (fold budget_step ops b') run = Defaults l \<and>
      calls_held (Defaults l) (Snapshot (fold budget_step ops b') run)"
    if "limitsOf b' run = Defaults l" "calls_held (Defaults l) (Snapshot b' run)" for b'
    using assms(3) that
  proof (induction ops arbitrary: b')
    case (Cons p ops)
    from calls_held_step [OF _ assms(2) Cons.prems(2,3)] Cons.prems(1)
    have "limitsOf (budget_step p b') run = Defaults l"
      "calls_held (Defaults l) (Snapshot (budget_step p b') run)" by simp_all
    with Cons.IH Cons.prems(1) show ?case by simp
  qed simp
  have "calls_held (Defaults l) (Snapshot (Budget_Init b run l) run)"
    using assms(1) by (simp add: calls_held_def Usage0_def)
  then show ?thesis using step [of "Budget_Init b run l"] by (simp add: budget_history_def)
qed

text \<open>Two runs take turns; the third model call of \<open>''r''\<close> is refused and not counted.\<close>

theorem calls_within_limits_witness:
  "ModelCalls (Snapshot (budget_history
     [OpInit ''q'' Limits0, OpReserve ''r'' (Usage0\<lparr>ModelCalls := 1\<rparr>),
      OpReserve ''q'' (Usage0\<lparr>ModelCalls := 5\<rparr>), OpReserve ''r'' (Usage0\<lparr>ModelCalls := 1\<rparr>),
      OpReserve ''r'' (Usage0\<lparr>ModelCalls := 1\<rparr>)]
     (Budget_Init NewBudgetManager ''r'' (Limits0\<lparr>MaxModelCalls := 2\<rparr>))) ''r'') \<le> 2"
proof -
  let ?l = "Limits0\<lparr>MaxModelCalls := 2\<rparr>"
  have l: "small_limits (Defaults ?l)" "MaxModelCalls (Defaults ?l) = 2"
    by (simp_all add: small_limits_def Defaults_def Limits0_def defaultTo_def)
  have ops: "list_all (executes_run ''r'' ?l)
     [OpInit ''q'' Limits0, OpReserve ''r'' (Usage0\<lparr>ModelCalls := 1\<rparr>),
      OpReserve ''q'' (Usage0\<lparr>ModelCalls := 5\<rparr>), OpReserve ''r'' (Usage0\<lparr>ModelCalls := 1\<rparr>),
      OpReserve ''r'' (Usage0\<lparr>ModelCalls := 1\<rparr>)]"
    by simp
  have "bm_usage NewBudgetManager ''r'' = None" by (simp add: NewBudgetManager_def)
  from calls_within_limits [OF this l(1) ops] l(2) show ?thesis
    by (simp add: calls_held_def held_def)
qed

section \<open>Refusals and overspending\<close>

text \<open>A refused reservation reports \<open>ErrBudgetExceeded\<close> and changes no run's usage or limits;
  a granted one adds exactly what was asked for to that run and touches no other.\<close>

theorem Reserve_all_or_nothing:
  "case Reserve b run w of
     (b', Some e) \<Rightarrow> errors_is e ErrBudgetExceeded \<and> Snapshot b' = Snapshot b \<and> limitsOf b' = limitsOf b
   | (b', None) \<Rightarrow> Snapshot b' = (Snapshot b)(run := Usage_Add (Snapshot b run) w) \<and>
       limitsOf b' = limitsOf b \<and> checkLimits (Snapshot b' run) (limitsOf b' run) = None"
proof (cases rule: Reserve_cases [of b run w])
  case (ok b')
  then show ?thesis by (auto simp: fun_eq_iff)
qed simp

text \<open>Adding small amounts only moves a 64-bit counter away from its limit.\<close>

lemma within_add: "m \<le> 0 \<or> add64 v w \<le> m \<Longrightarrow> small v \<Longrightarrow> small w \<Longrightarrow> m \<le> 0 \<or> v \<le> m"
  by (auto simp: small_def add64_exact in64_def)

lemma checkLimits_mono:
  assumes "checkLimits u l \<noteq> None" and "small_usage u" and "small_usage w"
  shows "checkLimits (Usage_Add u w) l \<noteq> None"
proof
  assume "checkLimits (Usage_Add u w) l = None"
  with assms(2,3) have "checkLimits u l = None"
    using within_add [of "MaxToolCalls l" "ToolCalls u" "ToolCalls w"]
      within_add [of "MaxModelCalls l" "ModelCalls u" "ModelCalls w"]
      within_add [of "MaxSubAgents l" "SubAgents u" "SubAgents w"]
      within_add [of "MaxPromptTokens l" "PromptTokens u" "PromptTokens w"]
      within_add [of "MaxCompletionTokens l" "CompletionTokens u" "CompletionTokens w"]
      within_add [of "MaxCostUnits l" "CostUnits u" "CostUnits w"]
    by (simp add: checkLimits_None_iff small_usage_def Usage_Add_def)
  with assms(1) show False by simp
qed

text \<open>A model call's tokens are known only afterwards, so \<open>Commit\<close> may take a run past its
  limits; it then reports \<open>ErrBudgetExceeded\<close>, and from then on every reservation the run asks
  for is refused, whatever it asks for.\<close>

theorem overspent_refuses:
  assumes "Commit b run w = (b', Some e)" and "small_usage (Snapshot b' run)" and "small_usage w'"
  shows "errors_is e ErrBudgetExceeded \<and>
    (\<exists>b'' e'. Reserve b' run w' = (b'', Some e') \<and> errors_is e' ErrBudgetExceeded)"
proof -
  have snd: "checkLimits (Snapshot b' run) (limitsOf b' run) = Some e"
    using Commit_verdict [of b run w] Commit_Snapshot [of b run w run] Commit_limits [of b run w]
      assms(1) by simp
  with checkLimits_mono [OF _ assms(2,3)] obtain e'
    where "checkLimits (Usage_Add (Snapshot b' run) w') (limitsOf b' run) = Some e'" by force
  from Reserve_refused [OF this] checkLimits_error [OF this] checkLimits_error [OF snd]
  show ?thesis by simp
qed

theorem overspent_refuses_witness:
  "\<exists>b' e b'' e'. Commit (Budget_Init NewBudgetManager ''r'' (Limits0\<lparr>MaxPromptTokens := 100\<rparr>)) ''r''
      (Usage0\<lparr>PromptTokens := 150\<rparr>) = (b', Some e) \<and> Reserve b' ''r'' Usage0 = (b'', Some e')"
proof -
  let ?b = "Budget_Init NewBudgetManager ''r'' (Limits0\<lparr>MaxPromptTokens := 100\<rparr>)"
  let ?w = "Usage0\<lparr>PromptTokens := 150\<rparr>"
  have s: "small_usage (Snapshot (fst (Commit ?b ''r'' ?w)) ''r'')" "small_usage Usage0"
    by (simp_all add: small_usage_def small_def NewBudgetManager_def Usage_Add_def Usage0_def
        add64_def wrap64_def)
  have "snd (Commit ?b ''r'' ?w) \<noteq> None"
    by (simp add: Commit_verdict checkLimits_None_iff NewBudgetManager_def Usage_Add_def Usage0_def
        Defaults_def Limits0_def add64_def wrap64_def)
  then obtain b' e where c: "Commit ?b ''r'' ?w = (b', Some e)"
    by (cases "Commit ?b ''r'' ?w") auto
  with overspent_refuses [OF c _ s(2)] s(1) show ?thesis by auto
qed

text \<open>However many tool calls a run attempts, no more are granted than its limit leaves,
  and a call that is given back can be granted again.\<close>

theorem tool_call_attempts_bounded:
  assumes "counter_ok MaxToolCalls ToolCalls run b"
    and "reserveTimes (\<lambda>b. ReserveToolCall b run) n b = (b', k)"
  shows "int k \<le> MaxToolCalls (limitsOf b run) - ToolCalls (Snapshot b run)"
  using assms by (rule tool_calls.reserveTimes_bounded)

theorem tool_call_attempts_bounded_witness:
  "snd (reserveTimes (\<lambda>b. ReserveToolCall b ''r'') 5
    (Budget_Init NewBudgetManager ''r'' (Limits0\<lparr>MaxToolCalls := 3\<rparr>))) \<le> 3"
proof -
  let ?b = "Budget_Init NewBudgetManager ''r'' (Limits0\<lparr>MaxToolCalls := 3\<rparr>)"
  have m: "limitsOf ?b ''r'' = Defaults (Limits0\<lparr>MaxToolCalls := 3\<rparr>)" "Snapshot ?b ''r'' = Usage0"
    by (simp_all add: NewBudgetManager_def)
  have "counter_ok MaxToolCalls ToolCalls ''r'' ?b"
    unfolding counter_ok_def limits_held_def m Let_def
    by (simp add: small_limits_def Defaults_def Limits0_def defaultTo_def Usage0_def held_def)
  from tool_call_attempts_bounded [OF this surjective_pairing] show ?thesis
    unfolding m by (simp add: Defaults_def Limits0_def defaultTo_def Usage0_def)
qed

section \<open>Tool budgets\<close>

lemma toolUseOf_set [simp]: "toolUseOf (setToolUse b r n u) r' n' =
    (if r' = r \<and> n' = n then u else toolUseOf b r' n')"
  by (auto simp: toolUseOf_def setToolUse_def Let_def split: option.splits)

lemma toolUseOf_frame [simp]:
  "toolUseOf (Budget_Init b r l) = toolUseOf b" "toolUseOf (fst (Reserve b r w)) = toolUseOf b"
  "toolUseOf (Release b r w) = toolUseOf b" "toolUseOf (fst (Commit b r w)) = toolUseOf b"
  by (simp_all add: toolUseOf_def Budget_Init_def Reserve_eq Release_def Commit_def Let_def
      fun_eq_iff split: option.splits)

lemma toolUseOf_Forget [simp]: "toolUseOf (Forget b r) run n =
    (if run = r then toolUse0 else toolUseOf b run n)"
  by (simp add: toolUseOf_def Forget_def)

text \<open>The budgets of a call always include one of at most \<open>m\<close> calls.\<close>

fun capped_tool :: "RunID \<Rightarrow> string \<Rightarrow> int \<Rightarrow> budget_op \<Rightarrow> bool" where
  "capped_tool run n m (OpReserveTool r n' bs) \<longleftrightarrow>
     (r = run \<and> n' = n \<longrightarrow> list_ex (\<lambda>bd. MaxCalls bd = m) bs)"
| "capped_tool run n m _ \<longleftrightarrow> True"

lemma usedUpBudget_None: "usedUpBudget u bs = None \<longleftrightarrow> list_all (\<lambda>bd.
    (MaxCalls bd \<le> 0 \<or> tu_calls u < MaxCalls bd) \<and> (MaxTime bd \<le> 0 \<or> tu_time u < MaxTime bd) \<and>
    (tb_MaxCostUnits bd \<le> 0 \<or> tu_cost u < tb_MaxCostUnits bd)) bs"
  by (induction bs) auto

lemma usedUpBudget_error: "usedUpBudget u bs = Some e \<Longrightarrow> errors_is e ErrBudgetExceeded"
  by (induction bs) (auto split: if_splits)

lemma tool_calls_step:
  assumes "capped_tool run n m p" and "0 < m" and "m < 2 ^ 63"
    and "0 \<le> tu_calls (toolUseOf b run n)" and "tu_calls (toolUseOf b run n) \<le> m"
  shows "0 \<le> tu_calls (toolUseOf (budget_step p b) run n) \<and>
    tu_calls (toolUseOf (budget_step p b) run n) \<le> m"
proof (cases p)
  case (OpReserveTool r n' bs)
  show ?thesis
  proof (cases "r = run \<and> n' = n")
    case True
    show ?thesis
    proof (cases "usedUpBudget (toolUseOf b run n) bs")
      case None
      with True OpReserveTool assms have "tu_calls (toolUseOf b run n) < m"
        by (auto simp: usedUpBudget_None list_all_iff list_ex_iff)
      with assms True OpReserveTool None show ?thesis
        by (simp add: ReserveTool_def Let_def add64_exact in64_def)
    qed (use assms True OpReserveTool in \<open>simp add: ReserveTool_def Let_def\<close>)
  qed (use assms OpReserveTool in \<open>auto simp: ReserveTool_def Let_def split: option.splits\<close>)
next
  case (OpReleaseTool r n')
  with assms show ?thesis by (auto simp: ReleaseTool_def Let_def sub64_exact in64_def)
next
  case (OpCommitTool r n' t c)
  with assms show ?thesis by (auto simp: CommitTool_def Let_def)
qed (use assms in \<open>simp_all add: toolUse0_def\<close>)

text \<open>A tool that a policy allows \<open>m\<close> calls in a run is never counted more often than that,
  whatever order calls of this and other runs are reserved, released, committed and forgotten in.\<close>

theorem tool_budget_bounds_calls:
  assumes "toolUseOf b run n = toolUse0" and "0 < m" and "m < 2 ^ 63"
    and "list_all (capped_tool run n m) ops"
  shows "tu_calls (toolUseOf (budget_history ops b) run n) \<le> m"
proof -
  have "0 \<le> tu_calls (toolUseOf (fold budget_step ops b') run n) \<and>
      tu_calls (toolUseOf (fold budget_step ops b') run n) \<le> m"
    if "0 \<le> tu_calls (toolUseOf b' run n)" "tu_calls (toolUseOf b' run n) \<le> m" for b'
    using assms(4) that
  proof (induction ops arbitrary: b')
    case (Cons p ops)
    with tool_calls_step [of run n m p b'] assms(2,3) show ?case by simp
  qed simp
  from this [of b] assms(1,2) show ?thesis by (simp add: budget_history_def toolUse0_def)
qed

theorem tool_budget_bounds_calls_witness:
  "tu_calls (toolUseOf (budget_history
     [OpReserveTool ''r'' ''t'' [\<lparr>MaxCalls = 1, MaxTime = 0, tb_MaxCostUnits = 0\<rparr>],
      OpCommitTool ''r'' ''t'' 7 1,
      OpReserveTool ''r'' ''t'' [\<lparr>MaxCalls = 1, MaxTime = 0, tb_MaxCostUnits = 0\<rparr>]]
     NewBudgetManager) ''r'' ''t'') \<le> 1"
  by (rule tool_budget_bounds_calls) (simp_all add: toolUseOf_def NewBudgetManager_def)

text \<open>The budgets that bound a tool's time, and what each leaves.\<close>

definition timesLeft :: "toolUse \<Rightarrow> ToolBudget list \<Rightarrow> duration list" where
  "timesLeft u bs = map (\<lambda>bd. MaxTime bd - tu_time u) (filter (\<lambda>bd. MaxTime bd > 0) bs)"

lemma timeLeftLoop_fold:
  assumes "0 \<le> tu_time u" and "tu_time u < 2 ^ 63" and "list_all (\<lambda>bd. MaxTime bd < 2 ^ 63) bs"
  shows "timeLeftLoop u bs left limited =
    (if limited then (fold min (timesLeft u bs) left, True)
     else case timesLeft u bs of [] \<Rightarrow> (left, False) | t # ts \<Rightarrow> (fold min ts t, True))"
  using assms(3)
proof (induction bs arbitrary: left limited)
  case (Cons bd bs)
  show ?case
  proof (cases "MaxTime bd \<le> 0")
    case False
    with Cons.prems assms have "sub64 (MaxTime bd) (tu_time u) = MaxTime bd - tu_time u"
      by (intro sub64_exact) (auto simp: in64_def)
    with False Cons show ?thesis by (auto simp: timesLeft_def Let_def min.absorb1 min.absorb2)
  qed (use Cons in \<open>simp add: timesLeft_def\<close>)
qed (simp add: timesLeft_def)

text \<open>The time a tool may still take in a run is the least that any of its time budgets
  leaves, and it is out of time exactly when one of them is spent, in which case \<open>ReserveTool\<close>
  refuses the next call as well.\<close>

theorem ToolTimeLeft_is_least:
  assumes "0 \<le> tu_time (toolUseOf b run n)" and "tu_time (toolUseOf b run n) < 2 ^ 63"
    and "list_all (\<lambda>bd. MaxTime bd < 2 ^ 63) bs"
  shows "ToolTimeLeft b run n bs =
      (if timesLeft (toolUseOf b run n) bs = [] then (0, False)
       else (max (Min (set (timesLeft (toolUseOf b run n) bs))) 0,
             list_ex (\<lambda>t. t \<le> 0) (timesLeft (toolUseOf b run n) bs))) \<and>
    (snd (ToolTimeLeft b run n bs) \<longrightarrow>
       (\<exists>e. snd (ReserveTool b run n bs) = Some e \<and> errors_is e ErrBudgetExceeded))"
proof
  let ?u = "toolUseOf b run n"
  show eq: "ToolTimeLeft b run n bs =
      (if timesLeft ?u bs = [] then (0, False)
       else (max (Min (set (timesLeft ?u bs))) 0, list_ex (\<lambda>t. t \<le> 0) (timesLeft ?u bs)))"
    by (cases "timesLeft ?u bs") (simp_all add: ToolTimeLeft_def timeLeftLoop_fold [OF assms]
        Min.set_eq_fold [symmetric] Min_le_iff list_ex_iff)
  show "snd (ToolTimeLeft b run n bs) \<longrightarrow>
       (\<exists>e. snd (ReserveTool b run n bs) = Some e \<and> errors_is e ErrBudgetExceeded)"
  proof
    assume "snd (ToolTimeLeft b run n bs)"
    then obtain t where "t \<in> set (timesLeft ?u bs)" "t \<le> 0"
      unfolding eq by (auto simp: list_ex_iff split: if_splits)
    then have "usedUpBudget ?u bs \<noteq> None"
      by (auto simp: usedUpBudget_None list_all_iff timesLeft_def not_less not_le)
    then obtain e where e: "usedUpBudget ?u bs = Some e" by auto
    with usedUpBudget_error [OF e] show "\<exists>e. snd (ReserveTool b run n bs) = Some e \<and>
        errors_is e ErrBudgetExceeded" by (simp add: ReserveTool_def Let_def)
  qed
qed

theorem ToolTimeLeft_is_least_witness:
  "ToolTimeLeft (CommitTool NewBudgetManager ''r'' ''t'' 30 0) ''r'' ''t''
     [\<lparr>MaxCalls = 0, MaxTime = 100, tb_MaxCostUnits = 0\<rparr>,
      \<lparr>MaxCalls = 0, MaxTime = 50, tb_MaxCostUnits = 0\<rparr>] = (20, False)"
proof -
  let ?b = "CommitTool NewBudgetManager ''r'' ''t'' 30 0"
  let ?bs = "[\<lparr>MaxCalls = 0, MaxTime = 100, tb_MaxCostUnits = 0\<rparr>,
      \<lparr>MaxCalls = 0, MaxTime = 50, tb_MaxCostUnits = 0\<rparr>]"
  have u: "tu_time (toolUseOf ?b ''r'' ''t'') = 30"
    by (simp add: CommitTool_def Let_def toolUseOf_def NewBudgetManager_def toolUse0_def
        add64_def wrap64_def setToolUse_def)
  have "timesLeft (toolUseOf ?b ''r'' ''t'') ?bs = [70, 20]"
    by (simp add: timesLeft_def u)
  with ToolTimeLeft_is_least [of ?b "''r''" "''t''" ?bs] show ?thesis by (simp add: u)
qed

end
