(* ===== verification/LoopDetection.thy ===== *)
theory LoopDetection
  imports CoreTypes
begin

text \<open>
  Stall detection (\<open>policy/loop.go\<close>): \<open>Observe\<close> counts identical tool calls, \<open>ObserveReply\<close> compares
  a text with the last ones of its scope, \<open>ObserveRetry\<close> counts retries in a sliding window,
  \<open>Clear\<close> and \<open>Reset\<close> forget. Each method holds the detector's mutex and is one atomic function.

  A text is the list of its code points. The case mapping and the letter and digit classes of
  Unicode are the arguments \<open>lower\<close> and \<open>inWord\<close>. \<open>map[string]bool\<close> is a set of words. The
  similarity of two texts is the exact quotient; Go rounds it to a \<open>float64\<close>, as it does the
  threshold it is compared with. \<open>ObserveReply\<close> returns \<open>None\<close> where Go panics.
\<close>

type_synonym rune = nat
type_synonym word_set = "rune list set"

record LoopDetector =
  ld_threshold :: int
  ld_counts :: "RunID \<rightharpoonup> (string \<rightharpoonup> int)"
  ReplyRepeats :: int
  ReplySimilarity :: rat
  ld_texts :: "RunID \<rightharpoonup> (string \<rightharpoonup> word_set list)"
  RetryStorm :: int
  RetryWindow :: duration
  ld_retries :: "RunID \<rightharpoonup> time list"

definition second :: duration where
  "second = 1000000000"

definition NewLoopDetector :: "int \<Rightarrow> LoopDetector" where
  "NewLoopDetector threshold = \<lparr>
     ld_threshold = (if threshold \<le> 0 then 5 else threshold), ld_counts = Map.empty,
     ReplyRepeats = 3, ReplySimilarity = 9 / 10, ld_texts = Map.empty,
     RetryStorm = 10, RetryWindow = 60 * second, ld_retries = Map.empty\<rparr>"

section \<open>Operations\<close>

text \<open>\<open>strings.FieldsFunc\<close>: the maximal runs of code points that satisfy \<open>inWord\<close>.\<close>

fun fieldsFunc :: "(rune \<Rightarrow> bool) \<Rightarrow> rune list \<Rightarrow> rune list \<Rightarrow> rune list list" where
  "fieldsFunc inWord cur [] = (if cur = [] then [] else [cur])"
| "fieldsFunc inWord cur (c # cs) =
    (if inWord c then fieldsFunc inWord (cur @ [c]) cs
     else if cur = [] then fieldsFunc inWord [] cs
     else cur # fieldsFunc inWord [] cs)"

definition wordSet :: "(rune \<Rightarrow> rune) \<Rightarrow> (rune \<Rightarrow> bool) \<Rightarrow> rune list \<Rightarrow> word_set" where
  "wordSet lower inWord s = set (fieldsFunc inWord [] (map lower s))"

definition jaccard :: "word_set \<Rightarrow> word_set \<Rightarrow> rat" where
  "jaccard a b = (let shared = card (a \<inter> b) in
     of_nat shared / of_int (int (card a) + int (card b) - int shared))"

text \<open>The lookup of a missing key gives the zero value; a scope's texts are \<open>d.texts[run][scope]\<close>.\<close>

definition textsOf :: "LoopDetector \<Rightarrow> RunID \<Rightarrow> string \<Rightarrow> word_set list" where
  "textsOf d run scope = (case ld_texts d run of None \<Rightarrow> []
     | Some scopes \<Rightarrow> (case scopes scope of None \<Rightarrow> [] | Some ts \<Rightarrow> ts))"

definition ObserveReply :: "(rune \<Rightarrow> rune) \<Rightarrow> (rune \<Rightarrow> bool) \<Rightarrow> LoopDetector \<Rightarrow> RunID \<Rightarrow> string \<Rightarrow> rune list
    \<Rightarrow> (LoopDetector \<times> bool \<times> int) option" where
  "ObserveReply lower inWord d run scope body =
    (let words = wordSet lower inWord body
     in if words = {} then Some (d, False, 0)
        else let scopes = (case ld_texts d run of None \<Rightarrow> Map.empty | Some m \<Rightarrow> m);
                 earlier = (case scopes scope of None \<Rightarrow> [] | Some ts \<Rightarrow> ts);
                 n = 1 + int (length (filter (\<lambda>e. jaccard words e \<ge> ReplySimilarity d) earlier));
                 kept = earlier @ [words];
                 low = max 0 (int (length kept) - (ReplyRepeats d - 1))
             in if low > int (length kept) then None
                else Some (d\<lparr>ld_texts := (ld_texts d)(run \<mapsto> scopes(scope \<mapsto> drop (nat low) kept))\<rparr>,
                           ReplyRepeats d > 0 \<and> n \<ge> ReplyRepeats d, n))"

definition ToolKey :: "string \<Rightarrow> string \<Rightarrow> string" where
  "ToolKey toolName inputHash = toolName @ ''|'' @ inputHash"

definition Observe :: "LoopDetector \<Rightarrow> RunID \<Rightarrow> string \<Rightarrow> string \<Rightarrow> LoopDetector \<times> bool \<times> int" where
  "Observe d run toolName inputHash =
    (let key = ToolKey toolName inputHash;
         m = (case ld_counts d run of None \<Rightarrow> Map.empty | Some m \<Rightarrow> m);
         n = (case m key of None \<Rightarrow> 0 | Some n \<Rightarrow> n) + 1
     in (d\<lparr>ld_counts := (ld_counts d)(run \<mapsto> m(key \<mapsto> n))\<rparr>, n \<ge> ld_threshold d, n))"

definition retriesOf :: "LoopDetector \<Rightarrow> RunID \<Rightarrow> time list" where
  "retriesOf d run = (case ld_retries d run of None \<Rightarrow> [] | Some ts \<Rightarrow> ts)"

definition ObserveRetry :: "LoopDetector \<Rightarrow> RunID \<Rightarrow> time \<Rightarrow> LoopDetector \<times> bool \<times> int" where
  "ObserveRetry d run now =
    (if RetryStorm d \<le> 0 then (d, False, 0)
     else let recent = filter (\<lambda>t. now - t < RetryWindow d) (retriesOf d run) @ [now]
          in (d\<lparr>ld_retries := (ld_retries d)(run \<mapsto> recent)\<rparr>,
              int (length recent) \<ge> RetryStorm d, int (length recent)))"

text \<open>\<open>delete\<close> on a map that is absent does nothing.\<close>

definition Clear :: "LoopDetector \<Rightarrow> RunID \<Rightarrow> string \<Rightarrow> LoopDetector" where
  "Clear d run key =
    (if key = [] then d\<lparr>ld_retries := (ld_retries d)(run := None)\<rparr>
     else d\<lparr>ld_counts := (ld_counts d)(run := map_option (\<lambda>m. m(key := None)) (ld_counts d run)),
            ld_texts := (ld_texts d)(run := map_option (\<lambda>m. m(key := None)) (ld_texts d run))\<rparr>)"

definition Reset :: "LoopDetector \<Rightarrow> RunID \<Rightarrow> LoopDetector" where
  "Reset d run = d\<lparr>ld_counts := (ld_counts d)(run := None), ld_texts := (ld_texts d)(run := None),
     ld_retries := (ld_retries d)(run := None)\<rparr>"

section \<open>Words and similarity\<close>

lemma fieldsFunc_append_word:
  "list_all inWord w \<Longrightarrow> fieldsFunc inWord cur (w @ cs) = fieldsFunc inWord (cur @ w) cs"
  by (induction w arbitrary: cur) auto

lemma fieldsFunc_words: "list_all inWord cur \<Longrightarrow>
    list_all (\<lambda>w. w \<noteq> [] \<and> list_all inWord w) (fieldsFunc inWord cur cs)"
  by (induction inWord cur cs rule: fieldsFunc.induct) auto

lemma finite_wordSet [simp]: "finite (wordSet lower inWord s)"
  by (simp add: wordSet_def)

lemma jaccard_union:
  assumes "finite a" and "finite b"
  shows "jaccard a b = of_nat (card (a \<inter> b)) / of_nat (card (a \<union> b))"
proof -
  have "int (card (a \<union> b)) = int (card a) + int (card b) - int (card (a \<inter> b))"
    using card_Un_Int [OF assms] by simp
  then have "(of_int (int (card a) + int (card b) - int (card (a \<inter> b))) :: rat) = of_nat (card (a \<union> b))"
    by (metis of_int_of_nat_eq)
  then show ?thesis by (simp only: jaccard_def Let_def)
qed

lemma jaccard_bounds:
  assumes "finite a" and "finite b"
  shows "0 \<le> jaccard a b" and "jaccard a b \<le> 1"
proof -
  have "card (a \<inter> b) \<le> card (a \<union> b)"
    using assms by (intro card_mono) auto
  then show "0 \<le> jaccard a b" "jaccard a b \<le> 1"
    by (auto simp: jaccard_union assms divide_le_eq_1 of_nat_le_iff)
qed

lemma jaccard_same: "finite a \<Longrightarrow> a \<noteq> {} \<Longrightarrow> jaccard a a = 1"
  by (simp add: jaccard_union)

lemma jaccard_sym: "jaccard a b = jaccard b a"
  by (simp only: jaccard_def Let_def Int_commute [of a b] add.commute [of "int (card a)"])

section \<open>Histories\<close>

datatype loop_op =
    LObserve RunID string string | LReply RunID string "rune list" | LRetry RunID time
  | LClear RunID string | LReset RunID


fun loop_step :: "(rune \<Rightarrow> rune) \<Rightarrow> (rune \<Rightarrow> bool) \<Rightarrow> LoopDetector \<Rightarrow> loop_op \<Rightarrow> LoopDetector option" where
  "loop_step lower inWord d (LObserve r t h) = Some (fst (Observe d r t h))"
| "loop_step lower inWord d (LReply r s body) = map_option fst (ObserveReply lower inWord d r s body)"
| "loop_step lower inWord d (LRetry r now) = Some (fst (ObserveRetry d r now))"
| "loop_step lower inWord d (LClear r k) = Some (Clear d r k)"
| "loop_step lower inWord d (LReset r) = Some (Reset d r)"

fun loop_history ::
  "(rune \<Rightarrow> rune) \<Rightarrow> (rune \<Rightarrow> bool) \<Rightarrow> LoopDetector \<Rightarrow> loop_op list \<Rightarrow> LoopDetector option" where
  "loop_history lower inWord d [] = Some d"
| "loop_history lower inWord d (p # ps) =
    (case loop_step lower inWord d p of None \<Rightarrow> None | Some d' \<Rightarrow> loop_history lower inWord d' ps)"

text \<open>A panic is possible only with \<open>ReplyRepeats\<close> at most zero.\<close>

lemma ObserveReply_None: "ObserveReply lower inWord d run scope body = None \<longleftrightarrow>
    ReplyRepeats d \<le> 0 \<and> wordSet lower inWord body \<noteq> {}"
  by (auto simp: ObserveReply_def Let_def)

lemma ObserveReply_words:
  assumes "wordSet lower inWord body \<noteq> {}" and "0 < ReplyRepeats d"
  shows "ObserveReply lower inWord d run scope body =
    (let words = wordSet lower inWord body;
         n = 1 + int (length (filter (\<lambda>e. jaccard words e \<ge> ReplySimilarity d) (textsOf d run scope)));
         scopes = (case ld_texts d run of None \<Rightarrow> Map.empty | Some m \<Rightarrow> m)
     in Some (d\<lparr>ld_texts := (ld_texts d)(run \<mapsto> scopes(scope \<mapsto>
               lastn (nat (ReplyRepeats d - 1)) (textsOf d run scope @ [words])))\<rparr>,
             n \<ge> ReplyRepeats d, n))"
proof -
  have "(case (case ld_texts d run of None \<Rightarrow> Map.empty | Some m \<Rightarrow> m) scope of None \<Rightarrow> [] | Some ts \<Rightarrow> ts)
      = textsOf d run scope"
    by (simp add: textsOf_def split: option.splits)
  moreover have "drop (nat (max 0 (int (length ts) - (ReplyRepeats d - 1)))) ts =
      lastn (nat (ReplyRepeats d - 1)) ts" for ts :: "word_set list"
    using drop_int_lastn [of "ReplyRepeats d - 1" ts] assms(2) by (auto simp: max_def lastn_all)
  moreover have "\<not> int (length ts) < max 0 (int (length ts) - (ReplyRepeats d - 1))" for ts :: "word_set list"
    using assms(2) by simp
  ultimately show ?thesis
    using assms by (simp add: ObserveReply_def Let_def del: drop_append length_append)
qed

lemma textsOf_upd: "textsOf (d\<lparr>ld_texts := (ld_texts d)(run \<mapsto>
      (case ld_texts d run of None \<Rightarrow> Map.empty | Some m \<Rightarrow> m)(scope \<mapsto> ts))\<rparr>) run' scope' =
    (if run' = run \<and> scope' = scope then ts else textsOf d run' scope')"
  by (simp add: textsOf_def split: option.splits)

text \<open>What a history observed and has not cleared since.\<close>

fun callsSince :: "RunID \<Rightarrow> string \<Rightarrow> loop_op \<Rightarrow> int \<Rightarrow> int" where
  "callsSince run key (LObserve r t h) n = (if r = run \<and> ToolKey t h = key then n + 1 else n)"
| "callsSince run key (LClear r k) n = (if r = run \<and> k = key then 0 else n)"
| "callsSince run key (LReset r) n = (if r = run then 0 else n)"
| "callsSince run key _ n = n"

fun textsSince :: "(rune \<Rightarrow> rune) \<Rightarrow> (rune \<Rightarrow> bool) \<Rightarrow> RunID \<Rightarrow> string \<Rightarrow> loop_op \<Rightarrow> word_set list \<Rightarrow> word_set list" where
  "textsSince lower inWord run scope (LReply r s body) ts =
     (if r = run \<and> s = scope \<and> wordSet lower inWord body \<noteq> {} then ts @ [wordSet lower inWord body] else ts)"
| "textsSince lower inWord run scope (LClear r k) ts = (if r = run \<and> k = scope \<and> k \<noteq> [] then [] else ts)"
| "textsSince lower inWord run scope (LReset r) ts = (if r = run then [] else ts)"
| "textsSince lower inWord run scope _ ts = ts"

fun retriesSince :: "RunID \<Rightarrow> loop_op \<Rightarrow> time list \<Rightarrow> time list" where
  "retriesSince run (LRetry r now) ts = (if r = run then ts @ [now] else ts)"
| "retriesSince run (LClear r k) ts = (if r = run \<and> k = [] then [] else ts)"
| "retriesSince run (LReset r) ts = (if r = run then [] else ts)"
| "retriesSince run _ ts = ts"

definition callCount :: "LoopDetector \<Rightarrow> RunID \<Rightarrow> string \<Rightarrow> int" where
  "callCount d run key = (case ld_counts d run of None \<Rightarrow> 0
     | Some m \<Rightarrow> (case m key of None \<Rightarrow> 0 | Some n \<Rightarrow> n))"

lemma ToolKey_not_Nil [simp]: "ToolKey t h \<noteq> []"
  by (simp add: ToolKey_def)

lemma Observe_count: "callCount (fst (Observe d r t h)) run key =
    (if r = run \<and> ToolKey t h = key then callCount d run key + 1 else callCount d run key)"
  "snd (Observe d run t h) = (callCount d run (ToolKey t h) + 1 \<ge> ld_threshold d,
    callCount d run (ToolKey t h) + 1)"
  by (auto simp: Observe_def Let_def callCount_def split: option.splits)

lemma forget_counts [simp]:
  "callCount (Clear d r k) run key =
    (if r = run \<and> k = key \<and> k \<noteq> [] then 0 else callCount d run key)"
  "callCount (Reset d r) run key = (if r = run then 0 else callCount d run key)"
  "callCount (fst (ObserveRetry d r now)) run key = callCount d run key"
  by (auto simp: Clear_def Reset_def ObserveRetry_def Let_def callCount_def split: option.splits)

lemma forget_texts [simp]:
  "textsOf (Clear d r k) run scope =
    (if r = run \<and> k = scope \<and> k \<noteq> [] then [] else textsOf d run scope)"
  "textsOf (Reset d r) run scope = (if r = run then [] else textsOf d run scope)"
  "textsOf (fst (ObserveRetry d r now)) run scope = textsOf d run scope"
  "textsOf (fst (Observe d r t h)) run scope = textsOf d run scope"
  by (auto simp: Clear_def Reset_def ObserveRetry_def Observe_def Let_def textsOf_def split: option.splits)

lemma forget_retries [simp]:
  "retriesOf (Clear d r k) run = (if r = run \<and> k = [] then [] else retriesOf d run)"
  "retriesOf (Reset d r) run = (if r = run then [] else retriesOf d run)"
  "retriesOf (fst (Observe d r t h)) run = retriesOf d run"
  by (auto simp: Clear_def Reset_def Observe_def Let_def retriesOf_def split: option.splits)

definition settings :: "LoopDetector \<Rightarrow> int \<times> int \<times> rat \<times> int \<times> duration" where
  "settings d = (ld_threshold d, ReplyRepeats d, ReplySimilarity d, RetryStorm d, RetryWindow d)"

lemma ObserveReply_frame:
  assumes "ObserveReply lower inWord d r s body = Some (d', x)"
  shows "callCount d' = callCount d" "retriesOf d' = retriesOf d" "settings d' = settings d"
  using assms by (auto simp: ObserveReply_def Let_def callCount_def retriesOf_def settings_def
      fun_eq_iff split: if_splits)

lemma settings_step: "loop_step lower inWord d p = Some d' \<Longrightarrow> settings d' = settings d"
  by (cases p) (auto simp: settings_def Observe_def ObserveRetry_def Clear_def Reset_def Let_def
      dest: ObserveReply_frame)

lemma callCount_step: "loop_step lower inWord d p = Some d' \<Longrightarrow> key \<noteq> [] \<Longrightarrow>
    callCount d' run key = callsSince run key p (callCount d run key)"
  by (cases p) (auto simp: Observe_count dest: ObserveReply_frame)

lemma loop_history_settings: "loop_history lower inWord d ps = Some d' \<Longrightarrow> settings d' = settings d"
  by (induction ps arbitrary: d) (auto dest: settings_step split: option.splits)

lemma loop_history_total: "0 < ReplyRepeats d \<Longrightarrow> \<exists>d'. loop_history lower inWord d ps = Some d'"
proof (induction ps arbitrary: d)
  case (Cons p ps)
  have "loop_step lower inWord d p \<noteq> None"
    using Cons.prems ObserveReply_None [of lower inWord d] by (cases p) auto
  then obtain d1 where d1: "loop_step lower inWord d p = Some d1" by auto
  with settings_step [OF d1] Cons.prems Cons.IH [of d1] show ?case by (simp add: settings_def)
qed simp

lemma callCount_history: "loop_history lower inWord d ps = Some d' \<Longrightarrow> key \<noteq> [] \<Longrightarrow>
    callCount d' run key = fold (callsSince run key) ps (callCount d run key)"
proof (induction ps arbitrary: d)
  case (Cons p ps)
  then obtain d1 where "loop_step lower inWord d p = Some d1" "loop_history lower inWord d1 ps = Some d'"
    by (auto split: option.splits)
  with Cons.IH [OF this(2)] Cons.prems(2) callCount_step [OF this(1)] show ?case by simp
qed simp

text \<open>After any history of observations, clears and resets of any runs, a tool call is
  reported as a stall exactly when it and the identical calls of its run since the last clear of
  its key or reset reach the threshold.\<close>

theorem repeated_call_stalls:
  assumes "loop_history lower inWord (NewLoopDetector k) ps = Some d"
  shows "snd (Observe d run t h) =
    (let n = fold (callsSince run (ToolKey t h)) ps 0 + 1
     in (n \<ge> (if k \<le> 0 then 5 else k), n))"
proof -
  have "ld_threshold d = (if k \<le> 0 then 5 else k)"
    using loop_history_settings [OF assms] by (simp add: settings_def NewLoopDetector_def)
  moreover have "callCount (NewLoopDetector k) run (ToolKey t h) = 0"
    by (simp add: callCount_def NewLoopDetector_def)
  ultimately show ?thesis
    using callCount_history [OF assms, of "ToolKey t h" run] by (simp add: Observe_count Let_def)
qed

theorem repeated_call_stalls_witness:
  "\<exists>d. loop_history (\<lambda>c. c) (\<lambda>c. True) (NewLoopDetector 2)
      [LObserve ''r'' ''t'' ''h'', LReset ''q''] = Some d \<and> snd (Observe d ''r'' ''t'' ''h'') = (True, 2)"
proof -
  obtain d where d: "loop_history (\<lambda>c. c) (\<lambda>c. True) (NewLoopDetector 2)
      [LObserve ''r'' ''t'' ''h'', LReset ''q''] = Some d" by simp
  with repeated_call_stalls [OF d, of "''r''" "''t''" "''h''"] show ?thesis by (simp add: Let_def)
qed

lemma textsOf_step:
  assumes "loop_step lower inWord d p = Some d'" and "0 < ReplyRepeats d"
    and "textsOf d run scope = lastn (nat (ReplyRepeats d - 1)) ts"
  shows "textsOf d' run scope =
    lastn (nat (ReplyRepeats d - 1)) (textsSince lower inWord run scope p ts)"
proof (cases p)
  case (LReply r s body)
  show ?thesis
  proof (cases "wordSet lower inWord body = {}")
    case True
    with assms LReply show ?thesis by (simp add: ObserveReply_def)
  next
    case False
    from assms(1,3) show ?thesis
      by (auto simp: LReply ObserveReply_words [OF False assms(2)] Let_def textsOf_upd False lastn_slide)
  qed
qed (use assms in auto)

lemma textsOf_history:
  assumes "loop_history lower inWord d ps = Some d'" and "0 < ReplyRepeats d"
    and "textsOf d run scope = lastn (nat (ReplyRepeats d - 1)) ts"
  shows "textsOf d' run scope =
    lastn (nat (ReplyRepeats d - 1)) (fold (textsSince lower inWord run scope) ps ts)"
  using assms
proof (induction ps arbitrary: d ts)
  case (Cons p ps)
  then obtain d1 where d1: "loop_step lower inWord d p = Some d1"
      "loop_history lower inWord d1 ps = Some d'"
    by (auto split: option.splits)
  have "ReplyRepeats d1 = ReplyRepeats d"
    using settings_step [OF d1(1)] by (simp add: settings_def)
  with Cons.IH [OF d1(2)] textsOf_step [OF d1(1) Cons.prems(2,3)] Cons.prems(2)
  show ?case by simp
qed simp

text \<open>With the check on, a text is reported as a stall exactly when enough of the scope's last
  \<open>ReplyRepeats - 1\<close> texts since it was cleared are similar to it; no other text is compared, and no more
  than that many are kept.\<close>

theorem repeated_text_stalls:
  assumes "loop_history lower inWord d0 ps = Some d" and "textsOf d0 run scope = []"
    and "0 < ReplyRepeats d0" and "wordSet lower inWord body \<noteq> {}"
  shows "let recent = lastn (nat (ReplyRepeats d0 - 1)) (fold (textsSince lower inWord run scope) ps []);
             n = 1 + int (length (filter (\<lambda>e. jaccard (wordSet lower inWord body) e \<ge> ReplySimilarity d0) recent))
         in map_option snd (ObserveReply lower inWord d run scope body) = Some (n \<ge> ReplyRepeats d0, n) \<and>
            int (length (textsOf d run scope)) \<le> ReplyRepeats d0 - 1"
proof -
  have s: "ReplyRepeats d = ReplyRepeats d0" "ReplySimilarity d = ReplySimilarity d0"
    using loop_history_settings [OF assms(1)] by (simp_all add: settings_def)
  have "textsOf d run scope =
      lastn (nat (ReplyRepeats d0 - 1)) (fold (textsSince lower inWord run scope) ps [])"
    using textsOf_history [OF assms(1,3), of run scope "[]"] assms(2) by simp
  then show ?thesis
    using ObserveReply_words [OF assms(4), of d run scope] assms(3) by (simp add: s Let_def)
qed

theorem repeated_text_stalls_witness:
  "\<exists>d. loop_history (\<lambda>c. c) (\<lambda>c. c < 100) (NewLoopDetector 5)
      [LReply ''r'' ''s'' [5, 7], LReply ''r'' ''s'' [5, 7, 300]] = Some d \<and>
    map_option snd (ObserveReply (\<lambda>c. c) (\<lambda>c. c < 100) d ''r'' ''s'' [5, 7]) = Some (True, 3)"
proof -
  let ?ps = "[LReply ''r'' ''s'' [5, 7], LReply ''r'' ''s'' [5, 7, 300]]"
  let ?w = "wordSet (\<lambda>c. c) (\<lambda>c. c < 100)"
  have w: "?w [5, 7] = {[5, 7]}" "?w [5, 7, 300] = {[5, 7]}"
    by (simp_all add: wordSet_def)
  have new: "0 < ReplyRepeats (NewLoopDetector 5)" "textsOf (NewLoopDetector 5) ''r'' ''s'' = []"
    "ReplyRepeats (NewLoopDetector 5) = 3" "ReplySimilarity (NewLoopDetector 5) = 9 / 10"
    by (simp_all add: NewLoopDetector_def textsOf_def)
  obtain d where d: "loop_history (\<lambda>c. c) (\<lambda>c. c < 100) (NewLoopDetector 5) ?ps = Some d"
    using loop_history_total [OF new(1)] by blast
  with repeated_text_stalls [OF d new(2,1), of "[5, 7]"] show ?thesis
    by (auto simp: w new(3,4) lastn_def jaccard_same Let_def)
qed


section \<open>Retry storms\<close>

definition retryClock :: "RunID \<Rightarrow> loop_op list \<Rightarrow> time list" where
  "retryClock run ps = concat (map (\<lambda>p. case p of LRetry r now \<Rightarrow> (if r = run then [now] else []) | _ \<Rightarrow> []) ps)"

text \<open>What the detector keeps: of the retries since the last clear, those recent at the last one.\<close>

definition recentAt :: "duration \<Rightarrow> time list \<Rightarrow> time list" where
  "recentAt w ts = (if ts = [] then [] else filter (\<lambda>t. last ts - t < w) ts)"

lemma recentAt_snoc:
  assumes "sorted (ts @ [now])" and "0 < w"
  shows "filter (\<lambda>t. now - t < w) (recentAt w ts) @ [now] = recentAt w (ts @ [now])"
proof (cases "ts = []")
  case False
  then have "last ts \<in> set ts" by simp
  with assms(1) have "last ts \<le> now" by (simp add: sorted_append)
  then have "filter (\<lambda>t. now - t < w) (filter (\<lambda>t. last ts - t < w) ts) = filter (\<lambda>t. now - t < w) ts"
    by (auto intro!: filter_cong)
  with False assms(2) show ?thesis by (simp add: recentAt_def)
qed (use assms in \<open>simp add: recentAt_def\<close>)

lemma retriesOf_step:
  assumes "loop_step lower inWord d p = Some d'" and "0 < RetryStorm d" and "0 < RetryWindow d"
    and "sorted (ts @ retryClock run [p])" and "retriesOf d run = recentAt (RetryWindow d) ts"
  shows "retriesOf d' run = recentAt (RetryWindow d) (retriesSince run p ts)"
proof (cases p)
  case (LRetry r now)
  show ?thesis
  proof (cases "r = run")
    case True
    with assms LRetry recentAt_snoc [of ts now "RetryWindow d"]
    have "retriesOf (fst (ObserveRetry d run now)) run = recentAt (RetryWindow d) (ts @ [now])"
      by (auto simp: ObserveRetry_def Let_def retriesOf_def retryClock_def)
    with True assms(1) LRetry show ?thesis by simp
  next
    case False
    with assms LRetry show ?thesis by (auto simp: ObserveRetry_def Let_def retriesOf_def)
  qed
qed (use assms in \<open>auto simp: recentAt_def dest: ObserveReply_frame\<close>)

lemma retriesOf_history:
  assumes "loop_history lower inWord d ps = Some d'" and "0 < RetryStorm d" and "0 < RetryWindow d"
    and "sorted (ts @ retryClock run ps)" and "retriesOf d run = recentAt (RetryWindow d) ts"
  shows "retriesOf d' run = recentAt (RetryWindow d) (fold (retriesSince run) ps ts)"
  using assms
proof (induction ps arbitrary: d ts)
  case (Cons p ps)
  then obtain d1 where d1: "loop_step lower inWord d p = Some d1"
      "loop_history lower inWord d1 ps = Some d'"
    by (auto split: option.splits)
  have s: "RetryStorm d1 = RetryStorm d" "RetryWindow d1 = RetryWindow d"
    using settings_step [OF d1(1)] by (simp_all add: settings_def)
  have clock: "retryClock run (p # ps) = retryClock run [p] @ retryClock run ps"
    by (simp add: retryClock_def)
  have "sorted (ts @ retryClock run [p])"
    using Cons.prems(4) by (simp add: clock sorted_append)
  note step = retriesOf_step [OF d1(1) Cons.prems(2,3) this Cons.prems(5)]
  have "retriesSince run p ts @ retryClock run ps = ts @ retryClock run (p # ps) \<or>
      retriesSince run p ts = []"
    by (cases p) (auto simp: retryClock_def)
  then have "sorted (retriesSince run p ts @ retryClock run ps)"
    using Cons.prems(4) by (auto simp: clock sorted_append)
  with Cons.IH [OF d1(2)] step s Cons.prems(2,3) show ?case by simp
qed simp

lemma retriesSince_last: "fold (retriesSince run) (ps @ [LRetry run now]) ts =
    fold (retriesSince run) ps ts @ [now]"
  by simp

text \<open>When time does not run backwards, a retry is reported as a storm exactly when at least
  \<open>RetryStorm\<close> retries of the run since the last clear, this one included, lie within
  \<open>RetryWindow\<close> of it, although only recent ones are kept from one retry to the next.\<close>

theorem retry_storm_counts_window:
  assumes "loop_history lower inWord (NewLoopDetector k) ps = Some d"
    and "sorted (retryClock run ps @ [now])"
  shows "snd (ObserveRetry d run now) =
    (let n = int (length (filter (\<lambda>t. now - t < 60 * second) (fold (retriesSince run) ps []))) + 1
     in (n \<ge> 10, n))"
proof -
  let ?new = "NewLoopDetector k" and ?ts = "fold (retriesSince run) ps []"
  have new: "RetryStorm ?new = 10" "RetryWindow ?new = 60 * second" "0 < second"
      "retriesOf ?new run = recentAt (RetryWindow ?new) []"
    by (simp_all add: NewLoopDetector_def second_def retriesOf_def recentAt_def)
  have d: "RetryStorm d = 10" "RetryWindow d = 60 * second"
    using loop_history_settings [OF assms(1)] new by (simp_all add: settings_def)
  have kept: "retriesOf d run = recentAt (60 * second) ?ts"
    using retriesOf_history [OF assms(1), of "[]" run] assms(2) new by (simp add: sorted_append)
  have sub: "set (fold (retriesSince run) ps ts) \<subseteq> set ts \<union> set (retryClock run ps)" and
      "sorted (ts @ retryClock run ps) \<Longrightarrow> sorted (fold (retriesSince run) ps ts)" for ts
  proof (induction ps arbitrary: ts)
    case (Cons p ps)
    { case 1 show ?case
        using Cons(1) [of "retriesSince run p ts"] by (cases p) (auto simp: retryClock_def split: if_splits)
    next
      case 2 then show ?case
        using Cons(2) [of "retriesSince run p ts"]
        by (cases p) (auto simp: retryClock_def sorted_append split: if_splits) }
  qed (simp_all add: retryClock_def)
  from this [of "[]"] assms(2) have "sorted (?ts @ [now])"
    by (auto simp: sorted_append)
  from recentAt_snoc [OF this, of "60 * second"] new(3)
  have "filter (\<lambda>t. now - t < 60 * second) (retriesOf d run) = filter (\<lambda>t. now - t < 60 * second) ?ts"
    by (simp add: kept recentAt_def)
  then show ?thesis by (simp add: ObserveRetry_def Let_def d)
qed

theorem retry_storm_counts_window_witness:
  "\<exists>d. loop_history (\<lambda>c. c) (\<lambda>c. True) (NewLoopDetector 5)
      [LRetry ''r'' 0, LRetry ''r'' (50 * second)] = Some d \<and>
    snd (ObserveRetry d ''r'' (61 * second)) = (False, 2)"
proof -
  obtain d where d: "loop_history (\<lambda>c. c) (\<lambda>c. True) (NewLoopDetector 5)
      [LRetry ''r'' 0, LRetry ''r'' (50 * second)] = Some d" by simp
  have "sorted (retryClock ''r'' [LRetry ''r'' 0, LRetry ''r'' (50 * second)] @ [61 * second])"
    by (simp add: retryClock_def second_def)
  from retry_storm_counts_window [OF d this] d show ?thesis by (simp add: Let_def second_def)
qed

end
