(* ===== verification/Semaphores.thy ===== *)
theory Semaphores
  imports Prelude
begin

text \<open>
  Keyed semaphores (\<open>policy/concurrency.go\<close>): \<open>Acquire\<close>, the release it returns, \<open>leave\<close>
  and \<open>Keys\<close>.

  A \<open>*semaphore\<close> is an index into \<open>sm_heap\<close>: an object outlives its entry in \<open>slots\<close>, and a
  key whose entry was deleted gets a new object. A channel of capacity \<open>limit\<close> is the number
  of elements in it. Each section under the mutex and each channel operation is one step, and
  a call in progress is an element of a multiset, with the point it has reached: \<open>Waiting\<close> in
  the \<open>select\<close>, \<open>Holding\<close> the slot, or \<open>Leaving\<close>, after the channel receive of the release
  and before the mutex. The step relation interleaves any number of calls in any order.

  Each key is acquired with one limit, \<open>lmt key\<close>, as the orchestrator does with its
  configuration.
\<close>

record semaphore =
  se_cap :: nat     \<comment> \<open>the capacity of the channel\<close>
  se_held :: nat    \<comment> \<open>the elements in it\<close>
  se_users :: int

record Semaphores =
  sm_slots :: "(string, nat) gomap"
  sm_heap :: "semaphore list"

definition Semaphores0 :: Semaphores where
  "Semaphores0 = \<lparr>sm_slots = [], sm_heap = []\<rparr>"

definition updateSem :: "nat \<Rightarrow> (semaphore \<Rightarrow> semaphore) \<Rightarrow> Semaphores \<Rightarrow> Semaphores" where
  "updateSem a f s = s\<lparr>sm_heap := (sm_heap s)[a := f (sm_heap s ! a)]\<rparr>"

text \<open>The section of \<open>Acquire\<close> under the mutex, for a positive limit.\<close>

definition enter :: "Semaphores \<Rightarrow> string \<Rightarrow> int \<Rightarrow> Semaphores \<times> nat" where
  "enter s key limit =
     (case map_of (sm_slots s) key of
        Some a \<Rightarrow> (updateSem a (\<lambda>m. m\<lparr>se_users := se_users m + 1\<rparr>) s, a)
      | None \<Rightarrow>
          (s\<lparr>sm_heap := sm_heap s @ [\<lparr>se_cap = nat limit, se_held = 0, se_users = 1\<rparr>],
             sm_slots := mput key (length (sm_heap s)) (sm_slots s)\<rparr>, length (sm_heap s)))"

text \<open>\<open>sem.ch <- struct{}{}\<close> and \<open><-sem.ch\<close>; \<open>None\<close> while the operation blocks.\<close>

definition send :: "nat \<Rightarrow> Semaphores \<Rightarrow> Semaphores option" where
  "send a s = (if se_held (sm_heap s ! a) < se_cap (sm_heap s ! a)
     then Some (updateSem a (\<lambda>m. m\<lparr>se_held := se_held m + 1\<rparr>) s) else None)"

definition recv :: "nat \<Rightarrow> Semaphores \<Rightarrow> Semaphores option" where
  "recv a s = (if se_held (sm_heap s ! a) > 0
     then Some (updateSem a (\<lambda>m. m\<lparr>se_held := se_held m - 1\<rparr>) s) else None)"

definition leave :: "string \<Rightarrow> nat \<Rightarrow> Semaphores \<Rightarrow> Semaphores" where
  "leave key a s =
     (let s1 = updateSem a (\<lambda>m. m\<lparr>se_users := se_users m - 1\<rparr>) s
      in if se_users (sm_heap s1 ! a) = 0 then s1\<lparr>sm_slots := mdel key (sm_slots s1)\<rparr> else s1)"

definition Keys :: "Semaphores \<Rightarrow> nat" where
  "Keys s = length (sm_slots s)"

section \<open>Calls in progress\<close>

datatype phase = Waiting | Holding | Leaving

type_synonym sem_call = "phase \<times> string \<times> nat"

inductive sem_step :: "(string \<Rightarrow> int) \<Rightarrow> Semaphores \<times> sem_call multiset
    \<Rightarrow> Semaphores \<times> sem_call multiset \<Rightarrow> bool" for lmt where
  acquire: "0 < lmt key \<Longrightarrow> enter s key (lmt key) = (s', a) \<Longrightarrow>
    sem_step lmt (s, cs) (s', add_mset (Waiting, key, a) cs)"
| granted: "send a s = Some s' \<Longrightarrow>
    sem_step lmt (s, add_mset (Waiting, key, a) cs) (s', add_mset (Holding, key, a) cs)"
| canceled: "sem_step lmt (s, add_mset (Waiting, key, a) cs) (leave key a s, cs)"
| release: "recv a s = Some s' \<Longrightarrow>
    sem_step lmt (s, add_mset (Holding, key, a) cs) (s', add_mset (Leaving, key, a) cs)"
| leaving: "sem_step lmt (s, add_mset (Leaving, key, a) cs) (leave key a s, cs)"

section \<open>The invariant\<close>

definition users_of :: "sem_call multiset \<Rightarrow> nat \<Rightarrow> nat" where
  "users_of cs a = size {#c \<in># cs. snd (snd c) = a#}"

definition holders_of :: "sem_call multiset \<Rightarrow> nat \<Rightarrow> nat" where
  "holders_of cs a = size {#c \<in># cs. fst c = Holding \<and> snd (snd c) = a#}"

lemma users_of_simps [simp]:
  "users_of {#} a = 0"
  "users_of (add_mset (ph, key, b) cs) a = (if b = a then Suc (users_of cs a) else users_of cs a)"
  by (simp_all add: users_of_def)

lemma holders_of_simps [simp]:
  "holders_of {#} a = 0"
  "holders_of (add_mset (ph, key, b) cs) a =
     (if ph = Holding \<and> b = a then Suc (holders_of cs a) else holders_of cs a)"
  by (simp_all add: holders_of_def)

lemma users_of_0: "users_of cs a = 0 \<longleftrightarrow> (\<forall>c \<in># cs. snd (snd c) \<noteq> a)"
  by (induction cs) (auto split: if_splits)

text \<open>
  Every call in progress uses the object its key is mapped to; an object in the table counts
  its calls and its holders; and a key without calls is not in the table.
\<close>

definition slot_ok :: "(string \<Rightarrow> int) \<Rightarrow> Semaphores \<Rightarrow> sem_call multiset \<Rightarrow> string \<Rightarrow> nat \<Rightarrow> bool" where
  "slot_ok lmt s cs key a \<longleftrightarrow>
     0 < lmt key \<and> a < length (sm_heap s) \<and> se_cap (sm_heap s ! a) = nat (lmt key) \<and>
     se_users (sm_heap s ! a) = int (users_of cs a) \<and> 0 < users_of cs a \<and>
     se_held (sm_heap s ! a) = holders_of cs a \<and> holders_of cs a \<le> nat (lmt key)"

definition sem_ok :: "(string \<Rightarrow> int) \<Rightarrow> Semaphores \<times> sem_call multiset \<Rightarrow> bool" where
  "sem_ok lmt = (\<lambda>(s, cs).
     wf_map (sm_slots s) \<and>
     (\<forall>(ph, key, a) \<in># cs. map_of (sm_slots s) key = Some a) \<and>
     (\<forall>key a. map_of (sm_slots s) key = Some a \<longrightarrow> slot_ok lmt s cs key a) \<and>
     (\<forall>key key' a. map_of (sm_slots s) key = Some a \<longrightarrow> map_of (sm_slots s) key' = Some a \<longrightarrow> key = key'))"

lemma sem_ok_start: "sem_ok lmt (Semaphores0, {#})"
  by (simp add: sem_ok_def Semaphores0_def)

lemma sem_ok_fresh:
  assumes "sem_ok lmt (s, cs)"
  shows "users_of cs (length (sm_heap s)) = 0" and "holders_of cs (length (sm_heap s)) = 0"
proof -
  have none: "\<forall>c \<in># cs. snd (snd c) \<noteq> length (sm_heap s)"
    using assms by (fastforce simp: sem_ok_def slot_ok_def)
  then show "users_of cs (length (sm_heap s)) = 0" by (simp add: users_of_0)
  from none show "holders_of cs (length (sm_heap s)) = 0"
    by (induction cs) auto
qed

lemma sem_okI:
  assumes "wf_map (sm_slots s)"
    and "\<And>ph key a. (ph, key, a) \<in># cs \<Longrightarrow> map_of (sm_slots s) key = Some a"
    and "\<And>key a. map_of (sm_slots s) key = Some a \<Longrightarrow> slot_ok lmt s cs key a"
    and "\<And>key key' a. map_of (sm_slots s) key = Some a \<Longrightarrow> map_of (sm_slots s) key' = Some a \<Longrightarrow> key = key'"
  shows "sem_ok lmt (s, cs)"
  using assms by (auto simp: sem_ok_def)

lemma sem_okD:
  assumes "sem_ok lmt (s, cs)"
  shows "wf_map (sm_slots s)"
    and "\<And>ph key a. (ph, key, a) \<in># cs \<Longrightarrow> map_of (sm_slots s) key = Some a"
    and "\<And>key a. map_of (sm_slots s) key = Some a \<Longrightarrow> slot_ok lmt s cs key a"
    and "\<And>key key' a. map_of (sm_slots s) key = Some a \<Longrightarrow> map_of (sm_slots s) key' = Some a \<Longrightarrow> key = key'"
  using assms unfolding sem_ok_def by blast+

lemma enter_ok:
  assumes ok: "sem_ok lmt (s, cs)" and pos: "0 < lmt key" and enter: "enter s key (lmt key) = (s', a)"
  shows "sem_ok lmt (s', add_mset (Waiting, key, a) cs)"
proof (cases "map_of (sm_slots s) key")
  case (Some b)
  with enter have here: "map_of (sm_slots s) key = Some a"
    and s': "s' = updateSem a (\<lambda>m. m\<lparr>se_users := se_users m + 1\<rparr>) s" by (auto simp: enter_def)
  show ?thesis
  proof (rule sem_okI)
    fix k b assume "map_of (sm_slots s') k = Some b"
    then have "slot_ok lmt s cs k b" using sem_okD(3) [OF ok] by (simp add: s' updateSem_def)
    then show "slot_ok lmt s' (add_mset (Waiting, key, a) cs) k b"
      by (auto simp: slot_ok_def s' updateSem_def nth_list_update)
  qed (use here sem_okD [OF ok] in \<open>auto simp: s' updateSem_def\<close>)
next
  case None
  with enter have a: "a = length (sm_heap s)"
    and s': "s' = s\<lparr>sm_heap := sm_heap s @ [\<lparr>se_cap = nat (lmt key), se_held = 0, se_users = 1\<rparr>],
             sm_slots := mput key (length (sm_heap s)) (sm_slots s)\<rparr>" by (auto simp: enter_def)
  note fresh = sem_ok_fresh [OF ok]
  have old: "b < length (sm_heap s)" if "map_of (sm_slots s) k = Some b" for k b
    using sem_okD(3) [OF ok that] by (simp add: slot_ok_def)
  show ?thesis
  proof (rule sem_okI)
    fix k b assume b: "map_of (sm_slots s') k = Some b"
    show "slot_ok lmt s' (add_mset (Waiting, key, a) cs) k b"
    proof (cases "k = key")
      case False
      with b have "map_of (sm_slots s) k = Some b" by (simp add: s' go_simps)
      with sem_okD(3) [OF ok this] old [OF this] show ?thesis
        by (auto simp: slot_ok_def s' a nth_append)
    qed (use b fresh pos in \<open>auto simp: slot_ok_def s' a go_simps\<close>)
  next
    fix ph k b assume "(ph, k, b) \<in># add_mset (Waiting, key, a) cs"
    with None sem_okD(2) [OF ok, of ph k b] show "map_of (sm_slots s') k = Some b"
      by (auto simp: s' a go_simps)
  next
    fix k k' b assume "map_of (sm_slots s') k = Some b" "map_of (sm_slots s') k' = Some b"
    then show "k = k'" using old sem_okD(4) [OF ok]
      by (fastforce simp: s' go_simps split: if_splits)
  qed (use sem_okD(1) [OF ok] in \<open>simp add: s'\<close>)
qed

text \<open>The state of a call in progress, and of the other entries of the table.\<close>

lemma sem_ok_call:
  assumes "sem_ok lmt (s, add_mset (ph, key, a) cs)"
  shows "map_of (sm_slots s) key = Some a" and "slot_ok lmt s (add_mset (ph, key, a) cs) key a"
    and "map_of (sm_slots s) k = Some a \<Longrightarrow> k = key"
proof -
  show here: "map_of (sm_slots s) key = Some a" by (rule sem_okD(2) [OF assms, of ph]) simp
  then show "slot_ok lmt s (add_mset (ph, key, a) cs) key a" by (rule sem_okD(3) [OF assms])
  show "k = key" if "map_of (sm_slots s) k = Some a" by (rule sem_okD(4) [OF assms that here])
qed

lemma sem_ok_other:
  assumes "sem_ok lmt (s, add_mset (ph, key, a) cs)" and "map_of (sm_slots s) k = Some b" and "b \<noteq> a"
  shows "slot_ok lmt s cs k b"
  using sem_okD(3) [OF assms(1,2)] assms(3) by (simp add: slot_ok_def)

lemma slot_ok_update:
  "b \<noteq> a \<Longrightarrow> slot_ok lmt (updateSem a f s) cs k b = slot_ok lmt s cs k b"
  by (simp add: slot_ok_def updateSem_def)

text \<open>A step that changes one object and the phase of one of its calls.\<close>

lemma phase_ok:
  assumes ok: "sem_ok lmt (s, add_mset (ph, key, a) cs)"
    and f: "\<And>m. se_cap (f m) = se_cap m" "\<And>m. se_users (f m) = se_users m"
    and held: "se_held (f (sm_heap s ! a)) = holders_of (add_mset (ph', key, a) cs) a"
    and le: "holders_of (add_mset (ph', key, a) cs) a \<le> nat (lmt key)"
  shows "sem_ok lmt (updateSem a f s, add_mset (ph', key, a) cs)"
proof (rule sem_okI)
  fix k b assume b: "map_of (sm_slots (updateSem a f s)) k = Some b"
  then have b': "map_of (sm_slots s) k = Some b" by (simp add: updateSem_def)
  show "slot_ok lmt (updateSem a f s) (add_mset (ph', key, a) cs) k b"
  proof (cases "b = a")
    case True
    with sem_ok_call(3) [OF ok] b' have "k = key" by simp
    with True sem_ok_call(2) [OF ok] f held le show ?thesis by (simp add: slot_ok_def updateSem_def)
  next
    case False
    from sem_ok_other [OF ok b' this] False show ?thesis by (simp add: slot_ok_def updateSem_def)
  qed
next
  fix p k b assume "(p, k, b) \<in># add_mset (ph', key, a) cs"
  with sem_okD(2) [OF ok, of p k b] sem_ok_call(1) [OF ok]
  show "map_of (sm_slots (updateSem a f s)) k = Some b" by (auto simp: updateSem_def)
qed (use sem_okD(1,4) [OF ok] in \<open>auto simp: updateSem_def\<close>)

lemma granted_ok:
  assumes ok: "sem_ok lmt (s, add_mset (Waiting, key, a) cs)" and send: "send a s = Some s'"
  shows "sem_ok lmt (s', add_mset (Holding, key, a) cs)"
proof -
  from send have free: "se_held (sm_heap s ! a) < se_cap (sm_heap s ! a)"
    and s': "s' = updateSem a (\<lambda>m. m\<lparr>se_held := se_held m + 1\<rparr>) s"
    by (auto simp: send_def split: if_splits)
  show ?thesis unfolding s'
    by (rule phase_ok [OF ok]) (use sem_ok_call(2) [OF ok] free in \<open>auto simp: slot_ok_def\<close>)
qed

lemma release_ok:
  assumes ok: "sem_ok lmt (s, add_mset (Holding, key, a) cs)" and recv: "recv a s = Some s'"
  shows "sem_ok lmt (s', add_mset (Leaving, key, a) cs)"
proof -
  from recv have s': "s' = updateSem a (\<lambda>m. m\<lparr>se_held := se_held m - 1\<rparr>) s"
    by (auto simp: recv_def split: if_splits)
  show ?thesis unfolding s'
    by (rule phase_ok [OF ok]) (use sem_ok_call(2) [OF ok] in \<open>auto simp: slot_ok_def\<close>)
qed

lemma leave_ok:
  assumes ok: "sem_ok lmt (s, add_mset (ph, key, a) cs)" and ph: "ph \<noteq> Holding"
  shows "sem_ok lmt (leave key a s, cs)"
proof -
  let ?s = "updateSem a (\<lambda>m. m\<lparr>se_users := se_users m - 1\<rparr>) s"
  note here = sem_ok_call [OF ok]
  have slots [simp]: "sm_slots ?s = sm_slots s" by (simp add: updateSem_def)
  have call: "map_of (sm_slots s) k = Some b" if "(p, k, b) \<in># cs" for p k b
    using sem_okD(2) [OF ok, of p k b] that by simp
  show ?thesis
  proof (cases "users_of cs a = 0")
    case True
    then have gone: "leave key a s = ?s\<lparr>sm_slots := mdel key (sm_slots s)\<rparr>"
      using here(2) by (simp add: leave_def Let_def updateSem_def slot_ok_def)
    have mput: "slot_ok lmt (?s\<lparr>sm_slots := m\<rparr>) cs k b = slot_ok lmt ?s cs k b" for m k b
      by (simp add: slot_ok_def)
    show ?thesis unfolding gone
    proof (rule sem_okI)
      fix p k b assume c: "(p, k, b) \<in># cs"
      with True have "b \<noteq> a" by (auto simp: users_of_0)
      with call [OF c] here(1) show "map_of (sm_slots (?s\<lparr>sm_slots := mdel key (sm_slots s)\<rparr>)) k = Some b"
        by (auto simp: go_simps)
    next
      fix k b assume "map_of (sm_slots (?s\<lparr>sm_slots := mdel key (sm_slots s)\<rparr>)) k = Some b"
      then have b: "map_of (sm_slots s) k = Some b" "k \<noteq> key" by (auto simp: go_simps split: if_splits)
      with here(3) have "b \<noteq> a" by auto
      with sem_ok_other [OF ok b(1)] show "slot_ok lmt (?s\<lparr>sm_slots := mdel key (sm_slots s)\<rparr>) cs k b"
        unfolding mput by (simp add: slot_ok_update)
    next
      fix k k' b assume "map_of (sm_slots (?s\<lparr>sm_slots := mdel key (sm_slots s)\<rparr>)) k = Some b"
        "map_of (sm_slots (?s\<lparr>sm_slots := mdel key (sm_slots s)\<rparr>)) k' = Some b"
      then show "k = k'" using sem_okD(4) [OF ok] by (auto simp: go_simps split: if_splits)
    qed (use sem_okD(1) [OF ok] in simp)
  next
    case False
    then have stay: "leave key a s = ?s"
      using here(2) by (simp add: leave_def Let_def updateSem_def slot_ok_def)
    show ?thesis unfolding stay
    proof (rule sem_okI)
      fix k b assume "map_of (sm_slots ?s) k = Some b"
      then have b: "map_of (sm_slots s) k = Some b" by simp
      show "slot_ok lmt ?s cs k b"
      proof (cases "b = a")
        case True
        with here(3) b have "k = key" by simp
        with True here(2) ph False show ?thesis by (auto simp: slot_ok_def updateSem_def)
      next
        case False
        with sem_ok_other [OF ok b] show ?thesis by (simp add: slot_ok_update)
      qed
    qed (use sem_okD(1,4) [OF ok] call in auto)
  qed
qed

lemma sem_step_ok: "sem_step lmt x y \<Longrightarrow> sem_ok lmt x \<Longrightarrow> sem_ok lmt y"
  by (induction rule: sem_step.induct) (auto intro: enter_ok granted_ok release_ok leave_ok)

lemma sem_reachable_ok: "(sem_step lmt)\<^sup>*\<^sup>* (Semaphores0, {#}) x \<Longrightarrow> sem_ok lmt x"
  by (induction rule: rtranclp_induct) (auto intro: sem_step_ok sem_ok_start)


definition holders_of_key :: "sem_call multiset \<Rightarrow> string \<Rightarrow> nat" where
  "holders_of_key cs key = size {#c \<in># cs. fst c = Holding \<and> fst (snd c) = key#}"

lemma holders_of_key_eq:
  assumes "sem_ok lmt (s, cs)" and "map_of (sm_slots s) key = Some a"
  shows "holders_of_key cs key = holders_of cs a"
proof -
  have "fst (snd c) = key \<longleftrightarrow> snd (snd c) = a" if c: "c \<in># cs" for c
  proof -
    obtain ph k b where [simp]: "c = (ph, k, b)" by (cases c)
    from sem_okD(2) [OF assms(1), of ph k b] c have "map_of (sm_slots s) k = Some b" by simp
    with assms(2) sem_okD(4) [OF assms(1)] show ?thesis by auto
  qed
  then have "{#c \<in># cs. fst c = Holding \<and> fst (snd c) = key#} = {#c \<in># cs. fst c = Holding \<and> snd (snd c) = a#}"
    by (intro filter_mset_cong refl) blast
  then show ?thesis by (simp add: holders_of_key_def holders_of_def)
qed

lemma slot_in_use:
  assumes "sem_ok lmt (s, cs)" and "map_of (sm_slots s) key = Some a"
  shows "\<exists>ph. (ph, key, a) \<in># cs"
proof -
  from sem_okD(3) [OF assms] have "users_of cs a \<noteq> 0" by (simp add: slot_ok_def)
  then obtain ph k where c: "(ph, k, a) \<in># cs" unfolding users_of_0 by (metis prod.collapse)
  from sem_okD(2) [OF assms(1) c] sem_okD(4) [OF assms(1) _ assms(2)] have "k = key" by blast
  with c show ?thesis by blast
qed

text \<open>C15: however calls are interleaved and canceled, a key never has more holders than its
  limit; a caller is kept waiting only while the key has as many holders as its limit; giving
  a slot back never blocks; and exactly the keys some call holds, waits for or is leaving are
  remembered.\<close>

theorem semaphores_bound_their_holders:
  assumes "(sem_step lmt)\<^sup>*\<^sup>* (Semaphores0, {#}) (s, cs)"
  shows "(\<forall>key. holders_of_key cs key \<le> nat (lmt key)) \<and>
    (\<forall>key a. (Waiting, key, a) \<in># cs \<longrightarrow> send a s = None \<longrightarrow> holders_of_key cs key = nat (lmt key)) \<and>
    (\<forall>key a. (Holding, key, a) \<in># cs \<longrightarrow> recv a s \<noteq> None) \<and>
    Keys s = card {key. \<exists>ph a. (ph, key, a) \<in># cs}"
proof (intro conjI allI impI)
  note ok = sem_reachable_ok [OF assms]
  note slot = sem_okD(3) [OF ok, unfolded slot_ok_def]
  show "holders_of_key cs key \<le> nat (lmt key)" for key
  proof (cases "map_of (sm_slots s) key")
    case None
    then have "{#c \<in># cs. fst c = Holding \<and> fst (snd c) = key#} = {#}"
      using sem_okD(2) [OF ok] by (fastforce simp: filter_mset_eq_mempty_iff)
    then show ?thesis unfolding holders_of_key_def by (simp only: size_empty le0)
  next
    case (Some b)
    with holders_of_key_eq [OF ok Some] slot [OF Some] show ?thesis by simp
  qed
  show "holders_of_key cs key = nat (lmt key)"
    if c: "(Waiting, key, a) \<in># cs" and blocked: "send a s = None" for key a
  proof -
    from sem_okD(2) [OF ok c] have here: "map_of (sm_slots s) key = Some a" .
    with blocked slot [OF here] holders_of_key_eq [OF ok here] show ?thesis
      by (auto simp: send_def split: if_splits)
  qed
  show "recv a s \<noteq> None" if c: "(Holding, key, a) \<in># cs" for key a
  proof -
    from sem_okD(2) [OF ok c] have here: "map_of (sm_slots s) key = Some a" .
    from c obtain cs' where "cs = add_mset (Holding, key, a) cs'" by (metis mset_add)
    with slot [OF here] show ?thesis by (simp add: recv_def)
  qed
  have "{key. \<exists>ph a. (ph, key, a) \<in># cs} = fst ` set (sm_slots s)"
  proof (intro set_eqI iffI)
    fix key assume "key \<in> {key. \<exists>ph a. (ph, key, a) \<in># cs}"
    then show "key \<in> fst ` set (sm_slots s)"
      using sem_okD(2) [OF ok] by (force dest: map_of_SomeD)
  next
    fix key assume "key \<in> fst ` set (sm_slots s)"
    then obtain a where "map_of (sm_slots s) key = Some a"
      using sem_okD(1) [OF ok] by (auto simp: wf_map_def)
    with slot_in_use [OF ok this] show "key \<in> {key. \<exists>ph a. (ph, key, a) \<in># cs}" by blast
  qed
  then show "Keys s = card {key. \<exists>ph a. (ph, key, a) \<in># cs}"
    using sem_okD(1) [OF ok] distinct_card [of "map fst (sm_slots s)"] by (simp add: Keys_def wf_map_def)
qed

theorem semaphores_bound_their_holders_witness:
  "\<exists>s. (sem_step (\<lambda>_. 1))\<^sup>*\<^sup>* (Semaphores0, {#}) (s, {#(Waiting, ''k'', 0), (Holding, ''k'', 0)#}) \<and>
    holders_of_key {#(Waiting, ''k'', 0), (Holding, ''k'', 0)#} ''k'' = 1 \<and>
    recv 0 s \<noteq> None \<and> Keys s = 1"
proof -
  define s1 where "s1 = \<lparr>sm_slots = [(''k'', 0)], sm_heap = [\<lparr>se_cap = 1, se_held = 0, se_users = 1\<rparr>]\<rparr>"
  define s2 where "s2 = s1\<lparr>sm_heap := [\<lparr>se_cap = 1, se_held = 1, se_users = 1\<rparr>]\<rparr>"
  define s3 where "s3 = s1\<lparr>sm_heap := [\<lparr>se_cap = 1, se_held = 1, se_users = 2\<rparr>]\<rparr>"
  let ?S = "sem_step (\<lambda>_. 1)"
  have one: "?S (Semaphores0, {#}) (s1, {#(Waiting, ''k'', 0)#})"
    by (rule sem_step.acquire) (simp_all add: enter_def Semaphores0_def s1_def)
  have two: "?S (s1, {#(Waiting, ''k'', 0)#}) (s2, {#(Holding, ''k'', 0)#})"
    by (rule sem_step.granted) (simp add: send_def updateSem_def s1_def s2_def)
  have three: "?S (s2, {#(Holding, ''k'', 0)#}) (s3, {#(Waiting, ''k'', 0), (Holding, ''k'', 0)#})"
    by (rule sem_step.acquire) (simp_all add: enter_def updateSem_def s1_def s2_def s3_def)
  from one have "?S\<^sup>*\<^sup>* (Semaphores0, {#}) (s1, {#(Waiting, ''k'', 0)#})"
    by (rule r_into_rtranclp)
  from this two have "?S\<^sup>*\<^sup>* (Semaphores0, {#}) (s2, {#(Holding, ''k'', 0)#})"
    by (rule rtranclp.rtrancl_into_rtrancl)
  from this three
  have run: "?S\<^sup>*\<^sup>* (Semaphores0, {#}) (s3, {#(Waiting, ''k'', 0), (Holding, ''k'', 0)#})"
    by (rule rtranclp.rtrancl_into_rtrancl)
  have "send 0 s3 = None" by (simp add: send_def s3_def s1_def)
  moreover have "{key. \<exists>ph a. (ph, key, a) \<in># {#(Waiting, ''k'', 0 :: nat), (Holding, ''k'', 0)#}} = {''k''}"
    by auto
  ultimately have "holders_of_key {#(Waiting, ''k'', 0), (Holding, ''k'', 0)#} ''k'' = 1"
    "recv 0 s3 \<noteq> None" "Keys s3 = 1"
    using semaphores_bound_their_holders [OF run] by simp_all
  with run show ?thesis by blast
qed

end
