(* ===== verification/Paging.thy ===== *)
theory Paging
  imports Prelude
begin

text \<open>
  The contract of the listings that return what comes after a key, at most \<open>limit\<close> of it (a run's
  or a session's events after a sequence number, approvals after an ID), and what a client that
  pages through one gets. The API hands these listings to its clients.
\<close>

text \<open>Reading page after page, each after the last key of the one before, up to \<open>n\<close> pages.\<close>

fun readPages :: "('k \<Rightarrow> 'a list) \<Rightarrow> ('a \<Rightarrow> 'k) \<Rightarrow> nat \<Rightarrow> 'k \<Rightarrow> 'a list" where
  "readPages page key 0 after = []"
| "readPages page key (Suc n) after =
    (case page after of [] \<Rightarrow> [] | x # xs \<Rightarrow> (x # xs) @ readPages page key n (key (last (x # xs))))"

text \<open>Go's \<open>limit > 0\<close> test: other limits mean no limit.\<close>

definition limited :: "int \<Rightarrow> 'a list \<Rightarrow> 'a list" where
  "limited limit xs = (if limit > 0 then take (nat limit) xs else xs)"

locale keyset_listing =
  fixes listing :: "'s \<Rightarrow> 'k::linorder \<Rightarrow> int \<Rightarrow> 'a list"
    and all :: "'s \<Rightarrow> 'a list"
    and key :: "'a \<Rightarrow> 'k"
    and ok :: "'s \<Rightarrow> bool"
  assumes listing_eq: "ok s \<Longrightarrow> listing s after limit = limited limit (filter (\<lambda>x. after < key x) (all s))"
    and keys_increase: "ok s \<Longrightarrow> sorted_wrt (<) (map key (all s))"
begin

lemma after_last:
  assumes "ok s" and "page = take n (filter (\<lambda>x. after < key x) (all s))" and "page \<noteq> []"
  shows "filter (\<lambda>x. key (last page) < key x) (all s) = drop n (filter (\<lambda>x. after < key x) (all s))"
proof -
  let ?f = "filter (\<lambda>x. after < key x) (all s)"
  have "sorted_wrt (<) (map key ?f)"
    using keys_increase [OF assms(1)] by (simp add: sorted_wrt_map sorted_wrt_filter)
  then have split: "sorted_wrt (<) (map key (page @ drop n ?f))"
    by (simp add: assms(2))
  have "last page \<in> set ?f"
    using last_in_set [OF assms(3)] in_set_takeD unfolding assms(2) by metis
  then have "after < key (last page)" by simp
  then have "filter (\<lambda>x. key (last page) < key x) (all s) = filter (\<lambda>x. key (last page) < key x) ?f"
    by (auto intro!: filter_cong simp: conj_commute)
  also have "\<dots> = filter (\<lambda>x. key (last page) < key x) (page @ drop n ?f)"
    by (simp add: assms(2))
  also have "\<dots> = drop n ?f"
  proof -
    have "\<not> key (last page) < key x" if x: "x \<in> set page" for x
    proof -
      obtain i where i: "i < length page" "x = page ! i"
        using x by (metis in_set_conv_nth)
      have "sorted_wrt (<) (map key page)" using split by (simp add: sorted_wrt_append)
      then have "i < length page - 1 \<Longrightarrow> key (page ! i) < key (page ! (length page - 1))"
        using i(1) by (simp add: sorted_wrt_iff_nth_less)
      moreover have "i = length page - 1 \<or> i < length page - 1" using i(1) by linarith
      ultimately show ?thesis using i(2) assms(3) by (auto simp: last_conv_nth)
    qed
    moreover have "key (last page) < key x" if "x \<in> set (drop n ?f)" for x
      using split that assms(3) by (auto simp: sorted_wrt_append)
    ultimately show ?thesis by (auto simp: filter_empty_conv intro: filter_True)
  qed
  finally show ?thesis .
qed

text \<open>Enough pages of any positive size are together the whole listing, in order.\<close>

lemma readPages_all:
  assumes "ok s" and "0 < limit" and "length (filter (\<lambda>x. after < key x) (all s)) \<le> n"
  shows "readPages (\<lambda>k. listing s k limit) key n after = filter (\<lambda>x. after < key x) (all s)"
  using assms(3)
proof (induction n arbitrary: after)
  case (Suc n)
  let ?f = "filter (\<lambda>x. after < key x) (all s)"
  let ?page = "take (nat limit) ?f"
  have page: "listing s after limit = ?page"
    using assms(1,2) by (simp add: listing_eq limited_def)
  show ?case
  proof (cases "?f = []")
    case False
    then have ne: "?page \<noteq> []" using assms(2) by simp
    note rest = after_last [OF assms(1) refl ne]
    have "length (filter (\<lambda>x. key (last ?page) < key x) (all s)) \<le> n"
      unfolding rest using Suc.prems False assms(2) by (cases ?f) auto
    note Suc.IH [OF this, unfolded rest]
    moreover have "readPages (\<lambda>k. listing s k limit) key (Suc n) after =
        ?page @ readPages (\<lambda>k. listing s k limit) key n (key (last ?page))"
      using ne by (cases ?page) (simp_all add: page)
    ultimately show ?thesis by (metis append_take_drop_id)
  qed (simp add: page)
qed simp

end

end
