(* ===== verification/StoreTypes.thy ===== *)
theory StoreTypes
  imports RunLimits
begin

text \<open>
  The stored shapes and the state of the in-memory store (\<open>store/store.go\<close>, lines 19 to 307;
  \<open>store/memory.go\<close>, lines 14 to 71). Maps the code iterates are \<open>gomap\<close>s, maps it only looks up
  are partial functions. The channels subscribers read from are a heap \<open>ms_chans\<close> addressed by
  the subscription's number, so that a channel outlives its entry in \<open>subsByRun\<close>; an approval's
  \<open>done\<close> channel, which is only ever closed and waited on, is the flag \<open>ae_done\<close>.
\<close>

type_synonym metadata = "(string \<times> json) list"

record Session =
  se_ID :: SessionID
  se_TenantID :: TenantID
  se_CreatedBy :: PrincipalID
  se_Title :: string
  se_Project :: string
  se_Status :: string
  se_Metadata :: metadata
  se_CreatedAt :: time
  se_UpdatedAt :: time

record Participant =
  pa_TenantID :: TenantID
  pa_SessionID :: SessionID
  pa_PrincipalID :: PrincipalID
  pa_Role :: string
  pa_JoinedAt :: time

record AgentDefinition =
  ad_TenantID :: TenantID
  ad_Name :: string
  ad_Definition :: raw
  ad_Version :: int
  ad_UpdatedAt :: time

record Run =
  ru_ID :: RunID
  ru_TenantID :: TenantID
  ru_SessionID :: SessionID
  ru_ParentRunID :: RunID
  ru_StartedBy :: PrincipalID
  ru_Status :: RunStatus
  ru_Limits :: Limits
  ru_Usage :: Usage
  ru_FailureReason :: string
  ru_IdempotencyKey :: string
  ru_QueuedAt :: time
  ru_StartedAt :: time
  ru_EndedAt :: time
  ru_Workflow :: raw
  ru_Input :: raw
  ru_Output :: raw
  ru_Owner :: string
  ru_LeaseUntil :: time
  ru_CancelRequested :: bool

record Task =
  ta_ID :: TaskID
  ta_TenantID :: TenantID
  ta_RunID :: RunID
  ta_ParentTaskID :: TaskID
  ta_AgentName :: string
  ta_Status :: TaskStatus
  ta_Depth :: int
  ta_Attempt :: int
  ta_Input :: raw
  ta_Output :: raw
  ta_Error :: string
  ta_CreatedAt :: time
  ta_UpdatedAt :: time

record MessageProjection =
  mp_ID :: string
  mp_SessionID :: SessionID
  mp_RunID :: RunID
  mp_EventID :: EventID
  mp_Role :: string
  mp_Visibility :: Visibility
  mp_Content :: string
  mp_CreatedAt :: time

record Approval =
  ap_ID :: ApprovalID
  ap_TenantID :: TenantID
  ap_RunID :: RunID
  ap_StepID :: StepID
  ap_Reason :: string
  ap_Status :: string
  ap_Request :: raw
  ap_Resolution :: raw
  ap_CreatedAt :: time
  ap_ResolvedAt :: time
  ap_ResolvedBy :: PrincipalID
  ap_ExpiresAt :: time

record ApprovalFilter =
  af_RunID :: RunID
  af_Status :: string
  af_After :: ApprovalID
  af_Limit :: int
  af_Participant :: PrincipalID

record Artifact =
  ar_ID :: string
  ar_TenantID :: TenantID
  ar_SessionID :: SessionID
  ar_RunID :: RunID
  ar_TaskID :: TaskID
  ar_StepID :: StepID
  ar_Producer :: string
  ar_Kind :: string
  ar_Name :: string
  ar_Version :: int
  ar_MimeType :: string
  ar_Size :: int
  ar_Content :: string
  ar_Metadata :: metadata
  ar_CreatedAt :: time

type_synonym MemoryScope = string

abbreviation MemoryTenant :: MemoryScope where "MemoryTenant \<equiv> ''tenant''"
abbreviation MemoryProject :: MemoryScope where "MemoryProject \<equiv> ''project''"
abbreviation MemoryWorkflow :: MemoryScope where "MemoryWorkflow \<equiv> ''workflow''"
abbreviation MemorySession :: MemoryScope where "MemorySession \<equiv> ''session''"

record MemorySource =
  src_RunID :: RunID
  src_SessionID :: SessionID
  src_TaskID :: TaskID
  src_StepID :: StepID
  src_ArtifactID :: string
  src_Document :: string
  src_Part :: int
  src_By :: PrincipalID

record Memory =
  mem_ID :: string
  mem_TenantID :: TenantID
  mem_Scope :: MemoryScope
  mem_SessionID :: SessionID
  mem_Project :: string
  mem_Workflow :: string
  mem_Content :: string
  mem_Embedding :: "real list"
  mem_EmbedModel :: string
  mem_Source :: MemorySource
  mem_CreatedAt :: time

record MemoryQuery =
  mq_TenantID :: TenantID
  mq_Embedding :: "real list"
  mq_EmbedModel :: string
  mq_SessionID :: SessionID
  mq_Project :: string
  mq_Workflow :: string
  mq_Limit :: int

record MemoryHit =
  mh_Memory :: Memory
  mh_Score :: real

record approvalEntry =
  ae_approval :: Approval
  ae_done :: bool \<comment> \<open>the channel is closed\<close>

text \<open>A buffered Go channel of events.\<close>

record event_chan =
  ch_cap :: nat
  ch_buf :: "Event list"
  ch_closed :: bool

record MemStore =
  ms_sessions :: "(SessionID, Session) gomap"
  ms_members :: "SessionID \<rightharpoonup> (PrincipalID, Participant) gomap"
  ms_agents :: "TenantID \<rightharpoonup> (string, AgentDefinition) gomap"
  ms_runs :: "(RunID, Run) gomap"
  ms_runByIdem :: "string \<rightharpoonup> RunID"
  ms_tasks :: "(TaskID, Task) gomap"
  ms_messages :: "SessionID \<rightharpoonup> MessageProjection list"
  ms_approvals :: "(ApprovalID, approvalEntry) gomap"
  ms_artifacts :: "(string, Artifact) gomap"
  ms_memories :: "Memory list"
  ms_events :: "Event list"
  ms_runSeq :: "RunID \<rightharpoonup> int"
  ms_sessionSeq :: "SessionID \<rightharpoonup> int"
  ms_subsByRun :: "RunID \<rightharpoonup> (int, int) gomap" \<comment> \<open>subscription to channel address\<close>
  ms_nextSubID :: int
  ms_chans :: "int \<rightharpoonup> event_chan"

definition NewMemStore :: MemStore where
  "NewMemStore = \<lparr>ms_sessions = [], ms_members = Map.empty, ms_agents = Map.empty, ms_runs = [],
     ms_runByIdem = Map.empty, ms_tasks = [], ms_messages = Map.empty, ms_approvals = [],
     ms_artifacts = [], ms_memories = [], ms_events = [], ms_runSeq = Map.empty,
     ms_sessionSeq = Map.empty, ms_subsByRun = Map.empty, ms_nextSubID = 0, ms_chans = Map.empty\<rparr>"

definition Ping :: "MemStore \<Rightarrow> goerr option" where
  "Ping m = None"

section \<open>Zero values\<close>

definition Run0 :: Run where
  "Run0 = \<lparr>ru_ID = [], ru_TenantID = [], ru_SessionID = [], ru_ParentRunID = [], ru_StartedBy = [],
     ru_Status = RunUnset, ru_Limits = Limits0, ru_Usage = Usage0, ru_FailureReason = [],
     ru_IdempotencyKey = [], ru_QueuedAt = 0, ru_StartedAt = 0, ru_EndedAt = 0, ru_Workflow = None,
     ru_Input = None, ru_Output = None, ru_Owner = [], ru_LeaseUntil = 0, ru_CancelRequested = False\<rparr>"

definition Session0 :: Session where
  "Session0 = \<lparr>se_ID = [], se_TenantID = [], se_CreatedBy = [], se_Title = [], se_Project = [],
     se_Status = [], se_Metadata = [], se_CreatedAt = 0, se_UpdatedAt = 0\<rparr>"

definition Task0 :: Task where
  "Task0 = \<lparr>ta_ID = [], ta_TenantID = [], ta_RunID = [], ta_ParentTaskID = [], ta_AgentName = [],
     ta_Status = TaskUnset, ta_Depth = 0, ta_Attempt = 0, ta_Input = None, ta_Output = None,
     ta_Error = [], ta_CreatedAt = 0, ta_UpdatedAt = 0\<rparr>"

definition Approval0 :: Approval where
  "Approval0 = \<lparr>ap_ID = [], ap_TenantID = [], ap_RunID = [], ap_StepID = [], ap_Reason = [],
     ap_Status = [], ap_Request = None, ap_Resolution = None, ap_CreatedAt = 0, ap_ResolvedAt = 0,
     ap_ResolvedBy = [], ap_ExpiresAt = 0\<rparr>"

definition Artifact0 :: Artifact where
  "Artifact0 = \<lparr>ar_ID = [], ar_TenantID = [], ar_SessionID = [], ar_RunID = [], ar_TaskID = [],
     ar_StepID = [], ar_Producer = [], ar_Kind = [], ar_Name = [], ar_Version = 0, ar_MimeType = [],
     ar_Size = 0, ar_Content = [], ar_Metadata = [], ar_CreatedAt = 0\<rparr>"

section \<open>Tenant-scoped lookups\<close>

text \<open>
  The contract of every read by ID: an object is returned to its own tenant only, and another
  tenant gets the answer it would get if the object did not exist.
\<close>

locale tenant_lookup =
  fixes get :: "'s \<Rightarrow> TenantID \<Rightarrow> 'id \<Rightarrow> goerr + 'v"
    and tenant_of :: "'v \<Rightarrow> TenantID"
    and stored :: "'s \<Rightarrow> 'id \<Rightarrow> 'v option"
  assumes get_eq: "get s t i = (case stored s i of
      None \<Rightarrow> Inl (Sentinel ErrNotFound)
    | Some v \<Rightarrow> if tenant_of v = t then Inr v else Inl (Sentinel ErrNotFound))"
begin

lemma get_Inr_iff: "get s t i = Inr v \<longleftrightarrow> stored s i = Some v \<and> tenant_of v = t"
  by (auto simp: get_eq split: option.splits)

lemma get_Inl: "get s t i = Inl e \<Longrightarrow> e = Sentinel ErrNotFound"
  by (auto simp: get_eq split: option.splits if_splits)

text \<open>What one tenant reads no other tenant can, nor tell apart from what does not exist.\<close>

lemma isolated: "get s t i = Inr v \<Longrightarrow> t' \<noteq> t \<Longrightarrow> stored s' i = None \<Longrightarrow>
    get s t' i = get s' t' i"
  by (auto simp: get_eq split: option.splits if_splits)

lemma get_cong: "stored s' i = stored s i \<Longrightarrow> get s' t i = get s t i"
  by (simp add: get_eq)

end

end
