(* ===== verification/EventLog.thy ===== *)
theory EventLog
  imports Paging StoreTypes
begin

text \<open>
  The event log and its subscriptions in the in-memory store (\<open>store/store.go\<close>, lines 844 to 951).
  \<open>Append\<close> numbers events per run and per session and offers each to the run's subscribers; a
  channel that is full drops it. Sending on or closing a closed channel panics: \<open>None\<close>. Sequence
  numbers are unbounded here; Go's \<open>int64\<close> would wrap after \<open>2 ^ 63\<close> events of one run.
\<close>

section \<open>Appending\<close>

text \<open>The IDs and clock readings \<open>Append\<close> may need for one event.\<close>

record stamp =
  stp_ID :: EventID
  stp_OccurredAt :: time
  stp_RecordedAt :: time
  stp_CorrelationID :: string

text \<open>A missing counter reads as zero.\<close>

definition seqOf :: "(string \<rightharpoonup> int) \<Rightarrow> string \<Rightarrow> int" where
  "seqOf seqs k = (case seqs k of None \<Rightarrow> 0 | Some n \<Rightarrow> n)"

text \<open>\<open>select { case ch <- ev: default: }\<close>.\<close>

definition trySend :: "event_chan \<Rightarrow> Event \<Rightarrow> event_chan option" where
  "trySend c ev =
    (if ch_closed c then None
     else if length (ch_buf c) < ch_cap c then Some (c\<lparr>ch_buf := ch_buf c @ [ev]\<rparr>)
     else Some c)"

fun fanOut :: "(int, int) gomap \<Rightarrow> Event \<Rightarrow> (int \<rightharpoonup> event_chan) \<Rightarrow> (int \<rightharpoonup> event_chan) option" where
  "fanOut [] ev chans = Some chans"
| "fanOut ((i, a) # subs) ev chans =
    (case chans a of
       None \<Rightarrow> fanOut subs ev chans
     | Some c \<Rightarrow> (case trySend c ev of
         None \<Rightarrow> None
       | Some c' \<Rightarrow> fanOut subs ev (chans(a \<mapsto> c'))))"

definition subsOf :: "MemStore \<Rightarrow> RunID \<Rightarrow> (int, int) gomap" where
  "subsOf m run = (case ms_subsByRun m run of None \<Rightarrow> [] | Some subs \<Rightarrow> subs)"

text \<open>The fields \<open>Append\<close> sets before it numbers an event, and the numbering.\<close>

definition stamped :: "Event \<Rightarrow> stamp \<Rightarrow> Event" where
  "stamped ev st =
    (let ev1 = (if ev_ID ev = [] then ev\<lparr>ev_ID := stp_ID st\<rparr> else ev);
         ev2 = (if ev_OccurredAt ev1 = 0 then ev1\<lparr>ev_OccurredAt := stp_OccurredAt st\<rparr> else ev1)
     in ev2\<lparr>ev_RecordedAt := stp_RecordedAt st\<rparr>)"

definition numbered :: "MemStore \<Rightarrow> Event \<Rightarrow> stamp \<Rightarrow> MemStore \<times> Event" where
  "numbered m ev0 st =
    (let ev = stamped ev0 st;
         rn = seqOf (ms_runSeq m) (ev_RunID ev) + 1;
         m1 = (if ev_RunID ev \<noteq> [] then m\<lparr>ms_runSeq := (ms_runSeq m)(ev_RunID ev \<mapsto> rn)\<rparr> else m);
         ev1 = (if ev_RunID ev \<noteq> [] then ev\<lparr>ev_Sequence := rn\<rparr> else ev);
         sn = seqOf (ms_sessionSeq m1) (ev_SessionID ev1) + 1;
         m2 = (if ev_SessionID ev1 \<noteq> []
               then m1\<lparr>ms_sessionSeq := (ms_sessionSeq m1)(ev_SessionID ev1 \<mapsto> sn)\<rparr> else m1);
         ev2 = (if ev_SessionID ev1 \<noteq> [] then ev1\<lparr>ev_SessionSequence := sn\<rparr> else ev1);
         ev3 = (if ev_CorrelationID ev2 = [] then ev2\<lparr>ev_CorrelationID := stp_CorrelationID st\<rparr> else ev2)
     in (m2\<lparr>ms_events := ms_events m2 @ [ev3]\<rparr>, ev3))"

definition appendOne :: "MemStore \<Rightarrow> Event \<times> stamp \<Rightarrow> (MemStore \<times> Event) option" where
  "appendOne m = (\<lambda>(ev0, st). case numbered m ev0 st of (m1, ev) \<Rightarrow>
     (case fanOut (subsOf m1 (ev_RunID ev)) ev (ms_chans m1) of
        None \<Rightarrow> None
      | Some chans \<Rightarrow> Some (m1\<lparr>ms_chans := chans\<rparr>, ev)))"

fun appendLoop :: "MemStore \<Rightarrow> (Event \<times> stamp) list \<Rightarrow> (MemStore \<times> Event list) option" where
  "appendLoop m [] = Some (m, [])"
| "appendLoop m (e # es) =
    (case appendOne m e of
       None \<Rightarrow> None
     | Some (m', ev) \<Rightarrow> (case appendLoop m' es of
         None \<Rightarrow> None
       | Some (m'', out) \<Rightarrow> Some (m'', ev # out)))"

definition Append :: "MemStore \<Rightarrow> (Event \<times> stamp) list \<Rightarrow> (MemStore \<times> Event list) option" where
  "Append m events = (if length events = 0 then Some (m, []) else appendLoop m events)"

section \<open>Reading\<close>

text \<open>The loop of \<open>ListRunEvents\<close> and \<open>ListSessionEvents\<close> with its \<open>break\<close> at the limit.\<close>

fun collectEvents :: "(Event \<Rightarrow> bool) \<Rightarrow> int \<Rightarrow> Event list \<Rightarrow> Event list \<Rightarrow> Event list" where
  "collectEvents P limit [] out = out"
| "collectEvents P limit (ev # evs) out =
    (if P ev then
       (let out' = out @ [ev]
        in if limit > 0 \<and> int (length out') \<ge> limit then out' else collectEvents P limit evs out')
     else collectEvents P limit evs out)"

definition ListRunEvents :: "MemStore \<Rightarrow> TenantID \<Rightarrow> RunID \<Rightarrow> int \<Rightarrow> int \<Rightarrow> Event list" where
  "ListRunEvents m tenant run afterSeq limit = collectEvents
     (\<lambda>ev. ev_RunID ev = run \<and> ev_TenantID ev = tenant \<and> ev_Sequence ev > afterSeq) limit (ms_events m) []"

definition ListSessionEvents :: "MemStore \<Rightarrow> TenantID \<Rightarrow> SessionID \<Rightarrow> int \<Rightarrow> int \<Rightarrow> Event list" where
  "ListSessionEvents m tenant sid afterSeq limit = collectEvents
     (\<lambda>ev. ev_SessionID ev = sid \<and> ev_TenantID ev = tenant \<and> ev_SessionSequence ev > afterSeq)
     limit (ms_events m) []"

section \<open>Subscribing\<close>

text \<open>\<open>Subscribe\<close> returns the channel, here the address, which is the subscription's number.\<close>

definition Subscribe :: "MemStore \<Rightarrow> RunID \<Rightarrow> int \<Rightarrow> MemStore \<times> int" where
  "Subscribe m run afterSeq =
    (let i = ms_nextSubID m;
         backlog = filter (\<lambda>ev. ev_RunID ev = run \<and> ev_Sequence ev > afterSeq) (ms_events m);
         ch = \<lparr>ch_cap = length backlog + 256, ch_buf = backlog, ch_closed = False\<rparr>
     in (m\<lparr>ms_nextSubID := i + 1, ms_chans := (ms_chans m)(i \<mapsto> ch),
           ms_subsByRun := (ms_subsByRun m)(run \<mapsto> mput i i (subsOf m run))\<rparr>, i))"

text \<open>The function \<open>Subscribe\<close> returns to detach the subscription.\<close>

definition cancelSub :: "MemStore \<Rightarrow> RunID \<Rightarrow> int \<Rightarrow> MemStore option" where
  "cancelSub m run i =
    (case map_of (subsOf m run) i of
       None \<Rightarrow> Some m
     | Some a \<Rightarrow>
        let m1 = m\<lparr>ms_subsByRun := (ms_subsByRun m)(run \<mapsto> mdel i (subsOf m run))\<rparr>
        in (case ms_chans m1 a of
              None \<Rightarrow> None
            | Some c \<Rightarrow> if ch_closed c then None
                else Some (m1\<lparr>ms_chans := (ms_chans m1)(a \<mapsto> c\<lparr>ch_closed := True\<rparr>)\<rparr>)))"

text \<open>A reader taking the next event of its channel; without one it waits.\<close>

definition recv :: "MemStore \<Rightarrow> int \<Rightarrow> MemStore \<times> Event list" where
  "recv m a = (case ms_chans m a of
     None \<Rightarrow> (m, [])
   | Some c \<Rightarrow> (case ch_buf c of
       [] \<Rightarrow> (m, [])
     | ev # evs \<Rightarrow> (m\<lparr>ms_chans := (ms_chans m)(a \<mapsto> c\<lparr>ch_buf := evs\<rparr>)\<rparr>, [ev])))"

section \<open>The log\<close>

definition runEvents :: "MemStore \<Rightarrow> RunID \<Rightarrow> Event list" where
  "runEvents m run = filter (\<lambda>ev. ev_RunID ev = run) (ms_events m)"

definition sessionEvents :: "MemStore \<Rightarrow> SessionID \<Rightarrow> Event list" where
  "sessionEvents m sid = filter (\<lambda>ev. ev_SessionID ev = sid) (ms_events m)"

text \<open>Each run's and each session's events are numbered 1, 2, 3, ... in the order of the log.\<close>

definition log_ok :: "MemStore \<Rightarrow> bool" where
  "log_ok m \<longleftrightarrow>
     (\<forall>run. run \<noteq> [] \<longrightarrow> 0 \<le> seqOf (ms_runSeq m) run \<and>
        map ev_Sequence (runEvents m run) = [1..seqOf (ms_runSeq m) run]) \<and>
     (\<forall>sid. sid \<noteq> [] \<longrightarrow> 0 \<le> seqOf (ms_sessionSeq m) sid \<and>
        map ev_SessionSequence (sessionEvents m sid) = [1..seqOf (ms_sessionSeq m) sid])"

lemma log_ok_new: "log_ok NewMemStore"
  by (simp add: log_ok_def NewMemStore_def runEvents_def sessionEvents_def seqOf_def)

lemma log_okD:
  assumes "log_ok m"
  shows "run \<noteq> [] \<Longrightarrow> 0 \<le> seqOf (ms_runSeq m) run"
    "run \<noteq> [] \<Longrightarrow> map ev_Sequence (runEvents m run) = [1..seqOf (ms_runSeq m) run]"
    "sid \<noteq> [] \<Longrightarrow> 0 \<le> seqOf (ms_sessionSeq m) sid"
    "sid \<noteq> [] \<Longrightarrow> map ev_SessionSequence (sessionEvents m sid) = [1..seqOf (ms_sessionSeq m) sid]"
  using assms by (auto simp: log_ok_def)

lemma log_ok_cong: "ms_events m' = ms_events m \<Longrightarrow> ms_runSeq m' = ms_runSeq m \<Longrightarrow>
    ms_sessionSeq m' = ms_sessionSeq m \<Longrightarrow> log_ok m' = log_ok m"
  by (simp add: log_ok_def runEvents_def sessionEvents_def)

lemma seqOf_upd [simp]: "seqOf (s(k \<mapsto> n)) k' = (if k' = k then n else seqOf s k')"
  by (simp add: seqOf_def)

lemma upto_snoc: "0 \<le> n \<Longrightarrow> [1..n] @ [n + 1] = [1..n + 1 :: int]"
  by (simp add: upto_rec2)

lemma stamped_simps [simp]: "ev_RunID (stamped ev st) = ev_RunID ev"
  "ev_SessionID (stamped ev st) = ev_SessionID ev" "ev_TenantID (stamped ev st) = ev_TenantID ev"
  "ev_Type (stamped ev st) = ev_Type ev" "ev_Payload (stamped ev st) = ev_Payload ev"
  "ev_HiddenPayload (stamped ev st) = ev_HiddenPayload ev" "ev_Visibility (stamped ev st) = ev_Visibility ev"
  by (simp_all add: stamped_def Let_def)

text \<open>One appended event: numbered next in its run and its session, and last in the log.\<close>

definition carries :: "Event \<Rightarrow> Event \<Rightarrow> bool" where
  "carries ev e \<longleftrightarrow> ev_RunID ev = ev_RunID e \<and> ev_SessionID ev = ev_SessionID e \<and>
     ev_TenantID ev = ev_TenantID e \<and> ev_Type ev = ev_Type e \<and> ev_Visibility ev = ev_Visibility e \<and>
     ev_Payload ev = ev_Payload e \<and> ev_HiddenPayload ev = ev_HiddenPayload e"

lemma numbered_facts:
  assumes "numbered m e st = (m', ev)"
  shows "ms_events m' = ms_events m @ [ev]" "carries ev e"
    "ms_runSeq m' = (if ev_RunID e = [] then ms_runSeq m
       else (ms_runSeq m)(ev_RunID e \<mapsto> seqOf (ms_runSeq m) (ev_RunID e) + 1))"
    "ms_sessionSeq m' = (if ev_SessionID e = [] then ms_sessionSeq m
       else (ms_sessionSeq m)(ev_SessionID e \<mapsto> seqOf (ms_sessionSeq m) (ev_SessionID e) + 1))"
    "ev_RunID e \<noteq> [] \<Longrightarrow> ev_Sequence ev = seqOf (ms_runSeq m) (ev_RunID e) + 1"
    "ev_SessionID e \<noteq> [] \<Longrightarrow> ev_SessionSequence ev = seqOf (ms_sessionSeq m) (ev_SessionID e) + 1"
    "ms_subsByRun m' = ms_subsByRun m" "ms_nextSubID m' = ms_nextSubID m" "ms_chans m' = ms_chans m"
  using assms
  by (cases "ev_RunID e = []"; cases "ev_SessionID e = []"; force simp: numbered_def Let_def carries_def)+

lemma appendOne_eq: "appendOne m (e, st) = (case fanOut (subsOf m (ev_RunID e)) (snd (numbered m e st)) (ms_chans m) of
    None \<Rightarrow> None
  | Some chans \<Rightarrow> Some ((fst (numbered m e st))\<lparr>ms_chans := chans\<rparr>, snd (numbered m e st)))"
proof -
  obtain m1 ev where n: "numbered m e st = (m1, ev)" by (cases "numbered m e st")
  with numbered_facts(2,7,9) [OF n] show ?thesis
    by (simp add: appendOne_def carries_def subsOf_def cong: option.case_cong)
qed

lemma appendOne_facts:
  assumes "appendOne m (e, st) = Some (m', ev)"
  shows "ms_events m' = ms_events m @ [ev]" "carries ev e"
    "ms_runSeq m' = (if ev_RunID e = [] then ms_runSeq m
       else (ms_runSeq m)(ev_RunID e \<mapsto> seqOf (ms_runSeq m) (ev_RunID e) + 1))"
    "ms_sessionSeq m' = (if ev_SessionID e = [] then ms_sessionSeq m
       else (ms_sessionSeq m)(ev_SessionID e \<mapsto> seqOf (ms_sessionSeq m) (ev_SessionID e) + 1))"
    "ev_RunID e \<noteq> [] \<Longrightarrow> ev_Sequence ev = seqOf (ms_runSeq m) (ev_RunID e) + 1"
    "ev_SessionID e \<noteq> [] \<Longrightarrow> ev_SessionSequence ev = seqOf (ms_sessionSeq m) (ev_SessionID e) + 1"
    "ms_subsByRun m' = ms_subsByRun m" "ms_nextSubID m' = ms_nextSubID m"
    "fanOut (subsOf m (ev_RunID e)) ev (ms_chans m) = Some (ms_chans m')"
proof -
  obtain m1 where n: "numbered m e st = (m1, ev)" and m': "m' = m1\<lparr>ms_chans := ms_chans m'\<rparr>"
    and "fanOut (subsOf m (ev_RunID e)) ev (ms_chans m) = Some (ms_chans m')"
    using assms by (cases "numbered m e st") (auto simp: appendOne_eq split: option.splits)
  note f = numbered_facts [OF n]
  show "ms_events m' = ms_events m @ [ev]" using f(1) by (subst m') simp
  show "ms_runSeq m' = (if ev_RunID e = [] then ms_runSeq m
       else (ms_runSeq m)(ev_RunID e \<mapsto> seqOf (ms_runSeq m) (ev_RunID e) + 1))" using f(3) by (subst m') simp
  show "ms_sessionSeq m' = (if ev_SessionID e = [] then ms_sessionSeq m
       else (ms_sessionSeq m)(ev_SessionID e \<mapsto> seqOf (ms_sessionSeq m) (ev_SessionID e) + 1))"
    using f(4) by (subst m') simp
  show "ms_subsByRun m' = ms_subsByRun m" "ms_nextSubID m' = ms_nextSubID m"
    using f(7,8) by (subst m', simp)+
  show "fanOut (subsOf m (ev_RunID e)) ev (ms_chans m) = Some (ms_chans m')" by fact
  show "carries ev e" "ev_RunID e \<noteq> [] \<Longrightarrow> ev_Sequence ev = seqOf (ms_runSeq m) (ev_RunID e) + 1"
    "ev_SessionID e \<noteq> [] \<Longrightarrow> ev_SessionSequence ev = seqOf (ms_sessionSeq m) (ev_SessionID e) + 1"
    by (rule f(2,5,6); assumption)+
qed

lemma log_ok_appendOne:
  assumes ok: "log_ok m" and app: "appendOne m (e, st) = Some (m', ev)"
  shows "log_ok m'"
proof -
  note f = appendOne_facts [OF app]
  have c: "ev_RunID ev = ev_RunID e" "ev_SessionID ev = ev_SessionID e"
    using f(2) by (simp_all add: carries_def)
  show ?thesis
    unfolding log_ok_def
  proof (intro conjI allI impI)
    fix run :: RunID assume run: "run \<noteq> []"
    show "0 \<le> seqOf (ms_runSeq m') run"
      using log_okD(1) [OF ok run] by (auto simp: f(3))
    show "map ev_Sequence (runEvents m' run) = [1..seqOf (ms_runSeq m') run]"
      using log_okD(1,2) [OF ok run] run f(5) by (auto simp: runEvents_def f(1,3) c upto_snoc)
  next
    fix sid :: SessionID assume sid: "sid \<noteq> []"
    show "0 \<le> seqOf (ms_sessionSeq m') sid"
      using log_okD(3) [OF ok sid] by (auto simp: f(4))
    show "map ev_SessionSequence (sessionEvents m' sid) = [1..seqOf (ms_sessionSeq m') sid]"
      using log_okD(3,4) [OF ok sid] sid f(6) by (auto simp: sessionEvents_def f(1,4) c upto_snoc)
  qed
qed

lemma appendLoop_log:
  "appendLoop m es = Some (m', out) \<Longrightarrow> log_ok m \<Longrightarrow>
    log_ok m' \<and> ms_events m' = ms_events m @ out \<and> list_all2 carries out (map fst es)"
proof (induction es arbitrary: m out)
  case (Cons x es)
  obtain e st where x: "x = (e, st)" by (cases x)
  from Cons.prems(1) obtain m1 ev out' where 1: "appendOne m (e, st) = Some (m1, ev)"
      "appendLoop m1 es = Some (m', out')" "out = ev # out'"
    by (auto simp: x split: option.splits)
  with Cons.IH [OF 1(2) log_ok_appendOne [OF Cons.prems(2) 1(1)]] appendOne_facts(1,2) [OF 1(1)]
  show ?case by (simp add: x)
qed simp

lemma collectEvents_limited: "limit \<le> 0 \<or> int (length out) < limit \<Longrightarrow>
    collectEvents P limit evs out = limited limit (out @ filter P evs)"
proof (induction evs arbitrary: out)
  case (Cons ev evs)
  show ?case
  proof (cases "P ev \<and> limit > 0 \<and> int (length out) + 1 \<ge> limit")
    case True
    with Cons.prems have "limit = int (length out) + 1" by linarith
    then have "nat limit = length out + 1" by simp
    with True show ?thesis by (simp add: limited_def)
  next
    case False
    with Cons show ?thesis by (auto simp: Let_def)
  qed
qed (auto simp: limited_def)

lemma ListRunEvents_eq: "ListRunEvents m t run k l =
    limited l (filter (\<lambda>ev. k < ev_Sequence ev) (filter (\<lambda>ev. ev_TenantID ev = t) (runEvents m run)))"
  unfolding ListRunEvents_def
  by (subst collectEvents_limited) (auto simp: runEvents_def conj_ac)

lemma ListSessionEvents_eq: "ListSessionEvents m t sid k l =
    limited l (filter (\<lambda>ev. k < ev_SessionSequence ev) (filter (\<lambda>ev. ev_TenantID ev = t) (sessionEvents m sid)))"
  unfolding ListSessionEvents_def
  by (subst collectEvents_limited) (auto simp: sessionEvents_def conj_ac)

lemma sorted_wrt_upto: "sorted_wrt (<) [i..j::int]"
  by (induction i j rule: upto.induct) (subst upto.simps, auto)

lemma keys_of_filter:
  assumes "map f xs = [1..n::int]"
  shows "sorted_wrt (<) (map f (filter P xs))"
proof -
  have "sorted_wrt (<) (map f xs)" by (simp add: assms sorted_wrt_upto)
  then show ?thesis by (simp add: sorted_wrt_map sorted_wrt_filter)
qed

interpretation run_event_pages: keyset_listing "\<lambda>m. ListRunEvents m t run"
    "\<lambda>m. filter (\<lambda>ev. ev_TenantID ev = t) (runEvents m run)" ev_Sequence
    "\<lambda>m. log_ok m \<and> run \<noteq> []" for t run
  by unfold_locales (auto simp: ListRunEvents_eq dest!: log_okD(2) intro: keys_of_filter)

interpretation session_event_pages: keyset_listing "\<lambda>m. ListSessionEvents m t sid"
    "\<lambda>m. filter (\<lambda>ev. ev_TenantID ev = t) (sessionEvents m sid)" ev_SessionSequence
    "\<lambda>m. log_ok m \<and> sid \<noteq> []" for t sid
  by unfold_locales (auto simp: ListSessionEvents_eq dest!: log_okD(4) intro: keys_of_filter)

text \<open>C18: However events of different runs and sessions are appended, each run's events and each
  session's events are numbered 1, 2, 3, ... without gap or repetition in the order of the log, and
  \<open>Append\<close> returns what it recorded: each given event with its tenant, run, session, type,
  visibility and payloads.\<close>

theorem Append_numbers_events:
  assumes "log_ok m" and "Append m es = Some (m', out)"
  shows "log_ok m' \<and> ms_events m' = ms_events m @ out \<and> list_all2 carries out (map fst es) \<and>
    (run = [] \<or> map ev_Sequence (runEvents m' run) = [1..int (length (runEvents m' run))])"
proof -
  have a: "log_ok m' \<and> ms_events m' = ms_events m @ out \<and> list_all2 carries out (map fst es)"
    using assms appendLoop_log [of m es m' out] by (auto simp: Append_def split: if_splits)
  moreover have "map ev_Sequence (runEvents m' run) = [1..int (length (runEvents m' run))]" if run: "run \<noteq> []"
  proof -
    have n: "map ev_Sequence (runEvents m' run) = [1..seqOf (ms_runSeq m') run]"
      "0 \<le> seqOf (ms_runSeq m') run"
      using log_okD(1,2) [OF _ run] a by auto
    then have "int (length (runEvents m' run)) = seqOf (ms_runSeq m') run"
      by (metis length_map length_upto diff_add_cancel int_nat_eq)
    with n show ?thesis by simp
  qed
  ultimately show ?thesis by blast
qed

text \<open>A log of two events of one run, for the examples.\<close>

definition sampleEvent :: "Event \<times> stamp" where
  "sampleEvent = (Event0\<lparr>ev_RunID := ''r'', ev_SessionID := ''s''\<rparr>,
     \<lparr>stp_ID = ''e'', stp_OccurredAt = 1, stp_RecordedAt = 2, stp_CorrelationID = ''c''\<rparr>)"

lemma sample_log:
  obtains m out where "Append NewMemStore [sampleEvent, sampleEvent] = Some (m, out)" "log_ok m"
    "length (ms_events m) = 2" "length (runEvents m ''r'') = 2" "ms_subsByRun m = Map.empty"
    "seqOf (ms_runSeq m) ''r'' = 2"
proof -
  obtain m1 e1 where s1: "appendOne NewMemStore sampleEvent = Some (m1, e1)"
    by (cases "numbered NewMemStore (fst sampleEvent) (snd sampleEvent)")
      (auto simp: sampleEvent_def appendOne_eq subsOf_def NewMemStore_def)
  then have subs: "subsOf m1 run = []" for run
    using appendOne_facts(7) [OF s1 [unfolded sampleEvent_def]] by (simp add: subsOf_def NewMemStore_def)
  obtain m e2 where s2: "appendOne m1 sampleEvent = Some (m, e2)"
    by (cases "numbered m1 (fst sampleEvent) (snd sampleEvent)")
      (auto simp: sampleEvent_def appendOne_eq subs)
  define out where "out = [e1, e2]"
  have a: "Append NewMemStore [sampleEvent, sampleEvent] = Some (m, out)"
    by (simp add: Append_def s1 s2 out_def)
  note s = s1 s2
  note f = appendOne_facts [OF s(1) [unfolded sampleEvent_def]] appendOne_facts [OF s(2) [unfolded sampleEvent_def]]
  have "log_ok m"
    using appendLoop_log [of NewMemStore "[sampleEvent, sampleEvent]" m out] a log_ok_new by (simp add: Append_def)
  moreover have "ms_events m = [e1, e2]" "ev_RunID e1 = ''r''" "ev_RunID e2 = ''r''"
    using f by (simp_all add: NewMemStore_def carries_def)
  moreover have "ms_subsByRun m = Map.empty" "seqOf (ms_runSeq m) ''r'' = 2"
    using f by (simp_all add: NewMemStore_def) (simp add: seqOf_def)
  ultimately show ?thesis using that a by (simp add: runEvents_def)
qed

theorem Append_numbers_events_witness:
  "\<exists>m out. Append NewMemStore [sampleEvent, sampleEvent] = Some (m, out) \<and>
    map ev_Sequence (runEvents m ''r'') = [1, 2]"
proof -
  obtain m out where m: "Append NewMemStore [sampleEvent, sampleEvent] = Some (m, out)"
      "length (runEvents m ''r'') = 2"
    by (rule sample_log)
  have "[1..2::int] = [1, 2]" by (simp add: upto.simps)
  with Append_numbers_events [OF log_ok_new m(1), of "''r''"] m show ?thesis by auto
qed

text \<open>A client that pages through a run's events by sequence number gets every event of the run
  after the one it starts from, once and in order, whatever the page size; so does one that pages
  through a session.\<close>

theorem event_pages_complete:
  assumes "log_ok m" and "0 < limit" and "run \<noteq> []" and "sid \<noteq> []" and "length (ms_events m) \<le> n"
  shows "readPages (\<lambda>k. ListRunEvents m t run k limit) ev_Sequence n k =
      filter (\<lambda>ev. ev_RunID ev = run \<and> ev_TenantID ev = t \<and> k < ev_Sequence ev) (ms_events m) \<and>
    readPages (\<lambda>k. ListSessionEvents m t sid k limit) ev_SessionSequence n k =
      filter (\<lambda>ev. ev_SessionID ev = sid \<and> ev_TenantID ev = t \<and> k < ev_SessionSequence ev) (ms_events m)"
proof -
  have len: "length (filter P (filter Q (filter R (ms_events m)))) \<le> n" for P Q R
    using assms(5) by (meson le_trans length_filter_le)
  show ?thesis
    using run_event_pages.readPages_all [where s = m and run = run and t = t and limit = limit and n = n and after = k]
      session_event_pages.readPages_all [where s = m and sid = sid and t = t and limit = limit and n = n and after = k]
      assms(1-4) len by (simp add: runEvents_def sessionEvents_def conj_ac)
qed

theorem event_pages_complete_witness:
  "\<exists>m. length (ms_events m) = 2 \<and> readPages (\<lambda>k. ListRunEvents m [] ''r'' k 1) ev_Sequence 2 0 =
    filter (\<lambda>ev. ev_RunID ev = ''r'' \<and> ev_TenantID ev = [] \<and> 0 < ev_Sequence ev) (ms_events m)"
proof -
  obtain m where "log_ok m" "length (ms_events m) = 2"
    by (rule sample_log)
  with event_pages_complete [of m 1 "''r''" "''s''" 2 "[]" 0] show ?thesis by auto
qed

end
