(* ===== verification/Subscriptions.thy ===== *)
theory Subscriptions
  imports EventLog "HOL-Library.Sublist"
begin

text \<open>
  What a subscriber of a run's events receives (\<open>Subscribe\<close>, the fan-out in \<open>Append\<close> and the
  function that detaches a subscription), with other subscriptions coming and going.
\<close>

section \<open>Well-formed subscriptions\<close>

text \<open>
  Every subscription has a number of its own, its channel is open and belongs to it alone.
\<close>

definition subs_ok :: "MemStore \<Rightarrow> bool" where
  "subs_ok m \<longleftrightarrow>
     (\<forall>run. wf_map (subsOf m run)) \<and>
     (\<forall>run i a. map_of (subsOf m run) i = Some a \<longrightarrow> a = i \<and> i < ms_nextSubID m \<and>
        (\<exists>c. ms_chans m i = Some c \<and> \<not> ch_closed c) \<and>
        (\<forall>run'. map_of (subsOf m run') i \<noteq> None \<longrightarrow> run' = run))"

lemma subs_ok_new: "subs_ok NewMemStore"
  by (simp add: subs_ok_def NewMemStore_def subsOf_def)

lemma subs_okD:
  assumes "subs_ok m" and "map_of (subsOf m run) i = Some a"
  shows "a = i" "i < ms_nextSubID m" "\<exists>c. ms_chans m i = Some c \<and> \<not> ch_closed c"
    "map_of (subsOf m run') i \<noteq> None \<Longrightarrow> run' = run"
  using assms by (auto simp: subs_ok_def)

definition offer :: "Event \<Rightarrow> event_chan \<Rightarrow> event_chan" where
  "offer ev c = (if length (ch_buf c) < ch_cap c then c\<lparr>ch_buf := ch_buf c @ [ev]\<rparr> else c)"

lemma offer_simps [simp]: "ch_closed (offer ev c) = ch_closed c" "ch_cap (offer ev c) = ch_cap c"
  by (simp_all add: offer_def)

text \<open>Every channel of the run is offered the event once, and no other channel changes.\<close>

lemma fanOut_chans:
  assumes "distinct (map snd subs)"
    and "list_all (\<lambda>(i, a). \<exists>c. chans a = Some c \<and> \<not> ch_closed c) subs"
  shows "fanOut subs ev chans = Some (\<lambda>a. if a \<in> snd ` set subs then map_option (offer ev) (chans a) else chans a)"
  using assms
proof (induction subs arbitrary: chans)
  case (Cons x subs)
  obtain i a where x: "x = (i, a)" by (cases x)
  with Cons.prems obtain c where c: "chans a = Some c" "\<not> ch_closed c" by auto
  then have send: "trySend c ev = Some (offer ev c)" by (simp add: trySend_def offer_def)
  define chans' where "chans' = chans(a \<mapsto> offer ev c)"
  have "list_all (\<lambda>(i, a). \<exists>c. chans' a = Some c \<and> \<not> ch_closed c) subs"
    using Cons.prems(2) c by (auto simp: list_all_iff chans'_def)
  with Cons.IH [of chans'] Cons.prems(1) c send
  have "fanOut (x # subs) ev chans =
      Some (\<lambda>b. if b \<in> snd ` set subs then map_option (offer ev) (chans' b) else chans' b)"
    by (simp add: x chans'_def [symmetric])
  also have "\<dots> = Some (\<lambda>b. if b \<in> snd ` set (x # subs) then map_option (offer ev) (chans b) else chans b)"
    using Cons.prems(1) c by (auto simp: fun_eq_iff x chans'_def)
  finally show ?case .
qed simp

lemma subs_addresses:
  assumes "subs_ok m"
  shows "distinct (map snd (subsOf m run))" "(i, a) \<in> set (subsOf m run) \<longleftrightarrow> a = i \<and> map_of (subsOf m run) i \<noteq> None"
    "b \<in> snd ` set (subsOf m run) \<longleftrightarrow> map_of (subsOf m run) b \<noteq> None"
proof -
  have wf: "wf_map (subsOf m run)" using assms by (simp add: subs_ok_def)
  have same: "a = i" if "(i, a) \<in> set (subsOf m run)" for i a
    using subs_okD(1) [OF assms, of run i a] that wf by (simp add: wf_map_def map_of_eq_Some_iff)
  then have eq: "map snd (subsOf m run) = map fst (subsOf m run)" by auto
  have "snd ` set (subsOf m run) = fst ` set (subsOf m run)"
    using arg_cong [OF eq, of set] by simp
  then show "b \<in> snd ` set (subsOf m run) \<longleftrightarrow> map_of (subsOf m run) b \<noteq> None"
    by (simp add: map_of_eq_None_iff)
  from eq wf show "distinct (map snd (subsOf m run))" by (simp only: wf_map_def)
  show "(i, a) \<in> set (subsOf m run) \<longleftrightarrow> a = i \<and> map_of (subsOf m run) i \<noteq> None"
    using same by (metis domD domI map_of_SomeD map_of_eq_None_iff fst_conv image_eqI not_None_eq)
qed

text \<open>One append offers the event to exactly the channels of its run's subscriptions.\<close>

lemma appendOne_chans:
  assumes ok: "subs_ok m"
  obtains m' ev where "appendOne m (e, st) = Some (m', ev)" "subs_ok m'"
    "\<And>i. ms_chans m' i = (if map_of (subsOf m (ev_RunID e)) i \<noteq> None
        then map_option (offer ev) (ms_chans m i) else ms_chans m i)"
proof -
  let ?subs = "subsOf m (ev_RunID e)"
  have "list_all (\<lambda>(i, a). \<exists>c. ms_chans m a = Some c \<and> \<not> ch_closed c) ?subs"
    using subs_okD(3) [OF ok] by (auto simp: list_all_iff subs_addresses(2) [OF ok])
  note fan = fanOut_chans [OF subs_addresses(1) [OF ok] this]
  note mem = subs_addresses(3) [OF ok, of _ "ev_RunID e"]
  obtain m' ev where a: "appendOne m (e, st) = Some (m', ev)"
    unfolding appendOne_eq fan by simp
  note f = appendOne_facts [OF a]
  have subs: "subsOf m' = subsOf m" by (simp add: subsOf_def fun_eq_iff f(7))
  have chans: "ms_chans m' i = (if map_of (subsOf m (ev_RunID e)) i \<noteq> None
      then map_option (offer ev) (ms_chans m i) else ms_chans m i)" for i
    using f(9) unfolding fan mem by (auto simp: fun_eq_iff)
  have "\<exists>c. ms_chans m' i = Some c \<and> \<not> ch_closed c" if "map_of (subsOf m run) i = Some a" for run i a
    using subs_okD(3) [OF ok that] by (auto simp: chans)
  then have "subs_ok m'"
    using ok unfolding subs_ok_def subs f(8) by blast
  from that [OF a this chans] show ?thesis .
qed

section \<open>The other operations\<close>

lemma subsOf_Subscribe: "Subscribe m run k = (m', i) \<Longrightarrow>
    subsOf m' r = (if r = run then mput i i (subsOf m run) else subsOf m r)"
  by (auto simp: Subscribe_def Let_def subsOf_def)

lemma subs_ok_Subscribe:
  assumes ok: "subs_ok m" and s: "Subscribe m run k = (m', i)"
  shows "subs_ok m'"
proof -
  have i: "i = ms_nextSubID m" "ms_nextSubID m' = i + 1"
    and ch: "\<And>a. ms_chans m' a = (if a = i then ms_chans m' i else ms_chans m a)"
    and opn: "\<exists>c. ms_chans m' i = Some c \<and> \<not> ch_closed c"
    using s by (auto simp: Subscribe_def Let_def)
  have fresh: "map_of (subsOf m r) i = None" for r
    using subs_okD(2) [OF ok, of r i] i by (cases "map_of (subsOf m r) i") auto
  have old: "a = j \<and> j < i \<and> j \<noteq> i" if "map_of (subsOf m r) j = Some a" for r j a
    using subs_okD(1,2) [OF ok that] i by simp
  show ?thesis
    unfolding subs_ok_def
  proof (intro conjI allI impI)
    fix r show "wf_map (subsOf m' r)"
      using ok by (simp add: subsOf_Subscribe [OF s] subs_ok_def)
  next
    fix r j a assume j: "map_of (subsOf m' r) j = Some a"
    then have cases: "j = i \<and> r = run \<and> a = i \<or> j \<noteq> i \<and> map_of (subsOf m r) j = Some a"
      using fresh by (auto simp: subsOf_Subscribe [OF s] go_simps split: if_splits)
    then show "a = j" "j < ms_nextSubID m'"
      using old [of r j a] i by auto
    from cases show "\<exists>c. ms_chans m' j = Some c \<and> \<not> ch_closed c"
      using opn ch [of j] subs_okD(3) [OF ok, of r j a] by auto
    fix r' assume "map_of (subsOf m' r') j \<noteq> None"
    with cases show "r' = r"
      using fresh [of r'] subs_okD(4) [OF ok, of r j a r']
      by (auto simp: subsOf_Subscribe [OF s] go_simps split: if_splits)
  qed
qed

lemma subsOf_cancel: "cancelSub m run i = Some m' \<Longrightarrow> wf_map (subsOf m run) \<Longrightarrow>
    map_of (subsOf m' r) j = (if r = run \<and> j = i then None else map_of (subsOf m r) j)"
  by (auto simp: cancelSub_def Let_def subsOf_def go_simps split: option.splits if_splits)

lemma cancelSub_ok:
  assumes ok: "subs_ok m"
  obtains m' where "cancelSub m run i = Some m'" "subs_ok m'"
    "\<And>j. map_of (subsOf m run) i = None \<or> j \<noteq> i \<Longrightarrow> ms_chans m' j = ms_chans m j"
    "ms_events m' = ms_events m" "ms_runSeq m' = ms_runSeq m" "ms_sessionSeq m' = ms_sessionSeq m"
proof (cases "map_of (subsOf m run) i")
  case None
  then show ?thesis using ok by (intro that [of m]) (simp_all add: cancelSub_def)
next
  case (Some a)
  from subs_okD(1,3) [OF ok Some] obtain c where c: "a = i" "ms_chans m i = Some c" "\<not> ch_closed c" by auto
  with Some obtain m' where m': "cancelSub m run i = Some m'" "ms_nextSubID m' = ms_nextSubID m"
      "ms_chans m' = (ms_chans m)(i \<mapsto> c\<lparr>ch_closed := True\<rparr>)" "ms_events m' = ms_events m"
      "ms_runSeq m' = ms_runSeq m" "ms_sessionSeq m' = ms_sessionSeq m"
      "subsOf m' = (subsOf m)(run := mdel i (subsOf m run))"
    by (simp add: cancelSub_def Let_def subsOf_def fun_eq_iff)
  have wf: "wf_map (subsOf m r)" for r using ok by (simp add: subs_ok_def)
  have "subs_ok m'"
    unfolding subs_ok_def
  proof (intro conjI allI impI)
    fix r show "wf_map (subsOf m' r)" by (simp add: m'(7) wf)
  next
    fix r j b assume "map_of (subsOf m' r) j = Some b"
    then have j: "map_of (subsOf m r) j = Some b" "\<not> (r = run \<and> j = i)"
      by (auto simp: m'(7) go_simps split: if_splits)
    then have "j \<noteq> i" using subs_okD(4) [OF ok Some, of r] by auto
    with subs_okD [OF ok j(1)] m'(2,3) show "b = j" "j < ms_nextSubID m'"
      "\<exists>c. ms_chans m' j = Some c \<and> \<not> ch_closed c" by auto
    fix r' assume "map_of (subsOf m' r') j \<noteq> None"
    then have "map_of (subsOf m r') j \<noteq> None" by (auto simp: m'(7) go_simps split: if_splits)
    with subs_okD(4) [OF ok j(1)] show "r' = r" by blast
  qed
  with m' show ?thesis by (intro that [of m']) (auto simp: Some)
qed

lemma recv_facts:
  "ms_events (fst (recv m a)) = ms_events m" "ms_runSeq (fst (recv m a)) = ms_runSeq m"
  "ms_sessionSeq (fst (recv m a)) = ms_sessionSeq m" "subsOf (fst (recv m a)) = subsOf m"
  "ms_nextSubID (fst (recv m a)) = ms_nextSubID m"
  "j \<noteq> a \<Longrightarrow> ms_chans (fst (recv m a)) j = ms_chans m j"
  "ms_chans m a = Some c \<Longrightarrow> \<exists>c'. ms_chans (fst (recv m a)) a = Some c' \<and> ch_closed c' = ch_closed c \<and>
     ch_cap c' = ch_cap c \<and> snd (recv m a) @ ch_buf c' = ch_buf c"
  by (auto simp: recv_def subsOf_def fun_eq_iff split: option.splits list.splits)

lemma subs_ok_recv: "subs_ok m \<Longrightarrow> subs_ok (fst (recv m a))"
proof -
  assume ok: "subs_ok m"
  have "\<exists>c. ms_chans (fst (recv m a)) i = Some c \<and> \<not> ch_closed c" if "map_of (subsOf m run) i = Some b" for run i b
  proof -
    from subs_okD(3) [OF ok that] obtain c where c: "ms_chans m i = Some c" "\<not> ch_closed c" by blast
    with recv_facts(6) [of i a m] recv_facts(7) [of m a c] show ?thesis by (cases "i = a") auto
  qed
  with ok show ?thesis unfolding subs_ok_def recv_facts(4,5) by blast
qed

section \<open>One subscriber\<close>

text \<open>
  What may happen between a subscriber's reads: appends to any run, other subscriptions that come,
  read and go. \<open>got\<close> is what the subscriber has read so far.
\<close>

datatype feed_op =
    FAppend "(Event \<times> stamp) list" | FRead | FReadOther int | FSubscribe RunID int | FCancel RunID int

fun feed_step :: "int \<Rightarrow> feed_op \<Rightarrow> MemStore \<times> Event list \<Rightarrow> (MemStore \<times> Event list) option" where
  "feed_step i (FAppend es) (m, got) = map_option (\<lambda>(m', _). (m', got)) (Append m es)"
| "feed_step i FRead (m, got) = (case recv m i of (m', evs) \<Rightarrow> Some (m', got @ evs))"
| "feed_step i (FReadOther j) (m, got) = Some (fst (recv m j), got)"
| "feed_step i (FSubscribe run k) (m, got) = Some (fst (Subscribe m run k), got)"
| "feed_step i (FCancel run j) (m, got) = map_option (\<lambda>m'. (m', got)) (cancelSub m run j)"

fun feed :: "int \<Rightarrow> feed_op list \<Rightarrow> MemStore \<times> Event list \<Rightarrow> (MemStore \<times> Event list) option" where
  "feed i [] s = Some s"
| "feed i (p # ps) s = (case feed_step i p s of None \<Rightarrow> None | Some s' \<Rightarrow> feed i ps s')"

fun leaves_alone :: "int \<Rightarrow> feed_op \<Rightarrow> bool" where
  "leaves_alone i (FReadOther j) \<longleftrightarrow> j \<noteq> i"
| "leaves_alone i (FCancel run j) \<longleftrightarrow> j \<noteq> i"
| "leaves_alone i _ \<longleftrightarrow> True"

text \<open>What the subscriber wants: the run's events after the one it starts from.\<close>

definition wanted :: "MemStore \<Rightarrow> RunID \<Rightarrow> int \<Rightarrow> Event list" where
  "wanted m run k = filter (\<lambda>ev. k < ev_Sequence ev) (runEvents m run)"

text \<open>
  The subscriber's channel, of size \<open>cap\<close>, holds what it has not read of what it wants, in order;
  as long as that never was more than \<open>cap\<close> events, nothing is missing.
\<close>

definition served :: "RunID \<Rightarrow> int \<Rightarrow> nat \<Rightarrow> int \<Rightarrow> MemStore \<times> Event list \<Rightarrow> bool" where
  "served run k cap i = (\<lambda>(m, got). log_ok m \<and> subs_ok m \<and> k \<le> seqOf (ms_runSeq m) run \<and>
     map_of (subsOf m run) i = Some i \<and>
     (\<exists>c. ms_chans m i = Some c \<and> ch_cap c = cap \<and> subseq (got @ ch_buf c) (wanted m run k) \<and>
        (cap < length (wanted m run k) \<or> got @ ch_buf c = wanted m run k)))"

lemma served_appendOne:
  assumes s: "served run k cap i (m, got)" and run: "run \<noteq> []"
  obtains m' ev where "appendOne m e = Some (m', ev)" "served run k cap i (m', got)"
proof -
  obtain e0 st where e: "e = (e0, st)" by (cases e)
  from s obtain c where m: "log_ok m" "subs_ok m" "k \<le> seqOf (ms_runSeq m) run"
      "map_of (subsOf m run) i = Some i" and c: "ms_chans m i = Some c" "ch_cap c = cap"
      "subseq (got @ ch_buf c) (wanted m run k)"
      "cap < length (wanted m run k) \<or> got @ ch_buf c = wanted m run k"
    by (auto simp: served_def)
  obtain m' ev where a: "appendOne m (e0, st) = Some (m', ev)" "subs_ok m'"
    and chans: "\<And>i. ms_chans m' i = (if map_of (subsOf m (ev_RunID e0)) i \<noteq> None
        then map_option (offer ev) (ms_chans m i) else ms_chans m i)"
    using appendOne_chans [OF m(2), of e0 st] by blast
  note f = appendOne_facts [OF a(1)]
  have subs: "subsOf m' = subsOf m" by (simp add: subsOf_def fun_eq_iff f(7))
  have k: "k \<le> seqOf (ms_runSeq m') run" using m(3) by (auto simp: f(3))
  have r: "ev_RunID ev = ev_RunID e0" using f(2) by (simp add: carries_def)
  have "served run k cap i (m', got)"
  proof (cases "ev_RunID e0 = run")
    case True
    have w: "wanted m' run k = wanted m run k @ [ev]"
      using f(5) m(3) run True by (simp add: wanted_def runEvents_def f(1) r)
    have ch: "ms_chans m' i = Some (offer ev c)"
      using chans [of i] m(4) c(1) True by simp
    have sub: "subseq (got @ ch_buf (offer ev c)) (wanted m' run k)"
    proof (cases "length (ch_buf c) < ch_cap c")
      case True
      with c(3) have "subseq ((got @ ch_buf c) @ [ev]) (wanted m run k @ [ev])"
        by (simp only: subseq_append_iff) (intro exI conjI; (rule refl | assumption | rule subseq_order.order_refl))
      with True show ?thesis by (simp add: offer_def w)
    next
      case False
      with c(3) show ?thesis by (simp add: offer_def w list_emb_prefix)
    qed
    have "cap < length (wanted m' run k) \<or> got @ ch_buf (offer ev c) = wanted m' run k"
    proof (cases "cap < length (wanted m' run k)")
      case False
      with c(4) have eq: "got @ ch_buf c = wanted m run k" by (auto simp: w)
      have "length (ch_buf c) < cap" using False eq [symmetric] by (simp add: w)
      with c(2) eq show ?thesis by (simp add: offer_def w)
    qed simp
    with sub ch m(4) a(2) log_ok_appendOne [OF m(1) a(1)] k c(2) show ?thesis
      by (simp add: served_def subs)
  next
    case False
    have "wanted m' run k = wanted m run k"
      using False by (simp add: wanted_def runEvents_def f(1) r)
    moreover have "map_of (subsOf m (ev_RunID e0)) i = None"
      using subs_okD(4) [OF m(2,4), of "ev_RunID e0"] False by blast
    ultimately show ?thesis
      using c m(4) a(2) log_ok_appendOne [OF m(1) a(1)] k chans [of i] by (simp add: served_def subs)
  qed
  with that a(1) show ?thesis by (simp add: e)
qed

lemma served_appendLoop:
  assumes "served run k cap i (m, got)" and "run \<noteq> []"
  shows "\<exists>m' out. appendLoop m es = Some (m', out) \<and> served run k cap i (m', got)"
  using assms(1)
proof (induction es arbitrary: m)
  case (Cons e es)
  obtain m1 ev where 1: "appendOne m e = Some (m1, ev)" "served run k cap i (m1, got)"
    by (rule served_appendOne [OF Cons.prems assms(2)])
  with Cons.IH [OF 1(2)] show ?case by auto
qed simp

lemma served_cong:
  assumes "served run k cap i (m, got)" and "subs_ok m'" and "ms_events m' = ms_events m"
    and "ms_runSeq m' = ms_runSeq m" and "ms_sessionSeq m' = ms_sessionSeq m"
    and "map_of (subsOf m' run) i = Some i" and "ms_chans m' i = ms_chans m i"
  shows "served run k cap i (m', got)"
  using assms by (simp add: served_def wanted_def runEvents_def sessionEvents_def log_ok_def)

lemma served_step:
  assumes s: "served run k cap i (m, got)" and run: "run \<noteq> []" and p: "leaves_alone i p"
  obtains s' where "feed_step i p (m, got) = Some s'" "served run k cap i s'"
proof (cases p)
  case (FAppend es)
  from served_appendLoop [OF s run, of es] obtain m' out where
    "appendLoop m es = Some (m', out)" "served run k cap i (m', got)" by blast
  with FAppend s show ?thesis by (intro that [of "if es = [] then (m, got) else (m', got)"]) (auto simp: Append_def)
next
  case FRead
  obtain m' evs where r: "recv m i = (m', evs)" by (cases "recv m i")
  note f = recv_facts [where m = m and a = i, unfolded r fst_conv snd_conv]
  from s subs_ok_recv [of m i] r have "served run k cap i (m', got @ evs)"
    by (auto simp: served_def f(4) dest!: f(7)) (simp_all add: f(1-3) wanted_def runEvents_def sessionEvents_def log_ok_def)
  with FRead r show ?thesis by (intro that) auto
next
  case (FReadOther j)
  with served_cong [OF s subs_ok_recv recv_facts(1-3)] s p recv_facts(4,6) show ?thesis
    by (intro that [of "(fst (recv m j), got)"]) (auto simp: served_def)
next
  case (FSubscribe r k')
  obtain m' j where j: "Subscribe m r k' = (m', j)" by (cases "Subscribe m r k'")
  have ok: "subs_ok m" and i: "map_of (subsOf m run) i = Some i" using s by (simp_all add: served_def)
  from subs_okD(2) [OF ok i] j have "j \<noteq> i" by (auto simp: Subscribe_def Let_def)
  then have "served run k cap i (m', got)"
    using j i by (intro served_cong [OF s subs_ok_Subscribe [OF ok j]])
      (auto simp: subsOf_Subscribe [OF j] go_simps, auto simp: Subscribe_def Let_def)
  with FSubscribe j show ?thesis by (intro that) auto
next
  case (FCancel r j)
  have ok: "subs_ok m" and i: "map_of (subsOf m run) i = Some i" using s by (simp_all add: served_def)
  obtain m' where m': "cancelSub m r j = Some m'" "subs_ok m'"
    "\<And>x. map_of (subsOf m r) j = None \<or> x \<noteq> j \<Longrightarrow> ms_chans m' x = ms_chans m x"
    "ms_events m' = ms_events m" "ms_runSeq m' = ms_runSeq m" "ms_sessionSeq m' = ms_sessionSeq m"
    using cancelSub_ok [OF ok, of r j] by metis
  have "wf_map (subsOf m r)" using ok by (simp add: subs_ok_def)
  with p FCancel i have "map_of (subsOf m' run) i = Some i" by (simp add: subsOf_cancel [OF m'(1)])
  with m' p FCancel have "served run k cap i (m', got)" by (intro served_cong [OF s]) auto
  with FCancel m'(1) show ?thesis by (intro that) auto
qed

lemma served_feed:
  assumes "served run k cap i s" and "run \<noteq> []" and "list_all (leaves_alone i) ps"
  shows "\<exists>s'. feed i ps s = Some s' \<and> served run k cap i s'"
  using assms
proof (induction ps arbitrary: s)
  case (Cons p ps)
  obtain m got where s: "s = (m, got)" by (cases s)
  from Cons.prems(3) have p: "leaves_alone i p" "list_all (leaves_alone i) ps" by simp_all
  obtain s' where "feed_step i p s = Some s'" "served run k cap i s'"
    using served_step [of run k cap i m got p] Cons.prems(1,2) p(1) s by blast
  with Cons.IH [OF this(2) Cons.prems(2) p(2)] show ?case by simp
qed simp

lemma served_Subscribe:
  assumes "log_ok m" and "subs_ok m" and "k \<le> seqOf (ms_runSeq m) run" and "Subscribe m run k = (m', i)"
  shows "served run k (length (wanted m run k) + 256) i (m', [])"
proof -
  have b: "filter (\<lambda>ev. ev_RunID ev = run \<and> k < ev_Sequence ev) (ms_events m) = wanted m run k"
    by (simp add: wanted_def runEvents_def conj_commute)
  have "ms_events m' = ms_events m \<and> ms_runSeq m' = ms_runSeq m \<and> ms_sessionSeq m' = ms_sessionSeq m \<and>
    ms_chans m' i = Some \<lparr>ch_cap = length (wanted m run k) + 256, ch_buf = wanted m run k, ch_closed = False\<rparr>"
    using assms(4) unfolding Subscribe_def Let_def b by auto
  moreover from this have "wanted m' run k = wanted m run k"
    by (simp add: wanted_def runEvents_def)
  moreover from calculation assms(1) have "log_ok m'"
    using log_ok_cong [of m' m] by simp
  moreover note subs_ok_Subscribe [OF assms(2,4)] assms(3)
  ultimately show ?thesis
    by (simp add: served_def subsOf_Subscribe [OF assms(4)] go_simps)
qed

text \<open>A subscriber that starts after event \<open>k\<close> of a run gets the run's events from \<open>k + 1\<close> on in
  order and without repetition, first those recorded already and then the new ones, whatever else
  happens to the log and to other subscriptions and however it interleaves its reads; nothing ever
  panics. Nothing is missing as long as at most 256 events were appended to the run since it
  subscribed, and what it has read and not read of a longer run is a subsequence of it.\<close>

theorem subscriber_misses_nothing:
  assumes "log_ok m" and "subs_ok m" and "run \<noteq> []" and "k \<le> seqOf (ms_runSeq m) run"
    and "Subscribe m run k = (m1, i)" and "list_all (leaves_alone i) ps"
  shows "\<exists>m' got c. feed i ps (m1, []) = Some (m', got) \<and> ms_chans m' i = Some c \<and>
    subseq (got @ ch_buf c) (wanted m' run k) \<and>
    (length (wanted m' run k) \<le> length (wanted m run k) + 256 \<longrightarrow> got @ ch_buf c = wanted m' run k)"
proof -
  from served_feed [OF served_Subscribe [OF assms(1,2,4,5)] assms(3,6)] obtain s'
    where f: "feed i ps (m1, []) = Some s'"
      and s: "served run k (length (wanted m run k) + 256) i s'" by blast
  then show ?thesis by (cases s') (auto simp: served_def)
qed

theorem subscriber_misses_nothing_witness:
  "\<exists>m m1 i m' got c. Append NewMemStore [sampleEvent, sampleEvent] = Some m \<and>
     Subscribe (fst m) ''r'' 1 = (m1, i) \<and> feed i [FRead, FAppend [sampleEvent], FRead] (m1, []) = Some (m', got) \<and>
     ms_chans m' i = Some c \<and> subseq (got @ ch_buf c) (wanted m' ''r'' 1)"
proof -
  obtain m out where m: "Append NewMemStore [sampleEvent, sampleEvent] = Some (m, out)" "log_ok m"
      "seqOf (ms_runSeq m) ''r'' = 2" and none: "ms_subsByRun m = Map.empty"
    using sample_log by blast
  have subs: "subs_ok m" by (simp add: subs_ok_def subsOf_def none)
  obtain m1 i where s: "Subscribe m ''r'' 1 = (m1, i)" by (cases "Subscribe m ''r'' 1")
  from subscriber_misses_nothing [OF m(2) subs _ _ s, of "[FRead, FAppend [sampleEvent], FRead]"] m s
  show ?thesis by (auto simp del: feed.simps)
qed

end
