(* ===== verification/Sessions.thy ===== *)
theory Sessions
  imports StoreTypes
begin

text \<open>
  Sessions, their participants and messages, and tenants' agent definitions in the in-memory
  store (\<open>store/store.go\<close>, lines 312 to 467). Every method holds the store's lock and is one
  atomic function. \<open>newID\<close> is the ID \<open>core.NewID\<close> would give and \<open>now\<close> the clock's reading. The
  order in which Go iterates a map is that of the association list; what the methods return is
  sorted afterwards.
\<close>

section \<open>Operations\<close>

text \<open>The fields \<open>CreateSession\<close> fills in.\<close>

definition filledSession :: "Session \<Rightarrow> SessionID \<Rightarrow> time \<Rightarrow> Session" where
  "filledSession s0 newID now =
    (let s1 = (if se_ID s0 = [] then s0\<lparr>se_ID := newID\<rparr> else s0);
         s2 = (if se_CreatedAt s1 = 0 then s1\<lparr>se_CreatedAt := now\<rparr> else s1);
         s3 = s2\<lparr>se_UpdatedAt := se_CreatedAt s2\<rparr>
     in if se_Status s3 = [] then s3\<lparr>se_Status := ''active''\<rparr> else s3)"

definition CreateSession :: "MemStore \<Rightarrow> Session \<Rightarrow> SessionID \<Rightarrow> time \<Rightarrow> MemStore \<times> SessionID" where
  "CreateSession m s0 newID now =
    (let s = filledSession s0 newID now;
         owner = \<lparr>pa_TenantID = se_TenantID s, pa_SessionID = se_ID s, pa_PrincipalID = se_CreatedBy s,
                  pa_Role = ''owner'', pa_JoinedAt = se_CreatedAt s\<rparr>;
         members = (if se_CreatedBy s \<noteq> [] then mput (se_CreatedBy s) owner [] else [])
     in (m\<lparr>ms_sessions := mput (se_ID s) s (ms_sessions m),
           ms_members := (ms_members m)(se_ID s \<mapsto> members)\<rparr>, se_ID s))"

definition GetSession :: "MemStore \<Rightarrow> TenantID \<Rightarrow> SessionID \<Rightarrow> goerr + Session" where
  "GetSession m tenant sid =
    (case map_of (ms_sessions m) sid of
       None \<Rightarrow> Inl (Sentinel ErrNotFound)
     | Some s \<Rightarrow> if se_TenantID s \<noteq> tenant then Inl (Sentinel ErrNotFound) else Inr s)"

text \<open>\<open>m.members[session]\<close>; a missing entry is a nil map, which looks up like an empty one.\<close>

definition membersOf :: "MemStore \<Rightarrow> SessionID \<Rightarrow> (PrincipalID, Participant) gomap" where
  "membersOf m sid = (case ms_members m sid of None \<Rightarrow> [] | Some ps \<Rightarrow> ps)"

definition ListSessions :: "MemStore \<Rightarrow> TenantID \<Rightarrow> PrincipalID \<Rightarrow> Session list" where
  "ListSessions m tenant participant = sort_key (\<lambda>s. - se_CreatedAt s)
     (filter (\<lambda>s. se_TenantID s = tenant \<and>
        (participant = [] \<or> map_of (membersOf m (se_ID s)) participant \<noteq> None)) (mvals (ms_sessions m)))"

text \<open>
  A write to \<open>m.members[session]\<close> when the session has no entry would panic on the nil map;
  \<open>sessions_ok\<close> below excludes it.
\<close>

definition PutParticipant :: "MemStore \<Rightarrow> Participant \<Rightarrow> time \<Rightarrow> MemStore \<times> goerr option" where
  "PutParticipant m p now =
    (if (case map_of (ms_sessions m) (pa_SessionID p) of
           None \<Rightarrow> True | Some s \<Rightarrow> se_TenantID s \<noteq> pa_TenantID p)
     then (m, Some (Sentinel ErrNotFound))
     else if pa_Role p \<noteq> ''owner'' \<and> pa_Role p \<noteq> ''member'' \<and> pa_Role p \<noteq> ''viewer''
     then (m, Some (new_error ''participant role is not owner, member or viewer''))
     else let members = membersOf m (pa_SessionID p);
              joined = (case map_of members (pa_PrincipalID p) of
                 Some old \<Rightarrow> pa_JoinedAt old | None \<Rightarrow> now)
          in (m\<lparr>ms_members := (ms_members m)(pa_SessionID p \<mapsto>
                 mput (pa_PrincipalID p) (p\<lparr>pa_JoinedAt := joined\<rparr>) members)\<rparr>, None))"

definition GetParticipant ::
  "MemStore \<Rightarrow> TenantID \<Rightarrow> SessionID \<Rightarrow> PrincipalID \<Rightarrow> goerr + Participant" where
  "GetParticipant m tenant sid who =
    (case map_of (membersOf m sid) who of
       None \<Rightarrow> Inl (Sentinel ErrNotFound)
     | Some p \<Rightarrow> if pa_TenantID p \<noteq> tenant then Inl (Sentinel ErrNotFound) else Inr p)"

definition ListParticipants :: "MemStore \<Rightarrow> TenantID \<Rightarrow> SessionID \<Rightarrow> goerr + Participant list" where
  "ListParticipants m tenant sid =
    (case map_of (ms_sessions m) sid of
       None \<Rightarrow> Inl (Sentinel ErrNotFound)
     | Some s \<Rightarrow>
        if se_TenantID s \<noteq> tenant then Inl (Sentinel ErrNotFound)
        else Inr (sort_key (\<lambda>p. (pa_JoinedAt p, pa_PrincipalID p)) (mvals (membersOf m sid))))"

definition RemoveParticipant ::
  "MemStore \<Rightarrow> TenantID \<Rightarrow> SessionID \<Rightarrow> PrincipalID \<Rightarrow> MemStore \<times> goerr option" where
  "RemoveParticipant m tenant sid who =
    (case map_of (membersOf m sid) who of
       None \<Rightarrow> (m, Some (Sentinel ErrNotFound))
     | Some p \<Rightarrow>
        if pa_TenantID p \<noteq> tenant then (m, Some (Sentinel ErrNotFound))
        else (m\<lparr>ms_members := (ms_members m)(sid \<mapsto> mdel who (membersOf m sid))\<rparr>, None))"

definition agentsOf :: "MemStore \<Rightarrow> TenantID \<Rightarrow> (string, AgentDefinition) gomap" where
  "agentsOf m tenant = (case ms_agents m tenant of None \<Rightarrow> [] | Some as \<Rightarrow> as)"

definition PutAgent :: "MemStore \<Rightarrow> AgentDefinition \<Rightarrow> time \<Rightarrow> MemStore \<times> int" where
  "PutAgent m a now =
    (let agents = agentsOf m (ad_TenantID a);
         version = (case map_of agents (ad_Name a) of None \<Rightarrow> 0 | Some old \<Rightarrow> ad_Version old) + 1;
         a' = a\<lparr>ad_Version := version, ad_UpdatedAt := now\<rparr>
     in (m\<lparr>ms_agents := (ms_agents m)(ad_TenantID a \<mapsto> mput (ad_Name a) a' agents)\<rparr>, version))"

definition ListAgents :: "MemStore \<Rightarrow> TenantID \<Rightarrow> AgentDefinition list" where
  "ListAgents m tenant = sort_key ad_Name (mvals (agentsOf m tenant))"

definition DeleteAgent :: "MemStore \<Rightarrow> TenantID \<Rightarrow> string \<Rightarrow> MemStore \<times> goerr option" where
  "DeleteAgent m tenant name =
    (if map_of (agentsOf m tenant) name = None then (m, Some (Sentinel ErrNotFound))
     else (m\<lparr>ms_agents := (ms_agents m)(tenant \<mapsto> mdel name (agentsOf m tenant))\<rparr>, None))"

definition messagesOf :: "MemStore \<Rightarrow> SessionID \<Rightarrow> MessageProjection list" where
  "messagesOf m sid = (case ms_messages m sid of None \<Rightarrow> [] | Some ms \<Rightarrow> ms)"

definition AddMessage :: "MemStore \<Rightarrow> MessageProjection \<Rightarrow> string \<Rightarrow> time \<Rightarrow> MemStore" where
  "AddMessage m msg0 newID now =
    (let msg1 = (if mp_ID msg0 = [] then msg0\<lparr>mp_ID := newID\<rparr> else msg0);
         msg = (if mp_CreatedAt msg1 = 0 then msg1\<lparr>mp_CreatedAt := now\<rparr> else msg1)
     in m\<lparr>ms_messages := (ms_messages m)(mp_SessionID msg \<mapsto> messagesOf m (mp_SessionID msg) @ [msg])\<rparr>)"

definition ListMessages :: "MemStore \<Rightarrow> TenantID \<Rightarrow> SessionID \<Rightarrow> goerr + MessageProjection list" where
  "ListMessages m tenant sid =
    (case map_of (ms_sessions m) sid of
       None \<Rightarrow> Inl (Sentinel ErrNotFound)
     | Some s \<Rightarrow> if se_TenantID s \<noteq> tenant then Inl (Sentinel ErrNotFound) else Inr (messagesOf m sid))"

section \<open>The lookup contract\<close>

interpretation sessions: tenant_lookup GetSession se_TenantID "\<lambda>m. map_of (ms_sessions m)"
  by unfold_locales (simp add: GetSession_def split: option.splits)

interpretation participants: tenant_lookup "\<lambda>m t (sid, p). GetParticipant m t sid p" pa_TenantID
    "\<lambda>m (sid, p). map_of (membersOf m sid) p"
  by unfold_locales (simp add: GetParticipant_def split: option.splits prod.splits)

interpretation message_lists: tenant_lookup "\<lambda>m t sid. map_sum id (\<lambda>ms. (t, ms)) (ListMessages m t sid)"
    fst "\<lambda>m sid. map_option (\<lambda>s. (se_TenantID s, messagesOf m sid)) (map_of (ms_sessions m) sid)"
  by unfold_locales (simp add: ListMessages_def split: option.splits)

section \<open>Well-formed sessions\<close>

text \<open>
  Every session is stored under its own ID, has a member map, and its members are participants of
  that session in its tenant with one of the three roles.
\<close>

definition member_ok :: "Session \<Rightarrow> PrincipalID \<times> Participant \<Rightarrow> bool" where
  "member_ok s = (\<lambda>(k, p). pa_PrincipalID p = k \<and> pa_SessionID p = se_ID s \<and> pa_TenantID p = se_TenantID s \<and>
     pa_Role p \<in> {''owner'', ''member'', ''viewer''})"

definition sessions_ok :: "MemStore \<Rightarrow> bool" where
  "sessions_ok m \<longleftrightarrow> wf_map (ms_sessions m) \<and>
     (\<forall>sid. ms_members m sid = None \<longleftrightarrow> map_of (ms_sessions m) sid = None) \<and>
     (\<forall>sid s. map_of (ms_sessions m) sid = Some s \<longrightarrow> se_ID s = sid \<and> wf_map (membersOf m sid) \<and>
        (\<forall>p. p \<in> set (membersOf m sid) \<longrightarrow> member_ok s p))"

lemma sessions_ok_NewMemStore: "sessions_ok NewMemStore"
  by (simp add: sessions_ok_def NewMemStore_def)

lemma sessions_okD:
  assumes "sessions_ok m" and "map_of (ms_sessions m) sid = Some s"
  shows "se_ID s = sid" "wf_map (membersOf m sid)" "\<And>p. p \<in> set (membersOf m sid) \<Longrightarrow> member_ok s p"
  using assms by (auto simp: sessions_ok_def)

lemma set_mput: "x \<in> set (mput k v m) \<Longrightarrow> x = (k, v) \<or> x \<in> set m"
  by (induction m) (auto split: if_splits)

lemma set_mdel: "x \<in> set (mdel k m) \<Longrightarrow> x \<in> set m"
  by (auto simp: AList.delete_eq)

lemma sessions_ok_CreateSession:
  "sessions_ok m \<Longrightarrow> sessions_ok (fst (CreateSession m s newID now))"
  unfolding CreateSession_def Let_def
  by (simp add: sessions_ok_def go_simps membersOf_def member_ok_def)

lemma sessions_ok_update:
  assumes "sessions_ok m" and "map_of (ms_sessions m) sid = Some s"
    and "wf_map ps" and "\<And>p. p \<in> set ps \<Longrightarrow> member_ok s p"
  shows "sessions_ok (m\<lparr>ms_members := (ms_members m)(sid \<mapsto> ps)\<rparr>)"
  using assms by (simp add: sessions_ok_def membersOf_def)

definition joinedAt :: "MemStore \<Rightarrow> Participant \<Rightarrow> time \<Rightarrow> time" where
  "joinedAt m p now = (case map_of (membersOf m (pa_SessionID p)) (pa_PrincipalID p) of
     Some old \<Rightarrow> pa_JoinedAt old | None \<Rightarrow> now)"

lemma PutParticipant_eq: "PutParticipant m p now =
    (if map_option se_TenantID (map_of (ms_sessions m) (pa_SessionID p)) \<noteq> Some (pa_TenantID p)
     then (m, Some (Sentinel ErrNotFound))
     else if pa_Role p \<notin> {''owner'', ''member'', ''viewer''}
     then (m, Some (new_error ''participant role is not owner, member or viewer''))
     else (m\<lparr>ms_members := (ms_members m)(pa_SessionID p \<mapsto>
        mput (pa_PrincipalID p) (p\<lparr>pa_JoinedAt := joinedAt m p now\<rparr>) (membersOf m (pa_SessionID p)))\<rparr>, None))"
  by (cases "map_of (ms_sessions m) (pa_SessionID p)") (simp_all add: PutParticipant_def Let_def joinedAt_def)

lemma sessions_ok_PutParticipant:
  assumes "sessions_ok m"
  shows "sessions_ok (fst (PutParticipant m p now))"
proof (cases "map_option se_TenantID (map_of (ms_sessions m) (pa_SessionID p)) = Some (pa_TenantID p) \<and>
    pa_Role p \<in> {''owner'', ''member'', ''viewer''}")
  case True
  then obtain s where s: "map_of (ms_sessions m) (pa_SessionID p) = Some s" "se_TenantID s = pa_TenantID p"
    by auto
  note ok = sessions_okD [OF assms s(1)]
  have "sessions_ok (m\<lparr>ms_members := (ms_members m)(pa_SessionID p \<mapsto>
      mput (pa_PrincipalID p) (p\<lparr>pa_JoinedAt := joinedAt m p now\<rparr>) (membersOf m (pa_SessionID p)))\<rparr>)"
    using ok s True by (intro sessions_ok_update [OF assms s(1)]) (auto dest!: set_mput simp: member_ok_def)
  with True show ?thesis by (simp add: PutParticipant_eq)
qed (use assms in \<open>auto simp: PutParticipant_eq\<close>)

lemma sessions_ok_RemoveParticipant:
  assumes "sessions_ok m"
  shows "sessions_ok (fst (RemoveParticipant m t sid p))"
proof (cases "map_of (ms_sessions m) sid")
  case None
  then have "ms_members m sid = None"
    using assms unfolding sessions_ok_def by blast
  then have "membersOf m sid = []"
    by (simp add: membersOf_def)
  with assms show ?thesis by (simp add: RemoveParticipant_def)
next
  case (Some s)
  from sessions_okD [OF assms Some]
  have "sessions_ok (m\<lparr>ms_members := (ms_members m)(sid \<mapsto> mdel p (membersOf m sid))\<rparr>)"
    by (intro sessions_ok_update [OF assms Some]) (auto dest: set_mdel)
  with assms show ?thesis by (simp add: RemoveParticipant_def split: option.splits)
qed

lemma sessions_ok_frame [simp]:
  "sessions_ok (fst (PutAgent m a now)) = sessions_ok m"
  "sessions_ok (fst (DeleteAgent m t n)) = sessions_ok m"
  "sessions_ok (AddMessage m msg newID now) = sessions_ok m"
  by (simp_all add: sessions_ok_def PutAgent_def DeleteAgent_def AddMessage_def Let_def membersOf_def)

lemma sessions_ok_ops:
  assumes "sessions_ok m"
  shows "sessions_ok (fst (CreateSession m s newID now))" "sessions_ok (fst (PutParticipant m p now))"
    "sessions_ok (fst (RemoveParticipant m t sid who))"
  using assms
  by (simp_all add: sessions_ok_CreateSession sessions_ok_PutParticipant sessions_ok_RemoveParticipant)

lemma member_of_session:
  assumes "sessions_ok m" and "map_of (membersOf m sid) who = Some p"
  obtains s where "map_of (ms_sessions m) sid = Some s" "member_ok s (who, p)"
proof -
  have "ms_members m sid \<noteq> None"
    using assms(2) by (auto simp: membersOf_def split: option.splits)
  moreover have "ms_members m sid = None \<longleftrightarrow> map_of (ms_sessions m) sid = None"
    using assms(1) by (simp add: sessions_ok_def)
  ultimately obtain s where s: "map_of (ms_sessions m) sid = Some s" by auto
  from sessions_okD(3) [OF assms(1) s map_of_SomeD [OF assms(2)]] s show ?thesis
    by (rule that [rotated])
qed

text \<open>In every state the session operations reach, a principal is found as a participant only of
  a session of the asking tenant, under its own name and with one of the three roles, and every
  operation on sessions, participants, agents and messages keeps it so.\<close>

theorem participants_belong_to_their_session:
  assumes "sessions_ok m"
  shows "sessions_ok (fst (CreateSession m s newID now)) \<and> sessions_ok (fst (PutParticipant m p now)) \<and>
    sessions_ok (fst (RemoveParticipant m t sid who)) \<and> sessions_ok (fst (PutAgent m a now)) \<and>
    sessions_ok (fst (DeleteAgent m t n)) \<and> sessions_ok (AddMessage m msg newID now) \<and>
    (GetParticipant m t sid who = Inr x \<longrightarrow>
      (\<exists>s'. GetSession m t sid = Inr s' \<and> pa_PrincipalID x = who \<and> pa_SessionID x = se_ID s' \<and>
         pa_Role x \<in> {''owner'', ''member'', ''viewer''}))"
proof (intro conjI impI)
  assume g: "GetParticipant m t sid who = Inr x"
  then have x: "map_of (membersOf m sid) who = Some x" "pa_TenantID x = t"
    using participants.get_Inr_iff [of m t "(sid, who)" x] by auto
  obtain s' where s': "map_of (ms_sessions m) sid = Some s'" "member_ok s' (who, x)"
    by (rule member_of_session [OF assms x(1)])
  then have "GetSession m t sid = Inr s'"
    using x(2) by (simp add: sessions.get_Inr_iff member_ok_def)
  with s'(2) show "\<exists>s'. GetSession m t sid = Inr s' \<and>
      pa_PrincipalID x = who \<and> pa_SessionID x = se_ID s' \<and> pa_Role x \<in> {''owner'', ''member'', ''viewer''}"
    by (auto simp: member_ok_def)
qed (use assms in \<open>simp_all add: sessions_ok_ops\<close>)

theorem participants_belong_to_their_session_witness:
  "sessions_ok (fst (CreateSession NewMemStore (Session0\<lparr>se_CreatedBy := ''p''\<rparr>) ''s1'' 5))"
  using participants_belong_to_their_session [OF sessions_ok_NewMemStore] by blast

text \<open>\<open>ListSessions\<close> returns, once each and newest first, exactly the tenant's sessions, and for
  a given principal exactly those \<open>GetParticipant\<close> finds it in.\<close>

theorem ListSessions_exact:
  assumes "sessions_ok m"
  shows "set (ListSessions m t who) = {s. GetSession m t (se_ID s) = Inr s \<and>
      (who = [] \<or> (\<exists>p. GetParticipant m t (se_ID s) who = Inr p))} \<and>
    sorted (map (\<lambda>s. - se_CreatedAt s) (ListSessions m t who)) \<and>
    distinct (ListSessions m t who)"
proof (intro conjI)
  have wf: "wf_map (ms_sessions m)" using assms by (simp add: sessions_ok_def)
  have mem: "(\<exists>p. GetParticipant m t (se_ID s) who = Inr p) \<longleftrightarrow> map_of (membersOf m (se_ID s)) who \<noteq> None"
    if s: "map_of (ms_sessions m) (se_ID s) = Some s" "se_TenantID s = t" for s
  proof -
    have "pa_TenantID p = t" if "map_of (membersOf m (se_ID s)) who = Some p" for p
      using sessions_okD(3) [OF assms s(1) map_of_SomeD [OF that]] s(2) by (simp add: member_ok_def)
    then show ?thesis using participants.get_Inr_iff [of m t "(se_ID s, who)"] by auto
  qed
  have key: "(\<exists>k. map_of (ms_sessions m) k = Some s) \<longleftrightarrow> map_of (ms_sessions m) (se_ID s) = Some s" for s
    using sessions_okD(1) [OF assms] by blast
  have vals: "s \<in> set (mvals (ms_sessions m)) \<longleftrightarrow> map_of (ms_sessions m) (se_ID s) = Some s" for s
    by (simp only: in_mvals_iff [OF wf] key)
  show "set (ListSessions m t who) = {s. GetSession m t (se_ID s) = Inr s \<and>
      (who = [] \<or> (\<exists>p. GetParticipant m t (se_ID s) who = Inr p))}"
    unfolding ListSessions_def set_sort set_filter vals
    using mem by (auto simp only: sessions.get_Inr_iff)
  show "distinct (ListSessions m t who)"
  proof -
    have "distinct (map se_ID (mvals (ms_sessions m)))"
    proof -
      have "map se_ID (mvals (ms_sessions m)) = map fst (ms_sessions m)"
        using sessions_okD(1) [OF assms map_of_is_SomeI [OF wf [unfolded wf_map_def]]] by auto
      then show ?thesis using wf by (simp only: wf_map_def)
    qed
    then have "distinct (mvals (ms_sessions m))" by (rule distinct_map [THEN iffD1, THEN conjunct1])
    then show ?thesis by (simp add: ListSessions_def)
  qed
qed (simp add: ListSessions_def)

theorem ListSessions_exact_witness:
  "distinct (ListSessions (fst (CreateSession NewMemStore (Session0\<lparr>se_CreatedBy := ''p''\<rparr>) ''s1'' 5)) [] ''p'')"
  using ListSessions_exact [OF sessions_ok_ops(1) [OF sessions_ok_NewMemStore]] by blast

end
