(* ===== verification/Runs.thy ===== *)
theory Runs
  imports StoreTypes
begin

text \<open>
  Run records in the in-memory store (\<open>store/store.go\<close>, lines 469 to 629): creation with
  idempotency keys, updates, and the leases by which processes claim runs. Where a method reads the
  clock twice it takes both readings.
\<close>

section \<open>Operations\<close>

definition idemKey :: "TenantID \<Rightarrow> string \<Rightarrow> string" where
  "idemKey tenant key = tenant @ ''|'' @ key"

definition filledRun :: "Run \<Rightarrow> RunID \<Rightarrow> time \<Rightarrow> Run" where
  "filledRun r0 newID now =
    (let r1 = (if ru_ID r0 = [] then r0\<lparr>ru_ID := newID\<rparr> else r0);
         r2 = (if ru_QueuedAt r1 = 0 then r1\<lparr>ru_QueuedAt := now\<rparr> else r1)
     in if ru_Status r2 = RunUnset then r2\<lparr>ru_Status := RunQueued\<rparr> else r2)"

text \<open>\<open>CreateRun\<close> returns the existing run's ID beside \<open>ErrConflict\<close>.\<close>

definition CreateRun :: "MemStore \<Rightarrow> Run \<Rightarrow> RunID \<Rightarrow> time \<Rightarrow> MemStore \<times> RunID \<times> goerr option" where
  "CreateRun m r0 newID now =
    (case (if ru_IdempotencyKey r0 \<noteq> []
           then ms_runByIdem m (idemKey (ru_TenantID r0) (ru_IdempotencyKey r0)) else None) of
       Some existing \<Rightarrow> (m, existing, Some (Sentinel ErrConflict))
     | None \<Rightarrow>
        let r = filledRun r0 newID now;
            m1 = m\<lparr>ms_runs := mput (ru_ID r) r (ms_runs m)\<rparr>;
            m2 = (if ru_IdempotencyKey r \<noteq> []
                  then m1\<lparr>ms_runByIdem := (ms_runByIdem m1)
                    (idemKey (ru_TenantID r) (ru_IdempotencyKey r) \<mapsto> ru_ID r)\<rparr>
                  else m1)
        in (m2, ru_ID r, None))"

definition GetRun :: "MemStore \<Rightarrow> TenantID \<Rightarrow> RunID \<Rightarrow> goerr + Run" where
  "GetRun m tenant rid =
    (case map_of (ms_runs m) rid of
       None \<Rightarrow> Inl (Sentinel ErrNotFound)
     | Some r \<Rightarrow> if ru_TenantID r \<noteq> tenant then Inl (Sentinel ErrNotFound) else Inr r)"

definition setRun :: "MemStore \<Rightarrow> RunID \<Rightarrow> Run \<Rightarrow> MemStore" where
  "setRun m rid r = m\<lparr>ms_runs := mput rid r (ms_runs m)\<rparr>"

definition UpdateRun :: "MemStore \<Rightarrow> Run \<Rightarrow> MemStore \<times> goerr option" where
  "UpdateRun m r =
    (case map_of (ms_runs m) (ru_ID r) of
       None \<Rightarrow> (m, Some (Sentinel ErrNotFound))
     | Some cur \<Rightarrow>
        if ru_TenantID cur \<noteq> ru_TenantID r then (m, Some (Sentinel ErrNotFound))
        else (setRun m (ru_ID r) (r\<lparr>ru_Owner := ru_Owner cur, ru_LeaseUntil := ru_LeaseUntil cur,
                ru_CancelRequested := ru_CancelRequested cur\<rparr>), None))"

definition ClaimRun :: "MemStore \<Rightarrow> TenantID \<Rightarrow> RunID \<Rightarrow> string \<Rightarrow> duration \<Rightarrow> time \<Rightarrow> time
    \<Rightarrow> MemStore \<times> goerr option" where
  "ClaimRun m tenant rid owner lease now now' =
    (case map_of (ms_runs m) rid of
       None \<Rightarrow> (m, Some (Sentinel ErrNotFound))
     | Some r \<Rightarrow>
        if ru_TenantID r \<noteq> tenant then (m, Some (Sentinel ErrNotFound))
        else if ru_Owner r \<noteq> [] \<and> ru_Owner r \<noteq> owner \<and> now < ru_LeaseUntil r
        then (m, Some (Errorf ''run is held'' [Sentinel ErrConflict]))
        else (setRun m rid (r\<lparr>ru_Owner := owner, ru_LeaseUntil := now' + lease\<rparr>), None))"

text \<open>The loop of \<open>RenewLeases\<close>; each run comes with the clock's reading when it is renewed.\<close>

fun RenewLeases :: "MemStore \<Rightarrow> string \<Rightarrow> (RunID \<times> time) list \<Rightarrow> duration
    \<Rightarrow> (RunID \<rightharpoonup> bool) \<Rightarrow> MemStore \<times> (RunID \<rightharpoonup> bool)" where
  "RenewLeases m owner [] lease kept = (m, kept)"
| "RenewLeases m owner ((rid, now) # rs) lease kept =
    (case map_of (ms_runs m) rid of
       None \<Rightarrow> RenewLeases m owner rs lease kept
     | Some r \<Rightarrow>
        if ru_Owner r = owner
        then RenewLeases (setRun m rid (r\<lparr>ru_LeaseUntil := now + lease\<rparr>)) owner rs lease
               (kept(rid \<mapsto> ru_CancelRequested r))
        else RenewLeases m owner rs lease kept)"

definition ReleaseRun :: "MemStore \<Rightarrow> RunID \<Rightarrow> string \<Rightarrow> MemStore" where
  "ReleaseRun m rid owner =
    (case map_of (ms_runs m) rid of
       None \<Rightarrow> m
     | Some r \<Rightarrow>
        if ru_Owner r = owner then setRun m rid (r\<lparr>ru_Owner := [], ru_LeaseUntil := 0\<rparr>) else m)"

definition RequestCancel :: "MemStore \<Rightarrow> TenantID \<Rightarrow> RunID \<Rightarrow> MemStore \<times> goerr option" where
  "RequestCancel m tenant rid =
    (case GetRun m tenant rid of
       Inl e \<Rightarrow> (m, Some e)
     | Inr r \<Rightarrow> (setRun m rid (r\<lparr>ru_CancelRequested := True\<rparr>), None))"

definition UpdateRunStatus :: "MemStore \<Rightarrow> TenantID \<Rightarrow> RunID \<Rightarrow> RunStatus \<Rightarrow> string \<Rightarrow> time
    \<Rightarrow> MemStore \<times> goerr option" where
  "UpdateRunStatus m tenant rid status reason now =
    (case GetRun m tenant rid of
       Inl e \<Rightarrow> (m, Some e)
     | Inr r \<Rightarrow>
        let r1 = r\<lparr>ru_Status := status, ru_FailureReason := reason\<rparr>;
            r2 = (if status = RunRunning \<and> ru_StartedAt r1 = 0 then r1\<lparr>ru_StartedAt := now\<rparr> else r1)
        in (setRun m rid r2, None))"

definition UpdateRunUsage :: "MemStore \<Rightarrow> TenantID \<Rightarrow> RunID \<Rightarrow> Usage \<Rightarrow> MemStore \<times> goerr option" where
  "UpdateRunUsage m tenant rid usage =
    (case GetRun m tenant rid of
       Inl e \<Rightarrow> (m, Some e)
     | Inr r \<Rightarrow> (setRun m rid (r\<lparr>ru_Usage := usage\<rparr>), None))"

definition ListRuns :: "MemStore \<Rightarrow> TenantID \<Rightarrow> SessionID \<Rightarrow> Run list" where
  "ListRuns m tenant sid = sort_key ru_QueuedAt
     (filter (\<lambda>r. ru_TenantID r = tenant \<and> ru_SessionID r = sid) (mvals (ms_runs m)))"

definition ListUnfinishedRuns :: "MemStore \<Rightarrow> Run list" where
  "ListUnfinishedRuns m = sort_key ru_QueuedAt
     (filter (\<lambda>r. \<not> Terminal (ru_Status r)) (mvals (ms_runs m)))"

text \<open>\<open>m.runs[id]\<close> of a missing ID is the zero run.\<close>

definition FindByIdempotency :: "MemStore \<Rightarrow> TenantID \<Rightarrow> string \<Rightarrow> goerr + Run" where
  "FindByIdempotency m tenant key =
    (case ms_runByIdem m (idemKey tenant key) of
       None \<Rightarrow> Inl (Sentinel ErrNotFound)
     | Some rid \<Rightarrow> Inr (case map_of (ms_runs m) rid of None \<Rightarrow> Run0 | Some r \<Rightarrow> r))"

section \<open>The lookup contract\<close>

interpretation runs: tenant_lookup GetRun ru_TenantID "\<lambda>m. map_of (ms_runs m)"
  by unfold_locales (simp add: GetRun_def split: option.splits)

lemma map_of_setRun [go_simps]: "map_of (ms_runs (setRun m rid r)) rid' =
    (if rid' = rid then Some r else map_of (ms_runs m) rid')"
  by (simp add: setRun_def go_simps)

lemma setRun_idem [simp]: "ms_runByIdem (setRun m rid r) = ms_runByIdem m"
  by (simp add: setRun_def)

section \<open>Idempotency keys\<close>

text \<open>Tenant IDs without \<open>|\<close> make the composite key of a run unambiguous.\<close>

definition plain_tenant :: "TenantID \<Rightarrow> bool" where
  "plain_tenant t \<longleftrightarrow> CHR ''|'' \<notin> set t"

lemma split_at_bar: "CHR ''|'' \<notin> set t \<Longrightarrow> takeWhile (\<lambda>c. c \<noteq> CHR ''|'') (t @ ''|'' @ k) = t"
  by (induction t) auto

lemma idemKey_inj: "plain_tenant t \<Longrightarrow> plain_tenant t' \<Longrightarrow> idemKey t k = idemKey t' k' \<longleftrightarrow> t = t' \<and> k = k'"
  unfolding idemKey_def plain_tenant_def by (metis split_at_bar same_append_eq)

text \<open>
  Every key of the index leads to the run that was created with it, and every run that has a key is
  the one its key leads to.
\<close>

definition idem_ok :: "MemStore \<Rightarrow> bool" where
  "idem_ok m \<longleftrightarrow>
     (\<forall>k rid. ms_runByIdem m k = Some rid \<longrightarrow> (\<exists>r. map_of (ms_runs m) rid = Some r \<and>
        ru_IdempotencyKey r \<noteq> [] \<and> k = idemKey (ru_TenantID r) (ru_IdempotencyKey r))) \<and>
     (\<forall>rid r. map_of (ms_runs m) rid = Some r \<longrightarrow> ru_ID r = rid \<and> plain_tenant (ru_TenantID r) \<and>
        (ru_IdempotencyKey r = [] \<or>
         ms_runByIdem m (idemKey (ru_TenantID r) (ru_IdempotencyKey r)) = Some rid))"

lemma idem_ok_new: "idem_ok NewMemStore"
  by (simp add: idem_ok_def NewMemStore_def)

lemma filledRun_simps [simp]:
  "ru_TenantID (filledRun r i n) = ru_TenantID r" "ru_IdempotencyKey (filledRun r i n) = ru_IdempotencyKey r"
  "ru_ID (filledRun r i n) = (if ru_ID r = [] then i else ru_ID r)"
  "ru_SessionID (filledRun r i n) = ru_SessionID r"
  by (simp_all add: filledRun_def Let_def)

lemma CreateRun_cases:
  obtains (conflict) rid where "CreateRun m r i n = (m, rid, Some (Sentinel ErrConflict))"
      "ru_IdempotencyKey r \<noteq> []"
      "ms_runByIdem m (idemKey (ru_TenantID r) (ru_IdempotencyKey r)) = Some rid"
    | (created) m' where "CreateRun m r i n = (m', ru_ID (filledRun r i n), None)"
      "ms_runs m' = mput (ru_ID (filledRun r i n)) (filledRun r i n) (ms_runs m)"
      "ms_runByIdem m' = (if ru_IdempotencyKey r \<noteq> [] then (ms_runByIdem m)
         (idemKey (ru_TenantID r) (ru_IdempotencyKey r) \<mapsto> ru_ID (filledRun r i n)) else ms_runByIdem m)"
      "ru_IdempotencyKey r = [] \<or>
         ms_runByIdem m (idemKey (ru_TenantID r) (ru_IdempotencyKey r)) = None"
proof (cases "if ru_IdempotencyKey r \<noteq> []
      then ms_runByIdem m (idemKey (ru_TenantID r) (ru_IdempotencyKey r)) else None")
  case None
  then show ?thesis
    by (intro created [of "fst (CreateRun m r i n)"]) (auto simp: CreateRun_def Let_def split: if_splits)
next
  case (Some rid)
  then show ?thesis
    by (intro conflict [of rid]) (auto simp: CreateRun_def split: if_splits)
qed

lemma idem_okD:
  assumes "idem_ok m"
  shows "ms_runByIdem m k = Some rid \<Longrightarrow> \<exists>r. map_of (ms_runs m) rid = Some r \<and>
      ru_IdempotencyKey r \<noteq> [] \<and> k = idemKey (ru_TenantID r) (ru_IdempotencyKey r)"
    and "map_of (ms_runs m) rid = Some r \<Longrightarrow> ru_ID r = rid \<and> plain_tenant (ru_TenantID r)"
    and "map_of (ms_runs m) rid = Some r \<Longrightarrow> ru_IdempotencyKey r \<noteq> [] \<Longrightarrow>
      ms_runByIdem m (idemKey (ru_TenantID r) (ru_IdempotencyKey r)) = Some rid"
  using assms by (auto simp: idem_ok_def)

text \<open>A run's ID is new: \<open>CreateRun\<close> makes it, or its caller has just made it.\<close>

definition fresh_run :: "MemStore \<Rightarrow> Run \<Rightarrow> RunID \<Rightarrow> bool" where
  "fresh_run m r newID \<longleftrightarrow> map_of (ms_runs m) (ru_ID (filledRun r newID 0)) = None"

lemma idem_ok_CreateRun:
  assumes ok: "idem_ok m" and new: "fresh_run m r i" and plain: "plain_tenant (ru_TenantID r)"
  shows "idem_ok (fst (CreateRun m r i n))"
proof (cases rule: CreateRun_cases [of m r i n])
  case (conflict rid)
  with ok show ?thesis by simp
next
  case (created m')
  let ?r = "filledRun r i n"
  have new: "map_of (ms_runs m) (ru_ID ?r) = None"
    using new by (simp add: fresh_run_def)
  have runs: "map_of (ms_runs m') x = (if x = ru_ID ?r then Some ?r else map_of (ms_runs m) x)" for x
    by (simp add: created(2) go_simps)
  have other: "idemKey (ru_TenantID x) (ru_IdempotencyKey x) \<noteq> idemKey (ru_TenantID r) (ru_IdempotencyKey r)"
    if "map_of (ms_runs m) rid = Some x" "ru_IdempotencyKey x \<noteq> []" "ru_IdempotencyKey r \<noteq> []" for rid x
    using idem_okD(3) [OF ok that(1,2)] created(4) that(3) by auto
  show ?thesis
    unfolding created(1) fst_conv idem_ok_def
  proof (intro conjI allI impI)
    fix k rid assume "ms_runByIdem m' k = Some rid"
    then have "k = idemKey (ru_TenantID r) (ru_IdempotencyKey r) \<and> rid = ru_ID ?r \<and>
        ru_IdempotencyKey r \<noteq> [] \<or> ms_runByIdem m k = Some rid"
      by (simp only: created(3) fun_upd_apply split: if_splits) simp_all
    then consider (new) "k = idemKey (ru_TenantID r) (ru_IdempotencyKey r)" "rid = ru_ID ?r"
        "ru_IdempotencyKey r \<noteq> []" | (old) "ms_runByIdem m k = Some rid"
      by blast
    then show "\<exists>r. map_of (ms_runs m') rid = Some r \<and> ru_IdempotencyKey r \<noteq> [] \<and>
        k = idemKey (ru_TenantID r) (ru_IdempotencyKey r)"
    proof cases
      case new then show ?thesis by (simp add: runs)
    next
      case old
      from idem_okD(1) [OF ok old] obtain x where x: "map_of (ms_runs m) rid = Some x"
        "ru_IdempotencyKey x \<noteq> []" "k = idemKey (ru_TenantID x) (ru_IdempotencyKey x)" by blast
      with \<open>map_of (ms_runs m) (ru_ID ?r) = None\<close> show ?thesis by (auto simp: runs)
    qed
  next
    fix rid x assume "map_of (ms_runs m') rid = Some x"
    then have "rid = ru_ID ?r \<and> x = ?r \<or> rid \<noteq> ru_ID ?r \<and> map_of (ms_runs m) rid = Some x"
      unfolding runs by (cases "rid = ru_ID ?r") simp_all
    then consider (new) "rid = ru_ID ?r" "x = ?r" | (old) "rid \<noteq> ru_ID ?r" "map_of (ms_runs m) rid = Some x"
      by blast
    then show "ru_ID x = rid" "plain_tenant (ru_TenantID x)"
      "ru_IdempotencyKey x = [] \<or>
        ms_runByIdem m' (idemKey (ru_TenantID x) (ru_IdempotencyKey x)) = Some rid"
    proof (atomize (full), cases)
      case new
      then show "ru_ID x = rid \<and> plain_tenant (ru_TenantID x) \<and> (ru_IdempotencyKey x = [] \<or>
          ms_runByIdem m' (idemKey (ru_TenantID x) (ru_IdempotencyKey x)) = Some rid)"
        using plain by (simp add: created(3))
    next
      case old
      show "ru_ID x = rid \<and> plain_tenant (ru_TenantID x) \<and> (ru_IdempotencyKey x = [] \<or>
          ms_runByIdem m' (idemKey (ru_TenantID x) (ru_IdempotencyKey x)) = Some rid)"
        using idem_okD(2,3) [OF ok old(2)] other [OF old(2)]
        by (cases "ru_IdempotencyKey x = []"; cases "ru_IdempotencyKey r = []") (simp_all add: created(3))
    qed
  qed
qed

text \<open>Updates that keep a run's tenant and key keep the index.\<close>

lemma idem_ok_setRun:
  assumes "idem_ok m" and "map_of (ms_runs m) rid = Some r" and "ru_ID r' = ru_ID r"
    and "ru_TenantID r' = ru_TenantID r" and "ru_IdempotencyKey r' = ru_IdempotencyKey r"
  shows "idem_ok (setRun m rid r')"
  unfolding idem_ok_def setRun_idem
proof (intro conjI allI impI)
  fix k x assume "ms_runByIdem m k = Some x"
  from idem_okD(1) [OF assms(1) this] assms show "\<exists>r. map_of (ms_runs (setRun m rid r')) x = Some r \<and>
      ru_IdempotencyKey r \<noteq> [] \<and> k = idemKey (ru_TenantID r) (ru_IdempotencyKey r)"
    by (cases "x = rid") (simp_all add: go_simps)
next
  fix x y assume y: "map_of (ms_runs (setRun m rid r')) x = Some y"
  then obtain z where z: "map_of (ms_runs m) x = Some z" "ru_ID y = ru_ID z"
      "ru_TenantID y = ru_TenantID z" "ru_IdempotencyKey y = ru_IdempotencyKey z"
    using assms(2-5) by (cases "x = rid") (simp_all add: go_simps)
  with idem_okD(2,3) [OF assms(1) z(1)] show "ru_ID y = x" "plain_tenant (ru_TenantID y)"
      "ru_IdempotencyKey y = [] \<or> ms_runByIdem m (idemKey (ru_TenantID y) (ru_IdempotencyKey y)) = Some x"
    by auto
qed

lemma idem_ok_ops:
  assumes "idem_ok m"
  shows "idem_ok (fst (ClaimRun m t rid ow lease now now'))" "idem_ok (ReleaseRun m rid ow)"
    "idem_ok (fst (RequestCancel m t rid))" "idem_ok (fst (UpdateRunStatus m t rid st why now))"
    "idem_ok (fst (UpdateRunUsage m t rid u))"
  using assms
  by (auto simp: ClaimRun_def ReleaseRun_def RequestCancel_def UpdateRunStatus_def UpdateRunUsage_def
      Let_def runs.get_Inr_iff intro: idem_ok_setRun split: option.splits sum.splits)

lemma idem_ok_RenewLeases: "idem_ok m \<Longrightarrow> idem_ok (fst (RenewLeases m ow rs lease kept))"
proof (induction rs arbitrary: m kept)
  case (Cons a rs)
  obtain rid now where a: "a = (rid, now)" by (cases a)
  show ?case
  proof (cases "map_of (ms_runs m) rid")
    case (Some r)
    have "idem_ok (setRun m rid (r\<lparr>ru_LeaseUntil := now + lease\<rparr>))"
      by (rule idem_ok_setRun [OF Cons.prems Some]) simp_all
    with Cons Some show ?thesis by (simp add: a)
  qed (use Cons in \<open>simp add: a\<close>)
qed simp

text \<open>A tenant's idempotency key names at most one run. Creating a run with a key that is
  taken changes nothing and returns the run that has it, beside \<open>ErrConflict\<close>, and that is the run
  \<open>FindByIdempotency\<close> returns; creating it with a key that is free makes the key lead to the new
  run. No key leads to another tenant's run.\<close>

theorem CreateRun_idempotent:
  assumes "idem_ok m" and "fresh_run m r newID" and "plain_tenant (ru_TenantID r)"
    and "ru_IdempotencyKey r \<noteq> []"
  shows "let t = ru_TenantID r; k = ru_IdempotencyKey r; (m', rid, err) = CreateRun m r newID now
    in idem_ok m' \<and>
       (\<exists>x. FindByIdempotency m' t k = Inr x \<and> ru_ID x = rid \<and> ru_TenantID x = t \<and>
          ru_IdempotencyKey x = k \<and> GetRun m' t rid = Inr x) \<and>
       (\<forall>rid' x. GetRun m' t rid' = Inr x \<longrightarrow> ru_IdempotencyKey x = k \<longrightarrow> rid' = rid) \<and>
       (case err of
          None \<Rightarrow> FindByIdempotency m t k = Inl (Sentinel ErrNotFound)
        | Some e \<Rightarrow> e = Sentinel ErrConflict \<and> m' = m)"
proof -
  let ?t = "ru_TenantID r" and ?k = "ru_IdempotencyKey r"
  obtain m' rid err where c: "CreateRun m r newID now = (m', rid, err)"
    by (cases "CreateRun m r newID now") auto
  have ok: "idem_ok m'"
    using idem_ok_CreateRun [OF assms(1-3), of now] by (simp add: c)
  have lead: "ms_runByIdem m' (idemKey ?t ?k) = Some rid"
    by (cases rule: CreateRun_cases [of m r newID now]) (use assms(4) c in auto)
  obtain x where x: "map_of (ms_runs m') rid = Some x" "ru_IdempotencyKey x \<noteq> []"
      "idemKey ?t ?k = idemKey (ru_TenantID x) (ru_IdempotencyKey x)"
    using idem_okD(1) [OF ok lead] by blast
  then have xt: "ru_TenantID x = ?t" "ru_IdempotencyKey x = ?k" "ru_ID x = rid"
    using idem_okD(2) [OF ok x(1)] assms(3) idemKey_inj by auto
  have "\<exists>x. FindByIdempotency m' ?t ?k = Inr x \<and> ru_ID x = rid \<and> ru_TenantID x = ?t \<and>
      ru_IdempotencyKey x = ?k \<and> GetRun m' ?t rid = Inr x"
    using x(1) xt lead by (simp add: FindByIdempotency_def runs.get_Inr_iff)
  moreover have "\<forall>rid' x. GetRun m' ?t rid' = Inr x \<longrightarrow> ru_IdempotencyKey x = ?k \<longrightarrow> rid' = rid"
  proof (intro allI impI)
    fix rid' x assume "GetRun m' ?t rid' = Inr x" "ru_IdempotencyKey x = ?k"
    with idem_okD(3) [OF ok, of rid' x] lead assms(4) show "rid' = rid"
      by (simp add: runs.get_Inr_iff)
  qed
  moreover have "case err of None \<Rightarrow> FindByIdempotency m ?t ?k = Inl (Sentinel ErrNotFound)
      | Some e \<Rightarrow> e = Sentinel ErrConflict \<and> m' = m"
    by (cases rule: CreateRun_cases [of m r newID now])
      (use assms(4) c in \<open>auto simp: FindByIdempotency_def\<close>)
  ultimately show ?thesis using ok by (simp add: c)
qed

theorem CreateRun_idempotent_witness:
  "snd (snd (CreateRun (fst (CreateRun NewMemStore (Run0\<lparr>ru_IdempotencyKey := ''k''\<rparr>) ''r1'' 5))
     (Run0\<lparr>ru_IdempotencyKey := ''k''\<rparr>) ''r2'' 6)) = Some (Sentinel ErrConflict)"
proof -
  let ?r = "Run0\<lparr>ru_IdempotencyKey := ''k''\<rparr>"
  let ?m = "fst (CreateRun NewMemStore ?r ''r1'' 5)"
  have r: "ru_ID ?r = []" "ru_TenantID ?r = []" "plain_tenant []"
    by (simp_all add: Run0_def plain_tenant_def)
  have "fresh_run NewMemStore ?r ''r1''"
    by (simp add: fresh_run_def NewMemStore_def)
  from idem_ok_CreateRun [OF idem_ok_new this, of 5] r have ok: "idem_ok ?m" by simp
  have m: "ms_runs ?m = [(''r1'', filledRun ?r ''r1'' 5)]"
    "ms_runByIdem ?m (idemKey [] ''k'') = Some ''r1''"
    by (simp_all add: CreateRun_def Let_def NewMemStore_def r)
  have new: "fresh_run ?m ?r ''r2''"
    by (simp add: fresh_run_def m r)
  obtain m' rid err where c: "CreateRun ?m ?r ''r2'' 6 = (m', rid, err)"
    by (cases "CreateRun ?m ?r ''r2'' 6") auto
  have "FindByIdempotency ?m [] ''k'' \<noteq> Inl (Sentinel ErrNotFound)"
    by (simp add: FindByIdempotency_def m)
  with CreateRun_idempotent [OF ok new, of 6] r c show ?thesis
    by (auto simp: Let_def split: option.splits)
qed

end
