(* ===== verification/Approvals.thy ===== *)
theory Approvals
  imports Paging Sessions Runs
begin

text \<open>
  Approval requests in the in-memory store (\<open>store/store.go\<close>, lines 679 to 779). Closing a channel
  that is closed panics, so the operations that close \<open>done\<close> return \<open>None\<close> there.
\<close>

section \<open>Operations\<close>

definition filledApproval :: "Approval \<Rightarrow> ApprovalID \<Rightarrow> time \<Rightarrow> Approval" where
  "filledApproval a0 newID now =
    (let a1 = (if ap_ID a0 = [] then a0\<lparr>ap_ID := newID\<rparr> else a0);
         a2 = (if ap_CreatedAt a1 = 0 then a1\<lparr>ap_CreatedAt := now\<rparr> else a1)
     in if ap_Status a2 = [] then a2\<lparr>ap_Status := ''requested''\<rparr> else a2)"

definition CreateApproval :: "MemStore \<Rightarrow> Approval \<Rightarrow> ApprovalID \<Rightarrow> time \<Rightarrow> MemStore \<times> ApprovalID" where
  "CreateApproval m a0 newID now =
    (let a = filledApproval a0 newID now
     in (m\<lparr>ms_approvals := mput (ap_ID a) \<lparr>ae_approval = a, ae_done = False\<rparr> (ms_approvals m)\<rparr>, ap_ID a))"

definition GetApproval :: "MemStore \<Rightarrow> TenantID \<Rightarrow> ApprovalID \<Rightarrow> goerr + Approval" where
  "GetApproval m tenant aid =
    (case map_of (ms_approvals m) aid of
       None \<Rightarrow> Inl (Sentinel ErrNotFound)
     | Some e \<Rightarrow> if ap_TenantID (ae_approval e) \<noteq> tenant then Inl (Sentinel ErrNotFound)
                 else Inr (ae_approval e))"

text \<open>\<open>close(e.done)\<close>.\<close>

definition close_done :: "approvalEntry \<Rightarrow> approvalEntry option" where
  "close_done e = (if ae_done e then None else Some (e\<lparr>ae_done := True\<rparr>))"

definition setEntry :: "MemStore \<Rightarrow> ApprovalID \<Rightarrow> approvalEntry \<Rightarrow> MemStore" where
  "setEntry m aid e = m\<lparr>ms_approvals := mput aid e (ms_approvals m)\<rparr>"

definition hasExpired :: "Approval \<Rightarrow> time \<Rightarrow> bool" where
  "hasExpired a now \<longleftrightarrow> ap_ExpiresAt a \<noteq> 0 \<and> \<not> now < ap_ExpiresAt a"

definition ResolveApproval :: "MemStore \<Rightarrow> TenantID \<Rightarrow> ApprovalID \<Rightarrow> string \<Rightarrow> PrincipalID \<Rightarrow> raw
    \<Rightarrow> time \<Rightarrow> time \<Rightarrow> (MemStore \<times> goerr option) option" where
  "ResolveApproval m tenant aid status who resolution now now' =
    (case map_of (ms_approvals m) aid of
       None \<Rightarrow> Some (m, Some (Sentinel ErrNotFound))
     | Some e \<Rightarrow>
        if ap_TenantID (ae_approval e) \<noteq> tenant then Some (m, Some (Sentinel ErrNotFound))
        else let expired = hasExpired (ae_approval e) now
             in if ap_Status (ae_approval e) \<noteq> ''requested'' \<or>
                   (expired \<and> status \<noteq> ''expired'' \<and> status \<noteq> ''canceled'')
                then Some (m, Some (Sentinel ErrConflict))
                else let a = (ae_approval e)\<lparr>ap_Status := status, ap_Resolution := resolution,
                           ap_ResolvedBy := who, ap_ResolvedAt := now'\<rparr>
                     in map_option (\<lambda>e'. (setEntry m aid e', None)) (close_done (e\<lparr>ae_approval := a\<rparr>)))"

text \<open>The body of the loop of \<open>CancelRunApprovals\<close> on one entry, and the loop.\<close>

definition cancelEntry :: "TenantID \<Rightarrow> RunID \<Rightarrow> time \<Rightarrow> approvalEntry \<Rightarrow> approvalEntry option" where
  "cancelEntry tenant run now e =
    (if ap_TenantID (ae_approval e) = tenant \<and> ap_RunID (ae_approval e) = run \<and>
        ap_Status (ae_approval e) = ''requested''
     then close_done (e\<lparr>ae_approval := (ae_approval e)\<lparr>ap_Status := ''canceled'', ap_ResolvedAt := now\<rparr>\<rparr>)
     else Some e)"

fun cancelLoop :: "TenantID \<Rightarrow> RunID \<Rightarrow> time \<Rightarrow> (ApprovalID, approvalEntry) gomap
    \<Rightarrow> (ApprovalID, approvalEntry) gomap option" where
  "cancelLoop tenant run now [] = Some []"
| "cancelLoop tenant run now ((k, e) # es) =
    (case cancelEntry tenant run now e of
       None \<Rightarrow> None
     | Some e' \<Rightarrow> map_option (\<lambda>es'. (k, e') # es') (cancelLoop tenant run now es))"

definition CancelRunApprovals :: "MemStore \<Rightarrow> TenantID \<Rightarrow> RunID \<Rightarrow> time \<Rightarrow> MemStore option" where
  "CancelRunApprovals m tenant run now =
    map_option (\<lambda>es. m\<lparr>ms_approvals := es\<rparr>) (cancelLoop tenant run now (ms_approvals m))"

text \<open>\<open>m.runs[a.RunID].SessionID\<close>; a missing run is the zero run.\<close>

definition sessionOfRun :: "MemStore \<Rightarrow> RunID \<Rightarrow> SessionID" where
  "sessionOfRun m rid = (case map_of (ms_runs m) rid of None \<Rightarrow> [] | Some r \<Rightarrow> ru_SessionID r)"

text \<open>The conditions on which the loop of \<open>ListApprovals\<close> skips an approval.\<close>

definition listed :: "MemStore \<Rightarrow> TenantID \<Rightarrow> ApprovalFilter \<Rightarrow> time \<Rightarrow> Approval \<Rightarrow> bool" where
  "listed m tenant f now a \<longleftrightarrow>
    (if ap_TenantID a \<noteq> tenant \<or> af_RunID f \<noteq> [] \<and> ap_RunID a \<noteq> af_RunID f \<or>
        af_Status f \<noteq> [] \<and> ap_Status a \<noteq> af_Status f \<or> ap_ID a \<le> af_After f then False
     else if af_Participant f \<noteq> [] \<and>
        map_of (membersOf m (sessionOfRun m (ap_RunID a))) (af_Participant f) = None then False
     else if af_Status f = ''requested'' \<and> hasExpired a now then False
     else True)"

definition ListApprovals :: "MemStore \<Rightarrow> TenantID \<Rightarrow> ApprovalFilter \<Rightarrow> time \<Rightarrow> Approval list" where
  "ListApprovals m tenant f now =
    (let out = sort_key ap_ID (filter (listed m tenant f now) (map ae_approval (mvals (ms_approvals m))))
     in if af_Limit f > 0 \<and> int (length out) > af_Limit f then take (nat (af_Limit f)) out else out)"

text \<open>
  \<open>WaitForApproval\<close> once its caller is scheduled: \<open>ctxErr\<close> is the context's error when it has
  ended, \<open>pick\<close> is \<open>select\<close>'s choice when both channels are ready, and \<open>None\<close> is to keep waiting.
\<close>

definition WaitForApproval ::
  "MemStore \<Rightarrow> ApprovalID \<Rightarrow> goerr option \<Rightarrow> bool \<Rightarrow> (goerr + Approval) option" where
  "WaitForApproval m aid ctxErr pick =
    (case map_of (ms_approvals m) aid of
       None \<Rightarrow> Some (Inl (Sentinel ErrNotFound))
     | Some e \<Rightarrow>
        (case ctxErr of
           Some err \<Rightarrow> if ae_done e \<and> pick then Some (Inr (ae_approval e)) else Some (Inl err)
         | None \<Rightarrow> if ae_done e then Some (Inr (ae_approval e)) else None))"

section \<open>The lookup contract\<close>

interpretation approvals: tenant_lookup GetApproval ap_TenantID
    "\<lambda>m aid. map_option ae_approval (map_of (ms_approvals m) aid)"
  by unfold_locales (simp add: GetApproval_def split: option.splits)

section \<open>Open and resolved approvals\<close>

text \<open>An approval's waiters are released exactly when it is no longer open.\<close>

definition entry_ok :: "ApprovalID \<times> approvalEntry \<Rightarrow> bool" where
  "entry_ok = (\<lambda>(k, e). ap_ID (ae_approval e) = k \<and> (ae_done e \<longleftrightarrow> ap_Status (ae_approval e) \<noteq> ''requested''))"

definition approvals_ok :: "MemStore \<Rightarrow> bool" where
  "approvals_ok m \<longleftrightarrow> wf_map (ms_approvals m) \<and> list_all entry_ok (ms_approvals m)"

lemma approvals_okD: "approvals_ok m \<Longrightarrow> map_of (ms_approvals m) aid = Some e \<Longrightarrow>
    ap_ID (ae_approval e) = aid \<and> (ae_done e \<longleftrightarrow> ap_Status (ae_approval e) \<noteq> ''requested'')"
  by (drule map_of_SomeD) (auto simp: approvals_ok_def entry_ok_def list_all_iff)

lemma approvals_ok_new: "approvals_ok NewMemStore"
  by (simp add: approvals_ok_def NewMemStore_def)

lemma approvals_ok_put: "approvals_ok m \<Longrightarrow> entry_ok (k, e) \<Longrightarrow>
    approvals_ok (m\<lparr>ms_approvals := mput k e (ms_approvals m)\<rparr>)"
  by (auto simp: approvals_ok_def list_all_iff dest: set_mput)

text \<open>The runtime creates approvals open and resolves them as something other than open.\<close>

datatype approval_op =
    ACreate Approval ApprovalID time
  | AResolve TenantID ApprovalID string PrincipalID raw time time
  | ACancel TenantID RunID time

fun approval_step :: "approval_op \<Rightarrow> MemStore \<Rightarrow> MemStore option" where
  "approval_step (ACreate a newID now) m = Some (fst (CreateApproval m a newID now))"
| "approval_step (AResolve t aid st who res now now') m =
     map_option fst (ResolveApproval m t aid st who res now now')"
| "approval_step (ACancel t run now) m = CancelRunApprovals m t run now"

fun approval_history :: "approval_op list \<Rightarrow> MemStore \<Rightarrow> MemStore option" where
  "approval_history [] m = Some m"
| "approval_history (p # ps) m =
    (case approval_step p m of None \<Rightarrow> None | Some m' \<Rightarrow> approval_history ps m')"

fun runtime_approval_op :: "ApprovalID \<Rightarrow> approval_op \<Rightarrow> bool" where
  "runtime_approval_op aid (ACreate a newID now) \<longleftrightarrow>
     ap_Status a = [] \<and> ap_ID (filledApproval a newID now) \<noteq> aid"
| "runtime_approval_op aid (AResolve t x st who res now now') \<longleftrightarrow> st \<noteq> ''requested''"
| "runtime_approval_op aid (ACancel t run now) \<longleftrightarrow> True"

lemma map_of_setEntry [go_simps]: "map_of (ms_approvals (setEntry m k e)) aid =
    (if aid = k then Some e else map_of (ms_approvals m) aid)"
  by (simp add: setEntry_def go_simps)

lemma cancelEntry_ok: "entry_ok (k, e) \<Longrightarrow> \<exists>e'. cancelEntry t run now e = Some e' \<and> entry_ok (k, e') \<and>
    (ap_Status (ae_approval e) = ''requested'' \<or> e' = e)"
  by (auto simp: cancelEntry_def close_done_def entry_ok_def)

lemma cancelLoop_ok: "list_all entry_ok es \<Longrightarrow> \<exists>es'. cancelLoop t run now es = Some es' \<and>
    list_all entry_ok es' \<and> map fst es' = map fst es \<and>
    (\<forall>k e. map_of es k = Some e \<longrightarrow> ap_Status (ae_approval e) = ''requested'' \<or> map_of es' k = Some e)"
proof (induction es)
  case (Cons a es)
  obtain k e where a: "a = (k, e)" by (cases a)
  from Cons.prems cancelEntry_ok [of k e t run now] obtain e' where e':
    "cancelEntry t run now e = Some e'" "entry_ok (k, e')" "ap_Status (ae_approval e) = ''requested'' \<or> e' = e"
    by (auto simp: a)
  from Cons obtain es' where "cancelLoop t run now es = Some es'" "list_all entry_ok es'"
    "map fst es' = map fst es"
    "\<forall>k e. map_of es k = Some e \<longrightarrow> ap_Status (ae_approval e) = ''requested'' \<or> map_of es' k = Some e"
    by auto
  with e' show ?case by (auto simp: a)
qed simp

text \<open>Every step leaves the approvals well formed and a resolved approval as it is.\<close>

lemma approval_step_ok:
  assumes "approvals_ok m" and "runtime_approval_op aid p"
  obtains m' where "approval_step p m = Some m'" "approvals_ok m'"
    "\<And>e. map_of (ms_approvals m) aid = Some e \<Longrightarrow> ap_Status (ae_approval e) \<noteq> ''requested'' \<Longrightarrow>
      map_of (ms_approvals m') aid = Some e"
proof (cases p)
  case (ACreate a newID now)
  have "entry_ok (ap_ID (filledApproval a newID now), \<lparr>ae_approval = filledApproval a newID now, ae_done = False\<rparr>)"
    using assms(2) ACreate by (simp add: entry_ok_def filledApproval_def Let_def)
  with assms ACreate show ?thesis
    by (intro that [of "fst (CreateApproval m a newID now)"])
      (auto simp: CreateApproval_def Let_def go_simps approvals_ok_put)
next
  case (AResolve t k st who res now now')
  show ?thesis
  proof (cases "map_of (ms_approvals m) k")
    case None
    with AResolve assms show ?thesis by (intro that) (auto simp: ResolveApproval_def)
  next
    case (Some e)
    note e = approvals_okD [OF assms(1) Some]
    let ?a = "(ae_approval e)\<lparr>ap_Status := st, ap_Resolution := res, ap_ResolvedBy := who, ap_ResolvedAt := now'\<rparr>"
    have ok: "approvals_ok (setEntry m k \<lparr>ae_approval = ?a, ae_done = True\<rparr>)"
      unfolding setEntry_def using e assms AResolve by (intro approvals_ok_put) (auto simp: entry_ok_def)
    show ?thesis
    proof (cases "ap_TenantID (ae_approval e) = t \<and> ap_Status (ae_approval e) = ''requested'' \<and>
        \<not> (hasExpired (ae_approval e) now \<and> st \<noteq> ''expired'' \<and> st \<noteq> ''canceled'')")
      case True
      with Some AResolve e
      have "approval_step p m = Some (setEntry m k \<lparr>ae_approval = ?a, ae_done = True\<rparr>)"
        by (cases e) (auto simp: ResolveApproval_def close_done_def Let_def)
      moreover have "map_of (ms_approvals (setEntry m k \<lparr>ae_approval = ?a, ae_done = True\<rparr>)) aid = Some e'"
        if "map_of (ms_approvals m) aid = Some e'" "ap_Status (ae_approval e') \<noteq> ''requested''" for e'
        using that True Some by (auto simp: go_simps)
      ultimately show ?thesis using ok that by blast
    next
      case False
      with Some AResolve have "approval_step p m = Some m"
        by (auto simp: ResolveApproval_def Let_def)
      with assms show ?thesis by (intro that)
    qed
  qed
next
  case (ACancel t run now)
  from assms(1) cancelLoop_ok [of "ms_approvals m" t run now] obtain es' where
    "cancelLoop t run now (ms_approvals m) = Some es'" "list_all entry_ok es'"
    "map fst es' = map fst (ms_approvals m)" "\<forall>k e. map_of (ms_approvals m) k = Some e \<longrightarrow>
      ap_Status (ae_approval e) = ''requested'' \<or> map_of es' k = Some e"
    by (auto simp: approvals_ok_def)
  with assms ACancel show ?thesis
    by (intro that [of "m\<lparr>ms_approvals := es'\<rparr>"]) (auto simp: CancelRunApprovals_def approvals_ok_def wf_map_def)
qed


lemma approval_history_ok:
  assumes "approvals_ok m" and "list_all (runtime_approval_op aid) ps"
  obtains m' where "approval_history ps m = Some m'" "approvals_ok m'"
    "\<And>e. map_of (ms_approvals m) aid = Some e \<Longrightarrow> ap_Status (ae_approval e) \<noteq> ''requested'' \<Longrightarrow>
      map_of (ms_approvals m') aid = Some e"
  using assms
proof (induction ps arbitrary: m thesis)
  case (Cons p ps)
  from Cons.prems(3) have p: "runtime_approval_op aid p" "list_all (runtime_approval_op aid) ps" by simp_all
  obtain m1 where m1: "approval_step p m = Some m1" "approvals_ok m1"
    "\<And>e. map_of (ms_approvals m) aid = Some e \<Longrightarrow> ap_Status (ae_approval e) \<noteq> ''requested'' \<Longrightarrow>
      map_of (ms_approvals m1) aid = Some e"
    using approval_step_ok [OF Cons.prems(2) p(1)] by blast
  show ?case
    by (rule Cons.IH [OF _ m1(2) p(2)]) (rule Cons.prems(1); simp add: m1)
qed auto

text \<open>C17: Whatever the runtime, the API and cancellations do to approvals in any order, no channel is
  closed twice, an approval that is resolved keeps its resolution for good, every further attempt to
  resolve it is answered \<open>ErrConflict\<close>, and its waiters get just that resolution.\<close>

theorem approval_resolved_once:
  assumes "approvals_ok m" and "GetApproval m t aid = Inr a" and "ap_Status a \<noteq> ''requested''"
    and "list_all (runtime_approval_op aid) ps"
  shows "\<exists>m'. approval_history ps m = Some m' \<and> approvals_ok m' \<and> GetApproval m' t aid = Inr a \<and>
    ResolveApproval m' t aid st who res now now' = Some (m', Some (Sentinel ErrConflict)) \<and>
    WaitForApproval m' aid None pick = Some (Inr a)"
proof -
  obtain e where e: "map_of (ms_approvals m) aid = Some e" "ae_approval e = a" "ap_TenantID a = t"
    using assms(2) by (auto simp: approvals.get_Inr_iff)
  obtain m' where m': "approval_history ps m = Some m'" "approvals_ok m'"
    "map_of (ms_approvals m') aid = Some e"
    by (rule approval_history_ok [OF assms(1,4)]) (use e assms(3) in auto)
  with approvals_okD [OF m'(2,3)] e assms(3) show ?thesis
    by (auto simp: approvals.get_Inr_iff ResolveApproval_def WaitForApproval_def)
qed

theorem approval_resolved_once_witness:
  "\<exists>m m'. approval_history [ACreate (Approval0\<lparr>ap_RunID := ''r''\<rparr>) ''a1'' 5, AResolve [] ''a1'' ''approved'' ''p'' None 6 7]
       NewMemStore = Some m \<and>
     approval_history [AResolve [] ''a1'' ''rejected'' ''q'' None 8 9, ACancel [] ''r'' 10] m = Some m' \<and>
     map_sum id ap_Status (GetApproval m' [] ''a1'') = Inr ''approved''"
proof -
  let ?a = "filledApproval (Approval0\<lparr>ap_RunID := ''r''\<rparr>) ''a1'' 5"
  let ?r = "?a\<lparr>ap_Status := ''approved'', ap_Resolution := None, ap_ResolvedBy := ''p'', ap_ResolvedAt := 7\<rparr>"
  have a: "ap_ID ?a = ''a1''" "ap_TenantID ?a = []" "ap_Status ?a = ''requested''" "ap_ExpiresAt ?a = 0"
    by (simp_all add: filledApproval_def Approval0_def Let_def)
  obtain m where m: "approval_history [ACreate (Approval0\<lparr>ap_RunID := ''r''\<rparr>) ''a1'' 5,
      AResolve [] ''a1'' ''approved'' ''p'' None 6 7] NewMemStore = Some m"
    and e: "ms_approvals m = [(''a1'', \<lparr>ae_approval = ?r, ae_done = True\<rparr>)]"
    using a by (simp add: CreateApproval_def ResolveApproval_def close_done_def setEntry_def
        hasExpired_def NewMemStore_def Let_def)
  have ok: "approvals_ok m"
    by (simp add: approvals_ok_def e entry_ok_def a)
  have get: "GetApproval m [] ''a1'' = Inr ?r" "ap_Status ?r \<noteq> ''requested''"
    by (simp_all add: GetApproval_def e a)
  from approval_resolved_once [OF ok get, of "[AResolve [] ''a1'' ''rejected'' ''q'' None 8 9, ACancel [] ''r'' 10]"
      "[]" "[]" None 0 0 True]
  obtain m' where "approval_history [AResolve [] ''a1'' ''rejected'' ''q'' None 8 9, ACancel [] ''r'' 10] m = Some m'"
    "GetApproval m' [] ''a1'' = Inr ?r"
    by auto
  with m show ?thesis by (intro exI [of _ m] exI [of _ m']) simp
qed

text \<open>An open approval is resolved by the first attempt in time: before it expires with any
  status, afterwards only as expired or canceled, and then it records who decided what and its
  waiters, who were blocked before, are released with it.\<close>

theorem ResolveApproval_first:
  assumes "approvals_ok m" and "GetApproval m t aid = Inr a" and "ap_Status a = ''requested''"
    and "st \<noteq> ''requested''"
  shows "WaitForApproval m aid None pick = None \<and>
    (if ap_ExpiresAt a \<noteq> 0 \<and> ap_ExpiresAt a \<le> now \<and> st \<notin> {''expired'', ''canceled''}
     then ResolveApproval m t aid st who res now now' = Some (m, Some (Sentinel ErrConflict))
     else \<exists>m'. ResolveApproval m t aid st who res now now' = Some (m', None) \<and>
       WaitForApproval m' aid None pick = Some (Inr (a\<lparr>ap_Status := st, ap_Resolution := res,
         ap_ResolvedBy := who, ap_ResolvedAt := now'\<rparr>)) \<and>
       (\<forall>x. x \<noteq> aid \<longrightarrow> map_of (ms_approvals m') x = map_of (ms_approvals m) x))"
proof -
  obtain e where e: "map_of (ms_approvals m) aid = Some e" "ae_approval e = a" "ap_TenantID a = t"
    using assms(2) by (auto simp: approvals.get_Inr_iff)
  with approvals_okD [OF assms(1) e(1)] assms(3) have "\<not> ae_done e" by simp
  with e assms(3,4) show ?thesis
    by (auto simp: ResolveApproval_def WaitForApproval_def close_done_def hasExpired_def Let_def go_simps)
qed

theorem ResolveApproval_first_witness:
  "\<exists>m. approvals_ok m \<and> ResolveApproval m [] ''a1'' ''approved'' ''p'' None 9 9 = Some (m, Some (Sentinel ErrConflict))"
proof -
  let ?a = "Approval0\<lparr>ap_ID := ''a1'', ap_Status := ''requested'', ap_ExpiresAt := 8\<rparr>"
  let ?m = "NewMemStore\<lparr>ms_approvals := [(''a1'', \<lparr>ae_approval = ?a, ae_done = False\<rparr>)]\<rparr>"
  have ok: "approvals_ok ?m" by (simp add: approvals_ok_def entry_ok_def)
  have "GetApproval ?m [] ''a1'' = Inr ?a" by (simp add: GetApproval_def Approval0_def)
  from ResolveApproval_first [OF ok this, of "''approved''" True 9 "''p''" None 9] ok show ?thesis by auto
qed

section \<open>Listing\<close>

lemma mvals_approvals_distinct:
  assumes "approvals_ok m"
  shows "distinct (map ap_ID (map ae_approval (mvals (ms_approvals m))))"
proof -
  have "map ap_ID (map ae_approval (mvals (ms_approvals m))) = map fst (ms_approvals m)"
    using assms by (auto simp: approvals_ok_def entry_ok_def list_all_iff)
  then show ?thesis using assms by (simp only: approvals_ok_def wf_map_def)
qed

lemma sort_key_strict: "distinct (map f xs) \<Longrightarrow> sorted_wrt (<) (map f (sort_key f xs))"
proof -
  assume "distinct (map f xs)"
  then have "distinct (map f (sort_key f xs))"
    by (simp add: distinct_map)
  then show ?thesis by (simp add: strict_sorted_iff)
qed

text \<open>Everything the filter selects, wherever a page starts.\<close>

definition selected :: "MemStore \<Rightarrow> TenantID \<Rightarrow> ApprovalFilter \<Rightarrow> time \<Rightarrow> Approval list" where
  "selected m tenant f now = sort_key ap_ID (filter (listed m tenant (f\<lparr>af_After := []\<rparr>) now)
     (map ae_approval (mvals (ms_approvals m))))"

lemma listed_after: "listed m t (f\<lparr>af_After := k, af_Limit := l\<rparr>) now a \<longleftrightarrow>
    k < ap_ID a \<and> listed m t (f\<lparr>af_After := []\<rparr>) now a"
proof -
  have "[] < ap_ID a" if "k < ap_ID a"
    using that by (cases "ap_ID a") auto
  then show ?thesis by (auto simp: listed_def not_le)
qed

lemma listed_named: "listed m t (f\<lparr>af_After := []\<rparr>) now a \<Longrightarrow> [] < ap_ID a"
  by (cases "ap_ID a") (simp_all add: listed_def)

lemma listed_tenant: "listed m t f now a \<Longrightarrow> ap_TenantID a = t"
  by (simp add: listed_def split: if_splits)

lemma filter_sort_key: "filter P (sort_key f xs) = sort_key f (filter P xs)"
  by (rule filter_sort)

interpretation approval_pages: keyset_listing
    "\<lambda>m after limit. ListApprovals m t (f\<lparr>af_After := after, af_Limit := limit\<rparr>) now"
    "\<lambda>m. selected m t f now" ap_ID approvals_ok for t f now
proof
  fix m :: MemStore and k limit assume "approvals_ok m"
  have "sort_key ap_ID (filter (listed m t (f\<lparr>af_After := k, af_Limit := limit\<rparr>) now)
      (map ae_approval (mvals (ms_approvals m)))) = filter (\<lambda>a. k < ap_ID a) (selected m t f now)"
    by (simp only: selected_def filter_sort_key filter_filter listed_after [abs_def] conj_commute)
  then show "ListApprovals m t (f\<lparr>af_After := k, af_Limit := limit\<rparr>) now =
      limited limit (filter (\<lambda>a. k < ap_ID a) (selected m t f now))"
    by (simp add: ListApprovals_def Let_def limited_def)
next
  fix m :: MemStore assume "approvals_ok m"
  then have "distinct (map ap_ID (filter (listed m t (f\<lparr>af_After := []\<rparr>) now)
      (map ae_approval (mvals (ms_approvals m)))))"
    using mvals_approvals_distinct by (simp only: distinct_map_filter)
  then show "sorted_wrt (<) (map ap_ID (selected m t f now))"
    unfolding selected_def by (rule sort_key_strict)
qed

text \<open>A client that pages through the approvals of a filter, each page after the last ID of the
  one before, gets every one the filter selects exactly once and in ID order, whatever the page size.\<close>

theorem ListApprovals_pages:
  assumes "approvals_ok m" and "0 < limit" and "length (selected m t f now) \<le> n"
  shows "readPages (\<lambda>k. ListApprovals m t (f\<lparr>af_After := k, af_Limit := limit\<rparr>) now) ap_ID n [] =
      selected m t f now \<and>
    set (selected m t f now) = {a. GetApproval m t (ap_ID a) = Inr a \<and> listed m t (f\<lparr>af_After := []\<rparr>) now a}"
proof
  have all: "filter (\<lambda>a. [] < ap_ID a) (selected m t f now) = selected m t f now"
    by (rule filter_True) (auto simp: selected_def dest: listed_named)
  have "length (filter (\<lambda>a. [] < ap_ID a) (selected m t f now)) \<le> n"
    unfolding all by (rule assms(3))
  from approval_pages.readPages_all [OF assms(1,2) this]
  show "readPages (\<lambda>k. ListApprovals m t (f\<lparr>af_After := k, af_Limit := limit\<rparr>) now) ap_ID n [] =
      selected m t f now"
    unfolding all .
  have wf: "wf_map (ms_approvals m)" using assms(1) by (simp add: approvals_ok_def)
  have vals: "a \<in> set (map ae_approval (mvals (ms_approvals m))) \<longleftrightarrow>
      map_option ae_approval (map_of (ms_approvals m) (ap_ID a)) = Some a" for a
  proof -
    have "a \<in> set (map ae_approval (mvals (ms_approvals m))) \<longleftrightarrow>
        (\<exists>k e. map_of (ms_approvals m) k = Some e \<and> a = ae_approval e)"
      unfolding set_map [of ae_approval] image_iff Bex_def in_mvals_iff [OF wf] by blast
    then show ?thesis using approvals_okD [OF assms(1)] by auto
  qed
  show "set (selected m t f now) = {a. GetApproval m t (ap_ID a) = Inr a \<and> listed m t (f\<lparr>af_After := []\<rparr>) now a}"
    unfolding selected_def set_sort set_filter vals
    by (auto simp: approvals.get_Inr_iff simp del: map_option_eq_Some dest: listed_tenant)
qed

theorem ListApprovals_pages_witness:
  "\<exists>m. map ap_ID (readPages (\<lambda>k. ListApprovals m [] (\<lparr>af_RunID = [], af_Status = ''requested'', af_After = k,
     af_Limit = 1, af_Participant = []\<rparr>) 5) ap_ID 2 []) = [''a'', ''b'']"
proof -
  let ?a = "\<lambda>i. Approval0\<lparr>ap_ID := i, ap_Status := ''requested''\<rparr>"
  let ?m = "NewMemStore\<lparr>ms_approvals := map (\<lambda>i. (i, \<lparr>ae_approval = ?a i, ae_done = False\<rparr>)) [''b'', ''a'']\<rparr>"
  let ?f = "\<lparr>af_RunID = [], af_Status = ''requested'', af_After = [], af_Limit = 0, af_Participant = []\<rparr>"
  have ok: "approvals_ok ?m" by (simp add: approvals_ok_def entry_ok_def wf_map_def)
  have s: "selected ?m [] ?f 5 = [?a ''a'', ?a ''b'']"
    by (simp add: selected_def listed_def hasExpired_def Approval0_def)
  from ListApprovals_pages [OF ok, of 1 "[]" ?f 5 2] show ?thesis
    unfolding s by (intro exI [of _ ?m]) simp
qed

end
