(* ===== verification/Artifacts.thy ===== *)
theory Artifacts
  imports StoreTypes
begin

text \<open>
  Task records and artifacts in the in-memory store (\<open>store/store.go\<close>, lines 631 to 677 and 781 to
  842).
\<close>

section \<open>Tasks\<close>

definition filledTask :: "Task \<Rightarrow> TaskID \<Rightarrow> time \<Rightarrow> Task" where
  "filledTask t0 newID now =
    (let t1 = (if ta_ID t0 = [] then t0\<lparr>ta_ID := newID\<rparr> else t0);
         t2 = (if ta_CreatedAt t1 = 0 then t1\<lparr>ta_CreatedAt := now\<rparr> else t1);
         t3 = t2\<lparr>ta_UpdatedAt := ta_CreatedAt t2\<rparr>;
         t4 = (if ta_Status t3 = TaskUnset then t3\<lparr>ta_Status := TaskPending\<rparr> else t3)
     in if ta_Attempt t4 = 0 then t4\<lparr>ta_Attempt := 1\<rparr> else t4)"

definition CreateTask :: "MemStore \<Rightarrow> Task \<Rightarrow> TaskID \<Rightarrow> time \<Rightarrow> MemStore \<times> TaskID" where
  "CreateTask m t0 newID now =
    (let t = filledTask t0 newID now
     in (m\<lparr>ms_tasks := mput (ta_ID t) t (ms_tasks m)\<rparr>, ta_ID t))"

definition UpdateTask :: "MemStore \<Rightarrow> Task \<Rightarrow> time \<Rightarrow> MemStore \<times> goerr option" where
  "UpdateTask m t now =
    (case map_of (ms_tasks m) (ta_ID t) of
       None \<Rightarrow> (m, Some (Sentinel ErrNotFound))
     | Some cur \<Rightarrow>
        if ta_TenantID cur \<noteq> ta_TenantID t then (m, Some (Sentinel ErrNotFound))
        else (m\<lparr>ms_tasks := mput (ta_ID t) (cur\<lparr>ta_Status := ta_Status t, ta_Output := ta_Output t,
                ta_Error := ta_Error t, ta_UpdatedAt := now\<rparr>) (ms_tasks m)\<rparr>, None))"

definition ListRunTasks :: "MemStore \<Rightarrow> TenantID \<Rightarrow> RunID \<Rightarrow> Task list" where
  "ListRunTasks m tenant run = sort_key ta_CreatedAt
     (filter (\<lambda>t. ta_TenantID t = tenant \<and> ta_RunID t = run) (mvals (ms_tasks m)))"

section \<open>Artifacts\<close>

definition filledArtifact :: "Artifact \<Rightarrow> string \<Rightarrow> time \<Rightarrow> Artifact" where
  "filledArtifact a0 newID now =
    (let a1 = (if ar_ID a0 = [] then a0\<lparr>ar_ID := newID\<rparr> else a0);
         a2 = (if ar_CreatedAt a1 = 0 then a1\<lparr>ar_CreatedAt := now\<rparr> else a1);
         a3 = (if ar_MimeType a2 = [] then a2\<lparr>ar_MimeType := ''application/octet-stream''\<rparr> else a2)
     in a3\<lparr>ar_Size := int (length (ar_Content a3)), ar_Version := 1\<rparr>)"

definition sameName :: "Artifact \<Rightarrow> Artifact \<Rightarrow> bool" where
  "sameName a b \<longleftrightarrow> ar_TenantID b = ar_TenantID a \<and> ar_SessionID b = ar_SessionID a \<and> ar_Name b = ar_Name a"

definition PutArtifact :: "MemStore \<Rightarrow> Artifact \<Rightarrow> string \<Rightarrow> time \<Rightarrow> MemStore \<times> string" where
  "PutArtifact m a0 newID now =
    (let a1 = filledArtifact a0 newID now;
         a = fold (\<lambda>b a. if sameName a b then a\<lparr>ar_Version := max (ar_Version a) (ar_Version b + 1)\<rparr> else a)
               (mvals (ms_artifacts m)) a1
     in (m\<lparr>ms_artifacts := mput (ar_ID a) a (ms_artifacts m)\<rparr>, ar_ID a))"

definition GetArtifact :: "MemStore \<Rightarrow> TenantID \<Rightarrow> string \<Rightarrow> goerr + Artifact" where
  "GetArtifact m tenant i =
    (case map_of (ms_artifacts m) i of
       None \<Rightarrow> Inl (Sentinel ErrNotFound)
     | Some a \<Rightarrow> if ar_TenantID a \<noteq> tenant then Inl (Sentinel ErrNotFound) else Inr a)"

definition ListRunArtifacts :: "MemStore \<Rightarrow> TenantID \<Rightarrow> RunID \<Rightarrow> Artifact list" where
  "ListRunArtifacts m tenant run = sort_key (\<lambda>a. (ar_CreatedAt a, ar_ID a))
     (filter (\<lambda>a. ar_TenantID a = tenant \<and> ar_RunID a = run) (mvals (ms_artifacts m)))"

definition ListArtifactVersions ::
  "MemStore \<Rightarrow> TenantID \<Rightarrow> SessionID \<Rightarrow> string \<Rightarrow> Artifact list" where
  "ListArtifactVersions m tenant sid name = sort_key ar_Version
     (filter (\<lambda>a. ar_TenantID a = tenant \<and> ar_SessionID a = sid \<and> ar_Name a = name) (mvals (ms_artifacts m)))"

interpretation artifacts: tenant_lookup GetArtifact ar_TenantID "\<lambda>m. map_of (ms_artifacts m)"
  by unfold_locales (simp add: GetArtifact_def split: option.splits)

section \<open>What task updates change\<close>

text \<open>\<open>UpdateTask\<close> writes the status, output and error of the task it names and nothing else.\<close>

definition task_fixed :: "Task \<Rightarrow> TaskID \<times> TenantID \<times> RunID \<times> TaskID \<times> string \<times> int \<times> int \<times> raw \<times> time" where
  "task_fixed t = (ta_ID t, ta_TenantID t, ta_RunID t, ta_ParentTaskID t, ta_AgentName t, ta_Depth t,
     ta_Attempt t, ta_Input t, ta_CreatedAt t)"

lemma UpdateTask_fixed: "map_of (ms_tasks m) k = Some t \<Longrightarrow>
    \<exists>t'. map_of (ms_tasks (fst (UpdateTask m u now))) k = Some t' \<and> task_fixed t' = task_fixed t"
  by (auto simp: UpdateTask_def go_simps task_fixed_def split: option.splits)

section \<open>Versions\<close>

definition named :: "MemStore \<Rightarrow> TenantID \<Rightarrow> SessionID \<Rightarrow> string \<Rightarrow> Artifact list" where
  "named m t sid n =
    filter (\<lambda>a. ar_TenantID a = t \<and> ar_SessionID a = sid \<and> ar_Name a = n) (mvals (ms_artifacts m))"

text \<open>Artifacts are stored under their IDs, and the versions of a name are 1, 2, ..., each once.\<close>

definition artifacts_ok :: "MemStore \<Rightarrow> bool" where
  "artifacts_ok m \<longleftrightarrow> wf_map (ms_artifacts m) \<and> list_all (\<lambda>(k, a). ar_ID a = k) (ms_artifacts m) \<and>
     (\<forall>t sid n. map ar_Version (ListArtifactVersions m t sid n) = [1..int (length (named m t sid n))])"

lemma artifacts_ok_new: "artifacts_ok NewMemStore"
  by (simp add: artifacts_ok_def NewMemStore_def ListArtifactVersions_def named_def)

lemma versions_eq: "ListArtifactVersions m t sid n = sort_key ar_Version (named m t sid n)"
  by (simp add: ListArtifactVersions_def named_def)

lemma versions_all:
  "artifacts_ok m \<Longrightarrow> map ar_Version (ListArtifactVersions m t sid n) = [1..int (length (named m t sid n))]"
  by (simp add: artifacts_ok_def)

lemma filledArtifact_simps [simp]:
  "ar_TenantID (filledArtifact a i t) = ar_TenantID a" "ar_SessionID (filledArtifact a i t) = ar_SessionID a"
  "ar_Name (filledArtifact a i t) = ar_Name a" "ar_Version (filledArtifact a i t) = 1"
  "ar_ID (filledArtifact a i t) = (if ar_ID a = [] then i else ar_ID a)"
  "ar_Content (filledArtifact a i t) = ar_Content a" "ar_RunID (filledArtifact a i t) = ar_RunID a"
  "ar_Size (filledArtifact a i t) = int (length (ar_Content a))"
  by (simp_all add: filledArtifact_def Let_def)

text \<open>The loop sets the version to one more than the highest there is.\<close>

lemma version_loop: "fold (\<lambda>b a. if sameName a b then a\<lparr>ar_Version := max (ar_Version a) (ar_Version b + 1)\<rparr> else a) bs a =
    a\<lparr>ar_Version := fold (\<lambda>b v. max v (ar_Version b + 1)) (filter (sameName a) bs) (ar_Version a)\<rparr>"
proof (induction bs arbitrary: a)
  case (Cons b bs)
  have [simp]: "sameName (a\<lparr>ar_Version := v\<rparr>) = sameName a" for v
    by (simp add: sameName_def fun_eq_iff)
  show ?case by (simp add: Cons.IH)
qed simp

lemma fold_max_plus: "fold (\<lambda>b v. max v (f b + 1)) bs (v::int) = Max (insert v ((\<lambda>b. f b + 1) ` set bs))"
proof (induction bs arbitrary: v)
  case (Cons b bs)
  show ?case
    unfolding fold.simps comp_def Cons.IH
    by (cases "bs = []") (simp_all add: max.assoc max.commute max.left_commute)
qed simp

lemma PutArtifact_eq:
  fixes m :: MemStore and a0 :: Artifact
  assumes "artifacts_ok m"
  defines "k \<equiv> length (named m (ar_TenantID a0) (ar_SessionID a0) (ar_Name a0))"
  shows "PutArtifact m a0 newID now =
    (let a = (filledArtifact a0 newID now)\<lparr>ar_Version := int k + 1\<rparr>
     in (m\<lparr>ms_artifacts := mput (ar_ID a) a (ms_artifacts m)\<rparr>, ar_ID a))"
proof -
  let ?a = "filledArtifact a0 newID now" and ?n = "named m (ar_TenantID a0) (ar_SessionID a0) (ar_Name a0)"
  have "filter (sameName ?a) (mvals (ms_artifacts m)) = ?n"
    by (simp add: sameName_def [abs_def] named_def)
  moreover have "ar_Version ` set ?n = set [1..int k]"
  proof -
    have "set (map ar_Version (ListArtifactVersions m (ar_TenantID a0) (ar_SessionID a0) (ar_Name a0))) =
        ar_Version ` set ?n" by (simp add: versions_eq)
    then show ?thesis unfolding versions_all [OF assms(1)] k_def by simp
  qed
  then have "(\<lambda>b. ar_Version b + 1) ` set ?n = (\<lambda>v. v + 1) ` {1..int k}"
    by (simp add: image_image [symmetric, of "\<lambda>v. v + 1" ar_Version] del: set_filter)
  then have "fold (\<lambda>b v. max v (ar_Version b + 1)) ?n 1 = int k + 1"
    unfolding fold_max_plus by (intro Max_eqI) (auto simp: image_iff Bex_def)
  ultimately show ?thesis
    unfolding PutArtifact_def Let_def version_loop by simp
qed

text \<open>A new ID: \<open>PutArtifact\<close> makes it, or its caller has just made it.\<close>

definition fresh_artifact :: "MemStore \<Rightarrow> Artifact \<Rightarrow> string \<Rightarrow> bool" where
  "fresh_artifact m a newID \<longleftrightarrow> map_of (ms_artifacts m) (ar_ID (filledArtifact a newID 0)) = None"

lemma insort_key_snoc: "f x < f y \<Longrightarrow> insort_key f x (zs @ [y]) = insort_key f x zs @ [y]"
  by (induction zs) auto

lemma sort_key_snoc: "\<forall>x \<in> set xs. f x < f y \<Longrightarrow> sort_key f (xs @ [y]) = sort_key f xs @ [y]"
  by (induction xs) (simp_all add: insort_key_snoc)

lemma artifacts_ok_Put:
  assumes ok: "artifacts_ok m" and new: "fresh_artifact m a0 newID"
    and p: "PutArtifact m a0 newID now = (m', i)"
  obtains a where "a = (filledArtifact a0 newID now)\<lparr>ar_Version :=
      int (length (named m (ar_TenantID a0) (ar_SessionID a0) (ar_Name a0))) + 1\<rparr>"
    "i = ar_ID a" "ms_artifacts m' = ms_artifacts m @ [(i, a)]" "artifacts_ok m'"
    "\<And>t sid n. ListArtifactVersions m' t sid n = ListArtifactVersions m t sid n @
      (if t = ar_TenantID a0 \<and> sid = ar_SessionID a0 \<and> n = ar_Name a0 then [a] else [])"
proof -
  define a where "a = (filledArtifact a0 newID now)\<lparr>ar_Version :=
      int (length (named m (ar_TenantID a0) (ar_SessionID a0) (ar_Name a0))) + 1\<rparr>"
  have i: "i = ar_ID a" "ms_artifacts m' = mput (ar_ID a) a (ms_artifacts m)"
    using p PutArtifact_eq [OF ok, of a0 newID now] by (auto simp: a_def Let_def)
  have arts: "ms_artifacts m' = ms_artifacts m @ [(i, a)]"
    unfolding i using new by (intro update_new) (simp add: fresh_artifact_def a_def)
  have named: "named m' t sid n = named m t sid n @
      (if t = ar_TenantID a0 \<and> sid = ar_SessionID a0 \<and> n = ar_Name a0 then [a] else [])" for t sid n
    by (simp add: named_def arts) (auto simp: a_def)
  have vers: "ListArtifactVersions m' t sid n = ListArtifactVersions m t sid n @
      (if t = ar_TenantID a0 \<and> sid = ar_SessionID a0 \<and> n = ar_Name a0 then [a] else [])" for t sid n
  proof -
    have "\<forall>b \<in> set (named m t sid n). ar_Version b < int (length (named m t sid n)) + 1"
    proof
      fix b assume "b \<in> set (named m t sid n)"
      then have "ar_Version b \<in> set (map ar_Version (ListArtifactVersions m t sid n))" by (simp add: versions_eq)
      then show "ar_Version b < int (length (named m t sid n)) + 1" unfolding versions_all [OF ok] by simp
    qed
    then show ?thesis
      unfolding versions_eq named by (auto simp: a_def intro: sort_key_snoc)
  qed
  have "artifacts_ok m'"
    unfolding artifacts_ok_def
  proof (intro conjI allI)
    show "wf_map (ms_artifacts m')" unfolding i(2) using ok by (simp add: artifacts_ok_def)
    show "list_all (\<lambda>(k, a). ar_ID a = k) (ms_artifacts m')" using ok i(1) by (simp add: artifacts_ok_def arts)
    fix t sid n
    show "map ar_Version (ListArtifactVersions m' t sid n) = [1..int (length (named m' t sid n))]"
      using versions_all [OF ok, of t sid n] by (simp add: vers named upto_rec2) (simp add: a_def)
  qed
  with that a_def i(1) arts vers show ?thesis by blast
qed

text \<open>Each artifact put under a name of a session becomes that name's next version: the versions
  listed are 1, 2, ... in the order of the puts, the others are untouched, and \<open>GetArtifact\<close>
  returns the new one, with its content and its size, to its tenant only.\<close>

theorem PutArtifact_next_version:
  assumes "artifacts_ok m" and "fresh_artifact m a0 newID" and "PutArtifact m a0 newID now = (m', i)"
  shows "\<exists>a. artifacts_ok m' \<and>
    ListArtifactVersions m' t sid n = ListArtifactVersions m t sid n @
      (if t = ar_TenantID a0 \<and> sid = ar_SessionID a0 \<and> n = ar_Name a0 then [a] else []) \<and>
    map ar_Version (ListArtifactVersions m' t sid n) = [1..int (length (ListArtifactVersions m' t sid n))] \<and>
    GetArtifact m' t' i = (if t' = ar_TenantID a0 then Inr a else Inl (Sentinel ErrNotFound)) \<and>
    ar_Content a = ar_Content a0 \<and> ar_Size a = int (length (ar_Content a0))"
proof -
  obtain a where a: "a = (filledArtifact a0 newID now)\<lparr>ar_Version :=
      int (length (named m (ar_TenantID a0) (ar_SessionID a0) (ar_Name a0))) + 1\<rparr>"
    "i = ar_ID a" "ms_artifacts m' = ms_artifacts m @ [(i, a)]" "artifacts_ok m'"
    "\<And>t sid n. ListArtifactVersions m' t sid n = ListArtifactVersions m t sid n @
      (if t = ar_TenantID a0 \<and> sid = ar_SessionID a0 \<and> n = ar_Name a0 then [a] else [])"
    using artifacts_ok_Put [OF assms] by metis
  have none: "map_of (ms_artifacts m) i = None"
    using assms(2) a(1,2) by (simp add: fresh_artifact_def)
  have "map_of (ms_artifacts m') i = Some a"
    by (simp add: a(3) none map_add_def)
  then have "GetArtifact m' t' i = (if t' = ar_TenantID a0 then Inr a else Inl (Sentinel ErrNotFound))"
    by (auto simp: GetArtifact_def a(1))
  moreover have "length (named m' t sid n) = length (ListArtifactVersions m' t sid n)"
    by (simp add: versions_eq)
  ultimately show ?thesis
    using a(4,5) versions_all [OF a(4), of t sid n] by (intro exI [of _ a]) (simp add: a(1))
qed

theorem PutArtifact_next_version_witness:
  "\<exists>m' i. PutArtifact NewMemStore (Artifact0\<lparr>ar_Name := ''out'', ar_Content := ''abc''\<rparr>) ''x'' 5 = (m', i) \<and>
     map ar_Version (ListArtifactVersions m' [] [] ''out'') = [1]"
proof -
  let ?a = "Artifact0\<lparr>ar_Name := ''out'', ar_Content := ''abc''\<rparr>"
  obtain m' i where p: "PutArtifact NewMemStore ?a ''x'' 5 = (m', i)" by (cases "PutArtifact NewMemStore ?a ''x'' 5")
  have "fresh_artifact NewMemStore ?a ''x''" by (simp add: fresh_artifact_def NewMemStore_def)
  note new = PutArtifact_next_version [OF artifacts_ok_new this p, of "[]" "[]" "''out''" "[]"]
  have "ListArtifactVersions NewMemStore [] [] ''out'' = []"
    by (simp add: ListArtifactVersions_def NewMemStore_def)
  moreover have "ar_TenantID ?a = []" "ar_SessionID ?a = []" "ar_Name ?a = ''out''"
    by (simp_all add: Artifact0_def)
  ultimately have "map ar_Version (ListArtifactVersions m' [] [] ''out'') = [1]"
    using new by auto
  with p show ?thesis by (intro exI conjI)
qed

end
