(* ===== verification/Memories.thy ===== *)
theory Memories
  imports StoreTypes
begin

text \<open>
  Long-term memory in the in-memory store (\<open>store/memory.go\<close>): validation, saving and similarity
  search. Embeddings are lists of reals and scores are exact: the rounding of \<open>float32\<close> and
  \<open>float64\<close> and their non-finite values are not modelled.
\<close>

section \<open>Operations\<close>

definition Memory_Validate :: "Memory \<Rightarrow> goerr option" where
  "Memory_Validate m =
    (if mem_Content m = [] \<or> length (mem_Embedding m) = 0 \<or> mem_EmbedModel m = []
     then Some (Sentinel ErrInvalidMemory)
     else if mem_Scope m = MemorySession \<and> mem_SessionID m = [] \<or>
       mem_Scope m = MemoryWorkflow \<and> mem_Workflow m = [] \<or> mem_Scope m = MemoryProject \<and> mem_Project m = []
     then Some (Sentinel ErrInvalidMemory)
     else if mem_Scope m \<noteq> MemoryTenant \<and> mem_Scope m \<noteq> MemorySession \<and> mem_Scope m \<noteq> MemoryWorkflow \<and>
       mem_Scope m \<noteq> MemoryProject
     then Some (Sentinel ErrInvalidMemory)
     else None)"

definition query_visible :: "MemoryQuery \<Rightarrow> Memory \<Rightarrow> bool" where
  "query_visible q m =
    (if mem_TenantID m \<noteq> mq_TenantID q \<or> mem_EmbedModel m \<noteq> mq_EmbedModel q then False
     else if mem_Scope m = MemorySession then mem_SessionID m = mq_SessionID q
     else if mem_Scope m = MemoryProject then mq_Project q \<noteq> [] \<and> mem_Project m = mq_Project q
     else if mem_Scope m = MemoryWorkflow then mem_Workflow m = mq_Workflow q
     else True)"

text \<open>Each memory comes with the ID and the time \<open>PutMemories\<close> may need for it.\<close>

definition filledMemory :: "Memory \<times> string \<times> time \<Rightarrow> Memory" where
  "filledMemory = (\<lambda>(m0, newID, now).
    (let m1 = (if mem_ID m0 = [] then m0\<lparr>mem_ID := newID\<rparr> else m0)
     in if mem_CreatedAt m1 = 0 then m1\<lparr>mem_CreatedAt := now\<rparr> else m1))"

fun validateAll :: "Memory list \<Rightarrow> goerr option" where
  "validateAll [] = None"
| "validateAll (m # ms) = (case Memory_Validate m of Some err \<Rightarrow> Some err | None \<Rightarrow> validateAll ms)"

definition PutMemories :: "MemStore \<Rightarrow> (Memory \<times> string \<times> time) list \<Rightarrow> MemStore \<times> (goerr + string list)" where
  "PutMemories m mems =
    (case validateAll (map fst mems) of
       Some err \<Rightarrow> (m, Inl err)
     | None \<Rightarrow> (m\<lparr>ms_memories := ms_memories m @ map filledMemory mems\<rparr>,
                Inr (map (\<lambda>x. mem_ID (filledMemory x)) mems)))"

definition PutMemory :: "MemStore \<Rightarrow> Memory \<times> string \<times> time \<Rightarrow> MemStore \<times> (goerr + string)" where
  "PutMemory m mem =
    (case PutMemories m [mem] of
       (m', Inl err) \<Rightarrow> (m', Inl err)
     | (m', Inr ids) \<Rightarrow> (m', Inr (ids ! 0)))"

text \<open>The loop of \<open>cosine\<close> over its three sums; the vectors have the same length.\<close>

fun cosineLoop :: "real list \<Rightarrow> real list \<Rightarrow> real \<times> real \<times> real \<Rightarrow> real \<times> real \<times> real" where
  "cosineLoop (x # xs) (y # ys) (dot, na, nb) = cosineLoop xs ys (dot + x * y, na + x * x, nb + y * y)"
| "cosineLoop _ _ acc = acc"

definition cosine :: "real list \<Rightarrow> real list \<Rightarrow> real" where
  "cosine a b = (case cosineLoop a b (0, 0, 0) of (dot, na, nb) \<Rightarrow>
     if na = 0 \<or> nb = 0 then 0 else dot / sqrt (na * nb))"

definition SearchMemories :: "MemStore \<Rightarrow> MemoryQuery \<Rightarrow> MemoryHit list" where
  "SearchMemories m q =
    (let found = filter (\<lambda>mem. query_visible q mem \<and> length (mem_Embedding mem) = length (mq_Embedding q)) (ms_memories m);
         hits = map (\<lambda>mem. \<lparr>mh_Memory = mem, mh_Score = cosine (mem_Embedding mem) (mq_Embedding q)\<rparr>) found;
         sorted_hits = sort_key (\<lambda>h. - mh_Score h) hits
     in if mq_Limit q > 0 \<and> int (length sorted_hits) > mq_Limit q then take (nat (mq_Limit q)) sorted_hits
        else sorted_hits)"

section \<open>Cosine similarity\<close>

definition dotp :: "real list \<Rightarrow> real list \<Rightarrow> real" where
  "dotp a b = sum_list (map2 (*) a b)"

lemma dotp_simps [simp]: "dotp [] b = 0" "dotp a [] = 0" "dotp (x # xs) (y # ys) = x * y + dotp xs ys"
  by (simp_all add: dotp_def)

lemma cosineLoop_eq: "length a = length b \<Longrightarrow>
    cosineLoop a b (d, p, q) = (d + dotp a b, p + dotp a a, q + dotp b b)"
  by (induction a b arbitrary: d p q rule: list_induct2) auto

lemma dotp_self: "0 \<le> dotp a a"
  by (induction a) auto

lemma dotp_square: "length a = length b \<Longrightarrow>
    0 \<le> p * p * dotp a a - 2 * p * q * dotp a b + q * q * dotp b b"
proof (induction a b rule: list_induct2)
  case (Cons x xs y ys)
  have "0 \<le> (p * x - q * y) * (p * x - q * y)" by (rule zero_le_square)
  with Cons.IH show ?case by (simp add: algebra_simps)
qed simp

lemma cauchy_schwarz:
  assumes "length a = length b"
  shows "dotp a b * dotp a b \<le> dotp a a * dotp b b"
proof (cases "dotp b b = 0")
  case True
  have "0 \<le> 1 * 1 * dotp a a - 2 * 1 * q * dotp a b + q * q * 0" for q
    using dotp_square [OF assms, of 1 q] by (simp only: True)
  then have sq: "2 * q * dotp a b \<le> dotp a a" for q by simp
  have "dotp a b = 0"
  proof (rule ccontr)
    assume "dotp a b \<noteq> 0"
    with sq [of "(dotp a a + 1) / (2 * dotp a b)"] show False by simp
  qed
  then show ?thesis by (simp add: True)
next
  case False
  with dotp_self [of b] have "0 < dotp b b" by linarith
  moreover have "0 \<le> dotp b b * (dotp a a * dotp b b - dotp a b * dotp a b)"
    using dotp_square [OF assms, of "dotp b b" "dotp a b"] by (simp add: algebra_simps)
  ultimately show ?thesis by (simp add: zero_le_mult_iff)
qed

lemma cosine_bounds:
  assumes "length a = length b"
  shows "\<bar>cosine a b\<bar> \<le> 1"
proof -
  have "\<bar>dotp a b\<bar> \<le> sqrt (dotp a a * dotp b b)"
    using real_sqrt_le_mono [OF cauchy_schwarz [OF assms]] by simp
  then show ?thesis
    using dotp_self [of a] dotp_self [of b]
    by (auto simp: cosine_def cosineLoop_eq [OF assms] abs_mult divide_le_eq_1)
qed

section \<open>Search\<close>

text \<open>A search returns, best first and at most \<open>Limit\<close> of them, memories of the asking tenant that
  its session, project or workflow may see and that were made with the same embedding model, each
  with a score between -1 and 1; every memory it may see but that is not returned scores no
  better than any that is.\<close>

theorem SearchMemories_best:
  "let hits = SearchMemories m q;
       may = filter (\<lambda>x. query_visible q x \<and> length (mem_Embedding x) = length (mq_Embedding q)) (ms_memories m)
   in sorted_wrt (\<lambda>a b. mh_Score a \<ge> mh_Score b) hits \<and>
      (mq_Limit q \<le> 0 \<or> int (length hits) \<le> mq_Limit q) \<and>
      list_all (\<lambda>h. \<bar>mh_Score h\<bar> \<le> 1 \<and> mh_Score h = cosine (mem_Embedding (mh_Memory h)) (mq_Embedding q) \<and>
        mem_TenantID (mh_Memory h) = mq_TenantID q) hits \<and>
      (\<exists>rest. mset (map mh_Memory hits) + mset rest = mset may \<and>
        list_all (\<lambda>h. list_all (\<lambda>x. cosine (mem_Embedding x) (mq_Embedding q) \<le> mh_Score h) rest) hits)"
proof -
  let ?may = "filter (\<lambda>x. query_visible q x \<and> length (mem_Embedding x) = length (mq_Embedding q)) (ms_memories m)"
  let ?hit = "\<lambda>mem. \<lparr>mh_Memory = mem, mh_Score = cosine (mem_Embedding mem) (mq_Embedding q)\<rparr>"
  let ?all = "sort_key (\<lambda>h. - mh_Score h) (map ?hit ?may)"
  let ?n = "if mq_Limit q > 0 then nat (mq_Limit q) else length ?all"
  have hits: "SearchMemories m q = take ?n ?all"
    by (auto simp: SearchMemories_def Let_def)
  have "sorted (map (\<lambda>h. - mh_Score h) ?all)" by (rule sorted_sort_key)
  then have ord: "sorted_wrt (\<lambda>a b. mh_Score a \<ge> mh_Score b) ?all"
    by (simp only: sorted_wrt_map sorted_map neg_le_iff_le) 
  then have ord': "sorted_wrt (\<lambda>a b. mh_Score a \<ge> mh_Score b) (take ?n ?all @ drop ?n ?all)"
    by (simp only: append_take_drop_id)
  have elem: "\<bar>mh_Score h\<bar> \<le> 1 \<and> mh_Score h = cosine (mem_Embedding (mh_Memory h)) (mq_Embedding q) \<and>
      mem_TenantID (mh_Memory h) = mq_TenantID q" if "h \<in> set ?all" for h
    using that cosine_bounds by (auto simp: query_visible_def split: if_splits)
  let ?rest = "map mh_Memory (drop ?n ?all)"
  have "mset (map mh_Memory (take ?n ?all)) + mset ?rest = mset (map mh_Memory (take ?n ?all @ drop ?n ?all))"
    by (simp only: map_append mset_append)
  also have "\<dots> = mset (map mh_Memory ?all)" by (simp only: append_take_drop_id)
  also have "\<dots> = mset ?may" by (simp add: multiset.map_comp comp_def)
  finally have parts: "mset (map mh_Memory (take ?n ?all)) + mset ?rest = mset ?may" .
  have less: "cosine (mem_Embedding x) (mq_Embedding q) \<le> mh_Score h"
    if h: "h \<in> set (take ?n ?all)" and x: "x \<in> set ?rest" for h x
  proof -
    obtain h' where h': "h' \<in> set (drop ?n ?all)" "x = mh_Memory h'"
      using x unfolding set_map by blast
    then have "mh_Score h' \<le> mh_Score h"
      using ord' h by (simp only: sorted_wrt_append)
    with elem [OF in_set_dropD [OF h'(1)]] h'(2) show ?thesis by simp
  qed
  show ?thesis
    unfolding Let_def hits
  proof (intro conjI exI [of _ ?rest])
    show "sorted_wrt (\<lambda>a b. mh_Score a \<ge> mh_Score b) (take ?n ?all)"
      using ord' by (simp only: sorted_wrt_append)
    show "mq_Limit q \<le> 0 \<or> int (length (take ?n ?all)) \<le> mq_Limit q" by auto
    show "list_all (\<lambda>h. \<bar>mh_Score h\<bar> \<le> 1 \<and> mh_Score h = cosine (mem_Embedding (mh_Memory h)) (mq_Embedding q) \<and>
        mem_TenantID (mh_Memory h) = mq_TenantID q) (take ?n ?all)"
      unfolding list_all_iff by (rule ballI) (rule elem, erule in_set_takeD)
    show "mset (map mh_Memory (take ?n ?all)) + mset ?rest = mset ?may" by (rule parts)
    show "list_all (\<lambda>h. list_all (\<lambda>x. cosine (mem_Embedding x) (mq_Embedding q) \<le> mh_Score h) ?rest) (take ?n ?all)"
      using less unfolding list_all_iff by blast
  qed
qed

text \<open>Saving several memories saves all of them, under the IDs it returns, or, when one of them is
  invalid, none.\<close>

theorem PutMemories_all_or_none:
  "case PutMemories m mems of
     (m', Inl e) \<Rightarrow> m' = m \<and> e = Sentinel ErrInvalidMemory \<and> list_ex (\<lambda>x. Memory_Validate (fst x) \<noteq> None) mems
   | (m', Inr ids) \<Rightarrow> list_all (\<lambda>x. Memory_Validate (fst x) = None) mems \<and>
       (\<exists>new. ms_memories m' = ms_memories m @ new \<and> map mem_ID new = ids \<and>
          map mem_Content new = map (\<lambda>x. mem_Content (fst x)) mems)"
proof -
  have none: "validateAll ms = None \<longleftrightarrow> list_all (\<lambda>x. Memory_Validate x = None) ms" for ms
    by (induction ms) (auto split: option.splits)
  have inv: "validateAll ms = Some e \<Longrightarrow> e = Sentinel ErrInvalidMemory" for ms e
    by (induction ms) (auto simp: Memory_Validate_def split: option.splits if_splits)
  have content: "mem_Content (filledMemory x) = mem_Content (fst x)" for x
    by (cases x) (simp add: filledMemory_def Let_def)
  show ?thesis
  proof (cases "validateAll (map fst mems)")
    case None
    then show ?thesis
      using none [of "map fst mems"] content by (auto simp: PutMemories_def list_all_iff comp_def)
  next
    case (Some e)
    then show ?thesis
      using none [of "map fst mems"] inv [OF Some] by (auto simp: PutMemories_def list_all_iff list_ex_iff)
  qed
qed

end
