(* ===== verification/Retention.thy ===== *)
theory Retention
  imports Approvals EventLog Artifacts Memories
begin

text \<open>
  Retention in the in-memory store (\<open>store/retention.go\<close>): \<open>PurgeSessions\<close> deletes idle sessions with
  everything in them, \<open>PurgeMemories\<close> old memories.
\<close>

section \<open>Operations\<close>

text \<open>A lookup in \<open>last\<close> of a session that has no entry reads the zero time.\<close>

definition lastOf :: "(SessionID \<rightharpoonup> time) \<Rightarrow> SessionID \<Rightarrow> time" where
  "lastOf l sid = (case l sid of None \<Rightarrow> 0 | Some t \<Rightarrow> t)"

definition touch :: "SessionID \<times> time \<Rightarrow> (SessionID \<rightharpoonup> time) \<Rightarrow> (SessionID \<rightharpoonup> time)" where
  "touch = (\<lambda>(sid, t) l. if t > lastOf l sid then l(sid \<mapsto> t) else l)"

text \<open>The four loops that fill \<open>last\<close>; \<open>now\<close> is the clock's reading in the last of them.\<close>

definition lastActivity :: "MemStore \<Rightarrow> time \<Rightarrow> (SessionID \<rightharpoonup> time)" where
  "lastActivity m now =
    (let l1 = map_of (map (\<lambda>(sid, s). (sid, se_CreatedAt s)) (ms_sessions m));
         l2 = fold touch (map (\<lambda>ev. (ev_SessionID ev, ev_RecordedAt ev)) (ms_events m)) l1;
         l3 = fold touch (map (\<lambda>mem. (mem_SessionID mem, mem_CreatedAt mem))
                (filter (\<lambda>mem. mem_Scope mem = MemorySession) (ms_memories m))) l2
     in fold (\<lambda>r l. if \<not> Terminal (ru_Status r) then l(ru_SessionID r \<mapsto> now) else l) (mvals (ms_runs m)) l3)"

text \<open>
  The loop over \<open>last\<close> keeps the sessions that exist; every session has an entry in \<open>last\<close>, so it
  selects among all sessions.
\<close>

definition toPurge :: "MemStore \<Rightarrow> time \<Rightarrow> time \<Rightarrow> SessionID list" where
  "toPurge m idleSince now =
    filter (\<lambda>sid. lastOf (lastActivity m now) sid < idleSince) (map fst (ms_sessions m))"

definition PurgeSessions :: "MemStore \<Rightarrow> time \<Rightarrow> time \<Rightarrow> MemStore \<times> int" where
  "PurgeSessions m idleSince now =
    (let purge = toPurge m idleSince now;
         gone = filter (\<lambda>(rid, r). ru_SessionID r \<in> set purge) (ms_runs m);
         runs = map fst gone;
         keys = map (\<lambda>(rid, r). idemKey (ru_TenantID r) (ru_IdempotencyKey r))
                  (filter (\<lambda>(rid, r). ru_IdempotencyKey r \<noteq> []) gone)
     in (m\<lparr>ms_runs := mdel_where (\<lambda>rid r. ru_SessionID r \<in> set purge) (ms_runs m),
           ms_runSeq := fold (\<lambda>rid f. f(rid := None)) runs (ms_runSeq m),
           ms_runByIdem := fold (\<lambda>k f. f(k := None)) keys (ms_runByIdem m),
           ms_tasks := mdel_where (\<lambda>k t. ta_RunID t \<in> set runs) (ms_tasks m),
           ms_approvals := mdel_where (\<lambda>k e. ap_RunID (ae_approval e) \<in> set runs) (ms_approvals m),
           ms_artifacts := mdel_where (\<lambda>k a. ar_SessionID a \<in> set purge) (ms_artifacts m),
           ms_events := filter (\<lambda>ev. ev_SessionID ev \<notin> set purge) (ms_events m),
           ms_memories := filter (\<lambda>mem. \<not> (mem_Scope mem = MemorySession \<and> mem_SessionID mem \<in> set purge))
             (ms_memories m),
           ms_sessions := fold mdel purge (ms_sessions m),
           ms_members := fold (\<lambda>sid f. f(sid := None)) purge (ms_members m),
           ms_messages := fold (\<lambda>sid f. f(sid := None)) purge (ms_messages m),
           ms_sessionSeq := fold (\<lambda>sid f. f(sid := None)) purge (ms_sessionSeq m)\<rparr>,
         int (length purge)))"

definition PurgeMemories :: "MemStore \<Rightarrow> time \<Rightarrow> MemStore \<times> int" where
  "PurgeMemories m before =
    (let kept = filter (\<lambda>mem. \<not> mem_CreatedAt mem < before) (ms_memories m)
     in (m\<lparr>ms_memories := kept\<rparr>, int (length (ms_memories m)) - int (length kept)))"

section \<open>Which sessions are idle\<close>

lemma lastOf_touch: "lastOf (touch (sid, t) l) x = (if x = sid then max (lastOf l x) t else lastOf l x)"
  by (simp add: touch_def lastOf_def max_def)

lemma lastOf_touches: "lastOf (fold touch xs l) x < b \<longleftrightarrow>
    lastOf l x < b \<and> list_all (\<lambda>(sid, t). sid \<noteq> x \<or> t < b) xs"
proof (induction xs arbitrary: l)
  case (Cons p xs)
  show ?case by (cases p) (auto simp: Cons.IH lastOf_touch)
qed simp

lemma lastOf_runs: "lastOf (fold (\<lambda>r l. if \<not> Terminal (ru_Status r) then l(ru_SessionID r \<mapsto> now) else l) rs l) x =
    (if list_ex (\<lambda>r. \<not> Terminal (ru_Status r) \<and> ru_SessionID r = x) rs then now else lastOf l x)"
  by (induction rs arbitrary: l) (auto simp: lastOf_def)

lemma map_of_map_snd: "map_of (map (\<lambda>(k, v). (k, f v)) xs) k = map_option f (map_of xs k)"
  by (induction xs) auto

text \<open>Nothing happened in the session since \<open>t\<close> and nothing is under way.\<close>

definition idle :: "MemStore \<Rightarrow> time \<Rightarrow> SessionID \<Rightarrow> bool" where
  "idle m t sid \<longleftrightarrow> (case map_of (ms_sessions m) sid of None \<Rightarrow> False | Some s \<Rightarrow> se_CreatedAt s < t) \<and>
     list_all (\<lambda>ev. ev_SessionID ev \<noteq> sid \<or> ev_RecordedAt ev < t) (ms_events m) \<and>
     list_all (\<lambda>mem. mem_Scope mem \<noteq> MemorySession \<or> mem_SessionID mem \<noteq> sid \<or> mem_CreatedAt mem < t) (ms_memories m) \<and>
     list_all (\<lambda>r. Terminal (ru_Status r) \<or> ru_SessionID r \<noteq> sid) (mvals (ms_runs m))"

lemma toPurge_idle:
  assumes "idleSince \<le> now"
  shows "sid \<in> set (toPurge m idleSince now) \<longleftrightarrow> idle m idleSince sid"
proof -
  have known: "sid \<in> set (map fst (ms_sessions m)) \<longleftrightarrow> map_of (ms_sessions m) sid \<noteq> None"
    by (simp add: map_of_eq_None_iff)
  have runs: "\<not> list_ex (\<lambda>r. \<not> Terminal (ru_Status r) \<and> ru_SessionID r = sid) rs \<longleftrightarrow>
      list_all (\<lambda>r. Terminal (ru_Status r) \<or> ru_SessionID r \<noteq> sid) rs" for rs
    by (induction rs) auto
  have mems: "list_all (\<lambda>(s, t). s \<noteq> sid \<or> t < idleSince) (map (\<lambda>mem. (mem_SessionID mem, mem_CreatedAt mem))
        (filter (\<lambda>mem. mem_Scope mem = MemorySession) ms)) \<longleftrightarrow>
      list_all (\<lambda>mem. mem_Scope mem \<noteq> MemorySession \<or> mem_SessionID mem \<noteq> sid \<or> mem_CreatedAt mem < idleSince) ms" for ms
    by (induction ms) auto
  have evs: "list_all (\<lambda>(s, t). s \<noteq> sid \<or> t < idleSince) (map (\<lambda>ev. (ev_SessionID ev, ev_RecordedAt ev)) es) \<longleftrightarrow>
      list_all (\<lambda>ev. ev_SessionID ev \<noteq> sid \<or> ev_RecordedAt ev < idleSince) es" for es
    by (induction es) auto
  have "lastOf (lastActivity m now) sid < idleSince \<longleftrightarrow>
      lastOf (map_of (map (\<lambda>(sid, s). (sid, se_CreatedAt s)) (ms_sessions m))) sid < idleSince \<and>
      list_all (\<lambda>ev. ev_SessionID ev \<noteq> sid \<or> ev_RecordedAt ev < idleSince) (ms_events m) \<and>
      list_all (\<lambda>mem. mem_Scope mem \<noteq> MemorySession \<or> mem_SessionID mem \<noteq> sid \<or> mem_CreatedAt mem < idleSince) (ms_memories m) \<and>
      list_all (\<lambda>r. Terminal (ru_Status r) \<or> ru_SessionID r \<noteq> sid) (mvals (ms_runs m))"
    using assms unfolding lastActivity_def Let_def lastOf_runs
    by (simp only: lastOf_touches mems evs runs [symmetric] split: if_split) auto
  moreover have "lastOf (map_of (map (\<lambda>(sid, s). (sid, se_CreatedAt s)) (ms_sessions m))) sid =
      (case map_of (ms_sessions m) sid of None \<Rightarrow> 0 | Some s \<Rightarrow> se_CreatedAt s)"
    by (simp add: lastOf_def map_of_map_snd split: option.splits)
  ultimately show ?thesis
    by (cases "map_of (ms_sessions m) sid") (auto simp: toPurge_def idle_def known simp del: set_map)
qed

section \<open>What a purge leaves\<close>

lemma fold_delete: "fold (\<lambda>k f. f(k := None)) ks f x = (if x \<in> set ks then None else f x)"
  by (induction ks arbitrary: f) auto

lemma map_of_fold_mdel: "map_of (fold mdel ks m) x = (if x \<in> set ks then None else map_of m x)"
  by (induction ks arbitrary: m) (auto simp: go_simps)

lemma wf_map_fold_mdel: "wf_map m \<Longrightarrow> wf_map (fold mdel ks m)"
  by (induction ks arbitrary: m) auto

lemma distinct_toPurge: "wf_map (ms_sessions m) \<Longrightarrow> distinct (toPurge m t now)"
  by (simp add: toPurge_def wf_map_def)

text \<open>The objects of a store lie in sessions: each event and artifact of a run in the run's session.\<close>

definition filed :: "MemStore \<Rightarrow> bool" where
  "filed m \<longleftrightarrow> wf_map (ms_runs m) \<and>
     list_all (\<lambda>ev. ev_RunID ev = [] \<or> map_option ru_SessionID (map_of (ms_runs m) (ev_RunID ev)) = Some (ev_SessionID ev))
       (ms_events m)"

lemma PurgeSessions_fields:
  assumes "PurgeSessions m t now = (m', n)"
  defines "gone \<equiv> set (toPurge m t now)"
  shows "ms_runs m' = mdel_where (\<lambda>rid r. ru_SessionID r \<in> gone) (ms_runs m)"
    "ms_sessions m' = fold mdel (toPurge m t now) (ms_sessions m)"
    "ms_members m' = (\<lambda>sid. if sid \<in> gone then None else ms_members m sid)"
    "ms_messages m' = (\<lambda>sid. if sid \<in> gone then None else ms_messages m sid)"
    "ms_sessionSeq m' = (\<lambda>sid. if sid \<in> gone then None else ms_sessionSeq m sid)"
    "ms_runSeq m' = (\<lambda>rid. if \<exists>r. (rid, r) \<in> set (ms_runs m) \<and> ru_SessionID r \<in> gone then None else ms_runSeq m rid)"
    "ms_runByIdem m' = (\<lambda>k. if \<exists>rid r. (rid, r) \<in> set (ms_runs m) \<and> ru_SessionID r \<in> gone \<and>
        ru_IdempotencyKey r \<noteq> [] \<and> k = idemKey (ru_TenantID r) (ru_IdempotencyKey r) then None else ms_runByIdem m k)"
    "ms_artifacts m' = mdel_where (\<lambda>k a. ar_SessionID a \<in> gone) (ms_artifacts m)"
    "ms_events m' = filter (\<lambda>ev. ev_SessionID ev \<notin> gone) (ms_events m)"
    "ms_memories m' = filter (\<lambda>mem. \<not> (mem_Scope mem = MemorySession \<and> mem_SessionID mem \<in> gone)) (ms_memories m)"
    "ms_approvals m' = mdel_where (\<lambda>k e. \<exists>r. (ap_RunID (ae_approval e), r) \<in> set (ms_runs m) \<and> ru_SessionID r \<in> gone) (ms_approvals m)"
    "ms_tasks m' = mdel_where (\<lambda>k e. \<exists>r. (ta_RunID e, r) \<in> set (ms_runs m) \<and> ru_SessionID r \<in> gone) (ms_tasks m)"
    "n = int (length (toPurge m t now))"
proof -
  have mem: "x \<in> set (map fst (filter (\<lambda>(rid, r). ru_SessionID r \<in> gone) (ms_runs m))) \<longleftrightarrow>
      (\<exists>r. (x, r) \<in> set (ms_runs m) \<and> ru_SessionID r \<in> gone)" for x
    by (auto simp: image_iff)
  have keys: "k \<in> set (map (\<lambda>(rid, r). idemKey (ru_TenantID r) (ru_IdempotencyKey r))
        (filter (\<lambda>(rid, r). ru_IdempotencyKey r \<noteq> []) (filter (\<lambda>(rid, r). ru_SessionID r \<in> gone) (ms_runs m)))) \<longleftrightarrow>
      (\<exists>rid r. (rid, r) \<in> set (ms_runs m) \<and> ru_SessionID r \<in> gone \<and> ru_IdempotencyKey r \<noteq> [] \<and>
        k = idemKey (ru_TenantID r) (ru_IdempotencyKey r))" for k
    by (auto simp: image_iff)
  show "ms_runs m' = mdel_where (\<lambda>rid r. ru_SessionID r \<in> gone) (ms_runs m)"
    "ms_sessions m' = fold mdel (toPurge m t now) (ms_sessions m)"
    "ms_members m' = (\<lambda>sid. if sid \<in> gone then None else ms_members m sid)"
    "ms_messages m' = (\<lambda>sid. if sid \<in> gone then None else ms_messages m sid)"
    "ms_sessionSeq m' = (\<lambda>sid. if sid \<in> gone then None else ms_sessionSeq m sid)"
    "ms_artifacts m' = mdel_where (\<lambda>k a. ar_SessionID a \<in> gone) (ms_artifacts m)"
    "ms_events m' = filter (\<lambda>ev. ev_SessionID ev \<notin> gone) (ms_events m)"
    "ms_memories m' = filter (\<lambda>mem. \<not> (mem_Scope mem = MemorySession \<and> mem_SessionID mem \<in> gone)) (ms_memories m)"
    "n = int (length (toPurge m t now))"
    using assms(1) by (auto simp: PurgeSessions_def Let_def gone_def fold_delete fun_eq_iff)
  show "ms_runSeq m' = (\<lambda>rid. if \<exists>r. (rid, r) \<in> set (ms_runs m) \<and> ru_SessionID r \<in> gone then None else ms_runSeq m rid)"
    "ms_approvals m' = mdel_where (\<lambda>k e. \<exists>r. (ap_RunID (ae_approval e), r) \<in> set (ms_runs m) \<and> ru_SessionID r \<in> gone) (ms_approvals m)"
    "ms_tasks m' = mdel_where (\<lambda>k e. \<exists>r. (ta_RunID e, r) \<in> set (ms_runs m) \<and> ru_SessionID r \<in> gone) (ms_tasks m)"
    using assms(1) unfolding PurgeSessions_def Let_def gone_def [symmetric] mem fold_delete [abs_def] by auto
  show "ms_runByIdem m' = (\<lambda>k. if \<exists>rid r. (rid, r) \<in> set (ms_runs m) \<and> ru_SessionID r \<in> gone \<and>
        ru_IdempotencyKey r \<noteq> [] \<and> k = idemKey (ru_TenantID r) (ru_IdempotencyKey r) then None else ms_runByIdem m k)"
    using assms(1) unfolding PurgeSessions_def Let_def gone_def [symmetric] fold_delete [abs_def] keys by auto
qed

text \<open>A run of a session that is purged.\<close>

definition purgedRun :: "MemStore \<Rightarrow> time \<Rightarrow> RunID \<Rightarrow> bool" where
  "purgedRun m t rid \<longleftrightarrow> (case map_of (ms_runs m) rid of None \<Rightarrow> False | Some r \<Rightarrow> idle m t (ru_SessionID r))"

lemma purgedRun_in:
  assumes "wf_map (ms_runs m)"
  shows "(\<exists>r. (rid, r) \<in> set (ms_runs m) \<and> idle m t (ru_SessionID r)) \<longleftrightarrow> purgedRun m t rid"
proof -
  have "(rid, r) \<in> set (ms_runs m) \<longleftrightarrow> map_of (ms_runs m) rid = Some r" for r
    using assms by (simp add: wf_map_def)
  then show ?thesis by (simp add: purgedRun_def split: option.splits)
qed

text \<open>A purge deletes exactly the sessions in which nothing happened since the given time and
  no run is unfinished, and returns how many; with them go their runs, tasks, approvals, artifacts,
  messages, events and session-scoped memories, and nothing else does.\<close>

theorem PurgeSessions_exact:
  assumes "t \<le> now" and "wf_map (ms_sessions m)" and "wf_map (ms_runs m)" and "wf_map (ms_approvals m)"
    and "wf_map (ms_artifacts m)" and "wf_map (ms_tasks m)" and "PurgeSessions m t now = (m', n)"
  shows "n = int (card {sid. idle m t sid}) \<and>
    map_of (ms_sessions m') sid = (if idle m t sid then None else map_of (ms_sessions m) sid) \<and>
    ms_members m' sid = (if idle m t sid then None else ms_members m sid) \<and>
    messagesOf m' sid = (if idle m t sid then [] else messagesOf m sid) \<and>
    map_of (ms_runs m') rid = (if purgedRun m t rid then None else map_of (ms_runs m) rid) \<and>
    map_of (ms_tasks m') k = (case map_of (ms_tasks m) k of None \<Rightarrow> None
      | Some x \<Rightarrow> if purgedRun m t (ta_RunID x) then None else Some x) \<and>
    map_of (ms_approvals m') k = (case map_of (ms_approvals m) k of None \<Rightarrow> None
      | Some x \<Rightarrow> if purgedRun m t (ap_RunID (ae_approval x)) then None else Some x) \<and>
    map_of (ms_artifacts m') k = (case map_of (ms_artifacts m) k of None \<Rightarrow> None
      | Some x \<Rightarrow> if idle m t (ar_SessionID x) then None else Some x) \<and>
    ms_events m' = filter (\<lambda>ev. \<not> idle m t (ev_SessionID ev)) (ms_events m) \<and>
    ms_memories m' = filter (\<lambda>x. \<not> (mem_Scope x = MemorySession \<and> idle m t (mem_SessionID x))) (ms_memories m)"
proof -
  note f = PurgeSessions_fields [OF assms(7), unfolded toPurge_idle [OF assms(1)]]
  have "set (toPurge m t now) = {sid. idle m t sid}"
    using toPurge_idle [OF assms(1)] by auto
  with distinct_card [OF distinct_toPurge [OF assms(2)], of t now]
  have "n = int (card {sid. idle m t sid})" by (simp add: f)
  moreover have "map_of (ms_sessions m') sid = (if idle m t sid then None else map_of (ms_sessions m) sid)"
    by (simp add: f map_of_fold_mdel toPurge_idle [OF assms(1)])
  moreover have "map_of (ms_runs m') rid = (if purgedRun m t rid then None else map_of (ms_runs m) rid)"
    by (simp add: f map_of_mdel_where [OF assms(3)] purgedRun_def split: option.splits)
  moreover have "map_of (ms_tasks m') k = (case map_of (ms_tasks m) k of None \<Rightarrow> None
      | Some x \<Rightarrow> if purgedRun m t (ta_RunID x) then None else Some x)"
    unfolding f(12) purgedRun_in [OF assms(3)] by (rule map_of_mdel_where [OF assms(6)])
  moreover have "map_of (ms_approvals m') k = (case map_of (ms_approvals m) k of None \<Rightarrow> None
      | Some x \<Rightarrow> if purgedRun m t (ap_RunID (ae_approval x)) then None else Some x)"
    unfolding f(11) purgedRun_in [OF assms(3)] by (rule map_of_mdel_where [OF assms(4)])
  moreover have "map_of (ms_artifacts m') k = (case map_of (ms_artifacts m) k of None \<Rightarrow> None
      | Some x \<Rightarrow> if idle m t (ar_SessionID x) then None else Some x)"
    unfolding f(8) by (rule map_of_mdel_where [OF assms(5)])
  moreover have "messagesOf m' sid = (if idle m t sid then [] else messagesOf m sid)"
    by (simp add: messagesOf_def f(4))
  ultimately show ?thesis
    using f(3,9,10) by simp
qed

theorem PurgeSessions_exact_witness:
  "\<exists>m m' n. PurgeSessions m 5 20 = (m', n) \<and> map_of (ms_sessions m') ''old'' = None \<and>
     map_option se_CreatedAt (map_of (ms_sessions m') ''new'') = Some 9 \<and> ms_events m' = []"
proof -
  let ?m = "NewMemStore\<lparr>ms_sessions := [(''old'', Session0\<lparr>se_CreatedAt := 1\<rparr>), (''new'', Session0\<lparr>se_CreatedAt := 9\<rparr>)],
      ms_events := [Event0\<lparr>ev_SessionID := ''old'', ev_RecordedAt := 4\<rparr>]\<rparr>"
  obtain m' n where p: "PurgeSessions ?m 5 20 = (m', n)" by (cases "PurgeSessions ?m 5 20")
  have wf: "wf_map (ms_sessions ?m)" "wf_map (ms_runs ?m)" "wf_map (ms_approvals ?m)" "wf_map (ms_artifacts ?m)"
    "wf_map (ms_tasks ?m)" by (simp_all add: wf_map_def NewMemStore_def)
  have idle: "idle ?m 5 ''old''" "\<not> idle ?m 5 ''new''"
    by (simp_all add: idle_def NewMemStore_def)
  have le: "(5::time) \<le> 20" by simp
  note exact = PurgeSessions_exact [OF le wf p]
  have "map_of (ms_sessions m') ''old'' = None" using exact [of "''old''" "[]" "[]"] idle by simp
  moreover have "map_option se_CreatedAt (map_of (ms_sessions m') ''new'') = Some 9"
    using exact [of "''new''" "[]" "[]"] idle by simp
  moreover have "ms_events m' = []" using exact [of "''old''" "[]" "[]"] idle by simp
  ultimately show ?thesis using p by blast
qed

section \<open>Invariants\<close>

lemma sessions_ok_Purge:
  assumes "sessions_ok m" and "PurgeSessions m t now = (m', n)"
  shows "sessions_ok m'"
proof -
  note f = PurgeSessions_fields [OF assms(2)]
  have wf: "wf_map (ms_sessions m)" using assms(1) by (simp add: sessions_ok_def)
  show ?thesis
    unfolding sessions_ok_def
  proof (intro conjI allI impI)
    show "wf_map (ms_sessions m')" unfolding f(2) by (rule wf_map_fold_mdel [OF wf])
    fix sid
    have "ms_members m sid = None \<longleftrightarrow> map_of (ms_sessions m) sid = None"
      using assms(1) by (simp add: sessions_ok_def)
    then show "ms_members m' sid = None \<longleftrightarrow> map_of (ms_sessions m') sid = None"
      by (simp add: f(2,3) map_of_fold_mdel)
  next
    fix sid s assume "map_of (ms_sessions m') sid = Some s"
    then have s: "map_of (ms_sessions m) sid = Some s" "membersOf m' sid = membersOf m sid"
      by (auto simp: f(2,3) map_of_fold_mdel membersOf_def split: if_splits)
    from sessions_okD [OF assms(1) s(1)] show "se_ID s = sid" "wf_map (membersOf m' sid)"
      "\<And>p. p \<in> set (membersOf m' sid) \<Longrightarrow> member_ok s p" unfolding s(2) by auto
  qed
qed

lemma approvals_ok_Purge:
  assumes "approvals_ok m" and "PurgeSessions m t now = (m', n)"
  shows "approvals_ok m'"
  using assms(1) unfolding approvals_ok_def PurgeSessions_fields(11) [OF assms(2)]
  by (auto simp: list_all_iff) (auto simp: mdel_where_def)

lemma filter_named: "filter (\<lambda>a. ar_TenantID a = t \<and> ar_SessionID a = sid \<and> ar_Name a = n)
    (mvals (mdel_where (\<lambda>k a. ar_SessionID a \<in> G) as)) =
    (if sid \<in> G then [] else filter (\<lambda>a. ar_TenantID a = t \<and> ar_SessionID a = sid \<and> ar_Name a = n) (mvals as))"
  by (induction as) (auto simp: mdel_where_def)

lemma artifacts_ok_Purge:
  assumes "artifacts_ok m" and "PurgeSessions m t now = (m', n)"
  shows "artifacts_ok m'"
proof -
  note f = PurgeSessions_fields(8) [OF assms(2)]
  have "named m' x y z = (if y \<in> set (toPurge m t now) then [] else named m x y z)" for x y z
    unfolding named_def f by (rule filter_named)
  with assms(1) show ?thesis
    unfolding artifacts_ok_def versions_eq by (auto simp: f list_all_iff) (auto simp: mdel_where_def)
qed

lemma idem_ok_Purge:
  assumes ok: "idem_ok m" and wf: "wf_map (ms_runs m)" and p: "PurgeSessions m t now = (m', n)"
  shows "idem_ok m'"
proof -
  note f = PurgeSessions_fields [OF p]
  have in_runs: "(rid, r) \<in> set (ms_runs m) \<longleftrightarrow> map_of (ms_runs m) rid = Some r" for rid r
    using wf by (simp add: wf_map_def)
  have runs: "map_of (ms_runs m') rid = Some r \<longleftrightarrow>
      map_of (ms_runs m) rid = Some r \<and> ru_SessionID r \<notin> set (toPurge m t now)" for rid r
    unfolding f(1) map_of_mdel_where [OF wf] by (auto split: option.splits)
  show ?thesis
    unfolding idem_ok_def
  proof (intro conjI allI impI)
    fix k rid assume k: "ms_runByIdem m' k = Some rid"
    then have "ms_runByIdem m k = Some rid" by (simp add: f(7) split: if_splits)
    from idem_okD(1) [OF ok this] obtain r where r: "map_of (ms_runs m) rid = Some r" "ru_IdempotencyKey r \<noteq> []"
      "k = idemKey (ru_TenantID r) (ru_IdempotencyKey r)" by blast
    with k have "ru_SessionID r \<notin> set (toPurge m t now)"
      by (auto simp: f(7) in_runs split: if_splits)
    with r show "\<exists>r. map_of (ms_runs m') rid = Some r \<and> ru_IdempotencyKey r \<noteq> [] \<and>
        k = idemKey (ru_TenantID r) (ru_IdempotencyKey r)" by (auto simp: runs)
  next
    fix rid r assume "map_of (ms_runs m') rid = Some r"
    then have r: "map_of (ms_runs m) rid = Some r" "ru_SessionID r \<notin> set (toPurge m t now)" by (simp_all add: runs)
    from idem_okD(2) [OF ok r(1)] show "ru_ID r = rid" "plain_tenant (ru_TenantID r)" by simp_all
    show "ru_IdempotencyKey r = [] \<or> ms_runByIdem m' (idemKey (ru_TenantID r) (ru_IdempotencyKey r)) = Some rid"
    proof (cases "ru_IdempotencyKey r = []")
      case False
      note key = idem_okD(3) [OF ok r(1) False]
      have "rid' = rid" if "map_of (ms_runs m) rid' = Some r'" "ru_IdempotencyKey r' \<noteq> []"
        "idemKey (ru_TenantID r) (ru_IdempotencyKey r) = idemKey (ru_TenantID r') (ru_IdempotencyKey r')" for rid' r'
        using idem_okD(3) [OF ok that(1,2)] key that(3) by simp
      with r have "\<not> (\<exists>rid r'. (rid, r') \<in> set (ms_runs m) \<and> ru_SessionID r' \<in> set (toPurge m t now) \<and>
          ru_IdempotencyKey r' \<noteq> [] \<and>
          idemKey (ru_TenantID r) (ru_IdempotencyKey r) = idemKey (ru_TenantID r') (ru_IdempotencyKey r'))"
        unfolding in_runs by (metis option.inject)
      with key show ?thesis by (simp only: f(7) if_False simp_thms)
    qed simp
  qed
qed

lemma log_ok_Purge:
  assumes ok: "log_ok m" and filed: "filed m" and p: "PurgeSessions m t now = (m', n)"
  shows "log_ok m'"
proof -
  note f = PurgeSessions_fields [OF p]
  let ?gone = "set (toPurge m t now)"
  have in_runs: "(rid, r) \<in> set (ms_runs m) \<longleftrightarrow> map_of (ms_runs m) rid = Some r" for rid r
    using filed by (simp add: wf_map_def filed_def)
  have seq: "seqOf (\<lambda>k. if P k then None else s k) x = (if P x then 0 else seqOf s x)" for P s x
    by (simp add: seqOf_def)
  show ?thesis
    unfolding log_ok_def
  proof (intro allI conjI impI)
    fix run :: RunID assume run: "run \<noteq> []"
    let ?P = "\<exists>r. (run, r) \<in> set (ms_runs m) \<and> ru_SessionID r \<in> ?gone"
    have sess: "ev_SessionID ev \<in> ?gone \<longleftrightarrow> ?P" if "ev \<in> set (runEvents m run)" for ev
      using that filed run by (auto simp: filed_def list_all_iff runEvents_def in_runs)
    have evs: "runEvents m' run = filter (\<lambda>ev. ev_SessionID ev \<notin> ?gone) (runEvents m run)"
      by (simp add: runEvents_def f(9) conj_commute)
    show "0 \<le> seqOf (ms_runSeq m') run" using log_okD(1) [OF ok run] by (simp add: f(6) seq)
    show "map ev_Sequence (runEvents m' run) = [1..seqOf (ms_runSeq m') run]"
    proof (cases ?P)
      case True
      then have "runEvents m' run = []" unfolding evs using sess by (simp add: filter_empty_conv)
      with True show ?thesis by (simp add: f(6) seq)
    next
      case False
      then have "runEvents m' run = runEvents m run" unfolding evs using sess by (simp add: filter_id_conv)
      with False log_okD(2) [OF ok run] show ?thesis by (simp only: f(6) seq if_False)
    qed
  next
    fix sid :: SessionID assume sid: "sid \<noteq> []"
    have evs: "sessionEvents m' sid = (if sid \<in> ?gone then [] else sessionEvents m sid)"
    proof -
      have "sessionEvents m' sid = filter (\<lambda>ev. sid \<notin> ?gone \<and> ev_SessionID ev = sid) (ms_events m)"
        unfolding sessionEvents_def f(9) filter_filter by (rule filter_cong) auto
      then show ?thesis by (simp add: sessionEvents_def)
    qed
    show "0 \<le> seqOf (ms_sessionSeq m') sid" using log_okD(3) [OF ok sid] by (simp add: f(5) seq)
    show "map ev_SessionSequence (sessionEvents m' sid) = [1..seqOf (ms_sessionSeq m') sid]"
      using log_okD(4) [OF ok sid] by (simp add: evs f(5) seq)
  qed
qed

text \<open>A purge leaves the store well formed: sessions and their members, idempotency keys,
  approvals and artifact versions stay consistent, and the runs and sessions that remain keep a gapless
  event numbering from one on.\<close>

theorem PurgeSessions_keeps_invariants:
  assumes "sessions_ok m" and "idem_ok m" and "approvals_ok m" and "artifacts_ok m" and "log_ok m"
    and "filed m" and "PurgeSessions m t now = (m', n)"
  shows "sessions_ok m' \<and> idem_ok m' \<and> approvals_ok m' \<and> artifacts_ok m' \<and> log_ok m'"
  using assms sessions_ok_Purge idem_ok_Purge approvals_ok_Purge artifacts_ok_Purge log_ok_Purge
  by (metis filed_def)

theorem PurgeSessions_keeps_invariants_witness:
  "sessions_ok (fst (PurgeSessions (fst (CreateSession NewMemStore Session0 ''s'' 1)) 5 20))"
proof -
  let ?m = "fst (CreateSession NewMemStore Session0 ''s'' 1)"
  have ok: "sessions_ok ?m" by (rule sessions_ok_ops(1) [OF sessions_ok_NewMemStore])
  have same: "ms_runs ?m = []" "ms_runByIdem ?m = Map.empty" "ms_approvals ?m = []" "ms_artifacts ?m = []"
    "ms_events ?m = []" "ms_runSeq ?m = Map.empty" "ms_sessionSeq ?m = Map.empty"
    by (simp_all add: CreateSession_def Let_def NewMemStore_def)
  have "idem_ok ?m" "approvals_ok ?m" "artifacts_ok ?m" "log_ok ?m" "filed ?m"
    by (simp_all add: idem_ok_def approvals_ok_def artifacts_ok_def log_ok_def filed_def same seqOf_def
        named_def ListArtifactVersions_def runEvents_def sessionEvents_def)
  with PurgeSessions_keeps_invariants [OF ok this surjective_pairing] show ?thesis by blast
qed

end
