(* ===== verification/Access.thy ===== *)
theory Access
  imports CoreTypes
begin

text \<open>
  Roles and visibilities (\<open>policy/access.go\<close>): what a tenant role and a session role let a
  principal do in a session, and which events each tenant role reads. Roles are Go strings, and
  any string may reach these functions.
\<close>

section \<open>Tenant roles\<close>

type_synonym Role = string

abbreviation RoleAdmin :: Role where "RoleAdmin \<equiv> ''admin''"
abbreviation RoleOperator :: Role where "RoleOperator \<equiv> ''operator''"
abbreviation RoleMember :: Role where "RoleMember \<equiv> ''member''"
abbreviation RoleViewer :: Role where "RoleViewer \<equiv> ''viewer''"

definition Role_Valid :: "Role \<Rightarrow> bool" where
  "Role_Valid r \<longleftrightarrow> r \<in> set [RoleAdmin, RoleOperator, RoleMember, RoleViewer]"

definition Operates :: "Role \<Rightarrow> bool" where
  "Operates r \<longleftrightarrow> r = RoleAdmin \<or> r = RoleOperator"

definition ManagesAgents :: "Role \<Rightarrow> bool" where
  "ManagesAgents r \<longleftrightarrow> r = RoleAdmin"

definition CreatesSessions :: "Role \<Rightarrow> bool" where
  "CreatesSessions r \<longleftrightarrow> Role_Valid r \<and> r \<noteq> RoleViewer"

section \<open>Session roles\<close>

type_synonym SessionRole = string

abbreviation SessionOwner :: SessionRole where "SessionOwner \<equiv> ''owner''"
abbreviation SessionMember :: SessionRole where "SessionMember \<equiv> ''member''"
abbreviation SessionViewer :: SessionRole where "SessionViewer \<equiv> ''viewer''"

definition SessionRole_Valid :: "SessionRole \<Rightarrow> bool" where
  "SessionRole_Valid r \<longleftrightarrow> r = SessionOwner \<or> r = SessionMember \<or> r = SessionViewer"

record SessionAccess =
  sa_Read :: bool
  sa_Write :: bool
  sa_Manage :: bool

definition Access :: "Role \<Rightarrow> SessionRole \<Rightarrow> SessionAccess" where
  "Access role participant =
    (if Operates role then \<lparr>sa_Read = True, sa_Write = True, sa_Manage = True\<rparr>
     else if participant = [] then \<lparr>sa_Read = False, sa_Write = False, sa_Manage = False\<rparr>
     else if role = RoleViewer then \<lparr>sa_Read = True, sa_Write = False, sa_Manage = False\<rparr>
     else if role = RoleMember then
       \<lparr>sa_Read = True, sa_Write = participant \<noteq> SessionViewer, sa_Manage = participant = SessionOwner\<rparr>
     else \<lparr>sa_Read = False, sa_Write = False, sa_Manage = False\<rparr>)"

section \<open>Visibility of events\<close>

type_synonym RoleVisibility = "(Role, Visibility list) gomap" \<comment> \<open>\<open>policy.Visibility\<close>\<close>

definition DefaultVisibility :: RoleVisibility where
  "DefaultVisibility =
    (let shared = [VisibilityPublic, VisibilityParticipant]
     in [(RoleViewer, shared), (RoleMember, shared),
         (RoleOperator, shared @ [VisibilityInternal, VisibilityAudit]),
         (RoleAdmin, shared @ [VisibilityInternal, VisibilityAudit, VisibilityHiddenReasoning])])"

fun validateVisibilities :: "Visibility list \<Rightarrow> goerr option" where
  "validateVisibilities [] = None"
| "validateVisibilities (v # vs) =
    (if v = VisibilityPublic \<or> v = VisibilityParticipant \<or> v = VisibilityInternal \<or>
        v = VisibilityHiddenReasoning \<or> v = VisibilityAudit
     then validateVisibilities vs
     else Some (new_error ''visibility: unknown visibility for role''))"

fun Visibility_Validate :: "RoleVisibility \<Rightarrow> goerr option" where
  "Visibility_Validate [] = None"
| "Visibility_Validate ((role, vs) # rest) =
    (if \<not> Role_Valid role then Some (new_error ''visibility: unknown role'')
     else case validateVisibilities vs of
       Some e \<Rightarrow> Some e
     | None \<Rightarrow> Visibility_Validate rest)"

text \<open>\<open>v[role]\<close> of a role that is missing is nil.\<close>

definition Allows :: "RoleVisibility \<Rightarrow> Role \<Rightarrow> Visibility \<Rightarrow> bool" where
  "Allows v role vis \<longleftrightarrow> (case map_of v role of None \<Rightarrow> False | Some vs \<Rightarrow> vis \<in> set vs)"

definition HiddenPayload :: "RoleVisibility \<Rightarrow> Role \<Rightarrow> bool" where
  "HiddenPayload v role \<longleftrightarrow> Allows v role VisibilityHiddenReasoning"

section \<open>Facts\<close>

named_theorems access_simps \<comment> \<open>unfold roles and access rights\<close>

declare Role_Valid_def [access_simps] Operates_def [access_simps] CreatesSessions_def [access_simps]
  Access_def [access_simps] SessionRole_Valid_def [access_simps]

lemma Access_nested:
  "sa_Manage (Access r p) \<Longrightarrow> sa_Write (Access r p)" "sa_Write (Access r p) \<Longrightarrow> sa_Read (Access r p)"
  by (auto simp: access_simps split: if_splits)

lemma Access_reads: "sa_Read (Access r p) \<longleftrightarrow> Operates r \<or> p \<noteq> [] \<and> (r = RoleViewer \<or> r = RoleMember)"
  by (simp add: access_simps)

lemma Role_Valid_cases: "Role_Valid r \<Longrightarrow> \<not> Operates r \<Longrightarrow> r = RoleViewer \<or> r = RoleMember"
  by (auto simp: access_simps)

lemma DefaultVisibility_valid: "Visibility_Validate DefaultVisibility = None"
  by (simp add: DefaultVisibility_def Let_def Role_Valid_def)

text \<open>By default each role reads what the one below it does, and only admins hidden reasoning.\<close>

lemma DefaultVisibility_nested:
  "Allows DefaultVisibility RoleViewer v \<longleftrightarrow> Allows DefaultVisibility RoleMember v"
  "Allows DefaultVisibility RoleMember v \<Longrightarrow> Allows DefaultVisibility RoleOperator v"
  "Allows DefaultVisibility RoleOperator v \<Longrightarrow> Allows DefaultVisibility RoleAdmin v"
  "HiddenPayload DefaultVisibility r \<longleftrightarrow> r = RoleAdmin"
  by (auto simp: DefaultVisibility_def Allows_def HiddenPayload_def Let_def)

end
