(* ===== verification/Auth.thy ===== *)
theory Auth
  imports Access
begin

text \<open>
  Who a request acts as (\<open>api/auth.go\<close>): identities, the header and API-key authenticators and
  the parser of key lists, with the functions of Go's \<open>strings\<close> they use. The parameter \<open>isUUID\<close>
  is \<open>uuid.Validate(s) == nil\<close> of the package \<open>github.com/google/uuid\<close>, and \<open>sha\<close> is
  \<open>sha256.Sum256\<close>.
\<close>

section \<open>Strings\<close>

text \<open>\<open>strings.Cut\<close>, \<open>strings.Split\<close> and \<open>strings.SplitN\<close> with a separator of one byte.\<close>

definition Cut :: "char \<Rightarrow> string \<Rightarrow> string \<times> string \<times> bool" where
  "Cut sep s = (case dropWhile (\<lambda>c. c \<noteq> sep) s of
     [] \<Rightarrow> (s, [], False)
   | _ # after \<Rightarrow> (takeWhile (\<lambda>c. c \<noteq> sep) s, after, True))"

fun Split :: "char \<Rightarrow> string \<Rightarrow> string list" where
  "Split sep [] = [[]]"
| "Split sep (c # cs) =
    (if c = sep then [] # Split sep cs
     else case Split sep cs of [] \<Rightarrow> [[c]] | p # ps \<Rightarrow> (c # p) # ps)"

fun SplitN :: "nat \<Rightarrow> char \<Rightarrow> string \<Rightarrow> string list" where
  "SplitN 0 sep s = []"
| "SplitN (Suc 0) sep s = [s]"
| "SplitN (Suc (Suc n)) sep s =
    (case Cut sep s of (before, after, found) \<Rightarrow>
       if found then before # SplitN (Suc n) sep after else [s])"

text \<open>
  \<open>strings.TrimSpace\<close>: \<open>spaces\<close> holds the UTF-8 encodings of the code points of
  \<open>unicode.IsSpace\<close>.
\<close>

definition spaces :: "string list" where
  "spaces = map (map char_of) ([[9], [10], [11], [12], [13], [32], [194, 133], [194, 160], [225, 154, 128],
     [226, 128, 128], [226, 128, 129], [226, 128, 130], [226, 128, 131], [226, 128, 132], [226, 128, 133],
     [226, 128, 134], [226, 128, 135], [226, 128, 136], [226, 128, 137], [226, 128, 138], [226, 128, 168],
     [226, 128, 169], [226, 128, 175], [226, 129, 159], [227, 128, 128 :: nat]])"

definition stripOne :: "(string \<Rightarrow> string) \<Rightarrow> string \<Rightarrow> string option" where
  "stripOne f s = (case filter (\<lambda>p. take (length p) s = f p) spaces of
     [] \<Rightarrow> None | p # _ \<Rightarrow> Some (drop (length p) s))"

fun strip :: "nat \<Rightarrow> (string \<Rightarrow> string) \<Rightarrow> string \<Rightarrow> string" where
  "strip 0 f s = s"
| "strip (Suc n) f s = (case stripOne f s of None \<Rightarrow> s | Some s' \<Rightarrow> strip n f s')"

definition TrimSpace :: "string \<Rightarrow> string" where
  "TrimSpace s = (let s' = strip (length s) id s in rev (strip (length s') rev (rev s')))"

text \<open>\<open>strings.EqualFold\<close> where one side is the ASCII text \<open>Bearer\<close>, whose letters fold to no others.\<close>

definition foldChar :: "char \<Rightarrow> char" where
  "foldChar c = (let n = of_char c :: nat in if 65 \<le> n \<and> n \<le> 90 then char_of (n + 32) else c)"

definition EqualFold :: "string \<Rightarrow> string \<Rightarrow> bool" where
  "EqualFold a b \<longleftrightarrow> map foldChar a = map foldChar b"

section \<open>Identities\<close>

record Identity =
  id_Tenant :: TenantID
  id_Principal :: PrincipalID
  id_Role :: Role

definition Identity_validate :: "(string \<Rightarrow> bool) \<Rightarrow> Identity \<Rightarrow> goerr option" where
  "Identity_validate isUUID i =
    (if \<not> isUUID (id_Tenant i) \<or> \<not> isUUID (id_Principal i)
     then Some (new_error ''tenant and principal IDs must be UUIDs'')
     else if \<not> Role_Valid (id_Role i) then Some (new_error ''role must be admin, operator, member or viewer'')
     else None)"

text \<open>What the authenticators read of a request; an absent header or parameter is empty.\<close>

record http_request =
  rq_Pattern :: string
  rq_Header :: "string \<Rightarrow> string"
  rq_Query :: "string \<Rightarrow> string"

definition defaultIdentity :: Identity where
  "defaultIdentity = \<lparr>id_Tenant = DefaultTenant, id_Principal = DefaultPrincipal, id_Role = RoleAdmin\<rparr>"

definition HeaderIdentity :: "(string \<Rightarrow> bool) \<Rightarrow> http_request \<Rightarrow> Identity \<times> goerr option" where
  "HeaderIdentity isUUID r =
    (let i0 = defaultIdentity;
         t = rq_Header r ''X-Tenant-ID'';
         i1 = (if t \<noteq> [] then i0\<lparr>id_Tenant := t\<rparr> else i0);
         p = rq_Header r ''X-Principal-ID'';
         i2 = (if p \<noteq> [] then i1\<lparr>id_Principal := p\<rparr> else i1);
         role = rq_Header r ''X-Role'';
         i3 = (if role \<noteq> [] then i2\<lparr>id_Role := role\<rparr> else i2)
     in (i3, Identity_validate isUUID i3))"

section \<open>API keys\<close>

definition streamRoute :: string where
  "streamRoute = ''GET /v1/runs/{rid}/stream''"

definition errUnauthenticated :: goerr where
  "errUnauthenticated = new_error ''missing or unknown API key''"

definition hashedKeys :: "(string \<Rightarrow> 'h) \<Rightarrow> (string, Identity) gomap \<Rightarrow> ('h \<rightharpoonup> Identity)" where
  "hashedKeys sha keys = fold (\<lambda>(k, i) m.
     m(sha k \<mapsto> (if id_Role i = [] then i\<lparr>id_Role := RoleMember\<rparr> else i))) keys Map.empty"

definition APIKeys :: "(string \<Rightarrow> 'h) \<Rightarrow> (string, Identity) gomap \<Rightarrow> http_request \<Rightarrow> goerr + Identity" where
  "APIKeys sha keys r =
    (let hashed = hashedKeys sha keys;
         (scheme, key0, ok0) = Cut (CHR '' '') (rq_Header r ''Authorization'');
         ok1 = (ok0 \<and> EqualFold scheme ''Bearer'');
         (key, ok) = (if \<not> ok1 \<and> rq_Pattern r = streamRoute then (rq_Query r ''access_token'', True)
                      else (key0, ok1))
     in case hashed (sha key) of
          None \<Rightarrow> Inl errUnauthenticated
        | Some i \<Rightarrow> if \<not> ok \<or> key = [] then Inl errUnauthenticated else Inr i)"

text \<open>One entry of the list: its role prefix, then its three parts.\<close>

definition roleAndRest :: "string \<Rightarrow> Role \<times> string" where
  "roleAndRest entry = (case Cut (CHR '':'') entry of (r, rest, ok) \<Rightarrow>
     if ok \<and> Role_Valid r then (r, rest) else (RoleMember, entry))"

fun parseEntries :: "(string \<Rightarrow> bool) \<Rightarrow> string list \<Rightarrow> (string, Identity) gomap
    \<Rightarrow> goerr + (string, Identity) gomap" where
  "parseEntries isUUID [] keys = Inr keys"
| "parseEntries isUUID (e # es) keys =
    (case roleAndRest (TrimSpace e) of (role, entry) \<Rightarrow>
     (case SplitN 3 (CHR '':'') entry of
        [a, b, c] \<Rightarrow>
          if a = [] \<or> b = [] \<or> c = [] then Inl (new_error ''API key entry: want [<role>:]<tenant>:<principal>:<key>'')
          else if map_of keys c \<noteq> None then Inl (new_error ''API key is listed twice'')
          else let i = \<lparr>id_Tenant = a, id_Principal = b, id_Role = role\<rparr>
               in (case Identity_validate isUUID i of
                     Some err \<Rightarrow> Inl (Errorf ''API key entry'' [err])
                   | None \<Rightarrow> parseEntries isUUID es (mput c i keys))
      | _ \<Rightarrow> Inl (new_error ''API key entry: want [<role>:]<tenant>:<principal>:<key>'')))"

definition ParseAPIKeys :: "(string \<Rightarrow> bool) \<Rightarrow> string \<Rightarrow> goerr + (string, Identity) gomap" where
  "ParseAPIKeys isUUID spec = parseEntries isUUID (Split (CHR '','') spec) []"

section \<open>Writing key lists\<close>

text \<open>A key list as an operator writes it, with every role given.\<close>

definition keyEntry :: "string \<times> Identity \<Rightarrow> string" where
  "keyEntry = (\<lambda>(k, i). id_Role i @ CHR '':'' # id_Tenant i @ CHR '':'' # id_Principal i @ CHR '':'' # k)"

fun joinEntries :: "string list \<Rightarrow> string" where
  "joinEntries [] = []"
| "joinEntries [e] = e"
| "joinEntries (e # es) = e @ CHR '','' # joinEntries es"

definition graphic :: "char \<Rightarrow> bool" where
  "graphic c \<longleftrightarrow> (let n = of_char c :: nat in 32 < n \<and> n < 127)"

text \<open>
  The separators cannot be quoted: no part contains a comma, only the key may contain a colon, and
  the key does not end in a space, which the parser would trim.
\<close>

definition writable :: "(string \<Rightarrow> bool) \<Rightarrow> string \<times> Identity \<Rightarrow> bool" where
  "writable isUUID = (\<lambda>(k, i). Identity_validate isUUID i = None \<and> id_Tenant i \<noteq> [] \<and> id_Principal i \<noteq> [] \<and>
     CHR '':'' \<notin> set (id_Tenant i @ id_Principal i) \<and> CHR '','' \<notin> set (id_Tenant i @ id_Principal i @ k) \<and>
     k \<noteq> [] \<and> graphic (last k))"

lemma Cut_found: "sep \<notin> set a \<Longrightarrow> Cut sep (a @ sep # b) = (a, b, True)"
  by (induction a) (auto simp: Cut_def split: list.splits)

lemma Split_no_sep: "sep \<notin> set a \<Longrightarrow> Split sep a = [a]"
  by (induction a) auto

lemma Split_sep: "sep \<notin> set a \<Longrightarrow> Split sep (a @ sep # b) = a # Split sep b"
  by (induction a) auto

lemma Split_joinEntries:
  "es \<noteq> [] \<Longrightarrow> list_all (\<lambda>e. CHR '','' \<notin> set e) es \<Longrightarrow> Split (CHR '','') (joinEntries es) = es"
  by (induction es rule: joinEntries.induct) (simp_all add: Split_no_sep Split_sep)

lemma graphic_not_space: "graphic c \<Longrightarrow> list_all (\<lambda>p. hd p \<noteq> c \<and> last p \<noteq> c \<and> p \<noteq> []) spaces"
  by (auto simp: graphic_def spaces_def Let_def)

lemma stripOne_graphic:
  assumes "s \<noteq> []" and "graphic (hd s)" and "f = id \<or> f = rev"
  shows "stripOne f s = None"
proof -
  have "take (length p) s \<noteq> f p" if "p \<in> set spaces" for p
  proof
    assume eq: "take (length p) s = f p"
    have p: "hd p \<noteq> hd s" "last p \<noteq> hd s" "p \<noteq> []"
      using graphic_not_space [OF assms(2)] that by (auto simp: list_all_iff)
    then have "hd (take (length p) s) = hd s" by (cases p; cases s) auto
    then show False using eq p assms(3) by (auto simp: hd_rev)
  qed
  then have "filter (\<lambda>p. take (length p) s = f p) spaces = []" by (simp add: filter_empty_conv)
  then show ?thesis by (simp add: stripOne_def)
qed

lemma strip_graphic: "s \<noteq> [] \<Longrightarrow> graphic (hd s) \<Longrightarrow> f = id \<or> f = rev \<Longrightarrow> strip n f s = s"
  by (cases n) (simp_all add: stripOne_graphic)

lemma TrimSpace_graphic: "s \<noteq> [] \<Longrightarrow> graphic (hd s) \<Longrightarrow> graphic (last s) \<Longrightarrow> TrimSpace s = s"
  by (simp add: TrimSpace_def strip_graphic hd_rev)

lemma Role_Valid_text: "Role_Valid r \<Longrightarrow> r \<noteq> [] \<and> graphic (hd r) \<and> CHR '':'' \<notin> set r \<and> CHR '','' \<notin> set r"
  by (auto simp: Role_Valid_def graphic_def)

lemma Identity_validate_None:
  "Identity_validate isUUID i = None \<longleftrightarrow> isUUID (id_Tenant i) \<and> isUUID (id_Principal i) \<and> Role_Valid (id_Role i)"
  by (auto simp: Identity_validate_def)

lemma roleAndRest_keyEntry: "Role_Valid (id_Role i) \<Longrightarrow> roleAndRest (keyEntry (k, i)) =
    (id_Role i, id_Tenant i @ CHR '':'' # id_Principal i @ CHR '':'' # k)"
  using Role_Valid_text [of "id_Role i"] by (simp add: roleAndRest_def keyEntry_def Cut_found)

lemma keyEntry_text:
  assumes "writable isUUID (k, i)"
  shows "TrimSpace (keyEntry (k, i)) = keyEntry (k, i)" and "CHR '','' \<notin> set (keyEntry (k, i))"
  using assms Role_Valid_text [of "id_Role i"]
  by (auto simp: writable_def keyEntry_def Identity_validate_None intro!: TrimSpace_graphic)

lemma parseEntries_written:
  assumes "list_all (writable isUUID) ks" and "distinct (map fst (keys @ ks))"
  shows "parseEntries isUUID (map keyEntry ks) keys = Inr (keys @ ks)"
  using assms
proof (induction ks arbitrary: keys)
  case Nil
  then show ?case by simp
next
  case (Cons p ks)
  obtain k i where p: "p = (k, i)" by (cases p)
  have w: "writable isUUID (k, i)" using Cons.prems p by simp
  have three: "SplitN 3 (CHR '':'') (id_Tenant i @ CHR '':'' # id_Principal i @ CHR '':'' # k) =
      [id_Tenant i, id_Principal i, k]"
    using w by (simp add: writable_def numeral_3_eq_3 Cut_found)
  have new: "map_of keys k = None" "mput k i keys = keys @ [(k, i)]"
    using Cons.prems p by (auto simp: map_of_eq_None_iff image_iff update_new)
  have role: "roleAndRest (keyEntry (k, i)) =
      (id_Role i, id_Tenant i @ CHR '':'' # id_Principal i @ CHR '':'' # k)"
    using w by (simp add: roleAndRest_keyEntry writable_def Identity_validate_None)
  have i: "\<lparr>id_Tenant = id_Tenant i, id_Principal = id_Principal i, id_Role = id_Role i\<rparr> = i" by simp
  show ?case
    using Cons.IH [of "keys @ [(k, i)]"] Cons.prems w p
    by (simp add: keyEntry_text(1) [OF w] role three new i writable_def)
qed

section \<open>The keys authenticate\<close>

text \<open>
  The key a request carries: that of a bearer header, or on the stream route without one the query
  parameter.
\<close>

definition presented :: "http_request \<Rightarrow> string" where
  "presented r = (case Cut (CHR '' '') (rq_Header r ''Authorization'') of (scheme, key, ok) \<Rightarrow>
     if ok \<and> EqualFold scheme ''Bearer'' then key
     else if rq_Pattern r = streamRoute then rq_Query r ''access_token'' else [])"

lemma hashedKeys_step: "fold (\<lambda>(k, i) m. m(sha k \<mapsto> g i)) ks m0 h =
    (case map_of (rev (map (\<lambda>(k, i). (sha k, g i)) ks)) h of None \<Rightarrow> m0 h | Some v \<Rightarrow> Some v)"
  by (induction ks arbitrary: m0) (auto simp: map_add_def split: option.splits)

lemma hashedKeys_eq:
  assumes "wf_map ks" and "inj_on sha (insert k (fst ` set ks))"
    and "\<And>k i. (k, i) \<in> set ks \<Longrightarrow> id_Role i \<noteq> []"
  shows "hashedKeys sha ks (sha k) = map_of ks k"
proof -
  let ?g = "\<lambda>i. if id_Role i = [] then i\<lparr>id_Role := RoleMember\<rparr> else i"
  let ?hs = "rev (map (\<lambda>(k, i). (sha k, ?g i)) ks)"
  have "distinct (map fst (map (\<lambda>(k, i). (sha k, ?g i)) ks))"
    using assms(1,2) by (simp add: wf_map_def comp_def split_def distinct_map inj_on_def)
  then have d: "distinct (map fst ?hs)" by (simp flip: rev_map)
  have "map_of ?hs (sha k) = map_of ks k"
  proof (cases "map_of ks k")
    case None
    have "sha k \<notin> fst ` set ?hs"
    proof
      assume "sha k \<in> fst ` set ?hs"
      then obtain k' i where k': "(k', i) \<in> set ks" "sha k' = sha k" by force
      then have "k' \<in> fst ` set ks" by force
      then have "k' = k" using assms(2) k'(2) by (auto simp: inj_on_def)
      then show False using None \<open>k' \<in> fst ` set ks\<close> by (simp add: map_of_eq_None_iff)
    qed
    then have "map_of ?hs (sha k) = None" by (rule iffD2 [OF map_of_eq_None_iff])
    then show ?thesis using None by simp
  next
    case (Some i)
    then have i: "(k, i) \<in> set ks" by (rule map_of_SomeD)
    then have "?g i = i" using assms(3) by auto
    then have "(sha k, i) \<in> set ?hs" using i by force
    then show ?thesis using Some d by (simp add: map_of_eq_Some_iff)
  qed
  then show ?thesis by (simp add: hashedKeys_def hashedKeys_step split: option.splits)
qed

lemma APIKeys_presented:
  "APIKeys sha keys r =
    (case hashedKeys sha keys (sha (presented r)) of
       None \<Rightarrow> Inl errUnauthenticated
     | Some i \<Rightarrow> if presented r = [] then Inl errUnauthenticated else Inr i)" if "hashedKeys sha keys (sha []) = None"
  using that by (auto simp: APIKeys_def presented_def split: prod.splits option.splits)

text \<open>A list of API keys, written with every role given, is read back as it was meant, and then
  a request is authenticated exactly when it carries one of the keys, in a bearer header or on the
  stream route in the query, as the identity of that key; any other request gets the one error.\<close>

theorem API_keys_authenticate:
  assumes "ks \<noteq> []" and "distinct (map fst ks)" and "list_all (writable isUUID) ks"
    and "inj_on sha (insert [] (insert (presented r) (fst ` set ks)))"
  shows "\<exists>keys. ParseAPIKeys isUUID (joinEntries (map keyEntry ks)) = Inr keys \<and>
    APIKeys sha keys r =
      (case map_of ks (presented r) of Some i \<Rightarrow> Inr i | None \<Rightarrow> Inl errUnauthenticated)"
proof (intro exI conjI)
  have commas: "list_all (\<lambda>e. CHR '','' \<notin> set e) (map keyEntry ks)"
    using assms(3) keyEntry_text(2) by (fastforce simp: list_all_iff)
  show "ParseAPIKeys isUUID (joinEntries (map keyEntry ks)) = Inr ks"
    using parseEntries_written [of isUUID ks "[]"] assms(1-3)
    by (simp add: ParseAPIKeys_def Split_joinEntries [OF _ commas])
  have roles: "id_Role i \<noteq> []" "k \<noteq> []" if "(k, i) \<in> set ks" for k i
    using assms(3) that Role_Valid_text
    by (fastforce simp: list_all_iff writable_def Identity_validate_None)+
  have eq: "hashedKeys sha ks (sha k) = map_of ks k" if "k = [] \<or> k = presented r" for k
    using that assms(2,4) by (intro hashedKeys_eq roles(1)) (auto simp: wf_map_def inj_on_def)
  have none: "map_of ks [] = None" using roles(2) by (force simp: map_of_eq_None_iff)
  show "APIKeys sha ks r = (case map_of ks (presented r) of Some i \<Rightarrow> Inr i | None \<Rightarrow> Inl errUnauthenticated)"
    using none by (auto simp: APIKeys_presented eq split: option.splits)
qed

definition sampleKeys :: "(string \<times> Identity) list" where
  "sampleKeys = [(''k:1'', \<lparr>id_Tenant = ''t'', id_Principal = ''p'', id_Role = RoleOperator\<rparr>),
     (''k2'', \<lparr>id_Tenant = ''u'', id_Principal = ''p'', id_Role = RoleViewer\<rparr>)]"

definition sampleRequest :: http_request where
  "sampleRequest = \<lparr>rq_Pattern = streamRoute, rq_Header = (\<lambda>_. []), rq_Query = (\<lambda>_. ''k2'')\<rparr>"

theorem API_keys_authenticate_witness:
  "\<exists>keys. ParseAPIKeys (\<lambda>_. True) (joinEntries (map keyEntry sampleKeys)) = Inr keys \<and>
    APIKeys id keys sampleRequest = Inr \<lparr>id_Tenant = ''u'', id_Principal = ''p'', id_Role = RoleViewer\<rparr>"
proof -
  have "presented sampleRequest = ''k2''"
    by (simp add: presented_def sampleRequest_def Cut_def)
  then show ?thesis
    using API_keys_authenticate [of sampleKeys "\<lambda>_. True" id sampleRequest]
    by (simp add: sampleKeys_def writable_def Identity_validate_None Role_Valid_def graphic_def)
qed

end
