(* ===== verification/ApiAccess.thy ===== *)
theory ApiAccess
  imports Auth Sessions Runs
begin

text \<open>
  Replies of the HTTP API and the checks that guard its routes (\<open>api/access.go\<close>), with the
  handlers of a session's participants. A handler is a function of the store, the caller's
  identity and what it reads of the request; it returns the reply and, where it writes, the new
  store. \<open>isUUID\<close> is \<open>uuid.Validate(s) == nil\<close>.
\<close>

section \<open>Replies and request bodies\<close>

datatype message = Literal string | ErrText goerr \<comment> \<open>a fixed text, or \<open>err.Error()\<close>\<close>

datatype 'a reply =
    Refused int string message \<comment> \<open>\<open>writeErr(w, status, code, msg)\<close>\<close>
  | Answered int 'a

text \<open>\<open>writeErr\<close> marks only 503 as retryable.\<close>

fun retryable :: "'a reply \<Rightarrow> bool" where
  "retryable (Refused status code msg) \<longleftrightarrow> status = 503"
| "retryable (Answered status x) \<longleftrightarrow> False"

text \<open>What \<open>json.Decoder.Decode\<close> makes of a request body: a value, or one of its errors.\<close>

datatype 'a body = Body 'a | BodyEOF | BodyTooLarge goerr | BodyInvalid goerr

fun writeDecodeErr :: "'a body \<Rightarrow> 'b reply" where
  "writeDecodeErr (BodyTooLarge e) = Refused 413 ''validation_error'' (ErrText e)"
| "writeDecodeErr (BodyInvalid e) = Refused 400 ''validation_error'' (ErrText e)"
| "writeDecodeErr _ = Refused 400 ''validation_error'' (ErrText (new_error ''EOF''))"

text \<open>\<open>if err := Decode(&req); err != nil { writeDecodeErr }\<close>, and the form that lets \<open>io.EOF\<close> pass.\<close>

fun decoded :: "'a body \<Rightarrow> 'b reply + 'a" where
  "decoded (Body x) = Inr x"
| "decoded b = Inl (writeDecodeErr b)"

fun decodedOr :: "'a \<Rightarrow> 'a body \<Rightarrow> 'b reply + 'a" where
  "decodedOr zero (Body x) = Inr x"
| "decodedOr zero BodyEOF = Inr zero"
| "decodedOr zero b = Inl (writeDecodeErr b)"

definition writeNotFound :: "'a reply" where
  "writeNotFound = Refused 404 ''not_found'' (ErrText (Sentinel ErrNotFound))"

definition writeStoreErr :: "goerr \<Rightarrow> 'a reply" where
  "writeStoreErr err =
    (if errors_is err ErrNotFound then writeNotFound else Refused 500 ''internal_error'' (ErrText err))"

section \<open>Guards\<close>

datatype need = needRead | needWrite | needManage

text \<open>A guard returns the refusal it has written, or \<open>None\<close> when the handler may go on.\<close>

definition allowSession :: "(string \<Rightarrow> bool) \<Rightarrow> MemStore \<Rightarrow> Identity \<Rightarrow> SessionID \<Rightarrow> need \<Rightarrow> 'a reply option" where
  "allowSession isUUID m i sid n =
    (if \<not> isUUID sid then Some writeNotFound
     else case GetSession m (id_Tenant i) sid of
       Inl err \<Rightarrow> Some (writeStoreErr err)
     | Inr _ \<Rightarrow>
        (case (if \<not> Operates (id_Role i)
               then (case GetParticipant m (id_Tenant i) sid (id_Principal i) of
                       Inl err \<Rightarrow> if \<not> errors_is err ErrNotFound then Inl err else Inr []
                     | Inr p \<Rightarrow> Inr (pa_Role p))
               else Inr []) of
           Inl err \<Rightarrow> Some (writeStoreErr err)
         | Inr role \<Rightarrow>
            (let access = Access (id_Role i) role
             in if \<not> sa_Read access then Some writeNotFound
                else if n = needWrite \<and> \<not> sa_Write access \<or> n = needManage \<and> \<not> sa_Manage access
                then Some (Refused 403 ''forbidden'' (Literal ''your role in this session does not allow this''))
                else None)))"

definition allowRun :: "(string \<Rightarrow> bool) \<Rightarrow> MemStore \<Rightarrow> Identity \<Rightarrow> RunID \<Rightarrow> need \<Rightarrow> 'a reply + Run" where
  "allowRun isUUID m i rid n =
    (if \<not> isUUID rid then Inl writeNotFound
     else case GetRun m (id_Tenant i) rid of
       Inl err \<Rightarrow> Inl (writeStoreErr err)
     | Inr run \<Rightarrow>
        (case allowSession isUUID m i (ru_SessionID run) n of
           Some refusal \<Rightarrow> Inl refusal
         | None \<Rightarrow> Inr run))"

definition allowRole :: "bool \<Rightarrow> 'a reply option" where
  "allowRole allowed =
    (if \<not> allowed then Some (Refused 403 ''forbidden'' (Literal ''your role does not allow this'')) else None)"

section \<open>Participants\<close>

definition listParticipants :: "(string \<Rightarrow> bool) \<Rightarrow> MemStore \<Rightarrow> Identity \<Rightarrow> SessionID \<Rightarrow> Participant list reply" where
  "listParticipants isUUID m i sid =
    (case allowSession isUUID m i sid needRead of
       Some refusal \<Rightarrow> refusal
     | None \<Rightarrow>
        (case ListParticipants m (id_Tenant i) sid of
           Inl err \<Rightarrow> writeStoreErr err
         | Inr ps \<Rightarrow> Answered 200 ps))"

definition putParticipant :: "(string \<Rightarrow> bool) \<Rightarrow> MemStore \<Rightarrow> Identity \<Rightarrow> SessionID \<Rightarrow> PrincipalID
    \<Rightarrow> SessionRole body \<Rightarrow> time \<Rightarrow> MemStore \<times> Participant reply" where
  "putParticipant isUUID m i sid pid body now =
    (case decoded body of
       Inl refusal \<Rightarrow> (m, refusal)
     | Inr role \<Rightarrow>
        if \<not> SessionRole_Valid role \<or> \<not> isUUID pid
        then (m, Refused 400 ''validation_error''
               (Literal ''role must be owner, member or viewer, and the principal a UUID''))
        else (case allowSession isUUID m i sid needManage of
           Some refusal \<Rightarrow> (m, refusal)
         | None \<Rightarrow>
            (case PutParticipant m \<lparr>pa_TenantID = id_Tenant i, pa_SessionID = sid, pa_PrincipalID = pid,
                    pa_Role = role, pa_JoinedAt = 0\<rparr> now of
               (m', Some err) \<Rightarrow> (m', writeStoreErr err)
             | (m', None) \<Rightarrow>
                (case GetParticipant m' (id_Tenant i) sid pid of
                   Inl err \<Rightarrow> (m', writeStoreErr err)
                 | Inr got \<Rightarrow> (m', Answered 200 got)))))"

definition removeParticipant :: "(string \<Rightarrow> bool) \<Rightarrow> MemStore \<Rightarrow> Identity \<Rightarrow> SessionID \<Rightarrow> PrincipalID
    \<Rightarrow> MemStore \<times> unit reply" where
  "removeParticipant isUUID m i sid pid =
    (case allowSession isUUID m i sid needManage of
       Some refusal \<Rightarrow> (m, refusal)
     | None \<Rightarrow>
        if \<not> isUUID pid then (m, Refused 404 ''not_found'' (Literal ''no such participant''))
        else (case RemoveParticipant m (id_Tenant i) sid pid of
           (m', Some err) \<Rightarrow> (m', writeStoreErr err)
         | (m', None) \<Rightarrow> (m', Answered 204 ())))"

end
