(* ===== verification/Handlers.thy ===== *)
theory Handlers
  imports ApiAccess Approvals EventLog Artifacts
begin

text \<open>
  The handlers of \<open>api/server.go\<close> that read and write the store themselves, and the dispatch of an
  authenticated request to them. What a handler reads of the request is its argument: the path's
  IDs, the query as a function that gives the empty string for an absent parameter, the body as
  decoded. The two functions of package \<open>mime\<close> that \<open>downloadArtifact\<close> calls are parameters.
  The routes that run or change what the orchestrator holds are left to its model.
\<close>

section \<open>Integers in queries\<close>

text \<open>
  \<open>strconv.ParseInt(s, 10, 64)\<close>, which agrees with \<open>Atoi\<close> on 64-bit targets. The value next to a
  syntax error is 0, next to a range error the nearest \<open>int64\<close>; an overflow is seen before what
  follows it. The flag says whether there was an error.
\<close>

definition digit :: "char \<Rightarrow> int option" where
  "digit c = (let n = of_char c :: nat in if 48 \<le> n \<and> n \<le> 57 then Some (int n - 48) else None)"

fun parseUint :: "int \<Rightarrow> string \<Rightarrow> int \<times> bool" where
  "parseUint n [] = (n, True)"
| "parseUint n (c # cs) = (case digit c of
     None \<Rightarrow> (0, False)
   | Some d \<Rightarrow> if n \<ge> (2 ^ 64 - 1) div 10 + 1 \<or> n * 10 + d > 2 ^ 64 - 1 then (2 ^ 64 - 1, False)
               else parseUint (n * 10 + d) cs)"

definition ParseInt :: "string \<Rightarrow> int \<times> bool" where
  "ParseInt s =
    (let neg = (s \<noteq> [] \<and> hd s = CHR ''-'');
         ds = (if s \<noteq> [] \<and> (hd s = CHR ''-'' \<or> hd s = CHR ''+'') then tl s else s)
     in if ds = [] then (0, False)
        else (case parseUint 0 ds of (un, ok) \<Rightarrow>
          if \<not> ok \<and> un = 0 then (0, False)
          else if \<not> neg \<and> un \<ge> 2 ^ 63 then (2 ^ 63 - 1, False)
          else if neg \<and> un > 2 ^ 63 then (- (2 ^ 63), False)
          else (if neg then - un else un, ok)))"

section \<open>Sessions\<close>

record createSessionReq =
  cs_Title :: string
  cs_Project :: string

definition maxProjectBytes :: nat where "maxProjectBytes = 200"

definition createSession :: "MemStore \<Rightarrow> Identity \<Rightarrow> createSessionReq body \<Rightarrow> SessionID \<Rightarrow> time
    \<Rightarrow> MemStore \<times> SessionID reply" where
  "createSession m i body newID now =
    (case allowRole (CreatesSessions (id_Role i)) of
       Some refusal \<Rightarrow> (m, refusal)
     | None \<Rightarrow>
        (case decodedOr \<lparr>cs_Title = [], cs_Project = []\<rparr> body of
           Inl refusal \<Rightarrow> (m, refusal)
         | Inr req0 \<Rightarrow>
            (let req = req0\<lparr>cs_Project := TrimSpace (cs_Project req0)\<rparr>
             in if length (cs_Project req) > maxProjectBytes
                then (m, Refused 400 ''validation_error'' (Literal ''project is longer than 200 bytes''))
                else (case CreateSession m (Session0\<lparr>se_TenantID := id_Tenant i, se_CreatedBy := id_Principal i,
                        se_Title := cs_Title req, se_Project := cs_Project req\<rparr>) newID now of
                   (m', sid) \<Rightarrow> (m', Answered 201 sid)))))"

definition getSession :: "(string \<Rightarrow> bool) \<Rightarrow> MemStore \<Rightarrow> Identity \<Rightarrow> SessionID \<Rightarrow> Session reply" where
  "getSession isUUID m i sid =
    (case allowSession isUUID m i sid needRead of
       Some refusal \<Rightarrow> refusal
     | None \<Rightarrow>
        (case GetSession m (id_Tenant i) sid of
           Inl err \<Rightarrow> writeStoreErr err
         | Inr sess \<Rightarrow> Answered 200 sess))"

definition listSessions :: "MemStore \<Rightarrow> Identity \<Rightarrow> (string \<Rightarrow> string) \<Rightarrow> Session list reply" where
  "listSessions m i q =
    (let participant = (if \<not> Operates (id_Role i) then id_Principal i else []);
         sessions = ListSessions m (id_Tenant i) participant;
         project = q ''project''
     in Answered 200 (if project \<noteq> [] then filter (\<lambda>s. se_Project s = project) sessions else sessions))"

definition visible :: "RoleVisibility \<Rightarrow> Identity \<Rightarrow> Visibility \<Rightarrow> bool" where
  "visible vis i v \<longleftrightarrow> Allows vis (id_Role i) v"

definition listMessages :: "(string \<Rightarrow> bool) \<Rightarrow> RoleVisibility \<Rightarrow> MemStore \<Rightarrow> Identity \<Rightarrow> SessionID
    \<Rightarrow> MessageProjection list reply" where
  "listMessages isUUID vis m i sid =
    (case allowSession isUUID m i sid needRead of
       Some refusal \<Rightarrow> refusal
     | None \<Rightarrow>
        (case ListMessages m (id_Tenant i) sid of
           Inl err \<Rightarrow> writeStoreErr err
         | Inr ms \<Rightarrow> Answered 200 (filter (\<lambda>msg. visible vis i (mp_Visibility msg)) ms)))"

section \<open>Runs and their events and artifacts\<close>

definition listRuns :: "(string \<Rightarrow> bool) \<Rightarrow> MemStore \<Rightarrow> Identity \<Rightarrow> SessionID \<Rightarrow> Run list reply" where
  "listRuns isUUID m i sid =
    (case allowSession isUUID m i sid needRead of
       Some refusal \<Rightarrow> refusal
     | None \<Rightarrow> Answered 200 (ListRuns m (id_Tenant i) sid))"

definition getRun :: "(string \<Rightarrow> bool) \<Rightarrow> MemStore \<Rightarrow> Identity \<Rightarrow> RunID \<Rightarrow> Run reply" where
  "getRun isUUID m i rid =
    (case allowRun isUUID m i rid needRead of
       Inl refusal \<Rightarrow> refusal
     | Inr run \<Rightarrow> Answered 200 run)"

fun showEvents :: "RoleVisibility \<Rightarrow> Identity \<Rightarrow> bool \<Rightarrow> Event list \<Rightarrow> Event list" where
  "showEvents vis i hidden [] = []"
| "showEvents vis i hidden (e # es) =
    (if \<not> visible vis i (ev_Visibility e) then showEvents vis i hidden es
     else (if \<not> hidden then e\<lparr>ev_HiddenPayload := None\<rparr> else e) # showEvents vis i hidden es)"

definition listEvents :: "(string \<Rightarrow> bool) \<Rightarrow> RoleVisibility \<Rightarrow> MemStore \<Rightarrow> Identity \<Rightarrow> RunID
    \<Rightarrow> (string \<Rightarrow> string) \<Rightarrow> Event list reply" where
  "listEvents isUUID vis m i rid q =
    (case allowRun isUUID m i rid needRead of
       Inl refusal \<Rightarrow> refusal
     | Inr _ \<Rightarrow>
        (let afterSeq = fst (ParseInt (q ''after''));
             lim = fst (ParseInt (q ''limit''));
             events = ListRunEvents m (id_Tenant i) rid afterSeq lim;
             hidden = HiddenPayload vis (id_Role i)
         in Answered 200 (showEvents vis i hidden events)))"

definition listArtifacts :: "(string \<Rightarrow> bool) \<Rightarrow> MemStore \<Rightarrow> Identity \<Rightarrow> RunID \<Rightarrow> Artifact list reply" where
  "listArtifacts isUUID m i rid =
    (case allowRun isUUID m i rid needRead of
       Inl refusal \<Rightarrow> refusal
     | Inr _ \<Rightarrow> Answered 200 (ListRunArtifacts m (id_Tenant i) rid))"

record download =
  dl_ContentType :: string
  dl_Disposition :: string
  dl_Length :: int
  dl_Content :: string

text \<open>\<open>parses\<close> is \<open>mime.ParseMediaType\<close> succeeding, \<open>attachment\<close> is \<open>mime.FormatMediaType\<close> of the name.\<close>

definition downloadArtifact :: "(string \<Rightarrow> bool) \<Rightarrow> (string \<Rightarrow> bool) \<Rightarrow> (string \<Rightarrow> string) \<Rightarrow> MemStore
    \<Rightarrow> Identity \<Rightarrow> string \<Rightarrow> download reply" where
  "downloadArtifact isUUID parses attachment m i aid =
    (if \<not> isUUID aid then Refused 404 ''not_found'' (Literal ''no such artifact'')
     else case GetArtifact m (id_Tenant i) aid of
       Inl err \<Rightarrow> writeStoreErr err
     | Inr a \<Rightarrow>
        (case allowSession isUUID m i (ar_SessionID a) needRead of
           Some refusal \<Rightarrow> refusal
         | None \<Rightarrow> Answered 200
             \<lparr>dl_ContentType = (if parses (ar_MimeType a) then ar_MimeType a else ''application/octet-stream''),
              dl_Disposition = (if attachment (ar_Name a) \<noteq> [] then attachment (ar_Name a) else ''attachment''),
              dl_Length = int (length (ar_Content a)), dl_Content = ar_Content a\<rparr>))"

definition listArtifactVersions :: "(string \<Rightarrow> bool) \<Rightarrow> MemStore \<Rightarrow> Identity \<Rightarrow> string \<Rightarrow> Artifact list reply" where
  "listArtifactVersions isUUID m i aid =
    (if \<not> isUUID aid then writeNotFound
     else case GetArtifact m (id_Tenant i) aid of
       Inl err \<Rightarrow> writeStoreErr err
     | Inr a \<Rightarrow>
        (case allowSession isUUID m i (ar_SessionID a) needRead of
           Some refusal \<Rightarrow> refusal
         | None \<Rightarrow> Answered 200 (ListArtifactVersions m (ar_TenantID a) (ar_SessionID a) (ar_Name a))))"

section \<open>Approvals\<close>

definition approvalPage :: int where "approvalPage = 100"

text \<open>A page and its \<open>next_after\<close>.\<close>

type_synonym approvals_page = "Approval list \<times> ApprovalID option"

definition statusFilter :: "string \<Rightarrow> string option" where
  "statusFilter status =
    (if status = [] then Some ''requested''
     else if status = ''all'' then Some []
     else if status \<in> set [''requested'', ''approved'', ''rejected'', ''expired'', ''canceled''] then Some status
     else None)"

definition limitFilter :: "string \<Rightarrow> int option" where
  "limitFilter v =
    (if v \<noteq> [] then
       (case ParseInt v of (n, ok) \<Rightarrow> if \<not> ok \<or> n < 1 \<or> n > approvalPage then None else Some n)
     else Some approvalPage)"

definition listApprovals :: "(string \<Rightarrow> bool) \<Rightarrow> MemStore \<Rightarrow> Identity \<Rightarrow> (string \<Rightarrow> string) \<Rightarrow> time
    \<Rightarrow> approvals_page reply" where
  "listApprovals isUUID m i q now =
    (case statusFilter (q ''status'') of
       None \<Rightarrow> Refused 400 ''validation_error''
         (Literal ''status must be requested, approved, rejected, expired, canceled or all'')
     | Some status \<Rightarrow>
        (case limitFilter (q ''limit'') of
           None \<Rightarrow> Refused 400 ''validation_error'' (Literal ''limit must be from 1 to 100'')
         | Some n \<Rightarrow>
            (let after = q ''after''; run = q ''run_id''
             in if after \<noteq> [] \<and> \<not> isUUID after
                then Refused 400 ''validation_error'' (Literal ''after must be an approval ID'')
                else (case (if run \<noteq> [] then allowRun isUUID m i run needRead else Inr Run0) of
                   Inl refusal \<Rightarrow> refusal
                 | Inr _ \<Rightarrow>
                    (let f = \<lparr>af_RunID = run, af_Status = status, af_After = after, af_Limit = n,
                              af_Participant = (if \<not> Operates (id_Role i) then id_Principal i else [])\<rparr>;
                         page = ListApprovals m (id_Tenant i) f now
                     in Answered 200
                          (page, if int (length page) = n then Some (ap_ID (last page)) else None))))))"

record resolveReq =
  rr_Decision :: string
  rr_Payload :: raw

text \<open>\<open>None\<close> is a panic, as of \<open>ResolveApproval\<close>.\<close>

definition resolveApproval :: "(string \<Rightarrow> bool) \<Rightarrow> MemStore \<Rightarrow> Identity \<Rightarrow> ApprovalID \<Rightarrow> resolveReq body
    \<Rightarrow> time \<Rightarrow> time \<Rightarrow> (MemStore \<times> unit reply) option" where
  "resolveApproval isUUID m i aid body now now' =
    (case decoded body of
       Inl refusal \<Rightarrow> Some (m, refusal)
     | Inr req \<Rightarrow>
        if rr_Decision req \<noteq> ''approved'' \<and> rr_Decision req \<noteq> ''rejected''
        then Some (m, Refused 400 ''validation_error'' (Literal ''decision must be approved|rejected''))
        else if \<not> isUUID aid then Some (m, writeNotFound)
        else (case GetApproval m (id_Tenant i) aid of
           Inl err \<Rightarrow> Some (m, writeStoreErr err)
         | Inr a \<Rightarrow>
            (case allowRun isUUID m i (ap_RunID a) needWrite of
               Inl refusal \<Rightarrow> Some (m, refusal)
             | Inr _ \<Rightarrow>
                (case ResolveApproval m (id_Tenant i) aid (rr_Decision req) (id_Principal i) (rr_Payload req) now now' of
                   None \<Rightarrow> None
                 | Some (m', None) \<Rightarrow> Some (m', Answered 200 ())
                 | Some (m', Some err) \<Rightarrow>
                    Some (m', if errors_is err ErrNotFound then Refused 404 ''not_found'' (ErrText err)
                       else if errors_is err ErrConflict
                       then Refused 409 ''conflict'' (Literal ''approval is already resolved or expired'')
                       else Refused 500 ''internal_error'' (ErrText err))))))"

section \<open>Dispatch\<close>

text \<open>The routes modelled here with what their handlers read of the request.\<close>

datatype api_request =
    CreateSessionReq "createSessionReq body" SessionID time \<comment> \<open>the new ID and the clock's reading\<close>
  | ListSessionsReq "string \<Rightarrow> string"
  | GetSessionReq SessionID
  | ListMessagesReq SessionID
  | ListRunsReq SessionID
  | ListParticipantsReq SessionID
  | PutParticipantReq SessionID PrincipalID "SessionRole body" time
  | RemoveParticipantReq SessionID PrincipalID
  | GetRunReq RunID
  | ListEventsReq RunID "string \<Rightarrow> string"
  | ListArtifactsReq RunID
  | DownloadArtifactReq string
  | ListArtifactVersionsReq string
  | ListApprovalsReq "string \<Rightarrow> string" time
  | ResolveApprovalReq ApprovalID "resolveReq body" time time

datatype answer =
    SessionIDAnswer SessionID | SessionsAnswer "Session list" | SessionAnswer Session
  | MessagesAnswer "MessageProjection list" | RunsAnswer "Run list" | ParticipantsAnswer "Participant list"
  | ParticipantAnswer Participant | NoAnswer | RunAnswer Run | EventsAnswer "Event list"
  | ArtifactsAnswer "Artifact list" | DownloadAnswer download | ApprovalsAnswer approvals_page

fun map_reply :: "('a \<Rightarrow> 'b) \<Rightarrow> 'a reply \<Rightarrow> 'b reply" where
  "map_reply f (Refused status code msg) = Refused status code msg"
| "map_reply f (Answered status x) = Answered status (f x)"

text \<open>What is fixed when the server starts, beside the store.\<close>

record Server =
  sv_isUUID :: "string \<Rightarrow> bool"
  sv_parses :: "string \<Rightarrow> bool"
  sv_attachment :: "string \<Rightarrow> string"
  sv_Visibility :: RoleVisibility

fun serve :: "Server \<Rightarrow> MemStore \<Rightarrow> Identity \<Rightarrow> api_request \<Rightarrow> (MemStore \<times> answer reply) option" where
  "serve s m i (CreateSessionReq b newID now) =
     Some (map_prod id (map_reply SessionIDAnswer) (createSession m i b newID now))"
| "serve s m i (ListSessionsReq q) = Some (m, map_reply SessionsAnswer (listSessions m i q))"
| "serve s m i (GetSessionReq sid) = Some (m, map_reply SessionAnswer (getSession (sv_isUUID s) m i sid))"
| "serve s m i (ListMessagesReq sid) =
     Some (m, map_reply MessagesAnswer (listMessages (sv_isUUID s) (sv_Visibility s) m i sid))"
| "serve s m i (ListRunsReq sid) = Some (m, map_reply RunsAnswer (listRuns (sv_isUUID s) m i sid))"
| "serve s m i (ListParticipantsReq sid) =
     Some (m, map_reply ParticipantsAnswer (listParticipants (sv_isUUID s) m i sid))"
| "serve s m i (PutParticipantReq sid pid b now) =
     Some (map_prod id (map_reply ParticipantAnswer) (putParticipant (sv_isUUID s) m i sid pid b now))"
| "serve s m i (RemoveParticipantReq sid pid) =
     Some (map_prod id (map_reply (\<lambda>_. NoAnswer)) (removeParticipant (sv_isUUID s) m i sid pid))"
| "serve s m i (GetRunReq rid) = Some (m, map_reply RunAnswer (getRun (sv_isUUID s) m i rid))"
| "serve s m i (ListEventsReq rid q) =
     Some (m, map_reply EventsAnswer (listEvents (sv_isUUID s) (sv_Visibility s) m i rid q))"
| "serve s m i (ListArtifactsReq rid) = Some (m, map_reply ArtifactsAnswer (listArtifacts (sv_isUUID s) m i rid))"
| "serve s m i (DownloadArtifactReq aid) =
     Some (m, map_reply DownloadAnswer (downloadArtifact (sv_isUUID s) (sv_parses s) (sv_attachment s) m i aid))"
| "serve s m i (ListArtifactVersionsReq aid) =
     Some (m, map_reply ArtifactsAnswer (listArtifactVersions (sv_isUUID s) m i aid))"
| "serve s m i (ListApprovalsReq q now) =
     Some (m, map_reply ApprovalsAnswer (listApprovals (sv_isUUID s) m i q now))"
| "serve s m i (ResolveApprovalReq aid b now now') =
     map_option (map_prod id (map_reply (\<lambda>_. NoAnswer))) (resolveApproval (sv_isUUID s) m i aid b now now')"

end
