(* ===== verification/Isolation.thy ===== *)
theory Isolation
  imports Handlers
begin

text \<open>
  Tenant isolation of the API: what a tenant's callers are answered depends on that tenant's
  requests and data only. \<open>viewOf t m\<close> is the part of the store that belongs to tenant \<open>t\<close>;
  requests of others leave it alone, and replies to the tenant are a function of it. The locale
  \<open>unwinding\<close> turns this into noninterference for whole sequences of requests.
\<close>

section \<open>The rows of a tenant\<close>

definition ofTenant :: "('v \<Rightarrow> TenantID) \<Rightarrow> TenantID \<Rightarrow> ('k, 'v) gomap \<Rightarrow> ('k, 'v) gomap" where
  "ofTenant tn t xs = filter (\<lambda>(k, v). tn v = t) xs"

lemma map_of_ofTenant: "wf_map xs \<Longrightarrow> map_of (ofTenant tn t xs) k =
    (case map_of xs k of None \<Rightarrow> None | Some v \<Rightarrow> if tn v = t then Some v else None)"
proof (induction xs)
  case (Cons x xs)
  then show ?case
    by (cases x) (auto simp: ofTenant_def wf_map_def map_of_eq_None_iff split: option.splits)
qed (simp add: ofTenant_def)

lemma mvals_ofTenant: "filter (\<lambda>v. tn v = t \<and> P v) (mvals xs) = filter P (mvals (ofTenant tn t xs))"
  by (induction xs) (auto simp: ofTenant_def)

lemma ofTenant_mput_own:
  "(\<And>w. map_of xs k = Some w \<Longrightarrow> tn w = t) \<Longrightarrow> tn v = t \<Longrightarrow> ofTenant tn t (mput k v xs) = mput k v (ofTenant tn t xs)"
  by (induction xs) (auto simp: ofTenant_def split: if_splits)

lemma ofTenant_mput_other:
  "(\<And>w. map_of xs k = Some w \<Longrightarrow> tn w \<noteq> t) \<Longrightarrow> tn v \<noteq> t \<Longrightarrow> ofTenant tn t (mput k v xs) = ofTenant tn t xs"
  by (induction xs) (auto simp: ofTenant_def split: if_splits)

abbreviation entryTenant :: "approvalEntry \<Rightarrow> TenantID" where
  "entryTenant e \<equiv> ap_TenantID (ae_approval e)"

record view =
  vw_sessions :: "(SessionID, Session) gomap"
  vw_members :: "SessionID \<Rightarrow> (PrincipalID, Participant) gomap"
  vw_messages :: "SessionID \<Rightarrow> MessageProjection list"
  vw_runs :: "(RunID, Run) gomap"
  vw_approvals :: "(ApprovalID, approvalEntry) gomap"
  vw_artifacts :: "(string, Artifact) gomap"
  vw_events :: "Event list"

definition ownSession :: "TenantID \<Rightarrow> MemStore \<Rightarrow> SessionID \<Rightarrow> bool" where
  "ownSession t m sid \<longleftrightarrow> map_of (ofTenant se_TenantID t (ms_sessions m)) sid \<noteq> None"

definition viewOf :: "TenantID \<Rightarrow> MemStore \<Rightarrow> view" where
  "viewOf t m =
    \<lparr>vw_sessions = ofTenant se_TenantID t (ms_sessions m),
     vw_members = (\<lambda>sid. if ownSession t m sid then membersOf m sid else []),
     vw_messages = (\<lambda>sid. if ownSession t m sid then messagesOf m sid else []),
     vw_runs = ofTenant ru_TenantID t (ms_runs m),
     vw_approvals = ofTenant entryTenant t (ms_approvals m),
     vw_artifacts = ofTenant ar_TenantID t (ms_artifacts m),
     vw_events = filter (\<lambda>ev. ev_TenantID ev = t) (ms_events m)\<rparr>"

lemma viewOf_tables:
  "vw_sessions (viewOf t m) = ofTenant se_TenantID t (ms_sessions m)"
  "vw_runs (viewOf t m) = ofTenant ru_TenantID t (ms_runs m)"
  "vw_approvals (viewOf t m) = ofTenant entryTenant t (ms_approvals m)"
  "vw_artifacts (viewOf t m) = ofTenant ar_TenantID t (ms_artifacts m)"
  by (simp_all add: viewOf_def)

text \<open>
  The store's objects lie in their tenants: a run in a session of its tenant, an approval in a run
  of its tenant.
\<close>

definition tenants_ok :: "MemStore \<Rightarrow> bool" where
  "tenants_ok m \<longleftrightarrow> sessions_ok m \<and> approvals_ok m \<and> wf_map (ms_runs m) \<and> wf_map (ms_artifacts m) \<and>
     (\<forall>rid r. map_of (ms_runs m) rid = Some r \<longrightarrow>
        map_option se_TenantID (map_of (ms_sessions m) (ru_SessionID r)) = Some (ru_TenantID r)) \<and>
     (\<forall>aid e. map_of (ms_approvals m) aid = Some e \<longrightarrow>
        map_option ru_TenantID (map_of (ms_runs m) (ap_RunID (ae_approval e))) = Some (entryTenant e))"

lemma tenants_ok_wf:
  "tenants_ok m \<Longrightarrow> wf_map (ms_sessions m)" "tenants_ok m \<Longrightarrow> wf_map (ms_runs m)"
  "tenants_ok m \<Longrightarrow> wf_map (ms_artifacts m)" "tenants_ok m \<Longrightarrow> wf_map (ms_approvals m)"
  by (simp_all add: tenants_ok_def sessions_ok_def approvals_ok_def)

lemma tenants_ok_run: "tenants_ok m \<Longrightarrow> map_of (ms_runs m) rid = Some r \<Longrightarrow>
    \<exists>s. map_of (ms_sessions m) (ru_SessionID r) = Some s \<and> se_TenantID s = ru_TenantID r"
  by (fastforce simp: tenants_ok_def)

lemma tenants_ok_approval: "tenants_ok m \<Longrightarrow> map_of (ms_approvals m) aid = Some e \<Longrightarrow>
    \<exists>r. map_of (ms_runs m) (ap_RunID (ae_approval e)) = Some r \<and> ru_TenantID r = entryTenant e"
  by (fastforce simp: tenants_ok_def)

lemma filter_map_cong: "(\<And>x. x \<in> set xs \<Longrightarrow> P (f x) = Q x) \<Longrightarrow> filter P (map f xs) = map f (filter Q xs)"
  by (induction xs) auto

lemma tenants_ok_new: "tenants_ok NewMemStore"
  by (simp add: tenants_ok_def sessions_ok_NewMemStore approvals_ok_new) (simp add: NewMemStore_def)

section \<open>Reads of the view\<close>

definition lookupIn :: "('k, 'v) gomap \<Rightarrow> 'k \<Rightarrow> goerr + 'v" where
  "lookupIn xs k = (case map_of xs k of None \<Rightarrow> Inl (Sentinel ErrNotFound) | Some v \<Rightarrow> Inr v)"

lemma gets_view:
  assumes "tenants_ok m"
  shows "GetSession m t sid = lookupIn (vw_sessions (viewOf t m)) sid"
    "GetRun m t rid = lookupIn (vw_runs (viewOf t m)) rid"
    "GetArtifact m t arid = lookupIn (vw_artifacts (viewOf t m)) arid"
    "GetApproval m t aid = map_sum id ae_approval (lookupIn (vw_approvals (viewOf t m)) aid)"
  using tenants_ok_wf [OF assms]
  by (simp_all add: viewOf_def lookupIn_def map_of_ofTenant GetSession_def GetRun_def GetArtifact_def
      GetApproval_def split: option.splits)

lemma GetSession_own: "tenants_ok m \<Longrightarrow> GetSession m t sid = Inr s \<Longrightarrow> ownSession t m sid"
  using tenants_ok_wf(1) [of m]
  by (auto simp: GetSession_def ownSession_def map_of_ofTenant split: option.splits if_splits)

lemma session_view:
  assumes "ownSession t m sid"
  shows "membersOf m sid = vw_members (viewOf t m) sid" "messagesOf m sid = vw_messages (viewOf t m) sid"
  using assms by (simp_all add: viewOf_def)

lemma lists_view:
  assumes "tenants_ok m"
  shows "ListRuns m t sid = sort_key ru_QueuedAt (filter (\<lambda>r. ru_SessionID r = sid) (mvals (vw_runs (viewOf t m))))"
    "ListRunArtifacts m t rid = sort_key (\<lambda>a. (ar_CreatedAt a, ar_ID a))
       (filter (\<lambda>a. ar_RunID a = rid) (mvals (vw_artifacts (viewOf t m))))"
    "ListArtifactVersions m t sid n = sort_key ar_Version
       (filter (\<lambda>a. ar_SessionID a = sid \<and> ar_Name a = n) (mvals (vw_artifacts (viewOf t m))))"
  by (simp_all add: viewOf_def ListRuns_def ListRunArtifacts_def ListArtifactVersions_def mvals_ofTenant)

lemma events_view: "ListRunEvents m t run k l =
    limited l (filter (\<lambda>ev. k < ev_Sequence ev) (filter (\<lambda>ev. ev_RunID ev = run) (vw_events (viewOf t m))))"
  unfolding ListRunEvents_eq by (simp add: viewOf_def runEvents_def conj_commute)

lemma ListSessions_view:
  assumes "tenants_ok m"
  shows "ListSessions m t who = sort_key (\<lambda>s. - se_CreatedAt s)
    (filter (\<lambda>s. who = [] \<or> map_of (vw_members (viewOf t m) (se_ID s)) who \<noteq> None)
      (mvals (vw_sessions (viewOf t m))))"
proof -
  have own: "ownSession t m (se_ID s)" if "s \<in> set (mvals (ofTenant se_TenantID t (ms_sessions m)))" for s
  proof -
    note s = that
    obtain k where k: "(k, s) \<in> set (ms_sessions m)" "se_TenantID s = t" using s by (auto simp: ofTenant_def)
    then have "map_of (ms_sessions m) k = Some s"
      using tenants_ok_wf(1) [OF assms] by (simp add: wf_map_def)
    then show ?thesis using k assms sessions_okD(1) [of m k s] tenants_ok_wf(1) [OF assms]
      by (simp add: ownSession_def map_of_ofTenant tenants_ok_def)
  qed
  show ?thesis
    unfolding ListSessions_def mvals_ofTenant viewOf_tables
    by (intro arg_cong [where f = "sort_key _"] filter_cong refl, drule own) (simp add: viewOf_def)
qed

definition sessionOfRunIn :: "view \<Rightarrow> RunID \<Rightarrow> SessionID" where
  "sessionOfRunIn v rid = (case map_of (vw_runs v) rid of None \<Rightarrow> [] | Some r \<Rightarrow> ru_SessionID r)"

definition listedIn :: "view \<Rightarrow> ApprovalFilter \<Rightarrow> time \<Rightarrow> Approval \<Rightarrow> bool" where
  "listedIn v f now a \<longleftrightarrow>
    (af_RunID f = [] \<or> ap_RunID a = af_RunID f) \<and> (af_Status f = [] \<or> ap_Status a = af_Status f) \<and>
    \<not> ap_ID a \<le> af_After f \<and>
    (af_Participant f = [] \<or> map_of (vw_members v (sessionOfRunIn v (ap_RunID a))) (af_Participant f) \<noteq> None) \<and>
    \<not> (af_Status f = ''requested'' \<and> hasExpired a now)"

lemma approval_session_own:
  assumes "tenants_ok m" and "map_of (ms_approvals m) aid = Some e" and "entryTenant e = t"
  shows "sessionOfRun m (ap_RunID (ae_approval e)) = sessionOfRunIn (viewOf t m) (ap_RunID (ae_approval e))"
    and "ownSession t m (sessionOfRun m (ap_RunID (ae_approval e)))"
proof -
  obtain r where r: "map_of (ms_runs m) (ap_RunID (ae_approval e)) = Some r" "ru_TenantID r = t"
    using tenants_ok_approval [OF assms(1,2)] assms(3) by blast
  moreover obtain s where "map_of (ms_sessions m) (ru_SessionID r) = Some s" "se_TenantID s = t"
    using tenants_ok_run [OF assms(1) r(1)] r(2) by blast
  ultimately show "sessionOfRun m (ap_RunID (ae_approval e)) = sessionOfRunIn (viewOf t m) (ap_RunID (ae_approval e))"
    and "ownSession t m (sessionOfRun m (ap_RunID (ae_approval e)))"
    using tenants_ok_wf [OF assms(1)]
    by (auto simp: sessionOfRun_def sessionOfRunIn_def viewOf_def map_of_ofTenant ownSession_def)
qed

lemma ListApprovals_view:
  assumes "tenants_ok m"
  shows "ListApprovals m t f now =
    (let out = sort_key ap_ID (map ae_approval (filter (\<lambda>e. listedIn (viewOf t m) f now (ae_approval e))
                 (mvals (vw_approvals (viewOf t m)))))
     in if af_Limit f > 0 \<and> int (length out) > af_Limit f then take (nat (af_Limit f)) out else out)"
proof -
  let ?apps = "mvals (ofTenant entryTenant t (ms_approvals m))"
  have listed: "listed m t f now (ae_approval e) \<longleftrightarrow> entryTenant e = t \<and> listedIn (viewOf t m) f now (ae_approval e)"
    if e: "e \<in> set (mvals (ms_approvals m))" for e
  proof -
    obtain aid where "(aid, e) \<in> set (ms_approvals m)" using e by auto
    then have aid: "map_of (ms_approvals m) aid = Some e"
      using tenants_ok_wf(4) [OF assms] by (simp add: wf_map_def)
    have "membersOf m (sessionOfRun m (ap_RunID (ae_approval e))) =
        vw_members (viewOf t m) (sessionOfRunIn (viewOf t m) (ap_RunID (ae_approval e)))" if "entryTenant e = t"
      using session_view(1) [OF approval_session_own(2) [OF assms aid that]]
      by (simp only: approval_session_own(1) [OF assms aid that])
    then show ?thesis by (cases "entryTenant e = t") (auto simp: listed_def listedIn_def)
  qed
  have "filter (listed m t f now) (map ae_approval (mvals (ms_approvals m))) =
      map ae_approval (filter (\<lambda>e. entryTenant e = t \<and> listedIn (viewOf t m) f now (ae_approval e)) (mvals (ms_approvals m)))"
    by (rule filter_map_cong) (rule listed)
  also have "\<dots> = map ae_approval (filter (\<lambda>e. listedIn (viewOf t m) f now (ae_approval e)) ?apps)"
    by (simp only: mvals_ofTenant [where tn = entryTenant])
  finally show ?thesis by (simp add: ListApprovals_def viewOf_def)
qed

section \<open>Writes and the view\<close>

lemma view_CreateSession:
  assumes "tenants_ok m" and "newID \<notin> fst ` set (ms_sessions m)" and "ms_messages m newID = None"
    and "se_ID s0 = []" and "CreateSession m s0 newID now = (m', sid)"
  shows "viewOf t m' = (if se_TenantID s0 = t then (viewOf t m)
      \<lparr>vw_sessions := mput newID (filledSession s0 newID now) (vw_sessions (viewOf t m)),
       vw_members := (vw_members (viewOf t m))(newID := membersOf m' newID)\<rparr> else viewOf t m)"
    and "sid = newID" and "ms_members m' = (ms_members m)(newID \<mapsto> membersOf m' newID)"
    and "membersOf m' newID = (if se_CreatedBy s0 \<noteq> [] then [(se_CreatedBy s0,
      \<lparr>pa_TenantID = se_TenantID s0, pa_SessionID = newID, pa_PrincipalID = se_CreatedBy s0,
       pa_Role = ''owner'', pa_JoinedAt = se_CreatedAt (filledSession s0 newID now)\<rparr>)] else [])"
proof -
  define s where "s = filledSession s0 newID now"
  have s: "se_ID s = newID" "se_TenantID s = se_TenantID s0" "se_CreatedBy s = se_CreatedBy s0"
    using assms(4) by (simp_all add: s_def filledSession_def Let_def)
  obtain ms where ms: "ms = (if se_CreatedBy s0 \<noteq> [] then [(se_CreatedBy s0,
      \<lparr>pa_TenantID = se_TenantID s0, pa_SessionID = newID, pa_PrincipalID = se_CreatedBy s0,
       pa_Role = ''owner'', pa_JoinedAt = se_CreatedAt s\<rparr>)] else [])" by blast
  have m': "m' = m\<lparr>ms_sessions := mput newID s (ms_sessions m), ms_members := (ms_members m)(newID \<mapsto> ms)\<rparr>"
    and sid: "sid = newID"
    using assms(5) unfolding CreateSession_def s_def [symmetric] Let_def s ms by auto
  have new: "map_of (ms_sessions m) newID = None" using assms(2) by (simp add: map_of_eq_None_iff)
  show "sid = newID" by (rule sid)
  have members: "membersOf m' newID = ms" by (simp add: m' membersOf_def)
  show "ms_members m' = (ms_members m)(newID \<mapsto> membersOf m' newID)"
    by (simp add: members) (simp add: m')
  show "membersOf m' newID = (if se_CreatedBy s0 \<noteq> [] then [(se_CreatedBy s0,
      \<lparr>pa_TenantID = se_TenantID s0, pa_SessionID = newID, pa_PrincipalID = se_CreatedBy s0,
       pa_Role = ''owner'', pa_JoinedAt = se_CreatedAt (filledSession s0 newID now)\<rparr>)] else [])"
    by (simp add: members ms s_def)
  have sess: "ofTenant se_TenantID t (mput newID s (ms_sessions m)) =
      (if se_TenantID s0 = t then mput newID s (ofTenant se_TenantID t (ms_sessions m))
       else ofTenant se_TenantID t (ms_sessions m))"
    using new s ofTenant_mput_own [of "ms_sessions m" newID se_TenantID t s]
      ofTenant_mput_other [of "ms_sessions m" newID se_TenantID t s] by simp
  have own: "ownSession t m' sid' \<longleftrightarrow> ownSession t m sid' \<or> sid' = newID \<and> se_TenantID s0 = t" for sid'
    unfolding ownSession_def m' using sess by (simp add: map_of_mput)
  have notOwn: "\<not> ownSession t m newID"
    using new tenants_ok_wf(1) [OF assms(1)] by (simp add: ownSession_def map_of_ofTenant)
  have mem: "membersOf m' sid' = (if sid' = newID then ms else membersOf m sid')" for sid'
    by (simp add: m' membersOf_def)
  have msgs: "messagesOf m' sid' = messagesOf m sid'" "messagesOf m newID = []" for sid'
    using assms(3) by (simp_all add: m' messagesOf_def)
  show "viewOf t m' = (if se_TenantID s0 = t then (viewOf t m)
      \<lparr>vw_sessions := mput newID (filledSession s0 newID now) (vw_sessions (viewOf t m)),
       vw_members := (vw_members (viewOf t m))(newID := membersOf m' newID)\<rparr> else viewOf t m)"
    using notOwn sess
    by (auto simp: viewOf_def own mem msgs s_def [symmetric] fun_eq_iff) (simp_all add: m' sess)
qed

lemma view_setMembers:
  assumes "tenants_ok m" and "map_of (ms_sessions m) sid = Some s"
  shows "viewOf t (m\<lparr>ms_members := (ms_members m)(sid \<mapsto> ps)\<rparr>) =
    (if se_TenantID s = t then (viewOf t m)\<lparr>vw_members := (vw_members (viewOf t m))(sid := ps)\<rparr> else viewOf t m)"
proof -
  have "ownSession t m sid \<longleftrightarrow> se_TenantID s = t"
    using assms tenants_ok_wf(1) by (simp add: ownSession_def map_of_ofTenant)
  then show ?thesis
    by (auto simp: viewOf_def ownSession_def membersOf_def messagesOf_def fun_eq_iff)
qed

lemma view_setEntry:
  assumes "tenants_ok m" and "map_of (ms_approvals m) aid = Some e" and "entryTenant e' = entryTenant e"
  shows "viewOf t (setEntry m aid e') = (if entryTenant e = t
    then (viewOf t m)\<lparr>vw_approvals := mput aid e' (vw_approvals (viewOf t m))\<rparr> else viewOf t m)"
proof -
  have "ofTenant entryTenant t (mput aid e' (ms_approvals m)) =
      (if entryTenant e = t then mput aid e' (ofTenant entryTenant t (ms_approvals m))
       else ofTenant entryTenant t (ms_approvals m))"
    using assms(2,3) ofTenant_mput_own [of "ms_approvals m" aid entryTenant t e']
      ofTenant_mput_other [of "ms_approvals m" aid entryTenant t e'] by simp
  then show ?thesis
    by (auto simp: viewOf_def setEntry_def ownSession_def membersOf_def messagesOf_def fun_eq_iff)
qed

end
