(* ===== verification/Noninterference.thy ===== *)
theory Noninterference
  imports Isolation
begin

text \<open>
  The API's requests seen as a state machine with outputs: unwinding conditions for a machine whose
  inputs belong to domains, and their proof for \<open>serve\<close>, whose domains are the tenants.
\<close>

section \<open>Unwinding\<close>

text \<open>
  \<open>new\<close> are the identifiers an input brings, \<open>used\<close> those of a state; an input is only given to a
  state that has none of its identifiers.
\<close>

locale unwinding =
  fixes step :: "'s \<Rightarrow> 'a \<Rightarrow> ('s \<times> 'o) option"
    and domain :: "'a \<Rightarrow> 'd"
    and view :: "'d \<Rightarrow> 's \<Rightarrow> 'v"
    and ok :: "'s \<Rightarrow> bool"
    and new :: "'a \<Rightarrow> 'k set"
    and used :: "'s \<Rightarrow> 'k set"
  assumes total: "ok s \<Longrightarrow> step s a \<noteq> None"
    and keeps: "ok s \<Longrightarrow> new a \<inter> used s = {} \<Longrightarrow> step s a = Some (s', out) \<Longrightarrow> ok s' \<and> used s' \<subseteq> used s \<union> new a"
    and respects: "ok s \<Longrightarrow> new a \<inter> used s = {} \<Longrightarrow> domain a \<noteq> d \<Longrightarrow> step s a = Some (s', out) \<Longrightarrow>
      view d s' = view d s"
    and consistent: "ok s \<Longrightarrow> ok t \<Longrightarrow> new a \<inter> used s = {} \<Longrightarrow> new a \<inter> used t = {} \<Longrightarrow>
      view (domain a) s = view (domain a) t \<Longrightarrow>
      map_option (map_prod (view (domain a)) id) (step s a) = map_option (map_prod (view (domain a)) id) (step t a)"
begin

fun trace :: "'s \<Rightarrow> 'a list \<Rightarrow> ('a \<times> 'o) list option" where
  "trace s [] = Some []"
| "trace s (a # as) = (case step s a of
     None \<Rightarrow> None
   | Some (s', out) \<Rightarrow> map_option (Cons (a, out)) (trace s' as))"

fun brings :: "'a list \<Rightarrow> 's \<Rightarrow> bool" where
  "brings [] s \<longleftrightarrow> True"
| "brings (a # as) s \<longleftrightarrow> new a \<inter> used s = {} \<and> (\<forall>b. b \<in> set as \<longrightarrow> new a \<inter> new b = {}) \<and> brings as s"

lemma brings_step: "brings as s \<Longrightarrow> used s' \<subseteq> used s \<union> n \<Longrightarrow> (\<And>b. b \<in> set as \<Longrightarrow> n \<inter> new b = {}) \<Longrightarrow> brings as s'"
proof (induction as)
  case (Cons a as)
  then have "n \<inter> new a = {}" by simp
  then show ?case using Cons by fastforce
qed simp

lemma brings_filter: "brings as s \<Longrightarrow> brings (filter P as) s"
  by (induction as) auto

lemma trace_total: "ok s \<Longrightarrow> brings as s \<Longrightarrow> \<exists>tr. trace s as = Some tr"
proof (induction as arbitrary: s)
  case (Cons a as)
  obtain s' out where st: "step s a = Some (s', out)" using total [OF Cons.prems(1), of a] by auto
  have ok: "ok s'" "used s' \<subseteq> used s \<union> new a" using keeps [OF Cons.prems(1) _ st] Cons.prems(2) by auto
  then have "brings as s'" using Cons.prems(2) by (intro brings_step [of as s s' "new a"]) auto
  then show ?case using Cons.IH ok(1) st by fastforce
qed simp

lemma purge:
  assumes "ok s" and "ok t" and "brings as s" and "brings (filter (\<lambda>a. domain a = d) as) t" and "view d s = view d t"
  shows "map_option (filter (\<lambda>(a, out). domain a = d)) (trace s as) = trace t (filter (\<lambda>a. domain a = d) as)"
  using assms
proof (induction as arbitrary: s t)
  case Nil
  then show ?case by simp
next
  case (Cons a as)
  obtain s' out where st: "step s a = Some (s', out)" using total [OF Cons.prems(1), of a] by auto
  have fresh: "new a \<inter> used s = {}" using Cons.prems(3) by simp
  have ok: "ok s'" "used s' \<subseteq> used s \<union> new a" using keeps [OF Cons.prems(1) fresh st] by auto
  have b: "brings as s'" using Cons.prems(3) ok(2) by (intro brings_step [of as s s' "new a"]) auto
  show ?case
  proof (cases "domain a = d")
    case False
    have "view d s' = view d t" using respects [OF Cons.prems(1) fresh False st] Cons.prems(5) by simp
    then have "map_option (filter (\<lambda>(a, out). domain a = d)) (trace s' as) = trace t (filter (\<lambda>a. domain a = d) as)"
      using Cons.IH [OF ok(1) Cons.prems(2) b] Cons.prems(4) False by simp
    then show ?thesis using False st by (simp add: option.map_comp comp_def)
  next
    case True
    have fresh': "new a \<inter> used t = {}" using Cons.prems(4) True by simp
    obtain t' out' where st': "step t a = Some (t', out')" using total [OF Cons.prems(2), of a] by auto
    have ok': "ok t'" "used t' \<subseteq> used t \<union> new a" using keeps [OF Cons.prems(2) fresh' st'] by auto
    have b': "brings (filter (\<lambda>a. domain a = d) as) t'"
      using Cons.prems(4) True ok'(2) by (intro brings_step [of _ t t' "new a"]) auto
    have same: "view d s' = view d t'" "out = out'"
      using consistent [OF Cons.prems(1,2) fresh fresh'] Cons.prems(5) True st st' by auto
    show ?thesis
      using st st' same(2) True
      by (simp add: option.map_comp comp_def flip: Cons.IH [OF ok(1) ok'(1) b b' same(1)])
  qed
qed

end

section \<open>The store stays well filed\<close>

lemma tenants_okI:
  assumes "sessions_ok m" and "approvals_ok m" and "wf_map (ms_runs m)" and "wf_map (ms_artifacts m)"
    and "\<And>rid r. map_of (ms_runs m) rid = Some r \<Longrightarrow>
      \<exists>s. map_of (ms_sessions m) (ru_SessionID r) = Some s \<and> se_TenantID s = ru_TenantID r"
    and "\<And>aid e. map_of (ms_approvals m) aid = Some e \<Longrightarrow>
      \<exists>r. map_of (ms_runs m) (ap_RunID (ae_approval e)) = Some r \<and> ru_TenantID r = entryTenant e"
  shows "tenants_ok m"
  using assms(1-4) by (auto simp: tenants_ok_def dest!: assms(5,6))

lemma tenants_ok_CreateSession:
  assumes "tenants_ok m" and "newID \<notin> fst ` set (ms_sessions m)" and "se_ID s0 = []"
  shows "tenants_ok (fst (CreateSession m s0 newID now))"
proof (rule tenants_okI)
  let ?m = "fst (CreateSession m s0 newID now)"
  have id: "se_ID (filledSession s0 newID now) = newID" using assms(3) by (simp add: filledSession_def Let_def)
  have f: "ms_runs ?m = ms_runs m" "ms_approvals ?m = ms_approvals m" "ms_artifacts ?m = ms_artifacts m"
    "ms_sessions ?m = mput newID (filledSession s0 newID now) (ms_sessions m)"
    by (simp_all add: CreateSession_def Let_def id)
  have new: "map_of (ms_sessions m) newID = None" using assms(2) by (simp add: map_of_eq_None_iff)
  show "sessions_ok ?m" using assms(1) by (simp add: tenants_ok_def sessions_ok_CreateSession)
  show "approvals_ok ?m" "wf_map (ms_runs ?m)" "wf_map (ms_artifacts ?m)"
    using assms(1) by (simp_all add: tenants_ok_def approvals_ok_def f)
  show "\<exists>s. map_of (ms_sessions ?m) (ru_SessionID r) = Some s \<and> se_TenantID s = ru_TenantID r"
    if "map_of (ms_runs ?m) rid = Some r" for rid r
    using tenants_ok_run [OF assms(1), of rid r] that new by (auto simp: f map_of_mput)
  show "\<exists>r. map_of (ms_runs ?m) (ap_RunID (ae_approval e)) = Some r \<and> ru_TenantID r = entryTenant e"
    if "map_of (ms_approvals ?m) aid = Some e" for aid e
    using tenants_ok_approval [OF assms(1), of aid e] that by (simp add: f)
qed

lemma tenants_ok_members:
  "tenants_ok m \<Longrightarrow> sessions_ok (m\<lparr>ms_members := ps\<rparr>) \<Longrightarrow> tenants_ok (m\<lparr>ms_members := ps\<rparr>)"
  by (simp add: tenants_ok_def approvals_ok_def)

lemma tenants_ok_setEntry:
  assumes "tenants_ok m" and "map_of (ms_approvals m) aid = Some e" and "entryTenant e' = entryTenant e"
    and "ap_RunID (ae_approval e') = ap_RunID (ae_approval e)" and "approvals_ok (setEntry m aid e')"
  shows "tenants_ok (setEntry m aid e')"
proof (rule tenants_okI)
  show "sessions_ok (setEntry m aid e')"
    using assms(1) by (simp add: tenants_ok_def sessions_ok_def setEntry_def membersOf_def)
  show "wf_map (ms_runs (setEntry m aid e'))" "wf_map (ms_artifacts (setEntry m aid e'))"
    using tenants_ok_wf [OF assms(1)] by (simp_all add: setEntry_def)
  show "\<exists>r. map_of (ms_runs (setEntry m aid e')) (ap_RunID (ae_approval x)) = Some r \<and> ru_TenantID r = entryTenant x"
    if "map_of (ms_approvals (setEntry m aid e')) k = Some x" for k x
    using that tenants_ok_approval [OF assms(1)] assms(2-4)
    by (auto simp: setEntry_def map_of_mput split: if_splits)
qed (use assms tenants_ok_run [OF assms(1)] in \<open>simp_all add: setEntry_def\<close>)

section \<open>Equal views, equal replies\<close>

definition alike :: "TenantID \<Rightarrow> MemStore \<Rightarrow> MemStore \<Rightarrow> bool" where
  "alike t m m' \<longleftrightarrow> tenants_ok m \<and> tenants_ok m' \<and> viewOf t m = viewOf t m'"

lemma alike_reads:
  assumes "alike t m m'"
  shows "GetSession m t sid = GetSession m' t sid" "GetRun m t rid = GetRun m' t rid"
    "GetArtifact m t arid = GetArtifact m' t arid" "GetApproval m t aid = GetApproval m' t aid"
    "ListRuns m t sid = ListRuns m' t sid" "ListRunArtifacts m t rid = ListRunArtifacts m' t rid"
    "ListArtifactVersions m t sid n = ListArtifactVersions m' t sid n"
    "ListRunEvents m t rid k l = ListRunEvents m' t rid k l" "ListSessions m t who = ListSessions m' t who"
    "ListApprovals m t f now = ListApprovals m' t f now"
  using assms unfolding alike_def
  by (simp_all only: gets_view lists_view events_view ListSessions_view ListApprovals_view)

lemma alike_session:
  assumes "alike t m m'" and "GetSession m t sid = Inr s"
  shows "membersOf m sid = membersOf m' sid" and "messagesOf m sid = messagesOf m' sid"
    and "map_of (ms_sessions m) sid = Some s" and "map_of (ms_sessions m') sid = Some s" and "se_TenantID s = t"
proof -
  have s': "GetSession m' t sid = Inr s" using alike_reads(1) [OF assms(1)] assms(2) by simp
  have own: "ownSession t m sid" "ownSession t m' sid"
    using GetSession_own assms s' by (auto simp: alike_def)
  show "membersOf m sid = membersOf m' sid" and "messagesOf m sid = messagesOf m' sid"
    using assms(1) by (simp_all add: session_view [OF own(1)] session_view [OF own(2)] alike_def)
  show "map_of (ms_sessions m) sid = Some s" "map_of (ms_sessions m') sid = Some s" "se_TenantID s = t"
    using assms(2) s' by (simp_all add: sessions.get_Inr_iff)
qed

lemma alike_participants:
  assumes "alike t m m'" and "GetSession m t sid = Inr s"
  shows "GetParticipant m t sid p = GetParticipant m' t sid p"
    and "ListParticipants m t sid = ListParticipants m' t sid" and "ListMessages m t sid = ListMessages m' t sid"
  using alike_session [OF assms] by (simp_all add: GetParticipant_def ListParticipants_def ListMessages_def)

lemma alike_allowSession:
  assumes "alike t m m'" and "id_Tenant i = t"
  shows "allowSession isUUID m i sid n = allowSession isUUID m' i sid n"
proof (cases "GetSession m t sid")
  case (Inl e)
  then show ?thesis using alike_reads(1) [OF assms(1), of sid] assms(2) by (simp add: allowSession_def)
next
  case (Inr s)
  then show ?thesis
    using alike_reads(1) [OF assms(1), of sid] alike_participants(1) [OF assms(1) Inr] assms(2)
    by (simp add: allowSession_def)
qed

lemma alike_allowRun:
  "alike t m m' \<Longrightarrow> id_Tenant i = t \<Longrightarrow> allowRun isUUID m i rid n = allowRun isUUID m' i rid n"
  by (simp add: allowRun_def alike_reads(2) [of t m m'] alike_allowSession [of t m m' i] split: sum.splits)

lemma allowSession_None: "allowSession isUUID m i sid n = None \<Longrightarrow> \<exists>s. GetSession m (id_Tenant i) sid = Inr s"
  by (auto simp: allowSession_def split: if_splits sum.splits)

section \<open>The writers\<close>

lemma putParticipant_own:
  assumes "tenants_ok m" and "putParticipant isUUID m i sid pid b now = (m', r)"
  shows "tenants_ok m'" and "t \<noteq> id_Tenant i \<Longrightarrow> viewOf t m' = viewOf t m" and "ms_sessions m' = ms_sessions m"
    and "ms_messages m' = ms_messages m"
proof -
  have "m' = m \<or> allowSession isUUID m i sid needManage = (None :: Participant reply option) \<and>
      (\<exists>p. m' = fst (PutParticipant m p now) \<and> pa_SessionID p = sid)"
    using assms(2)
    by (auto simp: putParticipant_def split: sum.splits if_splits option.splits prod.splits)
      (metis fst_conv Participant.select_convs(2))+
  then consider "m' = m" | s p where "map_of (ms_sessions m) sid = Some s" "se_TenantID s = id_Tenant i"
      "m' = fst (PutParticipant m p now)" "pa_SessionID p = sid"
    using allowSession_None [of isUUID m i sid needManage] by (auto simp: sessions.get_Inr_iff)
  then have "tenants_ok m' \<and> (t \<noteq> id_Tenant i \<longrightarrow> viewOf t m' = viewOf t m) \<and> ms_sessions m' = ms_sessions m \<and>
      ms_messages m' = ms_messages m"
  proof cases
    case 2
    have ok: "sessions_ok m'" using assms(1) 2(3) by (simp add: tenants_ok_def sessions_ok_PutParticipant)
    have "m' = m \<or> (\<exists>ps. m' = m\<lparr>ms_members := (ms_members m)(sid \<mapsto> ps)\<rparr>)"
      using 2(3,4) by (simp add: PutParticipant_eq) blast
    then show ?thesis
      using ok assms(1) tenants_ok_members view_setMembers [OF assms(1) 2(1)] 2(2) by auto
  qed (use assms(1) in simp)
  then show "tenants_ok m'" and "t \<noteq> id_Tenant i \<Longrightarrow> viewOf t m' = viewOf t m" and "ms_sessions m' = ms_sessions m"
    and "ms_messages m' = ms_messages m" by auto
qed

lemma removeParticipant_own:
  assumes "tenants_ok m" and "removeParticipant isUUID m i sid pid = (m', r)"
  shows "tenants_ok m'" and "t \<noteq> id_Tenant i \<Longrightarrow> viewOf t m' = viewOf t m" and "ms_sessions m' = ms_sessions m"
    and "ms_messages m' = ms_messages m"
proof -
  have "m' = m \<or> (\<exists>s. map_of (ms_sessions m) sid = Some s \<and> se_TenantID s = id_Tenant i \<and>
      m' = fst (RemoveParticipant m (id_Tenant i) sid pid))"
    using assms(2) allowSession_None [of isUUID m i sid needManage]
    by (auto simp: removeParticipant_def sessions.get_Inr_iff split: if_splits option.splits prod.splits)
  then consider "m' = m" | s where "map_of (ms_sessions m) sid = Some s" "se_TenantID s = id_Tenant i"
      "m' = fst (RemoveParticipant m (id_Tenant i) sid pid)" by blast
  then have "tenants_ok m' \<and> (t \<noteq> id_Tenant i \<longrightarrow> viewOf t m' = viewOf t m) \<and> ms_sessions m' = ms_sessions m \<and>
      ms_messages m' = ms_messages m"
  proof cases
    case 2
    have ok: "sessions_ok m'" using assms(1) 2(3) by (simp add: tenants_ok_def sessions_ok_RemoveParticipant)
    have "m' = m \<or> (\<exists>ps. m' = m\<lparr>ms_members := (ms_members m)(sid \<mapsto> ps)\<rparr>)"
      using 2(3) by (auto simp: RemoveParticipant_def split: option.splits)
    then show ?thesis
      using ok assms(1) tenants_ok_members view_setMembers [OF assms(1) 2(1)] 2(2) by auto
  qed (use assms(1) in simp)
  then show "tenants_ok m'" and "t \<noteq> id_Tenant i \<Longrightarrow> viewOf t m' = viewOf t m" and "ms_sessions m' = ms_sessions m"
    and "ms_messages m' = ms_messages m" by auto
qed

definition usedIDs :: "MemStore \<Rightarrow> SessionID set" where
  "usedIDs m = fst ` set (ms_sessions m) \<union> dom (ms_messages m)"

lemma createSession_form:
  assumes "createSession m i b newID now = (m', r)"
  shows "m' = m \<or> (\<exists>s0. se_ID s0 = [] \<and> se_TenantID s0 = id_Tenant i \<and> m' = fst (CreateSession m s0 newID now))"
  using assms unfolding createSession_def Let_def
  by (auto simp: Session0_def split: option.splits sum.splits if_splits prod.splits)
    (metis fst_conv Session.select_convs(1,2))+

lemma createSession_own:
  assumes "tenants_ok m" and "newID \<notin> usedIDs m" and "createSession m i b newID now = (m', r)"
  shows "tenants_ok m'" and "t \<noteq> id_Tenant i \<Longrightarrow> viewOf t m' = viewOf t m" and "usedIDs m' \<subseteq> usedIDs m \<union> {newID}"
proof -
  have new: "newID \<notin> fst ` set (ms_sessions m)" "ms_messages m newID = None"
    using assms(2) by (auto simp: usedIDs_def)
  have "tenants_ok m' \<and> (t \<noteq> id_Tenant i \<longrightarrow> viewOf t m' = viewOf t m) \<and> usedIDs m' \<subseteq> usedIDs m \<union> {newID}"
    using createSession_form [OF assms(3)]
  proof (elim disjE exE conjE)
    fix s0 assume s0: "se_ID s0 = []" "se_TenantID s0 = id_Tenant i" "m' = fst (CreateSession m s0 newID now)"
    then obtain sid where cs: "CreateSession m s0 newID now = (m', sid)" by (metis prod.collapse)
    have "set (map fst (ms_sessions m')) \<subseteq> set (map fst (ms_sessions m)) \<union> {newID}" "ms_messages m' = ms_messages m"
      using s0(1,3) by (auto simp: CreateSession_def Let_def filledSession_def dom_update)
    then show ?thesis
      using tenants_ok_CreateSession [OF assms(1) new(1) s0(1), of now] view_CreateSession(1) [OF assms(1) new s0(1) cs, of t] s0
      by (auto simp: usedIDs_def)
  qed (use assms(1) in auto)
  then show "tenants_ok m'" and "t \<noteq> id_Tenant i \<Longrightarrow> viewOf t m' = viewOf t m" and "usedIDs m' \<subseteq> usedIDs m \<union> {newID}"
    by auto
qed

lemma ResolveApproval_form:
  assumes "approvals_ok m" and "st \<noteq> ''requested''"
  shows "\<exists>m' err. ResolveApproval m t aid st who res now now' = Some (m', err) \<and> approvals_ok m' \<and>
    (m' = m \<or> (\<exists>e e'. map_of (ms_approvals m) aid = Some e \<and> entryTenant e = t \<and> entryTenant e' = entryTenant e \<and>
       ap_RunID (ae_approval e') = ap_RunID (ae_approval e) \<and> m' = setEntry m aid e'))"
proof (cases "map_of (ms_approvals m) aid")
  case None
  then show ?thesis using assms by (simp add: ResolveApproval_def)
next
  case (Some e)
  note e = approvals_okD [OF assms(1) Some]
  define e' where "e' = e\<lparr>ae_approval := (ae_approval e)\<lparr>ap_Status := st, ap_Resolution := res,
    ap_ResolvedBy := who, ap_ResolvedAt := now'\<rparr>, ae_done := True\<rparr>"
  have ok: "approvals_ok (setEntry m aid e')"
    using e assms(2) unfolding setEntry_def
    by (intro approvals_ok_put [OF assms(1)]) (simp add: entry_ok_def e'_def)
  have "ResolveApproval m t aid st who res now now' =
      (if entryTenant e \<noteq> t then Some (m, Some (Sentinel ErrNotFound))
       else if ap_Status (ae_approval e) \<noteq> ''requested'' \<or>
          (hasExpired (ae_approval e) now \<and> st \<noteq> ''expired'' \<and> st \<noteq> ''canceled'')
       then Some (m, Some (Sentinel ErrConflict)) else Some (setEntry m aid e', None))"
    using e by (simp add: ResolveApproval_def Some close_done_def e'_def Let_def)
  moreover have "entryTenant e' = entryTenant e" "ap_RunID (ae_approval e') = ap_RunID (ae_approval e)"
    by (simp_all add: e'_def)
  ultimately show ?thesis using Some ok assms(1) by auto
qed

definition resolveReply :: "goerr option \<Rightarrow> unit reply" where
  "resolveReply err = (case err of None \<Rightarrow> Answered 200 ()
     | Some err \<Rightarrow> if errors_is err ErrNotFound then Refused 404 ''not_found'' (ErrText err)
         else if errors_is err ErrConflict
         then Refused 409 ''conflict'' (Literal ''approval is already resolved or expired'')
         else Refused 500 ''internal_error'' (ErrText err))"

text \<open>The guards of \<open>resolveApproval\<close>: either the request is refused or the store decides.\<close>

definition resolveGuard :: "(string \<Rightarrow> bool) \<Rightarrow> MemStore \<Rightarrow> Identity \<Rightarrow> ApprovalID \<Rightarrow> resolveReq body
    \<Rightarrow> unit reply + resolveReq" where
  "resolveGuard isUUID m i aid b =
    (case decoded b of
       Inl refusal \<Rightarrow> Inl refusal
     | Inr req \<Rightarrow>
        if rr_Decision req \<noteq> ''approved'' \<and> rr_Decision req \<noteq> ''rejected''
        then Inl (Refused 400 ''validation_error'' (Literal ''decision must be approved|rejected''))
        else if \<not> isUUID aid then Inl writeNotFound
        else (case GetApproval m (id_Tenant i) aid of
           Inl err \<Rightarrow> Inl (writeStoreErr err)
         | Inr a \<Rightarrow> (case allowRun isUUID m i (ap_RunID a) needWrite of
               Inl refusal \<Rightarrow> Inl refusal | Inr _ \<Rightarrow> Inr req)))"

lemma resolveApproval_eq: "resolveApproval isUUID m i aid b now now' =
    (case resolveGuard isUUID m i aid b of
       Inl refusal \<Rightarrow> Some (m, refusal)
     | Inr req \<Rightarrow> map_option (map_prod id resolveReply)
        (ResolveApproval m (id_Tenant i) aid (rr_Decision req) (id_Principal i) (rr_Payload req) now now'))"
  by (simp add: resolveApproval_def resolveGuard_def resolveReply_def split: sum.split option.split prod.split)

lemma resolveGuard_decision: "resolveGuard isUUID m i aid b = Inr req \<Longrightarrow> rr_Decision req \<noteq> ''requested''"
  by (auto simp: resolveGuard_def split: sum.splits if_splits)

lemma resolveApproval_own:
  assumes "tenants_ok m"
  shows "\<exists>m' r. resolveApproval isUUID m i aid b now now' = Some (m', r) \<and> tenants_ok m' \<and>
    (t \<noteq> id_Tenant i \<longrightarrow> viewOf t m' = viewOf t m) \<and> usedIDs m' = usedIDs m"
proof -
  have ok: "approvals_ok m" using assms by (simp add: tenants_ok_def)
  have step: "\<exists>m' err. ResolveApproval m (id_Tenant i) aid st (id_Principal i) res now now' = Some (m', err) \<and> tenants_ok m' \<and>
      (t \<noteq> id_Tenant i \<longrightarrow> viewOf t m' = viewOf t m) \<and> usedIDs m' = usedIDs m" if st: "st \<noteq> ''requested''" for st res
  proof -
    obtain m' err where r: "ResolveApproval m (id_Tenant i) aid st (id_Principal i) res now now' = Some (m', err)" "approvals_ok m'"
      "m' = m \<or> (\<exists>e e'. map_of (ms_approvals m) aid = Some e \<and> entryTenant e = id_Tenant i \<and> entryTenant e' = entryTenant e \<and>
         ap_RunID (ae_approval e') = ap_RunID (ae_approval e) \<and> m' = setEntry m aid e')"
      using ResolveApproval_form [OF ok st] by blast
    show ?thesis using r(3)
    proof (elim disjE exE conjE)
      fix e e' assume e: "map_of (ms_approvals m) aid = Some e" "entryTenant e = id_Tenant i"
        "entryTenant e' = entryTenant e" "ap_RunID (ae_approval e') = ap_RunID (ae_approval e)" "m' = setEntry m aid e'"
      then have "tenants_ok m'" using r(2) tenants_ok_setEntry [OF assms e(1,3,4)] by simp
      moreover have "t \<noteq> id_Tenant i \<longrightarrow> viewOf t m' = viewOf t m"
        using view_setEntry [OF assms e(1,3), of t] e(2,5) by auto
      moreover have "usedIDs m' = usedIDs m" by (simp add: usedIDs_def e(5) setEntry_def)
      ultimately show ?thesis using r(1) by blast
    qed (use r(1) assms in auto)
  qed
  show ?thesis
  proof (cases "resolveGuard isUUID m i aid b")
    case (Inr req)
    show ?thesis
      using step [OF resolveGuard_decision [OF Inr], of "rr_Payload req"] by (auto simp: resolveApproval_eq Inr)
  qed (use assms in \<open>simp add: resolveApproval_eq\<close>)
qed

section \<open>Equal views, equal effects\<close>

lemma alike_CreateSession:
  assumes "alike t m n" and "newID \<notin> usedIDs m" and "newID \<notin> usedIDs n" and "se_ID s0 = []"
  shows "map_prod (viewOf t) id (CreateSession m s0 newID now) = map_prod (viewOf t) id (CreateSession n s0 newID now)"
proof -
  obtain m' i where m: "CreateSession m s0 newID now = (m', i)" by (cases "CreateSession m s0 newID now")
  obtain n' j where n: "CreateSession n s0 newID now = (n', j)" by (cases "CreateSession n s0 newID now")
  have ok: "tenants_ok m" "tenants_ok n" "viewOf t m = viewOf t n" using assms(1) by (auto simp: alike_def)
  have new: "newID \<notin> fst ` set (ms_sessions m)" "ms_messages m newID = None"
    "newID \<notin> fst ` set (ms_sessions n)" "ms_messages n newID = None"
    using assms(2,3) by (auto simp: usedIDs_def)
  note M = view_CreateSession [OF ok(1) new(1,2) assms(4) m] and N = view_CreateSession [OF ok(2) new(3,4) assms(4) n]
  have "membersOf m' newID = membersOf n' newID" by (simp only: M(4) N(4))
  then have "viewOf t m' = viewOf t n'" using M(1) [of t] N(1) [of t] ok(3) by presburger
  then show ?thesis using m n M(2) N(2) by simp
qed

lemma alike_createSession:
  assumes "alike t m n" and "newID \<notin> usedIDs m" and "newID \<notin> usedIDs n"
  shows "map_prod (viewOf t) id (createSession m i b newID now) = map_prod (viewOf t) id (createSession n i b newID now)"
proof -
  have v: "viewOf t m = viewOf t n" using assms(1) by (simp add: alike_def)
  have "map_prod (viewOf t) id (case CreateSession m s0 newID now of (m', sid) \<Rightarrow> (m', Answered 201 sid)) =
      map_prod (viewOf t) id (case CreateSession n s0 newID now of (m', sid) \<Rightarrow> (m', Answered 201 sid))"
    if "se_ID s0 = []" for s0
    using alike_CreateSession [OF assms that, of now] by (auto split: prod.splits)
  then show ?thesis
    using v by (auto simp: createSession_def Let_def Session0_def split: option.split sum.split)
qed

lemma alike_setMembers:
  assumes "alike t m n" and "GetSession m t sid = Inr s"
  shows "viewOf t (m\<lparr>ms_members := (ms_members m)(sid \<mapsto> ps)\<rparr>) = viewOf t (n\<lparr>ms_members := (ms_members n)(sid \<mapsto> ps)\<rparr>)"
  using view_setMembers [of m sid s t ps] view_setMembers [of n sid s t ps] alike_session(3-5) [OF assms] assms(1)
  by (simp add: alike_def)

lemma alike_PutParticipant:
  assumes "alike t m n" and "GetSession m t (pa_SessionID p) = Inr s"
  shows "map_prod (viewOf t) id (PutParticipant m p now) = map_prod (viewOf t) id (PutParticipant n p now)"
    and "GetParticipant (fst (PutParticipant m p now)) t (pa_SessionID p) who =
      GetParticipant (fst (PutParticipant n p now)) t (pa_SessionID p) who"
proof -
  note same = alike_session [OF assms]
  have v: "viewOf t m = viewOf t n" using assms(1) by (simp add: alike_def)
  have "joinedAt m p now = joinedAt n p now" by (simp add: joinedAt_def same(1))
  then show "map_prod (viewOf t) id (PutParticipant m p now) = map_prod (viewOf t) id (PutParticipant n p now)"
    using alike_setMembers [OF assms, of "mput (pa_PrincipalID p) (p\<lparr>pa_JoinedAt := joinedAt n p now\<rparr>)
      (membersOf n (pa_SessionID p))"]
    unfolding PutParticipant_eq \<open>joinedAt m p now = joinedAt n p now\<close> same(1,3,4) by (simp add: v)
  show "GetParticipant (fst (PutParticipant m p now)) t (pa_SessionID p) who =
      GetParticipant (fst (PutParticipant n p now)) t (pa_SessionID p) who"
    using same \<open>joinedAt m p now = joinedAt n p now\<close> by (simp add: PutParticipant_eq GetParticipant_def membersOf_def)
qed

lemma alike_RemoveParticipant:
  assumes "alike t m n" and "GetSession m t sid = Inr s"
  shows "map_prod (viewOf t) id (RemoveParticipant m t sid pid) = map_prod (viewOf t) id (RemoveParticipant n t sid pid)"
  using alike_setMembers [OF assms] alike_session [OF assms] assms(1)
  by (simp add: RemoveParticipant_def alike_def split: option.split)

lemma alike_putParticipant:
  assumes "alike t m n" and "id_Tenant i = t"
  shows "map_prod (viewOf t) id (putParticipant isUUID m i sid pid b now) =
    map_prod (viewOf t) id (putParticipant isUUID n i sid pid b now)"
proof (cases "decoded b :: Participant reply + SessionRole")
  case (Inl r)
  then show ?thesis using assms(1) by (simp add: putParticipant_def alike_def)
next
  case (Inr role)
  note role = this
  show ?thesis
  proof (cases "SessionRole_Valid role \<and> isUUID pid \<and> allowSession isUUID m i sid needManage = (None :: Participant reply option)")
    case False
    then show ?thesis using assms(1) role
      by (auto simp: putParticipant_def alike_def alike_allowSession [OF assms] split: option.split)
  next
    case True
    then obtain s where s: "GetSession m t sid = Inr s" using allowSession_None assms(2) by blast
    define p where "p = \<lparr>pa_TenantID = t, pa_SessionID = sid, pa_PrincipalID = pid, pa_Role = role, pa_JoinedAt = 0\<rparr>"
    have sid: "pa_SessionID p = sid" by (simp add: p_def)
    obtain m' e where m': "PutParticipant m p now = (m', e)" by (cases "PutParticipant m p now")
    obtain n' e' where n': "PutParticipant n p now = (n', e')" by (cases "PutParticipant n p now")
    have put: "viewOf t m' = viewOf t n'" "e = e'"
      using alike_PutParticipant(1) [OF assms(1), of p s now] s sid m' n' by simp_all
    have get: "GetParticipant m' t sid pid = GetParticipant n' t sid pid"
      using alike_PutParticipant(2) [OF assms(1), of p s now pid] s sid m' n' by simp
    show ?thesis
      using True role put get m' n' assms(2)
      by (simp add: putParticipant_def p_def alike_allowSession [OF assms] split: option.split sum.split)
  qed
qed

lemma alike_removeParticipant:
  assumes "alike t m n" and "id_Tenant i = t"
  shows "map_prod (viewOf t) id (removeParticipant isUUID m i sid pid) =
    map_prod (viewOf t) id (removeParticipant isUUID n i sid pid)"
proof (cases "allowSession isUUID m i sid needManage :: unit reply option")
  case (Some r)
  moreover have "allowSession isUUID n i sid needManage = Some r"
    using Some by (simp flip: alike_allowSession [OF assms])
  ultimately show ?thesis using assms(1) by (simp add: removeParticipant_def alike_def)
next
  case None
  then obtain s where s: "GetSession m t sid = Inr s" using allowSession_None assms(2) by blast
  show ?thesis
    using None alike_RemoveParticipant [OF assms(1) s, of pid] assms(1) assms(2)
    by (auto simp: removeParticipant_def alike_def alike_allowSession [OF assms] split: prod.splits option.splits)
qed

lemma own_entry: "alike t m n \<Longrightarrow>
    (case map_of (ms_approvals m) aid of None \<Rightarrow> None | Some e \<Rightarrow> if entryTenant e = t then Some e else None) =
    (case map_of (ms_approvals n) aid of None \<Rightarrow> None | Some e \<Rightarrow> if entryTenant e = t then Some e else None)"
  using viewOf_tables(3) [of t m] viewOf_tables(3) [of t n] tenants_ok_wf(4) [of m] tenants_ok_wf(4) [of n]
  by (auto simp: alike_def simp flip: map_of_ofTenant)

lemma alike_ResolveApproval:
  assumes "alike t m n"
  shows "map_option (map_prod (viewOf t) id) (ResolveApproval m t aid st who res now now') =
    map_option (map_prod (viewOf t) id) (ResolveApproval n t aid st who res now now')"
proof -
  have ok: "tenants_ok m" "tenants_ok n" and v: "viewOf t m = viewOf t n" using assms by (auto simp: alike_def)
  show ?thesis
  proof (cases "\<exists>e. map_of (ms_approvals m) aid = Some e \<and> entryTenant e = t")
    case True
    then obtain e where e: "map_of (ms_approvals m) aid = Some e" "entryTenant e = t" by blast
    then have e': "map_of (ms_approvals n) aid = Some e" using own_entry [OF assms, of aid] by (auto split: option.splits if_splits)
    have "viewOf t (setEntry m aid x) = viewOf t (setEntry n aid x)" if "entryTenant x = t" for x
      using view_setEntry [OF ok(1) e(1), of x t] view_setEntry [OF ok(2) e', of x t] that e(2) v by simp
    then show ?thesis
      using e e' v by (simp add: ResolveApproval_def Let_def close_done_def)
  next
    case False
    then have "\<nexists>e. map_of (ms_approvals n) aid = Some e \<and> entryTenant e = t"
      using own_entry [OF assms, of aid] by (auto split: option.splits if_splits)
    then show ?thesis using False v by (auto simp: ResolveApproval_def split: option.splits)
  qed
qed

lemma map_view: "map_option (map_prod f id) x = map_option (map_prod f id) y \<Longrightarrow>
    map_option (map_prod f g) x = map_option (map_prod f g) y"
  by (cases x; cases y) auto

lemma alike_resolveApproval:
  assumes "alike t m n" and "id_Tenant i = t"
  shows "map_option (map_prod (viewOf t) id) (resolveApproval isUUID m i aid b now now') =
    map_option (map_prod (viewOf t) id) (resolveApproval isUUID n i aid b now now')"
proof -
  have "resolveGuard isUUID m i aid b = resolveGuard isUUID n i aid b"
    unfolding resolveGuard_def assms(2) alike_allowRun [OF assms] alike_reads(4) [OF assms(1)] ..
  then show ?thesis
    using map_view [OF alike_ResolveApproval [OF assms(1)]] assms(1)
    by (auto simp: resolveApproval_eq assms(2) alike_def option.map_comp comp_def prod.map_comp split: sum.split)
qed

section \<open>Requests of tenants do not interfere\<close>

type_synonym call = "Identity \<times> api_request"

definition callTenant :: "call \<Rightarrow> TenantID" where
  "callTenant c = id_Tenant (fst c)"

fun newIDs :: "call \<Rightarrow> SessionID set" where
  "newIDs (i, CreateSessionReq b newID now) = {newID}"
| "newIDs _ = {}"

definition serveCall :: "Server \<Rightarrow> MemStore \<Rightarrow> call \<Rightarrow> (MemStore \<times> answer reply) option" where
  "serveCall s m c = serve s m (fst c) (snd c)"

lemma alike_lists:
  assumes "alike t m n" and "id_Tenant i = t"
  shows "listMessages isUUID vis m i sid = listMessages isUUID vis n i sid"
    and "listParticipants isUUID m i sid = listParticipants isUUID n i sid"
proof -
  have "listMessages isUUID vis m i sid = listMessages isUUID vis n i sid \<and>
      listParticipants isUUID m i sid = listParticipants isUUID n i sid"
  proof (cases "GetSession m t sid")
    case (Inl e)
    then have "GetSession n t sid = Inl e" using alike_reads(1) [OF assms(1)] by simp
    then show ?thesis using Inl assms(2)
      by (cases "isUUID sid") (simp_all add: listMessages_def listParticipants_def allowSession_def)
  next
    case (Inr s)
    show ?thesis
      unfolding listMessages_def listParticipants_def assms(2) alike_allowSession [OF assms]
        alike_participants(2,3) [OF assms(1) Inr] by simp
  qed
  then show "listMessages isUUID vis m i sid = listMessages isUUID vis n i sid"
    and "listParticipants isUUID m i sid = listParticipants isUUID n i sid" by auto
qed

lemma alike_replies:
  assumes "alike t m n" and "id_Tenant i = t"
  shows "getSession isUUID m i sid = getSession isUUID n i sid" "listSessions m i q = listSessions n i q"
    "listRuns isUUID m i sid = listRuns isUUID n i sid" "getRun isUUID m i rid = getRun isUUID n i rid"
    "listEvents isUUID vis m i rid q = listEvents isUUID vis n i rid q"
    "listArtifacts isUUID m i rid = listArtifacts isUUID n i rid"
    "downloadArtifact isUUID parses att m i aid = downloadArtifact isUUID parses att n i aid"
  unfolding getSession_def listSessions_def listRuns_def getRun_def listEvents_def listArtifacts_def
    downloadArtifact_def assms(2) alike_allowRun [OF assms] alike_allowSession [OF assms]
    alike_reads [OF assms(1)] by (rule refl)+

lemma alike_listArtifactVersions:
  assumes "alike t m n" and "id_Tenant i = t"
  shows "listArtifactVersions isUUID m i aid = listArtifactVersions isUUID n i aid"
proof (cases "GetArtifact m t aid")
  case (Inr a)
  then have "ar_TenantID a = t" by (simp add: artifacts.get_Inr_iff)
  then show ?thesis
    using Inr alike_reads(3) [OF assms(1), of aid] alike_reads(7) [OF assms(1), of "ar_SessionID a" "ar_Name a"] assms(2)
    by (simp add: listArtifactVersions_def alike_allowSession [OF assms] split: option.split)
qed (use alike_reads(3) [OF assms(1), of aid] assms(2) in \<open>simp add: listArtifactVersions_def\<close>)

lemma alike_listApprovals:
  assumes "alike t m n" and "id_Tenant i = t"
  shows "listApprovals isUUID m i q now = listApprovals isUUID n i q now"
  unfolding listApprovals_def assms(2) alike_allowRun [OF assms] alike_reads [OF assms(1)] by (rule refl)

text \<open>The unwinding conditions of \<open>serve\<close>.\<close>

lemma serve_total: "tenants_ok m \<Longrightarrow> serve s m i req \<noteq> None"
  by (cases req) (use resolveApproval_own [of m "sv_isUUID s" i] in \<open>fastforce+\<close>)

lemma serve_keeps:
  assumes "tenants_ok m" and "newIDs (i, req) \<inter> usedIDs m = {}" and "serve s m i req = Some (m', r)"
  shows "tenants_ok m' \<and> usedIDs m' \<subseteq> usedIDs m \<union> newIDs (i, req) \<and> (t \<noteq> id_Tenant i \<longrightarrow> viewOf t m' = viewOf t m)"
proof (cases req)
  case (CreateSessionReq b newID now)
  obtain r' where "createSession m i b newID now = (m', r')"
    using assms(3) CreateSessionReq by (cases "createSession m i b newID now") auto
  then show ?thesis using createSession_own [OF assms(1)] assms(2) CreateSessionReq by simp
next
  case (PutParticipantReq sid pid b now)
  obtain r' where "putParticipant (sv_isUUID s) m i sid pid b now = (m', r')"
    using assms(3) PutParticipantReq by (cases "putParticipant (sv_isUUID s) m i sid pid b now") auto
  then show ?thesis using putParticipant_own [OF assms(1)] by (simp add: usedIDs_def)
next
  case (RemoveParticipantReq sid pid)
  obtain r' where "removeParticipant (sv_isUUID s) m i sid pid = (m', r')"
    using assms(3) RemoveParticipantReq by (cases "removeParticipant (sv_isUUID s) m i sid pid") auto
  then show ?thesis using removeParticipant_own [OF assms(1)] by (simp add: usedIDs_def)
next
  case (ResolveApprovalReq aid b now now')
  then show ?thesis
    using resolveApproval_own [OF assms(1), where isUUID = "sv_isUUID s" and i = i and aid = aid and b = b
        and now = now and now' = now' and t = t] assms(3)
    by (elim exE conjE) simp
qed (use assms in auto)

lemma serve_consistent:
  assumes "alike t m n" and "id_Tenant i = t" and "newIDs (i, req) \<inter> usedIDs m = {}" and "newIDs (i, req) \<inter> usedIDs n = {}"
  shows "map_option (map_prod (viewOf t) id) (serve s m i req) = map_option (map_prod (viewOf t) id) (serve s n i req)"
proof -
  have pair: "map_prod (viewOf t) id (map_prod id f x) = map_prod (viewOf t) id (map_prod id f y)"
    if "map_prod (viewOf t) id x = map_prod (viewOf t) id y" for x y :: "MemStore \<times> 'x reply" and f :: "'x reply \<Rightarrow> answer reply"
    using that by (cases x; cases y) simp
  have v: "viewOf t m = viewOf t n" using assms(1) by (simp add: alike_def)
  show ?thesis
  proof (cases req)
    case (CreateSessionReq b newID now)
    then show ?thesis using assms(3,4) pair [OF alike_createSession [OF assms(1)]] by simp
  next
    case (PutParticipantReq sid pid b now)
    then show ?thesis using pair [OF alike_putParticipant [OF assms(1,2)]] by simp
  next
    case (RemoveParticipantReq sid pid)
    then show ?thesis using pair [OF alike_removeParticipant [OF assms(1,2)]] by simp
  next
    case (ResolveApprovalReq aid b now now')
    then show ?thesis
      using map_view [OF alike_resolveApproval [OF assms(1,2)]]
      by (simp add: option.map_comp comp_def prod.map_comp)
  qed (simp_all add: v alike_lists [OF assms(1,2)] alike_replies [OF assms(1,2)]
      alike_listArtifactVersions [OF assms(1,2)] alike_listApprovals [OF assms(1,2)])
qed

interpretation tenants: unwinding "serveCall s" callTenant viewOf tenants_ok newIDs usedIDs for s
proof
  show "tenants_ok m \<Longrightarrow> serveCall s m c \<noteq> None" for m c
    by (simp add: serveCall_def serve_total)
  show "tenants_ok m \<Longrightarrow> newIDs c \<inter> usedIDs m = {} \<Longrightarrow> serveCall s m c = Some (m', r) \<Longrightarrow>
      tenants_ok m' \<and> usedIDs m' \<subseteq> usedIDs m \<union> newIDs c" for m m' c r
    using serve_keeps [of m "fst c" "snd c" s m' r] by (simp add: serveCall_def)
  show "tenants_ok m \<Longrightarrow> newIDs c \<inter> usedIDs m = {} \<Longrightarrow> callTenant c \<noteq> t \<Longrightarrow> serveCall s m c = Some (m', r) \<Longrightarrow>
      viewOf t m' = viewOf t m" for m m' c r t
    using serve_keeps [of m "fst c" "snd c" s m' r t] by (auto simp: serveCall_def callTenant_def)
  show "tenants_ok m \<Longrightarrow> tenants_ok n \<Longrightarrow> newIDs c \<inter> usedIDs m = {} \<Longrightarrow> newIDs c \<inter> usedIDs n = {} \<Longrightarrow>
      viewOf (callTenant c) m = viewOf (callTenant c) n \<Longrightarrow>
      map_option (map_prod (viewOf (callTenant c)) id) (serveCall s m c) =
      map_option (map_prod (viewOf (callTenant c)) id) (serveCall s n c)" for m n c
    unfolding serveCall_def
    by (rule serve_consistent) (simp_all add: alike_def callTenant_def)
qed

text \<open>Serving requests in order, with the replies in the order of the requests.\<close>

fun serveAll :: "Server \<Rightarrow> MemStore \<Rightarrow> call list \<Rightarrow> (call \<times> answer reply) list option" where
  "serveAll s m [] = Some []"
| "serveAll s m (c # cs) =
    (case serveCall s m c of
       None \<Rightarrow> None
     | Some (m', r) \<Rightarrow> map_option (Cons (c, r)) (serveAll s m' cs))"

lemma serveAll_trace: "serveAll s m cs = tenants.trace s m cs"
  by (induction cs arbitrary: m) (auto split: option.splits)

text \<open>The IDs \<open>core.NewID\<close> gives are new and differ.\<close>

definition freshIDs :: "MemStore \<Rightarrow> call list \<Rightarrow> bool" where
  "freshIDs m cs \<longleftrightarrow> (\<forall>c. c \<in> set cs \<longrightarrow> newIDs c \<inter> usedIDs m = {}) \<and>
     sorted_wrt (\<lambda>c d. newIDs c \<inter> newIDs d = {}) cs"

lemma freshIDs_brings: "freshIDs m cs \<longleftrightarrow> tenants.brings cs m"
proof (induction cs)
  case (Cons c cs)
  have "freshIDs m (c # cs) \<longleftrightarrow> newIDs c \<inter> usedIDs m = {} \<and> (\<forall>d. d \<in> set cs \<longrightarrow> newIDs c \<inter> newIDs d = {}) \<and> freshIDs m cs"
    unfolding freshIDs_def by (simp only: list.set sorted_wrt.simps) blast
  then show ?case by (simp add: Cons)
qed (simp add: freshIDs_def)


definition sampleServer :: Server where
  "sampleServer = \<lparr>sv_isUUID = (\<lambda>s. s \<noteq> []), sv_parses = (\<lambda>_. True), sv_attachment = id,
     sv_Visibility = DefaultVisibility\<rparr>"

definition sampleCaller :: "TenantID \<Rightarrow> Identity" where
  "sampleCaller t = \<lparr>id_Tenant = t, id_Principal = ''p'', id_Role = RoleMember\<rparr>"

definition sampleCalls :: "call list" where
  "sampleCalls =
    [(sampleCaller ''a'', CreateSessionReq (Body \<lparr>cs_Title = ''x'', cs_Project = []\<rparr>) ''s1'' 1),
     (sampleCaller ''b'', ListSessionsReq (\<lambda>_. [])), (sampleCaller ''b'', GetSessionReq ''s1'')]"


end
