(* ===== verification/ApiRules.thy ===== *)
theory ApiRules
  imports Noninterference
begin

text \<open>
  Who may do what through the API: the guards of the routes against a specification of which
  sessions an identity reads, writes and manages, and what the lists show.
\<close>

section \<open>Rights\<close>

definition participates :: "MemStore \<Rightarrow> Identity \<Rightarrow> SessionID \<Rightarrow> SessionRole set \<Rightarrow> bool" where
  "participates m i sid roles \<longleftrightarrow>
    (\<exists>p. map_of (membersOf m sid) (id_Principal i) = Some p \<and> pa_Role p \<in> roles)"

definition ofCaller :: "MemStore \<Rightarrow> Identity \<Rightarrow> SessionID \<Rightarrow> bool" where
  "ofCaller m i sid \<longleftrightarrow> map_option se_TenantID (map_of (ms_sessions m) sid) = Some (id_Tenant i)"

text \<open>What each kind of need asks for, from the roles' documentation.\<close>

fun may :: "need \<Rightarrow> MemStore \<Rightarrow> Identity \<Rightarrow> SessionID \<Rightarrow> bool" where
  "may needRead m i sid \<longleftrightarrow> ofCaller m i sid \<and> (Operates (id_Role i) \<or>
     id_Role i \<in> {RoleMember, RoleViewer} \<and> participates m i sid {SessionOwner, SessionMember, SessionViewer})"
| "may needWrite m i sid \<longleftrightarrow> ofCaller m i sid \<and> (Operates (id_Role i) \<or>
     id_Role i = RoleMember \<and> participates m i sid {SessionOwner, SessionMember})"
| "may needManage m i sid \<longleftrightarrow> ofCaller m i sid \<and> (Operates (id_Role i) \<or>
     id_Role i = RoleMember \<and> participates m i sid {SessionOwner})"

lemma may_read: "may n m i sid \<Longrightarrow> may needRead m i sid"
  by (cases n) (auto simp: participates_def)

abbreviation forbidden :: "'a reply" where
  "forbidden \<equiv> Refused 403 ''forbidden'' (Literal ''your role in this session does not allow this'')"

lemma allowSession_may:
  assumes "sessions_ok m" and "isUUID sid"
  shows "allowSession isUUID m i sid n =
    (if \<not> may needRead m i sid then Some writeNotFound else if \<not> may n m i sid then Some forbidden else None)"
proof (cases "ofCaller m i sid")
  case False
  then have "GetSession m (id_Tenant i) sid = Inl (Sentinel ErrNotFound)"
    by (auto simp: GetSession_def ofCaller_def split: option.splits)
  then show ?thesis using assms(2) False by (simp add: allowSession_def writeStoreErr_def)
next
  case True
  then obtain s where s: "map_of (ms_sessions m) sid = Some s" "se_TenantID s = id_Tenant i"
    by (auto simp: ofCaller_def)
  then have get: "GetSession m (id_Tenant i) sid = Inr s" by (simp add: GetSession_def)
  show ?thesis
  proof (cases "map_of (membersOf m sid) (id_Principal i)")
    case None
    then have "GetParticipant m (id_Tenant i) sid (id_Principal i) = Inl (Sentinel ErrNotFound)"
      by (simp add: GetParticipant_def)
    then show ?thesis using assms(2) True None get
      by (cases n) (auto simp: allowSession_def participates_def Access_def)
  next
    case (Some p)
    have "member_ok s (id_Principal i, p)" using sessions_okD(3) [OF assms(1) s(1)] Some by (auto dest: map_of_SomeD)
    then have p: "pa_TenantID p = id_Tenant i" "pa_Role p \<in> {SessionOwner, SessionMember, SessionViewer}"
      using s(2) by (auto simp: member_ok_def)
    then have "GetParticipant m (id_Tenant i) sid (id_Principal i) = Inr p" using Some by (simp add: GetParticipant_def)
    then show ?thesis using assms(2) True Some get p(2)
      by (cases n) (auto simp: allowSession_def participates_def Access_def)
  qed
qed

section \<open>Routes\<close>

text \<open>The session a request is about, reached through the run, artifact or approval it names.\<close>

definition aboutRun :: "(string \<Rightarrow> bool) \<Rightarrow> MemStore \<Rightarrow> TenantID \<Rightarrow> RunID \<Rightarrow> SessionID option" where
  "aboutRun isUUID m t rid =
    (case GetRun m t rid of Inl e \<Rightarrow> None | Inr r \<Rightarrow> if isUUID rid then Some (ru_SessionID r) else None)"

definition aboutArtifact :: "(string \<Rightarrow> bool) \<Rightarrow> MemStore \<Rightarrow> TenantID \<Rightarrow> string \<Rightarrow> SessionID option" where
  "aboutArtifact isUUID m t aid =
    (case GetArtifact m t aid of Inl e \<Rightarrow> None | Inr a \<Rightarrow> if isUUID aid then Some (ar_SessionID a) else None)"

fun aboutSession :: "(string \<Rightarrow> bool) \<Rightarrow> MemStore \<Rightarrow> TenantID \<Rightarrow> api_request \<Rightarrow> SessionID option" where
  "aboutSession u m t (GetSessionReq sid) = Some sid"
| "aboutSession u m t (ListMessagesReq sid) = Some sid"
| "aboutSession u m t (ListRunsReq sid) = Some sid"
| "aboutSession u m t (ListParticipantsReq sid) = Some sid"
| "aboutSession u m t (PutParticipantReq sid pid b now) = Some sid"
| "aboutSession u m t (RemoveParticipantReq sid pid) = Some sid"
| "aboutSession u m t (GetRunReq rid) = aboutRun u m t rid"
| "aboutSession u m t (ListEventsReq rid q) = aboutRun u m t rid"
| "aboutSession u m t (ListArtifactsReq rid) = aboutRun u m t rid"
| "aboutSession u m t (DownloadArtifactReq aid) = aboutArtifact u m t aid"
| "aboutSession u m t (ListArtifactVersionsReq aid) = aboutArtifact u m t aid"
| "aboutSession u m t (ResolveApprovalReq aid b now now') =
    (case GetApproval m t aid of Inl e \<Rightarrow> None | Inr a \<Rightarrow> if u aid then aboutRun u m t (ap_RunID a) else None)"
| "aboutSession u m t req = None"

fun needOf :: "api_request \<Rightarrow> need" where
  "needOf (PutParticipantReq sid pid b now) = needManage"
| "needOf (RemoveParticipantReq sid pid) = needManage"
| "needOf (ResolveApprovalReq aid b now now') = needWrite"
| "needOf req = needRead"

text \<open>The request's body, where it has one, passes the checks made before anything is looked up.\<close>

fun wellFormed :: "(string \<Rightarrow> bool) \<Rightarrow> api_request \<Rightarrow> bool" where
  "wellFormed u (PutParticipantReq sid pid b now) \<longleftrightarrow> (\<exists>role. b = Body role \<and> SessionRole_Valid role) \<and> u pid"
| "wellFormed u (RemoveParticipantReq sid pid) \<longleftrightarrow> u pid"
| "wellFormed u (ResolveApprovalReq aid b now now') \<longleftrightarrow>
    (\<exists>req. b = Body req \<and> (rr_Decision req = ''approved'' \<or> rr_Decision req = ''rejected''))"
| "wellFormed u req \<longleftrightarrow> True"

lemma map_reply_simps [simp]:
  "map_reply f writeNotFound = writeNotFound"
  by (simp add: writeNotFound_def)

lemma allowRun_may:
  assumes "sessions_ok m" and "aboutRun isUUID m (id_Tenant i) rid = Some sid" and "isUUID sid"
  shows "allowRun isUUID m i rid n = (if \<not> may needRead m i sid then Inl writeNotFound
      else if \<not> may n m i sid then Inl forbidden else map_sum (\<lambda>_. writeNotFound) id (GetRun m (id_Tenant i) rid))"
  using assms(2,3)
  by (auto simp: aboutRun_def allowRun_def allowSession_may [OF assms(1)] simp del: may.simps split: sum.splits if_splits)

lemma aboutRun_Inr: "aboutRun isUUID m t rid = Some sid \<Longrightarrow> \<exists>r. GetRun m t rid = Inr r \<and> ru_SessionID r = sid"
  by (auto simp: aboutRun_def split: sum.splits if_splits)

lemma serve_refused:
  assumes "sessions_ok m" and "aboutSession (sv_isUUID s) m (id_Tenant i) req = Some sid" and "sv_isUUID s sid"
    and "wellFormed (sv_isUUID s) req" and "\<not> may (needOf req) m i sid"
  shows "serve s m i req = Some (m, if may needRead m i sid then forbidden else writeNotFound)"
proof -
  note guard = allowSession_may [where isUUID = "sv_isUUID s", OF assms(1,3)]
    and run = allowRun_may [where isUUID = "sv_isUUID s", OF assms(1) _ assms(3)]
  show ?thesis
  proof (cases req)
    case (ResolveApprovalReq aid b now now')
    then obtain a where a: "GetApproval m (id_Tenant i) aid = Inr a" "sv_isUUID s aid"
        "aboutRun (sv_isUUID s) m (id_Tenant i) (ap_RunID a) = Some sid"
      using assms(2) by (auto split: sum.splits if_splits)
    then show ?thesis using assms(4,5) ResolveApprovalReq
      by (auto simp: resolveApproval_def run [OF a(3)] simp del: may.simps)
  next
    case (DownloadArtifactReq aid)
    then show ?thesis using assms(2,3,5)
      by (auto simp: aboutArtifact_def downloadArtifact_def allowSession_may [OF assms(1)] simp del: may.simps split: sum.splits if_splits)
  next
    case (ListArtifactVersionsReq aid)
    then show ?thesis using assms(2,3,5)
      by (auto simp: aboutArtifact_def listArtifactVersions_def allowSession_may [OF assms(1)] simp del: may.simps split: sum.splits if_splits)
  qed (use assms(2,4,5) in \<open>auto simp: getSession_def listMessages_def listRuns_def listParticipants_def
      putParticipant_def removeParticipant_def getRun_def listEvents_def listArtifacts_def guard run simp del: may.simps\<close>)
qed

fun answered :: "'a reply \<Rightarrow> bool" where
  "answered (Answered status x) \<longleftrightarrow> True"
| "answered (Refused status code msg) \<longleftrightarrow> False"

lemma serve_read_answered:
  assumes "sessions_ok m" and "aboutSession (sv_isUUID s) m (id_Tenant i) req = Some sid" and "sv_isUUID s sid"
    and "needOf req = needRead" and "may needRead m i sid"
  shows "\<exists>x. serve s m i req = Some (m, Answered 200 x)"
proof -
  note run = allowRun_may [where isUUID = "sv_isUUID s", OF assms(1) _ assms(3)]
  obtain ss where "map_of (ms_sessions m) sid = Some ss" "se_TenantID ss = id_Tenant i"
    using assms(5) by (auto simp: ofCaller_def)
  then have gets: "GetSession m (id_Tenant i) sid = Inr ss" "ListParticipants m (id_Tenant i) sid =
      Inr (sort_key (\<lambda>p. (pa_JoinedAt p, pa_PrincipalID p)) (mvals (membersOf m sid)))"
    "ListMessages m (id_Tenant i) sid = Inr (messagesOf m sid)"
    by (simp_all add: GetSession_def ListParticipants_def ListMessages_def)
  show ?thesis
    using assms(2,3,4,5)
    by (cases req) (auto simp: getSession_def listMessages_def listRuns_def listParticipants_def getRun_def
        listEvents_def listArtifacts_def downloadArtifact_def listArtifactVersions_def
        allowSession_may [OF assms(1)] run gets aboutArtifact_def Let_def simp del: may.simps split: sum.splits if_splits dest: aboutRun_Inr)
qed


definition sampleSessions :: MemStore where
  "sampleSessions = fst (CreateSession NewMemStore
     (Session0\<lparr>se_TenantID := ''a'', se_CreatedBy := ''owner''\<rparr>) ''s1'' 1)"


section \<open>Lists\<close>

lemma participates_member:
  assumes "sessions_ok m" and "map_of (ms_sessions m) sid = Some s"
  shows "participates m i sid {SessionOwner, SessionMember, SessionViewer} \<longleftrightarrow>
    map_of (membersOf m sid) (id_Principal i) \<noteq> None"
proof -
  have "pa_Role p \<in> {SessionOwner, SessionMember, SessionViewer}"
    if "map_of (membersOf m sid) (id_Principal i) = Some p" for p
    using sessions_okD(3) [OF assms map_of_SomeD [OF that]] by (simp add: member_ok_def)
  then show ?thesis unfolding participates_def by auto
qed

lemma may_valid: "Role_Valid (id_Role i) \<Longrightarrow> may needRead m i sid \<longleftrightarrow> ofCaller m i sid \<and>
    (Operates (id_Role i) \<or> participates m i sid {SessionOwner, SessionMember, SessionViewer})"
  using Role_Valid_cases [of "id_Role i"] by auto

lemma ListSessions_readable:
  assumes "sessions_ok m" and "Role_Valid (id_Role i)" and "id_Principal i \<noteq> []"
  shows "set (ListSessions m (id_Tenant i) (if \<not> Operates (id_Role i) then id_Principal i else [])) =
    {s. map_of (ms_sessions m) (se_ID s) = Some s \<and> may needRead m i (se_ID s)}"
proof -
  have w: "wf_map (ms_sessions m)" using assms(1) by (simp add: sessions_ok_def)
  have key: "(\<exists>k. map_of (ms_sessions m) k = Some s) \<longleftrightarrow> map_of (ms_sessions m) (se_ID s) = Some s" for s
    using sessions_okD(1) [OF assms(1)] by blast
  have vals: "s \<in> set (mvals (ms_sessions m)) \<longleftrightarrow> map_of (ms_sessions m) (se_ID s) = Some s" for s
    by (simp only: in_mvals_iff [OF w] key)
  show ?thesis
    unfolding ListSessions_def set_sort set_filter vals
    using participates_member [OF assms(1)] assms(3) may_valid [OF assms(2)] by (auto simp: ofCaller_def simp del: may.simps)
qed

definition callerFilter :: "Identity \<Rightarrow> PrincipalID" where
  "callerFilter i = (if \<not> Operates (id_Role i) then id_Principal i else [])"

lemma listed_readable:
  assumes "tenants_ok m" and "Role_Valid (id_Role i)" and "id_Principal i \<noteq> []"
    and e: "map_of (ms_approvals m) aid = Some e"
  shows "listed m (id_Tenant i) (f\<lparr>af_Participant := callerFilter i\<rparr>) now (ae_approval e) \<longleftrightarrow>
    listed m (id_Tenant i) (f\<lparr>af_Participant := []\<rparr>) now (ae_approval e) \<and>
    may needRead m i (sessionOfRun m (ap_RunID (ae_approval e)))"
proof (cases "entryTenant e = id_Tenant i")
  case False
  then show ?thesis by (simp add: listed_def)
next
  case True
  let ?sid = "sessionOfRun m (ap_RunID (ae_approval e))"
  have ok: "sessions_ok m" using assms(1) by (simp add: tenants_ok_def)
  obtain s where s: "map_of (ms_sessions m) ?sid = Some s" "se_TenantID s = id_Tenant i"
    using approval_session_own(2) [OF assms(1) e True] tenants_ok_wf(1) [OF assms(1)]
    by (auto simp: ownSession_def map_of_ofTenant split: option.splits if_splits)
  have "may needRead m i ?sid \<longleftrightarrow> callerFilter i = [] \<or> map_of (membersOf m ?sid) (callerFilter i) \<noteq> None"
    using assms(3) participates_member [OF ok s(1), of i] s
    by (simp add: may_valid [OF assms(2)] ofCaller_def callerFilter_def del: may.simps)
  then show ?thesis by (auto simp: listed_def simp del: may.simps)
qed

lemma allowRun_refuses: "allowRun isUUID m i rid n \<noteq> Inl (Answered st x)"
  by (auto simp: allowRun_def allowSession_def writeNotFound_def writeStoreErr_def Let_def
      split: sum.splits option.splits if_splits)

lemma listed_limit: "listed m t (f\<lparr>af_Participant := p, af_Limit := n\<rparr>) now a \<longleftrightarrow> listed m t (f\<lparr>af_Participant := p\<rparr>) now a"
  by (simp add: listed_def)

lemma ListApprovals_readable:
  assumes "tenants_ok m" and "Role_Valid (id_Role i)" and "id_Principal i \<noteq> []"
  shows "ListApprovals m (id_Tenant i) (f\<lparr>af_Participant := callerFilter i, af_Limit := n\<rparr>) now =
    limited n (filter (\<lambda>a. may needRead m i (sessionOfRun m (ap_RunID a)))
      (ListApprovals m (id_Tenant i) (f\<lparr>af_Participant := [], af_Limit := 0\<rparr>) now))"
proof -
  let ?as = "map ae_approval (mvals (ms_approvals m))"
  have "filter (listed m (id_Tenant i) (f\<lparr>af_Participant := callerFilter i, af_Limit := n\<rparr>) now) ?as =
      filter (\<lambda>a. may needRead m i (sessionOfRun m (ap_RunID a)))
        (filter (listed m (id_Tenant i) (f\<lparr>af_Participant := [], af_Limit := 0\<rparr>) now) ?as)"
    unfolding filter_filter
  proof (rule filter_cong [OF refl])
    fix a assume "a \<in> set ?as"
    then obtain aid e where e: "(aid, e) \<in> set (ms_approvals m)" "a = ae_approval e" by auto
    then have "map_of (ms_approvals m) aid = Some e" using tenants_ok_wf(4) [OF assms(1)] by (simp add: wf_map_def)
    from listed_readable [OF assms this, of f now]
    show "listed m (id_Tenant i) (f\<lparr>af_Participant := callerFilter i, af_Limit := n\<rparr>) now a \<longleftrightarrow>
        listed m (id_Tenant i) (f\<lparr>af_Participant := [], af_Limit := 0\<rparr>) now a \<and>
        may needRead m i (sessionOfRun m (ap_RunID a))"
      by (simp only: listed_limit e(2))
  qed
  then show ?thesis by (simp add: ListApprovals_def Let_def limited_def filter_sort del: may.simps)
qed

text \<open>The lists agree with the guards: a caller is listed exactly the sessions it may read (of the
  project it asks for), and of the approvals its query selects exactly those in sessions it may
  read, in ID order up to the limit.\<close>

theorem lists_agree_with_access:
  assumes "tenants_ok m" and "Role_Valid (id_Role i)" and "id_Principal i \<noteq> []"
  shows "(\<exists>ss. listSessions m i q = Answered 200 ss \<and>
      set ss = {s. map_of (ms_sessions m) (se_ID s) = Some s \<and> may needRead m i (se_ID s) \<and>
        (q ''project'' = [] \<or> se_Project s = q ''project'')}) \<and>
    (listApprovals isUUID m i q now = Answered 200 (page, next) \<longrightarrow>
      (\<exists>status n. statusFilter (q ''status'') = Some status \<and> limitFilter (q ''limit'') = Some n \<and>
        page = take (nat n) (filter (\<lambda>a. may needRead m i (sessionOfRun m (ap_RunID a)))
          (ListApprovals m (id_Tenant i) \<lparr>af_RunID = q ''run_id'', af_Status = status, af_After = q ''after'',
             af_Limit = 0, af_Participant = []\<rparr> now))))"
proof (intro conjI impI)
  have ok: "sessions_ok m" using assms(1) by (simp add: tenants_ok_def)
  show "\<exists>ss. listSessions m i q = Answered 200 ss \<and>
      set ss = {s. map_of (ms_sessions m) (se_ID s) = Some s \<and> may needRead m i (se_ID s) \<and>
        (q ''project'' = [] \<or> se_Project s = q ''project'')}"
    using ListSessions_readable [OF ok assms(2,3)] by (simp add: listSessions_def Let_def callerFilter_def del: may.simps)
  assume l: "listApprovals isUUID m i q now = Answered 200 (page, next)"
  then obtain status n where sn: "statusFilter (q ''status'') = Some status" "limitFilter (q ''limit'') = Some n"
    by (auto simp: listApprovals_def split: option.splits)
  have n: "n > 0" using sn(2) by (auto simp: limitFilter_def approvalPage_def split: if_splits prod.splits)
  have "page = ListApprovals m (id_Tenant i) \<lparr>af_RunID = q ''run_id'', af_Status = status, af_After = q ''after'',
      af_Limit = n, af_Participant = callerFilter i\<rparr> now"
    using l unfolding listApprovals_def sn option.case
    by (auto simp: Let_def callerFilter_def allowRun_refuses split: if_splits sum.splits)
  then show "\<exists>status n. statusFilter (q ''status'') = Some status \<and> limitFilter (q ''limit'') = Some n \<and>
        page = take (nat n) (filter (\<lambda>a. may needRead m i (sessionOfRun m (ap_RunID a)))
          (ListApprovals m (id_Tenant i) \<lparr>af_RunID = q ''run_id'', af_Status = status, af_After = q ''after'',
             af_Limit = 0, af_Participant = []\<rparr> now))"
    using ListApprovals_readable [OF assms, where now = now and n = n and f = "\<lparr>af_RunID = q ''run_id'', af_Status = status, af_After = q ''after'',
      af_Limit = n, af_Participant = []\<rparr>"] sn n by (simp add: limited_def del: may.simps)
qed

definition sampleOwner :: Identity where
  "sampleOwner = \<lparr>id_Tenant = ''a'', id_Principal = ''owner'', id_Role = RoleViewer\<rparr>"

theorem lists_agree_with_access_witness:
  "\<exists>ss. listSessions sampleSessions sampleOwner (\<lambda>_. []) = Answered 200 ss \<and> map_of (ms_sessions sampleSessions) ''s1'' \<in> Some ` set ss"
proof -
  define s0 where "s0 = Session0\<lparr>se_TenantID := ''a'', se_CreatedBy := ''owner''\<rparr>"
  have ok: "tenants_ok sampleSessions"
    unfolding sampleSessions_def s0_def [symmetric]
    by (rule tenants_ok_CreateSession [OF tenants_ok_new]) (simp_all add: NewMemStore_def s0_def Session0_def)
  have s: "map_of (ms_sessions sampleSessions) ''s1'' = Some (filledSession s0 ''s1'' 1)"
    "se_ID (filledSession s0 ''s1'' 1) = ''s1''"
    by (simp_all add: sampleSessions_def CreateSession_def filledSession_def s0_def Session0_def NewMemStore_def)
  have "may needRead sampleSessions sampleOwner ''s1''"
    by (simp add: ofCaller_def participates_def sampleSessions_def CreateSession_def filledSession_def Session0_def
        NewMemStore_def sampleOwner_def membersOf_def)
  moreover obtain ss where ss: "listSessions sampleSessions sampleOwner (\<lambda>_. []) = Answered 200 ss"
    "set ss = {s. map_of (ms_sessions sampleSessions) (se_ID s) = Some s \<and> may needRead sampleSessions sampleOwner (se_ID s)}"
    using lists_agree_with_access [OF ok, of sampleOwner "\<lambda>_. []" "\<lambda>_. True" 0 "[]" None]
    by (auto simp: sampleOwner_def Role_Valid_def simp del: may.simps)
  ultimately have "filledSession s0 ''s1'' 1 \<in> set ss" using s by (simp del: may.simps)
  then show ?thesis using ss(1) s(1) by (intro exI [of _ ss]) auto
qed

section \<open>Events\<close>

lemma showEvents_eq: "showEvents vis i hidden es =
    map (\<lambda>e. if hidden then e else e\<lparr>ev_HiddenPayload := None\<rparr>) (filter (\<lambda>e. visible vis i (ev_Visibility e)) es)"
  by (induction es) auto

text \<open>A caller that lists the events of a run it may read gets, in sequence order, exactly those after its
  cursor that its role reads, each with its payload; the hidden payload only when the role reads
  hidden reasoning, which by default is the admin alone.\<close>

theorem listed_events_fit_role:
  assumes "log_ok m" and "allowRun isUUID m i rid needRead = (Inr run :: Event list reply + Run)" and "rid \<noteq> []" and "q ''limit'' = []"
  shows "\<exists>evs. listEvents isUUID vis m i rid q = Answered 200 evs \<and>
    map (\<lambda>e. e\<lparr>ev_HiddenPayload := None\<rparr>) evs = map (\<lambda>e. e\<lparr>ev_HiddenPayload := None\<rparr>)
      (filter (\<lambda>e. ev_RunID e = rid \<and> ev_TenantID e = id_Tenant i \<and> fst (ParseInt (q ''after'')) < ev_Sequence e \<and>
        Allows vis (id_Role i) (ev_Visibility e)) (ms_events m)) \<and>
    sorted_wrt (<) (map ev_Sequence evs) \<and>
    (\<forall>e. e \<in> set evs \<longrightarrow> ev_HiddenPayload e \<noteq> None \<longrightarrow> Allows vis (id_Role i) VisibilityHiddenReasoning \<and>
       (vis = DefaultVisibility \<longrightarrow> id_Role i = RoleAdmin))"
proof -
  let ?k = "fst (ParseInt (q ''after''))" and ?hide = "\<lambda>e. if HiddenPayload vis (id_Role i) then e else e\<lparr>ev_HiddenPayload := None\<rparr>"
  let ?P = "\<lambda>e. ev_RunID e = rid \<and> ev_TenantID e = id_Tenant i \<and> ?k < ev_Sequence e \<and> Allows vis (id_Role i) (ev_Visibility e)"
  have zero: "fst (ParseInt []) = 0" by (simp add: ParseInt_def)
  have list: "filter (\<lambda>e. visible vis i (ev_Visibility e)) (ListRunEvents m (id_Tenant i) rid ?k 0) = filter ?P (ms_events m)"
    by (simp add: ListRunEvents_eq limited_def runEvents_def visible_def conj_ac)
  have evs: "listEvents isUUID vis m i rid q = Answered 200 (map ?hide (filter ?P (ms_events m)))"
    using assms(2,4) by (simp add: listEvents_def Let_def zero showEvents_eq list)
  have "sorted_wrt (<) (map ev_Sequence (runEvents m rid))"
    using log_okD(2) [OF assms(1,3)] sorted_wrt_upto by simp
  then have "sorted_wrt (<) (map ev_Sequence (filter ?P (ms_events m)))"
    using sorted_wrt_filter [of "\<lambda>a b. ev_Sequence a < ev_Sequence b" "runEvents m rid" ?P]
    by (simp add: runEvents_def sorted_wrt_map conj_ac)
  moreover have seqs: "map ev_Sequence (map ?hide xs) = map ev_Sequence xs" for xs by (induction xs) auto
  ultimately have sorted: "sorted_wrt (<) (map ev_Sequence (map ?hide (filter ?P (ms_events m))))" by (simp only: seqs)
  have same: "map (\<lambda>e. e\<lparr>ev_HiddenPayload := None\<rparr>) (map ?hide xs) = map (\<lambda>e. e\<lparr>ev_HiddenPayload := None\<rparr>) xs" for xs
    by (induction xs) auto
  have hidden: "ev_HiddenPayload e \<noteq> None \<longrightarrow> HiddenPayload vis (id_Role i)" if "e \<in> set (map ?hide xs)" for e xs
    using that by (auto split: if_splits)
  have "Allows vis (id_Role i) VisibilityHiddenReasoning \<and> (vis = DefaultVisibility \<longrightarrow> id_Role i = RoleAdmin)"
    if "HiddenPayload vis (id_Role i)"
    using that DefaultVisibility_nested(4) [of "id_Role i"] by (auto simp: HiddenPayload_def)
  then have all: "\<forall>e. e \<in> set (map ?hide xs) \<longrightarrow> ev_HiddenPayload e \<noteq> None \<longrightarrow>
      Allows vis (id_Role i) VisibilityHiddenReasoning \<and> (vis = DefaultVisibility \<longrightarrow> id_Role i = RoleAdmin)" for xs
    using hidden by blast
  show ?thesis by (intro exI [of _ "map ?hide (filter ?P (ms_events m))"] conjI evs same sorted all)
qed

theorem listed_events_fit_role_witness:
  "\<exists>m run evs. log_ok m \<and> allowRun (\<lambda>_. True) m sampleOwner ''r'' needRead = (Inr run :: Event list reply + Run) \<and>
    listEvents (\<lambda>_. True) DefaultVisibility m sampleOwner ''r'' (\<lambda>_. []) = Answered 200 evs \<and> evs = []"
proof -
  define r where "r = Run0\<lparr>ru_ID := ''r'', ru_TenantID := ''a'', ru_SessionID := ''s1''\<rparr>"
  define m where "m = fst (CreateRun sampleSessions r ''r'' 1)"
  have events: "ms_events m = []" "ms_runSeq m = Map.empty" "ms_sessionSeq m = Map.empty"
    by (simp_all add: m_def sampleSessions_def CreateRun_def r_def Run0_def CreateSession_def NewMemStore_def Let_def)
  have ok: "log_ok m" by (simp add: log_ok_def events runEvents_def sessionEvents_def seqOf_def)
  obtain run where run: "allowRun (\<lambda>_. True) m sampleOwner ''r'' needRead = (Inr run :: Event list reply + Run)"
    by (auto simp: allowRun_def m_def sampleSessions_def CreateRun_def filledRun_def r_def Run0_def CreateSession_def
        filledSession_def Session0_def NewMemStore_def Let_def GetRun_def allowSession_def GetSession_def sampleOwner_def
        GetParticipant_def membersOf_def Access_def Operates_def)
  obtain evs where evs: "listEvents (\<lambda>_. True) DefaultVisibility m sampleOwner ''r'' (\<lambda>_. []) = Answered 200 evs"
    "map (\<lambda>e. e\<lparr>ev_HiddenPayload := None\<rparr>) evs = []"
    using listed_events_fit_role [OF ok run, of "\<lambda>_. []" DefaultVisibility] by (auto simp: events)
  then show ?thesis using ok run by auto
qed

end
