(* ===== verification/Graph.thy ===== *)
theory Graph
  imports Prelude
begin

text \<open>
  The graph algorithms of \<open>runtime/workflow.go\<close> on stage dependencies: \<open>cyclic\<close>, a depth-first
  search with three colours, and \<open>closure\<close>, the breadth-first search behind
  \<open>ancestorsOrSelf\<close> and \<open>descendantsOrSelf\<close>. A graph is its \<open>[][]int\<close> of successor
  lists. An index past the end of a slice, where Go panics, gives \<open>None\<close>.

  Both are related to the edge relation: \<open>cyclic\<close> decides whether it has a cycle, and
  \<open>closure\<close> lists, in increasing order, what its reflexive transitive closure reaches.
\<close>

section \<open>Graphs\<close>

type_synonym edges = "nat list list"

definition edge :: "edges \<Rightarrow> (nat \<times> nat) set" where
  "edge G = {(i, d). i < length G \<and> d \<in> set (G ! i)}"

text \<open>Every successor is an index of the graph.\<close>

definition in_range :: "edges \<Rightarrow> bool" where
  "in_range G \<longleftrightarrow> list_all (list_all (\<lambda>d. d < length G)) G"

lemma in_rangeD: "in_range G \<Longrightarrow> i < length G \<Longrightarrow> d \<in> set (G ! i) \<Longrightarrow> d < length G"
  by (force simp: in_range_def list_all_iff)

lemma edgeI [intro]: "i < length G \<Longrightarrow> d \<in> set (G ! i) \<Longrightarrow> (i, d) \<in> edge G"
  by (simp add: edge_def)

lemma edge_iff: "(i, d) \<in> edge G \<longleftrightarrow> i < length G \<and> d \<in> set (G ! i)"
  by (simp add: edge_def)

lemma rtrancl_edge_less:
  assumes "(i, j) \<in> (edge G)\<^sup>*" and "in_range G" and "i < length G" shows "j < length G"
  using assms(1) by induction (auto simp: assms edge_iff dest: in_rangeD [OF assms(2)])

section \<open>Cycle detection\<close>

datatype colour = Unvisited | Visiting | Visited

definition whites :: "colour list \<Rightarrow> nat" where
  "whites st = length (filter (\<lambda>c. c = Unvisited) st)"

text \<open>
  \<open>visits G st is\<close> is the loop \<open>for _, d := range is { if visit(d) { return true } }\<close> started
  with the colours \<open>st\<close>; its branches are the body of \<open>visit\<close>.
\<close>

function (domintros) visits :: "edges \<Rightarrow> colour list \<Rightarrow> nat list \<Rightarrow> (bool \<times> colour list) option" where
  "visits G st [] = Some (False, st)"
| "visits G st (i # is) =
     (if length st \<le> i then None
      else case st ! i of
        Visiting \<Rightarrow> Some (True, st)
      | Visited \<Rightarrow> visits G st is
      | Unvisited \<Rightarrow>
          if length G \<le> i then None
          else (case visits G (st[i := Visiting]) (G ! i) of
              None \<Rightarrow> None
            | Some (found, st') \<Rightarrow>
                if found then Some (True, st') else visits G (st'[i := Visited]) is))"
  by pat_completeness auto

lemma whites_update_less:
  "i < length st \<Longrightarrow> st ! i = Unvisited \<Longrightarrow> c \<noteq> Unvisited \<Longrightarrow> whites (st[i := c]) < whites st"
proof (induction st arbitrary: i)
  case (Cons a st)
  then show ?case by (cases i) (auto simp: whites_def)
qed simp

lemma whites_update_le: "c \<noteq> Unvisited \<Longrightarrow> whites (st[i := c]) \<le> whites st"
proof (induction st arbitrary: i)
  case (Cons a st)
  from Cons.IH [of "i - 1"] Cons.prems show ?case by (cases i) (auto simp: whites_def)
qed simp

text \<open>A search never makes a node unvisited again, which is what its termination rests on.\<close>

lemma visits_whites_dom:
  "visits_dom (G, st, is) \<Longrightarrow> visits G st is = Some (b, st') \<Longrightarrow> whites st' \<le> whites st"
proof (induction arbitrary: b st' rule: visits.pinduct)
  case (1 G st)
  then show ?case by (simp add: visits.psimps)
next
  case (2 G st i "is")
  show ?case
  proof (cases "i < length st \<and> st ! i = Unvisited \<and> i < length G")
    case True
    with "2.prems" "2.hyps" obtain found st1
      where sub: "visits G (st[i := Visiting]) (G ! i) = Some (found, st1)"
        and rest: "(if found then Some (True, st1) else visits G (st1[i := Visited]) is) = Some (b, st')"
      by (auto simp: visits.psimps split: option.splits)
    from True have nn: "\<not> length st \<le> i" "\<not> length G \<le> i" by auto
    from "2.IH"(1) [OF nn(1) _ nn(2) sub] True have "whites st1 \<le> whites (st[i := Visiting])" by simp
    also have "\<dots> \<le> whites st" by (rule whites_update_le) simp
    finally have one: "whites st1 \<le> whites st" .
    show ?thesis
    proof (cases found)
      case True
      with rest one show ?thesis by simp
    next
      case False
      with rest have "visits G (st1[i := Visited]) is = Some (b, st')" by simp
      with "2.IH"(2) [OF nn(1) _ nn(2) sub refl] \<open>i < length st \<and> _\<close> False
      have "whites st' \<le> whites (st1[i := Visited])" by simp
      also have "\<dots> \<le> whites st1" by (rule whites_update_le) simp
      finally show ?thesis using one by simp
    qed
  next
    case False
    with "2.prems" "2.hyps" "2.IH" show ?thesis
      by (auto simp: visits.psimps split: if_splits colour.splits)
  qed
qed

termination visits
proof (relation "measures [\<lambda>(G, st, is). whites st, \<lambda>(G, st, is). length is]", goal_cases)
  case (3 G st i "is" x found st')
  then have "whites st' \<le> whites (st[i := Visiting])" by (metis visits_whites_dom)
  also have "\<dots> < whites st" using 3 by (intro whites_update_less) auto
  finally have "whites (st'[i := Visited]) < whites st"
    using whites_update_le [of Visited st' i] by simp
  then show ?case by simp
qed (auto intro: whites_update_less)

definition cyclic :: "edges \<Rightarrow> bool option" where
  "cyclic G = map_option fst (visits G (replicate (length G) Unvisited) [0..<length G])"


subsection \<open>Correctness of the search\<close>

definition grey :: "colour list \<Rightarrow> nat set" where
  "grey st = {i. i < length st \<and> st ! i = Visiting}"

definition black :: "colour list \<Rightarrow> nat set" where
  "black st = {i. i < length st \<and> st ! i = Visited}"

text \<open>Visited nodes have visited successors only, and lie on no cycle.\<close>

definition black_ok :: "edges \<Rightarrow> colour list \<Rightarrow> bool" where
  "black_ok G st \<longleftrightarrow> (\<forall>i \<in> black st. set (G ! i) \<subseteq> black st \<and> (i, i) \<notin> (edge G)\<^sup>+)"

lemma black_closed:
  assumes "(i, j) \<in> (edge G)\<^sup>*" and "black_ok G st" and "i \<in> black st" shows "j \<in> black st"
  using assms(1) by induction (use assms(2,3) in \<open>auto simp: black_ok_def edge_iff\<close>)

lemma grey_visit: "i < length st \<Longrightarrow> grey (st[i := Visiting]) = insert i (grey st)"
  by (auto simp: grey_def nth_list_update)

lemma black_visit: "st ! i = Unvisited \<Longrightarrow> black (st[i := Visiting]) = black st"
  by (rule set_eqI, case_tac "x = i") (auto simp: black_def)

lemma grey_leave: "grey (st[i := Visited]) = grey st - {i}"
  by (rule set_eqI, case_tac "x = i") (auto simp: grey_def)

lemma black_leave: "i < length st \<Longrightarrow> black (st[i := Visited]) = insert i (black st)"
  by (auto simp: black_def nth_list_update)

text \<open>A node whose successors are all visited can be marked visited: it lies on no new cycle.\<close>

lemma black_ok_leave:
  assumes ok: "black_ok G st" and i: "i < length st" "i \<notin> black st"
    and succs: "set (G ! i) \<subseteq> black st"
  shows "black_ok G (st[i := Visited])"
proof -
  have "(i, i) \<notin> (edge G)\<^sup>+"
  proof
    assume "(i, i) \<in> (edge G)\<^sup>+"
    then obtain d where "(i, d) \<in> edge G" and "(d, i) \<in> (edge G)\<^sup>*" by (blast dest: tranclD)
    with succs black_closed [OF _ ok] have "i \<in> black st" by (auto simp: edge_iff)
    with i(2) show False ..
  qed
  with ok succs i show ?thesis by (auto simp: black_ok_def black_leave)
qed

lemma visits_total:
  "in_range G \<Longrightarrow> length st = length G \<Longrightarrow> \<forall>i \<in> set is. i < length G \<Longrightarrow>
   \<exists>b st'. visits G st is = Some (b, st') \<and> length st' = length G"
proof (induction G st "is" rule: visits.induct)
  case (2 G st i "is")
  then have i: "i < length G" "i < length st" by auto
  have succs: "\<forall>d \<in> set (G ! i). d < length G" using 2 i by (auto dest: in_rangeD)
  show ?case
  proof (cases "st ! i")
    case Unvisited
    with "2.IH"(1) i "2.prems" succs obtain b st1
      where sub: "visits G (st[i := Visiting]) (G ! i) = Some (b, st1)" and "length st1 = length G"
      by auto
    with Unvisited "2.IH"(2) [OF _ Unvisited _ sub refl] i "2.prems" show ?thesis
      by (cases b) auto
  qed (use 2 i in auto)
qed (simp add: ex_bool_eq)

lemma visits_length:
  "visits G st is = Some (b, st') \<Longrightarrow> length st' = length st"
proof (induction G st "is" arbitrary: b st' rule: visits.induct)
  case (2 G st i "is")
  show ?case
  proof (cases "st ! i = Unvisited")
    case True
    with "2.prems" obtain found st1 where i: "\<not> length st \<le> i" "\<not> length G \<le> i"
      and sub: "visits G (st[i := Visiting]) (G ! i) = Some (found, st1)"
      and rest: "(if found then Some (True, st1) else visits G (st1[i := Visited]) is) = Some (b, st')"
      by (auto split: if_splits option.splits)
    from "2.IH"(1) [OF i(1) True i(2) sub] have "length st1 = length st" by simp
    with "2.IH"(2) [OF i(1) True i(2) sub refl] rest show ?thesis by (cases found) auto
  next
    case False
    with "2.prems" "2.IH"(3) show ?thesis by (cases "st ! i") (auto split: if_splits)
  qed
qed simp

text \<open>A search that finds nothing leaves the nodes on the stack as they were and visits its list.\<close>

lemma visits_finished:
  "visits G st is = Some (False, st') \<Longrightarrow> length st = length G \<Longrightarrow> black_ok G st \<Longrightarrow>
   grey st' = grey st \<and> black st \<subseteq> black st' \<and> set is \<subseteq> black st' \<and> black_ok G st'"
proof (induction G st "is" arbitrary: st' rule: visits.induct)
  case (2 G st i "is")
  show ?case
  proof (cases "st ! i")
    case Unvisited
    with 2 obtain st1 where i: "i < length st" "i < length G"
      and sub: "visits G (st[i := Visiting]) (G ! i) = Some (False, st1)"
      and rest: "visits G (st1[i := Visited]) is = Some (False, st')"
      by (auto split: if_splits option.splits)
    have len: "length st1 = length G" using visits_length [OF sub] 2 by simp
    have "black_ok G (st[i := Visiting])"
      using \<open>black_ok G st\<close> Unvisited by (simp add: black_ok_def black_visit)
    with "2.IH"(1) [OF _ Unvisited _ sub] i 2
    have one: "grey st1 = insert i (grey st)" "black st \<subseteq> black st1" "set (G ! i) \<subseteq> black st1"
      "black_ok G st1"
      by (auto simp: grey_visit black_visit Unvisited)
    then have "i \<in> grey st1" by simp
    then have grey_i: "i < length st1" "i \<notin> black st1" by (auto simp: grey_def black_def)
    have "i \<notin> grey st" using Unvisited by (simp add: grey_def)
    with "2.IH"(2) [OF _ Unvisited _ sub refl _ rest] i len
      black_ok_leave [OF one(4) grey_i one(3)] one grey_i
    show ?thesis by (simp add: grey_leave black_leave) blast
  next
    case Visited
    with "2.prems" have "i \<in> black st" by (auto simp: black_def split: if_splits)
    with Visited "2.prems" "2.IH"(3) show ?thesis by (auto split: if_splits)
  qed (use "2.prems" in \<open>auto split: if_splits\<close>)
qed simp

text \<open>What a search finds is a cycle, when each node on the stack leads to every listed node.\<close>

lemma visits_found:
  "visits G st is = Some (True, st') \<Longrightarrow> length st = length G \<Longrightarrow> black_ok G st \<Longrightarrow>
   \<forall>g \<in> grey st. \<forall>i \<in> set is. (g, i) \<in> (edge G)\<^sup>+ \<Longrightarrow> \<not> acyclic (edge G)"
proof (induction G st "is" arbitrary: st' rule: visits.induct)
  case (2 G st i "is")
  show ?case
  proof (cases "st ! i")
    case Visiting
    with 2 have "i \<in> grey st" by (auto simp: grey_def split: if_splits)
    with 2 show ?thesis by (auto simp: acyclic_def)
  next
    case Unvisited
    with 2 obtain b st1 where i: "i < length st" "i < length G"
      and sub: "visits G (st[i := Visiting]) (G ! i) = Some (b, st1)"
      by (auto split: if_splits option.splits)
    have len: "length st1 = length G" using visits_length [OF sub] 2 by simp
    have ok: "black_ok G (st[i := Visiting])"
      using \<open>black_ok G st\<close> Unvisited by (simp add: black_ok_def black_visit)
    have reach: "\<forall>g \<in> grey (st[i := Visiting]). \<forall>d \<in> set (G ! i). (g, d) \<in> (edge G)\<^sup>+"
      using 2 i by (auto simp: grey_visit intro: trancl_into_trancl)
    show ?thesis
    proof (cases b)
      case True
      with "2.IH"(1) [OF _ Unvisited _ _ _ ok reach] sub i 2 show ?thesis by auto
    next
      case False
      with sub have sub': "visits G (st[i := Visiting]) (G ! i) = Some (False, st1)" by simp
      from visits_finished [OF this _ ok] i 2
      have one: "grey st1 = insert i (grey st)" "set (G ! i) \<subseteq> black st1" "black_ok G st1"
        by (auto simp: grey_visit)
      then have "i \<in> grey st1" by simp
      then have grey_i: "i < length st1" "i \<notin> black st1" by (auto simp: grey_def black_def)
      from sub' "2.prems"(1) Unvisited i have rest: "visits G (st1[i := Visited]) is = Some (True, st')"
        by simp
      have "\<forall>g \<in> grey (st1[i := Visited]). \<forall>d \<in> set is. (g, d) \<in> (edge G)\<^sup>+"
        using 2 one by (auto simp: grey_leave)
      from "2.IH"(2) [OF _ Unvisited _ sub' refl _ rest _ black_ok_leave [OF one(3) grey_i one(2)] this]
        i len show ?thesis by simp
    qed
  qed (use 2 in \<open>auto split: if_splits\<close>)
qed simp

lemma black_ok_start: "black_ok G (replicate n Unvisited)" "grey (replicate n Unvisited) = {}"
  by (auto simp: black_ok_def black_def grey_def)

lemma cyclic_iff: "in_range G \<Longrightarrow> cyclic G = Some (\<not> acyclic (edge G))"
proof -
  assume G: "in_range G"
  define st where "st = replicate (length G) Unvisited"
  have st: "length st = length G" "black_ok G st" "grey st = {}"
    by (simp_all add: st_def black_ok_start)
  obtain b st' where run: "visits G st [0..<length G] = Some (b, st')"
    using visits_total [OF G st(1)] by (metis atLeastLessThan_iff set_upt)
  have "\<not> acyclic (edge G)" if "b"
    using visits_found [OF _ st(1,2)] run that st(3) by simp
  moreover have "acyclic (edge G)" if "\<not> b"
  proof -
    from run that have "visits G st [0..<length G] = Some (False, st')" by simp
    from visits_finished [OF this st(1,2)]
    have all: "set [0..<length G] \<subseteq> black st'" and ok: "black_ok G st'" by blast+
    have "(i, i) \<notin> (edge G)\<^sup>+" for i
    proof
      assume c: "(i, i) \<in> (edge G)\<^sup>+"
      then have "i < length G" by (auto dest: tranclD simp: edge_iff)
      with all ok c show False by (auto simp: black_ok_def)
    qed
    then show ?thesis by (simp add: acyclic_def)
  qed
  ultimately show ?thesis using run by (auto simp: cyclic_def st_def)
qed

section \<open>What an index reaches\<close>

fun push_unseen :: "nat list \<times> nat list \<Rightarrow> nat \<Rightarrow> nat list \<times> nat list" where
  "push_unseen (seen, queue) j =
     (if j \<in> set seen then (seen, queue) else (seen @ [j], queue @ [j]))"

lemma push_unseen_fold:
  "foldl push_unseen (seen, queue) js = (seen', queue') \<Longrightarrow>
   \<exists>new. seen' = seen @ new \<and> queue' = queue @ new \<and> set seen' = set seen \<union> set js \<and>
     (distinct seen \<longrightarrow> distinct seen') \<and> set new \<subseteq> set js"
proof (induction js arbitrary: seen queue)
  case (Cons j js)
  then show ?case
    by (cases "j \<in> set seen") (fastforce simp: insert_absorb)+
qed simp

text \<open>
  The loop of \<open>closure\<close>: it ends because an index enters the queue only when it is new.
\<close>

definition unseen :: "edges \<Rightarrow> nat list \<Rightarrow> nat" where
  "unseen G seen = card (set (concat G) - set seen)"

lemma unseen_fold:
  assumes "foldl push_unseen (seen, queue) js = (seen', queue')" and "set js \<subseteq> set (concat G)"
  shows "unseen G seen' + length queue' \<le> unseen G seen + length queue"
  using assms
proof (induction js arbitrary: seen queue)
  case (Cons j js)
  show ?case
  proof (cases "j \<in> set seen")
    case False
    with Cons.prems have "unseen G (seen @ [j]) < unseen G seen"
      unfolding unseen_def by (intro psubset_card_mono) auto
    moreover from False Cons.prems
    have "unseen G seen' + length queue' \<le> unseen G (seen @ [j]) + length (queue @ [j])"
      by (intro Cons.IH) auto
    ultimately show ?thesis by simp
  qed (use Cons in auto)
qed simp

function closure_loop :: "edges \<Rightarrow> nat list \<Rightarrow> nat list \<Rightarrow> nat list option" where
  "closure_loop G seen [] = Some seen"
| "closure_loop G seen (cur # queue) =
     (if length G \<le> cur then None
      else let (seen', queue') = foldl push_unseen (seen, queue) (G ! cur)
           in closure_loop G seen' queue')"
  by pat_completeness auto

termination
proof (relation "measure (\<lambda>(G, seen, queue). unseen G seen + length queue)", goal_cases)
  case (2 G seen cur queue x seen' queue')
  then have "unseen G seen' + length queue' \<le> unseen G seen + length queue"
    by (intro unseen_fold) (auto intro!: bexI [where x = "G ! cur"])
  then show ?case by simp
qed simp

definition closure :: "nat \<Rightarrow> edges \<Rightarrow> nat list option" where
  "closure i G = map_option sort (closure_loop G [i] [i])"

text \<open>
  While the loop runs, what it has seen is reachable, and the successors of a seen index are
  seen once the index has left the queue.
\<close>

lemma closure_loop_correct:
  "in_range G \<Longrightarrow> distinct seen \<Longrightarrow> set queue \<subseteq> set seen \<Longrightarrow> \<forall>j \<in> set seen. j < length G \<Longrightarrow>
   set seen \<subseteq> (edge G)\<^sup>* `` {i} \<Longrightarrow> \<forall>j \<in> set seen - set queue. set (G ! j) \<subseteq> set seen \<Longrightarrow>
   i \<in> set seen \<Longrightarrow>
   \<exists>out. closure_loop G seen queue = Some out \<and> distinct out \<and> set out = (edge G)\<^sup>* `` {i}"
proof (induction G seen queue rule: closure_loop.induct)
  case (1 G seen)
  have "j \<in> set seen" if "(i, j) \<in> (edge G)\<^sup>*" for j
    using that by induction (use 1 in \<open>auto simp: edge_iff\<close>)
  with 1 show ?case by auto
next
  case (2 G seen cur queue)
  then have cur: "cur < length G" by auto
  obtain seen' queue' where step: "foldl push_unseen (seen, queue) (G ! cur) = (seen', queue')"
    by fastforce
  from push_unseen_fold [OF step] "2.prems"(2) obtain new
    where new: "seen' = seen @ new" "queue' = queue @ new" "distinct seen'"
      "set seen' = set seen \<union> set (G ! cur)" by blast
  have "(i, cur) \<in> (edge G)\<^sup>*" using "2.prems"(3,5) by auto
  then have "(i, j) \<in> (edge G)\<^sup>*" if "j \<in> set (G ! cur)" for j
    using cur that by (meson edgeI rtrancl_into_rtrancl)
  with new "2.prems"(5) have "set seen' \<subseteq> (edge G)\<^sup>* `` {i}" by auto
  moreover have "\<forall>j \<in> set seen'. j < length G"
    using new "2.prems"(1,4) cur in_rangeD by blast
  moreover have "\<forall>j \<in> set seen' - set queue'. set (G ! j) \<subseteq> set seen'"
  proof
    fix j assume j: "j \<in> set seen' - set queue'"
    show "set (G ! j) \<subseteq> set seen'"
    proof (cases "j = cur")
      case False
      with j new have "j \<in> set seen - set (cur # queue)" by auto
      with "2.prems"(6) new show ?thesis by blast
    qed (use new in blast)
  qed
  moreover have "set queue' \<subseteq> set seen'" "i \<in> set seen'" using new "2.prems"(3,7) by auto
  ultimately show ?case
    using "2.IH" [of "(seen', queue')" seen' queue'] step cur new "2.prems"(1) by simp
qed

lemma closure_eq:
  assumes "in_range G" and "i < length G"
  shows "\<exists>out. closure i G = Some out \<and> sorted out \<and> distinct out \<and> set out = (edge G)\<^sup>* `` {i}"
  using closure_loop_correct [of G "[i]" "[i]" i] assms by (auto simp: closure_def)

end
