(* ===== verification/Workflow.thy ===== *)
theory Workflow
  imports Graph ToolPolicies
begin

text \<open>
  Workflows and their plans (\<open>runtime/workflow.go\<close>): the records a workflow is defined with,
  \<open>compileWorkflow\<close> with every check it makes in the order it makes them, the compiled
  \<open>plan\<close>, \<open>checkInput\<close> and \<open>validateJSON\<close>.

  What the code does not define itself is an argument: \<open>compileSchema\<close> and the \<open>Validate\<close>
  of the JSON Schema package, \<open>compileRegexp\<close> for the pattern language of \<open>regexp.Compile\<close>,
  whose patterns and schemas are of the types \<open>'re\<close> and \<open>'sc\<close>. Stage kinds and failure
  policies come from a configuration file, so any string may occur.

  The lemmas say when a workflow compiles and what its plan then satisfies.
\<close>

section \<open>Definitions of agents, stages and workflows\<close>

record 'p Agent =
  ag_Name :: string
  ag_Role :: string
  ag_Instructions :: string
  ag_Model :: string
  ag_Provider :: 'p
  ag_Tools :: "string list"
  ag_Children :: "string list"
  ag_MaxToolLoops :: int
  ag_AskHuman :: bool
  ag_Timeout :: duration
  ag_tenant :: TenantID

type_synonym StageKind = string

abbreviation StageSequential :: StageKind where "StageSequential \<equiv> ''sequential''"
abbreviation StageParallel :: StageKind where "StageParallel \<equiv> ''parallel''"

type_synonym FailurePolicy = string

abbreviation FailFast :: FailurePolicy where "FailFast \<equiv> ''fail_fast''"
abbreviation WaitAll :: FailurePolicy where "WaitAll \<equiv> ''wait_all''"
abbreviation BestEffort :: FailurePolicy where "BestEffort \<equiv> ''best_effort''"
abbreviation Quorum :: FailurePolicy where "Quorum \<equiv> ''quorum''"

record AgentStep =
  as_Name :: string
  as_Prompt :: string
  as_Images :: "string list"

record RetryPolicy =
  rp_MaxAttempts :: int
  rp_Backoff :: duration

record HandBack =
  hb_When :: string
  hb_To :: string
  hb_MaxTimes :: int

record Stage =
  sg_Name :: string
  sg_Kind :: StageKind
  sg_Agents :: "AgentStep list"
  sg_FailurePolicy :: FailurePolicy
  sg_Quorum :: int
  sg_DependsOn :: "string list"
  sg_Timeout :: duration
  sg_Retry :: RetryPolicy
  sg_HandBack :: "HandBack option"
  sg_StopWhen :: string
  sg_OutputSchema :: raw
  sg_ApproveStart :: bool
  sg_ApproveOutput :: bool

record Workflow =
  wf_Name :: string
  wf_InputSchema :: raw
  wf_ToolPolicy :: "ToolPolicy option"
  wf_Stages :: "Stage list"

definition defaultHandBacks :: int where
  "defaultHandBacks = 3"

record ('re, 'sc) plan =
  p_stages :: "Stage list"
  p_deps :: edges
  p_dependents :: edges
  p_input :: "'sc option"
  p_output :: "'sc option list"
  p_stopWhen :: "'re option list"
  p_handWhen :: "'re option list"
  p_handTo :: "nat list"

section \<open>Compiling a workflow\<close>

text \<open>The first loop: names are present and distinct; \<open>index\<close> maps them to positions.\<close>

fun indexStages :: "(string \<rightharpoonup> nat) \<Rightarrow> bool \<Rightarrow> nat \<Rightarrow> Stage list
    \<Rightarrow> goerr + ((string \<rightharpoonup> nat) \<times> bool)" where
  "indexStages index graph i [] = Inr (index, graph)"
| "indexStages index graph i (s # ss) =
     (if sg_Name s = [] then Inl (new_error ''stage %d has no name'')
      else if index (sg_Name s) \<noteq> None then Inl (new_error ''duplicate stage %q'')
      else indexStages (index(sg_Name s \<mapsto> i)) (graph \<or> sg_DependsOn s \<noteq> []) (Suc i) ss)"

text \<open>The checks of one stage that do not change the plan, up to its dependencies.\<close>

definition checkStage :: "(string \<rightharpoonup> 'p Agent) \<Rightarrow> Stage \<Rightarrow> goerr option" where
  "checkStage agents s =
     (if sg_Kind s \<notin> {[], StageSequential, StageParallel}
      then Some (new_error ''stage %q: unknown kind %q'')
      else if sg_FailurePolicy s \<notin> {[], FailFast, WaitAll, BestEffort, Quorum}
      then Some (new_error ''stage %q: unknown failure_policy %q'')
      else if sg_Agents s = [] then Some (new_error ''stage %q: no agents'')
      else if (sg_FailurePolicy s = Quorum) \<noteq> (sg_Quorum s \<noteq> 0) \<or> sg_Quorum s < 0
         \<or> sg_Quorum s > int (length (sg_Agents s))
      then Some (new_error ''stage %q: quorum must be set for, and only for, failure_policy quorum, between 1 and the number of agents'')
      else if sg_FailurePolicy s = Quorum \<and> sg_Kind s \<noteq> StageParallel
      then Some (new_error ''stage %q: failure_policy quorum needs kind parallel'')
      else if list_ex (\<lambda>a. agents (as_Name a) = None) (sg_Agents s)
      then Some (new_error ''stage %q: unknown agent %q'')
      else if sg_Timeout s < 0 \<or> rp_MaxAttempts (sg_Retry s) < 0 \<or> rp_Backoff (sg_Retry s) < 0
      then Some (new_error ''stage %q: timeout and retry must not be negative'')
      else None)"

text \<open>
  \<open>link i j p\<close> records that stage \<open>i\<close> depends on stage \<open>j\<close>. \<open>linkAll\<close> is the loop over
  \<open>DependsOn\<close>.
\<close>

definition link :: "nat \<Rightarrow> nat \<Rightarrow> ('re, 'sc) plan \<Rightarrow> ('re, 'sc) plan" where
  "link i j p = p\<lparr>p_deps := (p_deps p)[i := p_deps p ! i @ [j]],
                  p_dependents := (p_dependents p)[j := p_dependents p ! j @ [i]]\<rparr>"

fun linkAll :: "(string \<rightharpoonup> nat) \<Rightarrow> nat \<Rightarrow> string list \<Rightarrow> ('re, 'sc) plan
    \<Rightarrow> goerr + ('re, 'sc) plan" where
  "linkAll index i [] p = Inr p"
| "linkAll index i (d # ds) p =
     (case index d of
        None \<Rightarrow> Inl (new_error ''stage %q: depends on unknown stage %q'')
      | Some j \<Rightarrow>
          if j = i then Inl (new_error ''stage %q: depends on unknown stage %q'')
          else linkAll index i ds (link i j p))"

definition linkStage :: "(string \<rightharpoonup> nat) \<Rightarrow> bool \<Rightarrow> nat \<Rightarrow> Stage \<Rightarrow> ('re, 'sc) plan
    \<Rightarrow> goerr + ('re, 'sc) plan" where
  "linkStage index graph i s p =
     (if graph then linkAll index i (sg_DependsOn s) p
      else if i > 0 then Inr (p\<lparr>p_deps := (p_deps p)[i := [i - 1]],
                                p_dependents := (p_dependents p)[i - 1 := [i]]\<rparr>)
      else Inr p)"

text \<open>The rest of the body of the second loop: the stop pattern and the output schema.\<close>

definition compileStage :: "(string \<Rightarrow> goerr + 're) \<Rightarrow> (json \<Rightarrow> goerr + 'sc) \<Rightarrow> nat \<Rightarrow> Stage
    \<Rightarrow> ('re, 'sc) plan \<Rightarrow> goerr + ('re, 'sc) plan" where
  "compileStage compileRegexp compileSchema i s p =
     (case (if sg_StopWhen s = [] then Inr p
            else case compileRegexp (sg_StopWhen s) of
                Inl _ \<Rightarrow> Inl (new_error ''stage %q: stop_when: %v'')
              | Inr re \<Rightarrow> Inr (p\<lparr>p_stopWhen := (p_stopWhen p)[i := Some re]\<rparr>)) of
        Inl e \<Rightarrow> Inl e
      | Inr p' \<Rightarrow>
          (case sg_OutputSchema s of
             None \<Rightarrow> Inr p'
           | Some doc \<Rightarrow>
               (case compileSchema doc of
                  Inl _ \<Rightarrow> Inl (new_error ''stage %q: output_schema: %v'')
                | Inr sc \<Rightarrow> Inr (p'\<lparr>p_output := (p_output p')[i := Some sc]\<rparr>))))"

fun compileStages :: "(string \<Rightarrow> goerr + 're) \<Rightarrow> (json \<Rightarrow> goerr + 'sc) \<Rightarrow> (string \<rightharpoonup> 'p Agent)
    \<Rightarrow> (string \<rightharpoonup> nat) \<Rightarrow> bool \<Rightarrow> nat \<Rightarrow> Stage list \<Rightarrow> ('re, 'sc) plan
    \<Rightarrow> goerr + ('re, 'sc) plan" where
  "compileStages compileRegexp compileSchema agents index graph i [] p = Inr p"
| "compileStages compileRegexp compileSchema agents index graph i (s # ss) p =
     (case checkStage agents s of
        Some e \<Rightarrow> Inl e
      | None \<Rightarrow>
          (case linkStage index graph i s p of
             Inl e \<Rightarrow> Inl e
           | Inr p1 \<Rightarrow>
               (case compileStage compileRegexp compileSchema i s p1 of
                  Inl e \<Rightarrow> Inl e
                | Inr p2 \<Rightarrow>
                    compileStages compileRegexp compileSchema agents index graph (Suc i) ss p2)))"

definition ancestorsOrSelf :: "('re, 'sc) plan \<Rightarrow> nat \<Rightarrow> nat list option" where
  "ancestorsOrSelf p i = closure i (p_deps p)"

definition descendantsOrSelf :: "('re, 'sc) plan \<Rightarrow> nat \<Rightarrow> nat list option" where
  "descendantsOrSelf p i = closure i (p_dependents p)"

text \<open>
  The third loop: hand-backs go to the stage itself or to one it depends on. The outer option
  is a panic of \<open>ancestorsOrSelf\<close>.
\<close>

definition compileHandBack :: "(string \<Rightarrow> goerr + 're) \<Rightarrow> (string \<rightharpoonup> nat) \<Rightarrow> nat \<Rightarrow> HandBack
    \<Rightarrow> ('re, 'sc) plan \<Rightarrow> (goerr + ('re, 'sc) plan) option" where
  "compileHandBack compileRegexp index i h p =
     (case compileRegexp (hb_When h) of
        Inl _ \<Rightarrow> Some (Inl (new_error ''stage %q: hand_back.when must be a non-empty regexp''))
      | Inr re \<Rightarrow>
          if hb_When h = []
          then Some (Inl (new_error ''stage %q: hand_back.when must be a non-empty regexp''))
          else (case index (hb_To h) of
              None \<Rightarrow> Some (Inl (new_error ''stage %q: hand_back.to %q is not this stage or one it depends on''))
            | Some j \<Rightarrow>
                (case ancestorsOrSelf p i of
                   None \<Rightarrow> None
                 | Some anc \<Rightarrow>
                     if j \<notin> set anc
                     then Some (Inl (new_error ''stage %q: hand_back.to %q is not this stage or one it depends on''))
                     else if hb_MaxTimes h < 0
                     then Some (Inl (new_error ''stage %q: hand_back.max_times must not be negative''))
                     else Some (Inr (p\<lparr>p_handWhen := (p_handWhen p)[i := Some re],
                                       p_handTo := (p_handTo p)[i := j]\<rparr>)))))"

fun compileHandBacks :: "(string \<Rightarrow> goerr + 're) \<Rightarrow> (string \<rightharpoonup> nat) \<Rightarrow> nat \<Rightarrow> Stage list
    \<Rightarrow> ('re, 'sc) plan \<Rightarrow> (goerr + ('re, 'sc) plan) option" where
  "compileHandBacks compileRegexp index i [] p = Some (Inr p)"
| "compileHandBacks compileRegexp index i (s # ss) p =
     (case sg_HandBack s of
        None \<Rightarrow> compileHandBacks compileRegexp index (Suc i) ss p
      | Some h \<Rightarrow>
          (case compileHandBack compileRegexp index i h p of
             Some (Inr p') \<Rightarrow> compileHandBacks compileRegexp index (Suc i) ss p'
           | r \<Rightarrow> r))"

definition emptyPlan :: "Stage list \<Rightarrow> ('re, 'sc) plan" where
  "emptyPlan ss = (let n = length ss in \<lparr>p_stages = ss, p_deps = replicate n [],
     p_dependents = replicate n [], p_input = None, p_output = replicate n None,
     p_stopWhen = replicate n None, p_handWhen = replicate n None, p_handTo = replicate n 0\<rparr>)"

definition compileInput :: "(json \<Rightarrow> goerr + 'sc) \<Rightarrow> Workflow \<Rightarrow> ('re, 'sc) plan
    \<Rightarrow> goerr + ('re, 'sc) plan" where
  "compileInput compileSchema w p =
     (case (case wf_ToolPolicy w of None \<Rightarrow> None | Some tp \<Rightarrow> ToolPolicy_Validate tp) of
        Some e \<Rightarrow> Inl e
      | None \<Rightarrow>
          (case wf_InputSchema w of
             None \<Rightarrow> Inr p
           | Some doc \<Rightarrow>
               (case compileSchema doc of
                  Inl e \<Rightarrow> Inl (Errorf ''input_schema: %w'' [e])
                | Inr sc \<Rightarrow> Inr (p\<lparr>p_input := Some sc\<rparr>))))"

definition compileWorkflow :: "(string \<Rightarrow> goerr + 're) \<Rightarrow> (json \<Rightarrow> goerr + 'sc)
    \<Rightarrow> Workflow \<Rightarrow> (string \<rightharpoonup> 'p Agent) \<Rightarrow> (goerr + ('re, 'sc) plan) option" where
  "compileWorkflow compileRegexp compileSchema w agents =
     (if wf_Stages w = [] then Some (Inl (new_error ''workflow has no stages''))
      else case indexStages Map.empty False 0 (wf_Stages w) of
        Inl e \<Rightarrow> Some (Inl e)
      | Inr (index, graph) \<Rightarrow>
          (case compileInput compileSchema w (emptyPlan (wf_Stages w)) of
             Inl e \<Rightarrow> Some (Inl e)
           | Inr p0 \<Rightarrow>
               (case compileStages compileRegexp compileSchema agents index graph 0 (wf_Stages w) p0 of
                  Inl e \<Rightarrow> Some (Inl e)
                | Inr p \<Rightarrow>
                    (case cyclic (p_deps p) of
                       None \<Rightarrow> None
                     | Some True \<Rightarrow> Some (Inl (new_error ''stage dependencies form a cycle''))
                     | Some False \<Rightarrow>
                         compileHandBacks compileRegexp index 0 (wf_Stages w) p))))"

definition checkInput :: "('sc \<Rightarrow> json \<Rightarrow> goerr option) \<Rightarrow> ('re, 'sc) plan
    \<Rightarrow> (string, string) gomap \<Rightarrow> goerr option" where
  "checkInput schemaValidate p input =
     (case p_input p of
        None \<Rightarrow> None
      | Some sc \<Rightarrow>
          (case schemaValidate sc (JObj (mmap JStr input)) of
             None \<Rightarrow> None
           | Some e \<Rightarrow> Some (Errorf ''input does not match the workflow input_schema: %w'' [e])))"

definition validateJSON :: "(string \<Rightarrow> goerr + json) \<Rightarrow> ('sc \<Rightarrow> json \<Rightarrow> goerr option)
    \<Rightarrow> 'sc \<Rightarrow> string \<Rightarrow> goerr option" where
  "validateJSON unmarshal schemaValidate sc body =
     (case unmarshal body of
        Inl e \<Rightarrow> Some (Errorf ''the answer is not a JSON document: %w'' [e])
      | Inr doc \<Rightarrow> schemaValidate sc doc)"


section \<open>What a compiled plan satisfies\<close>

text \<open>Stage \<open>i\<close> depends on stage \<open>j\<close>, read off the names of the workflow's stages.\<close>

definition stage_edges :: "Stage list \<Rightarrow> (nat \<times> nat) set" where
  "stage_edges ss =
     (if list_ex (\<lambda>s. sg_DependsOn s \<noteq> []) ss
      then {(i, j). i < length ss \<and> j < length ss \<and> sg_Name (ss ! j) \<in> set (sg_DependsOn (ss ! i))}
      else {(i, j). i < length ss \<and> i = Suc j})"

definition hand_back_ok :: "(string \<Rightarrow> goerr + 're) \<Rightarrow> ('re, 'sc) plan \<Rightarrow> nat \<Rightarrow> bool" where
  "hand_back_ok compileRegexp p i \<longleftrightarrow>
     (case sg_HandBack (p_stages p ! i) of
        None \<Rightarrow> p_handWhen p ! i = None
      | Some h \<Rightarrow>
          p_handWhen p ! i \<noteq> None \<and> hb_When h \<noteq> [] \<and>
          compileRegexp (hb_When h) = Inr (the (p_handWhen p ! i)) \<and> 0 \<le> hb_MaxTimes h \<and>
          p_handTo p ! i < length (p_stages p) \<and>
          sg_Name (p_stages p ! (p_handTo p ! i)) = hb_To h \<and>
          (i, p_handTo p ! i) \<in> (edge (p_deps p))\<^sup>*)"

definition links_ok :: "nat \<Rightarrow> ('re, 'sc) plan \<Rightarrow> bool" where
  "links_ok n p \<longleftrightarrow> length (p_deps p) = n \<and> length (p_dependents p) = n \<and>
     in_range (p_deps p) \<and> in_range (p_dependents p) \<and>
     edge (p_dependents p) = (edge (p_deps p))\<inverse>"

text \<open>The plans the workflow engine runs.\<close>

definition plan_ok :: "(string \<Rightarrow> goerr + 're) \<Rightarrow> ('re, 'sc) plan \<Rightarrow> bool" where
  "plan_ok compileRegexp p \<longleftrightarrow>
     (let n = length (p_stages p) in
        0 < n \<and> links_ok n p \<and> acyclic (edge (p_deps p)) \<and>
        length (p_output p) = n \<and> length (p_stopWhen p) = n \<and>
        length (p_handWhen p) = n \<and> length (p_handTo p) = n \<and>
        distinct (map sg_Name (p_stages p)) \<and>
        (\<forall>i < n. hand_back_ok compileRegexp p i))"

lemma indexStages_correct:
  "indexStages index graph i ss = Inr (index', graph') \<Longrightarrow>
   distinct (map sg_Name ss) \<and> (\<forall>s \<in> set ss. sg_Name s \<noteq> [] \<and> index (sg_Name s) = None) \<and>
   (graph' \<longleftrightarrow> graph \<or> list_ex (\<lambda>s. sg_DependsOn s \<noteq> []) ss) \<and>
   (\<forall>d j. index' d = Some j \<longleftrightarrow>
      index d = Some j \<or> (i \<le> j \<and> j < i + length ss \<and> sg_Name (ss ! (j - i)) = d))"
proof (induction ss arbitrary: index graph i)
  case (Cons s ss)
  from Cons.prems have fresh: "sg_Name s \<noteq> []" "index (sg_Name s) = None"
    and rest: "indexStages (index(sg_Name s \<mapsto> i)) (graph \<or> sg_DependsOn s \<noteq> []) (Suc i) ss
      = Inr (index', graph')"
    by (auto split: if_splits)
  note IH = Cons.IH [OF rest]
  have other: "\<forall>s' \<in> set ss. sg_Name s' \<noteq> [] \<and> sg_Name s' \<noteq> sg_Name s \<and> index (sg_Name s') = None"
    using IH by (auto split: if_splits)
  have "index' d = Some j \<longleftrightarrow> index d = Some j \<or>
      (i \<le> j \<and> j < i + length (s # ss) \<and> sg_Name ((s # ss) ! (j - i)) = d)" for d j
  proof (cases "j = i")
    case True
    with IH fresh show ?thesis by auto
  next
    case False
    then have "(s # ss) ! (j - i) = ss ! (j - Suc i)" if "i \<le> j"
      using that by (simp add: nth_Cons')
    with IH False fresh other show ?thesis by (auto simp: Suc_le_eq)
  qed
  with IH fresh other show ?case by auto
qed auto

lemma in_range_append:
  assumes "in_range G" and "i < length G" and "j < length G"
  shows "in_range (G[i := G ! i @ [j]])"
  using assms set_update_subset_insert [of G i "G ! i @ [j]"]
  by (fastforce simp: in_range_def list_all_iff)

lemma edge_append:
  assumes "i < length G" shows "edge (G[i := G ! i @ [j]]) = insert (i, j) (edge G)"
  using assms by (auto simp: edge_def nth_list_update split: if_splits)

lemma link_ok:
  assumes "links_ok n p" and "i < n" and "j < n"
  shows "links_ok n (link i j p)" and "edge (p_deps (link i j p)) = insert (i, j) (edge (p_deps p))"
  using assms by (auto simp: links_ok_def link_def in_range_append edge_append)

text \<open>Compiling the dependencies leaves the other parts of a plan alone.\<close>

definition same_rest :: "('re, 'sc) plan \<Rightarrow> ('re, 'sc) plan \<Rightarrow> bool" where
  "same_rest p p' \<longleftrightarrow> p_stages p' = p_stages p \<and> length (p_output p') = length (p_output p) \<and>
     length (p_stopWhen p') = length (p_stopWhen p) \<and> p_handWhen p' = p_handWhen p \<and>
     p_handTo p' = p_handTo p"

lemma same_rest_refl [simp]: "same_rest p p"
  by (simp add: same_rest_def)

lemma same_rest_trans: "same_rest p q \<Longrightarrow> same_rest q r \<Longrightarrow> same_rest p r"
  by (simp add: same_rest_def)

lemma linkAll_correct:
  "linkAll index i ds p = Inr p' \<Longrightarrow> links_ok n p \<Longrightarrow> i < n \<Longrightarrow> \<forall>d j. index d = Some j \<longrightarrow> j < n \<Longrightarrow>
   links_ok n p' \<and> same_rest p p' \<and>
   edge (p_deps p') = edge (p_deps p) \<union> {(i, j) |j. \<exists>d \<in> set ds. index d = Some j}"
proof (induction ds arbitrary: p)
  case (Cons d ds)
  then obtain j where j: "index d = Some j" "j < n"
    and rest: "linkAll index i ds (link i j p) = Inr p'"
    by (auto split: option.splits if_splits)
  have "same_rest p (link i j p)" by (simp add: same_rest_def link_def)
  with Cons.IH [OF rest] link_ok [OF Cons.prems(2,3) j(2)] Cons.prems j show ?case
    by (auto intro: same_rest_trans)
qed simp

definition dep_edges :: "(string \<rightharpoonup> nat) \<Rightarrow> bool \<Rightarrow> nat \<Rightarrow> Stage \<Rightarrow> (nat \<times> nat) set" where
  "dep_edges index graph i s =
     (if graph then {(i, j) |j. \<exists>d \<in> set (sg_DependsOn s). index d = Some j}
      else {(i, j) |j. i = Suc j})"

lemma linkStage_correct:
  assumes link: "linkStage index graph i s p = Inr p'" and p: "links_ok n p" "i < n"
    and index: "\<forall>d j. index d = Some j \<longrightarrow> j < n"
    and line: "\<not> graph \<Longrightarrow> edge (p_deps p) = {(a, b). a < i \<and> a = Suc b}"
  shows "links_ok n p' \<and> same_rest p p' \<and>
    edge (p_deps p') = edge (p_deps p) \<union> dep_edges index graph i s"
proof (cases graph)
  case True
  with link have "linkAll index i (sg_DependsOn s) p = Inr p'" by (simp add: linkStage_def)
  from linkAll_correct [OF this p index] True show ?thesis by (simp add: dep_edges_def)
next
  case False
  show ?thesis
  proof (cases i)
    case 0
    with False link show ?thesis using p by (auto simp: linkStage_def dep_edges_def)
  next
    case (Suc k)
    have "(i, d) \<notin> edge (p_deps p)" "(k, d) \<notin> edge (p_dependents p)" for d
      using line [OF False] p Suc by (auto simp: links_ok_def)
    then have "p_deps p ! i = []" "p_dependents p ! k = []"
      using p Suc by (auto simp: links_ok_def edge_iff intro: list.set_sel(1))
    with link False Suc have p': "p' = link i k p" by (simp add: linkStage_def link_def)
    have "k < n" using p Suc by simp
    from link_ok [OF p this] show ?thesis
      unfolding p' using False Suc by (auto simp: dep_edges_def same_rest_def link_def)
  qed
qed

lemma compileStage_same:
  assumes "compileStage compileRegexp compileSchema i s p = Inr p'"
  shows "same_rest p p' \<and> p_deps p' = p_deps p \<and> p_dependents p' = p_dependents p"
  using assms
  by (auto simp: compileStage_def same_rest_def split: if_splits sum.splits option.splits)

lemma links_ok_cong:
  "p_deps p' = p_deps p \<Longrightarrow> p_dependents p' = p_dependents p \<Longrightarrow> links_ok n p' = links_ok n p"
  by (simp add: links_ok_def)


text \<open>The second loop builds the edges of all stages and checks each of them.\<close>

lemma compileStages_correct:
  "compileStages compileRegexp compileSchema agents index graph i ss p = Inr p' \<Longrightarrow>
   links_ok n p \<Longrightarrow> i + length ss = n \<Longrightarrow> \<forall>d j. index d = Some j \<longrightarrow> j < n \<Longrightarrow>
   (\<not> graph \<Longrightarrow> edge (p_deps p) = {(a, b). a < i \<and> a = Suc b}) \<Longrightarrow>
   links_ok n p' \<and> same_rest p p' \<and> list_all (\<lambda>s. checkStage agents s = None) ss \<and>
   edge (p_deps p') = edge (p_deps p) \<union> (\<Union>k < length ss. dep_edges index graph (i + k) (ss ! k))"
proof (induction ss arbitrary: i p)
  case (Cons s ss)
  from Cons.prems(1) obtain p1 p2 where check: "checkStage agents s = None"
    and one: "linkStage index graph i s p = Inr p1"
    and two: "compileStage compileRegexp compileSchema i s p1 = Inr p2"
    and rest: "compileStages compileRegexp compileSchema agents index graph (Suc i) ss p2 = Inr p'"
    by (auto split: option.splits sum.splits)
  from linkStage_correct [OF one Cons.prems(2) _ Cons.prems(4,5)] Cons.prems(3)
  have p1: "links_ok n p1" "same_rest p p1"
    "edge (p_deps p1) = edge (p_deps p) \<union> dep_edges index graph i s" by auto
  from compileStage_same [OF two] p1 have p2: "links_ok n p2" "same_rest p p2"
    "edge (p_deps p2) = edge (p_deps p) \<union> dep_edges index graph i s"
    by (auto simp: links_ok_cong [of p2 p1] intro: same_rest_trans)
  have "edge (p_deps p2) = {(a, b). a < Suc i \<and> a = Suc b}" if "\<not> graph"
    using p2(3) Cons.prems(5) [OF that] that by (auto simp: dep_edges_def)
  note Cons.IH [OF rest p2(1) _ Cons.prems(4) this]
  then have IH: "links_ok n p'" "same_rest p2 p'" "list_all (\<lambda>s. checkStage agents s = None) ss"
    "edge (p_deps p') = edge (p_deps p2) \<union>
      (\<Union>k < length ss. dep_edges index graph (Suc i + k) (ss ! k))"
    using Cons.prems(3) by auto
  have "(\<Union>k < length (s # ss). dep_edges index graph (i + k) ((s # ss) ! k)) =
      dep_edges index graph i s \<union> (\<Union>k < length ss. dep_edges index graph (Suc i + k) (ss ! k))"
    by (simp add: lessThan_Suc_eq_insert_0 image_image)
  with IH p2 check show ?case by (auto intro: same_rest_trans)
qed simp

lemma dep_edges_stage_edges:
  assumes "\<forall>d j. index d = Some j \<longleftrightarrow> j < length ss \<and> sg_Name (ss ! j) = d"
    and "graph \<longleftrightarrow> list_ex (\<lambda>s. sg_DependsOn s \<noteq> []) ss"
  shows "(\<Union>k < length ss. dep_edges index graph k (ss ! k)) = stage_edges ss"
proof (cases graph)
  case True
  with assms(2) have g: "list_ex (\<lambda>s. sg_DependsOn s \<noteq> []) ss" by simp
  have "(i, j) \<in> (\<Union>k < length ss. dep_edges index graph k (ss ! k)) \<longleftrightarrow> (i, j) \<in> stage_edges ss"
    for i j
    using assms(1) True unfolding stage_edges_def if_P [OF g] by (auto simp: dep_edges_def)
  then show ?thesis by auto
next
  case False
  with assms(2) have g: "\<not> list_ex (\<lambda>s. sg_DependsOn s \<noteq> []) ss" by simp
  show ?thesis unfolding stage_edges_def if_not_P [OF g] using False by (auto simp: dep_edges_def)
qed

lemma compileHandBack_correct:
  assumes "compileHandBack compileRegexp index i h p = Some (Inr p')"
    and links: "links_ok n p" and i: "i < n" "length (p_handWhen p) = n" "length (p_handTo p) = n"
  shows "\<exists>re j. p' = p\<lparr>p_handWhen := (p_handWhen p)[i := Some re], p_handTo := (p_handTo p)[i := j]\<rparr> \<and>
    compileRegexp (hb_When h) = Inr re \<and> hb_When h \<noteq> [] \<and> 0 \<le> hb_MaxTimes h \<and>
    index (hb_To h) = Some j \<and> (i, j) \<in> (edge (p_deps p))\<^sup>*"
proof -
  from closure_eq [of "p_deps p" i] links i(1) obtain anc
    where "ancestorsOrSelf p i = Some anc" "set anc = (edge (p_deps p))\<^sup>* `` {i}"
    by (auto simp: links_ok_def ancestorsOrSelf_def)
  with assms(1) show ?thesis
    by (auto simp: compileHandBack_def split: sum.splits if_splits option.splits)
qed

lemma compileHandBack_total:
  assumes "links_ok n p" and "i < n"
  shows "compileHandBack compileRegexp index i h p \<noteq> None"
  using closure_eq [of "p_deps p" i] assms
  by (auto simp: compileHandBack_def ancestorsOrSelf_def links_ok_def split: sum.splits option.splits)

text \<open>The third loop touches the stages from \<open>i\<close> on and gives each its checked hand-back.\<close>

lemma compileHandBacks_correct:
  "compileHandBacks compileRegexp index i ss p = Some (Inr p') \<Longrightarrow>
   links_ok n p \<Longrightarrow> length (p_stages p) = n \<Longrightarrow> length (p_handWhen p) = n \<Longrightarrow>
   length (p_handTo p) = n \<Longrightarrow> i + length ss = n \<Longrightarrow> ss = drop i (p_stages p) \<Longrightarrow>
   \<forall>d j. index d = Some j \<longrightarrow> j < n \<and> sg_Name (p_stages p ! j) = d \<Longrightarrow>
   \<forall>k < i. hand_back_ok compileRegexp p k \<Longrightarrow> \<forall>k \<ge> i. k < n \<longrightarrow> p_handWhen p ! k = None \<Longrightarrow>
   p_stages p' = p_stages p \<and> p_deps p' = p_deps p \<and> p_dependents p' = p_dependents p \<and>
   p_input p' = p_input p \<and> p_output p' = p_output p \<and> p_stopWhen p' = p_stopWhen p \<and>
   length (p_handWhen p') = n \<and> length (p_handTo p') = n \<and>
   (\<forall>k < n. hand_back_ok compileRegexp p' k)"
proof (induction ss arbitrary: i p)
  case (Cons s ss)
  have s: "p_stages p ! i = s" "i < n" "ss = drop (Suc i) (p_stages p)"
    using Cons.prems(6) nth_via_drop [OF Cons.prems(7) [symmetric]]
    by (simp_all add: drop_Suc drop_tl Cons.prems(7) [symmetric])
  show ?case
  proof (cases "sg_HandBack s")
    case None
    with s Cons.prems have "hand_back_ok compileRegexp p i" by (simp add: hand_back_ok_def)
    then have "\<forall>k < Suc i. hand_back_ok compileRegexp p k"
      using Cons.prems(9) by (auto simp: less_Suc_eq)
    with Cons.IH [of "Suc i" p] None Cons.prems s show ?thesis by simp
  next
    case (Some h)
    with Cons.prems(1) obtain p1 where one: "compileHandBack compileRegexp index i h p = Some (Inr p1)"
      and rest: "compileHandBacks compileRegexp index (Suc i) ss p1 = Some (Inr p')"
      by (auto split: option.splits sum.splits)
    from compileHandBack_correct [OF one Cons.prems(2) s(2) Cons.prems(4,5)] obtain re j
      where p1: "p1 = p\<lparr>p_handWhen := (p_handWhen p)[i := Some re], p_handTo := (p_handTo p)[i := j]\<rparr>"
        and h: "compileRegexp (hb_When h) = Inr re" "hb_When h \<noteq> []" "0 \<le> hb_MaxTimes h"
          "index (hb_To h) = Some j" "(i, j) \<in> (edge (p_deps p))\<^sup>*" by blast
    have "hand_back_ok compileRegexp p1 i"
      using Some s h Cons.prems(3-5,8) by (simp add: hand_back_ok_def p1)
    moreover have "hand_back_ok compileRegexp p1 k" if "k < i" for k
    proof -
      from that have "hand_back_ok compileRegexp p1 k = hand_back_ok compileRegexp p k"
        by (cases "sg_HandBack (p_stages p ! k)") (simp_all add: hand_back_ok_def p1)
      with Cons.prems(9) that show ?thesis by simp
    qed
    ultimately have upto: "\<forall>k < Suc i. hand_back_ok compileRegexp p1 k"
      by (auto simp: less_Suc_eq)
    have "links_ok n p1" using Cons.prems(2) by (simp add: p1 links_ok_def)
    from Cons.IH [OF rest this _ _ _ _ _ _ upto] Cons.prems s show ?thesis by (simp add: p1)
  qed
qed simp


lemma compileHandBacks_total:
  "links_ok n p \<Longrightarrow> i + length ss = n \<Longrightarrow> length (p_handWhen p) = n \<Longrightarrow> length (p_handTo p) = n \<Longrightarrow>
   compileHandBacks compileRegexp index i ss p \<noteq> None"
proof (induction ss arbitrary: i p)
  case (Cons s ss)
  show ?case
  proof (cases "sg_HandBack s")
    case (Some h)
    have i: "i < n" using Cons.prems by simp
    obtain r where r: "compileHandBack compileRegexp index i h p = Some r"
      using compileHandBack_total [OF Cons.prems(1) i, of compileRegexp index h] by auto
    show ?thesis
    proof (cases r)
      case (Inr p1)
      with r have "compileHandBack compileRegexp index i h p = Some (Inr p1)" by simp
      from compileHandBack_correct [OF this Cons.prems(1) i Cons.prems(3,4)] Cons.prems(3,4)
      have "p_deps p1 = p_deps p \<and> p_dependents p1 = p_dependents p \<and>
          length (p_handWhen p1) = n \<and> length (p_handTo p1) = n" by auto
      with Cons.IH [of p1 "Suc i"] Cons.prems Some r Inr show ?thesis
        by (simp add: links_ok_def)
    qed (use r Some in simp)
  qed (use Cons in simp)
qed simp

lemma links_ok_empty: "links_ok (length ss) (emptyPlan ss)"
  by (auto simp: links_ok_def emptyPlan_def Let_def in_range_def edge_def list_all_iff)

lemma compileInput_same:
  assumes "compileInput compileSchema w p = Inr p'"
  shows "\<exists>sc. p' = p\<lparr>p_input := sc\<rparr>"
  using assms by (auto simp: compileInput_def split: option.splits sum.splits intro: exI [of _ "p_input p"])

text \<open>Everything up to the cycle check: the plan has the workflow's edges and no hand-back yet.\<close>

lemma compile_links:
  assumes idx: "indexStages Map.empty False 0 (wf_Stages w) = Inr (index, graph)"
    and input: "compileInput compileSchema w (emptyPlan (wf_Stages w)) = Inr p0"
    and stages: "compileStages compileRegexp compileSchema agents index graph 0 (wf_Stages w) p0 = Inr p"
  shows "links_ok (length (wf_Stages w)) p \<and> same_rest (emptyPlan (wf_Stages w)) p \<and>
    list_all (\<lambda>s. checkStage agents s = None) (wf_Stages w) \<and>
    edge (p_deps p) = stage_edges (wf_Stages w) \<and> distinct (map sg_Name (wf_Stages w)) \<and>
    (\<forall>d j. index d = Some j \<longleftrightarrow> j < length (wf_Stages w) \<and> sg_Name (wf_Stages w ! j) = d)"
proof -
  let ?ss = "wf_Stages w"
  from indexStages_correct [OF idx]
  have names: "distinct (map sg_Name ?ss)"
    and graph: "graph \<longleftrightarrow> list_ex (\<lambda>s. sg_DependsOn s \<noteq> []) ?ss"
    and index: "\<forall>d j. index d = Some j \<longleftrightarrow> j < length ?ss \<and> sg_Name (?ss ! j) = d" by auto
  from compileInput_same [OF input] obtain sc where p0: "p0 = (emptyPlan ?ss)\<lparr>p_input := sc\<rparr>" by blast
  have links: "links_ok (length ?ss) p0"
    using links_ok_empty [of ?ss] by (simp add: p0 links_ok_def)
  have none: "edge (p_deps p0) = {}" by (auto simp: p0 emptyPlan_def Let_def edge_def)
  have "same_rest (emptyPlan ?ss) p0" by (simp add: p0 same_rest_def)
  with compileStages_correct [OF stages links _ _ ] none index names dep_edges_stage_edges [OF index graph]
  show ?thesis by (auto intro: same_rest_trans)
qed

lemma compileWorkflow_parts:
  assumes "compileWorkflow compileRegexp compileSchema w agents = Some (Inr p)"
  obtains index graph p0 p1 where "wf_Stages w \<noteq> []"
    and "indexStages Map.empty False 0 (wf_Stages w) = Inr (index, graph)"
    and "compileInput compileSchema w (emptyPlan (wf_Stages w)) = Inr p0"
    and "compileStages compileRegexp compileSchema agents index graph 0 (wf_Stages w) p0 = Inr p1"
    and "cyclic (p_deps p1) = Some False"
    and "compileHandBacks compileRegexp index 0 (wf_Stages w) p1 = Some (Inr p)"
  using assms unfolding compileWorkflow_def
  by (auto split: if_splits sum.splits prod.splits option.splits bool.splits)

lemma compileWorkflow_sound:
  assumes "compileWorkflow compileRegexp compileSchema w agents = Some (Inr p)"
  shows "plan_ok compileRegexp p \<and> p_stages p = wf_Stages w \<and>
    edge (p_deps p) = stage_edges (wf_Stages w) \<and>
    list_all (\<lambda>s. checkStage agents s = None) (wf_Stages w)"
  using assms
proof (rule compileWorkflow_parts)
  fix index graph p0 p1
  let ?ss = "wf_Stages w" and ?n = "length (wf_Stages w)"
  assume ne: "?ss \<noteq> []" and idx: "indexStages Map.empty False 0 ?ss = Inr (index, graph)"
    and input: "compileInput compileSchema w (emptyPlan ?ss) = Inr p0"
    and stages: "compileStages compileRegexp compileSchema agents index graph 0 ?ss p0 = Inr p1"
    and cyc: "cyclic (p_deps p1) = Some False"
    and backs: "compileHandBacks compileRegexp index 0 ?ss p1 = Some (Inr p)"
  note p1 = compile_links [OF idx input stages]
  then have rest: "p_stages p1 = ?ss" "length (p_output p1) = ?n" "length (p_stopWhen p1) = ?n"
    "p_handWhen p1 = replicate ?n None" "p_handTo p1 = replicate ?n 0"
    by (auto simp: same_rest_def emptyPlan_def Let_def)
  from p1 have "in_range (p_deps p1)" by (simp add: links_ok_def)
  from cyclic_iff [OF this] cyc have acyc: "acyclic (edge (p_deps p1))" by simp
  have index: "\<forall>d j. index d = Some j \<longrightarrow> j < ?n \<and> sg_Name (p_stages p1 ! j) = d"
    using p1 by (simp add: rest(1))
  have "p_stages p = p_stages p1 \<and> p_deps p = p_deps p1 \<and> p_dependents p = p_dependents p1 \<and>
      p_input p = p_input p1 \<and> p_output p = p_output p1 \<and> p_stopWhen p = p_stopWhen p1 \<and>
      length (p_handWhen p) = ?n \<and> length (p_handTo p) = ?n \<and>
      (\<forall>k < ?n. hand_back_ok compileRegexp p k)"
    by (rule compileHandBacks_correct [OF backs _ _ _ _ _ _ index])
      (use p1 in \<open>simp_all add: rest\<close>)
  with acyc show ?thesis
    using p1 rest ne by (simp add: plan_ok_def Let_def links_ok_def)
qed

lemma compileWorkflow_total: "compileWorkflow compileRegexp compileSchema w agents \<noteq> None"
proof
  assume none: "compileWorkflow compileRegexp compileSchema w agents = None"
  then obtain index graph p0 p1 where idx: "indexStages Map.empty False 0 (wf_Stages w) = Inr (index, graph)"
    and input: "compileInput compileSchema w (emptyPlan (wf_Stages w)) = Inr p0"
    and stages: "compileStages compileRegexp compileSchema agents index graph 0 (wf_Stages w) p0 = Inr p1"
    and bad: "cyclic (p_deps p1) = None \<or>
      compileHandBacks compileRegexp index 0 (wf_Stages w) p1 = None"
    unfolding compileWorkflow_def
    by (auto split: if_splits sum.splits prod.splits option.splits bool.splits)
  note p1 = compile_links [OF idx input stages]
  then have "in_range (p_deps p1)" by (simp add: links_ok_def)
  from cyclic_iff [OF this] bad
  have "compileHandBacks compileRegexp index 0 (wf_Stages w) p1 = None" by simp
  with compileHandBacks_total [of "length (wf_Stages w)" p1 0 "wf_Stages w" compileRegexp index] p1
  show False by (simp add: same_rest_def emptyPlan_def Let_def)
qed

text \<open>The closures the engine asks a compiled plan for never panic.\<close>

lemma ancestorsOrSelf_eq:
  assumes "plan_ok compileRegexp p" and "i < length (p_stages p)"
  shows "\<exists>out. ancestorsOrSelf p i = Some out \<and> set out = (edge (p_deps p))\<^sup>* `` {i}"
  using closure_eq [of "p_deps p" i] assms
  by (auto simp: plan_ok_def Let_def links_ok_def ancestorsOrSelf_def)

lemma descendantsOrSelf_eq:
  assumes "plan_ok compileRegexp p" and "i < length (p_stages p)"
  shows "\<exists>out. descendantsOrSelf p i = Some out \<and> set out = {j. (j, i) \<in> (edge (p_deps p))\<^sup>*}"
proof -
  from assms have ok: "in_range (p_dependents p)" "i < length (p_dependents p)"
    and conv: "edge (p_dependents p) = (edge (p_deps p))\<inverse>"
    by (simp_all add: plan_ok_def Let_def links_ok_def)
  from closure_eq [OF ok] show ?thesis
    by (auto simp: descendantsOrSelf_def conv rtrancl_converse)
qed

text \<open>C13: \<open>compileWorkflow\<close> never panics, and a plan it returns is one the engine can run: the
  stages are the workflow's, their names are distinct, the dependencies are those the
  workflow names (or each stage on the one before it) and have no cycle, a quorum is between
  one and the number of agents and belongs to a parallel stage, every agent exists, and a
  hand-back goes to the stage itself or to one it depends on, directly or not.\<close>

theorem compiled_plans_are_sound:
  assumes "compileWorkflow compileRegexp compileSchema w agents = Some (Inr p)"
  shows "p_stages p = wf_Stages w \<and> p_stages p \<noteq> [] \<and> distinct (map sg_Name (p_stages p)) \<and>
    edge (p_deps p) = stage_edges (wf_Stages w) \<and> acyclic (stage_edges (wf_Stages w)) \<and>
    (\<forall>s \<in> set (p_stages p).
       sg_Agents s \<noteq> [] \<and> (\<forall>a \<in> set (sg_Agents s). agents (as_Name a) \<noteq> None) \<and>
       (if sg_FailurePolicy s = Quorum
        then sg_Kind s = StageParallel \<and> 1 \<le> sg_Quorum s \<and> sg_Quorum s \<le> int (length (sg_Agents s))
        else sg_Quorum s = 0)) \<and>
    (\<forall>i < length (p_stages p). \<forall>h. sg_HandBack (p_stages p ! i) = Some h \<longrightarrow>
       sg_Name (p_stages p ! (p_handTo p ! i)) = hb_To h \<and> 0 \<le> hb_MaxTimes h \<and>
       (i, p_handTo p ! i) \<in> (stage_edges (wf_Stages w))\<^sup>*)"
proof -
  note sound = compileWorkflow_sound [OF assms]
  then have ok: "plan_ok compileRegexp p" and checks: "list_all (\<lambda>s. checkStage agents s = None) (p_stages p)"
    by auto
  have "sg_Agents s \<noteq> [] \<and> (\<forall>a \<in> set (sg_Agents s). agents (as_Name a) \<noteq> None) \<and>
      (if sg_FailurePolicy s = Quorum
       then sg_Kind s = StageParallel \<and> 1 \<le> sg_Quorum s \<and> sg_Quorum s \<le> int (length (sg_Agents s))
       else sg_Quorum s = 0)" if "s \<in> set (p_stages p)" for s
  proof -
    from that checks have "checkStage agents s = None" by (simp add: list_all_iff)
    then show ?thesis by (auto simp: checkStage_def list_ex_iff split: if_splits)
  qed
  moreover have "sg_Name (p_stages p ! (p_handTo p ! i)) = hb_To h \<and> 0 \<le> hb_MaxTimes h \<and>
      (i, p_handTo p ! i) \<in> (stage_edges (wf_Stages w))\<^sup>*"
    if "i < length (p_stages p)" and "sg_HandBack (p_stages p ! i) = Some h" for i h
  proof -
    from that(1) ok have "hand_back_ok compileRegexp p i" by (simp add: plan_ok_def Let_def)
    with that(2) sound show ?thesis by (simp add: hand_back_ok_def)
  qed
  ultimately show ?thesis
    using sound by (auto simp: plan_ok_def Let_def)
qed

definition writer_stage :: "string \<Rightarrow> string list \<Rightarrow> HandBack option \<Rightarrow> Stage" where
  "writer_stage nm ds h = \<lparr>sg_Name = nm, sg_Kind = StageParallel,
     sg_Agents = [\<lparr>as_Name = ''w'', as_Prompt = [], as_Images = []\<rparr>], sg_FailurePolicy = Quorum,
     sg_Quorum = 1, sg_DependsOn = ds, sg_Timeout = 0, sg_Retry = \<lparr>rp_MaxAttempts = 0, rp_Backoff = 0\<rparr>,
     sg_HandBack = h, sg_StopWhen = [], sg_OutputSchema = None, sg_ApproveStart = False,
     sg_ApproveOutput = False\<rparr>"

definition draft_review :: Workflow where
  "draft_review = \<lparr>wf_Name = ''w'', wf_InputSchema = None, wf_ToolPolicy = None,
     wf_Stages = [writer_stage ''review'' [''draft'']
                    (Some \<lparr>hb_When = ''no'', hb_To = ''draft'', hb_MaxTimes = 1\<rparr>),
                  writer_stage ''draft'' [] None]\<rparr>"

definition writer_agents :: "string \<rightharpoonup> unit Agent" where
  "writer_agents = [''w'' \<mapsto> \<lparr>ag_Name = ''w'', ag_Role = [], ag_Instructions = [], ag_Model = [],
     ag_Provider = (), ag_Tools = [], ag_Children = [], ag_MaxToolLoops = 0, ag_AskHuman = False,
     ag_Timeout = 0, ag_tenant = []\<rparr>]"

definition draft_review_plan :: "(string, unit) plan" where
  "draft_review_plan = \<lparr>p_stages = wf_Stages draft_review, p_deps = [[1], []],
     p_dependents = [[], [0]], p_input = None, p_output = [None, None],
     p_stopWhen = [None, None], p_handWhen = [Some ''no'', None], p_handTo = [1, 0]\<rparr>"

lemma draft_review_compiles:
  "compileWorkflow Inr (\<lambda>_. Inr ()) draft_review writer_agents = Some (Inr draft_review_plan)"
  by (simp add: compileWorkflow_def draft_review_def draft_review_plan_def writer_stage_def
      writer_agents_def compileInput_def emptyPlan_def Let_def checkStage_def linkStage_def link_def
      compileStage_def cyclic_def compileHandBack_def ancestorsOrSelf_def closure_def upt_rec numeral_2_eq_2)

theorem compiled_plans_are_sound_witness:
  "(0, 1) \<in> (stage_edges (wf_Stages draft_review))\<^sup>* \<and> acyclic (stage_edges (wf_Stages draft_review))"
proof -
  let ?p = draft_review_plan and ?E = "(stage_edges (wf_Stages draft_review))\<^sup>*"
  have "0 < length (p_stages ?p)"
    "sg_HandBack (p_stages ?p ! 0) = Some \<lparr>hb_When = ''no'', hb_To = ''draft'', hb_MaxTimes = 1\<rparr>"
    by (simp_all add: draft_review_plan_def draft_review_def writer_stage_def)
  with compiled_plans_are_sound [OF draft_review_compiles]
  have "(0, p_handTo ?p ! 0) \<in> ?E" "acyclic (stage_edges (wf_Stages draft_review))" by blast+
  then show ?thesis by (simp add: draft_review_plan_def)
qed

end
