(* ===== verification/Tools.thy ===== *)
theory Tools
  imports Workflow Sessions
begin

text \<open>
  What an agent may use: the tool registry (\<open>tool/tool.go\<close>, lines 48 to 182), the choice between a
  tenant's own tools and the shared ones (\<open>runtime/tenanttools.go\<close>), and the agents a tenant's
  runs may use, configured or put over the API (\<open>runtime/agents.go\<close>).

  Executors, compiled schemas and model providers are values of type variables; compiling a schema,
  validating a document, decoding and encoding an agent and matching a name are arguments. A map
  held by the orchestrator is iterated in the order of its association list. Registries are locked
  during each operation, so each is one function of the registry.
\<close>

section \<open>The tool registry\<close>

record ('x, 'sc) registered =
  rg_def :: ToolDefinition
  rg_exec :: 'x
  rg_schema :: "'sc option"

type_synonym ('x, 'sc) Registry = "(string, ('x, 'sc) registered) gomap"

definition NewRegistry :: "('x, 'sc) Registry" where
  "NewRegistry = []"

text \<open>The defaults \<open>Register\<close> fills in.\<close>

definition filledTool :: "ToolID \<Rightarrow> ToolDefinition \<Rightarrow> ToolDefinition" where
  "filledTool newID d0 =
    (let d1 = (if td_ID d0 = [] then d0\<lparr>td_ID := newID\<rparr> else d0);
         d2 = (if td_Version d1 = [] then d1\<lparr>td_Version := ''1.0.0''\<rparr> else d1);
         d3 = (if td_Idempotency d2 = [] then d2\<lparr>td_Idempotency := IdemUnknown\<rparr> else d2);
         d4 = (if td_SideEffect d3 = [] then d3\<lparr>td_SideEffect := SideDangerous\<rparr> else d3)
     in if td_Concurrency d4 = [] then d4\<lparr>td_Concurrency := ConcurrencySerial\<rparr> else d4)"

text \<open>A nil executor is \<open>None\<close>.\<close>

definition Register :: "(json \<Rightarrow> goerr + 'sc) \<Rightarrow> ToolID \<Rightarrow> ToolDefinition \<Rightarrow> 'x option
    \<Rightarrow> ('x, 'sc) Registry \<Rightarrow> ('x, 'sc) Registry \<times> goerr option" where
  "Register compileSchema newID d exec r =
    (if td_Name d = [] then (r, Some (new_error ''tool: name required''))
     else case exec of
       None \<Rightarrow> (r, Some (new_error ''tool: executor required''))
     | Some x \<Rightarrow>
        (case (case td_InputSchema d of
                 None \<Rightarrow> Inr None
               | Some doc \<Rightarrow> (case compileSchema doc of
                     Inl e \<Rightarrow> Inl (Errorf ''tool %s: input schema: %w'' [e])
                   | Inr sc \<Rightarrow> Inr (Some sc))) of
           Inl e \<Rightarrow> (r, Some e)
         | Inr schema \<Rightarrow>
             (mput (td_Name d) \<lparr>rg_def = filledTool newID d, rg_exec = x, rg_schema = schema\<rparr> r, None)))"

definition Unregister :: "string \<Rightarrow> ('x, 'sc) Registry \<Rightarrow> ('x, 'sc) Registry" where
  "Unregister name r = mdel name r"

definition Registry_Get :: "('x, 'sc) Registry \<Rightarrow> string \<Rightarrow> (ToolDefinition \<times> 'x) option" where
  "Registry_Get r name = (case map_of r name of None \<Rightarrow> None | Some t \<Rightarrow> Some (rg_def t, rg_exec t))"

definition Registry_List :: "('x, 'sc) Registry \<Rightarrow> ToolDefinition list" where
  "Registry_List r = map rg_def (mvals r)"

text \<open>\<open>validateJSON\<close> of package \<open>tool\<close>.\<close>

definition validateInput :: "(string \<Rightarrow> goerr + json) \<Rightarrow> ('sc \<Rightarrow> json \<Rightarrow> goerr option)
    \<Rightarrow> 'sc \<Rightarrow> string \<Rightarrow> goerr option" where
  "validateInput unmarshal schemaValidate sc doc =
    (case unmarshal doc of
       Inl e \<Rightarrow> Some (Errorf ''not a JSON document: %w'' [e])
     | Inr v \<Rightarrow> schemaValidate sc v)"

definition CheckInput :: "(string \<Rightarrow> goerr + json) \<Rightarrow> ('sc \<Rightarrow> json \<Rightarrow> goerr option)
    \<Rightarrow> ('x, 'sc) Registry \<Rightarrow> string \<Rightarrow> string \<Rightarrow> goerr option" where
  "CheckInput unmarshal schemaValidate r name input =
    (case map_of r name of
       None \<Rightarrow> Some (new_error ''unknown tool %s'')
     | Some t \<Rightarrow> (case rg_schema t of
           None \<Rightarrow> None
         | Some sc \<Rightarrow> validateInput unmarshal schemaValidate sc input))"

section \<open>A tenant's tools\<close>

record ('x, 'sc) ToolBox =
  tb_Shared :: "('x, 'sc) Registry"
  tb_Tenant :: "TenantID \<rightharpoonup> ('x, 'sc) Registry"

text \<open>\<open>registryFor\<close> returns the registry and the concurrency slot of the tool's calls.\<close>

definition registryFor :: "('x, 'sc) ToolBox \<Rightarrow> TenantID \<Rightarrow> string
    \<Rightarrow> (('x, 'sc) Registry \<times> string) option" where
  "registryFor b tenant name =
    (case (case tb_Tenant b tenant of
             None \<Rightarrow> None
           | Some r \<Rightarrow> if Registry_Get r name \<noteq> None
               then Some (r, ''tool:'' @ tenant @ ''/'' @ name) else None) of
       Some found \<Rightarrow> Some found
     | None \<Rightarrow> if Registry_Get (tb_Shared b) name \<noteq> None
         then Some (tb_Shared b, ''tool:'' @ name) else None)"

definition ListTools :: "('x, 'sc) ToolBox \<Rightarrow> TenantID \<Rightarrow> ToolDefinition list" where
  "ListTools b tenant =
    (let own = (case tb_Tenant b tenant of None \<Rightarrow> [] | Some r \<Rightarrow> Registry_List r);
         shared = filter (\<lambda>d. \<not> list_ex (\<lambda>d'. td_Name d' = td_Name d) own) (Registry_List (tb_Shared b))
     in sort_key td_Name (own @ shared))"

section \<open>A tenant's agents\<close>

abbreviation defaultToolLoops :: int where "defaultToolLoops \<equiv> 4"

record 'p AgentBook =
  bk_Agents :: "(string, 'p Agent) gomap"
  bk_Provider :: "'p option"
  bk_Model :: string

text \<open>The agents of \<open>NewOrchestrator\<close>: by name, a later one replacing an earlier one.\<close>

definition configuredAgents :: "'p Agent list \<Rightarrow> (string, 'p Agent) gomap" where
  "configuredAgents agents = foldl (\<lambda>am a.
     let a' = (if ag_MaxToolLoops a = 0 then a\<lparr>ag_MaxToolLoops := defaultToolLoops\<rparr> else a)
     in mput (ag_Name a') a' am) [] agents"

record 'p AgentInfo =
  in_Agent :: "'p Agent"
  in_Source :: string
  in_Version :: int

text \<open>What \<open>ListAgents\<close> makes of one stored definition.\<close>

definition storedAgent :: "(json \<Rightarrow> goerr + 'p Agent) \<Rightarrow> 'p AgentBook \<Rightarrow> TenantID
    \<Rightarrow> AgentDefinition \<Rightarrow> 'p AgentInfo option" where
  "storedAgent decode b tenant d =
    (case (case ad_Definition d of None \<Rightarrow> Inl (new_error ''unexpected end of JSON input'')
                                 | Some doc \<Rightarrow> decode doc) of
       Inl e \<Rightarrow> None
     | Inr a \<Rightarrow>
        (case bk_Provider b of
           None \<Rightarrow> None
         | Some p \<Rightarrow>
            if map_of (bk_Agents b) (ad_Name d) \<noteq> None then None
            else
              let a1 = a\<lparr>ag_Name := ad_Name d, ag_tenant := tenant, ag_Provider := p\<rparr>;
                  a2 = (if ag_Model a1 = [] then a1\<lparr>ag_Model := bk_Model b\<rparr> else a1);
                  a3 = (if ag_MaxToolLoops a2 = 0 then a2\<lparr>ag_MaxToolLoops := defaultToolLoops\<rparr> else a2)
              in Some \<lparr>in_Agent = a3, in_Source = ''api'', in_Version = ad_Version d\<rparr>))"

definition ListAgentInfos :: "(json \<Rightarrow> goerr + 'p Agent) \<Rightarrow> 'p AgentBook \<Rightarrow> MemStore \<Rightarrow> TenantID
    \<Rightarrow> 'p AgentInfo list" where
  "ListAgentInfos decode b m tenant = sort_key (\<lambda>i. ag_Name (in_Agent i))
     (map (\<lambda>a. \<lparr>in_Agent = a, in_Source = ''config'', in_Version = 0\<rparr>) (mvals (bk_Agents b)) @
      List.map_filter (storedAgent decode b tenant) (ListAgents m tenant))"

text \<open>A later entry of the same name replaces an earlier one.\<close>

definition agentsFor :: "(json \<Rightarrow> goerr + 'p Agent) \<Rightarrow> 'p AgentBook \<Rightarrow> MemStore \<Rightarrow> TenantID
    \<Rightarrow> (string \<rightharpoonup> 'p Agent)" where
  "agentsFor decode b m tenant =
    foldl (\<lambda>out i. out(ag_Name (in_Agent i) \<mapsto> in_Agent i)) Map.empty (ListAgentInfos decode b m tenant)"

text \<open>\<open>nameOK\<close> is \<open>agentName.MatchString\<close>; an agent is encoded without its provider and tenant.\<close>

definition PutTenantAgent :: "(string \<Rightarrow> bool) \<Rightarrow> (json \<Rightarrow> goerr + 'p Agent) \<Rightarrow> ('p Agent \<Rightarrow> goerr + json)
    \<Rightarrow> ('x, 'sc) ToolBox \<Rightarrow> 'p AgentBook \<Rightarrow> MemStore \<Rightarrow> TenantID \<Rightarrow> 'p Agent \<Rightarrow> time
    \<Rightarrow> MemStore \<times> (goerr + int)" where
  "PutTenantAgent nameOK decode encode box b m tenant a now =
    (if bk_Provider b = None
     then (m, Inl (Errorf ''%w: this server runs no agents defined over the API'' [Sentinel ErrInvalidAgent]))
     else if \<not> nameOK (ag_Name a)
     then (m, Inl (Errorf ''%w: a name is 1 to 64 letters, digits, _, . or -'' [Sentinel ErrInvalidAgent]))
     else if map_of (bk_Agents b) (ag_Name a) \<noteq> None
     then (m, Inl (Errorf ''%w: %s is a configured agent'' [Sentinel ErrConflict]))
     else if ag_Timeout a < 0 \<or> ag_MaxToolLoops a < 0
     then (m, Inl (Errorf ''%w: timeout and max_tool_loops must not be negative'' [Sentinel ErrInvalidAgent]))
     else if list_ex (\<lambda>name. registryFor box tenant name = None) (ag_Tools a)
     then (m, Inl (Errorf ''%w: unknown tool %q'' [Sentinel ErrInvalidAgent]))
     else if list_ex (\<lambda>child. agentsFor decode b m tenant child = None \<and> child \<noteq> ag_Name a) (ag_Children a)
     then (m, Inl (Errorf ''%w: unknown child agent %q'' [Sentinel ErrInvalidAgent]))
     else case encode a of
       Inl e \<Rightarrow> (m, Inl e)
     | Inr doc \<Rightarrow>
        (case PutAgent m \<lparr>ad_TenantID = tenant, ad_Name = ag_Name a, ad_Definition = Some doc,
                ad_Version = 0, ad_UpdatedAt = 0\<rparr> now of
           (m', version) \<Rightarrow> (m', Inr version)))"

definition DeleteTenantAgent :: "'p AgentBook \<Rightarrow> MemStore \<Rightarrow> TenantID \<Rightarrow> string
    \<Rightarrow> MemStore \<times> goerr option" where
  "DeleteTenantAgent b m tenant name =
    (if map_of (bk_Agents b) name \<noteq> None
     then (m, Some (Errorf ''%w: %s is a configured agent'' [Sentinel ErrConflict]))
     else DeleteAgent m tenant name)"

section \<open>Which agent a name means\<close>

text \<open>A map from names to values that bear their name.\<close>

definition keyed :: "('v \<Rightarrow> 'k) \<Rightarrow> ('k, 'v) gomap \<Rightarrow> bool" where
  "keyed f m \<longleftrightarrow> wf_map m \<and> (\<forall>k v. map_of m k = Some v \<longrightarrow> f v = k)"

lemma keyed_Nil [simp]: "keyed f []"
  by (simp add: keyed_def)

lemma keyed_mput [simp]: "keyed f m \<Longrightarrow> f v = k \<Longrightarrow> keyed f (mput k v m)"
  by (simp add: keyed_def go_simps)

lemma keyed_mdel [simp]: "keyed f m \<Longrightarrow> keyed f (mdel k m)"
  by (simp add: keyed_def go_simps)

lemma keyed_names: "keyed f m \<Longrightarrow> map f (mvals m) = map fst m"
  by (auto simp: keyed_def wf_map_def)

lemma keyed_distinct: "keyed f m \<Longrightarrow> distinct (map f (mvals m))"
  by (simp only: keyed_names) (simp add: keyed_def wf_map_def)

lemma keyed_iff: "keyed f m \<Longrightarrow> v \<in> set (mvals m) \<longleftrightarrow> map_of m (f v) = Some v"
  using in_mvals_iff [of m v] unfolding keyed_def by metis

definition book_ok :: "'p AgentBook \<Rightarrow> bool" where
  "book_ok b \<longleftrightarrow> keyed ag_Name (bk_Agents b)"

definition stored_agents_ok :: "MemStore \<Rightarrow> bool" where
  "stored_agents_ok m \<longleftrightarrow> (\<forall>t. keyed ad_Name (agentsOf m t))"

lemma keyed_configuredAgents: "keyed ag_Name (configuredAgents agents)"
proof -
  have "keyed ag_Name (foldl (\<lambda>am a. let a' = (if ag_MaxToolLoops a = 0 then a\<lparr>ag_MaxToolLoops := defaultToolLoops\<rparr> else a)
     in mput (ag_Name a') a' am) am agents)" if "keyed ag_Name am" for am
    using that by (induction agents arbitrary: am) (simp_all add: Let_def)
  then show ?thesis by (simp add: configuredAgents_def)
qed

lemma stored_agents_ok_new: "stored_agents_ok NewMemStore"
  by (simp add: stored_agents_ok_def agentsOf_def NewMemStore_def)

lemma agentsOf_PutAgent: "agentsOf (fst (PutAgent m a now)) t =
    (if t = ad_TenantID a
     then mput (ad_Name a) (a\<lparr>ad_Version := snd (PutAgent m a now), ad_UpdatedAt := now\<rparr>) (agentsOf m t)
     else agentsOf m t)"
  by (simp add: PutAgent_def Let_def agentsOf_def)

lemma agentsOf_DeleteAgent: "agentsOf (fst (DeleteAgent m t' name)) t =
    (if t = t' \<and> map_of (agentsOf m t) name \<noteq> None then mdel name (agentsOf m t) else agentsOf m t)"
  by (auto simp: DeleteAgent_def agentsOf_def)

lemma stored_agents_ok_ops:
  assumes "stored_agents_ok m"
  shows "stored_agents_ok (fst (PutAgent m a now))" "stored_agents_ok (fst (DeleteAgent m t name))"
  using assms by (auto simp: stored_agents_ok_def agentsOf_PutAgent agentsOf_DeleteAgent)

text \<open>Reading a list of named entries into a map, when no name occurs twice.\<close>

lemma foldl_upd: "foldl (\<lambda>out i. out(f i \<mapsto> g i)) m0 xs = m0 ++ map_of (rev (map (\<lambda>i. (f i, g i)) xs))"
  by (induction xs arbitrary: m0) (simp_all add: map_add_upd_left map_add_def fun_eq_iff split: option.splits)

lemma foldl_upd_iff: "distinct (map f xs) \<Longrightarrow>
    foldl (\<lambda>out i. out(f i \<mapsto> g i)) Map.empty xs k = Some v \<longleftrightarrow> (\<exists>i \<in> set xs. f i = k \<and> g i = v)"
proof -
  assume "distinct (map f xs)"
  moreover have "map fst (rev (map (\<lambda>i. (f i, g i)) xs)) = rev (map f xs)" by (simp add: rev_map comp_def)
  ultimately have "distinct (map fst (rev (map (\<lambda>i. (f i, g i)) xs)))" by (simp only: distinct_rev)
  then have "map_of (rev (map (\<lambda>i. (f i, g i)) xs)) k = Some v \<longleftrightarrow> (k, v) \<in> set (rev (map (\<lambda>i. (f i, g i)) xs))"
    by (rule map_of_eq_Some_iff)
  then show ?thesis by (auto simp: foldl_upd)
qed

lemma storedAgent_name: "storedAgent decode b t d = Some i \<Longrightarrow>
    ag_Name (in_Agent i) = ad_Name d \<and> map_of (bk_Agents b) (ad_Name d) = None"
  by (auto simp: storedAgent_def Let_def split: option.splits sum.splits if_splits)

lemma distinct_map_filter: "distinct (map f xs) \<Longrightarrow> (\<And>x y. x \<in> set xs \<Longrightarrow> h x = Some y \<Longrightarrow> g y = f x) \<Longrightarrow>
    distinct (map g (List.map_filter h xs))"
proof (induction xs)
  case (Cons x xs)
  then have "distinct (map g (List.map_filter h xs))" by simp
  moreover have "g y \<notin> g ` set (List.map_filter h xs)" if "h x = Some y" for y
    using Cons.prems that by (fastforce simp: List.map_filter_def image_iff)
  ultimately show ?case by (simp add: List.map_filter_simps split: option.splits)
qed (simp add: List.map_filter_simps)

lemma distinct_map_sort: "distinct (map f (sort_key k xs)) = distinct (map f xs)"
  by (simp add: distinct_map)

lemma names_distinct:
  assumes "book_ok b" and "stored_agents_ok m"
  shows "distinct (map (\<lambda>i. ag_Name (in_Agent i)) (ListAgentInfos decode b m t))"
proof -
  let ?name = "\<lambda>i. ag_Name (in_Agent i)"
  let ?cfg = "map (\<lambda>a. \<lparr>in_Agent = a, in_Source = ''config'', in_Version = 0\<rparr>) (mvals (bk_Agents b))"
  let ?api = "List.map_filter (storedAgent decode b t) (ListAgents m t)"
  have "distinct (map ad_Name (mvals (agentsOf m t)))"
    using assms(2) keyed_distinct by (auto simp: stored_agents_ok_def)
  then have "distinct (map ad_Name (ListAgents m t))"
    unfolding ListAgents_def distinct_map by (simp add: distinct_map)
  then have api: "distinct (map ?name ?api)"
    by (rule distinct_map_filter) (simp add: storedAgent_name)
  have cfg: "distinct (map ?name ?cfg)"
    using keyed_distinct [of ag_Name "bk_Agents b"] assms(1) by (simp add: book_ok_def comp_def)
  have "?name i \<noteq> ag_Name a" if "i \<in> set ?api" "a \<in> set (mvals (bk_Agents b))" for i a
  proof -
    from that(1) obtain d where "storedAgent decode b t d = Some i" by (auto simp: List.map_filter_def)
    with storedAgent_name [OF this] that(2) keyed_iff [of ag_Name "bk_Agents b" a] assms(1)
    show ?thesis by (auto simp: book_ok_def)
  qed
  then have "n \<notin> set (map ?name ?api)" if "n \<in> set (map ?name ?cfg)" for n
    using that unfolding set_map image_iff by fastforce
  with api cfg have "distinct (map ?name (?cfg @ ?api))"
    unfolding map_append distinct_append by blast
  then show ?thesis unfolding ListAgentInfos_def distinct_map_sort .
qed

lemma set_map_filter: "y \<in> set (List.map_filter h xs) \<longleftrightarrow> (\<exists>x \<in> set xs. h x = Some y)"
  by (auto simp: List.map_filter_def image_iff)

lemma set_ListAgentInfos: "i \<in> set (ListAgentInfos decode b m t) \<longleftrightarrow>
    (\<exists>a \<in> set (mvals (bk_Agents b)). i = \<lparr>in_Agent = a, in_Source = ''config'', in_Version = 0\<rparr>) \<or>
    (\<exists>d \<in> set (mvals (agentsOf m t)). storedAgent decode b t d = Some i)"
  unfolding ListAgentInfos_def ListAgents_def by (simp add: set_map_filter image_iff)

lemma listed_agent: "(\<exists>i \<in> set (ListAgentInfos decode b m t). ag_Name (in_Agent i) = n \<and> in_Agent i = a) \<longleftrightarrow>
    ag_Name a = n \<and> (a \<in> set (mvals (bk_Agents b)) \<or>
      (\<exists>d \<in> set (mvals (agentsOf m t)). \<exists>i. storedAgent decode b t d = Some i \<and> in_Agent i = a))"
proof -
  have "(\<exists>i \<in> set (ListAgentInfos decode b m t). ag_Name (in_Agent i) = n \<and> in_Agent i = a) \<longleftrightarrow>
    ag_Name a = n \<and> (\<exists>i. i \<in> set (ListAgentInfos decode b m t) \<and> in_Agent i = a)" by blast
  also have "(\<exists>i. i \<in> set (ListAgentInfos decode b m t) \<and> in_Agent i = a) \<longleftrightarrow>
    a \<in> set (mvals (bk_Agents b)) \<or>
      (\<exists>d \<in> set (mvals (agentsOf m t)). \<exists>i. storedAgent decode b t d = Some i \<and> in_Agent i = a)"
    unfolding set_ListAgentInfos by (auto simp del: set_map)
  finally show ?thesis .
qed

text \<open>A configured agent keeps its name; other names mean the tenant's own stored agents.\<close>

lemma agentsFor_eq:
  assumes "book_ok b" and "stored_agents_ok m"
  shows "agentsFor decode b m t name =
    (case map_of (bk_Agents b) name of
       Some a \<Rightarrow> Some a
     | None \<Rightarrow> (case map_of (agentsOf m t) name of
           None \<Rightarrow> None
         | Some d \<Rightarrow> map_option in_Agent (storedAgent decode b t d)))"
proof -
  have "agentsFor decode b m t name = Some a \<longleftrightarrow>
      map_of (bk_Agents b) name = Some a \<or>
      (\<exists>d i. map_of (agentsOf m t) name = Some d \<and> storedAgent decode b t d = Some i \<and> in_Agent i = a)" for a
  proof -
    have "agentsFor decode b m t name = Some a \<longleftrightarrow>
        (\<exists>i \<in> set (ListAgentInfos decode b m t). ag_Name (in_Agent i) = name \<and> in_Agent i = a)"
      unfolding agentsFor_def by (rule foldl_upd_iff [OF names_distinct [OF assms]])
    also have "\<dots> \<longleftrightarrow> a \<in> set (mvals (bk_Agents b)) \<and> ag_Name a = name \<or>
        (\<exists>d i. d \<in> set (mvals (agentsOf m t)) \<and> ag_Name a = name \<and> storedAgent decode b t d = Some i \<and> in_Agent i = a)"
      unfolding listed_agent by (simp del: set_map) blast
    also have "(a \<in> set (mvals (bk_Agents b)) \<and> ag_Name a = name) \<longleftrightarrow> map_of (bk_Agents b) name = Some a"
      using assms(1) keyed_iff [of ag_Name "bk_Agents b" a] by (auto simp: book_ok_def keyed_def)
    also have "(\<exists>d i. d \<in> set (mvals (agentsOf m t)) \<and> ag_Name a = name \<and> storedAgent decode b t d = Some i \<and> in_Agent i = a)
        \<longleftrightarrow> (\<exists>d i. map_of (agentsOf m t) name = Some d \<and> storedAgent decode b t d = Some i \<and> in_Agent i = a)"
    proof -
      have "keyed ad_Name (agentsOf m t)" using assms(2) by (simp add: stored_agents_ok_def)
      then have k: "d \<in> set (mvals (agentsOf m t)) \<longleftrightarrow> map_of (agentsOf m t) (ad_Name d) = Some d"
        "map_of (agentsOf m t) name = Some d \<Longrightarrow> ad_Name d = name" for d
        using keyed_iff [of ad_Name "agentsOf m t" d] by (auto simp: keyed_def)
      show ?thesis using storedAgent_name [of decode b t] unfolding k(1) by (metis k(2))
    qed
    finally show ?thesis .
  qed
  moreover have "map_of (bk_Agents b) name = None"
    if "map_of (agentsOf m t) name = Some d" "storedAgent decode b t d = Some i" for d i
    using that storedAgent_name assms(2) unfolding stored_agents_ok_def keyed_def by metis
  ultimately have "agentsFor decode b m t name = Some a \<longleftrightarrow>
    (case map_of (bk_Agents b) name of
       Some a \<Rightarrow> Some a
     | None \<Rightarrow> (case map_of (agentsOf m t) name of
           None \<Rightarrow> None
         | Some d \<Rightarrow> map_option in_Agent (storedAgent decode b t d))) = Some a" for a
    by (cases "map_of (bk_Agents b) name"; cases "map_of (agentsOf m t) name") auto
  then show ?thesis by (metis option.exhaust)
qed

section \<open>Putting an agent\<close>

definition withDefaults :: "'p AgentBook \<Rightarrow> 'p \<Rightarrow> TenantID \<Rightarrow> 'p Agent \<Rightarrow> 'p Agent" where
  "withDefaults b p t a = a\<lparr>ag_tenant := t, ag_Provider := p,
     ag_Model := (if ag_Model a = [] then bk_Model b else ag_Model a),
     ag_MaxToolLoops := (if ag_MaxToolLoops a = 0 then defaultToolLoops else ag_MaxToolLoops a)\<rparr>"

text \<open>What encoding keeps of an agent: everything but its provider and tenant.\<close>

definition encodes_agents :: "('p Agent \<Rightarrow> goerr + json) \<Rightarrow> (json \<Rightarrow> goerr + 'p Agent) \<Rightarrow> bool" where
  "encodes_agents encode decode \<longleftrightarrow> (\<forall>a doc. encode a = Inr doc \<longrightarrow>
     (\<exists>p t. decode doc = Inr (a\<lparr>ag_Provider := p, ag_tenant := t\<rparr>)))"

lemma PutTenantAgent_ok:
  assumes "PutTenantAgent nameOK decode encode box b m t a now = (m', Inr v)"
  shows "\<exists>doc p. bk_Provider b = Some p \<and> map_of (bk_Agents b) (ag_Name a) = None \<and> encode a = Inr doc \<and>
    PutAgent m \<lparr>ad_TenantID = t, ad_Name = ag_Name a, ad_Definition = Some doc, ad_Version = 0, ad_UpdatedAt = 0\<rparr> now = (m', v)"
  using assms by (auto simp: PutTenantAgent_def split: if_splits sum.splits prod.splits)

lemma PutTenantAgent_refused: "PutTenantAgent nameOK decode encode box b m t a now = (m', Inl e) \<Longrightarrow> m' = m"
  by (auto simp: PutTenantAgent_def split: if_splits sum.splits prod.splits)

text \<open>A sample server: one configured agent, and the provider \<open>''main''\<close>.\<close>

definition scribe :: "string \<Rightarrow> int \<Rightarrow> string \<Rightarrow> TenantID \<Rightarrow> string Agent" where
  "scribe name loops p t = \<lparr>ag_Name = name, ag_Role = [], ag_Instructions = [], ag_Model = ''gpt'',
     ag_Provider = p, ag_Tools = [], ag_Children = [], ag_MaxToolLoops = loops, ag_AskHuman = False,
     ag_Timeout = 0, ag_tenant = t\<rparr>"

definition server :: "string AgentBook" where
  "server = \<lparr>bk_Agents = configuredAgents [scribe ''writer'' 0 ''main'' []], bk_Provider = Some ''main'',
     bk_Model = ''gpt''\<rparr>"

text \<open>An agent a tenant puts is the one its runs find under that name, with the server's provider,
  model and default of tool loops filled in, and only that name of only that tenant changes; a
  refused one changes nothing.\<close>

theorem put_agents_are_found:
  assumes "book_ok b" and "stored_agents_ok m" and "encodes_agents encode decode"
    and "PutTenantAgent nameOK decode encode box b m t a now = (m', r)"
  shows "stored_agents_ok m' \<and> (case r of
      Inl e \<Rightarrow> m' = m
    | Inr version \<Rightarrow>
        (\<exists>p. bk_Provider b = Some p \<and>
           agentsFor decode b m' t (ag_Name a) = Some (withDefaults b p t a)) \<and>
        (\<forall>t' name. t' \<noteq> t \<or> name \<noteq> ag_Name a \<longrightarrow>
           agentsFor decode b m' t' name = agentsFor decode b m t' name))"
proof (cases r)
  case (Inl e)
  with assms PutTenantAgent_refused [of nameOK decode encode box b m t a now m' e] show ?thesis by simp
next
  case (Inr v)
  with assms(4) PutTenantAgent_ok obtain doc p where
    p: "bk_Provider b = Some p" "map_of (bk_Agents b) (ag_Name a) = None" "encode a = Inr doc"
    and put: "PutAgent m \<lparr>ad_TenantID = t, ad_Name = ag_Name a, ad_Definition = Some doc,
      ad_Version = 0, ad_UpdatedAt = 0\<rparr> now = (m', v)" by metis
  note ops = stored_agents_ok_ops(1) [OF assms(2)] agentsOf_PutAgent
  from ops(1) [of "\<lparr>ad_TenantID = t, ad_Name = ag_Name a, ad_Definition = Some doc,
      ad_Version = 0, ad_UpdatedAt = 0\<rparr>" now] put have ok: "stored_agents_ok m'" by simp
  from ops(2) [of m "\<lparr>ad_TenantID = t, ad_Name = ag_Name a, ad_Definition = Some doc,
      ad_Version = 0, ad_UpdatedAt = 0\<rparr>" now] put
  have stored: "agentsOf m' t' = (if t' = t then mput (ag_Name a) \<lparr>ad_TenantID = t, ad_Name = ag_Name a,
      ad_Definition = Some doc, ad_Version = v, ad_UpdatedAt = now\<rparr> (agentsOf m t) else agentsOf m t')" for t'
    by simp
  from assms(3) p(3) obtain q t0 where "decode doc = Inr (a\<lparr>ag_Provider := q, ag_tenant := t0\<rparr>)"
    unfolding encodes_agents_def by blast
  then have "agentsFor decode b m' t (ag_Name a) = Some (withDefaults b p t a)"
    by (simp add: agentsFor_eq [OF assms(1) ok] stored p go_simps storedAgent_def withDefaults_def Let_def)
  moreover have "agentsFor decode b m' t' name = agentsFor decode b m t' name"
    if "t' \<noteq> t \<or> name \<noteq> ag_Name a" for t' name
  proof -
    have same: "map_of (agentsOf m' t') name = map_of (agentsOf m t') name"
      using that by (auto simp: stored go_simps)
    show ?thesis unfolding agentsFor_eq [OF assms(1) ok] agentsFor_eq [OF assms(1,2)] same ..
  qed
  ultimately show ?thesis using Inr ok p(1) by simp
qed

text \<open>A tenant puts an agent on a server with one configured agent; the encoding names the agent and
  the decoding restores it.\<close>

theorem put_agents_are_found_witness:
  "\<exists>m'. agentsFor (\<lambda>doc. case doc of JStr n \<Rightarrow> Inr (scribe n 0 ''none'' []) | _ \<Rightarrow> Inl (new_error []))
     server m' ''acme'' ''notes'' = Some (scribe ''notes'' 4 ''main'' ''acme'')"
proof -
  let ?decode = "\<lambda>doc. case doc of JStr n \<Rightarrow> Inr (scribe n 0 ''none'' []) | _ \<Rightarrow> Inl (new_error [])"
  let ?encode = "\<lambda>a. if a = scribe (ag_Name a) 0 (ag_Provider a) (ag_tenant a)
    then Inr (JStr (ag_Name a)) else Inl (new_error [])"
  have ok: "book_ok server"
    unfolding server_def using keyed_configuredAgents by (simp add: book_ok_def)
  have enc: "encodes_agents ?encode ?decode"
    unfolding encodes_agents_def
  proof (intro allI impI)
    fix a doc assume "?encode a = Inr doc"
    then have a: "a = scribe (ag_Name a) 0 (ag_Provider a) (ag_tenant a)" and doc: "doc = JStr (ag_Name a)"
      by (auto split: if_splits)
    have "scribe (ag_Name a) 0 ''none'' [] = a\<lparr>ag_Provider := ''none'', ag_tenant := []\<rparr>"
      by (subst (2) a) (simp add: scribe_def)
    then show "\<exists>p t. ?decode doc = Inr (a\<lparr>ag_Provider := p, ag_tenant := t\<rparr>)"
      unfolding doc by (simp only: json.case) blast
  qed
  obtain m' where put: "PutTenantAgent (\<lambda>n. True) ?decode ?encode (\<lparr>tb_Shared = [], tb_Tenant = Map.empty\<rparr> :: (unit, unit) ToolBox)
      server NewMemStore ''acme'' (scribe ''notes'' 0 [] []) 7 = (m', Inr 1)"
    by (simp add: PutTenantAgent_def scribe_def server_def configuredAgents_def PutAgent_def Let_def
        agentsOf_def NewMemStore_def)
  from put_agents_are_found [OF ok stored_agents_ok_new enc put] obtain p where
    p: "bk_Provider server = Some p"
    and found: "agentsFor ?decode server m' ''acme'' (ag_Name (scribe ''notes'' 0 [] [])) =
      Some (withDefaults server p ''acme'' (scribe ''notes'' 0 [] []))"
    unfolding sum.case by blast
  moreover have "ag_Name (scribe ''notes'' 0 [] []) = ''notes''" by (simp add: scribe_def)
  moreover have "withDefaults server ''main'' ''acme'' (scribe ''notes'' 0 [] []) = scribe ''notes'' 4 ''main'' ''acme''"
    by (simp add: withDefaults_def scribe_def)
  moreover have "p = ''main''" using p by (simp add: server_def)
  ultimately show ?thesis by metis
qed

end
