(* ===== verification/Providers.thy ===== *)
theory Providers
  imports Handlers
begin

text \<open>
  Package \<open>model\<close>: the messages exchanged with a model (\<open>model.go\<close>), retries of transient
  failures (\<open>retry.go\<close>), the scripted \<open>MockProvider\<close> (\<open>mock.go\<close>), and the fixtures
  \<open>Recorder\<close> and \<open>Replayer\<close> (\<open>fixture.go\<close>).

  A provider is a function on a state of its own, \<open>'s\<close>. A request is identified by its JSON
  document: \<open>matchKey\<close> keeps the document where the code keeps its bytes, since documents are
  equal when their encodings are. The bytes of an image stand for their base64 text, and the
  parameters of a request, a Go map, are listed in the order \<open>json.Marshal\<close> sorts them in.
  Reading and writing fixture files, streaming and embeddings are not modelled.
\<close>

section \<open>Messages\<close>

record Image =
  im_MimeType :: string
  im_Data :: string

record ToolSpec =
  tsp_Name :: string
  tsp_Description :: string
  tsp_InputSchema :: raw

record ToolCall =
  tc_ID :: string
  tc_Name :: string
  tc_Input :: raw

record Message =
  msg_Role :: string
  msg_Content :: string
  msg_Thinking :: string
  msg_Name :: string
  msg_ToolCallID :: string
  msg_ToolCalls :: "ToolCall list"
  msg_Images :: "Image list"

record ChatRequest =
  cr_TenantID :: TenantID
  cr_RunID :: RunID
  cr_StepID :: StepID
  cr_Model :: string
  cr_Messages :: "Message list"
  cr_Tools :: "ToolSpec list"
  cr_ToolCallMode :: string
  cr_ResponseSchema :: raw
  cr_Parameters :: "(string \<times> json) list"
  cr_IdempotencyKey :: string

record ChatResponse =
  cp_Message :: Message
  cp_ToolCalls :: "ToolCall list"
  cp_Usage :: Usage
  cp_Raw :: raw

definition Message0 :: Message where
  "Message0 = \<lparr>msg_Role = [], msg_Content = [], msg_Thinking = [], msg_Name = [],
     msg_ToolCallID = [], msg_ToolCalls = [], msg_Images = []\<rparr>"

definition ChatResponse0 :: ChatResponse where
  "ChatResponse0 = \<lparr>cp_Message = Message0, cp_ToolCalls = [], cp_Usage = Usage0, cp_Raw = None\<rparr>"

section \<open>Errors of a provider\<close>

record StatusError =
  st_Provider :: string
  st_Code :: int
  st_Body :: string
  st_RetryAfter :: duration

datatype model_error =
    MSentinel sentinel
  | MStatus StatusError
  | MNet string              \<comment> \<open>a \<open>net.Error\<close>\<close>
  | MClosed                  \<comment> \<open>\<open>net.ErrClosed\<close>\<close>
  | MUnexpectedEOF           \<comment> \<open>\<open>io.ErrUnexpectedEOF\<close>\<close>
  | MErrorf string "model_error list"

fun model_errors_is :: "model_error \<Rightarrow> sentinel \<Rightarrow> bool" where
  "model_errors_is (MErrorf m es) t \<longleftrightarrow> list_ex (\<lambda>e. model_errors_is e t) es"
| "model_errors_is (MSentinel s) t \<longleftrightarrow> s = t"
| "model_errors_is _ t \<longleftrightarrow> False"

text \<open>\<open>errors.AsType[*StatusError]\<close>: the first in the tree.\<close>

fun asStatus :: "model_error \<Rightarrow> StatusError option" where
  "asStatus (MStatus se) = Some se"
| "asStatus (MErrorf m es) = foldr (\<lambda>e rest. case asStatus e of None \<Rightarrow> rest | r \<Rightarrow> r) es None"
| "asStatus _ = None"

fun droppedConnection :: "model_error \<Rightarrow> bool" where
  "droppedConnection (MErrorf m es) \<longleftrightarrow> list_ex droppedConnection es"
| "droppedConnection (MNet _) \<longleftrightarrow> True"
| "droppedConnection MClosed \<longleftrightarrow> True"
| "droppedConnection MUnexpectedEOF \<longleftrightarrow> True"
| "droppedConnection _ \<longleftrightarrow> False"

text \<open>\<open>NewStatusError\<close>, given the code and the \<open>Retry-After\<close> header of the response.\<close>

definition NewStatusError :: "string \<Rightarrow> int \<Rightarrow> string \<Rightarrow> string \<Rightarrow> StatusError" where
  "NewStatusError provider code header body =
     (let e = \<lparr>st_Provider = provider, st_Code = code, st_Body = body, st_RetryAfter = 0\<rparr>;
          (s, ok) = ParseInt header
      in if ok \<and> s > 0 then e\<lparr>st_RetryAfter := wrap64 (s * 1000000000)\<rparr> else e)"

definition Transient :: "model_error \<Rightarrow> bool" where
  "Transient err =
     (if model_errors_is err CtxCanceled then False
      else case asStatus err of
        Some se \<Rightarrow> st_Code se = 408 \<or> st_Code se = 429 \<or> st_Code se \<ge> 500
      | None \<Rightarrow> droppedConnection err)"

section \<open>Retries\<close>

record Retry =
  re_Attempts :: int
  re_Base :: duration
  re_Max :: duration

definition WithRetry :: Retry where
  "WithRetry = \<lparr>re_Attempts = 4, re_Base = 500000000, re_Max = 20000000000\<rparr>"

text \<open>
  \<open>retry\<close> from attempt \<open>n\<close> on. \<open>call\<close> returns its result, whether it may be retried, and its
  error. \<open>rnd n\<close> is the random number drawn after attempt \<open>n\<close>; \<open>ended n\<close> says whether the
  context has ended by then, and \<open>cutoff n\<close> whether it ends during the wait. Next to the result
  comes the list of the waits.
\<close>

definition retryWait :: "Retry \<Rightarrow> duration \<Rightarrow> int \<Rightarrow> model_error \<Rightarrow> duration" where
  "retryWait r backoff rnd err =
     (let wait = backoff div 2 + rnd;
          wait' = (case asStatus err of
              Some se \<Rightarrow> if st_RetryAfter se > wait then st_RetryAfter se else wait
            | None \<Rightarrow> wait)
      in min wait' (re_Max r))"

function retryFrom :: "Retry \<Rightarrow> ('s \<Rightarrow> 's \<times> 'a \<times> bool \<times> model_error option) \<Rightarrow> (int \<Rightarrow> int)
    \<Rightarrow> (int \<Rightarrow> bool) \<Rightarrow> (int \<Rightarrow> bool) \<Rightarrow> int \<Rightarrow> duration \<Rightarrow> 's
    \<Rightarrow> 's \<times> 'a \<times> model_error option \<times> duration list" where
  "retryFrom r call rnd ended cutoff n backoff s =
     (case call s of
        (s', out, again, None) \<Rightarrow> (s', out, None, [])
      | (s', out, again, Some err) \<Rightarrow>
          if \<not> again \<or> n \<ge> re_Attempts r \<or> ended n \<or> \<not> Transient err then (s', out, Some err, [])
          else let wait = retryWait r backoff (rnd n) err
            in if cutoff n then (s', out, Some err, [wait])
               else (case retryFrom r call rnd ended cutoff (n + 1) (min (wrap64 (backoff * 2)) (re_Max r)) s' of
                   (s'', out', err', waits) \<Rightarrow> (s'', out', err', wait # waits)))"
  by pat_completeness auto

termination
  by (relation "measure (\<lambda>(r, call, rnd, ended, cutoff, n, backoff, s). nat (re_Attempts r - n))") auto

declare retryFrom.simps [simp del]

definition retry :: "Retry \<Rightarrow> ('s \<Rightarrow> 's \<times> 'a \<times> bool \<times> model_error option) \<Rightarrow> (int \<Rightarrow> int)
    \<Rightarrow> (int \<Rightarrow> bool) \<Rightarrow> (int \<Rightarrow> bool) \<Rightarrow> 's \<Rightarrow> 's \<times> 'a \<times> model_error option \<times> duration list" where
  "retry r call rnd ended cutoff s = retryFrom r call rnd ended cutoff 1 (re_Base r) s"

text \<open>\<open>(*Retry).Chat\<close> on a provider \<open>chat\<close>.\<close>

definition Retry_Chat :: "Retry \<Rightarrow> ('s \<Rightarrow> ChatRequest \<Rightarrow> 's \<times> ChatResponse \<times> model_error option)
    \<Rightarrow> (int \<Rightarrow> int) \<Rightarrow> (int \<Rightarrow> bool) \<Rightarrow> (int \<Rightarrow> bool) \<Rightarrow> 's \<Rightarrow> ChatRequest
    \<Rightarrow> 's \<times> ChatResponse \<times> model_error option \<times> duration list" where
  "Retry_Chat r chat rnd ended cutoff s req =
     retry r (\<lambda>s. case chat s req of (s', resp, err) \<Rightarrow> (s', resp, True, err)) rnd ended cutoff s"

section \<open>The scripted provider\<close>

record MockResponse =
  mr_Content :: string
  mr_ToolCalls :: "ToolCall list"
  mr_Usage :: Usage
  mr_Err :: "model_error option"

record MockProvider =
  mk_responses :: "MockResponse list"
  mk_calls :: "ChatRequest list"

definition NewMockProvider :: "MockResponse list \<Rightarrow> MockProvider" where
  "NewMockProvider rs = \<lparr>mk_responses = rs, mk_calls = []\<rparr>"

definition Mock_Push :: "MockProvider \<Rightarrow> MockResponse \<Rightarrow> MockProvider" where
  "Mock_Push m r = m\<lparr>mk_responses := mk_responses m @ [r]\<rparr>"

definition Mock_Calls :: "MockProvider \<Rightarrow> ChatRequest list" where
  "Mock_Calls m = mk_calls m"

definition mockUsage :: "ChatRequest \<Rightarrow> MockResponse \<Rightarrow> Usage" where
  "mockUsage req r =
     (let usage = mr_Usage r
      in if TotalTokens usage = 0
         then let p = int (length (cr_Messages req)) * 4; c = int (length (mr_Content r)) div 4
           in usage\<lparr>PromptTokens := p, CompletionTokens := c, TotalTokens := p + c, ModelCalls := 1\<rparr>
         else usage)"

definition Mock_Chat :: "MockProvider \<Rightarrow> ChatRequest \<Rightarrow> MockProvider \<times> ChatResponse \<times> model_error option" where
  "Mock_Chat m0 req =
     (let m = m0\<lparr>mk_calls := mk_calls m0 @ [req]\<rparr>
      in case mk_responses m of
           [] \<Rightarrow> (m, ChatResponse0, Some (MErrorf ''%w (after %d calls)'' [MSentinel ErrNoScript]))
         | r # rs \<Rightarrow>
             let m' = m\<lparr>mk_responses := rs\<rparr>
             in case mr_Err r of
                  Some e \<Rightarrow> (m', ChatResponse0, Some e)
                | None \<Rightarrow>
                    (m', \<lparr>cp_Message = Message0\<lparr>msg_Role := ''assistant'', msg_Content := mr_Content r,
                            msg_ToolCalls := mr_ToolCalls r\<rparr>,
                          cp_ToolCalls = mr_ToolCalls r, cp_Usage = mockUsage req r,
                          cp_Raw = Some (JObj [(''content'', JStr (mr_Content r)), (''mock'', JBool True)])\<rparr>, None))"


section \<open>Fixtures\<close>

text \<open>
  \<open>json.Marshal\<close> of a request. A field marked \<open>omitempty\<close> is left out when it is empty;
  a raw message that is not a document is an error.
\<close>

definition omitEmpty :: "string \<Rightarrow> string \<Rightarrow> (string \<times> json) list" where
  "omitEmpty k v = (if v = [] then [] else [(k, JStr v)])"

definition omitEmptyList :: "string \<Rightarrow> json list \<Rightarrow> (string \<times> json) list" where
  "omitEmptyList k vs = (if vs = [] then [] else [(k, JArr vs)])"

fun validDoc :: "json \<Rightarrow> bool" where
  "validDoc (JInvalid s) \<longleftrightarrow> False"
| "validDoc (JArr vs) \<longleftrightarrow> list_all validDoc vs"
| "validDoc (JObj fs) \<longleftrightarrow> list_all (\<lambda>f. validDoc (snd f)) fs"
| "validDoc _ \<longleftrightarrow> True"

definition rawDoc :: "raw \<Rightarrow> json" where
  "rawDoc r = (case r of None \<Rightarrow> JNull | Some d \<Rightarrow> d)"

definition imageDoc :: "Image \<Rightarrow> json" where
  "imageDoc i = JObj [(''mime_type'', JStr (im_MimeType i)), (''data'', JStr (im_Data i))]"

definition toolCallDoc :: "ToolCall \<Rightarrow> json" where
  "toolCallDoc c = JObj [(''id'', JStr (tc_ID c)), (''name'', JStr (tc_Name c)), (''input'', rawDoc (tc_Input c))]"

definition toolSpecDoc :: "ToolSpec \<Rightarrow> json" where
  "toolSpecDoc t = JObj [(''name'', JStr (tsp_Name t)), (''description'', JStr (tsp_Description t)),
     (''input_schema'', rawDoc (tsp_InputSchema t))]"

definition messageDoc :: "Message \<Rightarrow> json" where
  "messageDoc m = JObj ([(''role'', JStr (msg_Role m)), (''content'', JStr (msg_Content m))] @
     omitEmpty ''thinking'' (msg_Thinking m) @ omitEmpty ''name'' (msg_Name m) @
     omitEmpty ''tool_call_id'' (msg_ToolCallID m) @
     omitEmptyList ''tool_calls'' (map toolCallDoc (msg_ToolCalls m)) @
     omitEmptyList ''images'' (map imageDoc (msg_Images m)))"

definition requestDoc :: "ChatRequest \<Rightarrow> json" where
  "requestDoc r = JObj (omitEmpty ''tenant_id'' (cr_TenantID r) @ omitEmpty ''run_id'' (cr_RunID r) @
     omitEmpty ''step_id'' (cr_StepID r) @
     [(''model'', JStr (cr_Model r)), (''messages'', JArr (map messageDoc (cr_Messages r)))] @
     omitEmptyList ''tools'' (map toolSpecDoc (cr_Tools r)) @
     omitEmpty ''tool_call_mode'' (cr_ToolCallMode r) @
     (case cr_ResponseSchema r of None \<Rightarrow> [] | Some d \<Rightarrow> [(''response_schema'', d)]) @
     (if cr_Parameters r = [] then [] else [(''parameters'', JObj (cr_Parameters r))]) @
     omitEmpty ''idempotency_key'' (cr_IdempotencyKey r))"

definition withoutIDs :: "ChatRequest \<Rightarrow> ChatRequest" where
  "withoutIDs r = r\<lparr>cr_TenantID := [], cr_RunID := [], cr_StepID := [], cr_IdempotencyKey := []\<rparr>"

definition matchKey :: "ChatRequest \<Rightarrow> model_error + json" where
  "matchKey r =
     (let doc = requestDoc ((withoutIDs r)\<lparr>cr_Model := []\<rparr>)
      in if validDoc doc then Inr doc else Inl (MErrorf ''json'' []))"

record Exchange =
  ex_Request :: ChatRequest
  ex_Response :: ChatResponse

text \<open>\<open>(*Recorder).Chat\<close>: the state is the provider's and the exchanges kept.\<close>

definition Recorder_Chat :: "('s \<Rightarrow> ChatRequest \<Rightarrow> 's \<times> ChatResponse \<times> model_error option)
    \<Rightarrow> 's \<times> Exchange list \<Rightarrow> ChatRequest \<Rightarrow> ('s \<times> Exchange list) \<times> ChatResponse \<times> model_error option" where
  "Recorder_Chat chat st req =
     (case st of (s, exs) \<Rightarrow>
       (case chat s req of
          (s', resp, Some e) \<Rightarrow> ((s', exs), resp, Some e)
        | (s', resp, None) \<Rightarrow>
            ((s', exs @ [\<lparr>ex_Request = withoutIDs req, ex_Response = resp\<rparr>]), resp, None)))"

type_synonym Replayer = "(json, ChatResponse list) gomap"

definition pendingOf :: "Replayer \<Rightarrow> json \<Rightarrow> ChatResponse list" where
  "pendingOf p k = (case map_of p k of None \<Rightarrow> [] | Some q \<Rightarrow> q)"

fun NewReplayerFrom :: "Replayer \<Rightarrow> Exchange list \<Rightarrow> model_error + Replayer" where
  "NewReplayerFrom p [] = Inr p"
| "NewReplayerFrom p (ex # exs) =
     (case matchKey (ex_Request ex) of
        Inl e \<Rightarrow> Inl e
      | Inr k \<Rightarrow> NewReplayerFrom (mput k (pendingOf p k @ [ex_Response ex]) p) exs)"

definition NewReplayer :: "Exchange list \<Rightarrow> model_error + Replayer" where
  "NewReplayer exs = NewReplayerFrom [] exs"

definition Replayer_Chat :: "Replayer \<Rightarrow> ChatRequest \<Rightarrow> Replayer \<times> ChatResponse \<times> model_error option" where
  "Replayer_Chat p req =
     (case matchKey req of
        Inl e \<Rightarrow> (p, ChatResponse0, Some e)
      | Inr k \<Rightarrow>
          (case pendingOf p k of
             [] \<Rightarrow> (p, ChatResponse0, Some (MErrorf ''%w: %s'' [MSentinel ErrNoFixture]))
           | resp # q \<Rightarrow> (mput k q p, resp, None)))"

definition Replayer_Remaining :: "Replayer \<Rightarrow> nat" where
  "Replayer_Remaining p = sum_list (map length (mvals p))"

section \<open>Retries are bounded\<close>

lemma retryFrom_spec:
  "retryFrom r call rnd ended cutoff n backoff s = (s', out, err, waits) \<Longrightarrow>
   int (length waits) \<le> max 0 (re_Attempts r - n) \<and> list_all (\<lambda>w. w \<le> re_Max r) waits"
proof (induction r call rnd ended cutoff n backoff s arbitrary: s' out err waits rule: retryFrom.induct)
  case (1 r call rnd ended cutoff n backoff s)
  obtain s1 out1 b1 err1 where call: "call s = (s1, out1, b1, err1)" by (metis surj_pair)
  have le: "retryWait r backoff (rnd n) e \<le> re_Max r" for e by (simp add: retryWait_def Let_def)
  show ?case
  proof (cases err1)
    case None
    with "1.prems" call show ?thesis by (simp add: retryFrom.simps [of r])
  next
    case (Some e)
    show ?thesis
    proof (cases "\<not> b1 \<or> n \<ge> re_Attempts r \<or> ended n \<or> \<not> Transient e")
      case True
      with "1.prems" call Some show ?thesis by (simp add: retryFrom.simps [of r])
    next
      case False
      then have n: "n < re_Attempts r" by simp
      show ?thesis
      proof (cases "cutoff n")
        case True
        with "1.prems" call Some False n le show ?thesis
          by (simp add: retryFrom.simps [of r] Let_def) auto
      next
        case go: False
        obtain s2 out2 err2 waits2 where rest: "retryFrom r call rnd ended cutoff (n + 1)
            (min (wrap64 (backoff * 2)) (re_Max r)) s1 = (s2, out2, err2, waits2)" by (metis surj_pair)
        have eq: "waits = retryWait r backoff (rnd n) e # waits2"
          using "1.prems" call Some False go rest by (simp add: retryFrom.simps [of r] Let_def)
        from "1.IH" [OF call [symmetric] refl refl Some False refl go rest]
        have "int (length waits2) \<le> max 0 (re_Attempts r - (n + 1)) \<and> list_all (\<lambda>w. w \<le> re_Max r) waits2" .
        with eq n le show ?thesis by auto
      qed
    qed
  qed
qed


text \<open>
  The provider is called once more than the code waits, except when the context ends during the
  last wait.
\<close>

definition retry_calls :: "Retry \<Rightarrow> duration list \<Rightarrow> bool" where
  "retry_calls r waits \<longleftrightarrow>
     int (length waits) < max 1 (re_Attempts r) \<and> list_all (\<lambda>w. w \<le> re_Max r) waits"

lemma retry_bounded:
  "case retry r call rnd ended cutoff s of (s', out, err, waits) \<Rightarrow> retry_calls r waits"
  using retryFrom_spec [of r call rnd ended cutoff 1 "re_Base r" s]
  by (cases "retry r call rnd ended cutoff s") (fastforce simp: retry_def retry_calls_def)

text \<open>A call that succeeds, or fails in a way that is not transient, is made once.\<close>

lemma retry_final:
  assumes "call s = (s', out, again, err)" and "\<And>e. err = Some e \<Longrightarrow> \<not> Transient e"
  shows "retry r call rnd ended cutoff s = (s', out, err, [])"
  using assms by (cases err) (auto simp: retry_def retryFrom.simps [of r])

lemma canceled_not_transient: "model_errors_is e CtxCanceled \<Longrightarrow> \<not> Transient e"
  by (simp add: Transient_def)

section \<open>Replaying what was recorded\<close>

text \<open>Requests one after the other, stopping at the first error.\<close>

fun chatAll :: "('s \<Rightarrow> ChatRequest \<Rightarrow> 's \<times> ChatResponse \<times> model_error option) \<Rightarrow> 's
    \<Rightarrow> ChatRequest list \<Rightarrow> 's \<times> ChatResponse list \<times> model_error option" where
  "chatAll chat s [] = (s, [], None)"
| "chatAll chat s (req # reqs) =
     (case chat s req of
        (s', resp, Some e) \<Rightarrow> (s', [], Some e)
      | (s', resp, None) \<Rightarrow>
          (case chatAll chat s' reqs of (s'', resps, err) \<Rightarrow> (s'', resp # resps, err)))"

lemma matchKey_withoutIDs [simp]: "matchKey (withoutIDs r) = matchKey r"
  by (simp add: matchKey_def withoutIDs_def)

lemma recorder_log:
  "chatAll (Recorder_Chat chat) (s, exs) reqs = ((s', exs'), resps, None) \<Longrightarrow>
   exs' = exs @ map2 (\<lambda>req resp. \<lparr>ex_Request = withoutIDs req, ex_Response = resp\<rparr>) reqs resps \<and>
   length resps = length reqs"
proof (induction reqs arbitrary: s exs resps)
  case (Cons req reqs)
  obtain s1 resp e where call: "chat s req = (s1, resp, e)" by (metis surj_pair)
  with Cons.prems have e: "e = None" by (auto simp: Recorder_Chat_def split: option.splits)
  let ?ex = "\<lparr>ex_Request = withoutIDs req, ex_Response = resp\<rparr>"
  obtain st2 resps2 err2 where rest: "chatAll (Recorder_Chat chat) (s1, exs @ [?ex]) reqs = (st2, resps2, err2)"
    by (metis surj_pair)
  have "Recorder_Chat chat (s, exs) req = ((s1, exs @ [?ex]), resp, None)"
    by (simp add: Recorder_Chat_def call e)
  with Cons.prems rest have "st2 = (s', exs')" "resps = resp # resps2" "err2 = None" by auto
  with Cons.IH [of s1 "exs @ [?ex]" resps2] rest show ?case by simp
qed simp

lemma pendingOf_mput: "pendingOf (mput k q p) k' = (if k' = k then q else pendingOf p k')"
  by (simp add: pendingOf_def go_simps)

text \<open>What a replayer made from exchanges has pending for a document, in recorded order.\<close>

lemma NewReplayerFrom_pending:
  "NewReplayerFrom p exs = Inr p' \<Longrightarrow>
   pendingOf p' k = pendingOf p k @ map ex_Response (filter (\<lambda>ex. matchKey (ex_Request ex) = Inr k) exs)"
proof (induction exs arbitrary: p)
  case (Cons ex exs)
  then obtain j where j: "matchKey (ex_Request ex) = Inr j"
    and rest: "NewReplayerFrom (mput j (pendingOf p j @ [ex_Response ex]) p) exs = Inr p'"
    by (auto split: sum.splits)
  from Cons.IH [OF rest] j show ?case by (auto simp: pendingOf_mput)
qed simp

lemma NewReplayerFrom_ok:
  "\<forall>ex \<in> set exs. \<exists>k. matchKey (ex_Request ex) = Inr k \<Longrightarrow> \<exists>p'. NewReplayerFrom p exs = Inr p'"
  by (induction exs arbitrary: p) (auto split: sum.splits)

text \<open>
  A replayer that has the responses of the requests pending, document by document in the order of
  the requests, answers them and uses up exactly those.
\<close>

lemma replay_all:
  "\<forall>k. pendingOf p k = map snd (filter (\<lambda>(req, resp). matchKey req = Inr k) (zip reqs resps)) @ extra k \<Longrightarrow>
   \<forall>req \<in> set reqs. \<exists>k. matchKey req = Inr k \<Longrightarrow> length resps = length reqs \<Longrightarrow>
   \<exists>p'. chatAll Replayer_Chat p reqs = (p', resps, None) \<and> (\<forall>k. pendingOf p' k = extra k)"
proof (induction reqs arbitrary: p resps)
  case (Cons req reqs)
  then obtain resp resps' where resps: "resps = resp # resps'" "length resps' = length reqs"
    by (cases resps) auto
  from Cons.prems(2) obtain j where j: "matchKey req = Inr j" by auto
  let ?q = "map snd (filter (\<lambda>(req, resp). matchKey req = Inr j) (zip reqs resps')) @ extra j"
  have "pendingOf p j = resp # ?q" using Cons.prems(1) j by (simp add: resps)
  then have step: "Replayer_Chat p req = (mput j ?q p, resp, None)"
    by (simp add: Replayer_Chat_def j)
  have "\<forall>k. pendingOf (mput j ?q p) k =
      map snd (filter (\<lambda>(req, resp). matchKey req = Inr k) (zip reqs resps')) @ extra k"
    using Cons.prems(1) j by (auto simp: pendingOf_mput resps)
  from Cons.IH [OF this] Cons.prems(2) resps(2) step show ?case by (auto simp: resps)
qed simp

text \<open>\<open>Remaining\<close> is zero when nothing is pending.\<close>

lemma remaining_0: "wf_map p \<Longrightarrow> \<forall>k. pendingOf p k = [] \<Longrightarrow> Replayer_Remaining p = 0"
  by (auto simp: Replayer_Remaining_def pendingOf_def wf_map_def) (metis map_of_is_SomeI option.simps(5))

lemma wf_replay: "chatAll Replayer_Chat p reqs = (p', resps, err) \<Longrightarrow> wf_map p \<Longrightarrow> wf_map p'"
proof (induction reqs arbitrary: p resps)
  case (Cons req reqs)
  obtain p1 resp e where call: "Replayer_Chat p req = (p1, resp, e)" by (metis surj_pair)
  then have "wf_map p1" using Cons.prems(2)
    by (auto simp: Replayer_Chat_def split: sum.splits list.splits)
  with Cons call show ?case by (auto split: option.splits prod.splits)
qed simp

lemma wf_NewReplayer: "NewReplayerFrom p exs = Inr p' \<Longrightarrow> wf_map p \<Longrightarrow> wf_map p'"
  by (induction exs arbitrary: p) (auto split: sum.splits)

text \<open>Requests with the same documents look the same in what was recorded.\<close>

lemma recorded_for:
  assumes "length reqs = length resps" and "map matchKey reqs' = map matchKey reqs"
  shows "map ex_Response (filter (\<lambda>ex. matchKey (ex_Request ex) = Inr k)
      (map2 (\<lambda>req resp. \<lparr>ex_Request = withoutIDs req, ex_Response = resp\<rparr>) reqs resps)) =
    map snd (filter (\<lambda>(req, resp). matchKey req = Inr k) (zip reqs' resps))"
  using assms
proof (induction reqs resps arbitrary: reqs' rule: list_induct2)
  case (Cons req reqs resp resps)
  then obtain req' reqs2 where "reqs' = req' # reqs2" "matchKey req' = matchKey req"
    "map matchKey reqs2 = map matchKey reqs" by (cases reqs') auto
  with Cons.IH [of reqs2] show ?case by simp
qed simp

text \<open>C20: recording and replaying are inverse: when a provider answers a sequence of requests
  through a \<open>Recorder\<close>, a \<open>Replayer\<close> made from what it kept answers the same requests with
  the same responses and has none left, also when the requests carry other IDs, another
  idempotency key or another model name.\<close>

theorem fixtures_replay_what_was_recorded:
  assumes "chatAll (Recorder_Chat chat) (s, []) reqs = ((s', exs), resps, None)"
    and "map matchKey reqs' = map matchKey reqs"
    and "\<forall>req \<in> set reqs. isl (matchKey req) = False"
  shows "\<exists>p p'. NewReplayer exs = Inr p \<and> chatAll Replayer_Chat p reqs' = (p', resps, None) \<and>
    Replayer_Remaining p' = 0"
proof -
  from recorder_log [OF assms(1)]
  have exs: "exs = map2 (\<lambda>req resp. \<lparr>ex_Request = withoutIDs req, ex_Response = resp\<rparr>) reqs resps"
    and len: "length resps = length reqs" by auto
  have len': "length reqs' = length reqs" using assms(2) by (metis length_map)
  have keys: "\<exists>k. matchKey req = Inr k" if "req \<in> set reqs" for req
    using assms(3) that by (cases "matchKey req") auto
  have keys': "\<forall>req \<in> set reqs'. \<exists>k. matchKey req = Inr k"
    using keys assms(2) by (metis (no_types, lifting) in_set_conv_nth length_map nth_map)
  have "\<forall>ex \<in> set exs. \<exists>k. matchKey (ex_Request ex) = Inr k"
    using keys by (auto simp: exs dest: set_zip_leftD)
  from NewReplayerFrom_ok [OF this] obtain p where p: "NewReplayerFrom [] exs = Inr p" by blast
  have "\<forall>k. pendingOf p k = map snd (filter (\<lambda>(req, resp). matchKey req = Inr k) (zip reqs' resps)) @ []"
    using NewReplayerFrom_pending [OF p] recorded_for [OF len [symmetric] assms(2)]
    by (simp add: exs pendingOf_def)
  from replay_all [OF this keys'] len len' obtain p'
    where run: "chatAll Replayer_Chat p reqs' = (p', resps, None)" and "\<forall>k. pendingOf p' k = []" by auto
  then have "Replayer_Remaining p' = 0"
    using wf_replay [OF run wf_NewReplayer [OF p wf_map_Nil]] by (intro remaining_0)
  with p run show ?thesis by (auto simp: NewReplayer_def)
qed

definition question :: "string \<Rightarrow> ChatRequest" where
  "question r = \<lparr>cr_TenantID = [], cr_RunID = r, cr_StepID = [], cr_Model = ''m'', cr_Messages = [],
     cr_Tools = [], cr_ToolCallMode = [], cr_ResponseSchema = None, cr_Parameters = [],
     cr_IdempotencyKey = r\<rparr>"

definition scripted :: MockProvider where
  "scripted = NewMockProvider [\<lparr>mr_Content = ''a'', mr_ToolCalls = [], mr_Usage = Usage0, mr_Err = None\<rparr>,
     \<lparr>mr_Content = ''b'', mr_ToolCalls = [], mr_Usage = Usage0, mr_Err = None\<rparr>]"

theorem fixtures_replay_what_was_recorded_witness:
  "\<exists>s exs resps p p'. chatAll (Recorder_Chat Mock_Chat) (scripted, []) [question ''r'', question ''r''] =
      ((s, exs), resps, None) \<and> map (msg_Content o cp_Message) resps = [''a'', ''b''] \<and>
    NewReplayer exs = Inr p \<and>
    chatAll Replayer_Chat p [question ''x'', question ''y''] = (p', resps, None)"
proof -
  obtain s exs resps err where run: "chatAll (Recorder_Chat Mock_Chat) (scripted, []) [question ''r'', question ''r''] =
      ((s, exs), resps, err)" by (metis surj_pair)
  then have res: "err = None" "map (msg_Content o cp_Message) resps = [''a'', ''b'']"
    by (auto simp: Recorder_Chat_def Mock_Chat_def scripted_def NewMockProvider_def Let_def)
  have key: "matchKey (question r) = matchKey (question ''r'')" for r
    by (simp add: matchKey_def question_def withoutIDs_def)
  have "\<not> isl (matchKey (question ''r''))"
    by (simp add: matchKey_def question_def withoutIDs_def requestDoc_def omitEmpty_def omitEmptyList_def)
  then have ok: "\<forall>req \<in> set [question ''r'', question ''r'']. isl (matchKey req) = False" by simp
  have keys: "map matchKey [question ''x'', question ''y''] = map matchKey [question ''r'', question ''r'']"
    using key [of "''x''"] key [of "''y''"] by simp
  note run' = run [unfolded res(1)]
  from fixtures_replay_what_was_recorded [OF run' keys ok] obtain p p'
    where "NewReplayer exs = Inr p"
      and "chatAll Replayer_Chat p [question ''x'', question ''y''] = (p', resps, None)" by blast
  with run' res(2) show ?thesis
    by - (rule exI, rule exI, rule exI, rule exI, rule exI, intro conjI)
qed

end
