(* ===== verification/LoopResponse.thy ===== *)
theory LoopResponse
  imports LoopDetection
begin

text \<open>
  How a run answers a detected loop (\<open>LoopResponse\<close> and \<open>onLoop\<close> in \<open>runtime/orchestrator.go\<close>):
  it fails, pauses, or asks a human. The response comes from the configuration, so any string may
  occur, and the empty one is \<open>fail\<close>. \<open>answer\<close> is what \<open>awaitApproval\<close> returns: an error, or
  the status of the resolved approval. The event \<open>onLoop\<close> emits is recorded by its callers.
\<close>

type_synonym LoopResponse = string

abbreviation LoopFail :: LoopResponse where "LoopFail \<equiv> ''fail''"
abbreviation LoopPause :: LoopResponse where "LoopPause \<equiv> ''pause''"
abbreviation LoopApprove :: LoopResponse where "LoopApprove \<equiv> ''approve''"

definition onLoop :: "LoopResponse \<Rightarrow> goerr + string \<Rightarrow> LoopDetector \<Rightarrow> RunID \<Rightarrow> string \<Rightarrow> goerr
    \<Rightarrow> LoopDetector \<times> goerr option" where
  "onLoop response0 answer d run key err =
     (let response = (if response0 = [] then LoopFail else response0)
      in if response = LoopPause then (d, Some (Errorf ''%w: %w'' [Sentinel ErrPaused, err]))
         else if response = LoopApprove
         then (case answer of
             Inl aerr \<Rightarrow> (d, Some aerr)
           | Inr status \<Rightarrow>
               if status \<noteq> ''approved''
               then (d, Some (Errorf ''%w; carrying on was not approved (%s)'' [err]))
               else (Clear d run key, None))
         else (d, Some err))"

lemma Clear_settings [simp]:
  "ReplyRepeats (Clear d run key) = ReplyRepeats d" "RetryStorm (Clear d run key) = RetryStorm d"
  "RetryWindow (Clear d run key) = RetryWindow d"
  by (simp_all add: Clear_def)

lemma onLoop_settings:
  assumes "onLoop response answer d run key err = (d', e)"
  shows "ReplyRepeats d' = ReplyRepeats d \<and> RetryStorm d' = RetryStorm d \<and> RetryWindow d' = RetryWindow d"
  using assms by (auto simp: onLoop_def Let_def split: if_splits sum.splits)

text \<open>A run carries on after a loop only when a human approved it, and then the loop is forgotten.\<close>

lemma onLoop_carries_on:
  "onLoop response answer d run key err = (d', None) \<longleftrightarrow>
   response = LoopApprove \<and> answer = Inr ''approved'' \<and> d' = Clear d run key"
  by (auto simp: onLoop_def Let_def split: sum.splits)

end
