(* ===== verification/Stages.thy ===== *)
theory Stages
  imports Workflow LoopResponse
begin

text \<open>
  The workflow engine (\<open>runStages\<close> in \<open>runtime/workflow.go\<close>): one loop that starts each stage
  when the stages it depends on are done, waits for a running stage to finish, and applies
  hand-backs and stop conditions to its output; and \<open>render\<close>, which fills prompt templates.

  The local variables of the loop are the record \<open>Rounds\<close>. A running goroutine is an entry of
  \<open>rs_flight\<close> with the copies it was started with, so \<open>active\<close> is the length of that list.
  \<open>loopHead\<close> is the loop body up to \<open>r := <-results\<close>, \<open>receive\<close> the rest. Which goroutine's
  result arrives, and what \<open>runStage\<close> returned in it, is open: \<open>stages_round\<close> is the step
  relation over all of them. \<open>runStage\<close> itself and \<open>onLoop\<close> are in other theories; here their
  results are part of the step. Patterns match by the argument \<open>matchRe\<close>, and \<open>runes\<close> gives
  the code points of a text for the loop detector.

  The invariant says which stages may run, the potential that every execution ends.
\<close>

section \<open>Templates\<close>

text \<open>
  \<open>strings.NewReplacer(pairs...).Replace(s)\<close>: at each position the first pair whose old string
  is a prefix of the rest is replaced. No old string here is empty.
\<close>

fun firstMatch :: "(string \<times> string) list \<Rightarrow> string \<Rightarrow> (string \<times> string) option" where
  "firstMatch [] s = None"
| "firstMatch ((old, new) # ps) s =
     (if old \<noteq> [] \<and> take (length old) s = old then Some (old, new) else firstMatch ps s)"

lemma firstMatch_nonempty: "firstMatch ps s = Some (old, new) \<Longrightarrow> old \<noteq> []"
  by (induction ps) (auto split: if_splits)

function replaceAll :: "(string \<times> string) list \<Rightarrow> string \<Rightarrow> string" where
  "replaceAll ps [] = []"
| "replaceAll ps (c # s) =
     (case firstMatch ps (c # s) of
        None \<Rightarrow> c # replaceAll ps s
      | Some (old, new) \<Rightarrow> new @ replaceAll ps (drop (length old) (c # s)))"
  by pat_completeness auto

termination
  by (relation "measure (\<lambda>(ps, s). length s)") (auto dest: firstMatch_nonempty)

definition render :: "string \<Rightarrow> (string, string) gomap \<Rightarrow> (string, string) gomap \<Rightarrow> string \<Rightarrow> string" where
  "render tmpl input vars feedback =
     replaceAll ([(''{{feedback}}'', feedback)] @
       map (\<lambda>(k, v). (''{{input.'' @ k @ ''}}'', v)) input @
       map (\<lambda>(k, v). (''{{stage.'' @ k @ ''}}'', v)) vars) tmpl"

section \<open>The state of the loop\<close>

datatype stage_state = Pending | Running | Done

record Flight =
  fl_i :: nat
  fl_vars :: "(string, string) gomap"
  fl_feedback :: string

datatype stage_event =
    RepeatedDrafts string int
  | StageHandedBack string string int
  | WorkflowStopped string

record Rounds =
  rs_state :: "stage_state list"
  rs_handBacks :: "int list"
  rs_feedback :: "string list"
  rs_failed :: "goerr option"
  rs_stopped :: bool
  rs_resets :: "nat list"
  rs_flight :: "Flight list"
  rs_vars :: "(string, string) gomap"
  rs_loop :: LoopDetector
  rs_events :: "stage_event list"

record Finished =
  fin_out :: string
  fin_vars :: "(string, string) gomap"
  fin_err :: "goerr option"

definition startRounds :: "('re, 'sc) plan \<Rightarrow> (string, string) gomap \<Rightarrow> LoopDetector \<Rightarrow> Rounds" where
  "startRounds p vars d = (let n = length (p_stages p) in
     \<lparr>rs_state = replicate n Pending, rs_handBacks = replicate n 0, rs_feedback = replicate n [],
      rs_failed = None, rs_stopped = False, rs_resets = [], rs_flight = [], rs_vars = vars,
      rs_loop = d, rs_events = []\<rparr>)"

text \<open>One iteration of \<open>for i := range n\<close>: stage \<open>i\<close> starts if it can.\<close>

definition startStage :: "('re, 'sc) plan \<Rightarrow> nat \<Rightarrow> Rounds \<Rightarrow> Rounds" where
  "startStage p i st =
     (if rs_state st ! i \<noteq> Pending \<or> list_ex (\<lambda>d. rs_state st ! d \<noteq> Done) (p_deps p ! i) then st
      else st\<lparr>rs_state := (rs_state st)[i := Running],
              rs_flight := rs_flight st @
                [\<lparr>fl_i = i, fl_vars = rs_vars st, fl_feedback = rs_feedback st ! i\<rparr>]\<rparr>)"

definition startStages :: "('re, 'sc) plan \<Rightarrow> Rounds \<Rightarrow> Rounds" where
  "startStages p st = fold (startStage p) [0..<length (p_stages p)] st"

text \<open>\<open>for _, t := range resets\<close>: a stage to run again, and what depends on it, are pending.\<close>

fun resetStages :: "('re, 'sc) plan \<Rightarrow> nat list \<Rightarrow> stage_state list \<Rightarrow> stage_state list option" where
  "resetStages p [] ss = Some ss"
| "resetStages p (t # ts) ss =
     (case descendantsOrSelf p t of
        None \<Rightarrow> None
      | Some ds \<Rightarrow> resetStages p ts (fold (\<lambda>d ss. ss[d := Pending]) ds ss))"

datatype control =
    Return "goerr option"   \<comment> \<open>\<open>return failed\<close>\<close>
  | Again Rounds            \<comment> \<open>\<open>continue\<close> after the resets\<close>
  | Receive Rounds          \<comment> \<open>blocked on \<open>r := <-results\<close>\<close>
  | Panic

definition loopHead :: "('re, 'sc) plan \<Rightarrow> Rounds \<Rightarrow> control" where
  "loopHead p st =
     (let st1 = (if rs_failed st = None \<and> \<not> rs_stopped st \<and> rs_resets st = []
                 then startStages p st else st)
      in if rs_flight st1 = []
         then if rs_resets st1 = [] then Return (rs_failed st1)
              else (case resetStages p (rs_resets st1) (rs_state st1) of
                  None \<Rightarrow> Panic
                | Some ss \<Rightarrow> Again (st1\<lparr>rs_state := ss, rs_resets := []\<rparr>))
         else Receive st1)"

section \<open>A stage's result\<close>

definition handBackLimit :: "HandBack \<Rightarrow> int" where
  "handBackLimit h = (if hb_MaxTimes h = 0 then defaultHandBacks else hb_MaxTimes h)"

definition mget :: "string \<Rightarrow> (string, string) gomap \<Rightarrow> string" where
  "mget k m = (case map_of m k of None \<Rightarrow> [] | Some v \<Rightarrow> v)"

text \<open>The stage is done and its output, and those of its agents, are recorded in \<open>vars\<close>.\<close>

definition recordOutput :: "('re, 'sc) plan \<Rightarrow> nat \<Rightarrow> Finished \<Rightarrow> Rounds \<Rightarrow> Rounds" where
  "recordOutput p i r st =
     (let s = p_stages p ! i;
          copy = (\<lambda>a vars. let key = sg_Name s @ ''.'' @ as_Name a in
                    case map_of (fin_vars r) key of None \<Rightarrow> vars | Some v \<Rightarrow> mput key v vars)
      in st\<lparr>rs_state := (rs_state st)[i := Done],
            rs_vars := fold copy (sg_Agents s) (mput (sg_Name s) (fin_out r) (rs_vars st))\<rparr>)"

definition matches :: "('re \<Rightarrow> string \<Rightarrow> bool) \<Rightarrow> 're option \<Rightarrow> string \<Rightarrow> bool" where
  "matches matchRe re s = (case re of None \<Rightarrow> False | Some re \<Rightarrow> matchRe re s)"

text \<open>
  The branch for an output that matches \<open>hand_back.when\<close>. \<open>answer\<close> is what a human
  answers if the drafts repeat and \<open>onLoop\<close> asks. \<open>None\<close> is a panic.
\<close>

definition handWorkBack :: "(rune \<Rightarrow> rune) \<Rightarrow> (rune \<Rightarrow> bool) \<Rightarrow> (string \<Rightarrow> rune list) \<Rightarrow> LoopResponse \<Rightarrow> RunID
    \<Rightarrow> ('re, 'sc) plan \<Rightarrow> nat \<Rightarrow> string \<Rightarrow> goerr + string \<Rightarrow> Rounds \<Rightarrow> Rounds option" where
  "handWorkBack lower inWord runes response run p i out answer st =
     (let s = p_stages p ! i; to = p_handTo p ! i;
          st1 = st\<lparr>rs_handBacks := (rs_handBacks st)[i := rs_handBacks st ! i + 1]\<rparr>
      in case sg_HandBack s of
           None \<Rightarrow> None
         | Some h \<Rightarrow>
             if rs_handBacks st1 ! i > handBackLimit h
             then Some (st1\<lparr>rs_failed := Some (new_error
               ''stage %q still failed validation after handing work back to %q %d times'')\<rparr>)
             else (let scope = ''hand_back:'' @ sg_Name s
               in case ObserveReply lower inWord (rs_loop st1) run scope
                    (runes (mget (sg_Name (p_stages p ! to)) (rs_vars st1))) of
                 None \<Rightarrow> None
               | Some (d, stalled, n) \<Rightarrow>
                   let (d', err) = (if stalled
                         then onLoop response answer d run scope (Errorf
                           ''%w: stage %q handed back %d near-identical drafts'' [Sentinel ErrLoopDetected])
                         else (d, None));
                       evs = rs_events st1 @ (if stalled then [RepeatedDrafts (sg_Name s) n] else [])
                   in if err \<noteq> None
                      then Some (st1\<lparr>rs_loop := d', rs_events := evs, rs_failed := err\<rparr>)
                      else Some (st1\<lparr>rs_loop := d',
                        rs_events := evs @ [StageHandedBack (sg_Name s) (hb_To h) (rs_handBacks st1 ! i)],
                        rs_feedback := (rs_feedback st1)[to := out],
                        rs_resets := rs_resets st1 @ [to]\<rparr>)))"

definition receive :: "('re \<Rightarrow> string \<Rightarrow> bool) \<Rightarrow> (rune \<Rightarrow> rune) \<Rightarrow> (rune \<Rightarrow> bool)
    \<Rightarrow> (string \<Rightarrow> rune list) \<Rightarrow> LoopResponse \<Rightarrow> RunID \<Rightarrow> ('re, 'sc) plan \<Rightarrow> nat \<Rightarrow> Finished \<Rightarrow> goerr + string
    \<Rightarrow> Rounds \<Rightarrow> Rounds option" where
  "receive matchRe lower inWord runes response run p i r answer st =
     (if rs_failed st \<noteq> None then Some st
      else if fin_err r \<noteq> None then Some (st\<lparr>rs_failed := fin_err r\<rparr>)
      else let st1 = recordOutput p i r st
        in if matches matchRe (p_handWhen p ! i) (fin_out r)
           then handWorkBack lower inWord runes response run p i (fin_out r) answer st1
           else if matches matchRe (p_stopWhen p ! i) (fin_out r)
           then Some (st1\<lparr>rs_stopped := True,
                          rs_events := rs_events st1 @ [WorkflowStopped (sg_Name (p_stages p ! i))]\<rparr>)
           else Some st1)"

section \<open>The loop as a step relation\<close>

definition remove_nth :: "nat \<Rightarrow> 'a list \<Rightarrow> 'a list" where
  "remove_nth k xs = take k xs @ drop (Suc k) xs"

text \<open>
  One iteration: the resets are applied, or some running stage, the \<open>k\<close>th in flight, delivers
  any result \<open>r\<close>, and a human, if asked, any \<open>answer\<close>.
\<close>

inductive stages_round :: "('re \<Rightarrow> string \<Rightarrow> bool) \<Rightarrow> (rune \<Rightarrow> rune) \<Rightarrow> (rune \<Rightarrow> bool)
    \<Rightarrow> (string \<Rightarrow> rune list) \<Rightarrow> LoopResponse \<Rightarrow> RunID \<Rightarrow> ('re, 'sc) plan \<Rightarrow> Rounds \<Rightarrow> Rounds \<Rightarrow> bool"
  for matchRe lower inWord runes response run p where
  resets: "loopHead p st = Again st' \<Longrightarrow> stages_round matchRe lower inWord runes response run p st st'"
| result: "loopHead p st = Receive st1 \<Longrightarrow> k < length (rs_flight st1) \<Longrightarrow>
    receive matchRe lower inWord runes response run p (fl_i (rs_flight st1 ! k)) r answer
      (st1\<lparr>rs_flight := remove_nth k (rs_flight st1)\<rparr>) = Some st' \<Longrightarrow>
    stages_round matchRe lower inWord runes response run p st st'"

inductive_cases stages_roundE: "stages_round matchRe lower inWord runes response run p st st'"


section \<open>The invariant of the loop\<close>

definition handBackLimitOf :: "('re, 'sc) plan \<Rightarrow> nat \<Rightarrow> nat" where
  "handBackLimitOf p i = (case sg_HandBack (p_stages p ! i) of None \<Rightarrow> 0 | Some h \<Rightarrow> nat (handBackLimit h))"

text \<open>A stage that has started has only finished stages before it.\<close>

definition deps_done :: "('re, 'sc) plan \<Rightarrow> stage_state list \<Rightarrow> bool" where
  "deps_done p ss \<longleftrightarrow> (\<forall>(i, d) \<in> edge (p_deps p). ss ! i \<noteq> Pending \<longrightarrow> ss ! d = Done)"

definition flight_ok :: "Rounds \<Rightarrow> bool" where
  "flight_ok st \<longleftrightarrow> distinct (map fl_i (rs_flight st)) \<and>
     (\<forall>f \<in> set (rs_flight st). fl_i f < length (rs_state st) \<and> rs_state st ! fl_i f = Running) \<and>
     (rs_failed st = None \<longrightarrow>
       (\<forall>i < length (rs_state st). rs_state st ! i = Running \<longrightarrow> i \<in> fl_i ` set (rs_flight st)))"

definition rounds_ok :: "('re, 'sc) plan \<Rightarrow> Rounds \<Rightarrow> bool" where
  "rounds_ok p st \<longleftrightarrow>
     length (rs_state st) = length (p_stages p) \<and> length (rs_handBacks st) = length (p_stages p) \<and>
     length (rs_feedback st) = length (p_stages p) \<and> 0 < ReplyRepeats (rs_loop st) \<and>
     deps_done p (rs_state st) \<and> flight_ok st \<and>
     (\<forall>t \<in> set (rs_resets st). t < length (p_stages p) \<and> rs_state st ! t = Done) \<and>
     (\<forall>i < length (p_stages p). 0 \<le> rs_handBacks st ! i \<and>
       (rs_failed st = None \<longrightarrow> rs_handBacks st ! i \<le> int (handBackLimitOf p i)))"

lemma edge_deps_less:
  assumes "plan_ok compileRegexp p" and "(i, d) \<in> edge (p_deps p)"
  shows "i < length (p_stages p) \<and> d < length (p_stages p) \<and> d \<noteq> i"
proof -
  from assms have "acyclic (edge (p_deps p))" by (simp add: plan_ok_def Let_def)
  with assms(2) have "d \<noteq> i" by (auto simp: acyclic_def)
  with assms in_rangeD [of "p_deps p" i d] show ?thesis
    by (simp add: plan_ok_def Let_def links_ok_def edge_iff)
qed

lemma startRounds_ok:
  assumes "plan_ok compileRegexp p" and "0 < ReplyRepeats d"
  shows "rounds_ok p (startRounds p vars d)"
  using assms edge_deps_less [OF assms(1)]
  by (auto simp: rounds_ok_def startRounds_def Let_def deps_done_def flight_ok_def)

subsection \<open>Starting stages\<close>

text \<open>What the other parts of the state have to do with starting a stage: nothing.\<close>

lemma startStage_same [simp]:
  "rs_handBacks (startStage p i st) = rs_handBacks st" "rs_feedback (startStage p i st) = rs_feedback st"
  "rs_failed (startStage p i st) = rs_failed st" "rs_stopped (startStage p i st) = rs_stopped st"
  "rs_resets (startStage p i st) = rs_resets st" "rs_loop (startStage p i st) = rs_loop st"
  "length (rs_state (startStage p i st)) = length (rs_state st)"
  by (simp_all add: startStage_def)

lemma fold_startStage_same [simp]:
  "rs_handBacks (fold (startStage p) js st) = rs_handBacks st"
  "rs_feedback (fold (startStage p) js st) = rs_feedback st"
  "rs_failed (fold (startStage p) js st) = rs_failed st"
  "rs_stopped (fold (startStage p) js st) = rs_stopped st"
  "rs_resets (fold (startStage p) js st) = rs_resets st"
  "rs_loop (fold (startStage p) js st) = rs_loop st"
  "length (rs_state (fold (startStage p) js st)) = length (rs_state st)"
  by (induction js arbitrary: st) simp_all

lemma startStages_same [simp]:
  "rs_handBacks (startStages p st) = rs_handBacks st" "rs_feedback (startStages p st) = rs_feedback st"
  "rs_failed (startStages p st) = rs_failed st" "rs_stopped (startStages p st) = rs_stopped st"
  "rs_resets (startStages p st) = rs_resets st" "rs_loop (startStages p st) = rs_loop st"
  "length (rs_state (startStages p st)) = length (rs_state st)"
  by (simp_all add: startStages_def)

definition startable :: "('re, 'sc) plan \<Rightarrow> Rounds \<Rightarrow> nat \<Rightarrow> bool" where
  "startable p st i \<longleftrightarrow> rs_state st ! i = Pending \<and> (\<forall>d \<in> set (p_deps p ! i). rs_state st ! d = Done)"

lemma startStage_cases:
  "startStage p i st =
     (if startable p st i
      then st\<lparr>rs_state := (rs_state st)[i := Running], rs_flight := rs_flight st @
        [\<lparr>fl_i = i, fl_vars = rs_vars st, fl_feedback = rs_feedback st ! i\<rparr>]\<rparr>
      else st)"
  by (auto simp: startStage_def startable_def list_ex_iff)

lemma startStage_done:
  "i < length (rs_state st) \<Longrightarrow> rs_state (startStage p i st) ! j = Done \<longleftrightarrow> rs_state st ! j = Done"
  by (cases "i = j") (auto simp: startStage_cases startable_def)

lemma startStage_startable:
  assumes "i < length (rs_state st)"
  shows "startable p (startStage p i st) j \<longleftrightarrow> startable p st j \<and> j \<noteq> i"
proof (cases "startable p st i")
  case True
  then show ?thesis
    using startStage_done [OF assms, of p] assms
    by (cases "j = i") (auto simp: startable_def startStage_cases)
next
  case False
  then show ?thesis by (auto simp: startStage_cases)
qed

lemma startStage_flight_ok:
  assumes "flight_ok st" and "i < length (rs_state st)"
  shows "flight_ok (startStage p i st)"
  using assms by (auto simp: startStage_cases flight_ok_def startable_def nth_list_update)

lemma startStage_deps_done:
  assumes "deps_done p (rs_state st)" and "i < length (rs_state st)"
  shows "deps_done p (rs_state (startStage p i st))"
proof -
  have "rs_state (startStage p i st) ! d = Done"
    if "(a, d) \<in> edge (p_deps p)" "rs_state (startStage p i st) ! a \<noteq> Pending" for a d
    unfolding startStage_done [OF assms(2)]
    using that assms
    by (cases "a = i") (auto simp: deps_done_def startStage_cases startable_def edge_iff split: if_splits)
  then show ?thesis by (auto simp: deps_done_def)
qed

lemma startStage_ok:
  assumes "rounds_ok p st" and "i < length (p_stages p)"
  shows "rounds_ok p (startStage p i st)"
  using assms startStage_deps_done [of p st i] startStage_flight_ok [of st i p] startStage_done [of i st p]
  by (simp add: rounds_ok_def)

lemma startStages_ok:
  assumes "rounds_ok p st" shows "rounds_ok p (startStages p st)"
proof -
  have "rounds_ok p (fold (startStage p) js st)" if "\<forall>j \<in> set js. j < length (p_stages p)" for js
    using that assms by (induction js arbitrary: st) (auto intro: startStage_ok)
  then show ?thesis by (simp add: startStages_def)
qed

text \<open>After the scan no stage can start that has not.\<close>

lemma startStages_complete:
  assumes "rounds_ok p st" and "i < length (p_stages p)"
  shows "\<not> startable p (startStages p st) i"
proof -
  have "startable p (fold (startStage p) js st) j \<longleftrightarrow> startable p st j \<and> j \<notin> set js"
    if "\<forall>j \<in> set js. j < length (rs_state st)" for js j
    using that by (induction js arbitrary: st) (auto simp: startStage_startable)
  with assms show ?thesis by (simp add: startStages_def rounds_ok_def)
qed


subsection \<open>Resets\<close>

lemma fold_pending_nth:
  "(\<forall>d \<in> set ds. d < length ss) \<Longrightarrow>
   fold (\<lambda>d ss. ss[d := Pending]) ds ss ! j = (if j \<in> set ds then Pending else ss ! j) \<and>
   length (fold (\<lambda>d ss. ss[d := Pending]) ds ss) = length ss"
  by (induction ds arbitrary: ss) (auto simp: nth_list_update)

text \<open>A reset makes a stage pending together with everything that depends on it.\<close>

lemma reset_one_deps_done:
  assumes plan: "plan_ok compileRegexp p" and t: "t < length (p_stages p)"
    and ds: "set ds = {j. (j, t) \<in> (edge (p_deps p))\<^sup>*}"
    and ss: "deps_done p ss" "length ss = length (p_stages p)"
  shows "deps_done p (fold (\<lambda>d ss. ss[d := Pending]) ds ss) \<and>
    length (fold (\<lambda>d ss. ss[d := Pending]) ds ss) = length (p_stages p)"
proof -
  have "j < length ss" if "(j, t) \<in> (edge (p_deps p))\<^sup>*" for j
    using that by (cases rule: converse_rtranclE) (use t ss edge_deps_less [OF plan] in auto)
  then have ds_less: "\<forall>d \<in> set ds. d < length ss" by (simp add: ds)
  have closed: "a \<in> set ds" if "(a, d) \<in> edge (p_deps p)" "d \<in> set ds" for a d
    using that by (auto simp: ds intro: converse_rtrancl_into_rtrancl)
  show ?thesis
    using ss closed fold_pending_nth [OF ds_less] by (auto simp: deps_done_def split: if_splits)
qed

lemma resetStages_ok:
  "plan_ok compileRegexp p \<Longrightarrow> \<forall>t \<in> set ts. t < length (p_stages p) \<Longrightarrow> deps_done p ss \<Longrightarrow>
   length ss = length (p_stages p) \<Longrightarrow>
   \<exists>ss'. resetStages p ts ss = Some ss' \<and> deps_done p ss' \<and> length ss' = length (p_stages p)"
proof (induction ts arbitrary: ss)
  case (Cons t ts)
  then have t: "t < length (p_stages p)" by simp
  from descendantsOrSelf_eq [OF Cons.prems(1) t] obtain ds
    where ds: "descendantsOrSelf p t = Some ds" "set ds = {j. (j, t) \<in> (edge (p_deps p))\<^sup>*}" by blast
  from reset_one_deps_done [OF Cons.prems(1) t ds(2) Cons.prems(3,4)] Cons.IH [OF Cons.prems(1)]
    Cons.prems ds(1) show ?case by simp
qed simp

text \<open>Stages that run are not among those a reset makes pending while nothing is in flight.\<close>

lemma fold_pending_not_running:
  "\<forall>i < length ss. ss ! i \<noteq> Running \<Longrightarrow>
   \<forall>i < length (fold (\<lambda>d ss. ss[d := Pending]) ds ss). fold (\<lambda>d ss. ss[d := Pending]) ds ss ! i \<noteq> Running"
proof (induction ds arbitrary: ss)
  case (Cons d ds)
  then have "\<forall>i < length (ss[d := Pending]). ss[d := Pending] ! i \<noteq> Running"
    by (cases "d < length ss") (auto simp: nth_list_update)
  from Cons.IH [OF this] show ?case by simp
qed simp

lemma resetStages_pending:
  "resetStages p ts ss = Some ss' \<Longrightarrow> \<forall>i < length ss. ss ! i \<noteq> Running \<Longrightarrow>
   \<forall>i < length ss'. ss' ! i \<noteq> Running"
proof (induction ts arbitrary: ss)
  case (Cons t ts)
  then obtain ds where "resetStages p ts (fold (\<lambda>d ss. ss[d := Pending]) ds ss) = Some ss'"
    by (auto split: option.splits)
  moreover have "\<forall>i < length (fold (\<lambda>d ss. ss[d := Pending]) ds ss).
      fold (\<lambda>d ss. ss[d := Pending]) ds ss ! i \<noteq> Running"
    using Cons.prems(2) by (rule fold_pending_not_running)
  ultimately show ?case by (rule Cons.IH)
qed simp

lemma loopHead_again_ok:
  assumes plan: "plan_ok compileRegexp p" and ok: "rounds_ok p st" and head: "loopHead p st = Again st'"
  shows "rounds_ok p st' \<and> rs_flight st = [] \<and> rs_resets st \<noteq> [] \<and> rs_resets st' = [] \<and>
    rs_handBacks st' = rs_handBacks st \<and> rs_flight st' = [] \<and> rs_failed st' = rs_failed st"
proof -
  define st1 where "st1 = (if rs_failed st = None \<and> \<not> rs_stopped st \<and> rs_resets st = []
    then startStages p st else st)"
  have "rs_resets st1 = rs_resets st" by (simp add: st1_def)
  with head have "rs_resets st \<noteq> []"
    by (auto simp: loopHead_def st1_def [symmetric] Let_def split: if_splits)
  then have same: "st1 = st" by (auto simp: st1_def)
  with head obtain ss where ss: "resetStages p (rs_resets st) (rs_state st) = Some ss"
    and st': "st' = st\<lparr>rs_state := ss, rs_resets := []\<rparr>" and none: "rs_flight st = []"
    by (auto simp: loopHead_def st1_def [symmetric] Let_def split: if_splits option.splits)
  from resetStages_ok [OF plan, of "rs_resets st" "rs_state st"] ok ss
  have "deps_done p ss" "length ss = length (p_stages p)" by (auto simp: rounds_ok_def)
  moreover have "\<forall>i < length ss. ss ! i \<noteq> Running" if "rs_failed st = None"
    using resetStages_pending [OF ss] ok none that by (auto simp: rounds_ok_def flight_ok_def)
  ultimately show ?thesis
    using ok none \<open>rs_resets st \<noteq> []\<close> by (simp add: st' rounds_ok_def flight_ok_def)
qed

lemma loopHead_receive_ok:
  assumes ok: "rounds_ok p st" and head: "loopHead p st = Receive st1"
  shows "rounds_ok p st1 \<and> rs_flight st1 \<noteq> [] \<and> rs_handBacks st1 = rs_handBacks st \<and>
    rs_resets st1 = rs_resets st"
  using head startStages_ok [OF ok] ok
  by (auto simp: loopHead_def Let_def split: if_splits option.splits)

lemma loopHead_not_panic:
  assumes plan: "plan_ok compileRegexp p" and ok: "rounds_ok p st"
  shows "loopHead p st \<noteq> Panic"
proof
  assume panic: "loopHead p st = Panic"
  define st1 where "st1 = (if rs_failed st = None \<and> \<not> rs_stopped st \<and> rs_resets st = []
    then startStages p st else st)"
  have "rounds_ok p st1" using ok startStages_ok [OF ok] by (simp add: st1_def)
  with resetStages_ok [OF plan, of "rs_resets st1" "rs_state st1"]
  have "resetStages p (rs_resets st1) (rs_state st1) \<noteq> None" by (auto simp: rounds_ok_def)
  with panic show False
    by (auto simp: loopHead_def st1_def [symmetric] Let_def split: if_splits option.splits)
qed

subsection \<open>Receiving a result\<close>

lemma remove_nth_map: "map f (remove_nth k xs) = remove_nth k (map f xs)"
  by (simp add: remove_nth_def take_map drop_map)

lemma set_remove_nth: "set (remove_nth k xs) \<subseteq> set xs"
  by (auto simp: remove_nth_def dest: in_set_takeD in_set_dropD)

lemma distinct_remove_nth:
  assumes "distinct xs" and "k < length xs"
  shows "distinct (remove_nth k xs)" and "set (remove_nth k xs) = set xs - {xs ! k}"
proof -
  have xs: "xs = take k xs @ xs ! k # drop (Suc k) xs" using assms(2) by (rule id_take_nth_drop)
  with assms(1) have d: "distinct (take k xs @ xs ! k # drop (Suc k) xs)" by simp
  then show "distinct (remove_nth k xs)" by (simp add: remove_nth_def)
  have "set xs = insert (xs ! k) (set (remove_nth k xs))"
    by (subst xs) (simp add: remove_nth_def)
  with d show "set (remove_nth k xs) = set xs - {xs ! k}" by (simp add: remove_nth_def)
qed

lemma length_remove_nth: "k < length xs \<Longrightarrow> Suc (length (remove_nth k xs)) = length xs"
  by (simp add: remove_nth_def)


lemma deps_done_rtrancl:
  assumes "(i, j) \<in> (edge (p_deps p))\<^sup>*" and "deps_done p ss" and "ss ! i = Done"
  shows "ss ! j = Done"
  using assms(1) by induction (use assms(2,3) in \<open>auto simp: deps_done_def\<close>)

lemma flight_running:
  assumes "rounds_ok p st" and "k < length (rs_flight st)"
  shows "fl_i (rs_flight st ! k) < length (p_stages p) \<and> rs_state st ! fl_i (rs_flight st ! k) = Running"
  using assms by (auto simp: rounds_ok_def flight_ok_def)

text \<open>A result that only ends the run, or comes after its end.\<close>

lemma drop_flight_ok:
  assumes ok: "rounds_ok p st" and k: "k < length (rs_flight st)" and e: "e \<noteq> None"
  shows "rounds_ok p (st\<lparr>rs_flight := remove_nth k (rs_flight st), rs_failed := e\<rparr>)"
proof -
  have "distinct (map fl_i (rs_flight st))" using ok by (simp add: rounds_ok_def flight_ok_def)
  with distinct_remove_nth(1) [OF this, of k] k have "distinct (map fl_i (remove_nth k (rs_flight st)))"
    by (simp add: remove_nth_map)
  moreover from e obtain e' where "e = Some e'" by blast
  ultimately show ?thesis
    using ok set_remove_nth [of k "rs_flight st"]
    by (auto simp: rounds_ok_def flight_ok_def)
qed

lemma recordOutput_ok:
  assumes ok: "rounds_ok p st" and k: "k < length (rs_flight st)" and i: "i = fl_i (rs_flight st ! k)"
  shows "rounds_ok p (recordOutput p i r (st\<lparr>rs_flight := remove_nth k (rs_flight st)\<rparr>))"
proof -
  let ?fl = "remove_nth k (rs_flight st)" and ?ss = "(rs_state st)[i := Done]"
  from flight_running [OF ok k] i have run: "i < length (p_stages p)" "rs_state st ! i = Running" by auto
  with ok have len: "i < length (rs_state st)" by (simp add: rounds_ok_def)
  have deps: "deps_done p ?ss"
    using ok run len by (auto simp: rounds_ok_def deps_done_def nth_list_update split: if_splits)
  have "distinct (map fl_i (rs_flight st))" using ok by (simp add: rounds_ok_def flight_ok_def)
  from distinct_remove_nth [OF this, of k] k i
  have fl: "distinct (map fl_i ?fl)" "fl_i ` set ?fl = fl_i ` set (rs_flight st) - {i}"
    by (auto simp flip: remove_nth_map)
  have "flight_ok (st\<lparr>rs_state := ?ss, rs_flight := ?fl\<rparr>)"
    unfolding flight_ok_def
  proof (intro conjI ballI impI allI)
    fix f assume f: "f \<in> set (rs_flight (st\<lparr>rs_state := ?ss, rs_flight := ?fl\<rparr>))"
    then have "fl_i f \<noteq> i" using fl(2) by auto
    moreover have "f \<in> set (rs_flight st)" using f set_remove_nth by fastforce
    ultimately show "fl_i f < length (rs_state (st\<lparr>rs_state := ?ss, rs_flight := ?fl\<rparr>))"
      and "rs_state (st\<lparr>rs_state := ?ss, rs_flight := ?fl\<rparr>) ! fl_i f = Running"
      using ok by (auto simp: rounds_ok_def flight_ok_def)
  next
    fix j assume "rs_failed (st\<lparr>rs_state := ?ss, rs_flight := ?fl\<rparr>) = None"
      and "j < length (rs_state (st\<lparr>rs_state := ?ss, rs_flight := ?fl\<rparr>))"
      and "rs_state (st\<lparr>rs_state := ?ss, rs_flight := ?fl\<rparr>) ! j = Running"
    then show "j \<in> fl_i ` set (rs_flight (st\<lparr>rs_state := ?ss, rs_flight := ?fl\<rparr>))"
      using ok fl(2) len by (auto simp: rounds_ok_def flight_ok_def nth_list_update split: if_splits)
  qed (use fl in simp)
  moreover have "?ss ! t = Done" if "rs_state st ! t = Done" for t
    using that len by (cases "t = i") auto
  ultimately show ?thesis
    using ok deps by (auto simp: recordOutput_def Let_def rounds_ok_def flight_ok_def)
qed

lemma recordOutput_fields [simp]:
  "rs_handBacks (recordOutput p i r st) = rs_handBacks st"
  "rs_failed (recordOutput p i r st) = rs_failed st" "rs_resets (recordOutput p i r st) = rs_resets st"
  "rs_flight (recordOutput p i r st) = rs_flight st" "rs_feedback (recordOutput p i r st) = rs_feedback st"
  "rs_state (recordOutput p i r st) = (rs_state st)[i := Done]"
  "rs_loop (recordOutput p i r st) = rs_loop st"
  by (simp_all add: recordOutput_def Let_def)

lemma ObserveReply_some:
  assumes "0 < ReplyRepeats d"
  obtains d' b n where "ObserveReply lower inWord d run scope body = Some (d', b, n)"
    and "ReplyRepeats d' = ReplyRepeats d"
proof -
  from assms have "ObserveReply lower inWord d run scope body \<noteq> None"
    by (simp add: ObserveReply_None)
  then obtain d' b n where r: "ObserveReply lower inWord d run scope body = Some (d', b, n)" by auto
  moreover from r have "ReplyRepeats d' = ReplyRepeats d"
    by (auto simp: ObserveReply_def Let_def split: if_splits)
  ultimately show thesis by (rule that)
qed

text \<open>A stage whose output failed validation: the invariant holds in each of the three outcomes.\<close>

lemma handWorkBack_ok:
  assumes plan: "plan_ok compileRegexp p" and ok: "rounds_ok p st" and none: "rs_failed st = None"
    and i: "i < length (p_stages p)" "rs_state st ! i = Done" "p_handWhen p ! i \<noteq> None"
  obtains st' where "handWorkBack lower inWord runes response run p i out answer st = Some st'"
    and "rounds_ok p st'" and "rs_handBacks st' = (rs_handBacks st)[i := rs_handBacks st ! i + 1]"
    and "rs_state st' = rs_state st" and "rs_flight st' = rs_flight st"
    and "rs_failed st' = None \<Longrightarrow> rs_feedback st' = (rs_feedback st)[p_handTo p ! i := out]"
    and "rs_failed st' \<noteq> None \<Longrightarrow> rs_feedback st' = rs_feedback st"
proof -
  let ?to = "p_handTo p ! i" and ?hb = "(rs_handBacks st)[i := rs_handBacks st ! i + 1]"
  from plan i have "hand_back_ok compileRegexp p i" by (simp add: plan_ok_def Let_def)
  with i obtain h where h: "sg_HandBack (p_stages p ! i) = Some h" "0 \<le> hb_MaxTimes h"
    and to: "?to < length (p_stages p)" "(i, ?to) \<in> (edge (p_deps p))\<^sup>*"
    by (auto simp: hand_back_ok_def split: option.splits)
  from deps_done_rtrancl [OF to(2)] ok i have to_done: "rs_state st ! ?to = Done"
    by (simp add: rounds_ok_def)
  from h have lim: "handBackLimit h = int (handBackLimitOf p i)"
    by (simp add: handBackLimitOf_def handBackLimit_def defaultHandBacks_def)
  from ok have "0 < ReplyRepeats (rs_loop st)" by (simp add: rounds_ok_def)
  then obtain d' b n where obs: "ObserveReply lower inWord (rs_loop st) run
        (''hand_back:'' @ sg_Name (p_stages p ! i)) (runes (mget (sg_Name (p_stages p ! ?to)) (rs_vars st)))
      = Some (d', b, n)" "ReplyRepeats d' = ReplyRepeats (rs_loop st)"
    by (rule ObserveReply_some)
  have nonneg: "0 \<le> ?hb ! j" if "j < length (p_stages p)" for j
    using ok that i by (cases "j = i") (auto simp: rounds_ok_def)
  have upto: "?hb ! j \<le> int (handBackLimitOf p j)"
    if "j < length (p_stages p)" "\<not> ?hb ! i > handBackLimit h" for j
    using ok that i none lim by (cases "j = i") (auto simp: rounds_ok_def)
  have hb_i: "i < length (rs_handBacks st)" using ok i by (simp add: rounds_ok_def)
  show thesis
  proof (cases "?hb ! i > handBackLimit h")
    case True
    define e where "e = new_error
      ''stage %q still failed validation after handing work back to %q %d times''"
    have "handWorkBack lower inWord runes response run p i out answer st =
        Some (st\<lparr>rs_handBacks := ?hb, rs_failed := Some e\<rparr>)"
      using True h hb_i by (simp add: handWorkBack_def Let_def e_def)
    then show thesis
      by (rule that) (use ok none nonneg in \<open>auto simp: rounds_ok_def flight_ok_def\<close>)
  next
    case False
    let ?scope = "''hand_back:'' @ sg_Name (p_stages p ! i)"
    obtain d2 err where loop: "(if b then onLoop response answer d' run ?scope (Errorf
        ''%w: stage %q handed back %d near-identical drafts'' [Sentinel ErrLoopDetected]) else (d', None))
      = (d2, err)" by fastforce
    then have d2: "0 < ReplyRepeats d2"
      using ok obs(2) onLoop_settings by (fastforce simp: rounds_ok_def split: if_splits)
    define evs where "evs = rs_events st @
      (if b then [RepeatedDrafts (sg_Name (p_stages p ! i)) n] else [])"
    show thesis
    proof (cases err)
      case (Some e)
      have "handWorkBack lower inWord runes response run p i out answer st =
          Some (st\<lparr>rs_handBacks := ?hb, rs_loop := d2, rs_events := evs, rs_failed := err\<rparr>)"
        using False h hb_i obs loop Some by (cases b) (simp_all add: handWorkBack_def Let_def evs_def)
      then show thesis
        by (rule that) (use Some ok none nonneg d2 in \<open>auto simp: rounds_ok_def flight_ok_def\<close>)
    next
      case None
      define evs' where "evs' = evs @
        [StageHandedBack (sg_Name (p_stages p ! i)) (hb_To h) (?hb ! i)]"
      have "handWorkBack lower inWord runes response run p i out answer st =
          Some (st\<lparr>rs_handBacks := ?hb, rs_loop := d2, rs_events := evs',
            rs_feedback := (rs_feedback st)[?to := out], rs_resets := rs_resets st @ [?to]\<rparr>)"
        using False h hb_i obs loop None
        by (cases b) (simp_all add: handWorkBack_def Let_def evs_def evs'_def)
      then show thesis
        by (rule that) (use False ok none nonneg upto d2 to to_done in
          \<open>auto simp: rounds_ok_def flight_ok_def\<close>)
    qed
  qed
qed

text \<open>
  Receiving a result keeps the invariant, never panics, and writes no copy of \<open>feedback\<close> that a
  running stage may read.
\<close>

lemma receive_ok:
  assumes plan: "plan_ok compileRegexp p" and ok: "rounds_ok p st" and k: "k < length (rs_flight st)"
    and i: "i = fl_i (rs_flight st ! k)"
  obtains st' where "receive matchRe lower inWord runes response run p i r answer
      (st\<lparr>rs_flight := remove_nth k (rs_flight st)\<rparr>) = Some st'"
    and "rounds_ok p st'" and "rs_flight st' = remove_nth k (rs_flight st)"
    and "rs_state st' \<in> {rs_state st, (rs_state st)[i := Done]}"
    and "(rs_handBacks st' = rs_handBacks st \<and> rs_resets st' = rs_resets st) \<or>
      (rs_failed st = None \<and> p_handWhen p ! i \<noteq> None \<and>
       rs_handBacks st' = (rs_handBacks st)[i := rs_handBacks st ! i + 1])"
    and "\<And>j. j < length (p_stages p) \<Longrightarrow> rs_state st' ! j = Running \<Longrightarrow>
      rs_feedback st' ! j = rs_feedback st ! j"
proof -
  let ?st = "st\<lparr>rs_flight := remove_nth k (rs_flight st)\<rparr>"
  note open_def = receive_def
  show thesis
  proof (cases "rs_failed st = None \<and> fin_err r = None")
    case False
    define e where "e = (if rs_failed st \<noteq> None then rs_failed st else fin_err r)"
    have "receive matchRe lower inWord runes response run p i r answer ?st =
        Some (st\<lparr>rs_flight := remove_nth k (rs_flight st), rs_failed := e\<rparr>)"
      using False by (cases "rs_failed st") (auto simp: receive_def e_def)
    then show thesis
      by (rule that [OF _ drop_flight_ok [OF ok k]]) (use False in \<open>auto simp: e_def\<close>)
  next
    case True
    let ?st1 = "recordOutput p i r ?st"
    note ok1 = recordOutput_ok [OF ok k i, of r]
    have i_less: "i < length (p_stages p)" "rs_state ?st1 ! i = Done" "rs_failed ?st1 = None"
      using flight_running [OF ok k] ok i True by (auto simp: rounds_ok_def)
    show thesis
    proof (cases "matches matchRe (p_handWhen p ! i) (fin_out r)")
      case hand: True
      then have hw: "p_handWhen p ! i \<noteq> None" by (auto simp: matches_def split: option.splits)
      have rec: "receive matchRe lower inWord runes response run p i r answer ?st =
          handWorkBack lower inWord runes response run p i (fin_out r) answer ?st1"
        using True hand by (simp add: receive_def Let_def)
      show thesis
      proof (rule handWorkBack_ok [OF plan ok1 i_less(3,1,2) hw, where lower = lower
            and inWord = inWord and runes = runes and response = response and run = run and out = "fin_out r"
            and answer = answer])
        fix st' assume st': "handWorkBack lower inWord runes response run p i (fin_out r) answer ?st1 = Some st'"
          "rounds_ok p st'" "rs_handBacks st' = (rs_handBacks ?st1)[i := rs_handBacks ?st1 ! i + 1]"
          "rs_state st' = rs_state ?st1" "rs_flight st' = rs_flight ?st1"
          and fb: "rs_failed st' = None \<Longrightarrow>
            rs_feedback st' = (rs_feedback ?st1)[p_handTo p ! i := fin_out r]"
          "rs_failed st' \<noteq> None \<Longrightarrow> rs_feedback st' = rs_feedback ?st1"
        have "hand_back_ok compileRegexp p i" using plan i_less(1) by (simp add: plan_ok_def Let_def)
        then have "(i, p_handTo p ! i) \<in> (edge (p_deps p))\<^sup>*"
          using hw by (auto simp: hand_back_ok_def split: option.splits)
        from deps_done_rtrancl [OF this, of "rs_state st'"] st' i_less(2)
        have to_done: "rs_state st' ! (p_handTo p ! i) = Done" by (simp add: rounds_ok_def)
        show thesis
        proof (rule that)
          fix j assume j: "j < length (p_stages p)" "rs_state st' ! j = Running"
          with to_done have "j \<noteq> p_handTo p ! i" by auto
          then show "rs_feedback st' ! j = rs_feedback st ! j"
            using fb by (cases "rs_failed st'") auto
        qed (use st' rec hw True in auto)
      qed
    next
      case no: False
      show thesis
      proof (cases "matches matchRe (p_stopWhen p ! i) (fin_out r)")
        case stop: True
        define st' where "st' = ?st1\<lparr>rs_stopped := True,
            rs_events := rs_events ?st1 @ [WorkflowStopped (sg_Name (p_stages p ! i))]\<rparr>"
        have "receive matchRe lower inWord runes response run p i r answer ?st = Some st'"
          using True no stop by (simp add: receive_def Let_def st'_def)
        moreover have "rounds_ok p st'" using ok1 by (auto simp: st'_def rounds_ok_def flight_ok_def)
        ultimately show thesis by (rule that) (auto simp: st'_def)
      next
        case False
        have "receive matchRe lower inWord runes response run p i r answer ?st = Some ?st1"
          using True no False by (simp add: receive_def Let_def)
        from this ok1 show thesis by (rule that) auto
      qed
    qed
  qed
qed

section \<open>The loop ends\<close>

definition credit :: "('re, 'sc) plan \<Rightarrow> Rounds \<Rightarrow> nat" where
  "credit p st = (\<Sum>i < length (p_stages p).
     if p_handWhen p ! i = None then 0 else handBackLimitOf p i + 1 - nat (rs_handBacks st ! i))"

definition work :: "Rounds \<Rightarrow> nat" where
  "work st = 2 * count_list (rs_state st) Pending + length (rs_flight st)"

text \<open>
  A hand-back pays for the stages it makes pending again: each credit is worth a restart of
  every stage.
\<close>

definition potential :: "('re, 'sc) plan \<Rightarrow> Rounds \<Rightarrow> nat" where
  "potential p st = (let n = length (p_stages p) in
     credit p st * (2 * n + 2) + (if rs_resets st = [] then 0 else 2 * n + 1) + work st)"

lemma count_list_update:
  "i < length xs \<Longrightarrow>
   count_list (xs[i := y]) x + (if xs ! i = x then 1 else 0) = count_list xs x + (if y = x then 1 else 0)"
proof (induction xs arbitrary: i)
  case (Cons a xs)
  show ?case
  proof (cases i)
    case (Suc j)
    with Cons.prems Cons.IH [of j] show ?thesis by (cases "a = x") simp_all
  qed simp
qed simp

lemma startStage_work: "i < length (rs_state st) \<Longrightarrow> work (startStage p i st) \<le> work st"
  using count_list_update [of i "rs_state st" Running Pending]
  by (auto simp: startStage_cases work_def startable_def)

lemma startStages_work:
  assumes "rounds_ok p st" shows "work (startStages p st) \<le> work st"
proof -
  have "work (fold (startStage p) js st) \<le> work st" if "\<forall>j \<in> set js. j < length (rs_state st)" for js
    using that
  proof (induction js arbitrary: st)
    case (Cons j js)
    then have "work (fold (startStage p) js (startStage p j st)) \<le> work (startStage p j st)" by simp
    also have "\<dots> \<le> work st" using Cons.prems by (simp add: startStage_work)
    finally show ?case by simp
  qed simp
  with assms show ?thesis by (simp add: startStages_def rounds_ok_def)
qed

lemma credit_cong:
  assumes "rs_handBacks st' = rs_handBacks st" shows "credit p st' = credit p st"
  unfolding credit_def assms ..

lemma credit_spent:
  assumes ok: "rounds_ok p st" and none: "rs_failed st = None"
    and i: "i < length (p_stages p)" "p_handWhen p ! i \<noteq> None"
    and st': "rs_handBacks st' = (rs_handBacks st)[i := rs_handBacks st ! i + 1]"
  shows "credit p st' < credit p st"
  unfolding credit_def
proof (rule sum_strict_mono_ex1)
  let ?c = "\<lambda>hb i. if p_handWhen p ! i = None then 0 else handBackLimitOf p i + 1 - nat (hb ! i)"
  have len: "i < length (rs_handBacks st)" using ok i by (simp add: rounds_ok_def)
  from ok none i have bound: "0 \<le> rs_handBacks st ! i" "rs_handBacks st ! i \<le> int (handBackLimitOf p i)"
    by (auto simp: rounds_ok_def)
  then obtain m where "rs_handBacks st ! i = int m" "m \<le> handBackLimitOf p i"
    by (metis nat_0_le of_nat_le_iff)
  then have less: "?c (rs_handBacks st') i < ?c (rs_handBacks st) i"
    using i len by (auto simp: st' nat_add_distrib)
  then show "\<exists>j \<in> {..<length (p_stages p)}. ?c (rs_handBacks st') j < ?c (rs_handBacks st) j"
    using i by blast
  show "\<forall>j \<in> {..<length (p_stages p)}. ?c (rs_handBacks st') j \<le> ?c (rs_handBacks st) j"
  proof
    fix j
    show "?c (rs_handBacks st') j \<le> ?c (rs_handBacks st) j"
      using less by (cases "j = i") (auto simp: st')
  qed
qed simp

lemma resets_potential:
  assumes "rounds_ok p st'" and "rs_handBacks st' = rs_handBacks st"
    and "rs_resets st \<noteq> []" and "rs_resets st' = []" and "rs_flight st' = []"
  shows "potential p st' < potential p st"
proof -
  have "count_list (rs_state st') Pending \<le> length (p_stages p)"
    using count_le_length [of "rs_state st'" Pending] assms(1) by (simp add: rounds_ok_def)
  then show ?thesis
    using assms credit_cong [OF assms(2), of p] by (simp add: potential_def Let_def work_def)
qed

text \<open>Every round keeps the invariant and lowers the potential.\<close>

lemma stages_round_ok:
  assumes plan: "plan_ok compileRegexp p" and ok: "rounds_ok p st"
    and step: "stages_round matchRe lower inWord runes response run p st st'"
  shows "rounds_ok p st' \<and> potential p st' < potential p st"
  using step
proof (cases rule: stages_round.cases)
  case resets
  from loopHead_again_ok [OF plan ok resets] resets_potential show ?thesis by blast
next
  case (result st1 k r answer)
  from loopHead_receive_ok [OF ok result(1)] have ok1: "rounds_ok p st1"
    and same: "rs_handBacks st1 = rs_handBacks st" "rs_resets st1 = rs_resets st" by auto
  have work1: "work st1 \<le> work st"
    using result(1) startStages_work [OF ok] by (auto simp: loopHead_def Let_def split: if_splits option.splits)
  let ?i = "fl_i (rs_flight st1 ! k)" and ?n = "length (p_stages p)"
  from flight_running [OF ok1 result(2)] have run: "?i < ?n" "rs_state st1 ! ?i = Running" by auto
  show ?thesis
  proof (rule receive_ok [OF plan ok1 result(2) refl, where matchRe = matchRe and lower = lower
        and inWord = inWord and runes = runes and response = response and run = run and r = r and answer = answer])
    fix st'' assume "receive matchRe lower inWord runes response run p ?i r answer
        (st1\<lparr>rs_flight := remove_nth k (rs_flight st1)\<rparr>) = Some st''"
      and ok': "rounds_ok p st''" and fl: "rs_flight st'' = remove_nth k (rs_flight st1)"
      and ss: "rs_state st'' \<in> {rs_state st1, (rs_state st1)[?i := Done]}"
      and hb: "(rs_handBacks st'' = rs_handBacks st1 \<and> rs_resets st'' = rs_resets st1) \<or>
        (rs_failed st1 = None \<and> p_handWhen p ! ?i \<noteq> None \<and>
         rs_handBacks st'' = (rs_handBacks st1)[?i := rs_handBacks st1 ! ?i + 1])"
    with result(3) have st': "st' = st''" by simp
    have "count_list (rs_state st'') Pending = count_list (rs_state st1) Pending"
      using ss run ok1 count_list_update [of ?i "rs_state st1" Done Pending]
      by (auto simp: rounds_ok_def)
    then have "work st' < work st1"
      using length_remove_nth [OF result(2)] by (simp add: work_def fl st')
    with work1 have work': "work st' < work st" by simp
    have "potential p st' < potential p st"
    proof (cases "rs_handBacks st'' = rs_handBacks st1 \<and> rs_resets st'' = rs_resets st1")
      case True
      with work' same credit_cong [of st' st p] show ?thesis
        by (simp add: potential_def Let_def st')
    next
      case False
      with hb credit_spent [OF ok1 _ run(1), of st''] have "credit p st' < credit p st1"
        by (simp add: st')
      then have "credit p st' + 1 \<le> credit p st" using credit_cong [OF same(1), of p] by simp
      then have "(credit p st' + 1) * (2 * ?n + 2) \<le> credit p st * (2 * ?n + 2)"
        by (rule mult_le_mono1)
      with work' show ?thesis by (simp add: potential_def Let_def)
    qed
    with ok' st' show ?thesis by simp
  qed
qed


section \<open>Executions\<close>

text \<open>A running stage reads the feedback it was started with: no hand-back writes it meanwhile.\<close>

definition feedback_ok :: "Rounds \<Rightarrow> bool" where
  "feedback_ok st \<longleftrightarrow> (\<forall>f \<in> set (rs_flight st). rs_feedback st ! fl_i f = fl_feedback f)"

lemma startStages_feedback:
  assumes "feedback_ok st" shows "feedback_ok (startStages p st)"
proof -
  have "feedback_ok (fold (startStage p) js st)" for js
    using assms
    by (induction js arbitrary: st) (auto simp: feedback_ok_def startStage_cases)
  then show ?thesis by (simp add: startStages_def)
qed

lemma stages_round_feedback:
  assumes plan: "plan_ok compileRegexp p" and ok: "rounds_ok p st" and fb: "feedback_ok st"
    and step: "stages_round matchRe lower inWord runes response run p st st'"
  shows "feedback_ok st'"
  using step
proof (cases rule: stages_round.cases)
  case resets
  from loopHead_again_ok [OF plan ok resets] show ?thesis by (simp add: feedback_ok_def)
next
  case (result st1 k r answer)
  from loopHead_receive_ok [OF ok result(1)] have ok1: "rounds_ok p st1" by simp
  have fb1: "feedback_ok st1"
    using result(1) startStages_feedback [OF fb] fb
    by (auto simp: loopHead_def Let_def split: if_splits option.splits)
  show ?thesis
  proof (rule receive_ok [OF plan ok1 result(2) refl, where matchRe = matchRe and lower = lower
        and inWord = inWord and runes = runes and response = response and run = run and r = r and answer = answer])
    fix st'' assume "receive matchRe lower inWord runes response run p (fl_i (rs_flight st1 ! k)) r answer
        (st1\<lparr>rs_flight := remove_nth k (rs_flight st1)\<rparr>) = Some st''"
      and ok': "rounds_ok p st''" and fl: "rs_flight st'' = remove_nth k (rs_flight st1)"
      and same: "\<And>j. j < length (p_stages p) \<Longrightarrow> rs_state st'' ! j = Running \<Longrightarrow>
        rs_feedback st'' ! j = rs_feedback st1 ! j"
    with result(3) have st': "st' = st''" by simp
    have "rs_feedback st'' ! fl_i f = fl_feedback f" if "f \<in> set (rs_flight st'')" for f
    proof -
      have "fl_i f < length (p_stages p)" "rs_state st'' ! fl_i f = Running"
        using ok' that by (auto simp: rounds_ok_def flight_ok_def)
      moreover have "f \<in> set (rs_flight st1)" using that fl set_remove_nth by fastforce
      ultimately show ?thesis using same fb1 by (auto simp: feedback_ok_def)
    qed
    then show ?thesis by (simp add: feedback_ok_def st')
  qed
qed

lemma reachable_ok:
  assumes "(stages_round matchRe lower inWord runes response run p)\<^sup>*\<^sup>* (startRounds p vars d) st"
    and plan: "plan_ok compileRegexp p" and d: "0 < ReplyRepeats d"
  shows "rounds_ok p st \<and> feedback_ok st"
  using assms(1)
proof induction
  case base
  show ?case
    using startRounds_ok [OF plan d] by (simp add: feedback_ok_def startRounds_def Let_def)
next
  case (step st st')
  then show ?case using stages_round_ok [OF plan] stages_round_feedback [OF plan] by blast
qed

lemma rounds_potential:
  assumes "(stages_round matchRe lower inWord runes response run p ^^ m) st st'"
    and "plan_ok compileRegexp p" and "rounds_ok p st"
  shows "rounds_ok p st' \<and> m + potential p st' \<le> potential p st"
  using assms(1)
proof (induction m arbitrary: st')
  case 0
  then show ?case using assms(3) by simp
next
  case (Suc m)
  then obtain st1 where "(stages_round matchRe lower inWord runes response run p ^^ m) st st1"
    and step: "stages_round matchRe lower inWord runes response run p st1 st'" by auto
  from Suc.IH [OF this(1)] stages_round_ok [OF assms(2) _ step] show ?case by fastforce
qed

text \<open>The number of rounds: each hand-back allowed, and the last refused, may restart every stage.\<close>

definition roundsBound :: "('re, 'sc) plan \<Rightarrow> nat" where
  "roundsBound p = (let n = length (p_stages p) in
     (\<Sum>i < n. if p_handWhen p ! i = None then 0 else handBackLimitOf p i + 1) * (2 * n + 2) + 2 * n)"

lemma potential_start: "potential p (startRounds p vars d) \<le> roundsBound p"
proof -
  have "credit p (startRounds p vars d) =
      (\<Sum>i < length (p_stages p). if p_handWhen p ! i = None then 0 else handBackLimitOf p i + 1)"
    unfolding credit_def by (rule sum.cong) (simp_all add: startRounds_def Let_def)
  moreover have "count_list (replicate n Pending) Pending = n" for n by (induction n) auto
  ultimately show ?thesis
    by (simp add: potential_def roundsBound_def Let_def work_def startRounds_def)
qed

text \<open>A result of a stage in flight can always be received.\<close>

lemma receive_enabled:
  assumes plan: "plan_ok compileRegexp p" and ok: "rounds_ok p st" and head: "loopHead p st = Receive st1"
  shows "rs_flight st1 \<noteq> [] \<and> (\<forall>k < length (rs_flight st1). \<forall>r answer.
    \<exists>st'. receive matchRe lower inWord runes response run p (fl_i (rs_flight st1 ! k)) r answer
      (st1\<lparr>rs_flight := remove_nth k (rs_flight st1)\<rparr>) = Some st')"
  using loopHead_receive_ok [OF ok head] receive_ok [OF plan _ _ refl] by metis

text \<open>The loop returns no error, and was not stopped, only when every stage is done.\<close>

lemma return_all_done:
  assumes plan: "plan_ok compileRegexp p" and ok: "rounds_ok p st"
    and head: "loopHead p st = Return None" and go: "\<not> rs_stopped st" and i: "i < length (p_stages p)"
  shows "rs_state st ! i = Done"
proof -
  define st1 where "st1 = (if rs_failed st = None \<and> \<not> rs_stopped st \<and> rs_resets st = []
    then startStages p st else st)"
  from head have ret: "rs_flight st1 = []" "rs_resets st1 = []" "rs_failed st1 = None"
    by (auto simp: loopHead_def st1_def [symmetric] Let_def split: if_splits option.splits)
  with go have st1: "st1 = startStages p st" by (auto simp: st1_def split: if_splits)
  have ok1: "rounds_ok p st1" using startStages_ok [OF ok] by (simp add: st1)
  have all: "rs_state st1 ! j = Done" if "j < length (p_stages p)" for j
  proof (rule ccontr)
    assume bad: "rs_state st1 ! j \<noteq> Done"
    have fin: "finite (edge (p_deps p))"
      by (rule finite_subset [of _ "{..<length (p_stages p)} \<times> {..<length (p_stages p)}"])
        (use edge_deps_less [OF plan] in auto)
    have "acyclic (edge (p_deps p))" using plan by (simp add: plan_ok_def Let_def)
    with fin have "wf ((edge (p_deps p))\<inverse>)" by (rule finite_acyclic_wf_converse)
    moreover have "j \<in> {j. j < length (p_stages p) \<and> rs_state st1 ! j \<noteq> Done}" using that bad by simp
    ultimately obtain m where m: "m < length (p_stages p)" "rs_state st1 ! m \<noteq> Done"
      and least: "\<And>d. (m, d) \<in> edge (p_deps p) \<Longrightarrow> d < length (p_stages p) \<Longrightarrow> rs_state st1 ! d = Done"
      by (rule wfE_min) auto
    have "rs_state st1 ! m \<noteq> Running" using ok1 ret m by (auto simp: rounds_ok_def flight_ok_def)
    moreover have "(m, d) \<in> edge (p_deps p)" if "d \<in> set (p_deps p ! m)" for d
      using that m(1) plan by (simp add: edge_iff plan_ok_def Let_def links_ok_def)
    ultimately have "startable p st1 m"
      using m least edge_deps_less [OF plan]
      by (cases "rs_state st1 ! m") (auto simp: startable_def)
    with startStages_complete [OF ok m(1)] st1 show False by simp
  qed
  have done_same: "rs_state st1 ! i = Done \<longleftrightarrow> rs_state st ! i = Done"
  proof -
    have "rs_state (fold (startStage p) js st) ! i = Done \<longleftrightarrow> rs_state st ! i = Done"
      if "\<forall>j \<in> set js. j < length (rs_state st)" for js
      using that by (induction js arbitrary: st) (auto simp: startStage_done)
    with ok show ?thesis by (simp add: st1 startStages_def rounds_ok_def)
  qed
  with all [OF i] show ?thesis by simp
qed



text \<open>C12: \<open>runStages\<close> returns: an execution of a compiled workflow has at most \<open>roundsBound\<close>
  rounds, a bound computed from the number of stages and the hand-backs they allow, and until
  it returns a round is always possible: the resets are applied, or a stage is running and
  its result, whatever it is, is received.\<close>

theorem runStages_returns:
  assumes "compileWorkflow compileRegexp compileSchema w agents = Some (Inr p)"
    and "0 < ReplyRepeats d"
    and "(stages_round matchRe lower inWord runes response run p ^^ m) (startRounds p vars d) st"
  shows "m \<le> roundsBound p \<and>
    (case loopHead p st of
       Return e \<Rightarrow> e = rs_failed st
     | Again st' \<Rightarrow> stages_round matchRe lower inWord runes response run p st st'
     | Receive st1 \<Rightarrow> rs_flight st1 \<noteq> [] \<and> (\<forall>k < length (rs_flight st1). \<forall>r answer.
         \<exists>st'. receive matchRe lower inWord runes response run p (fl_i (rs_flight st1 ! k)) r answer
           (st1\<lparr>rs_flight := remove_nth k (rs_flight st1)\<rparr>) = Some st')
     | Panic \<Rightarrow> False)"
proof -
  from compileWorkflow_sound [OF assms(1)] have plan: "plan_ok compileRegexp p" by simp
  from rounds_potential [OF assms(3) plan startRounds_ok [OF plan assms(2)]]
  have ok: "rounds_ok p st" and "m + potential p st \<le> potential p (startRounds p vars d)" by auto
  then have "m \<le> roundsBound p" using potential_start [of p vars d] by linarith
  moreover have "e = rs_failed st" if "loopHead p st = Return e" for e
    using that by (auto simp: loopHead_def Let_def split: if_splits option.splits)
  moreover have "stages_round matchRe lower inWord runes response run p st st'" if "loopHead p st = Again st'" for st'
    using that by (rule stages_round.resets)
  ultimately show ?thesis
    using receive_enabled [OF plan ok, of _ matchRe lower inWord runes response run] loopHead_not_panic [OF plan ok]
    by (cases "loopHead p st") simp_all
qed

text \<open>when \<open>runStages\<close> returns without an error and no stop condition has matched, every
  stage of the workflow is done.\<close>

theorem a_successful_run_finishes_every_stage:
  assumes "compileWorkflow compileRegexp compileSchema w agents = Some (Inr p)"
    and "0 < ReplyRepeats d"
    and "(stages_round matchRe lower inWord runes response run p)\<^sup>*\<^sup>* (startRounds p vars d) st"
    and "loopHead p st = Return None" and "\<not> rs_stopped st" and "i < length (wf_Stages w)"
  shows "rs_state st ! i = Done"
proof -
  from compileWorkflow_sound [OF assms(1)] have plan: "plan_ok compileRegexp p"
    and "p_stages p = wf_Stages w" by auto
  with return_all_done [OF plan _ assms(4,5), of i] reachable_ok [OF assms(3) plan assms(2)] assms(6)
  show ?thesis by simp
qed

subsection \<open>A concrete execution\<close>

text \<open>The two stages of \<open>draft_review\<close>: the draft runs, then the review, which finds no fault.\<close>

definition drafted :: Finished where
  "drafted = \<lparr>fin_out = ''text'', fin_vars = [], fin_err = None\<rparr>"

definition draft_review_end :: Rounds where
  "draft_review_end = (startRounds draft_review_plan [] (NewLoopDetector 5))\<lparr>rs_state := [Done, Done],
     rs_vars := [(''draft'', ''text''), (''review'', ''text'')]\<rparr>"

abbreviation demo_round :: "Rounds \<Rightarrow> Rounds \<Rightarrow> bool" where
  "demo_round \<equiv> stages_round (=) id (\<lambda>_. True) (map of_char) [] ''r'' draft_review_plan"

lemmas demo_defs = draft_review_plan_def draft_review_def writer_stage_def startRounds_def
  startStages_def startStage_def receive_def recordOutput_def remove_nth_def matches_def drafted_def
  draft_review_end_def upt_rec

lemma draft_review_runs:
  "(demo_round ^^ 2) (startRounds draft_review_plan [] (NewLoopDetector 5)) draft_review_end"
proof -
  let ?st = "startRounds draft_review_plan [] (NewLoopDetector 5)"
  let ?mid = "?st\<lparr>rs_state := [Pending, Done], rs_vars := [(''draft'', ''text'')]\<rparr>"
  let ?fl = "\<lambda>i vars. [\<lparr>fl_i = i, fl_vars = vars, fl_feedback = []\<rparr>]"
  have "loopHead draft_review_plan ?st =
      Receive (?st\<lparr>rs_state := [Pending, Running], rs_flight := ?fl 1 []\<rparr>)"
    by (simp add: loopHead_def demo_defs numeral_2_eq_2)
  then have one: "demo_round ?st ?mid"
    by (rule stages_round.result [where k = 0 and r = drafted and answer = "Inr []"])
      (simp_all add: demo_defs numeral_2_eq_2)
  have "loopHead draft_review_plan ?mid = Receive (?mid\<lparr>rs_state := [Running, Done],
      rs_flight := ?fl 0 [(''draft'', ''text'')]\<rparr>)"
    by (simp add: loopHead_def demo_defs numeral_2_eq_2)
  then have "demo_round ?mid draft_review_end"
    by (rule stages_round.result [where k = 0 and r = drafted and answer = "Inr []"])
      (simp_all add: demo_defs numeral_2_eq_2)
  with one show ?thesis by (auto simp: numeral_2_eq_2)
qed

lemma demo_detector: "0 < ReplyRepeats (NewLoopDetector 5)"
  by (simp add: NewLoopDetector_def)


theorem runStages_returns_witness: "2 \<le> roundsBound draft_review_plan"
  using runStages_returns [OF draft_review_compiles demo_detector draft_review_runs] by simp

theorem a_successful_run_finishes_every_stage_witness:
  "rs_state draft_review_end ! 0 = Done"
proof (rule a_successful_run_finishes_every_stage [OF draft_review_compiles demo_detector
      relpowp_imp_rtranclp [OF draft_review_runs]])
  show "loopHead draft_review_plan draft_review_end = Return None"
    by (simp add: loopHead_def demo_defs numeral_2_eq_2)
qed (simp_all add: demo_defs)

end
