(* ===== verification/Tasks.thy ===== *)
theory Tasks
  imports Workflow LoopResponse Artifacts Budget Auth
begin

text \<open>
  Agent tasks in \<open>runtime/orchestrator.go\<close>: \<open>completedTasks\<close> with \<open>reconcileTasks\<close>,
  \<open>take\<close>, \<open>toRun\<close> and \<open>count\<close>, through which a resumed run reuses the outputs of finished
  tasks, and \<open>runTask\<close> with \<open>retries\<close> and \<open>attemptTask\<close>, which runs one task, with retries.

  \<open>agentLoop\<close>, the conversation of one attempt with its model and tools, is an argument of
  \<open>attemptTask\<close>: a function on the store, the budget and the loop detector that returns the
  answer or an error. What contexts and clocks say, and the identifiers made, come in the
  record \<open>AttemptIn\<close>, one per attempt. \<open>errText\<close> is \<open>err.Error()\<close>. Metrics, spans and logs
  are not modelled.
\<close>

section \<open>Reusable outputs\<close>

text \<open>
  \<open>json.Unmarshal\<close> of a document into one string field of a struct: every member whose name
  matches the field's, without regard to case, is stored; \<open>null\<close> changes nothing.
\<close>

fun unmarshalField :: "string \<Rightarrow> json \<Rightarrow> string option" where
  "unmarshalField name JNull = Some []"
| "unmarshalField name (JObj fs) =
     foldl (\<lambda>acc (k, v). case acc of None \<Rightarrow> None | Some s \<Rightarrow>
        if \<not> EqualFold k name then Some s
        else (case v of JStr t \<Rightarrow> Some t | JNull \<Rightarrow> Some s | _ \<Rightarrow> None)) (Some []) fs"
| "unmarshalField name _ = None"

definition unmarshalRaw :: "string \<Rightarrow> raw \<Rightarrow> string option" where
  "unmarshalRaw name r = (case r of None \<Rightarrow> None | Some doc \<Rightarrow> unmarshalField name doc)"

type_synonym outputs = "(string, string list) gomap"

definition outputsOf :: "outputs \<Rightarrow> string \<Rightarrow> string list" where
  "outputsOf c key = (case map_of c key of None \<Rightarrow> [] | Some outs \<Rightarrow> outs)"

definition taskKey :: "string \<Rightarrow> string \<Rightarrow> string \<Rightarrow> string" where
  "taskKey stage agent prompt = stage @ [CHR 0x00] @ agent @ [CHR 0x00] @ prompt"

text \<open>The loop of \<open>reconcileTasks\<close>; \<open>clock\<close> is the time at which a task is updated.\<close>

fun reconcileLoop :: "(TaskID \<Rightarrow> time) \<Rightarrow> MemStore \<Rightarrow> outputs \<Rightarrow> Task list
    \<Rightarrow> MemStore \<times> (goerr + outputs)" where
  "reconcileLoop clock m c [] = (m, Inr c)"
| "reconcileLoop clock m c (t # ts) =
     (if ta_Status t = TaskCompleted
      then (case (unmarshalRaw ''Prompt'' (ta_Input t), unmarshalRaw ''Stage'' (ta_Input t),
                  unmarshalRaw ''Content'' (ta_Output t)) of
          (Some prompt, Some stage, Some content) \<Rightarrow>
            let key = taskKey stage (ta_AgentName t) prompt
            in reconcileLoop clock m (mput key (outputsOf c key @ [content]) c) ts
        | _ \<Rightarrow> reconcileLoop clock m c ts)
      else if ta_Status t = TaskPending \<or> ta_Status t = TaskRunning
      then (case UpdateTask m (t\<lparr>ta_Status := TaskFailed, ta_Error := ''interrupted''\<rparr>) (clock (ta_ID t)) of
          (m', Some e) \<Rightarrow> (m', Inl e)
        | (m', None) \<Rightarrow> reconcileLoop clock m' c ts)
      else reconcileLoop clock m c ts)"

definition reconcileTasks :: "(TaskID \<Rightarrow> time) \<Rightarrow> MemStore \<Rightarrow> Run
    \<Rightarrow> MemStore \<times> (goerr + outputs \<times> nat)" where
  "reconcileTasks clock m r =
     (let tasks = ListRunTasks m (ru_TenantID r) (ru_ID r)
      in case reconcileLoop clock m [] tasks of
           (m', Inl e) \<Rightarrow> (m', Inl e)
         | (m', Inr c) \<Rightarrow> (m', Inr (c, length tasks)))"

text \<open>A nil \<open>*completedTasks\<close>, that of a run which resumes nothing, is \<open>None\<close>.\<close>

type_synonym completedTasks = "outputs option"

definition take_output :: "completedTasks \<Rightarrow> string \<Rightarrow> string \<Rightarrow> string
    \<Rightarrow> completedTasks \<times> string option" where
  "take_output c0 stage agent prompt =
     (case c0 of
        None \<Rightarrow> (None, None)
      | Some c \<Rightarrow>
          let key = taskKey stage agent prompt
          in case outputsOf c key of
               [] \<Rightarrow> (Some c, None)
             | out # outs \<Rightarrow> (Some (mput key outs c), Some out))"

fun toRunLoop :: "outputs \<Rightarrow> string \<Rightarrow> (string, nat) gomap \<Rightarrow> nat \<Rightarrow> (string \<times> string) list \<Rightarrow> nat" where
  "toRunLoop c stage used n [] = n"
| "toRunLoop c stage used n ((agent, prompt) # steps) =
     (let key = taskKey stage agent prompt;
          u = (case map_of used key of None \<Rightarrow> 0 | Some u \<Rightarrow> u)
      in if u < length (outputsOf c key)
         then toRunLoop c stage (mput key (u + 1) used) n steps
         else toRunLoop c stage used (n + 1) steps)"

text \<open>\<open>steps[i].Name\<close> and \<open>prompts[i]\<close> come as pairs.\<close>

definition toRun :: "completedTasks \<Rightarrow> string \<Rightarrow> (string \<times> string) list \<Rightarrow> nat" where
  "toRun c0 stage steps =
     (case c0 of None \<Rightarrow> length steps | Some c \<Rightarrow> toRunLoop c stage [] 0 steps)"

definition count_outputs :: "outputs \<Rightarrow> nat" where
  "count_outputs c = sum_list (map length (mvals c))"

subsection \<open>\<open>toRun\<close> counts what \<open>take\<close> will miss\<close>

text \<open>The number of steps that find no output when they take one after the other.\<close>

fun misses :: "completedTasks \<Rightarrow> string \<Rightarrow> (string \<times> string) list \<Rightarrow> nat" where
  "misses c stage [] = 0"
| "misses c stage ((agent, prompt) # steps) =
     (case take_output c stage agent prompt of
        (c', Some _) \<Rightarrow> misses c' stage steps
      | (c', None) \<Rightarrow> Suc (misses c' stage steps))"

lemma outputsOf_mput: "outputsOf (mput k v c) k' = (if k' = k then v else outputsOf c k')"
  by (simp add: outputsOf_def go_simps)

text \<open>Only the number of outputs left per key matters.\<close>

fun missing :: "(string \<Rightarrow> nat) \<Rightarrow> string list \<Rightarrow> nat" where
  "missing avail [] = 0"
| "missing avail (k # ks) =
     (if avail k = 0 then Suc (missing avail ks) else missing (avail(k := avail k - 1)) ks)"

lemma misses_missing:
  "misses (Some c) stage steps =
     missing (\<lambda>k. length (outputsOf c k)) (map (\<lambda>(a, p). taskKey stage a p) steps)"
proof (induction steps arbitrary: c)
  case (Cons s steps)
  obtain agent prompt where [simp]: "s = (agent, prompt)" by (cases s)
  let ?k = "taskKey stage agent prompt"
  show ?case
  proof (cases "outputsOf c ?k")
    case Nil
    then show ?thesis using Cons.IH [of c] by (simp add: take_output_def)
  next
    case (Cons out outs)
    have "(\<lambda>k. length (outputsOf (mput ?k outs c) k)) =
        (\<lambda>k. length (outputsOf c k))(?k := length (outputsOf c ?k) - 1)"
      using Cons by (auto simp: outputsOf_mput)
    with Cons Cons.IH [of "mput ?k outs c"] show ?thesis by (simp add: take_output_def Let_def)
  qed
qed simp

lemma toRunLoop_missing:
  "toRunLoop c stage used n steps =
     n + missing (\<lambda>k. length (outputsOf c k) - (case map_of used k of None \<Rightarrow> 0 | Some u \<Rightarrow> u))
           (map (\<lambda>(a, p). taskKey stage a p) steps)"
proof (induction steps arbitrary: used n)
  case (Cons s steps)
  obtain agent prompt where [simp]: "s = (agent, prompt)" by (cases s)
  let ?k = "taskKey stage agent prompt"
  let ?u = "\<lambda>used k. case map_of used k of None \<Rightarrow> 0 | Some u \<Rightarrow> u"
  let ?left = "\<lambda>used k. length (outputsOf c k) - ?u used k"
  show ?case
  proof (cases "?u used ?k < length (outputsOf c ?k)")
    case True
    have "?left (mput ?k (?u used ?k + 1) used) = (?left used)(?k := ?left used ?k - 1)"
      by (auto simp: go_simps)
    with True Cons.IH [of "mput ?k (?u used ?k + 1) used" n] show ?thesis by (simp add: Let_def)
  next
    case False
    with Cons.IH [of used "n + 1"] show ?thesis by (simp add: Let_def)
  qed
qed simp

lemma missing_sum:
  assumes "finite S" and "set ks \<subseteq> S"
  shows "missing avail ks = (\<Sum>k \<in> S. count_list ks k - avail k)"
  using assms(2)
proof (induction ks arbitrary: avail)
  case (Cons k ks)
  then have k: "k \<in> S" by simp
  have split: "(\<Sum>j \<in> S. f j) = f k + (\<Sum>j \<in> S - {k}. f j)" for f :: "string \<Rightarrow> nat"
    using assms(1) k by (simp add: sum.remove)
  have rest: "(\<Sum>j \<in> S - {k}. count_list ks j - (avail(k := a)) j) =
      (\<Sum>j \<in> S - {k}. count_list (k # ks) j - avail j)" for a
    by (rule sum.cong) auto
  have keep: "(\<Sum>j \<in> S - {k}. count_list ks j - avail j) =
      (\<Sum>j \<in> S - {k}. count_list (k # ks) j - avail j)"
    by (rule sum.cong) auto
  have IH: "missing a ks = (\<Sum>j \<in> S. count_list ks j - a j)" for a
    using Cons by simp
  note total = split [of "\<lambda>j. count_list (k # ks) j - avail j"]
  show ?case
  proof (cases "avail k = 0")
    case True
    with total split [of "\<lambda>j. count_list ks j - avail j"] keep IH [of avail] show ?thesis by simp
  next
    case False
    let ?a = "avail(k := avail k - 1)"
    from False total split [of "\<lambda>j. count_list ks j - ?a j"] rest [of "avail k - 1"] IH [of ?a]
    show ?thesis by simp
  qed
qed simp

lemma missing_mset:
  assumes "mset ks = mset ks'" shows "missing avail ks = missing avail ks'"
proof -
  from assms have "set ks = set ks'" and "count_list ks k = count_list ks' k" for k
    by (auto dest: mset_eq_setD simp flip: count_mset)
  then show ?thesis using missing_sum [of "set ks" ks] missing_sum [of "set ks" ks'] by simp
qed

lemma misses_None: "misses None stage steps = length steps"
  by (induction steps) (auto simp: take_output_def)

text \<open>the number of sub-agents a parallel stage reserves for its first attempts, \<open>toRun\<close>, is
  the number of its agent steps that find no output to reuse, in whatever order the steps
  come to take one.\<close>

theorem toRun_counts_the_steps_that_run:
  assumes "mset order = mset steps"
  shows "toRun c stage steps = misses c stage order"
proof (cases c)
  case None
  with assms mset_eq_length [OF assms] show ?thesis by (simp add: toRun_def misses_None)
next
  case (Some outs)
  let ?key = "\<lambda>(a, p). taskKey stage a p"
  have "mset (map ?key steps) = mset (map ?key order)" using assms by simp
  from missing_mset [OF this] Some show ?thesis
    by (simp add: toRun_def toRunLoop_missing misses_missing)
qed

theorem toRun_counts_the_steps_that_run_witness:
  "toRun (Some [(taskKey ''s'' ''a'' ''p'', [''out''])]) ''s'' [(''a'', ''p''), (''b'', ''p''), (''a'', ''p'')] =
   misses (Some [(taskKey ''s'' ''a'' ''p'', [''out''])]) ''s'' [(''b'', ''p''), (''a'', ''p''), (''a'', ''p'')]"
  by (rule toRun_counts_the_steps_that_run) simp

end
