(* ===== verification/TaskRuns.thy ===== *)
theory TaskRuns
  imports Tasks
begin

text \<open>
  \<open>runTask\<close> in \<open>runtime/orchestrator.go\<close>: one agent task with its retries, \<open>retries\<close> and
  \<open>attemptTask\<close>. The state \<open>Machine\<close> holds the parts of the orchestrator a task changes; the
  events a task emits are a list of \<open>task_event\<close>s, the last first.

  The recursion over attempts ends because an attempt is retried only below \<open>MaxAttempts\<close>.
\<close>

record 'p taskSpec =
  sp_stage :: string
  sp_agent :: "'p Agent"
  sp_prompt :: string
  sp_parent :: TaskID
  sp_spawnedBy :: PrincipalID
  sp_depth :: int
  sp_retry :: RetryPolicy

datatype task_event =
    TaskSpawned TaskID int
  | RetryStormDetected int
  | TaskErrorRecorded TaskID int bool goerr
  | TaskRetryScheduled int goerr

record Machine =
  mc_store :: MemStore
  mc_budget :: BudgetManager
  mc_loop :: LoopDetector
  mc_reuse :: completedTasks
  mc_events :: "task_event list"

text \<open>What the world supplies to one attempt.\<close>

record AttemptIn =
  ai_created :: "goerr option"        \<comment> \<open>the error of \<open>Store.CreateTask\<close>\<close>
  ai_newID :: TaskID
  ai_createdAt :: time
  ai_agentLoop :: "MemStore \<times> BudgetManager \<times> LoopDetector \<Rightarrow>
    (MemStore \<times> BudgetManager \<times> LoopDetector) \<times> (goerr + string)"
  ai_timedOut :: bool                 \<comment> \<open>the attempt's own context has ended\<close>
  ai_ctxErr :: "goerr option"         \<comment> \<open>\<open>ctx.Err()\<close> of the task after the attempt\<close>
  ai_failedAt :: time
  ai_retryAt :: time
  ai_answer :: "goerr + string"       \<comment> \<open>a human's answer to a retry storm\<close>
  ai_waitErr :: "goerr option"        \<comment> \<open>the context ended during the backoff\<close>

definition oneSubAgent :: Usage where
  "oneSubAgent = Usage0\<lparr>SubAgents := 1\<rparr>"

definition retries :: "RetryPolicy \<Rightarrow> goerr option \<Rightarrow> int \<Rightarrow> goerr \<Rightarrow> bool" where
  "retries retry ctxErr attempt err \<longleftrightarrow>
     attempt < rp_MaxAttempts retry \<and> ctxErr = None \<and> \<not> errors_is err ErrBudgetExceeded \<and>
     \<not> errors_is err ErrUnsupported \<and> \<not> errors_is err ErrLoopDetected \<and> \<not> errors_is err ErrPolicyDenied"

definition emitTask :: "task_event \<Rightarrow> Machine \<Rightarrow> Machine" where
  "emitTask e m = m\<lparr>mc_events := e # mc_events m\<rparr>"

definition runAgentLoop :: "AttemptIn \<Rightarrow> Machine \<Rightarrow> Machine \<times> (goerr + string)" where
  "runAgentLoop w m =
     (case ai_agentLoop w (mc_store m, mc_budget m, mc_loop m) of
        ((s, b, d), r) \<Rightarrow> (m\<lparr>mc_store := s, mc_budget := b, mc_loop := d\<rparr>, r))"

definition failTask :: "(goerr \<Rightarrow> string) \<Rightarrow> TenantID \<Rightarrow> TaskID \<Rightarrow> time \<Rightarrow> goerr \<Rightarrow> Machine \<Rightarrow> Machine" where
  "failTask errText tenant task now err m = m\<lparr>mc_store := fst (UpdateTask (mc_store m)
     (Task0\<lparr>ta_ID := task, ta_TenantID := tenant, ta_Status := TaskFailed, ta_Error := errText err\<rparr>) now)\<rparr>"

text \<open>The result is the answer or the error, and the task's ID, empty when it was not created.\<close>

definition attemptTask :: "(goerr \<Rightarrow> string) \<Rightarrow> TenantID \<Rightarrow> RunID \<Rightarrow> 'p taskSpec \<Rightarrow> int \<Rightarrow> AttemptIn
    \<Rightarrow> Machine \<Rightarrow> Machine \<times> TaskID \<times> (goerr + string)" where
  "attemptTask errText tenant run spec attempt w m =
     (case ai_created w of
        Some e \<Rightarrow> (m\<lparr>mc_budget := Release (mc_budget m) run oneSubAgent\<rparr>, [], Inl e)
      | None \<Rightarrow>
          let (s, task) = CreateTask (mc_store m)
                (Task0\<lparr>ta_TenantID := tenant, ta_RunID := run, ta_ParentTaskID := sp_parent spec,
                  ta_AgentName := ag_Name (sp_agent spec), ta_Status := TaskRunning,
                  ta_Depth := sp_depth spec, ta_Attempt := attempt,
                  ta_Input := Some (JObj [(''prompt'', JStr (sp_prompt spec)), (''stage'', JStr (sp_stage spec))])\<rparr>)
                (ai_newID w) (ai_createdAt w);
              m1 = emitTask (TaskSpawned task attempt) (m\<lparr>mc_store := s\<rparr>);
              (m2, out) = runAgentLoop w m1
          in (case out of
                Inr answer \<Rightarrow> (m2, task, Inr answer)
              | Inl e0 \<Rightarrow>
                  let e = (if ai_timedOut w \<and> ai_ctxErr w = None
                           then Errorf ''agent %s timed out after %s: %w'' [Sentinel CtxDeadlineExceeded]
                           else e0)
                  in (failTask errText tenant task (ai_failedAt w) e m2, task, Inl e)))"

text \<open>The decision after a failed attempt: whether to retry, and the error to report.\<close>

definition decideRetry :: "LoopResponse \<Rightarrow> RunID \<Rightarrow> RetryPolicy \<Rightarrow> int \<Rightarrow> AttemptIn \<Rightarrow> goerr
    \<Rightarrow> Machine \<Rightarrow> Machine \<times> bool \<times> goerr" where
  "decideRetry response run policy attempt w err m =
     (if \<not> retries policy (ai_ctxErr w) attempt err then (m, False, err)
      else let (d, stalled, n) = ObserveRetry (mc_loop m) run (ai_retryAt w);
               (m1, again, e1) =
                 (if \<not> stalled then (m\<lparr>mc_loop := d\<rparr>, True, err)
                  else let storm = Errorf ''%w: %d retries within %s, the last after: %w''
                             [Sentinel ErrLoopDetected, err]
                       in case onLoop response (ai_answer w) d run [] storm of
                            (d', None) \<Rightarrow> (emitTask (RetryStormDetected n) (m\<lparr>mc_loop := d'\<rparr>), True, err)
                          | (d', Some lerr) \<Rightarrow>
                              (emitTask (RetryStormDetected n) (m\<lparr>mc_loop := d'\<rparr>), False, lerr))
           in if \<not> again then (m1, False, e1)
              else (case ReserveSubAgent (mc_budget m1) run of
                  (b, None) \<Rightarrow> (m1\<lparr>mc_budget := b\<rparr>, True, e1)
                | (b, Some rerr) \<Rightarrow> (m1\<lparr>mc_budget := b\<rparr>, False, rerr)))"

lemma decideRetry_retries:
  "decideRetry response run policy attempt w err m = (m', True, e) \<Longrightarrow> retries policy (ai_ctxErr w) attempt err"
  by (auto simp: decideRetry_def split: if_splits)

text \<open>\<open>for attempt := 1; ; attempt++\<close>, with \<open>world\<close> the inputs of each attempt.\<close>

function attemptLoop :: "(goerr \<Rightarrow> string) \<Rightarrow> LoopResponse \<Rightarrow> TenantID \<Rightarrow> RunID \<Rightarrow> 'p taskSpec
    \<Rightarrow> (int \<Rightarrow> AttemptIn) \<Rightarrow> int \<Rightarrow> duration \<Rightarrow> Machine \<Rightarrow> Machine \<times> (goerr + string)" where
  "attemptLoop errText response tenant run spec world attempt backoff m =
     (case attemptTask errText tenant run spec attempt (world attempt) m of
        (m1, task, Inr out) \<Rightarrow> (m1, Inr out)
      | (m1, task, Inl err0) \<Rightarrow>
          (case decideRetry response run (sp_retry spec) attempt (world attempt) err0 m1 of
             (m2, retry, err) \<Rightarrow>
               let m3 = (if task \<noteq> [] \<and> ai_ctxErr (world attempt) = None
                         then emitTask (TaskErrorRecorded task attempt retry err) m2 else m2)
               in if \<not> retry then (m3, Inl err)
                  else let m4 = emitTask (TaskRetryScheduled (attempt + 1) err) m3
                    in case ai_waitErr (world attempt) of
                         Some e \<Rightarrow> (m4\<lparr>mc_budget := Release (mc_budget m4) run oneSubAgent\<rparr>, Inl e)
                       | None \<Rightarrow> attemptLoop errText response tenant run spec world (attempt + 1)
                                  (wrap64 (backoff * 2)) m4))"
  by pat_completeness auto

termination
  by (relation "measure (\<lambda>(errText, response, tenant, run, spec, world, attempt, backoff, m).
      nat (rp_MaxAttempts (sp_retry spec) - attempt))")
    (auto dest!: decideRetry_retries [OF sym] simp: retries_def)

declare attemptLoop.simps [simp del]

definition runTask :: "(goerr \<Rightarrow> string) \<Rightarrow> LoopResponse \<Rightarrow> TenantID \<Rightarrow> RunID \<Rightarrow> 'p taskSpec
    \<Rightarrow> (int \<Rightarrow> AttemptIn) \<Rightarrow> bool \<Rightarrow> Machine \<Rightarrow> Machine \<times> (goerr + string)" where
  "runTask errText response tenant run spec world reserved m =
     (case take_output (mc_reuse m) (sp_stage spec) (ag_Name (sp_agent spec)) (sp_prompt spec) of
        (c, Some out) \<Rightarrow> (m\<lparr>mc_reuse := c\<rparr>, Inr out)
      | (c, None) \<Rightarrow>
          let m0 = m\<lparr>mc_reuse := c\<rparr>
          in if reserved
             then attemptLoop errText response tenant run spec world 1 (rp_Backoff (sp_retry spec)) m0
             else (case ReserveSubAgent (mc_budget m0) run of
                 (b, Some e) \<Rightarrow> (m0\<lparr>mc_budget := b\<rparr>, Inl e)
               | (b, None) \<Rightarrow>
                   attemptLoop errText response tenant run spec world 1
                     (rp_Backoff (sp_retry spec)) (m0\<lparr>mc_budget := b\<rparr>)))"


section \<open>Attempts\<close>

text \<open>The attempts that were given a task, in order.\<close>

definition attempts :: "task_event list \<Rightarrow> int list" where
  "attempts es = concat (map (\<lambda>e. case e of TaskSpawned _ a \<Rightarrow> [a] | _ \<Rightarrow> []) (rev es))"

lemma attempts_simps [simp]:
  "attempts [] = []" "attempts (xs @ ys) = attempts ys @ attempts xs"
  "attempts (TaskSpawned t a # es) = attempts es @ [a]"
  "attempts (RetryStormDetected n # es) = attempts es"
  "attempts (TaskErrorRecorded t a b err # es) = attempts es"
  "attempts (TaskRetryScheduled a err # es) = attempts es"
  by (simp_all add: attempts_def)

definition retry_ok :: "int \<Rightarrow> task_event \<Rightarrow> bool" where
  "retry_ok limit e = (case e of
     TaskRetryScheduled a err \<Rightarrow> 1 < a \<and> a \<le> limit \<and> \<not> errors_is err ErrBudgetExceeded \<and>
       \<not> errors_is err ErrPolicyDenied \<and> \<not> errors_is err ErrUnsupported \<and> \<not> errors_is err ErrLoopDetected
   | _ \<Rightarrow> True)"

lemma attemptTask_events:
  assumes "attemptTask errText tenant run spec attempt w m = (m1, task, r)"
  shows "(\<exists>t. mc_events m1 = TaskSpawned t attempt # mc_events m) \<or>
    (mc_events m1 = mc_events m \<and> (\<exists>e. r = Inl e) \<and> ai_created w \<noteq> None)"
  using assms
  by (auto simp: attemptTask_def runAgentLoop_def emitTask_def failTask_def Let_def
      split: option.splits prod.splits sum.splits)

lemma decideRetry_events:
  assumes "decideRetry response run policy attempt w err m = (m1, retry, e)"
  shows "mc_events m1 = mc_events m \<or> (\<exists>n. mc_events m1 = RetryStormDetected n # mc_events m)"
  using assms
  by (auto simp: decideRetry_def emitTask_def Let_def split: if_splits option.splits prod.splits)

lemma decideRetry_error:
  "decideRetry response run policy attempt w err m = (m1, True, e) \<Longrightarrow> e = err"
  by (auto simp: decideRetry_def Let_def split: if_splits option.splits prod.splits)

text \<open>What an attempt and the decision after it add to the events of the loop.\<close>

definition attempt_log :: "int \<Rightarrow> int \<Rightarrow> task_event list \<Rightarrow> bool" where
  "attempt_log limit attempt new \<longleftrightarrow> sorted_wrt (<) (attempts new) \<and>
     (\<forall>a \<in> set (attempts new). attempt \<le> a \<and> a \<le> max attempt limit) \<and> list_all (retry_ok limit) new"

lemma attempt_log_more:
  assumes "attempt_log limit (attempt + 1) new" and "1 \<le> attempt" and "attempt < limit"
    and "set (attempts old) \<subseteq> {attempt}" and "length (attempts old) \<le> 1" and "list_all (retry_ok limit) old"
  shows "attempt_log limit attempt (new @ old)"
proof -
  from assms(5) have "sorted_wrt (<) (attempts old)" by (cases "attempts old") auto
  with assms show ?thesis by (fastforce simp: attempt_log_def sorted_wrt_append)
qed

lemma one_attempt:
  assumes "attemptTask errText tenant run spec attempt w m = (m1, task, Inl err0)"
    and "decideRetry response run policy attempt w err0 m1 = (m2, retry, err)"
  obtains old where "mc_events m2 = old @ mc_events m" and "set (attempts old) \<subseteq> {attempt}"
    and "length (attempts old) \<le> 1" and "list_all (retry_ok limit) old"
proof -
  have ev1: "mc_events m1 = mc_events m \<or> (\<exists>t. mc_events m1 = TaskSpawned t attempt # mc_events m)"
    using attemptTask_events [OF assms(1)] by blast
  have ev2: "mc_events m2 = mc_events m1 \<or> (\<exists>n. mc_events m2 = RetryStormDetected n # mc_events m1)"
    using decideRetry_events [OF assms(2)] .
  obtain o1 where o1: "mc_events m1 = o1 @ mc_events m" "set (attempts o1) \<subseteq> {attempt}"
    "length (attempts o1) \<le> 1" "list_all (retry_ok limit) o1"
    using ev1
  proof
    assume "mc_events m1 = mc_events m"
    then show thesis using that [of "[]"] by simp
  next
    assume "\<exists>t. mc_events m1 = TaskSpawned t attempt # mc_events m"
    then obtain t where "mc_events m1 = [TaskSpawned t attempt] @ mc_events m" by auto
    then show thesis using that by (simp add: retry_ok_def)
  qed
  from ev2 show thesis
  proof
    assume "mc_events m2 = mc_events m1"
    with o1 show thesis using that by simp
  next
    assume "\<exists>n. mc_events m2 = RetryStormDetected n # mc_events m1"
    then obtain n where "mc_events m2 = (RetryStormDetected n # o1) @ mc_events m" using o1 by auto
    then show thesis using that o1 by (simp add: retry_ok_def)
  qed
qed

lemma attemptLoop_log:
  fixes spec :: "'p taskSpec"
  defines "limit \<equiv> \<lambda>spec :: 'p taskSpec. rp_MaxAttempts (sp_retry spec)"
  shows "1 \<le> attempt \<Longrightarrow>
   \<exists>new. mc_events (fst (attemptLoop errText response tenant run spec world attempt backoff m)) =
     new @ mc_events m \<and> attempt_log (limit spec) attempt new"
proof (induction errText response tenant run spec world attempt backoff m rule: attemptLoop.induct)
  case (1 errText response tenant run spec world attempt backoff m)
  let ?w = "world attempt" and ?L = "limit spec"
  obtain m1 task r where att: "attemptTask errText tenant run spec attempt ?w m = (m1, task, r)"
    by (metis surj_pair)
  show ?case
  proof (cases r)
    case (Inr out)
    from attemptTask_events [OF att] Inr
    obtain t where "mc_events m1 = [TaskSpawned t attempt] @ mc_events m" by auto
    with att Inr show ?thesis
      by (subst attemptLoop.simps) (auto simp: attempt_log_def retry_ok_def)
  next
    case (Inl err0)
    obtain m2 retry err where dec: "decideRetry response run (sp_retry spec) attempt ?w err0 m1 = (m2, retry, err)"
      by (metis surj_pair)
    from one_attempt [OF att [unfolded Inl] dec, of ?L] obtain old
      where old: "mc_events m2 = old @ mc_events m" "set (attempts old) \<subseteq> {attempt}"
        "length (attempts old) \<le> 1" "list_all (retry_ok ?L) old" by blast
    define m3 where "m3 = (if task \<noteq> [] \<and> ai_ctxErr ?w = None
      then emitTask (TaskErrorRecorded task attempt retry err) m2 else m2)"
    obtain old3 where old3: "mc_events m3 = old3 @ mc_events m" "attempts old3 = attempts old"
      "list_all (retry_ok ?L) old3"
    proof (cases "task \<noteq> [] \<and> ai_ctxErr ?w = None")
      case True
      with old show thesis
        by (intro that [of "TaskErrorRecorded task attempt retry err # old"])
          (auto simp: m3_def emitTask_def retry_ok_def)
    next
      case False
      with old show thesis by (intro that [of old]) (auto simp: m3_def)
    qed
    have alone: "attempt_log ?L attempt old3"
      using old old3 by (cases "attempts old") (auto simp: attempt_log_def)
    show ?thesis
    proof (cases retry)
      case False
      with att dec Inl
      have "fst (attemptLoop errText response tenant run spec world attempt backoff m) = m3"
        by (subst attemptLoop.simps) (simp add: m3_def Let_def)
      with old3 alone show ?thesis by (intro exI [of _ old3]) simp
    next
      case True
      with dec have ret: "retries (sp_retry spec) (ai_ctxErr ?w) attempt err0" and err: "err = err0"
        by (auto dest: decideRetry_retries decideRetry_error)
      define m4 where "m4 = emitTask (TaskRetryScheduled (attempt + 1) err) m3"
      let ?old4 = "TaskRetryScheduled (attempt + 1) err # old3"
      have old4: "mc_events m4 = ?old4 @ mc_events m" "list_all (retry_ok ?L) ?old4" "attempt < ?L"
        using old3 ret 1(2) err by (auto simp: m4_def emitTask_def retry_ok_def retries_def limit_def)
      show ?thesis
      proof (cases "ai_waitErr ?w")
        case (Some e)
        have "attempt_log ?L attempt ?old4" using alone old4 by (simp add: attempt_log_def)
        moreover from att dec Inl True Some
        have "fst (attemptLoop errText response tenant run spec world attempt backoff m) =
            m4\<lparr>mc_budget := Release (mc_budget m4) run oneSubAgent\<rparr>"
          by (subst attemptLoop.simps) (simp add: m3_def m4_def Let_def)
        ultimately show ?thesis using old4 by (intro exI [of _ ?old4]) simp
      next
        case None
        have step: "attemptLoop errText response tenant run spec world attempt backoff m =
            attemptLoop errText response tenant run spec world (attempt + 1) (wrap64 (backoff * 2)) m4"
          using att dec Inl True None
          by (subst attemptLoop.simps) (simp add: m3_def m4_def Let_def)
        have "\<exists>new. mc_events (fst (attemptLoop errText response tenant run spec world (attempt + 1)
            (wrap64 (backoff * 2)) m4)) = new @ mc_events m4 \<and> attempt_log ?L (attempt + 1) new"
          by (rule "1.IH" [OF att [symmetric] refl Inl dec [symmetric] refl m3_def _ m4_def None])
            (use True 1(2) in auto)
        then obtain new where new: "mc_events (fst (attemptLoop errText response tenant run spec world
            (attempt + 1) (wrap64 (backoff * 2)) m4)) = new @ mc_events m4"
          "attempt_log ?L (attempt + 1) new" by blast
        have "attempt_log ?L attempt (new @ ?old4)"
          by (rule attempt_log_more) (use new 1(2) old4 old old3 in auto)
        with new old4 show ?thesis unfolding step by (intro exI [of _ "new @ ?old4"]) simp
      qed
    qed
  qed
qed


text \<open>A list of different attempts between the first and the limit has no more than the limit.\<close>

lemma attempt_log_length:
  assumes "attempt_log limit 1 new" shows "int (length (attempts new)) \<le> max 1 limit"
proof -
  from assms have "distinct (attempts new)" and sub: "set (attempts new) \<subseteq> {1..max 1 limit}"
    by (auto simp: attempt_log_def strict_sorted_iff)
  then have "length (attempts new) = card (set (attempts new))" by (simp add: distinct_card)
  also have "\<dots> \<le> card {1..max 1 limit}" using sub by (intro card_mono) auto
  finally show ?thesis by simp
qed

text \<open>whatever its attempts meet, \<open>runTask\<close> returns after at most \<open>MaxAttempts\<close> tasks (one
  when that is not positive), numbered upwards, and an error of the budget, of a policy, of a
  missing capability or of a detected loop is never followed by another attempt.\<close>

theorem task_attempts_bounded:
  "\<exists>new. mc_events (fst (runTask errText response tenant run spec world reserved m)) = new @ mc_events m \<and>
     int (length (attempts new)) \<le> max 1 (rp_MaxAttempts (sp_retry spec)) \<and>
     sorted_wrt (<) (attempts new) \<and> list_all (retry_ok (rp_MaxAttempts (sp_retry spec))) new"
proof -
  let ?L = "rp_MaxAttempts (sp_retry spec)"
  have loop: "\<exists>new. mc_events (fst (attemptLoop errText response tenant run spec world 1 b m')) = new @ mc_events m'
      \<and> int (length (attempts new)) \<le> max 1 ?L \<and> sorted_wrt (<) (attempts new) \<and> list_all (retry_ok ?L) new"
    for b m'
    using attemptLoop_log [of 1 errText response tenant run spec world b m'] attempt_log_length
    by (fastforce simp: attempt_log_def)
  obtain c out where take: "take_output (mc_reuse m) (sp_stage spec) (ag_Name (sp_agent spec)) (sp_prompt spec)
      = (c, out)" by fastforce
  let ?m0 = "m\<lparr>mc_reuse := c\<rparr>"
  obtain b e where res: "ReserveSubAgent (mc_budget ?m0) run = (b, e)" by fastforce
  show ?thesis
  proof (cases "out = None \<and> (reserved \<or> e = None)")
    case True
    have "mc_events (?m0\<lparr>mc_budget := b\<rparr>) = mc_events m" "mc_events ?m0 = mc_events m" by simp_all
    with True take res loop [of "rp_Backoff (sp_retry spec)" ?m0]
      loop [of "rp_Backoff (sp_retry spec)" "?m0\<lparr>mc_budget := b\<rparr>"]
    show ?thesis by (cases reserved) (simp_all add: runTask_def Let_def)
  next
    case False
    with take res have "mc_events (fst (runTask errText response tenant run spec world reserved m)) = mc_events m"
      by (cases out; cases e) (auto simp: runTask_def Let_def)
    then show ?thesis by (intro exI [of _ "[]"]) simp
  qed
qed

end
