(* ===== verification/StageRun.thy ===== *)
theory StageRun
  imports Stages TaskRuns
begin

text \<open>
  One stage of a workflow: \<open>runStage\<close> with its approval gates (\<open>runtime/workflow.go\<close>), its
  sequential loop over agent steps, and \<open>runParallelStage\<close> (\<open>runtime/orchestrator.go\<close>), which
  starts all steps at once and judges their results by the stage's failure policy.

  The goroutines of a parallel stage deliver their results in some order: \<open>collect\<close> is the loop
  over the channel, a fold over the arrivals, and what follows it is \<open>judge\<close>. A Go pair of a
  text and an error is a pair. \<open>answer\<close> is what \<open>awaitApproval\<close> returns to a gate.
\<close>

section \<open>Approval gates\<close>

definition stageGate :: "goerr + string \<Rightarrow> goerr option" where
  "stageGate answer =
     (case answer of
        Inl e \<Rightarrow> Some e
      | Inr status \<Rightarrow>
          if status \<noteq> ''approved'' then Some (new_error ''stage %q %s was not approved (%s)'') else None)"

section \<open>Agent steps in sequence\<close>

definition runAgentStep :: "(goerr \<Rightarrow> string) \<Rightarrow> LoopResponse \<Rightarrow> TenantID \<Rightarrow> RunID
    \<Rightarrow> (string \<rightharpoonup> 'p Agent) \<Rightarrow> Stage \<Rightarrow> AgentStep \<Rightarrow> string \<Rightarrow> bool \<Rightarrow> (int \<Rightarrow> AttemptIn)
    \<Rightarrow> Machine \<Rightarrow> Machine \<times> (goerr + string)" where
  "runAgentStep errText response tenant run agents stage step prompt reserved world m =
     (case agents (as_Name step) of
        None \<Rightarrow> (m, Inl (new_error ''unknown agent: %s''))
      | Some agent \<Rightarrow>
          runTask errText response tenant run
            \<lparr>sp_stage = sg_Name stage, sp_agent = agent, sp_prompt = prompt, sp_parent = [],
             sp_spawnedBy = [], sp_depth = 0, sp_retry = sg_Retry stage\<rparr> world reserved m)"

text \<open>\<open>out\<close> is the output of the step before; \<open>world j\<close> is what step \<open>j\<close> meets.\<close>

fun runSteps :: "(goerr \<Rightarrow> string) \<Rightarrow> LoopResponse \<Rightarrow> TenantID \<Rightarrow> RunID
    \<Rightarrow> (string \<rightharpoonup> 'p Agent) \<Rightarrow> (string, string) gomap \<Rightarrow> string \<Rightarrow> Stage
    \<Rightarrow> (nat \<Rightarrow> int \<Rightarrow> AttemptIn) \<Rightarrow> nat \<Rightarrow> AgentStep list \<Rightarrow> string \<Rightarrow> (string, string) gomap \<Rightarrow> Machine
    \<Rightarrow> Machine \<times> (string, string) gomap \<times> string \<times> goerr option" where
  "runSteps errText response tenant run agents input feedback stage world j [] out vars m =
     (m, vars, out, None)"
| "runSteps errText response tenant run agents input feedback stage world j (step # steps) out vars m =
     (case runAgentStep errText response tenant run agents stage step
             (render (as_Prompt step) input vars feedback) False (world j) m of
        (m', Inl e) \<Rightarrow> (m', vars, [], Some e)
      | (m', Inr out') \<Rightarrow>
          runSteps errText response tenant run agents input feedback stage world (Suc j) steps out'
            (mput (sg_Name stage @ ''.'' @ as_Name step) out' vars) m')"

section \<open>Agent steps in parallel\<close>

text \<open>The reservation that starts a parallel stage.\<close>

definition reserveStage :: "RunID \<Rightarrow> Stage \<Rightarrow> (string, string) gomap \<Rightarrow> (string, string) gomap \<Rightarrow> string
    \<Rightarrow> Machine \<Rightarrow> Machine \<times> goerr option" where
  "reserveStage run stage input vars feedback m =
     (let prompts = map (\<lambda>step. render (as_Prompt step) input vars feedback) (sg_Agents stage);
          n = toRun (mc_reuse m) (sg_Name stage) (zip (map as_Name (sg_Agents stage)) prompts);
          (b, e) = Reserve (mc_budget m) run (Usage0\<lparr>SubAgents := int n\<rparr>)
      in (m\<lparr>mc_budget := b\<rparr>, e))"

record Collected =
  co_results :: "(nat \<times> (goerr + string)) list"
  co_failures :: int
  co_err :: "goerr option"

definition effectivePolicy :: "Stage \<Rightarrow> FailurePolicy" where
  "effectivePolicy stage = (if sg_FailurePolicy stage = [] then FailFast else sg_FailurePolicy stage)"

text \<open>The body of \<open>for r := range results\<close>.\<close>

definition collect :: "Stage \<Rightarrow> nat \<times> (goerr + string) \<Rightarrow> Collected \<Rightarrow> Collected" where
  "collect stage r c0 =
     (let c = c0\<lparr>co_results := co_results c0 @ [r]\<rparr>; policy = effectivePolicy stage
      in case snd r of
           Inr _ \<Rightarrow> c
         | Inl e \<Rightarrow>
             if co_err c \<noteq> None then c
             else let failures = co_failures c + 1; c1 = c\<lparr>co_failures := failures\<rparr>
               in if policy = FailFast \<or> errors_is e ErrPaused then c1\<lparr>co_err := Some e\<rparr>
                  else if policy = Quorum \<and> failures > int (length (sg_Agents stage)) - sg_Quorum stage
                  then c1\<lparr>co_err := Some (Errorf
                    ''stage %q: %d of %d agents failed, so fewer than the quorum of %d can succeed: %w'' [e])\<rparr>
                  else c1)"

definition collectAll :: "Stage \<Rightarrow> (nat \<times> (goerr + string)) list \<Rightarrow> Collected" where
  "collectAll stage arrivals = fold (collect stage) arrivals \<lparr>co_results = [], co_failures = 0, co_err = None\<rparr>"

fun joinLines :: "string list \<Rightarrow> string" where
  "joinLines [] = []"
| "joinLines [s] = s"
| "joinLines (s # ss) = s @ [CHR 0x0A] @ joinLines ss"

text \<open>The loop over the sorted results: the first error, the parts and \<open>vars\<close>.\<close>

fun partsOf :: "Stage \<Rightarrow> (nat \<times> (goerr + string)) list \<Rightarrow> goerr option \<Rightarrow> string list
    \<Rightarrow> (string, string) gomap \<Rightarrow> goerr option \<times> string list \<times> (string, string) gomap" where
  "partsOf stage [] firstErr parts vars = (firstErr, parts, vars)"
| "partsOf stage ((j, Inl e) # rs) firstErr parts vars =
     partsOf stage rs (if firstErr = None then Some e else firstErr) parts vars"
| "partsOf stage ((j, Inr out) # rs) firstErr parts vars =
     (let name = as_Name (sg_Agents stage ! j)
      in partsOf stage rs firstErr (parts @ [name @ CHR ''='' # out])
           (mput (sg_Name stage @ ''.'' @ name) out vars))"

text \<open>What follows the loop over the results; \<open>ctxErr\<close> is the stage's \<open>ctx.Err()\<close>.\<close>

definition judge :: "Stage \<Rightarrow> goerr option \<Rightarrow> Collected \<Rightarrow> (string, string) gomap
    \<Rightarrow> (string, string) gomap \<times> string \<times> goerr option" where
  "judge stage ctxErr c vars =
     (if co_err c \<noteq> None then (vars, [], co_err c)
      else if ctxErr \<noteq> None then (vars, [], ctxErr)
      else case partsOf stage (sort_key fst (co_results c)) None [] vars of
        (firstErr, parts, vars') \<Rightarrow>
          if effectivePolicy stage = WaitAll \<and> firstErr \<noteq> None \<or> parts = [] then (vars', [], firstErr)
          else (vars', joinLines parts, None))"

definition runParallelStage :: "Stage \<Rightarrow> goerr option \<Rightarrow> (nat \<times> (goerr + string)) list
    \<Rightarrow> (string, string) gomap \<Rightarrow> (string, string) gomap \<times> string \<times> goerr option" where
  "runParallelStage stage ctxErr arrivals vars = judge stage ctxErr (collectAll stage arrivals) vars"

section \<open>A stage\<close>

text \<open>
  What is left of \<open>runStage\<close> once the steps have run, with \<open>sctxErr\<close> and \<open>ctxErr\<close> the states of
  the stage's and of the run's context.
\<close>

definition finishStage :: "Stage \<Rightarrow> goerr option \<Rightarrow> goerr option \<Rightarrow> goerr + string
    \<Rightarrow> string \<times> goerr option \<Rightarrow> string \<times> goerr option" where
  "finishStage stage sctxErr ctxErr answer r =
     (let (out, err) = r;
          (out1, err1) = (if err \<noteq> None \<and> sctxErr \<noteq> None \<and> ctxErr = None
            then ([], Some (Errorf ''stage %q timed out after %s: %w'' [Sentinel CtxDeadlineExceeded]))
            else (out, err));
          err2 = (if err1 = None \<and> sg_ApproveOutput stage then stageGate answer else err1)
      in (out1, err2))"

definition runStage :: "(goerr \<Rightarrow> string) \<Rightarrow> LoopResponse \<Rightarrow> TenantID \<Rightarrow> RunID
    \<Rightarrow> (string \<rightharpoonup> 'p Agent) \<Rightarrow> (string, string) gomap \<Rightarrow> string \<Rightarrow> Stage
    \<Rightarrow> (nat \<Rightarrow> int \<Rightarrow> AttemptIn) \<Rightarrow> (nat \<times> (goerr + string)) list
    \<Rightarrow> goerr + string \<Rightarrow> goerr + string \<Rightarrow> goerr option \<Rightarrow> goerr option
    \<Rightarrow> (string, string) gomap \<Rightarrow> Machine \<Rightarrow> Machine \<times> Finished" where
  "runStage errText response tenant run agents input feedback stage world arrivals
     startAnswer outAnswer sctxErr ctxErr vars m =
     (case (if sg_ApproveStart stage then stageGate startAnswer else None) of
        Some e \<Rightarrow> (m, \<lparr>fin_out = [], fin_vars = vars, fin_err = Some e\<rparr>)
      | None \<Rightarrow>
          let (m', vars', out, err) =
                (if sg_Kind stage = StageParallel
                 then (case reserveStage run stage input vars feedback m of
                     (m1, Some e) \<Rightarrow> (m1, vars, [], Some e)
                   | (m1, None) \<Rightarrow> (m1, runParallelStage stage sctxErr arrivals vars))
                 else runSteps errText response tenant run agents input feedback stage world 0
                   (sg_Agents stage) [] vars m);
              (out', err') = finishStage stage sctxErr ctxErr outAnswer (out, err)
          in (m', \<lparr>fin_out = out', fin_vars = vars', fin_err = err'\<rparr>))"

section \<open>The failure policies\<close>

text \<open>When a parallel stage succeeds, given the result of each of its agents.\<close>

definition stage_succeeds :: "Stage \<Rightarrow> (nat \<Rightarrow> goerr + string) \<Rightarrow> bool" where
  "stage_succeeds stage res \<longleftrightarrow>
     (let n = length (sg_Agents stage); good = length (filter (\<lambda>j. \<not> isl (res j)) [0..<n])
      in list_all (\<lambda>j. case res j of Inl e \<Rightarrow> \<not> errors_is e ErrPaused | Inr _ \<Rightarrow> True) [0..<n] \<and>
         (if effectivePolicy stage \<in> {FailFast, WaitAll} then good = n
          else if effectivePolicy stage = Quorum then sg_Quorum stage \<le> int good
          else 0 < good))"

text \<open>The output of a successful stage lists the successful agents in the order of the stage.\<close>

definition stage_output :: "Stage \<Rightarrow> (nat \<Rightarrow> goerr + string) \<Rightarrow> string" where
  "stage_output stage res = joinLines (concat (map (\<lambda>j. case res j of Inl _ \<Rightarrow> []
     | Inr out \<Rightarrow> [as_Name (sg_Agents stage ! j) @ CHR ''='' # out]) [0..<length (sg_Agents stage)]))"


definition errors_in :: "(nat \<times> (goerr + string)) list \<Rightarrow> nat" where
  "errors_in rs = length (filter (\<lambda>r. isl (snd r)) rs)"

definition none_paused :: "(nat \<times> (goerr + string)) list \<Rightarrow> bool" where
  "none_paused rs = list_all (\<lambda>r. case snd r of Inl e \<Rightarrow> \<not> errors_is e ErrPaused | Inr _ \<Rightarrow> True) rs"

lemma collect_results: "co_results (fold (collect stage) rs c) = co_results c @ rs"
proof (induction rs arbitrary: c)
  case (Cons r rs)
  have "co_results (collect stage r c) = co_results c @ [r]"
    by (auto simp: collect_def Let_def split: sum.splits)
  with Cons.IH show ?case by simp
qed simp

lemma collect_stuck: "co_err c \<noteq> None \<Longrightarrow> co_err (fold (collect stage) rs c) = co_err c"
proof (induction rs arbitrary: c)
  case (Cons r rs)
  then have "co_err (collect stage r c) = co_err c"
    by (auto simp: collect_def Let_def split: sum.splits)
  with Cons show ?case by simp
qed simp

text \<open>The loop ends without an error exactly when no result ends it, in whatever order they come.\<close>

lemma collect_ok:
  "co_err c = None \<Longrightarrow>
   co_err (fold (collect stage) rs c) = None \<longleftrightarrow>
     none_paused rs \<and> (effectivePolicy stage = FailFast \<longrightarrow> errors_in rs = 0) \<and>
     (effectivePolicy stage = Quorum \<longrightarrow> errors_in rs = 0 \<or>
        co_failures c + int (errors_in rs) \<le> int (length (sg_Agents stage)) - sg_Quorum stage)"
proof (induction rs arbitrary: c)
  case Nil
  then show ?case by (simp add: none_paused_def errors_in_def)
next
  case (Cons r rs)
  obtain j x where r: "r = (j, x)" by (cases r)
  show ?case
  proof (cases x)
    case (Inr out)
    have "collect stage r c = c\<lparr>co_results := co_results c @ [r]\<rparr>"
      by (simp add: collect_def r Inr Let_def)
    with Cons.IH [of "c\<lparr>co_results := co_results c @ [r]\<rparr>"] Cons.prems show ?thesis
      by (simp add: none_paused_def errors_in_def r Inr)
  next
    case (Inl e)
    let ?n = "int (length (sg_Agents stage))"
    define stop where "stop \<longleftrightarrow> effectivePolicy stage = FailFast \<or> errors_is e ErrPaused \<or>
      effectivePolicy stage = Quorum \<and> co_failures c + 1 > ?n - sg_Quorum stage"
    show ?thesis
    proof (cases stop)
      case True
      then have "co_err (collect stage r c) \<noteq> None"
        using Cons.prems by (auto simp: collect_def r Inl Let_def stop_def)
      then have "co_err (fold (collect stage) (r # rs) c) \<noteq> None"
        using collect_stuck [of "collect stage r c"] by simp
      with True show ?thesis
        by (auto simp: none_paused_def errors_in_def r Inl stop_def)
    next
      case False
      let ?c = "c\<lparr>co_results := co_results c @ [r], co_failures := co_failures c + 1\<rparr>"
      have "collect stage r c = ?c"
        using Cons.prems False by (auto simp: collect_def r Inl Let_def stop_def)
      with Cons.IH [of ?c] Cons.prems False show ?thesis
        by (auto simp: none_paused_def errors_in_def r Inl stop_def)
    qed
  qed
qed

lemma partsOf_eq:
  "partsOf stage rs firstErr parts vars = (e, ps, vars') \<Longrightarrow>
   (e = None \<longleftrightarrow> firstErr = None \<and> errors_in rs = 0) \<and>
   ps = parts @ concat (map (\<lambda>(j, x). case x of Inl _ \<Rightarrow> []
     | Inr out \<Rightarrow> [as_Name (sg_Agents stage ! j) @ CHR ''='' # out]) rs)"
proof (induction stage rs firstErr parts vars rule: partsOf.induct)
  case (1 stage firstErr parts vars)
  then show ?case by (simp add: errors_in_def)
next
  case (2 stage j err rs firstErr parts vars)
  then show ?case by (auto simp: errors_in_def split: if_splits)
next
  case (3 stage j out rs firstErr parts vars)
  then show ?case by (auto simp: errors_in_def Let_def)
qed

lemma sort_arrivals:
  fixes res :: "nat \<Rightarrow> 'b"
  assumes "mset order = mset [0..<n]"
  shows "sort_key fst (map (\<lambda>j. (j, res j)) order) = map (\<lambda>j. (j, res j)) [0..<n]"
proof (rule properties_for_sort_key)
  show "mset (map (\<lambda>j. (j, res j)) [0..<n]) = mset (map (\<lambda>j. (j, res j)) order)"
    using assms by simp
next
  fix p :: "nat \<times> 'b"
  let ?k = "fst p"
  have dist: "distinct order" using mset_eq_imp_distinct_iff [OF assms] by simp
  have same: "set order = set [0..<n]" using assms by (rule mset_eq_setD)
  have one: "filter (\<lambda>j. ?k = j) js = (if ?k \<in> set js then [?k] else [])" if "distinct js" for js
    using that by (induction js) auto
  show "filter (\<lambda>x. fst p = fst x) (map (\<lambda>j. (j, res j)) [0..<n]) =
      filter (\<lambda>x. fst p = fst x) (map (\<lambda>j. (j, res j)) order)"
    using same one [OF dist] one [of "[0..<n]"] by (simp add: filter_map o_def)
qed (simp add: o_def)

text \<open>The number of errors and the pauses among the arrivals are those of the agents.\<close>

lemma arrivals_errors:
  assumes "mset order = mset [0..<n]"
  shows "errors_in (map (\<lambda>j. (j, res j)) order) + length (filter (\<lambda>j. \<not> isl (res j)) [0..<n]) = n"
proof -
  have "mset (filter (\<lambda>j. isl (res j)) order) = mset (filter (\<lambda>j. isl (res j)) [0..<n])"
    by (simp only: mset_filter assms)
  from mset_eq_length [OF this]
  have "errors_in (map (\<lambda>j. (j, res j)) order) = length (filter (\<lambda>j. isl (res j)) [0..<n])"
    by (simp add: errors_in_def filter_map o_def)
  then show ?thesis
    using sum_length_filter_compl [of "\<lambda>j. isl (res j)" "[0..<n]"] by simp
qed

lemma arrivals_paused:
  assumes "mset order = mset [0..<n]"
  shows "none_paused (map (\<lambda>j. (j, res j)) order) \<longleftrightarrow>
    list_all (\<lambda>j. case res j of Inl e \<Rightarrow> \<not> errors_is e ErrPaused | Inr _ \<Rightarrow> True) [0..<n]"
  using mset_eq_setD [OF assms] by (simp add: none_paused_def list_all_iff)

lemma joinLines_filter_nonempty:
  "concat (map (\<lambda>j. case res j of Inl _ \<Rightarrow> [] | Inr out \<Rightarrow> [f j out]) js) = [] \<longleftrightarrow>
   length (filter (\<lambda>j. \<not> isl (res j)) js) = 0"
  by (induction js) (auto split: sum.splits)

text \<open>C14: a parallel stage succeeds or fails by its failure policy and its agents' results alone:
  the order in which they finish changes neither whether the stage succeeds nor its output.
  With \<open>fail_fast\<close> and \<open>wait_all\<close> all agents must succeed, with \<open>quorum\<close> as many as the
  quorum, with \<open>best_effort\<close> one; a paused agent always fails the stage. The output lists the
  agents that succeeded in the order of the stage.\<close>

theorem failure_policies_ignore_the_order:
  assumes "checkStage agents stage = None"
    and "mset order = mset [0..<length (sg_Agents stage)]"
    and "runParallelStage stage ctxErr (map (\<lambda>j. (j, res j)) order) vars = (vars', out, err)"
  shows "(err = None \<longleftrightarrow> ctxErr = None \<and> stage_succeeds stage res) \<and>
    (err = None \<longrightarrow> out = stage_output stage res)"
proof -
  have stage: "sg_Agents stage \<noteq> []" "effectivePolicy stage \<in> {FailFast, WaitAll, BestEffort, Quorum}"
    "effectivePolicy stage = Quorum \<Longrightarrow>
      1 \<le> sg_Quorum stage \<and> sg_Quorum stage \<le> int (length (sg_Agents stage))"
    using assms(1) by (auto simp: checkStage_def effectivePolicy_def split: if_splits)
  let ?n = "length (sg_Agents stage)" and ?rs = "map (\<lambda>j. (j, res j)) order"
  let ?c = "collectAll stage ?rs" and ?good = "length (filter (\<lambda>j. \<not> isl (res j)) [0..<length (sg_Agents stage)])"
  note errs = arrivals_errors [OF assms(2), of res]
  have ok: "co_err ?c = None \<longleftrightarrow> none_paused ?rs \<and>
      (effectivePolicy stage = FailFast \<longrightarrow> ?good = ?n) \<and>
      (effectivePolicy stage = Quorum \<longrightarrow> ?good = ?n \<or> sg_Quorum stage \<le> int ?good)"
    unfolding collectAll_def using errs by (subst collect_ok) auto
  obtain firstErr parts vars1 where parts: "partsOf stage (sort_key fst (co_results ?c)) None [] vars
      = (firstErr, parts, vars1)" by (metis surj_pair)
  have sorted: "sort_key fst (co_results ?c) = map (\<lambda>j. (j, res j)) [0..<?n]"
    by (simp add: collectAll_def collect_results sort_arrivals [OF assms(2)])
  have first: "firstErr = None \<longleftrightarrow> ?good = ?n"
    using partsOf_eq [OF parts] arrivals_errors [of "[0..<?n]" ?n res] by (simp add: sorted) linarith
  have out: "joinLines parts = stage_output stage res" and none: "parts = [] \<longleftrightarrow> ?good = 0"
    using partsOf_eq [OF parts] joinLines_filter_nonempty [where res = res and js = "[0..<?n]"]
    by (simp_all add: sorted stage_output_def o_def)
  have paused: "none_paused ?rs \<longleftrightarrow>
      list_all (\<lambda>j. case res j of Inl e \<Rightarrow> \<not> errors_is e ErrPaused | Inr _ \<Rightarrow> True) [0..<?n]"
    using assms(2) by (rule arrivals_paused)
  have pos: "0 < ?n" using stage(1) by simp
  show ?thesis
  proof (cases "co_err ?c = None \<and> ctxErr = None")
    case True
    then have "(vars', out, err) = (if effectivePolicy stage = WaitAll \<and> firstErr \<noteq> None \<or> parts = []
        then (vars1, [], firstErr) else (vars1, joinLines parts, None))"
      using assms(3) parts by (simp add: runParallelStage_def judge_def)
    then have run: "err = None \<longleftrightarrow> (effectivePolicy stage = WaitAll \<longrightarrow> ?good = ?n) \<and> 0 < ?good"
      "err = None \<longrightarrow> out = stage_output stage res"
      using first none out pos by (auto split: if_splits)
    have "stage_succeeds stage res \<longleftrightarrow> (effectivePolicy stage = WaitAll \<longrightarrow> ?good = ?n) \<and> 0 < ?good"
      using True ok paused stage(2,3) pos
      by (auto simp: stage_succeeds_def Let_def)
    with run True show ?thesis by simp
  next
    case False
    have judged: "judge stage ctxErr ?c vars = (vars', out, err)"
      using assms(3) by (simp add: runParallelStage_def)
    have "err \<noteq> None"
    proof (cases "co_err ?c = None")
      case True
      with False judged show ?thesis by (auto simp: judge_def)
    next
      case False
      with judged have "err = co_err ?c" by (simp add: judge_def)
      with False show ?thesis by simp
    qed
    moreover have "\<not> (ctxErr = None \<and> stage_succeeds stage res)"
      using False ok paused stage(2) by (auto simp: stage_succeeds_def Let_def split: if_splits)
    ultimately show ?thesis by blast
  qed
qed


definition panel :: Stage where
  "panel = (writer_stage ''panel'' [] None)\<lparr>sg_Agents := [\<lparr>as_Name = ''w'', as_Prompt = [], as_Images = []\<rparr>,
     \<lparr>as_Name = ''w'', as_Prompt = [], as_Images = []\<rparr>]\<rparr>"

definition panel_result :: "nat \<Rightarrow> goerr + string" where
  "panel_result j = (if j = 0 then Inl (Sentinel ErrModelCall) else Inr ''yes'')"

theorem failure_policies_ignore_the_order_witness:
  "stage_succeeds panel panel_result \<and> stage_output panel panel_result = ''w=yes''"
proof -
  have check: "checkStage writer_agents panel = None"
    by (simp add: checkStage_def panel_def writer_stage_def writer_agents_def)
  have order: "mset [1, 0] = mset [0..<length (sg_Agents panel)]"
    by (simp add: panel_def writer_stage_def upt_rec numeral_2_eq_2)
  have run: "runParallelStage panel None (map (\<lambda>j. (j, panel_result j)) [1, 0]) [] =
      ([(''panel.w'', ''yes'')], ''w=yes'', None)"
    by (simp add: runParallelStage_def judge_def collectAll_def collect_def panel_def writer_stage_def
        panel_result_def effectivePolicy_def Let_def)
  from failure_policies_ignore_the_order [OF check order run] show ?thesis by simp
qed

end
