(* ===== verification/Leases.thy ===== *)
theory Leases
  imports Runs
begin

text \<open>
  Leases (\<open>ClaimRun\<close>, \<open>RenewLeases\<close>, \<open>ReleaseRun\<close> in \<open>store/store.go\<close>): how processes that share
  the store agree who executes a run. The interface \<open>lease_store\<close> is what the orchestrators rely on;
  its client is a set of processes, each believing it holds the run until the lease it was last
  granted or renewed ends, and the store is interpreted as a provider.
\<close>

section \<open>The interface\<close>

type_synonym lease = "string \<times> time" \<comment> \<open>owner, empty for none, and when the lease ends\<close>

text \<open>Until when each process believes it holds the run.\<close>

type_synonym beliefs = "string \<rightharpoonup> time"

definition believes :: "beliefs \<Rightarrow> string \<Rightarrow> time \<Rightarrow> bool" where
  "believes b p now \<longleftrightarrow> (case b p of None \<Rightarrow> False | Some until \<Rightarrow> now < until)"

text \<open>A process that believes it holds the run is the recorded owner, with at least that long a lease.\<close>

definition honoured :: "lease \<Rightarrow> beliefs \<Rightarrow> time \<Rightarrow> bool" where
  "honoured h b now \<longleftrightarrow> (\<forall>p. p \<noteq> [] \<longrightarrow> believes b p now \<longrightarrow>
     fst h = p \<and> (\<exists>until. b p = Some until \<and> until \<le> snd h))"

lemma honoured_exclusive:
  "honoured h b now \<Longrightarrow> p \<noteq> [] \<Longrightarrow> q \<noteq> [] \<Longrightarrow> believes b p now \<Longrightarrow> believes b q now \<Longrightarrow> p = q"
  by (auto simp: honoured_def)

lemma honoured_later: "honoured h b now \<Longrightarrow> now \<le> now' \<Longrightarrow> honoured h b now'"
  by (force simp: honoured_def believes_def split: option.splits)

locale lease_store =
  fixes claim :: "'s \<Rightarrow> string \<Rightarrow> duration \<Rightarrow> time \<Rightarrow> time \<Rightarrow> 's \<times> bool"
    and renew :: "'s \<Rightarrow> string \<Rightarrow> time \<Rightarrow> duration \<Rightarrow> 's \<times> bool"
    and release :: "'s \<Rightarrow> string \<Rightarrow> 's"
    and lease :: "'s \<Rightarrow> lease"
  assumes claim_granted: "claim s p d now now' = (s', True) \<Longrightarrow>
      (fst (lease s) = [] \<or> fst (lease s) = p \<or> snd (lease s) \<le> now) \<and> lease s' = (p, now' + d)"
    and claim_refused: "claim s p d now now' = (s', False) \<Longrightarrow> lease s' = lease s"
    and renew_held: "renew s p now d = (s', True) \<Longrightarrow> fst (lease s) = p \<and> lease s' = (p, now + d)"
    and renew_lost: "renew s p now d = (s', False) \<Longrightarrow> lease s' = lease s"
    and release_own: "lease (release s p) = (if fst (lease s) = p then ([], 0) else lease s)"
begin

lemma claim_honoured:
  assumes "honoured (lease s) b now" and "claim s p d now now' = (s', ok)" and "now \<le> now'" and "p \<noteq> []"
  shows "honoured (lease s') (if ok then b(p \<mapsto> now' + d) else b) now'"
proof (cases ok)
  case True
  with claim_granted [of s p d now now' s'] assms(2)
  have g: "fst (lease s) = [] \<or> fst (lease s) = p \<or> snd (lease s) \<le> now" "lease s' = (p, now' + d)" by auto
  have "\<not> believes b q now'" if "q \<noteq> p" "q \<noteq> []" for q
  proof
    assume "believes b q now'"
    with assms(3) have "believes b q now" by (auto simp: believes_def split: option.splits)
    with assms(1) that obtain u where "fst (lease s) = q" "b q = Some u" "u \<le> snd (lease s)"
      by (auto simp: honoured_def)
    with g that \<open>believes b q now\<close> show False by (auto simp: believes_def)
  qed
  with g True show ?thesis by (auto simp: honoured_def believes_def)
next
  case False
  with assms claim_refused [of s p d now now' s'] honoured_later show ?thesis by simp
qed

lemma renew_honoured:
  assumes "honoured (lease s) b now" and "renew s p now d = (s', ok)"
  shows "honoured (lease s') (if ok then b(p \<mapsto> now + d) else b) now"
proof (cases ok)
  case True
  with renew_held [of s p now d s'] assms(2)
  have "fst (lease s) = p" "lease s' = (p, now + d)" by auto
  with True assms(1) show ?thesis by (auto simp: honoured_def believes_def)
next
  case False
  with assms renew_lost [of s p now d s'] show ?thesis by simp
qed

lemma release_honoured:
  "honoured (lease s) b now \<Longrightarrow> honoured (lease (release s p)) (b(p := None)) now"
  by (auto simp: honoured_def believes_def release_own)

end

section \<open>The store provides it\<close>

text \<open>The lease of one run of one tenant; renewing a list renews each run of it in turn.\<close>

definition leaseOf :: "RunID \<Rightarrow> MemStore \<Rightarrow> lease" where
  "leaseOf rid m = (case map_of (ms_runs m) rid of None \<Rightarrow> ([], 0)
     | Some r \<Rightarrow> (ru_Owner r, ru_LeaseUntil r))"

definition claimIt :: "TenantID \<Rightarrow> RunID \<Rightarrow> MemStore \<Rightarrow> string \<Rightarrow> duration \<Rightarrow> time \<Rightarrow> time \<Rightarrow> MemStore \<times> bool" where
  "claimIt t rid m p d now now' = (case ClaimRun m t rid p d now now' of (m', err) \<Rightarrow> (m', err = None))"

definition renewIt :: "RunID \<Rightarrow> MemStore \<Rightarrow> string \<Rightarrow> time \<Rightarrow> duration \<Rightarrow> MemStore \<times> bool" where
  "renewIt rid m p now d = (case RenewLeases m p [(rid, now)] d Map.empty of (m', kept) \<Rightarrow> (m', kept rid \<noteq> None))"

interpretation run_leases: lease_store "claimIt t rid" "renewIt rid" "\<lambda>m. ReleaseRun m rid" "leaseOf rid"
  for t rid
  by unfold_locales
    (auto simp: claimIt_def renewIt_def ClaimRun_def ReleaseRun_def leaseOf_def go_simps
      split: option.splits if_splits)

lemma leaseOf_setRun_same: "map_of (ms_runs m) rid = Some r \<Longrightarrow> ru_Owner r' = ru_Owner r \<Longrightarrow>
    ru_LeaseUntil r' = ru_LeaseUntil r \<Longrightarrow> leaseOf x (setRun m rid r') = leaseOf x m"
  by (simp add: leaseOf_def go_simps)

lemma leaseOf_other: "x \<noteq> rid \<Longrightarrow> leaseOf x (setRun m rid r') = leaseOf x m"
  by (simp add: leaseOf_def go_simps)

text \<open>Writes to other runs and to other fields leave a lease alone, as does creating a new run.\<close>

lemma lease_frame:
  "leaseOf x (fst (UpdateRun m r)) = leaseOf x m"
  "leaseOf x (fst (RequestCancel m t rid)) = leaseOf x m"
  "leaseOf x (fst (UpdateRunStatus m t rid st why now)) = leaseOf x m"
  "leaseOf x (fst (UpdateRunUsage m t rid u)) = leaseOf x m"
  "x \<noteq> rid \<Longrightarrow> leaseOf x (fst (ClaimRun m t rid p d now now')) = leaseOf x m"
  "x \<noteq> rid \<Longrightarrow> leaseOf x (ReleaseRun m rid p) = leaseOf x m"
  by (auto simp: UpdateRun_def RequestCancel_def UpdateRunStatus_def UpdateRunUsage_def ClaimRun_def
      ReleaseRun_def Let_def runs.get_Inr_iff leaseOf_other leaseOf_setRun_same
      split: option.splits sum.splits)

lemma lease_frame_renew: "x \<notin> fst ` set rs \<Longrightarrow> leaseOf x (fst (RenewLeases m p rs d kept)) = leaseOf x m"
proof (induction rs arbitrary: m kept)
  case (Cons a rs)
  then show ?case
    by (cases a) (auto simp: leaseOf_other split: option.splits)
qed simp

lemma lease_frame_create: "x \<noteq> ru_ID (filledRun r i 0) \<Longrightarrow> leaseOf x (fst (CreateRun m r i n)) = leaseOf x m"
  by (cases rule: CreateRun_cases [of m r i n]) (simp_all add: leaseOf_def go_simps)

section \<open>Processes sharing a run\<close>

text \<open>
  One step of the system that consists of the store, the processes' beliefs about one run and the
  clock, which only moves forward. A process acts under a name of its own, which is not empty.
\<close>

type_synonym lease_system = "MemStore \<times> beliefs \<times> time"

inductive lease_step :: "TenantID \<Rightarrow> RunID \<Rightarrow> lease_system \<Rightarrow> lease_system \<Rightarrow> bool" for t rid where
  claims: "now \<le> t1 \<Longrightarrow> t1 \<le> t2 \<Longrightarrow> p \<noteq> [] \<Longrightarrow> ClaimRun m t rid p d t1 t2 = (m', err) \<Longrightarrow>
    lease_step t rid (m, b, now) (m', if err = None then b(p \<mapsto> t2 + d) else b, t2)"
| renews: "now \<le> t1 \<Longrightarrow> p \<noteq> [] \<Longrightarrow> RenewLeases m p [(rid, t1)] d Map.empty = (m', kept) \<Longrightarrow>
    lease_step t rid (m, b, now) (m', if kept rid \<noteq> None then b(p \<mapsto> t1 + d) else b, t1)"
| releases: "now \<le> t1 \<Longrightarrow> p \<noteq> [] \<Longrightarrow> lease_step t rid (m, b, now) (ReleaseRun m rid p, b(p := None), t1)"
| updates: "now \<le> t1 \<Longrightarrow> m' \<in> {fst (UpdateRun m r), fst (RequestCancel m t' x),
      fst (UpdateRunStatus m t' x st why t1), fst (UpdateRunUsage m t' x u)} \<Longrightarrow>
    lease_step t rid (m, b, now) (m', b, t1)"
| others: "now \<le> t1 \<Longrightarrow> x \<noteq> rid \<Longrightarrow> m' \<in> {fst (ClaimRun m t' x p d t1 t1), ReleaseRun m x p,
      fst (RenewLeases m p [(x, t1)] d Map.empty)} \<Longrightarrow> lease_step t rid (m, b, now) (m', b, t1)"
| creates: "now \<le> t1 \<Longrightarrow> ru_ID (filledRun r i 0) \<noteq> rid \<Longrightarrow>
    lease_step t rid (m, b, now) (fst (CreateRun m r i t1), b, t1)"

inductive_cases lease_stepE: "lease_step t rid s s'"

lemma lease_step_honoured:
  assumes "lease_step t rid (m, b, now) (m', b', now')" and "honoured (leaseOf rid m) b now"
  shows "honoured (leaseOf rid m') b' now' \<and> now \<le> now'"
  using assms(1)
proof (cases rule: lease_step.cases)
  case (claims t1 p d err)
  from claims(5) have "claimIt t rid m p d t1 now' = (m', err = None)" by (simp add: claimIt_def)
  from run_leases.claim_honoured [OF honoured_later [OF assms(2) claims(2)] this claims(3,4)] claims
  show ?thesis by simp
next
  case (renews p d kept)
  from renews(4) have "renewIt rid m p now' d = (m', kept rid \<noteq> None)" by (simp add: renewIt_def)
  from run_leases.renew_honoured [OF honoured_later [OF assms(2) renews(2)] this] renews
  show ?thesis by simp
next
  case (releases p)
  with run_leases.release_honoured [OF honoured_later [OF assms(2)]] show ?thesis by simp
next
  case (updates r t' x st why u)
  then have "leaseOf rid m' = leaseOf rid m" by (auto simp: lease_frame)
  with updates honoured_later [OF assms(2)] show ?thesis by simp
next
  case (others x t' p d)
  then have "leaseOf rid m' = leaseOf rid m" by (auto simp: lease_frame lease_frame_renew simp del: RenewLeases.simps)
  with others honoured_later [OF assms(2)] show ?thesis by simp
next
  case (creates r i)
  with honoured_later [OF assms(2)] show ?thesis by (simp add: lease_frame_create)
qed

lemma lease_reach_honoured:
  assumes "(lease_step t rid)\<^sup>*\<^sup>* (m, b, now) s'" and "honoured (leaseOf rid m) b now"
  shows "case s' of (m', b', now') \<Rightarrow> honoured (leaseOf rid m') b' now'"
  using assms(1)
proof (induction rule: rtranclp_induct)
  case (step s s')
  then show ?case by (auto dest: lease_step_honoured split: prod.splits)
qed (use assms(2) in simp)

text \<open>C16: Any number of processes claim, renew and release a run in any order, between other writes
  to the store. At no time do two of them believe they hold it, each believing so until the lease
  it was last granted or renewed ends.\<close>

theorem at_most_one_process_executes:
  assumes "(lease_step t rid)\<^sup>*\<^sup>* (m, Map.empty, now0) (m', b, now)" and "p \<noteq> []" and "q \<noteq> []"
    and "believes b p now" and "believes b q now"
  shows "p = q \<and> fst (leaseOf rid m') = p"
proof -
  have "honoured (leaseOf rid m) Map.empty now0"
    by (simp add: honoured_def believes_def)
  from lease_reach_honoured [OF assms(1) this] have h: "honoured (leaseOf rid m') b now" by simp
  with honoured_exclusive [OF h assms(2-5)] assms(2,4) show ?thesis by (auto simp: honoured_def)
qed

text \<open>Process \<open>''b''\<close> takes the run over after \<open>''a''\<close>'s lease has passed.\<close>

theorem at_most_one_process_executes_witness:
  "\<exists>m' b. (lease_step [] ''r1'')\<^sup>*\<^sup>* (fst (CreateRun NewMemStore Run0 ''r1'' 5), Map.empty, 5) (m', b, 40) \<and>
     believes b ''b'' 40 \<and> fst (leaseOf ''r1'' m') = ''b''"
proof -
  define m where "m = fst (CreateRun NewMemStore Run0 ''r1'' 5)"
  let ?r = "filledRun Run0 ''r1'' 5"
  have m: "ms_runs m = [(''r1'', ?r)]"
    by (simp add: m_def CreateRun_def Let_def NewMemStore_def Run0_def)
  have r: "ru_Owner ?r = []" "ru_TenantID Run0 = []"
    by (simp_all add: filledRun_def Run0_def Let_def)
  obtain m1 where c1: "ClaimRun m [] ''r1'' ''a'' 30 6 7 = (m1, None)"
      and m1: "ms_runs m1 = [(''r1'', ?r\<lparr>ru_Owner := ''a'', ru_LeaseUntil := 37\<rparr>)]"
    by (simp add: ClaimRun_def m r setRun_def)
  obtain m2 where c2: "ClaimRun m1 [] ''r1'' ''b'' 30 38 40 = (m2, None)"
    by (simp add: ClaimRun_def m1 r)
  have "lease_step [] ''r1'' (m, Map.empty, 5) (m1, [''a'' \<mapsto> 37], 7)"
    using lease_step.claims [OF _ _ _ c1, of 5 Map.empty] by simp
  moreover have "lease_step [] ''r1'' (m1, [''a'' \<mapsto> 37], 7) (m2, [''a'' \<mapsto> 37, ''b'' \<mapsto> 70], 40)"
    using lease_step.claims [OF _ _ _ c2, of 7 "[''a'' \<mapsto> 37]"] by simp
  ultimately have reach: "(lease_step [] ''r1'')\<^sup>*\<^sup>* (m, Map.empty, 5) (m2, [''a'' \<mapsto> 37, ''b'' \<mapsto> 70], 40)"
    by (meson converse_rtranclp_into_rtranclp rtranclp.rtrancl_refl)
  have "believes [''a'' \<mapsto> 37, ''b'' \<mapsto> 70] ''b'' 40" by (simp add: believes_def)
  with at_most_one_process_executes [OF reach _ _ this this] reach show ?thesis by (auto simp: m_def)
qed

end
