(* ===== verification/RunStart.thy ===== *)
theory RunStart
  imports Tools Providers StageRun Leases EventLog "HOL-Library.Monad_Syntax"
begin

text \<open>
  The orchestrator's state and how a run starts (\<open>runtime/orchestrator.go\<close>): the events it emits,
  admission, \<open>claim\<close>, \<open>prepareRun\<close>, \<open>createRun\<close>, \<open>launch\<close> and \<open>StartRun\<close>.

  The store, the budget manager and the loop detector are those of the other theories. A critical
  section of the orchestrator's mutex, or a call of the store, is one function of the state; a
  handler composes them. Clock readings and identifiers come in records named after their users.
  \<open>None\<close> is a panic, which only \<open>Append\<close>, \<open>CancelRunApprovals\<close> and \<open>compileWorkflow\<close> could raise.
  A run context is the reason it was canceled for, if it was. Metrics, traces and logs are left out.
\<close>

section \<open>State\<close>

record Result =
  rt_RunID :: RunID
  rt_Status :: RunStatus
  rt_Outputs :: "(string, string) gomap"
  rt_Usage :: Usage
  rt_FailureReason :: string

record runState =
  rs_lastAt :: time
  rs_lastEvent :: string
  rs_taskSpawned :: "TaskID \<rightharpoonup> EventID"
  rs_lastInStep :: "StepID \<rightharpoonup> EventID"
  rs_taskActor :: "TaskID \<rightharpoonup> PrincipalID"
  rs_tenant :: TenantID
  rs_cause :: "goerr option" \<comment> \<open>the cause of the run context, once it is canceled\<close>

record 'p Orch =
  o_Store :: MemStore
  o_Book :: "'p AgentBook"
  o_Workflows :: "string \<rightharpoonup> Workflow"
  o_MaxLimits :: Limits
  o_DefaultLimits :: Limits
  o_Owner :: string
  o_Lease :: duration
  o_MaxActiveRuns :: int
  o_MaxQueuedRuns :: int
  o_MaxArtifactBytes :: int
  o_Budget :: BudgetManager
  o_LoopDet :: LoopDetector
  o_runs :: "RunID \<rightharpoonup> runState"
  o_inflight :: int
  o_closing :: bool
  o_capacity :: int
  o_slots :: "int option" \<comment> \<open>the capacity of the channel, once it is made\<close>

record ('p, 're, 'sc) StartRunInput =
  si_TenantID :: TenantID
  si_PrincipalID :: PrincipalID
  si_SessionID :: SessionID
  si_IdempotencyKey :: string
  si_Workflow :: Workflow
  si_Template :: string
  si_Input :: "(string, string) gomap"
  si_Images :: "(string, Image) gomap"
  si_Limits :: Limits
  si_history :: "Message list"
  si_parent :: RunID
  si_agents :: "string \<rightharpoonup> 'p Agent"
  si_reuse :: completedTasks
  si_plan :: "('re, 'sc) plan option"

section \<open>Events\<close>

text \<open>What \<open>emit\<close> reads from the clock and the identifiers it makes.\<close>

record emission =
  em_ID :: EventID
  em_At :: time
  em_OccurredAt :: time
  em_Stamp :: stamp

definition eventOf :: "(string \<rightharpoonup> EventID) \<Rightarrow> string \<Rightarrow> string" where
  "eventOf m k = (case m k of None \<Rightarrow> [] | Some e \<Rightarrow> e)"

text \<open>The section of \<open>emit\<close> under the run's lock.\<close>

definition noteEvent :: "time \<Rightarrow> Event \<Rightarrow> runState \<Rightarrow> runState \<times> Event" where
  "noteEvent now ev st =
    (let st1 = st\<lparr>rs_lastAt := now, rs_lastEvent := ev_Type ev\<rparr>;
         (st2, ev1) =
           (if ev_Type ev = EvTaskSpawned
            then (st1\<lparr>rs_taskSpawned := (rs_taskSpawned st1)(ev_TaskID ev \<mapsto> ev_ID ev)\<rparr>, ev)
            else if ev_TaskID ev \<noteq> []
            then (st1, ev\<lparr>ev_ParentEventID := eventOf (rs_taskSpawned st1) (ev_TaskID ev)\<rparr>)
            else (st1, ev));
         ev2 = (if ev_ActorID ev1 = []
                then ev1\<lparr>ev_ActorID := eventOf (rs_taskActor st2) (ev_TaskID ev1)\<rparr> else ev1)
     in if ev_StepID ev2 \<noteq> []
        then (st2\<lparr>rs_lastInStep := (rs_lastInStep st2)(ev_StepID ev2 :=
                (if ev_Type ev2 = EvModelCompleted \<or> ev_Type ev2 = EvToolCompleted then None
                 else Some (ev_ID ev2)))\<rparr>,
              ev2\<lparr>ev_CausationID := eventOf (rs_lastInStep st2) (ev_StepID ev2)\<rparr>)
        else (st2, ev2))"

definition appendEvent :: "emission \<Rightarrow> Event \<Rightarrow> 'p Orch \<Rightarrow> 'p Orch option" where
  "appendEvent w ev o1 =
    (let ev1 = (if ev_ActorID ev = [] then ev\<lparr>ev_ActorID := SystemPrincipal\<rparr> else ev);
         ev2 = (if ev_OccurredAt ev1 = 0 then ev1\<lparr>ev_OccurredAt := em_OccurredAt w\<rparr> else ev1);
         ev3 = (if ev_CorrelationID ev2 = [] \<and> ev_RunID ev2 \<noteq> []
                then ev2\<lparr>ev_CorrelationID := ev_RunID ev2\<rparr> else ev2)
     in case Append (o_Store o1) [(ev3, em_Stamp w)] of
          None \<Rightarrow> None
        | Some (m, _) \<Rightarrow> Some (o1\<lparr>o_Store := m\<rparr>))"

definition emit :: "emission \<Rightarrow> Event \<Rightarrow> 'p Orch \<Rightarrow> 'p Orch option" where
  "emit w ev0 o1 =
    (let ev = ev0\<lparr>ev_ID := em_ID w\<rparr>
     in case o_runs o1 (ev_RunID ev) of
          None \<Rightarrow> appendEvent w ev o1
        | Some st \<Rightarrow>
            (case noteEvent (em_At w) ev st of (st', ev') \<Rightarrow>
               appendEvent w ev' (o1\<lparr>o_runs := (o_runs o1)(ev_RunID ev \<mapsto> st')\<rparr>)))"

definition setTaskActor :: "RunID \<Rightarrow> TaskID \<Rightarrow> PrincipalID \<Rightarrow> 'p Orch \<Rightarrow> 'p Orch" where
  "setTaskActor rid task actor o1 =
    (case o_runs o1 rid of
       None \<Rightarrow> o1
     | Some st \<Rightarrow> o1\<lparr>o_runs := (o_runs o1)(rid \<mapsto>
         st\<lparr>rs_taskActor := (rs_taskActor st)(task \<mapsto> actor)\<rparr>)\<rparr>)"

definition spawnedEvent :: "RunID \<Rightarrow> TaskID \<Rightarrow> 'p Orch \<Rightarrow> EventID" where
  "spawnedEvent rid task o1 =
    (case o_runs o1 rid of
       None \<Rightarrow> []
     | Some st \<Rightarrow> if task = [] then [] else eventOf (rs_taskSpawned st) task)"

fun statusName :: "RunStatus \<Rightarrow> string" where
  "statusName RunUnset = []"
| "statusName RunQueued = ''queued''"
| "statusName RunRunning = ''running''"
| "statusName RunAwaitingApproval = ''awaiting_approval''"
| "statusName RunPaused = ''paused''"
| "statusName RunCanceling = ''canceling''"
| "statusName RunCanceled = ''canceled''"
| "statusName RunSucceeded = ''succeeded''"
| "statusName RunFailed = ''failed''"
| "statusName RunTimedOut = ''timed_out''"

text \<open>The event that records a run's new status; \<open>key\<close> names the reason.\<close>

definition stateEvent :: "TenantID \<Rightarrow> SessionID \<Rightarrow> RunID \<Rightarrow> PrincipalID \<Rightarrow> RunStatus \<Rightarrow> string \<Rightarrow> string
    \<Rightarrow> Event" where
  "stateEvent tenant session rid actor st key why = Event0\<lparr>ev_TenantID := tenant,
     ev_SessionID := session, ev_RunID := rid, ev_Type := EvRunStateChanged,
     ev_Visibility := VisibilityPublic, ev_ActorID := actor,
     ev_Payload := Some (JObj [(key, JStr why), (''status'', JStr (statusName st))])\<rparr>"

section \<open>Admission\<close>

definition admit :: "bool \<Rightarrow> 'p Orch \<Rightarrow> 'p Orch \<times> goerr option" where
  "admit force o1 =
    (if o_closing o1 then (o1, Some (Errorf ''%w: shutting down'' [Sentinel ErrOverloaded]))
     else
       let o2 = (if o_slots o1 = None \<and> o_MaxActiveRuns o1 > 0
                 then o1\<lparr>o_slots := Some (o_MaxActiveRuns o1),
                         o_capacity := o_MaxActiveRuns o1 + o_MaxQueuedRuns o1\<rparr> else o1)
       in if \<not> force \<and> o_slots o2 \<noteq> None \<and> o_inflight o2 \<ge> o_capacity o2
          then (o2, Some (Errorf ''%w: %d runs executing or queued'' [Sentinel ErrOverloaded]))
          else (o2\<lparr>o_inflight := o_inflight o2 + 1\<rparr>, None))"

definition release :: "'p Orch \<Rightarrow> 'p Orch" where
  "release o1 = o1\<lparr>o_inflight := o_inflight o1 - 1\<rparr>"

definition newRunState :: "time \<Rightarrow> TenantID \<Rightarrow> runState" where
  "newRunState now tenant = \<lparr>rs_lastAt = now, rs_lastEvent = [], rs_taskSpawned = Map.empty,
     rs_lastInStep = Map.empty, rs_taskActor = Map.empty, rs_tenant = tenant, rs_cause = None\<rparr>"

definition claimRun :: "time \<Rightarrow> RunID \<Rightarrow> TenantID \<Rightarrow> 'p Orch \<Rightarrow> goerr + 'p Orch" where
  "claimRun now rid tenant o1 =
    (if o_runs o1 rid \<noteq> None then Inl (Errorf ''run %s is already executing: %w'' [Sentinel ErrConflict])
     else Inr (o1\<lparr>o_runs := (o_runs o1)(rid \<mapsto> newRunState now tenant)\<rparr>))"

definition unclaimRun :: "RunID \<Rightarrow> 'p Orch \<Rightarrow> 'p Orch" where
  "unclaimRun rid o1 = o1\<lparr>o_runs := (o_runs o1)(rid := None)\<rparr>"

section \<open>Preparing a run\<close>

text \<open>What compiles and checks a workflow, and what reads stored JSON.\<close>

record ('p, 're, 'sc) Tooling =
  tl_compileRegexp :: "string \<Rightarrow> goerr + 're"
  tl_compileSchema :: "json \<Rightarrow> goerr + 'sc"
  tl_schemaValidate :: "'sc \<Rightarrow> json \<Rightarrow> goerr option"
  tl_decodeAgent :: "json \<Rightarrow> goerr + 'p Agent"
  tl_encodeWorkflow :: "Workflow \<Rightarrow> raw"
  tl_decodeWorkflow :: "raw \<Rightarrow> goerr + Workflow"
  tl_decodeInput :: "json \<Rightarrow> goerr + (string, string) gomap"

definition checkArtifactSize :: "int \<Rightarrow> nat \<Rightarrow> goerr option" where
  "checkArtifactSize bound n =
    (if bound > 0 \<and> int n > bound
     then Some (new_error ''%s is %d bytes, more than the %d an artifact may hold'') else None)"

text \<open>The agent steps that name an image the input lacks, in the order of the workflow.\<close>

definition lackingImages :: "Workflow \<Rightarrow> (string, Image) gomap \<Rightarrow> string list" where
  "lackingImages w images = concat (map (\<lambda>stage. concat (map (\<lambda>step.
     filter (\<lambda>name. map_of images name = None) (as_Images step)) (sg_Agents stage))) (wf_Stages w))"

definition checkImages :: "int \<Rightarrow> Workflow \<Rightarrow> (string, Image) gomap \<Rightarrow> goerr option" where
  "checkImages bound w images =
    (if lackingImages w images \<noteq> []
     then Some (new_error ''stage %q: agent %s shows image %q, which the run input lacks'')
     else if list_ex (\<lambda>img. checkArtifactSize bound (length (im_Data img)) \<noteq> None) (mvals images)
     then Some (new_error ''%s is %d bytes, more than the %d an artifact may hold'')
     else None)"

text \<open>The workflow a run executes: the one given, or the template named.\<close>

definition chooseWorkflow :: "(string \<rightharpoonup> Workflow) \<Rightarrow> ('p, 're, 'sc) StartRunInput \<Rightarrow> goerr + Workflow" where
  "chooseWorkflow templates i =
    (let w = si_Workflow i
     in if si_Template i = [] then Inr w
        else if wf_Stages w \<noteq> [] \<or> wf_ToolPolicy w \<noteq> None \<or> wf_Name w \<noteq> [] \<or> wf_InputSchema w \<noteq> None
        then Inl (new_error ''give a workflow or a template, not both'')
        else case templates (si_Template i) of
            None \<Rightarrow> Inl (Errorf ''workflow template %q: %w'' [Sentinel ErrNotFound])
          | Some t \<Rightarrow> Inr t)"

text \<open>The run an earlier start with the same idempotency key created, if any.\<close>

definition earlierRun :: "MemStore \<Rightarrow> ('p, 're, 'sc) StartRunInput \<Rightarrow> (goerr + RunID) option" where
  "earlierRun m i =
    (if si_IdempotencyKey i = [] then None
     else case FindByIdempotency m (si_TenantID i) (si_IdempotencyKey i) of
       Inl e \<Rightarrow> None
     | Inr existing \<Rightarrow>
        Some (if ru_SessionID existing \<noteq> si_SessionID i
              then Inl (Errorf ''idempotency key used by a run of another session: %w'' [Sentinel ErrConflict])
              else Inr (ru_ID existing)))"

definition filledInput :: "'p Orch \<Rightarrow> ('p, 're, 'sc) StartRunInput \<Rightarrow> ('p, 're, 'sc) StartRunInput" where
  "filledInput o1 i0 =
    (let i1 = (if si_TenantID i0 = [] then i0\<lparr>si_TenantID := DefaultTenant\<rparr> else i0);
         i2 = (if si_PrincipalID i1 = [] then i1\<lparr>si_PrincipalID := DefaultPrincipal\<rparr> else i1)
     in i2\<lparr>si_Limits := Cap (Defaults (Fill (si_Limits i2) (o_DefaultLimits o1))) (o_MaxLimits o1)\<rparr>)"

text \<open>
  \<open>prepareRun\<close>: the ID of an existing run, empty if there is none, with the filled input. The
  limits are filled after the session was found; without it nothing is returned.
\<close>

definition prepareRun :: "('p, 're, 'sc) Tooling \<Rightarrow> 'p Orch \<Rightarrow> ('p, 're, 'sc) StartRunInput
    \<Rightarrow> (goerr + RunID \<times> ('p, 're, 'sc) StartRunInput) option" where
  "prepareRun T o1 i0 =
    (let i = filledInput o1 i0
     in case GetSession (o_Store o1) (si_TenantID i) (si_SessionID i) of
       Inl e \<Rightarrow> Some (Inl (Errorf ''session: %w'' [e]))
     | Inr _ \<Rightarrow>
     (case earlierRun (o_Store o1) i of
       Some (Inl e) \<Rightarrow> Some (Inl e)
     | Some (Inr rid) \<Rightarrow> Some (Inr (rid, i))
     | None \<Rightarrow>
     (case chooseWorkflow (o_Workflows o1) i of
       Inl e \<Rightarrow> Some (Inl e)
     | Inr w \<Rightarrow>
        let agents = agentsFor (tl_decodeAgent T) (o_Book o1) (o_Store o1) (si_TenantID i)
        in (case compileWorkflow (tl_compileRegexp T) (tl_compileSchema T) w agents of
              None \<Rightarrow> None
            | Some (Inl e) \<Rightarrow> Some (Inl e)
            | Some (Inr p) \<Rightarrow>
               (case checkInput (tl_schemaValidate T) p (si_Input i) of
                  Some e \<Rightarrow> Some (Inl e)
                | None \<Rightarrow>
                   (case checkImages (o_MaxArtifactBytes o1) w (si_Images i) of
                      Some e \<Rightarrow> Some (Inl e)
                    | None \<Rightarrow> Some (Inr ([], i\<lparr>si_Workflow := w, si_agents := agents, si_plan := Some p\<rparr>))))))))"

section \<open>Creating a run\<close>

abbreviation inputImageKind :: string where "inputImageKind \<equiv> ''input_image''"

record creation =
  cn_RunID :: RunID
  cn_Now :: time
  cn_LeaseNow :: time
  cn_Artifact :: "string \<Rightarrow> string \<times> time" \<comment> \<open>ID and time of the artifact of an image\<close>
  cn_ClaimNow :: time
  cn_Emit :: emission

text \<open>A nil input map is not told apart from an empty one.\<close>

definition runRecord :: "('p, 're, 'sc) Tooling \<Rightarrow> creation \<Rightarrow> 'p Orch \<Rightarrow> ('p, 're, 'sc) StartRunInput \<Rightarrow> Run" where
  "runRecord T w o1 i = Run0\<lparr>ru_TenantID := si_TenantID i, ru_SessionID := si_SessionID i,
     ru_Status := RunQueued, ru_Limits := si_Limits i, ru_IdempotencyKey := si_IdempotencyKey i,
     ru_ParentRunID := si_parent i, ru_StartedBy := si_PrincipalID i,
     ru_Workflow := tl_encodeWorkflow T (si_Workflow i), ru_Input := Some (JObj (mmap JStr (si_Input i))),
     ru_Owner := o_Owner o1, ru_LeaseUntil := cn_LeaseNow w + o_Lease o1\<rparr>"

definition putImages :: "creation \<Rightarrow> ('p, 're, 'sc) StartRunInput \<Rightarrow> RunID \<Rightarrow> MemStore \<Rightarrow> MemStore" where
  "putImages w i rid m = foldl (\<lambda>m (name, img). case cn_Artifact w name of (aid, now) \<Rightarrow>
     fst (PutArtifact m (Artifact0\<lparr>ar_TenantID := si_TenantID i, ar_SessionID := si_SessionID i,
       ar_RunID := rid, ar_Kind := inputImageKind, ar_Name := name, ar_MimeType := im_MimeType img,
       ar_Content := im_Data img\<rparr>) aid now)) m (si_Images i)"

text \<open>\<open>launch\<close> up to the start of the goroutine, which the caller's result stands for.\<close>

definition launch :: "creation \<Rightarrow> RunID \<Rightarrow> ('p, 're, 'sc) StartRunInput \<Rightarrow> 'p Orch
    \<Rightarrow> ('p Orch \<times> goerr option) option" where
  "launch w rid i o1 =
    (case claimRun (cn_ClaimNow w) rid (si_TenantID i) o1 of
       Inl e \<Rightarrow> Some (o1, Some e)
     | Inr o2 \<Rightarrow> do {
         o3 \<leftarrow> emit (cn_Emit w) (stateEvent (si_TenantID i) (si_SessionID i) rid (si_PrincipalID i)
                RunQueued ''reason'' ''started'') o2;
         Some (o3, None)
       })"

definition createRun :: "('p, 're, 'sc) Tooling \<Rightarrow> creation \<Rightarrow> 'p Orch \<Rightarrow> ('p, 're, 'sc) StartRunInput
    \<Rightarrow> ('p Orch \<times> (goerr + RunID)) option" where
  "createRun T w o0 i =
    (case admit False o0 of
       (o1, Some e) \<Rightarrow> Some (o1, Inl e)
     | (o1, None) \<Rightarrow>
        (case CreateRun (o_Store o1) (runRecord T w o1 i) (cn_RunID w) (cn_Now w) of
           (m, rid, Some e) \<Rightarrow> Some (release (o1\<lparr>o_Store := m\<rparr>), Inl e)
         | (m, rid, None) \<Rightarrow> do {
             (o2, err) \<leftarrow> launch w rid i (o1\<lparr>o_Store := putImages w i rid m,
                            o_Budget := Budget_Init (o_Budget o1) rid (si_Limits i)\<rparr>);
             (case err of
                Some e \<Rightarrow> Some (release o2, Inl e)
              | None \<Rightarrow> Some (o2, Inr rid))
           }))"

definition StartRun :: "('p, 're, 'sc) Tooling \<Rightarrow> creation \<Rightarrow> 'p Orch \<Rightarrow> ('p, 're, 'sc) StartRunInput
    \<Rightarrow> ('p Orch \<times> (goerr + RunID)) option" where
  "StartRun T w o1 i0 = do {
     r \<leftarrow> prepareRun T o1 i0;
     (case r of
        Inl e \<Rightarrow> Some (o1, Inl e)
      | Inr (existing, i) \<Rightarrow> if existing \<noteq> [] then Some (o1, Inr existing) else createRun T w o1 i)
   }"

end
