(* ===== verification/RunLifecycle.thy ===== *)
theory RunLifecycle
  imports RunStart
begin

text \<open>
  The life of a run after it was created (\<open>runtime/orchestrator.go\<close>): \<open>execute\<close>, from the start of
  its stages to the stored outcome, \<open>resume\<close> and \<open>Recover\<close>, \<open>Cancel\<close>, \<open>Wait\<close> and the renewal of
  leases. What happens in between, \<open>runStages\<close>, is the subject of the theories on stages and tasks;
  here it is the error it returns. \<open>errText\<close> is \<open>err.Error()\<close>.
\<close>

section \<open>Status changes\<close>

definition errorCode :: "goerr \<Rightarrow> string" where
  "errorCode err =
    (if errors_is err CtxCanceled then ''canceled''
     else if errors_is err CtxDeadlineExceeded then ''timed_out''
     else if errors_is err ErrBudgetExceeded then ''budget_exceeded''
     else if errors_is err ErrPolicyDenied then ''policy_denied''
     else if errors_is err ErrUnsupported then ''unsupported_capability''
     else if errors_is err ErrPaused then ''paused''
     else if errors_is err ErrLoopDetected then ''loop_detected''
     else if errors_is err ErrModelCall then ''provider_unavailable''
     else ''failed'')"

text \<open>\<open>recordError\<close> for a whole run, with the field \<open>scope\<close> its caller gives.\<close>

definition errorEvent :: "(goerr \<Rightarrow> string) \<Rightarrow> TenantID \<Rightarrow> SessionID \<Rightarrow> RunID \<Rightarrow> goerr \<Rightarrow> Event" where
  "errorEvent errText tenant session rid err = Event0\<lparr>ev_TenantID := tenant, ev_SessionID := session,
     ev_RunID := rid, ev_Type := EvError, ev_Visibility := VisibilityParticipant,
     ev_Payload := Some (JObj [(''code'', JStr (errorCode err)), (''message'', JStr (errText err)),
       (''scope'', JStr ''run'')])\<rparr>"

definition transitionRun :: "emission \<Rightarrow> time \<Rightarrow> RunID \<Rightarrow> TenantID \<Rightarrow> RunStatus \<Rightarrow> string \<Rightarrow> 'p Orch
    \<Rightarrow> 'p Orch option" where
  "transitionRun w now rid tenant st reason o1 =
    (case GetRun (o_Store o1) tenant rid of
       Inl e \<Rightarrow> Some o1
     | Inr r \<Rightarrow> emit w (stateEvent tenant (ru_SessionID r) rid [] st ''reason'' reason)
         (o1\<lparr>o_Store := fst (UpdateRunStatus (o_Store o1) tenant rid st reason now)\<rparr>))"

definition finishCanceled :: "emission \<Rightarrow> time \<Rightarrow> Run \<Rightarrow> string \<Rightarrow> 'p Orch
    \<Rightarrow> ('p Orch \<times> goerr option) option" where
  "finishCanceled w now r reason o1 =
    (case UpdateRun (o_Store o1) (r\<lparr>ru_Status := RunCanceled, ru_FailureReason := reason, ru_EndedAt := now\<rparr>) of
       (m, Some e) \<Rightarrow> Some (o1\<lparr>o_Store := m\<rparr>, Some e)
     | (m, None) \<Rightarrow> do {
         o2 \<leftarrow> emit w (stateEvent (ru_TenantID r) (ru_SessionID r) (ru_ID r) [] RunCanceled
                ''failure_reason'' reason) (o1\<lparr>o_Store := m\<rparr>);
         Some (o2, None)
       })"

section \<open>Executing\<close>

text \<open>
  The beginning of \<open>execute\<close>: \<open>ended\<close> says that the context is over, \<open>history\<close> is what
  \<open>sessionHistory\<close> returns. Either the run has its outcome, or its stages run with the history.
\<close>

type_synonym run_end = "RunStatus \<times> string \<times> goerr option"

definition beginRun :: "(goerr \<Rightarrow> string) \<Rightarrow> emission \<Rightarrow> time \<Rightarrow> bool \<Rightarrow> goerr + Message list \<Rightarrow> RunID
    \<Rightarrow> TenantID \<Rightarrow> 'p Orch \<Rightarrow> ('p Orch \<times> (run_end + Message list)) option" where
  "beginRun errText w now ended history rid tenant o1 =
    (if ended then Some (o1, Inl (RunCanceled, ''canceled while queued'', None))
     else do {
       o2 \<leftarrow> transitionRun w now rid tenant RunRunning [] o1;
       (case history of
          Inl e \<Rightarrow> Some (o2, Inl (RunFailed, ''session history: '' @ errText e,
                     Some (Errorf ''session history: %w'' [e])))
        | Inr h \<Rightarrow> Some (o2, Inr h))
     })"

text \<open>The outcome of a run whose stages returned \<open>err\<close>; \<open>ctxErr\<close> is \<open>ctx.Err()\<close> then.\<close>

definition runOutcome :: "(goerr \<Rightarrow> string) \<Rightarrow> goerr option \<Rightarrow> goerr option \<Rightarrow> run_end" where
  "runOutcome errText ctxErr err =
    (case err of
       None \<Rightarrow> (RunSucceeded, [], None)
     | Some e \<Rightarrow>
        if errors_is e ErrPaused then (RunPaused, errText e, err)
        else if errors_is e CtxCanceled then (RunCanceled, ''canceled'', err)
        else if errors_is e CtxDeadlineExceeded
        then (RunTimedOut, if ctxErr = None then errText e else ''deadline exceeded'', err)
        else (RunFailed, errText e, err))"

text \<open>\<open>stillLeased\<close> once the renewals have stopped; \<open>lost\<close> is whether one of them lost the lease.\<close>

definition stillLeased :: "time \<Rightarrow> bool \<Rightarrow> RunID \<Rightarrow> 'p Orch \<Rightarrow> 'p Orch \<times> bool" where
  "stillLeased now lost rid o1 =
    (if lost then (o1, False)
     else case RenewLeases (o_Store o1) (o_Owner o1) [(rid, now)] (o_Lease o1) Map.empty of
       (m, kept) \<Rightarrow> (o1\<lparr>o_Store := m\<rparr>, kept rid \<noteq> None))"

definition releaseLease :: "RunID \<Rightarrow> 'p Orch \<Rightarrow> 'p Orch" where
  "releaseLease rid o1 = o1\<lparr>o_Store := ReleaseRun (o_Store o1) rid (o_Owner o1)\<rparr>"

definition dropCounters :: "RunID \<Rightarrow> 'p Orch \<Rightarrow> 'p Orch" where
  "dropCounters rid o1 = o1\<lparr>o_LoopDet := Reset (o_LoopDet o1) rid, o_Budget := Forget (o_Budget o1) rid\<rparr>"

record ending =
  en_RenewNow :: time
  en_Elapsed :: duration
  en_EndedAt :: time
  en_Cause :: "goerr option" \<comment> \<open>\<open>context.Cause(ctx)\<close>\<close>
  en_ErrEmit :: emission
  en_Emit :: emission

definition causeIs :: "goerr option \<Rightarrow> sentinel \<Rightarrow> bool" where
  "causeIs c s = (case c of None \<Rightarrow> False | Some e \<Rightarrow> errors_is e s)"

definition finalUsage :: "ending \<Rightarrow> RunID \<Rightarrow> 'p Orch \<Rightarrow> Usage" where
  "finalUsage w rid o1 = (let u = Snapshot (o_Budget o1) rid in u\<lparr>Runtime := add64 (Runtime u) (en_Elapsed w)\<rparr>)"

text \<open>The final write, and whether it succeeded.\<close>

definition storeOutcome :: "ending \<Rightarrow> RunID \<Rightarrow> TenantID \<Rightarrow> (string, string) gomap \<Rightarrow> RunStatus \<Rightarrow> string
    \<Rightarrow> Usage \<Rightarrow> MemStore \<Rightarrow> MemStore \<times> bool" where
  "storeOutcome w rid tenant outputs st reason usage m =
    (case GetRun m tenant rid of
       Inl e \<Rightarrow> (m, False)
     | Inr cur \<Rightarrow>
        let r1 = cur\<lparr>ru_Status := st, ru_Usage := usage, ru_FailureReason := reason\<rparr>;
            r2 = (if st \<noteq> RunPaused then r1\<lparr>ru_EndedAt := en_EndedAt w\<rparr> else r1)
        in (case UpdateRun m (r2\<lparr>ru_Output := Some (JObj (mmap JStr outputs))\<rparr>) of
              (m', err) \<Rightarrow> (m', err = None)))"

text \<open>
  The end of \<open>execute\<close>, up to the point where the run leaves \<open>o.runs\<close>: whether it leaves, and the
  result \<open>Wait\<close> gets. A run whose lease is lost, or that \<open>Shutdown\<close> stopped, gets no final status.
\<close>

definition endRun :: "(goerr \<Rightarrow> string) \<Rightarrow> ending \<Rightarrow> RunID \<Rightarrow> TenantID \<Rightarrow> SessionID
    \<Rightarrow> (string, string) gomap \<Rightarrow> run_end \<Rightarrow> 'p Orch \<Rightarrow> ('p Orch \<times> bool \<times> Result option) option" where
  "endRun errText w rid tenant session outputs = (\<lambda>(st, reason, err) o0.
    let usage = finalUsage w rid o0;
        (o1, held) = stillLeased (en_RenewNow w) (causeIs (en_Cause w) ErrLeaseLost) rid o0
    in if \<not> held \<or> st = RunCanceled \<and> causeIs (en_Cause w) ErrShutdown
       then let o2 = (if held then releaseLease rid
                  (o1\<lparr>o_Store := fst (UpdateRunUsage (o_Store o1) tenant rid usage)\<rparr>) else o1)
            in Some (dropCounters rid o2, True, None)
       else case storeOutcome w rid tenant outputs st reason usage (o_Store o1) of
         (m, stored) \<Rightarrow> do {
           o2 \<leftarrow> (if st = RunFailed \<or> st = RunTimedOut
                 then emit (en_ErrEmit w) (errorEvent errText tenant session rid
                        (case err of Some e \<Rightarrow> e | None \<Rightarrow> new_error reason)) (o1\<lparr>o_Store := m\<rparr>)
                 else Some (o1\<lparr>o_Store := m\<rparr>));
           o3 \<leftarrow> emit (en_Emit w) (stateEvent tenant session rid [] st ''failure_reason'' reason) o2;
           Some (releaseLease rid (dropCounters rid o3), stored,
             Some \<lparr>rt_RunID = rid, rt_Status = st, rt_Outputs = outputs, rt_Usage = usage,
                   rt_FailureReason = reason\<rparr>)
         })"

text \<open>\<open>delete(o.runs, runID)\<close>.\<close>

definition leaveRuns :: "RunID \<Rightarrow> 'p Orch \<Rightarrow> 'p Orch" where
  "leaveRuns rid o1 = o1\<lparr>o_runs := (o_runs o1)(rid := None)\<rparr>"

section \<open>Leases\<close>

text \<open>The first cancellation of a context gives its cause.\<close>

definition cancelContext :: "RunID \<Rightarrow> goerr \<Rightarrow> 'p Orch \<Rightarrow> 'p Orch" where
  "cancelContext rid why o1 =
    (case o_runs o1 rid of
       None \<Rightarrow> o1
     | Some st \<Rightarrow> o1\<lparr>o_runs := (o_runs o1)(rid \<mapsto>
         st\<lparr>rs_cause := (case rs_cause st of None \<Rightarrow> Some why | Some e \<Rightarrow> Some e)\<rparr>)\<rparr>)"

text \<open>One renewal by \<open>keepLease\<close>, and whether it goes on.\<close>

definition renewOnce :: "time \<Rightarrow> RunID \<Rightarrow> 'p Orch \<Rightarrow> 'p Orch \<times> bool" where
  "renewOnce now rid o1 =
    (case RenewLeases (o_Store o1) (o_Owner o1) [(rid, now)] (o_Lease o1) Map.empty of
       (m, kept) \<Rightarrow>
         let o2 = o1\<lparr>o_Store := m\<rparr>
         in (case kept rid of
               None \<Rightarrow> (cancelContext rid (Sentinel ErrLeaseLost) o2, False)
             | Some asked \<Rightarrow> (if asked then cancelContext rid (Sentinel CtxCanceled) o2 else o2, True)))"

section \<open>Resuming\<close>

text \<open>The images a run was started with are the input images among its artifacts.\<close>

definition imagesOf :: "Artifact list \<Rightarrow> (string, Image) gomap" where
  "imagesOf arts = foldl (\<lambda>images a.
     if ar_Kind a = inputImageKind \<and> ar_Producer a = []
     then mput (ar_Name a) \<lparr>im_MimeType = ar_MimeType a, im_Data = ar_Content a\<rparr> images
     else images) [] arts"

definition storedInput :: "('p, 're, 'sc) Tooling \<Rightarrow> 'p Orch \<Rightarrow> Run
    \<Rightarrow> (goerr + ('p, 're, 'sc) StartRunInput) option" where
  "storedInput T o1 r =
    (case tl_decodeWorkflow T (ru_Workflow r) of
       Inl e \<Rightarrow> Some (Inl (Errorf ''stored workflow: %w'' [e]))
     | Inr w \<Rightarrow>
     (case (case ru_Input r of None \<Rightarrow> Inr [] | Some doc \<Rightarrow> tl_decodeInput T doc) of
       Inl e \<Rightarrow> Some (Inl (Errorf ''stored input: %w'' [e]))
     | Inr input \<Rightarrow>
        let agents = agentsFor (tl_decodeAgent T) (o_Book o1) (o_Store o1) (ru_TenantID r)
        in (case compileWorkflow (tl_compileRegexp T) (tl_compileSchema T) w agents of
              None \<Rightarrow> None
            | Some (Inl e) \<Rightarrow> Some (Inl (Errorf ''stored workflow: %w'' [e]))
            | Some (Inr p) \<Rightarrow> Some (Inr
                \<lparr>si_TenantID = ru_TenantID r, si_PrincipalID = [], si_SessionID = ru_SessionID r,
                 si_IdempotencyKey = [], si_Workflow = w, si_Template = [], si_Input = input,
                 si_Images = imagesOf (ListRunArtifacts (o_Store o1) (ru_TenantID r) (ru_ID r)),
                 si_Limits = ru_Limits r, si_history = [], si_parent = [], si_agents = agents,
                 si_reuse = None, si_plan = Some p\<rparr>))))"

record resumption =
  rz_ClaimNow :: time
  rz_Now1 :: time                     \<comment> \<open>the two readings of \<open>ClaimRun\<close>\<close>
  rz_Now2 :: time
  rz_TaskNow :: "TaskID \<Rightarrow> time"
  rz_ApprovalNow :: time
  rz_EndedAt :: time
  rz_StateEmit :: emission
  rz_Emit :: emission

definition resumedEvent :: "Run \<Rightarrow> PrincipalID \<Rightarrow> nat \<Rightarrow> Event" where
  "resumedEvent r by_id reused = Event0\<lparr>ev_TenantID := ru_TenantID r, ev_SessionID := ru_SessionID r,
     ev_RunID := ru_ID r, ev_Type := EvSystem, ev_Visibility := VisibilityInternal, ev_ActorID := by_id,
     ev_Payload := Some (JObj [(''event'', JStr ''run_resumed''),
       (''from_status'', JStr (statusName (ru_Status r))), (''reused_tasks'', JNum (of_nat reused))])\<rparr>"

text \<open>A terminal or paused run is queued again.\<close>

definition reopenRun :: "resumption \<Rightarrow> PrincipalID \<Rightarrow> Run \<Rightarrow> 'p Orch \<Rightarrow> ('p Orch \<times> goerr option) option" where
  "reopenRun w by_id r o1 =
    (if Terminal (ru_Status r) \<or> ru_Status r = RunPaused
     then (case UpdateRun (o_Store o1) (r\<lparr>ru_Status := RunQueued, ru_FailureReason := [], ru_EndedAt := 0\<rparr>) of
         (m, Some e) \<Rightarrow> Some (release (o1\<lparr>o_Store := m\<rparr>), Some e)
       | (m, None) \<Rightarrow> do {
           o2 \<leftarrow> emit (rz_StateEmit w) (stateEvent (ru_TenantID r) (ru_SessionID r) (ru_ID r) by_id
                  RunQueued ''reason'' ''resumed'') (o1\<lparr>o_Store := m\<rparr>);
           Some (o2, None)
         })
     else Some (o1, None))"

definition restoreBudget :: "Run \<Rightarrow> nat \<Rightarrow> 'p Orch \<Rightarrow> 'p Orch" where
  "restoreBudget r attempted o1 =
    (let usage = (ru_Usage r)\<lparr>SubAgents := int attempted\<rparr>
     in o1\<lparr>o_Budget := fst (Commit (Budget_Init (o_Budget o1) (ru_ID r) (ru_Limits r)) (ru_ID r) usage)\<rparr>)"

text \<open>\<open>resume\<close> from the admission on.\<close>

definition resumeAdmitted :: "resumption \<Rightarrow> Run \<Rightarrow> PrincipalID \<Rightarrow> bool \<Rightarrow> ('p, 're, 'sc) StartRunInput
    \<Rightarrow> nat \<Rightarrow> nat \<Rightarrow> 'p Orch \<Rightarrow> ('p Orch \<times> (goerr + ('p, 're, 'sc) StartRunInput option)) option" where
  "resumeAdmitted w r by_id force i reused attempted o1 =
     (case admit force o1 of
        (o2, Some e) \<Rightarrow> Some (o2, Inl e)
      | (o2, None) \<Rightarrow> do {
          (o3, err) \<leftarrow> reopenRun w by_id r o2;
          (case err of
             Some e \<Rightarrow> Some (o3, Inl e)
           | None \<Rightarrow> do {
               o4 \<leftarrow> emit (rz_Emit w) (resumedEvent r by_id reused) (restoreBudget r attempted o3);
               Some (o4, Inr (Some i))
             })
        })"

text \<open>
  \<open>resume\<close> while the run's lease is held: an error, \<open>None\<close> when the run was only canceled, or the
  input the goroutine goes on with.
\<close>

definition resumeHeld :: "('p, 're, 'sc) Tooling \<Rightarrow> resumption \<Rightarrow> Run \<Rightarrow> PrincipalID \<Rightarrow> bool \<Rightarrow> 'p Orch
    \<Rightarrow> ('p Orch \<times> (goerr + ('p, 're, 'sc) StartRunInput option)) option" where
  "resumeHeld T w r by_id force o1 = do {
     stored \<leftarrow> storedInput T o1 r;
     (case stored of
        Inl e \<Rightarrow> Some (o1, Inl e)
      | Inr i \<Rightarrow>
      (case reconcileTasks (rz_TaskNow w) (o_Store o1) r of
        (m, Inl e) \<Rightarrow> Some (o1\<lparr>o_Store := m\<rparr>, Inl e)
      | (m, Inr (reuse, attempted)) \<Rightarrow> do {
          m' \<leftarrow> CancelRunApprovals m (ru_TenantID r) (ru_ID r) (rz_ApprovalNow w);
          (if ru_CancelRequested r
           then do {
             (o2, err) \<leftarrow> finishCanceled (rz_Emit w) (rz_EndedAt w) r
                            ''canceled while no process executed it'' (o1\<lparr>o_Store := m'\<rparr>);
             Some (o2, case err of Some e \<Rightarrow> Inl e | None \<Rightarrow> Inr None)
           }
           else resumeAdmitted w r by_id force (i\<lparr>si_reuse := Some reuse\<rparr>) (count_outputs reuse) attempted
                  (o1\<lparr>o_Store := m'\<rparr>))
        }))
   }"

text \<open>\<open>resume\<close> after \<open>claim\<close>, with the deferred release of the lease.\<close>

definition resumeClaimed :: "('p, 're, 'sc) Tooling \<Rightarrow> resumption \<Rightarrow> TenantID \<Rightarrow> RunID \<Rightarrow> PrincipalID \<Rightarrow> bool
    \<Rightarrow> 'p Orch \<Rightarrow> ('p Orch \<times> (goerr + ('p, 're, 'sc) StartRunInput option)) option" where
  "resumeClaimed T w tenant rid by_id force o1 =
    (case GetRun (o_Store o1) tenant rid of
       Inl e \<Rightarrow> Some (o1, Inl e)
     | Inr r \<Rightarrow>
        if ru_Status r = RunSucceeded \<or> ru_Status r = RunCanceled
        then Some (o1, Inl (Errorf ''run %s already %s: %w'' [Sentinel ErrConflict]))
        else (case ClaimRun (o_Store o1) tenant rid (o_Owner o1) (o_Lease o1) (rz_Now1 w) (rz_Now2 w) of
            (m, Some e) \<Rightarrow> Some (o1\<lparr>o_Store := m\<rparr>, Inl e)
          | (m, None) \<Rightarrow> do {
              (o2, res) \<leftarrow> resumeHeld T w r by_id force (o1\<lparr>o_Store := m\<rparr>);
              Some (case res of Inr (Some i) \<Rightarrow> (o2, res) | _ \<Rightarrow> (releaseLease rid o2, res))
            }))"

definition resume :: "('p, 're, 'sc) Tooling \<Rightarrow> resumption \<Rightarrow> TenantID \<Rightarrow> RunID \<Rightarrow> PrincipalID \<Rightarrow> bool
    \<Rightarrow> 'p Orch \<Rightarrow> ('p Orch \<times> (goerr + ('p, 're, 'sc) StartRunInput option)) option" where
  "resume T w tenant rid by_id force o0 =
    (case claimRun (rz_ClaimNow w) rid tenant o0 of
       Inl e \<Rightarrow> Some (o0, Inl e)
     | Inr o1 \<Rightarrow> do {
         (o2, res) \<leftarrow> resumeClaimed T w tenant rid by_id force o1;
         Some (case res of Inr (Some i) \<Rightarrow> (o2, res) | _ \<Rightarrow> (unclaimRun rid o2, res))
       })"

definition Resume :: "('p, 're, 'sc) Tooling \<Rightarrow> resumption \<Rightarrow> TenantID \<Rightarrow> RunID \<Rightarrow> PrincipalID \<Rightarrow> 'p Orch
    \<Rightarrow> ('p Orch \<times> (goerr + ('p, 're, 'sc) StartRunInput option)) option" where
  "Resume T w tenant rid by_id o0 = resume T w tenant rid by_id False o0"

text \<open>The loop of \<open>Recover\<close>: the number of runs resumed and the errors met.\<close>

fun recoverLoop :: "('p, 're, 'sc) Tooling \<Rightarrow> (RunID \<Rightarrow> resumption) \<Rightarrow> Run list \<Rightarrow> nat \<Rightarrow> goerr list
    \<Rightarrow> 'p Orch \<Rightarrow> ('p Orch \<times> nat \<times> goerr list) option" where
  "recoverLoop T w [] n errs o1 = Some (o1, n, errs)"
| "recoverLoop T w (r # rs) n errs o1 =
     (if ru_Status r = RunPaused then recoverLoop T w rs n errs o1
      else do {
        (o2, res) \<leftarrow> resume T (w (ru_ID r)) (ru_TenantID r) (ru_ID r) SystemPrincipal True o1;
        (case res of
           Inl e \<Rightarrow>
             if errors_is e ErrConflict then recoverLoop T w rs n errs o2
             else recoverLoop T w rs n (errs @ [Errorf ''run %s: %w'' [e]]) o2
         | Inr _ \<Rightarrow> recoverLoop T w rs (Suc n) errs o2)
      })"

definition Recover :: "('p, 're, 'sc) Tooling \<Rightarrow> (RunID \<Rightarrow> resumption) \<Rightarrow> 'p Orch
    \<Rightarrow> ('p Orch \<times> nat \<times> goerr list) option" where
  "Recover T w o1 = recoverLoop T w (ListUnfinishedRuns (o_Store o1)) 0 [] o1"

section \<open>Canceling\<close>

definition cancelEvent :: "TenantID \<Rightarrow> SessionID \<Rightarrow> RunID \<Rightarrow> PrincipalID \<Rightarrow> string \<Rightarrow> Event" where
  "cancelEvent tenant session rid by_id reason = Event0\<lparr>ev_TenantID := tenant, ev_SessionID := session,
     ev_RunID := rid, ev_Type := EvSystem, ev_Visibility := VisibilityAudit, ev_ActorID := by_id,
     ev_Payload := Some (JObj [(''event'', JStr ''run_cancel_requested''), (''reason'', JStr reason)])\<rparr>"

record cancellation =
  ca_ClaimNow :: time
  ca_Now1 :: time
  ca_Now2 :: time
  ca_EndedAt :: time
  ca_Emit :: emission
  ca_StateEmit :: emission

text \<open>\<open>cancelPaused\<close> while it holds the run's claim and lease.\<close>

definition cancelHeld :: "cancellation \<Rightarrow> TenantID \<Rightarrow> RunID \<Rightarrow> PrincipalID \<Rightarrow> string \<Rightarrow> 'p Orch
    \<Rightarrow> ('p Orch \<times> goerr option) option" where
  "cancelHeld w tenant rid by_id reason o1 =
    (case GetRun (o_Store o1) tenant rid of
       Inl e \<Rightarrow> Some (o1, Some e)
     | Inr r \<Rightarrow>
        if ru_Status r \<noteq> RunPaused
        then Some (o1, Some (Errorf ''run %s is %s, no longer paused: %w'' [Sentinel ErrConflict]))
        else do {
          o2 \<leftarrow> emit (ca_Emit w) (cancelEvent tenant (ru_SessionID r) rid by_id reason) o1;
          (case UpdateRun (o_Store o2) (r\<lparr>ru_Status := RunCanceled,
                  ru_FailureReason := ''canceled while paused'', ru_EndedAt := ca_EndedAt w\<rparr>) of
             (m, Some e) \<Rightarrow> Some (o2\<lparr>o_Store := m\<rparr>, Some e)
           | (m, None) \<Rightarrow> do {
               o3 \<leftarrow> emit (ca_StateEmit w) (stateEvent tenant (ru_SessionID r) rid by_id RunCanceled
                      ''failure_reason'' ''canceled while paused'') (o2\<lparr>o_Store := m\<rparr>);
               Some (o3, None)
             })
        })"

definition cancelPaused :: "cancellation \<Rightarrow> TenantID \<Rightarrow> RunID \<Rightarrow> PrincipalID \<Rightarrow> string \<Rightarrow> 'p Orch
    \<Rightarrow> ('p Orch \<times> goerr option) option" where
  "cancelPaused w tenant rid by_id reason o0 =
    (case claimRun (ca_ClaimNow w) rid tenant o0 of
       Inl e \<Rightarrow> Some (o0, Some e)
     | Inr o1 \<Rightarrow>
        (case ClaimRun (o_Store o1) tenant rid (o_Owner o1) (o_Lease o1) (ca_Now1 w) (ca_Now2 w) of
           (m, Some e) \<Rightarrow> Some (unclaimRun rid (o1\<lparr>o_Store := m\<rparr>), Some e)
         | (m, None) \<Rightarrow> do {
             (o2, err) \<leftarrow> cancelHeld w tenant rid by_id reason (o1\<lparr>o_Store := m\<rparr>);
             Some (unclaimRun rid (releaseLease rid o2), err)
           }))"

definition alreadyEnded :: goerr where
  "alreadyEnded = Errorf ''run %s already %s: %w'' [Sentinel ErrConflict]"

text \<open>\<open>Cancel\<close> of a run this process executes, and of one it does not.\<close>

definition cancelHere :: "cancellation \<Rightarrow> TenantID \<Rightarrow> RunID \<Rightarrow> PrincipalID \<Rightarrow> string \<Rightarrow> 'p Orch
    \<Rightarrow> ('p Orch \<times> goerr option) option" where
  "cancelHere w tenant rid by_id reason o1 =
    (case GetRun (o_Store o1) tenant rid of
       Inl e \<Rightarrow> Some (o1, Some e)
     | Inr r \<Rightarrow>
        if Terminal (ru_Status r) then Some (o1, Some alreadyEnded)
        else do {
          o2 \<leftarrow> emit (ca_Emit w) (cancelEvent tenant (ru_SessionID r) rid by_id reason) o1;
          (case RequestCancel (o_Store o2) tenant rid of
             (m, err) \<Rightarrow> Some ((cancelContext rid (Sentinel CtxCanceled) o2)\<lparr>o_Store := m\<rparr>, err))
        })"

definition requestCancel :: "cancellation \<Rightarrow> TenantID \<Rightarrow> RunID \<Rightarrow> Run \<Rightarrow> PrincipalID \<Rightarrow> string \<Rightarrow> 'p Orch
    \<Rightarrow> ('p Orch \<times> goerr option) option" where
  "requestCancel w tenant rid r by_id reason o1 =
    (case RequestCancel (o_Store o1) tenant rid of
       (m, Some e) \<Rightarrow> Some (o1\<lparr>o_Store := m\<rparr>, Some e)
     | (m, None) \<Rightarrow> do {
         o2 \<leftarrow> emit (ca_Emit w) (cancelEvent tenant (ru_SessionID r) rid by_id reason) (o1\<lparr>o_Store := m\<rparr>);
         Some (o2, None)
       })"

definition cancelElsewhere :: "cancellation \<Rightarrow> TenantID \<Rightarrow> RunID \<Rightarrow> PrincipalID \<Rightarrow> string \<Rightarrow> 'p Orch
    \<Rightarrow> ('p Orch \<times> goerr option) option" where
  "cancelElsewhere w tenant rid by_id reason o1 =
    (case GetRun (o_Store o1) tenant rid of
       Inl e \<Rightarrow> Some (o1, Some e)
     | Inr r \<Rightarrow>
        if Terminal (ru_Status r) then Some (o1, Some alreadyEnded)
        else if ru_Status r = RunPaused
        then do {
          (o2, err) \<leftarrow> cancelPaused w tenant rid by_id reason o1;
          (if causeIs err ErrConflict then requestCancel w tenant rid r by_id reason o2 else Some (o2, err))
        }
        else requestCancel w tenant rid r by_id reason o1)"

definition Cancel :: "cancellation \<Rightarrow> TenantID \<Rightarrow> RunID \<Rightarrow> PrincipalID \<Rightarrow> string \<Rightarrow> 'p Orch
    \<Rightarrow> ('p Orch \<times> goerr option) option" where
  "Cancel w tenant rid by_id reason o1 =
    (case o_runs o1 rid of
       None \<Rightarrow> cancelElsewhere w tenant rid by_id reason o1
     | Some st \<Rightarrow> if rs_tenant st = tenant then cancelHere w tenant rid by_id reason o1
                  else cancelElsewhere w tenant rid by_id reason o1)"

section \<open>Waiting\<close>

definition runError :: "RunStatus \<Rightarrow> string \<Rightarrow> goerr option" where
  "runError st reason =
    (case st of
       RunSucceeded \<Rightarrow> None
     | RunCanceled \<Rightarrow> Some (Errorf ''%s: %w'' [Sentinel CtxCanceled])
     | RunTimedOut \<Rightarrow> Some (Errorf ''%s: %w'' [Sentinel CtxDeadlineExceeded])
     | _ \<Rightarrow> Some (new_error reason))"

definition storedResult :: "('p, 're, 'sc) Tooling \<Rightarrow> MemStore \<Rightarrow> TenantID \<Rightarrow> RunID
    \<Rightarrow> goerr + (Result \<times> goerr option)" where
  "storedResult T m tenant rid =
    (case GetRun m tenant rid of
       Inl e \<Rightarrow> Inl e
     | Inr r \<Rightarrow>
        if \<not> Terminal (ru_Status r) \<and> ru_Status r \<noteq> RunPaused
        then Inl (Errorf ''run %s is %s but not executing here: %w'' [Sentinel ErrNotFound])
        else (case (case ru_Output r of None \<Rightarrow> Inr [] | Some doc \<Rightarrow> tl_decodeInput T doc) of
            Inl e \<Rightarrow> Inl (Errorf ''run %s output: %w'' [e])
          | Inr outputs \<Rightarrow> Inr (\<lparr>rt_RunID = rid, rt_Status = ru_Status r, rt_Outputs = outputs,
                rt_Usage = ru_Usage r, rt_FailureReason = ru_FailureReason r\<rparr>,
              runError (ru_Status r) (ru_FailureReason r))))"

text \<open>
  \<open>Wait\<close>: \<open>waitFor\<close> is the state it waits on, if any; \<open>waitDone\<close> its answer when the run's \<open>done\<close>
  channel is closed, with the result \<open>execute\<close> left.
\<close>

definition waitFor :: "TenantID \<Rightarrow> RunID \<Rightarrow> 'p Orch \<Rightarrow> runState option" where
  "waitFor tenant rid o1 =
    (case o_runs o1 rid of None \<Rightarrow> None | Some st \<Rightarrow> if rs_tenant st \<noteq> tenant then None else Some st)"

definition waitDone :: "('p, 're, 'sc) Tooling \<Rightarrow> MemStore \<Rightarrow> TenantID \<Rightarrow> RunID \<Rightarrow> Result option
    \<Rightarrow> goerr + (Result \<times> goerr option)" where
  "waitDone T m tenant rid result =
    (case result of
       None \<Rightarrow> storedResult T m tenant rid
     | Some r \<Rightarrow> Inr (r, runError (rt_Status r) (rt_FailureReason r)))"

section \<open>Replaying\<close>

text \<open>
  \<open>json.Unmarshal\<close> of a payload into a struct with the one field \<open>status\<close>, its error ignored: a
  member of another type leaves the field as it is.
\<close>

definition statusField :: "raw \<Rightarrow> string" where
  "statusField r =
    (case r of
       Some (JObj fs) \<Rightarrow> foldl (\<lambda>acc (k, v). if EqualFold k ''status''
           then (case v of JStr t \<Rightarrow> t | _ \<Rightarrow> acc) else acc) [] fs
     | _ \<Rightarrow> [])"

text \<open>The loop of \<open>Replay\<close>, from the last sequence number and status read; a status is a string.\<close>

fun replayEvents :: "int \<Rightarrow> string \<Rightarrow> Event list \<Rightarrow> goerr + string" where
  "replayEvents lastSeq st [] = Inr st"
| "replayEvents lastSeq st (ev # evs) =
     (if ev_Sequence ev \<le> lastSeq then Inl (new_error ''replay: non-monotonic sequence in stored events'')
      else if ev_Type ev = EvRunStateChanged \<and> statusField (ev_Payload ev) \<noteq> []
      then replayEvents (ev_Sequence ev) (statusField (ev_Payload ev)) evs
      else replayEvents (ev_Sequence ev) st evs)"

text \<open>
  \<open>Replay\<close> returns the run's ID, status, usage and failure reason, and no outputs. The error of a
  mismatch comes with the status replayed, which the model leaves out.
\<close>

definition Replay :: "MemStore \<Rightarrow> TenantID \<Rightarrow> RunID \<Rightarrow> goerr + Result" where
  "Replay m tenant rid =
    (let events = ListRunEvents m tenant rid 0 0
     in if events = [] then Inl (Sentinel ErrNotFound)
        else case GetRun m tenant rid of
          Inl e \<Rightarrow> Inl e
        | Inr r \<Rightarrow>
           (case replayEvents 0 (statusName RunQueued) events of
              Inl e \<Rightarrow> Inl e
            | Inr st \<Rightarrow>
                if st \<noteq> statusName (ru_Status r)
                then Inl (new_error ''replay: terminal status mismatch with stored run'')
                else Inr \<lparr>rt_RunID = rid, rt_Status = ru_Status r, rt_Outputs = [],
                       rt_Usage = ru_Usage r, rt_FailureReason = ru_FailureReason r\<rparr>))"

end
