(* ===== verification/ToolUse.thy ===== *)
theory ToolUse
  imports RunLifecycle LoopResponse
begin

text \<open>
  One tool call of an agent (\<open>runtime/orchestrator.go\<close>): \<open>executeWithRetries\<close>, \<open>storeArtifacts\<close>,
  \<open>toolFailed\<close> and \<open>invokeTool\<close>.

  The state \<open>CallState\<close> holds what a call changes: the store, the budget manager, the loop detector,
  the events handed to \<open>emit\<close>, the last first, and the executions of tools, the last first. What the
  world decides comes in records: \<open>AttemptWorld\<close> for one execution with the wait after it,
  \<open>InvokeWorld\<close> for a whole call. Executors are values of a type variable; what one returns is part
  of the world, so it may do anything. The fields of a Go map that becomes JSON are listed in the
  order the code gives. Secrets, spans and metrics are left out.
\<close>

section \<open>Calls and results\<close>

record Call =
  cl_TenantID :: TenantID
  cl_RunID :: RunID
  cl_TaskID :: TaskID
  cl_StepID :: StepID
  cl_Tool :: ToolDefinition
  cl_Input :: raw
  cl_IdempotencyKey :: string

text \<open>\<open>tool.Artifact\<close> and \<open>tool.Result\<close>.\<close>

record Produced =
  pa_Name :: string
  pa_Kind :: string
  pa_MimeType :: string
  pa_Content :: string
  pa_Metadata :: metadata

record ToolResult =
  tr_Output :: raw
  tr_Metadata :: metadata
  tr_Artifacts :: "Produced list"
  tr_CostUnits :: int

definition ToolResult0 :: ToolResult where
  "ToolResult0 = \<lparr>tr_Output = None, tr_Metadata = [], tr_Artifacts = [], tr_CostUnits = 0\<rparr>"

text \<open>What an executor does: return, or panic with a value's text.\<close>

datatype outcome = Returned ToolResult "goerr option" | Panicked string

definition safeExecute :: "outcome \<Rightarrow> ToolResult \<times> goerr option" where
  "safeExecute r = (case r of
     Returned res err \<Rightarrow> (res, err)
   | Panicked why \<Rightarrow> (ToolResult0, Some (new_error (''panic: '' @ why))))"

section \<open>State and settings\<close>

text \<open>The orchestrator's settings that tool calls read, with the text of an error or a document.\<close>

record ToolSetup =
  ts_Retry :: RetryPolicy
  ts_LoopResponse :: LoopResponse
  ts_MaxArtifactBytes :: int
  ts_errText :: "goerr \<Rightarrow> string"
  ts_redact :: "string \<Rightarrow> string"
  ts_text :: "raw \<Rightarrow> string"
  ts_hash :: "raw \<Rightarrow> string"

text \<open>The run and task a call belongs to.\<close>

record CallScope =
  cx_Tenant :: TenantID
  cx_Session :: SessionID
  cx_Run :: RunID
  cx_Task :: TaskID

record 'x CallState =
  cs_Store :: MemStore
  cs_Budget :: BudgetManager
  cs_Loop :: LoopDetector
  cs_Events :: "Event list"
  cs_Ran :: "(Call \<times> 'x) list"

definition redactErr :: "ToolSetup \<Rightarrow> goerr \<Rightarrow> goerr" where
  "redactErr K err = (let msg = ts_redact K (ts_errText K err)
     in if msg \<noteq> ts_errText K err then Errorf msg [err] else err)"

lemma errors_is_redactErr [simp]: "errors_is (redactErr K err) t = errors_is err t"
  by (simp add: redactErr_def Let_def)

section \<open>Events\<close>

definition emitCall :: "Event \<Rightarrow> 'x CallState \<Rightarrow> 'x CallState" where
  "emitCall ev s = s\<lparr>cs_Events := ev # cs_Events s\<rparr>"

text \<open>A document that cannot be encoded becomes an empty object.\<close>

definition mustJSON :: "json \<Rightarrow> json" where
  "mustJSON v = (if validDoc v then v else JObj [])"

definition callEvent :: "CallScope \<Rightarrow> StepID \<Rightarrow> string \<Rightarrow> Visibility \<Rightarrow> json \<Rightarrow> Event" where
  "callEvent c step ty vis payload = Event0\<lparr>ev_TenantID := cx_Tenant c, ev_SessionID := cx_Session c,
     ev_RunID := cx_Run c, ev_TaskID := cx_Task c, ev_StepID := step, ev_Type := ty,
     ev_Visibility := vis, ev_Payload := Some (mustJSON payload)\<rparr>"

definition systemEvent :: "CallScope \<Rightarrow> (string \<times> json) list \<Rightarrow> Event" where
  "systemEvent c payload = callEvent c [] EvSystem VisibilityInternal (JObj payload)"

text \<open>\<open>withFields\<close>: the fields of \<open>extra\<close> replace those of \<open>base\<close>.\<close>

definition withFields :: "(string \<times> json) list \<Rightarrow> (string \<times> json) list \<Rightarrow> (string \<times> json) list" where
  "withFields base extra = foldl (\<lambda>m (k, v). mput k v m) base extra"

text \<open>\<open>onLoop\<close> with its event; \<open>answer\<close> is what \<open>awaitApproval\<close> returns, if it is asked.\<close>

definition loopDetected :: "ToolSetup \<Rightarrow> CallScope \<Rightarrow> string \<Rightarrow> (string \<times> json) list \<Rightarrow> goerr
    \<Rightarrow> goerr + string \<Rightarrow> 'x CallState \<Rightarrow> 'x CallState \<times> goerr option" where
  "loopDetected K c key detail err answer s =
    (let response = (if ts_LoopResponse K = [] then LoopFail else ts_LoopResponse K);
         s1 = emitCall (callEvent c [] EvSystem VisibilityAudit (JObj (withFields detail
                [(''event'', JStr ''loop_detected''), (''error'', JStr (ts_errText K err)),
                 (''response'', JStr response)]))) s;
         (d, e) = onLoop (ts_LoopResponse K) answer (cs_Loop s1) (cx_Run c) key err
     in (s1\<lparr>cs_Loop := d\<rparr>, e))"

section \<open>Attempts of a call\<close>

text \<open>How the wait before the next attempt ends; \<open>True\<close> if \<open>select\<close> picks the run's context when it
  is done. The budget's context is derived from the run's, so both are done then.\<close>

datatype backoffEnd = Elapsed | RunDone goerr bool | TimeUp

record AttemptWorld =
  aw_outcome :: outcome
  aw_took :: duration
  aw_timeUp :: bool \<comment> \<open>the time budget ran out by the end of the attempt\<close>
  aw_ctxErr :: "goerr option" \<comment> \<open>\<open>ctx.Err()\<close> after the attempt\<close>
  aw_retryAt :: time
  aw_answer :: "goerr + string"
  aw_wait :: backoffEnd

definition outOfTime :: "goerr \<Rightarrow> goerr" where
  "outOfTime err = Errorf ''tool %s used the rest of its time budget for this run: %w'' [err]"

definition retriesTool :: "ToolSetup \<Rightarrow> goerr option \<Rightarrow> Call \<Rightarrow> int \<Rightarrow> goerr \<Rightarrow> bool" where
  "retriesTool K ctxErr call attempt err \<longleftrightarrow>
     (td_Idempotency (cl_Tool call) = IdemIdempotent \<or>
      td_Idempotency (cl_Tool call) = IdemConditionalIdempotent) \<and>
     attempt < rp_MaxAttempts (ts_Retry K) \<and> ctxErr = None \<and>
     (errors_is err ErrTransient \<or> errors_is err CtxDeadlineExceeded)"

text \<open>What the loop of a call keeps: the number of the attempt, the time and the cost so far.\<close>

record attempting =
  at_attempt :: int
  at_took :: duration
  at_cost :: int

record finished =
  fi_res :: ToolResult
  fi_took :: duration
  fi_cost :: int
  fi_err :: "goerr option"

definition retriedEvent :: "ToolSetup \<Rightarrow> CallScope \<Rightarrow> Call \<Rightarrow> int \<Rightarrow> goerr \<Rightarrow> Event" where
  "retriedEvent K c call attempt err = callEvent c (cl_StepID call) EvSystem VisibilityInternal
     (JObj [(''event'', JStr ''tool_call_retried''), (''tool'', JStr (td_Name (cl_Tool call))),
            (''attempt'', JNum (attempt + 1)), (''error'', JStr (ts_errText K err))])"

text \<open>One round of the loop of \<open>executeWithRetries\<close>: the call is finished, or attempted again.
  \<open>left\<close> is the time its budgets leave, 0 when none limits it.\<close>

definition retryRound :: "ToolSetup \<Rightarrow> CallScope \<Rightarrow> 'x \<Rightarrow> Call \<Rightarrow> duration \<Rightarrow> AttemptWorld \<Rightarrow> attempting
    \<Rightarrow> 'x CallState \<Rightarrow> 'x CallState \<times> (finished + attempting)" where
  "retryRound K c exec call left w a s0 =
    (let (res, err0) = safeExecute (aw_outcome w);
         s = s0\<lparr>cs_Ran := (call, exec) # cs_Ran s0\<rparr>;
         took = add64 (at_took a) (aw_took w);
         cost = add64 (at_cost a) (max (tr_CostUnits res) 0);
         stop = (\<lambda>e. Inl \<lparr>fi_res = res, fi_took = took, fi_cost = cost, fi_err = e\<rparr>)
     in (case map_option (redactErr K) err0 of
           None \<Rightarrow> (s, stop None)
         | Some err \<Rightarrow>
             if left > 0 \<and> aw_timeUp w \<and> aw_ctxErr w = None then (s, stop (Some (outOfTime err)))
             else if \<not> retriesTool K (aw_ctxErr w) call (at_attempt a) err then (s, stop (Some err))
             else
               let (d, stalled, n) = ObserveRetry (cs_Loop s) (cx_Run c) (aw_retryAt w);
                   s1 = s\<lparr>cs_Loop := d\<rparr>;
                   storm = Errorf ''%w: %d retries within %s, the last of tool %s after: %w''
                             [Sentinel ErrLoopDetected, err];
                   (s2, lerr) =
                     (if stalled
                      then loopDetected K c [] [(''kind'', JStr ''retry_storm''), (''retries'', JNum n),
                             (''tool'', JStr (td_Name (cl_Tool call)))] storm (aw_answer w) s1
                      else (s1, None))
               in (case lerr of
                     Some e \<Rightarrow> (s2, stop (Some e))
                   | None \<Rightarrow>
                      (case ReserveToolCall (cs_Budget s2) (cx_Run c) of
                         (b, Some _) \<Rightarrow> (s2\<lparr>cs_Budget := b\<rparr>, stop (Some err))
                       | (b, None) \<Rightarrow>
                           let s3 = emitCall (retriedEvent K c call (at_attempt a) err) (s2\<lparr>cs_Budget := b\<rparr>)
                           in (case aw_wait w of
                                 RunDone e pick \<Rightarrow> (s3, stop (Some (if pick then e else outOfTime err)))
                               | TimeUp \<Rightarrow> (s3, stop (Some (outOfTime err)))
                               | Elapsed \<Rightarrow> (s3, Inr \<lparr>at_attempt = at_attempt a + 1, at_took = took,
                                                     at_cost = cost\<rparr>))))))"

lemma retryRound_again:
  assumes "retryRound K c exec call left w a s = (s', Inr a')"
  shows "at_attempt a' = at_attempt a + 1" and "at_attempt a < rp_MaxAttempts (ts_Retry K)"
    and "td_Idempotency (cl_Tool call) \<in> {IdemIdempotent, IdemConditionalIdempotent}"
  using assms
  by (auto simp: retryRound_def Let_def retriesTool_def
      split: prod.splits option.splits if_splits backoffEnd.splits)

text \<open>The loop of \<open>executeWithRetries\<close>.\<close>

function retryLoop :: "ToolSetup \<Rightarrow> CallScope \<Rightarrow> 'x \<Rightarrow> Call \<Rightarrow> duration \<Rightarrow> (int \<Rightarrow> AttemptWorld)
    \<Rightarrow> attempting \<Rightarrow> 'x CallState \<Rightarrow> 'x CallState \<times> finished" where
  "retryLoop K c exec call left world a s =
    (case retryRound K c exec call left (world (at_attempt a)) a s of
       (s', Inl f) \<Rightarrow> (s', f)
     | (s', Inr a') \<Rightarrow> retryLoop K c exec call left world a' s')"
  by pat_completeness auto

termination
  by (relation "measure (\<lambda>(K, c, exec, call, left, world, a, s).
      nat (rp_MaxAttempts (ts_Retry K) - at_attempt a))")
    (auto dest: retryRound_again(1) [OF sym] retryRound_again(2) [OF sym])

declare retryLoop.simps [simp del]

abbreviation firstAttempt :: attempting where
  "firstAttempt \<equiv> \<lparr>at_attempt = 1, at_took = 0, at_cost = 0\<rparr>"

text \<open>The check of the time budgets before the first attempt: an error, or the time left.\<close>

definition timeBudget :: "CallScope \<Rightarrow> Call \<Rightarrow> ToolBudget list \<Rightarrow> 'x CallState \<Rightarrow> finished + duration" where
  "timeBudget c call budgets s =
    (case ToolTimeLeft (cs_Budget s) (cx_Run c) (td_Name (cl_Tool call)) budgets of
       (left, usedUp) \<Rightarrow>
         if usedUp
         then Inl \<lparr>fi_res = ToolResult0, fi_took = 0, fi_cost = 0,
                   fi_err = Some (new_error ''tool %s used its time budget for this run'')\<rparr>
         else Inr left)"

definition executeWithRetries :: "ToolSetup \<Rightarrow> CallScope \<Rightarrow> 'x \<Rightarrow> Call \<Rightarrow> ToolBudget list
    \<Rightarrow> (int \<Rightarrow> AttemptWorld) \<Rightarrow> 'x CallState \<Rightarrow> 'x CallState \<times> finished" where
  "executeWithRetries K c exec call budgets world s =
    (case timeBudget c call budgets s of
       Inl f \<Rightarrow> (s, f)
     | Inr left \<Rightarrow> retryLoop K c exec call left world firstAttempt s)"

section \<open>The outcome of a call\<close>

definition failedPayload :: "string \<Rightarrow> string \<Rightarrow> string \<Rightarrow> bool \<Rightarrow> json" where
  "failedPayload name msg code fatal = JObj ([(''tool'', JStr name), (''error'', JStr msg)] @
     (if fatal then [(''fatal'', JStr code)] else []))"

definition toolMessage :: "Call \<Rightarrow> ToolCall \<Rightarrow> string \<Rightarrow> Message" where
  "toolMessage call tc content = Message0\<lparr>msg_Role := ''tool'', msg_Name := td_Name (cl_Tool call),
     msg_ToolCallID := tc_ID tc, msg_Content := content\<rparr>"

definition toolFailed :: "ToolSetup \<Rightarrow> CallScope \<Rightarrow> Call \<Rightarrow> ToolCall \<Rightarrow> goerr \<Rightarrow> bool \<Rightarrow> 'x CallState
    \<Rightarrow> 'x CallState \<times> Message" where
  "toolFailed K c call tc err fatal s =
    (let msg = ts_redact K (ts_errText K err)
     in (emitCall (callEvent c (cl_StepID call) EvToolCompleted VisibilityInternal
           (failedPayload (td_Name (cl_Tool call)) msg (errorCode err) fatal)) s,
         toolMessage call tc (ts_text K (Some (JObj [(''error'', JStr msg)])))))"

definition persistUsage :: "CallScope \<Rightarrow> 'x CallState \<Rightarrow> 'x CallState" where
  "persistUsage c s = s\<lparr>cs_Store := fst (UpdateRunUsage (cs_Store s) (cx_Tenant c) (cx_Run c)
     (Snapshot (cs_Budget s) (cx_Run c)))\<rparr>"

text \<open>The artifact stored for what a call produced, and the event that announces it.\<close>

definition orElse :: "string \<Rightarrow> string \<Rightarrow> string" where
  "orElse a b = (if a = [] then b else a)"

definition producedArtifact :: "CallScope \<Rightarrow> Call \<Rightarrow> Produced \<Rightarrow> Artifact" where
  "producedArtifact c call p = Artifact0\<lparr>ar_TenantID := cx_Tenant c, ar_SessionID := cx_Session c,
     ar_RunID := cx_Run c, ar_TaskID := cx_Task c, ar_StepID := cl_StepID call,
     ar_Producer := td_Name (cl_Tool call), ar_Kind := orElse (pa_Kind p) ''file'',
     ar_Name := orElse (pa_Name p) (td_Name (cl_Tool call)), ar_MimeType := pa_MimeType p,
     ar_Content := pa_Content p, ar_Metadata := pa_Metadata p\<rparr>"

definition artifactEvent :: "CallScope \<Rightarrow> Call \<Rightarrow> string \<Rightarrow> Artifact \<Rightarrow> Event" where
  "artifactEvent c call i a = callEvent c (cl_StepID call) EvArtifact VisibilityParticipant
     (JObj [(''artifact_id'', JStr i), (''name'', JStr (ar_Name a)), (''kind'', JStr (ar_Kind a)),
            (''mime_type'', JStr (orElse (ar_MimeType a) ''application/octet-stream'')),
            (''size'', JNum (int (length (ar_Content a)))), (''producer'', JStr (ar_Producer a))])"

fun putProduced :: "CallScope \<Rightarrow> Call \<Rightarrow> (nat \<Rightarrow> string \<times> time) \<Rightarrow> nat \<Rightarrow> Produced list \<Rightarrow> 'x CallState
    \<Rightarrow> 'x CallState \<times> string list" where
  "putProduced c call ids n [] s = (s, [])"
| "putProduced c call ids n (p # ps) s =
    (let a = producedArtifact c call p;
         (m, i) = PutArtifact (cs_Store s) a (fst (ids n)) (snd (ids n));
         (s', is) = putProduced c call ids (n + 1) ps
                      (emitCall (artifactEvent c call i a) (s\<lparr>cs_Store := m\<rparr>))
     in (s', i # is))"

text \<open>The sizes are checked before anything is stored; storing itself does not fail in memory.\<close>

definition storeArtifacts :: "ToolSetup \<Rightarrow> CallScope \<Rightarrow> Call \<Rightarrow> (nat \<Rightarrow> string \<times> time) \<Rightarrow> Produced list
    \<Rightarrow> 'x CallState \<Rightarrow> 'x CallState \<times> (goerr + string list)" where
  "storeArtifacts K c call ids produced s =
    (if list_ex (\<lambda>p. checkArtifactSize (ts_MaxArtifactBytes K) (length (pa_Content p)) \<noteq> None) produced
     then (s, Inl (new_error ''%s is %d bytes, more than the %d an artifact may hold''))
     else (case putProduced c call ids 0 produced s of (s', is) \<Rightarrow> (s', Inr is)))"

section \<open>A whole call\<close>

record InvokeWorld =
  iv_slot :: "goerr option" \<comment> \<open>the error of acquiring the tool's slot\<close>
  iv_attempts :: "int \<Rightarrow> AttemptWorld"
  iv_ctxErr :: "goerr option" \<comment> \<open>\<open>ctx.Err()\<close> once the attempts are over\<close>
  iv_artifact :: "nat \<Rightarrow> string \<times> time"
  iv_storedErr :: "goerr option" \<comment> \<open>\<open>ctx.Err()\<close> after artifacts were refused\<close>

text \<open>The slots of a tool that all its calls share: one for an exclusive tool.\<close>

definition toolLimit :: "int \<Rightarrow> ToolDefinition \<Rightarrow> int" where
  "toolLimit perTool d = (if td_Concurrency d = ConcurrencyExclusive then 1 else perTool)"

text \<open>\<open>invokeTool\<close> up to the attempts. A built-in tool has no slot.\<close>

definition beginInvoke :: "CallScope \<Rightarrow> string \<Rightarrow> Call \<Rightarrow> InvokeWorld \<Rightarrow> 'x CallState
    \<Rightarrow> 'x CallState \<times> goerr option" where
  "beginInvoke c slot call w s =
    (case (if slot = [] then None else iv_slot w) of
       Some e \<Rightarrow> (s, Some (Errorf ''tool %s: %w'' [e]))
     | None \<Rightarrow> (emitCall (callEvent c (cl_StepID call) EvToolStarted VisibilityInternal
                  (JObj [(''tool'', JStr (td_Name (cl_Tool call)))])) s, None))"

definition completedDoc :: "Call \<Rightarrow> ToolResult \<Rightarrow> string list \<Rightarrow> int \<Rightarrow> json" where
  "completedDoc call res artifacts cost = JObj ([(''tool'', JStr (td_Name (cl_Tool call))),
     (''output'', rawDoc (tr_Output res))] @
     (if artifacts \<noteq> [] then [(''artifacts'', JArr (map JStr artifacts))] else []) @
     (if cost > 0 then [(''cost_units'', JNum cost)] else []))"

definition commitCall :: "CallScope \<Rightarrow> Call \<Rightarrow> finished \<Rightarrow> 'x CallState \<Rightarrow> 'x CallState \<times> goerr option" where
  "commitCall c call f s =
    (let s1 = s\<lparr>cs_Budget := CommitTool (cs_Budget s) (cx_Run c) (td_Name (cl_Tool call)) (fi_took f) (fi_cost f)\<rparr>
     in if fi_cost f > 0
        then (case Commit (cs_Budget s1) (cx_Run c) (Usage0\<lparr>CostUnits := fi_cost f\<rparr>) of
                (b, e) \<Rightarrow> (persistUsage c (s1\<lparr>cs_Budget := b\<rparr>), e))
        else (s1, None))"

definition toolError :: "goerr \<Rightarrow> goerr" where
  "toolError e = Errorf ''tool %s: %w'' [e]"

text \<open>A call that failed: the error is fatal to the task, or told to the model.\<close>

definition callFailed :: "ToolSetup \<Rightarrow> CallScope \<Rightarrow> Call \<Rightarrow> ToolCall \<Rightarrow> goerr \<Rightarrow> bool \<Rightarrow> 'x CallState
    \<Rightarrow> 'x CallState \<times> (goerr + Message)" where
  "callFailed K c call tc e fatal s =
    (case toolFailed K c call tc e fatal s of
       (s', msg) \<Rightarrow> (s', if fatal then Inl (toolError e) else Inr msg))"

text \<open>\<open>invokeTool\<close> after the attempts.\<close>

definition finishInvoke :: "ToolSetup \<Rightarrow> CallScope \<Rightarrow> Call \<Rightarrow> ToolCall \<Rightarrow> InvokeWorld \<Rightarrow> finished
    \<Rightarrow> 'x CallState \<Rightarrow> 'x CallState \<times> (goerr + Message)" where
  "finishInvoke K c call tc w f s =
    (case commitCall c call f s of
       (s1, costErr) \<Rightarrow>
         (case fi_err f of
            Some e \<Rightarrow>
              if iv_ctxErr w \<noteq> None \<or> errors_is e ErrBudgetExceeded \<or> errors_is e ErrLoopDetected
              then callFailed K c call tc e True s1
              else (case costErr of
                  Some ce \<Rightarrow> callFailed K c call tc ce True s1
                | None \<Rightarrow> callFailed K c call tc e False s1)
          | None \<Rightarrow>
              (case storeArtifacts K c call (iv_artifact w) (tr_Artifacts (fi_res f)) s1 of
                 (s2, Inl e) \<Rightarrow> callFailed K c call tc e (iv_storedErr w \<noteq> None) s2
               | (s2, Inr is) \<Rightarrow>
                   (let s3 = emitCall (callEvent c (cl_StepID call) EvToolCompleted VisibilityInternal
                              (completedDoc call (fi_res f) is (fi_cost f))) s2
                    in (s3, case costErr of
                              Some ce \<Rightarrow> Inl (toolError ce)
                            | None \<Rightarrow> Inr (toolMessage call tc (ts_text K (tr_Output (fi_res f)))))))))"

definition invokeTool :: "ToolSetup \<Rightarrow> CallScope \<Rightarrow> 'x \<Rightarrow> string \<Rightarrow> Call \<Rightarrow> ToolCall \<Rightarrow> ToolBudget list
    \<Rightarrow> InvokeWorld \<Rightarrow> 'x CallState \<Rightarrow> 'x CallState \<times> (goerr + Message)" where
  "invokeTool K c exec slot call tc budgets w s =
    (case beginInvoke c slot call w s of
       (s1, Some e) \<Rightarrow> (s1, Inl e)
     | (s1, None) \<Rightarrow>
        (case executeWithRetries K c exec call budgets (iv_attempts w) s1 of
           (s2, f) \<Rightarrow> finishInvoke K c call tc w f s2))"

end
