(* ===== verification/ToolReply.thy ===== *)
theory ToolReply
  imports ToolUse
begin

text \<open>
  The tool calls of one model reply (\<open>runToolCalls\<close> in \<open>runtime/orchestrator.go\<close>): \<open>planCalls\<close>
  counts, checks and reserves them, \<open>approvePlans\<close> asks for the approvals they need, and a step
  relation runs them: parallel ones side by side, up to a bound, every other one alone. A step of a
  running call is one of those \<open>invokeTool\<close> is composed of, so the attempts of parallel calls
  interleave.
\<close>

section \<open>Tools of an agent\<close>

record ('x, 'sc) allowedTool =
  al_def :: ToolDefinition
  al_reg :: "('x, 'sc) Registry"
  al_exec :: 'x
  al_slot :: string
  al_requiresApproval :: bool
  al_approvalReason :: string
  al_budgets :: "ToolBudget list"

abbreviation delegateTool :: string where "delegateTool \<equiv> ''delegate''"
abbreviation askHumanTool :: string where "askHumanTool \<equiv> ''ask_human''"

text \<open>\<open>toolPolicies\<close>: the server's, the tenant's and the workflow's.\<close>

definition toolPolicies :: "ToolPolicy \<Rightarrow> (TenantID \<rightharpoonup> ToolPolicy) \<Rightarrow> TenantID \<Rightarrow> Workflow \<Rightarrow> ToolPolicy list" where
  "toolPolicies own tenants tenant w =
    [own] @ (case tenants tenant of None \<Rightarrow> [] | Some p \<Rightarrow> [p]) @
    (case wf_ToolPolicy w of None \<Rightarrow> [] | Some p \<Rightarrow> [p])"

definition policyBudgets :: "ToolPolicy list \<Rightarrow> string \<Rightarrow> ToolBudget list" where
  "policyBudgets ps name = concat (map (\<lambda>p. case map_of (Budgets p) name of None \<Rightarrow> [] | Some b \<Rightarrow> [b]) ps)"

definition shorterTimeout :: "ToolPolicy list \<Rightarrow> string \<Rightarrow> duration \<Rightarrow> duration" where
  "shorterTimeout ps name t0 = foldl (\<lambda>t p. case map_of (Timeouts p) name of
     None \<Rightarrow> t | Some d \<Rightarrow> if t \<le> 0 \<or> d < t then d else t) t0 ps"

text \<open>One round of the loop over \<open>agent.Tools\<close>: nothing, a denial, or an allowed tool.\<close>

datatype ('x, 'sc) offered = Skipped | Denied string string | Offered "('x, 'sc) allowedTool"

definition offerTool :: "('x, 'sc) ToolBox \<Rightarrow> TenantID \<Rightarrow> ToolPolicy list \<Rightarrow> bool \<Rightarrow> string
    \<Rightarrow> ('x, 'sc) offered" where
  "offerTool tools tenant policies skipApprovals name =
    (if name = delegateTool \<or> name = askHumanTool then Skipped
     else case registryFor tools tenant name of
       None \<Rightarrow> Skipped
     | Some (reg, slot) \<Rightarrow>
        (case Registry_Get reg name of
           None \<Rightarrow> Skipped
         | Some (d, exec) \<Rightarrow>
            (case AuthorizeAll d policies of (ok, approve, reason) \<Rightarrow>
               if \<not> ok then Denied (td_Name d) reason
               else Offered \<lparr>al_def = d\<lparr>td_Timeout := shorterTimeout policies (td_Name d) (td_Timeout d)\<rparr>,
                  al_reg = reg, al_exec = exec, al_slot = slot,
                  al_requiresApproval = (approve \<and> \<not> skipApprovals), al_approvalReason = reason,
                  al_budgets = policyBudgets policies (td_Name d)\<rparr>)))"

text \<open>The loop: what the agent may call, by name, what its model is told of, and the denials.\<close>

fun offerTools :: "('x, 'sc) ToolBox \<Rightarrow> TenantID \<Rightarrow> ToolPolicy list \<Rightarrow> bool \<Rightarrow> CallScope \<Rightarrow> string list
    \<Rightarrow> (string \<rightharpoonup> ('x, 'sc) allowedTool) \<Rightarrow> ToolSpec list \<Rightarrow> 'x CallState
    \<Rightarrow> (string \<rightharpoonup> ('x, 'sc) allowedTool) \<times> ToolSpec list \<times> 'x CallState" where
  "offerTools tools tenant ps skip c [] allowed specs s = (allowed, specs, s)"
| "offerTools tools tenant ps skip c (name # names) allowed specs s =
    (case offerTool tools tenant ps skip name of
       Skipped \<Rightarrow> offerTools tools tenant ps skip c names allowed specs s
     | Denied tool reason \<Rightarrow> offerTools tools tenant ps skip c names allowed specs
         (emitCall (systemEvent c [(''event'', JStr ''tool_denied''), (''tool'', JStr tool),
                                   (''reason'', JStr reason)]) s)
     | Offered a \<Rightarrow> offerTools tools tenant ps skip c names (allowed(td_Name (al_def a) \<mapsto> a))
         (specs @ [\<lparr>tsp_Name = td_Name (al_def a), tsp_Description = td_Description (al_def a),
                    tsp_InputSchema = td_InputSchema (al_def a)\<rparr>]) s)"

section \<open>Planning\<close>

record 'x plannedTool =
  pl_tc :: ToolCall
  pl_call :: Call
  pl_exec :: "'x option"
  pl_slot :: string
  pl_requiresApproval :: bool
  pl_approvalReason :: string
  pl_runParallel :: bool
  pl_refused :: "goerr option"
  pl_budgets :: "ToolBudget list"

definition plannedTool0 :: "ToolCall \<Rightarrow> Call \<Rightarrow> 'x plannedTool" where
  "plannedTool0 tc call = \<lparr>pl_tc = tc, pl_call = call, pl_exec = None, pl_slot = [],
     pl_requiresApproval = False, pl_approvalReason = [], pl_runParallel = False, pl_refused = None,
     pl_budgets = []\<rparr>"

text \<open>What checking an input takes, and what the world gives one call: its step and, if it is part
  of a loop, a human's answer.\<close>

record 'sc InputCheck =
  ic_unmarshal :: "string \<Rightarrow> goerr + json"
  ic_validate :: "'sc \<Rightarrow> json \<Rightarrow> goerr option"

record PlanWorld =
  pw_step :: StepID
  pw_answer :: "goerr + string"

definition callRecord :: "CallScope \<Rightarrow> ToolCall \<Rightarrow> StepID \<Rightarrow> ToolDefinition \<Rightarrow> Call" where
  "callRecord c tc step d = \<lparr>cl_TenantID = cx_Tenant c, cl_RunID = cx_Run c, cl_TaskID = cx_Task c,
     cl_StepID = step, cl_Tool = d, cl_Input = tc_Input tc, cl_IdempotencyKey = step\<rparr>"

definition ToolDefinition0 :: ToolDefinition where
  "ToolDefinition0 = \<lparr>td_ID = [], td_Name = [], td_Version = [], td_Description = [],
     td_InputSchema = None, td_OutputSchema = None, td_Idempotency = [], td_SideEffect = [],
     td_Concurrency = [], td_RequiresApproval = False, td_Timeout = 0\<rparr>"

text \<open>The check of one call for a loop of identical calls.\<close>

definition observeCall :: "ToolSetup \<Rightarrow> CallScope \<Rightarrow> ToolCall \<Rightarrow> PlanWorld \<Rightarrow> 'x CallState
    \<Rightarrow> 'x CallState \<times> goerr option" where
  "observeCall K c tc w s =
    (let hash = ts_hash K (tc_Input tc);
         (d, stalled, n) = Observe (cs_Loop s) (cx_Run c) (tc_Name tc) hash;
         s1 = s\<lparr>cs_Loop := d\<rparr>
     in if \<not> stalled then (s1, None)
        else loopDetected K c (ToolKey (tc_Name tc) hash)
               [(''kind'', JStr ''repeated_tool_call''), (''tool'', JStr (tc_Name tc)), (''count'', JNum n)]
               (Errorf ''%w on tool %s after %d identical calls'' [Sentinel ErrLoopDetected]) (pw_answer w) s1)"

text \<open>The plan of one call that is no loop; the budget manager changes when the tool is reserved.\<close>

definition planCall :: "ToolSetup \<Rightarrow> 'sc InputCheck \<Rightarrow> CallScope \<Rightarrow> (string \<rightharpoonup> ('x, 'sc) allowedTool)
    \<Rightarrow> (string \<rightharpoonup> 'x) \<Rightarrow> ToolCall \<Rightarrow> StepID \<Rightarrow> BudgetManager \<Rightarrow> BudgetManager \<times> 'x plannedTool" where
  "planCall K J c allowed builtins tc step b =
    (case builtins (tc_Name tc) of
       Some exec \<Rightarrow> (b, (plannedTool0 tc (callRecord c tc step
          (ToolDefinition0\<lparr>td_ID := tc_Name tc, td_Name := tc_Name tc\<rparr>)))
          \<lparr>pl_exec := Some exec, pl_runParallel := (tc_Name tc = delegateTool)\<rparr>)
     | None \<Rightarrow>
        (case allowed (tc_Name tc) of
           None \<Rightarrow> (b, (plannedTool0 tc (callRecord c tc step (ToolDefinition0\<lparr>td_Name := tc_Name tc\<rparr>)))
             \<lparr>pl_refused := Some (Errorf ''%w: tool %s is not available to this agent'' [Sentinel ErrPolicyDenied])\<rparr>)
         | Some a \<Rightarrow>
            let call = callRecord c tc step (al_def a)
            in (case CheckInput (ic_unmarshal J) (ic_validate J) (al_reg a) (tc_Name tc) (ts_text K (tc_Input tc)) of
                  Some e \<Rightarrow> (b, (plannedTool0 tc call)
                    \<lparr>pl_refused := Some (Errorf ''invalid input for tool %s: %w'' [e])\<rparr>)
                | None \<Rightarrow>
                   (case ReserveTool b (cx_Run c) (td_Name (al_def a)) (al_budgets a) of
                      (b', Some e) \<Rightarrow> (b', (plannedTool0 tc call)\<lparr>pl_refused := Some e\<rparr>)
                    | (b', None) \<Rightarrow> (b', (plannedTool0 tc call)\<lparr>pl_budgets := al_budgets a,
                        pl_exec := Some (al_exec a), pl_slot := al_slot a,
                        pl_requiresApproval := al_requiresApproval a,
                        pl_approvalReason := al_approvalReason a,
                        pl_runParallel := td_Concurrency (al_def a) \<in>
                          {ConcurrencyParallelRead, ConcurrencyParallelIsolatedWrite}\<rparr>)))))"

fun planLoop :: "ToolSetup \<Rightarrow> 'sc InputCheck \<Rightarrow> CallScope \<Rightarrow> (string \<rightharpoonup> ('x, 'sc) allowedTool)
    \<Rightarrow> (string \<rightharpoonup> 'x) \<Rightarrow> (nat \<Rightarrow> PlanWorld) \<Rightarrow> nat \<Rightarrow> ToolCall list \<Rightarrow> 'x CallState
    \<Rightarrow> 'x CallState \<times> (goerr + 'x plannedTool list)" where
  "planLoop K J c allowed builtins world i [] s = (s, Inr [])"
| "planLoop K J c allowed builtins world i (tc # tcs) s =
    (case observeCall K c tc (world i) s of
       (s1, Some e) \<Rightarrow> (s1, Inl e)
     | (s1, None) \<Rightarrow>
        (case planCall K J c allowed builtins tc (pw_step (world i)) (cs_Budget s1) of
           (b, p) \<Rightarrow>
             (case planLoop K J c allowed builtins world (i + 1) tcs (s1\<lparr>cs_Budget := b\<rparr>) of
                (s2, Inl e) \<Rightarrow> (s2, Inl e)
              | (s2, Inr ps) \<Rightarrow> (s2, Inr (p # ps)))))"

definition scheduledEvent :: "CallScope \<Rightarrow> 'x plannedTool \<Rightarrow> Event" where
  "scheduledEvent c p = callEvent c (cl_StepID (pl_call p)) EvToolScheduled VisibilityInternal
     (JObj [(''tool'', JStr (td_Name (cl_Tool (pl_call p)))), (''input'', rawDoc (tc_Input (pl_tc p)))])"

text \<open>\<open>runToolCalls\<close> up to its events \<open>tool_call_scheduled\<close>.\<close>

definition planCalls :: "ToolSetup \<Rightarrow> 'sc InputCheck \<Rightarrow> CallScope \<Rightarrow> (string \<rightharpoonup> ('x, 'sc) allowedTool)
    \<Rightarrow> (string \<rightharpoonup> 'x) \<Rightarrow> (nat \<Rightarrow> PlanWorld) \<Rightarrow> ToolCall list \<Rightarrow> 'x CallState
    \<Rightarrow> 'x CallState \<times> (goerr + 'x plannedTool list)" where
  "planCalls K J c allowed builtins world tcs s =
    (case ReserveToolCalls (cs_Budget s) (cx_Run c) (int (length tcs)) of
       (b, Some e) \<Rightarrow> (s\<lparr>cs_Budget := b\<rparr>, Inl e)
     | (b, None) \<Rightarrow>
        (case planLoop K J c allowed builtins world 0 tcs (s\<lparr>cs_Budget := b\<rparr>) of
           (s1, Inl e) \<Rightarrow> (s1\<lparr>cs_Budget := Release (cs_Budget s1) (cx_Run c)
                              (Usage0\<lparr>ToolCalls := int (length tcs)\<rparr>)\<rparr>, Inl e)
         | (s1, Inr ps) \<Rightarrow> (foldl (\<lambda>s p. emitCall (scheduledEvent c p) s) (persistUsage c s1) ps, Inr ps)))"

section \<open>Approvals\<close>

text \<open>The loop that asks for approvals; \<open>answers i\<close> is what \<open>awaitApproval\<close> returns for call \<open>i\<close>.\<close>

definition approvePlan :: "CallScope \<Rightarrow> string \<Rightarrow> 'x plannedTool \<Rightarrow> 'x CallState
    \<Rightarrow> 'x CallState \<times> 'x plannedTool" where
  "approvePlan c status p s =
    (if status \<noteq> ''approved''
     then (s\<lparr>cs_Budget := ReleaseTool (cs_Budget s) (cx_Run c) (td_Name (cl_Tool (pl_call p)))\<rparr>,
           p\<lparr>pl_refused := Some (new_error ''call to tool %s was not approved (%s)'')\<rparr>)
     else (s, p))"

fun approvePlans :: "CallScope \<Rightarrow> (nat \<Rightarrow> goerr + string) \<Rightarrow> nat \<Rightarrow> 'x plannedTool list \<Rightarrow> 'x CallState
    \<Rightarrow> 'x CallState \<times> (goerr + 'x plannedTool list)" where
  "approvePlans c answers i [] s = (s, Inr [])"
| "approvePlans c answers i (p # ps) s =
    (case (if pl_requiresApproval p then answers i else Inr ''approved'') of
       Inl e \<Rightarrow> (s, Inl e)
     | Inr status \<Rightarrow>
        (case approvePlan c status p s of
           (s1, p1) \<Rightarrow>
             (case approvePlans c answers (i + 1) ps s1 of
                (s2, Inl e) \<Rightarrow> (s2, Inl e)
              | (s2, Inr ps1) \<Rightarrow> (s2, Inr (p1 # ps1)))))"

end
