(* ===== verification/ToolDispatch.thy ===== *)
theory ToolDispatch
  imports ToolReply
begin

text \<open>
  How the planned calls of a reply run (the second half of \<open>runToolCalls\<close>): the loop over the plans
  refuses, starts and waits; running calls advance in any order. The results of the channel are
  collected in the order of the calls. \<open>ctxEnds i\<close> is the error of the context if \<open>select\<close> finds it
  done where the loop is about to start the parallel call \<open>i\<close>.
\<close>

section \<open>Steps\<close>

datatype running = Entering | Attempting duration attempting

record 'x Dispatch =
  di_next :: nat                       \<comment> \<open>the plan the loop has reached\<close>
  di_active :: "nat \<rightharpoonup> running"         \<comment> \<open>the calls being executed\<close>
  di_results :: "(nat \<times> (goerr + Message)) list"
  di_state :: "'x CallState"

text \<open>A step of a running call: it is over with a result, or runs on.\<close>

definition callOver :: "ToolSetup \<Rightarrow> CallScope \<Rightarrow> 'x plannedTool \<Rightarrow> InvokeWorld \<Rightarrow> finished \<Rightarrow> 'x CallState
    \<Rightarrow> 'x CallState \<times> ((goerr + Message) + running)" where
  "callOver K c p w f s = (case finishInvoke K c (pl_call p) (pl_tc p) w f s of (s', r) \<Rightarrow> (s', Inl r))"

fun callStep :: "ToolSetup \<Rightarrow> CallScope \<Rightarrow> 'x plannedTool \<Rightarrow> 'x \<Rightarrow> InvokeWorld \<Rightarrow> running \<Rightarrow> 'x CallState
    \<Rightarrow> 'x CallState \<times> ((goerr + Message) + running)" where
  "callStep K c p exec w Entering s =
    (case beginInvoke c (pl_slot p) (pl_call p) w s of
       (s1, Some e) \<Rightarrow> (s1, Inl (Inl e))
     | (s1, None) \<Rightarrow>
        (case timeBudget c (pl_call p) (pl_budgets p) s1 of
           Inl f \<Rightarrow> callOver K c p w f s1
         | Inr left \<Rightarrow> (s1, Inr (Attempting left firstAttempt))))"
| "callStep K c p exec w (Attempting left a) s =
    (case retryRound K c exec (pl_call p) left (iv_attempts w (at_attempt a)) a s of
       (s1, Inl f) \<Rightarrow> callOver K c p w f s1
     | (s1, Inr a') \<Rightarrow> (s1, Inr (Attempting left a')))"

text \<open>A call that is not parallel holds up the loop until it is over.\<close>

definition loopFree :: "'x plannedTool list \<Rightarrow> 'x Dispatch \<Rightarrow> bool" where
  "loopFree plans d \<longleftrightarrow> (\<forall>i \<in> dom (di_active d). pl_runParallel (plans ! i))"

inductive dispatch_step :: "ToolSetup \<Rightarrow> CallScope \<Rightarrow> int \<Rightarrow> (nat \<Rightarrow> goerr option) \<Rightarrow> (nat \<Rightarrow> InvokeWorld)
    \<Rightarrow> 'x plannedTool list \<Rightarrow> 'x Dispatch \<Rightarrow> 'x Dispatch \<Rightarrow> bool"
  for K c maxParallel ctxEnds world plans where
  refuse: "\<lbrakk>di_next d < length plans; loopFree plans d; pl_refused (plans ! di_next d) = Some e;
      toolFailed K c (pl_call (plans ! di_next d)) (pl_tc (plans ! di_next d)) e False (di_state d) = (s, msg)\<rbrakk>
    \<Longrightarrow> dispatch_step K c maxParallel ctxEnds world plans d
      (d\<lparr>di_next := di_next d + 1, di_results := di_results d @ [(di_next d, Inr msg)], di_state := s\<rparr>)"
| spawn: "\<lbrakk>di_next d < length plans; loopFree plans d; pl_refused (plans ! di_next d) = None;
      pl_runParallel (plans ! di_next d); int (card (dom (di_active d))) < max maxParallel 1\<rbrakk>
    \<Longrightarrow> dispatch_step K c maxParallel ctxEnds world plans d
      (d\<lparr>di_next := di_next d + 1, di_active := (di_active d)(di_next d \<mapsto> Entering)\<rparr>)"
| give_up: "\<lbrakk>di_next d < length plans; loopFree plans d; pl_refused (plans ! di_next d) = None;
      pl_runParallel (plans ! di_next d); ctxEnds (di_next d) = Some e\<rbrakk>
    \<Longrightarrow> dispatch_step K c maxParallel ctxEnds world plans d
      (d\<lparr>di_next := di_next d + 1, di_results := di_results d @ [(di_next d, Inl e)]\<rparr>)"
| alone: "\<lbrakk>di_next d < length plans; di_active d = Map.empty; pl_refused (plans ! di_next d) = None;
      \<not> pl_runParallel (plans ! di_next d)\<rbrakk>
    \<Longrightarrow> dispatch_step K c maxParallel ctxEnds world plans d
      (d\<lparr>di_next := di_next d + 1, di_active := [di_next d \<mapsto> Entering]\<rparr>)"
| advance: "\<lbrakk>di_active d i = Some r; pl_exec (plans ! i) = Some exec;
      callStep K c (plans ! i) exec (world i) r (di_state d) = (s, Inr r')\<rbrakk>
    \<Longrightarrow> dispatch_step K c maxParallel ctxEnds world plans d
      (d\<lparr>di_active := (di_active d)(i \<mapsto> r'), di_state := s\<rparr>)"
| conclude: "\<lbrakk>di_active d i = Some r; pl_exec (plans ! i) = Some exec;
      callStep K c (plans ! i) exec (world i) r (di_state d) = (s, Inl res)\<rbrakk>
    \<Longrightarrow> dispatch_step K c maxParallel ctxEnds world plans d
      (d\<lparr>di_active := (di_active d)(i := None), di_results := di_results d @ [(i, res)], di_state := s\<rparr>)"

definition dispatch0 :: "'x CallState \<Rightarrow> 'x Dispatch" where
  "dispatch0 s = \<lparr>di_next = 0, di_active = Map.empty, di_results = [], di_state = s\<rparr>"

definition dispatched :: "'x plannedTool list \<Rightarrow> 'x Dispatch \<Rightarrow> bool" where
  "dispatched plans d \<longleftrightarrow> di_next d = length plans \<and> di_active d = Map.empty"

text \<open>The messages in the order of the calls, or the error of the first call that has one.\<close>

fun collectResults :: "(nat \<times> (goerr + Message)) list \<Rightarrow> goerr + Message list" where
  "collectResults [] = Inr []"
| "collectResults ((i, Inl e) # rs) = Inl e"
| "collectResults ((i, Inr m) # rs) =
     (case collectResults rs of Inl e \<Rightarrow> Inl e | Inr ms \<Rightarrow> Inr (m # ms))"

text \<open>\<open>runToolCalls\<close>, with every way its calls can interleave.\<close>

record ('x, 'sc) ReplyIn =
  ry_Check :: "'sc InputCheck"
  ry_Allowed :: "string \<rightharpoonup> ('x, 'sc) allowedTool"
  ry_Builtins :: "string \<rightharpoonup> 'x"
  ry_MaxParallel :: int
  ry_Plan :: "nat \<Rightarrow> PlanWorld"
  ry_Answers :: "nat \<Rightarrow> goerr + string"
  ry_CtxEnds :: "nat \<Rightarrow> goerr option"
  ry_World :: "nat \<Rightarrow> InvokeWorld"

inductive runToolCalls :: "ToolSetup \<Rightarrow> CallScope \<Rightarrow> ('x, 'sc) ReplyIn \<Rightarrow> ToolCall list \<Rightarrow> 'x CallState
    \<Rightarrow> 'x CallState \<Rightarrow> goerr + Message list \<Rightarrow> bool"
  for K c I tcs s where
  unplanned: "planCalls K (ry_Check I) c (ry_Allowed I) (ry_Builtins I) (ry_Plan I) tcs s = (s1, Inl e)
    \<Longrightarrow> runToolCalls K c I tcs s s1 (Inl e)"
| unapproved: "\<lbrakk>planCalls K (ry_Check I) c (ry_Allowed I) (ry_Builtins I) (ry_Plan I) tcs s = (s1, Inr ps0);
      approvePlans c (ry_Answers I) 0 ps0 s1 = (s2, Inl e)\<rbrakk> \<Longrightarrow> runToolCalls K c I tcs s s2 (Inl e)"
| answered: "\<lbrakk>planCalls K (ry_Check I) c (ry_Allowed I) (ry_Builtins I) (ry_Plan I) tcs s = (s1, Inr ps0);
      approvePlans c (ry_Answers I) 0 ps0 s1 = (s2, Inr ps);
      (dispatch_step K c (ry_MaxParallel I) (ry_CtxEnds I) (ry_World I) ps)\<^sup>*\<^sup>* (dispatch0 s2) d;
      dispatched ps d\<rbrakk>
    \<Longrightarrow> runToolCalls K c I tcs s (di_state d) (collectResults (sort_key fst (di_results d)))"

end
