(* ===== verification/ToolSafety.thy ===== *)
theory ToolSafety
  imports ToolDispatch BudgetSafety
begin

text \<open>
  What tool calls do to the budget and to the world: every execution of a tool is one of a planned
  call that was allowed, reserved and, where a policy asks for it, approved; a reply's executions
  stay within the tool calls counted for it; calls that are not parallel run alone; and every call
  gets its answer.
\<close>

section \<open>The meter of a run\<close>

text \<open>The run has a limit on tool calls, \<open>v\<close> of which are counted.\<close>

definition meter :: "Limits \<Rightarrow> RunID \<Rightarrow> int \<Rightarrow> BudgetManager \<Rightarrow> bool" where
  "meter l run v b \<longleftrightarrow> limitsOf b run = l \<and> ToolCalls (Snapshot b run) = v \<and> 0 \<le> v \<and>
     v \<le> MaxToolCalls l \<and> 0 < MaxToolCalls l \<and> small_limits l"

lemma meter_le: "meter l run v b \<Longrightarrow> v \<le> MaxToolCalls l"
  by (simp add: meter_def)

lemma meter_ReserveToolCalls:
  assumes "meter l run v b" and "0 \<le> n" and "n < 2 ^ 62" and "ReserveToolCalls b run n = (b', e)"
  shows "meter l run (if e = None then v + n else v) b'"
proof (cases "n \<le> 0")
  case True
  with assms show ?thesis by (auto simp: ReserveToolCalls_def)
next
  case False
  have sum: "add64 v n = v + n"
    using assms by (intro add64_exact) (auto simp: meter_def small_limits_def in64_def)
  show ?thesis
  proof (cases rule: Reserve_cases [of b run "Usage0\<lparr>ToolCalls := n\<rparr>"])
    case (ok b1)
    with assms False sum show ?thesis
      by (auto simp: ReserveToolCalls_def meter_def Usage_Add_def checkLimits_None_iff)
  next
    case (refused b1 err)
    with assms False have "b' = b1" "e = Some err" by (simp_all add: ReserveToolCalls_def)
    with assms(1) refused(4,5) show ?thesis by (simp add: meter_def)
  qed
qed

lemma meter_ReserveToolCall:
  assumes "meter l run v b" and "ReserveToolCall b run = (b', e)"
  shows "meter l run (if e = None then v + 1 else v) b'"
  using meter_ReserveToolCalls [OF assms(1), of 1] assms(2)
  by (simp add: ReserveToolCall_def ReserveToolCalls_def)

lemma meter_Commit:
  assumes "meter l run v b" and "Commit b run (Usage0\<lparr>CostUnits := n\<rparr>) = (b', e)"
  shows "meter l run v b'"
  using assms by (auto simp: meter_def Commit_def Let_def Snapshot_def limitsOf_def Usage_Add_def Usage0_def
      small_limits_def in64_def split: option.splits)

lemma meter_tools [simp]:
  "meter l run v (CommitTool b r n t k) = meter l run v b"
  "meter l run v (ReleaseTool b r n) = meter l run v b"
  by (simp_all add: meter_def)

lemma meter_ReserveTool: "ReserveTool b r n bs = (b', e) \<Longrightarrow> meter l run v b' = meter l run v b"
  using tool_ops_frame(1,2) [of b r n bs] by (simp add: meter_def)

section \<open>What each part of a call executes and counts\<close>

lemma emitCall_frame [simp]:
  "cs_Ran (emitCall ev s) = cs_Ran s" "cs_Budget (emitCall ev s) = cs_Budget s"
  "cs_Loop (emitCall ev s) = cs_Loop s" "cs_Store (emitCall ev s) = cs_Store s"
  by (simp_all add: emitCall_def)

lemma loopDetected_frame:
  assumes "loopDetected K c key detail err answer s = (s', e)"
  shows "cs_Ran s' = cs_Ran s" "cs_Budget s' = cs_Budget s"
  using assms by (auto simp: loopDetected_def Let_def split: prod.splits)

lemma persistUsage_frame [simp]:
  "cs_Ran (persistUsage c s) = cs_Ran s" "cs_Budget (persistUsage c s) = cs_Budget s"
  by (simp_all add: persistUsage_def)

text \<open>The message that tells the model the outcome of a call.\<close>

definition answersCall :: "ToolCall \<Rightarrow> Message \<Rightarrow> bool" where
  "answersCall tc m \<longleftrightarrow> msg_Role m = ''tool'' \<and> msg_ToolCallID m = tc_ID tc \<and> msg_ToolCalls m = []"

lemma answersCall_toolMessage [simp]: "answersCall tc (toolMessage call tc content)"
  by (simp add: answersCall_def toolMessage_def Message0_def)

lemma toolFailed_frame:
  assumes "toolFailed K c call tc e fatal s = (s', msg)"
  shows "cs_Ran s' = cs_Ran s" "cs_Budget s' = cs_Budget s" "answersCall tc msg"
  using assms by (auto simp: toolFailed_def Let_def)

lemma putProduced_frame:
  "putProduced c call ids n ps s = (s', out) \<Longrightarrow> cs_Ran s' = cs_Ran s \<and> cs_Budget s' = cs_Budget s"
  by (induction ps arbitrary: n s out) (fastforce simp: Let_def split: prod.splits)+

lemma storeArtifacts_frame:
  "storeArtifacts K c call ids ps s = (s', r) \<Longrightarrow> cs_Ran s' = cs_Ran s \<and> cs_Budget s' = cs_Budget s"
  by (auto simp: storeArtifacts_def split: if_splits prod.splits dest: putProduced_frame)

lemma commitCall_effect:
  assumes "commitCall c call f s = (s', e)"
  shows "cs_Ran s' = cs_Ran s" "meter l (cx_Run c) v (cs_Budget s) \<Longrightarrow> meter l (cx_Run c) v (cs_Budget s')"
  using assms by (auto simp: commitCall_def Let_def split: if_splits prod.splits dest!: meter_Commit [rotated])

lemma callFailed_frame:
  "callFailed K c call tc e fatal s = (s', r) \<Longrightarrow> cs_Ran s' = cs_Ran s \<and> cs_Budget s' = cs_Budget s \<and>
     (\<forall>msg. r = Inr msg \<longrightarrow> answersCall tc msg)"
  by (auto simp: callFailed_def split: prod.splits if_splits dest: toolFailed_frame)

lemma finishInvoke_effect:
  assumes "finishInvoke K c call tc w f s = (s', r)"
  shows "cs_Ran s' = cs_Ran s" "meter l (cx_Run c) v (cs_Budget s) \<Longrightarrow> meter l (cx_Run c) v (cs_Budget s')"
    "r = Inr msg \<Longrightarrow> answersCall tc msg"
proof -
  obtain s1 ce where cc: "commitCall c call f s = (s1, ce)" by fastforce
  have fin: "cs_Ran s' = cs_Ran s1 \<and> cs_Budget s' = cs_Budget s1 \<and>
      (\<forall>msg. r = Inr msg \<longrightarrow> answersCall tc msg)"
    using assms unfolding finishInvoke_def cc
    by (auto simp: Let_def split: option.splits if_splits prod.splits sum.splits
        dest!: callFailed_frame storeArtifacts_frame)
  note commitCall_effect [OF cc]
  with fin show "cs_Ran s' = cs_Ran s" "r = Inr msg \<Longrightarrow> answersCall tc msg"
    "meter l (cx_Run c) v (cs_Budget s) \<Longrightarrow> meter l (cx_Run c) v (cs_Budget s')" by auto
qed

lemma beginInvoke_frame:
  assumes "beginInvoke c slot call w s = (s', r)"
  shows "cs_Ran s' = cs_Ran s" "cs_Budget s' = cs_Budget s"
  using assms by (auto simp: beginInvoke_def split: option.splits if_splits)

text \<open>A round executes the call once; going on to another round takes a counted tool call.\<close>

lemma retryRound_ran:
  "retryRound K c exec call left w a s = (s', r) \<Longrightarrow> cs_Ran s' = (call, exec) # cs_Ran s"
  by (auto simp: retryRound_def Let_def
      split: prod.splits option.splits if_splits backoffEnd.splits dest: loopDetected_frame)

lemma retryRound_meter:
  assumes "retryRound K c exec call left w a s = (s', r)" and m: "meter l (cx_Run c) v (cs_Budget s)"
  shows "\<exists>v'. meter l (cx_Run c) v' (cs_Budget s') \<and> (case r of Inl _ \<Rightarrow> v \<le> v' | Inr _ \<Rightarrow> v + 1 \<le> v')"
proof -
  have 1: "\<exists>v'. meter l (cx_Run c) v' b' \<and> v \<le> v'" if "ReserveToolCall b (cx_Run c) = (b', e)"
    "meter l (cx_Run c) v b" for b b' e
    using meter_ReserveToolCall [OF that(2,1)] by (auto split: if_splits intro: exI [of _ v] exI [of _ "v + 1"])
  have 2: "\<exists>v'. meter l (cx_Run c) v' b' \<and> v + 1 \<le> v'" if "ReserveToolCall b (cx_Run c) = (b', None)"
    "meter l (cx_Run c) v b" for b b'
    using meter_ReserveToolCall [OF that(2,1)] by auto
  from assms show ?thesis
    unfolding retryRound_def Let_def
    apply (auto split: prod.splits option.splits if_splits backoffEnd.splits
        dest!: loopDetected_frame(2) dest: 1 2)
    done
qed

lemma callOver_effect:
  assumes "callOver K c p w f s = (s', r)"
  shows "\<exists>res. r = Inl res \<and> (\<forall>msg. res = Inr msg \<longrightarrow> answersCall (pl_tc p) msg)"
    and "cs_Ran s' = cs_Ran s"
    and "meter l (cx_Run c) v (cs_Budget s) \<Longrightarrow> meter l (cx_Run c) v (cs_Budget s')"
  using assms by (auto simp: callOver_def split: prod.splits dest: finishInvoke_effect)

text \<open>A step of a running call executes it at most once, and runs on only with a counted call left.\<close>

lemma callStep_ran:
  assumes "callStep K c p exec w r s = (s', out)"
  shows "cs_Ran s' = cs_Ran s \<or> cs_Ran s' = (pl_call p, exec) # cs_Ran s"
proof (cases r)
  case Entering
  with assms show ?thesis
    by (auto split: prod.splits option.splits sum.splits dest!: callOver_effect(2) beginInvoke_frame(1))
next
  case (Attempting left a)
  with assms show ?thesis
    by (auto split: prod.splits sum.splits dest!: callOver_effect(2) retryRound_ran)
qed

lemma callStep_answer:
  assumes "callStep K c p exec w r s = (s', Inl (Inr msg))"
  shows "answersCall (pl_tc p) msg"
  using assms by (cases r) (auto split: prod.splits option.splits sum.splits dest!: callOver_effect(1))

lemma callStep_meter:
  assumes step: "callStep K c p exec w r s = (s', out)" and m: "meter l (cx_Run c) v (cs_Budget s)"
  obtains v' where "meter l (cx_Run c) v' (cs_Budget s')" "v \<le> v'"
    "length (cs_Ran s') + (if isl out then 0 else 1) \<le> length (cs_Ran s) + 1 + nat (v' - v)"
proof (cases r)
  case Entering
  obtain s1 e where b: "beginInvoke c (pl_slot p) (pl_call p) w s = (s1, e)" by fastforce
  note same = beginInvoke_frame [OF b]
  from step Entering b same m have "meter l (cx_Run c) v (cs_Budget s')" "cs_Ran s' = cs_Ran s"
    by (auto split: option.splits sum.splits dest: callOver_effect(2,3))
  then show ?thesis by (intro that [of v]) auto
next
  case (Attempting left a)
  obtain s1 q where round: "retryRound K c exec (pl_call p) left (iv_attempts w (at_attempt a)) a s = (s1, q)"
    by fastforce
  obtain v1 where v1: "meter l (cx_Run c) v1 (cs_Budget s1)" "case q of Inl _ \<Rightarrow> v \<le> v1 | Inr _ \<Rightarrow> v + 1 \<le> v1"
    using retryRound_meter [OF round m] by blast
  note ran = retryRound_ran [OF round]
  show ?thesis
  proof (cases q)
    case (Inl f)
    with step Attempting round have "callOver K c p w f s1 = (s', out)" by simp
    note over = callOver_effect [OF this]
    with Inl v1 ran show ?thesis by (intro that [of v1]) auto
  next
    case (Inr a')
    with step Attempting round v1 ran show ?thesis by (intro that [of v1]) auto
  qed
qed

section \<open>Invariants of the dispatch\<close>

definition dispatch_shape :: "int \<Rightarrow> 'x plannedTool list \<Rightarrow> 'x Dispatch \<Rightarrow> bool" where
  "dispatch_shape maxParallel plans d \<longleftrightarrow> di_next d \<le> length plans \<and>
     dom (di_active d) \<inter> fst ` set (di_results d) = {} \<and>
     dom (di_active d) \<union> fst ` set (di_results d) = {..<di_next d} \<and>
     distinct (map fst (di_results d)) \<and>
     (\<forall>i \<in> dom (di_active d). pl_refused (plans ! i) = None \<and>
        (\<not> pl_runParallel (plans ! i) \<longrightarrow> dom (di_active d) = {i})) \<and>
     int (card (dom (di_active d))) \<le> max maxParallel 1"

lemma dispatch_shape0: "dispatch_shape n plans (dispatch0 s)"
  by (simp add: dispatch_shape_def dispatch0_def)

lemma dispatch_shape_finite: "dispatch_shape n plans d \<Longrightarrow> finite (dom (di_active d))"
  unfolding dispatch_shape_def by (metis finite_Un finite_lessThan)

lemma dispatch_shape_active:
  assumes "dispatch_shape n plans d" and "i \<in> dom (di_active d)"
  shows "i < di_next d" "i < length plans" "pl_refused (plans ! i) = None"
    "pl_runParallel (plans ! i) \<or> dom (di_active d) = {i}"
proof -
  from assms have "i \<in> {..<di_next d}" "di_next d \<le> length plans"
    unfolding dispatch_shape_def by blast+
  then show "i < di_next d" "i < length plans" by simp_all
  from assms show "pl_refused (plans ! i) = None" "pl_runParallel (plans ! i) \<or> dom (di_active d) = {i}"
    unfolding dispatch_shape_def by blast+
qed

lemma dispatch_shape_fresh:
  "dispatch_shape n plans d \<Longrightarrow> di_next d \<notin> dom (di_active d) \<and> di_next d \<notin> fst ` set (di_results d)"
  unfolding dispatch_shape_def by (metis UnCI lessThan_iff less_irrefl)

lemma dispatch_shape_step:
  assumes "dispatch_step K c n ends world plans d d'" and ok: "dispatch_shape n plans d"
  shows "dispatch_shape n plans d'"
  using assms(1)
proof cases
  case (refuse e s msg)
  with ok dispatch_shape_fresh [OF ok] show ?thesis by (auto simp: dispatch_shape_def lessThan_Suc)
next
  case spawn
  have "card (insert (di_next d) (dom (di_active d))) = Suc (card (dom (di_active d)))"
    using dispatch_shape_finite [OF ok] dispatch_shape_fresh [OF ok] by simp
  with spawn ok dispatch_shape_fresh [OF ok] show ?thesis
    by (auto simp: dispatch_shape_def lessThan_Suc loopFree_def)
next
  case (give_up e)
  with ok dispatch_shape_fresh [OF ok] show ?thesis by (auto simp: dispatch_shape_def lessThan_Suc)
next
  case alone
  with ok dispatch_shape_fresh [OF ok] show ?thesis by (auto simp: dispatch_shape_def lessThan_Suc)
next
  case (advance i r exec s r')
  then have "dom ((di_active d)(i \<mapsto> r')) = dom (di_active d)" by auto
  with advance ok show ?thesis by (simp add: dispatch_shape_def)
next
  case (conclude i r exec s res)
  then have i: "i \<in> dom (di_active d)" by auto
  have "card (dom (di_active d) - {i}) \<le> card (dom (di_active d))"
    by (simp add: card_Diff1_le)
  moreover have "pl_runParallel (plans ! j)" if "j \<in> dom (di_active d)" "j \<noteq> i" for j
    using dispatch_shape_active(4) [OF ok that(1)] i that(2) by (metis singletonD)
  ultimately show ?thesis using conclude ok i by (auto simp: dispatch_shape_def)
qed


definition dispatch_ran :: "'x plannedTool list \<Rightarrow> 'x CallState \<Rightarrow> 'x Dispatch \<Rightarrow> bool" where
  "dispatch_ran plans s0 d \<longleftrightarrow> (\<exists>new. cs_Ran (di_state d) = new @ cs_Ran s0 \<and>
     (\<forall>(call, exec) \<in> set new. \<exists>p \<in> set plans. pl_refused p = None \<and> call = pl_call p \<and> pl_exec p = Some exec))"

lemma dispatch_ran_step:
  assumes "dispatch_step K c n ends world plans d d'" and shape: "dispatch_shape n plans d"
    and ok: "dispatch_ran plans s0 d"
  shows "dispatch_ran plans s0 d'"
proof -
  from ok obtain new where new: "cs_Ran (di_state d) = new @ cs_Ran s0"
    "\<forall>(call, exec) \<in> set new. \<exists>p \<in> set plans. pl_refused p = None \<and> call = pl_call p \<and> pl_exec p = Some exec"
    by (auto simp: dispatch_ran_def)
  have active: "plans ! i \<in> set plans \<and> pl_refused (plans ! i) = None" if "di_active d i = Some r" for i r
    using dispatch_shape_active [OF shape, of i] that by (simp add: domI)
  have step: "dispatch_ran plans s0 (d''\<lparr>di_state := s\<rparr>)"
    if "di_active d i = Some r" "pl_exec (plans ! i) = Some exec"
      "callStep K c (plans ! i) exec w r (di_state d) = (s, out)" for i r exec w s out d''
    using callStep_ran [OF that(3)]
  proof
    assume "cs_Ran s = cs_Ran (di_state d)"
    with new show ?thesis by (auto simp: dispatch_ran_def)
  next
    assume "cs_Ran s = (pl_call (plans ! i), exec) # cs_Ran (di_state d)"
    then have "cs_Ran s = ((pl_call (plans ! i), exec) # new) @ cs_Ran s0" using new by simp
    then show ?thesis
      using new(2) active [OF that(1)] that(2) unfolding dispatch_ran_def
      by (intro exI [of _ "(pl_call (plans ! i), exec) # new"]) auto
  qed
  from assms(1) show ?thesis
  proof cases
    case (refuse e s msg)
    with ok show ?thesis by (simp add: dispatch_ran_def toolFailed_frame(1))
  next
    case (advance i r exec s r')
    with step [of i r exec "world i" s "Inr r'" "d\<lparr>di_active := (di_active d)(i \<mapsto> r')\<rparr>"]
    show ?thesis by simp
  next
    case (conclude i r exec s res)
    with step [of i r exec "world i" s "Inl res" "d\<lparr>di_active := (di_active d)(i := None), di_results := di_results d @ [(i, res)]\<rparr>"]
    show ?thesis by simp
  qed (use ok in \<open>simp_all add: dispatch_ran_def\<close>)
qed

text \<open>Every answer goes to the call it answers.\<close>

definition dispatch_answers :: "'x plannedTool list \<Rightarrow> 'x Dispatch \<Rightarrow> bool" where
  "dispatch_answers plans d \<longleftrightarrow> (\<forall>(i, r) \<in> set (di_results d). \<forall>msg. r = Inr msg \<longrightarrow>
     answersCall (pl_tc (plans ! i)) msg)"

lemma dispatch_answers_step:
  assumes "dispatch_step K c n ends world plans d d'" and "dispatch_answers plans d"
  shows "dispatch_answers plans d'"
  using assms by cases (auto simp: dispatch_answers_def dest: toolFailed_frame(3) callStep_answer)

text \<open>What was executed and may still be executed once is covered by the calls counted.\<close>

definition dispatch_meter :: "Limits \<Rightarrow> RunID \<Rightarrow> int \<Rightarrow> 'x plannedTool list \<Rightarrow> 'x Dispatch \<Rightarrow> bool" where
  "dispatch_meter l run base plans d \<longleftrightarrow> (\<exists>v. meter l run v (cs_Budget (di_state d)) \<and>
     int (length (cs_Ran (di_state d)) + (length plans - di_next d) + card (dom (di_active d))) \<le> base + v)"

lemma dispatch_meter_step:
  assumes "dispatch_step K c n ends world plans d d'" and shape: "dispatch_shape n plans d"
    and ok: "dispatch_meter l (cx_Run c) base plans d"
  shows "dispatch_meter l (cx_Run c) base plans d'"
proof -
  from ok obtain v where v: "meter l (cx_Run c) v (cs_Budget (di_state d))"
    "int (length (cs_Ran (di_state d)) + (length plans - di_next d) + card (dom (di_active d))) \<le> base + v"
    by (auto simp: dispatch_meter_def)
  have fresh: "card (insert (di_next d) (dom (di_active d))) = Suc (card (dom (di_active d)))"
    using dispatch_shape_finite [OF shape] dispatch_shape_fresh [OF shape] by simp
  from assms(1) show ?thesis
  proof cases
    case (refuse e s msg)
    with v show ?thesis by (auto simp: dispatch_meter_def toolFailed_frame)
  next
    case spawn
    with v fresh show ?thesis by (auto simp: dispatch_meter_def)
  next
    case (give_up e)
    with v show ?thesis by (auto simp: dispatch_meter_def)
  next
    case alone
    with v show ?thesis by (auto simp: dispatch_meter_def)
  next
    case (advance i r exec s r')
    obtain v' where "meter l (cx_Run c) v' (cs_Budget s)" "v \<le> v'"
      "length (cs_Ran s) + 1 \<le> length (cs_Ran (di_state d)) + 1 + nat (v' - v)"
      using callStep_meter [OF advance(4) v(1)] by auto
    moreover have "dom ((di_active d)(i \<mapsto> r')) = dom (di_active d)" using advance by auto
    ultimately show ?thesis using v advance by (auto simp: dispatch_meter_def intro!: exI [of _ v'])
  next
    case (conclude i r exec s res)
    obtain v' where "meter l (cx_Run c) v' (cs_Budget s)" "v \<le> v'"
      "length (cs_Ran s) \<le> length (cs_Ran (di_state d)) + 1 + nat (v' - v)"
      using callStep_meter [OF conclude(4) v(1)] by auto
    moreover have "card (dom (di_active d)) = Suc (card (dom (di_active d) - {i}))"
      using conclude dispatch_shape_finite [OF shape] by (metis card.remove domI)
    ultimately show ?thesis using v conclude by (auto simp: dispatch_meter_def intro!: exI [of _ v'])
  qed
qed

section \<open>The dispatch always goes on and ends\<close>

lemma dispatch_progress:
  assumes shape: "dispatch_shape n plans d" and open_calls: "\<not> dispatched plans d"
    and runnable: "\<forall>p \<in> set plans. pl_refused p = None \<longrightarrow> pl_exec p \<noteq> None"
  shows "\<exists>d'. dispatch_step K c n ends world plans d d'"
proof (cases "di_active d = Map.empty")
  case True
  with open_calls shape have len: "di_next d < length plans"
    by (auto simp: dispatched_def dispatch_shape_def)
  let ?p = "plans ! di_next d"
  have free: "loopFree plans d" by (simp add: loopFree_def True)
  show ?thesis
  proof (cases "pl_refused ?p")
    case (Some e)
    then show ?thesis
      using dispatch_step.refuse [OF len free Some, of K c "fst (toolFailed K c (pl_call ?p) (pl_tc ?p) e False (di_state d))"
          "snd (toolFailed K c (pl_call ?p) (pl_tc ?p) e False (di_state d))"] by auto
  next
    case None
    then show ?thesis
    proof (cases "pl_runParallel ?p")
      case par: True
      have "int (card (dom (di_active d))) < max n 1" by (simp add: True)
      from dispatch_step.spawn [OF len free None par this] show ?thesis by blast
    next
      case False
      from dispatch_step.alone [OF len True None False] show ?thesis by blast
    qed
  qed
next
  case False
  then obtain i where i: "i \<in> dom (di_active d)" by auto
  then obtain r where r: "di_active d i = Some r" by auto
  from dispatch_shape_active [OF shape i] runnable obtain exec where x: "pl_exec (plans ! i) = Some exec"
    by (metis nth_mem option.exhaust)
  obtain s' out where step: "callStep K c (plans ! i) exec (world i) r (di_state d) = (s', out)"
    by (cases "callStep K c (plans ! i) exec (world i) r (di_state d)")
  show ?thesis
  proof (cases out)
    case (Inl res)
    from dispatch_step.conclude [where d = d and i = i and world = world and plans = plans, OF r x step [unfolded Inl]] show ?thesis by blast
  next
    case (Inr r')
    from dispatch_step.advance [where d = d and i = i and world = world and plans = plans, OF r x step [unfolded Inr]] show ?thesis by blast
  qed
qed

definition roundsLeft :: "ToolSetup \<Rightarrow> running \<Rightarrow> nat" where
  "roundsLeft K r = (case r of Entering \<Rightarrow> nat (rp_MaxAttempts (ts_Retry K)) + 2
     | Attempting left a \<Rightarrow> nat (rp_MaxAttempts (ts_Retry K) - at_attempt a) + 1)"

definition stepsLeft :: "ToolSetup \<Rightarrow> 'x plannedTool list \<Rightarrow> 'x Dispatch \<Rightarrow> nat" where
  "stepsLeft K plans d = (length plans - di_next d) * (nat (rp_MaxAttempts (ts_Retry K)) + 3) +
     (\<Sum>i \<in> dom (di_active d). roundsLeft K (the (di_active d i)))"

lemma retryRound_next: "retryRound K c exec call left w a s = (s', Inr a') \<Longrightarrow>
    at_attempt a' = at_attempt a + 1 \<and> at_attempt a < rp_MaxAttempts (ts_Retry K)"
  by (simp add: retryRound_again)

lemma callStep_decreases:
  "callStep K c p exec w r s = (s', Inr r') \<Longrightarrow> roundsLeft K r' < roundsLeft K r"
  by (cases r) (auto simp: roundsLeft_def callOver_def split: prod.splits option.splits sum.splits
      dest!: retryRound_next)

lemma sum_dom_upd: "finite (dom m) \<Longrightarrow> i \<notin> dom m \<Longrightarrow>
    (\<Sum>j \<in> dom (m(i \<mapsto> r)). f (the ((m(i \<mapsto> r)) j)) :: nat) = f r + (\<Sum>j \<in> dom m. f (the (m j)))"
  by (simp add: domIff) (rule sum.cong, auto)

lemma sum_dom_del: "finite (dom m) \<Longrightarrow> m i = Some r \<Longrightarrow>
    (\<Sum>j \<in> dom m. f (the (m j)) :: nat) = f r + (\<Sum>j \<in> dom (m(i := None)). f (the ((m(i := None)) j)))"
  by (subst sum.remove [of _ i]) (auto intro: sum.cong)

lemma stepsLeft_step:
  assumes "dispatch_step K c n ends world plans d d'" and shape: "dispatch_shape n plans d"
  shows "stepsLeft K plans d' < stepsLeft K plans d"
proof -
  note fin = dispatch_shape_finite [OF shape]
  have fresh: "di_next d \<notin> dom (di_active d)" using dispatch_shape_fresh [OF shape] by blast
  have less: "(length plans - di_next d) * q = (length plans - Suc (di_next d)) * q + q"
    if "di_next d < length plans" for q :: nat
    using that by (simp add: Suc_diff_Suc [symmetric] del: Suc_diff_Suc)
  from assms(1) show ?thesis
  proof cases
    case (refuse e s msg)
    with less show ?thesis by (simp add: stepsLeft_def)
  next
    case spawn
    with less sum_dom_upd [OF fin fresh, of "roundsLeft K" Entering] show ?thesis
      by (simp add: stepsLeft_def roundsLeft_def)
  next
    case (give_up e)
    with less show ?thesis by (simp add: stepsLeft_def)
  next
    case alone
    with less show ?thesis by (simp add: stepsLeft_def roundsLeft_def)
  next
    case (advance i r exec s r')
    have "((di_active d)(i \<mapsto> r'))(i := None) = (di_active d)(i := None)" by auto
    with advance sum_dom_del [OF fin, of i r "roundsLeft K"] callStep_decreases [OF advance(4)]
      sum_dom_del [of "(di_active d)(i \<mapsto> r')" i r' "roundsLeft K"] fin
    show ?thesis by (simp add: stepsLeft_def)
  next
    case (conclude i r exec s res)
    with sum_dom_del [OF fin, of i r "roundsLeft K"] show ?thesis
      by (cases r) (simp_all add: stepsLeft_def roundsLeft_def)
  qed
qed

end
