(* ===== verification/ToolProperties.thy ===== *)
theory ToolProperties
  imports ToolSafety
begin

text \<open>
  What holds of \<open>runToolCalls\<close> as a whole: which calls it executes, how many, how they share the
  time, and that every call of the reply is answered.
\<close>

section \<open>Plans\<close>

text \<open>A plan that is not refused runs a built-in, or an allowed tool whose input was accepted.\<close>

definition plan_of :: "ToolSetup \<Rightarrow> 'sc InputCheck \<Rightarrow> CallScope \<Rightarrow> (string \<rightharpoonup> ('x, 'sc) allowedTool)
    \<Rightarrow> (string \<rightharpoonup> 'x) \<Rightarrow> ToolCall \<Rightarrow> 'x plannedTool \<Rightarrow> bool" where
  "plan_of K J c allowed builtins tc p \<longleftrightarrow> pl_tc p = tc \<and> td_Name (cl_Tool (pl_call p)) \<in> {tc_Name tc} \<union>
       (td_Name \<circ> al_def) ` {a. allowed (tc_Name tc) = Some a} \<and> cl_Input (pl_call p) = tc_Input tc \<and>
     (pl_refused p = None \<longrightarrow>
       (\<exists>x. builtins (tc_Name tc) = Some x \<and> pl_exec p = Some x \<and> \<not> pl_requiresApproval p \<and>
          (pl_runParallel p \<longleftrightarrow> tc_Name tc = delegateTool)) \<or>
       (\<exists>a. builtins (tc_Name tc) = None \<and> allowed (tc_Name tc) = Some a \<and> pl_exec p = Some (al_exec a) \<and>
          cl_Tool (pl_call p) = al_def a \<and>
          CheckInput (ic_unmarshal J) (ic_validate J) (al_reg a) (tc_Name tc) (ts_text K (tc_Input tc)) = None \<and>
          pl_requiresApproval p = al_requiresApproval a \<and>
          (pl_runParallel p \<longleftrightarrow> td_Concurrency (al_def a) \<in>
             {ConcurrencyParallelRead, ConcurrencyParallelIsolatedWrite})))"

lemma planCall_plan:
  assumes "planCall K J c allowed builtins tc step b = (b', p)"
  shows "plan_of K J c allowed builtins tc p"
    and "meter l run v b' = meter l run v b"
  using assms by (auto simp: planCall_def plan_of_def plannedTool0_def callRecord_def Let_def
      split: option.splits prod.splits dest: meter_ReserveTool)

lemma observeCall_frame:
  assumes "observeCall K c tc w s = (s', e)"
  shows "cs_Ran s' = cs_Ran s" "cs_Budget s' = cs_Budget s"
  using assms by (auto simp: observeCall_def Let_def split: prod.splits if_splits
      dest: loopDetected_frame(1) loopDetected_frame(2))

lemma planLoop_plans:
  assumes "planLoop K J c allowed builtins world i tcs s = (s', r)"
  shows "cs_Ran s' = cs_Ran s"
    and "meter l run v (cs_Budget s') = meter l run v (cs_Budget s)"
    and "r = Inr ps \<Longrightarrow> list_all2 (plan_of K J c allowed builtins) tcs ps"
  using assms
proof (induction tcs arbitrary: i s s' r ps)
  case (Cons tc tcs)
  {
    case 1 from 1 Cons(1) show ?case
      by (auto split: prod.splits option.splits sum.splits dest!: observeCall_frame(1))
  next
    case 2 from 2 Cons(2) show ?case
      by (auto split: prod.splits option.splits sum.splits dest!: observeCall_frame(2) planCall_plan(2))
  next
    case 3 from 3 Cons(3) show ?case
      by (auto split: prod.splits option.splits sum.splits dest!: planCall_plan(1))
  }
qed auto

lemma fold_emit_frame [simp]:
  "cs_Ran (foldl (\<lambda>s p. emitCall (f p) s) s ps) = cs_Ran s"
  "cs_Budget (foldl (\<lambda>s p. emitCall (f p) s) s ps) = cs_Budget s"
  by (induction ps arbitrary: s) auto

lemma planCalls_cases:
  assumes "planCalls K J c allowed builtins world tcs s = (s', r)"
  obtains (refused) e where "r = Inl e" "cs_Ran s' = cs_Ran s"
    | (planned) ps b s1 where "r = Inr ps" "ReserveToolCalls (cs_Budget s) (cx_Run c) (int (length tcs)) = (b, None)"
      "planLoop K J c allowed builtins world 0 tcs (s\<lparr>cs_Budget := b\<rparr>) = (s1, Inr ps)"
      "cs_Ran s' = cs_Ran s1" "cs_Budget s' = cs_Budget s1"
  using assms unfolding planCalls_def
  by (auto split: prod.splits option.splits sum.splits dest: planLoop_plans(1))

lemma planCalls_plans:
  assumes "planCalls K J c allowed builtins world tcs s = (s', r)"
  shows "cs_Ran s' = cs_Ran s"
    and "r = Inr ps \<Longrightarrow> list_all2 (plan_of K J c allowed builtins) tcs ps"
    and "r = Inr ps \<Longrightarrow> meter l (cx_Run c) v (cs_Budget s) \<Longrightarrow> int (length tcs) < 2 ^ 62 \<Longrightarrow>
      meter l (cx_Run c) (v + int (length tcs)) (cs_Budget s')"
proof -
  show "cs_Ran s' = cs_Ran s"
    using assms by (cases rule: planCalls_cases) (auto dest: planLoop_plans(1))
  show "list_all2 (plan_of K J c allowed builtins) tcs ps" if "r = Inr ps"
    using assms that by (cases rule: planCalls_cases) (auto dest: planLoop_plans(3))
  show "meter l (cx_Run c) (v + int (length tcs)) (cs_Budget s')"
    if "r = Inr ps" "meter l (cx_Run c) v (cs_Budget s)" "int (length tcs) < 2 ^ 62"
    using assms
  proof (cases rule: planCalls_cases)
    case (planned ps1 b s1)
    with meter_ReserveToolCalls [OF that(2) _ that(3) planned(2)] planLoop_plans(2) [OF planned(3)]
    show ?thesis by simp
  qed (use that in simp)
qed

lemma approvePlans_plans:
  assumes "approvePlans c answers i ps s = (s', r)"
  shows "cs_Ran s' = cs_Ran s" and "meter l run v (cs_Budget s') = meter l run v (cs_Budget s)"
    and "r = Inr ps' \<Longrightarrow> length ps' = length ps \<and> (\<forall>j < length ps. pl_tc (ps' ! j) = pl_tc (ps ! j) \<and>
      (pl_refused (ps' ! j) = None \<longrightarrow> ps' ! j = ps ! j \<and>
         (pl_requiresApproval (ps ! j) \<longrightarrow> answers (i + j) = Inr ''approved'')))"
  using assms
proof (induction ps arbitrary: i s s' r ps')
  case (Cons p ps)
  {
    case 1 from 1 Cons(1) show ?case
      by (auto simp: approvePlan_def split: prod.splits sum.splits if_splits)
  next
    case 2 from 2 Cons(2) show ?case
      by (auto simp: approvePlan_def split: prod.splits sum.splits if_splits)
  next
    case 3
    then obtain s1 p1 s2 ps1 where parts: "ps' = p1 # ps1" "approvePlans c answers (i + 1) ps s1 = (s2, Inr ps1)"
      "pl_tc p1 = pl_tc p" "pl_refused p1 = None \<longrightarrow> p1 = p \<and> (pl_requiresApproval p \<longrightarrow> answers i = Inr ''approved'')"
      by (auto simp: approvePlan_def split: prod.splits sum.splits if_splits)
    from Cons(3) [OF refl parts(2)] parts show ?case
      by (auto simp: less_Suc_eq_0_disj)
  }
qed auto

section \<open>Dispatched replies\<close>

lemma dispatch_run:
  assumes "(dispatch_step K c n ends world plans)\<^sup>*\<^sup>* (dispatch0 s) d"
  shows "dispatch_shape n plans d \<and> dispatch_ran plans s d \<and> dispatch_answers plans d"
  using assms
proof induction
  case base
  show ?case by (simp add: dispatch_shape0) (simp add: dispatch_ran_def dispatch_answers_def dispatch0_def)
next
  case (step d d')
  then show ?case by (blast intro: dispatch_shape_step dispatch_ran_step dispatch_answers_step)
qed

lemma dispatch_run_meter:
  assumes "(dispatch_step K c n ends world plans)\<^sup>*\<^sup>* (dispatch0 s) d"
    and "meter l (cx_Run c) v (cs_Budget s)"
  shows "dispatch_meter l (cx_Run c) (int (length (cs_Ran s) + length plans) - v) plans d"
  using assms(1)
proof induction
  case base
  with assms(2) show ?case by (auto simp: dispatch_meter_def dispatch0_def)
next
  case (step d d')
  then show ?case using dispatch_run [OF step(1)] by (blast intro: dispatch_meter_step)
qed

text \<open>What the loop over the agent's tools allows.\<close>

definition cleared_tool :: "ToolSetup \<Rightarrow> 'sc InputCheck \<Rightarrow> ('x, 'sc) ToolBox \<Rightarrow> TenantID \<Rightarrow> ToolPolicy list
    \<Rightarrow> string list \<Rightarrow> bool \<Rightarrow> ToolCall \<Rightarrow> 'x \<Rightarrow> bool" where
  "cleared_tool K J tools tenant policies names approved tc exec \<longleftrightarrow> (\<exists>name reg slot d.
     name \<in> set names \<and> registryFor tools tenant name = Some (reg, slot) \<and>
     Registry_Get reg name = Some (d, exec) \<and> td_Name d = tc_Name tc \<and>
     list_all (\<lambda>p. permits p d) policies \<and> (list_ex (\<lambda>p. asks_approval p d) policies \<longrightarrow> approved) \<and>
     CheckInput (ic_unmarshal J) (ic_validate J) reg (tc_Name tc) (ts_text K (tc_Input tc)) = None)"

definition offered_from :: "('x, 'sc) ToolBox \<Rightarrow> TenantID \<Rightarrow> ToolPolicy list \<Rightarrow> string list \<Rightarrow> string
    \<Rightarrow> ('x, 'sc) allowedTool \<Rightarrow> bool" where
  "offered_from tools tenant policies names n a \<longleftrightarrow> (\<exists>name slot d.
     name \<in> set names \<and> registryFor tools tenant name = Some (al_reg a, slot) \<and>
     Registry_Get (al_reg a) name = Some (d, al_exec a) \<and> td_Name d = n \<and>
     list_all (\<lambda>p. permits p d) policies \<and> al_requiresApproval a = list_ex (\<lambda>p. asks_approval p d) policies \<and>
     td_Concurrency (al_def a) = td_Concurrency d)"

lemma offerTool_offered:
  assumes "offerTool tools tenant policies False name = Offered a" and "name \<in> set names"
  shows "offered_from tools tenant policies names (td_Name (al_def a)) a"
proof -
  from assms(1) obtain reg slot d exec ok approve reason where
    reg: "registryFor tools tenant name = Some (reg, slot)" "Registry_Get reg name = Some (d, exec)"
    and auth: "AuthorizeAll d policies = (ok, approve, reason)" "ok"
    and a: "a = \<lparr>al_def = d\<lparr>td_Timeout := shorterTimeout policies (td_Name d) (td_Timeout d)\<rparr>,
        al_reg = reg, al_exec = exec, al_slot = slot, al_requiresApproval = approve, al_approvalReason = reason,
        al_budgets = policyBudgets policies (td_Name d)\<rparr>"
    by (auto simp: offerTool_def split: if_splits option.splits prod.splits)
  have "list_all (\<lambda>p. permits p d) policies" "approve = list_ex (\<lambda>p. asks_approval p d) policies"
    using AuthorizeAll_allowed [of d policies] AuthorizeAll_approval [of d policies] auth by auto
  with reg a assms(2) show ?thesis unfolding offered_from_def by fastforce
qed

lemma offerTools_allowed:
  assumes "offerTools tools tenant policies False c names allowed specs s = (allowed', specs', s')"
    and "set names \<subseteq> set all" and "\<forall>n a. allowed n = Some a \<longrightarrow> offered_from tools tenant policies all n a"
    and "allowed' n = Some a"
  shows "offered_from tools tenant policies all n a"
  using assms
proof (induction names arbitrary: allowed specs s)
  case (Cons name names)
  show ?case
  proof (cases "offerTool tools tenant policies False name")
    case (Offered b)
    from Cons.prems(2) have "name \<in> set all" by simp
    note offerTool_offered [OF Offered this]
    with Cons.prems(3) have "\<forall>n a. (allowed(td_Name (al_def b) \<mapsto> b)) n = Some a \<longrightarrow>
        offered_from tools tenant policies all n a" by simp
    with Cons.IH [of "allowed(td_Name (al_def b) \<mapsto> b)"] Cons.prems(1,2,4) Offered show ?thesis by (simp del: fun_upd_apply)
  qed (use Cons in auto)
qed simp

section \<open>Only cleared calls are executed\<close>

definition planned_run :: "ToolSetup \<Rightarrow> CallScope \<Rightarrow> ('x, 'sc) ReplyIn \<Rightarrow> ToolCall list \<Rightarrow> Call \<times> 'x \<Rightarrow> bool" where
  "planned_run K c I tcs x \<longleftrightarrow> (\<exists>i < length tcs. \<exists>p.
    plan_of K (ry_Check I) c (ry_Allowed I) (ry_Builtins I) (tcs ! i) p \<and> pl_refused p = None \<and>
    fst x = pl_call p \<and> pl_exec p = Some (snd x) \<and>
    (pl_requiresApproval p \<longrightarrow> ry_Answers I i = Inr ''approved''))"

lemma runToolCalls_ran:
  assumes "runToolCalls K c I tcs s s' r"
  shows "\<exists>new. cs_Ran s' = new @ cs_Ran s \<and> list_all (planned_run K c I tcs) new"
  using assms
proof cases
  case (unplanned e)
  then show ?thesis by (auto dest: planCalls_plans(1))
next
  case (unapproved s1 ps0 e)
  then show ?thesis by (auto dest!: planCalls_plans(1) approvePlans_plans(1))
next
  case (answered s1 ps0 s2 ps d)
  have plan: "list_all2 (plan_of K (ry_Check I) c (ry_Allowed I) (ry_Builtins I)) tcs ps0"
    using planCalls_plans(2) [OF answered(3) refl] .
  note appr = approvePlans_plans(3) [OF answered(4) refl]
  have same: "cs_Ran s2 = cs_Ran s"
    using planCalls_plans(1) [OF answered(3)] approvePlans_plans(1) [OF answered(4)] by simp
  from dispatch_run [OF answered(5)] obtain new where new: "cs_Ran (di_state d) = new @ cs_Ran s"
    "\<forall>(call, exec) \<in> set new. \<exists>p \<in> set ps. pl_refused p = None \<and> call = pl_call p \<and> pl_exec p = Some exec"
    unfolding dispatch_ran_def same by blast
  have "planned_run K c I tcs x" if x: "x \<in> set new" for x
  proof -
    from new(2) x obtain p where p: "p \<in> set ps" "pl_refused p = None" "fst x = pl_call p" "pl_exec p = Some (snd x)"
      by (cases x) auto
    then obtain i where i: "i < length ps" "p = ps ! i" by (auto simp: in_set_conv_nth)
    from appr i(1) have "i < length ps0" by simp
    from appr [THEN conjunct2, rule_format, OF this] p(2)
    have "p = ps0 ! i" "pl_requiresApproval p \<longrightarrow> ry_Answers I i = Inr ''approved''"
      by (simp_all add: i(2))
    moreover have "i < length tcs" "plan_of K (ry_Check I) c (ry_Allowed I) (ry_Builtins I) (tcs ! i) (ps0 ! i)"
      using plan appr i by (auto simp: list_all2_conv_all_nth)
    ultimately show ?thesis using p unfolding planned_run_def by blast
  qed
  with new(1) show ?thesis unfolding answered(1) by (auto simp: list_all_iff)
qed

text \<open>A planned execution is of a built-in or of a tool that was offered.\<close>

definition cleared_run :: "ToolSetup \<Rightarrow> ('x, 'sc) ToolBox \<Rightarrow> TenantID \<Rightarrow> ToolPolicy list \<Rightarrow> string list
    \<Rightarrow> ('x, 'sc) ReplyIn \<Rightarrow> ToolCall list \<Rightarrow> Call \<times> 'x \<Rightarrow> bool" where
  "cleared_run K tools tenant policies names I tcs x \<longleftrightarrow> (\<exists>i < length tcs.
    cl_Input (fst x) = tc_Input (tcs ! i) \<and>
    (ry_Builtins I (tc_Name (tcs ! i)) = Some (snd x) \<or>
     cleared_tool K (ry_Check I) tools tenant policies names (ry_Answers I i = Inr ''approved'') (tcs ! i) (snd x)))"

lemma planned_run_cleared:
  assumes "\<And>n a. ry_Allowed I n = Some a \<Longrightarrow> offered_from tools tenant policies names n a"
    and "planned_run K c I tcs x"
  shows "cleared_run K tools tenant policies names I tcs x"
proof -
  from assms(2) obtain i p where p: "i < length tcs" "pl_refused p = None" "fst x = pl_call p"
    "plan_of K (ry_Check I) c (ry_Allowed I) (ry_Builtins I) (tcs ! i) p"
    "pl_exec p = Some (snd x)" "pl_requiresApproval p \<longrightarrow> ry_Answers I i = Inr ''approved''"
    by (auto simp: planned_run_def)
  show ?thesis
  proof (cases "ry_Builtins I (tc_Name (tcs ! i))")
    case (Some y)
    with p show ?thesis by (auto simp: plan_of_def cleared_run_def)
  next
    case None
    with p obtain a where a: "ry_Allowed I (tc_Name (tcs ! i)) = Some a" "snd x = al_exec a"
      "CheckInput (ic_unmarshal (ry_Check I)) (ic_validate (ry_Check I)) (al_reg a) (tc_Name (tcs ! i))
         (ts_text K (tc_Input (tcs ! i))) = None" "pl_requiresApproval p = al_requiresApproval a"
      by (auto simp: plan_of_def)
    from assms(1) [OF a(1)] a p(6)
    have "cleared_tool K (ry_Check I) tools tenant policies names (ry_Answers I i = Inr ''approved'') (tcs ! i) (snd x)"
      unfolding offered_from_def cleared_tool_def by auto
    moreover have "cl_Input (fst x) = tc_Input (tcs ! i)" using p by (simp add: plan_of_def)
    ultimately show ?thesis using p(1) unfolding cleared_run_def by blast
  qed
qed


section \<open>Executions are counted\<close>

text \<open>C5: Under a limit on tool calls, of which \<open>v\<close> are counted when a reply comes, its calls are
  executed at most as often as the limit leaves, retries included, however they interleave.\<close>

theorem reply_executions_within_limit:
  assumes "runToolCalls K c I tcs s s' r" and "meter l (cx_Run c) v (cs_Budget s)"
    and "int (length tcs) < 2 ^ 62"
  shows "int (length (cs_Ran s')) \<le> int (length (cs_Ran s)) + (MaxToolCalls l - v)"
  using assms(1)
proof cases
  case (unplanned e)
  with meter_le [OF assms(2)] show ?thesis by (auto dest: planCalls_plans(1))
next
  case (unapproved s1 ps0 e)
  with meter_le [OF assms(2)] show ?thesis by (auto dest!: planCalls_plans(1) approvePlans_plans(1))
next
  case (answered s1 ps0 s2 ps d)
  have ran: "cs_Ran s2 = cs_Ran s"
    using planCalls_plans(1) [OF answered(3)] approvePlans_plans(1) [OF answered(4)] by simp
  have len: "length ps = length tcs"
    using planCalls_plans(2) [OF answered(3) refl] approvePlans_plans(3) [OF answered(4) refl]
    by (simp add: list_all2_lengthD)
  have "meter l (cx_Run c) (v + int (length tcs)) (cs_Budget s2)"
    using planCalls_plans(3) [OF answered(3) refl assms(2,3)] approvePlans_plans(2) [OF answered(4)] by simp
  from dispatch_run_meter [OF answered(5) this] ran len obtain v' where
    "meter l (cx_Run c) v' (cs_Budget (di_state d))" "int (length (cs_Ran (di_state d))) \<le> int (length (cs_Ran s)) - v + v'"
    by (auto simp: dispatch_meter_def)
  with meter_le [of l "cx_Run c" v'] answered(1) show ?thesis by fastforce
qed

section \<open>How calls share the time\<close>

text \<open>The plans of a reply once its approvals are in.\<close>

definition readyPlans :: "ToolSetup \<Rightarrow> CallScope \<Rightarrow> ('x, 'sc) ReplyIn \<Rightarrow> ToolCall list \<Rightarrow> 'x CallState
    \<Rightarrow> ('x CallState \<times> 'x plannedTool list) option" where
  "readyPlans K c I tcs s =
    (case planCalls K (ry_Check I) c (ry_Allowed I) (ry_Builtins I) (ry_Plan I) tcs s of
       (s1, Inl e) \<Rightarrow> None
     | (s1, Inr ps0) \<Rightarrow> (case approvePlans c (ry_Answers I) 0 ps0 s1 of
         (s2, Inl e) \<Rightarrow> None | (s2, Inr ps) \<Rightarrow> Some (s2, ps)))"

lemma readyPlans_plans:
  assumes "readyPlans K c I tcs s = Some (s2, ps)"
  shows "length ps = length tcs" and "i < length tcs \<Longrightarrow> pl_tc (ps ! i) = tcs ! i"
    and "i < length tcs \<Longrightarrow> pl_refused (ps ! i) = None \<Longrightarrow>
      plan_of K (ry_Check I) c (ry_Allowed I) (ry_Builtins I) (tcs ! i) (ps ! i)"
proof -
  from assms obtain s1 ps0 where p: "planCalls K (ry_Check I) c (ry_Allowed I) (ry_Builtins I) (ry_Plan I) tcs s = (s1, Inr ps0)"
    "approvePlans c (ry_Answers I) 0 ps0 s1 = (s2, Inr ps)"
    by (auto simp: readyPlans_def split: prod.splits sum.splits)
  have plan: "length ps0 = length tcs"
    "\<And>i. i < length tcs \<Longrightarrow> plan_of K (ry_Check I) c (ry_Allowed I) (ry_Builtins I) (tcs ! i) (ps0 ! i)"
    using planCalls_plans(2) [OF p(1) refl] by (simp_all add: list_all2_conv_all_nth)
  note appr = approvePlans_plans(3) [OF p(2) refl]
  show "length ps = length tcs" using plan appr by simp
  show "pl_tc (ps ! i) = tcs ! i" if "i < length tcs"
    using plan(1) plan(2) [OF that] appr that by (simp add: plan_of_def)
  show "plan_of K (ry_Check I) c (ry_Allowed I) (ry_Builtins I) (tcs ! i) (ps ! i)"
    if "i < length tcs" "pl_refused (ps ! i) = None"
    using plan(1) plan(2) [OF that(1)] appr that by simp
qed

text \<open>At any moment no more calls of a reply are being executed than the run's limit allows, one if
  it allows none; and a call that is neither a delegation nor of a tool declared parallel is
  executed alone.\<close>

theorem calls_share_the_time:
  assumes "readyPlans K c I tcs s = Some (s2, ps)"
    and "(dispatch_step K c (ry_MaxParallel I) (ry_CtxEnds I) (ry_World I) ps)\<^sup>*\<^sup>* (dispatch0 s2) d"
  shows "int (card (dom (di_active d))) \<le> max (ry_MaxParallel I) 1 \<and>
    (\<forall>i \<in> dom (di_active d). i < length tcs \<and> (dom (di_active d) = {i} \<or> tc_Name (tcs ! i) = delegateTool \<or>
       (\<exists>a. ry_Allowed I (tc_Name (tcs ! i)) = Some a \<and>
          td_Concurrency (al_def a) \<in> {ConcurrencyParallelRead, ConcurrencyParallelIsolatedWrite})))"
proof -
  note shape = dispatch_run [OF assms(2), THEN conjunct1]
  have "i < length tcs \<and> (dom (di_active d) = {i} \<or> tc_Name (tcs ! i) = delegateTool \<or>
       (\<exists>a. ry_Allowed I (tc_Name (tcs ! i)) = Some a \<and>
          td_Concurrency (al_def a) \<in> {ConcurrencyParallelRead, ConcurrencyParallelIsolatedWrite}))"
    if i: "i \<in> dom (di_active d)" for i
  proof -
    note active = dispatch_shape_active [OF shape i]
    have len: "i < length tcs" using active(2) readyPlans_plans(1) [OF assms(1)] by simp
    have "plan_of K (ry_Check I) c (ry_Allowed I) (ry_Builtins I) (tcs ! i) (ps ! i)"
      by (rule readyPlans_plans(3) [OF assms(1) len active(3)])
    with active(3,4) len show ?thesis unfolding plan_of_def by auto
  qed
  with shape show ?thesis unfolding dispatch_shape_def by blast
qed

section \<open>Every call is answered\<close>

lemma collectResults_messages: "collectResults rs = Inr msgs \<Longrightarrow> map snd rs = map Inr msgs"
  by (induction rs arbitrary: msgs rule: collectResults.induct) (auto split: sum.splits)

lemma sorted_indexes:
  assumes "distinct (map fst rs)" and "fst ` set rs = {..<n}"
  shows "map fst (sort_key fst rs) = [0..<n]"
proof (rule sorted_distinct_set_unique)
  show "distinct (map fst (sort_key fst rs))"
    using assms(1) by (metis distinct_map distinct_sort set_sort)
  show "set (map fst (sort_key fst rs)) = set [0..<n]"
    using assms(2) by (simp add: atLeast0LessThan)
qed simp_all

lemma dispatched_answers:
  assumes shape: "dispatch_shape n plans d" and ans: "dispatch_answers plans d" and fin: "dispatched plans d"
    and res: "collectResults (sort_key fst (di_results d)) = Inr msgs"
  shows "list_all2 answersCall (map pl_tc plans) msgs"
proof -
  let ?rs = "sort_key fst (di_results d)"
  from shape fin have "distinct (map fst (di_results d))" "fst ` set (di_results d) = {..<length plans}"
    by (auto simp: dispatch_shape_def dispatched_def)
  from sorted_indexes [OF this] have idx: "map fst ?rs = [0..<length plans]" .
  from collectResults_messages [OF res] have msgs: "map snd ?rs = map Inr msgs" .
  have len: "length msgs = length plans" "length ?rs = length plans"
    using arg_cong [OF idx, of length] arg_cong [OF msgs, of length] by simp_all
  have "answersCall (pl_tc (plans ! i)) (msgs ! i)" if i: "i < length plans" for i
  proof -
    have "?rs ! i = (i, Inr (msgs ! i))"
      using arg_cong [OF idx, of "\<lambda>xs. xs ! i"] arg_cong [OF msgs, of "\<lambda>xs. xs ! i"] i len
      by (simp add: prod_eq_iff)
    moreover have "?rs ! i \<in> set (di_results d)" using i len nth_mem [of i ?rs] by simp
    ultimately show ?thesis using ans by (fastforce simp: dispatch_answers_def)
  qed
  with len show ?thesis by (simp add: list_all2_conv_all_nth)
qed

text \<open>C22: The calls of a reply always come to an end: however they interleave, they take a bounded
  number of steps, at every moment something can go on until all are done, and then the model is
  told one answer for each of its calls, in their order, or the task fails with an error.\<close>

theorem replies_are_answered:
  assumes ready: "readyPlans K c I tcs s = Some (s2, ps)"
    and steps: "(dispatch_step K c (ry_MaxParallel I) (ry_CtxEnds I) (ry_World I) ps ^^ n) (dispatch0 s2) d"
  shows "n \<le> length tcs * (nat (rp_MaxAttempts (ts_Retry K)) + 3) \<and>
    ((\<exists>d'. dispatch_step K c (ry_MaxParallel I) (ry_CtxEnds I) (ry_World I) ps d d') \<or>
     dispatched ps d \<and> (case collectResults (sort_key fst (di_results d)) of
       Inr msgs \<Rightarrow> list_all2 answersCall tcs msgs | Inl e \<Rightarrow> (\<exists>i. (i, Inl e) \<in> set (di_results d))))"
proof -
  let ?step = "dispatch_step K c (ry_MaxParallel I) (ry_CtxEnds I) (ry_World I) ps"
  have len: "length ps = length tcs" by (rule readyPlans_plans(1) [OF ready])
  have bound: "m + stepsLeft K ps d \<le> stepsLeft K ps (dispatch0 s2)" if "(?step ^^ m) (dispatch0 s2) d" for m d
    using that
  proof (induction m arbitrary: d)
    case (Suc m)
    then obtain d1 where d1: "(?step ^^ m) (dispatch0 s2) d1" "?step d1 d" by auto
    have "dispatch_shape (ry_MaxParallel I) ps d1"
      using dispatch_run relpowp_imp_rtranclp [OF d1(1)] by blast
    from Suc.IH [OF d1(1)] stepsLeft_step [OF d1(2) this] show ?case by simp
  qed simp
  have start: "stepsLeft K ps (dispatch0 s2) = length tcs * (nat (rp_MaxAttempts (ts_Retry K)) + 3)"
    by (simp add: stepsLeft_def dispatch0_def len)
  note run = dispatch_run [OF relpowp_imp_rtranclp [OF steps]]
  have runnable: "\<forall>p \<in> set ps. pl_refused p = None \<longrightarrow> pl_exec p \<noteq> None"
    using readyPlans_plans(3) [OF ready] len by (fastforce simp: in_set_conv_nth plan_of_def)
  have answers: "map pl_tc ps = tcs"
    using readyPlans_plans(2) [OF ready] len by (simp add: list_eq_iff_nth_eq)
  have err: "collectResults rs = Inl e \<Longrightarrow> \<exists>i. (i, Inl e) \<in> set rs" for rs e
    by (induction rs rule: collectResults.induct) (auto split: sum.splits)
  have "\<exists>d'. ?step d d'" if "\<not> dispatched ps d"
    using dispatch_progress [OF _ that runnable] run by blast
  moreover have "case collectResults (sort_key fst (di_results d)) of
       Inr msgs \<Rightarrow> list_all2 answersCall tcs msgs | Inl e \<Rightarrow> (\<exists>i. (i, Inl e) \<in> set (di_results d))"
    if "dispatched ps d"
    using dispatched_answers [OF _ _ that] run answers err [of "sort_key fst (di_results d)"]
    by (auto split: sum.splits)
  ultimately show ?thesis using bound [OF steps] start by auto
qed

lemma runToolCalls_answers:
  assumes "runToolCalls K c I tcs s s' (Inr msgs)"
  shows "list_all2 answersCall tcs msgs"
  using assms
proof cases
  case (answered s1 ps0 s2 ps d)
  then have ready: "readyPlans K c I tcs s = Some (s2, ps)" by (simp add: readyPlans_def)
  note run = dispatch_run [OF answered(5)]
  have "map pl_tc ps = tcs"
    using readyPlans_plans(1,2) [OF ready] by (simp add: list_eq_iff_nth_eq)
  with dispatched_answers [OF _ _ answered(6), of "ry_MaxParallel I" msgs] run answered(2) show ?thesis by simp
qed

section \<open>Attempts of one call\<close>

lemma retryLoop_ran:
  assumes "retryLoop K c exec call left world a s = (s', f)"
  shows "\<exists>n. cs_Ran s' = replicate (Suc n) (call, exec) @ cs_Ran s \<and>
    (n = 0 \<or> at_attempt a + int n \<le> rp_MaxAttempts (ts_Retry K) \<and>
       td_Idempotency (cl_Tool call) \<in> {IdemIdempotent, IdemConditionalIdempotent})"
  using assms
proof (induction K c exec call left world a s rule: retryLoop.induct)
  case (1 K c exec call left world a s)
  obtain s1 q where round: "retryRound K c exec call left (world (at_attempt a)) a s = (s1, q)" by fastforce
  note ran = retryRound_ran [OF round]
  show ?case
  proof (cases q)
    case (Inl g)
    with 1(2) round have "s' = s1" by (simp add: retryLoop.simps [of K c exec call left world a s])
    with ran show ?thesis by (intro exI [of _ 0]) simp
  next
    case (Inr a1)
    note again = retryRound_again [OF round [unfolded Inr]]
    from 1(2) round Inr have "retryLoop K c exec call left world a1 s1 = (s', f)"
      by (simp add: retryLoop.simps [of K c exec call left world a s])
    from 1(1) [OF round [symmetric] Inr this] obtain n where
      "cs_Ran s' = replicate (Suc n) (call, exec) @ cs_Ran s1"
      "n = 0 \<or> at_attempt a1 + int n \<le> rp_MaxAttempts (ts_Retry K)" by blast
    with ran again show ?thesis
      by (intro exI [of _ "Suc n"]) (auto simp: replicate_app_Cons_same)
  qed
qed

text \<open>A call executes its tool at most as often as \<open>ToolRetry\<close> allows, and more than once only when
  the tool is idempotent or conditionally so; every execution passes the same call, so the same
  idempotency key. It is not executed at all only when it got no slot or its time budget is used up.\<close>

theorem tool_attempts_bounded:
  assumes "invokeTool K c exec slot call tc budgets w s = (s', r)"
  shows "\<exists>n. cs_Ran s' = replicate n (call, exec) @ cs_Ran s \<and>
    (n \<le> 1 \<or> int n \<le> rp_MaxAttempts (ts_Retry K) \<and>
       td_Idempotency (cl_Tool call) \<in> {IdemIdempotent, IdemConditionalIdempotent}) \<and>
    (n = 0 \<longrightarrow> slot \<noteq> [] \<and> iv_slot w \<noteq> None \<or>
       snd (ToolTimeLeft (cs_Budget s) (cx_Run c) (td_Name (cl_Tool call)) budgets))"
proof -
  obtain s1 e where b: "beginInvoke c slot call w s = (s1, e)" by fastforce
  note same = beginInvoke_frame [OF b]
  show ?thesis
  proof (cases e)
    case (Some err)
    with assms b same show ?thesis
      by (auto simp: invokeTool_def beginInvoke_def split: option.splits if_splits intro: exI [of _ 0])
  next
    case None
    obtain s2 f where x: "executeWithRetries K c exec call budgets (iv_attempts w) s1 = (s2, f)" by fastforce
    from assms b None x have fin: "finishInvoke K c call tc w f s2 = (s', r)"
      by (simp add: invokeTool_def)
    have ran: "cs_Ran s' = cs_Ran s2" by (rule finishInvoke_effect(1) [OF fin])
    show ?thesis
    proof (cases "timeBudget c call budgets s1")
      case (Inl g)
      with x have "s2 = s1" by (simp add: executeWithRetries_def)
      with Inl ran same show ?thesis
        by (auto simp: timeBudget_def split: prod.splits if_splits intro: exI [of _ 0])
    next
      case (Inr left)
      with x have "retryLoop K c exec call left (iv_attempts w) firstAttempt s1 = (s2, f)"
        by (simp add: executeWithRetries_def)
      from retryLoop_ran [OF this] obtain n where "cs_Ran s2 = replicate (Suc n) (call, exec) @ cs_Ran s1"
        "n = 0 \<or> 1 + int n \<le> rp_MaxAttempts (ts_Retry K) \<and>
           td_Idempotency (cl_Tool call) \<in> {IdemIdempotent, IdemConditionalIdempotent}" by auto
      with ran same show ?thesis by (intro exI [of _ "Suc n"]) auto
    qed
  qed
qed

section \<open>A reply that pays once\<close>

text \<open>A tool that must be approved, and a reply that calls it.\<close>

definition payKit :: ToolSetup where
  "payKit = \<lparr>ts_Retry = \<lparr>rp_MaxAttempts = 3, rp_Backoff = 1\<rparr>, ts_LoopResponse = [],
     ts_MaxArtifactBytes = 0, ts_errText = (\<lambda>e. ''failed''), ts_redact = (\<lambda>s. s),
     ts_text = (\<lambda>r. ''paid''), ts_hash = (\<lambda>r. ''h'')\<rparr>"

definition payTool :: ToolDefinition where
  "payTool = ToolDefinition0\<lparr>td_ID := ''t1'', td_Name := ''pay'', td_SideEffect := SideWriteExternal,
     td_Concurrency := ConcurrencySerial, td_Idempotency := IdemUnknown\<rparr>"

definition payBox :: "(nat, unit) ToolBox" where
  "payBox = \<lparr>tb_Shared = [(''pay'', \<lparr>rg_def = payTool, rg_exec = 7, rg_schema = None\<rparr>)], tb_Tenant = Map.empty\<rparr>"

definition payPolicy :: ToolPolicy where
  "payPolicy = ToolPolicy0\<lparr>ApprovalRequired := [''pay'']\<rparr>"

definition payScope :: CallScope where
  "payScope = \<lparr>cx_Tenant = ''T'', cx_Session = ''S'', cx_Run = ''r'', cx_Task = ''k''\<rparr>"

definition payState :: "nat CallState" where
  "payState = \<lparr>cs_Store = NewMemStore, cs_Budget = Budget_Init NewBudgetManager ''r'' (Limits0\<lparr>MaxToolCalls := 2\<rparr>),
     cs_Loop = NewLoopDetector 0, cs_Events = [], cs_Ran = []\<rparr>"

definition payAttempt :: AttemptWorld where
  "payAttempt = \<lparr>aw_outcome = Returned (ToolResult0\<lparr>tr_Output := Some (JStr ''paid'')\<rparr>) None, aw_took = 5,
     aw_timeUp = False, aw_ctxErr = None, aw_retryAt = 0, aw_answer = Inr ''approved'', aw_wait = Elapsed\<rparr>"

definition payWorld :: InvokeWorld where
  "payWorld = \<lparr>iv_slot = None, iv_attempts = (\<lambda>n. payAttempt), iv_ctxErr = None,
     iv_artifact = (\<lambda>n. ([], 0)), iv_storedErr = None\<rparr>"

definition payReply :: "(nat, unit) ReplyIn" where
  "payReply = \<lparr>ry_Check = \<lparr>ic_unmarshal = (\<lambda>s. Inr JNull), ic_validate = (\<lambda>sc v. None)\<rparr>,
     ry_Allowed = fst (offerTools payBox ''T'' [payPolicy] False payScope [''pay''] Map.empty [] payState),
     ry_Builtins = Map.empty, ry_MaxParallel = 4, ry_Plan = (\<lambda>i. \<lparr>pw_step = ''s1'', pw_answer = Inr []\<rparr>),
     ry_Answers = (\<lambda>i. Inr ''approved''), ry_CtxEnds = (\<lambda>i. None), ry_World = (\<lambda>i. payWorld)\<rparr>"

definition payCall :: ToolCall where
  "payCall = \<lparr>tc_ID = ''c1'', tc_Name = ''pay'', tc_Input = Some (JObj [])\<rparr>"

definition payReady :: "nat CallState \<times> nat plannedTool list" where
  "payReady = the (readyPlans payKit payScope payReply [payCall] payState)"

definition payBegun :: "nat CallState" where
  "payBegun = fst (callStep payKit payScope (hd (snd payReady)) 7 payWorld Entering (fst payReady))"

definition payDone :: "nat CallState" where
  "payDone = fst (callStep payKit payScope (hd (snd payReady)) 7 payWorld (Attempting 0 firstAttempt) payBegun)"

lemma pay_ready: "readyPlans payKit payScope payReply [payCall] payState = Some (fst payReady, [hd (snd payReady)])"
proof -
  have "readyPlans payKit payScope payReply [payCall] payState \<noteq> None" by code_simp
  then have r: "readyPlans payKit payScope payReply [payCall] payState = Some (fst payReady, snd payReady)"
    by (auto simp: payReady_def)
  from readyPlans_plans(1) [OF r] have "snd payReady = [hd (snd payReady)]" by (cases "snd payReady") auto
  with r show ?thesis by simp
qed

lemma pay_plan: "pl_refused (hd (snd payReady)) = None" "pl_exec (hd (snd payReady)) = Some 7"
  "\<not> pl_runParallel (hd (snd payReady))"
  by code_simp+

lemma pay_steps:
  "callStep payKit payScope (hd (snd payReady)) 7 payWorld Entering (fst payReady) =
     (payBegun, Inr (Attempting 0 firstAttempt))"
  "\<exists>msg. callStep payKit payScope (hd (snd payReady)) 7 payWorld (Attempting 0 firstAttempt) payBegun =
     (payDone, Inl (Inr msg))"
proof -
  have "snd (callStep payKit payScope (hd (snd payReady)) 7 payWorld Entering (fst payReady)) =
      Inr (Attempting 0 firstAttempt)" by code_simp
  then show "callStep payKit payScope (hd (snd payReady)) 7 payWorld Entering (fst payReady) =
      (payBegun, Inr (Attempting 0 firstAttempt))" by (simp add: payBegun_def prod_eq_iff)
  have "(case snd (callStep payKit payScope (hd (snd payReady)) 7 payWorld (Attempting 0 firstAttempt) payBegun) of
      Inl (Inr msg) \<Rightarrow> True | _ \<Rightarrow> False)" by code_simp
  then show "\<exists>msg. callStep payKit payScope (hd (snd payReady)) 7 payWorld (Attempting 0 firstAttempt) payBegun =
     (payDone, Inl (Inr msg))" by (auto simp: payDone_def prod_eq_iff split: sum.splits)
qed

text \<open>The run of a reply with one call that is not parallel.\<close>

lemma single_call:
  assumes "pl_refused p = None" and "pl_exec p = Some x" and "\<not> pl_runParallel p"
    and "callStep K c p x (world 0) Entering s2 = (s3, Inr r1)"
    and "callStep K c p x (world 0) r1 s3 = (s4, Inl res)"
  shows "(dispatch_step K c n ends world [p])\<^sup>*\<^sup>* (dispatch0 s2)
      \<lparr>di_next = 1, di_active = [0 \<mapsto> Entering], di_results = [], di_state = s2\<rparr>"
    and "(dispatch_step K c n ends world [p])\<^sup>*\<^sup>* (dispatch0 s2)
      \<lparr>di_next = 1, di_active = Map.empty, di_results = [(0, res)], di_state = s4\<rparr>"
proof -
  let ?step = "dispatch_step K c n ends world [p]"
  let ?d1 = "\<lparr>di_next = 1, di_active = [0 \<mapsto> Entering], di_results = [], di_state = s2\<rparr>"
  let ?d2 = "\<lparr>di_next = 1, di_active = [0 \<mapsto> r1], di_results = [], di_state = s3\<rparr>"
  have 1: "?step (dispatch0 s2) ?d1"
    using dispatch_step.alone [of "dispatch0 s2" "[p]" K c n ends world] assms by (simp add: dispatch0_def)
  have 2: "?step ?d1 ?d2"
    using dispatch_step.advance [of ?d1 0 Entering "[p]" x K c world s3 r1 n ends] assms by simp
  have 3: "?step ?d2 \<lparr>di_next = 1, di_active = Map.empty, di_results = [(0, res)], di_state = s4\<rparr>"
    using dispatch_step.conclude [of ?d2 0 r1 "[p]" x K c world s4 res n ends] assms by simp
  show "?step\<^sup>*\<^sup>* (dispatch0 s2) ?d1" using 1 by blast
  show "?step\<^sup>*\<^sup>* (dispatch0 s2) \<lparr>di_next = 1, di_active = Map.empty, di_results = [(0, res)], di_state = s4\<rparr>"
    using 1 2 3 by (meson r_into_rtranclp rtranclp_trans)
qed

lemma readyPlans_reply:
  assumes "readyPlans K c I tcs s = Some (s2, ps)"
    and "(dispatch_step K c (ry_MaxParallel I) (ry_CtxEnds I) (ry_World I) ps)\<^sup>*\<^sup>* (dispatch0 s2) d"
    and "dispatched ps d"
  shows "runToolCalls K c I tcs s (di_state d) (collectResults (sort_key fst (di_results d)))"
  using assms by (auto simp: readyPlans_def split: prod.splits sum.splits intro: runToolCalls.answered)

lemma pay_run: "\<exists>msg. runToolCalls payKit payScope payReply [payCall] payState payDone (Inr [msg])"
proof -
  have w: "ry_World payReply 0 = payWorld" by (simp add: payReply_def)
  obtain msg where msg: "callStep payKit payScope (hd (snd payReady)) 7 payWorld (Attempting 0 firstAttempt) payBegun =
     (payDone, Inl (Inr msg))" using pay_steps(2) by blast
  note steps = single_call(2) [where world = "ry_World payReply" and K = payKit and c = payScope,
      unfolded w, OF pay_plan pay_steps(1) msg]
  from readyPlans_reply [OF pay_ready steps] show ?thesis by (auto simp: dispatched_def)
qed

lemma pay_ran: "length (cs_Ran payDone) = 1" "snd (hd (cs_Ran payDone)) = 7"
  by code_simp+


theorem reply_executions_within_limit_witness:
  "int (length (cs_Ran payDone)) \<le> 2"
proof -
  obtain msg where run: "runToolCalls payKit payScope payReply [payCall] payState payDone (Inr [msg])"
    using pay_run by blast
  have "meter (Defaults (Limits0\<lparr>MaxToolCalls := 2\<rparr>)) (cx_Run payScope) 0 (cs_Budget payState)"
    by code_simp
  from reply_executions_within_limit [OF run this] show ?thesis
    by (simp add: payState_def Limits0_def Defaults_def defaultTo_def)
qed

lemma pay_dispatch:
  "(dispatch_step payKit payScope (ry_MaxParallel payReply) (ry_CtxEnds payReply) (ry_World payReply)
      [hd (snd payReady)])\<^sup>*\<^sup>* (dispatch0 (fst payReady))
     \<lparr>di_next = 1, di_active = [0 \<mapsto> Entering], di_results = [], di_state = fst payReady\<rparr>"
proof -
  have w: "ry_World payReply 0 = payWorld" by (simp add: payReply_def)
  obtain msg where msg: "callStep payKit payScope (hd (snd payReady)) 7 payWorld (Attempting 0 firstAttempt) payBegun =
     (payDone, Inl (Inr msg))" using pay_steps(2) by blast
  show ?thesis
    by (rule single_call(1) [where world = "ry_World payReply" and K = payKit and c = payScope,
      unfolded w, OF pay_plan pay_steps(1) msg])
qed

text \<open>While the payment is being executed, nothing else is.\<close>

theorem calls_share_the_time_witness:
  "\<exists>d :: nat Dispatch. di_active d = [0 \<mapsto> Entering] \<and> card (dom (di_active d)) \<le> 4 \<and>
     (0 < length [payCall] \<and> (dom (di_active d) = {0} \<or> tc_Name ([payCall] ! 0) = delegateTool \<or>
       (\<exists>a. ry_Allowed payReply (tc_Name ([payCall] ! 0)) = Some a \<and>
          td_Concurrency (al_def a) \<in> {ConcurrencyParallelRead, ConcurrencyParallelIsolatedWrite})))"
  using calls_share_the_time [OF pay_ready pay_dispatch]
  by (intro exI [of _ "\<lparr>di_next = 1, di_active = [0 \<mapsto> Entering], di_results = [], di_state = fst payReady\<rparr>"]) simp

theorem replies_are_answered_witness:
  "\<exists>(d :: nat Dispatch) (n :: nat). di_active d = [0 \<mapsto> Entering] \<and> n \<le> 6 \<and>
     (\<exists>d'. dispatch_step payKit payScope 4 (ry_CtxEnds payReply) (ry_World payReply) [hd (snd payReady)] d d')"
proof -
  from pay_dispatch obtain n where n: "(dispatch_step payKit payScope (ry_MaxParallel payReply) (ry_CtxEnds payReply)
      (ry_World payReply) [hd (snd payReady)] ^^ n) (dispatch0 (fst payReady))
     \<lparr>di_next = 1, di_active = [0 \<mapsto> Entering], di_results = [], di_state = fst payReady\<rparr>"
    by (auto simp: rtranclp_power)
  have "ry_MaxParallel payReply = 4" "rp_MaxAttempts (ts_Retry payKit) = 3"
    by (simp_all add: payReply_def payKit_def)
  with replies_are_answered [OF pay_ready n] show ?thesis
    by (intro exI [of _ "\<lparr>di_next = 1, di_active = [0 \<mapsto> Entering], di_results = [], di_state = fst payReady\<rparr>"]
        exI [of _ n]) (simp add: dispatched_def)
qed

theorem tool_attempts_bounded_witness:
  "\<exists>n. cs_Ran (fst (invokeTool payKit payScope 7 [] (pl_call (hd (snd payReady))) payCall [] payWorld payState)) =
       replicate n (pl_call (hd (snd payReady)), 7) @ cs_Ran payState \<and> n \<le> 3"
  using tool_attempts_bounded [of payKit payScope 7 "[]" "pl_call (hd (snd payReady))" payCall "[]" payWorld payState
      "fst (invokeTool payKit payScope 7 [] (pl_call (hd (snd payReady))) payCall [] payWorld payState)"
      "snd (invokeTool payKit payScope 7 [] (pl_call (hd (snd payReady))) payCall [] payWorld payState)"]
  by (auto simp: payKit_def)

end
