(* ===== verification/ModelCalls.thy ===== *)
theory ModelCalls
  imports ToolUse
begin

text \<open>
  One model call of an agent (\<open>modelCall\<close> and \<open>completeTask\<close> in \<open>runtime/orchestrator.go\<close>): it is
  reserved, recorded with its request, made, recorded with its response and charged. What the
  cost gate answers, the slot of the agent and the provider's reply come in \<open>ModelWorld\<close>; the reply
  depends on the request. Streaming to subscribers, spans and metrics are left out.
\<close>

section \<open>Stored documents\<close>

definition usageDoc :: "Usage \<Rightarrow> json" where
  "usageDoc u = JObj [(''prompt_tokens'', JNum (PromptTokens u)), (''completion_tokens'', JNum (CompletionTokens u)),
     (''cached_tokens'', JNum (CachedTokens u)), (''total_tokens'', JNum (TotalTokens u)),
     (''cost_units'', JNum (CostUnits u)), (''model_calls'', JNum (ModelCalls u)),
     (''tool_calls'', JNum (ToolCalls u)), (''sub_agents'', JNum (SubAgents u)), (''runtime'', JNum (Runtime u))]"

definition withoutRaw :: "ChatResponse \<Rightarrow> ChatResponse" where
  "withoutRaw r = r\<lparr>cp_Raw := None\<rparr>"

definition responseDoc :: "ChatResponse \<Rightarrow> json" where
  "responseDoc r = JObj ([(''message'', messageDoc (cp_Message r))] @
     omitEmptyList ''tool_calls'' (map toolCallDoc (cp_ToolCalls r)) @ [(''usage'', usageDoc (cp_Usage r))] @
     (case cp_Raw r of None \<Rightarrow> [] | Some d \<Rightarrow> [(''raw'', d)]))"

section \<open>The call\<close>

record ModelWorld =
  mw_cost :: "goerr option"  \<comment> \<open>what \<open>checkCost\<close> returns\<close>
  mw_step :: StepID
  mw_slot :: "goerr option"  \<comment> \<open>the error of acquiring the agent's slot\<close>
  mw_chat :: "ChatRequest \<Rightarrow> ChatResponse \<times> goerr option"

definition filledRequest :: "CallScope \<Rightarrow> 'p Agent \<Rightarrow> StepID \<Rightarrow> ChatRequest \<Rightarrow> ChatRequest" where
  "filledRequest c agent step req = req\<lparr>cr_TenantID := cx_Tenant c, cr_RunID := cx_Run c,
     cr_StepID := step, cr_Model := ag_Model agent\<rparr>"

text \<open>\<open>actor\<close> is \<open>core.AgentPrincipal\<close>.\<close>

definition modelStarted :: "(string \<Rightarrow> PrincipalID) \<Rightarrow> CallScope \<Rightarrow> 'p Agent \<Rightarrow> ChatRequest \<Rightarrow> Event" where
  "modelStarted actor c agent req = (callEvent c (cr_StepID req) EvModelStarted VisibilityInternal
     (JObj [(''model'', JStr (ag_Model agent)), (''agent'', JStr (ag_Name agent))]))
     \<lparr>ev_ActorID := actor (ag_Name agent), ev_HiddenPayload := Some (mustJSON (JObj [(''request'', requestDoc req)]))\<rparr>"

definition modelCompleted :: "(string \<Rightarrow> PrincipalID) \<Rightarrow> CallScope \<Rightarrow> 'p Agent \<Rightarrow> StepID \<Rightarrow> ChatResponse \<Rightarrow> Event" where
  "modelCompleted actor c agent step resp = (callEvent c step EvModelCompleted VisibilityInternal
     (JObj [(''usage'', usageDoc (cp_Usage resp)), (''tool_calls'', JNum (int (length (cp_ToolCalls resp))))]))
     \<lparr>ev_ActorID := actor (ag_Name agent),
      ev_HiddenPayload := Some (mustJSON (JObj [(''content'', JStr (msg_Content (cp_Message resp))),
        (''thinking'', JStr (msg_Thinking (cp_Message resp))), (''response'', responseDoc (withoutRaw resp))]))\<rparr>"

text \<open>The call, with the requests sent to the provider. With an error, the response is not used.\<close>

definition modelCall :: "ToolSetup \<Rightarrow> (string \<Rightarrow> PrincipalID) \<Rightarrow> CallScope \<Rightarrow> 'p Agent \<Rightarrow> ChatRequest
    \<Rightarrow> ModelWorld \<Rightarrow> 'x CallState \<Rightarrow> 'x CallState \<times> ChatRequest list \<times> (goerr + ChatResponse)" where
  "modelCall K actor c agent req0 w s =
    (case mw_cost w of
       Some e \<Rightarrow> (s, [], Inl e)
     | None \<Rightarrow>
        (case ReserveModelCall (cs_Budget s) (cx_Run c) of
           (b, Some e) \<Rightarrow> (s\<lparr>cs_Budget := b\<rparr>, [], Inl e)
         | (b, None) \<Rightarrow>
            let req = filledRequest c agent (mw_step w) req0;
                s1 = emitCall (modelStarted actor c agent req) (s\<lparr>cs_Budget := b\<rparr>)
            in (case mw_slot w of
                  Some e \<Rightarrow> (s1, [], Inl e)
                | None \<Rightarrow>
                   (case mw_chat w req of
                      (resp, Some e) \<Rightarrow> (s1, [req], Inl (Errorf ''%w: %w'' [Sentinel ErrModelCall, redactErr K e]))
                    | (resp, None) \<Rightarrow>
                        let s2 = emitCall (modelCompleted actor c agent (mw_step w) resp) s1;
                            (b2, commitErr) = Commit (cs_Budget s2) (cx_Run c) ((cp_Usage resp)\<lparr>ModelCalls := 0\<rparr>);
                            s3 = persistUsage c (s2\<lparr>cs_Budget := b2\<rparr>)
                        in (s3, [req], case commitErr of Some e \<Rightarrow> Inl e | None \<Rightarrow> Inr resp)))))"

section \<open>The end of a task\<close>

text \<open>The message's identifier and time, and the time of the update.\<close>

record CompleteWorld =
  cw_messageID :: string
  cw_messageAt :: time
  cw_updatedAt :: time

definition completeTask :: "CallScope \<Rightarrow> string \<Rightarrow> string \<Rightarrow> CompleteWorld \<Rightarrow> 'x CallState \<Rightarrow> 'x CallState" where
  "completeTask c agent content w s =
    (let s1 = emitCall (callEvent c [] EvAgentMessage VisibilityPublic
                (JObj [(''agent'', JStr agent), (''content'', JStr content)])) s;
         m1 = AddMessage (cs_Store s1) \<lparr>mp_ID = [], mp_SessionID = cx_Session c, mp_RunID = cx_Run c,
                mp_EventID = [], mp_Role = ''assistant:'' @ agent, mp_Visibility = VisibilityPublic,
                mp_Content = content, mp_CreatedAt = 0\<rparr> (cw_messageID w) (cw_messageAt w);
         m2 = fst (UpdateTask m1 (Task0\<lparr>ta_ID := cx_Task c, ta_TenantID := cx_Tenant c, ta_RunID := cx_Run c,
                ta_AgentName := agent, ta_Status := TaskCompleted,
                ta_Output := Some (JObj [(''content'', JStr content)])\<rparr>) (cw_updatedAt w))
     in emitCall (callEvent c [] EvTaskCompleted VisibilityInternal (JObj [(''agent'', JStr agent)]))
          (s1\<lparr>cs_Store := m2\<rparr>))"

end
