(* ===== verification/Compaction.thy ===== *)
theory Compaction
  imports ModelCalls
begin

text \<open>
  History compaction (\<open>runtime/compaction.go\<close>): what agents see of a session, the summary of its
  older messages, and the summary of the older rounds of a task's tool loop.

  Encoding and decoding a snapshot are arguments. Lengths are those of the stored text, a list of
  bytes. The texts a summary is asked with are built as in the code.
\<close>

record CompactionConfig =
  co_Agent :: string
  co_MaxMessages :: int
  co_MaxTokens :: int
  co_KeepRecent :: int
  co_TaskMaxTokens :: int

abbreviation snapshotRole :: string where "snapshotRole \<equiv> ''snapshot''"

record snapshot =
  sn_Summary :: string
  sn_ThroughID :: string
  sn_Through :: time
  sn_Messages :: int

definition snapshot0 :: snapshot where
  "snapshot0 = \<lparr>sn_Summary = [], sn_ThroughID = [], sn_Through = 0, sn_Messages = 0\<rparr>"

record SnapshotCodec =
  sc_decode :: "string \<Rightarrow> snapshot option"
  sc_encode :: "snapshot \<Rightarrow> string"
  sc_time :: "time \<Rightarrow> string"   \<comment> \<open>a time as JSON writes it\<close>

abbreviation newline :: string where "newline \<equiv> [CHR 0x0A]"

definition summaryPrompt :: string where
  "summaryPrompt = ''Write an updated summary of the whole conversation for the assistant that continues it. '' @
     ''Keep every fact, name, number, decision, preference and open question a later reply may need. '' @
     ''Reply with only the summary.''"

section \<open>The messages of a session\<close>

text \<open>The loop over the stored messages: the last snapshot, and what is not of this run.\<close>

fun splitHistory :: "SnapshotCodec \<Rightarrow> RunID \<Rightarrow> snapshot \<Rightarrow> MessageProjection list
    \<Rightarrow> snapshot \<times> MessageProjection list" where
  "splitHistory C rid latest [] = (latest, [])"
| "splitHistory C rid latest (m # ms) =
    (if mp_Role m = snapshotRole
     then splitHistory C rid (case sc_decode C (mp_Content m) of None \<Rightarrow> latest | Some s \<Rightarrow> s) ms
     else case splitHistory C rid latest ms of
       (l, tail) \<Rightarrow> (l, if mp_RunID m \<noteq> rid then m # tail else tail))"

text \<open>The messages after the last summarized one, by its ID, or by time when it is not found.\<close>

definition afterSnapshot :: "snapshot \<Rightarrow> MessageProjection list \<Rightarrow> MessageProjection list" where
  "afterSnapshot s tail =
    (if sn_ThroughID s \<noteq> [] \<and> list_ex (\<lambda>m. mp_ID m = sn_ThroughID s) tail
     then tl (dropWhile (\<lambda>m. mp_ID m \<noteq> sn_ThroughID s) tail)
     else filter (\<lambda>m. mp_CreatedAt m > sn_Through s) tail)"

definition exceeded :: "CompactionConfig \<Rightarrow> MessageProjection list \<Rightarrow> bool" where
  "exceeded c msgs \<longleftrightarrow> (co_MaxMessages c > 0 \<and> int (length msgs) > co_MaxMessages c) \<or>
     (co_MaxTokens c > 0 \<and> int (sum_list (map (\<lambda>m. length (mp_Content m)) msgs) div 4) > co_MaxTokens c)"

definition historyMessage :: "MessageProjection \<Rightarrow> Message" where
  "historyMessage m = Message0\<lparr>msg_Role := (if mp_RunID m \<noteq> [] then ''assistant'' else ''user''),
     msg_Content := mp_Content m\<rparr>"

section \<open>Summaries\<close>

record CompactWorld =
  pk_model :: ModelWorld
  pk_messageID :: string
  pk_messageAt :: time

definition withInstructions :: "'p Agent \<Rightarrow> Message list \<Rightarrow> Message list" where
  "withInstructions agent ms = (if ag_Instructions agent \<noteq> []
     then [Message0\<lparr>msg_Role := ''system'', msg_Content := ag_Instructions agent\<rparr>] else []) @ ms"

definition userMessage :: "string \<Rightarrow> Message" where
  "userMessage text = Message0\<lparr>msg_Role := ''user'', msg_Content := text\<rparr>"

definition ChatRequest0 :: ChatRequest where
  "ChatRequest0 = \<lparr>cr_TenantID = [], cr_RunID = [], cr_StepID = [], cr_Model = [], cr_Messages = [],
     cr_Tools = [], cr_ToolCallMode = [], cr_ResponseSchema = None, cr_Parameters = [], cr_IdempotencyKey = []\<rparr>"

definition historyText :: "snapshot \<Rightarrow> MessageProjection list \<Rightarrow> string" where
  "historyText prev older = (if sn_Summary prev \<noteq> []
       then ''Summary so far:'' @ newline @ sn_Summary prev @ newline @ newline else []) @
     ''Conversation since then:'' @ newline @
     concat (map (\<lambda>m. ''['' @ msg_Role (historyMessage m) @ ''] '' @ mp_Content m @ newline) older) @
     newline @ summaryPrompt"

text \<open>\<open>trim\<close> is \<open>strings.TrimSpace\<close>.\<close>

definition compact :: "ToolSetup \<Rightarrow> (string \<Rightarrow> PrincipalID) \<Rightarrow> (string \<Rightarrow> string) \<Rightarrow> SnapshotCodec
    \<Rightarrow> (string \<rightharpoonup> 'p Agent) \<Rightarrow> CompactionConfig \<Rightarrow> CallScope \<Rightarrow> CompactWorld \<Rightarrow> snapshot
    \<Rightarrow> MessageProjection list \<Rightarrow> 'x CallState \<Rightarrow> 'x CallState \<times> (goerr + snapshot)" where
  "compact K actor trim C agents cfg c0 w prev older s =
    (let c = c0\<lparr>cx_Task := []\<rparr>
     in case agents (co_Agent cfg) of
       None \<Rightarrow> (s, Inl (Errorf ''compaction agent %q: %w'' [Sentinel ErrNotFound]))
     | Some agent \<Rightarrow>
        (case modelCall K actor c agent (ChatRequest0\<lparr>cr_Messages :=
                withInstructions agent [userMessage (historyText prev older)]\<rparr>) (pk_model w) s of
           (s1, _, Inl e) \<Rightarrow> (s1, Inl e)
         | (s1, _, Inr resp) \<Rightarrow>
             let nxt = \<lparr>sn_Summary = trim (msg_Content (cp_Message resp)), sn_ThroughID = mp_ID (last older),
                         sn_Through = mp_CreatedAt (last older), sn_Messages = sn_Messages prev + int (length older)\<rparr>
             in if sn_Summary nxt = [] then (s1, Inl (new_error ''agent %s wrote an empty summary''))
                else
                  let m = AddMessage (cs_Store s1) \<lparr>mp_ID = [], mp_SessionID = cx_Session c, mp_RunID = cx_Run c,
                            mp_EventID = [], mp_Role = snapshotRole, mp_Visibility = VisibilityInternal,
                            mp_Content = sc_encode C nxt, mp_CreatedAt = 0\<rparr> (pk_messageID w) (pk_messageAt w);
                      ev = (callEvent c [] EvSnapshot VisibilityInternal
                             (JObj [(''agent'', JStr (ag_Name agent)), (''summarized'', JNum (int (length older))),
                                    (''covers'', JNum (sn_Messages nxt)), (''through'', JStr (sc_time C (sn_Through nxt)))]))
                             \<lparr>ev_ActorID := actor (ag_Name agent),
                              ev_HiddenPayload := Some (JObj [(''summary'', JStr (sn_Summary nxt))])\<rparr>
                  in (emitCall ev (s1\<lparr>cs_Store := m\<rparr>), Inr nxt)))"

text \<open>How much of the tail is summarized: all but the messages to keep, once a trigger is passed.\<close>

definition olderPart :: "CompactionConfig \<Rightarrow> MessageProjection list \<Rightarrow> MessageProjection list" where
  "olderPart cfg tail =
    (if co_Agent cfg \<noteq> [] \<and> exceeded cfg tail
     then take (length tail - min (nat (max (co_KeepRecent cfg) 0)) (length tail)) tail else [])"

definition lastMessages :: "int \<Rightarrow> 'a list \<Rightarrow> 'a list" where
  "lastMessages n xs = (if n > 0 \<and> int (length xs) > n then drop (length xs - nat n) xs else xs)"

definition shownHistory :: "int \<Rightarrow> snapshot \<Rightarrow> MessageProjection list \<Rightarrow> Message list" where
  "shownHistory maxHistory latest tail =
    (if sn_Summary latest \<noteq> []
     then [userMessage (''Summary of the earlier conversation:'' @ newline @ sn_Summary latest)] else []) @
    map historyMessage (lastMessages maxHistory tail)"

definition sessionHistory :: "ToolSetup \<Rightarrow> (string \<Rightarrow> PrincipalID) \<Rightarrow> (string \<Rightarrow> string) \<Rightarrow> SnapshotCodec
    \<Rightarrow> (string \<rightharpoonup> 'p Agent) \<Rightarrow> CompactionConfig \<Rightarrow> int \<Rightarrow> CallScope \<Rightarrow> CompactWorld
    \<Rightarrow> 'x CallState \<Rightarrow> 'x CallState \<times> (goerr + Message list)" where
  "sessionHistory K actor trim C agents cfg maxHistory c w s =
    (case ListMessages (cs_Store s) (cx_Tenant c) (cx_Session c) of
       Inl e \<Rightarrow> (s, Inl e)
     | Inr stored \<Rightarrow>
        let (latest, tail0) = splitHistory C (cx_Run c) snapshot0 stored;
            tail = afterSnapshot latest tail0;
            older = olderPart cfg tail
        in if older = [] then (s, Inr (shownHistory maxHistory latest tail))
           else (case compact K actor trim C agents cfg c w latest older s of
                   (s1, Inl e) \<Rightarrow> (s1, Inl (Errorf ''compact history: %w'' [e]))
                 | (s1, Inr nxt) \<Rightarrow> (s1, Inr (shownHistory maxHistory nxt (drop (length older) tail)))))"

section \<open>The rounds of a task\<close>

definition taskSummaryPrompt :: string where
  "taskSummaryPrompt = ''Write a summary of the work on this task so far for the assistant that continues it: '' @
     ''what was tried, every tool result, fact, name, number and decision it still needs, and what is left to do. '' @
     ''Reply with only the summary.''"

definition writeTurn :: "(raw \<Rightarrow> string) \<Rightarrow> Message \<Rightarrow> string" where
  "writeTurn text m =
    (if msg_Role m = ''tool''
     then ''[tool '' @ msg_Name m @ '' returned] '' @ msg_Content m @ newline
     else if msg_ToolCalls m \<noteq> []
     then (if msg_Content m \<noteq> [] then ''['' @ msg_Role m @ ''] '' @ msg_Content m @ newline else []) @
          concat (map (\<lambda>tc. ''[assistant called '' @ tc_Name tc @ ''] '' @ text (tc_Input tc) @ newline) (msg_ToolCalls m))
     else ''['' @ msg_Role m @ ''] '' @ msg_Content m @ newline)"

definition estimateTokens :: "(raw \<Rightarrow> string) \<Rightarrow> Message list \<Rightarrow> int" where
  "estimateTokens text msgs = int (sum_list (map (\<lambda>m. length (msg_Content m) + length (msg_Thinking m) +
     sum_list (map (\<lambda>tc. length (tc_Name tc) + length (text (tc_Input tc))) (msg_ToolCalls m))) msgs) div 4)"

text \<open>The start of the latest round with tool calls after \<open>base\<close>, or \<open>base\<close>.\<close>

definition callsTools :: "Message \<Rightarrow> bool" where
  "callsTools m \<longleftrightarrow> msg_Role m = ''assistant'' \<and> msg_ToolCalls m \<noteq> []"

fun cutFrom :: "Message list \<Rightarrow> nat \<Rightarrow> nat \<Rightarrow> nat" where
  "cutFrom messages base 0 = base"
| "cutFrom messages base (Suc i) =
    (if Suc i \<le> base then base
     else if callsTools (messages ! Suc i) then Suc i else cutFrom messages base i)"

definition taskText :: "(raw \<Rightarrow> string) \<Rightarrow> string \<Rightarrow> Message list \<Rightarrow> string" where
  "taskText text prompt ms = ''Task:'' @ newline @ prompt @ newline @ newline @ ''Work so far:'' @ newline @
     concat (map (writeTurn text) ms) @ newline @ taskSummaryPrompt"

definition compactTask :: "ToolSetup \<Rightarrow> (string \<Rightarrow> PrincipalID) \<Rightarrow> (string \<Rightarrow> string) \<Rightarrow> (string \<rightharpoonup> 'p Agent)
    \<Rightarrow> CompactionConfig \<Rightarrow> CallScope \<Rightarrow> string \<Rightarrow> ModelWorld \<Rightarrow> Message list \<Rightarrow> nat
    \<Rightarrow> 'x CallState \<Rightarrow> 'x CallState \<times> (goerr + Message list)" where
  "compactTask K actor trim agents cfg c prompt w messages base s =
    (let cut = cutFrom messages base (length messages - 1);
         older = take (cut - base) (drop base messages)
     in if co_Agent cfg = [] \<or> co_TaskMaxTokens cfg \<le> 0 \<or>
           estimateTokens (ts_text K) (drop base messages) \<le> co_TaskMaxTokens cfg
        then (s, Inr messages)
        else if \<not> list_ex (\<lambda>m. msg_Role m = ''assistant'') older then (s, Inr messages)
        else case agents (co_Agent cfg) of
          None \<Rightarrow> (s, Inl (Errorf ''compaction agent %q: %w'' [Sentinel ErrNotFound]))
        | Some agent \<Rightarrow>
           (case modelCall K actor c agent (ChatRequest0\<lparr>cr_Messages :=
                   withInstructions agent [userMessage (taskText (ts_text K) prompt older)]\<rparr>) w s of
              (s1, _, Inl e) \<Rightarrow> (s1, Inl e)
            | (s1, _, Inr resp) \<Rightarrow>
                let summary = trim (msg_Content (cp_Message resp))
                in if summary = [] then (s1, Inl (new_error ''agent %s wrote an empty task summary''))
                   else
                     let ev = (callEvent c [] EvSnapshot VisibilityInternal
                           (JObj [(''scope'', JStr ''task''), (''agent'', JStr (ag_Name agent)),
                                  (''summarized'', JNum (int (cut - base)))]))
                           \<lparr>ev_ActorID := actor (ag_Name agent),
                            ev_HiddenPayload := Some (JObj [(''summary'', JStr summary)])\<rparr>
                     in (emitCall ev s1, Inr (take base messages @
                          [userMessage (''Summary of your work on this task so far:'' @ newline @ summary)] @
                          drop cut messages))))"

section \<open>What a summary covers\<close>

lemma splitHistory_append: "splitHistory C rid l (xs @ ys) =
    (case splitHistory C rid l xs of (l1, t1) \<Rightarrow> case splitHistory C rid l1 ys of (l2, t2) \<Rightarrow> (l2, t1 @ t2))"
  by (induction xs arbitrary: l) (auto split: prod.splits)

lemma splitHistory_tail: "snd (splitHistory C rid l ms) =
    filter (\<lambda>m. mp_Role m \<noteq> snapshotRole \<and> mp_RunID m \<noteq> rid) ms"
  by (induction ms arbitrary: l) (auto simp: case_prod_unfold)

lemma splitHistory_plain: "list_all (\<lambda>m. mp_Role m \<noteq> snapshotRole) ms \<Longrightarrow>
    splitHistory C rid l ms = (l, filter (\<lambda>m. mp_RunID m \<noteq> rid) ms)"
  by (induction ms) auto

lemma splitHistory_run: "list_all (\<lambda>m. mp_RunID m \<noteq> rid \<and> mp_RunID m \<noteq> rid') ms \<Longrightarrow>
    splitHistory C rid l ms = splitHistory C rid' l ms"
  by (induction ms arbitrary: l) auto

lemma filter_sorted_suffix: "sorted (map f xs) \<Longrightarrow> \<exists>pre. xs = pre @ filter (\<lambda>x. f x > (t :: 'b :: linorder)) xs"
proof (induction xs)
  case (Cons x xs)
  then obtain pre where pre: "xs = pre @ filter (\<lambda>x. f x > t) xs" by auto
  show ?case
  proof (cases "f x > t")
    case True
    with Cons.prems have "filter (\<lambda>x. f x > t) xs = xs" by (force simp: filter_id_conv)
    with True show ?thesis by simp
  next
    case False
    with pre show ?thesis by (metis append_Cons filter.simps(2))
  qed
qed simp

lemma dropWhile_tl_suffix:
  assumes "list_ex (\<lambda>m. mp_ID m = i) xs"
  shows "\<exists>pre. xs = pre @ tl (dropWhile (\<lambda>m. mp_ID m \<noteq> i) xs)"
proof -
  have "dropWhile (\<lambda>m. mp_ID m \<noteq> i) xs \<noteq> []" using assms by (auto simp: list_ex_iff)
  then have "xs = (takeWhile (\<lambda>m. mp_ID m \<noteq> i) xs @ [hd (dropWhile (\<lambda>m. mp_ID m \<noteq> i) xs)]) @
      tl (dropWhile (\<lambda>m. mp_ID m \<noteq> i) xs)" by simp
  then show ?thesis by blast
qed

lemma afterSnapshot_suffix:
  assumes "sorted (map mp_CreatedAt tail)"
  shows "\<exists>pre. tail = pre @ afterSnapshot l tail"
  using filter_sorted_suffix [OF assms, of "sn_Through l"] dropWhile_tl_suffix
  by (auto simp: afterSnapshot_def)

lemma afterSnapshot_at:
  assumes "distinct (map mp_ID (pre @ m # post))" and "mp_ID m \<noteq> []" and "sn_ThroughID l = mp_ID m"
  shows "afterSnapshot l (pre @ m # post) = post"
proof -
  have "dropWhile (\<lambda>x. mp_ID x \<noteq> mp_ID m) (pre @ m # post) = m # post"
    using assms(1) by (subst dropWhile_append2) (auto simp: rev_image_eqI)
  with assms show ?thesis by (simp add: afterSnapshot_def)
qed

lemma olderPart_prefix: "\<exists>kept. tail = olderPart cfg tail @ kept \<and> drop (length (olderPart cfg tail)) tail = kept"
  unfolding olderPart_def by (auto simp: append_take_drop_id)

lemma modelCall_messages:
  assumes "modelCall K actor c agent req w s = (s', out)"
  shows "messagesOf (cs_Store s') sid = messagesOf (cs_Store s) sid"
  using assms by (auto simp: modelCall_def Let_def emitCall_def persistUsage_def UpdateRunUsage_def setRun_def
      messagesOf_def split: option.splits prod.splits sum.splits)

lemma compact_messages:
  assumes "compact K actor trim C agents cfg c w prev older s = (s', Inr nxt)"
  shows "\<exists>m. messagesOf (cs_Store s') (cx_Session c) = messagesOf (cs_Store s) (cx_Session c) @ [m] \<and>
      mp_Role m = snapshotRole \<and> mp_Content m = sc_encode C nxt"
    and "sn_ThroughID nxt = mp_ID (last older)" and "sn_Messages nxt = sn_Messages prev + int (length older)"
    and "sn_Summary nxt \<noteq> []"
  using assms by (auto simp: compact_def Let_def emitCall_def AddMessage_def messagesOf_def
      split: option.splits prod.splits sum.splits if_splits dest!: modelCall_messages [where sid = "cx_Session c"])


text \<open>A codec for the example: characters are marked, a mark ends a text, numbers are unary.\<close>

definition markText :: "string \<Rightarrow> string" where
  "markText s = concat (map (\<lambda>ch. [CHR ''a'', ch]) s) @ ''b''"

fun readText :: "string \<Rightarrow> string \<times> string" where
  "readText [] = ([], [])"
| "readText [x] = ([], [])"
| "readText (x # y # r) = (if x = CHR ''a'' then (case readText r of (s, r') \<Rightarrow> (y # s, r')) else ([], y # r))"

lemma readText_mark: "readText (markText s @ r) = (s, r)"
proof (induction s)
  case Nil
  then show ?case by (cases r) (simp_all add: markText_def)
qed (simp add: markText_def)

definition markInt :: "int \<Rightarrow> string" where
  "markInt i = (if i < 0 then markText (CHR ''-'' # replicate (nat (- i)) CHR ''1'')
     else markText (replicate (nat i) CHR ''1''))"

definition readInt :: "string \<Rightarrow> int" where
  "readInt s = (if s \<noteq> [] \<and> hd s = CHR ''-'' then - int (length (tl s)) else int (length s))"

definition markCodec :: SnapshotCodec where
  "markCodec = \<lparr>sc_decode = (\<lambda>t0. let (a, t1) = readText t0; (b, t2) = readText t1; (c, t3) = readText t2;
       (d, t4) = readText t3 in Some \<lparr>sn_Summary = a, sn_ThroughID = b, sn_Through = readInt c, sn_Messages = readInt d\<rparr>),
     sc_encode = (\<lambda>n. markText (sn_Summary n) @ markText (sn_ThroughID n) @ markInt (sn_Through n) @ markInt (sn_Messages n)),
     sc_time = (\<lambda>_. ''then'')\<rparr>"

lemma readInt_mark: "readText (markInt i @ r) = (s, r') \<Longrightarrow> readInt s = i \<and> r' = r"
  by (auto simp: markInt_def readText_mark readInt_def split: if_splits)

lemma markCodec_roundtrip: "sc_decode markCodec (sc_encode markCodec n) = Some n"
proof -
  obtain c d where "readText (markInt (sn_Through n) @ markInt (sn_Messages n)) = (c, markInt (sn_Messages n))"
    "readInt c = sn_Through n" "readText (markInt (sn_Messages n)) = (d, [])" "readInt d = sn_Messages n"
    using readInt_mark [of "sn_Through n" "markInt (sn_Messages n)"] readInt_mark [of "sn_Messages n" "[]"]
    by (metis append_Nil2 surj_pair)
  then show ?thesis by (simp add: markCodec_def readText_mark)
qed

text \<open>Three messages, of which the summary keeps the last.\<close>

definition talkKit :: ToolSetup where
  "talkKit = \<lparr>ts_Retry = \<lparr>rp_MaxAttempts = 0, rp_Backoff = 0\<rparr>, ts_LoopResponse = [], ts_MaxArtifactBytes = 0,
     ts_errText = (\<lambda>e. []), ts_redact = (\<lambda>s. s), ts_text = (\<lambda>r. []), ts_hash = (\<lambda>r. [])\<rparr>"

definition said :: "string \<Rightarrow> string \<Rightarrow> time \<Rightarrow> MessageProjection" where
  "said i text t = \<lparr>mp_ID = i, mp_SessionID = ''S'', mp_RunID = [], mp_EventID = [], mp_Role = ''user'',
     mp_Visibility = VisibilityParticipant, mp_Content = text, mp_CreatedAt = t\<rparr>"

definition talkState :: "nat CallState" where
  "talkState = \<lparr>cs_Store = NewMemStore\<lparr>ms_sessions := [(''S'', Session0\<lparr>se_ID := ''S'', se_TenantID := ''T''\<rparr>)],
       ms_messages := [''S'' \<mapsto> [said ''m1'' ''one'' 1, said ''m2'' ''two'' 2, said ''m3'' ''three'' 3]]\<rparr>,
     cs_Budget = NewBudgetManager, cs_Loop = NewLoopDetector 0, cs_Events = [], cs_Ran = []\<rparr>"

definition talkScope :: CallScope where
  "talkScope = \<lparr>cx_Tenant = ''T'', cx_Session = ''S'', cx_Run = ''r'', cx_Task = []\<rparr>"

definition talkConfig :: CompactionConfig where
  "talkConfig = \<lparr>co_Agent = ''a'', co_MaxMessages = 2, co_MaxTokens = 0, co_KeepRecent = 1, co_TaskMaxTokens = 0\<rparr>"

definition talkAgents :: "string \<rightharpoonup> unit Agent" where
  "talkAgents = [''a'' \<mapsto> \<lparr>ag_Name = ''a'', ag_Role = [], ag_Instructions = [], ag_Model = ''m'', ag_Provider = (),
     ag_Tools = [], ag_Children = [], ag_MaxToolLoops = 4, ag_AskHuman = False, ag_Timeout = 0, ag_tenant = []\<rparr>]"

definition talkWorld :: CompactWorld where
  "talkWorld = \<lparr>pk_model = \<lparr>mw_cost = None, mw_step = ''s'', mw_slot = None,
     mw_chat = (\<lambda>req. (ChatResponse0\<lparr>cp_Message := userMessage ''one, two''\<rparr>, None))\<rparr>,
     pk_messageID = ''m4'', pk_messageAt = 4\<rparr>"

definition talkRun :: "nat CallState \<times> (goerr + Message list)" where
  "talkRun = sessionHistory talkKit (\<lambda>n. n) (\<lambda>s. s) markCodec talkAgents talkConfig 0 talkScope talkWorld talkState"


end
