(* ===== verification/AgentLoop.thy ===== *)
theory AgentLoop
  imports ToolProperties Compaction
begin

text \<open>
  The loop of an agent (\<open>agentLoop\<close> in \<open>runtime/orchestrator.go\<close>): it calls the model and the tools
  the model asks for until the model answers, and sends back answers that do not fit the schema.

  The model calls of a round and the dispatch of its tool calls come from the world, \<open>RoundWorld\<close>;
  that the latter follows \<open>runToolCalls\<close> is a hypothesis of the properties. \<open>None\<close> is the panic of
  \<open>ObserveReply\<close> when its check is off. The built-in tools are executors like others.
\<close>

section \<open>The task and its tools\<close>

record ('p, 'os) fullSpec = "'p taskSpec" +
  sp_images :: "Image list"
  sp_schema :: "'os option"
  sp_rawSchema :: raw

record Capabilities =
  ca_ToolCalling :: bool
  ca_Vision :: bool

record ('p, 'x, 'sc, 'os) AgentEnv =
  ae_Kit :: ToolSetup
  ae_actor :: "string \<Rightarrow> PrincipalID"
  ae_trim :: "string \<Rightarrow> string"
  ae_lower :: "rune \<Rightarrow> rune"
  ae_inWord :: "rune \<Rightarrow> bool"
  ae_runes :: "string \<Rightarrow> rune list"
  ae_validate :: "'os \<Rightarrow> string \<Rightarrow> goerr option"
  ae_Agents :: "string \<rightharpoonup> 'p Agent"       \<comment> \<open>the configured agents\<close>
  ae_RunAgents :: "string \<rightharpoonup> 'p Agent"    \<comment> \<open>those the run may use\<close>
  ae_Compaction :: CompactionConfig
  ae_Tools :: "('x, 'sc) ToolBox"
  ae_Policies :: "ToolPolicy list"
  ae_SkipApprovals :: bool
  ae_MaxDepth :: int
  ae_AskHuman :: 'x
  ae_Delegate :: 'x
  ae_History :: "Message list"

text \<open>\<open>delegateSpec\<close> and \<open>askHumanSpec\<close>.\<close>

definition delegateSpec :: "'p Agent \<Rightarrow> (string \<rightharpoonup> 'p Agent) \<Rightarrow> ToolSpec" where
  "delegateSpec agent agents =
    (let present = filter (\<lambda>n. agents n \<noteq> None) (ag_Children agent);
         line = (\<lambda>n. newline @ ''- '' @ n @ (case agents n of None \<Rightarrow> []
                   | Some a \<Rightarrow> if ag_Role a \<noteq> [] then '': '' @ ag_Role a else []))
     in \<lparr>tsp_Name = delegateTool,
         tsp_Description = ''Give a task to another agent and get its answer. The agents you can give tasks to:'' @
           concat (map line present),
         tsp_InputSchema = Some (JObj [(''type'', JStr ''object''),
           (''properties'', JObj [
             (''agent'', JObj [(''type'', JStr ''string''), (''enum'', JArr (map JStr present))]),
             (''task'', JObj [(''type'', JStr ''string''),
                (''description'', JStr ''everything the agent needs to know to do the task'')])]),
           (''required'', JArr [JStr ''agent'', JStr ''task''])])\<rparr>)"

definition askHumanSpec :: ToolSpec where
  "askHumanSpec = \<lparr>tsp_Name = askHumanTool,
     tsp_Description = ''Ask the people in this conversation a question and wait for their reply. Use it only when you cannot go on without their answer.'',
     tsp_InputSchema = Some (JObj [(''type'', JStr ''object''),
       (''properties'', JObj [(''question'', JObj [(''type'', JStr ''string'')])]),
       (''required'', JArr [JStr ''question''])])\<rparr>"

text \<open>The built-in tools an agent has, as the model is told of them and as executors.\<close>

definition mayDelegate :: "'p Agent \<Rightarrow> (string \<rightharpoonup> 'p Agent) \<Rightarrow> int \<Rightarrow> int \<Rightarrow> bool" where
  "mayDelegate agent agents depth maxDepth \<longleftrightarrow>
     list_ex (\<lambda>n. agents n \<noteq> None) (ag_Children agent) \<and> depth < maxDepth"

definition builtinSpecs :: "'p Agent \<Rightarrow> (string \<rightharpoonup> 'p Agent) \<Rightarrow> int \<Rightarrow> int \<Rightarrow> ToolSpec list" where
  "builtinSpecs agent agents depth maxDepth =
    (if ag_AskHuman agent then [askHumanSpec] else []) @
    (if mayDelegate agent agents depth maxDepth then [delegateSpec agent agents] else [])"

definition builtinTools :: "'p Agent \<Rightarrow> (string \<rightharpoonup> 'p Agent) \<Rightarrow> int \<Rightarrow> int \<Rightarrow> 'x \<Rightarrow> 'x \<Rightarrow> string \<rightharpoonup> 'x" where
  "builtinTools agent agents depth maxDepth ask delegate =
    (let b0 = (if ag_AskHuman agent then [askHumanTool \<mapsto> ask] else Map.empty)
     in if mayDelegate agent agents depth maxDepth then b0(delegateTool \<mapsto> delegate) else b0)"

text \<open>The messages before the first round.\<close>

definition openingMessages :: "Message list \<Rightarrow> 'p Agent \<Rightarrow> string \<Rightarrow> Image list \<Rightarrow> Message list" where
  "openingMessages history agent prompt images =
    withInstructions agent (history @ [(userMessage prompt)\<lparr>msg_Images := images\<rparr>])"

text \<open>The checks of the model's capabilities; \<open>caps\<close> is what its provider reports.\<close>

definition checkCapabilities :: "goerr + Capabilities \<Rightarrow> bool \<Rightarrow> bool \<Rightarrow> goerr option" where
  "checkCapabilities caps images tools =
    (if \<not> images \<and> \<not> tools then None
     else case caps of
       Inl e \<Rightarrow> Some (Errorf ''%w capabilities: %w'' [Sentinel ErrModelCall, e])
     | Inr ca \<Rightarrow>
         if images \<and> \<not> ca_Vision ca
         then Some (Errorf ''agent %s: model %s does not accept images: %w'' [Sentinel ErrUnsupported])
         else if tools \<and> \<not> ca_ToolCalling ca
         then Some (Errorf ''agent %s: model %s does not call tools: %w'' [Sentinel ErrUnsupported])
         else None)"

section \<open>Rounds\<close>

record 'x RoundWorld =
  ro_compact :: ModelWorld
  ro_model :: ModelWorld
  ro_tools :: "ToolCall list \<Rightarrow> 'x CallState \<Rightarrow> 'x CallState \<times> (goerr + Message list)"
  ro_answer :: "goerr + string"
  ro_complete :: CompleteWorld

text \<open>An answer that does not fit the schema: an error, or what the model is told.\<close>

definition rejectAnswer :: "('p, 'x, 'sc, 'os) AgentEnv \<Rightarrow> CallScope \<Rightarrow> 'p Agent \<Rightarrow> goerr + string \<Rightarrow> string
    \<Rightarrow> goerr \<Rightarrow> 'x CallState \<Rightarrow> ('x CallState \<times> (goerr + Message)) option" where
  "rejectAnswer E c agent answer content err s =
    (let K = ae_Kit E;
         s1 = emitCall (systemEvent c [(''event'', JStr ''output_rejected''), (''agent'', JStr (ag_Name agent)),
                (''error'', JStr (ts_errText K err))]) s;
         told = userMessage (''Your answer does not match the required output schema: '' @ ts_errText K err @
                  newline @ ''Reply with only a JSON document that matches it.'')
     in case ObserveReply (ae_lower E) (ae_inWord E) (cs_Loop s1) (cx_Run c) (cx_Task c) (ae_runes E content) of
          None \<Rightarrow> None
        | Some (d, stalled, n) \<Rightarrow>
            let s2 = s1\<lparr>cs_Loop := d\<rparr>
            in if \<not> stalled then Some (s2, Inr told)
               else (case loopDetected K c (cx_Task c) [(''kind'', JStr ''rejected_answers''),
                          (''agent'', JStr (ag_Name agent)), (''replies'', JNum n)]
                        (Errorf ''%w: agent %s gave %d near-identical rejected answers'' [Sentinel ErrLoopDetected])
                        answer s2 of
                      (s3, Some e) \<Rightarrow> Some (s3, Inl e)
                    | (s3, None) \<Rightarrow> Some (s3, Inr told)))"

text \<open>What one round ends with: an error, an answer, or the messages of the next round.\<close>

datatype roundEnd = RoundFailed goerr | RoundAnswered string | RoundContinues "Message list"

definition agentRound :: "('p, 'x, 'sc, 'os) AgentEnv \<Rightarrow> CallScope \<Rightarrow> ('p, 'os) fullSpec \<Rightarrow> ToolSpec list \<Rightarrow> nat
    \<Rightarrow> 'x RoundWorld \<Rightarrow> Message list \<Rightarrow> 'x CallState \<Rightarrow> ('x CallState \<times> ChatRequest list \<times> roundEnd) option" where
  "agentRound E c spec specs base w messages0 s =
    (case compactTask (ae_Kit E) (ae_actor E) (ae_trim E) (ae_Agents E) (ae_Compaction E) c (sp_prompt spec)
            (ro_compact w) messages0 base s of
       (s1, Inl e) \<Rightarrow> Some (s1, [], RoundFailed (Errorf ''compact task: %w'' [e]))
     | (s1, Inr messages) \<Rightarrow>
        (case modelCall (ae_Kit E) (ae_actor E) c (sp_agent spec) (ChatRequest0\<lparr>cr_Messages := messages,
                cr_Tools := specs, cr_ResponseSchema := sp_rawSchema spec\<rparr>) (ro_model w) s1 of
           (s2, reqs, Inl e) \<Rightarrow> Some (s2, reqs, RoundFailed e)
         | (s2, reqs, Inr resp) \<Rightarrow>
             let messages1 = messages @ [cp_Message resp];
                 content = msg_Content (cp_Message resp)
             in if cp_ToolCalls resp \<noteq> []
                then (case ro_tools w (cp_ToolCalls resp) s2 of
                        (s3, Inl e) \<Rightarrow> Some (s3, reqs, RoundFailed e)
                      | (s3, Inr toolMessages) \<Rightarrow> Some (s3, reqs, RoundContinues (messages1 @ toolMessages)))
                else (case (case sp_schema spec of None \<Rightarrow> None | Some sc \<Rightarrow> ae_validate E sc content) of
                        Some err \<Rightarrow>
                          (case rejectAnswer E c (sp_agent spec) (ro_answer w) content err s2 of
                             None \<Rightarrow> None
                           | Some (s3, Inl e) \<Rightarrow> Some (s3, reqs, RoundFailed e)
                           | Some (s3, Inr told) \<Rightarrow> Some (s3, reqs, RoundContinues (messages1 @ [told])))
                      | None \<Rightarrow> Some (completeTask c (ag_Name (sp_agent spec)) content (ro_complete w) s2, reqs,
                                      RoundAnswered content))))"

fun agentRounds :: "('p, 'x, 'sc, 'os) AgentEnv \<Rightarrow> CallScope \<Rightarrow> ('p, 'os) fullSpec \<Rightarrow> ToolSpec list \<Rightarrow> nat
    \<Rightarrow> (nat \<Rightarrow> 'x RoundWorld) \<Rightarrow> nat \<Rightarrow> nat \<Rightarrow> Message list \<Rightarrow> 'x CallState
    \<Rightarrow> ('x CallState \<times> ChatRequest list \<times> (goerr + string)) option" where
  "agentRounds E c spec specs base world i 0 messages s =
     Some (s, [], Inl (new_error ''agent %s exceeded MaxToolLoops=%d''))"
| "agentRounds E c spec specs base world i (Suc n) messages s =
    (case agentRound E c spec specs base (world i) messages s of
       None \<Rightarrow> None
     | Some (s1, reqs, RoundFailed e) \<Rightarrow> Some (s1, reqs, Inl e)
     | Some (s1, reqs, RoundAnswered out) \<Rightarrow> Some (s1, reqs, Inr out)
     | Some (s1, reqs, RoundContinues messages1) \<Rightarrow>
        (case agentRounds E c spec specs base world (i + 1) n messages1 s1 of
           None \<Rightarrow> None
         | Some (s2, later, r) \<Rightarrow> Some (s2, reqs @ later, r)))"

definition agentLoop :: "('p, 'x, 'sc, 'os) AgentEnv \<Rightarrow> CallScope \<Rightarrow> ('p, 'os) fullSpec \<Rightarrow> goerr + Capabilities
    \<Rightarrow> (nat \<Rightarrow> 'x RoundWorld) \<Rightarrow> 'x CallState \<Rightarrow> ('x CallState \<times> ChatRequest list \<times> (goerr + string)) option" where
  "agentLoop E c spec caps world s =
    (let agent = sp_agent spec;
         opening = openingMessages (ae_History E) agent (sp_prompt spec) (sp_images spec);
         (allowed, offered, s1) = offerTools (ae_Tools E) (cx_Tenant c) (ae_Policies E) (ae_SkipApprovals E) c
                                    (ag_Tools agent) Map.empty [] s;
         specs = offered @ builtinSpecs agent (ae_RunAgents E) (sp_depth spec) (ae_MaxDepth E)
     in case checkCapabilities caps (sp_images spec \<noteq> []) (specs \<noteq> []) of
          Some e \<Rightarrow> Some (s1, [], Inl e)
        | None \<Rightarrow> agentRounds E c spec specs (length opening) world 0 (nat (ag_MaxToolLoops agent)) opening s1)"

end
