(* ===== verification/ToolSerial.thy ===== *)
theory ToolSerial
  imports ToolProperties
begin

text \<open>
  The calls of a reply, one after the other: the executable \<open>serialReply\<close>, which is how
  \<open>runToolCalls\<close> behaves when it may execute one call at a time. Its steps are those of the
  dispatch, so \<open>invokeTool\<close> is what a running call comes to, and a reply has always an outcome.
\<close>

fun serialCalls :: "ToolSetup \<Rightarrow> CallScope \<Rightarrow> (nat \<Rightarrow> InvokeWorld) \<Rightarrow> nat \<Rightarrow> 'x plannedTool list \<Rightarrow> 'x CallState
    \<Rightarrow> 'x CallState \<times> (nat \<times> (goerr + Message)) list" where
  "serialCalls K c world i [] s = (s, [])"
| "serialCalls K c world i (p # ps) s =
    (case (case pl_refused p of
             Some e \<Rightarrow> (case toolFailed K c (pl_call p) (pl_tc p) e False s of (s', m) \<Rightarrow> (s', Inr m))
           | None \<Rightarrow> invokeTool K c (the (pl_exec p)) (pl_slot p) (pl_call p) (pl_tc p) (pl_budgets p) (world i) s) of
       (s1, r) \<Rightarrow> (case serialCalls K c world (i + 1) ps s1 of (s2, rs) \<Rightarrow> (s2, (i, r) # rs)))"

definition serialReply :: "ToolSetup \<Rightarrow> CallScope \<Rightarrow> ('x, 'sc) ReplyIn \<Rightarrow> ToolCall list \<Rightarrow> 'x CallState
    \<Rightarrow> 'x CallState \<times> (goerr + Message list)" where
  "serialReply K c I tcs s =
    (case planCalls K (ry_Check I) c (ry_Allowed I) (ry_Builtins I) (ry_Plan I) tcs s of
       (s1, Inl e) \<Rightarrow> (s1, Inl e)
     | (s1, Inr ps0) \<Rightarrow>
        (case approvePlans c (ry_Answers I) 0 ps0 s1 of
           (s2, Inl e) \<Rightarrow> (s2, Inl e)
         | (s2, Inr ps) \<Rightarrow>
            (case serialCalls K c (ry_World I) 0 ps s2 of (s3, rs) \<Rightarrow> (s3, collectResults rs))))"

section \<open>A running call comes to \<open>invokeTool\<close>\<close>

lemma retryLoop_steps:
  assumes "retryLoop K c exec (pl_call (plans ! i)) left (iv_attempts (world i)) a s = (s1, f)"
    and "finishInvoke K c (pl_call (plans ! i)) (pl_tc (plans ! i)) (world i) f s1 = (s2, r)"
    and "pl_exec (plans ! i) = Some exec" and "di_active d i = Some (Attempting left a)" and "di_state d = s"
  shows "(dispatch_step K c n ends world plans)\<^sup>*\<^sup>* d
    (d\<lparr>di_active := (di_active d)(i := None), di_results := di_results d @ [(i, r)], di_state := s2\<rparr>)"
  using assms(1,2,4,5)
proof (induction "nat (rp_MaxAttempts (ts_Retry K) - at_attempt a)" arbitrary: a s d rule: less_induct)
  case less
  obtain s' q where round: "retryRound K c exec (pl_call (plans ! i)) left (iv_attempts (world i) (at_attempt a)) a s = (s', q)"
    by fastforce
  show ?case
  proof (cases q)
    case (Inl g)
    with less.prems(1) round have "s' = s1" "g = f"
      by (simp_all add: retryLoop.simps [of K c exec "pl_call (plans ! i)" left "iv_attempts (world i)" a s])
    with less.prems(2) round Inl have step: "callStep K c (plans ! i) exec (world i) (Attempting left a) (di_state d) = (s2, Inl r)"
      by (simp add: callOver_def less.prems(4))
    from dispatch_step.conclude [where d = d and i = i and world = world and plans = plans, OF less.prems(3) assms(3) step]
    show ?thesis by blast
  next
    case (Inr a')
    with round have step: "callStep K c (plans ! i) exec (world i) (Attempting left a) (di_state d) = (s', Inr (Attempting left a'))"
      by (simp add: less.prems(4))
    let ?d = "d\<lparr>di_active := (di_active d)(i \<mapsto> Attempting left a'), di_state := s'\<rparr>"
    have first: "dispatch_step K c n ends world plans d ?d"
      using dispatch_step.advance [where d = d and i = i and world = world and plans = plans, OF less.prems(3) assms(3) step] .
    note again = retryRound_next [OF round [unfolded Inr]]
    have "retryLoop K c exec (pl_call (plans ! i)) left (iv_attempts (world i)) a' s' = (s1, f)"
      using less.prems(1) round Inr
      by (simp add: retryLoop.simps [of K c exec "pl_call (plans ! i)" left "iv_attempts (world i)" a s])
    from less.hyps [OF _ this less.prems(2), of ?d] again
    have "(dispatch_step K c n ends world plans)\<^sup>*\<^sup>* ?d
      (?d\<lparr>di_active := (di_active ?d)(i := None), di_results := di_results ?d @ [(i, r)], di_state := s2\<rparr>)" by simp
    with first show ?thesis by (auto intro: converse_rtranclp_into_rtranclp)
  qed
qed

lemma invokeTool_steps:
  assumes inv: "invokeTool K c exec (pl_slot (plans ! i)) (pl_call (plans ! i)) (pl_tc (plans ! i))
      (pl_budgets (plans ! i)) (world i) (di_state d) = (s2, r)"
    and x: "pl_exec (plans ! i) = Some exec" and act: "di_active d i = Some Entering"
  shows "(dispatch_step K c n ends world plans)\<^sup>*\<^sup>* d
    (d\<lparr>di_active := (di_active d)(i := None), di_results := di_results d @ [(i, r)], di_state := s2\<rparr>)"
proof -
  obtain s1 e where b: "beginInvoke c (pl_slot (plans ! i)) (pl_call (plans ! i)) (world i) (di_state d) = (s1, e)"
    by fastforce
  note conclude = dispatch_step.conclude [where d = d and i = i and world = world and plans = plans, OF act x]
  show ?thesis
  proof (cases e)
    case (Some err)
    with inv b have "callStep K c (plans ! i) exec (world i) Entering (di_state d) = (s2, Inl r)"
      by (simp add: invokeTool_def)
    from conclude [OF this] show ?thesis by blast
  next
    case None
    obtain s' f where ex: "executeWithRetries K c exec (pl_call (plans ! i)) (pl_budgets (plans ! i)) (iv_attempts (world i)) s1 = (s', f)"
      by fastforce
    with inv b None have fin: "finishInvoke K c (pl_call (plans ! i)) (pl_tc (plans ! i)) (world i) f s' = (s2, r)"
      by (simp add: invokeTool_def)
    show ?thesis
    proof (cases "timeBudget c (pl_call (plans ! i)) (pl_budgets (plans ! i)) s1")
      case (Inl g)
      with ex b None fin have "callStep K c (plans ! i) exec (world i) Entering (di_state d) = (s2, Inl r)"
        by (simp add: executeWithRetries_def callOver_def)
      from conclude [OF this] show ?thesis by blast
    next
      case (Inr left)
      with b None have step: "callStep K c (plans ! i) exec (world i) Entering (di_state d) =
          (s1, Inr (Attempting left firstAttempt))" by simp
      let ?d = "d\<lparr>di_active := (di_active d)(i \<mapsto> Attempting left firstAttempt), di_state := s1\<rparr>"
      have first: "dispatch_step K c n ends world plans d ?d"
        using dispatch_step.advance [where d = d and i = i and world = world and plans = plans, OF act x step] .
      from ex Inr have "retryLoop K c exec (pl_call (plans ! i)) left (iv_attempts (world i)) firstAttempt s1 = (s', f)"
        by (simp add: executeWithRetries_def)
      from retryLoop_steps [where d = ?d and i = i and world = world and plans = plans, OF this fin x] have "(dispatch_step K c n ends world plans)\<^sup>*\<^sup>* ?d
        (?d\<lparr>di_active := (di_active ?d)(i := None), di_results := di_results ?d @ [(i, r)], di_state := s2\<rparr>)" by simp
      with first show ?thesis by (auto intro: converse_rtranclp_into_rtranclp)
    qed
  qed
qed

section \<open>The serial reply is a run of the dispatch\<close>

lemma serialCalls_run:
  assumes "serialCalls K c world i ps s = (s', rs)" and "drop i plans = ps" and "i \<le> length plans"
    and "\<forall>p \<in> set ps. pl_refused p = None \<longrightarrow> pl_exec p \<noteq> None"
  shows "(dispatch_step K c n ends world plans)\<^sup>*\<^sup>*
      \<lparr>di_next = i, di_active = Map.empty, di_results = found, di_state = s\<rparr>
      \<lparr>di_next = length plans, di_active = Map.empty, di_results = found @ rs, di_state = s'\<rparr> \<and>
    map fst rs = [i..<length plans]"
  using assms
proof (induction ps arbitrary: i s rs found)
  case Nil
  then show ?case by simp
next
  case (Cons p ps)
  let ?step = "dispatch_step K c n ends world plans"
  let ?d = "\<lparr>di_next = i, di_active = Map.empty, di_results = found, di_state = s\<rparr>"
  have i: "i < length plans" "plans ! i = p" "drop (i + 1) plans = ps"
  proof -
    show "i < length plans" using Cons.prems(2) by (metis drop_all leI list.distinct(1))
    then show "plans ! i = p" "drop (i + 1) plans = ps"
      using Cons.prems(2) Cons_nth_drop_Suc [of i plans] by auto
  qed
  from Cons.prems(1) obtain s1 r rs1 where parts:
    "(case pl_refused p of
        Some e \<Rightarrow> (case toolFailed K c (pl_call p) (pl_tc p) e False s of (s', m) \<Rightarrow> (s', Inr m))
      | None \<Rightarrow> invokeTool K c (the (pl_exec p)) (pl_slot p) (pl_call p) (pl_tc p) (pl_budgets p) (world i) s) = (s1, r)"
    "serialCalls K c world (i + 1) ps s1 = (s', rs1)" "rs = (i, r) # rs1"
    by (auto split: prod.splits)
  have one: "?step\<^sup>*\<^sup>* ?d \<lparr>di_next = i + 1, di_active = Map.empty, di_results = found @ [(i, r)], di_state = s1\<rparr>"
  proof (cases "pl_refused p")
    case (Some e)
    with parts(1) obtain m where "toolFailed K c (pl_call p) (pl_tc p) e False s = (s1, m)" "r = Inr m"
      by (auto split: prod.splits)
    with dispatch_step.refuse [where d = ?d and plans = plans and e = e and K = K and c = c and s = s1 and msg = m
        and maxParallel = n and ctxEnds = ends and world = world] i Some
    show ?thesis by (auto simp: loopFree_def)
  next
    case None
    with Cons.prems(4) obtain x where x: "pl_exec p = Some x" by auto
    let ?d1 = "\<lparr>di_next = i + 1, di_active = [i \<mapsto> Entering], di_results = found, di_state = s\<rparr>"
    have start: "?step ?d ?d1"
    proof (cases "pl_runParallel p")
      case True
      with dispatch_step.spawn [where d = ?d and plans = plans and K = K and c = c and maxParallel = n
          and ctxEnds = ends and world = world] i None
      show ?thesis by (simp add: loopFree_def)
    next
      case False
      with dispatch_step.alone [where d = ?d and plans = plans and K = K and c = c and maxParallel = n
          and ctxEnds = ends and world = world] i None
      show ?thesis by simp
    qed
    from parts(1) None x i have "invokeTool K c x (pl_slot (plans ! i)) (pl_call (plans ! i)) (pl_tc (plans ! i))
      (pl_budgets (plans ! i)) (world i) (di_state ?d1) = (s1, r)" by simp
    from invokeTool_steps [where d = ?d1 and i = i and world = world and plans = plans, OF this, of n ends] x i have "?step\<^sup>*\<^sup>* ?d1
      \<lparr>di_next = i + 1, di_active = Map.empty, di_results = found @ [(i, r)], di_state = s1\<rparr>" by simp
    with start show ?thesis by (auto intro: converse_rtranclp_into_rtranclp)
  qed
  from Cons.IH [OF parts(2) i(3), of "found @ [(i, r)]"] Cons.prems(4) i(1)
  have rest: "?step\<^sup>*\<^sup>* \<lparr>di_next = i + 1, di_active = Map.empty, di_results = found @ [(i, r)], di_state = s1\<rparr>
      \<lparr>di_next = length plans, di_active = Map.empty, di_results = (found @ [(i, r)]) @ rs1, di_state = s'\<rparr> \<and>
      map fst rs1 = [i + 1..<length plans]" by simp
  with one parts(3) i(1) show ?case
    by (auto simp: upt_conv_Cons intro: rtranclp_trans)
qed

lemma serialReply_run:
  "runToolCalls K c I tcs s (fst (serialReply K c I tcs s)) (snd (serialReply K c I tcs s))"
proof -
  obtain s1 r where plan: "planCalls K (ry_Check I) c (ry_Allowed I) (ry_Builtins I) (ry_Plan I) tcs s = (s1, r)"
    by fastforce
  show ?thesis
  proof (cases r)
    case (Inl e)
    with plan show ?thesis by (simp add: serialReply_def runToolCalls.unplanned)
  next
    case (Inr ps0)
    obtain s2 q where appr: "approvePlans c (ry_Answers I) 0 ps0 s1 = (s2, q)" by fastforce
    show ?thesis
    proof (cases q)
      case (Inl e)
      with plan appr Inr show ?thesis by (auto simp: serialReply_def intro: runToolCalls.unapproved)
    next
      case q: (Inr ps)
      with plan appr Inr have ready: "readyPlans K c I tcs s = Some (s2, ps)" by (simp add: readyPlans_def)
      have runnable: "\<forall>p \<in> set ps. pl_refused p = None \<longrightarrow> pl_exec p \<noteq> None"
        using readyPlans_plans(1,3) [OF ready] by (fastforce simp: in_set_conv_nth plan_of_def)
      obtain s3 rs where serial: "serialCalls K c (ry_World I) 0 ps s2 = (s3, rs)" by fastforce
      let ?d = "\<lparr>di_next = length ps, di_active = Map.empty, di_results = rs, di_state = s3\<rparr>"
      from serialCalls_run [where plans = ps and i = 0 and found = "[]", OF serial _ _ runnable]
      have run: "(dispatch_step K c (ry_MaxParallel I) (ry_CtxEnds I) (ry_World I) ps)\<^sup>*\<^sup>* (dispatch0 s2) ?d"
        and idx: "map fst rs = [0..<length ps]" by (simp_all add: dispatch0_def)
      from readyPlans_reply [OF ready run] have
        "runToolCalls K c I tcs s s3 (collectResults (sort_key fst rs))" by (simp add: dispatched_def)
      moreover have "sort_key fst rs = rs" using idx by (simp add: sort_key_id_if_sorted)
      moreover have "serialReply K c I tcs s = (s3, collectResults rs)"
        using plan appr Inr q serial by (simp add: serialReply_def)
      ultimately show ?thesis by simp
    qed
  qed
qed


end
