(* ===== verification/AgentRules.thy ===== *)
theory AgentRules
  imports AgentLoop ToolSerial
begin

text \<open>
  What an agent's loop guarantees: every request is a well-formed conversation, in which each tool
  call is followed by its answer, even after the older rounds were summarized; the loop makes at
  most \<open>MaxToolLoops\<close> calls; and the answer it returns fits the schema and is what was stored.
\<close>

section \<open>Well-formed conversations\<close>

function wfChat :: "Message list \<Rightarrow> bool" where
  "wfChat [] \<longleftrightarrow> True"
| "wfChat (m # ms) \<longleftrightarrow> msg_Role m \<noteq> ''tool'' \<and>
     (let n = length (msg_ToolCalls m)
      in length (take n ms) = n \<and> list_all2 answersCall (msg_ToolCalls m) (take n ms) \<and> wfChat (drop n ms))"
  by pat_completeness auto

termination
  by (relation "measure length") auto

declare wfChat.simps(2) [simp del]

lemma wfChat_Cons: "wfChat (m # ms) \<longleftrightarrow> msg_Role m \<noteq> ''tool'' \<and>
    (\<exists>answers rest. ms = answers @ rest \<and> list_all2 answersCall (msg_ToolCalls m) answers \<and> wfChat rest)"
  (is "_ \<longleftrightarrow> _ \<and> ?R")
proof
  assume "wfChat (m # ms)"
  then show "msg_Role m \<noteq> ''tool'' \<and> ?R"
    unfolding wfChat.simps(2) Let_def by (metis append_take_drop_id)
next
  assume r: "msg_Role m \<noteq> ''tool'' \<and> ?R"
  then obtain answers rest where a: "ms = answers @ rest" "list_all2 answersCall (msg_ToolCalls m) answers" "wfChat rest"
    by blast
  from a(2) have "length answers = length (msg_ToolCalls m)" by (simp add: list_all2_lengthD)
  with a r show "wfChat (m # ms)" by (simp add: wfChat.simps(2) Let_def)
qed

lemma wfChat_plain: "msg_Role m \<noteq> ''tool'' \<Longrightarrow> msg_ToolCalls m = [] \<Longrightarrow> wfChat (m # ms) = wfChat ms"
  by (simp add: wfChat_Cons)

lemma wfChat_round: "msg_Role m \<noteq> ''tool'' \<Longrightarrow> list_all2 answersCall (msg_ToolCalls m) answers \<Longrightarrow>
    wfChat (m # answers)"
  unfolding wfChat_Cons by (metis append_Nil2 wfChat.simps(1))

lemma wfChat_append: "wfChat xs \<Longrightarrow> wfChat ys \<Longrightarrow> wfChat (xs @ ys)"
proof (induction xs rule: length_induct)
  case (1 xs)
  show ?case
  proof (cases xs)
    case (Cons m ms)
    with 1(2) obtain answers rest where a: "msg_Role m \<noteq> ''tool''" "ms = answers @ rest"
      "list_all2 answersCall (msg_ToolCalls m) answers" "wfChat rest"
      by (auto simp: wfChat_Cons)
    with 1(1,3) Cons have "wfChat (rest @ ys)" by simp
    with a Cons show ?thesis by (auto simp: wfChat_Cons)
  qed (use 1 in simp)
qed

text \<open>A conversation may be cut before any message that is not a tool's answer.\<close>

lemma wfChat_drop: "wfChat xs \<Longrightarrow> k < length xs \<Longrightarrow> msg_Role (xs ! k) \<noteq> ''tool'' \<Longrightarrow> wfChat (drop k xs)"
proof (induction xs arbitrary: k rule: length_induct)
  case (1 xs)
  show ?case
  proof (cases k)
    case 0
    with 1 show ?thesis by simp
  next
    case (Suc j)
    with 1 obtain m ms where xs: "xs = m # ms" by (cases xs) auto
    with 1(2) obtain answers rest where a: "ms = answers @ rest"
      "list_all2 answersCall (msg_ToolCalls m) answers" "wfChat rest"
      by (auto simp: wfChat_Cons)
    have "length answers \<le> j"
    proof (rule ccontr)
      assume "\<not> length answers \<le> j"
      then have "xs ! k = answers ! j" "j < length (msg_ToolCalls m)"
        using xs a Suc by (simp_all add: nth_append list_all2_lengthD)
      with list_all2_nthD [OF a(2)] 1(4) show False by (simp add: answersCall_def)
    qed
    then have k: "drop k xs = drop (j - length answers) rest" "xs ! k = rest ! (j - length answers)"
      "j - length answers < length rest"
      using xs a Suc 1(3) by (simp_all add: nth_append)
    with 1(1,4) xs a show ?thesis by simp
  qed
qed

section \<open>Rounds keep the conversation well-formed\<close>

lemma cutFrom_at: "cutFrom messages base i = base \<or>
    cutFrom messages base i \<le> i \<and> base < cutFrom messages base i \<and> callsTools (messages ! cutFrom messages base i)"
  by (induction i) auto

text \<open>The messages before the prompt's end and after it.\<close>

definition chat_ok :: "nat \<Rightarrow> Message list \<Rightarrow> bool" where
  "chat_ok base ms \<longleftrightarrow> base \<le> length ms \<and> wfChat (take base ms) \<and> wfChat (drop base ms)"

lemma chat_ok_wf: "chat_ok base ms \<Longrightarrow> wfChat ms"
  unfolding chat_ok_def by (metis append_take_drop_id wfChat_append)

lemma chat_ok_snoc: "chat_ok base ms \<Longrightarrow> wfChat new \<Longrightarrow> chat_ok base (ms @ new)"
  by (simp add: chat_ok_def wfChat_append)

lemma wfChat_user [simp]: "wfChat (userMessage t # ms) = wfChat ms"
  by (simp add: wfChat_plain userMessage_def Message0_def)

lemma compactTask_chat:
  assumes "compactTask K actor trim agents cfg c prompt w ms base s = (s', Inr ms')" and ok: "chat_ok base ms"
  shows "chat_ok base ms'"
proof -
  define cut where "cut = cutFrom ms base (length ms - 1)"
  have "wfChat (drop cut ms)"
    using cutFrom_at [of ms base "length ms - 1"]
  proof
    assume "cutFrom ms base (length ms - 1) = base"
    with ok show ?thesis by (simp add: cut_def chat_ok_def)
  next
    assume at: "cutFrom ms base (length ms - 1) \<le> length ms - 1 \<and> base < cutFrom ms base (length ms - 1) \<and>
      callsTools (ms ! cutFrom ms base (length ms - 1))"
    then have "cut < length ms" "msg_Role (ms ! cut) \<noteq> ''tool''" by (auto simp: cut_def callsTools_def)
    with wfChat_drop [OF chat_ok_wf [OF ok]] show ?thesis by blast
  qed
  with ok have "chat_ok base (take base ms @ [userMessage t] @ drop cut ms)" for t
    by (simp add: chat_ok_def)
  with assms show ?thesis
    unfolding compactTask_def cut_def Let_def
    by (auto split: if_splits option.splits prod.splits sum.splits)
qed

text \<open>What providers are relied on for: a reply is the assistant's and carries its tool calls.\<close>

definition replies_well :: "ModelWorld \<Rightarrow> bool" where
  "replies_well w \<longleftrightarrow> (\<forall>req. let resp = fst (mw_chat w req)
     in msg_Role (cp_Message resp) = ''assistant'' \<and> msg_ToolCalls (cp_Message resp) = cp_ToolCalls resp)"

lemma modelCall_reply:
  assumes "modelCall K actor c agent req w s = (s', reqs, r)"
  shows "r = Inr resp \<Longrightarrow> \<exists>q. mw_chat w q = (resp, None)"
    and "length reqs \<le> 1" and "q \<in> set reqs \<Longrightarrow> cr_Messages q = cr_Messages req \<and> cr_Tools q = cr_Tools req"
  using assms by (auto simp: modelCall_def Let_def filledRequest_def split: option.splits prod.splits)

lemma agentRound_chat:
  assumes round: "agentRound E c spec specs base w ms s = Some (s', reqs, out)"
    and ok: "chat_ok base ms" and provider: "replies_well (ro_model w)"
    and tools: "\<forall>tcs s s' msgs. ro_tools w tcs s = (s', Inr msgs) \<longrightarrow> list_all2 answersCall tcs msgs"
  shows "length reqs \<le> 1" and "\<forall>q \<in> set reqs. wfChat (cr_Messages q)"
    and "out = RoundContinues ms' \<Longrightarrow> chat_ok base ms'"
proof -
  obtain s1 r1 where ct: "compactTask (ae_Kit E) (ae_actor E) (ae_trim E) (ae_Agents E) (ae_Compaction E) c
      (sp_prompt spec) (ro_compact w) ms base s = (s1, r1)" by fastforce
  show "length reqs \<le> 1"
    using round unfolding agentRound_def ct
    by (auto simp: Let_def split: sum.splits prod.splits option.splits if_splits dest!: modelCall_reply(2))
  have wf: "chat_ok base ms1" if "r1 = Inr ms1" for ms1
    using compactTask_chat [OF ct [unfolded that] ok] .
  show "\<forall>q \<in> set reqs. wfChat (cr_Messages q)"
    using round wf unfolding agentRound_def ct
    by (auto simp: Let_def split: sum.splits prod.splits option.splits if_splits
        dest!: modelCall_reply(3) chat_ok_wf)
  show "chat_ok base ms'" if out: "out = RoundContinues ms'"
  proof -
    from round out obtain ms1 s2 resp where r: "r1 = Inr ms1"
      "modelCall (ae_Kit E) (ae_actor E) c (sp_agent spec) (ChatRequest0\<lparr>cr_Messages := ms1,
         cr_Tools := specs, cr_ResponseSchema := sp_rawSchema spec\<rparr>) (ro_model w) s1 = (s2, reqs, Inr resp)"
      "cp_ToolCalls resp \<noteq> [] \<and> (\<exists>msgs. ro_tools w (cp_ToolCalls resp) s2 = (s', Inr msgs) \<and> ms' = ms1 @ [cp_Message resp] @ msgs) \<or>
       cp_ToolCalls resp = [] \<and> (\<exists>t. ms' = ms1 @ [cp_Message resp] @ [userMessage t])"
      unfolding agentRound_def ct
      by (auto simp: Let_def rejectAnswer_def split: sum.splits prod.splits option.splits if_splits)
    from modelCall_reply(1) [OF r(2) refl] obtain q where "mw_chat (ro_model w) q = (resp, None)" by blast
    with provider have m: "msg_Role (cp_Message resp) = ''assistant''" "msg_ToolCalls (cp_Message resp) = cp_ToolCalls resp"
      unfolding replies_well_def Let_def by (metis fst_conv)+
    from r(3) show ?thesis
    proof (elim disjE conjE exE)
      fix msgs assume t: "ro_tools w (cp_ToolCalls resp) s2 = (s', Inr msgs)" and "ms' = ms1 @ [cp_Message resp] @ msgs"
      then show ?thesis
        using chat_ok_snoc [OF wf [OF r(1)] wfChat_round, of "cp_Message resp" msgs] tools t m by simp
    next
      fix t assume "cp_ToolCalls resp = []" "ms' = ms1 @ [cp_Message resp] @ [userMessage t]"
      then show ?thesis
        using chat_ok_snoc [OF wf [OF r(1)], of "[cp_Message resp, userMessage t]"] m
        by (simp add: wfChat_plain)
    qed
  qed
qed

section \<open>The loop\<close>

lemma agentRounds_chat:
  assumes "agentRounds E c spec specs base world i n ms s = Some (s', reqs, r)"
    and "chat_ok base ms" and "\<And>i. replies_well (ro_model (world i))"
    and "\<And>i. \<forall>tcs s s' msgs. ro_tools (world i) tcs s = (s', Inr msgs) \<longrightarrow> list_all2 answersCall tcs msgs"
  shows "length reqs \<le> n \<and> (\<forall>q \<in> set reqs. wfChat (cr_Messages q))"
  using assms(1,2)
proof (induction n arbitrary: i ms s s' reqs r)
  case (Suc n)
  obtain s1 reqs1 out where round: "agentRound E c spec specs base (world i) ms s = Some (s1, reqs1, out)"
    using Suc.prems(1) by (auto split: option.splits)
  note ok = agentRound_chat [OF round Suc.prems(2) assms(3) [of i] assms(4) [of i]]
  show ?case
  proof (cases out)
    case (RoundContinues ms1)
    with Suc.prems(1) round obtain later where later:
      "agentRounds E c spec specs base world (i + 1) n ms1 s1 = Some (s', later, r)" "reqs = reqs1 @ later"
      by (auto split: option.splits)
    from Suc.IH [OF later(1) ok(3) [OF RoundContinues]] ok(1,2) later(2) show ?thesis by auto
  qed (use Suc.prems(1) round ok in auto)
qed simp

lemma opening_ok:
  assumes "list_all (\<lambda>m. msg_Role m \<noteq> ''tool'' \<and> msg_ToolCalls m = []) history"
  shows "chat_ok (length (openingMessages history agent prompt images)) (openingMessages history agent prompt images)"
proof -
  have plain: "wfChat ms" if "list_all (\<lambda>m. msg_Role m \<noteq> ''tool'' \<and> msg_ToolCalls m = []) ms" for ms
    using that by (induction ms) (simp_all add: wfChat_plain)
  show ?thesis
    using assms unfolding chat_ok_def
    by (auto simp: openingMessages_def withInstructions_def userMessage_def Message0_def intro!: plain)
qed

text \<open>The dispatch of a round's tool calls is one \<open>runToolCalls\<close> allows, with the agent's tools.\<close>

definition dispatches_well :: "('p, 'x, 'sc, 'os) AgentEnv \<Rightarrow> CallScope \<Rightarrow> 'sc InputCheck
    \<Rightarrow> (nat \<Rightarrow> 'x RoundWorld) \<Rightarrow> bool" where
  "dispatches_well E c J world \<longleftrightarrow> (\<forall>i tcs s. \<exists>I :: ('x, 'sc) ReplyIn. ry_Check I = J \<and>
     runToolCalls (ae_Kit E) c I tcs s (fst (ro_tools (world i) tcs s)) (snd (ro_tools (world i) tcs s)))"

text \<open>C6: Every request an agent sends is a well-formed conversation: each tool call of the assistant is
  followed at once by the answer to it, and no answer stands anywhere else. This holds however
  calls fail, are refused or interleave, and when older rounds were replaced by a summary. The
  agent makes at most \<open>MaxToolLoops\<close> calls.\<close>

theorem agent_requests_well_formed:
  assumes loop: "agentLoop E c spec caps world s = Some (s', reqs, r)"
    and history: "list_all (\<lambda>m. msg_Role m \<noteq> ''tool'' \<and> msg_ToolCalls m = []) (ae_History E)"
    and provider: "\<And>i. replies_well (ro_model (world i))" and tools: "dispatches_well E c J world"
  shows "length reqs \<le> nat (ag_MaxToolLoops (sp_agent spec)) \<and> (\<forall>q \<in> set reqs. wfChat (cr_Messages q))"
proof -
  have answers: "\<forall>tcs s s' msgs. ro_tools (world i) tcs s = (s', Inr msgs) \<longrightarrow> list_all2 answersCall tcs msgs" for i
    using tools runToolCalls_answers unfolding dispatches_well_def by (metis fst_conv snd_conv)
  show ?thesis
    using loop unfolding agentLoop_def Let_def
    by (auto split: prod.splits option.splits
        dest!: agentRounds_chat [OF _ opening_ok [OF history] provider answers])
qed


section \<open>An agent that corrects its answer\<close>

definition sellerSpec :: "(unit, unit) fullSpec" where
  "sellerSpec = \<lparr>sp_stage = ''sale'',
     sp_agent = \<lparr>ag_Name = ''seller'', ag_Role = [], ag_Instructions = ''Sell.'', ag_Model = ''m'', ag_Provider = (),
       ag_Tools = [''pay''], ag_Children = [], ag_MaxToolLoops = 4, ag_AskHuman = False, ag_Timeout = 0, ag_tenant = []\<rparr>,
     sp_prompt = ''Pay the bill.'', sp_parent = [], sp_spawnedBy = [], sp_depth = 0,
     sp_retry = \<lparr>rp_MaxAttempts = 1, rp_Backoff = 0\<rparr>, sp_images = [], sp_schema = Some (), sp_rawSchema = None\<rparr>"

definition sellerEnv :: "(unit, nat, unit, unit) AgentEnv" where
  "sellerEnv = \<lparr>ae_Kit = payKit, ae_actor = (\<lambda>n. n), ae_trim = (\<lambda>s. s), ae_lower = (\<lambda>r. r), ae_inWord = (\<lambda>r. True),
     ae_runes = (\<lambda>s. []), ae_validate = (\<lambda>sc out. if out = ''paid'' then None else Some (new_error ''no'')),
     ae_Agents = Map.empty, ae_RunAgents = Map.empty,
     ae_Compaction = \<lparr>co_Agent = [], co_MaxMessages = 0, co_MaxTokens = 0, co_KeepRecent = 0, co_TaskMaxTokens = 0\<rparr>,
     ae_Tools = payBox, ae_Policies = [payPolicy], ae_SkipApprovals = False, ae_MaxDepth = 1, ae_AskHuman = 1,
     ae_Delegate = 2, ae_History = []\<rparr>"

definition sellerWorld :: "nat \<Rightarrow> nat RoundWorld" where
  "sellerWorld i = (let talk = (\<lambda>m. \<lparr>mw_cost = None, mw_step = ''q'', mw_slot = None,
       mw_chat = (\<lambda>req. (ChatResponse0\<lparr>cp_Message := m, cp_ToolCalls := msg_ToolCalls m\<rparr>, None))\<rparr>);
       m = Message0\<lparr>msg_Role := ''assistant'', msg_Content := (if i = 0 then ''about to pay'' else ''paid'')\<rparr>
     in \<lparr>ro_compact = talk m, ro_model = talk m, ro_tools = serialReply payKit payScope payReply,
         ro_answer = Inr [], ro_complete = \<lparr>cw_messageID = ''m'', cw_messageAt = 1, cw_updatedAt = 2\<rparr>\<rparr>)"

definition sale :: "(nat CallState \<times> ChatRequest list \<times> (goerr + string)) option" where
  "sale = agentLoop sellerEnv payScope sellerSpec (Inr \<lparr>ca_ToolCalling = True, ca_Vision = False\<rparr>) sellerWorld payState"

lemma sale_ends: "snd (snd (the sale)) = Inr ''paid''" "sale \<noteq> None" "length (fst (snd (the sale))) = 2"
  by code_simp+

lemma sale_run: "sale = Some (fst (the sale), fst (snd (the sale)), Inr ''paid'')"
proof -
  obtain x where x: "sale = Some x" using sale_ends(2) by blast
  then have "the sale = x" by (rule arg_cong [where f = the, THEN trans]) (rule option.sel)
  with sale_ends(1) have "x = (fst (the sale), fst (snd (the sale)), Inr ''paid'')" by (metis prod.collapse)
  with x show ?thesis by (rule trans [OF _ arg_cong])
qed

theorem agent_requests_well_formed_witness:
  "list_all (\<lambda>q. wfChat (cr_Messages q)) (fst (snd (the sale))) \<and> length (fst (snd (the sale))) = 2"
proof -
  have provider: "replies_well (ro_model (sellerWorld i))" for i
    by (simp add: replies_well_def sellerWorld_def Let_def Message0_def ChatResponse0_def)
  have tools: "dispatches_well sellerEnv payScope (ry_Check payReply) sellerWorld"
    unfolding dispatches_well_def
    by (auto simp: sellerWorld_def sellerEnv_def Let_def intro!: exI [of _ payReply] serialReply_run)
  from agent_requests_well_formed [OF sale_run [unfolded sale_def] _ provider tools] sale_ends(3)
  show ?thesis by (simp add: sale_def sellerEnv_def list_all_iff)
qed


end
