(* ===== verification/JsonFields.thy ===== *)
theory JsonFields
  imports Providers Tasks
begin

text \<open>
  \<open>json.Unmarshal\<close> into structs with string, raw and integer fields, as \<open>runtime/chat.go\<close>,
  \<open>runtime/reexecute.go\<close> and the executor of \<open>delegate\<close> use it: a document is checked as a whole first,
  a member's name is compared without regard to case, the last of equal names counts, null leaves
  a string or a number as it is, and a member of another type is an error that leaves the field.
\<close>

section \<open>Fields\<close>

definition members :: "raw \<Rightarrow> (string \<times> json) list" where
  "members r = (case r of Some (JObj fs) \<Rightarrow> if validDoc (JObj fs) then fs else [] | _ \<Rightarrow> [])"

text \<open>What is in a field once \<open>Unmarshal\<close> returns, whatever it returns.\<close>

definition textField :: "string \<Rightarrow> raw \<Rightarrow> string" where
  "textField name r = foldl (\<lambda>acc (k, v). if EqualFold k name then (case v of JStr t \<Rightarrow> t | _ \<Rightarrow> acc) else acc)
     [] (members r)"

definition intField :: "string \<Rightarrow> raw \<Rightarrow> int" where
  "intField name r = foldl (\<lambda>acc (k, v). if EqualFold k name then (case v of JNum n \<Rightarrow> n | _ \<Rightarrow> acc) else acc)
     0 (members r)"

text \<open>A raw field keeps the text of the member; of null too.\<close>

definition rawField :: "string \<Rightarrow> raw \<Rightarrow> raw" where
  "rawField name r = foldl (\<lambda>acc (k, v). if EqualFold k name then Some v else acc) None (members r)"

fun isText :: "json \<Rightarrow> bool" where
  "isText (JStr t) = True"
| "isText JNull = True"
| "isText _ = False"

fun isInt :: "json \<Rightarrow> bool" where
  "isInt (JNum n) = True"
| "isInt JNull = True"
| "isInt _ = False"

text \<open>Whether \<open>Unmarshal\<close> returns no error, given the names of the text and the integer fields.\<close>

definition decodes :: "string list \<Rightarrow> string list \<Rightarrow> raw \<Rightarrow> bool" where
  "decodes texts ints r = (case r of
     None \<Rightarrow> False
   | Some JNull \<Rightarrow> True
   | Some (JObj fs) \<Rightarrow> validDoc (JObj fs) \<and>
       list_all (\<lambda>(k, v). (list_ex (EqualFold k) texts \<longrightarrow> isText v) \<and> (list_ex (EqualFold k) ints \<longrightarrow> isInt v)) fs
   | Some _ \<Rightarrow> False)"

section \<open>Documents written by the runtime\<close>

lemma EqualFold_same [simp]: "EqualFold a a"
  by (simp add: EqualFold_def)

lemma members_valid: "validDoc (JObj fs) \<Longrightarrow> members (Some (JObj fs)) = fs"
  by (simp add: members_def)

end
