(* ===== verification/Delegation.thy ===== *)
theory Delegation
  imports AgentRules JsonFields
begin

text \<open>
  Delegation: the executor of the built-in tool \<open>delegate\<close> (\<open>agentLoop\<close> in \<open>runtime/orchestrator.go\<close>,
  lines 1337 to 1363). \<open>runTask\<close> is an argument, the model of the same name in \<open>TaskRuns\<close> on another
  state; \<open>None\<close> is a panic, which \<open>safeExecute\<close> recovers.
\<close>

section \<open>The executor\<close>

text \<open>Everything before the child's task: an error, or the task to run. \<open>answer\<close> is a human's, if near
  identical delegations are a loop.\<close>

definition childSpec :: "(string \<Rightarrow> PrincipalID) \<Rightarrow> CallScope \<Rightarrow> ('p, 'os) fullSpec \<Rightarrow> 'p Agent \<Rightarrow> string
    \<Rightarrow> ('p, 'os) fullSpec" where
  "childSpec actor c spec child task = \<lparr>sp_stage = sp_stage spec, sp_agent = child, sp_prompt = task,
     sp_parent = cx_Task c, sp_spawnedBy = actor (ag_Name (sp_agent spec)), sp_depth = sp_depth spec + 1,
     sp_retry = \<lparr>rp_MaxAttempts = 0, rp_Backoff = 0\<rparr>, sp_images = [], sp_schema = None, sp_rawSchema = None\<rparr>"

definition delegatePlan :: "('p, 'x, 'sc, 'os) AgentEnv \<Rightarrow> CallScope \<Rightarrow> ('p, 'os) fullSpec \<Rightarrow> goerr + string
    \<Rightarrow> Call \<Rightarrow> 'x CallState \<Rightarrow> ('x CallState \<times> (goerr + ('p, 'os) fullSpec)) option" where
  "delegatePlan E c spec answer call s =
    (let agent = sp_agent spec; name = textField ''agent'' (cl_Input call); task = textField ''task'' (cl_Input call);
         scope = ''delegate:'' @ cx_Task c
     in if \<not> decodes [''agent'', ''task''] [] (cl_Input call) then Some (s, Inl (new_error ''json''))
        else (case (if name \<in> set (ag_Children agent) then ae_RunAgents E name else None) of
            None \<Rightarrow> Some (s, Inl (Errorf ''%w: %s may not delegate to %q'' [Sentinel ErrPolicyDenied]))
          | Some child \<Rightarrow>
             (case ObserveReply (ae_lower E) (ae_inWord E) (cs_Loop s) (cx_Run c) scope
                     (ae_runes E (name @ '' '' @ task)) of
                None \<Rightarrow> None
              | Some (d, stalled, n) \<Rightarrow>
                 let s1 = s\<lparr>cs_Loop := d\<rparr>;
                     (s2, lerr) = (if \<not> stalled then (s1, None)
                       else loopDetected (ae_Kit E) c scope [(''kind'', JStr ''repeated_delegation''),
                              (''agent'', JStr (ag_Name agent)), (''count'', JNum n)]
                              (Errorf ''%w: agent %s delegated %d near-identical tasks'' [Sentinel ErrLoopDetected])
                              answer s1)
                 in (case lerr of
                       Some e \<Rightarrow> Some (s2, Inl e)
                     | None \<Rightarrow> Some (s2, Inr (childSpec (ae_actor E) c spec child task))))))"

definition delegateCall :: "('p, 'x, 'sc, 'os) AgentEnv \<Rightarrow> CallScope
    \<Rightarrow> (('p, 'os) fullSpec \<Rightarrow> 'x CallState \<Rightarrow> ('x CallState \<times> (goerr + string)) option)
    \<Rightarrow> ('p, 'os) fullSpec \<Rightarrow> goerr + string \<Rightarrow> Call \<Rightarrow> 'x CallState \<Rightarrow> ('x CallState \<times> (goerr + ToolResult)) option" where
  "delegateCall E c runChild spec answer call s =
    (case delegatePlan E c spec answer call s of
       None \<Rightarrow> None
     | Some (s1, Inl e) \<Rightarrow> Some (s1, Inl e)
     | Some (s1, Inr child) \<Rightarrow>
        (case runChild child s1 of
           None \<Rightarrow> None
         | Some (s2, Inl e) \<Rightarrow> Some (s2, Inl e)
         | Some (s2, Inr out) \<Rightarrow> Some (s2, Inr (ToolResult0\<lparr>tr_Output := Some (mustJSON (JObj
             [(''agent'', JStr (textField ''agent'' (cl_Input call))), (''answer'', JStr out)]))\<rparr>))))"

section \<open>How deep tasks are delegated\<close>

text \<open>A task runs another: its agent was offered the tool, called it, and \<open>runTask\<close> is called for it.\<close>

definition delegates :: "('p, 'x, 'sc, 'os) AgentEnv \<Rightarrow> ('p, 'os) fullSpec \<Rightarrow> ('p, 'os) fullSpec \<Rightarrow> bool" where
  "delegates E spec child \<longleftrightarrow> (\<exists>c answer call s s'.
     builtinTools (sp_agent spec) (ae_RunAgents E) (sp_depth spec) (ae_MaxDepth E) (ae_AskHuman E) (ae_Delegate E)
       delegateTool \<noteq> None \<and>
     delegatePlan E c spec answer call s = Some (s', Inr child))"

lemma delegatePlan_child:
  assumes "delegatePlan E c spec answer call s = Some (s', Inr child)"
  shows "sp_depth child = sp_depth spec + 1 \<and> sp_schema child = None \<and>
    (\<exists>name \<in> set (ag_Children (sp_agent spec)). ae_RunAgents E name = Some (sp_agent child))"
  using assms
  by (auto simp: delegatePlan_def Let_def childSpec_def split: if_splits option.splits prod.splits)

lemma builtin_delegate: "builtinTools agent agents depth maxDepth ask del delegateTool \<noteq> None \<longleftrightarrow>
    mayDelegate agent agents depth maxDepth"
  by (simp add: builtinTools_def Let_def)

lemma delegates_step:
  assumes "delegates E spec child"
  shows "sp_depth child = sp_depth spec + 1 \<and> sp_depth child \<le> ae_MaxDepth E \<and>
    (\<exists>name \<in> set (ag_Children (sp_agent spec)). ae_RunAgents E name = Some (sp_agent child))"
  using assms delegatePlan_child unfolding delegates_def builtin_delegate mayDelegate_def by fastforce

text \<open>However agents hand tasks on, a task that came from another by \<open>n\<close> delegations is \<open>n\<close> levels
  deeper and never deeper than the run's \<open>MaxDepth\<close>, so chains of delegations end; and each task goes
  to an agent the run may use that the one before lists among its children.\<close>

theorem delegations_stay_within_depth:
  assumes "(delegates E ^^ n) spec0 spec" and "0 < n"
  shows "sp_depth spec = sp_depth spec0 + int n \<and> sp_depth spec \<le> ae_MaxDepth E \<and>
    int n \<le> ae_MaxDepth E - sp_depth spec0 \<and>
    (\<exists>parent. (delegates E ^^ (n - 1)) spec0 parent \<and>
       (\<exists>name \<in> set (ag_Children (sp_agent parent)). ae_RunAgents E name = Some (sp_agent spec)))"
proof -
  have depth: "sp_depth s = sp_depth spec0 + int k" if "(delegates E ^^ k) spec0 s" for k s
    using that by (induction k arbitrary: s) (auto dest!: delegates_step)
  obtain k where k: "n = Suc k" using assms(2) by (cases n) auto
  with assms(1) obtain parent where p: "(delegates E ^^ k) spec0 parent" "delegates E parent spec" by auto
  from delegates_step [OF p(2)] depth [OF assms(1)] p(1) k show ?thesis by auto
qed

section \<open>A sample delegation\<close>

definition bossSpec :: "(unit, unit) fullSpec" where
  "bossSpec = sellerSpec\<lparr>sp_agent := (sp_agent sellerSpec)\<lparr>ag_Name := ''boss'', ag_Children := [''seller'']\<rparr>\<rparr>"

definition bossEnv :: "(unit, nat, unit, unit) AgentEnv" where
  "bossEnv = sellerEnv\<lparr>ae_RunAgents := [''seller'' \<mapsto> sp_agent sellerSpec]\<rparr>"

definition bossCall :: Call where
  "bossCall = \<lparr>cl_TenantID = [], cl_RunID = ''r'', cl_TaskID = ''k'', cl_StepID = ''x'', cl_Tool = ToolDefinition0,
     cl_Input = Some (JObj [(''agent'', JStr ''seller''), (''task'', JStr ''Sell it.'')]), cl_IdempotencyKey = ''x''\<rparr>"

lemma boss_plans: "map_option (\<lambda>(s, r). case r of Inl e \<Rightarrow> None | Inr sp \<Rightarrow> Some (sp_depth sp, sp_prompt sp))
    (delegatePlan bossEnv payScope bossSpec (Inr []) bossCall payState) = Some (Some (1, ''Sell it.''))"
  by code_simp

theorem delegations_stay_within_depth_witness:
  "\<exists>spec. delegates bossEnv bossSpec spec \<and> sp_prompt spec = ''Sell it.'' \<and> sp_depth spec \<le> ae_MaxDepth bossEnv"
proof -
  obtain s' spec where p: "delegatePlan bossEnv payScope bossSpec (Inr []) bossCall payState = Some (s', Inr spec)"
    and prompt: "sp_prompt spec = ''Sell it.''"
    using boss_plans by (auto simp: map_option_case split: option.splits sum.splits)
  have "mayDelegate (sp_agent bossSpec) (ae_RunAgents bossEnv) (sp_depth bossSpec) (ae_MaxDepth bossEnv)"
    by (simp add: mayDelegate_def bossSpec_def bossEnv_def sellerSpec_def sellerEnv_def)
  then have d: "delegates bossEnv bossSpec spec"
    unfolding delegates_def builtin_delegate using p by blast
  then have "(delegates bossEnv ^^ 1) bossSpec spec" by (auto simp: relcompp_apply)
  from delegations_stay_within_depth [OF this] d prompt show ?thesis by auto
qed

end
