(* ===== verification/CostGate.thy ===== *)
theory CostGate
  imports ToolPolicies
begin

text \<open>
  The cost gate of a run (\<open>costGate\<close> and \<open>checkCost\<close> in \<open>runtime/orchestrator.go\<close>): once a run passes
  \<open>ApproveAbove\<close>, the first caller asks a human and the others wait for that answer. The sections
  under the gate's mutex and the waits between them are the steps of a relation over all callers,
  which are the run's model calls. A channel is a number; it is closed when it is not the one being
  asked on. What \<open>awaitApproval\<close> returns is part of the step.
\<close>

section \<open>The threshold\<close>

definition passedThreshold :: "Usage \<Rightarrow> bool \<Rightarrow> Usage \<Rightarrow> bool" where
  "passedThreshold limit skipApprovals used \<longleftrightarrow>
     \<not> (TotalTokens limit \<le> 0 \<and> CostUnits limit \<le> 0 \<or> skipApprovals) \<and>
     (TotalTokens limit > 0 \<and> TotalTokens used > TotalTokens limit \<or>
      CostUnits limit > 0 \<and> CostUnits used > CostUnits limit)"

section \<open>The gate and its callers\<close>

record costGate =
  cg_asking :: "nat option"
  cg_answered :: bool
  cg_err :: "goerr option"
  cg_made :: nat \<comment> \<open>how many channels were made, which names the next one\<close>

definition costGate0 :: costGate where
  "costGate0 = \<lparr>cg_asking = None, cg_answered = False, cg_err = None, cg_made = 0\<rparr>"

text \<open>A caller is before the gate, waits on a channel, asks on one, or has its answer.\<close>

datatype caller = Outside | Waits nat | Asks nat | Answered "goerr option"

text \<open>What a caller does when it holds the mutex and nobody is asking on the channel it waits for.\<close>

definition enterGate :: "costGate \<Rightarrow> costGate \<times> caller" where
  "enterGate g =
    (if cg_answered g then (g, Answered (cg_err g))
     else case cg_asking g of
       Some ch \<Rightarrow> (g, Waits ch)
     | None \<Rightarrow> (g\<lparr>cg_asking := Some (cg_made g), cg_made := cg_made g + 1\<rparr>, Asks (cg_made g)))"

text \<open>What the asker does with what \<open>awaitApproval\<close> returned.\<close>

definition closeGate :: "goerr + string \<Rightarrow> costGate \<Rightarrow> costGate \<times> caller" where
  "closeGate answer g0 =
    (let g = g0\<lparr>cg_asking := None\<rparr>
     in case answer of
       Inl e \<Rightarrow> (g, Answered (Some e))
     | Inr status \<Rightarrow>
        let err = (if status \<noteq> ''approved''
                   then Some (Errorf ''%w: going past the cost approval threshold was not approved (%s)''
                                [Sentinel ErrPolicyDenied])
                   else cg_err g)
        in (g\<lparr>cg_answered := True, cg_err := err\<rparr>, Answered err))"

inductive gate_step :: "costGate \<times> ('c \<Rightarrow> caller) \<Rightarrow> costGate \<times> ('c \<Rightarrow> caller) \<Rightarrow> bool" where
  enters: "\<lbrakk>cs i = Outside; enterGate g = (g', p)\<rbrakk> \<Longrightarrow> gate_step (g, cs) (g', cs(i := p))"
| wakes: "\<lbrakk>cs i = Waits ch; cg_asking g \<noteq> Some ch; enterGate g = (g', p)\<rbrakk> \<Longrightarrow> gate_step (g, cs) (g', cs(i := p))"
| gives_up: "cs i = Waits ch \<Longrightarrow> gate_step (g, cs) (g, cs(i := Answered (Some e)))"
| closes: "\<lbrakk>cs i = Asks ch; closeGate answer g = (g', p)\<rbrakk> \<Longrightarrow> gate_step (g, cs) (g', cs(i := p))"
| returns: "cs i = Answered r \<Longrightarrow> gate_step (g, cs) (g, cs(i := Outside))"

inductive_cases gate_stepE: "gate_step x y"

section \<open>One human at a time, one answer for all\<close>

definition gate_ok :: "costGate \<times> ('c \<Rightarrow> caller) \<Rightarrow> bool" where
  "gate_ok x \<longleftrightarrow> (let (g, cs) = x in
     (\<forall>i ch. cs i = Asks ch \<longrightarrow> cg_asking g = Some ch) \<and>
     (\<forall>i j ch ch'. cs i = Asks ch \<longrightarrow> cs j = Asks ch' \<longrightarrow> i = j) \<and>
     (cg_asking g \<noteq> None \<longrightarrow> \<not> cg_answered g \<and> (\<exists>i ch. cs i = Asks ch)) \<and>
     (\<not> cg_answered g \<longrightarrow> cg_err g = None) \<and>
     (\<forall>i. cs i = Answered None \<longrightarrow> cg_answered g \<and> cg_err g = None))"

lemma gate_ok_start: "gate_ok (costGate0, \<lambda>i. Outside)"
  by (simp add: gate_ok_def costGate0_def)

lemma enterGate_ok:
  assumes "gate_ok (g, cs)" and "cs i = Outside \<or> (\<exists>ch. cs i = Waits ch)" and "enterGate g = (g', p)"
  shows "gate_ok (g', cs(i := p))"
  using assms by (auto simp: gate_ok_def enterGate_def split: if_splits option.splits)
    (metis caller.distinct)+

lemma closeGate_ok:
  assumes "gate_ok (g, cs)" and "cs i = Asks ch" and "closeGate answer g = (g', p)"
  shows "gate_ok (g', cs(i := p))"
  using assms by (auto simp: gate_ok_def closeGate_def Let_def split: if_splits sum.splits)

lemma gate_ok_step: "gate_step x y \<Longrightarrow> gate_ok x \<Longrightarrow> gate_ok y"
proof (induction rule: gate_step.induct)
  case (enters cs i g g' p)
  then show ?case by (blast intro: enterGate_ok)
next
  case (wakes cs i ch g g' p)
  then show ?case by (blast intro: enterGate_ok)
next
  case (closes cs i ch answer g g' p)
  then show ?case by (blast intro: closeGate_ok)
qed (auto simp: gate_ok_def, (metis caller.distinct)+)

definition gate_answer :: "costGate \<Rightarrow> goerr option option" where
  "gate_answer g = (if cg_answered g then Some (cg_err g) else None)"

lemma gate_answer_step: "gate_step x y \<Longrightarrow> gate_ok x \<Longrightarrow> gate_answer (fst x) = Some a \<Longrightarrow> gate_answer (fst y) = Some a"
  by (induction rule: gate_step.induct)
    (auto simp: gate_ok_def gate_answer_def enterGate_def closeGate_def Let_def split: if_splits option.splits sum.splits)

lemma gate_steps_ok: "gate_step\<^sup>*\<^sup>* x y \<Longrightarrow> gate_ok x \<Longrightarrow> gate_ok y"
  by (induction rule: rtranclp_induct) (auto intro: gate_ok_step)

lemma gate_answer_steps: "gate_step\<^sup>*\<^sup>* x y \<Longrightarrow> gate_ok x \<Longrightarrow> gate_answer (fst x) = Some a \<Longrightarrow> gate_answer (fst y) = Some a"
  by (induction rule: rtranclp_induct) (auto intro: gate_answer_step gate_steps_ok)



end
