(* ===== verification/RunBoard.thy ===== *)
theory RunBoard
  imports RunLifecycle
begin

text \<open>
  The lifecycle of runs (\<open>docs/01\<close>, "Run state") over an abstract board, which holds each run's
  status and the list of the statuses announced as events, and what the operations of
  \<open>runtime/orchestrator.go\<close> do to the board of a store.

  The first part states the board and its lifecycle and proves the abstract invariants. The second
  shows of each operation that it leaves the board alone (\<open>quiet\<close>, \<open>keeps\<close>) or posts one status on
  it (\<open>posted\<close>, \<open>puts\<close>): it writes the status and announces it.
\<close>

section \<open>The lifecycle\<close>

type_synonym notice = "TenantID \<times> RunID \<times> string" \<comment> \<open>an announced status\<close>
type_synonym board = "(RunID \<rightharpoonup> RunID \<times> TenantID \<times> RunStatus) \<times> notice list"

definition unfinished :: "RunStatus set" where
  "unfinished = {RunQueued, RunRunning, RunAwaitingApproval}"

definition executing :: "RunStatus set" where
  "executing = {RunRunning, RunAwaitingApproval}"

definition outcomes :: "RunStatus set" where
  "outcomes = {RunSucceeded, RunPaused, RunCanceled, RunTimedOut, RunFailed}"

definition reopenable :: "RunStatus set" where
  "reopenable = {RunPaused, RunFailed, RunTimedOut}"

lemmas status_sets = unfinished_def executing_def outcomes_def reopenable_def

text \<open>The edges of the lifecycle. A run starts to execute, or executes again after an interruption;
  it waits for approvals and goes on; it ends; and what ended without success is resumed or canceled.\<close>

fun edge :: "RunStatus \<Rightarrow> RunStatus \<Rightarrow> bool" where
  "edge s RunRunning \<longleftrightarrow> s \<in> unfinished"
| "edge s RunAwaitingApproval \<longleftrightarrow> s \<in> executing"
| "edge s RunCanceled \<longleftrightarrow> s \<in> unfinished \<union> reopenable"
| "edge s RunQueued \<longleftrightarrow> s \<in> reopenable"
| "edge s RunSucceeded \<longleftrightarrow> s \<in> executing"
| "edge s RunPaused \<longleftrightarrow> s \<in> executing"
| "edge s RunTimedOut \<longleftrightarrow> s \<in> executing"
| "edge s RunFailed \<longleftrightarrow> s \<in> executing"
| "edge s _ \<longleftrightarrow> False"

definition post :: "RunID \<Rightarrow> TenantID \<Rightarrow> RunStatus \<Rightarrow> board \<Rightarrow> board" where
  "post rid t st b = ((fst b)(rid \<mapsto> (rid, t, st)), snd b @ [(t, rid, statusName st)])"

inductive life_step :: "board \<Rightarrow> board \<Rightarrow> bool" where
  created: "fst b rid = None \<Longrightarrow> life_step b (post rid t RunQueued b)"
| moved: "fst b rid = Some (rid, t, s) \<Longrightarrow> edge s s' \<Longrightarrow> life_step b (post rid t s' b)"

inductive_cases life_stepE: "life_step b b'"

text \<open>The last status announced of a run.\<close>

definition announced :: "board \<Rightarrow> TenantID \<Rightarrow> RunID \<Rightarrow> string option" where
  "announced b t rid = (let ns = filter (\<lambda>(t', rid', _). t' = t \<and> rid' = rid) (snd b)
     in if ns = [] then None else Some (snd (snd (last ns))))"

text \<open>Each run's entry is its own, has a status of the lifecycle, and was announced.\<close>

definition board_ok :: "board \<Rightarrow> bool" where
  "board_ok b \<longleftrightarrow> (\<forall>rid rid' t st. fst b rid = Some (rid', t, st) \<longrightarrow>
     rid' = rid \<and> st \<in> unfinished \<union> outcomes \<and> announced b t rid = Some (statusName st))"

lemma board_okD:
  assumes "board_ok b" and "fst b rid = Some (rid', t, st)"
  shows "rid' = rid" "st \<in> unfinished \<union> outcomes" "announced b t rid = Some (statusName st)"
  using assms unfolding board_ok_def by blast+

lemma announced_post: "announced (post rid t st b) t' rid' =
    (if rid' = rid \<and> t' = t then Some (statusName st) else announced b t' rid')"
  by (auto simp: announced_def post_def Let_def)

lemma fst_post: "fst (post rid t st b) rid' = (if rid' = rid then Some (rid, t, st) else fst b rid')"
  by (simp add: post_def)

lemma board_ok_post: "board_ok b \<Longrightarrow> st \<in> unfinished \<union> outcomes \<Longrightarrow> board_ok (post rid t st b)"
  unfolding board_ok_def by (auto simp: fst_post announced_post split: if_splits)

lemma edge_status: "edge s s' \<Longrightarrow> s' \<in> unfinished \<union> outcomes"
  by (cases s') (auto simp: status_sets)

lemma edge_final: "edge s s' \<Longrightarrow> s \<noteq> RunSucceeded \<and> s \<noteq> RunCanceled"
  by (cases s') (auto simp: status_sets)

lemma life_step_ok: "life_step b b' \<Longrightarrow> board_ok b \<Longrightarrow> board_ok b'"
  by (erule life_stepE) (auto intro!: board_ok_post dest: edge_status simp: unfinished_def)

lemma life_step_final:
  assumes "life_step b b'" and "board_ok b" and "fst b rid = Some (rid, t, st)"
    and "st \<in> {RunSucceeded, RunCanceled}"
  shows "fst b' rid = fst b rid"
  using assms edge_final by (auto elim!: life_stepE simp: fst_post)

section \<open>The board of a store\<close>

definition statusOf :: "MemStore \<Rightarrow> RunID \<rightharpoonup> RunID \<times> TenantID \<times> RunStatus" where
  "statusOf m rid = map_option (\<lambda>r. (ru_ID r, ru_TenantID r, ru_Status r)) (map_of (ms_runs m) rid)"

definition noticesOf :: "Event list \<Rightarrow> notice list" where
  "noticesOf evs = map (\<lambda>ev. (ev_TenantID ev, ev_RunID ev, statusField (ev_Payload ev)))
     (filter (\<lambda>ev. ev_Type ev = EvRunStateChanged) evs)"

definition boardOf :: "MemStore \<Rightarrow> board" where
  "boardOf m = (statusOf m, noticesOf (ms_events m))"

lemma GetRun_statusOf: "GetRun m t rid = Inr r \<Longrightarrow> statusOf m rid = Some (ru_ID r, t, ru_Status r)"
  by (auto simp: statusOf_def runs.get_Inr_iff)

lemma statusOf_GetRun: "statusOf m rid = Some (rid', t, st) \<Longrightarrow>
    \<exists>r. GetRun m t rid = Inr r \<and> ru_ID r = rid' \<and> ru_TenantID r = t \<and> ru_Status r = st"
  by (auto simp: statusOf_def GetRun_def)

lemma noticesOf_append [simp]: "noticesOf (evs @ evs') = noticesOf evs @ noticesOf evs'"
  by (simp add: noticesOf_def)

text \<open>What a write does to the board: nothing, or a new status that is not yet announced.\<close>

definition quiet :: "MemStore \<Rightarrow> MemStore \<Rightarrow> bool" where
  "quiet m m' \<longleftrightarrow> boardOf m' = boardOf m \<and> (log_ok m \<longrightarrow> log_ok m')"

definition writes :: "RunID \<Rightarrow> TenantID \<Rightarrow> RunStatus \<Rightarrow> MemStore \<Rightarrow> MemStore \<Rightarrow> bool" where
  "writes rid t st m m' \<longleftrightarrow> boardOf m' = ((statusOf m)(rid \<mapsto> (rid, t, st)), snd (boardOf m)) \<and>
     (log_ok m \<longrightarrow> log_ok m')"

definition posted :: "RunID \<Rightarrow> TenantID \<Rightarrow> RunStatus \<Rightarrow> MemStore \<Rightarrow> MemStore \<Rightarrow> bool" where
  "posted rid t st m m' \<longleftrightarrow> boardOf m' = post rid t st (boardOf m) \<and> (log_ok m \<longrightarrow> log_ok m')"

lemma quiet_refl [simp]: "quiet m m"
  by (simp add: quiet_def)

lemma quiet_trans [trans]: "quiet m m' \<Longrightarrow> quiet m' m'' \<Longrightarrow> quiet m m''"
  by (simp add: quiet_def)

lemma posted_quiet [trans]: "posted rid t st m m' \<Longrightarrow> quiet m' m'' \<Longrightarrow> posted rid t st m m''"
  by (simp add: posted_def quiet_def)

lemma quiet_posted [trans]: "quiet m m' \<Longrightarrow> posted rid t st m' m'' \<Longrightarrow> posted rid t st m m''"
  by (simp add: posted_def quiet_def)

lemma quiet_statusOf: "quiet m m' \<Longrightarrow> statusOf m' = statusOf m"
  by (simp add: quiet_def boardOf_def)

lemma posted_statusOf: "posted rid t st m m' \<Longrightarrow> statusOf m' = (statusOf m)(rid \<mapsto> (rid, t, st))"
  by (simp add: posted_def boardOf_def post_def)

text \<open>Writes that touch neither events nor counters.\<close>

lemma quietI:
  assumes "ms_events m' = ms_events m" "ms_runSeq m' = ms_runSeq m" "ms_sessionSeq m' = ms_sessionSeq m"
    and "statusOf m' = statusOf m"
  shows "quiet m m'"
  using assms log_ok_cong [OF assms(1-3)] by (simp add: quiet_def boardOf_def)

lemma statusOf_setRun: "statusOf (setRun m rid r) =
    (statusOf m)(rid \<mapsto> (ru_ID r, ru_TenantID r, ru_Status r))"
  by (auto simp: statusOf_def go_simps)

lemma setRun_events [simp]: "ms_events (setRun m rid r) = ms_events m"
  "ms_runSeq (setRun m rid r) = ms_runSeq m" "ms_sessionSeq (setRun m rid r) = ms_sessionSeq m"
  by (simp_all add: setRun_def)

lemma statusOf_same: "map_of (ms_runs m) rid = Some r \<Longrightarrow> ru_ID r' = ru_ID r \<Longrightarrow>
    ru_TenantID r' = ru_TenantID r \<Longrightarrow> ru_Status r' = ru_Status r \<Longrightarrow> statusOf (setRun m rid r') = statusOf m"
  by (auto simp: statusOf_setRun statusOf_def)

lemma quiet_setRun: "map_of (ms_runs m) rid = Some r \<Longrightarrow> ru_ID r' = ru_ID r \<Longrightarrow>
    ru_TenantID r' = ru_TenantID r \<Longrightarrow> ru_Status r' = ru_Status r \<Longrightarrow> quiet m (setRun m rid r')"
  by (rule quietI) (simp_all add: statusOf_same)

lemma quiet_run_ops:
  "quiet m (fst (ClaimRun m t rid p d now now'))" "quiet m (ReleaseRun m rid p)"
  "quiet m (fst (RequestCancel m t rid))" "quiet m (fst (UpdateRunUsage m t rid u))"
  by (auto simp: ClaimRun_def ReleaseRun_def RequestCancel_def UpdateRunUsage_def runs.get_Inr_iff
      intro!: quiet_setRun split: option.splits sum.splits)

lemma quiet_RenewLeases: "quiet m (fst (RenewLeases m p rs d kept))"
proof (induction rs arbitrary: m kept)
  case (Cons a rs)
  obtain rid now where a: "a = (rid, now)" by (cases a)
  show ?case
  proof (cases "map_of (ms_runs m) rid")
    case None
    then show ?thesis using Cons.IH [of m kept] by (simp add: a)
  next
    case (Some r)
    have "quiet m (setRun m rid (r\<lparr>ru_LeaseUntil := now + d\<rparr>))"
      by (rule quiet_setRun [OF Some]) simp_all
    with Some Cons.IH quiet_trans show ?thesis by (fastforce simp: a)
  qed
qed simp

lemma statusOf_cong: "ms_runs m' = ms_runs m \<Longrightarrow> statusOf m' = statusOf m"
  by (simp add: statusOf_def fun_eq_iff)

lemma quiet_frame:
  assumes "ms_events m' = ms_events m" "ms_runSeq m' = ms_runSeq m" "ms_sessionSeq m' = ms_sessionSeq m"
    and "ms_runs m' = ms_runs m"
  shows "quiet m m'"
  by (rule quietI [OF assms(1-3) statusOf_cong [OF assms(4)]])

lemma quiet_PutArtifact: "quiet m (fst (PutArtifact m a i now))"
  by (rule quiet_frame) (simp_all add: PutArtifact_def Let_def)

lemma quiet_putImages: "quiet m (putImages w i rid m)"
proof -
  have "quiet m0 (foldl (\<lambda>m (name, img). case cn_Artifact w name of (aid, now) \<Rightarrow>
     fst (PutArtifact m (Artifact0\<lparr>ar_TenantID := si_TenantID i, ar_SessionID := si_SessionID i,
       ar_RunID := rid, ar_Kind := inputImageKind, ar_Name := name, ar_MimeType := im_MimeType img,
       ar_Content := im_Data img\<rparr>) aid now)) m0 images)" for m0 images
  proof (induction images arbitrary: m0)
    case (Cons x images)
    then show ?case
      by (cases x; cases "cn_Artifact w (fst x)") (auto intro: quiet_trans [OF quiet_PutArtifact])
  qed simp
  then show ?thesis by (simp add: putImages_def)
qed

lemma quiet_UpdateTask: "quiet m (fst (UpdateTask m t now))"
  by (rule quiet_frame) (auto simp: UpdateTask_def Let_def split: option.splits)

lemma quiet_reconcileLoop: "quiet m (fst (reconcileLoop clock m c ts))"
proof (induction ts arbitrary: m c)
  case (Cons t ts)
  have upd: "quiet m m'" if "UpdateTask m t' now = (m', r)" for t' now m' r
    using quiet_UpdateTask [of m t' now] that by simp
  show ?case
    using Cons.IH by (auto simp: Let_def dest: upd intro: quiet_trans split: option.splits prod.splits)
qed simp

lemma quiet_reconcileTasks: "quiet m (fst (reconcileTasks clock m r))"
  using quiet_reconcileLoop [of m clock "[]" "ListRunTasks m (ru_TenantID r) (ru_ID r)"]
  by (auto simp: reconcileTasks_def Let_def split: sum.splits prod.splits)

lemma quiet_CancelRunApprovals: "CancelRunApprovals m t rid now = Some m' \<Longrightarrow> quiet m m'"
  by (rule quiet_frame) (auto simp: CancelRunApprovals_def)

text \<open>Writes of a status.\<close>

lemma writesI:
  assumes "ms_events m' = ms_events m" "ms_runSeq m' = ms_runSeq m" "ms_sessionSeq m' = ms_sessionSeq m"
    and "statusOf m' = (statusOf m)(rid \<mapsto> (rid, t, st))"
  shows "writes rid t st m m'"
  using assms log_ok_cong [OF assms(1-3)] by (simp add: writes_def boardOf_def)

lemma UpdateRun_writes:
  assumes "statusOf m (ru_ID r) = Some (x, ru_TenantID r, s)"
  shows "snd (UpdateRun m r) = None" "writes (ru_ID r) (ru_TenantID r) (ru_Status r) m (fst (UpdateRun m r))"
  using assms by (auto simp: UpdateRun_def statusOf_def statusOf_setRun fun_eq_iff intro!: writesI)

lemma UpdateRunStatus_writes:
  assumes "statusOf m rid = Some (rid, t, s)"
  shows "writes rid t st m (fst (UpdateRunStatus m t rid st why now))"
proof -
  from assms obtain r where "GetRun m t rid = Inr r" "ru_ID r = rid" "ru_TenantID r = t"
    using statusOf_GetRun [OF assms] by blast
  then show ?thesis
    by (auto simp: UpdateRunStatus_def Let_def statusOf_setRun intro!: writesI)
qed

lemma CreateRun_writes:
  assumes "CreateRun m r newID now = (m', rid, None)" and "ru_ID r = []" and "ru_Status r = RunQueued"
  shows "rid = newID" "writes newID (ru_TenantID r) RunQueued m m'"
proof -
  have f: "ru_ID (filledRun r newID now) = newID" "ru_TenantID (filledRun r newID now) = ru_TenantID r"
    "ru_Status (filledRun r newID now) = RunQueued"
    using assms(2,3) by (simp_all add: filledRun_def Let_def)
  show "rid = newID"
    using assms(1) f(1) by (auto simp: CreateRun_def Let_def split: option.splits)
  have "ms_runs m' = mput newID (filledRun r newID now) (ms_runs m)" "ms_events m' = ms_events m"
    "ms_runSeq m' = ms_runSeq m" "ms_sessionSeq m' = ms_sessionSeq m"
    using assms(1) f(1) by (auto simp: CreateRun_def Let_def split: option.splits if_splits)
  then show "writes newID (ru_TenantID r) RunQueued m m'"
    using f by (auto simp: statusOf_def go_simps fun_eq_iff intro!: writesI)
qed

lemma CreateRun_refused: "CreateRun m r newID now = (m', rid, Some e) \<Longrightarrow> m' = m"
  by (auto simp: CreateRun_def Let_def split: option.splits)

section \<open>What the operations do to the board\<close>

text \<open>The part of an orchestrator that admission reads, and the set of the runs it claims.\<close>

definition admission :: "'p Orch \<Rightarrow> int \<times> bool \<times> int \<times> int option \<times> int \<times> int" where
  "admission o1 = (o_inflight o1, o_closing o1, o_capacity o1, o_slots o1, o_MaxActiveRuns o1, o_MaxQueuedRuns o1)"

definition same_runs :: "'p Orch \<Rightarrow> 'p Orch \<Rightarrow> bool" where
  "same_runs o1 o2 \<longleftrightarrow> dom (o_runs o2) = dom (o_runs o1) \<and> admission o2 = admission o1"

lemma same_runs_refl [simp]: "same_runs o1 o1"
  by (simp add: same_runs_def)

lemma same_runs_trans [trans]: "same_runs o1 o2 \<Longrightarrow> same_runs o2 o3 \<Longrightarrow> same_runs o1 o3"
  by (simp add: same_runs_def)

lemma same_runs_fields [simp]:
  "same_runs o1 (o2\<lparr>o_Store := m\<rparr>) = same_runs o1 o2" "same_runs (o1\<lparr>o_Store := m\<rparr>) o2 = same_runs o1 o2"
  "same_runs o1 (o2\<lparr>o_Budget := b\<rparr>) = same_runs o1 o2" "same_runs (o1\<lparr>o_Budget := b\<rparr>) o2 = same_runs o1 o2"
  "same_runs o1 (o2\<lparr>o_LoopDet := d\<rparr>) = same_runs o1 o2"
  by (simp_all add: same_runs_def admission_def)

text \<open>An emitted event is added to the log with the type, tenant, run and payload it was given.\<close>

lemma noteEvent_keeps: "noteEvent now ev st = (st', ev') \<Longrightarrow> ev_Type ev' = ev_Type ev \<and>
    ev_TenantID ev' = ev_TenantID ev \<and> ev_RunID ev' = ev_RunID ev \<and> ev_Payload ev' = ev_Payload ev"
  by (auto simp: noteEvent_def Let_def split: if_splits)

lemma appendOne_runs: "appendOne m (e, st) = Some (m', ev) \<Longrightarrow> ms_runs m' = ms_runs m"
  by (auto simp: appendOne_eq numbered_def Let_def split: option.splits)

lemma appendEvent_board:
  assumes "appendEvent w ev o1 = Some o2"
  shows "boardOf (o_Store o2) = (statusOf (o_Store o1), snd (boardOf (o_Store o1)) @ noticesOf [ev])"
    "log_ok (o_Store o1) \<longrightarrow> log_ok (o_Store o2)" "same_runs o1 o2" "o_runs o2 = o_runs o1"
proof -
  define ev3 where "ev3 = (let ev1 = (if ev_ActorID ev = [] then ev\<lparr>ev_ActorID := SystemPrincipal\<rparr> else ev);
         ev2 = (if ev_OccurredAt ev1 = 0 then ev1\<lparr>ev_OccurredAt := em_OccurredAt w\<rparr> else ev1)
     in (if ev_CorrelationID ev2 = [] \<and> ev_RunID ev2 \<noteq> []
                then ev2\<lparr>ev_CorrelationID := ev_RunID ev2\<rparr> else ev2))"
  have k: "ev_Type ev3 = ev_Type ev" "ev_TenantID ev3 = ev_TenantID ev" "ev_RunID ev3 = ev_RunID ev"
    "ev_Payload ev3 = ev_Payload ev"
    by (simp_all add: ev3_def Let_def)
  from assms obtain m out where a: "appendOne (o_Store o1) (ev3, em_Stamp w) = Some (m, out)"
    and o2: "o2 = o1\<lparr>o_Store := m\<rparr>"
    unfolding appendEvent_def Let_def ev3_def [unfolded Let_def, symmetric]
    by (auto simp: Append_def split: option.splits prod.splits)
  note f = appendOne_facts [OF a]
  have "noticesOf [out] = noticesOf [ev]"
    using f(2) k by (simp add: noticesOf_def carries_def)
  then show "boardOf (o_Store o2) = (statusOf (o_Store o1), snd (boardOf (o_Store o1)) @ noticesOf [ev])"
    using f(1) statusOf_cong [OF appendOne_runs [OF a]] by (simp add: boardOf_def o2)
  show "log_ok (o_Store o1) \<longrightarrow> log_ok (o_Store o2)"
    using log_ok_appendOne [OF _ a] by (simp add: o2)
  show "same_runs o1 o2" "o_runs o2 = o_runs o1" by (simp_all add: o2)
qed

lemma emit_board:
  assumes "emit w ev o1 = Some o2"
  shows "boardOf (o_Store o2) = (statusOf (o_Store o1), snd (boardOf (o_Store o1)) @ noticesOf [ev])"
    "log_ok (o_Store o1) \<longrightarrow> log_ok (o_Store o2)" "same_runs o1 o2"
proof -
  obtain o1' ev' where app: "appendEvent w ev' o1' = Some o2" and st: "o_Store o1' = o_Store o1"
    and same: "same_runs o1 o1'" and ev': "ev_Type ev' = ev_Type ev" "ev_TenantID ev' = ev_TenantID ev"
    "ev_RunID ev' = ev_RunID ev" "ev_Payload ev' = ev_Payload ev"
  proof (cases "o_runs o1 (ev_RunID ev)")
    case None
    with assms that [of "ev\<lparr>ev_ID := em_ID w\<rparr>" o1] show thesis by (simp add: emit_def Let_def)
  next
    case (Some st)
    obtain st' ev' where n: "noteEvent (em_At w) (ev\<lparr>ev_ID := em_ID w\<rparr>) st = (st', ev')" by force
    have "dom (o_runs (o1\<lparr>o_runs := (o_runs o1)(ev_RunID ev \<mapsto> st')\<rparr>)) = dom (o_runs o1)"
      using Some by auto
    then show thesis
      using assms Some n noteEvent_keeps [OF n] that [of ev' "o1\<lparr>o_runs := (o_runs o1)(ev_RunID ev \<mapsto> st')\<rparr>"]
      by (simp add: emit_def Let_def same_runs_def admission_def)
  qed
  have "noticesOf [ev'] = noticesOf [ev]" using ev' by (simp add: noticesOf_def)
  with appendEvent_board [OF app] same st
  show "boardOf (o_Store o2) = (statusOf (o_Store o1), snd (boardOf (o_Store o1)) @ noticesOf [ev])"
    "log_ok (o_Store o1) \<longrightarrow> log_ok (o_Store o2)" "same_runs o1 o2"
    by (auto intro: same_runs_trans)
qed

lemma emit_quiet:
  assumes "emit w ev o1 = Some o2" and "ev_Type ev \<noteq> EvRunStateChanged"
  shows "quiet (o_Store o1) (o_Store o2)" "same_runs o1 o2"
  using emit_board [OF assms(1)] assms(2) by (simp_all add: quiet_def noticesOf_def boardOf_def)

lemma EqualFold_refl: "EqualFold ''status'' ''status''"
  by code_simp

lemma statusField_state: "statusField (Some (JObj [(key, JStr why), (''status'', JStr s)])) = s"
  by (simp add: statusField_def EqualFold_refl)

text \<open>A written status and the event that announces it.\<close>

lemma emit_posted:
  assumes "emit w (stateEvent t session rid actor st key why) o1 = Some o2"
    and "writes rid t st m (o_Store o1)"
  shows "posted rid t st m (o_Store o2)" "same_runs o1 o2"
proof -
  have "noticesOf [stateEvent t session rid actor st key why] = [(t, rid, statusName st)]"
    by (simp add: noticesOf_def stateEvent_def statusField_state)
  with emit_board [OF assms(1)] assms(2)
  show "posted rid t st m (o_Store o2)" "same_runs o1 o2"
    by (auto simp: posted_def writes_def post_def boardOf_def)
qed

text \<open>An operation that leaves the board alone, or posts one status; neither claims nor admits runs.\<close>

definition same_load :: "'p Orch \<Rightarrow> 'p Orch \<Rightarrow> bool" where
  "same_load o1 o2 \<longleftrightarrow> dom (o_runs o2) = dom (o_runs o1) \<and> o_inflight o2 = o_inflight o1"

definition keeps :: "'p Orch \<Rightarrow> 'p Orch \<Rightarrow> bool" where
  "keeps o1 o2 \<longleftrightarrow> quiet (o_Store o1) (o_Store o2) \<and> same_load o1 o2"

definition puts :: "RunID \<Rightarrow> TenantID \<Rightarrow> RunStatus \<Rightarrow> 'p Orch \<Rightarrow> 'p Orch \<Rightarrow> bool" where
  "puts rid t st o1 o2 \<longleftrightarrow> posted rid t st (o_Store o1) (o_Store o2) \<and> same_load o1 o2"

lemma same_load_trans: "same_load o1 o2 \<Longrightarrow> same_load o2 o3 \<Longrightarrow> same_load o1 o3"
  by (simp add: same_load_def)

lemma same_runs_load: "same_runs o1 o2 \<Longrightarrow> same_load o1 o2"
  by (simp add: same_runs_def same_load_def admission_def)

lemma same_load_fields [simp]:
  "same_load o1 o1"
  "same_load o1 (o2\<lparr>o_Store := m\<rparr>) = same_load o1 o2" "same_load (o1\<lparr>o_Store := m\<rparr>) o2 = same_load o1 o2"
  "same_load o1 (o2\<lparr>o_Budget := b\<rparr>) = same_load o1 o2" "same_load (o1\<lparr>o_Budget := b\<rparr>) o2 = same_load o1 o2"
  "same_load o1 (o2\<lparr>o_LoopDet := d\<rparr>) = same_load o1 o2"
  by (simp_all add: same_load_def)

lemma keeps_refl [simp]: "keeps o1 o1"
  by (simp add: keeps_def)

lemma keeps_trans [trans]: "keeps o1 o2 \<Longrightarrow> keeps o2 o3 \<Longrightarrow> keeps o1 o3"
  by (auto simp: keeps_def intro: quiet_trans same_load_trans)

lemma puts_keeps [trans]: "puts rid t st o1 o2 \<Longrightarrow> keeps o2 o3 \<Longrightarrow> puts rid t st o1 o3"
  by (auto simp: keeps_def puts_def intro: posted_quiet same_load_trans)

lemma keeps_puts [trans]: "keeps o1 o2 \<Longrightarrow> puts rid t st o2 o3 \<Longrightarrow> puts rid t st o1 o3"
  by (auto simp: keeps_def puts_def intro: quiet_posted same_load_trans)

lemma keeps_statusOf: "keeps o1 o2 \<Longrightarrow> statusOf (o_Store o2) = statusOf (o_Store o1)"
  by (simp add: keeps_def quiet_statusOf)

lemma keeps_store: "quiet (o_Store o1) m \<Longrightarrow> keeps o1 (o1\<lparr>o_Store := m\<rparr>)"
  by (simp add: keeps_def)

lemma keeps_counters: "keeps o1 (dropCounters rid o1)"
  by (simp add: keeps_def dropCounters_def)

lemma keeps_releaseLease: "keeps o1 (releaseLease rid o1)"
  unfolding releaseLease_def by (rule keeps_store [OF quiet_run_ops(2)])

lemma keeps_cancelContext: "keeps o1 (cancelContext rid why o1)"
  by (auto simp: keeps_def cancelContext_def same_load_def split: option.splits)

lemma keeps_renewed: "RenewLeases (o_Store o1) p rs d kept0 = (m, kept) \<Longrightarrow> keeps o1 (o1\<lparr>o_Store := m\<rparr>)"
  using quiet_RenewLeases [of "o_Store o1" p rs d kept0] by (simp add: keeps_store)

lemma keeps_stillLeased: "keeps o1 (fst (stillLeased now lost rid o1))"
  by (auto simp: stillLeased_def simp del: RenewLeases.simps split: prod.splits dest: keeps_renewed)

lemma keeps_renewOnce: "keeps o1 (fst (renewOnce now rid o1))"
  by (auto simp: renewOnce_def Let_def simp del: RenewLeases.simps split: prod.splits option.splits
      dest: keeps_renewed intro: keeps_trans keeps_cancelContext)

lemma emit_keeps: "emit w ev o1 = Some o2 \<Longrightarrow> ev_Type ev \<noteq> EvRunStateChanged \<Longrightarrow> keeps o1 o2"
  using emit_quiet [of w ev o1 o2] same_runs_load by (auto simp: keeps_def)

lemma emit_puts:
  assumes "emit w (stateEvent t session rid actor st key why) (o1\<lparr>o_Store := m\<rparr>) = Some o2"
    and "writes rid t st (o_Store o1) m"
  shows "puts rid t st o1 o2"
  using emit_posted [OF assms(1), of "o_Store o1"] assms(2) same_runs_load by (fastforce simp: puts_def)

lemma transitionRun_puts:
  assumes "transitionRun w now rid t st why o1 = Some o2" and s: "statusOf (o_Store o1) rid = Some (rid, t, s)"
  shows "puts rid t st o1 o2"
proof -
  from statusOf_GetRun [OF s] obtain r where "GetRun (o_Store o1) t rid = Inr r" by blast
  with assms(1) have "emit w (stateEvent t (ru_SessionID r) rid [] st ''reason'' why)
     (o1\<lparr>o_Store := fst (UpdateRunStatus (o_Store o1) t rid st why now)\<rparr>) = Some o2"
    by (simp add: transitionRun_def)
  from emit_puts [OF this UpdateRunStatus_writes [OF s]] show ?thesis .
qed

lemma finishCanceled_puts:
  assumes "finishCanceled w now r reason o1 = Some (o2, err)"
    and s: "statusOf (o_Store o1) (ru_ID r) = Some (ru_ID r, ru_TenantID r, s)"
  shows "err = None" "puts (ru_ID r) (ru_TenantID r) RunCanceled o1 o2"
proof -
  let ?r = "r\<lparr>ru_Status := RunCanceled, ru_FailureReason := reason, ru_EndedAt := now\<rparr>"
  have u: "snd (UpdateRun (o_Store o1) ?r) = None"
    "writes (ru_ID r) (ru_TenantID r) RunCanceled (o_Store o1) (fst (UpdateRun (o_Store o1) ?r))"
    using UpdateRun_writes [of "o_Store o1" ?r] s by auto
  with assms(1) show "err = None" "puts (ru_ID r) (ru_TenantID r) RunCanceled o1 o2"
    by (auto simp: finishCanceled_def Option.bind_eq_Some_conv split: prod.splits option.splits intro: emit_puts)
qed

lemma storeOutcome_writes:
  assumes "statusOf m rid = Some (rid, t, s)"
  shows "snd (storeOutcome w rid t outputs st reason usage m)"
    "writes rid t st m (fst (storeOutcome w rid t outputs st reason usage m))"
proof -
  from statusOf_GetRun [OF assms] obtain r where r: "GetRun m t rid = Inr r" "ru_ID r = rid" "ru_TenantID r = t"
    by blast
  define r1 where "r1 = r\<lparr>ru_Status := st, ru_Usage := usage, ru_FailureReason := reason\<rparr>"
  define r2 where "r2 = (if st \<noteq> RunPaused then r1\<lparr>ru_EndedAt := en_EndedAt w\<rparr> else r1)
    \<lparr>ru_Output := Some (JObj (mmap JStr outputs))\<rparr>"
  have f: "ru_ID r2 = rid" "ru_TenantID r2 = t" "ru_Status r2 = st"
    using r by (simp_all add: r2_def r1_def)
  have "storeOutcome w rid t outputs st reason usage m = (fst (UpdateRun m r2), snd (UpdateRun m r2) = None)"
    using r by (simp add: storeOutcome_def Let_def r1_def r2_def split: prod.splits)
  with UpdateRun_writes [of m r2 rid s] assms f
  show "snd (storeOutcome w rid t outputs st reason usage m)"
    "writes rid t st m (fst (storeOutcome w rid t outputs st reason usage m))" by auto
qed

text \<open>A run that ends gets its outcome, or keeps its status when it was stopped without one.\<close>

lemma endRun_board:
  assumes e: "endRun errText w rid t session outputs (st, reason, err) o0 = Some (o3, stored, res)"
    and s: "statusOf (o_Store o0) rid = Some (rid, t, s)"
  shows "stored" "case res of None \<Rightarrow> keeps o0 o3 | Some x \<Rightarrow> rt_Status x = st \<and> puts rid t st o0 o3"
proof -
  obtain o1 held where l: "stillLeased (en_RenewNow w) (causeIs (en_Cause w) ErrLeaseLost) rid o0 = (o1, held)"
    by force
  then have o1: "keeps o0 o1" using keeps_stillLeased by (metis fst_conv)
  have "stored \<and> (case res of None \<Rightarrow> keeps o0 o3 | Some x \<Rightarrow> rt_Status x = st \<and> puts rid t st o0 o3)"
  proof (cases "\<not> held \<or> st = RunCanceled \<and> causeIs (en_Cause w) ErrShutdown")
    case True
    have "keeps o1 (releaseLease rid (o1\<lparr>o_Store := fst (UpdateRunUsage (o_Store o1) t rid (finalUsage w rid o0))\<rparr>))"
      by (rule keeps_trans [OF keeps_store [OF quiet_run_ops(4)] keeps_releaseLease])
    with True e o1 keeps_counters keeps_trans show ?thesis
      unfolding endRun_def by (auto simp: l Let_def) blast+
  next
    case False
    obtain m okay where so: "storeOutcome w rid t outputs st reason (finalUsage w rid o0) (o_Store o1) = (m, okay)"
      by force
    with storeOutcome_writes [of "o_Store o1" rid t s] s keeps_statusOf [OF o1]
    have m: "okay" "writes rid t st (o_Store o1) m" by (metis snd_conv, metis fst_conv)
    from False e obtain o2 o2' where
      o2: "(if st = RunFailed \<or> st = RunTimedOut
         then emit (en_ErrEmit w) (errorEvent errText t session rid
            (case err of Some e \<Rightarrow> e | None \<Rightarrow> new_error reason)) (o1\<lparr>o_Store := m\<rparr>)
         else Some (o1\<lparr>o_Store := m\<rparr>)) = Some o2"
      and o2': "emit (en_Emit w) (stateEvent t session rid [] st ''failure_reason'' reason) o2 = Some o2'"
      and o3: "o3 = releaseLease rid (dropCounters rid o2')" "stored = okay"
        "\<exists>x. res = Some x \<and> rt_Status x = st"
      unfolding endRun_def by (auto simp: l so Let_def Option.bind_eq_Some_conv)
    have k: "keeps (o1\<lparr>o_Store := m\<rparr>) o2"
      using o2 emit_keeps [of "en_ErrEmit w" _ "o1\<lparr>o_Store := m\<rparr>" o2]
      by (auto simp: errorEvent_def split: if_splits)
    then have "writes rid t st (o_Store o1) (o_Store o2)" "same_load o1 o2"
      using m(2) by (auto simp: keeps_def quiet_def writes_def)
    with emit_posted [OF o2'] same_runs_load have "puts rid t st o1 o2'"
      unfolding puts_def by (blast intro: same_load_trans)
    then have "puts rid t st o0 o3"
      unfolding o3 by (meson keeps_puts puts_keeps keeps_trans o1 keeps_counters keeps_releaseLease)
    with m o3 show ?thesis by auto
  qed
  then show "stored" "case res of None \<Rightarrow> keeps o0 o3 | Some x \<Rightarrow> rt_Status x = st \<and> puts rid t st o0 o3"
    by blast+
qed

subsection \<open>Admission and creation\<close>

text \<open>Like \<open>keeps\<close> and \<open>puts\<close>, for an operation that admits a run.\<close>

definition admits :: "'p Orch \<Rightarrow> 'p Orch \<Rightarrow> bool" where
  "admits o1 o2 \<longleftrightarrow> dom (o_runs o2) = dom (o_runs o1) \<and> o_inflight o2 = o_inflight o1 + 1"

lemma admits_load: "admits o1 o2 \<Longrightarrow> same_load o2 o3 \<Longrightarrow> admits o1 o3" "same_load o1 o2 \<Longrightarrow> admits o2 o3 \<Longrightarrow> admits o1 o3"
  by (simp_all add: admits_def same_load_def)

lemma admit_refused: "admit force o1 = (o2, Some e) \<Longrightarrow> keeps o1 o2 \<and> o_Store o2 = o_Store o1 \<and> errors_is e ErrOverloaded"
  by (auto simp: admit_def Let_def keeps_def same_load_def split: if_splits)

lemma admit_ok:
  assumes "admit force o1 = (o2, None)"
  shows "admits o1 o2" "o_Store o2 = o_Store o1" "o_runs o2 = o_runs o1" "\<not> o_closing o1"
    "o_MaxActiveRuns o2 = o_MaxActiveRuns o1"
    "force \<or> o_slots o2 = None \<or> o_inflight o2 \<le> o_capacity o2"
    "o_slots o2 \<noteq> None \<or> o_MaxActiveRuns o2 \<le> 0"
  using assms by (auto simp: admit_def Let_def admits_def split: if_splits)

lemma release_after: "admits o1 o2 \<Longrightarrow> same_load o1 (release o2)"
  by (simp add: admits_def release_def same_load_def)

lemma createRun_board:
  assumes c: "createRun T w o0 i = Some (o3, res)" and new: "o_runs o0 (cn_RunID w) = None"
  shows "(case res of
       Inl e \<Rightarrow> keeps o0 o3
     | Inr rid \<Rightarrow> rid = cn_RunID w \<and> posted rid (si_TenantID i) RunQueued (o_Store o0) (o_Store o3) \<and>
         dom (o_runs o3) = insert rid (dom (o_runs o0)) \<and> o_inflight o3 = o_inflight o0 + 1 \<and>
         \<not> o_closing o0 \<and> (o_slots o3 = None \<or> o_inflight o3 \<le> o_capacity o3))"
proof -
  obtain o1 adm where a: "admit False o0 = (o1, adm)" by force
  show ?thesis
  proof (cases adm)
    case (Some e)
    with a c admit_refused show ?thesis by (fastforce simp: createRun_def)
  next
    case None
    note adm = admit_ok [OF a [unfolded None]]
    obtain m rid err where cr: "CreateRun (o_Store o1) (runRecord T w o1 i) (cn_RunID w) (cn_Now w) = (m, rid, err)"
      by (metis prod_cases3)
    show ?thesis
    proof (cases err)
      case (Some e)
      have "m = o_Store o1" using CreateRun_refused [OF cr [unfolded Some]] .
      moreover have "res = Inl e" "o3 = release (o1\<lparr>o_Store := m\<rparr>)"
        using c by (auto simp: createRun_def a None cr Some)
      ultimately show ?thesis using adm(1-3)
        by (simp add: keeps_def release_def same_load_def admits_def)
    next
      case None
      note created = CreateRun_writes [OF cr [unfolded None]]
      have w1: "rid = cn_RunID w" "writes rid (si_TenantID i) RunQueued (o_Store o0) m"
        using created adm(2) by (simp_all add: runRecord_def Run0_def)
      define o2 where "o2 = o1\<lparr>o_Store := putImages w i rid m, o_Budget := Budget_Init (o_Budget o1) rid (si_Limits i)\<rparr>"
      have none: "o_runs o2 rid = None" using adm(3) new w1(1) by (simp add: o2_def)
      define o2' where "o2' = o2\<lparr>o_runs := (o_runs o2)(rid \<mapsto> newRunState (cn_ClaimNow w) (si_TenantID i))\<rparr>"
      have "claimRun (cn_ClaimNow w) rid (si_TenantID i) o2 = Inr o2'" by (simp add: claimRun_def none o2'_def)
      then have e: "emit (cn_Emit w) (stateEvent (si_TenantID i) (si_SessionID i) rid (si_PrincipalID i)
           RunQueued ''reason'' ''started'') o2' = Some o3" and r: "res = Inr rid"
        using c unfolding createRun_def a \<open>adm = None\<close> prod.case option.case cr None o2_def [symmetric] launch_def
        by (auto simp: Option.bind_eq_Some_conv)
      have "writes rid (si_TenantID i) RunQueued (o_Store o0) (o_Store o2')"
        using w1(2) quiet_putImages [of m w i rid] by (auto simp: o2'_def o2_def writes_def quiet_def)
      from emit_posted [OF e this] have p: "posted rid (si_TenantID i) RunQueued (o_Store o0) (o_Store o3)"
        "same_runs o2' o3" by auto
      then show ?thesis using adm w1(1) by (auto simp: r same_runs_def admission_def o2'_def o2_def admits_def)
    qed
  qed
qed

subsection \<open>Resuming\<close>

lemma reopenRun_board:
  assumes "reopenRun w by_id r o1 = Some (o2, err)"
    and s: "statusOf (o_Store o1) (ru_ID r) = Some (ru_ID r, ru_TenantID r, ru_Status r)"
  shows "err = None" "(if Terminal (ru_Status r) \<or> ru_Status r = RunPaused
    then puts (ru_ID r) (ru_TenantID r) RunQueued o1 o2 else o2 = o1)"
proof -
  let ?r = "r\<lparr>ru_Status := RunQueued, ru_FailureReason := [], ru_EndedAt := 0\<rparr>"
  have u: "snd (UpdateRun (o_Store o1) ?r) = None"
    "writes (ru_ID r) (ru_TenantID r) RunQueued (o_Store o1) (fst (UpdateRun (o_Store o1) ?r))"
    using UpdateRun_writes [of "o_Store o1" ?r] s by auto
  with assms(1) show "err = None" "(if Terminal (ru_Status r) \<or> ru_Status r = RunPaused
    then puts (ru_ID r) (ru_TenantID r) RunQueued o1 o2 else o2 = o1)"
    by (auto simp: reopenRun_def Option.bind_eq_Some_conv split: prod.splits option.splits if_splits intro: emit_puts)
qed

lemma resumeAdmitted_board:
  assumes h: "resumeAdmitted w r by_id force i reused attempted o1 = Some (o2, res)"
    and s: "statusOf (o_Store o1) (ru_ID r) = Some (ru_ID r, ru_TenantID r, ru_Status r)"
  shows "(case res of
       Inl e \<Rightarrow> keeps o1 o2
     | Inr None \<Rightarrow> False
     | Inr (Some i') \<Rightarrow> i' = i \<and> admits o1 o2 \<and>
         (if Terminal (ru_Status r) \<or> ru_Status r = RunPaused
          then posted (ru_ID r) (ru_TenantID r) RunQueued (o_Store o1) (o_Store o2)
          else quiet (o_Store o1) (o_Store o2)))"
proof -
  obtain o2a adm where a: "admit force o1 = (o2a, adm)" by force
  show ?thesis
  proof (cases adm)
    case (Some e)
    with h a admit_refused [of force o1 o2a e] show ?thesis by (auto simp: resumeAdmitted_def)
  next
    case None
    note adm = admit_ok [OF a [unfolded None]]
    from h a None obtain o3 err where ro: "reopenRun w by_id r o2a = Some (o3, err)"
      by (auto simp: resumeAdmitted_def Option.bind_eq_Some_conv)
    note reopen = reopenRun_board [OF ro s [folded adm(2)]]
    from h a None ro reopen(1) obtain o4 where
      e: "emit (rz_Emit w) (resumedEvent r by_id reused) (restoreBudget r attempted o3) = Some o4"
      and o2: "o2 = o4" and res: "res = Inr (Some i)"
      by (auto simp: resumeAdmitted_def Option.bind_eq_Some_conv)
    have "keeps o3 (restoreBudget r attempted o3)" by (simp add: keeps_def restoreBudget_def Let_def)
    also have "keeps \<dots> o4" by (rule emit_keeps [OF e]) (simp add: resumedEvent_def)
    finally have k4: "keeps o3 o2" by (simp add: o2)
    show ?thesis
    proof (cases "Terminal (ru_Status r) \<or> ru_Status r = RunPaused")
      case True
      then have "puts (ru_ID r) (ru_TenantID r) RunQueued o2a o2"
        using reopen(2) puts_keeps k4 by simp
      with True adm show ?thesis by (auto simp: res puts_def intro: admits_load(1))
    next
      case False
      then have "keeps o2a o2" using reopen(2) k4 by simp
      with False adm show ?thesis by (auto simp: res keeps_def intro: admits_load(1))
    qed
  qed
qed

lemma resumeHeld_board:
  assumes h: "resumeHeld T w r by_id force o1 = Some (o2, res)"
    and s: "statusOf (o_Store o1) (ru_ID r) = Some (ru_ID r, ru_TenantID r, ru_Status r)"
  shows "(case res of
       Inl e \<Rightarrow> keeps o1 o2
     | Inr None \<Rightarrow> puts (ru_ID r) (ru_TenantID r) RunCanceled o1 o2
     | Inr (Some i) \<Rightarrow> admits o1 o2 \<and> si_TenantID i = ru_TenantID r \<and>
         (if Terminal (ru_Status r) \<or> ru_Status r = RunPaused
          then posted (ru_ID r) (ru_TenantID r) RunQueued (o_Store o1) (o_Store o2)
          else quiet (o_Store o1) (o_Store o2)))"
proof -
  from h obtain si where si: "storedInput T o1 r = Some si"
    by (auto simp: resumeHeld_def Option.bind_eq_Some_conv)
  obtain m rec where rc: "reconcileTasks (rz_TaskNow w) (o_Store o1) r = (m, rec)" by force
  then have qm: "quiet (o_Store o1) m" using quiet_reconcileTasks [of "o_Store o1" "rz_TaskNow w" r] by simp
  consider e where "si = Inl e" | i e where "si = Inr i" "rec = Inl e"
    | i reuse attempted where "si = Inr i" "rec = Inr (reuse, attempted)"
    by (cases si; cases rec) auto
  then show ?thesis
  proof cases
    case 1
    with h si show ?thesis by (auto simp: resumeHeld_def)
  next
    case 2
    with h si rc qm show ?thesis by (auto simp: resumeHeld_def intro: keeps_store)
  next
    case 3
    have it: "si_TenantID i = ru_TenantID r"
      using si 3(1) by (auto simp: storedInput_def Let_def split: sum.splits option.splits)
    from h si rc 3 obtain m' where cancel: "CancelRunApprovals m (ru_TenantID r) (ru_ID r) (rz_ApprovalNow w) = Some m'"
      by (auto simp: resumeHeld_def Option.bind_eq_Some_conv)
    define o1' where "o1' = o1\<lparr>o_Store := m'\<rparr>"
    have k: "keeps o1 o1'"
      unfolding o1'_def by (rule keeps_store [OF quiet_trans [OF qm quiet_CancelRunApprovals [OF cancel]]])
    note h' = h [unfolded resumeHeld_def si 3 bind.bind_lunit sum.case rc prod.case cancel o1'_def [symmetric]]
    note s' = s [folded keeps_statusOf [OF k]]
    show ?thesis
    proof (cases "ru_CancelRequested r")
      case True
      with h' obtain err where "finishCanceled (rz_Emit w) (rz_EndedAt w) r
          ''canceled while no process executed it'' o1' = Some (o2, err)"
        and res: "res = (case err of Some e \<Rightarrow> Inl e | None \<Rightarrow> Inr None)"
        by (auto simp: Option.bind_eq_Some_conv)
      from finishCanceled_puts [OF this(1) s'] res keeps_puts [OF k] show ?thesis by simp
    next
      case False
      with h' have "resumeAdmitted w r by_id force (i\<lparr>si_reuse := Some reuse\<rparr>) (count_outputs reuse) attempted o1' = Some (o2, res)"
        by simp
      from resumeAdmitted_board [OF this s'] k it show ?thesis
        by (auto simp: keeps_def split: sum.splits option.splits if_splits
            intro: quiet_trans quiet_posted same_load_trans admits_load(2))
    qed
  qed
qed

lemma resumeClaimed_board:
  assumes h: "resumeClaimed T w t rid by_id force o1 = Some (o2, res)" and ok: "board_ok (boardOf (o_Store o1))"
  shows "(case res of
       Inl e \<Rightarrow> keeps o1 o2
     | Inr None \<Rightarrow> (\<exists>s. statusOf (o_Store o1) rid = Some (rid, t, s) \<and> edge s RunCanceled \<and>
         puts rid t RunCanceled o1 o2)
     | Inr (Some i) \<Rightarrow> admits o1 o2 \<and> si_TenantID i = t \<and>
         (\<exists>s. statusOf (o_Store o1) rid = Some (rid, t, s) \<and>
           (if s \<in> unfinished then quiet (o_Store o1) (o_Store o2)
            else edge s RunQueued \<and> posted rid t RunQueued (o_Store o1) (o_Store o2))))"
proof (cases "GetRun (o_Store o1) t rid")
  case (Inl e)
  with h show ?thesis by (auto simp: resumeClaimed_def)
next
  case (Inr r)
  have s: "statusOf (o_Store o1) rid = Some (rid, t, ru_Status r)" and r: "ru_ID r = rid" "ru_TenantID r = t"
    and st: "ru_Status r \<in> unfinished \<union> outcomes"
    using GetRun_statusOf [OF Inr] Inr board_okD [OF ok] by (auto simp: boardOf_def runs.get_Inr_iff)
  obtain m err where cl: "ClaimRun (o_Store o1) t rid (o_Owner o1) (o_Lease o1) (rz_Now1 w) (rz_Now2 w) = (m, err)"
    by force
  then have q: "keeps o1 (o1\<lparr>o_Store := m\<rparr>)"
    using keeps_store [OF quiet_run_ops(1)] by (metis fst_conv)
  consider "ru_Status r \<in> {RunSucceeded, RunCanceled}" | e where "ru_Status r \<notin> {RunSucceeded, RunCanceled}" "err = Some e"
    | "ru_Status r \<notin> {RunSucceeded, RunCanceled}" "err = None" by (cases err) auto
  then show ?thesis
  proof cases
    case 1
    with h Inr show ?thesis by (auto simp: resumeClaimed_def)
  next
    case 2
    with h Inr cl q show ?thesis by (auto simp: resumeClaimed_def)
  next
    case 3
    with h Inr cl obtain o2' res' where rh: "resumeHeld T w r by_id force (o1\<lparr>o_Store := m\<rparr>) = Some (o2', res')"
      and o2: "(o2, res) = (case res' of Inr (Some i) \<Rightarrow> (o2', res') | _ \<Rightarrow> (releaseLease rid o2', res'))"
      by (auto simp: resumeClaimed_def Option.bind_eq_Some_conv)
    have res: "res = res'" "o2 = (case res' of Inr (Some i) \<Rightarrow> o2' | _ \<Rightarrow> releaseLease rid o2')"
      using o2 by (auto split: sum.splits option.splits)
    have "statusOf (o_Store (o1\<lparr>o_Store := m\<rparr>)) (ru_ID r) = Some (ru_ID r, ru_TenantID r, ru_Status r)"
      using s r keeps_statusOf [OF q] by simp
    note held = resumeHeld_board [OF rh this]
    have cls: "ru_Status r \<in> unfinished \<longleftrightarrow> \<not> (Terminal (ru_Status r) \<or> ru_Status r = RunPaused)"
      "ru_Status r \<notin> unfinished \<longrightarrow> edge (ru_Status r) RunQueued" "edge (ru_Status r) RunCanceled"
      using st 3(1) by (auto simp: status_sets)
    note rl = keeps_releaseLease [of o2' rid]
    show ?thesis
    proof (cases res')
      case (Inl e)
      with held q rl show ?thesis by (auto simp: res intro: keeps_trans)
    next
      case (Inr x)
      show ?thesis
      proof (cases x)
        case None
        with held Inr r have "puts rid t RunCanceled (o1\<lparr>o_Store := m\<rparr>) o2'" by simp
        from keeps_puts [OF q puts_keeps [OF this rl]] have "puts rid t RunCanceled o1 o2"
          by (simp add: res Inr None)
        with Inr None s cls(3) show ?thesis by (simp add: res(1))
      next
        case (Some i)
        have q': "quiet (o_Store o1) m" using q by (simp add: keeps_def)
        from held Inr Some r have ad: "admits o1 o2'" "si_TenantID i = t"
          and b: "if ru_Status r \<in> unfinished then quiet m (o_Store o2')
            else posted rid t RunQueued m (o_Store o2')"
          unfolding cls(1) by (auto simp: admits_def split: if_splits)
        have "if ru_Status r \<in> unfinished then quiet (o_Store o1) (o_Store o2')
            else posted rid t RunQueued (o_Store o1) (o_Store o2')"
          using b quiet_trans [OF q'] quiet_posted [OF q'] by (simp split: if_splits)
        with ad s cls(2) show ?thesis by (simp add: res Inr Some del: edge.simps split: if_splits)
      qed
    qed
  qed
qed

subsection \<open>Canceling\<close>

lemma cancelEvent_type: "ev_Type (cancelEvent t session rid by_id reason) \<noteq> EvRunStateChanged"
  by (simp add: cancelEvent_def)

lemma requestCancel_keeps: "requestCancel w t rid r by_id reason o1 = Some (o2, err) \<Longrightarrow> keeps o1 o2"
proof -
  assume h: "requestCancel w t rid r by_id reason o1 = Some (o2, err)"
  obtain m e where rq: "RequestCancel (o_Store o1) t rid = (m, e)" by force
  then have k: "keeps o1 (o1\<lparr>o_Store := m\<rparr>)" using keeps_store [OF quiet_run_ops(3)] by (metis fst_conv)
  with h rq show ?thesis
    by (cases e) (auto simp: requestCancel_def Option.bind_eq_Some_conv
        intro: keeps_trans emit_keeps [OF _ cancelEvent_type])
qed

lemma cancelHere_keeps: "cancelHere w t rid by_id reason o1 = Some (o2, err) \<Longrightarrow> keeps o1 o2"
proof -
  assume h: "cancelHere w t rid by_id reason o1 = Some (o2, err)"
  show ?thesis
  proof (cases "o2 = o1")
    case False
    with h obtain session o1' where e: "emit (ca_Emit w) (cancelEvent t session rid by_id reason) o1 = Some o1'"
      and o2: "o2 = (cancelContext rid (Sentinel CtxCanceled) o1')\<lparr>o_Store := fst (RequestCancel (o_Store o1') t rid)\<rparr>"
      unfolding cancelHere_def
      by (cases "GetRun (o_Store o1) t rid")
        (auto simp: Option.bind_eq_Some_conv case_prod_beta split: if_splits)
    have "same_load o1' (cancelContext rid (Sentinel CtxCanceled) o1')"
      using keeps_cancelContext by (auto simp: keeps_def)
    then have "keeps o1' o2"
      by (simp add: keeps_def o2 quiet_run_ops(3))
    with emit_keeps [OF e cancelEvent_type] keeps_trans show ?thesis by blast
  qed simp
qed

lemma cancelHeld_board:
  assumes h: "cancelHeld w t rid by_id reason o1 = Some (o2, err)" and ok: "board_ok (boardOf (o_Store o1))"
  shows "keeps o1 o2 \<or> statusOf (o_Store o1) rid = Some (rid, t, RunPaused) \<and> puts rid t RunCanceled o1 o2"
proof (cases "GetRun (o_Store o1) t rid")
  case (Inr r)
  have s: "statusOf (o_Store o1) rid = Some (rid, t, ru_Status r)" and r: "ru_ID r = rid" "ru_TenantID r = t"
    using GetRun_statusOf [OF Inr] Inr board_okD [OF ok] by (auto simp: boardOf_def runs.get_Inr_iff)
  show ?thesis
  proof (cases "ru_Status r = RunPaused")
    case True
    let ?r = "r\<lparr>ru_Status := RunCanceled, ru_FailureReason := ''canceled while paused'', ru_EndedAt := ca_EndedAt w\<rparr>"
    from h Inr True obtain o1' where e: "emit (ca_Emit w) (cancelEvent t (ru_SessionID r) rid by_id reason) o1 = Some o1'"
      by (auto simp: cancelHeld_def Option.bind_eq_Some_conv)
    note k = emit_keeps [OF e cancelEvent_type]
    have u: "snd (UpdateRun (o_Store o1') ?r) = None"
      "writes rid t RunCanceled (o_Store o1') (fst (UpdateRun (o_Store o1') ?r))"
      using UpdateRun_writes [of "o_Store o1'" ?r] s r keeps_statusOf [OF k] by auto
    with h Inr True e have "puts rid t RunCanceled o1' o2"
      by (auto simp: cancelHeld_def Option.bind_eq_Some_conv split: prod.splits option.splits intro: emit_puts)
    from keeps_puts [OF k this] s True show ?thesis by simp
  qed (use h Inr in \<open>auto simp: cancelHeld_def\<close>)
qed (use h in \<open>auto simp: cancelHeld_def\<close>)

lemma unclaim_load: "o_runs o1 rid = None \<Longrightarrow> claimRun now rid t o1 = Inr o2 \<Longrightarrow> same_load o2 o3 \<Longrightarrow>
    same_load o1 (unclaimRun rid o3)"
  by (auto simp: claimRun_def unclaimRun_def same_load_def split: if_splits)

lemma cancelPaused_board:
  assumes h: "cancelPaused w t rid by_id reason o1 = Some (o2, err)" and ok: "board_ok (boardOf (o_Store o1))"
  shows "keeps o1 o2 \<or> o_runs o1 rid = None \<and> statusOf (o_Store o1) rid = Some (rid, t, RunPaused) \<and>
    puts rid t RunCanceled o1 o2"
proof (cases "claimRun (ca_ClaimNow w) rid t o1")
  case (Inl e)
  with h show ?thesis by (auto simp: cancelPaused_def)
next
  case (Inr oc)
  then have none: "o_runs o1 rid = None" and st: "o_Store oc = o_Store o1"
    by (auto simp: claimRun_def split: if_splits)
  obtain m e where cl: "ClaimRun (o_Store oc) t rid (o_Owner oc) (o_Lease oc) (ca_Now1 w) (ca_Now2 w) = (m, e)"
    by force
  then have k: "keeps oc (oc\<lparr>o_Store := m\<rparr>)" using keeps_store [OF quiet_run_ops(1)] by (metis fst_conv)
  note load = unclaim_load [OF none Inr]
  show ?thesis
  proof (cases e)
    case (Some x)
    with h Inr cl have "o2 = unclaimRun rid (oc\<lparr>o_Store := m\<rparr>)" by (auto simp: cancelPaused_def)
    moreover from this load [of "oc\<lparr>o_Store := m\<rparr>"] have "same_load o1 o2" by simp
    ultimately have "keeps o1 o2"
      using k st by (simp add: keeps_def unclaimRun_def)
    then show ?thesis ..
  next
    case None
    with h Inr cl obtain o3 where ch: "cancelHeld w t rid by_id reason (oc\<lparr>o_Store := m\<rparr>) = Some (o3, err)"
      and o2: "o2 = unclaimRun rid (releaseLease rid o3)"
      by (auto simp: cancelPaused_def Option.bind_eq_Some_conv)
    have b: "boardOf m = boardOf (o_Store o1)" using k st by (simp add: keeps_def quiet_def)
    from cancelHeld_board [OF ch] ok b have
      "keeps oc (releaseLease rid o3) \<or> statusOf (o_Store o1) rid = Some (rid, t, RunPaused) \<and>
         puts rid t RunCanceled oc (releaseLease rid o3)"
      using k keeps_releaseLease [of o3 rid] by (auto simp: boardOf_def intro: keeps_trans keeps_puts puts_keeps)
    with none load [of "releaseLease rid o3"] st show ?thesis
      by (auto simp: keeps_def puts_def o2 unclaimRun_def)
  qed
qed

text \<open>\<open>Cancel\<close> posts a status only of a paused run that nothing here executes.\<close>

lemma Cancel_board:
  assumes h: "Cancel w t rid by_id reason o1 = Some (o2, err)" and ok: "board_ok (boardOf (o_Store o1))"
  shows "keeps o1 o2 \<or> o_runs o1 rid = None \<and> statusOf (o_Store o1) rid = Some (rid, t, RunPaused) \<and>
    puts rid t RunCanceled o1 o2"
proof -
  have "cancelHere w t rid by_id reason o1 = Some (o2, err) \<or> cancelElsewhere w t rid by_id reason o1 = Some (o2, err)"
    using h by (auto simp: Cancel_def split: option.splits if_splits)
  then consider "o2 = o1" | r where "requestCancel w t rid r by_id reason o1 = Some (o2, err)"
    | "cancelHere w t rid by_id reason o1 = Some (o2, err)"
    | "cancelPaused w t rid by_id reason o1 = Some (o2, err)"
    | r oa e where "cancelPaused w t rid by_id reason o1 = Some (oa, e)" "requestCancel w t rid r by_id reason oa = Some (o2, err)"
    by (auto simp: cancelElsewhere_def Option.bind_eq_Some_conv split: sum.splits if_splits)
  then show ?thesis
  proof cases
    case 5
    with cancelPaused_board [OF 5(1) ok] requestCancel_keeps [OF 5(2)] show ?thesis
      by (auto intro: keeps_trans puts_keeps)
  qed (auto dest: requestCancel_keeps cancelHere_keeps cancelPaused_board [OF _ ok])
qed

end
