(* ===== verification/RunSystem.thy ===== *)
theory RunSystem
  imports RunBoard
begin

text \<open>
  The runs of one orchestrator as a system of interleaved steps (\<open>runtime/orchestrator.go\<close>): the
  goroutines that execute runs and the handlers that start, resume and cancel them, each cut where
  another one may come in between. It refines the lifecycle of \<open>RunBoard\<close>, what it announces is what
  it stored, and it counts the runs it admitted.

  The process holds the lease of every run it executes: no other process writes their status. What
  else happens to the store is any step that writes and announces no status (\<open>others\<close>): the work
  of stages and agents, the handlers of the API, renewals of other runs.
\<close>

section \<open>Steps\<close>

text \<open>
  Where the goroutine, or handler, that claimed a run stands: resuming it; started and waiting for a
  slot; running its stages; with an outcome; after the final write, which may have failed. A run
  whose final write failed stays claimed.
\<close>

datatype phase = Resuming | Waiting | Working | Finishing run_end | Finished bool | Kept

type_synonym jobs = "RunID \<rightharpoonup> TenantID \<times> phase"
type_synonym 'p run_system = "'p Orch \<times> jobs \<times> nat" \<comment> \<open>and the goroutines about to release their room\<close>

inductive run_step :: "('p, 're, 'sc) Tooling \<Rightarrow> (goerr \<Rightarrow> string) \<Rightarrow> 'p run_system \<Rightarrow> 'p run_system \<Rightarrow> bool"
  for T errText where
  creates: "map_of (ms_runs (o_Store o1)) (cn_RunID w) = None \<Longrightarrow> o_runs o1 (cn_RunID w) = None \<Longrightarrow>
    createRun T w o1 i = Some (o2, res) \<Longrightarrow>
    run_step T errText (o1, J, n)
      (o2, case res of Inl e \<Rightarrow> J | Inr rid \<Rightarrow> J(rid \<mapsto> (si_TenantID i, Waiting)), n)"
| claims: "claimRun now rid t o1 = Inr o2 \<Longrightarrow> run_step T errText (o1, J, n) (o2, J(rid \<mapsto> (t, Resuming)), n)"
| resumes: "J rid = Some (t, Resuming) \<Longrightarrow> resumeClaimed T w t rid by_id force o1 = Some (o2, Inr (Some i)) \<Longrightarrow>
    run_step T errText (o1, J, n) (o2, J(rid \<mapsto> (t, Waiting)), n)"
| gives_up: "J rid = Some (t, Resuming) \<Longrightarrow> resumeClaimed T w t rid by_id force o1 = Some (o2, res) \<Longrightarrow>
    res = Inr None \<or> res = Inl e \<Longrightarrow>
    run_step T errText (o1, J, n) (unclaimRun rid o2, J(rid := None), n)"
| begins: "J rid = Some (t, Waiting) \<Longrightarrow> beginRun errText w now ended h rid t o1 = Some (o2, res) \<Longrightarrow>
    run_step T errText (o1, J, n)
      (o2, J(rid \<mapsto> (t, case res of Inl fin \<Rightarrow> Finishing fin | Inr _ \<Rightarrow> Working)), n)"
| works: "J rid = Some (t, Working) \<Longrightarrow> st \<in> executing \<Longrightarrow> transitionRun w now rid t st why o1 = Some o2 \<Longrightarrow>
    run_step T errText (o1, J, n) (o2, J, n)"
| returns: "J rid = Some (t, Working) \<Longrightarrow>
    run_step T errText (o1, J, n) (o1, J(rid \<mapsto> (t, Finishing (runOutcome errText ctxErr err))), n)"
| ends: "J rid = Some (t, Finishing fin) \<Longrightarrow>
    endRun errText w rid t session outputs fin o1 = Some (o2, stored, res) \<Longrightarrow>
    run_step T errText (o1, J, n) (o2, J(rid \<mapsto> (t, Finished stored)), n)"
| leaves: "J rid = Some (t, Finished True) \<Longrightarrow>
    run_step T errText (o1, J, n) (leaveRuns rid o1, J(rid := None), Suc n)"
| stays: "J rid = Some (t, Finished False) \<Longrightarrow>
    run_step T errText (o1, J, n) (o1, J(rid \<mapsto> (t, Kept)), Suc n)"
| releases: "run_step T errText (o1, J, Suc n) (release o1, J, n)"
| cancels: "Cancel w t rid by_id reason o1 = Some (o2, err) \<Longrightarrow> run_step T errText (o1, J, n) (o2, J, n)"
| renews: "J rid = Some (t, ph) \<Longrightarrow> renewOnce now rid o1 = (o2, goes_on) \<Longrightarrow>
    run_step T errText (o1, J, n) (o2, J, n)"
| closes: "run_step T errText (o1, J, n) (o1\<lparr>o_closing := True\<rparr>, J, n)"
| others: "quiet (o_Store o1) m \<Longrightarrow> dom rs = dom (o_runs o1) \<Longrightarrow>
    run_step T errText (o1, J, n) (o1\<lparr>o_Store := m, o_runs := rs, o_Budget := b, o_LoopDet := d\<rparr>, J, n)"

inductive_cases run_stepE: "run_step T errText s s'"

section \<open>The invariant\<close>

definition slotted :: "phase \<Rightarrow> bool" where
  "slotted ph \<longleftrightarrow> ph \<noteq> Resuming \<and> ph \<noteq> Kept"

definition holding :: "jobs \<Rightarrow> RunID set" where
  "holding J = {rid. \<exists>t ph. J rid = Some (t, ph) \<and> slotted ph}"

definition phase_ok :: "phase \<Rightarrow> TenantID \<Rightarrow> RunID \<Rightarrow> (RunID \<times> TenantID \<times> RunStatus) option \<Rightarrow> bool" where
  "phase_ok ph t rid x =
    (case ph of
       Waiting \<Rightarrow> \<exists>st \<in> unfinished. x = Some (rid, t, st)
     | Working \<Rightarrow> \<exists>st \<in> executing. x = Some (rid, t, st)
     | Finishing fin \<Rightarrow> \<exists>st. x = Some (rid, t, st) \<and> edge st (fst fin)
     | _ \<Rightarrow> True)"

definition jobs_ok :: "jobs \<Rightarrow> MemStore \<Rightarrow> bool" where
  "jobs_ok J m \<longleftrightarrow> (\<forall>rid t ph. J rid = Some (t, ph) \<longrightarrow> phase_ok ph t rid (statusOf m rid))"

definition system_ok :: "'p run_system \<Rightarrow> bool" where
  "system_ok = (\<lambda>(o1, J, n). board_ok (boardOf (o_Store o1)) \<and> log_ok (o_Store o1) \<and>
     dom J = dom (o_runs o1) \<and> finite (dom J) \<and> jobs_ok J (o_Store o1) \<and>
     o_inflight o1 = int (card (holding J) + n))"

text \<open>A process that has just started, on a store whose statuses were announced.\<close>

definition idle_system :: "'p run_system \<Rightarrow> bool" where
  "idle_system = (\<lambda>(o1, J, n). board_ok (boardOf (o_Store o1)) \<and> log_ok (o_Store o1) \<and>
     o_runs o1 = Map.empty \<and> o_inflight o1 = 0 \<and> J = Map.empty \<and> n = 0)"

lemma idle_system_ok: "idle_system s \<Longrightarrow> system_ok s"
  by (auto simp: idle_system_def system_ok_def jobs_ok_def holding_def)

lemma holding_put: "holding (J(rid \<mapsto> (t, ph))) = (if slotted ph then insert rid (holding J) else holding J - {rid})"
  by (auto simp: holding_def)

lemma holding_del: "holding (J(rid := None)) = holding J - {rid}"
  by (auto simp: holding_def)

lemma finite_holding: "finite (dom J) \<Longrightarrow> finite (holding J)"
  by (rule finite_subset [of _ "dom J"]) (auto simp: holding_def)

lemma in_holding: "J rid = Some (t, ph) \<Longrightarrow> rid \<in> holding J \<longleftrightarrow> slotted ph"
  by (auto simp: holding_def)

lemma not_holding: "J rid = None \<Longrightarrow> rid \<notin> holding J"
  by (simp add: holding_def)

lemma jobs_ok_quiet: "jobs_ok J m \<Longrightarrow> quiet m m' \<Longrightarrow> jobs_ok J m'"
  by (simp add: jobs_ok_def quiet_statusOf)

lemma jobs_ok_put: "jobs_ok J m \<Longrightarrow> phase_ok ph t rid (statusOf m rid) \<Longrightarrow> jobs_ok (J(rid \<mapsto> (t, ph))) m"
  by (simp add: jobs_ok_def)

lemma jobs_ok_del: "jobs_ok J m \<Longrightarrow> jobs_ok (J(rid := None)) m"
  by (simp add: jobs_ok_def)

lemma jobs_ok_posted: "jobs_ok J m \<Longrightarrow> posted rid t st m m' \<Longrightarrow> jobs_ok (J(rid := None)) m'"
  by (auto simp: jobs_ok_def posted_statusOf split: if_splits)

lemma board_quiet: "quiet m m' \<Longrightarrow> boardOf m' = boardOf m"
  by (simp add: quiet_def)

section \<open>Each step keeps it and moves the board along the lifecycle\<close>

definition boardNow :: "'p run_system \<Rightarrow> board" where
  "boardNow s = boardOf (o_Store (fst s))"

definition good_step :: "'p run_system \<Rightarrow> 'p run_system \<Rightarrow> bool" where
  "good_step s s' \<longleftrightarrow> system_ok s' \<and> (boardNow s' = boardNow s \<or> life_step (boardNow s) (boardNow s'))"

lemma good_quiet:
  assumes "system_ok (o1, J, n)" and "quiet (o_Store o1) (o_Store o2)" and "jobs_ok J' (o_Store o1)"
    and "dom J' = dom (o_runs o2)" and "finite (dom J')" and "o_inflight o2 = int (card (holding J') + n')"
  shows "good_step (o1, J, n) (o2, J', n')"
  using assms jobs_ok_quiet [OF assms(3,2)]
  by (simp add: good_step_def system_ok_def boardNow_def quiet_def)

lemma good_posted:
  assumes ok: "system_ok (o1, J, n)" and p: "posted rid t st (o_Store o1) (o_Store o2)"
    and s: "statusOf (o_Store o1) rid = None \<and> st = RunQueued \<or>
      (\<exists>s. statusOf (o_Store o1) rid = Some (rid, t, s) \<and> edge s st)"
    and J: "J' = J(rid := x)" "case x of None \<Rightarrow> True | Some (t', ph) \<Rightarrow> phase_ok ph t' rid (Some (rid, t, st))"
    and "dom J' = dom (o_runs o2)" and "o_inflight o2 = int (card (holding J') + n')"
  shows "good_step (o1, J, n) (o2, J', n')"
proof -
  have l: "life_step (boardOf (o_Store o1)) (boardOf (o_Store o2))"
    using s p life_step.intros(1) [of "boardOf (o_Store o1)" rid t] life_step.intros(2) [of "boardOf (o_Store o1)" rid t _ st]
    by (auto simp: posted_def boardOf_def)
  moreover have "board_ok (boardOf (o_Store o2))" "log_ok (o_Store o2)"
    using life_step_ok [OF l] ok p by (auto simp: system_ok_def posted_def)
  moreover have "jobs_ok J' (o_Store o2)"
  proof -
    have "phase_ok ph' t' r (statusOf (o_Store o2) r)" if "J' r = Some (t', ph')" for r t' ph'
      using that J ok posted_statusOf [OF p] by (cases "r = rid") (auto simp: system_ok_def jobs_ok_def)
    then show ?thesis unfolding jobs_ok_def by blast
  qed
  moreover have "finite (dom J')"
    using ok by (cases x) (auto simp: system_ok_def J(1) intro: finite_subset [of _ "insert rid (dom J)"])
  ultimately show ?thesis
    using assms(6,7) by (simp add: good_step_def system_ok_def boardNow_def)
qed

text \<open>The number of occupied places as a run's phase changes.\<close>

lemma card_holding:
  assumes "finite (dom J)"
  shows "card (holding (J(rid \<mapsto> (t, ph)))) =
      (if rid \<in> holding J then card (holding J) - 1 else card (holding J)) + (if slotted ph then 1 else 0)"
    "card (holding (J(rid := None))) = (if rid \<in> holding J then card (holding J) - 1 else card (holding J))"
    "rid \<in> holding J \<Longrightarrow> 0 < card (holding J)"
  using finite_holding [OF assms] card_gt_0_iff [of "holding J"]
  by (auto simp: holding_put holding_del insert_absorb card_insert_if)

lemma system_okD:
  assumes "system_ok (o1, J, n)"
  shows "board_ok (boardOf (o_Store o1))" "log_ok (o_Store o1)" "dom J = dom (o_runs o1)" "finite (dom J)"
    "jobs_ok J (o_Store o1)" "o_inflight o1 = int (card (holding J) + n)"
  using assms by (auto simp: system_ok_def)

lemma system_ok_phase: "system_ok (o1, J, n) \<Longrightarrow> J rid = Some (t, ph) \<Longrightarrow>
    phase_ok ph t rid (statusOf (o_Store o1) rid)"
  using system_okD(5) by (fastforce simp: jobs_ok_def)

lemma posted_load: "puts rid t st o1 o2 \<Longrightarrow> posted rid t st (o_Store o1) (o_Store o2) \<and>
    dom (o_runs o2) = dom (o_runs o1) \<and> o_inflight o2 = o_inflight o1"
  by (simp add: puts_def same_load_def)

lemma quiet_load: "keeps o1 o2 \<Longrightarrow> quiet (o_Store o1) (o_Store o2) \<and>
    dom (o_runs o2) = dom (o_runs o1) \<and> o_inflight o2 = o_inflight o1"
  by (simp add: keeps_def same_load_def)

text \<open>An operation that neither claims nor admits, between two phases that both hold a place.\<close>

lemma good_phase:
  assumes ok: "system_ok (o1, J, n)" and J: "J rid = Some (t, ph)" "slotted ph" "slotted ph'"
    and eff: "keeps o1 o2 \<and> phase_ok ph' t rid (statusOf (o_Store o1) rid) \<or>
      (\<exists>st s. puts rid t st o1 o2 \<and> statusOf (o_Store o1) rid = Some (rid, t, s) \<and> edge s st \<and>
         phase_ok ph' t rid (Some (rid, t, st)))"
  shows "good_step (o1, J, n) (o2, J(rid \<mapsto> (t, ph')), n)"
proof -
  have h: "rid \<in> holding J" using J by (auto simp: holding_def)
  note base = system_okD [OF ok]
  have hold: "holding (J(rid \<mapsto> (t, ph'))) = holding J"
    using h J(3) by (auto simp: holding_put)
  have dm: "dom (J(rid \<mapsto> (t, ph'))) = dom J" using J(1) by auto
  from eff show ?thesis
  proof
    assume "keeps o1 o2 \<and> phase_ok ph' t rid (statusOf (o_Store o1) rid)"
    then show ?thesis
      using good_quiet [OF ok, of o2 "J(rid \<mapsto> (t, ph'))" n] base hold dm quiet_load [of o1 o2] jobs_ok_put [of J]
      by auto
  next
    assume "\<exists>st s. puts rid t st o1 o2 \<and> statusOf (o_Store o1) rid = Some (rid, t, s) \<and> edge s st \<and>
         phase_ok ph' t rid (Some (rid, t, st))"
    then obtain st s where p: "puts rid t st o1 o2" "statusOf (o_Store o1) rid = Some (rid, t, s)" "edge s st"
      "phase_ok ph' t rid (Some (rid, t, st))" by blast
    show ?thesis
      by (rule good_posted [OF ok, of rid t st o2 _ "Some (t, ph')"])
        (use p base hold dm posted_load [OF p(1)] in auto)
  qed
qed

lemma edge_outcome: "s \<in> executing \<Longrightarrow> st \<in> outcomes \<Longrightarrow> edge s st"
  by (auto simp: status_sets)

lemma runOutcome_outcomes: "fst (runOutcome errText ctxErr err) \<in> outcomes"
  by (auto simp: runOutcome_def outcomes_def split: option.splits)

lemma good_begins:
  assumes ok: "system_ok (o1, J, n)" and J: "J rid = Some (t, Waiting)"
    and b: "beginRun errText w now ended h rid t o1 = Some (o2, res)"
  shows "good_step (o1, J, n) (o2, J(rid \<mapsto> (t, case res of Inl fin \<Rightarrow> Finishing fin | Inr _ \<Rightarrow> Working)), n)"
proof -
  have "phase_ok Waiting t rid (statusOf (o_Store o1) rid)"
    by (rule system_ok_phase [OF ok J])
  then obtain s where s: "statusOf (o_Store o1) rid = Some (rid, t, s)" "s \<in> unfinished"
    by (auto simp: phase_ok_def)
  show ?thesis
  proof (rule good_phase [OF ok J])
    show "slotted Waiting" "slotted (case res of Inl fin \<Rightarrow> Finishing fin | Inr _ \<Rightarrow> Working)"
      by (auto simp: slotted_def split: sum.splits)
    show "keeps o1 o2 \<and> phase_ok (case res of Inl fin \<Rightarrow> Finishing fin | Inr _ \<Rightarrow> Working) t rid (statusOf (o_Store o1) rid) \<or>
      (\<exists>st s. puts rid t st o1 o2 \<and> statusOf (o_Store o1) rid = Some (rid, t, s) \<and> edge s st \<and>
         phase_ok (case res of Inl fin \<Rightarrow> Finishing fin | Inr _ \<Rightarrow> Working) t rid (Some (rid, t, st)))"
    proof (cases ended)
      case True
      with b s show ?thesis by (auto simp: beginRun_def phase_ok_def)
    next
      case False
      with b obtain "transitionRun w now rid t RunRunning [] o1 = Some o2"
        and "(\<exists>r e. res = Inl (RunFailed, r, e)) \<or> (\<exists>h'. res = Inr h')"
        by (cases h) (auto simp: beginRun_def Option.bind_eq_Some_conv)
      with transitionRun_puts [OF _ s(1), of w now RunRunning "[]" o2] s show ?thesis
        by (fastforce simp: phase_ok_def executing_def)
    qed
  qed
qed

lemma good_ends:
  assumes ok: "system_ok (o1, J, n)" and J: "J rid = Some (t, Finishing fin)"
    and e: "endRun errText w rid t session outputs fin o1 = Some (o2, stored, res)"
  shows "good_step (o1, J, n) (o2, J(rid \<mapsto> (t, Finished stored)), n)"
proof -
  obtain st reason err where fin: "fin = (st, reason, err)" by (cases fin)
  have "phase_ok (Finishing fin) t rid (statusOf (o_Store o1) rid)"
    by (rule system_ok_phase [OF ok J])
  then obtain s where s: "statusOf (o_Store o1) rid = Some (rid, t, s)" "edge s st"
    by (auto simp: phase_ok_def fin)
  from endRun_board(2) [OF e [unfolded fin] s(1)] s show ?thesis
    by (intro good_phase [OF ok J]) (auto simp: slotted_def phase_ok_def split: option.splits)
qed

lemma good_works:
  assumes ok: "system_ok (o1, J, n)" and J: "J rid = Some (t, Working)" and st: "st \<in> executing"
    and tr: "transitionRun w now rid t st why o1 = Some o2"
  shows "good_step (o1, J, n) (o2, J, n)"
proof -
  have "phase_ok Working t rid (statusOf (o_Store o1) rid)"
    by (rule system_ok_phase [OF ok J])
  then obtain s where s: "statusOf (o_Store o1) rid = Some (rid, t, s)" "s \<in> executing"
    by (auto simp: phase_ok_def)
  have "good_step (o1, J, n) (o2, J(rid \<mapsto> (t, Working)), n)"
    using transitionRun_puts [OF tr s(1)] s st
    by (intro good_phase [OF ok J]) (auto simp: slotted_def phase_ok_def status_sets)
  with J show ?thesis by (simp add: fun_upd_idem)
qed

lemma good_creates:
  assumes ok: "system_ok (o1, J, n)" and new: "map_of (ms_runs (o_Store o1)) (cn_RunID w) = None"
    "o_runs o1 (cn_RunID w) = None" and c: "createRun T w o1 i = Some (o2, res)"
  shows "good_step (o1, J, n) (o2, case res of Inl e \<Rightarrow> J | Inr rid \<Rightarrow> J(rid \<mapsto> (si_TenantID i, Waiting)), n)"
proof (cases res)
  case (Inl e)
  with createRun_board [OF c new(2)] good_quiet [OF ok, of o2 J n] system_okD [OF ok] quiet_load [of o1 o2]
  show ?thesis by simp
next
  case (Inr rid)
  note b = createRun_board [OF c new(2), unfolded Inr sum.case]
  have J: "J rid = None" using b new(2) system_okD(3) [OF ok] by blast
  have s: "statusOf (o_Store o1) rid = None" using b new(1) by (simp add: statusOf_def)
  have "good_step (o1, J, n) (o2, J(rid \<mapsto> (si_TenantID i, Waiting)), n)"
  proof (rule good_posted [OF ok, of rid "si_TenantID i" RunQueued o2 _ "Some (si_TenantID i, Waiting)"])
    show "dom (J(rid \<mapsto> (si_TenantID i, Waiting))) = dom (o_runs o2)" using b system_okD(3) [OF ok] by simp
    show "o_inflight o2 = int (card (holding (J(rid \<mapsto> (si_TenantID i, Waiting)))) + n)"
      using b system_okD [OF ok] J by (simp add: card_holding in_holding not_holding slotted_def)
  qed (use b s in \<open>auto simp: phase_ok_def unfinished_def\<close>)
  then show ?thesis by (simp add: Inr)
qed

lemma good_claims:
  assumes ok: "system_ok (o1, J, n)" and c: "claimRun now rid t o1 = Inr o2"
  shows "good_step (o1, J, n) (o2, J(rid \<mapsto> (t, Resuming)), n)"
proof (rule good_quiet [OF ok])
  have none: "J rid = None" "o_Store o2 = o_Store o1" "o_inflight o2 = o_inflight o1"
    "dom (o_runs o2) = insert rid (dom (o_runs o1))"
    using c system_okD(3) [OF ok] by (auto simp: claimRun_def split: if_splits)
  show "quiet (o_Store o1) (o_Store o2)" by (simp add: none)
  show "jobs_ok (J(rid \<mapsto> (t, Resuming))) (o_Store o1)"
    using system_okD(5) [OF ok] by (rule jobs_ok_put) (simp add: phase_ok_def)
  show "dom (J(rid \<mapsto> (t, Resuming))) = dom (o_runs o2)" "finite (dom (J(rid \<mapsto> (t, Resuming))))"
    "o_inflight o2 = int (card (holding (J(rid \<mapsto> (t, Resuming)))) + n)"
    using none system_okD [OF ok] by (simp_all add: card_holding in_holding not_holding slotted_def)
qed

lemma good_resumes:
  assumes ok: "system_ok (o1, J, n)" and J: "J rid = Some (t, Resuming)"
    and r: "resumeClaimed T w t rid by_id force o1 = Some (o2, Inr (Some i))"
  shows "good_step (o1, J, n) (o2, J(rid \<mapsto> (t, Waiting)), n)"
proof -
  note b = resumeClaimed_board [OF r system_okD(1) [OF ok], unfolded sum.case option.case]
  then obtain s where s: "statusOf (o_Store o1) rid = Some (rid, t, s)"
    "if s \<in> unfinished then quiet (o_Store o1) (o_Store o2)
     else edge s RunQueued \<and> posted rid t RunQueued (o_Store o1) (o_Store o2)" by blast
  have d: "dom (J(rid \<mapsto> (t, Waiting))) = dom (o_runs o2)" "finite (dom (J(rid \<mapsto> (t, Waiting))))"
    "o_inflight o2 = int (card (holding (J(rid \<mapsto> (t, Waiting)))) + n)"
    using b J system_okD [OF ok] by (auto simp: admits_def card_holding in_holding not_holding slotted_def)
  show ?thesis
  proof (cases "s \<in> unfinished")
    case True
    with s have "jobs_ok (J(rid \<mapsto> (t, Waiting))) (o_Store o1)"
      by (intro jobs_ok_put system_okD(5) [OF ok]) (auto simp: phase_ok_def)
    with True s d good_quiet [OF ok, of o2 _ n] show ?thesis by simp
  next
    case False
    with s d show ?thesis
      by (intro good_posted [OF ok, of rid t RunQueued o2 _ "Some (t, Waiting)"])
        (auto simp: phase_ok_def unfinished_def)
  qed
qed

lemma unclaim_facts: "dom (o_runs (unclaimRun rid o1)) = dom (o_runs o1) - {rid}"
  "o_Store (unclaimRun rid o1) = o_Store o1" "o_inflight (unclaimRun rid o1) = o_inflight o1"
  by (auto simp: unclaimRun_def)

lemma leave_facts: "dom (o_runs (leaveRuns rid o1)) = dom (o_runs o1) - {rid}"
  "o_Store (leaveRuns rid o1) = o_Store o1" "o_inflight (leaveRuns rid o1) = o_inflight o1"
  by (auto simp: leaveRuns_def)

lemma good_gives_up:
  assumes ok: "system_ok (o1, J, n)" and J: "J rid = Some (t, Resuming)"
    and r: "resumeClaimed T w t rid by_id force o1 = Some (o2, res)" and res: "res = Inr None \<or> res = Inl e"
  shows "good_step (o1, J, n) (unclaimRun rid o2, J(rid := None), n)"
proof -
  note b = resumeClaimed_board [OF r system_okD(1) [OF ok]]
  have load: "same_load o1 o2" using b res by (auto simp: keeps_def puts_def)
  then have d: "dom (J(rid := None)) = dom (o_runs (unclaimRun rid o2))" "finite (dom (J(rid := None)))"
    "o_inflight (unclaimRun rid o2) = int (card (holding (J(rid := None))) + n)"
    using J system_okD [OF ok] by (auto simp: same_load_def unclaim_facts card_holding in_holding not_holding slotted_def)
  from res show ?thesis
  proof
    assume "res = Inr None"
    with b d show ?thesis
      by (intro good_posted [OF ok, of rid t RunCanceled _ _ None]) (auto simp: puts_def unclaim_facts)
  next
    assume "res = Inl e"
    with b d jobs_ok_del [OF system_okD(5) [OF ok]] show ?thesis
      by (intro good_quiet [OF ok]) (auto simp: keeps_def unclaim_facts)
  qed
qed

lemma good_cancels:
  assumes ok: "system_ok (o1, J, n)" and c: "Cancel w t rid by_id reason o1 = Some (o2, err)"
  shows "good_step (o1, J, n) (o2, J, n)"
  using Cancel_board [OF c system_okD(1) [OF ok]]
proof
  assume "keeps o1 o2"
  with good_quiet [OF ok, of o2 J n] system_okD [OF ok] quiet_load [of o1 o2] show ?thesis by simp
next
  assume b: "o_runs o1 rid = None \<and> statusOf (o_Store o1) rid = Some (rid, t, RunPaused) \<and> puts rid t RunCanceled o1 o2"
  then have "J rid = None" using system_okD(3) [OF ok] by blast
  with b system_okD [OF ok] posted_load [of rid t RunCanceled o1 o2] show ?thesis
    by (intro good_posted [OF ok, of rid t RunCanceled o2 J None]) (auto simp: fun_upd_idem reopenable_def)
qed

text \<open>The refinement: each step of the system is one of the lifecycle or leaves the board alone.\<close>

lemma run_step_good:
  assumes "run_step T errText s s'" and "system_ok s"
  shows "good_step s s'"
  using assms(1)
proof (cases rule: run_step.cases)
  case creates
  with assms(2) show ?thesis by (auto intro: good_creates)
next
  case claims
  with assms(2) show ?thesis by (auto intro: good_claims)
next
  case resumes
  with assms(2) show ?thesis by (auto intro: good_resumes)
next
  case gives_up
  with assms(2) show ?thesis by (auto intro: good_gives_up)
next
  case begins
  with assms(2) show ?thesis by (auto intro: good_begins)
next
  case works
  with assms(2) show ?thesis by (auto intro: good_works)
next
  case (returns J rid t o1 n ctxErr err)
  have "phase_ok Working t rid (statusOf (o_Store o1) rid)"
    using assms(2) returns(1,3) by (auto intro: system_ok_phase)
  with runOutcome_outcomes edge_outcome
  have "phase_ok (Finishing (runOutcome errText ctxErr err)) t rid (statusOf (o_Store o1) rid)"
    by (fastforce simp: phase_ok_def)
  with assms(2) returns show ?thesis by (auto intro!: good_phase simp: slotted_def)
next
  case ends
  with assms(2) show ?thesis by (auto intro: good_ends)
next
  case (leaves J rid t o1 n)
  note ok = assms(2) [unfolded leaves(1)]
  have "rid \<in> holding J" using leaves(3) by (auto simp: holding_def slotted_def)
  with card_holding [of J rid] system_okD [OF ok]
  have "o_inflight o1 = int (card (holding (J(rid := None))) + Suc n)" by simp
  then show ?thesis
    unfolding leaves(1,2) using system_okD(3-5) [OF ok]
    by (intro good_quiet [OF ok]) (simp_all only: leave_facts quiet_refl jobs_ok_del dom_fun_upd refl if_True finite_Diff)
next
  case (stays J rid t o1 n)
  note ok = assms(2) [unfolded stays(1)]
  have "rid \<in> holding J" and same: "dom (J(rid \<mapsto> (t, Kept))) = dom J"
    using stays(3) by (auto simp: holding_def slotted_def)
  with card_holding [of J rid] system_okD [OF ok]
  have "o_inflight o1 = int (card (holding (J(rid \<mapsto> (t, Kept)))) + Suc n)" by (simp add: slotted_def)
  then show ?thesis
    unfolding stays(1,2) using system_okD(3-5) [OF ok] same
    by (intro good_quiet [OF ok] jobs_ok_put) (simp_all add: phase_ok_def)
next
  case (releases o1 J n)
  note ok = assms(2) [unfolded releases(1)]
  show ?thesis
    unfolding releases(1,2) using system_okD(3-6) [OF ok]
    by (intro good_quiet [OF ok]) (simp_all add: release_def)
next
  case cancels
  with assms(2) show ?thesis by (auto intro: good_cancels)
next
  case (renews J rid t ph now o1 o2 goes_on n)
  note ok = assms(2) [unfolded renews(1)]
  have "keeps o1 o2" using keeps_renewOnce [of o1 now rid] renews(4) by simp
  with quiet_load [OF this] show ?thesis
    unfolding renews(1,2) using system_okD(3-6) [OF ok] by (intro good_quiet [OF ok]) simp_all
next
  case (closes o1 J n)
  note ok = assms(2) [unfolded closes(1)]
  show ?thesis
    unfolding closes(1,2) using system_okD(3-6) [OF ok] by (intro good_quiet [OF ok]) simp_all
next
  case (others o1 m rs J n b d)
  note ok = assms(2) [unfolded others(1)]
  from others(3,4) show ?thesis
    unfolding others(1,2) using system_okD(3-6) [OF ok] by (intro good_quiet [OF ok]) simp_all
qed

lemma run_steps_good:
  assumes "(run_step T errText)\<^sup>*\<^sup>* s s'" and "system_ok s"
  shows "system_ok s' \<and> life_step\<^sup>*\<^sup>* (boardNow s) (boardNow s')"
  using assms
proof (induction rule: rtranclp_induct)
  case (step s' s'')
  then have "good_step s' s''" by (blast intro: run_step_good)
  with step show ?case by (auto simp: good_step_def intro: rtranclp.rtrancl_into_rtrancl)
qed simp

lemma life_steps_final:
  assumes "life_step\<^sup>*\<^sup>* b b'" and "board_ok b" and "fst b rid = Some (rid, t, st)"
    and "st \<in> {RunSucceeded, RunCanceled}"
  shows "fst b' rid = Some (rid, t, st)"
proof -
  have "board_ok b' \<and> fst b' rid = Some (rid, t, st)"
    using assms
  proof (induction rule: rtranclp_induct)
    case (step b' b'')
    then have "board_ok b'" "fst b' rid = Some (rid, t, st)" by blast+
    with step(2) step.prems(3) life_step_ok life_step_final show ?case by metis
  qed simp
  then show ?thesis ..
qed

end
