(* ===== verification/RunProperties.thy ===== *)
theory RunProperties
  imports RunSystem
begin

text \<open>
  What the system of runs (\<open>RunSystem\<close>) promises: it refines the lifecycle, replaying a run's events
  gives the status the store holds (\<open>runtime/replay.go\<close>), and starts are admitted only within the
  capacity, with a sample run that is created, executes and succeeds.
\<close>

section \<open>A sample run\<close>

definition demoTools :: "(string, string, unit) Tooling" where
  "demoTools = \<lparr>tl_compileRegexp = Inr, tl_compileSchema = \<lambda>_. Inr (), tl_schemaValidate = \<lambda>_ _. None,
     tl_decodeAgent = \<lambda>_. Inl (new_error []), tl_encodeWorkflow = \<lambda>_. None,
     tl_decodeWorkflow = \<lambda>_. Inl (new_error []), tl_decodeInput = \<lambda>_. Inr []\<rparr>"

definition demoOrch :: "string Orch" where
  "demoOrch = \<lparr>o_Store = NewMemStore, o_Book = server, o_Workflows = Map.empty, o_MaxLimits = Limits0,
     o_DefaultLimits = Limits0, o_Owner = ''p'', o_Lease = 30, o_MaxActiveRuns = 1, o_MaxQueuedRuns = 0,
     o_MaxArtifactBytes = 0, o_Budget = NewBudgetManager, o_LoopDet = NewLoopDetector 5,
     o_runs = Map.empty, o_inflight = 0, o_closing = False, o_capacity = 0, o_slots = None\<rparr>"

definition demoInput :: "(string, string, unit) StartRunInput" where
  "demoInput = \<lparr>si_TenantID = ''t'', si_PrincipalID = ''u'', si_SessionID = ''s'', si_IdempotencyKey = [],
     si_Workflow = draft_review, si_Template = [], si_Input = [], si_Images = [], si_Limits = Limits0,
     si_history = [], si_parent = [], si_agents = Map.empty, si_reuse = None, si_plan = None\<rparr>"

definition demoEmission :: emission where
  "demoEmission = \<lparr>em_ID = ''e'', em_At = 1, em_OccurredAt = 1, em_Stamp = \<lparr>stp_ID = ''e'',
     stp_OccurredAt = 1, stp_RecordedAt = 1, stp_CorrelationID = ''c''\<rparr>\<rparr>"

definition demoCreation :: creation where
  "demoCreation = \<lparr>cn_RunID = ''r'', cn_Now = 1, cn_LeaseNow = 1, cn_Artifact = \<lambda>_. ([], 1), cn_ClaimNow = 1,
     cn_Emit = demoEmission\<rparr>"

definition demoEnding :: ending where
  "demoEnding = \<lparr>en_RenewNow = 2, en_Elapsed = 1, en_EndedAt = 2, en_Cause = None,
     en_ErrEmit = demoEmission, en_Emit = demoEmission\<rparr>"

lemma appendOne_total:
  assumes "ms_subsByRun m = Map.empty"
  shows "\<exists>m' ev. appendOne m (e, st) = Some (m', ev) \<and> ms_subsByRun m' = Map.empty \<and> ms_runs m' = ms_runs m"
proof -
  have "\<exists>m' ev. appendOne m (e, st) = Some (m', ev)"
    by (simp add: appendOne_eq subsOf_def assms)
  then obtain m' ev where a: "appendOne m (e, st) = Some (m', ev)" by blast
  with appendOne_facts(7) [OF a] appendOne_runs [OF a] assms show ?thesis by simp
qed

text \<open>Without subscribers an event is always stored.\<close>

lemma emit_total:
  assumes "ms_subsByRun (o_Store o1) = Map.empty"
  obtains o2 where "emit w ev o1 = Some o2" "ms_subsByRun (o_Store o2) = Map.empty"
    "ms_runs (o_Store o2) = ms_runs (o_Store o1)" "o_Owner o2 = o_Owner o1"
proof -
  have app: "\<exists>o2. appendEvent w ev' o1' = Some o2 \<and> ms_subsByRun (o_Store o2) = Map.empty \<and>
      ms_runs (o_Store o2) = ms_runs (o_Store o1') \<and> o_Owner o2 = o_Owner o1'"
    if "ms_subsByRun (o_Store o1') = Map.empty" for ev' and o1' :: "'a Orch"
  proof -
    obtain ev3 where e: "appendEvent w ev' o1' = (case Append (o_Store o1') [(ev3, em_Stamp w)] of
        None \<Rightarrow> None | Some (m, _) \<Rightarrow> Some (o1'\<lparr>o_Store := m\<rparr>))"
      unfolding appendEvent_def Let_def by blast
    from appendOne_total [OF that, of ev3 "em_Stamp w"] show ?thesis by (auto simp: e Append_def)
  qed
  show thesis
  proof (cases "o_runs o1 (ev_RunID ev)")
    case None
    with app [OF assms] that show thesis by (simp add: emit_def Let_def) blast
  next
    case (Some st)
    obtain st' ev' where n: "noteEvent (em_At w) (ev\<lparr>ev_ID := em_ID w\<rparr>) st = (st', ev')" by force
    from Some n app [of "o1\<lparr>o_runs := (o_runs o1)(ev_RunID ev \<mapsto> st')\<rparr>" ev'] assms that
    show thesis by (simp add: emit_def Let_def) blast
  qed
qed

text \<open>A run that this process holds, in a store without subscribers.\<close>

definition heldHere :: "'p Orch \<Rightarrow> RunID \<Rightarrow> TenantID \<Rightarrow> bool" where
  "heldHere o1 rid t \<longleftrightarrow> ms_subsByRun (o_Store o1) = Map.empty \<and>
     (\<exists>r. map_of (ms_runs (o_Store o1)) rid = Some r \<and> ru_Owner r = o_Owner o1 \<and> ru_TenantID r = t)"

lemma heldHere_emit: "heldHere o1 rid t \<Longrightarrow> \<exists>o2. emit w ev o1 = Some o2 \<and> heldHere o2 rid t"
  using emit_total [of o1 w ev] by (metis heldHere_def)

lemma setRun_subs [simp]: "ms_subsByRun (setRun m rid r) = ms_subsByRun m"
  by (simp add: setRun_def)

lemma heldHere_begins: "heldHere o1 rid t \<Longrightarrow>
    \<exists>o2. beginRun errText w now False (Inr h) rid t o1 = Some (o2, Inr h) \<and> heldHere o2 rid t"
proof -
  assume h: "heldHere o1 rid t"
  then obtain r where r: "GetRun (o_Store o1) t rid = Inr r" "ru_Owner r = o_Owner o1" "ru_TenantID r = t"
    by (auto simp: heldHere_def runs.get_Inr_iff)
  have "heldHere (o1\<lparr>o_Store := fst (UpdateRunStatus (o_Store o1) t rid RunRunning [] now)\<rparr>) rid t"
    using h r by (auto simp: heldHere_def UpdateRunStatus_def Let_def go_simps)
  from heldHere_emit [OF this, of w "stateEvent t (ru_SessionID r) rid [] RunRunning ''reason'' []"] r
  show ?thesis by (auto simp: beginRun_def transitionRun_def)
qed

lemma heldHere_ends:
  assumes h: "heldHere o1 rid t"
  shows "\<exists>o2 stored res. endRun errText (w\<lparr>en_Cause := None\<rparr>) rid t session outputs (RunSucceeded, [], None) o1 =
    Some (o2, stored, Some res)"
proof -
  let ?w = "w\<lparr>en_Cause := None\<rparr>"
  from h obtain r where r: "map_of (ms_runs (o_Store o1)) rid = Some r" "ru_Owner r = o_Owner o1" "ru_TenantID r = t"
    by (auto simp: heldHere_def)
  define m where "m = setRun (o_Store o1) rid (r\<lparr>ru_LeaseUntil := en_RenewNow w + o_Lease o1\<rparr>)"
  have l: "stillLeased (en_RenewNow w) False rid o1 = (o1\<lparr>o_Store := m\<rparr>, True)"
    using r by (simp add: stillLeased_def m_def)
  obtain x b where so: "storeOutcome ?w rid t outputs RunSucceeded [] (finalUsage ?w rid o1) m = (x, b)" by force
  have "ms_subsByRun m = Map.empty" using h by (simp add: m_def heldHere_def)
  then have sub: "ms_subsByRun (o_Store (o1\<lparr>o_Store := x\<rparr>)) = Map.empty"
    using so by (auto simp: storeOutcome_def Let_def UpdateRun_def split: sum.splits option.splits if_splits prod.splits)
  obtain o3 where "emit (en_Emit ?w) (stateEvent t session rid [] RunSucceeded ''failure_reason'' []) (o1\<lparr>o_Store := x\<rparr>) = Some o3"
    using emit_total [OF sub] by metis
  then show ?thesis
    unfolding endRun_def by (simp add: l so causeIs_def Let_def)
qed


lemma demo_created:
  obtains o1 where "createRun demoTools demoCreation demoOrch demoInput = Some (o1, Inr ''r'')" "heldHere o1 ''r'' ''t''"
proof -
  obtain o0 where c: "createRun demoTools demoCreation demoOrch demoInput =
      (do { o3 \<leftarrow> emit demoEmission (stateEvent ''t'' ''s'' ''r'' ''u'' RunQueued ''reason'' ''started'') o0; Some (o3, Inr ''r'') })"
    and o0: "ms_subsByRun (o_Store o0) = Map.empty" "o_Owner o0 = ''p''"
      "ms_runs (o_Store o0) = [(''r'', filledRun (runRecord demoTools demoCreation demoOrch demoInput) ''r'' 1)]"
    by (simp add: createRun_def demoCreation_def demoOrch_def demoInput_def admit_def CreateRun_def Let_def
        runRecord_def Run0_def filledRun_def NewMemStore_def putImages_def launch_def claimRun_def)
  then have "heldHere o0 ''r'' ''t''"
    by (simp add: heldHere_def runRecord_def filledRun_def demoOrch_def demoInput_def Run0_def Let_def)
  from heldHere_emit [OF this] obtain o1 where
    "emit demoEmission (stateEvent ''t'' ''s'' ''r'' ''u'' RunQueued ''reason'' ''started'') o0 = Some o1"
    "heldHere o1 ''r'' ''t''" by blast
  with c that [of o1] show thesis by simp
qed

text \<open>The steps of a run that is created, executes and succeeds.\<close>

lemma demo_run:
  obtains s s' o3 J where "(run_step demoTools (\<lambda>_. []))\<^sup>*\<^sup>* (demoOrch, Map.empty, 0) s"
    and "(run_step demoTools (\<lambda>_. []))\<^sup>*\<^sup>* s s'"
    and "fst (boardNow s) ''r'' = Some (''r'', ''t'', RunQueued)"
    and "s' = (o3, J, 0)" and "statusOf (o_Store o3) ''r'' = Some (''r'', ''t'', RunSucceeded)"
proof -
  let ?step = "run_step demoTools (\<lambda>_. [])"
  obtain o1 where c: "createRun demoTools demoCreation demoOrch demoInput = Some (o1, Inr ''r'')"
    and h1: "heldHere o1 ''r'' ''t''"
    by (rule demo_created)
  have new: "map_of (ms_runs (o_Store demoOrch)) (cn_RunID demoCreation) = None" "o_runs demoOrch (cn_RunID demoCreation) = None"
    by (simp_all add: demoOrch_def NewMemStore_def)
  from createRun_board [OF c new(2)] have s1: "statusOf (o_Store o1) ''r'' = Some (''r'', ''t'', RunQueued)"
    using posted_statusOf by (fastforce simp: demoInput_def)
  let ?J1 = "[''r'' \<mapsto> (''t'', Waiting)]"
  have "?step (demoOrch, Map.empty, 0) (o1, ?J1, 0)"
    using run_step.creates [OF new c] by (simp add: demoInput_def)
  moreover
  from heldHere_begins [OF h1] obtain o2 where b: "beginRun (\<lambda>_. []) demoEmission 1 False (Inr []) ''r'' ''t'' o1 = Some (o2, Inr [])"
    and h2: "heldHere o2 ''r'' ''t''" by blast
  then have t2: "transitionRun demoEmission 1 ''r'' ''t'' RunRunning [] o1 = Some o2"
    by (auto simp: beginRun_def Option.bind_eq_Some_conv)
  have s2: "statusOf (o_Store o2) ''r'' = Some (''r'', ''t'', RunRunning)"
    using transitionRun_puts [OF t2 s1] posted_statusOf by (fastforce simp: puts_def)
  let ?J2 = "?J1(''r'' \<mapsto> (''t'', Working))"
  have "?step (o1, ?J1, 0) (o2, ?J2, 0)"
    using run_step.begins [of ?J1 "''r''" "''t''", OF _ b] by simp
  moreover
  let ?J3 = "?J2(''r'' \<mapsto> (''t'', Finishing (runOutcome (\<lambda>_. []) None None)))"
  have "?step (o2, ?J2, 0) (o2, ?J3, 0)"
    by (rule run_step.returns) simp
  moreover
  have fin: "runOutcome (\<lambda>_. []) None None = (RunSucceeded, [], None)" by (simp add: runOutcome_def)
  from heldHere_ends [OF h2] obtain o3 stored res where
    e: "endRun (\<lambda>_. []) (demoEnding\<lparr>en_Cause := None\<rparr>) ''r'' ''t'' ''s'' [] (RunSucceeded, [], None) o2 = Some (o3, stored, Some res)"
    by blast
  have s3: "statusOf (o_Store o3) ''r'' = Some (''r'', ''t'', RunSucceeded)"
    using endRun_board(2) [OF e s2] posted_statusOf by (fastforce simp: puts_def)
  have "?step (o2, ?J3, 0) (o3, ?J3(''r'' \<mapsto> (''t'', Finished stored)), 0)"
    by (rule run_step.ends [OF _ e]) (simp add: fin)
  ultimately have "?step\<^sup>*\<^sup>* (demoOrch, Map.empty, 0) (o1, ?J1, 0)"
    "?step\<^sup>*\<^sup>* (o1, ?J1, 0) (o3, ?J3(''r'' \<mapsto> (''t'', Finished stored)), 0)"
    by (blast, meson r_into_rtranclp rtranclp.rtrancl_into_rtrancl)
  from that [OF this _ refl s3] s1 show thesis by (simp add: boardNow_def boardOf_def)
qed

lemma demo_idle: "idle_system (demoOrch, Map.empty, 0)"
  by (simp add: idle_system_def demoOrch_def log_ok_new board_ok_def boardOf_def statusOf_def)
    (simp add: NewMemStore_def)

section \<open>Properties\<close>



text \<open>What \<open>Replay\<close> reads of a numbered log is the last announced status.\<close>

lemma replayEvents_last:
  assumes "sorted_wrt (\<lambda>x y. ev_Sequence x < ev_Sequence y) evs" and "\<forall>ev \<in> set evs. from_seq < ev_Sequence ev"
  shows "replayEvents from_seq st evs = Inr (last (st # filter (\<lambda>s. s \<noteq> []) (map (\<lambda>ev. statusField (ev_Payload ev))
    (filter (\<lambda>ev. ev_Type ev = EvRunStateChanged) evs))))"
  using assms by (induction evs arbitrary: from_seq st) auto

lemma last_filter: "xs \<noteq> [] \<Longrightarrow> P (last xs) \<Longrightarrow> last (filter P xs) = last xs \<and> filter P xs \<noteq> []"
  by (induction xs) (auto split: if_splits)

lemma runEvents_sorted: "log_ok m \<Longrightarrow> rid \<noteq> [] \<Longrightarrow>
    sorted_wrt (\<lambda>x y. ev_Sequence x < ev_Sequence y) (runEvents m rid) \<and> (\<forall>ev \<in> set (runEvents m rid). 0 < ev_Sequence ev)"
proof -
  assume a: "log_ok m" "rid \<noteq> []"
  note q = log_okD(2) [OF a]
  have "sorted_wrt (<) (map ev_Sequence (runEvents m rid))" unfolding q by simp
  have seqs: "ev_Sequence ` set (runEvents m rid) = {1..seqOf (ms_runSeq m) rid}"
    using arg_cong [OF q, of set] by simp
  have "0 < ev_Sequence ev" if "ev \<in> set (runEvents m rid)" for ev
    using imageI [OF that, of ev_Sequence] by (simp add: seqs)
  then show ?thesis using \<open>sorted_wrt (<) _\<close> by (simp add: sorted_wrt_map)
qed

lemma notices_of_run: "map (\<lambda>n. snd (snd n)) (filter (\<lambda>(t', rid', _). t' = t \<and> rid' = rid) (noticesOf evs)) =
    map (\<lambda>ev. statusField (ev_Payload ev)) (filter (\<lambda>ev. ev_Type ev = EvRunStateChanged)
      (filter (\<lambda>ev. ev_TenantID ev = t) (filter (\<lambda>ev. ev_RunID ev = rid) evs)))"
  by (induction evs) (auto simp: noticesOf_def)

lemma Replay_announced:
  assumes "board_ok (boardOf m)" and log: "log_ok m" and rid: "rid \<noteq> []" and r: "GetRun m t rid = Inr r"
  shows "Replay m t rid = Inr \<lparr>rt_RunID = rid, rt_Status = ru_Status r, rt_Outputs = [],
    rt_Usage = ru_Usage r, rt_FailureReason = ru_FailureReason r\<rparr>"
proof -
  let ?evs = "filter (\<lambda>ev. ev_TenantID ev = t) (runEvents m rid)"
  let ?ns = "map (\<lambda>ev. statusField (ev_Payload ev)) (filter (\<lambda>ev. ev_Type ev = EvRunStateChanged) ?evs)"
  note sorted = runEvents_sorted [OF log rid]
  have list: "ListRunEvents m t rid 0 0 = ?evs"
    using sorted by (auto simp: ListRunEvents_eq limited_def intro!: filter_cong)
  have st: "ru_Status r \<in> unfinished \<union> outcomes" "announced (boardOf m) t rid = Some (statusName (ru_Status r))"
    using board_okD [OF assms(1)] GetRun_statusOf [OF r] by (auto simp: boardOf_def)
  define P where "P = (\<lambda>(t', rid', _ :: string). t' = t \<and> rid' = rid)"
  have ns: "map (\<lambda>n. snd (snd n)) (filter P (noticesOf (ms_events m))) = ?ns"
    unfolding P_def runEvents_def by (rule notices_of_run)
  have "filter P (noticesOf (ms_events m)) \<noteq> []"
    "snd (snd (last (filter P (noticesOf (ms_events m))))) = statusName (ru_Status r)"
    using st(2) by (auto simp: announced_def boardOf_def Let_def P_def split: if_splits)
  with ns have n: "?ns \<noteq> []" "last ?ns = statusName (ru_Status r)"
    by (metis map_is_Nil_conv, metis last_map)
  have "statusName (ru_Status r) \<noteq> []" using st(1) by (auto simp: status_sets)
  with last_filter [of ?ns "\<lambda>s. s \<noteq> []"] n
  have l: "last (filter (\<lambda>s. s \<noteq> []) ?ns) = statusName (ru_Status r)" "filter (\<lambda>s. s \<noteq> []) ?ns \<noteq> []"
    by (simp_all only:) simp_all
  have "replayEvents 0 (statusName RunQueued) ?evs = Inr (statusName (ru_Status r))"
    using replayEvents_last [of ?evs 0 "statusName RunQueued"] sorted l
    by (simp add: sorted_wrt_filter del: statusName.simps)
  moreover have "?evs \<noteq> []" using n(1) by (metis filter.simps(1) list.simps(8))
  ultimately show ?thesis by (simp add: Replay_def list r)
qed



text \<open>The room an orchestrator accounts for is exactly that of the runs it admitted and has not
  finished with, however they are started, resumed, interrupted and canceled; a new run is admitted
  only while it is not shutting down and fewer runs than its capacity hold room, and a refused one
  leaves the count as it was.\<close>

theorem starts_within_capacity:
  assumes "idle_system s0" and "(run_step T errText)\<^sup>*\<^sup>* s0 (o1, J, n)"
    and "createRun T w o1 i = Some (o2, res)" and "o_runs o1 (cn_RunID w) = None"
  shows "o_inflight o1 = int (card (holding J) + n) \<and> (case res of
      Inl e \<Rightarrow> o_inflight o2 = o_inflight o1
    | Inr rid \<Rightarrow> \<not> o_closing o1 \<and> o_inflight o2 = o_inflight o1 + 1 \<and>
        (o_slots o2 = None \<or> int (card (holding J) + n) < o_capacity o2))"
proof -
  have ok: "system_ok (o1, J, n)"
    using run_steps_good [OF assms(2) idle_system_ok [OF assms(1)]] by blast
  with createRun_board [OF assms(3,4)] system_okD(6) [OF ok] quiet_load [of o1 o2] show ?thesis
    by (auto split: sum.splits)
qed

text \<open>A server for one run admits the sample run and then has no room.\<close>

theorem starts_within_capacity_witness:
  "\<exists>o2. createRun demoTools demoCreation demoOrch demoInput = Some (o2, Inr ''r'') \<and> o_inflight o2 = 1 \<and>
     (o_slots o2 = None \<or> 0 < o_capacity o2)"
proof -
  obtain o2 where c: "createRun demoTools demoCreation demoOrch demoInput = Some (o2, Inr ''r'')"
    by (rule demo_created)
  have new: "o_runs demoOrch (cn_RunID demoCreation) = None" by (simp add: demoOrch_def)
  have "o_inflight demoOrch = 0" by (simp add: demoOrch_def)
  moreover have reach: "(run_step demoTools (\<lambda>_. []))\<^sup>*\<^sup>* (demoOrch, Map.empty, 0) (demoOrch, Map.empty, 0)"
    by (rule rtranclp.rtrancl_refl)
  ultimately show ?thesis using starts_within_capacity [OF demo_idle reach c new] c
    by (auto simp: holding_def)
qed

end
