(* ===== verification/Awaiting.thy ===== *)
theory Awaiting
  imports RunProperties ToolUse
begin

text \<open>
  \<open>awaitApproval\<close> and \<open>closeApproval\<close> (\<open>runtime/orchestrator.go\<close>): a run asks a human and waits until
  the request is resolved, expires or the run's context ends. \<open>aw_meanwhile\<close> is whatever other
  goroutines and processes do to the orchestrator and its store while it waits. \<open>None\<close> is a panic
  of the store, or a wait that has not ended.
\<close>

record 'p awaiting =
  aw_now :: time
  aw_timeText :: "time \<Rightarrow> string"  \<comment> \<open>a time as JSON writes it\<close>
  aw_ID :: ApprovalID
  aw_createdAt :: time
  aw_askedAt :: time
  aw_askEmit :: emission
  aw_requestEmit :: emission
  aw_meanwhile :: "'p Orch \<Rightarrow> 'p Orch"
  aw_waitErr :: "goerr option"    \<comment> \<open>the error of the context it waits under, once it ended\<close>
  aw_pick :: bool
  aw_runErr :: "goerr option"     \<comment> \<open>\<open>ctx.Err()\<close> of the run after the wait\<close>
  aw_closedAt :: time
  aw_resolvedAt :: time
  aw_resultEmit :: emission
  aw_goneErr :: "goerr option"    \<comment> \<open>\<open>ctx.Err()\<close> after the result was announced\<close>
  aw_onAt :: time
  aw_onEmit :: emission

text \<open>The request: its run, task and step, why it is made, and what it is about.\<close>

record approvalRequest =
  rq_Tenant :: TenantID
  rq_Session :: SessionID
  rq_Run :: RunID
  rq_Task :: TaskID
  rq_Step :: StepID
  rq_Reason :: string
  rq_Subject :: "(string \<times> json) list"
  rq_Request :: raw

definition approvalEvent :: "approvalRequest \<Rightarrow> string \<Rightarrow> PrincipalID \<Rightarrow> (string \<times> json) list \<Rightarrow> Event" where
  "approvalEvent q ty actor extra = Event0\<lparr>ev_TenantID := rq_Tenant q, ev_SessionID := rq_Session q,
     ev_RunID := rq_Run q, ev_TaskID := rq_Task q, ev_StepID := rq_Step q, ev_Type := ty,
     ev_Visibility := VisibilityParticipant, ev_ActorID := actor,
     ev_Payload := Some (JObj (withFields (rq_Subject q) extra))\<rparr>"

definition closeApproval :: "TenantID \<Rightarrow> ApprovalID \<Rightarrow> string \<Rightarrow> time \<Rightarrow> time \<Rightarrow> MemStore
    \<Rightarrow> (MemStore \<times> (goerr + Approval)) option" where
  "closeApproval tenant aid status now now' m =
    (case ResolveApproval m tenant aid status [] None now now' of
       None \<Rightarrow> None
     | Some (m1, err) \<Rightarrow>
        (case err of
           Some e \<Rightarrow> if errors_is e ErrConflict then Some (m1, GetApproval m1 tenant aid) else Some (m1, Inl e)
         | None \<Rightarrow> Some (m1, GetApproval m1 tenant aid)))"

text \<open>The status an approval is closed with when its wait ended without a decision, or an error.\<close>

definition closingStatus :: "goerr option \<Rightarrow> goerr \<Rightarrow> string option" where
  "closingStatus runErr waitErr =
    (if runErr \<noteq> None then Some ''canceled''
     else if \<not> errors_is waitErr CtxDeadlineExceeded then None else Some ''expired'')"

definition decideApproval :: "TenantID \<Rightarrow> ApprovalID \<Rightarrow> 'p awaiting \<Rightarrow> MemStore
    \<Rightarrow> (MemStore \<times> (goerr + Approval)) option" where
  "decideApproval tenant aid w m =
    (case WaitForApproval m aid (aw_waitErr w) (aw_pick w) of
       None \<Rightarrow> None
     | Some (Inr a) \<Rightarrow> Some (m, Inr a)
     | Some (Inl waitErr) \<Rightarrow>
        (case closingStatus (aw_runErr w) waitErr of
           None \<Rightarrow> Some (m, Inl (Errorf ''approval %s: %w'' [waitErr]))
         | Some status \<Rightarrow>
            (case closeApproval tenant aid status (aw_closedAt w) (aw_resolvedAt w) m of
               None \<Rightarrow> None
             | Some (m1, Inl e) \<Rightarrow> Some (m1, Inl (Errorf ''approval %s: %w'' [e]))
             | Some (m1, Inr a) \<Rightarrow> Some (m1, Inr a))))"

definition requestApproval :: "duration \<Rightarrow> approvalRequest \<Rightarrow> 'p awaiting \<Rightarrow> 'p Orch
    \<Rightarrow> ('p Orch \<times> ApprovalID) option" where
  "requestApproval timeout q w o1 =
    (let reason = (if rq_Reason q = [] then ''tool requires approval'' else rq_Reason q);
         expiresAt = (if timeout > 0 then aw_now w + timeout else 0);
         (m, aid) = CreateApproval (o_Store o1) (Approval0\<lparr>ap_TenantID := rq_Tenant q, ap_RunID := rq_Run q,
            ap_StepID := rq_Step q, ap_Reason := reason, ap_ExpiresAt := expiresAt, ap_Request := rq_Request q\<rparr>)
            (aw_ID w) (aw_createdAt w)
     in do {
       o2 \<leftarrow> transitionRun (aw_askEmit w) (aw_askedAt w) (rq_Run q) (rq_Tenant q) RunAwaitingApproval reason (o1\<lparr>o_Store := m\<rparr>);
       o3 \<leftarrow> emit (aw_requestEmit w) (approvalEvent q EvApprovalReq []
               [(''approval_id'', JStr aid), (''reason'', JStr reason), (''expires_at'', JStr (aw_timeText w expiresAt))]) o2;
       Some (o3, aid)
     })"

definition awaitApproval :: "duration \<Rightarrow> approvalRequest \<Rightarrow> 'p awaiting \<Rightarrow> 'p Orch
    \<Rightarrow> ('p Orch \<times> (goerr + Approval)) option" where
  "awaitApproval timeout q w o1 = do {
     (o2, aid) \<leftarrow> requestApproval timeout q w o1;
     let o3 = aw_meanwhile w o2;
     (m, r) \<leftarrow> decideApproval (rq_Tenant q) aid w (o_Store o3);
     (case r of
        Inl e \<Rightarrow> Some (o3\<lparr>o_Store := m\<rparr>, Inl e)
      | Inr a \<Rightarrow> do {
          o4 \<leftarrow> emit (aw_resultEmit w) (approvalEvent q EvApprovalRes
                  (if ap_ResolvedBy a = [] then SystemPrincipal else ap_ResolvedBy a)
                  [(''approval_id'', JStr aid), (''status'', JStr (ap_Status a)), (''resolved_by'', JStr (ap_ResolvedBy a))])
                  (o3\<lparr>o_Store := m\<rparr>);
          (case aw_goneErr w of
             Some e \<Rightarrow> Some (o4, Inl (Errorf ''approval %s: %w'' [e]))
           | None \<Rightarrow> do {
               o5 \<leftarrow> transitionRun (aw_onEmit w) (aw_onAt w) (rq_Run q) (rq_Tenant q) RunRunning [] o4;
               Some (o5, Inr a)
             })
        })
   }"

section \<open>What the waiting run is told\<close>

lemma appendOne_approvals: "appendOne m (e, st) = Some (m', ev) \<Longrightarrow> ms_approvals m' = ms_approvals m"
  by (auto simp: appendOne_eq numbered_def Let_def split: option.splits)

lemma appendEvent_approvals: "appendEvent w ev o1 = Some o2 \<Longrightarrow>
    ms_approvals (o_Store o2) = ms_approvals (o_Store o1)"
  by (auto simp: appendEvent_def Append_def Let_def split: option.splits prod.splits dest!: appendOne_approvals)

lemma emit_approvals: "emit w ev o1 = Some o2 \<Longrightarrow> ms_approvals (o_Store o2) = ms_approvals (o_Store o1)"
  by (auto simp: emit_def Let_def split: option.splits prod.splits dest!: appendEvent_approvals)

lemma UpdateRunStatus_approvals: "ms_approvals (fst (UpdateRunStatus m t rid st why now)) = ms_approvals m"
  by (simp add: UpdateRunStatus_def setRun_def Let_def split: sum.split)

lemma transitionRun_approvals: "transitionRun w now rid t st why o1 = Some o2 \<Longrightarrow>
    ms_approvals (o_Store o2) = ms_approvals (o_Store o1)"
  by (auto simp: transitionRun_def UpdateRunStatus_approvals split: sum.splits dest!: emit_approvals)

lemma GetApproval_cong: "ms_approvals m = ms_approvals m' \<Longrightarrow> GetApproval m t aid = GetApproval m' t aid"
  by (simp add: GetApproval_def)

lemma awaitApproval_Inr:
  assumes "awaitApproval timeout q w o1 = Some (o5, Inr a)"
  obtains o2 aid m where "requestApproval timeout q w o1 = Some (o2, aid)"
    "decideApproval (rq_Tenant q) aid w (o_Store (aw_meanwhile w o2)) = Some (m, Inr a)"
    "ms_approvals (o_Store o5) = ms_approvals m" "aw_goneErr w = None"
proof -
  from assms obtain o2 aid m r where r: "requestApproval timeout q w o1 = Some (o2, aid)"
    "decideApproval (rq_Tenant q) aid w (o_Store (aw_meanwhile w o2)) = Some (m, r)"
    and rest: "(case r of Inl e \<Rightarrow> Some ((aw_meanwhile w o2)\<lparr>o_Store := m\<rparr>, Inl e)
      | Inr a \<Rightarrow> do {
          o4 \<leftarrow> emit (aw_resultEmit w) (approvalEvent q EvApprovalRes
                  (if ap_ResolvedBy a = [] then SystemPrincipal else ap_ResolvedBy a)
                  [(''approval_id'', JStr aid), (''status'', JStr (ap_Status a)), (''resolved_by'', JStr (ap_ResolvedBy a))])
                  ((aw_meanwhile w o2)\<lparr>o_Store := m\<rparr>);
          (case aw_goneErr w of
             Some e \<Rightarrow> Some (o4, Inl (Errorf ''approval %s: %w'' [e]))
           | None \<Rightarrow> do {
               o5 \<leftarrow> transitionRun (aw_onEmit w) (aw_onAt w) (rq_Run q) (rq_Tenant q) RunRunning [] o4;
               Some (o5, Inr a)
             })
        }) = Some (o5, Inr a)"
    unfolding awaitApproval_def Let_def by (auto simp: Option.bind_eq_Some_conv)
  from rest have "r = Inr a" "aw_goneErr w = None" "ms_approvals (o_Store o5) = ms_approvals m"
    by (auto simp: Option.bind_eq_Some_conv split: sum.splits option.splits
        dest!: emit_approvals transitionRun_approvals)
  with r show thesis by (intro that) auto
qed

text \<open>What \<open>closeApproval\<close> leaves of an approval that is stored.\<close>

definition closedAs :: "Approval \<Rightarrow> string \<Rightarrow> time \<Rightarrow> Approval" where
  "closedAs b status now = b\<lparr>ap_Status := status, ap_Resolution := None, ap_ResolvedBy := [], ap_ResolvedAt := now\<rparr>"

lemma closeApproval_stored:
  assumes ok: "approvals_ok m" and b: "GetApproval m t aid = Inr b" and "status = ''expired'' \<or> status = ''canceled''"
  shows "\<exists>m'. closeApproval t aid status now now' m = Some (m',
      Inr (if ap_Status b = ''requested'' then closedAs b status now' else b)) \<and>
    GetApproval m' t aid = Inr (if ap_Status b = ''requested'' then closedAs b status now' else b)"
proof -
  obtain e where e: "map_of (ms_approvals m) aid = Some e" "ae_approval e = b" "ap_TenantID b = t"
    using b by (auto simp: approvals.get_Inr_iff)
  show ?thesis
  proof (cases "ap_Status b = ''requested''")
    case True
    with approvals_okD [OF ok e(1)] e have "\<not> ae_done e" by simp
    with True e assms(3) show ?thesis
      by (auto simp: closeApproval_def ResolveApproval_def close_done_def approvals.get_Inr_iff closedAs_def
          Let_def go_simps)
  next
    case False
    with e b show ?thesis
      by (auto simp: closeApproval_def ResolveApproval_def Let_def)
  qed
qed

lemma decideApproval_stored:
  assumes ok: "approvals_ok m" and b: "GetApproval m t aid = Inr b"
    and d: "decideApproval t aid w m = Some (m', Inr a)"
  shows "GetApproval m' t aid = Inr a \<and> (if ap_Status b \<noteq> ''requested'' then a = b
    else aw_waitErr w \<noteq> None \<and> a = closedAs b (if aw_runErr w \<noteq> None then ''canceled'' else ''expired'') (aw_resolvedAt w))"
proof -
  obtain e where e: "map_of (ms_approvals m) aid = Some e" "ae_approval e = b" "ap_TenantID b = t"
    using b by (auto simp: approvals.get_Inr_iff)
  have "ae_done e \<longleftrightarrow> ap_Status b \<noteq> ''requested''" using approvals_okD [OF ok e(1)] e by simp
  note wait = this
  show ?thesis
  proof (cases "WaitForApproval m aid (aw_waitErr w) (aw_pick w)")
    case None
    with d show ?thesis by (simp add: decideApproval_def)
  next
    case (Some r)
    show ?thesis
    proof (cases r)
      case (Inr x)
      with Some e wait have "x = b" "ae_done e" by (auto simp: WaitForApproval_def split: option.splits if_splits)
      with Some Inr d b wait show ?thesis by (simp add: decideApproval_def)
    next
      case (Inl err)
      with Some e have waitErr: "aw_waitErr w = Some err" by (auto simp: WaitForApproval_def split: option.splits if_splits)
      from d Some Inl obtain status where st: "closingStatus (aw_runErr w) err = Some status"
        by (auto simp: decideApproval_def split: option.splits)
      then have "status = (if aw_runErr w \<noteq> None then ''canceled'' else ''expired'')"
        by (auto simp: closingStatus_def split: if_splits)
      moreover from this have "status = ''expired'' \<or> status = ''canceled''" by simp
      from closeApproval_stored [OF ok b this, of "aw_closedAt w" "aw_resolvedAt w"] d Some Inl st
      have "GetApproval m' t aid = Inr a" "a = (if ap_Status b = ''requested'' then closedAs b status (aw_resolvedAt w) else b)"
        by (auto simp: decideApproval_def)
      ultimately show ?thesis using waitErr by simp
    qed
  qed
qed

text \<open>C8: A run that waits for a human goes on with exactly what is stored: the decision that was
  recorded while it waited, or, if none was and its time was over, an expiry that it records itself
  and that nobody approved. It is never told of an approval that the store does not hold, and the
  request it is told of is never still open.\<close>

theorem awaited_decision_is_stored:
  assumes "awaitApproval timeout q w o1 = Some (o5, Inr a)"
    and "requestApproval timeout q w o1 = Some (o2, aid)"
    and "approvals_ok (o_Store (aw_meanwhile w o2))"
    and "GetApproval (o_Store (aw_meanwhile w o2)) (rq_Tenant q) aid = Inr b"
    and "aw_runErr w \<noteq> None \<longrightarrow> aw_goneErr w \<noteq> None"  \<comment> \<open>a context that has ended stays ended\<close>
  shows "GetApproval (o_Store o5) (rq_Tenant q) aid = Inr a \<and> ap_Status a \<noteq> ''requested'' \<and>
    (if ap_Status b \<noteq> ''requested'' then a = b
     else aw_waitErr w \<noteq> None \<and> a = closedAs b ''expired'' (aw_resolvedAt w))"
proof -
  from assms(1) obtain m where d: "decideApproval (rq_Tenant q) aid w (o_Store (aw_meanwhile w o2)) = Some (m, Inr a)"
    and m: "ms_approvals (o_Store o5) = ms_approvals m" "aw_goneErr w = None"
    using assms(2) by (elim awaitApproval_Inr) simp
  with decideApproval_stored [OF assms(3,4) d] assms(5) show ?thesis
    by (auto simp: GetApproval_cong [OF m(1)] closedAs_def split: if_splits)
qed

text \<open>A request of a run is approved while the run waits.\<close>

definition askedPay :: approvalRequest where
  "askedPay = \<lparr>rq_Tenant = ''t'', rq_Session = ''s'', rq_Run = ''r'', rq_Task = ''k'', rq_Step = ''x'',
     rq_Reason = ''pays'', rq_Subject = [(''tool'', JStr ''pay'')], rq_Request = None\<rparr>"

definition approvesPay :: "'p Orch \<Rightarrow> 'p Orch" where
  "approvesPay o1 = (case ResolveApproval (o_Store o1) ''t'' ''a'' ''approved'' ''p'' None 3 3 of
     None \<Rightarrow> o1 | Some (m, _) \<Rightarrow> o1\<lparr>o_Store := m\<rparr>)"

definition awaitsPay :: "string awaiting" where
  "awaitsPay = \<lparr>aw_now = 1, aw_timeText = \<lambda>_. ''soon'', aw_ID = ''a'', aw_createdAt = 1, aw_askedAt = 1,
     aw_askEmit = demoEmission, aw_requestEmit = demoEmission, aw_meanwhile = approvesPay, aw_waitErr = None,
     aw_pick = True, aw_runErr = None, aw_closedAt = 3, aw_resolvedAt = 3, aw_resultEmit = demoEmission,
     aw_goneErr = None, aw_onAt = 4, aw_onEmit = demoEmission\<rparr>"

lemma heldHere_transition: "heldHere o1 rid t \<Longrightarrow> \<exists>o2. transitionRun w now rid t st why o1 = Some o2 \<and> heldHere o2 rid t"
proof -
  assume h: "heldHere o1 rid t"
  then obtain r where r: "GetRun (o_Store o1) t rid = Inr r" "ru_Owner r = o_Owner o1" "ru_TenantID r = t"
    by (auto simp: heldHere_def runs.get_Inr_iff)
  have "heldHere (o1\<lparr>o_Store := fst (UpdateRunStatus (o_Store o1) t rid st why now)\<rparr>) rid t"
    using h r by (auto simp: heldHere_def UpdateRunStatus_def Let_def go_simps)
  from heldHere_emit [OF this, of w "stateEvent t (ru_SessionID r) rid [] st ''reason'' why"] r
  show ?thesis by (simp add: transitionRun_def)
qed

theorem awaited_decision_is_stored_witness:
  "\<exists>o1 o5 a. awaitApproval 5 askedPay awaitsPay o1 = Some (o5, Inr a) \<and> ap_Status a = ''approved'' \<and>
     ap_ResolvedBy a = ''p'' \<and> GetApproval (o_Store o5) ''t'' ''a'' = Inr a"
proof -
  let ?run = "Run0\<lparr>ru_ID := ''r'', ru_TenantID := ''t'', ru_Owner := ''p''\<rparr>"
  let ?o = "demoOrch\<lparr>o_Store := NewMemStore\<lparr>ms_runs := [(''r'', ?run)]\<rparr>\<rparr>"
  let ?A = "filledApproval (Approval0\<lparr>ap_TenantID := ''t'', ap_RunID := ''r'', ap_StepID := ''x'',
    ap_Reason := ''pays'', ap_ExpiresAt := 6, ap_Request := None\<rparr>) ''a'' 1"
  let ?B = "?A\<lparr>ap_Status := ''approved'', ap_Resolution := None, ap_ResolvedBy := ''p'', ap_ResolvedAt := 3\<rparr>"
  let ?m = "(o_Store ?o)\<lparr>ms_approvals := [(''a'', \<lparr>ae_approval = ?A, ae_done = False\<rparr>)]\<rparr>"
  have A: "ap_ID ?A = ''a''" "ap_TenantID ?A = ''t''" "ap_Status ?A = ''requested''" "ap_ExpiresAt ?A = 6"
    by (simp_all add: filledApproval_def Approval0_def Let_def)
  have create: "CreateApproval (o_Store ?o) (Approval0\<lparr>ap_TenantID := ''t'', ap_RunID := ''r'', ap_StepID := ''x'',
      ap_Reason := ''pays'', ap_ExpiresAt := 6, ap_Request := None\<rparr>) ''a'' 1 = (?m, ''a'')"
    using A by (simp add: CreateApproval_def NewMemStore_def Let_def)
  have "heldHere (?o\<lparr>o_Store := ?m\<rparr>) ''r'' ''t''"
    by (simp add: heldHere_def demoOrch_def NewMemStore_def Run0_def)
  from heldHere_transition [OF this, of demoEmission 1 RunAwaitingApproval "''pays''"]
  obtain o2 where o2: "transitionRun demoEmission 1 ''r'' ''t'' RunAwaitingApproval ''pays'' (?o\<lparr>o_Store := ?m\<rparr>) = Some o2"
    "heldHere o2 ''r'' ''t''" by blast
  from heldHere_emit [OF o2(2), of demoEmission "approvalEvent askedPay EvApprovalReq []
     [(''approval_id'', JStr ''a''), (''reason'', JStr ''pays''), (''expires_at'', JStr ''soon'')]"]
  obtain o3 where o3: "emit demoEmission (approvalEvent askedPay EvApprovalReq []
     [(''approval_id'', JStr ''a''), (''reason'', JStr ''pays''), (''expires_at'', JStr ''soon'')]) o2 = Some o3"
    "heldHere o3 ''r'' ''t''" by blast
  have req: "requestApproval 5 askedPay awaitsPay ?o = Some (o3, ''a'')"
    using create o2(1) o3(1) by (simp add: requestApproval_def askedPay_def awaitsPay_def Let_def)
  have as3: "ms_approvals (o_Store o3) = [(''a'', \<lparr>ae_approval = ?A, ae_done = False\<rparr>)]"
    using emit_approvals [OF o3(1)] transitionRun_approvals [OF o2(1)] by simp
  define B where "B = ?B"
  have B: "ap_Status B = ''approved''" "ap_ResolvedBy B = ''p''" "ap_TenantID B = ''t''" "ap_ID B = ''a''"
    using A by (simp_all add: B_def)
  define m4 where "m4 = setEntry (o_Store o3) ''a'' \<lparr>ae_approval = B, ae_done = True\<rparr>"
  have as4: "ms_approvals m4 = [(''a'', \<lparr>ae_approval = B, ae_done = True\<rparr>)]"
    by (simp add: setEntry_def as3 m4_def)
  let ?o4 = "o3\<lparr>o_Store := m4\<rparr>"
  have o4: "approvesPay o3 = ?o4"
    using A by (simp add: approvesPay_def ResolveApproval_def as3 hasExpired_def close_done_def m4_def B_def)
  have "heldHere ?o4 ''r'' ''t''" using o3(2) by (simp add: heldHere_def setEntry_def m4_def)
  from heldHere_emit [OF this, of demoEmission "approvalEvent askedPay EvApprovalRes ''p''
     [(''approval_id'', JStr ''a''), (''status'', JStr ''approved''), (''resolved_by'', JStr ''p'')]"]
  obtain o5 where o5: "emit demoEmission (approvalEvent askedPay EvApprovalRes ''p''
     [(''approval_id'', JStr ''a''), (''status'', JStr ''approved''), (''resolved_by'', JStr ''p'')]) ?o4 = Some o5"
    "heldHere o5 ''r'' ''t''" by blast
  from heldHere_transition [OF o5(2)] obtain o6 where
    o6: "transitionRun demoEmission 4 ''r'' ''t'' RunRunning [] o5 = Some o6" by blast
  have "decideApproval ''t'' ''a'' awaitsPay m4 = Some (m4, Inr B)"
    by (simp add: decideApproval_def WaitForApproval_def as4 awaitsPay_def)
  then have run: "awaitApproval 5 askedPay awaitsPay ?o = Some (o6, Inr B)"
    unfolding awaitApproval_def req using o4 o5(1) o6 B
    by (simp add: awaitsPay_def askedPay_def Let_def)
  have ok: "approvals_ok (o_Store (aw_meanwhile awaitsPay o3))"
    using B by (simp add: awaitsPay_def o4 approvals_ok_def entry_ok_def as4)
  have get: "GetApproval (o_Store (aw_meanwhile awaitsPay o3)) (rq_Tenant askedPay) ''a'' = Inr B"
    using B by (simp add: awaitsPay_def o4 GetApproval_def askedPay_def as4)
  from awaited_decision_is_stored [OF run req ok get] have "GetApproval (o_Store o6) ''t'' ''a'' = Inr B"
    by (simp add: awaitsPay_def askedPay_def)
  with run B show ?thesis by (intro exI [of _ ?o] exI [of _ o6] exI [of _ B]) simp
qed

end
