(* ===== verification/Conversation.thy ===== *)
theory Conversation
  imports Awaiting JsonFields
begin

text \<open>
  Questions and answers (\<open>runtime/chat.go\<close>): the built-in tool \<open>ask_human\<close>, which waits for an
  approval of gate \<open>input\<close>, and \<open>PostMessage\<close>, which stores a human's message and then either
  starts a run with it or answers the oldest open question of the session with it.
\<close>

section \<open>Asking\<close>

definition inputGate :: string where "inputGate = ''input''"

definition askedQuestion :: "raw \<Rightarrow> string option" where
  "askedQuestion input = (let q = textField ''question'' input
     in if \<not> decodes [''question''] [] input \<or> TrimSpace q = [] then None else Some q)"

definition questionRequest :: "CallScope \<Rightarrow> StepID \<Rightarrow> string \<Rightarrow> approvalRequest" where
  "questionRequest c step q =
    (let subject = [(''gate'', JStr inputGate), (''question'', JStr q)]
     in \<lparr>rq_Tenant = cx_Tenant c, rq_Session = cx_Session c, rq_Run = cx_Run c, rq_Task = cx_Task c,
         rq_Step = step, rq_Reason = ''an agent asks a question'', rq_Subject = subject,
         rq_Request = Some (mustJSON (JObj subject))\<rparr>)"

text \<open>What the tool returns for the approval it got.\<close>

definition humanReply :: "Approval \<Rightarrow> string" where
  "humanReply a = orElse (textField ''message'' (ap_Resolution a)) (textField ''answer'' (ap_Resolution a))"

definition questionResult :: "Approval \<Rightarrow> ToolResult" where
  "questionResult a = ToolResult0\<lparr>tr_Output := Some (mustJSON
     (if ap_Status a = ''approved'' \<and> humanReply a \<noteq> [] then JObj [(''answer'', JStr (humanReply a))]
      else JObj [(''answered'', JBool False), (''status'', JStr (ap_Status a))]))\<rparr>"

definition askHuman :: "duration \<Rightarrow> CallScope \<Rightarrow> Call \<Rightarrow> 'p awaiting \<Rightarrow> 'p Orch
    \<Rightarrow> ('p Orch \<times> (goerr + ToolResult)) option" where
  "askHuman timeout c call w o1 =
    (case askedQuestion (cl_Input call) of
       None \<Rightarrow> Some (o1, Inl (new_error ''ask_human takes {\"question\": \"...\"}''))
     | Some q \<Rightarrow>
        (case awaitApproval timeout (questionRequest c (cl_StepID call) q) w o1 of
           None \<Rightarrow> None
         | Some (o2, Inl e) \<Rightarrow> Some (o2, Inl e)
         | Some (o2, Inr a) \<Rightarrow> Some (o2, Inr (questionResult a))))"

section \<open>Finding a question\<close>

definition isQuestion :: "Approval \<Rightarrow> bool" where
  "isQuestion a \<longleftrightarrow> decodes [''gate''] [] (ap_Request a) \<and> textField ''gate'' (ap_Request a) = inputGate"

text \<open>The open questions of the session's unfinished runs; \<open>clock\<close> is the time at which the store
  lists the approvals of a run.\<close>

definition openApprovals :: "MemStore \<Rightarrow> TenantID \<Rightarrow> (RunID \<Rightarrow> time) \<Rightarrow> RunID \<Rightarrow> Approval list" where
  "openApprovals m tenant clock rid = ListApprovals m tenant
     \<lparr>af_RunID = rid, af_Status = ''requested'', af_After = [], af_Limit = 0, af_Participant = []\<rparr> (clock rid)"

fun openQuestions :: "MemStore \<Rightarrow> TenantID \<Rightarrow> (RunID \<Rightarrow> time) \<Rightarrow> Run list \<Rightarrow> Approval list" where
  "openQuestions m tenant clock [] = []"
| "openQuestions m tenant clock (r # rs) =
    (if Terminal (ru_Status r) then openQuestions m tenant clock rs
     else filter isQuestion (openApprovals m tenant clock (ru_ID r)) @ openQuestions m tenant clock rs)"

text \<open>\<open>slices.MinFunc\<close> by creation, then by ID.\<close>

definition earlier :: "Approval \<Rightarrow> Approval \<Rightarrow> bool" where
  "earlier a b \<longleftrightarrow> ap_CreatedAt a < ap_CreatedAt b \<or> ap_CreatedAt a = ap_CreatedAt b \<and> ap_ID a < ap_ID b"

fun oldest :: "Approval \<Rightarrow> Approval list \<Rightarrow> Approval" where
  "oldest a [] = a"
| "oldest a (b # bs) = oldest (if earlier b a then b else a) bs"

definition openQuestion :: "MemStore \<Rightarrow> TenantID \<Rightarrow> SessionID \<Rightarrow> (RunID \<Rightarrow> time) \<Rightarrow> Approval option" where
  "openQuestion m tenant session clock =
    (case openQuestions m tenant clock (ListRuns m tenant session) of
       [] \<Rightarrow> None
     | a # as \<Rightarrow> Some (oldest a as))"

section \<open>Posting\<close>

record PostedMessage =
  po_Event :: Event
  po_Answered :: RunID
  po_Approval :: ApprovalID
  po_RunID :: RunID
  po_Replayed :: bool

definition PostedMessage0 :: PostedMessage where
  "PostedMessage0 = \<lparr>po_Event = Event0, po_Answered = [], po_Approval = [], po_RunID = [], po_Replayed = False\<rparr>"

text \<open>A round of the loop that answers a question: the times at which the approvals are listed, what
  others do to the store in between, and the times of the resolution.\<close>

record answering =
  an_clock :: "RunID \<Rightarrow> time"
  an_meanwhile :: "MemStore \<Rightarrow> MemStore"
  an_now :: time
  an_resolvedAt :: time

datatype answerEnd = NoQuestion | AnswerFailed goerr | AnsweredBy Approval | AskAgain

definition resolutionDoc :: "string \<Rightarrow> EventID \<Rightarrow> json" where
  "resolutionDoc content event = mustJSON (JObj [(''message'', JStr content), (''event_id'', JStr event)])"

definition answerRound :: "TenantID \<Rightarrow> SessionID \<Rightarrow> PrincipalID \<Rightarrow> json \<Rightarrow> answering \<Rightarrow> MemStore
    \<Rightarrow> (MemStore \<times> answerEnd) option" where
  "answerRound tenant session who resolution w m =
    (case openQuestion m tenant session (an_clock w) of
       None \<Rightarrow> Some (m, NoQuestion)
     | Some q \<Rightarrow>
        if ap_ID q = [] then Some (m, NoQuestion)
        else (case ResolveApproval (an_meanwhile w m) tenant (ap_ID q) ''approved'' who (Some resolution)
               (an_now w) (an_resolvedAt w) of
           None \<Rightarrow> None
         | Some (m1, None) \<Rightarrow> Some (m1, AnsweredBy q)
         | Some (m1, Some e) \<Rightarrow> Some (m1, if errors_is e ErrConflict then AskAgain else AnswerFailed e)))"

text \<open>The loop, of at most \<open>n\<close> rounds; \<open>None\<close> is a panic of the store, or that it goes on.\<close>

fun answerLoop :: "TenantID \<Rightarrow> SessionID \<Rightarrow> PrincipalID \<Rightarrow> json \<Rightarrow> (nat \<Rightarrow> answering) \<Rightarrow> nat \<Rightarrow> nat
    \<Rightarrow> MemStore \<Rightarrow> (MemStore \<times> answerEnd) option" where
  "answerLoop tenant session who resolution world i 0 m = None"
| "answerLoop tenant session who resolution world i (Suc n) m =
    (case answerRound tenant session who resolution (world i) m of
       None \<Rightarrow> None
     | Some (m1, AskAgain) \<Rightarrow> answerLoop tenant session who resolution world (i + 1) n m1
     | Some (m1, e) \<Rightarrow> Some (m1, e))"

record posting =
  ps_stamp :: stamp
  ps_messageID :: string
  ps_messageAt :: time
  ps_create :: creation
  ps_answers :: "nat \<Rightarrow> answering"
  ps_rounds :: nat

text \<open>The input of a run that a message starts: the message is its input \<open>message\<close>.\<close>

definition messageInput :: "TenantID \<Rightarrow> SessionID \<Rightarrow> PrincipalID \<Rightarrow> string \<Rightarrow> ('p, 're, 'sc) StartRunInput
    \<Rightarrow> goerr + ('p, 're, 'sc) StartRunInput" where
  "messageInput tenant session who content i =
    (if map_of (si_Input i) ''message'' \<noteq> None
     then Inl (new_error ''input \"message\" is the posted message; leave it out'')
     else Inr (i\<lparr>si_TenantID := tenant, si_SessionID := session, si_PrincipalID := who,
                 si_Input := mput ''message'' content (si_Input i)\<rparr>))"

text \<open>What comes before the message is stored: an error, the run an earlier message started, or the
  prepared input of the run to start, if one is.\<close>

definition beforePosting :: "('p, 're, 'sc) Tooling \<Rightarrow> TenantID \<Rightarrow> SessionID \<Rightarrow> PrincipalID \<Rightarrow> string
    \<Rightarrow> ('p, 're, 'sc) StartRunInput option \<Rightarrow> 'p Orch
    \<Rightarrow> (goerr + (RunID + ('p, 're, 'sc) StartRunInput option)) option" where
  "beforePosting T tenant session who content run o1 =
    (case run of
       None \<Rightarrow> Some (Inr (Inr None))
     | Some i0 \<Rightarrow>
        (case messageInput tenant session who content i0 of
           Inl e \<Rightarrow> Some (Inl e)
         | Inr i1 \<Rightarrow>
            (case prepareRun T o1 i1 of
               None \<Rightarrow> None
             | Some (Inl e) \<Rightarrow> Some (Inl e)
             | Some (Inr (existing, i)) \<Rightarrow>
                 Some (Inr (if existing \<noteq> [] then Inl existing else Inr (Some i))))))"

definition humanEvent :: "TenantID \<Rightarrow> SessionID \<Rightarrow> PrincipalID \<Rightarrow> string \<Rightarrow> string \<Rightarrow> Event" where
  "humanEvent tenant session who role content = Event0\<lparr>ev_TenantID := tenant, ev_SessionID := session,
     ev_Type := EvHumanMessage, ev_Visibility := VisibilityParticipant, ev_ActorID := who,
     ev_Payload := Some (mustJSON (JObj [(''role'', JStr role), (''content'', JStr content)]))\<rparr>"

text \<open>The message in the log and among the session's messages.\<close>

definition storeMessage :: "posting \<Rightarrow> TenantID \<Rightarrow> SessionID \<Rightarrow> PrincipalID \<Rightarrow> string \<Rightarrow> string \<Rightarrow> MemStore
    \<Rightarrow> (MemStore \<times> Event) option" where
  "storeMessage w tenant session who role content m =
    (case Append m [(humanEvent tenant session who role content, ps_stamp w)] of
       None \<Rightarrow> None
     | Some (m1, out) \<Rightarrow> (case out of
          [] \<Rightarrow> None
        | ev # _ \<Rightarrow> Some (AddMessage m1 \<lparr>mp_ID = [], mp_SessionID = session, mp_RunID = [], mp_EventID = ev_ID ev,
            mp_Role = role, mp_Visibility = VisibilityParticipant, mp_Content = content, mp_CreatedAt = 0\<rparr>
            (ps_messageID w) (ps_messageAt w), ev)))"

definition PostMessage :: "('p, 're, 'sc) Tooling \<Rightarrow> posting \<Rightarrow> TenantID \<Rightarrow> SessionID \<Rightarrow> PrincipalID \<Rightarrow> string
    \<Rightarrow> string \<Rightarrow> ('p, 're, 'sc) StartRunInput option \<Rightarrow> 'p Orch
    \<Rightarrow> ('p Orch \<times> PostedMessage \<times> goerr option) option" where
  "PostMessage T w tenant session who role content run o1 =
    (case beforePosting T tenant session who content run o1 of
       None \<Rightarrow> None
     | Some (Inl e) \<Rightarrow> Some (o1, PostedMessage0, Some e)
     | Some (Inr (Inl existing)) \<Rightarrow> Some (o1, PostedMessage0\<lparr>po_RunID := existing, po_Replayed := True\<rparr>, None)
     | Some (Inr (Inr toStart)) \<Rightarrow>
        (case storeMessage w tenant session who role content (o_Store o1) of
           None \<Rightarrow> None
         | Some (m, ev) \<Rightarrow>
            let o2 = o1\<lparr>o_Store := m\<rparr>; pm = PostedMessage0\<lparr>po_Event := ev\<rparr>
            in (case toStart of
                  Some i \<Rightarrow> (case createRun T (ps_create w) o2 i of
                      None \<Rightarrow> None
                    | Some (o3, Inl e) \<Rightarrow> Some (o3, pm, Some e)
                    | Some (o3, Inr rid) \<Rightarrow> Some (o3, pm\<lparr>po_RunID := rid\<rparr>, None))
                | None \<Rightarrow>
                   (case answerLoop tenant session who (resolutionDoc content (ev_ID ev)) (ps_answers w) 0
                          (ps_rounds w) m of
                      None \<Rightarrow> None
                    | Some (m1, AnsweredBy q) \<Rightarrow> Some (o2\<lparr>o_Store := m1\<rparr>,
                        pm\<lparr>po_Answered := ap_RunID q, po_Approval := ap_ID q\<rparr>, None)
                    | Some (m1, AnswerFailed e) \<Rightarrow> Some (o2\<lparr>o_Store := m1\<rparr>, pm, Some e)
                    | Some (m1, _) \<Rightarrow> Some (o2\<lparr>o_Store := m1\<rparr>, pm, None)))))"

section \<open>What an answer does\<close>

lemma mem_openQuestions: "a \<in> set (openQuestions m t clock rs) \<longleftrightarrow>
    (\<exists>r \<in> set rs. \<not> Terminal (ru_Status r) \<and> a \<in> set (openApprovals m t clock (ru_ID r)) \<and> isQuestion a)"
  by (induction rs) auto

lemma mem_openApprovals: "a \<in> set (openApprovals m t clock rid) \<longleftrightarrow>
    a \<in> set (map ae_approval (mvals (ms_approvals m))) \<and> ap_TenantID a = t \<and> (rid = [] \<or> ap_RunID a = rid) \<and>
    ap_Status a = ''requested'' \<and> ap_ID a \<noteq> [] \<and> \<not> hasExpired a (clock rid)"
proof -
  have "(ap_ID a \<le> []) = (ap_ID a = [])" by (cases "ap_ID a") simp_all
  then show ?thesis
    by (auto simp: openApprovals_def ListApprovals_def Let_def listed_def)
qed

lemma oldest_mem: "oldest a as = a \<or> oldest a as \<in> set as"
proof (induction as arbitrary: a)
  case (Cons c as)
  from Cons.IH [of "if earlier c a then c else a"] show ?case by (auto split: if_splits)
qed simp

lemma not_earlier_iff: "\<not> earlier a b \<longleftrightarrow>
    ap_CreatedAt b < ap_CreatedAt a \<or> ap_CreatedAt a = ap_CreatedAt b \<and> ap_ID b \<le> ap_ID a"
  by (cases "ap_CreatedAt a" "ap_CreatedAt b" rule: linorder_cases) (simp_all add: earlier_def not_less)

lemma not_earlier_trans:
  assumes "\<not> earlier a b" and "\<not> earlier b c"
  shows "\<not> earlier a c"
proof -
  have "ap_ID c \<le> ap_ID a" if "ap_ID b \<le> ap_ID a" "ap_ID c \<le> ap_ID b"
    using that(2,1) by (rule order_trans)
  with assms show ?thesis unfolding not_earlier_iff by linarith
qed

lemma not_earlier_refl: "\<not> earlier a a"
  by (simp add: earlier_def)

lemma earlier_asym: "earlier a b \<Longrightarrow> \<not> earlier b a"
  by (auto simp: earlier_def)

lemma oldest_least: "b \<in> set (a # as) \<Longrightarrow> \<not> earlier b (oldest a as)"
proof (induction as arbitrary: a b)
  case Nil
  then show ?case by (simp add: not_earlier_refl)
next
  case (Cons c as)
  let ?x = "if earlier c a then c else a"
  have "\<not> earlier ?x (oldest ?x as)" by (rule Cons.IH) simp
  moreover have "\<not> earlier a ?x" "\<not> earlier c ?x" by (auto simp: not_earlier_refl earlier_asym)
  ultimately have "\<not> earlier a (oldest ?x as) \<and> \<not> earlier c (oldest ?x as)"
    using not_earlier_trans [of _ ?x "oldest ?x as"] by metis
  moreover have "\<not> earlier b (oldest ?x as)" if "b \<in> set as"
    by (rule Cons.IH) (simp add: that)
  ultimately show ?case using Cons.prems by auto
qed

lemma openQuestion_oldest:
  assumes "openQuestion m t s clock = Some q"
  shows "q \<in> set (openQuestions m t clock (ListRuns m t s))"
    and "\<And>b. b \<in> set (openQuestions m t clock (ListRuns m t s)) \<Longrightarrow> \<not> earlier b q"
proof -
  from assms obtain a as where "openQuestions m t clock (ListRuns m t s) = a # as" "q = oldest a as"
    by (auto simp: openQuestion_def split: list.splits)
  with oldest_mem [of a as] oldest_least [of _ a as]
  show "q \<in> set (openQuestions m t clock (ListRuns m t s))"
    "\<And>b. b \<in> set (openQuestions m t clock (ListRuns m t s)) \<Longrightarrow> \<not> earlier b q" by simp_all
qed

text \<open>A resolution that succeeds releases the waiter with it.\<close>

lemma ResolveApproval_released:
  assumes "ResolveApproval m t aid st who res now now' = Some (m', None)"
  shows "\<exists>b :: Approval. ap_Status b = ''requested'' \<and> WaitForApproval m' aid None pick =
    Some (Inr (b\<lparr>ap_Status := st, ap_Resolution := res, ap_ResolvedBy := who, ap_ResolvedAt := now'\<rparr>))"
  using assms
  by (auto simp: ResolveApproval_def WaitForApproval_def close_done_def Let_def go_simps
      split: option.splits if_splits) blast+

lemma answerLoop_answered:
  assumes "answerLoop t s who res world i n m = Some (m', AnsweredBy q)"
  shows "\<exists>j m0. openQuestion m0 t s (an_clock (world j)) = Some q \<and>
    ResolveApproval (an_meanwhile (world j) m0) t (ap_ID q) ''approved'' who (Some res) (an_now (world j))
       (an_resolvedAt (world j)) = Some (m', None)"
  using assms
proof (induction n arbitrary: i m)
  case (Suc n)
  then obtain m1 e where r: "answerRound t s who res (world i) m = Some (m1, e)"
    by (auto split: option.splits)
  show ?case
  proof (cases "e = AskAgain")
    case True
    with Suc.prems r have "answerLoop t s who res world (i + 1) n m1 = Some (m', AnsweredBy q)" by simp
    from Suc.IH [OF this] show ?thesis .
  next
    case False
    with Suc.prems r have "e = AnsweredBy q" "m1 = m'" by (auto split: answerEnd.splits)
    with r have "openQuestion m t s (an_clock (world i)) = Some q \<and>
        ResolveApproval (an_meanwhile (world i) m) t (ap_ID q) ''approved'' who (Some res) (an_now (world i))
          (an_resolvedAt (world i)) = Some (m', None)"
      by (auto simp: answerRound_def split: option.splits if_splits)
    then show ?thesis by blast
  qed
qed simp

lemma textField_resolution: "textField ''message'' (Some (resolutionDoc content ev)) = content"
proof -
  have "EqualFold ''event_id'' ''message'' = False" by code_simp
  then show ?thesis by (simp add: textField_def resolutionDoc_def mustJSON_def members_def)
qed

lemma questionResult_answer:
  assumes "ap_Status a = ''approved''" and "ap_Resolution a = Some (resolutionDoc content ev)" and "content \<noteq> []"
  shows "tr_Output (questionResult a) = Some (JObj [(''answer'', JStr content)])"
  using assms by (simp add: questionResult_def humanReply_def textField_resolution orElse_def ToolResult0_def mustJSON_def)

text \<open>Alone with the store, the loop leaves out a question it lost to its deadline, so it ends.\<close>

definition clocksAdvance :: "(nat \<Rightarrow> answering) \<Rightarrow> bool" where
  "clocksAdvance world \<longleftrightarrow> (\<forall>i rid rid'. an_clock (world i) rid \<le> an_now (world i) \<and>
     an_now (world i) \<le> an_clock (world (i + 1)) rid')"

lemma hasExpired_later: "hasExpired a now \<Longrightarrow> now \<le> now' \<Longrightarrow> hasExpired a now'"
  by (auto simp: hasExpired_def)

definition questionsAt :: "MemStore \<Rightarrow> TenantID \<Rightarrow> SessionID \<Rightarrow> answering \<Rightarrow> Approval set" where
  "questionsAt m t s w = set (openQuestions m t (an_clock w) (ListRuns m t s))"

lemma questionsAt_later:
  assumes "clocksAdvance world"
  shows "questionsAt m t s (world (i + 1)) \<subseteq> questionsAt m t s (world i)"
proof -
  have "an_clock (world i) rid \<le> an_clock (world (i + 1)) rid" for rid
    using assms by (meson clocksAdvance_def order_trans)
  then have "a \<in> set (openApprovals m t (an_clock (world i)) rid)"
    if "a \<in> set (openApprovals m t (an_clock (world (i + 1))) rid)" for a rid
    using that hasExpired_later unfolding mem_openApprovals by blast
  then show ?thesis
    unfolding questionsAt_def subset_iff mem_openQuestions by blast
qed

lemma answerRound_again:
  assumes clocks: "clocksAdvance world" and ok: "approvals_ok m" and alone: "an_meanwhile (world i) = id"
    and r: "answerRound t s who res (world i) m = Some (m1, AskAgain)"
  shows "m1 = m \<and> questionsAt m t s (world (i + 1)) \<subset> questionsAt m t s (world i)"
proof -
  from r obtain q e where q: "openQuestion m t s (an_clock (world i)) = Some q" and "errors_is e ErrConflict"
    and res: "ResolveApproval m t (ap_ID q) ''approved'' who (Some res) (an_now (world i)) (an_resolvedAt (world i)) = Some (m1, Some e)"
    by (auto simp: answerRound_def alone split: option.splits if_splits)
  from openQuestion_oldest(1) [OF q] have mem: "q \<in> questionsAt m t s (world i)" by (simp add: questionsAt_def)
  then have stored: "q \<in> set (map ae_approval (mvals (ms_approvals m)))" and open1: "ap_Status q = ''requested''" "ap_TenantID q = t"
    by (auto simp: questionsAt_def mem_openQuestions mem_openApprovals)
  then obtain en k where en: "map_of (ms_approvals m) k = Some en" "ae_approval en = q"
    using ok in_mvals_iff [of "ms_approvals m"] unfolding approvals_ok_def set_map by blast
  with approvals_okD [OF ok en(1)] have "map_of (ms_approvals m) (ap_ID q) = Some en" by simp
  with en res open1 have "m1 = m" "hasExpired q (an_now (world i))"
    by (auto simp: ResolveApproval_def Let_def split: if_splits)
  then have "hasExpired q (an_clock (world (i + 1)) rid)" for rid
    using clocks by (meson clocksAdvance_def hasExpired_later)
  then have "q \<notin> questionsAt m t s (world (i + 1))"
    by (auto simp: questionsAt_def mem_openQuestions mem_openApprovals)
  with mem questionsAt_later [OF clocks, of m t s i] \<open>m1 = m\<close> show ?thesis by blast
qed

lemma answerRound_total: "approvals_ok m \<Longrightarrow> an_meanwhile w = id \<Longrightarrow> \<exists>m1 e. answerRound t s who res w m = Some (m1, e)"
proof -
  assume ok: "approvals_ok m" and alone: "an_meanwhile w = id"
  have "\<exists>x. ResolveApproval m t aid ''approved'' who (Some res) n1 n2 = Some x" for aid n1 n2
    using approvals_okD [OF ok] by (auto simp: ResolveApproval_def close_done_def Let_def split: option.split)
  then show ?thesis
    by (auto simp: answerRound_def alone split: option.splits) (metis option.simps(3))
qed

lemma answerLoop_ends:
  assumes "clocksAdvance world" and "approvals_ok m" and "\<forall>i. an_meanwhile (world i) = id"
    and "card (questionsAt m t s (world i)) < n"
  shows "answerLoop t s who res world i n m \<noteq> None"
  using assms(4)
proof (induction n arbitrary: i)
  case (Suc n)
  from answerRound_total [OF assms(2)] assms(3) obtain m1 e where
    r: "answerRound t s who res (world i) m = Some (m1, e)" by blast
  show ?case
  proof (cases "e = AskAgain")
    case True
    with answerRound_again [OF assms(1,2)] assms(3) r have "m1 = m"
      and less: "questionsAt m t s (world (i + 1)) \<subset> questionsAt m t s (world i)" by blast+
    have "finite (questionsAt m t s (world i))" by (simp add: questionsAt_def)
    from psubset_card_mono [OF this less] Suc.prems have "card (questionsAt m t s (world (i + 1))) < n" by simp
    from Suc.IH [OF this] r True \<open>m1 = m\<close> show ?thesis by simp
  qed (use r in \<open>simp split: answerEnd.splits\<close>)
qed simp


section \<open>A sample question\<close>

definition sizeQuestion :: Approval where
  "sizeQuestion = filledApproval (Approval0\<lparr>ap_TenantID := ''t'', ap_RunID := ''r'', ap_StepID := ''x'',
     ap_Reason := ''an agent asks a question'',
     ap_Request := Some (JObj [(''gate'', JStr ''input''), (''question'', JStr ''Which size?'')])\<rparr>) ''a'' 1"

definition askedStore :: MemStore where
  "askedStore = NewMemStore\<lparr>
     ms_runs := [(''r'', Run0\<lparr>ru_ID := ''r'', ru_TenantID := ''t'', ru_SessionID := ''s'', ru_Status := RunAwaitingApproval\<rparr>)],
     ms_approvals := [(''a'', \<lparr>ae_approval = sizeQuestion, ae_done = False\<rparr>)]\<rparr>"

definition askedPosting :: posting where
  "askedPosting = \<lparr>ps_stamp = em_Stamp demoEmission, ps_messageID = ''m'', ps_messageAt = 2, ps_create = demoCreation,
     ps_answers = \<lambda>i. \<lparr>an_clock = \<lambda>_. 2, an_meanwhile = id, an_now = 2, an_resolvedAt = 2\<rparr>, ps_rounds = 2\<rparr>"

definition sizePosted :: "(string Orch \<times> PostedMessage \<times> goerr option) option" where
  "sizePosted = PostMessage demoTools askedPosting ''t'' ''s'' ''u'' ''user'' ''large'' None
     (demoOrch\<lparr>o_Store := askedStore\<rparr>)"

lemma sizePosted_answers: "map_option (\<lambda>(o2, pm, err). (po_Approval pm, po_Answered pm)) sizePosted = Some (''a'', ''r'')"
  by code_simp


end
