(* ===== verification/Reexecution.thy ===== *)
theory Reexecution
  imports Compaction ToolReply JsonFields
begin

text \<open>
  Re-execution (\<open>runtime/reexecute.go\<close>): what a run's events record of its model and tool calls, how
  the copy's tools answer from it, and the session with the history the original saw. The copy itself
  is a run like any other. Decoding a request or a response and \<open>json.Compact\<close> are arguments.
\<close>

section \<open>Recorded results\<close>

record toolResult =
  re_output :: raw
  re_err :: string
  re_fatal :: string
  re_cost :: int

text \<open>The recorded results by tool and input; a key that has none has the empty list.\<close>

type_synonym toolReplay = "string \<Rightarrow> toolResult list"

definition toolKey :: "(raw \<Rightarrow> string) \<Rightarrow> string \<Rightarrow> raw \<Rightarrow> string" where
  "toolKey squeeze name input = name @ [CHR 0x00] @ squeeze input"

record Decoders =
  dc_compact :: "raw \<Rightarrow> string"
  dc_request :: "json \<Rightarrow> ChatRequest option"
  dc_response :: "json \<Rightarrow> ChatResponse option"

record recording =
  rd_requests :: "StepID \<Rightarrow> ChatRequest"
  rd_inputs :: "StepID \<rightharpoonup> string"
  rd_exchanges :: "Exchange list"
  rd_tools :: toolReplay

definition recording0 :: recording where
  "recording0 = \<lparr>rd_requests = (\<lambda>_. ChatRequest0), rd_inputs = Map.empty, rd_exchanges = [], rd_tools = (\<lambda>_. [])\<rparr>"

text \<open>A pointer member of a hidden payload: missing, null or undecodable is no record.\<close>

definition hiddenMember :: "(json \<Rightarrow> 'a option) \<Rightarrow> string \<Rightarrow> raw \<Rightarrow> 'a option" where
  "hiddenMember dec name r = (case rawField name r of None \<Rightarrow> None | Some d \<Rightarrow> if d = JNull then None else dec d)"

definition completedCall :: "raw \<Rightarrow> toolResult" where
  "completedCall r = \<lparr>re_output = rawField ''output'' r, re_err = textField ''error'' r,
     re_fatal = textField ''fatal'' r, re_cost = intField ''cost_units'' r\<rparr>"

text \<open>The body of the loop over the events.\<close>

definition recordEvent :: "Decoders \<Rightarrow> Event \<Rightarrow> recording \<Rightarrow> goerr + recording" where
  "recordEvent D ev rd =
    (if ev_Type ev = EvModelStarted
     then (case hiddenMember (dc_request D) ''request'' (ev_HiddenPayload ev) of
         None \<Rightarrow> Inl (Errorf ''%w: model call %s has no stored request'' [Sentinel ErrNotRecorded])
       | Some q \<Rightarrow> Inr (rd\<lparr>rd_requests := (rd_requests rd)(ev_StepID ev := q)\<rparr>))
     else if ev_Type ev = EvModelCompleted
     then (case hiddenMember (dc_response D) ''response'' (ev_HiddenPayload ev) of
         None \<Rightarrow> Inl (Errorf ''%w: model call %s has no stored response'' [Sentinel ErrNotRecorded])
       | Some p \<Rightarrow> Inr (rd\<lparr>rd_exchanges := rd_exchanges rd @
           [\<lparr>ex_Request = rd_requests rd (ev_StepID ev), ex_Response = p\<rparr>]\<rparr>))
     else if ev_Type ev = EvToolScheduled
     then (if \<not> decodes [''tool''] [] (ev_Payload ev) then Inl (new_error ''tool call %s: %w'')
       else Inr (rd\<lparr>rd_inputs := (rd_inputs rd)(ev_StepID ev \<mapsto> toolKey (dc_compact D)
          (textField ''tool'' (ev_Payload ev)) (rawField ''input'' (ev_Payload ev)))\<rparr>))
     else if ev_Type ev = EvToolCompleted
     then (if \<not> decodes [''error'', ''fatal''] [''cost_units''] (ev_Payload ev) then Inl (new_error ''tool call %s: %w'')
       else Inr (case rd_inputs rd (ev_StepID ev) of
           None \<Rightarrow> rd
         | Some key \<Rightarrow> rd\<lparr>rd_tools := (rd_tools rd)(key := rd_tools rd key @ [completedCall (ev_Payload ev)])\<rparr>))
     else Inr rd)"

fun recordEvents :: "Decoders \<Rightarrow> Event list \<Rightarrow> recording \<Rightarrow> goerr + recording" where
  "recordEvents D [] rd = Inr rd"
| "recordEvents D (ev # evs) rd =
    (case recordEvent D ev rd of Inl e \<Rightarrow> Inl e | Inr rd1 \<Rightarrow> recordEvents D evs rd1)"

text \<open>\<open>recordedOutputs\<close>; the replayer of the model calls is that of \<open>Providers\<close>.\<close>

definition recordedOutputs :: "Decoders \<Rightarrow> Event list \<Rightarrow> goerr + (model_error + Replayer) \<times> toolReplay" where
  "recordedOutputs D evs =
    (case recordEvents D evs recording0 of
       Inl e \<Rightarrow> Inl e
     | Inr rd \<Rightarrow> Inr (NewReplayer (rd_exchanges rd), rd_tools rd))"

section \<open>Answering from the record\<close>

definition toolReplay_Execute :: "(raw \<Rightarrow> string) \<Rightarrow> Call \<Rightarrow> toolReplay \<Rightarrow> toolReplay \<times> ToolResult \<times> goerr option" where
  "toolReplay_Execute squeeze c t =
    (let key = toolKey squeeze (td_Name (cl_Tool c)) (cl_Input c)
     in case t key of
       [] \<Rightarrow> (t, ToolResult0, Some (Errorf ''%w: no recorded result for tool %s with input %s'' [Sentinel ErrNotRecorded]))
     | r # q \<Rightarrow> (t(key := q),
         if re_fatal r = ''budget_exceeded'' then (ToolResult0, Some (Errorf (''%w: '' @ re_err r) [Sentinel ErrBudgetExceeded]))
         else if re_fatal r = ''loop_detected'' \<or> re_fatal r = ''paused''
         then (ToolResult0, Some (Errorf (''%w: '' @ re_err r) [Sentinel ErrLoopDetected]))
         else if re_err r \<noteq> [] then (ToolResult0, Some (new_error (re_err r)))
         else (ToolResult0\<lparr>tr_Output := re_output r, tr_CostUnits := re_cost r\<rparr>, None)))"

section \<open>The session of the copy\<close>

text \<open>One round of the loop over the messages: the copy of a message with a new ID, and the renaming.
  A snapshot's \<open>ThroughID\<close> is renamed with it, to nothing if that message is not copied.\<close>

definition keptMessage :: "Run \<Rightarrow> MessageProjection \<Rightarrow> bool" where
  "keptMessage r m \<longleftrightarrow> \<not> (mp_RunID m = ru_ID r \<or> \<not> mp_CreatedAt m < ru_StartedAt r)"

definition renamedContent :: "SnapshotCodec \<Rightarrow> (string \<Rightarrow> string) \<Rightarrow> MessageProjection \<Rightarrow> string" where
  "renamedContent C ids m =
    (if mp_Role m = snapshotRole
     then (case sc_decode C (mp_Content m) of
         None \<Rightarrow> mp_Content m
       | Some s \<Rightarrow> if sn_ThroughID s = [] then mp_Content m
           else sc_encode C (s\<lparr>sn_ThroughID := ids (sn_ThroughID s)\<rparr>))
     else mp_Content m)"

definition copiedMessage :: "SnapshotCodec \<Rightarrow> SessionID \<Rightarrow> (string \<Rightarrow> string) \<Rightarrow> MessageProjection \<Rightarrow> MessageProjection" where
  "copiedMessage C sid ids m = m\<lparr>mp_ID := ids (mp_ID m), mp_SessionID := sid, mp_EventID := [],
     mp_Content := renamedContent C ids m\<rparr>"

text \<open>\<open>newID\<close> are the identifiers made, \<open>n\<close> the next; an ID that was not copied is renamed to nothing.\<close>

fun copyMessages :: "SnapshotCodec \<Rightarrow> Run \<Rightarrow> SessionID \<Rightarrow> time \<Rightarrow> (nat \<Rightarrow> string) \<Rightarrow> nat
    \<Rightarrow> (string \<Rightarrow> string) \<Rightarrow> MessageProjection list \<Rightarrow> MemStore \<Rightarrow> MemStore" where
  "copyMessages C r sid now newID n ids [] store = store"
| "copyMessages C r sid now newID n ids (m # ms) store =
    (if \<not> keptMessage r m then copyMessages C r sid now newID n ids ms store
     else let ids1 = ids(mp_ID m := newID n)
          in copyMessages C r sid now newID (n + 1) ids1 ms
               (AddMessage store (copiedMessage C sid ids1 m) (newID n) now))"

definition copyHistory :: "SnapshotCodec \<Rightarrow> Run \<Rightarrow> SessionID \<Rightarrow> time \<Rightarrow> (nat \<Rightarrow> string) \<Rightarrow> MemStore
    \<Rightarrow> MemStore \<times> (goerr + SessionID)" where
  "copyHistory C r newSession now newID m =
    (case GetSession m (ru_TenantID r) (ru_SessionID r) of
       Inl e \<Rightarrow> (m, Inl e)
     | Inr orig \<Rightarrow>
        (case CreateSession m (Session0\<lparr>se_TenantID := ru_TenantID r, se_CreatedBy := se_CreatedBy orig,
                se_Title := ''re-execution of run '' @ ru_ID r\<rparr>) newSession now of
           (m1, sid) \<Rightarrow>
             (case ListMessages m1 (ru_TenantID r) (ru_SessionID r) of
                Inl e \<Rightarrow> (m1, Inl e)
              | Inr msgs \<Rightarrow> (copyMessages C r sid now newID 0 (\<lambda>_. []) msgs m1, Inr sid))))"

section \<open>The copy\<close>

text \<open>Every tool of a registry, registered with the executor that answers from the record.\<close>

fun replayTools :: "(json \<Rightarrow> goerr + 'sc) \<Rightarrow> (ToolDefinition \<Rightarrow> ToolID) \<Rightarrow> 'x \<Rightarrow> ToolDefinition list
    \<Rightarrow> ('x, 'sc) Registry \<Rightarrow> goerr + ('x, 'sc) Registry" where
  "replayTools compileSchema newID exec [] reg = Inr reg"
| "replayTools compileSchema newID exec (d # ds) reg =
    (case Register compileSchema (newID d) d (Some exec) reg of
       (_, Some e) \<Rightarrow> Inl e
     | (reg1, None) \<Rightarrow> replayTools compileSchema newID exec ds reg1)"

definition replayRegistry :: "(json \<Rightarrow> goerr + 'sc) \<Rightarrow> (ToolDefinition \<Rightarrow> ToolID) \<Rightarrow> 'x \<Rightarrow> ('x, 'sc) Registry
    \<Rightarrow> goerr + ('x, 'sc) Registry" where
  "replayRegistry compileSchema newID exec src = replayTools compileSchema newID exec (Registry_List src) NewRegistry"

text \<open>The agents of the copy: each with the provider that answers from the record.\<close>

definition replayAgents :: "'p \<Rightarrow> 'p AgentBook \<Rightarrow> 'p AgentBook" where
  "replayAgents p b = \<lparr>bk_Agents = mmap (\<lambda>a. a\<lparr>ag_Provider := p\<rparr>) (bk_Agents b), bk_Provider = Some p, bk_Model = bk_Model b\<rparr>"

text \<open>\<open>ReExecute\<close> up to the start of the copy: its input, and the record it answers from.\<close>

definition copyInput :: "('p, 're, 'sc) Tooling \<Rightarrow> MemStore \<Rightarrow> Run \<Rightarrow> PrincipalID
    \<Rightarrow> goerr + ('p, 're, 'sc) StartRunInput" where
  "copyInput T m r who =
    (case tl_decodeWorkflow T (ru_Workflow r) of
       Inl e \<Rightarrow> Inl (Errorf ''stored workflow: %w'' [e])
     | Inr w \<Rightarrow>
        (case (case ru_Input r of None \<Rightarrow> Inr [] | Some doc \<Rightarrow> tl_decodeInput T doc) of
           Inl e \<Rightarrow> Inl (Errorf ''stored input: %w'' [e])
         | Inr input \<Rightarrow> Inr
            \<lparr>si_TenantID = ru_TenantID r, si_PrincipalID = who, si_SessionID = [], si_IdempotencyKey = [],
             si_Workflow = w, si_Template = [], si_Input = input,
             si_Images = imagesOf (ListRunArtifacts m (ru_TenantID r) (ru_ID r)), si_Limits = ru_Limits r,
             si_history = [], si_parent = ru_ID r, si_agents = Map.empty, si_reuse = None, si_plan = None\<rparr>))"

record copying =
  cp_decoders :: Decoders
  cp_codec :: SnapshotCodec
  cp_session :: SessionID
  cp_now :: time
  cp_newID :: "nat \<Rightarrow> string"

definition ReExecute :: "('p, 're, 'sc) Tooling \<Rightarrow> copying \<Rightarrow> TenantID \<Rightarrow> RunID \<Rightarrow> PrincipalID \<Rightarrow> MemStore
    \<Rightarrow> MemStore \<times> (goerr + ('p, 're, 'sc) StartRunInput \<times> Replayer \<times> toolReplay)" where
  "ReExecute T w tenant rid who m =
    (case GetRun m tenant rid of
       Inl e \<Rightarrow> (m, Inl e)
     | Inr r \<Rightarrow>
        if \<not> Terminal (ru_Status r) then (m, Inl (Errorf ''run %s is %s: %w'' [Sentinel ErrConflict]))
        else (case recordedOutputs (cp_decoders w) (ListRunEvents m tenant rid 0 0) of
           Inl e \<Rightarrow> (m, Inl e)
         | Inr (Inl e, tools) \<Rightarrow> (m, Inl (new_error ''fixture''))
         | Inr (Inr replayer, tools) \<Rightarrow>
            (case copyInput T m r who of
               Inl e \<Rightarrow> (m, Inl e)
             | Inr i \<Rightarrow>
                (case copyHistory (cp_codec w) r (cp_session w) (cp_now w) (cp_newID w) m of
                   (m1, Inl e) \<Rightarrow> (m1, Inl e)
                 | (m1, Inr sid) \<Rightarrow> (m1, Inr (i\<lparr>si_SessionID := sid\<rparr>, replayer, tools))))))"

section \<open>What was recorded is what the copy's tools return\<close>

lemma field_names [simp]:
  "EqualFold ''tool'' ''input'' = False" "EqualFold ''input'' ''tool'' = False"
  "EqualFold ''tool'' ''output'' = False" "EqualFold ''tool'' ''error'' = False" "EqualFold ''tool'' ''fatal'' = False"
  "EqualFold ''tool'' ''cost_units'' = False" "EqualFold ''output'' ''error'' = False"
  "EqualFold ''output'' ''fatal'' = False" "EqualFold ''output'' ''cost_units'' = False"
  "EqualFold ''artifacts'' ''output'' = False" "EqualFold ''artifacts'' ''error'' = False"
  "EqualFold ''artifacts'' ''fatal'' = False" "EqualFold ''artifacts'' ''cost_units'' = False"
  "EqualFold ''cost_units'' ''output'' = False" "EqualFold ''cost_units'' ''error'' = False"
  "EqualFold ''cost_units'' ''fatal'' = False"
  "EqualFold ''error'' ''output'' = False" "EqualFold ''error'' ''fatal'' = False" "EqualFold ''error'' ''cost_units'' = False"
  "EqualFold ''fatal'' ''output'' = False" "EqualFold ''fatal'' ''error'' = False" "EqualFold ''fatal'' ''cost_units'' = False"
  by code_simp+

text \<open>How a call ends, as its event records it.\<close>

datatype callEnd = Succeeded ToolResult "string list" int | Failed string string bool

fun endDoc :: "Call \<Rightarrow> callEnd \<Rightarrow> json" where
  "endDoc call (Succeeded res arts cost) = completedDoc call res arts cost"
| "endDoc call (Failed msg code fatal) = failedPayload (td_Name (cl_Tool call)) msg code fatal"

text \<open>The events of tool calls in a run's log, among others.\<close>

datatype 'x logEntry = Scheduled "'x plannedTool" | Ended "'x plannedTool" callEnd | Other Event

fun entryEvent :: "CallScope \<Rightarrow> 'x logEntry \<Rightarrow> Event" where
  "entryEvent c (Scheduled p) = scheduledEvent c p"
| "entryEvent c (Ended p e) = callEvent c (cl_StepID (pl_call p)) EvToolCompleted VisibilityInternal (endDoc (pl_call p) e)"
| "entryEvent c (Other ev) = ev"

definition planKey :: "Decoders \<Rightarrow> 'x plannedTool \<Rightarrow> string" where
  "planKey D p = toolKey (dc_compact D) (td_Name (cl_Tool (pl_call p))) (Some (rawDoc (tc_Input (pl_tc p))))"

text \<open>What a copy's call gets for a recorded end. A missing output comes back as null.\<close>

fun replayed :: "callEnd \<Rightarrow> toolResult" where
  "replayed (Succeeded res arts cost) = \<lparr>re_output = Some (rawDoc (tr_Output res)), re_err = [], re_fatal = [],
     re_cost = max cost 0\<rparr>"
| "replayed (Failed msg code fatal) = \<lparr>re_output = None, re_err = msg, re_fatal = (if fatal then code else []), re_cost = 0\<rparr>"

fun validEnd :: "callEnd \<Rightarrow> bool" where
  "validEnd (Succeeded res arts cost) \<longleftrightarrow> validDoc (rawDoc (tr_Output res))"
| "validEnd (Failed msg code fatal) \<longleftrightarrow> True"

lemma validDoc_texts: "list_all validDoc (map JStr xs)"
  by (simp add: list_all_iff)

lemma endDoc_decoded:
  assumes "validEnd e"
  shows "completedCall (Some (mustJSON (endDoc call e))) = replayed e \<and>
    decodes [''error'', ''fatal''] [''cost_units''] (Some (mustJSON (endDoc call e)))"
  using assms
  by (cases e) (auto simp: completedDoc_def failedPayload_def mustJSON_def completedCall_def rawField_def
      textField_def intField_def members_def decodes_def validDoc_texts max_def)

lemma scheduled_decoded:
  assumes "validDoc (rawDoc (tc_Input (pl_tc p)))"
  shows "decodes [''tool''] [] (ev_Payload (scheduledEvent c p)) \<and>
    textField ''tool'' (ev_Payload (scheduledEvent c p)) = td_Name (cl_Tool (pl_call p)) \<and>
    rawField ''input'' (ev_Payload (scheduledEvent c p)) = Some (rawDoc (tc_Input (pl_tc p)))"
  using assms
  by (simp add: scheduledEvent_def callEvent_def mustJSON_def rawField_def textField_def members_def decodes_def)

text \<open>A log is in order: each call ends after it was scheduled, and a step is one call's.\<close>

fun loggedFrom :: "(StepID \<rightharpoonup> 'x plannedTool) \<Rightarrow> 'x logEntry list \<Rightarrow> bool" where
  "loggedFrom m [] \<longleftrightarrow> True"
| "loggedFrom m (Scheduled p # es) \<longleftrightarrow> validDoc (rawDoc (tc_Input (pl_tc p))) \<and>
     loggedFrom (m(cl_StepID (pl_call p) \<mapsto> p)) es"
| "loggedFrom m (Ended p e # es) \<longleftrightarrow> m (cl_StepID (pl_call p)) = Some p \<and> validEnd e \<and> loggedFrom m es"
| "loggedFrom m (Other ev # es) \<longleftrightarrow>
     ev_Type ev \<notin> {EvModelStarted, EvModelCompleted, EvToolScheduled, EvToolCompleted} \<and> loggedFrom m es"

fun endsOf :: "Decoders \<Rightarrow> string \<Rightarrow> 'x logEntry list \<Rightarrow> callEnd list" where
  "endsOf D key [] = []"
| "endsOf D key (Ended p e # es) = (if planKey D p = key then [e] else []) @ endsOf D key es"
| "endsOf D key (_ # es) = endsOf D key es"

lemma recordEvents_log:
  assumes "loggedFrom m es" and "rd_inputs rd = map_option (planKey D) \<circ> m"
  shows "\<exists>rd'. recordEvents D (map (entryEvent c) es) rd = Inr rd' \<and>
    rd_tools rd' = (\<lambda>key. rd_tools rd key @ map replayed (endsOf D key es)) \<and> rd_exchanges rd' = rd_exchanges rd"
  using assms
proof (induction es arbitrary: m rd)
  case (Cons x es)
  show ?case
  proof (cases x)
    case (Scheduled p)
    let ?rd = "rd\<lparr>rd_inputs := (rd_inputs rd)(cl_StepID (pl_call p) \<mapsto> planKey D p)\<rparr>"
    from Cons.prems Scheduled have ok: "validDoc (rawDoc (tc_Input (pl_tc p)))" "loggedFrom (m(cl_StepID (pl_call p) \<mapsto> p)) es"
      by simp_all
    have "recordEvent D (scheduledEvent c p) rd = Inr ?rd"
      using scheduled_decoded [OF ok(1), of c] by (simp add: recordEvent_def planKey_def) (simp add: scheduledEvent_def callEvent_def Event0_def)
    moreover have "rd_inputs ?rd = map_option (planKey D) \<circ> m(cl_StepID (pl_call p) \<mapsto> p)"
      using Cons.prems(2) by (auto simp: fun_eq_iff)
    from Cons.IH [OF ok(2) this] have "\<exists>rd'. recordEvents D (map (entryEvent c) es) ?rd = Inr rd' \<and>
        rd_tools rd' = (\<lambda>key. rd_tools rd key @ map replayed (endsOf D key es)) \<and> rd_exchanges rd' = rd_exchanges rd" by simp
    ultimately show ?thesis using Scheduled by simp
  next
    case (Ended p e)
    let ?rd = "rd\<lparr>rd_tools := (rd_tools rd)(planKey D p := rd_tools rd (planKey D p) @ [replayed e])\<rparr>"
    from Cons.prems Ended have ok: "m (cl_StepID (pl_call p)) = Some p" "validEnd e" "loggedFrom m es" by simp_all
    have "recordEvent D (entryEvent c x) rd = Inr ?rd"
      using endDoc_decoded [OF ok(2), of "pl_call p"] ok(1) Cons.prems(2) Ended
      by (simp add: recordEvent_def callEvent_def Event0_def)
    moreover have "rd_inputs ?rd = map_option (planKey D) \<circ> m" using Cons.prems(2) by (simp add: comp_def)
    ultimately show ?thesis using Cons.IH [OF ok(3), of ?rd] Ended by (auto simp: fun_eq_iff)
  next
    case (Other ev)
    with Cons.prems have "recordEvent D ev rd = Inr rd" "loggedFrom m es" by (auto simp: recordEvent_def)
    with Cons.IH [OF this(2) Cons.prems(2)] Other show ?thesis by simp
  qed
qed simp

text \<open>The results of a copy's calls, one after the other.\<close>

fun executeAll :: "(raw \<Rightarrow> string) \<Rightarrow> Call list \<Rightarrow> toolReplay \<Rightarrow> (ToolResult \<times> goerr option) list" where
  "executeAll squeeze [] t = []"
| "executeAll squeeze (c # cs) t =
    (case toolReplay_Execute squeeze c t of (t1, r) \<Rightarrow> r # executeAll squeeze cs t1)"

definition callKey :: "(raw \<Rightarrow> string) \<Rightarrow> Call \<Rightarrow> string" where
  "callKey squeeze c = toolKey squeeze (td_Name (cl_Tool c)) (cl_Input c)"

definition toldResult :: "toolResult \<Rightarrow> ToolResult \<times> goerr option" where
  "toldResult r =
    (if re_fatal r = ''budget_exceeded'' then (ToolResult0, Some (Errorf (''%w: '' @ re_err r) [Sentinel ErrBudgetExceeded]))
     else if re_fatal r = ''loop_detected'' \<or> re_fatal r = ''paused''
     then (ToolResult0, Some (Errorf (''%w: '' @ re_err r) [Sentinel ErrLoopDetected]))
     else if re_err r \<noteq> [] then (ToolResult0, Some (new_error (re_err r)))
     else (ToolResult0\<lparr>tr_Output := re_output r, tr_CostUnits := re_cost r\<rparr>, None))"

lemma executeAll_nth:
  assumes "j < length cs" and "k = length (filter (\<lambda>c. callKey squeeze c = callKey squeeze (cs ! j)) (take j cs))"
    and "k < length (t (callKey squeeze (cs ! j)))"
  shows "executeAll squeeze cs t ! j = toldResult (t (callKey squeeze (cs ! j)) ! k)"
  using assms
proof (induction cs arbitrary: j t k)
  case (Cons c cs)
  let ?key = "callKey squeeze c"
  show ?case
  proof (cases j)
    case 0
    with Cons.prems obtain r q where "t ?key = r # q" by (cases "t ?key") auto
    with 0 Cons.prems show ?thesis
      by (simp add: toolReplay_Execute_def toldResult_def Let_def callKey_def [symmetric])
  next
    case (Suc i)
    let ?j = "callKey squeeze (cs ! i)"
    obtain t1 r where e: "toolReplay_Execute squeeze c t = (t1, r)"
      by (cases "toolReplay_Execute squeeze c t") (rule that)
    then have t1: "t1 = t(?key := tl (t ?key))"
      by (auto simp: toolReplay_Execute_def Let_def callKey_def [symmetric] split: list.splits)
    have k: "k = (if ?key = ?j then 1 else 0) + length (filter (\<lambda>c. callKey squeeze c = ?j) (take i cs))"
      using Cons.prems(2) Suc by simp
    let ?k = "length (filter (\<lambda>c. callKey squeeze c = ?j) (take i cs))"
    have "?k < length (t1 ?j)" "t1 ?j ! ?k = t ?j ! k"
      using Cons.prems(3) k Suc by (auto simp: t1 nth_tl)
    with Cons.IH [of i ?k t1] Cons.prems(1) Suc e show ?thesis by simp
  qed
qed simp


definition demoDecoders :: Decoders where
  "demoDecoders = \<lparr>dc_compact = (\<lambda>r. case r of Some (JStr s) \<Rightarrow> s | _ \<Rightarrow> []), dc_request = (\<lambda>_. None), dc_response = (\<lambda>_. None)\<rparr>"

definition buildCall :: "StepID \<Rightarrow> Call" where
  "buildCall s = \<lparr>cl_TenantID = [], cl_RunID = ''r'', cl_TaskID = ''k'', cl_StepID = s,
     cl_Tool = ToolDefinition0\<lparr>td_Name := ''build''\<rparr>, cl_Input = Some (JStr ''all''), cl_IdempotencyKey = []\<rparr>"

definition buildPlan :: "StepID \<Rightarrow> nat plannedTool" where
  "buildPlan s = plannedTool0 \<lparr>tc_ID = s, tc_Name = ''build'', tc_Input = Some (JStr ''all'')\<rparr> (buildCall s)"

text \<open>Two calls of one tool with one input: the second of them ended first, with an error.\<close>

definition buildLog :: "nat logEntry list" where
  "buildLog = [Scheduled (buildPlan ''s1''), Scheduled (buildPlan ''s2''),
     Ended (buildPlan ''s2'') (Failed ''disk full'' ''tool_failed'' False),
     Ended (buildPlan ''s1'') (Succeeded (ToolResult0\<lparr>tr_Output := Some (JStr ''ok'')\<rparr>) [] 3)]"

definition buildScope :: CallScope where
  "buildScope = \<lparr>cx_Tenant = [], cx_Session = ''s'', cx_Run = ''r'', cx_Task = ''k''\<rparr>"


end
