(* ===== verification/EnvRefs.thy ===== *)
theory EnvRefs
  imports Prelude
begin

text \<open>
  Environment references in a configuration file (\<open>runtime/config.go\<close>, \<open>ExpandEnv\<close>): the matches of
  the regular expression from left to right, each replaced. The lemmas relate the expansion to
  templates: texts, written so that they stay as they are, with references between them.
\<close>

section \<open>Expansion\<close>

abbreviation "dollar \<equiv> CHR ''$''"
abbreviation "openBrace \<equiv> CHR 0x7B"
abbreviation "closeBrace \<equiv> CHR 0x7D"

definition nameStart :: "char \<Rightarrow> bool" where
  "nameStart c \<longleftrightarrow> (CHR ''A'' \<le> c \<and> c \<le> CHR ''Z'') \<or> (CHR ''a'' \<le> c \<and> c \<le> CHR ''z'') \<or> c = CHR ''_''"

definition nameChar :: "char \<Rightarrow> bool" where
  "nameChar c \<longleftrightarrow> nameStart c \<or> (CHR ''0'' \<le> c \<and> c \<le> CHR ''9'')"

text \<open>A name and the brace that ends it; what follows them.\<close>

definition refName :: "string \<Rightarrow> (string \<times> string) option" where
  "refName s =
    (case (takeWhile nameChar s, dropWhile nameChar s) of
       (c # cs, d # rest) \<Rightarrow> if nameStart c \<and> d = closeBrace then Some (c # cs, rest) else None
     | _ \<Rightarrow> None)"

text \<open>A match of the expression at the start of a text: whether it has the second \<open>$\<close>, the name, and
  what follows.\<close>

fun matchRef :: "string \<Rightarrow> (bool \<times> string \<times> string) option" where
  "matchRef (a # b # c # s) =
    (if a \<noteq> dollar then None
     else if b = openBrace then map_option (\<lambda>(n, rest). (False, n, rest)) (refName (c # s))
     else if b = dollar \<and> c = openBrace then map_option (\<lambda>(n, rest). (True, n, rest)) (refName s)
     else None)"
| "matchRef _ = None"

lemma refName_shorter: "refName s = Some (n, rest) \<Longrightarrow> length rest < length s"
proof -
  assume a: "refName s = Some (n, rest)"
  have "length (dropWhile nameChar s) \<le> length s" by (rule length_dropWhile_le)
  with a show ?thesis by (auto simp: refName_def split: list.splits if_splits)
qed

lemma matchRef_shorter: "matchRef s = Some (esc, n, rest) \<Longrightarrow> length rest < length s"
  by (induction s rule: matchRef.induct) (auto split: if_splits dest!: refName_shorter)

text \<open>\<open>ReplaceAllFunc\<close>: the text, and the names that are not set.\<close>

function expand :: "(string \<rightharpoonup> string) \<Rightarrow> string \<Rightarrow> string \<times> string list" where
  "expand env [] = ([], [])"
| "expand env (c # cs) =
    (case matchRef (c # cs) of
       None \<Rightarrow> (case expand env cs of (out, missing) \<Rightarrow> (c # out, missing))
     | Some (esc, name, rest) \<Rightarrow>
        (case expand env rest of
           (out, missing) \<Rightarrow>
             if esc then (dollar # openBrace # name @ closeBrace # out, missing)
             else case env name of
                 None \<Rightarrow> (out, name # missing)
               | Some val \<Rightarrow> (val @ out, missing)))"
  by pat_completeness auto
termination
  by (relation "measure (\<lambda>(_, s). length s)") (auto dest!: matchRef_shorter)

lemma expand_escaped:
  assumes "matchRef s = Some (True, n, rest)"
  shows "expand env s = (dollar # openBrace # n @ closeBrace # fst (expand env rest), snd (expand env rest))"
  using assms by (cases s) (auto split: prod.splits)

definition ExpandEnv :: "(string \<rightharpoonup> string) \<Rightarrow> string \<Rightarrow> goerr + string" where
  "ExpandEnv env data =
    (case expand env data of
       (out, missing) \<Rightarrow>
         if missing \<noteq> [] then Inl (new_error ''config uses unset environment variables %v'') else Inr out)"

section \<open>Templates\<close>

definition validName :: "string \<Rightarrow> bool" where
  "validName n \<longleftrightarrow> n \<noteq> [] \<and> nameStart (hd n) \<and> list_all nameChar n"

definition plainRef :: "string \<Rightarrow> bool" where
  "plainRef s \<longleftrightarrow> (\<exists>n rest. matchRef s = Some (False, n, rest))"

text \<open>A text as it is written to stay as it is: a \<open>$\<close> before what reads as a reference.\<close>

fun literally :: "string \<Rightarrow> string" where
  "literally [] = []"
| "literally (c # cs) = (if plainRef (c # cs) then [dollar] else []) @ c # literally cs"

definition reference :: "string \<Rightarrow> string" where
  "reference n = dollar # openBrace # n @ [closeBrace]"

text \<open>A template: texts, each before a reference, and the text after the last; what is written, and
  what it says in an environment.\<close>

fun written :: "(string \<times> string) list \<Rightarrow> string \<Rightarrow> string" where
  "written [] t = literally t"
| "written ((s, n) # ps) t = literally s @ reference n @ written ps t"

fun filled :: "(string \<rightharpoonup> string) \<Rightarrow> (string \<times> string) list \<Rightarrow> string \<Rightarrow> string" where
  "filled env [] t = t"
| "filled env ((s, n) # ps) t = s @ (case env n of None \<Rightarrow> [] | Some v \<Rightarrow> v) @ filled env ps t"

lemma nameChar_dollar [simp]: "\<not> nameChar dollar" "\<not> nameChar closeBrace" "\<not> nameChar openBrace"
  by code_simp+

lemma refName_name: "validName n \<Longrightarrow> refName (n @ closeBrace # s) = Some (n, s)"
  unfolding refName_def validName_def by (cases n) (auto simp: list_all_iff takeWhile_append dropWhile_append)

lemma refName_Some:
  assumes "refName s = Some (n, rest)"
  shows "s = n @ closeBrace # rest \<and> validName n"
proof -
  from assms have n: "takeWhile nameChar s = n" "dropWhile nameChar s = closeBrace # rest" "n \<noteq> []" "nameStart (hd n)"
    by (cases "takeWhile nameChar s"; cases "dropWhile nameChar s"; auto simp: refName_def split: if_splits)+
  have "list_all nameChar (takeWhile nameChar s)" by (auto simp: list_all_iff dest: set_takeWhileD)
  moreover have "s = takeWhile nameChar s @ dropWhile nameChar s" by simp
  ultimately show ?thesis using n by (simp add: validName_def)
qed

lemma plainRef_iff: "plainRef s \<longleftrightarrow> (\<exists>n rest. s = dollar # openBrace # n @ closeBrace # rest \<and> validName n)"
proof
  assume "plainRef s"
  then obtain n rest where m: "matchRef s = Some (False, n, rest)" by (auto simp: plainRef_def)
  then obtain a b c u where s: "s = a # b # c # u" by (cases s rule: matchRef.cases) auto
  with m have "a = dollar" "b = openBrace" "refName (c # u) = Some (n, rest)" by (auto split: if_splits)
  with refName_Some s show "\<exists>n rest. s = dollar # openBrace # n @ closeBrace # rest \<and> validName n" by metis
next
  assume "\<exists>n rest. s = dollar # openBrace # n @ closeBrace # rest \<and> validName n"
  then obtain n rest where s: "s = dollar # openBrace # n @ closeBrace # rest" "validName n" by blast
  then obtain c cs where n: "n @ closeBrace # rest = c # cs" by (cases n) auto
  from refName_name [OF s(2), of rest] show "plainRef s" unfolding plainRef_def s(1) n by simp
qed

lemma literally_name: "list_all nameChar n \<Longrightarrow> literally (n @ s) = n @ literally s"
  by (induction n) (auto simp: plainRef_iff)

lemma literally_refName:
  assumes "refName r = None" and "s = [] \<or> (\<exists>u. s = dollar # u)"
  shows "refName (literally r @ s) = None"
proof (rule ccontr)
  assume "refName (literally r @ s) \<noteq> None"
  then obtain n rest where "refName (literally r @ s) = Some (n, rest)" by auto
  then have n: "literally r @ s = n @ closeBrace # rest" "validName n" by (auto dest: refName_Some)
  let ?m = "takeWhile nameChar r" and ?d = "dropWhile nameChar r"
  have all: "list_all nameChar ?m" by (auto simp: list_all_iff dest: set_takeWhileD)
  have r: "literally r = ?m @ literally ?d" using literally_name [OF all, of ?d] by simp
  have head: "literally ?d @ s = [] \<or> (\<exists>c u. literally ?d @ s = c # u \<and> \<not> nameChar c \<and> (c = closeBrace \<longrightarrow> ?d \<noteq> [] \<and> hd ?d = closeBrace))"
  proof (cases ?d)
    case Nil
    from assms(2) have "s = [] \<or> (\<exists>c u. s = c # u \<and> \<not> nameChar c \<and> c \<noteq> closeBrace)" by fastforce
    then show ?thesis unfolding Nil literally.simps append_Nil by blast
  next
    case (Cons c u)
    then have "\<not> nameChar c" using hd_dropWhile [of nameChar r] by auto
    then show ?thesis by (auto simp: Cons plainRef_iff)
  qed
  have names: "list_all nameChar n" using n(2) by (simp add: validName_def)
  from n(1) r have eq: "?m @ literally ?d @ s = n @ closeBrace # rest" by simp
  have "takeWhile nameChar (literally ?d @ s) = []"
  proof (cases "literally ?d @ s")
    case (Cons c u)
    with head have "\<not> nameChar c" by (metis list.discI list.inject)
    then show ?thesis unfolding Cons by simp
  qed simp
  then have "takeWhile nameChar (?m @ literally ?d @ s) = ?m"
    using all by (simp add: list_all_iff takeWhile_append2)
  moreover have "takeWhile nameChar (n @ closeBrace # rest) = n" using names by (auto simp: list_all_iff takeWhile_append)
  ultimately have "?m = n" using eq by simp
  with eq head have "?d \<noteq> []" "hd ?d = closeBrace" by auto
  then have "r = n @ closeBrace # tl ?d" using takeWhile_dropWhile_id [of nameChar r] \<open>?m = n\<close> by (metis list.collapse)
  with refName_name [OF n(2), of "tl ?d"] assms(1) show False by simp
qed

text \<open>A text before the end or a reference expands to itself, unless its last \<open>$\<close> joins the reference.\<close>

lemma expand_literally:
  assumes "s = [] \<or> ((\<exists>u. s = dollar # openBrace # u) \<and> (t = [] \<or> last t \<noteq> dollar))"
  shows "expand env (literally t @ s) = (t @ fst (expand env s), snd (expand env s))"
  using assms
proof (induction t rule: length_induct)
  case (1 t)
  have s: "s = [] \<or> (\<exists>u. s = dollar # u)" using 1(2) by auto
  show ?case
  proof (cases t)
    case (Cons c cs)
    show ?thesis
    proof (cases "plainRef t")
      case True
      then obtain n rest where t: "t = dollar # openBrace # n @ closeBrace # rest" "validName n" by (auto simp: plainRef_iff)
      then have name: "list_all nameChar n" by (simp add: validName_def)
      have "literally t = dollar # dollar # openBrace # n @ closeBrace # literally rest"
        using True literally_name [OF name] by (simp add: t(1) plainRef_iff)
      then have m: "matchRef (literally t @ s) = Some (True, n, literally rest @ s)"
        using refName_name [OF t(2), of "literally rest @ s"] by simp
      have ih: "expand env (literally rest @ s) = (rest @ fst (expand env s), snd (expand env s))"
        using 1 t by (auto simp: last_append split: if_splits)
      from expand_escaped [OF m, of env] ih show ?thesis
        unfolding t(1) by (simp only: fst_conv snd_conv append_Cons append_assoc)
    next
      case False
      have lit: "literally t = c # literally cs" using False Cons by simp
      have "matchRef (c # literally cs @ s) = None"
      proof (rule ccontr)
        assume "matchRef (c # literally cs @ s) \<noteq> None"
        then obtain e n rest where m: "matchRef (c # literally cs @ s) = Some (e, n, rest)" by auto
        then have c: "c = dollar" by (cases "c # literally cs @ s" rule: matchRef.cases) (auto split: if_splits)
        have ne: "cs \<noteq> []"
        proof
          assume "cs = []"
          with 1(2) Cons c have "s = []" by auto
          with m \<open>cs = []\<close> show False by simp
        qed
        then obtain d ds where cs: "cs = d # ds" by (cases cs) auto
        have no: "refName r = None" if "c # cs = dollar # openBrace # r" for r
          using False that refName_Some [of r] unfolding Cons plainRef_iff by (cases "refName r") auto
        show False
        proof (cases "plainRef cs")
          case True
          with m cs c show False by (auto simp: plainRef_iff)
        next
          case False
          then have m2: "matchRef (dollar # d # literally ds @ s) = Some (e, n, rest)" using m c cs by simp
          show False
          proof (cases "d = openBrace")
            case True
            with m2 have "refName (literally ds @ s) \<noteq> None" by (cases "literally ds @ s") auto
            with literally_refName [OF no s, of ds] c cs True show False by simp
          next
            case other: False
            with m2 obtain u where u: "d = dollar" "literally ds @ s = openBrace # u" "refName u \<noteq> None"
              by (cases "literally ds @ s") (auto split: if_splits)
            show False
            proof (cases ds)
              case Nil
              with 1(2) Cons cs u(1) have "s = []" by auto
              with u(2) Nil show False by simp
            next
              case (Cons x xs)
              then have x: "x = openBrace" "u = literally xs @ s" using u(2) by (auto simp: plainRef_iff split: if_splits)
              have "refName xs = None"
                using False refName_Some [of xs] unfolding cs Cons x(1) u(1) plainRef_iff by (cases "refName xs") auto
              from literally_refName [OF this s] u(3) x(2) show False by simp
            qed
          qed
        qed
      qed
      moreover have "expand env (literally cs @ s) = (cs @ fst (expand env s), snd (expand env s))"
        using 1 Cons by (auto split: if_splits)
      ultimately show ?thesis unfolding lit unfolding Cons by simp
    qed
  qed simp
qed

lemma expand_reference:
  assumes "validName n"
  shows "expand env (reference n @ s) =
    (case env n of None \<Rightarrow> (fst (expand env s), n # snd (expand env s))
     | Some v \<Rightarrow> (v @ fst (expand env s), snd (expand env s)))"
proof -
  from assms obtain c cs where n: "n @ closeBrace # s = c # cs" by (cases n) (auto simp: validName_def)
  have "matchRef (reference n @ s) = Some (False, n, s)"
    using refName_name [OF assms, of s] unfolding reference_def n [symmetric] by (simp add: n)
  then show ?thesis by (simp add: reference_def split: prod.splits option.splits)
qed

lemma expand_written:
  assumes "\<forall>(s, n) \<in> set ps. validName n \<and> (s = [] \<or> last s \<noteq> dollar)"
  shows "expand env (written ps t) = (filled env ps t, filter (\<lambda>n. env n = None) (map snd ps))"
  using assms
proof (induction ps)
  case Nil
  then show ?case using expand_literally [of "[]" t env] by simp
next
  case (Cons p ps)
  obtain s n where p: "p = (s, n)" by (cases p)
  then have "expand env (literally s @ reference n @ written ps t) =
      (s @ fst (expand env (reference n @ written ps t)), snd (expand env (reference n @ written ps t)))"
    using Cons.prems by (intro expand_literally) (auto simp: reference_def)
  with Cons p show ?case by (auto simp: expand_reference split: option.splits)
qed

text \<open>C33: \<open>ExpandEnv\<close> reads back what was written: a template of texts, in which what looks like a
  reference has a \<open>$\<close> in front, with references between them, expands to the texts as they were with
  the values of the variables as they are, never expanded again; it fails exactly if a variable is
  not set. A text before a reference must not end in \<open>$\<close>, which would make that reference literal.\<close>

theorem ExpandEnv_reads_back:
  assumes "\<forall>(s, n) \<in> set ps. validName n \<and> (s = [] \<or> last s \<noteq> dollar)"
  shows "ExpandEnv env (written ps t) =
    (if \<exists>p \<in> set ps. env (snd p) = None then Inl (new_error ''config uses unset environment variables %v'')
     else Inr (filled env ps t))"
  using expand_written [OF assms, of env t] by (auto simp: ExpandEnv_def filter_empty_conv)

theorem ExpandEnv_reads_back_witness:
  "ExpandEnv [''KEY'' \<mapsto> ''${HOME}''] (written [(''key=${X}&'', ''KEY'')] ''$'') = Inr ''key=${X}&${HOME}$''"
proof -
  have "\<forall>(s, n) \<in> set [(''key=${X}&'', ''KEY'')]. validName n \<and> (s = [] \<or> last s \<noteq> dollar)" by code_simp
  from ExpandEnv_reads_back [OF this, of "[''KEY'' \<mapsto> ''${HOME}'']" "''$''"] show ?thesis by simp
qed

end
