(* ===== verification/Config.thy ===== *)
theory Config
  imports RunStart Compaction LoopResponse LoopDetection Retention EnvRefs
begin

text \<open>
  Configuration (\<open>runtime/config.go\<close>, \<open>runtime/retention.go\<close> and, of \<open>runtime/orchestrator.go\<close> and
  \<open>cmd/agent-loop/main.go\<close>, how an orchestrator is made from a file): the configuration's records,
  \<open>Validate\<close>, \<open>Apply\<close>, the defaults of \<open>NewOrchestrator\<close>, and \<open>Purge\<close>. Decoding JSON into a
  configuration is an argument. The lemmas say that what passes \<open>Validate\<close> makes an orchestrator
  whose settings are all in range and whose templates every tenant's runs can compile.
\<close>

section \<open>Records\<close>

record LimitsConfig =
  lc_Default :: Limits
  lc_Max :: Limits

record ConcurrencyConfig =
  cc_MaxActiveRuns :: "int option"
  cc_MaxQueuedRuns :: "int option"
  cc_PerTenant :: int
  cc_PerWorkflow :: int
  cc_PerAgent :: int
  cc_PerTool :: int

record ConcurrencyLimits =
  cl_PerTenant :: int
  cl_PerWorkflow :: int
  cl_PerAgent :: int
  cl_PerTool :: int

record Retention =
  rn_Sessions :: duration
  rn_Memories :: duration

text \<open>Pointers and maps that may be nil are options.\<close>

record 'p Config =
  cf_Agents :: "'p Agent list"
  cf_Workflows :: "Workflow list"
  cf_Compaction :: "CompactionConfig option"
  cf_ToolPolicy :: "ToolPolicy option"
  cf_TenantToolPolicies :: "(TenantID, ToolPolicy) gomap option"
  cf_LoopResponse :: LoopResponse
  cf_ApproveAbove :: "Usage option"
  cf_MaxArtifactBytes :: "int option"
  cf_Limits :: "LimitsConfig option"
  cf_Concurrency :: "ConcurrencyConfig option"
  cf_ApprovalTimeout :: "duration option"
  cf_IdleWarnAfter :: "duration option"
  cf_MaxHistoryMessages :: "int option"
  cf_ToolRetry :: "RetryPolicy option"
  cf_Retention :: "Retention option"

text \<open>The orchestrator with the settings its other theories take as arguments.\<close>

record 'p Settings = "'p Orch" +
  st_Policy :: ToolPolicy
  st_TenantPolicies :: "(TenantID, ToolPolicy) gomap"
  st_ApprovalTimeout :: duration
  st_Concurrency :: ConcurrencyLimits
  st_MaxHistoryMessages :: int
  st_Compaction :: CompactionConfig
  st_IdleWarnAfter :: duration
  st_Retention :: Retention
  st_LoopResponse :: LoopResponse
  st_ApproveAbove :: Usage
  st_ToolRetry :: RetryPolicy

section \<open>A new orchestrator\<close>

abbreviation seconds :: duration where "seconds \<equiv> 1000000000"

definition NewOrchestrator :: "MemStore \<Rightarrow> string \<Rightarrow> 'p Agent list \<Rightarrow> 'p Settings" where
  "NewOrchestrator store owner agents = \<lparr>
     o_Store = store,
     o_Book = \<lparr>bk_Agents = configuredAgents agents, bk_Provider = None, bk_Model = []\<rparr>,
     o_Workflows = Map.empty,
     o_MaxLimits = \<lparr>MaxDepth = 8, MaxSubAgents = 64, MaxConcurrent = 16, MaxToolCalls = 256, MaxModelCalls = 256,
       MaxRuntime = 3600 * seconds, MaxPromptTokens = 4000000, MaxCompletionTokens = 1000000, MaxCostUnits = 0\<rparr>,
     o_DefaultLimits = Limits0, o_Owner = owner, o_Lease = 30 * seconds,
     o_MaxActiveRuns = 64, o_MaxQueuedRuns = 256, o_MaxArtifactBytes = 10 * 2 ^ 20,
     o_Budget = NewBudgetManager, o_LoopDet = NewLoopDetector 5,
     o_runs = Map.empty, o_inflight = 0, o_closing = False, o_capacity = 0, o_slots = None,
     st_Policy = ToolPolicy0, st_TenantPolicies = [], st_ApprovalTimeout = 15 * 60 * seconds,
     st_Concurrency = \<lparr>cl_PerTenant = 0, cl_PerWorkflow = 0, cl_PerAgent = 0, cl_PerTool = 0\<rparr>,
     st_MaxHistoryMessages = 50,
     st_Compaction = \<lparr>co_Agent = [], co_MaxMessages = 0, co_MaxTokens = 0, co_KeepRecent = 0, co_TaskMaxTokens = 0\<rparr>,
     st_IdleWarnAfter = 2 * 60 * seconds, st_Retention = \<lparr>rn_Sessions = 0, rn_Memories = 0\<rparr>,
     st_LoopResponse = [], st_ApproveAbove = Usage0,
     st_ToolRetry = \<lparr>rp_MaxAttempts = 3, rp_Backoff = 200000000\<rparr>\<rparr>"

section \<open>Applying a configuration\<close>

text \<open>\<open>cmp.Or\<close> on integers, and a pointer's value if it is set.\<close>

definition cmpOr :: "int \<Rightarrow> int \<Rightarrow> int" where
  "cmpOr a b = (if a \<noteq> 0 then a else b)"

definition givenOr :: "'a option \<Rightarrow> 'a \<Rightarrow> 'a" where
  "givenOr v d = (case v of None \<Rightarrow> d | Some x \<Rightarrow> x)"

definition applyLimits :: "LimitsConfig option \<Rightarrow> 'p Settings \<Rightarrow> 'p Settings" where
  "applyLimits l o1 =
    (case l of
       None \<Rightarrow> o1
     | Some c \<Rightarrow> o1\<lparr>o_DefaultLimits := Fill (lc_Default c) (o_DefaultLimits o1),
                    o_MaxLimits := Fill (lc_Max c) (o_MaxLimits o1)\<rparr>)"

definition applyConcurrency :: "ConcurrencyConfig option \<Rightarrow> 'p Settings \<Rightarrow> 'p Settings" where
  "applyConcurrency cc o1 =
    (case cc of
       None \<Rightarrow> o1
     | Some p \<Rightarrow>
         o1\<lparr>o_MaxActiveRuns := givenOr (cc_MaxActiveRuns p) (o_MaxActiveRuns o1),
            o_MaxQueuedRuns := givenOr (cc_MaxQueuedRuns p) (o_MaxQueuedRuns o1),
            st_Concurrency := \<lparr>
              cl_PerTenant = cmpOr (cc_PerTenant p) (cl_PerTenant (st_Concurrency o1)),
              cl_PerWorkflow = cmpOr (cc_PerWorkflow p) (cl_PerWorkflow (st_Concurrency o1)),
              cl_PerAgent = cmpOr (cc_PerAgent p) (cl_PerAgent (st_Concurrency o1)),
              cl_PerTool = cmpOr (cc_PerTool p) (cl_PerTool (st_Concurrency o1))\<rparr>\<rparr>)"

definition Apply :: "'p Config \<Rightarrow> 'p Settings \<Rightarrow> 'p Settings" where
  "Apply c o1 =
    (let o2 = o1\<lparr>o_Workflows := foldl (\<lambda>ws wf. ws(wf_Name wf \<mapsto> wf)) (o_Workflows o1) (cf_Workflows c),
                 st_Compaction := givenOr (cf_Compaction c) (st_Compaction o1),
                 st_Policy := givenOr (cf_ToolPolicy c) (st_Policy o1),
                 st_TenantPolicies := givenOr (cf_TenantToolPolicies c) (st_TenantPolicies o1),
                 st_LoopResponse := cf_LoopResponse c,
                 st_ApproveAbove := givenOr (cf_ApproveAbove c) (st_ApproveAbove o1),
                 o_MaxArtifactBytes := givenOr (cf_MaxArtifactBytes c) (o_MaxArtifactBytes o1)\<rparr>;
         o3 = applyConcurrency (cf_Concurrency c) (applyLimits (cf_Limits c) o2)
     in o3\<lparr>st_ApprovalTimeout := givenOr (cf_ApprovalTimeout c) (st_ApprovalTimeout o3),
           st_IdleWarnAfter := givenOr (cf_IdleWarnAfter c) (st_IdleWarnAfter o3),
           st_MaxHistoryMessages := givenOr (cf_MaxHistoryMessages c) (st_MaxHistoryMessages o3),
           st_ToolRetry := givenOr (cf_ToolRetry c) (st_ToolRetry o3),
           st_Retention := givenOr (cf_Retention c) (st_Retention o3)\<rparr>)"

section \<open>Validation\<close>

fun checkAgents :: "'p Agent list \<Rightarrow> (string \<rightharpoonup> 'p Agent) \<Rightarrow> goerr + (string \<rightharpoonup> 'p Agent)" where
  "checkAgents [] agents = Inr agents"
| "checkAgents (a # as) agents =
    (if ag_Name a = [] then Inl (new_error ''agent without a name'')
     else if agents (ag_Name a) \<noteq> None then Inl (new_error ''duplicate agent %q'')
     else if ag_Timeout a < 0 \<or> ag_MaxToolLoops a < 0
     then Inl (new_error ''agent %q: timeout and max_tool_loops must not be negative'')
     else checkAgents as (agents(ag_Name a \<mapsto> a)))"

definition checkChildren :: "(string \<rightharpoonup> 'p Agent) \<Rightarrow> 'p Agent list \<Rightarrow> goerr option" where
  "checkChildren agents as =
    (if list_ex (\<lambda>a. list_ex (\<lambda>child. agents child = None) (ag_Children a)) as
     then Some (new_error ''agent %q: unknown child agent %q'') else None)"

definition checkCompaction :: "(string \<rightharpoonup> 'p Agent) \<Rightarrow> CompactionConfig \<Rightarrow> goerr option" where
  "checkCompaction agents c =
    (if agents (co_Agent c) = None then Some (new_error ''compaction: unknown agent %q'')
     else if co_MaxMessages c < 0 \<or> co_MaxTokens c < 0 \<or> co_KeepRecent c < 0 \<or> co_TaskMaxTokens c < 0 \<or>
       co_MaxMessages c = 0 \<and> co_MaxTokens c = 0 \<and> co_TaskMaxTokens c = 0
     then Some (new_error ''compaction: needs max_messages, max_tokens or task_max_tokens, and no negative values'')
     else None)"

fun checkTenantPolicies :: "(string \<Rightarrow> bool) \<Rightarrow> (TenantID, ToolPolicy) gomap \<Rightarrow> goerr option" where
  "checkTenantPolicies isUUID [] = None"
| "checkTenantPolicies isUUID ((tenant, p) # ps) =
    (if \<not> isUUID tenant then Some (new_error ''tenant_tool_policies: tenant ID %q is not a UUID'')
     else case ToolPolicy_Validate p of
       Some e \<Rightarrow> Some (Errorf ''tenant %s: %w'' [e])
     | None \<Rightarrow> checkTenantPolicies isUUID ps)"

definition holds :: "'a option \<Rightarrow> ('a \<Rightarrow> bool) \<Rightarrow> bool" where
  "holds v P = (case v of None \<Rightarrow> False | Some x \<Rightarrow> P x)"

text \<open>The checks between the policies and the workflows. Of the two durations either may be named.\<close>

definition checkNumbers :: "'p Config \<Rightarrow> goerr option" where
  "checkNumbers c =
    (if holds (cf_ApproveAbove c) (\<lambda>a. TotalTokens a < 0 \<or> CostUnits a < 0)
     then Some (new_error ''approve_above must not be negative'')
     else if cf_LoopResponse c \<notin> {[], LoopFail, LoopPause, LoopApprove}
     then Some (new_error ''loop_response %q is not fail, pause or approve'')
     else if holds (cf_MaxArtifactBytes c) (\<lambda>n. n < 0)
     then Some (new_error ''max_artifact_bytes must not be negative'')
     else if holds (cf_Limits c) (\<lambda>l. Negative (lc_Default l) \<or> Negative (lc_Max l))
     then Some (new_error ''limits must not be negative'')
     else if holds (cf_Concurrency c) (\<lambda>p.
         min (min (cc_PerTenant p) (cc_PerWorkflow p)) (min (cc_PerAgent p) (cc_PerTool p)) < 0 \<or>
         holds (cc_MaxActiveRuns p) (\<lambda>n. n < 0) \<or> holds (cc_MaxQueuedRuns p) (\<lambda>n. n < 0))
     then Some (new_error ''concurrency must not be negative'')
     else if holds (cf_ApprovalTimeout c) (\<lambda>d. d < 0) \<or> holds (cf_IdleWarnAfter c) (\<lambda>d. d < 0)
     then Some (new_error ''%s must not be negative'')
     else if holds (cf_MaxHistoryMessages c) (\<lambda>n. n < 0)
     then Some (new_error ''max_history_messages must not be negative'')
     else if holds (cf_ToolRetry c) (\<lambda>r. rp_MaxAttempts r < 0 \<or> rp_Backoff r < 0)
     then Some (new_error ''tool_retry must not be negative'')
     else if holds (cf_Retention c) (\<lambda>r. rn_Sessions r < 0 \<or> rn_Memories r < 0)
     then Some (new_error ''retention must not be negative'')
     else None)"

text \<open>The loop over the workflows; \<open>None\<close> is a panic of \<open>compileWorkflow\<close>.\<close>

fun checkWorkflows :: "(string \<Rightarrow> goerr + 're) \<Rightarrow> (json \<Rightarrow> goerr + 'sc) \<Rightarrow> (string \<rightharpoonup> 'p Agent)
    \<Rightarrow> Workflow list \<Rightarrow> string list \<Rightarrow> goerr option option" where
  "checkWorkflows cre csc agents [] names = Some None"
| "checkWorkflows cre csc agents (w # ws) names =
    (if wf_Name w = [] \<or> wf_Name w \<in> set names
     then Some (Some (new_error ''workflow name %q is empty or used twice''))
     else case compileWorkflow cre csc w agents of
         None \<Rightarrow> None
       | Some (Inl e) \<Rightarrow> Some (Some (Errorf ''workflow %q: %w'' [e]))
       | Some (Inr p) \<Rightarrow> checkWorkflows cre csc agents ws (wf_Name w # names))"

text \<open>The first error of checks made one after the other.\<close>

fun firstError :: "goerr option list \<Rightarrow> goerr option" where
  "firstError [] = None"
| "firstError (None # es) = firstError es"
| "firstError (Some e # es) = Some e"

definition Config_Validate :: "(string \<Rightarrow> bool) \<Rightarrow> (string \<Rightarrow> goerr + 're) \<Rightarrow> (json \<Rightarrow> goerr + 'sc)
    \<Rightarrow> 'p Config \<Rightarrow> goerr option option" where
  "Config_Validate isUUID cre csc c =
    (case checkAgents (cf_Agents c) Map.empty of
       Inl e \<Rightarrow> Some (Some e)
     | Inr agents \<Rightarrow>
        (case firstError
            [checkChildren agents (cf_Agents c),
             (case cf_Compaction c of None \<Rightarrow> None | Some co \<Rightarrow> checkCompaction agents co),
             (case cf_ToolPolicy c of None \<Rightarrow> None | Some p \<Rightarrow> ToolPolicy_Validate p),
             checkTenantPolicies isUUID (givenOr (cf_TenantToolPolicies c) []),
             checkNumbers c] of
           Some e \<Rightarrow> Some (Some e)
         | None \<Rightarrow> checkWorkflows cre csc agents (cf_Workflows c) []))"

text \<open>\<open>ParseConfig\<close>; \<open>decode\<close> is the decoder that refuses unknown fields.\<close>

definition ParseConfig :: "(string \<Rightarrow> goerr + 'p Config) \<Rightarrow> (string \<Rightarrow> bool) \<Rightarrow> (string \<Rightarrow> goerr + 're)
    \<Rightarrow> (json \<Rightarrow> goerr + 'sc) \<Rightarrow> string \<Rightarrow> (goerr + 'p Config \<times> goerr option) option" where
  "ParseConfig decode isUUID cre csc data =
    (case decode data of
       Inl e \<Rightarrow> Some (Inl e)
     | Inr c \<Rightarrow> map_option (\<lambda>err. Inr (c, err)) (Config_Validate isUUID cre csc c))"

section \<open>From a configuration to an orchestrator\<close>

text \<open>\<open>main\<close>, from the configuration to the applied orchestrator.\<close>

definition givenModel :: "'p \<Rightarrow> string \<Rightarrow> 'p Agent \<Rightarrow> 'p Agent" where
  "givenModel prov model a =
    (let a1 = a\<lparr>ag_Provider := prov\<rparr> in if ag_Model a1 = [] then a1\<lparr>ag_Model := model\<rparr> else a1)"

definition configured :: "MemStore \<Rightarrow> string \<Rightarrow> 'p \<Rightarrow> string \<Rightarrow> 'p Config \<Rightarrow> 'p Settings" where
  "configured store owner prov model c =
    (let o1 = NewOrchestrator store owner (map (givenModel prov model) (cf_Agents c));
         o2 = o1\<lparr>o_Book := (o_Book o1)\<lparr>bk_Provider := Some prov, bk_Model := model\<rparr>\<rparr>
     in Apply (c\<lparr>cf_Agents := map (givenModel prov model) (cf_Agents c)\<rparr>) o2)"

section \<open>Retention\<close>

text \<open>\<open>Purge\<close>, with the clock's readings before each deletion and during that of the sessions.\<close>

definition Purge :: "Retention \<Rightarrow> time \<Rightarrow> time \<Rightarrow> time \<Rightarrow> MemStore \<Rightarrow> MemStore" where
  "Purge r now1 during now2 m =
    (let m1 = (if rn_Sessions r > 0 then fst (PurgeSessions m (now1 - rn_Sessions r) during) else m)
     in if rn_Memories r > 0 then fst (PurgeMemories m1 (now2 - rn_Memories r)) else m1)"

text \<open>\<open>KeepPurging\<close> for a number of rounds; the store changes in between as \<open>others\<close> says.\<close>

fun KeepPurging :: "Retention \<Rightarrow> (MemStore \<Rightarrow> MemStore) \<Rightarrow> (time \<times> time \<times> time) list \<Rightarrow> MemStore \<Rightarrow> MemStore" where
  "KeepPurging r others [] m = m"
| "KeepPurging r others ((now1, during, now2) # ts) m =
    KeepPurging r others ts (others (Purge r now1 during now2 m))"

section \<open>What a valid configuration makes\<close>

lemma givenOr_simps [simp]: "givenOr None d = d" "givenOr (Some x) d = x"
  by (simp_all add: givenOr_def)

lemma holds_simps [simp]: "holds None P = False" "holds (Some x) P = P x"
  by (simp_all add: holds_def)

lemma checkAgents_ok:
  assumes "checkAgents as m = Inr agents"
  shows "(\<forall>n. agents n \<noteq> None \<longleftrightarrow> m n \<noteq> None \<or> n \<in> ag_Name ` set as) \<and>
    (\<forall>a \<in> set as. ag_Name a \<noteq> [] \<and> 0 \<le> ag_Timeout a \<and> 0 \<le> ag_MaxToolLoops a)"
  using assms by (induction as m rule: checkAgents.induct) (auto split: if_splits)

lemma checkTenantPolicies_ok: "checkTenantPolicies isUUID ps = None \<Longrightarrow>
    \<forall>(t, p) \<in> set ps. isUUID t \<and> ToolPolicy_Validate p = None"
  by (induction isUUID ps rule: checkTenantPolicies.induct) (auto split: if_splits option.splits)

lemma checkWorkflows_ok:
  assumes "checkWorkflows cre csc agents ws names = Some None"
  shows "distinct (map wf_Name ws) \<and> set (map wf_Name ws) \<inter> set names = {} \<and>
    (\<forall>w \<in> set ws. wf_Name w \<noteq> [] \<and> (\<exists>p. compileWorkflow cre csc w agents = Some (Inr p)))"
  using assms by (induction ws arbitrary: names) (fastforce split: if_splits option.splits sum.splits)+

lemma checkWorkflows_total: "checkWorkflows cre csc agents ws names \<noteq> None"
  by (induction ws arbitrary: names) (auto simp: compileWorkflow_total split: option.splits sum.splits)

lemma firstError_None: "firstError es = None \<longleftrightarrow> set es \<subseteq> {None}"
  by (induction es rule: firstError.induct) auto

text \<open>A workflow compiles to the same plan with more agents.\<close>

lemma checkStage_more:
  assumes "checkStage agents s = None" and "dom agents \<subseteq> dom others"
  shows "checkStage others s = None"
proof -
  have known: "\<not> list_ex (\<lambda>a. agents (as_Name a) = None) (sg_Agents s)"
    using assms(1) unfolding checkStage_def by (simp only: split: if_splits) simp_all
  with assms(2) have "\<not> list_ex (\<lambda>a. others (as_Name a) = None) (sg_Agents s)"
    unfolding list_ex_iff by blast
  with known have "checkStage others s = checkStage agents s" unfolding checkStage_def by (simp only: if_False)
  with assms(1) show ?thesis by simp
qed

lemma compileStages_more:
  assumes "compileStages cre csc agents index graph i ss p = Inr q" and "dom agents \<subseteq> dom others"
  shows "compileStages cre csc others index graph i ss p = Inr q"
  using assms(1)
proof (induction ss arbitrary: i p)
  case (Cons s ss)
  then have "checkStage agents s = None" by (auto split: option.splits)
  with Cons checkStage_more [OF this assms(2)] show ?case by (auto split: sum.splits)
qed simp

lemma compileWorkflow_more:
  assumes "compileWorkflow cre csc w agents = Some (Inr p)" and "dom agents \<subseteq> dom others"
  shows "compileWorkflow cre csc w others = Some (Inr p)"
proof -
  from assms(1) obtain index graph p0 p1 where parts: "wf_Stages w \<noteq> []"
    "indexStages Map.empty False 0 (wf_Stages w) = Inr (index, graph)"
    "compileInput csc w (emptyPlan (wf_Stages w)) = Inr p0"
    "compileStages cre csc agents index graph 0 (wf_Stages w) p0 = Inr p1" "cyclic (p_deps p1) = Some False"
    "compileHandBacks cre index 0 (wf_Stages w) p1 = Some (Inr p)" by (rule compileWorkflow_parts)
  with compileStages_more [OF parts(4) assms(2)] show ?thesis by (simp add: compileWorkflow_def)
qed

text \<open>The names of the configured agents.\<close>

lemma configuredAgents_names: "map_of (configuredAgents as) n \<noteq> None \<longleftrightarrow> n \<in> ag_Name ` set as"
proof -
  have "map_of (foldl (\<lambda>am a. let a' = (if ag_MaxToolLoops a = 0 then a\<lparr>ag_MaxToolLoops := defaultToolLoops\<rparr> else a)
      in mput (ag_Name a') a' am) am as) n \<noteq> None \<longleftrightarrow> map_of am n \<noteq> None \<or> n \<in> ag_Name ` set as" for am
    by (induction as arbitrary: am) (auto simp: Let_def go_simps)
  then show ?thesis by (simp add: configuredAgents_def)
qed

lemma foldl_mput:
  "map_of (foldl (\<lambda>am a. mput (f a) (g a) am) am xs) n = Some v \<Longrightarrow> map_of am n = Some v \<or> v \<in> g ` set xs"
  by (induction xs arbitrary: am) (fastforce simp: go_simps split: if_splits)+

lemma configuredAgents_some:
  assumes "map_of (configuredAgents as) n = Some a"
  shows "a \<in> (\<lambda>a. if ag_MaxToolLoops a = 0 then a\<lparr>ag_MaxToolLoops := defaultToolLoops\<rparr> else a) ` set as"
proof -
  let ?g = "\<lambda>a. if ag_MaxToolLoops a = 0 then a\<lparr>ag_MaxToolLoops := defaultToolLoops\<rparr> else a"
  have "configuredAgents as = foldl (\<lambda>am a. mput (ag_Name (?g a)) (?g a) am) [] as"
    unfolding configuredAgents_def Let_def ..
  with assms foldl_mput [of "\<lambda>a. ag_Name (?g a)" ?g "[]" as n a] show ?thesis by simp
qed

lemma templates_of:
  "distinct (map wf_Name ws) \<Longrightarrow>
     foldl (\<lambda>m wf. m(wf_Name wf \<mapsto> wf)) Map.empty ws n = Some w \<longleftrightarrow> w \<in> set ws \<and> wf_Name w = n"
  using foldl_upd_iff [of wf_Name ws "\<lambda>w. w" n w] by auto

text \<open>Settings in range: what every run of the orchestrator may take for granted.\<close>

definition agent_ok :: "(string, 'p Agent) gomap \<Rightarrow> 'p Agent \<Rightarrow> bool" where
  "agent_ok agents a \<longleftrightarrow> ag_Name a \<noteq> [] \<and> 0 \<le> ag_Timeout a \<and> 0 < ag_MaxToolLoops a \<and>
     (\<forall>child \<in> set (ag_Children a). map_of agents child \<noteq> None)"

definition compaction_ok :: "(string, 'p Agent) gomap \<Rightarrow> CompactionConfig \<Rightarrow> bool" where
  "compaction_ok agents c \<longleftrightarrow> co_Agent c = [] \<or> map_of agents (co_Agent c) \<noteq> None \<and>
     0 \<le> co_MaxMessages c \<and> 0 \<le> co_MaxTokens c \<and> 0 \<le> co_KeepRecent c \<and> 0 \<le> co_TaskMaxTokens c \<and>
     (0 < co_MaxMessages c \<or> 0 < co_MaxTokens c \<or> 0 < co_TaskMaxTokens c)"

definition limits_in_range :: "'p Settings \<Rightarrow> bool" where
  "limits_in_range s \<longleftrightarrow> \<not> Negative (o_DefaultLimits s) \<and> \<not> Negative (o_MaxLimits s) \<and>
     0 \<le> o_MaxActiveRuns s \<and> 0 \<le> o_MaxQueuedRuns s \<and> 0 \<le> o_MaxArtifactBytes s \<and>
     0 \<le> cl_PerTenant (st_Concurrency s) \<and> 0 \<le> cl_PerWorkflow (st_Concurrency s) \<and>
     0 \<le> cl_PerAgent (st_Concurrency s) \<and> 0 \<le> cl_PerTool (st_Concurrency s)"

definition numbers_in_range :: "'p Settings \<Rightarrow> bool" where
  "numbers_in_range s \<longleftrightarrow> 0 \<le> st_ApprovalTimeout s \<and> 0 \<le> st_IdleWarnAfter s \<and> 0 \<le> st_MaxHistoryMessages s \<and>
     0 \<le> rp_MaxAttempts (st_ToolRetry s) \<and> 0 \<le> rp_Backoff (st_ToolRetry s) \<and>
     0 \<le> rn_Sessions (st_Retention s) \<and> 0 \<le> rn_Memories (st_Retention s) \<and>
     0 \<le> TotalTokens (st_ApproveAbove s) \<and> 0 \<le> CostUnits (st_ApproveAbove s) \<and>
     st_LoopResponse s \<in> {[], LoopFail, LoopPause, LoopApprove}"

definition policies_ok :: "(string \<Rightarrow> bool) \<Rightarrow> 'p Settings \<Rightarrow> bool" where
  "policies_ok isUUID s \<longleftrightarrow> ToolPolicy_Validate (st_Policy s) = None \<and>
     (\<forall>(t, p) \<in> set (st_TenantPolicies s). isUUID t \<and> ToolPolicy_Validate p = None)"

definition settings_ok :: "(string \<Rightarrow> bool) \<Rightarrow> 'p Settings \<Rightarrow> bool" where
  "settings_ok isUUID s \<longleftrightarrow>
     (\<forall>n a. map_of (bk_Agents (o_Book s)) n = Some a \<longrightarrow> agent_ok (bk_Agents (o_Book s)) a) \<and>
     compaction_ok (bk_Agents (o_Book s)) (st_Compaction s) \<and> policies_ok isUUID s \<and>
     limits_in_range s \<and> numbers_in_range s"

lemmas configured_defs = configured_def Let_def Apply_def applyConcurrency_def applyLimits_def NewOrchestrator_def

text \<open>Each setting is the configuration's, or that of \<open>NewOrchestrator\<close>.\<close>

lemma configured_fields:
  "bk_Agents (o_Book (configured store owner prov model c)) = configuredAgents (map (givenModel prov model) (cf_Agents c))"
  "o_Workflows (configured store owner prov model c) = foldl (\<lambda>m wf. m(wf_Name wf \<mapsto> wf)) Map.empty (cf_Workflows c)"
  "o_MaxArtifactBytes (configured store owner prov model c) = givenOr (cf_MaxArtifactBytes c) (10 * 2 ^ 20)"
  "st_Compaction (configured store owner prov model c) =
     givenOr (cf_Compaction c) (st_Compaction (NewOrchestrator store owner (cf_Agents c)))"
  "st_Policy (configured store owner prov model c) = givenOr (cf_ToolPolicy c) ToolPolicy0"
  "st_TenantPolicies (configured store owner prov model c) = givenOr (cf_TenantToolPolicies c) []"
  "st_LoopResponse (configured store owner prov model c) = cf_LoopResponse c"
  "st_ApproveAbove (configured store owner prov model c) = givenOr (cf_ApproveAbove c) Usage0"
  "st_ApprovalTimeout (configured store owner prov model c) = givenOr (cf_ApprovalTimeout c) (15 * 60 * seconds)"
  "st_IdleWarnAfter (configured store owner prov model c) = givenOr (cf_IdleWarnAfter c) (2 * 60 * seconds)"
  "st_MaxHistoryMessages (configured store owner prov model c) = givenOr (cf_MaxHistoryMessages c) 50"
  "st_ToolRetry (configured store owner prov model c) = givenOr (cf_ToolRetry c) \<lparr>rp_MaxAttempts = 3, rp_Backoff = 200000000\<rparr>"
  "st_Retention (configured store owner prov model c) = givenOr (cf_Retention c) \<lparr>rn_Sessions = 0, rn_Memories = 0\<rparr>"
  by (cases "cf_Limits c"; cases "cf_Concurrency c"; simp add: configured_defs)+

lemma configured_limits:
  "o_DefaultLimits (configured store owner prov model c) =
     (case cf_Limits c of None \<Rightarrow> Limits0 | Some l \<Rightarrow> Fill (lc_Default l) Limits0)"
  "o_MaxLimits (configured store owner prov model c) =
     (case cf_Limits c of None \<Rightarrow> o_MaxLimits (NewOrchestrator store owner (cf_Agents c))
      | Some l \<Rightarrow> Fill (lc_Max l) (o_MaxLimits (NewOrchestrator store owner (cf_Agents c))))"
  by (cases "cf_Limits c"; cases "cf_Concurrency c"; simp add: configured_defs)+

lemma cmpOr_0 [simp]: "cmpOr a 0 = a"
  by (simp add: cmpOr_def)

lemma configured_pool:
  "o_MaxActiveRuns (configured store owner prov model c) =
     (case cf_Concurrency c of None \<Rightarrow> 64 | Some p \<Rightarrow> givenOr (cc_MaxActiveRuns p) 64)"
  "o_MaxQueuedRuns (configured store owner prov model c) =
     (case cf_Concurrency c of None \<Rightarrow> 256 | Some p \<Rightarrow> givenOr (cc_MaxQueuedRuns p) 256)"
  "st_Concurrency (configured store owner prov model c) =
     (case cf_Concurrency c of
        None \<Rightarrow> \<lparr>cl_PerTenant = 0, cl_PerWorkflow = 0, cl_PerAgent = 0, cl_PerTool = 0\<rparr>
      | Some p \<Rightarrow> \<lparr>cl_PerTenant = cc_PerTenant p, cl_PerWorkflow = cc_PerWorkflow p, cl_PerAgent = cc_PerAgent p,
          cl_PerTool = cc_PerTool p\<rparr>)"
  by (cases "cf_Limits c"; cases "cf_Concurrency c"; simp add: configured_defs)+

lemma Fill_not_Negative: "\<not> Negative d \<Longrightarrow> \<not> Negative (Fill l d)"
  by (simp add: Negative_iff Fill_def fillFrom_def)

text \<open>\<open>checkNumbers\<close> passes exactly what is in range.\<close>

lemma checkNumbers_None:
  assumes "checkNumbers c = None"
  shows "\<not> holds (cf_ApproveAbove c) (\<lambda>a. TotalTokens a < 0 \<or> CostUnits a < 0) \<and>
    cf_LoopResponse c \<in> {[], LoopFail, LoopPause, LoopApprove} \<and> \<not> holds (cf_MaxArtifactBytes c) (\<lambda>n. n < 0) \<and>
    \<not> holds (cf_Concurrency c) (\<lambda>p.
         min (min (cc_PerTenant p) (cc_PerWorkflow p)) (min (cc_PerAgent p) (cc_PerTool p)) < 0 \<or>
         holds (cc_MaxActiveRuns p) (\<lambda>n. n < 0) \<or> holds (cc_MaxQueuedRuns p) (\<lambda>n. n < 0)) \<and>
    \<not> holds (cf_ApprovalTimeout c) (\<lambda>d. d < 0) \<and> \<not> holds (cf_IdleWarnAfter c) (\<lambda>d. d < 0) \<and>
    \<not> holds (cf_MaxHistoryMessages c) (\<lambda>n. n < 0) \<and>
    \<not> holds (cf_ToolRetry c) (\<lambda>r. rp_MaxAttempts r < 0 \<or> rp_Backoff r < 0) \<and>
    \<not> holds (cf_Retention c) (\<lambda>r. rn_Sessions r < 0 \<or> rn_Memories r < 0)"
  using assms unfolding checkNumbers_def by (simp only: option.distinct split: if_splits; blast)

lemma givenOr_nonneg: "\<not> holds v (\<lambda>n. P n) \<Longrightarrow> \<not> P d \<Longrightarrow> \<not> P (givenOr v d)"
  by (cases v) auto

lemma limits_of_configured: "checkNumbers c = None \<Longrightarrow> limits_in_range (configured store owner prov model c)"
proof -
  assume "checkNumbers c = None"
  note n = checkNumbers_None [OF this]
  note artifacts = n [THEN conjunct2, THEN conjunct2, THEN conjunct1]
  note pool = n [THEN conjunct2, THEN conjunct2, THEN conjunct2, THEN conjunct1]
  have "\<not> Negative Limits0" "\<not> Negative (o_MaxLimits (NewOrchestrator store owner (cf_Agents c)))"
    by (simp_all add: Negative_iff Limits0_def NewOrchestrator_def)
  then have "\<not> Negative (o_DefaultLimits (configured store owner prov model c))"
    "\<not> Negative (o_MaxLimits (configured store owner prov model c))"
    by (auto simp: configured_limits Fill_not_Negative split: option.splits)
  moreover have "0 \<le> o_MaxArtifactBytes (configured store owner prov model c)"
    using artifacts givenOr_nonneg [of "cf_MaxArtifactBytes c" "\<lambda>n. n < 0" "10 * 2 ^ 20"] by (simp add: configured_fields not_less)
  moreover have "0 \<le> o_MaxActiveRuns (configured store owner prov model c)"
    "0 \<le> o_MaxQueuedRuns (configured store owner prov model c)"
    using pool by (cases "cf_Concurrency c"; fastforce simp: configured_pool givenOr_def split: option.splits)+
  moreover have "0 \<le> cl_PerTenant (st_Concurrency (configured store owner prov model c))"
    "0 \<le> cl_PerWorkflow (st_Concurrency (configured store owner prov model c))"
    "0 \<le> cl_PerAgent (st_Concurrency (configured store owner prov model c))"
    "0 \<le> cl_PerTool (st_Concurrency (configured store owner prov model c))"
    using pool by (cases "cf_Concurrency c"; auto simp: configured_pool min_less_iff_disj not_less)+
  ultimately show ?thesis by (simp add: limits_in_range_def)
qed

lemma numbers_of_configured: "checkNumbers c = None \<Longrightarrow> numbers_in_range (configured store owner prov model c)"
proof -
  assume "checkNumbers c = None"
  note n = checkNumbers_None [OF this]
  have "0 \<le> st_ApprovalTimeout (configured store owner prov model c)"
    using n by (cases "cf_ApprovalTimeout c") (auto simp: configured_fields)
  moreover have "0 \<le> st_IdleWarnAfter (configured store owner prov model c)"
    using n by (cases "cf_IdleWarnAfter c") (auto simp: configured_fields)
  moreover have "0 \<le> st_MaxHistoryMessages (configured store owner prov model c)"
    using n by (cases "cf_MaxHistoryMessages c") (auto simp: configured_fields)
  moreover have "0 \<le> rp_MaxAttempts (st_ToolRetry (configured store owner prov model c)) \<and>
      0 \<le> rp_Backoff (st_ToolRetry (configured store owner prov model c))"
    using n by (cases "cf_ToolRetry c") (auto simp: configured_fields)
  moreover have "0 \<le> rn_Sessions (st_Retention (configured store owner prov model c)) \<and>
      0 \<le> rn_Memories (st_Retention (configured store owner prov model c))"
    using n by (cases "cf_Retention c") (auto simp: configured_fields)
  moreover have "0 \<le> TotalTokens (st_ApproveAbove (configured store owner prov model c)) \<and>
      0 \<le> CostUnits (st_ApproveAbove (configured store owner prov model c))"
    using n by (cases "cf_ApproveAbove c") (auto simp: configured_fields Usage0_def)
  ultimately show ?thesis using n by (simp add: numbers_in_range_def configured_fields)
qed

lemma ag_Name_givenModel: "ag_Name (givenModel prov model a) = ag_Name a"
  by (simp add: givenModel_def Let_def)

lemma configured_ok:
  assumes "Config_Validate isUUID cre csc c = Some None"
  shows "settings_ok isUUID (configured store owner prov model c)"
proof -
  let ?o = "configured store owner prov model c"
  let ?as = "map (givenModel prov model) (cf_Agents c)"
  from assms obtain agents where a: "checkAgents (cf_Agents c) Map.empty = Inr agents"
    and f: "checkChildren agents (cf_Agents c) = None" "cf_Compaction c = Some co \<Longrightarrow> checkCompaction agents co = None"
      "cf_ToolPolicy c = Some p \<Longrightarrow> ToolPolicy_Validate p = None"
      "checkTenantPolicies isUUID (givenOr (cf_TenantToolPolicies c) []) = None" "checkNumbers c = None" for co p
    by (auto simp: Config_Validate_def firstError_None split: sum.splits option.splits)
  note agents = checkAgents_ok [OF a]
  have known: "map_of (configuredAgents ?as) n \<noteq> None" if "agents n \<noteq> None" for n
    using that agents unfolding configuredAgents_names set_map image_image ag_Name_givenModel by blast
  have book: "bk_Agents (o_Book ?o) = configuredAgents ?as"
    by (simp add: configured_fields)
  have "agent_ok (configuredAgents ?as) b" if "map_of (configuredAgents ?as) n = Some b" for n b
  proof -
    let ?g = "\<lambda>a. if ag_MaxToolLoops a = 0 then a\<lparr>ag_MaxToolLoops := defaultToolLoops\<rparr> else a"
    from configuredAgents_some [OF that] obtain a0 where a: "a0 \<in> set (cf_Agents c)" "b = ?g (givenModel prov model a0)"
      unfolding set_map by blast
    then have a0: "a0 \<in> set (cf_Agents c)"
      "ag_Name b = ag_Name a0" "ag_Timeout b = ag_Timeout a0" "ag_Children b = ag_Children a0"
      "ag_MaxToolLoops b = (if ag_MaxToolLoops a0 = 0 then defaultToolLoops else ag_MaxToolLoops a0)"
      unfolding a(2) givenModel_def Let_def by simp_all
    with f(1) have kids: "agents child \<noteq> None" if "child \<in> set (ag_Children b)" for child
      using that by (auto simp: checkChildren_def list_ex_iff split: if_splits)
    moreover from agents a0(1) have "ag_Name a0 \<noteq> []" "0 \<le> ag_Timeout a0" "0 \<le> ag_MaxToolLoops a0" by auto
    ultimately show ?thesis using known unfolding agent_ok_def a0(2-5) by simp
  qed
  moreover have "compaction_ok (configuredAgents ?as) (st_Compaction ?o)"
  proof (cases "cf_Compaction c")
    case None
    then show ?thesis by (simp add: configured_fields NewOrchestrator_def compaction_ok_def)
  next
    case (Some co)
    then have "st_Compaction ?o = co" by (simp add: configured_fields)
    with f(2) [OF Some] known show ?thesis by (auto simp: checkCompaction_def compaction_ok_def split: if_splits)
  qed
  moreover have "policies_ok isUUID ?o"
    using f(3) checkTenantPolicies_ok [OF f(4)]
    by (cases "cf_ToolPolicy c"; cases "cf_TenantToolPolicies c")
      (auto simp: policies_ok_def configured_fields ToolPolicy_Validate_iff ToolPolicy0_def)
  ultimately show ?thesis
    using limits_of_configured [OF f(5)] numbers_of_configured [OF f(5)] by (simp add: settings_ok_def book)
qed

text \<open>C32: A configuration that \<open>Validate\<close> accepts makes a well-formed orchestrator: every agent has a
  name, children that exist and a positive number of tool rounds; policies, limits, pools, timeouts,
  retries and retention are in range, those it leaves out included. Every workflow of it is a template
  under its name, and compiles with the agents of any tenant, whatever agents tenants have stored.\<close>

theorem a_valid_config_applies:
  assumes "Config_Validate isUUID cre csc c = Some None" and "stored_agents_ok m"
  shows "settings_ok isUUID (configured store owner prov model c) \<and>
    (\<forall>n w. o_Workflows (configured store owner prov model c) n = Some w \<longleftrightarrow> w \<in> set (cf_Workflows c) \<and> wf_Name w = n) \<and>
    (\<forall>n w tenant. o_Workflows (configured store owner prov model c) n = Some w \<longrightarrow> n \<noteq> [] \<and>
       (\<exists>p. compileWorkflow cre csc w (agentsFor decode (o_Book (configured store owner prov model c)) m tenant) = Some (Inr p)))"
proof -
  let ?o = "configured store owner prov model c"
  from assms(1) obtain agents where a: "checkAgents (cf_Agents c) Map.empty = Inr agents"
    and ws: "checkWorkflows cre csc agents (cf_Workflows c) [] = Some None"
    by (auto simp: Config_Validate_def split: sum.splits option.splits)
  note workflows = checkWorkflows_ok [OF ws]
  then have templates: "o_Workflows ?o n = Some w \<longleftrightarrow> w \<in> set (cf_Workflows c) \<and> wf_Name w = n" for n w
    unfolding configured_fields by (intro templates_of) simp
  have "book_ok (o_Book ?o)" by (simp add: book_ok_def configured_fields keyed_configuredAgents)
  note found = agentsFor_eq [OF this assms(2), of decode]
  have "\<exists>p. compileWorkflow cre csc w (agentsFor decode (o_Book ?o) m tenant) = Some (Inr p)"
    if "w \<in> set (cf_Workflows c)" for w tenant
  proof -
    have "dom agents \<subseteq> dom (agentsFor decode (o_Book ?o) m tenant)"
    proof
      fix n assume "n \<in> dom agents"
      with checkAgents_ok [OF a] have "n \<in> ag_Name ` set (cf_Agents c)" by blast
      then have "map_of (configuredAgents (map (givenModel prov model) (cf_Agents c))) n \<noteq> None"
        unfolding configuredAgents_names set_map image_image ag_Name_givenModel .
      then show "n \<in> dom (agentsFor decode (o_Book ?o) m tenant)"
        unfolding found configured_fields domIff by (auto split: option.splits)
    qed
    with workflows that compileWorkflow_more show ?thesis by metis
  qed
  with configured_ok [OF assms(1)] templates workflows show ?thesis by (simp only: templates) blast
qed

definition teamConfig :: "unit Config" where
  "teamConfig = \<lparr>cf_Agents = mvals [((), the (writer_agents ''w''))], cf_Workflows = [draft_review],
     cf_Compaction = Some \<lparr>co_Agent = ''w'', co_MaxMessages = 40, co_MaxTokens = 0, co_KeepRecent = 10, co_TaskMaxTokens = 0\<rparr>,
     cf_ToolPolicy = None, cf_TenantToolPolicies = None, cf_LoopResponse = LoopPause, cf_ApproveAbove = None,
     cf_MaxArtifactBytes = Some 0, cf_Limits = None,
     cf_Concurrency = Some \<lparr>cc_MaxActiveRuns = Some 0, cc_MaxQueuedRuns = None, cc_PerTenant = 2, cc_PerWorkflow = 0,
       cc_PerAgent = 0, cc_PerTool = 0\<rparr>,
     cf_ApprovalTimeout = Some 0, cf_IdleWarnAfter = None, cf_MaxHistoryMessages = None, cf_ToolRetry = None,
     cf_Retention = Some \<lparr>rn_Sessions = 3600 * seconds, rn_Memories = 0\<rparr>\<rparr>"

lemma teamConfig_valid: "Config_Validate (\<lambda>_. True) Inr (\<lambda>_. Inr ()) teamConfig = Some None"
  by code_simp

theorem a_valid_config_applies_witness:
  "settings_ok (\<lambda>_. True) (configured NewMemStore ''host/1'' () ''gpt'' teamConfig) \<and>
    (\<exists>p. compileWorkflow Inr (\<lambda>_. Inr ()) draft_review
       (agentsFor (\<lambda>_. Inl (new_error ''none'')) (o_Book (configured NewMemStore ''host/1'' () ''gpt'' teamConfig)) NewMemStore ''t'') = Some (Inr p))"
proof -
  note ok = a_valid_config_applies [OF teamConfig_valid stored_agents_ok_new, of NewMemStore "''host/1''" "()" "''gpt''"
      "\<lambda>_. Inl (new_error ''none'')"]
  have "draft_review \<in> set (cf_Workflows teamConfig)" by (simp add: teamConfig_def)
  with ok show ?thesis by blast
qed

end
