(* ===== verification/GoStrings.thy ===== *)
theory GoStrings
  imports Auth "HOL-Library.Sublist"
begin

text \<open>
  Functions of Go's \<open>strings\<close> and \<open>unicode/utf8\<close> that several components use, beside those of \<open>Auth\<close>:
  \<open>ReplaceAll\<close>, \<open>Split\<close> at an empty line, \<open>LastIndexAny\<close> and the first bytes of a UTF-8 text, and what
  \<open>TrimSpace\<close> leaves of a text: all of it but white space at its ends.
\<close>

text \<open>\<open>strings.ReplaceAll\<close> for a text to replace that is not empty.\<close>

function ReplaceAll :: "string \<Rightarrow> string \<Rightarrow> string \<Rightarrow> string" where
  "ReplaceAll old new [] = []"
| "ReplaceAll old new (c # cs) =
    (if old \<noteq> [] \<and> prefix old (c # cs) then new @ ReplaceAll old new (drop (length old) (c # cs))
     else c # ReplaceAll old new cs)"
  by pat_completeness auto
termination
  by (relation "measure (\<lambda>(_, _, s). length s)") auto

text \<open>\<open>strings.Split(text, "\n\n")\<close>.\<close>

abbreviation "lf \<equiv> CHR 0x0A"

fun splitParagraphs :: "string \<Rightarrow> string list" where
  "splitParagraphs [] = [[]]"
| "splitParagraphs [c] = [[c]]"
| "splitParagraphs (c # d # s) =
    (if c = lf \<and> d = lf then [] # splitParagraphs s
     else case splitParagraphs (d # s) of [] \<Rightarrow> [[c]] | p # ps \<Rightarrow> (c # p) # ps)"

text \<open>\<open>strings.LastIndexAny\<close> for ASCII characters.\<close>

fun lastIndexAny :: "string \<Rightarrow> string \<Rightarrow> int" where
  "lastIndexAny [] cs = -1"
| "lastIndexAny (c # s) cs =
    (let k = lastIndexAny s cs in if k \<ge> 0 then k + 1 else if c \<in> set cs then 0 else -1)"

text \<open>\<open>utf8.RuneStart\<close>, and the size \<open>utf8.DecodeRuneInString\<close> returns: 1 for what is not UTF-8.\<close>

abbreviation byte :: "char \<Rightarrow> nat" where "byte c \<equiv> of_char c"

definition RuneStart :: "char \<Rightarrow> bool" where
  "RuneStart c \<longleftrightarrow> \<not> (128 \<le> byte c \<and> byte c < 192)"

definition continues :: "nat \<Rightarrow> nat \<Rightarrow> char \<Rightarrow> bool" where
  "continues lo hi c \<longleftrightarrow> lo \<le> byte c \<and> byte c \<le> hi"

definition decodeSize :: "string \<Rightarrow> nat" where
  "decodeSize s =
    (case map byte (take 4 s) of
       [] \<Rightarrow> 0
     | a # bs \<Rightarrow>
        (let lo = (if a = 224 then 160 else if a = 240 then 144 else 128);
             hi = (if a = 237 then 159 else if a = 244 then 143 else 191);
             n = (if 194 \<le> a \<and> a \<le> 223 then 2 else if 224 \<le> a \<and> a \<le> 239 then 3
                  else if 240 \<le> a \<and> a \<le> 244 then 4 else 1)
         in if length bs + 1 < n then 1
            else if n > 1 \<and> (\<not> continues lo hi (s ! 1) \<or> n > 2 \<and> \<not> continues 128 191 (s ! 2) \<or>
                n > 3 \<and> \<not> continues 128 191 (s ! 3)) then 1
            else n))"

lemma decodeSize_bounds: "s \<noteq> [] \<Longrightarrow> 0 < decodeSize s \<and> decodeSize s \<le> 4 \<and> decodeSize s \<le> length s"
  by (cases s) (auto simp: decodeSize_def Let_def Suc_le_eq)

text \<open>\<open>utf8.Valid\<close>.\<close>

function utf8Valid :: "string \<Rightarrow> bool" where
  "utf8Valid [] \<longleftrightarrow> True"
| "utf8Valid (c # s) \<longleftrightarrow>
    (if decodeSize (c # s) = 1 \<and> 128 \<le> byte c then False else utf8Valid (drop (decodeSize (c # s)) (c # s)))"
  by pat_completeness auto
termination
proof (relation "measure length", simp)
  fix c and s :: string
  have "0 < decodeSize (c # s)" using decodeSize_bounds [of "c # s"] by simp
  then show "(drop (decodeSize (c # s)) (c # s), c # s) \<in> measure length" by simp
qed

section \<open>What trimming leaves\<close>

text \<open>A text without some of its white space.\<close>

inductive despaced :: "string \<Rightarrow> string \<Rightarrow> bool" where
  despaced_Nil: "despaced [] []"
| despaced_keep: "despaced s t \<Longrightarrow> despaced (c # s) (c # t)"
| despaced_space: "despaced s t \<Longrightarrow> p \<in> set spaces \<Longrightarrow> despaced (p @ s) t"

lemma despaced_refl [simp]: "despaced s s"
  by (induction s) (auto intro: despaced.intros)

lemma despaced_append: "despaced a a' \<Longrightarrow> despaced b b' \<Longrightarrow> despaced (a @ b) (a' @ b')"
  by (induction rule: despaced.induct) (auto intro: despaced.intros)

lemma despaced_spaces: "set ps \<subseteq> set spaces \<Longrightarrow> despaced (concat ps) []"
  by (induction ps) (auto intro: despaced.intros)

lemma spaces_nonempty: "p \<in> set spaces \<Longrightarrow> p \<noteq> []"
  by (auto simp: spaces_def)

text \<open>Stripping takes white space off one end until there is none.\<close>

definition spaceless :: "(string \<Rightarrow> string) \<Rightarrow> string \<Rightarrow> bool" where
  "spaceless f s \<longleftrightarrow> (\<forall>p \<in> set spaces. take (length p) s \<noteq> f p)"

lemma stripOne_None: "stripOne f s = None \<longleftrightarrow> spaceless f s"
proof -
  have "spaceless f s \<longleftrightarrow> filter (\<lambda>p. take (length p) s = f p) spaces = []"
    by (simp add: spaceless_def filter_empty_conv)
  then show ?thesis by (simp add: stripOne_def split: list.splits)
qed

lemma stripOne_Some: "stripOne f s = Some s' \<Longrightarrow> f = id \<or> f = rev \<Longrightarrow> \<exists>p \<in> set spaces. s = f p @ s'"
proof -
  assume a: "stripOne f s = Some s'" and f: "f = id \<or> f = rev"
  then obtain p ps where "filter (\<lambda>p. take (length p) s = f p) spaces = p # ps" and s': "s' = drop (length p) s"
    by (auto simp: stripOne_def split: list.splits)
  then have "p \<in> set (filter (\<lambda>p. take (length p) s = f p) spaces)" by (simp only: list.set_intros)
  with s' have p: "p \<in> set (filter (\<lambda>p. take (length p) s = f p) spaces)" "s' = drop (length p) s"
    by simp_all
  then have "p \<in> set spaces" "take (length p) s = f p" by auto
  moreover have "s = take (length p) s @ drop (length p) s" by simp
  ultimately show ?thesis using p(2) by auto
qed

lemma strip_split:
  assumes "f = id \<or> f = rev"
  shows "\<exists>ps. set ps \<subseteq> set spaces \<and> s = concat (map f ps) @ strip n f s"
proof (induction n arbitrary: s)
  case (Suc n)
  show ?case
  proof (cases "stripOne f s")
    case None
    then show ?thesis by (intro exI [of _ "[]"]) simp
  next
    case (Some s')
    from stripOne_Some [OF this assms] obtain p where p: "p \<in> set spaces" "s = f p @ s'" by blast
    from Suc.IH [of s'] obtain ps where "set ps \<subseteq> set spaces" "s' = concat (map f ps) @ strip n f s'" by blast
    with p Some show ?thesis by (intro exI [of _ "p # ps"]) simp
  qed
qed (intro exI [of _ "[]"], simp)

lemma strip_spaceless:
  assumes "f = id \<or> f = rev" and "length s \<le> n"
  shows "strip n f s = [] \<or> spaceless f (strip n f s)"
  using assms(2)
proof (induction n arbitrary: s)
  case (Suc n)
  show ?case
  proof (cases "stripOne f s")
    case None
    then show ?thesis using stripOne_None [of f s] by simp
  next
    case (Some s')
    from stripOne_Some [OF this assms(1)] obtain p where p: "p \<in> set spaces" "s = f p @ s'" by blast
    then have "length (f p) > 0" using assms(1) spaces_nonempty by auto
    moreover from p(2) have "length s = length (f p) + length s'" by (metis length_append)
    ultimately have "length s' \<le> n" using Suc.prems by linarith
    with Suc.IH [OF this] Some show ?thesis by simp
  qed
qed simp

lemma TrimSpace_split:
  "\<exists>ps qs. set ps \<subseteq> set spaces \<and> set qs \<subseteq> set spaces \<and> s = concat ps @ TrimSpace s @ concat qs"
proof -
  let ?s = "strip (length s) id s"
  from strip_split [of id s "length s"] obtain ps where ps: "set ps \<subseteq> set spaces" "s = concat ps @ ?s" by auto
  from strip_split [of rev "rev ?s" "length ?s"] obtain qs where
    qs: "set qs \<subseteq> set spaces" "rev ?s = concat (map rev qs) @ strip (length ?s) rev (rev ?s)" by auto
  from arg_cong [OF qs(2), of rev] have "?s = TrimSpace s @ concat (rev qs)"
    by (simp add: TrimSpace_def Let_def rev_concat rev_map comp_def)
  with ps qs(1) show ?thesis by (intro exI [of _ ps] exI [of _ "rev qs"]) simp
qed

lemma TrimSpace_despaced: "despaced s (TrimSpace s)"
proof -
  from TrimSpace_split [of s] obtain ps qs where p: "set ps \<subseteq> set spaces" "set qs \<subseteq> set spaces"
    "s = concat ps @ TrimSpace s @ concat qs" by blast
  have "despaced (concat ps @ TrimSpace s @ concat qs) ([] @ TrimSpace s @ [])"
    by (intro despaced_append despaced_spaces despaced_refl p)
  with p(3) show ?thesis by simp
qed

lemma TrimSpace_length: "length (TrimSpace s) \<le> length s"
  using TrimSpace_split [of s] by (metis le_add1 le_add2 le_trans length_append)

text \<open>A tidy text begins and ends with no white space.\<close>

definition tidy :: "string \<Rightarrow> bool" where
  "tidy s \<longleftrightarrow> (\<forall>p \<in> set spaces. \<not> prefix p s \<and> \<not> suffix p s)"

lemma prefix_take: "prefix p s \<longleftrightarrow> take (length p) s = p"
  by (metis append_eq_conv_conj prefix_def take_is_prefix)

lemma spaceless_id: "spaceless id s \<longleftrightarrow> (\<forall>p \<in> set spaces. \<not> prefix p s)"
  by (simp add: spaceless_def prefix_take)

lemma spaceless_rev: "spaceless rev (rev s) \<longleftrightarrow> (\<forall>p \<in> set spaces. \<not> suffix p s)"
proof -
  have "take (length p) (rev s) = rev p \<longleftrightarrow> suffix p s" for p
    using prefix_take [of "rev p" "rev s"] by (simp add: suffix_to_prefix)
  then show ?thesis by (simp add: spaceless_def)
qed

lemma spaceless_Nil: "f = id \<or> f = rev \<Longrightarrow> spaceless f []"
  by (auto simp: spaceless_def dest: spaces_nonempty)

lemma tidy_TrimSpace: "tidy (TrimSpace s)"
proof -
  let ?s = "strip (length s) id s" and ?r = "strip (length (strip (length s) id s)) rev (rev (strip (length s) id s))"
  have "spaceless id ?s" using strip_spaceless [of id s "length s"] spaceless_Nil [of id] by auto
  then have front: "\<forall>p \<in> set spaces. \<not> prefix p ?s" by (simp only: spaceless_id)
  have "spaceless rev ?r" using strip_spaceless [of rev "rev ?s" "length ?s"] spaceless_Nil [of rev] by auto
  then have rear: "\<forall>p \<in> set spaces. \<not> suffix p (rev ?r)" using spaceless_rev [of "rev ?r"] by simp
  from strip_split [of rev "rev ?s" "length ?s"] obtain qs where "rev ?s = concat (map rev qs) @ ?r" by auto
  from arg_cong [OF this, of rev] have "?s = rev ?r @ rev (concat (map rev qs))" by (simp only: rev_append rev_rev_ident)
  then have "prefix (rev ?r) ?s" by (rule prefixI)
  with front rear have "tidy (rev ?r)" unfolding tidy_def by (meson prefix_order.order_trans)
  then show ?thesis by (simp add: TrimSpace_def Let_def)
qed

lemma TrimSpace_tidy: "tidy s \<Longrightarrow> TrimSpace s = s"
proof -
  assume t: "tidy s"
  then have "stripOne id s = None" unfolding stripOne_None spaceless_id by (simp add: tidy_def)
  then have front: "strip n id s = s" for n by (cases n) simp_all
  from t have "stripOne rev (rev s) = None" unfolding stripOne_None spaceless_rev by (simp add: tidy_def)
  then have "strip n rev (rev s) = rev s" for n by (cases n) simp_all
  with front show ?thesis by (simp add: TrimSpace_def Let_def)
qed

text \<open>The beginning of a tidy text does not trim to nothing.\<close>

lemma TrimSpace_nonempty:
  assumes "tidy s" and "prefix t s" and "t \<noteq> []"
  shows "TrimSpace t \<noteq> []"
proof
  assume e: "TrimSpace t = []"
  from TrimSpace_split [of t] obtain ps qs where p: "set (ps @ qs) \<subseteq> set spaces" "t = concat (ps @ qs)" by (auto simp: e)
  with assms(3) obtain q rs where q: "ps @ qs = q # rs" by (cases "ps @ qs") auto
  with p have "q \<in> set spaces" "prefix q t" by auto
  with assms(1,2) show False unfolding tidy_def by (meson prefix_order.order_trans)
qed

lemma lf_in_space: "p \<in> set spaces \<Longrightarrow> lf \<in> set p \<Longrightarrow> p = [lf]"
  by (auto simp: spaces_def eq_commute [of lf] char_of_eq_iff)

lemma tidy_join:
  assumes "tidy a" and "tidy b" and "a \<noteq> []" and "b \<noteq> []"
  shows "tidy (a @ lf # lf # b)"
  unfolding tidy_def
proof (intro ballI conjI notI)
  fix p assume p: "p \<in> set spaces"
  {
    assume "prefix p (a @ lf # lf # b)"
    then consider "prefix p a" | c where "p = a @ lf # c" by (auto simp: prefix_append prefix_Cons)
    then show False
    proof cases
      case 2
      with lf_in_space [OF p] assms(3) show False by (cases a) auto
    qed (use assms(1) p in \<open>simp add: tidy_def\<close>)
  next
    assume "suffix p (a @ lf # lf # b)"
    then consider "suffix p b" | c where "p = c @ lf # b" by (auto simp: suffix_append suffix_Cons)
    then show False
    proof cases
      case 2
      with lf_in_space [OF p] assms(4) show False by (cases c) auto
    qed (use assms(2) p in \<open>simp add: tidy_def\<close>)
  }
qed

lemma despaced_lfs: "despaced [lf, lf] []"
proof -
  have "list_ex (\<lambda>p. p = [lf]) spaces" by code_simp
  then have "[lf] \<in> set spaces" by (auto simp: list_ex_iff)
  then show ?thesis using despaced_spaces [of "[[lf], [lf]]"] by simp
qed

end
