(* ===== verification/Redaction.thy ===== *)
theory Redaction
  imports GoStrings
begin

text \<open>
  The redactor of logs and trace errors (\<open>observe/redact.go\<close>): the secrets it was given, its patterns,
  \<open>Redact\<close>, and the log handler that redacts the message and the attributes of a record. Compiling a
  regular expression and replacing its matches are arguments. The lemmas say that no secret is left in
  what passes through it: replacing one secret never puts another together.
\<close>

section \<open>The redactor\<close>

definition Redacted :: string where
  "Redacted = ''[REDACTED]''"

definition minSecret :: nat where
  "minSecret = 6"

record 're Redactor =
  rx_values :: "string list"
  rx_patterns :: "'re list"

definition Redactor0 :: "'re Redactor" where
  "Redactor0 = \<lparr>rx_values = [], rx_patterns = []\<rparr>"

text \<open>A nil redactor is \<open>None\<close>.\<close>

definition AddPattern :: "(string \<Rightarrow> goerr + 're) \<Rightarrow> 're Redactor option \<Rightarrow> string \<Rightarrow> 're Redactor option \<times> goerr option" where
  "AddPattern compile r p =
    (case r of
       None \<Rightarrow> (None, Some (new_error ''no redactor''))
     | Some x \<Rightarrow>
        (case compile p of
           Inl e \<Rightarrow> (r, Some e)
         | Inr re \<Rightarrow> (Some (x\<lparr>rx_patterns := rx_patterns x @ [re]\<rparr>), None)))"

fun addPatterns :: "(string \<Rightarrow> goerr + 're) \<Rightarrow> 're Redactor option \<Rightarrow> string list \<Rightarrow> goerr + 're Redactor option" where
  "addPatterns compile r [] = Inr r"
| "addPatterns compile r (p # ps) =
    (case AddPattern compile r p of
       (_, Some e) \<Rightarrow> Inl e
     | (r1, None) \<Rightarrow> addPatterns compile r1 ps)"

definition NewRedactor :: "(string \<Rightarrow> goerr + 're) \<Rightarrow> string list \<Rightarrow> goerr + 're Redactor option" where
  "NewRedactor compile ps = addPatterns compile (Some Redactor0) ps"

text \<open>The sort leaves open how secrets of one length are ordered.\<close>

definition Add :: "'re Redactor option \<Rightarrow> string \<Rightarrow> 're Redactor option" where
  "Add r secret =
    (case r of
       None \<Rightarrow> None
     | Some x \<Rightarrow>
        if length secret < minSecret then r
        else if secret \<in> set (rx_values x) then r
        else Some (x\<lparr>rx_values := sort_key (\<lambda>v. - int (length v)) (rx_values x @ [secret])\<rparr>))"

definition Redact :: "('re \<Rightarrow> string \<Rightarrow> string \<Rightarrow> string) \<Rightarrow> 're Redactor option \<Rightarrow> string \<Rightarrow> string" where
  "Redact replaceMatches r s =
    (case r of
       None \<Rightarrow> s
     | Some x \<Rightarrow>
        if s = [] then s
        else fold (\<lambda>re s. replaceMatches re Redacted s) (rx_patterns x)
               (fold (\<lambda>v s. ReplaceAll v Redacted s) (rx_values x) s))"

section \<open>The log handler\<close>

text \<open>An attribute's value, resolved: a string, an error, a group, any other value with its text, or a
  number, time or the like.\<close>

datatype logValue =
    LogString string
  | LogError string
  | LogAny string
  | LogGroup "(string \<times> logValue) list"
  | LogScalar int

fun redactValue :: "(string \<Rightarrow> string) \<Rightarrow> logValue \<Rightarrow> logValue" where
  "redactValue redact (LogString s) = LogString (redact s)"
| "redactValue redact (LogError s) = LogString (redact s)"
| "redactValue redact (LogAny s) = (if redact s \<noteq> s then LogString (redact s) else LogAny s)"
| "redactValue redact (LogGroup as) = LogGroup (map (\<lambda>(k, v). (k, redactValue redact v)) as)"
| "redactValue redact (LogScalar n) = LogScalar n"

definition redactAttr :: "(string \<Rightarrow> string) \<Rightarrow> string \<times> logValue \<Rightarrow> string \<times> logValue" where
  "redactAttr redact a = (fst a, redactValue redact (snd a))"

text \<open>What \<open>Handle\<close> passes on: the message and the attributes of a record; and \<open>WithAttrs\<close>.\<close>

definition redactingHandle :: "(string \<Rightarrow> string) \<Rightarrow> string \<times> (string \<times> logValue) list \<Rightarrow> string \<times> (string \<times> logValue) list" where
  "redactingHandle redact rec = (redact (fst rec), map (redactAttr redact) (snd rec))"

definition redactingWithAttrs :: "(string \<Rightarrow> string) \<Rightarrow> (string \<times> logValue) list \<Rightarrow> (string \<times> logValue) list" where
  "redactingWithAttrs redact attrs = map (redactAttr redact) attrs"

section \<open>Hiding parts of a text\<close>

text \<open>A text some parts of which are replaced by the mark.\<close>

inductive hides :: "string \<Rightarrow> string \<Rightarrow> bool" where
  hides_Nil: "hides [] []"
| hides_keep: "hides s t \<Longrightarrow> hides (c # s) (c # t)"
| hides_part: "hides s t \<Longrightarrow> hides (u @ s) (Redacted @ t)"

definition unbracketed :: "string \<Rightarrow> bool" where
  "unbracketed v \<longleftrightarrow> v \<noteq> [] \<and> CHR ''['' \<notin> set v \<and> CHR '']'' \<notin> set v \<and> \<not> sublist v ''REDACTED''"

lemma hides_refl: "hides s s"
  by (induction s) (auto intro: hides.intros)

lemma sublist_apart: "c \<notin> set v \<Longrightarrow> sublist v (a @ c # t) \<longleftrightarrow> sublist v a \<or> sublist v t"
proof -
  assume c: "c \<notin> set v"
  have "sublist xs (c # t) \<longleftrightarrow> sublist xs t" if "c \<notin> set xs" for xs
    using that by (cases xs) (auto simp: sublist_Cons_right)
  moreover have "suffix v a" if "v = x @ y" "suffix x a" "prefix y (c # t)" for x y
    using that c by (cases y) auto
  ultimately show ?thesis using c unfolding sublist_append by blast
qed

lemma sublist_marked: "unbracketed v \<Longrightarrow> sublist v (Redacted @ t) \<longleftrightarrow> sublist v t"
  using sublist_apart [of "CHR '']''" v "''[REDACTED''" t] sublist_apart [of "CHR ''[''" v "[]" "''REDACTED''"]
  by (auto simp: Redacted_def unbracketed_def)

lemma prefix_shown: "hides s t \<Longrightarrow> prefix v t \<Longrightarrow> CHR ''['' \<notin> set v \<Longrightarrow> prefix v s"
proof (induction arbitrary: v rule: hides.induct)
  case (hides_keep s t c)
  then show ?case by (cases v) auto
next
  case (hides_part s t u)
  then have "v = []" by (cases v) (auto simp: Redacted_def)
  then show ?case by simp
qed simp

lemma sublist_shown: "hides s t \<Longrightarrow> unbracketed v \<Longrightarrow> sublist v t \<Longrightarrow> sublist v s"
proof (induction rule: hides.induct)
  case (hides_keep s t c)
  then consider "prefix v (c # t)" | "sublist v t" by (auto simp: sublist_Cons_right)
  then show ?case
  proof cases
    case 1
    with prefix_shown [OF hides.hides_keep [OF hides_keep.hyps(1)] 1] hides_keep.prems
    show ?thesis by (simp add: unbracketed_def prefix_imp_sublist)
  next
    case 2
    with hides_keep show ?thesis by (simp add: sublist_Cons_right)
  qed
next
  case (hides_part s t u)
  then have "sublist v s" by (simp add: sublist_marked)
  then show ?case by (simp add: sublist_append)
qed (simp add: unbracketed_def)

lemma ReplaceAll_hides: "hides s (ReplaceAll v Redacted s)"
proof (induction v "Redacted" s rule: ReplaceAll.induct)
  case (2 old c cs)
  show ?case
  proof (cases "old \<noteq> [] \<and> prefix old (c # cs)")
    case True
    then have "c # cs = old @ drop (length old) (c # cs)" by (auto simp: prefix_def)
    with 2(1) [OF True] hides_part [of "drop (length old) (c # cs)" _ old] True show ?thesis by simp
  next
    case False
    with 2(2) [OF False] show ?thesis by (auto intro: hides_keep)
  qed
qed (simp add: hides_Nil)

lemma ReplaceAll_gone: "unbracketed v \<Longrightarrow> \<not> sublist v (ReplaceAll v Redacted s)"
proof (induction v "Redacted" s rule: ReplaceAll.induct)
  case (1 v)
  then show ?case by (simp add: unbracketed_def)
next
  case (2 v c cs)
  show ?case
  proof (cases "v \<noteq> [] \<and> prefix v (c # cs)")
    case True
    with 2(1) [OF True 2(3)] 2(3) show ?thesis by (simp add: sublist_marked)
  next
    case False
    with 2(3) have "\<not> prefix v (c # cs)" by (simp add: unbracketed_def)
    with prefix_shown [OF hides_keep [OF ReplaceAll_hides], of v c v cs] 2(3)
    have "\<not> prefix v (c # ReplaceAll v Redacted cs)" by (auto simp: unbracketed_def)
    with 2(2) [OF False 2(3)] False show ?thesis by (auto simp: sublist_Cons_right)
  qed
qed

lemma fold_hidden:
  assumes "\<forall>f \<in> set fs. \<forall>s. hides s (f s)" and "unbracketed v" and "\<not> sublist v s"
  shows "\<not> sublist v (fold (\<lambda>f s. f s) fs s)"
  using assms by (induction fs arbitrary: s) (auto dest: sublist_shown)

lemma values_gone:
  assumes "unbracketed v" and "v \<in> set vs"
  shows "\<not> sublist v (fold (\<lambda>v s. ReplaceAll v Redacted s) vs s)"
proof -
  from assms(2) obtain as bs where vs: "vs = as @ v # bs" by (auto simp: in_set_conv_decomp)
  let ?t = "ReplaceAll v Redacted (fold (\<lambda>v s. ReplaceAll v Redacted s) as s)"
  have "fold (\<lambda>v s. ReplaceAll v Redacted s) bs ?t = fold (\<lambda>f s. f s) (map (\<lambda>v. ReplaceAll v Redacted) bs) ?t"
    by (simp add: fold_map comp_def)
  moreover have "\<not> sublist v (fold (\<lambda>f s. f s) (map (\<lambda>v. ReplaceAll v Redacted) bs) ?t)"
    using ReplaceAll_gone [OF assms(1)] assms(1) by (intro fold_hidden) (auto simp: ReplaceAll_hides)
  ultimately show ?thesis by (simp add: vs)
qed

text \<open>What the regular expression package promises of replacing matches by a text without \<open>$\<close>.\<close>

definition replacesParts :: "('re \<Rightarrow> string \<Rightarrow> string \<Rightarrow> string) \<Rightarrow> bool" where
  "replacesParts replaceMatches \<longleftrightarrow> (\<forall>re s. hides s (replaceMatches re Redacted s))"

lemma Redact_gone:
  assumes "replacesParts replaceMatches" and "unbracketed v" and "v \<in> set (rx_values x)"
  shows "\<not> sublist v (Redact replaceMatches (Some x) s)"
proof (cases "s = []")
  case True
  with assms(2) show ?thesis by (simp add: Redact_def unbracketed_def)
next
  case False
  let ?t = "fold (\<lambda>v s. ReplaceAll v Redacted s) (rx_values x) s"
  have "fold (\<lambda>re s. replaceMatches re Redacted s) (rx_patterns x) ?t =
      fold (\<lambda>f s. f s) (map (\<lambda>re. replaceMatches re Redacted) (rx_patterns x)) ?t"
    by (simp add: fold_map comp_def)
  moreover have "\<not> sublist v (fold (\<lambda>f s. f s) (map (\<lambda>re. replaceMatches re Redacted) (rx_patterns x)) ?t)"
    using values_gone [OF assms(2,3)] assms by (intro fold_hidden) (auto simp: replacesParts_def)
  ultimately show ?thesis using False by (simp add: Redact_def)
qed

section \<open>Secrets added in any order\<close>

datatype redactorOp = AddSecret string | AddExpr string

fun redactorStep :: "(string \<Rightarrow> goerr + 're) \<Rightarrow> redactorOp \<Rightarrow> 're Redactor option \<Rightarrow> 're Redactor option" where
  "redactorStep compile (AddSecret s) r = Add r s"
| "redactorStep compile (AddExpr p) r = fst (AddPattern compile r p)"

lemma redactorStep_values:
  "\<exists>y. redactorStep compile op (Some x) = Some y \<and> set (rx_values x) \<subseteq> set (rx_values y) \<and>
     (\<forall>s. op = AddSecret s \<and> minSecret \<le> length s \<longrightarrow> s \<in> set (rx_values y))"
  by (cases op) (auto simp: Add_def AddPattern_def split: sum.splits)

lemma redactorSteps_values:
  "\<exists>y. fold (redactorStep compile) ops (Some x) = Some y \<and> set (rx_values x) \<subseteq> set (rx_values y) \<and>
     (\<forall>s. AddSecret s \<in> set ops \<and> minSecret \<le> length s \<longrightarrow> s \<in> set (rx_values y))"
proof (induction ops arbitrary: x)
  case (Cons op ops)
  from redactorStep_values [of compile op x] obtain y where y: "redactorStep compile op (Some x) = Some y"
    "set (rx_values x) \<subseteq> set (rx_values y)" "\<And>s. op = AddSecret s \<Longrightarrow> minSecret \<le> length s \<Longrightarrow> s \<in> set (rx_values y)" by blast
  with Cons.IH [of y] show ?case by (simp, blast)
qed simp

text \<open>The texts of an attribute's value.\<close>

fun texts :: "logValue \<Rightarrow> string list" where
  "texts (LogString s) = [s]"
| "texts (LogError s) = [s]"
| "texts (LogAny s) = [s]"
| "texts (LogGroup as) = concat (map (\<lambda>(k, v). texts v) as)"
| "texts (LogScalar n) = []"

lemma texts_redacted:
  assumes "\<And>s. P (redact s)"
  shows "list_all P (texts (redactValue redact v))"
  using assms by (induction redact v rule: redactValue.induct) (auto simp: list_all_iff, (metis prod.case)?)


text \<open>Two secrets, one inside the other, and a pattern that hides everything after it matched.\<close>

definition keyOps :: "redactorOp list" where
  "keyOps = [AddSecret ''sesame'', AddExpr ''x'', AddSecret ''open sesame'']"


end
