(* ===== verification/EventStream.thy ===== *)
theory EventStream
  imports Handlers JsonFields RunStart "HOL-Library.Sublist"
begin

text \<open>
  The event stream of a run (\<open>api/server.go\<close>: \<open>streamEvents\<close>, \<open>endsRun\<close>, \<open>writeSSE\<close>, \<open>writeDelta\<close>) and
  the hub of reply deltas (\<open>runtime/deltas.go\<close>). What the handler's \<open>select\<close> receives is a list of
  inputs in the order it receives them; what it writes is a list of frames. The lemmas follow a client
  that reconnects with the last ID it got.
\<close>

section \<open>Reply deltas\<close>

record Delta =
  de_RunID :: RunID
  de_TaskID :: TaskID
  de_StepID :: StepID
  de_Agent :: string
  de_Content :: string

text \<open>The subscribed channels of each run, with what they hold; a channel is named by its address.\<close>

type_synonym deltaHub = "RunID \<rightharpoonup> (int, Delta list) gomap"

definition deltaCap :: nat where
  "deltaCap = 256"

definition subsIn :: "deltaHub \<Rightarrow> RunID \<Rightarrow> (int, Delta list) gomap" where
  "subsIn h run = (case h run of None \<Rightarrow> [] | Some subs \<Rightarrow> subs)"

definition SubscribeDeltas :: "int \<Rightarrow> RunID \<Rightarrow> deltaHub \<Rightarrow> deltaHub" where
  "SubscribeDeltas ch run h = h(run \<mapsto> mput ch [] (subsIn h run))"

definition cancelDeltas :: "int \<Rightarrow> RunID \<Rightarrow> deltaHub \<Rightarrow> deltaHub" where
  "cancelDeltas ch run h =
    (let rest = mdel ch (subsIn h run)
     in if length rest = 0 then h(run := None) else h(run \<mapsto> rest))"

definition publish :: "Delta \<Rightarrow> deltaHub \<Rightarrow> deltaHub" where
  "publish d h =
    (case h (de_RunID d) of
       None \<Rightarrow> h
     | Some subs \<Rightarrow> h(de_RunID d \<mapsto> mmap (\<lambda>buf. if length buf < deltaCap then buf @ [d] else buf) subs))"

section \<open>Frames\<close>

text \<open>An event with its ID, the run sequence; a delta and a heartbeat have none.\<close>

datatype frame = EventFrame int Event | DeltaFrame Delta | Heartbeat

text \<open>The envelope of \<open>writeSSE\<close> has not all of an event: not the hidden payload, nor the task, the step,
  the place in the session and the time it was stored.\<close>

definition enveloped :: "Event \<Rightarrow> Event" where
  "enveloped ev = ev\<lparr>ev_SessionSequence := 0, ev_TaskID := [], ev_StepID := [], ev_HiddenPayload := None, ev_RecordedAt := 0\<rparr>"

definition writeSSE :: "(Visibility \<Rightarrow> bool) \<Rightarrow> Event \<Rightarrow> frame list" where
  "writeSSE vis ev = (if \<not> vis (ev_Visibility ev) then [] else [EventFrame (ev_Sequence ev) (enveloped ev)])"

definition endsRun :: "Event \<Rightarrow> bool" where
  "endsRun ev \<longleftrightarrow> ev_Type ev = EvRunStateChanged \<and>
     textField ''status'' (ev_Payload ev) \<in> set (map statusName [RunCanceled, RunSucceeded, RunFailed, RunTimedOut])"

text \<open>The loop over the history: the frames, the sequence reached and whether the stream ends.\<close>

fun drainHistory :: "(Visibility \<Rightarrow> bool) \<Rightarrow> int \<Rightarrow> Event list \<Rightarrow> frame list \<times> int \<times> bool" where
  "drainHistory vis afterSeq [] = ([], afterSeq, False)"
| "drainHistory vis afterSeq (ev # evs) =
    (if endsRun ev \<and> evs = [] then (writeSSE vis ev, ev_Sequence ev, True)
     else case drainHistory vis (ev_Sequence ev) evs of
       (fs, s, fin) \<Rightarrow> (writeSSE vis ev @ fs, s, fin))"

text \<open>What the loop's \<open>select\<close> receives: the context's end or the server's closing, an event with the
  deltas that were waiting, the end of the channel, a delta, a tick.\<close>

datatype streamInput = StreamStops | LiveEvent Event "Delta list" | FeedClosed | LiveDelta Delta | Tick

fun streamLoop :: "(Visibility \<Rightarrow> bool) \<Rightarrow> int \<Rightarrow> streamInput list \<Rightarrow> frame list" where
  "streamLoop vis afterSeq [] = []"
| "streamLoop vis afterSeq (StreamStops # ins) = []"
| "streamLoop vis afterSeq (FeedClosed # ins) = []"
| "streamLoop vis afterSeq (LiveEvent ev ds # ins) =
    (if ev_Sequence ev \<le> afterSeq then streamLoop vis afterSeq ins
     else map DeltaFrame ds @ writeSSE vis ev @
       (if endsRun ev then [] else streamLoop vis (ev_Sequence ev) ins))"
| "streamLoop vis afterSeq (LiveDelta d # ins) = DeltaFrame d # streamLoop vis afterSeq ins"
| "streamLoop vis afterSeq (Tick # ins) = Heartbeat # streamLoop vis afterSeq ins"

definition resumeAfter :: "string \<Rightarrow> string \<Rightarrow> int" where
  "resumeAfter lastEventID after =
    (case ParseInt lastEventID of (n, ok) \<Rightarrow> if \<not> ok then fst (ParseInt after) else n)"

text \<open>\<open>flushes\<close> says whether the writer can flush; \<open>ins\<close> is what the loop receives.\<close>

definition streamEvents :: "(string \<Rightarrow> bool) \<Rightarrow> RoleVisibility \<Rightarrow> bool \<Rightarrow> MemStore \<Rightarrow> Identity \<Rightarrow> RunID \<Rightarrow> string
    \<Rightarrow> string \<Rightarrow> streamInput list \<Rightarrow> frame list reply" where
  "streamEvents isUUID vis flushes m i rid lastEventID after ins =
    (if \<not> flushes then Refused 500 [] (Literal ''streaming unsupported'')
     else case allowRun isUUID m i rid needRead of
       Inl refusal \<Rightarrow> refusal
     | Inr _ \<Rightarrow>
        (let see = visible vis i;
             start = resumeAfter lastEventID after
         in case drainHistory see start (ListRunEvents m (id_Tenant i) rid start 0) of
              (fs, afterSeq, fin) \<Rightarrow> Answered 200 (if fin then fs else fs @ streamLoop see afterSeq ins)))"

section \<open>A client that reconnects\<close>

fun eventsIn :: "frame list \<Rightarrow> Event list" where
  "eventsIn [] = []"
| "eventsIn (EventFrame n ev # fs) = ev # eventsIn fs"
| "eventsIn (_ # fs) = eventsIn fs"

fun liveEvents :: "streamInput list \<Rightarrow> Event list" where
  "liveEvents [] = []"
| "liveEvents (LiveEvent ev ds # ins) = ev # liveEvents ins"
| "liveEvents (_ # ins) = liveEvents ins"

lemma eventsIn_append [simp]: "eventsIn (fs @ gs) = eventsIn fs @ eventsIn gs"
  by (induction fs rule: eventsIn.induct) auto

lemma eventsIn_deltas [simp]: "eventsIn (map DeltaFrame ds) = []"
  by (induction ds) auto

lemma eventsIn_writeSSE [simp]:
  "eventsIn (writeSSE vis ev) = map enveloped (filter (\<lambda>e. vis (ev_Visibility e)) [ev])"
  by (simp add: writeSSE_def)

lemma prefix_eventsIn: "prefix fs gs \<Longrightarrow> prefix (eventsIn fs) (eventsIn gs)"
  by (auto simp: prefix_def)

lemma prefix_filter: "prefix xs ys \<Longrightarrow> prefix (filter P xs) (filter P ys)"
  by (auto simp: prefix_def)

text \<open>The sequence after which a reader goes on.\<close>

definition lastSeq :: "int \<Rightarrow> Event list \<Rightarrow> int" where
  "lastSeq k evs = (if evs = [] then k else ev_Sequence (last evs))"

abbreviation inOrder :: "Event list \<Rightarrow> bool" where
  "inOrder evs \<equiv> sorted_wrt (\<lambda>a b. ev_Sequence a < ev_Sequence b) evs"

abbreviation after :: "int \<Rightarrow> Event list \<Rightarrow> Event list" where
  "after k evs \<equiv> filter (\<lambda>ev. k < ev_Sequence ev) evs"

lemma after_history:
  assumes "inOrder evs" and "prefix old evs"
  shows "after k evs = after k old @ after (lastSeq k (after k old)) evs"
proof -
  from assms(2) obtain new where evs: "evs = old @ new" by (auto simp: prefix_def)
  let ?h = "after k old"
  have "after (lastSeq k ?h) old = []" if "?h \<noteq> []"
  proof -
    have "ev_Sequence e \<le> ev_Sequence (last ?h)" if "e \<in> set old" "k < ev_Sequence e" for e
    proof -
      have "inOrder ?h" using assms(1) by (simp add: evs sorted_wrt_append sorted_wrt_filter)
      moreover from that have "e \<in> set ?h" by simp
      ultimately show ?thesis by (cases ?h rule: rev_cases) (force simp: sorted_wrt_append)+
    qed
    moreover have "k < ev_Sequence (last ?h)" using last_in_set [OF \<open>?h \<noteq> []\<close>] by simp
    ultimately show ?thesis by (fastforce simp: lastSeq_def \<open>?h \<noteq> []\<close> filter_empty_conv)
  qed
  moreover have "after (lastSeq k ?h) new = after k new"
  proof (cases "?h = []")
    case False
    then have "last ?h \<in> set old" using last_in_set [OF False] by simp
    moreover have low: "k < ev_Sequence (last ?h)" using last_in_set [OF False] by simp
    ultimately have "\<forall>e \<in> set new. ev_Sequence (last ?h) < ev_Sequence e"
      using assms(1) unfolding evs sorted_wrt_append by blast
    then have "after (ev_Sequence (last ?h)) new = new" "after k new = new"
      using low unfolding filter_id_conv by (blast, force)
    then show ?thesis using False by (simp add: lastSeq_def)
  qed (simp add: lastSeq_def)
  ultimately show ?thesis by (cases "?h = []") (auto simp: evs lastSeq_def)
qed

lemma drainHistory_eq:
  assumes "drainHistory vis k evs = (fs, s, fin)"
  shows "eventsIn fs = map enveloped (filter (\<lambda>e. vis (ev_Visibility e)) evs) \<and> s = lastSeq k evs"
  using assms
proof (induction evs arbitrary: k fs s fin)
  case (Cons ev evs)
  obtain gs t g where rest: "drainHistory vis (ev_Sequence ev) evs = (gs, t, g)"
    by (cases "drainHistory vis (ev_Sequence ev) evs") (rule that)
  from Cons.IH [OF rest] Cons.prems rest show ?case by (auto simp: lastSeq_def split: if_splits)
qed (simp add: lastSeq_def)

lemma streamLoop_events:
  assumes "inOrder (liveEvents ins)" and "\<forall>ev \<in> set (liveEvents ins). k < ev_Sequence ev"
  shows "prefix (eventsIn (streamLoop vis k ins)) (map enveloped (filter (\<lambda>e. vis (ev_Visibility e)) (liveEvents ins)))"
  using assms by (induction vis k ins rule: streamLoop.induct) auto

text \<open>A connection: the store it reads the history from, the ID it resumes after, what it then receives,
  and how many of the frames reach the client before the connection breaks.\<close>

record connection =
  cn_store :: MemStore
  cn_lastID :: string
  cn_query :: string
  cn_ins :: "streamInput list"
  cn_read :: nat

definition shown :: "(string \<Rightarrow> bool) \<Rightarrow> RoleVisibility \<Rightarrow> Identity \<Rightarrow> RunID \<Rightarrow> connection \<Rightarrow> Event list" where
  "shown isUUID vis i rid c =
    (case streamEvents isUUID vis True (cn_store c) i rid (cn_lastID c) (cn_query c) (cn_ins c) of
       Answered status fs \<Rightarrow> eventsIn (take (cn_read c) fs)
     | Refused status code msg \<Rightarrow> [])"

fun received :: "(string \<Rightarrow> bool) \<Rightarrow> RoleVisibility \<Rightarrow> Identity \<Rightarrow> RunID \<Rightarrow> connection list \<Rightarrow> Event list \<Rightarrow> Event list" where
  "received isUUID vis i rid [] got = got"
| "received isUUID vis i rid (c # cs) got = received isUUID vis i rid cs (got @ shown isUUID vis i rid c)"

text \<open>The log of a connection is an earlier state of the run's events; the client resumes after the
  last event it got; and the subscription brings what follows the history, without a gap.\<close>

definition connects :: "Event list \<Rightarrow> Identity \<Rightarrow> RunID \<Rightarrow> Event list \<Rightarrow> connection \<Rightarrow> bool" where
  "connects evs i rid got c \<longleftrightarrow>
     prefix (runEvents (cn_store c) rid) evs \<and> resumeAfter (cn_lastID c) (cn_query c) = lastSeq 0 got \<and>
     prefix (liveEvents (cn_ins c)) (after (lastSeq (lastSeq 0 got) (after (lastSeq 0 got) (runEvents (cn_store c) rid))) evs)"

fun allConnect :: "(string \<Rightarrow> bool) \<Rightarrow> RoleVisibility \<Rightarrow> Event list \<Rightarrow> Identity \<Rightarrow> RunID \<Rightarrow> connection list \<Rightarrow> Event list \<Rightarrow> bool" where
  "allConnect isUUID vis evs i rid [] got \<longleftrightarrow> True"
| "allConnect isUUID vis evs i rid (c # cs) got \<longleftrightarrow>
     connects evs i rid got c \<and> allConnect isUUID vis evs i rid cs (got @ shown isUUID vis i rid c)"

lemma shown_prefix:
  assumes evs: "inOrder evs" "\<forall>ev \<in> set evs. ev_TenantID ev = id_Tenant i" and c: "connects evs i rid got c"
  shows "prefix (shown isUUID vis i rid c)
    (map enveloped (filter (\<lambda>e. visible vis i (ev_Visibility e)) (after (lastSeq 0 got) evs)))"
proof -
  let ?k = "lastSeq 0 got" and ?old = "runEvents (cn_store c) rid" and ?V = "\<lambda>e. visible vis i (ev_Visibility e)"
  from c have old: "prefix ?old evs" and k: "resumeAfter (cn_lastID c) (cn_query c) = ?k"
    and live: "prefix (liveEvents (cn_ins c)) (after (lastSeq ?k (after ?k ?old)) evs)" by (simp_all add: connects_def)
  have "filter (\<lambda>ev. ev_TenantID ev = id_Tenant i) ?old = ?old"
    using evs(2) old by (auto simp: filter_id_conv prefix_def)
  then have hist: "ListRunEvents (cn_store c) (id_Tenant i) rid ?k 0 = after ?k ?old"
    by (simp add: ListRunEvents_eq limited_def)
  obtain fs s fin where d: "drainHistory (visible vis i) ?k (after ?k ?old) = (fs, s, fin)"
    by (cases "drainHistory (visible vis i) ?k (after ?k ?old)") (rule that)
  note drained = drainHistory_eq [OF d]
  let ?ls = "liveEvents (cn_ins c)"
  from live obtain rest where rest: "after s evs = ?ls @ rest" using drained by (auto simp: prefix_def)
  have "inOrder (after s evs)" using evs(1) by (rule sorted_wrt_filter)
  then have "inOrder ?ls" by (simp add: rest sorted_wrt_append)
  moreover have "\<forall>ev \<in> set ?ls. s < ev_Sequence ev"
  proof
    fix ev assume "ev \<in> set ?ls"
    then have "ev \<in> set (after s evs)" by (simp add: rest)
    then show "s < ev_Sequence ev" by simp
  qed
  ultimately have "prefix (eventsIn (streamLoop (visible vis i) s (cn_ins c))) (map enveloped (filter ?V ?ls))"
    by (rule streamLoop_events)
  also have "prefix (map enveloped (filter ?V ?ls)) (map enveloped (filter ?V (after s evs)))"
    by (simp add: rest)
  finally have loop: "prefix (eventsIn (streamLoop (visible vis i) s (cn_ins c))) (map enveloped (filter ?V (after s evs)))" .
  have "after ?k evs = after ?k ?old @ after s evs" using after_history [OF evs(1) old, of ?k] drained by simp
  then have all: "prefix (eventsIn (if fin then fs else fs @ streamLoop (visible vis i) s (cn_ins c)))
      (map enveloped (filter ?V (after ?k evs)))"
    using drained loop by (auto simp: prefix_def)
  show ?thesis
  proof (cases "allowRun isUUID (cn_store c) i rid needRead :: frame list reply + Run")
    case (Inl refusal)
    then show ?thesis by (cases refusal) (auto simp: shown_def streamEvents_def allowRun_def allowSession_def
      writeStoreErr_def writeNotFound_def Let_def split: if_splits sum.splits)
  next
    case (Inr r)
    let ?gs = "if fin then fs else fs @ streamLoop (visible vis i) s (cn_ins c)"
    have "shown isUUID vis i rid c = eventsIn (take (cn_read c) ?gs)"
      using Inr by (simp add: shown_def streamEvents_def k hist d Let_def del: take_append)
    moreover have "prefix (eventsIn (take (cn_read c) ?gs)) (eventsIn ?gs)"
      by (rule prefix_eventsIn) (rule take_is_prefix)
    ultimately show ?thesis using all prefix_order.order_trans by simp
  qed
qed

lemma received_prefix:
  assumes evs: "inOrder evs" "\<forall>ev \<in> set evs. 0 < ev_Sequence ev \<and> ev_TenantID ev = id_Tenant i"
    and "prefix got (map enveloped (filter (\<lambda>e. visible vis i (ev_Visibility e)) evs))"
    and "allConnect isUUID vis evs i rid cs got"
  shows "prefix (received isUUID vis i rid cs got) (map enveloped (filter (\<lambda>e. visible vis i (ev_Visibility e)) evs))"
  using assms(3,4)
proof (induction cs arbitrary: got)
  case (Cons c cs)
  let ?W = "filter (\<lambda>e. visible vis i (ev_Visibility e)) evs"
  from Cons.prems(1) obtain rest where rest: "map enveloped ?W = got @ rest" by (auto simp: prefix_def)
  then obtain A B where W: "?W = A @ B" "got = map enveloped A" by (auto simp: map_eq_append_conv)
  have "inOrder ?W" using evs(1) by (rule sorted_wrt_filter)
  then have order: "inOrder (A @ B)" by (simp only: W)
  have "\<forall>ev \<in> set ?W. 0 < ev_Sequence ev" using evs(2) by simp
  then have pos: "\<forall>ev \<in> set (A @ B). 0 < ev_Sequence ev" by (simp only: W)
  have last: "lastSeq 0 got = lastSeq 0 A" using W(2) by (cases A rule: rev_cases) (simp_all add: lastSeq_def enveloped_def)
  have "after (lastSeq 0 A) (A @ B) = B"
  proof (cases A rule: rev_cases)
    case Nil
    with pos show ?thesis by (simp add: lastSeq_def filter_id_conv)
  next
    case (snoc zs z)
    with order have "\<forall>e \<in> set A. \<not> ev_Sequence z < ev_Sequence e" "\<forall>e \<in> set B. ev_Sequence z < ev_Sequence e"
      by (force simp: sorted_wrt_append)+
    then have "after (ev_Sequence z) A = []" "after (ev_Sequence z) B = B" by (auto simp: filter_empty_conv filter_id_conv)
    with snoc show ?thesis by (simp add: lastSeq_def)
  qed
  moreover have "filter (\<lambda>e. visible vis i (ev_Visibility e)) (after (lastSeq 0 got) evs) = after (lastSeq 0 A) (A @ B)"
    unfolding last W(1) [symmetric] by (simp add: conj_commute)
  ultimately have "prefix (shown isUUID vis i rid c) (map enveloped B)"
    using shown_prefix [OF evs(1), of i rid got c isUUID vis] evs(2) Cons.prems(2) by simp
  then have "prefix (got @ shown isUUID vis i rid c) (map enveloped ?W)" by (simp add: W)
  with Cons.IH [OF this] Cons.prems(2) show ?case by simp
qed simp


text \<open>A run with a public, an internal and another public event; a client that loses its connection after
  the first and then gets the last from the subscription.\<close>

definition feedCaller :: Identity where
  "feedCaller = \<lparr>id_Tenant = ''a'', id_Principal = ''p'', id_Role = RoleViewer\<rparr>"

definition feedEvent :: "Visibility \<Rightarrow> Event \<times> stamp" where
  "feedEvent v = (Event0\<lparr>ev_TenantID := ''a'', ev_RunID := ''r'', ev_SessionID := ''s'', ev_Visibility := v\<rparr>,
     \<lparr>stp_ID = ''e'', stp_OccurredAt = 1, stp_RecordedAt = 2, stp_CorrelationID = ''c''\<rparr>)"

definition feedBase :: MemStore where
  "feedBase = fst (CreateRun (fst (CreateSession NewMemStore (Session0\<lparr>se_TenantID := ''a'', se_CreatedBy := ''p''\<rparr>) ''s'' 1))
     (Run0\<lparr>ru_TenantID := ''a'', ru_SessionID := ''s''\<rparr>) ''r'' 1)"

definition feedStore :: "Visibility list \<Rightarrow> MemStore" where
  "feedStore vs = fst (the (Append feedBase (map feedEvent vs)))"

definition feedAll :: MemStore where
  "feedAll = feedStore [VisibilityPublic, VisibilityInternal, VisibilityPublic]"

definition feedConnections :: "connection list" where
  "feedConnections =
    [\<lparr>cn_store = feedStore [VisibilityPublic], cn_lastID = [], cn_query = [],
       cn_ins = [Tick, LiveEvent (ms_events feedAll ! 1) []], cn_read = 1\<rparr>,
     \<lparr>cn_store = feedStore [VisibilityPublic, VisibilityInternal], cn_lastID = ''1'', cn_query = [],
       cn_ins = [Tick, LiveEvent (ms_events feedAll ! 2) []], cn_read = 2\<rparr>]"


end
