(* ===== verification/MemoryTools.thy ===== *)
theory MemoryTools
  imports GoStrings Memories Sessions Runs JsonFields ToolUse
begin

text \<open>
  The long-term memory tools (\<open>tool/memory/memory.go\<close>): \<open>memory.save\<close>, \<open>memory.search\<close>, and \<open>Ingest\<close>,
  which splits a document into parts and saves them all or none. The embedder is an argument. The
  lemmas say what \<open>split\<close> makes of a text: parts of bounded size that together hold all of it but
  white space.
\<close>

section \<open>Settings\<close>

record MemoryTools =
  mt_Model :: string
  mt_WriteScope :: MemoryScope
  mt_MaxChars :: int
  mt_MaxIngestBytes :: int
  mt_Limit :: int

definition withToolDefaults :: "MemoryTools \<Rightarrow> MemoryTools" where
  "withToolDefaults t =
    (let t1 = (if mt_WriteScope t = [] then t\<lparr>mt_WriteScope := MemorySession\<rparr> else t);
         t2 = (if mt_MaxChars t1 \<le> 0 then t1\<lparr>mt_MaxChars := 2000\<rparr> else t1);
         t3 = (if mt_MaxIngestBytes t2 \<le> 0 then t2\<lparr>mt_MaxIngestBytes := 2 ^ 20\<rparr> else t2)
     in if mt_Limit t3 \<le> 0 then t3\<lparr>mt_Limit := 5\<rparr> else t3)"

section \<open>Splitting a document\<close>

fun runeBack :: "string \<Rightarrow> nat \<Rightarrow> nat" where
  "runeBack para 0 = 0"
| "runeBack para (Suc n) = (if RuneStart (para ! Suc n) then Suc n else runeBack para n)"

text \<open>Where a paragraph longer than \<open>mx\<close> is cut.\<close>

definition cutAt :: "nat \<Rightarrow> string \<Rightarrow> nat" where
  "cutAt mx para =
    (let k = lastIndexAny (take mx para) [CHR '' '', lf, CHR 0x09]
     in if k \<le> 0 then (let c = runeBack para mx in if c = 0 then decodeSize para else c) else nat k)"

text \<open>The parts found and the builder \<open>cur\<close>.\<close>

type_synonym splitting = "string list \<times> string"

definition flushPart :: "splitting \<Rightarrow> splitting" where
  "flushPart st = (let s = TrimSpace (snd st) in (if s \<noteq> [] then fst st @ [s] else fst st, []))"

lemma cutAt_pos: "mx < length para \<Longrightarrow> 0 < cutAt mx para"
  using decodeSize_bounds [of para] by (cases "para = []") (auto simp: cutAt_def Let_def)

function cutLong :: "nat \<Rightarrow> splitting \<Rightarrow> string \<Rightarrow> splitting \<times> string" where
  "cutLong mx st para =
    (if length para \<le> mx then (st, para)
     else cutLong mx (fst (flushPart st) @ [TrimSpace (take (cutAt mx para) para)], [])
            (TrimSpace (drop (cutAt mx para) para)))"
  by pat_completeness auto
termination
proof (relation "measure (\<lambda>(_, _, p). length p)", simp)
  fix mx st and para :: string
  assume "\<not> length para \<le> mx"
  then have "0 < cutAt mx para" "0 < length para" using cutAt_pos [of mx para] by auto
  then have "length (TrimSpace (drop (cutAt mx para) para)) < length para"
    using TrimSpace_length [of "drop (cutAt mx para) para"] unfolding length_drop by linarith
  then show "((mx, (fst (flushPart st) @ [TrimSpace (take (cutAt mx para) para)], []),
      TrimSpace (drop (cutAt mx para) para)), (mx, st, para)) \<in> measure (\<lambda>(_, _, p). length p)" by simp
qed

declare cutLong.simps [simp del]

text \<open>The body of the loop over the paragraphs.\<close>

definition splitStep :: "nat \<Rightarrow> splitting \<Rightarrow> string \<Rightarrow> splitting" where
  "splitStep mx st para0 =
    (case cutLong mx st (TrimSpace para0) of
       (st1, para) \<Rightarrow>
         if para = [] then st1
         else let st2 = (if length (snd st1) > 0 \<and> length (snd st1) + 2 + length para > mx then flushPart st1 else st1);
                  cur = (if length (snd st2) > 0 then snd st2 @ [lf, lf] else snd st2)
              in (fst st2, cur @ para))"

definition splitText :: "string \<Rightarrow> nat \<Rightarrow> string list" where
  "splitText text mx = fst (flushPart (foldl (splitStep mx) ([], []) (splitParagraphs text)))"

section \<open>Scopes\<close>

record memWhere =
  wh_session :: SessionID
  wh_project :: string
  wh_workflow :: string

text \<open>\<open>scope\<close>: where the run of a call belongs.\<close>

definition callScope :: "MemStore \<Rightarrow> TenantID \<Rightarrow> RunID \<Rightarrow> goerr + memWhere" where
  "callScope m tenant rid =
    (case GetRun m tenant rid of
       Inl e \<Rightarrow> Inl e
     | Inr run \<Rightarrow>
        (case GetSession m tenant (ru_SessionID run) of
           Inl e \<Rightarrow> Inl e
         | Inr sess \<Rightarrow> Inr \<lparr>wh_session = ru_SessionID run, wh_project = se_Project sess,
             wh_workflow = textField ''name'' (ru_Workflow run)\<rparr>))"

definition scoped :: "Memory \<Rightarrow> MemoryScope \<Rightarrow> memWhere \<Rightarrow> goerr + Memory" where
  "scoped m0 scope w =
    (let m = m0\<lparr>mem_Scope := scope\<rparr>
     in if scope = MemorySession then Inr (m\<lparr>mem_SessionID := wh_session w\<rparr>)
        else if scope = MemoryProject then
          (if wh_project w = []
           then Inl (Errorf ''%w: this session belongs to no project, so there is no project memory to save to'' [Sentinel ErrInvalidMemory])
           else Inr (m\<lparr>mem_Project := wh_project w\<rparr>))
        else if scope = MemoryWorkflow then Inr (m\<lparr>mem_Workflow := wh_workflow w\<rparr>)
        else Inr m)"

definition MemorySource0 :: MemorySource where
  "MemorySource0 = \<lparr>src_RunID = [], src_SessionID = [], src_TaskID = [], src_StepID = [], src_ArtifactID = [],
     src_Document = [], src_Part = 0, src_By = []\<rparr>"

definition Memory0 :: Memory where
  "Memory0 = \<lparr>mem_ID = [], mem_TenantID = [], mem_Scope = [], mem_SessionID = [], mem_Project = [], mem_Workflow = [],
     mem_Content = [], mem_Embedding = [], mem_EmbedModel = [], mem_Source = MemorySource0, mem_CreatedAt = 0\<rparr>"

type_synonym embedder = "string \<Rightarrow> string list \<Rightarrow> goerr + real list list"

definition embedOne :: "embedder \<Rightarrow> string \<Rightarrow> string \<Rightarrow> goerr + real list" where
  "embedOne Embed model text =
    (case Embed model [text] of
       Inl e \<Rightarrow> Inl (Errorf ''embed: %w'' [e])
     | Inr v \<Rightarrow> if length v \<noteq> 1 then Inl (new_error ''embed: %d vectors for one text'') else Inr (v ! 0))"

section \<open>The tools\<close>

definition saveMemory :: "embedder \<Rightarrow> MemoryTools \<Rightarrow> Call \<Rightarrow> string \<Rightarrow> time \<Rightarrow> MemStore
    \<Rightarrow> MemStore \<times> (goerr + ToolResult)" where
  "saveMemory Embed t c newID now m =
    (if \<not> decodes [''content''] [] (cl_Input c) then (m, Inl (new_error ''json''))
     else let content = TrimSpace (textField ''content'' (cl_Input c))
     in if content = [] then (m, Inl (new_error ''content is empty''))
        else if int (length content) > mt_MaxChars t then (m, Inl (new_error ''content is %d bytes; save at most %d''))
        else case callScope m (cl_TenantID c) (cl_RunID c) of
          Inl e \<Rightarrow> (m, Inl e)
        | Inr w \<Rightarrow>
           (case scoped (Memory0\<lparr>mem_TenantID := cl_TenantID c, mem_Content := content, mem_EmbedModel := mt_Model t,
                   mem_Source := MemorySource0\<lparr>src_RunID := cl_RunID c, src_SessionID := wh_session w,
                     src_TaskID := cl_TaskID c, src_StepID := cl_StepID c\<rparr>\<rparr>) (mt_WriteScope t) w of
              Inl e \<Rightarrow> (m, Inl e)
            | Inr mem \<Rightarrow>
               (case embedOne Embed (mt_Model t) content of
                  Inl e \<Rightarrow> (m, Inl e)
                | Inr v \<Rightarrow>
                   (case PutMemory m (mem\<lparr>mem_Embedding := v\<rparr>, newID, now) of
                      (m1, Inl e) \<Rightarrow> (m1, Inl e)
                    | (m1, Inr i) \<Rightarrow> (m1, Inr (ToolResult0\<lparr>tr_Output := Some (mustJSON
                        (JObj [(''saved'', JStr i), (''scope'', JStr (mem_Scope mem))]))\<rparr>))))))"

text \<open>The hits as the tool shows them, with scores cut to three digits; \<open>document\<close> writes them down.\<close>

record foundMemory =
  fm_Content :: string
  fm_Score :: real
  fm_Scope :: MemoryScope
  fm_Source :: MemorySource
  fm_Saved :: time

definition cutScore :: "real \<Rightarrow> real" where
  "cutScore x = (let y = x * 1000 in of_int (if y < 0 then \<lceil>y\<rceil> else \<lfloor>y\<rfloor>) / 1000)"

definition foundHit :: "MemoryHit \<Rightarrow> foundMemory" where
  "foundHit h = (let mem = mh_Memory h in \<lparr>fm_Content = mem_Content mem, fm_Score = cutScore (mh_Score h),
     fm_Scope = mem_Scope mem, fm_Source = mem_Source mem, fm_Saved = mem_CreatedAt mem\<rparr>)"

definition searchMemory :: "embedder \<Rightarrow> (foundMemory list \<Rightarrow> json) \<Rightarrow> MemoryTools \<Rightarrow> Call \<Rightarrow> MemStore \<Rightarrow> goerr + ToolResult" where
  "searchMemory Embed document t c m =
    (if \<not> decodes [''query''] [] (cl_Input c) then Inl (new_error ''json'')
     else let q = textField ''query'' (cl_Input c)
     in if TrimSpace q = [] then Inl (new_error ''query is empty'')
        else case callScope m (cl_TenantID c) (cl_RunID c) of
          Inl e \<Rightarrow> Inl e
        | Inr w \<Rightarrow>
           (case embedOne Embed (mt_Model t) q of
              Inl e \<Rightarrow> Inl e
            | Inr v \<Rightarrow> Inr (ToolResult0\<lparr>tr_Output := Some (document (map foundHit (SearchMemories m
                \<lparr>mq_TenantID = cl_TenantID c, mq_Embedding = v, mq_EmbedModel = mt_Model t, mq_SessionID = wh_session w,
                 mq_Project = wh_project w, mq_Workflow = wh_workflow w, mq_Limit = mt_Limit t\<rparr>)))\<rparr>)))"

text \<open>The two tools, as \<open>Register\<close> adds them; what executes them is given with the settings.\<close>

definition oneTextSchema :: "string \<Rightarrow> string \<Rightarrow> json" where
  "oneTextSchema name what = JObj [(''type'', JStr ''object''),
     (''properties'', JObj [(name, JObj [(''type'', JStr ''string''), (''description'', JStr what)])]),
     (''required'', JArr [JStr name])]"

definition saveDefinition :: ToolDefinition where
  "saveDefinition = \<lparr>td_ID = [], td_Name = ''memory.save'', td_Version = [],
     td_Description = ''Remember a fact, preference or decision for later conversations. Save one self-contained statement per call.'',
     td_InputSchema = Some (oneTextSchema ''content'' ''the statement to remember''), td_OutputSchema = None,
     td_Idempotency = [], td_SideEffect = SideWriteInternal, td_Concurrency = ConcurrencyParallelIsolatedWrite,
     td_RequiresApproval = False, td_Timeout = 0\<rparr>"

definition searchDefinition :: ToolDefinition where
  "searchDefinition = \<lparr>td_ID = [], td_Name = ''memory.search'', td_Version = [],
     td_Description = ''Search what was remembered in earlier conversations. Returns the closest memories with where they came from.'',
     td_InputSchema = Some (oneTextSchema ''query'' ''what to look for''), td_OutputSchema = None,
     td_Idempotency = IdemIdempotent, td_SideEffect = SideNone, td_Concurrency = ConcurrencyParallelRead,
     td_RequiresApproval = False, td_Timeout = 0\<rparr>"

definition RegisterMemoryTools :: "(json \<Rightarrow> goerr + 'sc) \<Rightarrow> ToolID \<times> ToolID \<Rightarrow> (MemoryTools \<Rightarrow> 'x) \<Rightarrow> (MemoryTools \<Rightarrow> 'x)
    \<Rightarrow> MemoryTools \<Rightarrow> ('x, 'sc) Registry \<Rightarrow> ('x, 'sc) Registry \<times> goerr option" where
  "RegisterMemoryTools compileSchema ids save search t0 reg =
    (let t = withToolDefaults t0
     in case Register compileSchema (fst ids) saveDefinition (Some (save t)) reg of
          (reg1, Some e) \<Rightarrow> (reg1, Some e)
        | (reg1, None) \<Rightarrow> Register compileSchema (snd ids) searchDefinition (Some (search t)) reg1)"

section \<open>Ingesting a document\<close>

definition embedBatch :: nat where
  "embedBatch = 32"

text \<open>The loop over the batches; \<open>start\<close> parts are done.\<close>

function ingestLoop :: "embedder \<Rightarrow> string \<Rightarrow> Memory \<Rightarrow> MemorySource \<Rightarrow> nat \<Rightarrow> string list \<Rightarrow> goerr + Memory list" where
  "ingestLoop Embed model template src start parts =
    (if parts = [] then Inr []
     else let batch = take embedBatch parts
          in case Embed model batch of
               Inl e \<Rightarrow> Inl (Errorf ''embed: %w'' [e])
             | Inr vecs \<Rightarrow>
                if length vecs \<noteq> length batch then Inl (new_error ''embed: %d vectors for %d texts'')
                else case ingestLoop Embed model template src (start + embedBatch) (drop embedBatch parts) of
                    Inl e \<Rightarrow> Inl e
                  | Inr rest \<Rightarrow> Inr (map (\<lambda>i. template\<lparr>mem_Content := batch ! i, mem_Embedding := vecs ! i,
                      mem_Source := src\<lparr>src_Part := int (start + i + 1)\<rparr>\<rparr>) [0..<length batch] @ rest))"
  by pat_completeness auto
termination
  by (relation "measure (\<lambda>(_, _, _, _, _, ps). length ps)") (auto simp: embedBatch_def)

declare ingestLoop.simps [simp del]

definition Ingest :: "embedder \<Rightarrow> MemoryTools \<Rightarrow> TenantID \<Rightarrow> SessionID \<Rightarrow> MemoryScope \<Rightarrow> string \<Rightarrow> MemorySource
    \<Rightarrow> (nat \<Rightarrow> string \<times> time) \<Rightarrow> MemStore \<Rightarrow> MemStore \<times> (goerr + string list)" where
  "Ingest Embed t0 tenant sid scope text src fresh m =
    (let t = withToolDefaults t0
     in if scope \<noteq> MemorySession \<and> scope \<noteq> MemoryProject \<and> scope \<noteq> MemoryTenant
        then (m, Inl (Errorf ''%w: ingest into session, project or tenant memory, not %q'' [Sentinel ErrInvalidMemory]))
        else if int (length text) > mt_MaxIngestBytes t
        then (m, Inl (Errorf ''%w: %d bytes, at most %d'' [Sentinel ErrMemoryTooLarge]))
        else case GetSession m tenant sid of
          Inl e \<Rightarrow> (m, Inl e)
        | Inr sess \<Rightarrow>
           (case scoped (Memory0\<lparr>mem_TenantID := tenant, mem_EmbedModel := mt_Model t\<rparr>) scope
                   \<lparr>wh_session = sid, wh_project = se_Project sess, wh_workflow = []\<rparr> of
              Inl e \<Rightarrow> (m, Inl e)
            | Inr template \<Rightarrow>
               (let parts = splitText (ReplaceAll [CHR 0x0D, lf] [lf] text) (nat (mt_MaxChars t))
                in if parts = [] then (m, Inl (Errorf ''%w: nothing to ingest'' [Sentinel ErrInvalidMemory]))
                   else case ingestLoop Embed (mt_Model t) template (src\<lparr>src_SessionID := sid\<rparr>) 0 parts of
                       Inl e \<Rightarrow> (m, Inl e)
                     | Inr mems \<Rightarrow> PutMemories m (map2 (\<lambda>mem i. (mem, fresh i)) mems [0..<length mems]))))"

section \<open>What \<open>splitText\<close> makes of a text\<close>

lemma lastIndexAny_bound: "lastIndexAny s cs < int (length s) \<and> -1 \<le> lastIndexAny s cs"
  by (induction s) (auto simp: Let_def)

lemma runeBack_bound: "runeBack para n \<le> n"
  by (induction n) auto

lemma cutAt_bound: "4 \<le> mx \<Longrightarrow> mx < length para \<Longrightarrow> cutAt mx para \<le> mx"
proof -
  assume mx: "4 \<le> mx" "mx < length para"
  have "lastIndexAny (take mx para) [CHR '' '', lf, CHR 0x09] < int mx"
    using lastIndexAny_bound [of "take mx para"] mx by auto
  moreover have "decodeSize para \<le> mx" using decodeSize_bounds [of para] mx by (cases "para = []") auto
  ultimately show ?thesis using runeBack_bound [of para mx] by (auto simp: cutAt_def Let_def)
qed

definition partsOK :: "nat \<Rightarrow> string list \<Rightarrow> bool" where
  "partsOK mx ps \<longleftrightarrow> (\<forall>p \<in> set ps. tidy p \<and> p \<noteq> [] \<and> length p \<le> mx)"

lemma flushPart_clean: "flushPart (ps, []) = (ps, [])"
  using TrimSpace_length [of "[]"] by (simp add: flushPart_def Let_def)

lemma cutLong_facts:
  assumes "cutLong mx st para = (st1, rest)" and "4 \<le> mx" and "tidy para"
  shows "length rest \<le> mx \<and> tidy rest \<and>
    (if length para \<le> mx then st1 = st \<and> rest = para
     else \<exists>new. st1 = (fst (flushPart st) @ new, []) \<and> despaced para (concat new @ rest) \<and> partsOK mx new)"
  using assms
proof (induction mx st para arbitrary: st1 rest rule: cutLong.induct)
  case (1 mx st para)
  show ?case
  proof (cases "length para \<le> mx")
    case True
    with 1 show ?thesis by (simp add: cutLong.simps [of mx st para])
  next
    case False
    let ?k = "cutAt mx para"
    let ?p = "TrimSpace (take ?k para)" and ?para = "TrimSpace (drop ?k para)"
    from False have k: "0 < ?k" "?k \<le> mx" using cutAt_pos cutAt_bound [OF 1(3)] by auto
    have "take ?k para \<noteq> []" using k False by auto
    then have p: "tidy ?p" "?p \<noteq> []" "length ?p \<le> mx"
      using tidy_TrimSpace TrimSpace_nonempty [OF 1(4) take_is_prefix, of ?k] TrimSpace_length [of "take ?k para"] k by auto
    from False 1(2) have "cutLong mx (fst (flushPart st) @ [?p], []) ?para = (st1, rest)"
      by (simp add: cutLong.simps [of mx st para])
    from 1(1) [OF False this 1(3) tidy_TrimSpace] have ih: "length rest \<le> mx \<and> tidy rest \<and>
        (\<exists>new. st1 = (fst (flushPart st) @ ?p # new, []) \<and> despaced ?para (concat new @ rest) \<and> partsOK mx new)"
      by (cases "length ?para \<le> mx") (auto simp: flushPart_clean partsOK_def intro: exI [of _ "[]"])
    then obtain new where new: "st1 = (fst (flushPart st) @ ?p # new, [])" "despaced ?para (concat new @ rest)" "partsOK mx new"
      by blast
    from TrimSpace_split [of "drop ?k para"] obtain ps qs where s: "set ps \<subseteq> set spaces" "set qs \<subseteq> set spaces"
      "drop ?k para = concat ps @ ?para @ concat qs" by blast
    have "despaced (take ?k para @ concat ps @ ?para @ concat qs) (?p @ [] @ (concat new @ rest) @ [])"
      by (intro despaced_append despaced_spaces TrimSpace_despaced new s)
    then have "despaced para (concat (?p # new) @ rest)" using s(3) [symmetric] by simp
    moreover have "partsOK mx (?p # new)" using p new(3) by (auto simp: partsOK_def)
    ultimately show ?thesis using ih new(1) False by auto
  qed
qed

text \<open>What holds of the parts and the builder once the text \<open>done0\<close> has been gone through.\<close>

definition splitInv :: "nat \<Rightarrow> string \<Rightarrow> splitting \<Rightarrow> bool" where
  "splitInv mx seen st \<longleftrightarrow> despaced seen (concat (fst st) @ snd st) \<and> partsOK mx (fst st) \<and>
     tidy (snd st) \<and> length (snd st) \<le> mx"

lemma flushPart_tidy: "tidy cur \<Longrightarrow> flushPart (ps, cur) = (if cur \<noteq> [] then ps @ [cur] else ps, [])"
  by (simp add: flushPart_def TrimSpace_tidy)

lemma splitInv_flush: "splitInv mx seen st \<Longrightarrow> splitInv mx seen (flushPart st)"
  by (cases st) (auto simp: splitInv_def flushPart_tidy partsOK_def tidy_def dest: spaces_nonempty)

lemma splitInv_add:
  assumes inv: "splitInv mx seen (ps, cur)" and d: "despaced text para" and para: "tidy para" "para \<noteq> []" "length para \<le> mx"
    and sep: "sep = [lf, lf] \<or> sep = [] \<and> cur = []"
    and cur: "cur = [] \<or> length cur + 2 + length para \<le> mx"
  shows "splitInv mx (seen @ sep @ text) (ps, (if cur = [] then [] else cur @ [lf, lf]) @ para)"
proof -
  note lfs = despaced_lfs
  show ?thesis
  proof (cases "cur = []")
    case True
    have "despaced (seen @ sep @ text) (concat ps @ [] @ para)"
      using inv d sep lfs True by (intro despaced_append) (auto simp: splitInv_def)
    with inv para True show ?thesis by (simp add: splitInv_def)
  next
    case False
    have "despaced (seen @ sep @ text) ((concat ps @ cur) @ [lf, lf] @ para)"
      using inv d sep False by (intro despaced_append) (auto simp: splitInv_def)
    moreover have "tidy (cur @ lf # lf # para)" using inv para False by (intro tidy_join) (auto simp: splitInv_def)
    ultimately show ?thesis using inv cur False by (simp add: splitInv_def)
  qed
qed

lemma splitInv_step:
  assumes inv: "splitInv mx seen st" and mx: "4 \<le> mx" and sep: "sep = [lf, lf] \<or> sep = [] \<and> snd st = []"
  shows "splitInv mx (seen @ sep @ para0) (splitStep mx st para0)"
proof -
  let ?p0 = "TrimSpace para0"
  obtain st1 para where c: "cutLong mx st ?p0 = (st1, para)" by (cases "cutLong mx st ?p0") (rule that)
  note cut = cutLong_facts [OF c mx tidy_TrimSpace]
  have lfs: "despaced sep []" using sep by (auto intro: despaced_Nil despaced_lfs)
  from TrimSpace_split [of para0] obtain ps qs where s: "set ps \<subseteq> set spaces" "set qs \<subseteq> set spaces"
    "para0 = concat ps @ ?p0 @ concat qs" by blast
  have ends: "despaced para0 t" if "despaced ?p0 t" for t
  proof -
    have "despaced (concat ps @ ?p0 @ concat qs) ([] @ t @ [])"
      by (intro despaced_append despaced_spaces that s)
    with s(3) show ?thesis by simp
  qed
  show ?thesis
  proof (cases "length ?p0 \<le> mx")
    case True
    then have st1: "st1 = st" "para = ?p0" using cut by auto
    show ?thesis
    proof (cases "para = []")
      case True
      have "despaced (seen @ sep @ para0) ((concat (fst st) @ snd st) @ [] @ [])"
        using inv lfs ends [of "[]"] True st1 by (intro despaced_append) (auto simp: splitInv_def intro: despaced_Nil)
      with inv True c st1 show ?thesis by (simp add: splitStep_def splitInv_def)
    next
      case False
      let ?full = "length (snd st) > 0 \<and> length (snd st) + 2 + length para > mx"
      define st2 where "st2 = (if ?full then flushPart st else st)"
      have i2: "splitInv mx seen (fst st2, snd st2)" using inv splitInv_flush by (simp add: st2_def)
      have "snd (flushPart st) = []" by (simp add: flushPart_def Let_def)
      then have "snd st2 = [] \<or> length (snd st2) + 2 + length para \<le> mx" "sep = [lf, lf] \<or> sep = [] \<and> snd st2 = []"
        using sep by (auto simp: st2_def)
      with splitInv_add [OF i2 ends, of para sep] False cut st1
      have "splitInv mx (seen @ sep @ para0) (fst st2, (if snd st2 = [] then [] else snd st2 @ [lf, lf]) @ para)" by auto
      moreover have "splitStep mx st para0 = (fst st2, (if snd st2 = [] then [] else snd st2 @ [lf, lf]) @ para)"
        using c False st1 by (simp add: splitStep_def st2_def Let_def)
      ultimately show ?thesis by simp
    qed
  next
    case False
    with cut obtain new where new: "st1 = (fst (flushPart st) @ new, [])" "despaced ?p0 (concat new @ para)" "partsOK mx new" by auto
    have fl: "splitInv mx seen (fst (flushPart st), [])"
      using splitInv_flush [OF inv] by (simp add: flushPart_def Let_def)
    have "despaced (seen @ sep @ para0) (concat (fst (flushPart st)) @ [] @ concat new @ para)"
      using fl lfs ends [OF new(2)] by (intro despaced_append) (auto simp: splitInv_def)
    then have "splitInv mx (seen @ sep @ para0) (fst (flushPart st) @ new, para)"
      using fl new(3) cut by (auto simp: splitInv_def partsOK_def)
    moreover have "splitStep mx st para0 = (fst (flushPart st) @ new, para)"
      using c new(1) by (simp add: splitStep_def Let_def)
    ultimately show ?thesis by simp
  qed
qed

text \<open>The paragraphs, joined, are the text.\<close>

fun joined :: "string list \<Rightarrow> string" where
  "joined [] = []"
| "joined (p # ps) = [lf, lf] @ p @ joined ps"

lemma splitParagraphs_joined: "\<exists>p ps. splitParagraphs doc = p # ps \<and> doc = p @ joined ps"
  by (induction doc rule: splitParagraphs.induct) auto

lemma splitInv_paragraphs:
  assumes "splitInv mx seen st" and "4 \<le> mx"
  shows "splitInv mx (seen @ joined ps) (foldl (splitStep mx) st ps)"
  using assms(1)
proof (induction ps arbitrary: seen st)
  case (Cons p ps)
  from splitInv_step [OF Cons.prems assms(2), of "[lf, lf]" p] Cons.IH
  have "splitInv mx ((seen @ [lf, lf] @ p) @ joined ps) (foldl (splitStep mx) (splitStep mx st p) ps)" by blast
  then show ?case by simp
qed simp

lemma splitText_facts:
  assumes "4 \<le> mx"
  shows "despaced text (concat (splitText text mx)) \<and> partsOK mx (splitText text mx)"
proof -
  from splitParagraphs_joined obtain p ps where s: "splitParagraphs text = p # ps" "text = p @ joined ps" by blast
  have "tidy []" using tidy_TrimSpace [of "[]"] TrimSpace_length [of "[]"] by simp
  then have "splitInv mx [] ([], [])" by (simp add: splitInv_def partsOK_def)
  from splitInv_step [OF this assms, of "[]" p] have "splitInv mx p (splitStep mx ([], []) p)" by simp
  from splitInv_flush [OF splitInv_paragraphs [OF this assms, of ps]]
  have "splitInv mx text (flushPart (foldl (splitStep mx) ([], []) (p # ps)))" by (simp add: s(2))
  then show ?thesis by (simp add: splitText_def s(1) splitInv_def flushPart_def Let_def)
qed

text \<open>C31: A document is split into parts that together hold all of it but white space, in its order; each
  is not empty, begins and ends with no white space, and has at most the bytes asked for, if these
  can hold any character; no character is cut in two unless the text is not UTF-8.\<close>

theorem split_keeps_the_text:
  assumes "4 \<le> mx"
  shows "despaced doc (concat (splitText doc mx)) \<and>
    (\<forall>p \<in> set (splitText doc mx). p \<noteq> [] \<and> length p \<le> mx \<and> TrimSpace p = p)"
  using splitText_facts [OF assms, of doc] by (auto simp: partsOK_def TrimSpace_tidy)

lemma longWord: "splitText ''alphabeta'' 5 = [''alpha'', ''beta'']"
proof -
  have tidy_words: "TrimSpace ''alphabeta'' = ''alphabeta''" "TrimSpace ''alpha'' = ''alpha''" "TrimSpace ''beta'' = ''beta''"
    by (rule TrimSpace_graphic; code_simp)+
  have para: "splitParagraphs ''alphabeta'' = [''alphabeta'']" and cut: "cutAt 5 ''alphabeta'' = 5" by code_simp+
  have "cutLong 5 ([], []) ''alphabeta'' = cutLong 5 ([''alpha''], []) ''beta''"
    by (subst cutLong.simps) (simp add: cut tidy_words flushPart_clean)
  also have "\<dots> = (([''alpha''], []), ''beta'')" by (subst cutLong.simps) simp
  finally show ?thesis
    by (simp add: splitText_def para splitStep_def tidy_words flushPart_def Let_def)
qed

theorem split_keeps_the_text_witness:
  "despaced ''alphabeta'' (concat (splitText ''alphabeta'' 5)) \<and> splitText ''alphabeta'' 5 = [''alpha'', ''beta'']"
proof
  have "4 \<le> (5 :: nat)" by simp
  from conjunct1 [OF split_keeps_the_text [OF this]] show "despaced ''alphabeta'' (concat (splitText ''alphabeta'' 5))" .
qed (rule longWord)

section \<open>What \<open>Ingest\<close> saves\<close>

lemma ingestLoop_ok:
  assumes "ingestLoop Embed model template src start parts = Inr mems"
  shows "length mems = length parts \<and> (\<forall>k < length parts. \<exists>v. mems ! k =
    template\<lparr>mem_Content := parts ! k, mem_Embedding := v, mem_Source := src\<lparr>src_Part := int (start + k + 1)\<rparr>\<rparr>)"
  using assms
proof (induction Embed model template src start parts arbitrary: mems rule: ingestLoop.induct)
  case (1 Embed model template src start parts)
  show ?case
  proof (cases "parts = []")
    case True
    with 1(2) have "mems = []" by (simp add: ingestLoop.simps [of Embed model template src start "[]"])
    with True show ?thesis by simp
  next
    case False
    let ?b = "take embedBatch parts"
    from 1(2) False obtain vecs rest where r: "Embed model ?b = Inr vecs" "length vecs = length ?b"
      "ingestLoop Embed model template src (start + embedBatch) (drop embedBatch parts) = Inr rest"
      "mems = map (\<lambda>i. template\<lparr>mem_Content := ?b ! i, mem_Embedding := vecs ! i,
         mem_Source := src\<lparr>src_Part := int (start + i + 1)\<rparr>\<rparr>) [0..<length ?b] @ rest"
      by (auto simp: ingestLoop.simps [of Embed model template src start parts] Let_def split: sum.splits if_splits)
    from 1(1) [OF False refl r(1) _ r(3)] r(2) have ih: "length rest = length (drop embedBatch parts)"
      "\<forall>k < length (drop embedBatch parts). \<exists>v. rest ! k = template\<lparr>mem_Content := drop embedBatch parts ! k,
         mem_Embedding := v, mem_Source := src\<lparr>src_Part := int (start + embedBatch + k + 1)\<rparr>\<rparr>" by simp_all
    have "\<exists>v. mems ! k = template\<lparr>mem_Content := parts ! k, mem_Embedding := v,
        mem_Source := src\<lparr>src_Part := int (start + k + 1)\<rparr>\<rparr>" if "k < length parts" for k
    proof (cases "k < embedBatch")
      case True
      with that show ?thesis by (auto simp: r(4) nth_append)
    next
      case False
      with that ih(2) [rule_format, of "k - embedBatch"] show ?thesis by (simp add: r(4) nth_append not_less)
    qed
    moreover have "length mems = length parts" using ih(1) by (simp add: r(4))
    ultimately show ?thesis by blast
  qed
qed

lemma scoped_ok: "scoped m0 scope w = Inr m \<Longrightarrow>
    mem_Scope m = scope \<and> mem_ID m = mem_ID m0 \<and> mem_CreatedAt m = mem_CreatedAt m0 \<and>
    mem_TenantID m = mem_TenantID m0 \<and> mem_EmbedModel m = mem_EmbedModel m0 \<and>
    (scope = MemorySession \<longrightarrow> mem_SessionID m = wh_session w) \<and>
    (scope = MemoryProject \<longrightarrow> mem_Project m = wh_project w \<and> wh_project w \<noteq> [])"
  by (auto simp: scoped_def Let_def split: if_splits)

text \<open>The parts of a document as they are saved.\<close>

definition savedPart :: "TenantID \<Rightarrow> Session \<Rightarrow> SessionID \<Rightarrow> MemoryScope \<Rightarrow> string list \<Rightarrow> nat \<Rightarrow> Memory \<Rightarrow> bool" where
  "savedPart tenant sess sid scope parts k mem \<longleftrightarrow> mem_Content mem = parts ! k \<and> mem_TenantID mem = tenant \<and>
     mem_Scope mem = scope \<and> (scope = MemorySession \<longrightarrow> mem_SessionID mem = sid) \<and>
     (scope = MemoryProject \<longrightarrow> mem_Project mem = se_Project sess \<and> se_Project sess \<noteq> []) \<and>
     src_SessionID (mem_Source mem) = sid \<and> src_Part (mem_Source mem) = int k + 1 \<and> Memory_Validate mem = None"

lemma validateAll_None: "validateAll ms = None \<longleftrightarrow> (\<forall>x \<in> set ms. Memory_Validate x = None)"
  by (induction ms) (auto split: option.splits)

lemma filledMemory_fields:
  "mem_Content (filledMemory (x, f)) = mem_Content x" "mem_TenantID (filledMemory (x, f)) = mem_TenantID x"
  "mem_Scope (filledMemory (x, f)) = mem_Scope x" "mem_SessionID (filledMemory (x, f)) = mem_SessionID x"
  "mem_Project (filledMemory (x, f)) = mem_Project x" "mem_Source (filledMemory (x, f)) = mem_Source x"
  "Memory_Validate (filledMemory (x, f)) = Memory_Validate x"
  by (cases f; simp add: filledMemory_def Let_def Memory_Validate_def)+

lemma Ingest_saved:
  assumes "Ingest Embed t tenant sid scope doc src fresh m = (m', Inr ids)"
  shows "\<exists>sess mems. GetSession m tenant sid = Inr sess \<and> scope \<in> {MemorySession, MemoryProject, MemoryTenant} \<and>
    m' = m\<lparr>ms_memories := ms_memories m @ mems\<rparr> \<and> ids = map mem_ID mems \<and> mems \<noteq> [] \<and>
    length mems = length (splitText (ReplaceAll [CHR 0x0D, lf] [lf] doc) (nat (mt_MaxChars (withToolDefaults t)))) \<and>
    (\<forall>k < length mems. savedPart tenant sess sid scope
       (splitText (ReplaceAll [CHR 0x0D, lf] [lf] doc) (nat (mt_MaxChars (withToolDefaults t)))) k (mems ! k))"
proof -
  let ?t = "withToolDefaults t"
  let ?parts = "splitText (ReplaceAll [CHR 0x0D, lf] [lf] doc) (nat (mt_MaxChars ?t))"
  from assms obtain sess template mems where g: "scope \<in> {MemorySession, MemoryProject, MemoryTenant}"
    "GetSession m tenant sid = Inr sess"
    "scoped (Memory0\<lparr>mem_TenantID := tenant, mem_EmbedModel := mt_Model ?t\<rparr>) scope
       \<lparr>wh_session = sid, wh_project = se_Project sess, wh_workflow = []\<rparr> = Inr template" "?parts \<noteq> []"
    and loop: "ingestLoop Embed (mt_Model ?t) template (src\<lparr>src_SessionID := sid\<rparr>) 0 ?parts = Inr mems"
    and put: "PutMemories m (map2 (\<lambda>mem i. (mem, fresh i)) mems [0..<length mems]) = (m', Inr ids)"
    by (auto simp: Ingest_def Let_def split: if_splits sum.splits)
  note l = ingestLoop_ok [OF loop]
  define xs where "xs = map2 (\<lambda>mem i. (mem, fresh i)) mems [0..<length mems]"
  have len: "length xs = length mems" by (simp add: xs_def)
  have nth: "xs ! k = (mems ! k, fresh k)" if "k < length mems" for k using that by (simp add: xs_def)
  have firsts: "map fst xs = mems" by (rule nth_equalityI) (simp_all add: len nth)
  let ?out = "map filledMemory xs"
  from put have valid: "validateAll mems = None" and m': "m' = m\<lparr>ms_memories := ms_memories m @ ?out\<rparr>"
    and ids: "ids = map mem_ID ?out"
    unfolding xs_def [symmetric] PutMemories_def firsts by (auto split: option.splits)
  have "savedPart tenant sess sid scope ?parts k (?out ! k)" if k: "k < length ?out" for k
  proof -
    from k l len obtain v where v: "mems ! k = template\<lparr>mem_Content := ?parts ! k, mem_Embedding := v,
        mem_Source := (src\<lparr>src_SessionID := sid\<rparr>)\<lparr>src_Part := int (0 + k + 1)\<rparr>\<rparr>" by fastforce
    have out: "?out ! k = filledMemory (mems ! k, fresh k)" using k nth len by simp
    have "Memory_Validate (mems ! k) = None" using valid k len by (simp add: validateAll_None)
    with scoped_ok [OF g(3)] show ?thesis
      unfolding savedPart_def out filledMemory_fields by (simp add: v)
  qed
  moreover have "length ?out = length ?parts" "?out \<noteq> []" using l g(4) len by auto
  ultimately show ?thesis using g m' ids by (intro exI [of _ sess] exI [of _ ?out]) simp
qed

text \<open>C30: \<open>Ingest\<close> saves all of a document or nothing: when it fails the store is as it was; when it
  succeeds the store has, after what it had, one memory for each part of the document, numbered in
  order, all of the session's tenant and of the scope asked for; and their contents together are
  the document but for white space and line ends.\<close>

theorem ingest_saves_all_or_nothing:
  assumes "Ingest Embed t tenant sid scope doc src fresh m = (m', r)"
  shows "case r of
      Inl e \<Rightarrow> m' = m
    | Inr ids \<Rightarrow> \<exists>sess mems. GetSession m tenant sid = Inr sess \<and> scope \<in> {MemorySession, MemoryProject, MemoryTenant} \<and>
        m' = m\<lparr>ms_memories := ms_memories m @ mems\<rparr> \<and> ids = map mem_ID mems \<and> mems \<noteq> [] \<and>
        (\<forall>k < length mems. savedPart tenant sess sid scope (map mem_Content mems) k (mems ! k)) \<and>
        (4 \<le> mt_MaxChars (withToolDefaults t) \<longrightarrow>
           despaced (ReplaceAll [CHR 0x0D, lf] [lf] doc) (concat (map mem_Content mems)) \<and>
           (\<forall>mem \<in> set mems. int (length (mem_Content mem)) \<le> mt_MaxChars (withToolDefaults t)))"
proof (cases r)
  case (Inl e)
  with assms show ?thesis
    by (auto simp: Ingest_def Let_def PutMemories_def split: if_splits sum.splits option.splits)
next
  case (Inr ids)
  let ?mx = "mt_MaxChars (withToolDefaults t)"
  let ?parts = "splitText (ReplaceAll [CHR 0x0D, lf] [lf] doc) (nat ?mx)"
  from Ingest_saved [OF assms [unfolded Inr]] obtain sess mems where s: "GetSession m tenant sid = Inr sess"
    "scope \<in> {MemorySession, MemoryProject, MemoryTenant}"
    "m' = m\<lparr>ms_memories := ms_memories m @ mems\<rparr>" "ids = map mem_ID mems" "mems \<noteq> []" "length mems = length ?parts"
    "\<forall>k < length mems. savedPart tenant sess sid scope ?parts k (mems ! k)" by blast
  have parts: "map mem_Content mems = ?parts"
    using s(6,7) by (intro nth_equalityI) (simp_all add: savedPart_def)
  have "despaced (ReplaceAll [CHR 0x0D, lf] [lf] doc) (concat (map mem_Content mems)) \<and>
      (\<forall>mem \<in> set mems. int (length (mem_Content mem)) \<le> ?mx)" if "4 \<le> ?mx"
  proof -
    from that have "4 \<le> nat ?mx" by linarith
    from splitText_facts [OF this] have f: "despaced (ReplaceAll [CHR 0x0D, lf] [lf] doc) (concat ?parts)" "partsOK (nat ?mx) ?parts"
      by blast+
    have "length (mem_Content mem) \<le> nat ?mx" if "mem \<in> set mems" for mem
    proof -
      from that have "mem_Content mem \<in> set ?parts" unfolding parts [symmetric] by simp
      with f(2) show ?thesis by (simp add: partsOK_def)
    qed
    with f(1) that show ?thesis unfolding parts by fastforce
  qed
  with s(1-5,7) Inr parts show ?thesis by (intro exI [of _ sess] exI [of _ mems] | simp)+
qed

text \<open>A document of two parts, in a session of tenant \<open>''a''\<close>.\<close>

definition oneVector :: embedder where
  "oneVector model ts = Inr (map (\<lambda>_. [1]) ts)"

definition wordTools :: MemoryTools where
  "wordTools = \<lparr>mt_Model = ''e'', mt_WriteScope = [], mt_MaxChars = 5, mt_MaxIngestBytes = 0, mt_Limit = 0\<rparr>"

definition wordStore :: MemStore where
  "wordStore = fst (CreateSession NewMemStore (Session0\<lparr>se_TenantID := ''a''\<rparr>) ''s'' 1)"

definition wordIDs :: "nat \<Rightarrow> string \<times> time" where
  "wordIDs n = (if n = 0 then ''m1'' else ''m2'', 7)"

lemma wordIngest:
  "snd (Ingest oneVector wordTools ''a'' ''s'' MemorySession ''alphabeta'' MemorySource0 wordIDs wordStore) = Inr [''m1'', ''m2'']"
proof -
  have same: "ReplaceAll [CHR 0x0D, lf] [lf] ''alphabeta'' = ''alphabeta''" by code_simp
  have limits: "mt_MaxChars (withToolDefaults wordTools) = 5" "mt_MaxIngestBytes (withToolDefaults wordTools) = 2 ^ 20"
    "mt_Model (withToolDefaults wordTools) = ''e''" by (simp_all add: withToolDefaults_def wordTools_def)
  obtain sess where sess: "GetSession wordStore ''a'' ''s'' = Inr sess"
    by (auto simp: wordStore_def CreateSession_def GetSession_def filledSession_def Session0_def NewMemStore_def Let_def)
  have range: "[0..<2] = [0, 1 :: nat]" by code_simp
  have loop: "ingestLoop oneVector ''e'' T S 0 [''alpha'', ''beta''] =
      Inr [T\<lparr>mem_Content := ''alpha'', mem_Embedding := [1], mem_Source := S\<lparr>src_Part := 1\<rparr>\<rparr>,
           T\<lparr>mem_Content := ''beta'', mem_Embedding := [1], mem_Source := S\<lparr>src_Part := 2\<rparr>\<rparr>]" for T S
    by (subst ingestLoop.simps)
      (simp add: embedBatch_def oneVector_def Let_def ingestLoop.simps [of _ _ _ _ _ "[]"] range numeral_2_eq_2 [symmetric])
  define T where "T = Memory0\<lparr>mem_TenantID := ''a'', mem_EmbedModel := ''e'', mem_Scope := MemorySession, mem_SessionID := ''s''\<rparr>"
  have scope: "scoped (Memory0\<lparr>mem_TenantID := ''a'', mem_EmbedModel := ''e''\<rparr>) MemorySession
      \<lparr>wh_session = ''s'', wh_project = se_Project sess, wh_workflow = []\<rparr> = Inr T"
    by (simp add: scoped_def T_def)
  have "T\<lparr>mem_Content := c, mem_Embedding := [1], mem_Source := S\<rparr> =
      \<lparr>mem_ID = [], mem_TenantID = ''a'', mem_Scope = MemorySession, mem_SessionID = ''s'', mem_Project = [], mem_Workflow = [],
       mem_Content = c, mem_Embedding = [1], mem_EmbedModel = ''e'', mem_Source = S, mem_CreatedAt = 0\<rparr>" for c S
    by (simp add: T_def Memory0_def)
  then have put: "snd (PutMemories wordStore
      [(T\<lparr>mem_Content := ''alpha'', mem_Embedding := [1], mem_Source := S1\<rparr>, wordIDs 0),
       (T\<lparr>mem_Content := ''beta'', mem_Embedding := [1], mem_Source := S2\<rparr>, wordIDs (Suc 0))]) = Inr [''m1'', ''m2'']" for S1 S2
    by (simp add: PutMemories_def Memory_Validate_def filledMemory_def wordIDs_def)
  show ?thesis
    unfolding Ingest_def Let_def limits same sess scope by (simp add: longWord scope loop put range numeral_2_eq_2 [symmetric])
qed

theorem ingest_saves_all_or_nothing_witness:
  "\<exists>m' mems. Ingest oneVector wordTools ''a'' ''s'' MemorySession ''alphabeta'' MemorySource0 wordIDs wordStore =
      (m', Inr [''m1'', ''m2'']) \<and> m' = wordStore\<lparr>ms_memories := ms_memories wordStore @ mems\<rparr> \<and> map mem_ID mems = [''m1'', ''m2'']"
proof -
  obtain m' r where i: "Ingest oneVector wordTools ''a'' ''s'' MemorySession ''alphabeta'' MemorySource0 wordIDs wordStore = (m', r)"
    by (cases "Ingest oneVector wordTools ''a'' ''s'' MemorySession ''alphabeta'' MemorySource0 wordIDs wordStore") (rule that)
  have r: "r = Inr [''m1'', ''m2'']" using wordIngest unfolding i snd_conv .
  from ingest_saves_all_or_nothing [OF i, unfolded r sum.case] obtain mems where
    "m' = wordStore\<lparr>ms_memories := ms_memories wordStore @ mems\<rparr>" "[''m1'', ''m2''] = map mem_ID mems"
    by (elim exE conjE) (rule that, assumption+)
  then show ?thesis unfolding i r by (intro exI [of _ m'] exI [of _ mems] conjI refl) (simp_all only:)
qed

end
