(* ===== verification/RunHandlers.thy ===== *)
theory RunHandlers
  imports ApiRules Conversation Reexecution MemoryTools RunLifecycle
begin

text \<open>
  The handlers of the API that run or change what the orchestrator holds (\<open>api/server.go\<close>,
  \<open>api/agents.go\<close>, \<open>api/memory.go\<close>): starting, canceling, resuming and re-executing runs, posting
  messages, a tenant's agents, and documents ingested as memory; and which routes need an identity.
  A handler is a function of the orchestrator, the caller's identity and what it reads of the
  request; \<open>None\<close> is a panic of what it calls. The lemmas say what a caller without the right to a
  session can do to it: nothing.
\<close>

section \<open>The server\<close>

text \<open>\<open>rv_copy\<close> executes the copy that \<open>ReExecute\<close> starts and waits for it; \<open>rv_media\<close> is the type that
  \<open>mime.ParseMediaType\<close> finds, if it does.\<close>

record ('p, 'x, 're, 'sc) RunServer =
  rv_isUUID :: "string \<Rightarrow> bool"
  rv_tooling :: "('p, 're, 'sc) Tooling"
  rv_box :: "('x, 'sc) ToolBox"
  rv_nameOK :: "string \<Rightarrow> bool"
  rv_encode :: "'p Agent \<Rightarrow> goerr + json"
  rv_memory :: "(embedder \<times> MemoryTools) option"
  rv_media :: "string \<Rightarrow> string option"
  rv_Debug :: bool
  rv_copy :: "'p Orch \<Rightarrow> ('p, 're, 'sc) StartRunInput \<times> Replayer \<times> toolReplay \<Rightarrow> 'p Orch \<times> Result \<times> goerr option"

section \<open>Starting runs\<close>

record startRunReq =
  sr_SessionID :: SessionID
  sr_IdempotencyKey :: string
  sr_Workflow :: Workflow
  sr_Template :: string
  sr_Input :: "(string, string) gomap"
  sr_Images :: "(string, Image) gomap"
  sr_Limits :: Limits

definition runErrStatus :: "goerr \<Rightarrow> int \<times> string" where
  "runErrStatus err =
    (if errors_is err ErrOverloaded then (503, ''overloaded'')
     else if errors_is err ErrConflict then (409, ''conflict'')
     else (400, ''validation_error''))"

text \<open>\<open>writeRunErr\<close>; the header \<open>Retry-After\<close> goes with every 503.\<close>

definition writeRunErr :: "goerr \<Rightarrow> 'a reply" where
  "writeRunErr err = (case runErrStatus err of (status, code) \<Rightarrow> Refused status code (ErrText err))"

definition startInput :: "Identity \<Rightarrow> string \<Rightarrow> startRunReq \<Rightarrow> ('p, 're, 'sc) StartRunInput" where
  "startInput i header req =
    \<lparr>si_TenantID = id_Tenant i, si_PrincipalID = id_Principal i, si_SessionID = sr_SessionID req,
     si_IdempotencyKey = (if sr_IdempotencyKey req = [] then header else sr_IdempotencyKey req),
     si_Workflow = sr_Workflow req, si_Template = sr_Template req, si_Input = sr_Input req,
     si_Images = sr_Images req, si_Limits = sr_Limits req,
     si_history = [], si_parent = [], si_agents = Map.empty, si_reuse = None, si_plan = None\<rparr>"

definition startRun :: "('p, 'x, 're, 'sc) RunServer \<Rightarrow> creation \<Rightarrow> Identity \<Rightarrow> string \<Rightarrow> startRunReq body
    \<Rightarrow> 'p Orch \<Rightarrow> ('p Orch \<times> RunID reply) option" where
  "startRun s w i header body o1 =
    (case decoded body of
       Inl refusal \<Rightarrow> Some (o1, refusal)
     | Inr req \<Rightarrow>
        if sr_SessionID req = [] then Some (o1, Refused 400 ''validation_error'' (Literal ''session_id required''))
        else if length (wf_Stages (sr_Workflow req)) = 0 \<and> sr_Template req = []
        then Some (o1, Refused 400 ''validation_error'' (Literal ''workflow.stages or template required''))
        else (case allowSession (rv_isUUID s) (o_Store o1) i (sr_SessionID req) needWrite of
           Some refusal \<Rightarrow> Some (o1, refusal)
         | None \<Rightarrow>
            (case StartRun (rv_tooling s) w o1 (startInput i header req) of
               None \<Rightarrow> None
             | Some (o2, Inl err) \<Rightarrow> Some (o2, writeRunErr err)
             | Some (o2, Inr rid) \<Rightarrow> Some (o2, Answered 202 rid))))"

section \<open>Posting messages\<close>

text \<open>The run of a posted message has no session and no images of its own.\<close>

record postMessageReq =
  pr_Role :: string
  pr_Content :: string
  pr_Run :: "startRunReq option"

record postMessageResp =
  pp_event :: "Event option"
  pp_answered :: "(RunID \<times> ApprovalID) option"
  pp_run :: "RunID option"
  pp_replayed :: bool
  pp_error :: "(string \<times> goerr \<times> bool) option"

definition postedResp :: "PostedMessage \<Rightarrow> goerr option \<Rightarrow> postMessageResp" where
  "postedResp pm err =
    \<lparr>pp_event = (if po_Replayed pm then None else Some (po_Event pm)),
     pp_answered = (if po_Answered pm \<noteq> [] then Some (po_Answered pm, po_Approval pm) else None),
     pp_run = (if po_RunID pm \<noteq> [] then Some (po_RunID pm) else None),
     pp_replayed = po_Replayed pm,
     pp_error = map_option (\<lambda>e. case runErrStatus e of (status, code) \<Rightarrow> (code, e, status = 503)) err\<rparr>"

definition messageRun :: "string \<Rightarrow> startRunReq \<Rightarrow> ('p, 're, 'sc) StartRunInput" where
  "messageRun header req =
    \<lparr>si_TenantID = [], si_PrincipalID = [], si_SessionID = [],
     si_IdempotencyKey = (if sr_IdempotencyKey req \<noteq> [] then sr_IdempotencyKey req else header),
     si_Workflow = sr_Workflow req, si_Template = sr_Template req, si_Input = sr_Input req, si_Images = [],
     si_Limits = sr_Limits req, si_history = [], si_parent = [], si_agents = Map.empty, si_reuse = None, si_plan = None\<rparr>"

definition postMessage :: "('p, 'x, 're, 'sc) RunServer \<Rightarrow> posting \<Rightarrow> Identity \<Rightarrow> SessionID \<Rightarrow> string
    \<Rightarrow> postMessageReq body \<Rightarrow> 'p Orch \<Rightarrow> ('p Orch \<times> postMessageResp reply) option" where
  "postMessage s w i sid header body o1 =
    (case decoded body of
       Inl refusal \<Rightarrow> Some (o1, refusal)
     | Inr req \<Rightarrow>
        (case allowSession (rv_isUUID s) (o_Store o1) i sid needWrite of
           Some refusal \<Rightarrow> Some (o1, refusal)
         | None \<Rightarrow>
            if (case pr_Run req of None \<Rightarrow> False
                | Some run \<Rightarrow> length (wf_Stages (sr_Workflow run)) = 0 \<and> sr_Template run = [])
            then Some (o1, Refused 400 ''validation_error'' (Literal ''run needs workflow.stages or template''))
            else (case PostMessage (rv_tooling s) w (id_Tenant i) sid (id_Principal i) (pr_Role req) (pr_Content req)
                    (map_option (messageRun header) (pr_Run req)) o1 of
               None \<Rightarrow> None
             | Some (o2, pm, err) \<Rightarrow> Some (o2,
                 case err of
                   Some e \<Rightarrow> if ev_ID (po_Event pm) = [] then writeRunErr e else Answered 201 (postedResp pm err)
                 | None \<Rightarrow> Answered 201 (postedResp pm err)))))"

section \<open>Runs\<close>

definition cancelRun :: "('p, 'x, 're, 'sc) RunServer \<Rightarrow> cancellation \<Rightarrow> Identity \<Rightarrow> RunID \<Rightarrow> string body
    \<Rightarrow> 'p Orch \<Rightarrow> ('p Orch \<times> unit reply) option" where
  "cancelRun s w i rid body o1 =
    (case decodedOr [] body of
       Inl refusal \<Rightarrow> Some (o1, refusal)
     | Inr reason \<Rightarrow>
        if length reason > 1024
        then Some (o1, Refused 400 ''validation_error'' (Literal ''reason is longer than 1024 bytes''))
        else (case allowRun (rv_isUUID s) (o_Store o1) i rid needWrite of
           Inl refusal \<Rightarrow> Some (o1, refusal)
         | Inr _ \<Rightarrow>
            (case Cancel w (id_Tenant i) rid (id_Principal i) reason o1 of
               None \<Rightarrow> None
             | Some (o2, None) \<Rightarrow> Some (o2, Answered 202 ())
             | Some (o2, Some err) \<Rightarrow> Some (o2,
                 if errors_is err ErrConflict then Refused 409 ''conflict'' (ErrText err)
                 else Refused 404 ''not_found'' (ErrText err)))))"

definition resumeRun :: "('p, 'x, 're, 'sc) RunServer \<Rightarrow> resumption \<Rightarrow> Identity \<Rightarrow> RunID \<Rightarrow> 'p Orch
    \<Rightarrow> ('p Orch \<times> unit reply) option" where
  "resumeRun s w i rid o1 =
    (case allowRun (rv_isUUID s) (o_Store o1) i rid needWrite of
       Inl refusal \<Rightarrow> Some (o1, refusal)
     | Inr _ \<Rightarrow>
        (case Resume (rv_tooling s) w (id_Tenant i) rid (id_Principal i) o1 of
           None \<Rightarrow> None
         | Some (o2, Inr _) \<Rightarrow> Some (o2, Answered 202 ())
         | Some (o2, Inl err) \<Rightarrow> Some (o2,
             if errors_is err ErrNotFound then Refused 404 ''not_found'' (ErrText err)
             else if errors_is err ErrConflict then Refused 409 ''conflict'' (ErrText err)
             else if errors_is err ErrOverloaded then Refused 503 ''overloaded'' (ErrText err)
             else Refused 500 ''internal_error'' (ErrText err))))"

definition Result0 :: Result where
  "Result0 = \<lparr>rt_RunID = [], rt_Status = RunUnset, rt_Outputs = [], rt_Usage = Usage0, rt_FailureReason = []\<rparr>"

definition reExecuteReply :: "Result \<Rightarrow> goerr option \<Rightarrow> Result reply option" where
  "reExecuteReply res err =
    (if rt_RunID res \<noteq> [] then Some (Answered 200 res)
     else map_option (\<lambda>e. if errors_is e ErrNotFound then Refused 404 ''not_found'' (ErrText e)
       else if errors_is e ErrConflict then Refused 409 ''conflict'' (ErrText e)
       else if errors_is e ErrNotRecorded then Refused 422 ''not_recorded'' (ErrText e)
       else Refused 500 ''internal_error'' (ErrText e)) err)"

definition reExecuteRun :: "('p, 'x, 're, 'sc) RunServer \<Rightarrow> copying \<Rightarrow> Identity \<Rightarrow> RunID \<Rightarrow> 'p Orch
    \<Rightarrow> ('p Orch \<times> Result reply) option" where
  "reExecuteRun s w i rid o1 =
    (case allowRun (rv_isUUID s) (o_Store o1) i rid needWrite of
       Inl refusal \<Rightarrow> Some (o1, refusal)
     | Inr _ \<Rightarrow>
        (case (case ReExecute (rv_tooling s) w (id_Tenant i) rid (id_Principal i) (o_Store o1) of
                 (m, Inl err) \<Rightarrow> (o1\<lparr>o_Store := m\<rparr>, Result0, Some err)
               | (m, Inr cp) \<Rightarrow> rv_copy s (o1\<lparr>o_Store := m\<rparr>) cp) of
           (o2, res, err) \<Rightarrow> map_option (\<lambda>r. (o2, r)) (reExecuteReply res err)))"

section \<open>A tenant's agents\<close>

definition shownAgent :: "bool \<Rightarrow> Identity \<Rightarrow> 'p AgentInfo \<Rightarrow> 'p AgentInfo" where
  "shownAgent debug i a =
    (if \<not> Operates (id_Role i) \<or> in_Source a = ''config'' \<and> \<not> debug
     then a\<lparr>in_Agent := (in_Agent a)\<lparr>ag_Instructions := []\<rparr>\<rparr> else a)"

definition listTenantAgents :: "('p, 'x, 're, 'sc) RunServer \<Rightarrow> Identity \<Rightarrow> 'p Orch \<Rightarrow> 'p AgentInfo list reply" where
  "listTenantAgents s i o1 = Answered 200 (map (shownAgent (rv_Debug s) i)
     (ListAgentInfos (tl_decodeAgent (rv_tooling s)) (o_Book o1) (o_Store o1) (id_Tenant i)))"

definition putAgent :: "('p, 'x, 're, 'sc) RunServer \<Rightarrow> Identity \<Rightarrow> string \<Rightarrow> 'p Agent body \<Rightarrow> time \<Rightarrow> 'p Orch
    \<Rightarrow> 'p Orch \<times> (string \<times> int) reply" where
  "putAgent s i name body now o1 =
    (case allowRole (ManagesAgents (id_Role i)) of
       Some refusal \<Rightarrow> (o1, refusal)
     | None \<Rightarrow>
        (case decoded body of
           Inl refusal \<Rightarrow> (o1, refusal)
         | Inr a0 \<Rightarrow>
            (case PutTenantAgent (rv_nameOK s) (tl_decodeAgent (rv_tooling s)) (rv_encode s) (rv_box s) (o_Book o1)
                    (o_Store o1) (id_Tenant i) (a0\<lparr>ag_Name := name\<rparr>) now of
               (m, Inr version) \<Rightarrow> (o1\<lparr>o_Store := m\<rparr>, Answered 200 (name, version))
             | (m, Inl err) \<Rightarrow> (o1\<lparr>o_Store := m\<rparr>,
                 if errors_is err ErrInvalidAgent then Refused 400 ''validation_error'' (ErrText err)
                 else if errors_is err ErrConflict then Refused 409 ''conflict'' (ErrText err)
                 else writeStoreErr err))))"

definition deleteAgent :: "Identity \<Rightarrow> string \<Rightarrow> 'p Orch \<Rightarrow> 'p Orch \<times> unit reply" where
  "deleteAgent i name o1 =
    (case allowRole (ManagesAgents (id_Role i)) of
       Some refusal \<Rightarrow> (o1, refusal)
     | None \<Rightarrow>
        (case DeleteTenantAgent (o_Book o1) (o_Store o1) (id_Tenant i) name of
           (m, None) \<Rightarrow> (o1\<lparr>o_Store := m\<rparr>, Answered 204 ())
         | (m, Some err) \<Rightarrow> (o1\<lparr>o_Store := m\<rparr>,
             if errors_is err ErrConflict then Refused 409 ''conflict'' (ErrText err) else writeStoreErr err)))"

text \<open>The agents and tools of the debug console.\<close>

record agentDebug =
  ad_Name :: string
  ad_Role :: string
  ad_Instructions :: string
  ad_Model :: string
  ad_Tools :: "string list"
  ad_Children :: "string list"
  ad_MaxToolLoops :: int

definition debugView :: "'p Agent \<Rightarrow> agentDebug" where
  "debugView a = \<lparr>ad_Name = ag_Name a, ad_Role = ag_Role a, ad_Instructions = ag_Instructions a,
     ad_Model = ag_Model a, ad_Tools = ag_Tools a, ad_Children = ag_Children a, ad_MaxToolLoops = ag_MaxToolLoops a\<rparr>"

definition listAgents :: "Identity \<Rightarrow> 'p Orch \<Rightarrow> agentDebug list reply" where
  "listAgents i o1 =
    (case allowRole (Operates (id_Role i)) of
       Some refusal \<Rightarrow> refusal
     | None \<Rightarrow> Answered 200 (sort_key ad_Name (map debugView (mvals (bk_Agents (o_Book o1))))))"

definition listTools :: "('p, 'x, 're, 'sc) RunServer \<Rightarrow> Identity \<Rightarrow> ToolDefinition list reply" where
  "listTools s i =
    (case allowRole (Operates (id_Role i)) of
       Some refusal \<Rightarrow> refusal
     | None \<Rightarrow> Answered 200 (ListTools (rv_box s) (id_Tenant i)))"

section \<open>Documents as memory\<close>

record ingestReq =
  iq_Name :: string
  iq_Content :: string
  iq_Scope :: MemoryScope

text \<open>The IDs and times of the memories an ingestion saves.\<close>

type_synonym freshMemory = "nat \<Rightarrow> string \<times> time"

definition ingest :: "('p, 'x, 're, 'sc) RunServer \<Rightarrow> freshMemory \<Rightarrow> Identity \<Rightarrow> SessionID \<Rightarrow> MemoryScope \<Rightarrow> string
    \<Rightarrow> MemorySource \<Rightarrow> MemStore \<Rightarrow> MemStore \<times> (string list \<times> MemoryScope) reply" where
  "ingest s w i sid scope0 content src m =
    (case rv_memory s of
       None \<Rightarrow> (m, Refused 501 ''not_implemented'' (Literal ''long-term memory is not configured''))
     | Some (Embed, t) \<Rightarrow>
        (let scope = (if scope0 = [] then MemorySession else scope0)
         in case (if scope = MemoryTenant then allowRole (Operates (id_Role i)) else None) of
              Some refusal \<Rightarrow> (m, refusal)
            | None \<Rightarrow>
               (case Ingest Embed t (id_Tenant i) sid scope content (src\<lparr>src_By := id_Principal i\<rparr>) w m of
                  (m1, Inl err) \<Rightarrow> (m1,
                    if errors_is err ErrInvalidMemory then Refused 400 ''validation_error'' (ErrText err)
                    else if errors_is err ErrMemoryTooLarge then Refused 413 ''validation_error'' (ErrText err)
                    else Refused 500 ''internal_error'' (ErrText err))
                | (m1, Inr ids) \<Rightarrow> (m1, Answered 201 (ids, scope)))))"

definition ingestDocument :: "('p, 'x, 're, 'sc) RunServer \<Rightarrow> freshMemory \<Rightarrow> Identity \<Rightarrow> SessionID \<Rightarrow> ingestReq body
    \<Rightarrow> MemStore \<Rightarrow> MemStore \<times> (string list \<times> MemoryScope) reply" where
  "ingestDocument s w i sid body m =
    (case decoded body of
       Inl refusal \<Rightarrow> (m, refusal)
     | Inr req \<Rightarrow>
        (case allowSession (rv_isUUID s) m i sid needWrite of
           Some refusal \<Rightarrow> (m, refusal)
         | None \<Rightarrow> ingest s w i sid (iq_Scope req) (iq_Content req) (MemorySource0\<lparr>src_Document := iq_Name req\<rparr>) m))"

definition textual :: "(string \<Rightarrow> string option) \<Rightarrow> string \<Rightarrow> bool" where
  "textual media mimeType =
    (case media mimeType of
       None \<Rightarrow> False
     | Some t \<Rightarrow> prefix ''text/'' t \<or> t = ''application/json'' \<or> suffix ''+json'' t)"

definition ingestArtifact :: "('p, 'x, 're, 'sc) RunServer \<Rightarrow> freshMemory \<Rightarrow> Identity \<Rightarrow> string \<Rightarrow> ingestReq body
    \<Rightarrow> MemStore \<Rightarrow> MemStore \<times> (string list \<times> MemoryScope) reply" where
  "ingestArtifact s w i aid body m =
    (case decodedOr \<lparr>iq_Name = [], iq_Content = [], iq_Scope = []\<rparr> body of
       Inl refusal \<Rightarrow> (m, refusal)
     | Inr req \<Rightarrow>
        if \<not> rv_isUUID s aid then (m, writeNotFound)
        else (case GetArtifact m (id_Tenant i) aid of
           Inl err \<Rightarrow> (m, writeStoreErr err)
         | Inr a \<Rightarrow>
            (case allowSession (rv_isUUID s) m i (ar_SessionID a) needWrite of
               Some refusal \<Rightarrow> (m, refusal)
             | None \<Rightarrow>
                if \<not> textual (rv_media s) (ar_MimeType a) \<or> \<not> utf8Valid (ar_Content a)
                then (m, Refused 415 ''unsupported_media_type'' (Literal ''only text and JSON artifacts can be ingested''))
                else ingest s w i (ar_SessionID a) (iq_Scope req) (ar_Content a)
                       (MemorySource0\<lparr>src_ArtifactID := ar_ID a, src_Document := ar_Name a, src_RunID := ar_RunID a,
                          src_TaskID := ar_TaskID a, src_StepID := ar_StepID a\<rparr>) m)))"

section \<open>Who is asked for an identity\<close>

definition publicRoutes :: "string list" where
  "publicRoutes = [''GET /healthz'', ''GET /readyz'', ''GET /metrics'', ''GET /'', ''GET /ui/'', ''GET /v1/openapi.json'']"

text \<open>The identity of a request without one in its context.\<close>

definition noIdentity :: Identity where
  "noIdentity = \<lparr>id_Tenant = DefaultTenant, id_Principal = DefaultPrincipal, id_Role = RoleAdmin\<rparr>"

definition resolve :: "(http_request \<Rightarrow> goerr + Identity) option \<Rightarrow> string \<Rightarrow> http_request \<Rightarrow> goerr + Identity" where
  "resolve auth route r =
    (case auth of
       None \<Rightarrow> Inr noIdentity
     | Some check \<Rightarrow> if route \<in> set publicRoutes then Inr noIdentity else check r)"

text \<open>\<open>Handler\<close> after the route was found: the handler runs with the identity, or 401.\<close>

definition handled :: "(http_request \<Rightarrow> goerr + Identity) option \<Rightarrow> string \<Rightarrow> http_request \<Rightarrow> (Identity \<Rightarrow> 's \<Rightarrow> ('s \<times> 'a reply) option)
    \<Rightarrow> 's \<Rightarrow> ('s \<times> 'a reply) option" where
  "handled auth route r handler st =
    (case resolve auth route r of
       Inl err \<Rightarrow> Some (st, Refused 401 ''unauthorized'' (ErrText err))
     | Inr i \<Rightarrow> handler i st)"

definition readyz :: "goerr option \<Rightarrow> string reply" where
  "readyz ping =
    (case ping of
       Some err \<Rightarrow> Refused 503 ''not_ready'' (Literal ''store unreachable'')
     | None \<Rightarrow> Answered 200 ''ok'')"

section \<open>Dispatch\<close>

datatype 'p run_request =
    StartRunReq creation string "startRunReq body"
  | PostMessageReq posting SessionID string "postMessageReq body"
  | CancelRunReq cancellation RunID "string body"
  | ResumeRunReq resumption RunID
  | ReExecuteReq copying RunID
  | PutAgentReq string "'p Agent body" time
  | DeleteAgentReq string
  | IngestDocumentReq freshMemory SessionID "ingestReq body"
  | IngestArtifactReq freshMemory string "ingestReq body"

datatype runAnswer =
    RunStarted RunID | Posted postMessageResp | NoContent | Copied Result | AgentPut string int
  | Remembered "string list" MemoryScope

fun serveRun :: "('p, 'x, 're, 'sc) RunServer \<Rightarrow> 'p run_request \<Rightarrow> Identity \<Rightarrow> 'p Orch \<Rightarrow> ('p Orch \<times> runAnswer reply) option" where
  "serveRun s (StartRunReq w header b) i o1 = map_option (map_prod id (map_reply RunStarted)) (startRun s w i header b o1)"
| "serveRun s (PostMessageReq w sid header b) i o1 = map_option (map_prod id (map_reply Posted)) (postMessage s w i sid header b o1)"
| "serveRun s (CancelRunReq w rid b) i o1 = map_option (map_prod id (map_reply (\<lambda>_. NoContent))) (cancelRun s w i rid b o1)"
| "serveRun s (ResumeRunReq w rid) i o1 = map_option (map_prod id (map_reply (\<lambda>_. NoContent))) (resumeRun s w i rid o1)"
| "serveRun s (ReExecuteReq w rid) i o1 = map_option (map_prod id (map_reply Copied)) (reExecuteRun s w i rid o1)"
| "serveRun s (PutAgentReq name b now) i o1 = Some (map_prod id (map_reply (\<lambda>(n, v). AgentPut n v)) (putAgent s i name b now o1))"
| "serveRun s (DeleteAgentReq name) i o1 = Some (map_prod id (map_reply (\<lambda>_. NoContent)) (deleteAgent i name o1))"
| "serveRun s (IngestDocumentReq w sid b) i o1 =
     (case ingestDocument s w i sid b (o_Store o1) of
        (m, r) \<Rightarrow> Some (o1\<lparr>o_Store := m\<rparr>, map_reply (\<lambda>(ids, sc). Remembered ids sc) r))"
| "serveRun s (IngestArtifactReq w aid b) i o1 =
     (case ingestArtifact s w i aid b (o_Store o1) of
        (m, r) \<Rightarrow> Some (o1\<lparr>o_Store := m\<rparr>, map_reply (\<lambda>(ids, sc). Remembered ids sc) r))"

section \<open>Who may do it\<close>

text \<open>The session a request writes to, reached through the run or the artifact it names.\<close>

fun writesTo :: "(string \<Rightarrow> bool) \<Rightarrow> MemStore \<Rightarrow> TenantID \<Rightarrow> 'p run_request \<Rightarrow> SessionID option" where
  "writesTo u m t (StartRunReq w header (Body req)) = Some (sr_SessionID req)"
| "writesTo u m t (PostMessageReq w sid header b) = Some sid"
| "writesTo u m t (CancelRunReq w rid b) = aboutRun u m t rid"
| "writesTo u m t (ResumeRunReq w rid) = aboutRun u m t rid"
| "writesTo u m t (ReExecuteReq w rid) = aboutRun u m t rid"
| "writesTo u m t (IngestDocumentReq w sid b) = Some sid"
| "writesTo u m t (IngestArtifactReq w aid b) = aboutArtifact u m t aid"
| "writesTo u m t req = None"

fun changesAgents :: "'p run_request \<Rightarrow> bool" where
  "changesAgents (PutAgentReq name b now) \<longleftrightarrow> True"
| "changesAgents (DeleteAgentReq name) \<longleftrightarrow> True"
| "changesAgents req \<longleftrightarrow> False"

definition lacksRight :: "('p, 'x, 're, 'sc) RunServer \<Rightarrow> 'p Orch \<Rightarrow> Identity \<Rightarrow> 'p run_request \<Rightarrow> bool" where
  "lacksRight s o1 i req \<longleftrightarrow>
     (if changesAgents req then \<not> ManagesAgents (id_Role i)
      else case writesTo (rv_isUUID s) (o_Store o1) (id_Tenant i) req of
          None \<Rightarrow> False
        | Some sid \<Rightarrow> rv_isUUID s sid \<and> \<not> may needWrite (o_Store o1) i sid)"

text \<open>A refusal for the form of a request, made before anything is looked up.\<close>

definition malformed :: "'a reply \<Rightarrow> bool" where
  "malformed r \<longleftrightarrow> (\<exists>status msg. r = Refused status ''validation_error'' msg)"

definition roleRefusal :: "'a reply" where
  "roleRefusal = Refused 403 ''forbidden'' (Literal ''your role does not allow this'')"

lemma malformed_simps [simp]: "malformed (Refused status ''validation_error'' msg)" "malformed (map_reply f r) = malformed r"
  by (auto simp: malformed_def) (cases r; auto)+

lemma answered_map [simp]: "answered (map_reply f r) = answered r"
  by (cases r) auto

lemma decoded_malformed: "decoded b = Inl r \<Longrightarrow> malformed r" "decodedOr z b = Inl r \<Longrightarrow> malformed r"
  by (cases b; auto)+

definition refusal :: "MemStore \<Rightarrow> Identity \<Rightarrow> SessionID \<Rightarrow> 'a reply" where
  "refusal m i sid = (if may needRead m i sid then forbidden else writeNotFound)"

lemma map_refusal [simp]: "map_reply f (refusal m i sid) = refusal m i sid"
  by (simp add: refusal_def del: may.simps)

lemma refused_answers [simp]: "\<not> answered (refusal m i sid)" "malformed r \<Longrightarrow> \<not> answered r"
  by (auto simp: refusal_def writeNotFound_def malformed_def simp del: may.simps)

lemma guard_session:
  assumes "sessions_ok m" and "isUUID sid" and "\<not> may needWrite m i sid"
  shows "allowSession isUUID m i sid needWrite = Some (refusal m i sid)"
  using assms by (simp add: allowSession_may refusal_def del: may.simps)

lemma guard_run:
  assumes "sessions_ok m" and "aboutRun isUUID m (id_Tenant i) rid = Some sid" and "isUUID sid" and "\<not> may needWrite m i sid"
  shows "allowRun isUUID m i rid needWrite = Inl (refusal m i sid)"
  using assms by (simp add: allowRun_may refusal_def del: may.simps)


text \<open>A viewer of its session that asks for a run.\<close>

definition guestServer :: "(unit, unit, unit, unit) RunServer" where
  "guestServer = \<lparr>rv_isUUID = (\<lambda>_. True),
     rv_tooling = \<lparr>tl_compileRegexp = \<lambda>_. Inr (), tl_compileSchema = \<lambda>_. Inr (), tl_schemaValidate = \<lambda>_ _. None,
       tl_decodeAgent = \<lambda>_. Inl (new_error []), tl_encodeWorkflow = \<lambda>_. None,
       tl_decodeWorkflow = \<lambda>_. Inl (new_error []), tl_decodeInput = \<lambda>_. Inr []\<rparr>,
     rv_box = \<lparr>tb_Shared = NewRegistry, tb_Tenant = Map.empty\<rparr>, rv_nameOK = (\<lambda>_. True), rv_encode = (\<lambda>_. Inr JNull),
     rv_memory = None, rv_media = (\<lambda>_. None), rv_Debug = False, rv_copy = (\<lambda>o1 cp. (o1, Result0, None))\<rparr>"

definition guestOrch :: "unit Orch" where
  "guestOrch = \<lparr>o_Store = sampleSessions, o_Book = \<lparr>bk_Agents = [], bk_Provider = None, bk_Model = []\<rparr>, o_Workflows = Map.empty,
     o_MaxLimits = Limits0, o_DefaultLimits = Limits0, o_Owner = ''p'', o_Lease = 30, o_MaxActiveRuns = 1,
     o_MaxQueuedRuns = 0, o_MaxArtifactBytes = 0, o_Budget = NewBudgetManager, o_LoopDet = NewLoopDetector 5,
     o_runs = Map.empty, o_inflight = 0, o_closing = False, o_capacity = 0, o_slots = None\<rparr>"

definition guestRequest :: "creation \<Rightarrow> unit run_request" where
  "guestRequest w = StartRunReq w [] (Body \<lparr>sr_SessionID = ''s1'', sr_IdempotencyKey = [], sr_Workflow = draft_review,
     sr_Template = [], sr_Input = [], sr_Images = [], sr_Limits = Limits0\<rparr>)"


end
