(* ===== verification/RunWatch.thy ===== *)
theory RunWatch
  imports RunLifecycle Leases ToolUse
begin

text \<open>
  What watches a run while it executes (\<open>runtime/orchestrator.go\<close>): \<open>keepLease\<close>, which renews its
  lease and stops it when the lease is lost; \<open>watchIdle\<close>, which reports that it emits nothing;
  \<open>Shutdown\<close> and \<open>KeepRecovering\<close>. A loop over ticks takes the ticks in order, each with the readings
  of the clock and with what others did to the store since the one before.
\<close>

section \<open>Keeping the lease\<close>

text \<open>\<open>lt_reached\<close> says whether \<open>RenewLeases\<close> returned no error, \<open>lt_checked\<close> is the reading after it.\<close>

record leaseTick =
  lt_others :: "MemStore \<Rightarrow> MemStore"
  lt_attempt :: time
  lt_reached :: bool
  lt_storeNow :: time
  lt_checked :: time

text \<open>The goroutine of \<open>keepLease\<close> for some ticks, and whether it goes on after them.\<close>

fun keepLease :: "RunID \<Rightarrow> time \<Rightarrow> leaseTick list \<Rightarrow> 'p Orch \<Rightarrow> 'p Orch \<times> bool" where
  "keepLease rid renewed [] o1 = (o1, True)"
| "keepLease rid renewed (w # ws) o1 =
    (let o2 = o1\<lparr>o_Store := lt_others w (o_Store o1)\<rparr>
     in if \<not> lt_reached w then
          (if lt_checked w - renewed \<ge> o_Lease o2
           then (cancelContext rid (Sentinel ErrLeaseLost) o2, False)
           else keepLease rid renewed ws o2)
        else (case renewOnce (lt_storeNow w) rid o2 of
            (o3, goes_on) \<Rightarrow> if goes_on then keepLease rid (lt_attempt w) ws o3 else (o3, False)))"

section \<open>Idle runs\<close>

record 'p idleTick =
  it_others :: "'p Orch \<Rightarrow> 'p Orch"
  it_now :: time
  it_emission :: emission

definition idleEvent :: "(duration \<Rightarrow> string) \<Rightarrow> TenantID \<Rightarrow> SessionID \<Rightarrow> RunID \<Rightarrow> duration \<Rightarrow> string \<Rightarrow> Event" where
  "idleEvent durText tenant session rid idle last_event = Event0\<lparr>ev_TenantID := tenant, ev_SessionID := session,
     ev_RunID := rid, ev_Type := EvSystem, ev_Visibility := VisibilityInternal,
     ev_Payload := Some (mustJSON (JObj [(''event'', JStr ''idle_wait''), (''idle_for'', JStr (durText idle)),
       (''last_event'', JStr last_event)]))\<rparr>"

text \<open>One firing of the timer: the diagnostic, if one is due, and until when the timer is set next. A
  watched run has a state; \<open>None\<close> is that it has none, or a panic.\<close>

definition watchOnce :: "(duration \<Rightarrow> string) \<Rightarrow> duration \<Rightarrow> TenantID \<Rightarrow> SessionID \<Rightarrow> RunID \<Rightarrow> 'p idleTick \<Rightarrow> 'p Orch
    \<Rightarrow> ('p Orch \<times> duration) option" where
  "watchOnce durText warnAfter tenant session rid w o1 =
    (case o_runs o1 rid of
       None \<Rightarrow> None
     | Some st \<Rightarrow>
        (let idle = it_now w - rs_lastAt st
         in if idle < warnAfter then Some (o1, warnAfter - idle)
            else map_option (\<lambda>o2. (o2, warnAfter))
                   (appendEvent (it_emission w) (idleEvent durText tenant session rid idle (rs_lastEvent st)) o1)))"

fun watchIdle :: "(duration \<Rightarrow> string) \<Rightarrow> duration \<Rightarrow> TenantID \<Rightarrow> SessionID \<Rightarrow> RunID \<Rightarrow> 'p idleTick list \<Rightarrow> 'p Orch
    \<Rightarrow> 'p Orch option" where
  "watchIdle durText warnAfter tenant session rid [] o1 = Some o1"
| "watchIdle durText warnAfter tenant session rid (w # ws) o1 =
    (case watchOnce durText warnAfter tenant session rid w (it_others w o1) of
       None \<Rightarrow> None
     | Some (o2, delay) \<Rightarrow> watchIdle durText warnAfter tenant session rid ws o2)"

section \<open>Shutting down, and taking over\<close>

text \<open>\<open>stopRuns\<close> cancels the context all run contexts come from. \<open>ctxErr\<close> is the context's error, if it
  ended before the runs did; \<open>others\<close> is how the runs finish.\<close>

definition stopRuns :: "goerr \<Rightarrow> 'p Orch \<Rightarrow> 'p Orch" where
  "stopRuns why o1 = o1\<lparr>o_runs := (\<lambda>rid. map_option
     (\<lambda>st. st\<lparr>rs_cause := (case rs_cause st of None \<Rightarrow> Some why | Some e \<Rightarrow> Some e)\<rparr>) (o_runs o1 rid))\<rparr>"

definition Shutdown :: "goerr option \<Rightarrow> ('p Orch \<Rightarrow> 'p Orch) \<Rightarrow> 'p Orch \<Rightarrow> 'p Orch \<times> goerr option" where
  "Shutdown ctxErr others o1 =
    (let o2 = o1\<lparr>o_closing := True\<rparr>
     in case ctxErr of
          None \<Rightarrow> (others o2, None)
        | Some e \<Rightarrow> (others (stopRuns (Sentinel ErrShutdown) o2), Some e))"

text \<open>\<open>KeepRecovering\<close> for a number of rounds, with what happens before each.\<close>

fun KeepRecovering :: "('p, 're, 'sc) Tooling \<Rightarrow> duration \<Rightarrow> (('p Orch \<Rightarrow> 'p Orch) \<times> (RunID \<Rightarrow> resumption)) list
    \<Rightarrow> 'p Orch \<Rightarrow> 'p Orch option" where
  "KeepRecovering T every [] o1 = Some o1"
| "KeepRecovering T every ((others, w) # ws) o1 =
    (if every \<le> 0 then Some o1
     else case Recover T w (others o1) of
         None \<Rightarrow> None
       | Some (o2, n, errs) \<Rightarrow> KeepRecovering T every ws o2)"

section \<open>What the renewals guarantee\<close>

lemma watchOnce_due:
  assumes "watchOnce durText warnAfter tenant session rid w o1 = Some (o2, delay)" and "o_runs o1 rid = Some st"
  shows "if it_now w - rs_lastAt st < warnAfter then o2 = o1 \<and> it_now w + delay = rs_lastAt st + warnAfter
    else delay = warnAfter \<and> appendEvent (it_emission w)
      (idleEvent durText tenant session rid (it_now w - rs_lastAt st) (rs_lastEvent st)) o1 = Some o2"
  using assms by (auto simp: watchOnce_def Let_def split: if_splits)

text \<open>The moment at which a tick decides: the store's, or the check after it failed.\<close>

definition decidedAt :: "leaseTick \<Rightarrow> time" where
  "decidedAt w = (if lt_reached w then lt_storeNow w else lt_checked w)"

text \<open>Ticks in the order of the clock, from \<open>t\<close> on.\<close>

fun ordered :: "time \<Rightarrow> leaseTick list \<Rightarrow> bool" where
  "ordered t [] \<longleftrightarrow> True"
| "ordered t (w # ws) \<longleftrightarrow> t \<le> lt_attempt w \<and> lt_attempt w \<le> decidedAt w \<and> ordered (decidedAt w) ws"

text \<open>Others leave a lease that has not ended to its owner.\<close>

definition honoursLease :: "RunID \<Rightarrow> string \<Rightarrow> leaseTick \<Rightarrow> bool" where
  "honoursLease rid p w \<longleftrightarrow> (\<forall>m. fst (leaseOf rid m) = p \<longrightarrow> lt_attempt w < snd (leaseOf rid m) \<longrightarrow>
     fst (leaseOf rid (lt_others w m)) = p \<and> snd (leaseOf rid m) \<le> snd (leaseOf rid (lt_others w m)))"

text \<open>The store makes them: no other process claims, renews or releases it before.\<close>

lemma store_honours:
  assumes "q \<noteq> p" and "p \<noteq> []" and "fst (leaseOf rid m) = p" and "now < snd (leaseOf rid m)"
  shows "leaseOf rid (fst (ClaimRun m t rid q d now now')) = leaseOf rid m"
    and "leaseOf rid (fst (RenewLeases m q [(rid, now)] d Map.empty)) = leaseOf rid m"
    and "leaseOf rid (ReleaseRun m rid q) = leaseOf rid m"
  using assms
  by (auto simp: leaseOf_def ClaimRun_def ReleaseRun_def go_simps split: option.splits if_splits)

lemma renewOnce_held:
  assumes "renewOnce now rid o1 = (o2, True)"
  shows "leaseOf rid (o_Store o2) = (o_Owner o1, now + o_Lease o1) \<and> o_Owner o2 = o_Owner o1 \<and> o_Lease o2 = o_Lease o1"
proof -
  obtain m kept where r: "RenewLeases (o_Store o1) (o_Owner o1) [(rid, now)] (o_Lease o1) Map.empty = (m, kept)" by fastforce
  with assms obtain asked where k: "kept rid = Some asked"
      and o2: "o2 = (if asked then cancelContext rid (Sentinel CtxCanceled) (o1\<lparr>o_Store := m\<rparr>) else o1\<lparr>o_Store := m\<rparr>)"
    by (auto simp: renewOnce_def Let_def simp del: RenewLeases.simps split: option.splits if_splits)
  from r k have "renewIt rid (o_Store o1) (o_Owner o1) now (o_Lease o1) = (m, True)" by (simp add: renewIt_def)
  from run_leases.renew_held [OF this] o2 show ?thesis by (auto simp: cancelContext_def split: option.splits)
qed

lemma cancelContext_cause:
  "o_runs o1 rid = Some st \<Longrightarrow> \<exists>st'. o_runs (cancelContext rid why o1) rid = Some st' \<and> rs_cause st' \<noteq> None"
  by (auto simp: cancelContext_def split: option.splits)

lemma cancelContext_dom: "(o_runs (cancelContext x why o1) rid = None) = (o_runs o1 rid = None)"
  by (auto simp: cancelContext_def split: option.splits)

lemma renewOnce_lost:
  "renewOnce now rid o1 = (o2, False) \<Longrightarrow> \<exists>m. o2 = cancelContext rid (Sentinel ErrLeaseLost) (o1\<lparr>o_Store := m\<rparr>)"
  by (auto simp: renewOnce_def Let_def simp del: RenewLeases.simps split: prod.splits option.splits if_splits)

lemma renewOnce_dom: "(o_runs (fst (renewOnce now x o1)) rid = None) = (o_runs o1 rid = None)"
  by (auto simp: renewOnce_def Let_def cancelContext_dom simp del: RenewLeases.simps split: prod.splits option.splits)

lemma keepLease_stops:
  "keepLease rid renewed ws o1 = (o2, False) \<Longrightarrow> o_runs o1 rid \<noteq> None \<Longrightarrow>
    \<exists>st. o_runs o2 rid = Some st \<and> rs_cause st \<noteq> None"
proof (induction rid renewed ws o1 rule: keepLease.induct)
  case (2 rid renewed w ws o1)
  let ?o2 = "o1\<lparr>o_Store := lt_others w (o_Store o1)\<rparr>"
  have runs: "o_runs (x\<lparr>o_Store := m\<rparr>) rid = None \<longleftrightarrow> o_runs x rid = None" for x :: "'a Orch" and m by simp
  show ?case
  proof (cases "lt_reached w")
    case True
    obtain o3 goes_on where r: "renewOnce (lt_storeNow w) rid ?o2 = (o3, goes_on)" by fastforce
    have some: "o_runs o3 rid \<noteq> None"
      using renewOnce_dom [of "lt_storeNow w" rid ?o2 rid] 2(4) by (simp add: r)
    show ?thesis
    proof (cases goes_on)
      case True
      with 2(3) \<open>lt_reached w\<close> r have "keepLease rid (lt_attempt w) ws o3 = (o2, False)" by (simp add: Let_def)
      from 2(2) [OF refl _ r [symmetric] True this some] \<open>lt_reached w\<close> show ?thesis by simp
    next
      case False
      with r renewOnce_lost obtain m where "o3 = cancelContext rid (Sentinel ErrLeaseLost) (?o2\<lparr>o_Store := m\<rparr>)" by metis
      with False r \<open>lt_reached w\<close> 2(3,4) show ?thesis
        using cancelContext_cause [of "?o2\<lparr>o_Store := m\<rparr>" rid _ "Sentinel ErrLeaseLost"] by (auto simp: Let_def)
    qed
  next
    case False
    show ?thesis
    proof (cases "lt_checked w - renewed \<ge> o_Lease ?o2")
      case True
      with False 2(3,4) show ?thesis
        using cancelContext_cause [of ?o2 rid _ "Sentinel ErrLeaseLost"] by (auto simp: Let_def)
    next
      case le: False
      with 2(1) [OF refl] False 2(3,4) show ?thesis by (simp add: Let_def)
    qed
  qed
qed simp

lemma keepLease_holds:
  assumes "keepLease rid renewed ws o1 = (o2, True)" and "ordered t ws" and "ws \<noteq> []"
    and "\<forall>w \<in> set ws. honoursLease rid (o_Owner o1) w" and "0 < o_Lease o1"
    and "fst (leaseOf rid (o_Store o1)) = o_Owner o1 \<and> renewed + o_Lease o1 \<le> snd (leaseOf rid (o_Store o1)) \<or> lt_reached (hd ws)"
  shows "fst (leaseOf rid (o_Store o2)) = o_Owner o1 \<and> decidedAt (last ws) < snd (leaseOf rid (o_Store o2))"
  using assms
proof (induction ws arbitrary: renewed t o1)
  case (Cons w ws)
  let ?o2 = "o1\<lparr>o_Store := lt_others w (o_Store o1)\<rparr>"
  note prems = Cons.prems
  have goal: ?case if k: "keepLease rid r' ws o3 = (o2, True)" and s: "o_Owner o3 = o_Owner o1" "o_Lease o3 = o_Lease o1"
      and held: "fst (leaseOf rid (o_Store o3)) = o_Owner o1" "r' + o_Lease o1 \<le> snd (leaseOf rid (o_Store o3))"
        "decidedAt w < snd (leaseOf rid (o_Store o3))" for r' o3
  proof (cases "ws = []")
    case True
    with k held show ?thesis by simp
  next
    case False
    from Cons.IH [OF k, of "decidedAt w"] prems(2,4,5) s held False show ?thesis by simp
  qed
  show ?case
  proof (cases "lt_reached w")
    case True
    obtain o3 goes_on where r: "renewOnce (lt_storeNow w) rid ?o2 = (o3, goes_on)" by fastforce
    with prems(1) True have g: goes_on "keepLease rid (lt_attempt w) ws o3 = (o2, True)"
      by (auto simp: Let_def split: if_splits)
    with r renewOnce_held [of "lt_storeNow w" rid ?o2 o3]
    have h: "leaseOf rid (o_Store o3) = (o_Owner o1, lt_storeNow w + o_Lease o1)" "o_Owner o3 = o_Owner o1" "o_Lease o3 = o_Lease o1"
      by simp_all
    show ?thesis
      by (rule goal [OF g(2) h(2,3)]) (use h True prems(2,5) in \<open>simp_all add: decidedAt_def\<close>)
  next
    case False
    with prems(1) have le: "lt_checked w - renewed < o_Lease o1" and k: "keepLease rid renewed ws ?o2 = (o2, True)"
      by (auto simp: Let_def split: if_splits)
    from prems(6) False have own: "fst (leaseOf rid (o_Store o1)) = o_Owner o1" "renewed + o_Lease o1 \<le> snd (leaseOf rid (o_Store o1))"
      by auto
    from prems(2) False have "lt_attempt w \<le> lt_checked w" by (simp add: decidedAt_def)
    with le own have "lt_attempt w < snd (leaseOf rid (o_Store o1))" by linarith
    with prems(4) own have r: "fst (leaseOf rid (lt_others w (o_Store o1))) = o_Owner o1"
        "snd (leaseOf rid (o_Store o1)) \<le> snd (leaseOf rid (lt_others w (o_Store o1)))"
      by (simp_all add: honoursLease_def)
    show ?thesis
      by (rule goal [OF k]) (use r own le False in \<open>simp_all add: decidedAt_def\<close>)
  qed
qed simp


text \<open>A process that renews once, then cannot reach the store, while another one asks for the run in vain.\<close>

definition heldRun :: MemStore where
  "heldRun = fst (ClaimRun (fst (CreateRun NewMemStore Run0 ''r'' 5)) [] ''r'' ''p'' 30 6 7)"

definition heldOrch :: "unit Orch" where
  "heldOrch = \<lparr>o_Store = heldRun, o_Book = \<lparr>bk_Agents = [], bk_Provider = None, bk_Model = []\<rparr>,
     o_Workflows = Map.empty, o_MaxLimits = Limits0, o_DefaultLimits = Limits0, o_Owner = ''p'', o_Lease = 30,
     o_MaxActiveRuns = 1, o_MaxQueuedRuns = 1, o_MaxArtifactBytes = 0, o_Budget = NewBudgetManager,
     o_LoopDet = NewLoopDetector 5,
     o_runs = [''r'' \<mapsto> \<lparr>rs_lastAt = 0, rs_lastEvent = [], rs_taskSpawned = Map.empty, rs_lastInStep = Map.empty,
        rs_taskActor = Map.empty, rs_tenant = [], rs_cause = None\<rparr>],
     o_inflight = 1, o_closing = False, o_capacity = 1, o_slots = None\<rparr>"

definition renewing :: leaseTick where
  "renewing = \<lparr>lt_others = id, lt_attempt = 17, lt_reached = True, lt_storeNow = 18, lt_checked = 18\<rparr>"

definition unreached :: leaseTick where
  "unreached = \<lparr>lt_others = (\<lambda>m. fst (ClaimRun m [] ''r'' ''q'' 30 27 27)), lt_attempt = 27, lt_reached = False,
     lt_storeNow = 27, lt_checked = 37\<rparr>"


end
