(* ===== verification/Secrets.thy ===== *)
theory Secrets
  imports Redaction
begin

text \<open>
  Credentials of tools (\<open>tool/secrets.go\<close>): \<open>DirSecrets\<close>, which reads a tenant's secret or a shared one
  from a directory, \<open>EnvSecrets\<close>, and of \<open>runtime/orchestrator.go\<close> the wrapper that tells the redactor
  each secret it gives out. Reading a file of the opened directory and looking up a variable are
  arguments. The lemmas say which files a lookup can depend on.
\<close>

section \<open>Names\<close>

definition secretStart :: "char \<Rightarrow> bool" where
  "secretStart c \<longleftrightarrow> CHR ''A'' \<le> c \<and> c \<le> CHR ''Z'' \<or> CHR ''a'' \<le> c \<and> c \<le> CHR ''z'' \<or> CHR ''0'' \<le> c \<and> c \<le> CHR ''9''"

definition secretChar :: "char \<Rightarrow> bool" where
  "secretChar c \<longleftrightarrow> secretStart c \<or> c \<in> {CHR ''_'', CHR ''.'', CHR ''-''}"

text \<open>\<open>^[A-Za-z0-9][A-Za-z0-9_.-]{0,127}$\<close>.\<close>

fun secretName :: "string \<Rightarrow> bool" where
  "secretName [] = False"
| "secretName (c # cs) = (secretStart c \<and> list_all secretChar cs \<and> length cs \<le> 127)"

section \<open>A directory of secrets\<close>

abbreviation slash :: char where "slash \<equiv> CHR ''/''"

text \<open>\<open>path.Join\<close> of two relative names: the elements of both, with \<open>.\<close> and \<open>..\<close> resolved.\<close>

fun joinElem :: "string \<Rightarrow> string list \<Rightarrow> string list" where
  "joinElem e done_elems =
    (if e = [] \<or> e = ''.'' then done_elems
     else if e = ''..'' \<and> done_elems \<noteq> [] \<and> hd done_elems \<noteq> ''..'' then tl done_elems
     else e # done_elems)"

fun slashed :: "string list \<Rightarrow> string" where
  "slashed [] = []"
| "slashed [e] = e"
| "slashed (e # es) = e @ slash # slashed es"

definition pathJoin :: "string \<Rightarrow> string \<Rightarrow> string" where
  "pathJoin a b =
    (let es = rev (fold joinElem (Split slash (a @ slash # b)) []) in if es = [] then ''.'' else slashed es)"

definition trimBreaks :: "string \<Rightarrow> string" where
  "trimBreaks s = rev (dropWhile (\<lambda>c. c = CHR 0x0D \<or> c = lf) (rev s))"

datatype file_error = FileNotExist | FileError goerr
datatype secret_error = NoSecret string | SecretError goerr

text \<open>\<open>opened\<close> is the error of opening the directory; \<open>read\<close> reads a file of it.\<close>

definition DirSecret :: "goerr option \<Rightarrow> (string \<Rightarrow> file_error + string) \<Rightarrow> TenantID \<Rightarrow> string \<Rightarrow> secret_error + string" where
  "DirSecret opened read tenant name =
    (if \<not> secretName name then Inl (NoSecret name)
     else case opened of
       Some e \<Rightarrow> Inl (SecretError e)
     | None \<Rightarrow>
        (case (if secretName tenant then read (pathJoin tenant name) else Inl FileNotExist) of
           Inr own \<Rightarrow> Inr (trimBreaks own)
         | Inl _ \<Rightarrow>
            (case read name of
               Inl FileNotExist \<Rightarrow> Inl (NoSecret name)
             | Inl (FileError e) \<Rightarrow> Inl (SecretError e)
             | Inr shared \<Rightarrow> Inr (trimBreaks shared))))"

section \<open>Secrets of the environment\<close>

definition keyChar :: "char \<Rightarrow> char" where
  "keyChar c = (if CHR ''a'' \<le> c \<and> c \<le> CHR ''z'' then char_of ((of_char c :: nat) - of_char CHR ''a'' + of_char CHR ''A'')
     else if CHR ''A'' \<le> c \<and> c \<le> CHR ''Z'' \<or> CHR ''0'' \<le> c \<and> c \<le> CHR ''9'' then c else CHR ''_'')"

definition EnvSecret :: "string \<Rightarrow> (string \<rightharpoonup> string) \<Rightarrow> string \<Rightarrow> secret_error + string" where
  "EnvSecret pre env name =
    (if \<not> secretName name then Inl (NoSecret name)
     else case env (pre @ map keyChar name) of
       Some v \<Rightarrow> Inr v
     | None \<Rightarrow> Inl (NoSecret name))"

section \<open>Telling the redactor\<close>

text \<open>\<open>redactedSecrets.Secret\<close>.\<close>

definition redactedSecret :: "(TenantID \<Rightarrow> string \<Rightarrow> secret_error + string) \<Rightarrow> TenantID \<Rightarrow> string \<Rightarrow> 're Redactor option
    \<Rightarrow> 're Redactor option \<times> (secret_error + string)" where
  "redactedSecret secret tenant name r =
    (case secret tenant name of
       Inl e \<Rightarrow> (r, Inl e)
     | Inr v \<Rightarrow> (Add r v, Inr v))"

lemma redactedSecret_told: "redactedSecret secret tenant name r = (r', Inr v) \<Longrightarrow> r' = redactorStep compile (AddSecret v) r"
  by (auto simp: redactedSecret_def split: sum.splits)

section \<open>What a lookup reads\<close>

text \<open>The files a secret of a tenant may be in.\<close>

definition secretFiles :: "TenantID \<Rightarrow> string \<Rightarrow> string list" where
  "secretFiles tenant name = (if \<not> secretName name then []
     else (if secretName tenant then [tenant @ slash # name] else []) @ [name])"

text \<open>A path that stays below the directory it starts in.\<close>

definition staysInside :: "string \<Rightarrow> bool" where
  "staysInside p \<longleftrightarrow> list_all (\<lambda>e. e \<noteq> [] \<and> e \<noteq> ''.'' \<and> e \<noteq> ''..'') (Split slash p)"

lemma secretChar_slash: "secretChar c \<Longrightarrow> c \<noteq> slash"
  by (auto simp: secretChar_def secretStart_def less_eq_char_def)

lemma secretName_chars: "secretName s \<Longrightarrow> slash \<notin> set s \<and> s \<noteq> [] \<and> hd s \<noteq> CHR ''.''"
  by (cases s) (auto simp: list_all_iff secretChar_def secretStart_def less_eq_char_def)

lemma Split_none: "sep \<notin> set s \<Longrightarrow> Split sep s = [s]"
  by (induction s) auto

lemma Split_one: "sep \<notin> set a \<Longrightarrow> Split sep (a @ sep # b) = a # Split sep b"
  by (induction a) auto

lemma secretName_elem: "secretName s \<Longrightarrow> s \<noteq> ''.'' \<and> s \<noteq> ''..'' \<and> s \<noteq> []"
  using secretName_chars [of s] by auto

lemma pathJoin_names:
  assumes "secretName a" and "secretName b"
  shows "pathJoin a b = a @ slash # b"
  using assms secretName_chars [of a] secretName_chars [of b] secretName_elem [of a] secretName_elem [of b]
  by (simp add: pathJoin_def Split_one Split_none Let_def)

lemma secretFiles_inside: "p \<in> set (secretFiles tenant name) \<Longrightarrow> staysInside p"
  using secretName_chars [of tenant] secretName_chars [of name] secretName_elem [of tenant] secretName_elem [of name]
  by (auto simp: secretFiles_def staysInside_def Split_one Split_none split: if_splits)

lemma secretFiles_apart:
  assumes "secretName t" and "secretName n" and "t \<noteq> tenant"
  shows "t @ slash # n \<notin> set (secretFiles tenant name)"
proof
  assume "t @ slash # n \<in> set (secretFiles tenant name)"
  then have "secretName name" and p: "secretName tenant \<and> t @ slash # n = tenant @ slash # name \<or> t @ slash # n = name"
    by (auto simp: secretFiles_def split: if_splits)
  with secretName_chars [of name] have "secretName tenant" and eq: "t @ slash # n = tenant @ slash # name" by auto
  then have "Split slash (t @ slash # n) = Split slash (tenant @ slash # name)" by simp
  with assms(1,3) \<open>secretName tenant\<close> show False
    using secretName_chars [of t] secretName_chars [of tenant] by (simp add: Split_one)
qed

lemma DirSecret_reads:
  assumes "\<forall>p \<in> set (secretFiles tenant name). read p = read' p"
  shows "DirSecret opened read tenant name = DirSecret opened read' tenant name"
proof (cases "secretName name")
  case True
  with assms have shared: "read name = read' name" by (simp add: secretFiles_def)
  show ?thesis
  proof (cases "secretName tenant")
    case own: True
    with True assms have "read (tenant @ slash # name) = read' (tenant @ slash # name)" by (simp add: secretFiles_def)
    with shared True own show ?thesis
      by (cases opened; cases "read' (tenant @ slash # name)") (simp_all add: DirSecret_def pathJoin_names)
  next
    case False
    with shared True show ?thesis by (cases opened) (simp_all add: DirSecret_def)
  qed
qed (simp add: DirSecret_def)

text \<open>C37: A lookup in a directory of secrets depends on two files at most, the tenant's own and the shared
  one: both are in the directory, whatever the names asked for, and no file of another tenant is one
  of them. The tenant's own secret, if it can be read, is the answer, without its line breaks.\<close>

theorem secrets_stay_with_their_tenant:
  "(\<forall>p \<in> set (secretFiles tenant name). staysInside p) \<and>
   (\<forall>t n. secretName t \<and> secretName n \<and> t \<noteq> tenant \<longrightarrow> t @ slash # n \<notin> set (secretFiles tenant name)) \<and>
   DirSecret opened read tenant name =
     DirSecret opened (\<lambda>p. if p \<in> set (secretFiles tenant name) then read p else forged p) tenant name \<and>
   (secretName tenant \<and> secretName name \<and> opened = None \<and> read (tenant @ slash # name) = Inr own \<longrightarrow>
     DirSecret opened read tenant name = Inr (trimBreaks own))"
  using secretFiles_inside [of _ tenant name] secretFiles_apart [of _ _ tenant name] pathJoin_names [of tenant name]
    DirSecret_reads [of tenant name read "\<lambda>p. if p \<in> set (secretFiles tenant name) then read p else forged p" opened]
  by (auto simp: DirSecret_def)

definition vaultFiles :: "string \<Rightarrow> file_error + string" where
  "vaultFiles p = (if p = ''acme/key'' then Inr (''acme-key'' @ [lf]) else if p = ''key'' then Inr ''shared'' else Inl FileNotExist)"

theorem secrets_stay_with_their_tenant_witness:
  "DirSecret None vaultFiles ''acme'' ''key'' = Inr ''acme-key'' \<and>
   DirSecret None vaultFiles ''other'' ''key'' = Inr ''shared'' \<and>
   DirSecret None vaultFiles ''..'' ''acme/key'' = Inl (NoSecret ''acme/key'')"
proof -
  have "secretName ''acme''" "secretName ''key''" "vaultFiles (''acme'' @ slash # ''key'') = Inr (''acme-key'' @ [lf])"
    by code_simp+
  with secrets_stay_with_their_tenant [where tenant = "''acme''" and name = "''key''" and opened = None and read = vaultFiles
      and own = "''acme-key'' @ [lf]"]
  have "DirSecret None vaultFiles ''acme'' ''key'' = Inr (trimBreaks (''acme-key'' @ [lf]))" by blast
  moreover have "trimBreaks (''acme-key'' @ [lf]) = ''acme-key''" by code_simp
  moreover have "DirSecret None vaultFiles ''other'' ''key'' = Inr ''shared''" by code_simp
  moreover have "DirSecret None vaultFiles ''..'' ''acme/key'' = Inl (NoSecret ''acme/key'')" by code_simp
  ultimately show ?thesis by simp
qed

end
