(* ===== verification/Builtins.thy ===== *)
theory Builtins
  imports ToolUse JsonFields
begin

text \<open>
  The built-in tools (\<open>tool/builtin.go\<close>): their definitions, the executors of \<open>echo\<close>, \<open>uppercase\<close> and
  \<open>artifact.save\<close>, and \<open>RegisterBuiltins\<close>. The executor of \<open>math.add\<close>, which adds floating-point
  numbers, and \<open>strings.ToUpper\<close> are arguments.
\<close>

section \<open>Definitions\<close>

definition textSchema :: "string \<Rightarrow> json" where
  "textSchema name = JObj [(''type'', JStr ''object''), (''properties'', JObj [(name, JObj [(''type'', JStr ''string'')])])]"

definition textInput :: json where
  "textInput = JObj [(''type'', JStr ''object''), (''properties'', JObj [(''text'', JObj [(''type'', JStr ''string'')])]),
     (''required'', JArr [JStr ''text''])]"

definition readTool :: "string \<Rightarrow> string \<Rightarrow> json \<Rightarrow> raw \<Rightarrow> ToolDefinition" where
  "readTool name description inSchema outSchema = \<lparr>td_ID = [], td_Name = name, td_Version = ''1.0.0'',
     td_Description = description, td_InputSchema = Some inSchema, td_OutputSchema = outSchema,
     td_Idempotency = IdemIdempotent, td_SideEffect = SideNone, td_Concurrency = ConcurrencyParallelRead,
     td_RequiresApproval = False, td_Timeout = 0\<rparr>"

definition BuiltinEcho :: ToolDefinition where
  "BuiltinEcho = readTool ''echo'' ''Echo back the provided text. Read-only, parallel safe.'' textInput (Some (textSchema ''text''))"

definition BuiltinUppercase :: ToolDefinition where
  "BuiltinUppercase = readTool ''uppercase'' ''Return the uppercase version of the provided text.'' textInput None"

definition numberSchema :: json where
  "numberSchema = JObj [(''type'', JStr ''number'')]"

definition BuiltinAdd :: ToolDefinition where
  "BuiltinAdd = readTool ''math.add'' ''Return the sum of a and b.''
     (JObj [(''type'', JStr ''object''), (''properties'', JObj [(''a'', numberSchema), (''b'', numberSchema)]),
        (''required'', JArr [JStr ''a'', JStr ''b''])])
     (Some (JObj [(''type'', JStr ''object''), (''properties'', JObj [(''sum'', numberSchema)])]))"

definition BuiltinSaveArtifact :: ToolDefinition where
  "BuiltinSaveArtifact = \<lparr>td_ID = [], td_Name = ''artifact.save'', td_Version = [],
     td_Description = ''Save a document you wrote, such as a report, code patch or test result, as a file of this run.'',
     td_InputSchema = Some (JObj [(''type'', JStr ''object''), (''properties'', JObj [
        (''name'', JObj [(''type'', JStr ''string''), (''minLength'', JNum 1), (''description'', JStr ''file name, such as report.md'')]),
        (''content'', JObj [(''type'', JStr ''string''), (''description'', JStr ''the whole document'')]),
        (''kind'', JObj [(''type'', JStr ''string''),
           (''enum'', JArr [JStr ''file'', JStr ''json'', JStr ''report'', JStr ''patch'', JStr ''test_result''])]),
        (''mime_type'', JObj [(''type'', JStr ''string''), (''description'', JStr ''defaults to text/plain'')])]),
      (''required'', JArr [JStr ''name'', JStr ''content''])]),
     td_OutputSchema = None, td_Idempotency = [], td_SideEffect = SideWriteInternal,
     td_Concurrency = ConcurrencyParallelIsolatedWrite, td_RequiresApproval = False, td_Timeout = 0\<rparr>"

section \<open>Executors\<close>

definition echoExec :: "Call \<Rightarrow> ToolResult \<times> goerr option" where
  "echoExec c =
    (if \<not> decodes [''text''] [] (cl_Input c) then (ToolResult0, Some (Errorf ''echo: %w'' [new_error ''json'']))
     else (ToolResult0\<lparr>tr_Output := Some (mustJSON (JObj [(''text'', JStr (textField ''text'' (cl_Input c)))]))\<rparr>, None))"

definition uppercaseExec :: "(string \<Rightarrow> string) \<Rightarrow> Call \<Rightarrow> ToolResult \<times> goerr option" where
  "uppercaseExec toUpper c =
    (if \<not> decodes [''text''] [] (cl_Input c) then (ToolResult0, Some (new_error ''json''))
     else (ToolResult0\<lparr>tr_Output := Some (mustJSON (JObj [(''text'', JStr (toUpper (textField ''text'' (cl_Input c))))]))\<rparr>, None))"

definition saveArtifactExec :: "Call \<Rightarrow> ToolResult \<times> goerr option" where
  "saveArtifactExec c =
    (if \<not> decodes [''name'', ''content'', ''kind'', ''mime_type''] [] (cl_Input c) then (ToolResult0, Some (new_error ''json''))
     else let name = textField ''name'' (cl_Input c); content = textField ''content'' (cl_Input c);
              mime = textField ''mime_type'' (cl_Input c)
          in (ToolResult0\<lparr>tr_Output := Some (mustJSON (JObj [(''saved'', JStr name), (''size'', JNum (int (length content)))])),
                tr_Artifacts := [\<lparr>pa_Name = name, pa_Kind = textField ''kind'' (cl_Input c),
                   pa_MimeType = (if mime = [] then ''text/plain; charset=utf-8'' else mime),
                   pa_Content = content, pa_Metadata = []\<rparr>]\<rparr>, None))"

text \<open>\<open>RegisterBuiltins\<close>, with the ID \<open>Register\<close> makes for each tool.\<close>

fun registerAll :: "(json \<Rightarrow> goerr + 'sc) \<Rightarrow> (ToolDefinition \<Rightarrow> ToolID) \<Rightarrow> (ToolDefinition \<times> 'x) list
    \<Rightarrow> ('x, 'sc) Registry \<Rightarrow> ('x, 'sc) Registry \<times> goerr option" where
  "registerAll compileSchema newID [] r = (r, None)"
| "registerAll compileSchema newID ((d, x) # ds) r =
    (case Register compileSchema (newID d) d (Some x) r of
       (r1, Some e) \<Rightarrow> (r1, Some e)
     | (r1, None) \<Rightarrow> registerAll compileSchema newID ds r1)"

definition RegisterBuiltins :: "(json \<Rightarrow> goerr + 'sc) \<Rightarrow> (ToolDefinition \<Rightarrow> ToolID) \<Rightarrow> 'x \<Rightarrow> 'x \<Rightarrow> 'x \<Rightarrow> 'x
    \<Rightarrow> ('x, 'sc) Registry \<Rightarrow> ('x, 'sc) Registry \<times> goerr option" where
  "RegisterBuiltins compileSchema newID echo upper addition save r = registerAll compileSchema newID
     [(BuiltinEcho, echo), (BuiltinUppercase, upper), (BuiltinAdd, addition), (BuiltinSaveArtifact, save)] r"

section \<open>What they do\<close>

text \<open>With a compiler that accepts the schemas, all four tools are registered, with the defaults filled in.\<close>

lemma RegisterBuiltins_all:
  assumes "\<And>d. d \<in> {BuiltinEcho, BuiltinUppercase, BuiltinAdd, BuiltinSaveArtifact} \<Longrightarrow>
    \<exists>sc. compileSchema (the (td_InputSchema d)) = Inr sc"
  shows "\<exists>r'. RegisterBuiltins compileSchema newID echo upper addition save r = (r', None) \<and>
    map (\<lambda>n. Registry_Get r' n) [''echo'', ''uppercase'', ''math.add'', ''artifact.save''] =
      map (\<lambda>(d, x). Some (filledTool (newID d) d, x))
        [(BuiltinEcho, echo), (BuiltinUppercase, upper), (BuiltinAdd, addition), (BuiltinSaveArtifact, save)]"
proof -
  have "\<exists>sc. compileSchema (the (td_InputSchema BuiltinEcho)) = Inr sc"
    "\<exists>sc. compileSchema (the (td_InputSchema BuiltinUppercase)) = Inr sc"
    "\<exists>sc. compileSchema (the (td_InputSchema BuiltinAdd)) = Inr sc"
    "\<exists>sc. compileSchema (the (td_InputSchema BuiltinSaveArtifact)) = Inr sc"
    using assms by simp_all
  then show ?thesis
    by (auto simp: RegisterBuiltins_def Register_def BuiltinEcho_def BuiltinUppercase_def BuiltinAdd_def
        BuiltinSaveArtifact_def readTool_def Registry_Get_def go_simps)
qed

text \<open>A file of the run is saved with the content the model wrote, whatever it is.\<close>

lemma saveArtifactExec_content:
  assumes "saveArtifactExec c = (r, None)"
  shows "\<exists>a. tr_Artifacts r = [a] \<and> pa_Content a = textField ''content'' (cl_Input c) \<and> pa_MimeType a \<noteq> []"
  using assms by (auto simp: saveArtifactExec_def Let_def split: if_splits)

end
