(* ===== verification/McpClient.thy ===== *)
theory McpClient
  imports ToolUse
begin

text \<open>
  The client of a Model Context Protocol server (\<open>tool/mcp/mcp.go\<close>): the translation of its tools,
  the calls with their retries and the circuit breaker, and the registration that keeps a registry
  in step with the server. The SDK is outside the repository: what it answers is an argument. A
  section under the client's mutex is one function of the client; what other calls do to the client
  between two sections is an argument too.
\<close>

section \<open>Configuration and client\<close>

record McpServer =
  mx_Name :: string
  mx_Command :: "string list"
  mx_URL :: string
  mx_Headers :: "(string, string) gomap"
  mx_Timeout :: duration
  mx_MaxRetries :: int
  mx_BreakAfter :: int
  mx_BreakFor :: duration

text \<open>A session is named by a number, a nil session is \<open>None\<close>.\<close>

record McpClient =
  mc_cfg :: McpServer
  mc_registered :: "string list"
  mc_session :: "nat option"
  mc_connects :: int
  mc_closed :: bool
  mc_pending :: bool
  mc_failures :: int
  mc_openUntil :: time

definition filledServer :: "McpServer \<Rightarrow> McpServer" where
  "filledServer c0 =
    (let c1 = (if mx_Timeout c0 \<le> 0 then c0\<lparr>mx_Timeout := 30 * 10 ^ 9\<rparr> else c0);
         c2 = (if mx_MaxRetries c1 \<le> 0 then c1\<lparr>mx_MaxRetries := 2\<rparr> else c1);
         c3 = (if mx_BreakAfter c2 \<le> 0 then c2\<lparr>mx_BreakAfter := 5\<rparr> else c2)
     in if mx_BreakFor c3 \<le> 0 then c3\<lparr>mx_BreakFor := 30 * 10 ^ 9\<rparr> else c3)"

definition newClient :: "McpServer \<Rightarrow> McpClient" where
  "newClient cfg = \<lparr>mc_cfg = filledServer cfg, mc_registered = [], mc_session = None, mc_connects = 0, mc_closed = False,
     mc_pending = False, mc_failures = 0, mc_openUntil = 0\<rparr>"

definition New :: "McpServer \<Rightarrow> goerr + McpClient" where
  "New cfg =
    (if mx_Name cfg = [] \<or> (length (mx_Command cfg) = 0) = (mx_URL cfg = [])
     then Inl (new_error ''mcp server %q: needs a name and exactly one of command and url'')
     else Inr (newClient cfg))"

section \<open>Sessions and the circuit breaker\<close>

datatype mcp_error = McpClosed | McpConnect goerr | McpLost goerr | McpWrapped mcp_error

text \<open>\<open>connected\<close>; \<open>connect\<close> is what the transport and the SDK's \<open>Connect\<close> return if they are called.\<close>

definition connectTo :: "goerr + nat \<Rightarrow> McpClient \<Rightarrow> McpClient \<times> (mcp_error + nat \<times> bool)" where
  "connectTo connect c =
    (if mc_closed c then (c, Inl McpClosed)
     else case mc_session c of
       Some s \<Rightarrow> (c, Inr (s, False))
     | None \<Rightarrow>
        (case connect of
           Inl e \<Rightarrow> (c, Inl (McpConnect e))
         | Inr s \<Rightarrow> (let n = mc_connects c + 1
             in (c\<lparr>mc_connects := n, mc_session := Some s\<rparr>, Inr (s, n > 1)))))"

definition dropSession :: "nat \<Rightarrow> McpClient \<Rightarrow> McpClient" where
  "dropSession s c = (if mc_session c = Some s then c\<lparr>mc_session := None\<rparr> else c)"

definition healthy :: "McpClient \<Rightarrow> McpClient" where
  "healthy c = c\<lparr>mc_failures := 0\<rparr>"

definition failed :: "time \<Rightarrow> McpClient \<Rightarrow> McpClient" where
  "failed now c0 =
    (let c = c0\<lparr>mc_failures := mc_failures c0 + 1\<rparr>
     in if mc_failures c \<ge> mx_BreakAfter (mc_cfg c) then c\<lparr>mc_openUntil := now + mx_BreakFor (mc_cfg c)\<rparr> else c)"

text \<open>\<open>Close\<close>, and whether a session is closed.\<close>

definition closeClient :: "McpClient \<Rightarrow> McpClient \<times> bool" where
  "closeClient c = (c\<lparr>mc_closed := True, mc_session := None\<rparr>, mc_session c \<noteq> None)"

text \<open>\<open>resync\<close>, and whether a sync is started; the start of that sync.\<close>

definition resync :: "McpClient \<Rightarrow> McpClient \<times> bool" where
  "resync c = (if mc_closed c \<or> mc_pending c then (c, False) else (c\<lparr>mc_pending := True\<rparr>, True))"

definition beginSync :: "McpClient \<Rightarrow> McpClient" where
  "beginSync c = c\<lparr>mc_pending := False\<rparr>"

section \<open>Results\<close>

datatype mcp_content = TextContent string | OtherContent

record McpResult =
  mr_Content :: "mcp_content list"
  mr_IsError :: bool
  mr_Structured :: "json option"

fun contentText :: "mcp_content \<Rightarrow> string" where
  "contentText (TextContent t) = t"
| "contentText OtherContent = ''[non-text content omitted]''"

fun textLines :: "string list \<Rightarrow> string" where
  "textLines [] = []"
| "textLines [s] = s"
| "textLines (s # ss) = s @ CHR 0x0A # textLines ss"

definition mcpResult :: "McpResult \<Rightarrow> ToolResult \<times> goerr option" where
  "mcpResult res =
    (let joined = textLines (map contentText (mr_Content res))
     in if mr_IsError res then (ToolResult0, Some (new_error joined))
        else case mr_Structured res of
          Some v \<Rightarrow> (ToolResult0\<lparr>tr_Output := Some v\<rparr>, None)
        | None \<Rightarrow> (ToolResult0\<lparr>tr_Output := Some (mustJSON (JObj [(''content'', JStr joined)]))\<rparr>, None))"

section \<open>Calls\<close>

text \<open>What the server answers a call with: a result, an error of its own, or nothing.\<close>

datatype mcp_answer = Answers McpResult | Rejects goerr | Loses goerr

text \<open>A round of the loop: what connecting gives, what others do to the client after each section, the
  answer, and whether the context has ended after it.\<close>

record mcp_round =
  wr_connect :: "goerr + nat"
  wr_afterConnect :: "McpClient \<Rightarrow> McpClient"
  wr_answer :: mcp_answer
  wr_afterAnswer :: "McpClient \<Rightarrow> McpClient"
  wr_ended :: bool

text \<open>What is sent to the server: the tool's name and its arguments, in one session.\<close>

type_synonym mcp_request = "nat \<times> string \<times> raw"

datatype call_end= CallDone ToolResult "goerr option" | CallRejected goerr | CallGaveUp mcp_error | CallRefused

text \<open>The loop, with the requests sent; \<open>err\<close> is that of the round before.\<close>

fun callRounds :: "string \<Rightarrow> raw \<Rightarrow> mcp_error \<Rightarrow> mcp_round list \<Rightarrow> McpClient \<Rightarrow> McpClient \<times> mcp_request list \<times> call_end" where
  "callRounds name args err [] c = (c, [], CallGaveUp err)"
| "callRounds name args err (w # ws) c =
    (case connectTo (wr_connect w) c of
       (c1, Inl e) \<Rightarrow>
         if wr_ended w then (c1, [], CallGaveUp e) else callRounds name args e ws (wr_afterAnswer w c1)
     | (c1, Inr (s, reconnected)) \<Rightarrow>
         (let c2 = wr_afterConnect w (if reconnected then fst (resync c1) else c1)
          in case wr_answer w of
               Answers res \<Rightarrow> (healthy c2, [(s, name, args)], CallDone (fst (mcpResult res)) (snd (mcpResult res)))
             | Rejects e \<Rightarrow> (healthy c2, [(s, name, args)], CallRejected e)
             | Loses e \<Rightarrow>
                 (let c3 = dropSession s c2
                  in if wr_ended w then (c3, [(s, name, args)], CallGaveUp (McpLost e))
                     else case callRounds name args (McpLost e) ws (wr_afterAnswer w c3) of
                         (c4, reqs, fin) \<Rightarrow> (c4, (s, name, args) # reqs, fin))))"

text \<open>\<open>call\<close>: \<open>rounds n\<close> is what the \<open>n\<close>-th round of the loop meets.\<close>

record mcp_world =
  cw_start :: time
  cw_rounds :: "nat \<Rightarrow> mcp_round"
  cw_failedAt :: time

definition callTool :: "mcp_world \<Rightarrow> string \<Rightarrow> raw \<Rightarrow> bool \<Rightarrow> McpClient \<Rightarrow> McpClient \<times> mcp_request list \<times> call_end" where
  "callTool w name input idempotent c =
    (if cw_start w < mc_openUntil c then (c, [], CallRefused)
     else let rounds = (if idempotent then 1 + mx_MaxRetries (mc_cfg c) else 1)
          in case callRounds name input McpClosed (map (cw_rounds w) [0..<nat rounds]) c of
               (c1, reqs, CallGaveUp e) \<Rightarrow> (failed (cw_failedAt w) c1, reqs, CallGaveUp (McpWrapped e))
             | (c1, reqs, fin) \<Rightarrow> (c1, reqs, fin))"

section \<open>Tools of a server\<close>

text \<open>The hints of a tool's annotations; those that default to true are options.\<close>

record McpTool =
  ml_Name :: string
  ml_Description :: string
  ml_Title :: string
  ml_InputSchema :: "json option"
  ml_OutputSchema :: "json option"
  ml_ReadOnly :: bool
  ml_Idempotent :: bool
  ml_Destructive :: "bool option"
  ml_OpenWorld :: "bool option"

definition hinted :: "bool option \<Rightarrow> bool" where
  "hinted h = (case h of None \<Rightarrow> True | Some b \<Rightarrow> b)"

definition toolDefinition :: "McpServer \<Rightarrow> McpTool \<Rightarrow> string \<Rightarrow> ToolDefinition" where
  "toolDefinition cfg t version =
    \<lparr>td_ID = [], td_Name = mx_Name cfg @ ''.'' @ ml_Name t, td_Version = version,
     td_Description = (if ml_Description t = [] then ml_Title t else ml_Description t),
     td_InputSchema = Some (case ml_InputSchema t of None \<Rightarrow> JObj [(''type'', JStr ''object'')] | Some sc \<Rightarrow> sc),
     td_OutputSchema = ml_OutputSchema t,
     td_Idempotency = (if ml_ReadOnly t \<or> ml_Idempotent t then IdemIdempotent else IdemUnknown),
     td_SideEffect = (if ml_ReadOnly t \<and> hinted (ml_OpenWorld t) then SideReadExternal
        else if ml_ReadOnly t then SideNone
        else if hinted (ml_Destructive t) then SideDangerous
        else if hinted (ml_OpenWorld t) then SideWriteExternal else SideWriteInternal),
     td_Concurrency = (if ml_ReadOnly t then ConcurrencyParallelRead else ConcurrencySerial),
     td_RequiresApproval = False, td_Timeout = mx_Timeout cfg\<rparr>"

text \<open>The loop of \<open>syncLocked\<close> over the listed tools. The executor of a tool is made from its name on the
  server and whether its calls may be repeated.\<close>

fun syncTools :: "(json \<Rightarrow> goerr + 'sc) \<Rightarrow> (string \<Rightarrow> ToolID) \<Rightarrow> (string \<Rightarrow> bool \<Rightarrow> 'x) \<Rightarrow> McpClient \<Rightarrow> string \<Rightarrow> McpTool list
    \<Rightarrow> string list \<Rightarrow> ('x, 'sc) Registry \<Rightarrow> ('x, 'sc) Registry \<times> string list" where
  "syncTools compileSchema newID exec c version [] names reg = (reg, names)"
| "syncTools compileSchema newID exec c version (t # ts) names reg =
    (let d = toolDefinition (mc_cfg c) t version; name = td_Name d; old = Registry_Get reg name
     in if old \<noteq> None \<and> name \<notin> set (mc_registered c) then syncTools compileSchema newID exec c version ts names reg
        else let d1 = (case old of None \<Rightarrow> d | Some (o1, _) \<Rightarrow> d\<lparr>td_ID := td_ID o1\<rparr>)
             in case Register compileSchema (newID name) d1 (Some (exec (ml_Name t) (td_Idempotency d1 = IdemIdempotent))) reg of
                  (reg1, Some e) \<Rightarrow> syncTools compileSchema newID exec c version ts names reg1
                | (reg1, None) \<Rightarrow> syncTools compileSchema newID exec c version ts (names @ [name]) reg1)"

text \<open>\<open>syncLocked\<close>: \<open>listing\<close> is the server's version and its tools, or an error of the listing.\<close>

definition syncLocked :: "(json \<Rightarrow> goerr + 'sc) \<Rightarrow> (string \<Rightarrow> ToolID) \<Rightarrow> (string \<Rightarrow> bool \<Rightarrow> 'x) \<Rightarrow> goerr + nat
    \<Rightarrow> goerr + string \<times> McpTool list \<Rightarrow> McpClient \<Rightarrow> ('x, 'sc) Registry
    \<Rightarrow> McpClient \<times> ('x, 'sc) Registry \<times> (mcp_error + string list)" where
  "syncLocked compileSchema newID exec connect listing c reg =
    (case connectTo connect c of
       (c1, Inl e) \<Rightarrow> (c1, reg, Inl e)
     | (c1, Inr _) \<Rightarrow>
        (case listing of
           Inl e \<Rightarrow> (c1, reg, Inl (McpLost e))
         | Inr (v, tools) \<Rightarrow>
            (let version = (if v = [] then ''1.0.0'' else v)
             in case syncTools compileSchema newID exec c1 version tools [] reg of
                  (reg1, names) \<Rightarrow>
                    (c1\<lparr>mc_registered := remdups names\<rparr>,
                     fold (\<lambda>name r. if name \<in> set names then r else Unregister name r) (mc_registered c1) reg1,
                     Inr names))))"

section \<open>Calls are sent no more often than they may be\<close>

lemma callRounds_sent:
  "callRounds name args err ws c = (c', reqs, fin) \<Longrightarrow>
    length reqs \<le> length ws \<and> (\<forall>q \<in> set reqs. snd q = (name, args))"
proof (induction name args err ws c arbitrary: c' reqs fin rule: callRounds.induct)
  case (2 name args err w ws c)
  obtain c1 r where k: "connectTo (wr_connect w) c = (c1, r)" by fastforce
  show ?case
  proof (cases r)
    case (Inl e)
    show ?thesis
    proof (cases "wr_ended w")
      case True
      with 2(3) k Inl show ?thesis by simp
    next
      case False
      with 2(3) k Inl have "callRounds name args e ws (wr_afterAnswer w c1) = (c', reqs, fin)" by simp
      from 2(1) [OF k [symmetric] Inl False this] show ?thesis by simp
    qed
  next
    case (Inr p)
    obtain s b where p: "p = (s, b)" by fastforce
    let ?c2 = "wr_afterConnect w (if b then fst (resync c1) else c1)"
    show ?thesis
    proof (cases "wr_answer w")
      case (Loses e)
      show ?thesis
      proof (cases "wr_ended w")
        case True
        with 2(3) k Inr p Loses show ?thesis by (auto simp: Let_def)
      next
        case False
        obtain c4 reqs' fin' where r: "callRounds name args (McpLost e) ws (wr_afterAnswer w (dropSession s ?c2)) = (c4, reqs', fin')"
          by (cases "callRounds name args (McpLost e) ws (wr_afterAnswer w (dropSession s ?c2))")
        from 2(2) [OF k [symmetric] Inr p [symmetric] refl Loses refl False r] r 2(3) k Inr p Loses False
        show ?thesis by (auto simp: Let_def)
      qed
    qed (use 2(3) k Inr p in \<open>auto simp: Let_def\<close>)
  qed
qed auto

text \<open>A call of a tool that may not be repeated is sent to the server at most once, any other at most
  once more than the configured retries, and always the same request; while the circuit is open
  nothing is sent and the client stays as it is. An answer, good or bad, ends the call.\<close>

theorem mcp_calls_are_sent_as_allowed:
  assumes "callTool w name input idempotent c = (c', reqs, fin)" and "0 \<le> mx_MaxRetries (mc_cfg c)"
  shows "int (length reqs) \<le> (if idempotent then 1 + mx_MaxRetries (mc_cfg c) else 1) \<and>
    (\<forall>q \<in> set reqs. snd q = (name, input)) \<and>
    (cw_start w < mc_openUntil c \<longrightarrow> c' = c \<and> reqs = [] \<and> fin = CallRefused)"
proof (cases "cw_start w < mc_openUntil c")
  case True
  with assms show ?thesis by (auto simp: callTool_def)
next
  case False
  let ?ws = "map (cw_rounds w) [0..<nat (if idempotent then 1 + mx_MaxRetries (mc_cfg c) else 1)]"
  obtain c1 reqs1 fin1 where r: "callRounds name input McpClosed ?ws c = (c1, reqs1, fin1)"
    by (cases "callRounds name input McpClosed ?ws c")
  with assms(1) False have "reqs = reqs1" by (auto simp: callTool_def Let_def split: call_end.splits)
  with callRounds_sent [OF r] assms(2) False show ?thesis by auto
qed

text \<open>A server that loses the first request and answers the second; one that cannot be reached.\<close>

definition filesServer :: McpServer where
  "filesServer = \<lparr>mx_Name = ''files'', mx_Command = [''files-server''], mx_URL = [], mx_Headers = [], mx_Timeout = 0,
     mx_MaxRetries = 0, mx_BreakAfter = 2, mx_BreakFor = 100\<rparr>"

definition lossyWorld :: mcp_world where
  "lossyWorld = \<lparr>cw_start = 1, cw_rounds = (\<lambda>n. \<lparr>wr_connect = Inr n, wr_afterConnect = id,
     wr_answer = (if n = 0 then Loses (new_error ''EOF'')
       else Answers \<lparr>mr_Content = [TextContent ''ok''], mr_IsError = False, mr_Structured = None\<rparr>),
     wr_afterAnswer = id, wr_ended = False\<rparr>), cw_failedAt = 5\<rparr>"

definition downWorld :: "time \<Rightarrow> mcp_world" where
  "downWorld t = \<lparr>cw_start = t, cw_rounds = (\<lambda>n. \<lparr>wr_connect = Inl (new_error ''refused''), wr_afterConnect = id,
     wr_answer = Loses (new_error ''EOF''), wr_afterAnswer = id, wr_ended = False\<rparr>), cw_failedAt = t\<rparr>"

theorem mcp_calls_are_sent_as_allowed_witness:
  "\<exists>c' reqs fin. callTool lossyWorld ''read'' None True (newClient filesServer) = (c', reqs, fin) \<and>
     length reqs = 2 \<and> int (length reqs) \<le> 3 \<and> (\<forall>q \<in> set reqs. snd q = (''read'', None))"
proof -
  obtain c' reqs fin where k: "callTool lossyWorld ''read'' None True (newClient filesServer) = (c', reqs, fin)"
    by (cases "callTool lossyWorld ''read'' None True (newClient filesServer)")
  have "length (fst (snd (callTool lossyWorld ''read'' None True (newClient filesServer)))) = 2" by code_simp
  with k have "length reqs = 2" by simp
  moreover have "mx_MaxRetries (mc_cfg (newClient filesServer)) = 2" by code_simp
  ultimately show ?thesis using mcp_calls_are_sent_as_allowed [OF k] k by auto
qed


section \<open>A failing server is left alone\<close>

text \<open>Calls made one after the other, with no others in between.\<close>

definition alone :: "mcp_world \<Rightarrow> bool" where
  "alone w \<longleftrightarrow> (\<forall>n. wr_afterConnect (cw_rounds w n) = id \<and> wr_afterAnswer (cw_rounds w n) = id)"

definition gaveUp :: "call_end \<Rightarrow> bool" where
  "gaveUp fin = (case fin of CallGaveUp e \<Rightarrow> True | _ \<Rightarrow> False)"

fun allGiveUp :: "(mcp_world \<times> string \<times> raw \<times> bool) list \<Rightarrow> McpClient \<Rightarrow> McpClient option" where
  "allGiveUp [] c = Some c"
| "allGiveUp ((w, name, input, idem) # ws) c =
    (case callTool w name input idem c of
       (c1, reqs, fin) \<Rightarrow> if gaveUp fin then allGiveUp ws c1 else None)"

lemma callRounds_gave_up:
  "callRounds name args err ws c = (c', reqs, CallGaveUp e) \<Longrightarrow> \<forall>w \<in> set ws. wr_afterConnect w = id \<and> wr_afterAnswer w = id \<Longrightarrow>
    mc_failures c' = mc_failures c \<and> mc_cfg c' = mc_cfg c"
proof (induction name args err ws c arbitrary: c' reqs e rule: callRounds.induct)
  case (2 name args err w ws c)
  obtain c1 r where k: "connectTo (wr_connect w) c = (c1, r)" by fastforce
  then have same: "mc_failures c1 = mc_failures c \<and> mc_cfg c1 = mc_cfg c"
    by (auto simp: connectTo_def Let_def split: option.splits sum.splits if_splits)
  show ?case
  proof (cases r)
    case (Inl err')
    show ?thesis
    proof (cases "wr_ended w")
      case True
      with 2(3) k Inl same show ?thesis by simp
    next
      case False
      with 2(3,4) k Inl have "callRounds name args err' ws c1 = (c', reqs, CallGaveUp e)" by simp
      with 2(1) [OF k [symmetric] Inl False] 2(4) same show ?thesis by simp
    qed
  next
    case (Inr p)
    obtain s b where p: "p = (s, b)" by fastforce
    let ?c2 = "if b then fst (resync c1) else c1"
    have same2: "mc_failures (dropSession s ?c2) = mc_failures c \<and> mc_cfg (dropSession s ?c2) = mc_cfg c"
      using same by (simp add: dropSession_def resync_def)
    show ?thesis
    proof (cases "wr_answer w")
      case (Loses err')
      show ?thesis
      proof (cases "wr_ended w")
        case True
        with 2(3,4) k Inr p Loses same2 show ?thesis by (auto simp: Let_def)
      next
        case False
        obtain c4 reqs' fin' where r: "callRounds name args (McpLost err') ws (dropSession s ?c2) = (c4, reqs', fin')"
          by (cases "callRounds name args (McpLost err') ws (dropSession s ?c2)")
        with 2(3,4) k Inr p Loses False have "c' = c4" "fin' = CallGaveUp e" by (auto simp: Let_def)
        with 2(2) [OF k [symmetric] Inr p [symmetric] refl Loses refl False, of c4 reqs' e] r 2(4) same2 show ?thesis by auto
      qed
    qed (use 2(3) k Inr p in \<open>auto simp: Let_def\<close>)
  qed
qed auto

lemma callTool_gave_up:
  assumes "callTool w name input idem c = (c', reqs, fin)" and "gaveUp fin" and "alone w"
  shows "mc_failures c' = mc_failures c + 1 \<and> mc_cfg c' = mc_cfg c \<and>
    (mc_failures c' \<ge> mx_BreakAfter (mc_cfg c) \<longrightarrow> mc_openUntil c' = cw_failedAt w + mx_BreakFor (mc_cfg c))"
proof -
  let ?ws = "map (cw_rounds w) [0..<nat (if idem then 1 + mx_MaxRetries (mc_cfg c) else 1)]"
  from assms(1,2) have "\<not> cw_start w < mc_openUntil c" by (auto simp: callTool_def gaveUp_def)
  with assms(1,2) obtain c1 e where r: "callRounds name input McpClosed ?ws c = (c1, reqs, CallGaveUp e)"
      and c': "c' = failed (cw_failedAt w) c1"
    by (auto simp: callTool_def gaveUp_def Let_def split: prod.splits call_end.splits)
  from callRounds_gave_up [OF r] assms(3) have "mc_failures c1 = mc_failures c \<and> mc_cfg c1 = mc_cfg c"
    by (auto simp: alone_def)
  then show ?thesis by (simp add: c' failed_def Let_def)
qed

lemma allGiveUp_counts:
  "allGiveUp ws c = Some c' \<Longrightarrow> \<forall>w \<in> set ws. alone (fst w) \<Longrightarrow>
    mc_failures c' = mc_failures c + int (length ws) \<and> mc_cfg c' = mc_cfg c"
proof (induction ws arbitrary: c)
  case (Cons a ws)
  obtain w name input idem where a: "a = (w, name, input, idem)" by (cases a)
  obtain c1 reqs fin where k: "callTool w name input idem c = (c1, reqs, fin)" by (cases "callTool w name input idem c")
  with Cons.prems a have g: "gaveUp fin" "allGiveUp ws c1 = Some c'" by (auto split: if_splits)
  from callTool_gave_up [OF k g(1)] Cons.prems(2) Cons.IH [OF g(2)] a show ?case by simp
qed simp




section \<open>A registry in step with its server\<close>

text \<open>A definition that is no bolder than the hints.\<close>

definition asHinted :: "McpTool \<Rightarrow> ToolDefinition \<Rightarrow> bool" where
  "asHinted t d \<longleftrightarrow>
    (td_Idempotency d \<noteq> IdemUnknown \<longrightarrow> ml_ReadOnly t \<or> ml_Idempotent t) \<and>
    (td_Concurrency d \<noteq> ConcurrencySerial \<longrightarrow> ml_ReadOnly t) \<and>
    (td_SideEffect d = SideNone \<longrightarrow> ml_ReadOnly t \<and> ml_OpenWorld t = Some False) \<and>
    (td_SideEffect d = SideReadExternal \<longrightarrow> ml_ReadOnly t) \<and>
    (td_SideEffect d = SideWriteInternal \<longrightarrow> ml_Destructive t = Some False \<and> ml_OpenWorld t = Some False) \<and>
    (td_SideEffect d = SideWriteExternal \<longrightarrow> ml_Destructive t = Some False) \<and>
    td_SideEffect d \<in> {SideNone, SideReadExternal, SideWriteInternal, SideWriteExternal, SideDangerous}"

lemma toolDefinition_as_hinted: "asHinted t (filledTool i ((toolDefinition cfg t v)\<lparr>td_ID := x\<rparr>))"
  by (auto simp: asHinted_def toolDefinition_def filledTool_def hinted_def Let_def split: option.splits bool.splits)

text \<open>What is registered under a name: a listed tool, as hinted, with an executor that repeats calls only if
  the hints allow it.\<close>

definition fromListing :: "McpServer \<Rightarrow> McpTool list \<Rightarrow> (string \<Rightarrow> bool \<Rightarrow> 'x) \<Rightarrow> string \<Rightarrow> ('x, 'sc) registered \<Rightarrow> bool" where
  "fromListing cfg tools exec name r \<longleftrightarrow> (\<exists>t \<in> set tools. name = mx_Name cfg @ ''.'' @ ml_Name t \<and> asHinted t (rg_def r) \<and>
     rg_exec r = exec (ml_Name t) (ml_ReadOnly t \<or> ml_Idempotent t))"

lemma Register_tool:
  assumes "Register compileSchema newID d (Some x) reg = (reg1, None)"
  shows "\<exists>sc. reg1 = mput (td_Name d) \<lparr>rg_def = filledTool newID d, rg_exec = x, rg_schema = sc\<rparr> reg"
  using assms by (auto simp: Register_def split: if_splits option.splits sum.splits)

lemma Register_refused: "Register compileSchema newID d x reg = (reg1, Some e) \<Longrightarrow> reg1 = reg"
  by (auto simp: Register_def split: if_splits option.splits sum.splits)

lemma syncTools_step:
  assumes "syncTools compileSchema newID exec c version ts names reg = (reg', names')"
    and "set ts \<subseteq> set tools" and "\<forall>n \<in> set names. \<exists>r. map_of reg n = Some r \<and> fromListing (mc_cfg c) tools exec n r"
    and "\<forall>n \<in> set names. map_of reg0 n = None \<or> n \<in> set (mc_registered c)"
    and "\<forall>n. n \<notin> set names \<longrightarrow> map_of reg n = map_of reg0 n"
  shows "(\<forall>n \<in> set names'. \<exists>r. map_of reg' n = Some r \<and> fromListing (mc_cfg c) tools exec n r) \<and>
    (\<forall>n \<in> set names'. map_of reg0 n = None \<or> n \<in> set (mc_registered c)) \<and>
    (\<forall>n. n \<notin> set names' \<longrightarrow> map_of reg' n = map_of reg0 n)"
  using assms
proof (induction ts arbitrary: names reg)
  case (Cons t ts)
  let ?d = "toolDefinition (mc_cfg c) t version"
  let ?n = "td_Name ?d"
  let ?d1 = "case Registry_Get reg ?n of None \<Rightarrow> ?d | Some (o1, _) \<Rightarrow> ?d\<lparr>td_ID := td_ID o1\<rparr>"
  let ?x = "exec (ml_Name t) (td_Idempotency ?d1 = IdemIdempotent)"
  have name: "?n = mx_Name (mc_cfg c) @ ''.'' @ ml_Name t" by (simp add: toolDefinition_def)
  have d1: "\<exists>i. ?d1 = ?d\<lparr>td_ID := i\<rparr>"
  proof (cases "Registry_Get reg ?n")
    case None
    then have "?d1 = ?d\<lparr>td_ID := td_ID ?d\<rparr>" by simp
    then show ?thesis by blast
  qed auto
  show ?case
  proof (cases "Registry_Get reg ?n \<noteq> None \<and> ?n \<notin> set (mc_registered c)")
    case True
    from Cons.prems(1) have "syncTools compileSchema newID exec c version ts names reg = (reg', names')"
      unfolding syncTools.simps Let_def if_P [OF True] .
    from Cons.IH [OF this] Cons.prems show ?thesis by simp
  next
    case False
    obtain reg1 err where r: "Register compileSchema (newID ?n) ?d1 (Some ?x) reg = (reg1, err)" by fastforce
    show ?thesis
    proof (cases err)
      case (Some e)
      with r Register_refused have "reg1 = reg" by blast
      with Cons.prems(1) have "syncTools compileSchema newID exec c version ts names reg = (reg', names')"
        unfolding syncTools.simps Let_def if_not_P [OF False] r Some by simp
      from Cons.IH [OF this] Cons.prems show ?thesis by simp
    next
      case None
      from d1 obtain i where i: "?d1 = ?d\<lparr>td_ID := i\<rparr>" by blast
      with Register_tool [OF r [unfolded None]] obtain sc where
        reg1: "reg1 = mput ?n \<lparr>rg_def = filledTool (newID ?n) (?d\<lparr>td_ID := i\<rparr>), rg_exec = ?x, rg_schema = sc\<rparr> reg" by auto
      have new: "fromListing (mc_cfg c) tools exec ?n \<lparr>rg_def = filledTool (newID ?n) (?d\<lparr>td_ID := i\<rparr>), rg_exec = ?x, rg_schema = sc\<rparr>"
        unfolding fromListing_def
      proof (intro bexI [of _ t] conjI)
        show "t \<in> set tools" using Cons.prems(2) by simp
        show "?n = mx_Name (mc_cfg c) @ ''.'' @ ml_Name t" by (rule name)
        show "asHinted t (rg_def \<lparr>rg_def = filledTool (newID ?n) (?d\<lparr>td_ID := i\<rparr>), rg_exec = ?x, rg_schema = sc\<rparr>)"
          by (simp add: toolDefinition_as_hinted)
        show "rg_exec \<lparr>rg_def = filledTool (newID ?n) (?d\<lparr>td_ID := i\<rparr>), rg_exec = ?x, rg_schema = sc\<rparr> =
            exec (ml_Name t) (ml_ReadOnly t \<or> ml_Idempotent t)"
          unfolding i by (simp add: toolDefinition_def)
      qed
      have taken: "map_of reg0 ?n = None \<or> ?n \<in> set (mc_registered c)"
      proof (rule disjCI)
        assume "?n \<notin> set (mc_registered c)"
        with False have "map_of reg ?n = None" by (simp add: Registry_Get_def split: option.splits)
        with Cons.prems(3,5) show "map_of reg0 ?n = None" by (cases "?n \<in> set names") auto
      qed
      show ?thesis
      proof (rule Cons.IH [of "names @ [?n]" reg1])
        show "syncTools compileSchema newID exec c version ts (names @ [?n]) reg1 = (reg', names')"
          using Cons.prems(1) unfolding syncTools.simps Let_def if_not_P [OF False] r None by simp
        show "\<forall>n \<in> set (names @ [?n]). \<exists>r. map_of reg1 n = Some r \<and> fromListing (mc_cfg c) tools exec n r"
          using Cons.prems(3) new by (simp add: reg1 go_simps)
        show "\<forall>n \<in> set (names @ [?n]). map_of reg0 n = None \<or> n \<in> set (mc_registered c)"
          using Cons.prems(4) taken by simp
        show "\<forall>n. n \<notin> set (names @ [?n]) \<longrightarrow> map_of reg1 n = map_of reg0 n"
          using Cons.prems(5) by (simp add: reg1 go_simps)
      qed (use Cons.prems(2) in simp)
    qed
  qed
qed simp

lemma fold_unregister:
  "map_of (fold (\<lambda>name r. if name \<in> S then r else Unregister name r) ns reg) n =
    (if n \<in> set ns \<and> n \<notin> S then None else map_of reg n)"
  by (induction ns arbitrary: reg) (auto simp: Unregister_def go_simps)

text \<open>C35: After a sync with an MCP server, the client's tools are tools the server lists, each classed no
  bolder than its hints, with calls repeated only where they allow it; the client's other tools are
  gone, and tools registered by anybody else are as they were, even under a name the server lists.\<close>

theorem sync_keeps_the_registry_in_step:
  assumes "syncLocked compileSchema newID exec connect (Inr (v, tools)) c reg = (c', reg', Inr names)"
  shows "set (mc_registered c') = set names \<and>
    (\<forall>n \<in> set names. \<exists>r. map_of reg' n = Some r \<and> fromListing (mc_cfg c') tools exec n r) \<and>
    (\<forall>n. n \<in> set (mc_registered c) \<and> n \<notin> set names \<longrightarrow> map_of reg' n = None) \<and>
    (\<forall>n. n \<notin> set (mc_registered c) \<and> map_of reg n \<noteq> None \<longrightarrow> map_of reg' n = map_of reg n)"
proof -
  obtain c1 p where k: "connectTo connect c = (c1, Inr p)"
    using assms by (auto simp: syncLocked_def split: sum.splits prod.splits)
  then have c1: "mc_registered c1 = mc_registered c"
    by (auto simp: connectTo_def Let_def split: option.splits sum.splits if_splits)
  define version where "version = (if v = [] then ''1.0.0'' else v)"
  obtain reg1 names1 where s: "syncTools compileSchema newID exec c1 version tools [] reg = (reg1, names1)" by fastforce
  with assms k have out: "names = names1" "c' = c1\<lparr>mc_registered := remdups names\<rparr>"
      "reg' = fold (\<lambda>name r. if name \<in> set names then r else Unregister name r) (mc_registered c1) reg1"
    by (auto simp: syncLocked_def version_def)
  from syncTools_step [OF s, of tools reg] have
    in_names: "\<forall>n \<in> set names. \<exists>r. map_of reg1 n = Some r \<and> fromListing (mc_cfg c1) tools exec n r"
      "\<forall>n \<in> set names. map_of reg n = None \<or> n \<in> set (mc_registered c1)" and
    rest: "\<forall>n. n \<notin> set names \<longrightarrow> map_of reg1 n = map_of reg n"
    by (simp_all add: out)
  have look: "map_of reg' n = (if n \<in> set (mc_registered c) \<and> n \<notin> set names then None else map_of reg1 n)" for n
    by (simp add: out(3) fold_unregister c1)
  show ?thesis
  proof (intro conjI)
    show "set (mc_registered c') = set names" by (simp add: out)
    show "\<forall>n \<in> set names. \<exists>r. map_of reg' n = Some r \<and> fromListing (mc_cfg c') tools exec n r"
      using in_names(1) by (simp add: look out(2))
    show "\<forall>n. n \<in> set (mc_registered c) \<and> n \<notin> set names \<longrightarrow> map_of reg' n = None" by (simp add: look)
    show "\<forall>n. n \<notin> set (mc_registered c) \<and> map_of reg n \<noteq> None \<longrightarrow> map_of reg' n = map_of reg n"
      using in_names(2) rest by (metis look c1)
  qed
qed

text \<open>A server with two tools, one under a name somebody else has taken.\<close>

definition listedTool :: "string \<Rightarrow> bool \<Rightarrow> McpTool" where
  "listedTool name readOnly = \<lparr>ml_Name = name, ml_Description = [], ml_Title = name, ml_InputSchema = None, ml_OutputSchema = None,
     ml_ReadOnly = readOnly, ml_Idempotent = False, ml_Destructive = None, ml_OpenWorld = None\<rparr>"

definition takenRegistry :: "(string \<times> bool, unit) Registry" where
  "takenRegistry = fst (Register (\<lambda>_. Inr ()) ''id'' ((toolDefinition filesServer (listedTool ''write'' False) [])) (Some (''own'', False)) [])"

theorem sync_keeps_the_registry_in_step_witness:
  "\<exists>c' reg'. syncLocked (\<lambda>_. Inr ()) id Pair (Inr 0) (Inr ([], [listedTool ''read'' True, listedTool ''write'' False]))
      (newClient filesServer) takenRegistry = (c', reg', Inr [''files.read'']) \<and>
     map_of reg' ''files.write'' = map_of takenRegistry ''files.write'' \<and>
     (\<exists>r. map_of reg' ''files.read'' = Some r \<and>
        fromListing (mc_cfg c') [listedTool ''read'' True, listedTool ''write'' False] Pair ''files.read'' r)"
proof -
  let ?sync = "syncLocked (\<lambda>_. Inr ()) id Pair (Inr 0) (Inr ([], [listedTool ''read'' True, listedTool ''write'' False]))
      (newClient filesServer) takenRegistry"
  have "snd (snd ?sync) = Inr [''files.read'']" by code_simp
  then obtain c' reg' where k: "?sync = (c', reg', Inr [''files.read''])" by (metis prod.collapse)
  have "map_of takenRegistry ''files.write'' \<noteq> None" "''files.write'' \<notin> set (mc_registered (newClient filesServer))" by code_simp+
  with sync_keeps_the_registry_in_step [OF k] k show ?thesis by auto
qed


end
