(* ===== verification/Codecs.thy ===== *)
theory Codecs
  imports GoStrings
begin

text \<open>
  Functions of Go's library that several components encode and decode with: \<open>strings.Cut\<close> at a text,
  \<open>strings.TrimPrefix\<close> and \<open>base64.StdEncoding\<close>, whose decoder passes over line ends and reads no
  more than the end of a padded group. What was encoded decodes to itself.
\<close>

section \<open>Texts\<close>

fun cutText :: "string \<Rightarrow> string \<Rightarrow> string \<times> string \<times> bool" where
  "cutText sep s =
    (if prefix sep s then ([], drop (length sep) s, True)
     else case s of
       [] \<Rightarrow> ([], [], False)
     | c # cs \<Rightarrow> (case cutText sep cs of (before, rest, found) \<Rightarrow> (c # before, rest, found)))"

declare cutText.simps [simp del]

definition TrimPrefix :: "string \<Rightarrow> string \<Rightarrow> string" where
  "TrimPrefix p s = (if prefix p s then drop (length p) s else s)"

definition b64char :: "nat \<Rightarrow> char" where
  "b64char n = (if n < 26 then char_of (65 + n) else if n < 52 then char_of (71 + n) else if n < 62 then char_of (n - 4)
     else if n = 62 then CHR ''+'' else CHR ''/'')"

text \<open>\<open>base64.StdEncoding\<close>.\<close>

fun base64 :: "string \<Rightarrow> string" where
  "base64 [] = []"
| "base64 [a] = [b64char (byte a div 4), b64char (byte a mod 4 * 16), CHR ''='', CHR ''='']"
| "base64 [a, b] = [b64char (byte a div 4), b64char (byte a mod 4 * 16 + byte b div 16), b64char (byte b mod 16 * 4), CHR ''='']"
| "base64 (a # b # c # r) = b64char (byte a div 4) # b64char (byte a mod 4 * 16 + byte b div 16) #
     b64char (byte b mod 16 * 4 + byte c div 64) # b64char (byte c mod 64) # base64 r"

definition b64value :: "char \<Rightarrow> nat option" where
  "b64value c =
    (let n = byte c
     in if 65 \<le> n \<and> n \<le> 90 then Some (n - 65) else if 97 \<le> n \<and> n \<le> 122 then Some (n - 71)
        else if 48 \<le> n \<and> n \<le> 57 then Some (n + 4) else if c = CHR ''+'' then Some 62
        else if c = CHR ''/'' then Some 63 else None)"

text \<open>\<open>DecodeString\<close>: groups of four, the last of them padded; line ends are passed over.\<close>

fun b64groups :: "string \<Rightarrow> string option" where
  "b64groups [] = Some []"
| "b64groups (a # b # c # d # r) =
    (case (b64value a, b64value b) of
       (Some x, Some y) \<Rightarrow>
         if c = CHR ''='' then (if d = CHR ''='' \<and> r = [] then Some [char_of (x * 4 + y div 16)] else None)
         else (case b64value c of
            None \<Rightarrow> None
          | Some z \<Rightarrow>
             if d = CHR ''='' then (if r = [] then Some [char_of (x * 4 + y div 16), char_of (y mod 16 * 16 + z div 4)] else None)
             else (case b64value d of
                None \<Rightarrow> None
              | Some w \<Rightarrow> map_option (\<lambda>t. char_of (x * 4 + y div 16) # char_of (y mod 16 * 16 + z div 4) # char_of (z mod 4 * 64 + w) # t)
                  (b64groups r)))
     | _ \<Rightarrow> None)"
| "b64groups s = None"

definition unbase64 :: "string \<Rightarrow> string option" where
  "unbase64 s = b64groups (filter (\<lambda>c. c \<noteq> CHR 0x0A \<and> c \<noteq> CHR 0x0D) s)"

section \<open>Cutting texts\<close>

lemma cutText_Nil [simp]: "cutText sep [] = ([], [], sep = [])"
  by (simp add: cutText.simps [of sep "[]"])

lemma cutText_Cons:
  "cutText sep (c # cs) = (if prefix sep (c # cs) then ([], drop (length sep) (c # cs), True)
     else case cutText sep cs of (before, rest, found) \<Rightarrow> (c # before, rest, found))"
  by (simp add: cutText.simps [of sep "c # cs"])

lemma cutText_found: "cutText sep s = (b, a, True) \<Longrightarrow> s = b @ sep @ a"
proof (induction sep s arbitrary: b a rule: cutText.induct)
  case (1 sep s)
  show ?case
  proof (cases "prefix sep s")
    case True
    with 1(2) show ?thesis by (auto simp: cutText.simps [of sep s] prefix_def)
  next
    case False
    with 1(2) obtain c cs where s: "s = c # cs" by (cases s) (simp_all add: cutText.simps [of sep s])
    with False 1(2) obtain b' where "cutText sep cs = (b', a, True)" "b = c # b'"
      by (auto simp: cutText_Cons split: prod.splits)
    with 1(1) [OF False s] s show ?thesis by simp
  qed
qed

lemma cutText_append: "cutText sep s = (b, a, True) \<Longrightarrow> cutText sep (s @ x) = (b, a @ x, True)"
proof (induction sep s arbitrary: b a rule: cutText.induct)
  case (1 sep s)
  show ?case
  proof (cases "prefix sep s")
    case True
    then have "prefix sep (s @ x)" "drop (length sep) (s @ x) = drop (length sep) s @ x"
      by (auto simp: prefix_def)
    with True 1(2) show ?thesis by (auto simp: cutText.simps [of sep s] cutText.simps [of sep "s @ x"])
  next
    case False
    with 1(2) obtain c cs where s: "s = c # cs" by (cases s) (simp_all add: cutText.simps [of sep s])
    with False 1(2) obtain b' where b': "cutText sep cs = (b', a, True)" "b = c # b'"
      by (auto simp: cutText_Cons split: prod.splits)
    from cutText_found [OF b'(1)] s have "length sep \<le> length s" by simp
    with False have "\<not> prefix sep (s @ x)" by (meson prefix_length_prefix prefixI)
    with 1(1) [OF False s b'(1)] s b'(2) show ?thesis by (simp add: cutText.simps [of sep "c # cs @ x"])
  qed
qed

lemma cutText_shrink:
  "cutText sep (s @ x) = (b, a, True) \<Longrightarrow> s = b @ sep @ a' \<Longrightarrow> a = a' @ x \<Longrightarrow> cutText sep s = (b, a', True)"
proof (induction b arbitrary: s)
  case Nil
  then have "prefix sep s" by simp
  with Nil(2) show ?case by (simp add: cutText.simps [of sep "sep @ a'"])
next
  case (Cons c b)
  then have s: "s = c # b @ sep @ a'" by simp
  have no: "\<not> prefix sep (s @ x)" using Cons.prems(1) s by (auto simp: cutText_Cons)
  then have no': "\<not> prefix sep s" by (auto simp: prefix_def)
  from no Cons.prems(1) s have "cutText sep ((b @ sep @ a') @ x) = (b, a, True)"
    by (auto simp: cutText_Cons split: prod.splits)
  from Cons.IH [OF this refl Cons.prems(3)] no' s show ?case by (simp add: cutText_Cons)
qed

section \<open>Decoding what was encoded\<close>

lemma b64_inverse: "n < 64 \<Longrightarrow> b64value (b64char n) = Some n"
  by (auto simp: b64char_def b64value_def Let_def)

lemma b64char_value: "c \<in> {CHR ''='', CHR 0x0A, CHR 0x0D, CHR '':''} \<Longrightarrow> b64value c = None"
  by (auto simp: b64value_def Let_def)

lemma b64_plain: "n < 64 \<Longrightarrow> b64char n \<noteq> CHR ''='' \<and> b64char n \<noteq> CHR 0x0A \<and> b64char n \<noteq> CHR 0x0D \<and> b64char n \<noteq> CHR '':''"
  using b64_inverse [of n] b64char_value [of "b64char n"] by auto

text \<open>The bits of three bytes, in sixes and together again.\<close>

lemma byte_small: "byte c < 256"
proof -
  have "byte c mod 256 < 256" by simp
  then show ?thesis by simp
qed

lemma byte_parts: "byte c div 4 < 64" "byte c div 16 < 16" "byte c div 64 < 4"
  using byte_small [of c] by (simp_all add: less_mult_imp_div_less)

lemma sixes_small: "x mod 4 * 16 < (64 :: nat)" "x mod 4 * 16 + byte b div 16 < 64" "y mod 16 * 4 < (64 :: nat)"
  "y mod 16 * 4 + byte b div 64 < 64"
proof -
  have "x mod 4 < 4" "y mod 16 < 16" by simp_all
  with byte_parts [of b] show "x mod 4 * 16 < 64" "x mod 4 * 16 + byte b div 16 < 64" "y mod 16 * 4 < 64" "y mod 16 * 4 + byte b div 64 < 64"
    by linarith+
qed

lemma bytes_apart: "byte c div 16 div 16 = 0" "byte c div 16 mod 16 = byte c div 16" "byte c div 64 div 4 = 0"
  "byte c div 64 mod 4 = byte c div 64"
  using byte_parts [of c] by simp_all

lemmas b64_rules = b64_inverse b64_plain sixes_small byte_parts bytes_apart

lemma b64groups_base64: "b64groups (base64 s) = Some s"
  by (induction s rule: base64.induct) (simp_all add: b64_rules)

lemma base64_no_breaks: "c \<in> set (base64 s) \<Longrightarrow> c \<noteq> CHR 0x0A \<and> c \<noteq> CHR 0x0D \<and> c \<noteq> CHR '':''"
  by (induction s rule: base64.induct) (auto simp: b64_plain sixes_small byte_parts)

lemma unbase64_base64: "unbase64 (base64 s) = Some s"
proof -
  have "filter (\<lambda>c. c \<noteq> CHR 0x0A \<and> c \<noteq> CHR 0x0D) (base64 s) = base64 s"
    using base64_no_breaks by (intro filter_True) blast
  then show ?thesis by (simp add: unbase64_def b64groups_base64)
qed

end
