(* ===== verification/OpenAI.thy ===== *)
theory OpenAI
  imports Providers Codecs
begin

text \<open>
  The provider for OpenAI-compatible endpoints (\<open>model/openai/openai.go\<close>): the request it writes, how a
  reply is read, whole or streamed, reasoning left in the content, tool names on the wire, embeddings
  and costs. Sending a request, decoding JSON into the protocol's structs and parsing a document are
  arguments; prices are real numbers.
\<close>

section \<open>Texts\<close>

definition blank :: "char \<Rightarrow> bool" where
  "blank c \<longleftrightarrow> c = CHR '' '' \<or> c = CHR 0x09 \<or> c = CHR 0x0D \<or> c = lf"

text \<open>\<open>strings.TrimLeft(s, " \t\r\n")\<close>.\<close>

definition dropBlanks :: "string \<Rightarrow> string" where
  "dropBlanks s = dropWhile blank s"

abbreviation thinkTag :: string where "thinkTag \<equiv> ''<think>''"
abbreviation thinkEnd :: string where "thinkEnd \<equiv> ''</think>''"

definition showDigit :: "nat \<Rightarrow> char" where
  "showDigit d = char_of (48 + d)"

fun showNat :: "nat \<Rightarrow> string" where
  "showNat n = (if n < 10 then [showDigit n] else showNat (n div 10) @ [showDigit (n mod 10)])"

declare showNat.simps [simp del]

section \<open>Names on the wire\<close>

definition wireChar :: "char \<Rightarrow> bool" where
  "wireChar c \<longleftrightarrow> c = CHR ''_'' \<or> c = CHR ''-'' \<or> CHR ''a'' \<le> c \<and> c \<le> CHR ''z'' \<or> CHR ''A'' \<le> c \<and> c \<le> CHR ''Z'' \<or>
     CHR ''0'' \<le> c \<and> c \<le> CHR ''9''"

text \<open>A rune that is not allowed becomes one underscore, however many bytes it has.\<close>

function wireName :: "string \<Rightarrow> string" where
  "wireName [] = []"
| "wireName (c # cs) =
    (if wireChar c then c # wireName cs
     else CHR ''_'' # wireName (drop (decodeSize (c # cs)) (c # cs)))"
  by pat_completeness auto
termination
proof (relation "measure length", simp, simp)
  fix c and cs :: string
  have "0 < decodeSize (c # cs)" using decodeSize_bounds [of "c # cs"] by simp
  then show "(drop (decodeSize (c # cs)) (c # cs), c # cs) \<in> measure length" by simp
qed

definition wireNames :: "ToolSpec list \<Rightarrow> string \<rightharpoonup> string" where
  "wireNames tools = foldl (\<lambda>names t. if names (wireName (tsp_Name t)) = None
     then names(wireName (tsp_Name t) \<mapsto> tsp_Name t) else names) Map.empty tools"

definition restoreToolNames :: "ToolSpec list \<Rightarrow> ChatResponse \<Rightarrow> ChatResponse" where
  "restoreToolNames tools resp =
    (let calls = map (\<lambda>tc. case wireNames tools (tc_Name tc) of None \<Rightarrow> tc | Some n \<Rightarrow> tc\<lparr>tc_Name := n\<rparr>) (cp_ToolCalls resp)
     in resp\<lparr>cp_ToolCalls := calls, cp_Message := (cp_Message resp)\<lparr>msg_ToolCalls := calls\<rparr>\<rparr>)"

section \<open>Requests\<close>

definition optMember :: "bool \<Rightarrow> string \<Rightarrow> json \<Rightarrow> (string \<times> json) list" where
  "optMember present name v = (if present then [(name, v)] else [])"

text \<open>\<open>argText\<close> is the text of a document, as arguments are sent.\<close>

definition wireCall :: "(raw \<Rightarrow> string) \<Rightarrow> nat \<Rightarrow> ToolCall \<Rightarrow> json" where
  "wireCall argText i tc = JObj ([(''index'', JNum (int i))] @ optMember (tc_ID tc \<noteq> []) ''id'' (JStr (tc_ID tc)) @
     [(''type'', JStr ''function''),
      (''function'', JObj (optMember (wireName (tc_Name tc) \<noteq> []) ''name'' (JStr (wireName (tc_Name tc))) @
         [(''arguments'', JStr (argText (tc_Input tc)))]))])"

definition imagePart :: "Image \<Rightarrow> json" where
  "imagePart img = JObj [(''type'', JStr ''image_url''),
     (''image_url'', JObj [(''url'', JStr (''data:'' @ im_MimeType img @ '';base64,'' @ base64 (im_Data img)))])]"

definition wireMessage :: "(raw \<Rightarrow> string) \<Rightarrow> Message \<Rightarrow> json" where
  "wireMessage argText m =
    (let content = (if msg_Images m \<noteq> []
       then JArr (JObj ([(''type'', JStr ''text'')] @ optMember (msg_Content m \<noteq> []) ''text'' (JStr (msg_Content m)))
              # map imagePart (msg_Images m))
       else JStr (msg_Content m))
     in JObj ([(''role'', JStr (msg_Role m)), (''content'', content)] @
          optMember (msg_ToolCalls m \<noteq> []) ''tool_calls''
            (JArr (map (\<lambda>i. wireCall argText i (msg_ToolCalls m ! i)) [0..<length (msg_ToolCalls m)])) @
          optMember (msg_ToolCallID m \<noteq> []) ''tool_call_id'' (JStr (msg_ToolCallID m))))"

definition wireTool :: "ToolSpec \<Rightarrow> json" where
  "wireTool t = JObj [(''type'', JStr ''function''), (''function'', JObj [(''name'', JStr (wireName (tsp_Name t))),
     (''description'', JStr (tsp_Description t)), (''parameters'', rawDoc (tsp_InputSchema t))])]"

definition paramNames :: "string list" where
  "paramNames = [''temperature'', ''top_p'', ''max_tokens'', ''seed'', ''stop'']"

text \<open>\<open>encodeRequest\<close>: a member written again replaces the earlier one.\<close>

definition encodeRequest :: "(raw \<Rightarrow> string) \<Rightarrow> (string, json) gomap \<Rightarrow> ChatRequest \<Rightarrow> (string, json) gomap" where
  "encodeRequest argText extra req =
    (let b1 = fold (\<lambda>(k, v) b. if k \<in> set paramNames then mput k v b else b) (cr_Parameters req)
                (fold (\<lambda>(k, v) b. mput k v b) extra []);
         b2 = mput ''messages'' (JArr (map (wireMessage argText) (cr_Messages req))) (mput ''model'' (JStr (cr_Model req)) b1);
         b3 = (if cr_Tools req = [] then b2
               else let b = mput ''tools'' (JArr (map wireTool (cr_Tools req))) b2
                    in if cr_ToolCallMode req \<noteq> [] then mput ''tool_choice'' (JStr (cr_ToolCallMode req)) b else b)
     in case cr_ResponseSchema req of
          None \<Rightarrow> b3
        | Some sc \<Rightarrow> mput ''response_format'' (JObj [(''type'', JStr ''json_schema''),
            (''json_schema'', JObj [(''name'', JStr ''output''), (''schema'', sc)])]) b3)"

text \<open>The body of a streamed request: two members after the others.\<close>

definition streamedBody :: "(string, json) gomap \<Rightarrow> (string \<times> json) list" where
  "streamedBody b = b @ [(''stream'', JBool True), (''stream_options'', JObj [(''include_usage'', JBool True)])]"

section \<open>Replies\<close>

record oaUsage =
  ou_Prompt :: int
  ou_Completion :: int
  ou_Total :: int
  ou_Cached :: int

definition coreUsage :: "oaUsage \<Rightarrow> Usage" where
  "coreUsage u = Usage0\<lparr>PromptTokens := ou_Prompt u, CompletionTokens := ou_Completion u, CachedTokens := ou_Cached u,
     TotalTokens := (if ou_Total u = 0 then ou_Prompt u + ou_Completion u else ou_Total u), ModelCalls := 1\<rparr>"

record oaCall =
  oc_Index :: int
  oc_ID :: string
  oc_Name :: string
  oc_Arguments :: string

definition splitThinking :: "string \<Rightarrow> string \<times> string" where
  "splitThinking content =
    (let trimmed = TrimSpace content
     in if \<not> prefix thinkTag trimmed \<and> \<not> prefix thinkEnd trimmed then ([], content)
        else case cutText thinkEnd trimmed of (before, rest, found) \<Rightarrow>
          if \<not> found then ([], content) else (TrimSpace (TrimPrefix thinkTag before), TrimSpace rest))"

text \<open>\<open>parse\<close> is the document a text holds, if it is valid JSON.\<close>

definition arguments :: "(string \<Rightarrow> json option) \<Rightarrow> string \<Rightarrow> raw" where
  "arguments parse s =
    (if TrimSpace s = [] then Some (JObj [])
     else case parse s of Some d \<Rightarrow> Some d | None \<Rightarrow> Some (JStr s))"

definition assemble :: "(string \<Rightarrow> json option) \<Rightarrow> string \<Rightarrow> string \<Rightarrow> oaCall list \<Rightarrow> ChatResponse" where
  "assemble parse content0 reasoning calls =
    (case splitThinking content0 of (inline, content) \<Rightarrow>
      let thinking = (if reasoning \<noteq> [] then reasoning else inline);
          out = map (\<lambda>i. let tc = calls ! i in
            \<lparr>tc_ID = (if oc_ID tc = [] then ''call_'' @ showNat i else oc_ID tc), tc_Name = oc_Name tc,
             tc_Input = arguments parse (oc_Arguments tc)\<rparr>) [0..<length calls]
      in ChatResponse0\<lparr>cp_Message := Message0\<lparr>msg_Role := ''assistant'', msg_Content := content, msg_Thinking := thinking,
           msg_ToolCalls := out\<rparr>, cp_ToolCalls := out, cp_Usage := Usage0\<lparr>ModelCalls := 1\<rparr>\<rparr>)"

record oaMessage =
  om_Content :: "string option"
  om_Reasoning :: string
  om_ToolCalls :: "oaCall list"

record chatReply =
  ch_Choices :: "oaMessage list"
  ch_Usage :: "oaUsage option"

text \<open>\<open>decodeResponse\<close> of a reply \<open>reply\<close> whose document is \<open>doc\<close>.\<close>

definition decodeResponse :: "(string \<Rightarrow> json option) \<Rightarrow> model_error + chatReply \<Rightarrow> raw \<Rightarrow> model_error + ChatResponse" where
  "decodeResponse parse reply doc =
    (case reply of
       Inl e \<Rightarrow> Inl (MErrorf ''openai: decode: %w'' [e])
     | Inr r \<Rightarrow>
        (case ch_Choices r of
           [] \<Rightarrow> Inl (MErrorf ''openai: response has no choices: %.200s'' [])
         | m # _ \<Rightarrow>
            (let out = assemble parse (case om_Content m of None \<Rightarrow> [] | Some s \<Rightarrow> s) (om_Reasoning m) (om_ToolCalls m);
                 out1 = (case ch_Usage r of None \<Rightarrow> out | Some u \<Rightarrow> out\<lparr>cp_Usage := coreUsage u\<rparr>)
             in Inr (out1\<lparr>cp_Raw := doc\<rparr>))))"

definition answerInReasoning :: "(string \<Rightarrow> json option) \<Rightarrow> ChatRequest \<Rightarrow> ChatResponse \<Rightarrow> ChatResponse" where
  "answerInReasoning parse req resp =
    (let m = cp_Message resp
     in if cr_ResponseSchema req \<noteq> None \<and> msg_Content m = [] \<and> msg_ToolCalls m = [] \<and> parse (msg_Thinking m) \<noteq> None
        then resp\<lparr>cp_Message := m\<lparr>msg_Content := TrimSpace (msg_Thinking m), msg_Thinking := []\<rparr>\<rparr> else resp)"

record Price =
  pc_Input :: real
  pc_CachedInput :: real
  pc_Output :: real

definition cost :: "Price \<Rightarrow> Usage \<Rightarrow> int" where
  "cost p u =
    (let x = (of_int (PromptTokens u - CachedTokens u) * pc_Input p + of_int (CachedTokens u) * pc_CachedInput p +
              of_int (CompletionTokens u) * pc_Output p) / 10 ^ 6
     in if x < 0 then \<lceil>x\<rceil> else \<lfloor>x\<rfloor>)"

section \<open>Streamed replies\<close>

record leadingThink =
  lt_held :: string
  lt_decided :: bool

definition push :: "string \<Rightarrow> leadingThink \<Rightarrow> leadingThink \<times> string \<times> string" where
  "push s l =
    (if lt_decided l then (l, s, [])
     else let h = lt_held l @ s; l1 = l\<lparr>lt_held := h\<rparr>; t = dropBlanks h
     in if t = [] \<or> prefix t thinkTag \<or> prefix t thinkEnd then (l1, [], [])
        else if prefix thinkTag t \<or> prefix thinkEnd t then
          (case cutText thinkEnd t of (before, rest, found) \<Rightarrow>
             if \<not> found then (l1, [], [])
             else (l1\<lparr>lt_decided := True\<rparr>, dropBlanks rest, TrimSpace (TrimPrefix thinkTag before)))
        else (l1\<lparr>lt_decided := True\<rparr>, h, []))"

definition flush :: "leadingThink \<Rightarrow> leadingThink \<times> string" where
  "flush l = (if lt_decided l then (l, []) else (l\<lparr>lt_decided := True\<rparr>, lt_held l))"

record chunkDelta =
  cd_Content :: string
  cd_Reasoning :: string
  cd_ToolCalls :: "oaCall list"

record chunk =
  ck_Choices :: "chunkDelta list"
  ck_Usage :: "oaUsage option"

text \<open>What the reader of a stream holds, with the deltas it passed on: content and reasoning.\<close>

record streamState =
  ss_content :: string
  ss_reasoning :: string
  ss_lead :: leadingThink
  ss_calls :: "(int, oaCall) gomap"
  ss_usage :: "oaUsage option"
  ss_deltas :: "(string \<times> string) list"

definition streamState0 :: streamState where
  "streamState0 = \<lparr>ss_content = [], ss_reasoning = [], ss_lead = \<lparr>lt_held = [], lt_decided = False\<rparr>, ss_calls = [],
     ss_usage = None, ss_deltas = []\<rparr>"

definition addCall :: "oaCall \<Rightarrow> (int, oaCall) gomap \<Rightarrow> (int, oaCall) gomap" where
  "addCall tc calls =
    (let acc = (case map_of calls (oc_Index tc) of Some a \<Rightarrow> a
         | None \<Rightarrow> \<lparr>oc_Index = oc_Index tc, oc_ID = [], oc_Name = [], oc_Arguments = []\<rparr>)
     in mput (oc_Index tc) (acc\<lparr>oc_ID := (if oc_ID acc \<noteq> [] then oc_ID acc else oc_ID tc),
          oc_Name := (if oc_Name acc \<noteq> [] then oc_Name acc else oc_Name tc),
          oc_Arguments := oc_Arguments acc @ oc_Arguments tc\<rparr>) calls)"

definition takeDelta :: "chunkDelta \<Rightarrow> streamState \<Rightarrow> streamState" where
  "takeDelta d s =
    (case push (cd_Content d) (ss_lead s) of (lead, text1, thought0) \<Rightarrow>
      let thought = thought0 @ cd_Reasoning d
      in s\<lparr>ss_content := ss_content s @ cd_Content d, ss_reasoning := ss_reasoning s @ cd_Reasoning d, ss_lead := lead,
           ss_deltas := ss_deltas s @ (if text1 \<noteq> [] \<or> thought \<noteq> [] then [(text1, thought)] else []),
           ss_calls := fold addCall (cd_ToolCalls d) (ss_calls s)\<rparr>)"

definition takeChunk :: "chunk \<Rightarrow> streamState \<Rightarrow> streamState" where
  "takeChunk c s = fold takeDelta (ck_Choices c)
     (case ck_Usage c of None \<Rightarrow> s | Some u \<Rightarrow> s\<lparr>ss_usage := Some u\<rparr>)"

text \<open>\<open>cutOff\<close>; \<open>errors.Is\<close> with \<open>io.ErrUnexpectedEOF\<close>.\<close>

fun isUnexpectedEOF :: "model_error \<Rightarrow> bool" where
  "isUnexpectedEOF (MErrorf m es) \<longleftrightarrow> list_ex isUnexpectedEOF es"
| "isUnexpectedEOF e \<longleftrightarrow> e = MUnexpectedEOF"

definition cutOff :: "model_error \<Rightarrow> model_error" where
  "cutOff e = (if isUnexpectedEOF e \<or> model_errors_is e CtxCanceled \<or> model_errors_is e CtxDeadlineExceeded
     then MErrorf ''openai: stream: %w'' [e] else MErrorf ''openai: stream: %w: %w'' [MUnexpectedEOF, e])"

text \<open>A line the scanner hands over, with the error that reading the body has met by then.\<close>

type_synonym bodyLine = "string \<times> model_error option"

fun readLines :: "(string \<Rightarrow> model_error + chunk) \<Rightarrow> model_error option \<Rightarrow> bodyLine list \<Rightarrow> streamState
    \<Rightarrow> streamState \<times> (model_error + model_error option)" where
  "readLines decode atEnd [] s = (s, Inr atEnd)"
| "readLines decode atEnd ((line, err) # ls) s =
    (if \<not> prefix ''data:'' line then readLines decode atEnd ls s
     else let data = TrimSpace (drop 5 line)
     in if data = ''[DONE]'' then (s, Inr err)
        else case decode data of
          Inl e \<Rightarrow> (s, Inl (case err of Some b \<Rightarrow> cutOff b | None \<Rightarrow> MErrorf ''openai: stream: %w'' [e]))
        | Inr c \<Rightarrow> readLines decode atEnd ls (takeChunk c s))"

text \<open>The scanner's own error, of a line too long; \<open>atEnd\<close> is the error reading has met when it stops.\<close>

record streamBody =
  sb_lines :: "bodyLine list"
  sb_atEnd :: "model_error option"
  sb_scan :: "model_error option"

definition streamedCalls :: "(int, oaCall) gomap \<Rightarrow> oaCall list" where
  "streamedCalls calls = sort_key oc_Index (mvals calls)"

definition endStream :: "(string \<Rightarrow> json option) \<Rightarrow> streamState \<Rightarrow> (string \<times> string) list \<times> ChatResponse" where
  "endStream parse s =
    (let rest = snd (flush (ss_lead s));
         out = assemble parse (ss_content s) (ss_reasoning s) (streamedCalls (ss_calls s))
     in (ss_deltas s @ (if rest \<noteq> [] then [(rest, [])] else []),
         case ss_usage s of None \<Rightarrow> out | Some u \<Rightarrow> out\<lparr>cp_Usage := coreUsage u\<rparr>))"

definition readStream :: "(string \<Rightarrow> json option) \<Rightarrow> (string \<Rightarrow> model_error + chunk) \<Rightarrow> streamBody
    \<Rightarrow> (string \<times> string) list \<times> (model_error + ChatResponse)" where
  "readStream parse decode b =
    (case readLines decode (sb_atEnd b) (sb_lines b) streamState0 of
       (s, Inl e) \<Rightarrow> (ss_deltas s, Inl e)
     | (s, Inr (Some e)) \<Rightarrow> (ss_deltas s, Inl (cutOff e))
     | (s, Inr None) \<Rightarrow>
        (case sb_scan b of
           Some e \<Rightarrow> (ss_deltas s, Inl (MErrorf ''openai: stream: %w'' [e]))
         | None \<Rightarrow> (case endStream parse s of (deltas, resp) \<Rightarrow> (deltas, Inr resp))))"

section \<open>The provider\<close>

record oaProvider =
  op_Price :: Price
  op_Extra :: "(string, json) gomap"

text \<open>A response of the server: its code, its \<open>Retry-After\<close> header, and reading its body.\<close>

record httpReply =
  hr_code :: int
  hr_retryAfter :: string
  hr_body :: "model_error + string"

text \<open>\<open>do\<close> and \<open>post\<close>; \<open>send\<close> makes the request and returns the reply or an error.\<close>

definition doRequest :: "string \<Rightarrow> model_error + httpReply \<Rightarrow> model_error + httpReply" where
  "doRequest path sent =
    (case sent of
       Inl e \<Rightarrow> Inl (MErrorf ''openai: %w'' [e])
     | Inr r \<Rightarrow>
        if hr_code r div 100 \<noteq> 2
        then Inl (MStatus (NewStatusError (''openai '' @ path) (hr_code r) (hr_retryAfter r)
               (take 4096 (case hr_body r of Inl _ \<Rightarrow> [] | Inr b \<Rightarrow> b))))
        else Inr r)"

definition postRequest :: "string \<Rightarrow> model_error + httpReply \<Rightarrow> model_error + string" where
  "postRequest path sent = (case doRequest path sent of Inl e \<Rightarrow> Inl e | Inr r \<Rightarrow> hr_body r)"

definition finishReply :: "(string \<Rightarrow> json option) \<Rightarrow> oaProvider \<Rightarrow> ChatRequest \<Rightarrow> ChatResponse \<Rightarrow> ChatResponse" where
  "finishReply parse p req resp0 =
    (let resp = answerInReasoning parse req (restoreToolNames (cr_Tools req) resp0)
     in resp\<lparr>cp_Usage := (cp_Usage resp)\<lparr>CostUnits := cost (op_Price p) (cp_Usage resp)\<rparr>\<rparr>)"

record oaWorld =
  ow_argText :: "raw \<Rightarrow> string"
  ow_parse :: "string \<Rightarrow> json option"
  ow_decode :: "string \<Rightarrow> model_error + chatReply"
  ow_chunk :: "string \<Rightarrow> model_error + chunk"

definition ChatOpenAI :: "oaWorld \<Rightarrow> oaProvider \<Rightarrow> ((string \<times> json) list \<Rightarrow> model_error + httpReply) \<Rightarrow> ChatRequest
    \<Rightarrow> model_error + ChatResponse" where
  "ChatOpenAI W p send req =
    (case postRequest ''/chat/completions'' (send (encodeRequest (ow_argText W) (op_Extra p) req)) of
       Inl e \<Rightarrow> Inl e
     | Inr body \<Rightarrow>
        (case decodeResponse (ow_parse W) (ow_decode W body) (ow_parse W body) of
           Inl e \<Rightarrow> Inl e
         | Inr resp \<Rightarrow> Inr (finishReply (ow_parse W) p req resp)))"

definition ChatStreamOpenAI :: "oaWorld \<Rightarrow> oaProvider \<Rightarrow> ((string \<times> json) list \<Rightarrow> model_error + httpReply) \<Rightarrow> streamBody
    \<Rightarrow> ChatRequest \<Rightarrow> (string \<times> string) list \<times> (model_error + ChatResponse)" where
  "ChatStreamOpenAI W p send streamed req =
    (case doRequest ''/chat/completions'' (send (streamedBody (encodeRequest (ow_argText W) (op_Extra p) req))) of
       Inl e \<Rightarrow> ([], Inl e)
     | Inr _ \<Rightarrow>
        (case readStream (ow_parse W) (ow_chunk W) streamed of
           (deltas, Inl e) \<Rightarrow> (deltas, Inl e)
         | (deltas, Inr resp) \<Rightarrow> (deltas, Inr (finishReply (ow_parse W) p req resp))))"

text \<open>\<open>Embed\<close>, from the decoded reply: pairs of an index and a vector, nil if it is missing.\<close>

fun placeVectors :: "(int \<times> real list option) list \<Rightarrow> real list option list \<Rightarrow> model_error + real list option list" where
  "placeVectors [] out = Inr out"
| "placeVectors ((i, v) # ds) out =
    (if i < 0 \<or> i \<ge> int (length out) then Inl (MErrorf ''openai: embed: index %d out of range'' [])
     else placeVectors ds (out[nat i := v]))"

definition EmbedOpenAI :: "(string \<Rightarrow> model_error + (int \<times> real list option) list) \<Rightarrow> ((string \<times> json) list \<Rightarrow> model_error + httpReply)
    \<Rightarrow> string \<Rightarrow> string list \<Rightarrow> model_error + real list list" where
  "EmbedOpenAI decode send name inputs =
    (case postRequest ''/embeddings'' (send [(''model'', JStr name), (''input'', JArr (map JStr inputs))]) of
       Inl e \<Rightarrow> Inl e
     | Inr body \<Rightarrow>
        (case decode body of
           Inl e \<Rightarrow> Inl (MErrorf ''openai: embed: %w'' [e])
         | Inr ds \<Rightarrow>
            (case placeVectors ds (replicate (length inputs) None) of
               Inl e \<Rightarrow> Inl e
             | Inr out \<Rightarrow>
                if None \<in> set out then Inl (MErrorf ''openai: embed: no vector for text %d'' [])
                else Inr (map the out))))"

end
