(* ===== verification/StreamedReply.thy ===== *)
theory StreamedReply
  imports OpenAI
begin

text \<open>
  Streamed replies of \<open>model/openai/openai.go\<close>: however the server cuts a reply into chunks, reading the
  stream gives the reply a whole response would have given, and what was passed on while it was read
  adds up to the answer with white space around it.
\<close>

section \<open>Tool names\<close>

lemma wireName_allowed: "list_all wireChar (wireName s)"
  by (induction s rule: wireName.induct) (simp_all add: wireChar_def)

lemma wireNames_snoc: "wireNames (ts @ [t]) = (if wireNames ts (wireName (tsp_Name t)) = None
    then (wireNames ts)(wireName (tsp_Name t) \<mapsto> tsp_Name t) else wireNames ts)"
  by (simp add: wireNames_def)

lemma wireNames_none: "wireNames ts n = None \<longleftrightarrow> n \<notin> wireName ` tsp_Name ` set ts"
proof (induction ts rule: rev_induct)
  case (snoc t ts)
  then show ?case by (auto simp: wireNames_snoc)
qed (simp add: wireNames_def)

lemma wireNames_known:
  "distinct (map (wireName \<circ> tsp_Name) ts) \<Longrightarrow> t \<in> set ts \<Longrightarrow> wireNames ts (wireName (tsp_Name t)) = Some (tsp_Name t)"
proof (induction ts rule: rev_induct)
  case (snoc x ts)
  then have new: "wireNames ts (wireName (tsp_Name x)) = None" by (auto simp: wireNames_none)
  show ?case
  proof (cases "t = x")
    case False
    with snoc.prems have "t \<in> set ts" by simp
    moreover from this snoc.prems(1) have "wireName (tsp_Name t) \<noteq> wireName (tsp_Name x)" by (auto simp: image_iff)
    ultimately show ?thesis using snoc new by (simp add: wireNames_snoc)
  qed (use new in \<open>simp add: wireNames_snoc\<close>)
qed simp

text \<open>Calls by names on the wire become calls of the request's tools, if no two share such a name.\<close>

lemma tool_names_survive_the_wire:
  assumes "distinct (map (wireName \<circ> tsp_Name) tools)" and "set ts \<subseteq> set tools"
    and "map tc_Name (cp_ToolCalls resp) = map (wireName \<circ> tsp_Name) ts"
  shows "map tc_Name (cp_ToolCalls (restoreToolNames tools resp)) = map tsp_Name ts"
proof -
  have "tc_Name (case wireNames tools (tc_Name tc) of None \<Rightarrow> tc | Some n \<Rightarrow> tc\<lparr>tc_Name := n\<rparr>) =
      (case wireNames tools (tc_Name tc) of None \<Rightarrow> tc_Name tc | Some n \<Rightarrow> n)" for tc :: ToolCall
    by (simp split: option.splits)
  then have "map tc_Name (cp_ToolCalls (restoreToolNames tools resp)) =
      map (\<lambda>n. case wireNames tools n of None \<Rightarrow> n | Some n' \<Rightarrow> n') (map tc_Name (cp_ToolCalls resp))"
    by (simp add: restoreToolNames_def Let_def)
  also have "\<dots> = map tsp_Name ts" unfolding assms(3) using assms(2) wireNames_known [OF assms(1)] by (auto simp: subset_iff)
  finally show ?thesis .
qed

section \<open>White space around a text\<close>

lemma blank_space: "p \<in> set spaces \<Longrightarrow> blank (hd p) \<Longrightarrow> p = [hd p]"
proof -
  have "list_all (\<lambda>p. blank (hd p) \<longrightarrow> p = [hd p]) spaces" by code_simp
  then show "p \<in> set spaces \<Longrightarrow> blank (hd p) \<Longrightarrow> p = [hd p]" by (simp add: list_all_iff)
qed

lemma blank_in_spaces: "blank c \<Longrightarrow> [c] \<in> set spaces"
proof -
  have "list_all (\<lambda>c. list_ex (\<lambda>p. p = [c]) spaces) [CHR '' '', CHR 0x09, CHR 0x0D, lf]" by code_simp
  then show "blank c \<Longrightarrow> [c] \<in> set spaces" by (auto simp: blank_def list_ex_iff)
qed

text \<open>Characters no white space has a byte of: those of the tags.\<close>

definition solid :: "string \<Rightarrow> bool" where
  "solid x \<longleftrightarrow> (\<forall>c \<in> set x. \<forall>p \<in> set spaces. c \<notin> set p)"

lemma solid_tags: "solid thinkTag" "solid thinkEnd"
proof -
  have "list_all (\<lambda>c. list_all (\<lambda>p. \<not> List.member p c) spaces) (thinkTag @ thinkEnd)" by code_simp
  then show "solid thinkTag" "solid thinkEnd" by (auto simp: solid_def list_all_iff)
qed

text \<open>\<open>mid\<close> with white space around it.\<close>

definition padded :: "string \<Rightarrow> string \<Rightarrow> bool" where
  "padded s mid \<longleftrightarrow> (\<exists>ps qs. set ps \<subseteq> set spaces \<and> set qs \<subseteq> set spaces \<and> s = concat ps @ mid @ concat qs)"

lemma padded_refl: "padded s s"
  unfolding padded_def by (intro exI [of _ "[]"]) simp

lemma padded_TrimSpace: "padded s (TrimSpace s)"
  using TrimSpace_split [of s] by (auto simp: padded_def)

lemma padded_append: "padded s mid \<Longrightarrow> set qs \<subseteq> set spaces \<Longrightarrow> padded (s @ concat qs) mid"
  unfolding padded_def by (elim exE conjE, rule_tac x = ps in exI, rule_tac x = "qsa @ qs" in exI) simp

lemma padded_tail:
  assumes "padded (c # s) mid" and "blank c" and "tidy mid"
  shows "padded s mid"
proof -
  have first: "\<exists>ps'. ps = [c] # ps'" if "set ps \<subseteq> set spaces" "concat ps = c # z" for ps z
  proof -
    from that(2) obtain p ps' where ps: "ps = p # ps'" by (cases ps) auto
    with that(1) have "p \<in> set spaces" by simp
    moreover from that(2) ps spaces_nonempty [OF this] have "hd p = c" by (cases p) (simp, simp)
    ultimately show ?thesis using blank_space [of p] assms(2) ps by simp
  qed
  from assms(1) obtain ps qs where ps: "set ps \<subseteq> set spaces" "set qs \<subseteq> set spaces" "c # s = concat ps @ mid @ concat qs"
    unfolding padded_def by blast
  show ?thesis
  proof (cases "ps = []")
    case False
    with ps(1) have "concat ps \<noteq> []" using spaces_nonempty by (cases ps) auto
    with ps(3) obtain z where "concat ps = c # z" by (cases "concat ps") auto
    from first [OF ps(1) this] obtain ps' where "ps = [c] # ps'" by blast
    with ps show ?thesis unfolding padded_def by (intro exI [of _ ps'] exI [of _ qs]) simp
  next
    case True
    have "mid = []"
    proof (rule ccontr)
      assume "mid \<noteq> []"
      with True ps(3) have "prefix [c] mid" by (cases mid) auto
      with assms(2,3) blank_in_spaces show False unfolding tidy_def by blast
    qed
    with True ps(3) have "concat qs = c # s" by simp
    from first [OF ps(2) this] obtain qs' where "qs = [c] # qs'" by blast
    with ps(2) \<open>concat qs = c # s\<close> \<open>mid = []\<close> show ?thesis unfolding padded_def by (intro exI [of _ "[]"] exI [of _ qs']) simp
  qed
qed

lemma padded_blanks: "padded (bs @ s) mid \<Longrightarrow> list_all blank bs \<Longrightarrow> tidy mid \<Longrightarrow> padded s mid"
  by (induction bs) (auto dest: padded_tail)

lemma dropBlanks_split: "\<exists>bs. list_all blank bs \<and> s = bs @ dropBlanks s"
  unfolding dropBlanks_def
  by (intro exI [of _ "takeWhile blank s"]) (auto simp: list_all_iff dest: set_takeWhileD)

lemma dropBlanks_append: "dropBlanks s \<noteq> [] \<Longrightarrow> dropBlanks (s @ x) = dropBlanks s @ x"
  unfolding dropBlanks_def by (induction s) auto

lemma TrimSpace_blank: "blank c \<Longrightarrow> TrimSpace (c # s) = TrimSpace s"
proof -
  assume c: "blank c"
  have "stripOne id (c # s) = Some s"
  proof (cases "stripOne id (c # s)")
    case None
    then have "\<forall>p \<in> set spaces. \<not> prefix p (c # s)" by (simp add: stripOne_None spaceless_id)
    with blank_in_spaces [OF c] show ?thesis by fastforce
  next
    case (Some s')
    from stripOne_Some [OF this] obtain p where p: "p \<in> set spaces" "c # s = p @ s'" by auto
    with spaces_nonempty [OF p(1)] have "hd p = c" by (cases p) (simp, simp)
    with blank_space [OF p(1)] c p(2) Some show ?thesis by (metis append_Cons append_Nil list.inject)
  qed
  then show ?thesis by (simp add: TrimSpace_def Let_def)
qed

lemma TrimSpace_dropBlanks: "TrimSpace (dropBlanks s) = TrimSpace s"
  unfolding dropBlanks_def by (induction s) (simp_all add: TrimSpace_blank)

text \<open>A text that begins with no other white space than blanks.\<close>

definition plainStart :: "string \<Rightarrow> bool" where
  "plainStart s \<longleftrightarrow> (\<forall>p \<in> set spaces. \<not> prefix p (dropBlanks s))"

lemma plainStart_split:
  assumes "plainStart s"
  shows "\<exists>qs. set qs \<subseteq> set spaces \<and> dropBlanks s = TrimSpace s @ concat qs"
proof -
  from TrimSpace_split [of "dropBlanks s"] obtain ps qs where
    p: "set ps \<subseteq> set spaces" "set qs \<subseteq> set spaces" "dropBlanks s = concat ps @ TrimSpace s @ concat qs"
    by (auto simp: TrimSpace_dropBlanks)
  have "ps = []"
  proof (rule ccontr)
    assume "ps \<noteq> []"
    then obtain q rs where "ps = q # rs" by (cases ps) auto
    with p(1,3) have "q \<in> set spaces" "prefix q (dropBlanks s)" by auto
    with assms show False unfolding plainStart_def by blast
  qed
  with p show ?thesis by auto
qed

lemma solid_prefix:
  assumes "solid x" and "set qs \<subseteq> set spaces" and "prefix x (t @ concat qs)"
  shows "prefix x t"
proof -
  from assms(3) consider "prefix x t" | r where "x = t @ r" "prefix r (concat qs)" by (auto simp: prefix_append)
  then show ?thesis
  proof cases
    case 2
    have "r = []"
    proof (cases r)
      case (Cons c r')
      with set_mono_prefix [OF 2(2)] have "c \<in> set (concat qs)" by auto
      then obtain p where "p \<in> set qs" "c \<in> set p" by auto
      moreover from 2(1) Cons have "c \<in> set x" by simp
      ultimately show ?thesis using assms(1,2) unfolding solid_def by blast
    qed simp
    with 2 show ?thesis by simp
  qed
qed

lemma solid_cut:
  assumes "solid sep" and "sep \<noteq> []" and "set qs \<subseteq> set spaces" and "cutText sep (t @ concat qs) = (b, a, True)"
  shows "\<exists>a'. cutText sep t = (b, a', True) \<and> a = a' @ concat qs"
proof -
  from cutText_found [OF assms(4)] have eq: "t @ concat qs = (b @ sep) @ a" by simp
  then obtain us where us: "t = (b @ sep) @ us \<and> us @ concat qs = a \<or> t @ us = b @ sep \<and> concat qs = us @ a"
    unfolding append_eq_append_conv2 by blast
  then consider "t = (b @ sep) @ us" "us @ concat qs = a" | "t = b @ sep" "concat qs = a"
    | "t @ us = b @ sep" "concat qs = us @ a" "us \<noteq> []"
    by (cases "us = []") auto
  then show ?thesis
  proof cases
    case 1
    with cutText_shrink [OF assms(4), of us] show ?thesis by auto
  next
    case 2
    with cutText_shrink [OF assms(4), of "[]"] show ?thesis by auto
  next
    case 3
    have "last (t @ us) = last (b @ sep)" by (simp only: 3(1))
    with 3(3) assms(2) have "last us = last sep" by simp
    moreover have "last us \<in> set (us @ a)" using 3(3) by simp
    ultimately have "last sep \<in> set (concat qs)" by (simp only: 3(2))
    then obtain p where "p \<in> set qs" "last sep \<in> set p" by auto
    moreover have "last sep \<in> set sep" using assms(2) by simp
    ultimately show ?thesis using assms(1,3) unfolding solid_def by blast
  qed
qed

section \<open>What a body carries\<close>

text \<open>The chunks of a body that is read to its end, or to the line that ends the reply.\<close>

inductive carriesChunks :: "(string \<Rightarrow> model_error + chunk) \<Rightarrow> bodyLine list \<Rightarrow> chunk list \<Rightarrow> bool" where
  body_end: "carriesChunks decode [] []"
| body_done: "prefix ''data:'' line \<Longrightarrow> TrimSpace (drop 5 line) = ''[DONE]'' \<Longrightarrow> carriesChunks decode ((line, None) # ls) []"
| body_other: "\<not> prefix ''data:'' line \<Longrightarrow> carriesChunks decode ls cs \<Longrightarrow> carriesChunks decode ((line, err) # ls) cs"
| body_chunk: "prefix ''data:'' line \<Longrightarrow> TrimSpace (drop 5 line) \<noteq> ''[DONE]'' \<Longrightarrow> decode (TrimSpace (drop 5 line)) = Inr c \<Longrightarrow>
    carriesChunks decode ls cs \<Longrightarrow> carriesChunks decode ((line, err) # ls) (c # cs)"

lemma readLines_carries:
  "carriesChunks decode ls cs \<Longrightarrow> readLines decode None ls s = (fold takeChunk cs s, Inr None)"
  by (induction arbitrary: s rule: carriesChunks.induct) (simp_all add: Let_def)

text \<open>The whole message: texts joined, and one call for each index, of the fragments that have it.\<close>

abbreviation deltasOf :: "chunk list \<Rightarrow> chunkDelta list" where
  "deltasOf cs \<equiv> concat (map ck_Choices cs)"

definition saidText :: "chunk list \<Rightarrow> string" where
  "saidText cs = concat (map cd_Content (deltasOf cs))"

definition saidReasoning :: "chunk list \<Rightarrow> string" where
  "saidReasoning cs = concat (map cd_Reasoning (deltasOf cs))"

definition firstFull :: "string list \<Rightarrow> string" where
  "firstFull xs = (case filter (\<lambda>x. x \<noteq> []) xs of [] \<Rightarrow> [] | x # _ \<Rightarrow> x)"

definition gatheredCall :: "oaCall list \<Rightarrow> int \<Rightarrow> oaCall" where
  "gatheredCall frs i =
    (let own = filter (\<lambda>f. oc_Index f = i) frs
     in \<lparr>oc_Index = i, oc_ID = firstFull (map oc_ID own), oc_Name = firstFull (map oc_Name own),
         oc_Arguments = concat (map oc_Arguments own)\<rparr>)"

definition wholeReply :: "chunk list \<Rightarrow> chatReply" where
  "wholeReply cs =
    (let frs = concat (map cd_ToolCalls (deltasOf cs))
     in \<lparr>ch_Choices = [\<lparr>om_Content = Some (saidText cs), om_Reasoning = saidReasoning cs,
           om_ToolCalls = map (gatheredCall frs) (sorted_list_of_set (set (map oc_Index frs)))\<rparr>],
         ch_Usage = foldl (\<lambda>u c. case ck_Usage c of None \<Rightarrow> u | Some v \<Rightarrow> Some v) None cs\<rparr>)"

section \<open>Calls\<close>

lemma firstFull_snoc: "firstFull (xs @ [x]) = (if firstFull xs \<noteq> [] then firstFull xs else x)"
proof (cases "filter (\<lambda>x. x \<noteq> []) xs")
  case (Cons y ys)
  have "y \<in> set (filter (\<lambda>x. x \<noteq> []) xs)" unfolding Cons by simp
  then have "y \<noteq> []" by simp
  with Cons show ?thesis by (simp add: firstFull_def)
qed (simp add: firstFull_def)

lemma gatheredCall_snoc:
  "gatheredCall (frs @ [f]) i = (if oc_Index f = i
     then (gatheredCall frs i)\<lparr>oc_ID := (if oc_ID (gatheredCall frs i) \<noteq> [] then oc_ID (gatheredCall frs i) else oc_ID f),
        oc_Name := (if oc_Name (gatheredCall frs i) \<noteq> [] then oc_Name (gatheredCall frs i) else oc_Name f),
        oc_Arguments := oc_Arguments (gatheredCall frs i) @ oc_Arguments f\<rparr>
     else gatheredCall frs i)"
  by (simp add: gatheredCall_def Let_def firstFull_snoc)

lemma gatheredCall_none: "i \<notin> set (map oc_Index frs) \<Longrightarrow>
  gatheredCall frs i = \<lparr>oc_Index = i, oc_ID = [], oc_Name = [], oc_Arguments = []\<rparr>"
proof -
  assume "i \<notin> set (map oc_Index frs)"
  then have "filter (\<lambda>f. oc_Index f = i) frs = []" by (auto simp: filter_empty_conv)
  then show ?thesis by (simp add: gatheredCall_def firstFull_def)
qed

lemma mput_mapped:
  "distinct ks \<Longrightarrow> mput k v (map (\<lambda>i. (i, f i)) ks) =
     map (\<lambda>i. (i, if i = k then v else f i)) (if k \<in> set ks then ks else ks @ [k])"
  by (induction ks) auto

lemma map_of_mapped: "map_of (map (\<lambda>i. (i, f i)) ks) k = (if k \<in> set ks then Some (f k) else None)"
  by (induction ks) auto

text \<open>The indices in the order they first appear.\<close>

definition firstSeen :: "int list \<Rightarrow> int list" where
  "firstSeen is = rev (remdups (rev is))"

lemma addCalls_gather:
  "fold addCall frs [] = map (\<lambda>i. (i, gatheredCall frs i)) (firstSeen (map oc_Index frs))"
proof (induction frs rule: rev_induct)
  case (snoc f frs)
  let ?ks = "firstSeen (map oc_Index frs)" and ?i = "oc_Index f"
  have ks: "distinct ?ks" "set ?ks = set (map oc_Index frs)" by (simp_all add: firstSeen_def)
  have next_ks: "firstSeen (map oc_Index (frs @ [f])) = (if ?i \<in> set ?ks then ?ks else ?ks @ [?i])"
    by (simp add: firstSeen_def)
  have "fold addCall (frs @ [f]) [] = mput ?i (gatheredCall (frs @ [f]) ?i) (map (\<lambda>i. (i, gatheredCall frs i)) ?ks)"
  proof -
    have "fold addCall (frs @ [f]) [] = addCall f (map (\<lambda>i. (i, gatheredCall frs i)) ?ks)" using snoc by simp
    moreover have "(case map_of (map (\<lambda>i. (i, gatheredCall frs i)) ?ks) ?i of Some a \<Rightarrow> a
        | None \<Rightarrow> \<lparr>oc_Index = ?i, oc_ID = [], oc_Name = [], oc_Arguments = []\<rparr>) = gatheredCall frs ?i"
      using gatheredCall_none [of ?i frs] ks(2) by (simp add: map_of_mapped)
    ultimately show ?thesis unfolding addCall_def Let_def by (simp only: gatheredCall_snoc if_True simp_thms)
  qed
  then show ?case unfolding mput_mapped [OF ks(1)] next_ks by (auto simp: gatheredCall_snoc)
qed (simp add: firstSeen_def)

lemma sort_key_mapped: "(\<And>x. f (g x) = x) \<Longrightarrow> sort_key f (map g xs) = map g (sort xs)" for xs :: "int list"
proof (induction xs)
  case (Cons x xs)
  have "insort_key f (g x) (map g ys) = map g (insort x ys)" for ys
    by (induction ys) (simp_all add: Cons.prems)
  with Cons show ?case by simp
qed simp

lemma streamedCalls_gather:
  "streamedCalls (fold addCall frs []) = map (gatheredCall frs) (sorted_list_of_set (set (map oc_Index frs)))"
proof -
  have "sort (firstSeen (map oc_Index frs)) = sorted_list_of_set (set (map oc_Index frs))"
    by (rule sorted_distinct_set_unique) (simp_all add: firstSeen_def)
  moreover have "oc_Index (gatheredCall frs i) = i" for i by (simp add: gatheredCall_def Let_def)
  ultimately show ?thesis
    using sort_key_mapped [of oc_Index "gatheredCall frs" "firstSeen (map oc_Index frs)"]
    by (simp add: streamedCalls_def addCalls_gather comp_def)
qed

section \<open>What is passed on\<close>

definition passedText :: "streamState \<Rightarrow> string" where
  "passedText s = concat (map fst (ss_deltas s))"

definition passedThought :: "streamState \<Rightarrow> string" where
  "passedThought s = concat (map snd (ss_deltas s))"

definition tagged :: "string \<Rightarrow> bool" where
  "tagged t \<longleftrightarrow> prefix thinkTag t \<or> prefix thinkEnd t"

text \<open>Text that may still turn out to begin with reasoning.\<close>

definition undecidedText :: "string \<Rightarrow> bool" where
  "undecidedText t \<longleftrightarrow> t = [] \<or> prefix t thinkTag \<or> prefix t thinkEnd \<or> tagged t \<and> \<not> snd (snd (cutText thinkEnd t))"

definition leadFits :: "streamState \<Rightarrow> bool" where
  "leadFits s \<longleftrightarrow>
    (let t = dropBlanks (ss_content s) in
     if \<not> lt_decided (ss_lead s) then lt_held (ss_lead s) = ss_content s \<and> passedText s = [] \<and>
       passedThought s = ss_reasoning s \<and> undecidedText t
     else if tagged t then \<exists>b bs. cutText thinkEnd t = (b, bs @ passedText s, True) \<and> list_all blank bs \<and>
       (let inline = TrimSpace (TrimPrefix thinkTag b) in (ss_reasoning s = [] \<longrightarrow> passedThought s = inline) \<and>
          (inline = [] \<longrightarrow> passedThought s = ss_reasoning s))
     else t \<noteq> [] \<and> \<not> prefix t thinkTag \<and> \<not> prefix t thinkEnd \<and> passedText s = ss_content s \<and>
       passedThought s = ss_reasoning s)"

lemma leadFits_start: "leadFits streamState0"
  by (simp add: leadFits_def streamState0_def passedText_def passedThought_def undecidedText_def dropBlanks_def)

lemma takeDelta_passed:
  assumes "push (cd_Content d) (ss_lead s) = (lead, u, v)"
  shows "passedText (takeDelta d s) = passedText s @ u" "passedThought (takeDelta d s) = passedThought s @ v @ cd_Reasoning d"
    "ss_lead (takeDelta d s) = lead"
  using assms by (auto simp: takeDelta_def passedText_def passedThought_def Let_def)

lemma takeDelta_fields:
  "ss_content (takeDelta d s) = ss_content s @ cd_Content d" "ss_reasoning (takeDelta d s) = ss_reasoning s @ cd_Reasoning d"
  "ss_calls (takeDelta d s) = fold addCall (cd_ToolCalls d) (ss_calls s)" "ss_usage (takeDelta d s) = ss_usage s"
  by (simp_all add: takeDelta_def Let_def split: prod.splits)

lemma tagged_append: "tagged t \<Longrightarrow> tagged (t @ x)"
  by (auto simp: tagged_def)

lemma tagged_append_new: "tagged (t @ x) \<Longrightarrow> \<not> prefix t thinkTag \<Longrightarrow> \<not> prefix t thinkEnd \<Longrightarrow> tagged t"
  unfolding tagged_def prefix_append by (metis prefixI)

lemma leadFits_decided:
  assumes "leadFits s" and "lt_decided (ss_lead s)"
  shows "leadFits (takeDelta d s)"
proof -
  let ?t = "dropBlanks (ss_content s)" and ?x = "cd_Content d"
  have p: "push ?x (ss_lead s) = (ss_lead s, ?x, [])" using assms(2) by (simp add: push_def)
  have step: "passedText (takeDelta d s) = passedText s @ ?x" "passedThought (takeDelta d s) = passedThought s @ cd_Reasoning d"
    "ss_lead (takeDelta d s) = ss_lead s" using takeDelta_passed [OF p] by simp_all
  have t: "?t \<noteq> []" using assms by (auto simp: leadFits_def tagged_def Let_def split: if_splits)
  show ?thesis
  proof (cases "tagged ?t")
    case True
    with assms obtain b bs where b: "cutText thinkEnd ?t = (b, bs @ passedText s, True)" "list_all blank bs"
      "ss_reasoning s = [] \<Longrightarrow> passedThought s = TrimSpace (TrimPrefix thinkTag b)"
      "TrimSpace (TrimPrefix thinkTag b) = [] \<Longrightarrow> passedThought s = ss_reasoning s"
      by (auto simp: leadFits_def Let_def)
    from cutText_append [OF b(1), of ?x] b(2-4) assms(2) tagged_append [OF True] show ?thesis
      by (auto simp: leadFits_def Let_def step takeDelta_fields dropBlanks_append [OF t])
  next
    case False
    with assms have a: "\<not> prefix ?t thinkTag" "\<not> prefix ?t thinkEnd" "passedText s = ss_content s" "passedThought s = ss_reasoning s"
      by (auto simp: leadFits_def Let_def)
    then have "\<not> tagged (?t @ ?x)" "\<not> prefix (?t @ ?x) thinkTag" "\<not> prefix (?t @ ?x) thinkEnd"
      using False tagged_append_new append_prefixD by blast+
    with a assms(2) t show ?thesis by (simp add: leadFits_def Let_def step takeDelta_fields dropBlanks_append [OF t])
  qed
qed

lemma leadFits_undecided:
  assumes "leadFits s" and "\<not> lt_decided (ss_lead s)"
  shows "leadFits (takeDelta d s)"
proof -
  let ?h = "ss_content s @ cd_Content d"
  let ?t = "dropBlanks ?h"
  from assms have held: "lt_held (ss_lead s) = ss_content s" "passedText s = []" "passedThought s = ss_reasoning s"
    by (auto simp: leadFits_def Let_def)
  let ?l = "(ss_lead s)\<lparr>lt_held := ?h\<rparr>"
  consider "undecidedText ?t" | b a where "\<not> undecidedText ?t" "tagged ?t" "cutText thinkEnd ?t = (b, a, True)"
    | "\<not> undecidedText ?t" "\<not> tagged ?t"
    by (cases "cutText thinkEnd ?t") (auto simp: undecidedText_def)
  then show ?thesis
  proof cases
    case 1
    then have "push (cd_Content d) (ss_lead s) = (?l, [], [])"
      using assms(2) held(1) by (auto simp: push_def Let_def undecidedText_def tagged_def split: prod.splits)
    from takeDelta_passed [OF this] 1 assms(2) held show ?thesis by (simp add: leadFits_def takeDelta_fields Let_def)
  next
    case 2
    then have "push (cd_Content d) (ss_lead s) = (?l\<lparr>lt_decided := True\<rparr>, dropBlanks a, TrimSpace (TrimPrefix thinkTag b))"
      using assms(2) held(1) by (auto simp: push_def Let_def undecidedText_def tagged_def)
    note step = takeDelta_passed [OF this]
    obtain bs where "list_all blank bs" "a = bs @ dropBlanks a" using dropBlanks_split by blast
    with 2 held show ?thesis by (auto simp: leadFits_def takeDelta_fields Let_def step)
  next
    case 3
    then have "push (cd_Content d) (ss_lead s) = (?l\<lparr>lt_decided := True\<rparr>, ?h, [])"
      using assms(2) held(1) by (auto simp: push_def Let_def undecidedText_def tagged_def)
    note step = takeDelta_passed [OF this]
    from 3 held show ?thesis by (auto simp: leadFits_def takeDelta_fields Let_def step undecidedText_def)
  qed
qed

lemma takeDeltas_fields:
  "ss_content (fold takeDelta ds s) = ss_content s @ concat (map cd_Content ds)"
  "ss_reasoning (fold takeDelta ds s) = ss_reasoning s @ concat (map cd_Reasoning ds)"
  "ss_calls (fold takeDelta ds s) = fold addCall (concat (map cd_ToolCalls ds)) (ss_calls s)"
  "ss_usage (fold takeDelta ds s) = ss_usage s"
  by (induction ds arbitrary: s) (simp_all add: takeDelta_fields)

lemma leadFits_takeDelta: "leadFits s \<Longrightarrow> leadFits (takeDelta d s)"
  using leadFits_decided leadFits_undecided by blast

lemma leadFits_takeDeltas: "leadFits s \<Longrightarrow> leadFits (fold takeDelta ds s)"
  by (induction ds arbitrary: s) (simp_all add: leadFits_takeDelta)

lemma leadFits_usage: "leadFits (s\<lparr>ss_usage := u\<rparr>) = leadFits s"
  by (simp add: leadFits_def passedText_def passedThought_def)

lemma takeChunks_fields:
  "ss_content (fold takeChunk cs s) = ss_content s @ saidText cs"
  "ss_reasoning (fold takeChunk cs s) = ss_reasoning s @ saidReasoning cs"
  "ss_calls (fold takeChunk cs s) = fold addCall (concat (map cd_ToolCalls (deltasOf cs))) (ss_calls s)"
  "ss_usage (fold takeChunk cs s) = foldl (\<lambda>u c. case ck_Usage c of None \<Rightarrow> u | Some v \<Rightarrow> Some v) (ss_usage s) cs"
  by (induction cs arbitrary: s)
    (simp_all add: takeChunk_def takeDeltas_fields saidText_def saidReasoning_def split: option.splits)

lemma leadFits_takeChunks: "leadFits s \<Longrightarrow> leadFits (fold takeChunk cs s)"
  by (induction cs arbitrary: s)
    (simp_all add: takeChunk_def leadFits_takeDeltas leadFits_usage split: option.splits)

section \<open>The reply\<close>

lemma tagged_TrimSpace:
  assumes "plainStart s"
  obtains qs where "set qs \<subseteq> set spaces" "dropBlanks s = TrimSpace s @ concat qs" "tagged (dropBlanks s) \<longleftrightarrow> tagged (TrimSpace s)"
proof -
  from plainStart_split [OF assms] obtain qs where qs: "set qs \<subseteq> set spaces" "dropBlanks s = TrimSpace s @ concat qs" by blast
  moreover have "prefix x (TrimSpace s @ concat qs) \<longleftrightarrow> prefix x (TrimSpace s)" if "solid x" for x
    using solid_prefix [OF that qs(1)] prefix_prefix by blast
  then have "tagged (dropBlanks s) \<longleftrightarrow> tagged (TrimSpace s)" unfolding tagged_def qs(2) by (simp only: solid_tags)
  ultimately show ?thesis using that by blast
qed

lemma splitThinking_untagged: "\<not> tagged (TrimSpace s) \<Longrightarrow> splitThinking s = ([], s)"
  by (simp add: splitThinking_def tagged_def)

lemma splitThinking_cut:
  "tagged (TrimSpace s) \<Longrightarrow> cutText thinkEnd (TrimSpace s) = (b, a, found) \<Longrightarrow>
    splitThinking s = (if found then (TrimSpace (TrimPrefix thinkTag b), TrimSpace a) else ([], s))"
  by (auto simp: splitThinking_def tagged_def Let_def)

text \<open>What was passed on when the stream ends, with what was still held back.\<close>

lemma passed_fits:
  assumes "leadFits s" and "plainStart (ss_content s)" and "dropBlanks (ss_content s) \<noteq> thinkEnd"
    and "splitThinking (ss_content s) = (inline, content)"
  shows "padded (passedText s @ snd (flush (ss_lead s))) content"
    and "ss_reasoning s = [] \<Longrightarrow> passedThought s = inline" and "inline = [] \<Longrightarrow> passedThought s = ss_reasoning s"
proof -
  let ?t = "dropBlanks (ss_content s)" and ?m = "TrimSpace (ss_content s)"
  obtain qs where qs: "set qs \<subseteq> set spaces" "?t = ?m @ concat qs" "tagged ?t \<longleftrightarrow> tagged ?m"
    using tagged_TrimSpace [OF assms(2)] by blast
  have split: "splitThinking (ss_content s) = ([], ss_content s)" if "tagged ?m \<Longrightarrow> \<not> snd (snd (cutText thinkEnd ?m))"
    using that splitThinking_untagged splitThinking_cut by (cases "tagged ?m"; cases "cutText thinkEnd ?m") auto
  have "padded (passedText s @ snd (flush (ss_lead s))) content \<and> (ss_reasoning s = [] \<longrightarrow> passedThought s = inline) \<and>
      (inline = [] \<longrightarrow> passedThought s = ss_reasoning s)"
  proof (cases "lt_decided (ss_lead s) \<and> tagged ?t")
    case True
    with assms(1) obtain b bs where b: "cutText thinkEnd ?t = (b, bs @ passedText s, True)" "list_all blank bs"
      "ss_reasoning s = [] \<longrightarrow> passedThought s = TrimSpace (TrimPrefix thinkTag b)"
      "TrimSpace (TrimPrefix thinkTag b) = [] \<longrightarrow> passedThought s = ss_reasoning s"
      by (auto simp: leadFits_def Let_def)
    from solid_cut [OF solid_tags(2) _ qs(1) b(1) [unfolded qs(2)]] obtain a' where
      a': "cutText thinkEnd ?m = (b, a', True)" "bs @ passedText s = a' @ concat qs" by auto
    from splitThinking_cut [OF _ a'(1)] True qs(3) assms(4)
    have io: "inline = TrimSpace (TrimPrefix thinkTag b)" "content = TrimSpace a'" by auto
    have "padded (bs @ passedText s) content"
      unfolding a'(2) io using padded_append [OF padded_TrimSpace qs(1)] .
    with padded_blanks [OF this b(2)] tidy_TrimSpace io b(3,4) True show ?thesis by (simp add: flush_def)
  next
    case False
    have "\<not> snd (snd (cutText thinkEnd ?m))" if m: "tagged ?m"
    proof
      assume "snd (snd (cutText thinkEnd ?m))"
      then obtain b a where ba: "cutText thinkEnd ?m = (b, a, True)" by (cases "cutText thinkEnd ?m") auto
      from cutText_append [OF this, of "concat qs"] qs(2) have found: "snd (snd (cutText thinkEnd ?t))" by simp
      from False m qs(3) have "\<not> lt_decided (ss_lead s)" by simp
      with assms(1) have "undecidedText ?t" by (simp add: leadFits_def Let_def)
      with found have short: "?t = [] \<or> prefix ?t thinkTag \<or> prefix ?t thinkEnd" by (auto simp: undecidedText_def)
      from m qs(3) have "tagged ?t" by simp
      with short have "?t = thinkTag \<or> ?t = thinkEnd" unfolding tagged_def
        by (auto simp: prefix_def Cons_eq_append_conv append_eq_Cons_conv)
      moreover have "\<not> snd (snd (cutText thinkEnd thinkTag))" by code_simp
      ultimately show False using found assms(3) by auto
    qed
    from split [OF this] assms(4) have io: "inline = []" "content = ss_content s" by auto
    have "passedText s @ snd (flush (ss_lead s)) = ss_content s" "passedThought s = ss_reasoning s"
      using assms(1) False by (auto simp: leadFits_def Let_def flush_def split: if_splits)
    with io padded_refl show ?thesis by simp
  qed
  then show "padded (passedText s @ snd (flush (ss_lead s))) content" "ss_reasoning s = [] \<Longrightarrow> passedThought s = inline"
    "inline = [] \<Longrightarrow> passedThought s = ss_reasoning s" by simp_all
qed

lemma endStream_passed: "concat (map fst (fst (endStream parse s))) = passedText s @ snd (flush (ss_lead s))"
  "concat (map snd (fst (endStream parse s))) = passedThought s"
  by (simp_all add: endStream_def passedText_def passedThought_def Let_def)

lemma decode_whole:
  assumes "s = fold takeChunk cs streamState0"
  shows "decodeResponse parse (Inr (wholeReply cs)) doc = Inr ((snd (endStream parse s))\<lparr>cp_Raw := doc\<rparr>)"
proof -
  have "ss_content s = saidText cs" "ss_reasoning s = saidReasoning cs"
    "ss_calls s = fold addCall (concat (map cd_ToolCalls (deltasOf cs))) []"
    "ss_usage s = foldl (\<lambda>u c. case ck_Usage c of None \<Rightarrow> u | Some v \<Rightarrow> Some v) None cs"
    unfolding assms takeChunks_fields by (simp_all add: streamState0_def)
  then show ?thesis by (simp add: decodeResponse_def wholeReply_def endStream_def Let_def streamedCalls_gather)
qed

lemma finishReply_Raw: "finishReply parse p req (resp\<lparr>cp_Raw := doc\<rparr>) = (finishReply parse p req resp)\<lparr>cp_Raw := doc\<rparr>"
  by (cases resp) (auto simp: finishReply_def answerInReasoning_def restoreToolNames_def Let_def)

lemma endStream_texts:
  "splitThinking (ss_content s) = (inline, content) \<Longrightarrow> msg_Content (cp_Message (snd (endStream parse s))) = content \<and>
     msg_Thinking (cp_Message (snd (endStream parse s))) = (if ss_reasoning s \<noteq> [] then ss_reasoning s else inline)"
  by (simp add: endStream_def assemble_def Let_def split: option.splits)

lemma finishReply_texts:
  "cr_ResponseSchema req = None \<or> msg_Content (cp_Message resp) \<noteq> [] \<Longrightarrow>
     msg_Content (cp_Message (finishReply parse p req resp)) = msg_Content (cp_Message resp) \<and>
     msg_Thinking (cp_Message (finishReply parse p req resp)) = msg_Thinking (cp_Message resp)"
  by (auto simp: finishReply_def answerInReasoning_def restoreToolNames_def Let_def)


text \<open>A reply with inline reasoning and a tool call, cut inside its tags and inside the call's arguments.\<close>

definition exampleChunk :: "string \<Rightarrow> model_error + chunk" where
  "exampleChunk data = Inr (
     if data = ''1'' then \<lparr>ck_Choices = [\<lparr>cd_Content = ''<think>hm</th'', cd_Reasoning = [], cd_ToolCalls =
         [\<lparr>oc_Index = 0, oc_ID = ''c1'', oc_Name = ''add'', oc_Arguments = ''{}''\<rparr>]\<rparr>], ck_Usage = None\<rparr>
     else \<lparr>ck_Choices = [\<lparr>cd_Content = ''ink> yes'', cd_Reasoning = [], cd_ToolCalls =
         [\<lparr>oc_Index = 0, oc_ID = [], oc_Name = [], oc_Arguments = '' ''\<rparr>]\<rparr>], ck_Usage = None\<rparr>)"

definition exampleChunks :: "chunk list" where
  "exampleChunks = map (projr \<circ> exampleChunk) [''1'', ''2'']"

definition exampleWorld :: oaWorld where
  "exampleWorld = \<lparr>ow_argText = (\<lambda>_. ''{}''), ow_parse = (\<lambda>_. None), ow_decode = (\<lambda>_. Inr (wholeReply exampleChunks)),
     ow_chunk = exampleChunk\<rparr>"

lemma exampleChunks_carried: "carriesChunks exampleChunk [(''data:1'', None), ([], None), (''data:2'', None)] exampleChunks"
proof -
  have t: "TrimSpace ''1'' = ''1''" "TrimSpace ''2'' = ''2''" by (rule TrimSpace_graphic; code_simp)+
  show ?thesis unfolding exampleChunks_def
    by (simp add: t exampleChunk_def carriesChunks.intros)
qed

lemma exampleText: "plainStart (saidText exampleChunks)" "dropBlanks (saidText exampleChunks) \<noteq> thinkEnd"
proof -
  have t: "saidText exampleChunks = ''<think>hm</think> yes''"
    by (simp add: saidText_def exampleChunks_def exampleChunk_def)
  have d: "dropBlanks ''<think>hm</think> yes'' = ''<think>hm</think> yes''" by code_simp
  have "list_all (\<lambda>p. \<not> prefix p ''<think>hm</think> yes'') spaces" by code_simp
  then show "plainStart (saidText exampleChunks)" unfolding plainStart_def t d by (simp add: list_all_iff)
  show "dropBlanks (saidText exampleChunks) \<noteq> thinkEnd" unfolding t d by simp
qed


end
