(* ===== verification/Ollama.thy ===== *)
theory Ollama
  imports StreamedReply
begin

text \<open>
  The provider for Ollama servers (\<open>model/ollama/ollama.go\<close>): what a model can do, asked once; the
  request it writes; a reply read whole or as a stream of documents; embeddings. Writing a document as
  text, sending it and decoding the answer are arguments.
\<close>

section \<open>What a model can do\<close>

record olCapabilities =
  oc_Streaming :: bool
  oc_TokenAccounting :: bool
  oc_StructuredOutput :: bool
  oc_ToolCalling :: bool
  oc_Vision :: bool
  oc_Embeddings :: bool

text \<open>\<open>doOllama\<close> and \<open>postOllama\<close>: \<open>do\<close> and \<open>post\<close>.\<close>

definition doOllama :: "string \<Rightarrow> model_error + httpReply \<Rightarrow> model_error + httpReply" where
  "doOllama path sent =
    (case sent of
       Inl e \<Rightarrow> Inl (MErrorf ''ollama: %w'' [e])
     | Inr r \<Rightarrow>
        if hr_code r \<noteq> 200
        then Inl (MStatus (NewStatusError (''ollama '' @ path) (hr_code r) (hr_retryAfter r)
               (take 4096 (case hr_body r of Inl _ \<Rightarrow> [] | Inr b \<Rightarrow> b))))
        else Inr r)"

definition postOllama :: "string \<Rightarrow> (string \<Rightarrow> model_error + 'a) \<Rightarrow> model_error + httpReply \<Rightarrow> model_error + 'a" where
  "postOllama path decode sent =
    (case doOllama path sent of
       Inl e \<Rightarrow> Inl e
     | Inr r \<Rightarrow>
        (case hr_body r of
           Inl e \<Rightarrow> Inl e
         | Inr b \<Rightarrow> (case decode b of Inl e \<Rightarrow> Inl (MErrorf (''ollama: '' @ path @ '': decode: %w'') [e]) | Inr x \<Rightarrow> Inr x)))"

definition CapabilitiesOllama :: "(string \<Rightarrow> model_error + string list) \<Rightarrow> (json \<Rightarrow> model_error + httpReply) \<Rightarrow> string
    \<Rightarrow> (string, olCapabilities) gomap \<Rightarrow> (string, olCapabilities) gomap \<times> (model_error + olCapabilities)" where
  "CapabilitiesOllama decode send name caps =
    (case map_of caps name of
       Some c \<Rightarrow> (caps, Inr c)
     | None \<Rightarrow>
        (case postOllama ''/api/show'' decode (send (JObj [(''model'', JStr name)])) of
           Inl e \<Rightarrow> (caps, Inl e)
         | Inr shown \<Rightarrow>
            let c = \<lparr>oc_Streaming = True, oc_TokenAccounting = True, oc_StructuredOutput = True,
                  oc_ToolCalling = ''tools'' \<in> set shown, oc_Vision = ''vision'' \<in> set shown, oc_Embeddings = ''embedding'' \<in> set shown\<rparr>
            in (mput name c caps, Inr c)))"

section \<open>Requests\<close>

definition olCall :: "ToolCall \<Rightarrow> json" where
  "olCall tc = JObj [(''function'', JObj [(''name'', JStr (tc_Name tc)), (''arguments'', rawDoc (tc_Input tc))])]"

definition olMessage :: "Message \<Rightarrow> json" where
  "olMessage m =
    (let toolName = (if msg_Role m = ''tool'' then msg_Name m else [])
     in JObj ([(''role'', JStr (msg_Role m)), (''content'', JStr (msg_Content m))] @
          optMember (msg_Thinking m \<noteq> []) ''thinking'' (JStr (msg_Thinking m)) @
          optMember (msg_ToolCalls m \<noteq> []) ''tool_calls'' (JArr (map olCall (msg_ToolCalls m))) @
          optMember (toolName \<noteq> []) ''tool_name'' (JStr toolName) @
          optMember (msg_ToolCallID m \<noteq> []) ''tool_call_id'' (JStr (msg_ToolCallID m)) @
          optMember (msg_Images m \<noteq> []) ''images'' (JArr (map (JStr \<circ> base64 \<circ> im_Data) (msg_Images m)))))"

definition olTool :: "ToolSpec \<Rightarrow> json" where
  "olTool t = JObj [(''type'', JStr ''function''), (''function'', JObj [(''name'', JStr (tsp_Name t)),
     (''description'', JStr (tsp_Description t)), (''parameters'', rawDoc (tsp_InputSchema t))])]"

definition olOptions :: "(string \<times> json) list \<Rightarrow> (string, json) gomap" where
  "olOptions params = fold (\<lambda>(k, v) m. mput (if k = ''max_tokens'' then ''num_predict'' else k) v m) params []"

definition encodeOllama :: "ChatRequest \<Rightarrow> json" where
  "encodeOllama req = JObj ([(''model'', JStr (cr_Model req)), (''messages'', JArr (map olMessage (cr_Messages req))),
     (''stream'', JBool False)] @
     optMember (cr_Tools req \<noteq> []) ''tools'' (JArr (map olTool (cr_Tools req))) @
     optMember (cr_Parameters req \<noteq> []) ''options'' (JObj (olOptions (cr_Parameters req))) @
     optMember (cr_ResponseSchema req \<noteq> None) ''format'' (rawDoc (cr_ResponseSchema req)))"

text \<open>\<open>bytes.Replace(buf, old, new, 1)\<close>.\<close>

definition replaceOnce :: "string \<Rightarrow> string \<Rightarrow> string \<Rightarrow> string" where
  "replaceOnce old new s = (case cutText old s of (before, rest, found) \<Rightarrow> if found then before @ new @ rest else s)"

definition quoteMark :: string where
  "quoteMark = [CHR 0x22]"

definition streamOff :: string where "streamOff = quoteMark @ ''stream'' @ quoteMark @ '':false''"
definition streamOn :: string where "streamOn = quoteMark @ ''stream'' @ quoteMark @ '':true''"

section \<open>Replies\<close>

record olReply =
  or_Done :: bool
  or_PromptEval :: int
  or_Eval :: int
  or_Content :: string
  or_Thinking :: string
  or_ToolCalls :: "(string \<times> raw) list"

definition olReply0 :: olReply where
  "olReply0 = \<lparr>or_Done = False, or_PromptEval = 0, or_Eval = 0, or_Content = [], or_Thinking = [], or_ToolCalls = []\<rparr>"

definition olCalls :: "(string \<times> raw) list \<Rightarrow> ToolCall list" where
  "olCalls cs = map (\<lambda>i. case cs ! i of (name, input) \<Rightarrow>
     \<lparr>tc_ID = ''call_'' @ showNat i, tc_Name = name, tc_Input = (if input = None \<or> input = Some JNull then Some (JObj []) else input)\<rparr>)
     [0..<length cs]"

definition decodeOllama :: "model_error + olReply \<Rightarrow> raw \<Rightarrow> model_error + ChatResponse" where
  "decodeOllama reply doc =
    (case reply of
       Inl e \<Rightarrow> Inl (MErrorf ''ollama: decode: %w'' [e])
     | Inr r \<Rightarrow>
        let calls = olCalls (or_ToolCalls r)
        in Inr \<lparr>cp_Message = Message0\<lparr>msg_Role := ''assistant'', msg_Content := or_Content r, msg_Thinking := or_Thinking r,
               msg_ToolCalls := calls\<rparr>, cp_ToolCalls = calls,
             cp_Usage = Usage0\<lparr>PromptTokens := or_PromptEval r, CompletionTokens := or_Eval r,
               TotalTokens := or_PromptEval r + or_Eval r, ModelCalls := 1\<rparr>, cp_Raw = doc\<rparr>)"

definition takeOllama :: "olReply \<Rightarrow> olReply \<Rightarrow> olReply" where
  "takeOllama c acc =
    (let a = acc\<lparr>or_Content := or_Content acc @ or_Content c, or_Thinking := or_Thinking acc @ or_Thinking c,
           or_ToolCalls := or_ToolCalls acc @ or_ToolCalls c\<rparr>
     in if or_Done c then a\<lparr>or_PromptEval := or_PromptEval c, or_Eval := or_Eval c\<rparr> else a)"

text \<open>The documents of a stream as its decoder returns them, up to its end or its first error.\<close>

fun readOllama :: "(model_error + olReply) list \<Rightarrow> olReply \<Rightarrow> (string \<times> string) list \<times> (model_error + olReply)" where
  "readOllama [] acc = ([], Inr acc)"
| "readOllama (Inl e # cs) acc = ([], Inl (MErrorf ''ollama: stream: %w'' [e]))"
| "readOllama (Inr c # cs) acc =
    (case readOllama cs (takeOllama c acc) of (deltas, r) \<Rightarrow>
       ((if or_Content c \<noteq> [] \<or> or_Thinking c \<noteq> [] then [(or_Content c, or_Thinking c)] else []) @ deltas, r))"

record olWorld =
  lw_render :: "json \<Rightarrow> string"
  lw_parse :: "string \<Rightarrow> json option"
  lw_decode :: "string \<Rightarrow> model_error + olReply"
  lw_marshal :: "olReply \<Rightarrow> string"

definition ChatOllama :: "olWorld \<Rightarrow> (string \<Rightarrow> model_error + httpReply) \<Rightarrow> ChatRequest \<Rightarrow> model_error + ChatResponse" where
  "ChatOllama W send req =
    (case postOllama ''/api/chat'' Inr (send (lw_render W (encodeOllama req))) of
       Inl e \<Rightarrow> Inl e
     | Inr body \<Rightarrow> decodeOllama (lw_decode W body) (lw_parse W body))"

definition ChatStreamOllama :: "olWorld \<Rightarrow> (string \<Rightarrow> model_error + httpReply) \<Rightarrow> (model_error + olReply) list \<Rightarrow> ChatRequest
    \<Rightarrow> (string \<times> string) list \<times> (model_error + ChatResponse)" where
  "ChatStreamOllama W send streamed req =
    (case doOllama ''/api/chat'' (send (replaceOnce streamOff streamOn (lw_render W (encodeOllama req)))) of
       Inl e \<Rightarrow> ([], Inl e)
     | Inr _ \<Rightarrow>
        (case readOllama streamed olReply0 of
           (deltas, Inl e) \<Rightarrow> (deltas, Inl e)
         | (deltas, Inr acc) \<Rightarrow>
            let raw = lw_marshal W acc in (deltas, decodeOllama (lw_decode W raw) (lw_parse W raw))))"

definition EmbedOllama :: "(string \<Rightarrow> model_error + 'v list) \<Rightarrow> (json \<Rightarrow> model_error + httpReply) \<Rightarrow> string \<Rightarrow> string list
    \<Rightarrow> model_error + 'v list" where
  "EmbedOllama decode send name inputs =
    (case postOllama ''/api/embed'' decode (send (JObj [(''model'', JStr name), (''input'', JArr (map JStr inputs))])) of
       Inl e \<Rightarrow> Inl e
     | Inr vs \<Rightarrow>
        if length vs \<noteq> length inputs then Inl (MErrorf ''ollama: embed: %d vectors for %d texts'' []) else Inr vs)"

section \<open>What holds\<close>

text \<open>A model is asked for once: a second question is answered from what was kept, without a request.\<close>

lemma Capabilities_asked_once:
  assumes "CapabilitiesOllama decode send name caps = (caps', Inr c)"
  shows "CapabilitiesOllama decode send' name caps' = (caps', Inr c)"
  using assms by (auto simp: CapabilitiesOllama_def Let_def map_of_mput split: option.splits sum.splits)

lemma readOllama_whole:
  "readOllama (map Inr cs) acc = (deltas, r) \<Longrightarrow> \<exists>a. r = Inr a \<and> a = fold takeOllama cs acc \<and>
     or_Content a = or_Content acc @ concat (map fst deltas) \<and> or_Thinking a = or_Thinking acc @ concat (map snd deltas) \<and>
     or_ToolCalls a = or_ToolCalls acc @ concat (map or_ToolCalls cs)"
proof (induction cs arbitrary: acc deltas r)
  case (Cons c cs)
  obtain ds r' where rest: "readOllama (map Inr cs) (takeOllama c acc) = (ds, r')" by fastforce
  from Cons.IH [OF rest] Cons.prems rest show ?case by (auto simp: takeOllama_def Let_def split: if_splits)
qed simp

text \<open>
  The deltas of a stream add up to the reply: the texts are joined and the calls kept in their order,
  when writing a reply and reading it back gives that reply.
\<close>

lemma ollama_stream_adds_up:
  assumes "send (replaceOnce streamOff streamOn (lw_render W (encodeOllama req))) = Inr r" and "hr_code r = 200"
    and "\<And>a. lw_decode W (lw_marshal W a) = Inr a"
  shows "\<exists>deltas resp. ChatStreamOllama W send (map Inr cs) req = (deltas, Inr resp) \<and>
    msg_Content (cp_Message resp) = concat (map fst deltas) \<and> msg_Thinking (cp_Message resp) = concat (map snd deltas) \<and>
    cp_ToolCalls resp = olCalls (concat (map or_ToolCalls cs))"
proof -
  obtain deltas x where x: "readOllama (map Inr cs) olReply0 = (deltas, x)" by fastforce
  from readOllama_whole [OF this] obtain a where "x = Inr a" "or_Content a = concat (map fst deltas)"
    "or_Thinking a = concat (map snd deltas)" "or_ToolCalls a = concat (map or_ToolCalls cs)"
    by (auto simp: olReply0_def)
  with x assms show ?thesis by (simp add: ChatStreamOllama_def doOllama_def decodeOllama_def Let_def)
qed

text \<open>The first place that reads \<open>"stream":false\<close> is the one changed, wherever it is.\<close>

lemma replaceOnce_first: "\<not> sublist old (pre @ butlast old) \<Longrightarrow> old \<noteq> [] \<Longrightarrow> replaceOnce old new (pre @ old @ post) = pre @ new @ post"
proof -
  assume new: "\<not> sublist old (pre @ butlast old)" "old \<noteq> []"
  have "cutText old (pre @ old @ post) = (pre, post, True)"
    using new(1)
  proof (induction pre)
    case Nil
    have "cutText old (old @ post) = ([], post, True)" by (simp add: cutText.simps [of old "old @ post"])
    then show ?case by simp
  next
    case (Cons c pre)
    have no: "\<not> prefix old (c # pre @ old @ post)"
    proof
      assume "prefix old (c # pre @ old @ post)"
      then have "prefix old ((c # pre @ butlast old) @ last old # post)"
        using new(2) by (metis append_Cons append_assoc append_butlast_last_id append_Nil)
      moreover have "length old \<le> length (c # pre @ butlast old)" by simp
      ultimately have "prefix old (c # pre @ butlast old)" by (meson prefix_length_prefix prefixI)
      with Cons.prems show False by (simp add: prefix_imp_sublist)
    qed
    from Cons.prems have "\<not> sublist old (pre @ butlast old)" by (auto simp: sublist_Cons_right)
    with Cons.IH no show ?case by (simp add: cutText_Cons)
  qed
  then show ?thesis by (simp add: replaceOnce_def)
qed

end
