(* ===== verification/Seal.thy ===== *)
theory Seal
  imports Codecs
begin

text \<open>
  Sealed columns of the Postgres store (\<open>store/pg/seal.go\<close>): the list of keys an operator gives, and how
  texts, JSON documents and bytes are sealed and opened. AES-GCM is an argument, of which is relied on
  that it opens what it sealed; so are \<open>json.Marshal\<close> and \<open>json.Unmarshal\<close> of a string. A nonce that is
  drawn is an argument too.
\<close>

section \<open>Keys\<close>

abbreviation sealedMark :: string where "sealedMark \<equiv> ''sealed:''"
abbreviation sealPrefix :: string where "sealPrefix \<equiv> ''sealed:v1:''"
abbreviation plainPrefix :: string where "plainPrefix \<equiv> ''sealed:v0:''"

datatype seal_error = BadEntry | BadKey string | KeyTwice string | UnknownKey string string | Corrupt string | BadJSON

text \<open>The cipher of a key: its nonces' length, sealing and opening with associated data.\<close>

record AEAD =
  ad_NonceSize :: nat
  ad_Seal :: "string \<Rightarrow> string \<Rightarrow> string \<Rightarrow> string \<Rightarrow> string"
  ad_Open :: "string \<Rightarrow> string \<Rightarrow> string \<Rightarrow> string \<Rightarrow> string option"

record Sealer =
  sl_current :: string
  sl_keys :: "(string, string) gomap"

fun sealerEntries :: "string list \<Rightarrow> Sealer \<Rightarrow> seal_error + Sealer" where
  "sealerEntries [] s = Inr s"
| "sealerEntries (e # es) s =
    (case Cut (CHR '':'') (TrimSpace e) of (id1, b64, ok) \<Rightarrow>
      if \<not> ok \<or> id1 = [] \<or> CHR '':'' \<in> set id1 \<or> CHR '' '' \<in> set id1 then Inl BadEntry
      else case unbase64 b64 of
        None \<Rightarrow> Inl (BadKey id1)
      | Some key \<Rightarrow>
         if length key \<noteq> 32 then Inl (BadKey id1)
         else if map_of (sl_keys s) id1 \<noteq> None then Inl (KeyTwice id1)
         else sealerEntries es (s\<lparr>sl_keys := mput id1 key (sl_keys s),
                sl_current := (if sl_current s = [] then id1 else sl_current s)\<rparr>))"

definition NewSealer :: "string \<Rightarrow> seal_error + Sealer" where
  "NewSealer spec = sealerEntries (Split (CHR '','') spec) \<lparr>sl_current = [], sl_keys = []\<rparr>"

section \<open>Sealing and opening\<close>

text \<open>A sealer of \<open>NewSealer\<close> has the key of its current id; none is a store without keys.\<close>

definition seal :: "AEAD \<Rightarrow> Sealer option \<Rightarrow> string \<Rightarrow> string \<Rightarrow> string \<Rightarrow> string" where
  "seal A s nonce column plain =
    (case s of
       None \<Rightarrow> if prefix sealedMark plain then plainPrefix @ plain else plain
     | Some S \<Rightarrow> sealPrefix @ sl_current S @ '':'' @
         base64 (nonce @ ad_Seal A (the (map_of (sl_keys S) (sl_current S))) nonce plain column))"

definition openSealed :: "AEAD \<Rightarrow> Sealer option \<Rightarrow> string \<Rightarrow> string \<Rightarrow> seal_error + string" where
  "openSealed A s column stored =
    (if \<not> prefix sealedMark stored then Inr stored
     else if prefix plainPrefix stored then Inr (drop (length plainPrefix) stored)
     else case Cut (CHR '':'') (TrimPrefix sealPrefix stored) of (id1, b64, found) \<Rightarrow>
       (case (case s of None \<Rightarrow> None | Some S \<Rightarrow> map_of (sl_keys S) id1) of
          None \<Rightarrow> Inl (UnknownKey id1 column)
        | Some key \<Rightarrow>
           (case unbase64 b64 of
              None \<Rightarrow> Inl (Corrupt column)
            | Some raw1 \<Rightarrow>
               if length raw1 < ad_NonceSize A then Inl (Corrupt column)
               else case ad_Open A key (take (ad_NonceSize A) raw1) (drop (ad_NonceSize A) raw1) column of
                 None \<Rightarrow> Inl (Corrupt column)
               | Some plain \<Rightarrow> Inr plain)))"

definition sealText :: "AEAD \<Rightarrow> Sealer option \<Rightarrow> string \<Rightarrow> string \<Rightarrow> string \<Rightarrow> string" where
  "sealText A s nonce column v = (if v = [] then v else seal A s nonce column v)"

definition openText :: "AEAD \<Rightarrow> Sealer option \<Rightarrow> string \<Rightarrow> string \<Rightarrow> seal_error + string" where
  "openText A s column v = openSealed A s column v"

text \<open>Strings as JSON documents.\<close>

record jsonCodec =
  jc_quote :: "string \<Rightarrow> string"
  jc_unquote :: "string \<Rightarrow> seal_error + string"
  jc_valid :: "string \<Rightarrow> bool"

definition quotedMark :: string where
  "quotedMark = CHR 0x22 # sealedMark"

definition sealJSON :: "AEAD \<Rightarrow> jsonCodec \<Rightarrow> Sealer option \<Rightarrow> string \<Rightarrow> string \<Rightarrow> string \<Rightarrow> string" where
  "sealJSON A J s nonce column doc =
    (if doc = [] \<or> s = None \<and> \<not> prefix quotedMark doc then doc
     else jc_quote J (if s = None then plainPrefix @ doc else seal A s nonce column doc))"

definition openJSON :: "AEAD \<Rightarrow> jsonCodec \<Rightarrow> Sealer option \<Rightarrow> string \<Rightarrow> string \<Rightarrow> seal_error + string" where
  "openJSON A J s column doc =
    (if \<not> prefix quotedMark doc then Inr doc
     else case jc_unquote J doc of
       Inl e \<Rightarrow> Inl e
     | Inr stored \<Rightarrow> if \<not> prefix sealedMark stored then Inr doc else openSealed A s column stored)"

text \<open>Bytes may be absent.\<close>

definition sealBytes :: "AEAD \<Rightarrow> Sealer option \<Rightarrow> string \<Rightarrow> string \<Rightarrow> string option \<Rightarrow> string option" where
  "sealBytes A s nonce column b = map_option (seal A s nonce column) b"

definition openBytes :: "AEAD \<Rightarrow> Sealer option \<Rightarrow> string \<Rightarrow> string option \<Rightarrow> seal_error + string option" where
  "openBytes A s column b =
    (case b of None \<Rightarrow> Inr None
     | Some stored \<Rightarrow> (case openSealed A s column stored of Inl e \<Rightarrow> Inl e | Inr p \<Rightarrow> Inr (Some p)))"

section \<open>What is relied on\<close>

definition aeadOpens :: "AEAD \<Rightarrow> bool" where
  "aeadOpens A \<longleftrightarrow> (\<forall>key nonce plain data. length key = 32 \<longrightarrow> length nonce = ad_NonceSize A \<longrightarrow>
     ad_Open A key nonce (ad_Seal A key nonce plain data) data = Some plain)"

text \<open>A valid text is read back from its JSON; texts of ASCII are valid, and so are valid texts joined.\<close>

definition jsonReads :: "jsonCodec \<Rightarrow> bool" where
  "jsonReads J \<longleftrightarrow> (\<forall>s. jc_valid J s \<longrightarrow> jc_unquote J (jc_quote J s) = Inr s) \<and>
     (\<forall>s. prefix quotedMark (jc_quote J (sealedMark @ s))) \<and>
     (\<forall>s. list_all (\<lambda>c. byte c < 128) s \<longrightarrow> jc_valid J s) \<and> (\<forall>s t. jc_valid J s \<longrightarrow> jc_valid J t \<longrightarrow> jc_valid J (s @ t))"

section \<open>Sealers\<close>

definition goodSealer :: "Sealer \<Rightarrow> bool" where
  "goodSealer s \<longleftrightarrow> CHR '':'' \<notin> set (sl_current s) \<and> (\<exists>key. map_of (sl_keys s) (sl_current s) = Some key \<and> length key = 32)"

lemma sealerEntries_good:
  "sealerEntries es s = Inr S \<Longrightarrow> sl_current s = [] \<or> goodSealer s \<Longrightarrow> es \<noteq> [] \<or> goodSealer s \<Longrightarrow> goodSealer S"
proof (induction es arbitrary: s)
  case (Cons e es)
  obtain id1 b64 ok where c: "Cut (CHR '':'') (TrimSpace e) = (id1, b64, ok)" by (cases "Cut (CHR '':'') (TrimSpace e)")
  with Cons.prems(1) obtain key where key: "unbase64 b64 = Some key" "length key = 32" "map_of (sl_keys s) id1 = None"
    "id1 \<noteq> []" "CHR '':'' \<notin> set id1"
    "sealerEntries es (s\<lparr>sl_keys := mput id1 key (sl_keys s), sl_current := (if sl_current s = [] then id1 else sl_current s)\<rparr>) = Inr S"
    by (auto split: if_splits option.splits)
  have "goodSealer (s\<lparr>sl_keys := mput id1 key (sl_keys s), sl_current := (if sl_current s = [] then id1 else sl_current s)\<rparr>)"
    using Cons.prems(2) key by (auto simp: goodSealer_def map_of_mput)
  with Cons.IH [OF key(6)] show ?case by blast
qed simp

lemma Split_some: "Split sep s \<noteq> []"
  by (induction s) (auto split: list.splits)

lemma NewSealer_good: "NewSealer spec = Inr S \<Longrightarrow> goodSealer S"
  unfolding NewSealer_def using sealerEntries_good Split_some by fastforce

lemma open_seal:
  assumes "aeadOpens A" and "goodSealer S" and "map_of (sl_keys S') (sl_current S) = map_of (sl_keys S) (sl_current S)"
    and "length nonce = ad_NonceSize A"
  shows "openSealed A (Some S') column (seal A (Some S) nonce column plain) = Inr plain"
proof -
  from assms(2) obtain key where key: "map_of (sl_keys S) (sl_current S) = Some key" "length key = 32" "CHR '':'' \<notin> set (sl_current S)"
    by (auto simp: goodSealer_def)
  have cut: "Cut (CHR '':'') (sl_current S @ CHR '':'' # b) = (sl_current S, b, True)" for b
    by (rule Cut_found [OF key(3)])
  from assms(1,4) key(2) have "ad_Open A key nonce (ad_Seal A key nonce plain column) column = Some plain"
    by (simp add: aeadOpens_def)
  with key(1) assms(3,4) cut show ?thesis
    by (simp add: openSealed_def seal_def TrimPrefix_def unbase64_base64)
qed

lemma open_unknown:
  assumes "goodSealer S" and "case s of None \<Rightarrow> True | Some S' \<Rightarrow> map_of (sl_keys S') (sl_current S) = None"
  shows "openSealed A s column (seal A (Some S) nonce column plain) = Inl (UnknownKey (sl_current S) column)"
proof -
  have "Cut (CHR '':'') (sl_current S @ CHR '':'' # b) = (sl_current S, b, True)" for b
    using assms(1) Cut_found by (auto simp: goodSealer_def)
  with assms(2) show ?thesis by (cases s) (simp_all add: openSealed_def seal_def TrimPrefix_def)
qed

lemma open_plain: "openSealed A s column (seal A None nonce column plain) = Inr plain"
  by (simp add: openSealed_def seal_def)

lemma b64char_ascii: "n < 64 \<Longrightarrow> byte (b64char n) < 128"
  by (auto simp: b64char_def)

lemma base64_valid: "jsonReads J \<Longrightarrow> jc_valid J (base64 s)"
proof -
  have "list_all (\<lambda>c. byte c < 128) (base64 s)"
    by (induction s rule: base64.induct) (simp_all add: b64char_ascii sixes_small byte_parts)
  then show "jsonReads J \<Longrightarrow> jc_valid J (base64 s)" by (simp add: jsonReads_def)
qed

lemma valid_ascii: "jsonReads J \<Longrightarrow> list_all (\<lambda>c. byte c < 128) s \<Longrightarrow> jc_valid J s"
  by (simp add: jsonReads_def)

lemma valid_join: "jsonReads J \<Longrightarrow> jc_valid J s \<Longrightarrow> jc_valid J t \<Longrightarrow> jc_valid J (s @ t)"
  by (simp add: jsonReads_def)

lemma open_quoted:
  assumes "jsonReads J" and "jc_valid J (sealedMark @ s)"
  shows "openJSON A J sl column (jc_quote J (sealedMark @ s)) = openSealed A sl column (sealedMark @ s)"
proof -
  from assms have "prefix quotedMark (jc_quote J (sealedMark @ s))" "jc_unquote J (jc_quote J (sealedMark @ s)) = Inr (sealedMark @ s)"
    by (simp_all only: jsonReads_def)
  moreover have "prefix sealedMark (sealedMark @ s)" by simp
  ultimately show ?thesis unfolding openJSON_def by (simp only: if_False simp_thms sum.case)
qed

lemma seal_mark: "seal A (Some S) nonce column plain = sealedMark @ ''v1:'' @ sl_current S @ '':'' @
    base64 (nonce @ ad_Seal A (the (map_of (sl_keys S) (sl_current S))) nonce plain column)"
  by (simp add: seal_def)

lemma openJSON_seal:
  assumes "jsonReads J" and "jc_valid J (sl_current S)" and "doc \<noteq> []"
  shows "openJSON A J s column (sealJSON A J (Some S) nonce column doc) = openSealed A s column (seal A (Some S) nonce column doc)"
proof -
  have "list_all (\<lambda>c. byte c < 128) sealedMark" "list_all (\<lambda>c. byte c < 128) ''v1:''" "list_all (\<lambda>c. byte c < 128) '':''" by code_simp+
  then have "jc_valid J (seal A (Some S) nonce column doc)" unfolding seal_mark
    using assms(1,2) by (blast intro: valid_join valid_ascii base64_valid)
  with assms(1) have "openJSON A J s column (jc_quote J (seal A (Some S) nonce column doc)) = openSealed A s column (seal A (Some S) nonce column doc)"
    unfolding seal_mark by (rule open_quoted)
  with assms(3) show ?thesis by (simp add: sealJSON_def)
qed

lemma openJSON_plain:
  assumes "jsonReads J" and "jc_valid J doc"
  shows "openJSON A J s column (sealJSON A J None nonce column doc) = Inr doc"
proof (cases "prefix quotedMark doc")
  case True
  have e: "plainPrefix @ doc = sealedMark @ ''v0:'' @ doc" by simp
  have "list_all (\<lambda>c. byte c < 128) sealedMark" "list_all (\<lambda>c. byte c < 128) ''v0:''" by code_simp+
  then have "jc_valid J (plainPrefix @ doc)" unfolding e using assms by (blast intro: valid_join valid_ascii)
  then have "openJSON A J s column (jc_quote J (plainPrefix @ doc)) = openSealed A s column (plainPrefix @ doc)"
    unfolding e by (rule open_quoted [OF assms(1)])
  moreover have "openSealed A s column (plainPrefix @ doc) = Inr doc" by (simp add: openSealed_def)
  moreover have "doc \<noteq> []" using True by (auto simp: quotedMark_def)
  ultimately show ?thesis using True by (simp add: sealJSON_def)
next
  case False
  then show ?thesis by (simp add: sealJSON_def openJSON_def)
qed

section \<open>What was sealed can be read\<close>

text \<open>C39: what a store sealed under a key it was given is read back by every store that has that key,
  whatever its current key is, in texts, documents and bytes, and what a store without keys wrote is
  read by every store; without the key, reading gives an error that names it and the column, and never
  a value.\<close>

theorem sealed_columns_read_back:
  assumes "aeadOpens A" and "jsonReads J" and "NewSealer spec = Inr S" and "length nonce = ad_NonceSize A"
    and "map_of (sl_keys S') (sl_current S) = map_of (sl_keys S) (sl_current S)"
    and "case lost of None \<Rightarrow> True | Some L \<Rightarrow> map_of (sl_keys L) (sl_current S) = None"
    and "jc_valid J (sl_current S)" and "jc_valid J doc"
  shows "openText A (Some S') column (sealText A (Some S) nonce column v) = Inr v \<and>
    openJSON A J (Some S') column (sealJSON A J (Some S) nonce column doc) = Inr doc \<and>
    openBytes A (Some S') column (sealBytes A (Some S) nonce column b) = Inr b \<and>
    openText A s column (sealText A None nonce column v) = Inr v \<and>
    openJSON A J s column (sealJSON A J None nonce column doc) = Inr doc \<and>
    openBytes A s column (sealBytes A None nonce column b) = Inr b \<and>
    (v \<noteq> [] \<longrightarrow> openText A lost column (sealText A (Some S) nonce column v) = Inl (UnknownKey (sl_current S) column)) \<and>
    (doc \<noteq> [] \<longrightarrow> openJSON A J lost column (sealJSON A J (Some S) nonce column doc) = Inl (UnknownKey (sl_current S) column)) \<and>
    (b \<noteq> None \<longrightarrow> openBytes A lost column (sealBytes A (Some S) nonce column b) = Inl (UnknownKey (sl_current S) column))"
proof -
  note good = NewSealer_good [OF assms(3)]
  have opened: "openSealed A (Some S') column (seal A (Some S) nonce column p) = Inr p" for p
    using open_seal [OF assms(1) good assms(5,4)] .
  have shut: "openSealed A lost column (seal A (Some S) nonce column p) = Inl (UnknownKey (sl_current S) column)" for p
    using open_unknown [OF good assms(6)] .
  have empty: "openSealed A x column [] = Inr []" "openJSON A J x column [] = Inr []" "sealJSON A J x nonce column [] = []" for x
    by (simp_all add: openSealed_def openJSON_def sealJSON_def quotedMark_def)
  have "openText A (Some S') column (sealText A (Some S) nonce column v) = Inr v" "openText A s column (sealText A None nonce column v) = Inr v"
    by (simp_all add: openText_def sealText_def opened open_plain empty)
  moreover have "openJSON A J (Some S') column (sealJSON A J (Some S) nonce column doc) = Inr doc"
    using openJSON_seal [OF assms(2,7)] opened empty by (cases "doc = []") simp_all
  moreover have "openBytes A (Some S') column (sealBytes A (Some S) nonce column b) = Inr b" "openBytes A s column (sealBytes A None nonce column b) = Inr b"
    by (cases b; simp add: openBytes_def sealBytes_def opened open_plain)+
  moreover have "openText A lost column (sealText A (Some S) nonce column v) = Inl (UnknownKey (sl_current S) column)" if "v \<noteq> []"
    using that by (simp add: openText_def sealText_def shut)
  moreover have "openJSON A J lost column (sealJSON A J (Some S) nonce column doc) = Inl (UnknownKey (sl_current S) column)" if "doc \<noteq> []"
    using openJSON_seal [OF assms(2,7) that] shut by simp
  moreover have "openBytes A lost column (sealBytes A (Some S) nonce column b) = Inl (UnknownKey (sl_current S) column)" if "b \<noteq> None"
    using that by (auto simp: openBytes_def sealBytes_def shut)
  ultimately show ?thesis using openJSON_plain [OF assms(2,8)] by blast
qed

definition exampleSpec :: string where
  "exampleSpec = ''k:'' @ base64 (replicate 32 CHR ''x'')"

lemma exampleSpec_sealer: "NewSealer exampleSpec = Inr \<lparr>sl_current = ''k'', sl_keys = [(''k'', replicate 32 CHR ''x'')]\<rparr>"
proof -
  have "Split (CHR '','') exampleSpec = [exampleSpec]" by code_simp
  moreover have "TrimSpace exampleSpec = exampleSpec" by (rule TrimSpace_graphic; code_simp)
  moreover have "Cut (CHR '':'') exampleSpec = (''k'', base64 (replicate 32 CHR ''x''), True)"
    using Cut_found [of "CHR '':''" "''k''"] by (simp add: exampleSpec_def)
  ultimately show ?thesis by (simp add: NewSealer_def unbase64_base64)
qed

theorem sealed_columns_read_back_witness:
  "let A = \<lparr>ad_NonceSize = 1, ad_Seal = (\<lambda>key nonce plain data. rev plain), ad_Open = (\<lambda>key nonce sealed data. Some (rev sealed))\<rparr>;
       J = \<lparr>jc_quote = (\<lambda>s. CHR 0x22 # s @ [CHR 0x22]), jc_unquote = (\<lambda>s. Inr (butlast (tl s))), jc_valid = (\<lambda>_. True)\<rparr>;
       S = \<lparr>sl_current = ''k'', sl_keys = [(''k'', replicate 32 CHR ''x'')]\<rparr>
   in NewSealer exampleSpec = Inr S \<and> openText A (Some (S\<lparr>sl_current := ''new''\<rparr>)) ''messages.content'' (sealText A (Some S) ''n'' ''messages.content'' ''hi'') = Inr ''hi'' \<and>
      openText A None ''messages.content'' (sealText A (Some S) ''n'' ''messages.content'' ''hi'') = Inl (UnknownKey ''k'' ''messages.content'')"
  unfolding Let_def
  using sealed_columns_read_back [of
      "\<lparr>ad_NonceSize = 1, ad_Seal = (\<lambda>key nonce plain data. rev plain), ad_Open = (\<lambda>key nonce sealed data. Some (rev sealed))\<rparr>"
      "\<lparr>jc_quote = (\<lambda>s. CHR 0x22 # s @ [CHR 0x22]), jc_unquote = (\<lambda>s. Inr (butlast (tl s))), jc_valid = (\<lambda>_. True)\<rparr>"
      exampleSpec "\<lparr>sl_current = ''k'', sl_keys = [(''k'', replicate 32 CHR ''x'')]\<rparr>" "''n''"
      "\<lparr>sl_current = ''new'', sl_keys = [(''k'', replicate 32 CHR ''x'')]\<rparr>" None "''{}''" "''messages.content''" "''hi''" None None]
    exampleSpec_sealer by (simp add: aeadOpens_def jsonReads_def quotedMark_def)

end
