(* ===== verification/Notifier.thy ===== *)
theory Notifier
  imports EventLog "HOL-Library.Sublist"
begin

text \<open>
  Notifications of the Postgres store (\<open>store/pg/notify.go\<close>) and the event subscriptions that wait for
  them (\<open>Subscribe\<close> of \<open>store/pg/pg.go\<close>): watchers of keys, the one listening connection, which may be
  lost at any time with the notifications under way, and the loop of a subscriber. Of Postgres, a
  transaction's events and notifications become visible together, and the sequence numbers of a run
  grow; this is the step \<open>appended\<close>. The other steps are the code's. A subscriber is looked at beside
  any others.
\<close>

section \<open>Watchers\<close>

abbreviation eventsChannel :: string where "eventsChannel \<equiv> ''agentloop_events''"
abbreviation approvalsChannel :: string where "approvalsChannel \<equiv> ''agentloop_approvals''"

text \<open>A Go channel of capacity one is a number; those in \<open>nt_full\<close> hold a signal.\<close>

record notifier =
  nt_started :: bool
  nt_listens :: bool
  nt_watchers :: "(string, nat list) gomap"
  nt_next :: nat
  nt_full :: "nat set"

definition newNotifier :: notifier where
  "newNotifier = \<lparr>nt_started = False, nt_listens = False, nt_watchers = [], nt_next = 0, nt_full = {}\<rparr>"

definition watchersOf :: "string \<Rightarrow> notifier \<Rightarrow> nat list" where
  "watchersOf key n = (case map_of (nt_watchers n) key of None \<Rightarrow> [] | Some cs \<Rightarrow> cs)"

definition watchKey :: "string \<Rightarrow> string \<Rightarrow> string" where
  "watchKey channel payload = channel @ '':'' @ payload"

definition watch :: "string \<Rightarrow> string \<Rightarrow> notifier \<Rightarrow> notifier \<times> nat" where
  "watch channel payload n =
    (let key = watchKey channel payload; ch = nt_next n
     in (n\<lparr>nt_started := True, nt_listens := (nt_listens n \<or> \<not> nt_started n), nt_next := ch + 1,
           nt_watchers := mput key (ch # watchersOf key n) (nt_watchers n)\<rparr>, ch))"

definition unwatch :: "string \<Rightarrow> nat \<Rightarrow> notifier \<Rightarrow> notifier" where
  "unwatch key ch n =
    (let rest = removeAll ch (watchersOf key n)
     in n\<lparr>nt_watchers := (if rest = [] then mdel key (nt_watchers n) else mput key rest (nt_watchers n))\<rparr>)"

definition signal :: "nat \<Rightarrow> notifier \<Rightarrow> notifier" where
  "signal ch n = n\<lparr>nt_full := insert ch (nt_full n)\<rparr>"

definition wake :: "string \<Rightarrow> notifier \<Rightarrow> notifier" where
  "wake key n = fold signal (watchersOf key n) n"

definition wakeAll :: "notifier \<Rightarrow> notifier" where
  "wakeAll n = fold signal (concat (mvals (nt_watchers n))) n"

text \<open>Without a first watch there is no connection; a watch after \<open>close\<close> does not open one.\<close>

definition closeNotifier :: "notifier \<Rightarrow> notifier" where
  "closeNotifier n = wakeAll (n\<lparr>nt_started := True, nt_listens := False\<rparr>)"

section \<open>Events and the connection\<close>

text \<open>Down, listening before its watchers were woken, and up.\<close>

datatype connection = Down | Fresh | Up

datatype phase = Querying | Sending "Event list" | Waiting | Ended

text \<open>The table of events, the notifications on their way, and one subscriber with what it sent.\<close>

record pgWorld =
  pw_log :: "Event list"
  pw_conn :: connection
  pw_queue :: "(string \<times> string) list"
  pw_notifier :: notifier
  pw_phase :: phase
  pw_seq :: int
  pw_out :: "Event list"

text \<open>The runs \<open>Append\<close> notifies: each once, in the order they appear.\<close>

definition notifiedRuns :: "Event list \<Rightarrow> RunID list" where
  "notifiedRuns es = foldl (\<lambda>runs e. if ev_RunID e \<noteq> [] \<and> ev_RunID e \<notin> set runs then runs @ [ev_RunID e] else runs) [] es"

definition eventsAfter :: "RunID \<Rightarrow> int \<Rightarrow> Event list \<Rightarrow> Event list" where
  "eventsAfter run seq0 es = filter (\<lambda>e. ev_RunID e = run \<and> ev_Sequence e > seq0) es"

text \<open>The numbers of each run grow along the table, from one.\<close>

definition growing :: "Event list \<Rightarrow> bool" where
  "growing es \<longleftrightarrow> sorted_wrt (\<lambda>a b. ev_RunID a = ev_RunID b \<longrightarrow> ev_Sequence a < ev_Sequence b) es"

inductive pgAppend :: "pgWorld \<Rightarrow> pgWorld \<Rightarrow> bool" where
  appended: "growing (pw_log w @ es) \<Longrightarrow>
    pgAppend w (w\<lparr>pw_log := pw_log w @ es,
      pw_queue := (if pw_conn w = Down then pw_queue w else pw_queue w @ map (Pair eventsChannel) (notifiedRuns es))\<rparr>)"

text \<open>\<open>listen\<close> and \<open>listenOnce\<close>; a notification of an approval is one of another key.\<close>

inductive listenStep :: "pgWorld \<Rightarrow> pgWorld \<Rightarrow> bool" where
  connects: "nt_listens (pw_notifier w) \<Longrightarrow> pw_conn w = Down \<Longrightarrow> listenStep w (w\<lparr>pw_conn := Fresh, pw_queue := []\<rparr>)"
| wakes_all: "pw_conn w = Fresh \<Longrightarrow> listenStep w (w\<lparr>pw_conn := Up, pw_notifier := wakeAll (pw_notifier w)\<rparr>)"
| notified: "pw_conn w = Up \<Longrightarrow> pw_queue w = (ch, p) # q \<Longrightarrow>
    listenStep w (w\<lparr>pw_queue := q, pw_notifier := wake (watchKey ch p) (pw_notifier w)\<rparr>)"
| approval: "pw_conn w \<noteq> Down \<Longrightarrow> listenStep w (w\<lparr>pw_queue := pw_queue w @ [(approvalsChannel, p)]\<rparr>)"
| connection_lost: "listenStep w (w\<lparr>pw_conn := Down, pw_queue := []\<rparr>)"
| closes: "listenStep w (w\<lparr>pw_conn := Down, pw_queue := [], pw_notifier := closeNotifier (pw_notifier w)\<rparr>)"

text \<open>The loop of \<open>Subscribe\<close> for \<open>run\<close> with the channel \<open>me\<close>.\<close>

inductive subscriberStep :: "RunID \<Rightarrow> nat \<Rightarrow> pgWorld \<Rightarrow> pgWorld \<Rightarrow> bool" for run me where
  queries: "pw_phase w = Querying \<Longrightarrow> subscriberStep run me w (w\<lparr>pw_phase := Sending (eventsAfter run (pw_seq w) (pw_log w))\<rparr>)"
| sends: "pw_phase w = Sending (e # es) \<Longrightarrow>
    subscriberStep run me w (w\<lparr>pw_phase := Sending es, pw_out := pw_out w @ [e], pw_seq := ev_Sequence e\<rparr>)"
| settles: "pw_phase w = Sending [] \<Longrightarrow> subscriberStep run me w (w\<lparr>pw_phase := Waiting\<rparr>)"
| is_woken: "pw_phase w = Waiting \<Longrightarrow> me \<in> nt_full (pw_notifier w) \<Longrightarrow>
    subscriberStep run me w (w\<lparr>pw_phase := Querying, pw_notifier := (pw_notifier w)\<lparr>nt_full := nt_full (pw_notifier w) - {me}\<rparr>\<rparr>)"
| rechecks: "pw_phase w = Waiting \<Longrightarrow> subscriberStep run me w (w\<lparr>pw_phase := Querying\<rparr>)"
| ends: "subscriberStep run me w (w\<lparr>pw_phase := Ended, pw_notifier := unwatch (watchKey eventsChannel run) me (pw_notifier w)\<rparr>)"

text \<open>Others watch, receive their signals and unwatch.\<close>

inductive othersStep :: "nat \<Rightarrow> pgWorld \<Rightarrow> pgWorld \<Rightarrow> bool" for me where
  other_watches: "othersStep me w (w\<lparr>pw_notifier := fst (watch ch p (pw_notifier w))\<rparr>)"
| other_unwatches: "c \<noteq> me \<Longrightarrow> othersStep me w (w\<lparr>pw_notifier := unwatch key c (pw_notifier w)\<rparr>)"
| other_receives: "c \<noteq> me \<Longrightarrow>
    othersStep me w (w\<lparr>pw_notifier := (pw_notifier w)\<lparr>nt_full := nt_full (pw_notifier w) - {c}\<rparr>\<rparr>)"

definition pgStep :: "RunID \<Rightarrow> nat \<Rightarrow> pgWorld \<Rightarrow> pgWorld \<Rightarrow> bool" where
  "pgStep run me w w' \<longleftrightarrow> pgAppend w w' \<or> listenStep w w' \<or> subscriberStep run me w w' \<or> othersStep me w w'"

text \<open>\<open>Subscribe\<close>: watch, then the loop.\<close>

definition pgSubscribe :: "RunID \<Rightarrow> int \<Rightarrow> pgWorld \<Rightarrow> pgWorld \<times> nat" where
  "pgSubscribe run afterSeq w =
    (case watch eventsChannel run (pw_notifier w) of (n, me) \<Rightarrow>
       (w\<lparr>pw_notifier := n, pw_phase := Querying, pw_seq := afterSeq, pw_out := []\<rparr>, me))"

section \<open>Watchers are woken\<close>

lemma signals_full: "nt_full (fold signal cs n) = set cs \<union> nt_full n" "nt_watchers (fold signal cs n) = nt_watchers n"
  "nt_next (fold signal cs n) = nt_next n" "nt_listens (fold signal cs n) = nt_listens n"
  by (induction cs arbitrary: n) (auto simp: signal_def)

lemma watchersOf_signals [simp]: "watchersOf key (fold signal cs n) = watchersOf key n"
  by (simp add: watchersOf_def signals_full)

lemma wake_full: "nt_full (wake key n) = set (watchersOf key n) \<union> nt_full n"
  by (simp add: wake_def signals_full)

lemma watchersOf_all: "set (watchersOf key n) \<subseteq> set (concat (mvals (nt_watchers n)))"
proof (cases "map_of (nt_watchers n) key")
  case (Some cs)
  then have "(key, cs) \<in> set (nt_watchers n)" by (rule map_of_SomeD)
  with Some show ?thesis by (force simp: watchersOf_def)
qed (simp add: watchersOf_def)

lemma wakeAll_full: "set (watchersOf key n) \<subseteq> nt_full (wakeAll n)"
  using watchersOf_all [of key n] by (simp add: wakeAll_def signals_full subset_iff)

lemma wake_watchers [simp]: "watchersOf key (wake k n) = watchersOf key n" "watchersOf key (wakeAll n) = watchersOf key n"
  by (simp_all add: wake_def wakeAll_def)

lemma watch_watchers: "watchersOf key (fst (watch ch p n)) = (if key = watchKey ch p then nt_next n # watchersOf key n else watchersOf key n)"
  by (auto simp: watch_def watchersOf_def Let_def map_of_mput)

lemma unwatch_watchers: "set (watchersOf key (unwatch k c n)) = set (watchersOf key n) - (if key = k then {c} else {})"
proof (cases "key = k")
  case True
  have "set (removeAll c (watchersOf k n)) = set (watchersOf k n) - {c}" by simp
  moreover have "watchersOf k (unwatch k c n) = removeAll c (watchersOf k n)"
    by (simp add: unwatch_def watchersOf_def [of k "n\<lparr>nt_watchers := m\<rparr>" for m] Let_def map_of_mput map_of_mdel)
  ultimately show ?thesis using True by simp
qed (simp add: unwatch_def watchersOf_def Let_def map_of_mput map_of_mdel)

section \<open>What a subscriber has\<close>

definition wanted :: "RunID \<Rightarrow> int \<Rightarrow> pgWorld \<Rightarrow> Event list" where
  "wanted run afterSeq w = eventsAfter run afterSeq (pw_log w)"

text \<open>
  What is sent is the beginning of what is wanted, and who waits with something left has a signal, a
  notification on its way, or a connection that will wake everyone.
\<close>

definition subscriberInv :: "RunID \<Rightarrow> int \<Rightarrow> nat \<Rightarrow> pgWorld \<Rightarrow> bool" where
  "subscriberInv run afterSeq me w \<longleftrightarrow> growing (pw_log w) \<and>
    pw_seq w = (if pw_out w = [] then afterSeq else ev_Sequence (last (pw_out w))) \<and>
    (pw_phase w \<noteq> Ended \<longrightarrow> me \<in> set (watchersOf (watchKey eventsChannel run) (pw_notifier w))) \<and>
    (\<exists>rest. wanted run afterSeq w = pw_out w @ (case pw_phase w of Sending es \<Rightarrow> es | _ \<Rightarrow> []) @ rest \<and>
       (rest \<noteq> [] \<and> pw_phase w \<noteq> Ended \<and> pw_phase w \<noteq> Querying \<longrightarrow>
          me \<in> nt_full (pw_notifier w) \<or> pw_conn w \<noteq> Up \<or> (eventsChannel, run) \<in> set (pw_queue w)))"

lemma eventsAfter_append: "eventsAfter run a (es @ fs) = eventsAfter run a es @ eventsAfter run a fs"
  by (simp add: eventsAfter_def)

lemma eventsAfter_sorted: "growing es \<Longrightarrow> sorted_wrt (\<lambda>a b. ev_Sequence a < ev_Sequence b) (eventsAfter run s es)"
  unfolding growing_def eventsAfter_def
  by (induction es) auto

text \<open>Asking for what comes after the last event sent gives what is left.\<close>

lemma eventsAfter_rest:
  assumes "growing es" and "eventsAfter run a es = out @ rest" and "s = (if out = [] then a else ev_Sequence (last out))"
  shows "eventsAfter run s es = rest"
proof (cases "out = []")
  case False
  from eventsAfter_sorted [OF assms(1), of run a] assms(2)
  have order: "sorted_wrt (\<lambda>a b. ev_Sequence a < ev_Sequence b) (out @ rest)" by simp
  have "last out \<in> set (eventsAfter run a es)" using assms(2) False by simp
  then have "a < s" using assms(3) False by (simp add: eventsAfter_def)
  then have "eventsAfter run s es = filter (\<lambda>e. ev_Sequence e > s) (eventsAfter run a es)"
    by (auto simp: eventsAfter_def intro!: filter_cong)
  also have "\<dots> = filter (\<lambda>e. ev_Sequence e > s) out @ filter (\<lambda>e. ev_Sequence e > s) rest" by (simp add: assms(2))
  also have "filter (\<lambda>e. ev_Sequence e > s) out = []"
  proof -
    obtain out' e where out: "out = out' @ [e]" using False by (cases out rule: rev_cases) auto
    with order assms(3) show ?thesis by (auto simp: sorted_wrt_append filter_empty_conv)
  qed
  also have "filter (\<lambda>e. ev_Sequence e > s) rest = rest"
    using order assms(3) False by (intro filter_True) (auto simp: sorted_wrt_append)
  finally show ?thesis by simp
qed (use assms in simp)

lemma notifiedRuns_in: "e \<in> set es \<Longrightarrow> ev_RunID e \<noteq> [] \<Longrightarrow> ev_RunID e \<in> set (notifiedRuns es)"
proof (induction es rule: rev_induct)
  case (snoc x es)
  then show ?case by (auto simp: notifiedRuns_def)
qed simp

section \<open>Every step keeps it\<close>

lemma pgAppend_keeps:
  assumes "pgAppend w w'" and "subscriberInv run a me w" and "run \<noteq> []"
  shows "subscriberInv run a me w'"
  using assms(1)
proof cases
  case (appended es)
  let ?new = "eventsAfter run a es"
  from assms(2) obtain rest where rest: "wanted run a w = pw_out w @ (case pw_phase w of Sending es \<Rightarrow> es | _ \<Rightarrow> []) @ rest"
    "rest \<noteq> [] \<and> pw_phase w \<noteq> Ended \<and> pw_phase w \<noteq> Querying \<longrightarrow>
      me \<in> nt_full (pw_notifier w) \<or> pw_conn w \<noteq> Up \<or> (eventsChannel, run) \<in> set (pw_queue w)"
    by (auto simp: subscriberInv_def)
  have log: "wanted run a w' = pw_out w @ (case pw_phase w of Sending es \<Rightarrow> es | _ \<Rightarrow> []) @ rest @ ?new"
    using rest(1) by (simp add: appended(1) wanted_def eventsAfter_append)
  have "(eventsChannel, run) \<in> set (map (Pair eventsChannel) (notifiedRuns es))" if "?new \<noteq> []"
  proof -
    from that obtain e where "e \<in> set es" "ev_RunID e = run" by (auto simp: eventsAfter_def filter_empty_conv)
    with notifiedRuns_in [of e es] assms(3) show ?thesis by simp
  qed
  then have "rest @ ?new \<noteq> [] \<and> pw_phase w' \<noteq> Ended \<and> pw_phase w' \<noteq> Querying \<longrightarrow>
      me \<in> nt_full (pw_notifier w') \<or> pw_conn w' \<noteq> Up \<or> (eventsChannel, run) \<in> set (pw_queue w')"
    using rest(2) by (auto simp: appended(1))
  moreover have "pw_out w' = pw_out w" "pw_phase w' = pw_phase w" by (simp_all add: appended(1))
  ultimately show ?thesis using assms(2) log appended(2) unfolding subscriberInv_def
    by (auto simp: appended(1) intro!: exI [of _ "rest @ ?new"])
qed

lemma listenStep_keeps:
  assumes "listenStep w w'" and "subscriberInv run a me w"
  shows "subscriberInv run a me w'"
  using assms(1)
proof cases
  case wakes_all
  with assms(2) wakeAll_full [of "watchKey eventsChannel run" "pw_notifier w"] show ?thesis
    by (auto simp: subscriberInv_def wanted_def)
next
  case (notified ch p q)
  with assms(2) show ?thesis
    by (auto simp: subscriberInv_def wanted_def wake_full)
next
  case closes
  have "watchersOf key (closeNotifier n) = watchersOf key n" for key n
    by (simp add: closeNotifier_def) (simp add: watchersOf_def)
  with closes assms(2) show ?thesis by (auto simp: subscriberInv_def wanted_def)
qed (use assms(2) in \<open>auto simp: subscriberInv_def wanted_def\<close>)

lemma subscriberStep_keeps:
  assumes "subscriberStep run me w w'" and "subscriberInv run a me w"
  shows "subscriberInv run a me w'"
  using assms(1)
proof cases
  case queries
  from assms(2) queries(2) obtain rest where rest: "wanted run a w = pw_out w @ rest"
    "growing (pw_log w)" "pw_seq w = (if pw_out w = [] then a else ev_Sequence (last (pw_out w)))"
    by (auto simp: subscriberInv_def)
  from eventsAfter_rest [OF rest(2) rest(1) [unfolded wanted_def] rest(3)] have "eventsAfter run (pw_seq w) (pw_log w) = rest" .
  with assms(2) rest queries show ?thesis by (auto simp: subscriberInv_def wanted_def)
next
  case is_woken
  have "watchersOf key (n\<lparr>nt_full := f\<rparr>) = watchersOf key n" for key n f by (simp add: watchersOf_def)
  with is_woken assms(2) show ?thesis by (auto simp: subscriberInv_def wanted_def)
next
  case ends
  with assms(2) show ?thesis by (cases "pw_phase w") (auto simp: subscriberInv_def wanted_def)
qed (use assms(2) in \<open>auto simp: subscriberInv_def wanted_def\<close>)

lemma othersStep_keeps:
  assumes "othersStep me w w'" and "subscriberInv run a me w"
  shows "subscriberInv run a me w'"
  using assms(1)
proof cases
  case (other_watches ch p)
  have "nt_full (fst (watch ch p n)) = nt_full n" for n by (simp add: watch_def Let_def)
  with other_watches assms(2) show ?thesis by (auto simp: subscriberInv_def wanted_def watch_watchers)
next
  case (other_unwatches c key)
  have "nt_full (unwatch key c n) = nt_full n" for n by (simp add: unwatch_def Let_def)
  with other_unwatches assms(2) show ?thesis by (auto simp: subscriberInv_def wanted_def unwatch_watchers)
next
  case (other_receives c)
  have "watchersOf key (n\<lparr>nt_full := f\<rparr>) = watchersOf key n" for key n f by (simp add: watchersOf_def)
  with other_receives assms(2) show ?thesis by (auto simp: subscriberInv_def wanted_def)
qed

lemma pgSteps_keep:
  assumes "(pgStep run me)\<^sup>*\<^sup>* w w'" and "subscriberInv run a me w" and "run \<noteq> []"
  shows "subscriberInv run a me w'"
  using assms
proof (induction rule: rtranclp_induct)
  case (step w1 w2)
  then show ?case unfolding pgStep_def
    using pgAppend_keeps listenStep_keeps subscriberStep_keeps othersStep_keeps by blast
qed simp

lemma pgSubscribe_starts:
  assumes "pgSubscribe run a w = (w1, me)" and "growing (pw_log w)"
  shows "subscriberInv run a me w1"
proof -
  obtain n where n: "watch eventsChannel run (pw_notifier w) = (n, me)"
    and w1: "w1 = w\<lparr>pw_notifier := n, pw_phase := Querying, pw_seq := a, pw_out := []\<rparr>"
    using assms(1) by (auto simp: pgSubscribe_def split: prod.splits)
  have "me \<in> set (watchersOf (watchKey eventsChannel run) n)"
    using watch_watchers [of "watchKey eventsChannel run" eventsChannel run "pw_notifier w"] n by (auto simp: watch_def Let_def)
  with assms(2) show ?thesis by (simp add: subscriberInv_def w1 wanted_def)
qed

text \<open>A look at the table after a waiting subscriber was woken or its ticker ran sends what is left.\<close>

lemma sends_all:
  "pw_phase w = Sending es \<Longrightarrow> \<exists>w'. (subscriberStep run me)\<^sup>*\<^sup>* w w' \<and> pw_phase w' = Waiting \<and> pw_out w' = pw_out w @ es \<and> pw_log w' = pw_log w"
proof (induction es arbitrary: w)
  case Nil
  then have "subscriberStep run me w (w\<lparr>pw_phase := Waiting\<rparr>)" by (rule settles)
  then show ?case by (intro exI [of _ "w\<lparr>pw_phase := Waiting\<rparr>"]) auto
next
  case (Cons e es)
  let ?w = "w\<lparr>pw_phase := Sending es, pw_out := pw_out w @ [e], pw_seq := ev_Sequence e\<rparr>"
  have first: "subscriberStep run me w ?w" using Cons.prems by (rule sends)
  from Cons.IH [of ?w] obtain w' where "(subscriberStep run me)\<^sup>*\<^sup>* ?w w'" "pw_phase w' = Waiting"
    "pw_out w' = pw_out w @ e # es" "pw_log w' = pw_log w" by auto
  with first show ?case by (intro exI [of _ w']) (auto intro: converse_rtranclp_into_rtranclp)
qed

lemma look_sends_all:
  assumes "subscriberInv run a me w" and "pw_phase w = Waiting"
  shows "\<exists>w'. (subscriberStep run me)\<^sup>*\<^sup>* w w' \<and> pw_out w' = wanted run a w"
proof -
  let ?w1 = "w\<lparr>pw_phase := Querying\<rparr>" and ?es = "eventsAfter run (pw_seq w) (pw_log w)"
  let ?w2 = "w\<lparr>pw_phase := Sending ?es\<rparr>"
  have "subscriberStep run me w ?w1" by (rule rechecks [OF assms(2)])
  moreover have "subscriberStep run me ?w1 ?w2" using queries [of ?w1 run me] by simp
  ultimately have two: "(subscriberStep run me)\<^sup>*\<^sup>* w ?w2" by auto
  from sends_all [of ?w2 ?es run me] obtain w' where w': "(subscriberStep run me)\<^sup>*\<^sup>* ?w2 w'" "pw_out w' = pw_out w @ ?es" by auto
  from assms obtain rest where "wanted run a w = pw_out w @ rest" by (auto simp: subscriberInv_def)
  moreover from assms this eventsAfter_rest [of "pw_log w" run a "pw_out w" rest "pw_seq w"] have "?es = rest"
    by (auto simp: subscriberInv_def wanted_def)
  ultimately show ?thesis using two w' by (intro exI [of _ w']) auto
qed

section \<open>Nothing is missed\<close>

text \<open>C40: however the notifying connection is lost and restored, transactions commit and others come and
  go, a subscriber of the Postgres store has been sent the beginning of its run's later events, each
  once and in order; when it waits, with the connection up and neither a signal nor a notification left,
  it has been sent all of them; and waiting it can always go on, without any notification, until it has.\<close>

theorem pg_subscriber_misses_nothing:
  assumes "growing (pw_log w0)" and "pgSubscribe run a w0 = (w1, me)" and "run \<noteq> []" and "(pgStep run me)\<^sup>*\<^sup>* w1 w"
  shows "prefix (pw_out w) (wanted run a w) \<and>
    (pw_phase w = Waiting \<and> pw_conn w = Up \<and> me \<notin> nt_full (pw_notifier w) \<and> (eventsChannel, run) \<notin> set (pw_queue w) \<longrightarrow>
       pw_out w = wanted run a w) \<and>
    (pw_phase w = Waiting \<longrightarrow> (\<exists>w'. (subscriberStep run me)\<^sup>*\<^sup>* w w' \<and> pw_out w' = wanted run a w))"
proof -
  have inv: "subscriberInv run a me w"
    using pgSteps_keep [OF assms(4) pgSubscribe_starts [OF assms(2,1)] assms(3)] .
  then obtain rest where "wanted run a w = pw_out w @ (case pw_phase w of Sending es \<Rightarrow> es | _ \<Rightarrow> []) @ rest"
    "rest \<noteq> [] \<and> pw_phase w \<noteq> Ended \<and> pw_phase w \<noteq> Querying \<longrightarrow>
      me \<in> nt_full (pw_notifier w) \<or> pw_conn w \<noteq> Up \<or> (eventsChannel, run) \<in> set (pw_queue w)"
    by (auto simp: subscriberInv_def)
  with look_sends_all [OF inv] show ?thesis by auto
qed

text \<open>A subscription without a connection yet: an event is committed, and the first look sends it.\<close>

definition exampleWorld :: pgWorld where
  "exampleWorld = \<lparr>pw_log = [], pw_conn = Down, pw_queue = [], pw_notifier = newNotifier, pw_phase = Ended, pw_seq = 0, pw_out = []\<rparr>"

definition exampleEvent :: Event where
  "exampleEvent = Event0\<lparr>ev_RunID := ''r'', ev_Sequence := 1\<rparr>"

definition exampleEnd :: pgWorld where
  "exampleEnd = (fst (pgSubscribe ''r'' 0 exampleWorld))\<lparr>pw_log := [exampleEvent], pw_out := [exampleEvent], pw_seq := 1, pw_phase := Waiting\<rparr>"

lemma example_steps: "(pgStep ''r'' 0)\<^sup>*\<^sup>* (fst (pgSubscribe ''r'' 0 exampleWorld)) exampleEnd"
proof -
  let ?w1 = "fst (pgSubscribe ''r'' 0 exampleWorld)"
  let ?w2 = "?w1\<lparr>pw_log := [exampleEvent]\<rparr>"
  let ?w3 = "?w2\<lparr>pw_phase := Sending [exampleEvent]\<rparr>"
  let ?w4 = "?w3\<lparr>pw_phase := Sending [], pw_out := [exampleEvent], pw_seq := 1\<rparr>"
  have w1: "pw_log ?w1 = []" "pw_conn ?w1 = Down" "pw_queue ?w1 = []" "pw_phase ?w1 = Querying" "pw_seq ?w1 = 0" "pw_out ?w1 = []"
    by (simp_all add: pgSubscribe_def exampleWorld_def split: prod.splits)
  have q: "?w1\<lparr>pw_log := [exampleEvent], pw_queue := []\<rparr> = ?w2" using w1(3) by simp
  have "pgAppend ?w1 ?w2"
    using appended [of ?w1 "[exampleEvent]"] w1 q by (simp add: growing_def)
  then have s1: "pgStep ''r'' 0 ?w1 ?w2" by (simp only: pgStep_def simp_thms)
  have "subscriberStep ''r'' 0 ?w2 ?w3"
    using queries [of ?w2 "''r''" 0] w1 by (simp add: eventsAfter_def exampleEvent_def)
  then have s2: "pgStep ''r'' 0 ?w2 ?w3" by (simp only: pgStep_def simp_thms)
  have "subscriberStep ''r'' 0 ?w3 ?w4"
    using sends [of ?w3 exampleEvent "[]" "''r''" 0] w1 by (simp add: exampleEvent_def)
  then have s3: "pgStep ''r'' 0 ?w3 ?w4" by (simp only: pgStep_def simp_thms)
  have "subscriberStep ''r'' 0 ?w4 exampleEnd"
    using settles [of ?w4 "''r''" 0] by (simp add: exampleEnd_def)
  then have s4: "pgStep ''r'' 0 ?w4 exampleEnd" by (simp only: pgStep_def simp_thms)
  have "(pgStep ''r'' 0)\<^sup>*\<^sup>* ?w3 exampleEnd" by (rule converse_rtranclp_into_rtranclp, rule s3, rule r_into_rtranclp, rule s4)
  then show ?thesis using s1 s2 by (metis converse_rtranclp_into_rtranclp)
qed

theorem pg_subscriber_misses_nothing_witness:
  "prefix (pw_out exampleEnd) (wanted ''r'' 0 exampleEnd) \<and> pw_out exampleEnd = [exampleEvent] \<and>
    (\<exists>w'. (subscriberStep ''r'' 0)\<^sup>*\<^sup>* exampleEnd w' \<and> pw_out w' = wanted ''r'' 0 exampleEnd)"
proof -
  have "pgSubscribe ''r'' 0 exampleWorld = (fst (pgSubscribe ''r'' 0 exampleWorld), 0)"
    by (simp add: pgSubscribe_def exampleWorld_def newNotifier_def watch_def Let_def)
  with pg_subscriber_misses_nothing [of exampleWorld "''r''" 0 _ 0 exampleEnd] example_steps
  show ?thesis by (simp add: exampleWorld_def growing_def) (simp add: exampleEnd_def)
qed

end
