(* ===== verification/Migrate.thy ===== *)
theory Migrate
  imports Codecs
begin

text \<open>
  Schema migrations of the Postgres store (\<open>store/pg/migrate.go\<close>): the list of the embedded files, which
  must be numbered without gaps, and the transaction that applies those a database does not have yet.
  Running a statement is an argument.
\<close>

section \<open>The list\<close>

record migration =
  mg_version :: int
  mg_name :: string
  mg_sql :: string

datatype migrate_error = BadMigration string nat | ReadFailed string | StatementFailed int string

definition TrimSuffix :: "string \<Rightarrow> string \<Rightarrow> string" where
  "TrimSuffix p s = (if suffix p s then take (length s - length p) s else s)"

text \<open>\<open>strconv.Atoi\<close> of a text without a sign; with one, the number is not one of the list's.\<close>

definition digitValue :: "char \<Rightarrow> nat option" where
  "digitValue c = (let n = byte c in if 48 \<le> n \<and> n \<le> 57 then Some (n - 48) else None)"

fun digitsValue :: "nat \<Rightarrow> string \<Rightarrow> nat option" where
  "digitsValue acc [] = Some acc"
| "digitsValue acc (c # cs) = (case digitValue c of None \<Rightarrow> None | Some d \<Rightarrow> digitsValue (acc * 10 + d) cs)"

definition Atoi :: "string \<Rightarrow> int option" where
  "Atoi s =
    (let (sign, ds) = (case s of c # cs \<Rightarrow> if c = CHR ''-'' then (-1, cs) else if c = CHR ''+'' then (1, cs) else (1, s) | [] \<Rightarrow> (1, []))
     in if ds = [] then None
        else case digitsValue 0 ds of None \<Rightarrow> None
          | Some n \<Rightarrow> let v = sign * int n in if - (2 ^ 63) \<le> v \<and> v < 2 ^ 63 then Some v else None)"

text \<open>A file of the directory: its name and its content, or nothing if it cannot be read.\<close>

fun readMigrations :: "(string \<times> string option) list \<Rightarrow> migration list \<Rightarrow> migrate_error + migration list" where
  "readMigrations [] out = Inr out"
| "readMigrations ((file, content) # es) out =
    (case Cut (CHR ''_'') (TrimSuffix ''.sql'' file) of (num, name1, ok) \<Rightarrow>
      if \<not> ok \<or> Atoi num \<noteq> Some (int (length out) + 1) \<or> name1 = [] then Inl (BadMigration file (length out + 1))
      else case content of
        None \<Rightarrow> Inl (ReadFailed file)
      | Some sql \<Rightarrow> readMigrations es (out @ [\<lparr>mg_version = int (length out) + 1, mg_name = name1, mg_sql = sql\<rparr>]))"

definition migrations :: "(string \<times> string option) list \<Rightarrow> migrate_error + migration list" where
  "migrations es = readMigrations es []"

section \<open>Migrating\<close>

text \<open>A database: its schema and the versions it records, with their names.\<close>

record 's database =
  db_schema :: 's
  db_versions :: "(int \<times> string) list"

definition recordedVersion :: "'s database \<Rightarrow> int" where
  "recordedVersion db = fold max (map fst (db_versions db)) 0"

fun applyMigrations :: "(string \<Rightarrow> 's \<Rightarrow> 's option) \<Rightarrow> migration list \<Rightarrow> 's database \<Rightarrow> migrate_error + 's database" where
  "applyMigrations exec [] db = Inr db"
| "applyMigrations exec (m # ms) db =
    (case exec (mg_sql m) (db_schema db) of
       None \<Rightarrow> Inl (StatementFailed (mg_version m) (mg_name m))
     | Some s \<Rightarrow> applyMigrations exec ms (db\<lparr>db_schema := s, db_versions := db_versions db @ [(mg_version m, mg_name m)]\<rparr>))"

text \<open>
  One transaction under an advisory lock, which is rolled back unless it commits; the table of versions
  is there or is made with none.
\<close>

definition Migrate :: "(string \<Rightarrow> 's \<Rightarrow> 's option) \<Rightarrow> (string \<times> string option) list \<Rightarrow> 's database
    \<Rightarrow> 's database \<times> migrate_error option" where
  "Migrate exec es db =
    (case migrations es of
       Inl e \<Rightarrow> (db, Some e)
     | Inr ms \<Rightarrow>
        (case applyMigrations exec (drop (min (nat (recordedVersion db)) (length ms)) ms) db of
           Inl e \<Rightarrow> (db, Some e)
         | Inr db' \<Rightarrow> (db', None)))"

section \<open>What holds\<close>

definition numbered_from :: "nat \<Rightarrow> migration list \<Rightarrow> bool" where
  "numbered_from k ms \<longleftrightarrow> map mg_version ms = map (\<lambda>i. int i + 1) [k..<k + length ms]"

lemma readMigrations_numbered:
  "readMigrations es out = Inr ms \<Longrightarrow> numbered_from 0 out \<Longrightarrow> numbered_from 0 ms \<and> length ms = length out + length es \<and> prefix out ms"
proof (induction es out rule: readMigrations.induct)
  case (2 fname content es out)
  obtain num name1 ok where c: "Cut (CHR ''_'') (TrimSuffix ''.sql'' fname) = (num, name1, ok)"
    by (cases "Cut (CHR ''_'') (TrimSuffix ''.sql'' fname)")
  with 2(2) obtain sql where sql: "content = Some sql" "ok" "Atoi num = Some (int (length out) + 1)" "name1 \<noteq> []"
    "readMigrations es (out @ [\<lparr>mg_version = int (length out) + 1, mg_name = name1, mg_sql = sql\<rparr>]) = Inr ms"
    by (auto split: if_splits option.splits)
  have "numbered_from 0 (out @ [\<lparr>mg_version = int (length out) + 1, mg_name = name1, mg_sql = sql\<rparr>])"
    using 2(3) by (simp add: numbered_from_def)
  from 2(1) [OF c [symmetric] refl _ sql(1) sql(5) this] sql(2-4) show ?case by (auto dest: append_prefixD)
qed (simp add: numbered_from_def)

text \<open>The versions a database records: those of the first migrations, in order.\<close>

definition versioned :: "nat \<Rightarrow> 's database \<Rightarrow> bool" where
  "versioned k db \<longleftrightarrow> map fst (db_versions db) = map (\<lambda>i. int i + 1) [0..<k]"

lemma recordedVersion_versioned: "versioned k db \<Longrightarrow> recordedVersion db = int k"
proof -
  have "fold max (map (\<lambda>i. int i + 1) [0..<k]) 0 = int k" by (induction k) simp_all
  then show "versioned k db \<Longrightarrow> recordedVersion db = int k" by (simp add: recordedVersion_def versioned_def)
qed

lemma applyMigrations_versioned:
  "applyMigrations exec ms db = Inr db' \<Longrightarrow> numbered_from k ms \<Longrightarrow> versioned k db \<Longrightarrow> versioned (k + length ms) db' \<and>
     db_versions db' = db_versions db @ map (\<lambda>m. (mg_version m, mg_name m)) ms"
proof (induction ms arbitrary: db k)
  case (Cons m ms)
  from Cons.prems(1) obtain s where s: "exec (mg_sql m) (db_schema db) = Some s"
    "applyMigrations exec ms (db\<lparr>db_schema := s, db_versions := db_versions db @ [(mg_version m, mg_name m)]\<rparr>) = Inr db'"
    by (auto split: option.splits)
  from Cons.prems(2) have m: "mg_version m = int k + 1" "numbered_from (Suc k) ms"
    unfolding numbered_from_def by (simp_all add: upt_conv_Cons del: upt_Suc)
  have "versioned (Suc k) (db\<lparr>db_schema := s, db_versions := db_versions db @ [(mg_version m, mg_name m)]\<rparr>)"
    using Cons.prems(3) m(1) by (simp add: versioned_def)
  from Cons.IH [OF s(2) m(2) this] show ?case by simp
qed (simp add: versioned_def)

text \<open>
  A database at version \<open>k\<close> gets the migrations after the \<open>k\<close>-th, each once and in order, or, if one fails,
  stays as it was; a database that has them all or more stays as it was, so that migrating again, or two
  replicas one after the other, changes nothing.
\<close>

theorem migrations_apply_once:
  assumes "versioned k db" and "migrations es = Inr ms" and "Migrate exec es db = (db', err)"
  shows "(err \<noteq> None \<longrightarrow> db' = db) \<and>
    (err = None \<longrightarrow> versioned (max k (length ms)) db' \<and>
       applyMigrations exec (drop k ms) db = Inr db' \<and>
       db_versions db' = db_versions db @ map (\<lambda>m. (mg_version m, mg_name m)) (drop k ms) \<and>
       Migrate exec es db' = (db', None))"
proof -
  have numbers: "numbered_from 0 ms" using readMigrations_numbered [of es "[]" ms] assms(2)
    by (simp add: migrations_def numbered_from_def)
  have cut: "drop (min (nat (recordedVersion x)) (length ms)) ms = drop j ms" if "versioned j x" for j and x :: "'a database"
    using recordedVersion_versioned [OF that] by (cases "j \<le> length ms") (simp_all add: min_def)
  show ?thesis
  proof (cases "applyMigrations exec (drop k ms) db")
    case (Inl e)
    with assms cut [OF assms(1)] show ?thesis by (auto simp: Migrate_def)
  next
    case (Inr x)
    with assms cut [OF assms(1)] have x: "db' = x" "err = None" by (auto simp: Migrate_def)
    have "numbered_from k (drop k ms)"
      using arg_cong [OF numbers [unfolded numbered_from_def], of "drop k"]
      by (cases "k \<le> length ms") (simp_all add: numbered_from_def drop_map)
    from applyMigrations_versioned [OF Inr this assms(1)]
    have v: "versioned (max k (length ms)) x" "db_versions x = db_versions db @ map (\<lambda>m. (mg_version m, mg_name m)) (drop k ms)"
      by (cases "k \<le> length ms"; simp add: max_def)+
    have "Migrate exec es x = (x, None)" unfolding Migrate_def assms(2) using cut [OF v(1)] by (simp add: max_def)
    with Inr x v show ?thesis by simp
  qed
qed

end
