(* ===== verification/Spec2Isabelle.thy ===== *)
theory Spec2Isabelle
  imports BudgetSafety LoopDetection Semaphores Subscriptions Retention ApiRules Delegation CostGate Conversation Reexecution
    Config Redaction EventStream MemoryTools RunHandlers
    RunWatch Secrets Builtins McpClient Ollama Seal Notifier Migrate
begin

text \<open>
  Verification library for agent-loop: an orchestrator that runs LLM agents in sessions, with
  budgets, policies, approvals, workflows and an append-only event log.
\<close>

end
